(* ===== verification/Prelude.thy ===== *)
theory Prelude
  imports Main "HOL-Library.AList"
begin

text \<open>
  Shared vocabulary of the development.

  \<^item> Effects: a method of the Python code that reads and writes its object, calls the outside
    world and may raise is a function from the state to a result and a new state, where the
    result is \<open>Inl\<close> of the exception or \<open>Inr\<close> of the value (\<open>eff\<close>). The combinators
    \<open>eret\<close>, \<open>eraise\<close>, \<open>ebind\<close>, \<open>eseq\<close>, \<open>etry\<close>, \<open>efor\<close> are
    \<open>return\<close>, \<open>raise\<close>, sequencing, \<open>try .. except\<close> and \<open>for\<close>. The state
    survives an exception, as it does in Python.
  \<^item> Frames: \<open>frames R m\<close> says that every run of \<open>m\<close> relates the state before to the
    state after by \<open>R\<close>. The locale \<open>effect_frame\<close> proves once, for every preorder
    \<open>R\<close>, that the combinators preserve frames; invariants, frame conditions and the growth
    of the output trace are its interpretations.
  \<^item> Strings: the decimal printing and parsing of integers and the string methods the code uses
    (\<open>split\<close>, \<open>rsplit\<close>, \<open>strip\<close>, \<open>startswith\<close>).
  \<^item> Dictionaries are association lists in insertion order, written with \<open>AList.update\<close>,
    which overwrites in place or appends at the end as a Python dict does.
\<close>

section \<open>Exceptions\<close>

text \<open>
  The exceptions the modelled code raises or meets. \<open>Blocked\<close> is none of them: it is the
  outcome of a process that waits for a message that never comes. \<open>NamedError\<close> is an exception
  class that a module defines, by its name.
\<close>

datatype pyexc =
    KeyError
  | IndexError
  | ValueError string
  | TypeError
  | AttributeError string
  | MachineError string
  | ConfigDBError string
  | AssertionError
  | StructError
  | StopIteration
  | OSError
  | ZmqError
  | JSONDecodeError
  | RuntimeError string
  | NameError string
  | NamedError string
  | Blocked

section \<open>Effects\<close>

type_synonym ('s, 'a) eff = "'s \<Rightarrow> (pyexc + 'a) \<times> 's"

definition eret :: "'a \<Rightarrow> ('s, 'a) eff" where
  "eret x = (\<lambda>s. (Inr x, s))"

definition eraise :: "pyexc \<Rightarrow> ('s, 'a) eff" where
  "eraise e = (\<lambda>s. (Inl e, s))"

definition elift :: "pyexc + 'a \<Rightarrow> ('s, 'a) eff" where
  "elift r = (\<lambda>s. (r, s))"

definition eget :: "('s \<Rightarrow> 'a) \<Rightarrow> ('s, 'a) eff" where
  "eget f = (\<lambda>s. (Inr (f s), s))"

definition emod :: "('s \<Rightarrow> 's) \<Rightarrow> ('s, unit) eff" where
  "emod f = (\<lambda>s. (Inr (), f s))"

definition ebind :: "('s, 'a) eff \<Rightarrow> ('a \<Rightarrow> ('s, 'b) eff) \<Rightarrow> ('s, 'b) eff" where
  "ebind m f = (\<lambda>s. case m s of (Inl e, s') \<Rightarrow> (Inl e, s') | (Inr x, s') \<Rightarrow> f x s')"

definition eseq :: "('s, 'a) eff \<Rightarrow> ('s, 'b) eff \<Rightarrow> ('s, 'b) eff" where
  "eseq m n = ebind m (\<lambda>_. n)"

text \<open>\<open>try: m except e: h e\<close>; a handler that does not catch \<open>e\<close> raises it again.\<close>

definition etry :: "('s, 'a) eff \<Rightarrow> (pyexc \<Rightarrow> ('s, 'a) eff) \<Rightarrow> ('s, 'a) eff" where
  "etry m h = (\<lambda>s. case m s of (Inl e, s') \<Rightarrow> h e s' | (Inr x, s') \<Rightarrow> (Inr x, s'))"

text \<open>\<open>try: m except: h else: k\<close>; exceptions of \<open>k\<close> are not caught.\<close>

definition etry_else ::
    "('s, 'a) eff \<Rightarrow> (pyexc \<Rightarrow> ('s, 'b) eff) \<Rightarrow> ('a \<Rightarrow> ('s, 'b) eff) \<Rightarrow> ('s, 'b) eff" where
  "etry_else m h k = (\<lambda>s. case m s of (Inl e, s') \<Rightarrow> h e s' | (Inr x, s') \<Rightarrow> k x s')"

fun efor :: "('x \<Rightarrow> ('s, unit) eff) \<Rightarrow> 'x list \<Rightarrow> ('s, unit) eff" where
  "efor f [] = eret ()"
| "efor f (x # xs) = eseq (f x) (efor f xs)"

text \<open>A loop that carries a local variable.\<close>

fun efold :: "('x \<Rightarrow> 'a \<Rightarrow> ('s, 'a) eff) \<Rightarrow> 'x list \<Rightarrow> 'a \<Rightarrow> ('s, 'a) eff" where
  "efold f [] a = eret a"
| "efold f (x # xs) a = ebind (f x a) (efold f xs)"

definition ewhen :: "bool \<Rightarrow> ('s, unit) eff \<Rightarrow> ('s, unit) eff" where
  "ewhen b m = (if b then m else eret ())"

named_theorems eff_simps \<open>equations that run an effect on a state\<close>

lemma eret_run [eff_simps]: "eret x s = (Inr x, s)"
  by (simp add: eret_def)

lemma eraise_run [eff_simps]: "eraise e s = (Inl e, s)"
  by (simp add: eraise_def)

lemma elift_run [eff_simps]: "elift r s = (r, s)"
  by (simp add: elift_def)

lemma eget_run [eff_simps]: "eget f s = (Inr (f s), s)"
  by (simp add: eget_def)

lemma emod_run [eff_simps]: "emod f s = (Inr (), f s)"
  by (simp add: emod_def)

lemma ebind_run [eff_simps]:
  "ebind m f s = (case m s of (Inl e, s') \<Rightarrow> (Inl e, s') | (Inr x, s') \<Rightarrow> f x s')"
  by (simp add: ebind_def)

lemma eseq_run [eff_simps]:
  "eseq m n s = (case m s of (Inl e, s') \<Rightarrow> (Inl e, s') | (Inr x, s') \<Rightarrow> n s')"
  by (simp add: eseq_def ebind_def)

lemma etry_run [eff_simps]:
  "etry m h s = (case m s of (Inl e, s') \<Rightarrow> h e s' | (Inr x, s') \<Rightarrow> (Inr x, s'))"
  by (simp add: etry_def)

lemma etry_else_run [eff_simps]:
  "etry_else m h k s = (case m s of (Inl e, s') \<Rightarrow> h e s' | (Inr x, s') \<Rightarrow> k x s')"
  by (simp add: etry_else_def)

lemma ewhen_run [eff_simps]: "ewhen b m s = (if b then m s else (Inr (), s))"
  by (simp add: ewhen_def eret_def)

text \<open>Inversion of a normal return, for forward reasoning over a method body.\<close>

lemma ebind_InrD:
  assumes "ebind m f s = (Inr y, t)"
  obtains x u where "m s = (Inr x, u)" and "f x u = (Inr y, t)"
  using assms by (cases "m s") (auto simp: ebind_def split: sum.splits)

lemma eseq_InrD:
  assumes "eseq m n s = (Inr y, t)"
  obtains x u where "m s = (Inr x, u)" and "n u = (Inr y, t)"
  using assms by (cases "m s") (auto simp: eseq_def ebind_def split: sum.splits)

section \<open>Frames\<close>

definition frames :: "('s \<Rightarrow> 's \<Rightarrow> bool) \<Rightarrow> ('s, 'a) eff \<Rightarrow> bool" where
  "frames R m \<longleftrightarrow> (\<forall>s. R s (snd (m s)))"

lemma framesI: "(\<And>s. R s (snd (m s))) \<Longrightarrow> frames R m"
  by (simp add: frames_def)

lemma framesD: "frames R m \<Longrightarrow> m s = (r, t) \<Longrightarrow> R s t"
  by (metis frames_def snd_conv)

lemma frames_mod: "(\<And>s. R s (f s)) \<Longrightarrow> frames R (emod f)"
  by (simp add: frames_def emod_def)

lemma frames_if: "(b \<Longrightarrow> frames R m) \<Longrightarrow> (\<not> b \<Longrightarrow> frames R n) \<Longrightarrow> frames R (if b then m else n)"
  by simp

lemma frames_case_option:
  "(x = None \<Longrightarrow> frames R m) \<Longrightarrow> (\<And>y. x = Some y \<Longrightarrow> frames R (f y)) \<Longrightarrow>
    frames R (case x of None \<Rightarrow> m | Some y \<Rightarrow> f y)"
  by (cases x) auto

lemma frames_case_sum:
  "(\<And>e. x = Inl e \<Longrightarrow> frames R (g e)) \<Longrightarrow> (\<And>y. x = Inr y \<Longrightarrow> frames R (f y)) \<Longrightarrow>
    frames R (case x of Inl e \<Rightarrow> g e | Inr y \<Rightarrow> f y)"
  by (cases x) auto

lemma frames_case_prod:
  "(\<And>y z. x = (y, z) \<Longrightarrow> frames R (f y z)) \<Longrightarrow> frames R (case x of (y, z) \<Rightarrow> f y z)"
  by (cases x) auto

lemma frames_case_list:
  "(x = [] \<Longrightarrow> frames R m) \<Longrightarrow> (\<And>y ys. x = y # ys \<Longrightarrow> frames R (f y ys)) \<Longrightarrow>
    frames R (case x of [] \<Rightarrow> m | y # ys \<Rightarrow> f y ys)"
  by (cases x) auto

lemma frames_Let: "(\<And>y. frames R (f y)) \<Longrightarrow> frames R (Let x f)"
  by (simp add: Let_def)

lemmas frames_splits =
  frames_if frames_case_option frames_case_sum frames_case_prod frames_case_list frames_Let

text \<open>
  A preorder on states is a frame for a whole program as soon as it is one for the primitive
  updates: the combinators keep it.
\<close>

locale effect_frame =
  fixes R :: "'s \<Rightarrow> 's \<Rightarrow> bool"
  assumes R_refl: "R s s"
    and R_trans: "R s t \<Longrightarrow> R t u \<Longrightarrow> R s u"
begin

lemma frame_pure:
  "frames R (eret x)" "frames R (eraise e)" "frames R (elift r)" "frames R (eget f)"
  by (simp_all add: frames_def eret_def eraise_def elift_def eget_def R_refl)

lemma frame_bind:
  assumes m: "frames R m" and f: "\<And>x. frames R (f x)"
  shows "frames R (ebind m f)"
proof (rule framesI)
  fix s
  obtain r t where mt: "m s = (r, t)" by (cases "m s")
  have st: "R s t" using m mt by (rule framesD)
  show "R s (snd (ebind m f s))"
  proof (cases r)
    case (Inl e)
    then show ?thesis using mt st by (simp add: ebind_def)
  next
    case (Inr x)
    have "R t (snd (f x t))" using f [of x] by (simp add: frames_def)
    then show ?thesis using mt st Inr by (auto simp: ebind_def intro: R_trans)
  qed
qed

lemma frame_seq:
  assumes "frames R m" and "frames R n"
  shows "frames R (eseq m n)"
  unfolding eseq_def using assms by (intro frame_bind)

lemma frame_try:
  assumes m: "frames R m" and h: "\<And>e. frames R (h e)"
  shows "frames R (etry m h)"
proof (rule framesI)
  fix s
  obtain r t where mt: "m s = (r, t)" by (cases "m s")
  have st: "R s t" using m mt by (rule framesD)
  show "R s (snd (etry m h s))"
  proof (cases r)
    case (Inl e)
    have "R t (snd (h e t))" using h [of e] by (simp add: frames_def)
    then show ?thesis using mt st Inl by (auto simp: etry_def intro: R_trans)
  next
    case (Inr x)
    then show ?thesis using mt st by (simp add: etry_def)
  qed
qed

lemma frame_try_else:
  assumes m: "frames R m" and h: "\<And>e. frames R (h e)" and k: "\<And>x. frames R (k x)"
  shows "frames R (etry_else m h k)"
proof (rule framesI)
  fix s
  obtain r t where mt: "m s = (r, t)" by (cases "m s")
  have st: "R s t" using m mt by (rule framesD)
  show "R s (snd (etry_else m h k s))"
  proof (cases r)
    case (Inl e)
    have "R t (snd (h e t))" using h [of e] by (simp add: frames_def)
    then show ?thesis using mt st Inl by (auto simp: etry_else_def intro: R_trans)
  next
    case (Inr x)
    have "R t (snd (k x t))" using k [of x] by (simp add: frames_def)
    then show ?thesis using mt st Inr by (auto simp: etry_else_def intro: R_trans)
  qed
qed

lemma frame_for:
  assumes "\<And>x. frames R (f x)"
  shows "frames R (efor f xs)"
  by (induction xs) (auto intro: frame_pure frame_seq assms)

lemma frame_fold:
  assumes "\<And>x a. frames R (f x a)"
  shows "frames R (efold f xs a)"
  by (induction xs arbitrary: a) (auto intro: frame_pure frame_bind assms)

lemma frame_when: "frames R m \<Longrightarrow> frames R (ewhen b m)"
  by (simp add: ewhen_def frame_pure)

lemmas frame_rules =
  frame_pure frame_bind frame_seq frame_try frame_try_else frame_for frame_fold frame_when

end

section \<open>Normal returns\<close>

text \<open>\<open>ensures Q m P\<close>: when \<open>m\<close> starts in \<open>Q\<close> and returns, \<open>P\<close> holds.\<close>

definition ensures :: "('s \<Rightarrow> bool) \<Rightarrow> ('s, 'a) eff \<Rightarrow> ('s \<Rightarrow> bool) \<Rightarrow> bool" where
  "ensures Q m P \<longleftrightarrow> (\<forall>s x t. Q s \<longrightarrow> m s = (Inr x, t) \<longrightarrow> P t)"

lemma ensuresD: "ensures Q m P \<Longrightarrow> Q s \<Longrightarrow> m s = (Inr x, t) \<Longrightarrow> P t"
  by (auto simp: ensures_def)

lemma ensures_pure:
  "ensures P (eret x) P" "ensures Q (eraise e) P'" "ensures P (elift r) P" "ensures P (eget f) P"
  by (simp_all add: ensures_def eff_simps)

lemma ensures_mod: "(\<And>s. Q s \<Longrightarrow> P (f s)) \<Longrightarrow> ensures Q (emod f) P"
  by (simp add: ensures_def eff_simps)

lemma ensures_bind: "ensures Q m R \<Longrightarrow> (\<And>x. ensures R (f x) P) \<Longrightarrow> ensures Q (ebind m f) P"
  unfolding ensures_def by (metis ebind_InrD)

lemma ensures_seq: "ensures Q m R \<Longrightarrow> ensures R n P \<Longrightarrow> ensures Q (eseq m n) P"
  unfolding eseq_def by (rule ensures_bind)

lemma ensures_if: "(b \<Longrightarrow> ensures Q m P) \<Longrightarrow> (\<not> b \<Longrightarrow> ensures Q n P) \<Longrightarrow> ensures Q (if b then m else n) P"
  by simp

lemma ensures_when: "ensures P m P \<Longrightarrow> ensures P (ewhen b m) P"
  by (simp add: ewhen_def ensures_pure)

lemma ensures_for: "(\<And>x. ensures P (f x) P) \<Longrightarrow> ensures P (efor f xs) P"
  by (induction xs) (auto intro: ensures_pure ensures_seq)

lemma ensures_fold: "(\<And>x a. ensures P (f x a) P) \<Longrightarrow> ensures P (efold f xs a) P"
  by (induction xs arbitrary: a) (auto intro: ensures_pure ensures_bind)

text \<open>Reads do not change the state, and an invariant passes through every composition.\<close>

lemma ensures_read:
  "(\<And>x. ensures Q (f x) P) \<Longrightarrow> ensures Q (ebind (eget g) f) P"
  "(\<And>x. ensures Q (f x) P) \<Longrightarrow> ensures Q (ebind (elift r) f) P"
  "(\<And>x. ensures Q (f x) P) \<Longrightarrow> ensures Q (ebind (ebind (eget h) elift) f) P"
  by (simp_all add: ensures_def eff_simps split: sum.splits)

lemma ensures_inv:
  "ensures P m P \<Longrightarrow> (\<And>x. ensures P (f x) P) \<Longrightarrow> ensures P (ebind m f) P"
  "ensures P m P \<Longrightarrow> ensures P n P \<Longrightarrow> ensures P (eseq m n) P"
  by (rule ensures_bind, assumption+) (rule ensures_seq, assumption+)

text \<open>A frame that keeps what \<open>P\<close> reads keeps \<open>P\<close>.\<close>

lemma ensures_frame: "frames R m \<Longrightarrow> (\<And>s t. R s t \<Longrightarrow> P s \<Longrightarrow> P t) \<Longrightarrow> ensures P m P"
  unfolding ensures_def by (metis framesD)

text \<open>\<open>yields P m\<close>: what \<open>m\<close> returns satisfies \<open>P\<close>.\<close>

definition yields :: "('a \<Rightarrow> bool) \<Rightarrow> ('s, 'a) eff \<Rightarrow> bool" where
  "yields P m \<longleftrightarrow> (\<forall>s x t. m s = (Inr x, t) \<longrightarrow> P x)"

lemma yieldsD: "yields P m \<Longrightarrow> m s = (Inr x, t) \<Longrightarrow> P x"
  by (auto simp: yields_def)

lemma yields_rules:
  "P x \<Longrightarrow> yields P (eret x)" "yields P (eraise e)"
  "(\<And>y. yields P (f y)) \<Longrightarrow> yields P (ebind m' f)" "yields P n \<Longrightarrow> yields P (eseq m'' n)"
  by (auto simp: yields_def eff_simps elim!: ebind_InrD eseq_InrD split: prod.splits sum.splits)

section \<open>Strings\<close>

text \<open>Decimal printing (\<open>str(n)\<close>, \<open>'%d'\<close>) and parsing (\<open>int(s)\<close> on digit strings).\<close>

definition digit_char :: "nat \<Rightarrow> char" where
  "digit_char d = char_of (48 + d)"

definition char_digit :: "char \<Rightarrow> nat" where
  "char_digit c = of_char c - 48"

definition is_digit :: "char \<Rightarrow> bool" where
  "is_digit c \<longleftrightarrow> 48 \<le> (of_char c :: nat) \<and> (of_char c :: nat) \<le> 57"

fun nat_str :: "nat \<Rightarrow> string" where
  "nat_str n = (if n < 10 then [digit_char n] else nat_str (n div 10) @ [digit_char (n mod 10)])"

declare nat_str.simps [simp del]

definition int_str :: "int \<Rightarrow> string" where
  "int_str i = (if i < 0 then ''-'' @ nat_str (nat (- i)) else nat_str (nat i))"

definition digits_val :: "string \<Rightarrow> nat" where
  "digits_val cs = foldl (\<lambda>a c. 10 * a + char_digit c) 0 cs"

definition isnumeric :: "string \<Rightarrow> bool" where
  "isnumeric s \<longleftrightarrow> s \<noteq> [] \<and> list_all is_digit s"

lemma of_char_digit: "d < 10 \<Longrightarrow> of_char (digit_char d) = 48 + d"
  by (simp add: digit_char_def)

lemma is_digit_digit_char: "d < 10 \<Longrightarrow> is_digit (digit_char d)"
  by (simp add: is_digit_def of_char_digit)

lemma char_digit_digit_char: "d < 10 \<Longrightarrow> char_digit (digit_char d) = d"
  by (simp add: char_digit_def of_char_digit)

lemma nat_str_isnumeric: "isnumeric (nat_str n)"
proof (induction n rule: nat_str.induct)
  case (1 n)
  then show ?case
    by (subst nat_str.simps) (auto simp: isnumeric_def is_digit_digit_char)
qed

lemma digits_val_nat_str: "digits_val (nat_str n) = n"
proof (induction n rule: nat_str.induct)
  case (1 n)
  then show ?case
    by (subst nat_str.simps) (auto simp: digits_val_def char_digit_digit_char)
qed

lemma nat_str_inj: "nat_str m = nat_str n \<longleftrightarrow> m = n"
  by (metis digits_val_nat_str)

text \<open>\<open>s.split(c)\<close> with a one-character separator: always at least one piece.\<close>

fun split_on :: "char \<Rightarrow> string \<Rightarrow> string list" where
  "split_on c [] = [[]]"
| "split_on c (x # xs) =
     (if x = c then [] # split_on c xs
      else (case split_on c xs of [] \<Rightarrow> [[x]] | p # ps \<Rightarrow> (x # p) # ps))"

fun join_with :: "string \<Rightarrow> string list \<Rightarrow> string" where
  "join_with sep [] = []"
| "join_with sep [p] = p"
| "join_with sep (p # q # ps) = p @ sep @ join_with sep (q # ps)"

lemma split_on_nonempty: "split_on c s \<noteq> []"
  by (induction s) (auto split: list.splits)

lemma split_on_no_sep: "c \<notin> set p \<Longrightarrow> split_on c p = [p]"
  by (induction p) auto

lemma split_on_append: "c \<notin> set p \<Longrightarrow> split_on c (p @ c # r) = p # split_on c r"
  by (induction p) auto

lemma split_on_join:
  "ps \<noteq> [] \<Longrightarrow> (\<And>p. p \<in> set ps \<Longrightarrow> c \<notin> set p) \<Longrightarrow> split_on c (join_with [c] ps) = ps"
proof (induction ps rule: induct_list012)
  case 1
  then show ?case by simp
next
  case (2 p)
  then show ?case by (simp add: split_on_no_sep)
next
  case (3 p q ps)
  then show ?case by (simp add: split_on_append)
qed

text \<open>\<open>s.rsplit(c, 1)\<close>: split at the last separator, or the whole string as the one piece.\<close>

definition rsplit1 :: "char \<Rightarrow> string \<Rightarrow> string list" where
  "rsplit1 c s =
     (if c \<in> set s
      then [rev (tl (dropWhile (\<lambda>x. x \<noteq> c) (rev s))), rev (takeWhile (\<lambda>x. x \<noteq> c) (rev s))]
      else [s])"

lemma rsplit1_no_sep: "c \<notin> set s \<Longrightarrow> rsplit1 c s = [s]"
  by (simp add: rsplit1_def)

lemma takeWhile_sep: "c \<notin> set q \<Longrightarrow> takeWhile (\<lambda>x. x \<noteq> c) (q @ c # p) = q"
  by (induction q) auto

lemma dropWhile_sep: "c \<notin> set q \<Longrightarrow> dropWhile (\<lambda>x. x \<noteq> c) (q @ c # p) = c # p"
  by (induction q) auto

lemma rsplit1_append: "c \<notin> set q \<Longrightarrow> rsplit1 c (p @ c # q) = [p, q]"
  by (simp add: rsplit1_def takeWhile_sep dropWhile_sep)

text \<open>\<open>s.split(sep, maxsplit=1)\<close>: split at the first separator.\<close>

definition split1 :: "char \<Rightarrow> string \<Rightarrow> string list" where
  "split1 c s =
     (if c \<in> set s then [takeWhile (\<lambda>x. x \<noteq> c) s, tl (dropWhile (\<lambda>x. x \<noteq> c) s)] else [s])"

text \<open>The characters \<open>str.strip()\<close> removes, for one-byte characters.\<close>

definition is_space :: "char \<Rightarrow> bool" where
  "is_space c \<longleftrightarrow> (let n = (of_char c :: nat)
     in 9 \<le> n \<and> n \<le> 13 \<or> 28 \<le> n \<and> n \<le> 32 \<or> n = 133 \<or> n = 160)"

definition lstrip :: "string \<Rightarrow> string" where
  "lstrip s = dropWhile is_space s"

definition strip :: "string \<Rightarrow> string" where
  "strip s = rev (lstrip (rev (lstrip s)))"

text \<open>\<open>s.split()\<close>: the maximal runs of other characters.\<close>

fun split_ws_acc :: "string \<Rightarrow> string \<Rightarrow> string list" where
  "split_ws_acc acc [] = (if acc = [] then [] else [rev acc])"
| "split_ws_acc acc (x # xs) =
     (if is_space x then (if acc = [] then split_ws_acc [] xs else rev acc # split_ws_acc [] xs)
      else split_ws_acc (x # acc) xs)"

definition split_ws :: "string \<Rightarrow> string list" where
  "split_ws s = split_ws_acc [] s"

definition startswith :: "string \<Rightarrow> string \<Rightarrow> bool" where
  "startswith s p \<longleftrightarrow> take (length p) s = p"

definition endswith :: "string \<Rightarrow> string \<Rightarrow> bool" where
  "endswith s p \<longleftrightarrow> startswith (rev s) (rev p)"

text \<open>\<open>os.path.dirname\<close> and \<open>os.path.join\<close>\<close>

definition dirname :: "string \<Rightarrow> string" where
  "dirname p =
     (let head = rev (dropWhile (\<lambda>c. c \<noteq> CHR ''/'') (rev p))
      in if list_all (\<lambda>c. c = CHR ''/'') head then head
         else rev (dropWhile (\<lambda>c. c = CHR ''/'') (rev head)))"

definition path_join :: "string \<Rightarrow> string \<Rightarrow> string" where
  "path_join dir f =
     (if startswith f ''/'' then f
      else if dir = [] \<or> endswith dir ''/'' then dir @ f else dir @ ''/'' @ f)"

section \<open>Dictionaries\<close>

text \<open>\<open>d.update(e)\<close>: the pairs of \<open>e\<close> stored one after the other.\<close>

definition dict_update :: "('k \<times> 'v) list \<Rightarrow> ('k \<times> 'v) list \<Rightarrow> ('k \<times> 'v) list" where
  "dict_update d e = foldl (\<lambda>acc (k, v). AList.update k v acc) d e"

lemma map_of_dict_update: "map_of (dict_update d e) = map_of d ++ map_of (rev e)"
proof (induction e arbitrary: d)
  case Nil
  then show ?case by (simp add: dict_update_def)
next
  case (Cons p e)
  obtain k v where p: "p = (k, v)" by (cases p)
  have "map_of (dict_update d (p # e)) = map_of (dict_update (AList.update k v d) e)"
    by (simp add: dict_update_def p)
  also have "\<dots> = (map_of d)(k \<mapsto> v) ++ map_of (rev e)"
    using Cons.IH [of "AList.update k v d"] by (simp only: update_conv')
  finally show ?case by (simp add: p map_add_def fun_eq_iff split: option.splits)
qed

text \<open>A set whose elements are iterated is a list without duplicates, in order of insertion.\<close>

definition set_add :: "'a \<Rightarrow> 'a list \<Rightarrow> 'a list" where
  "set_add x xs = (if x \<in> set xs then xs else xs @ [x])"

lemma set_set_add [simp]: "set (set_add x xs) = insert x (set xs)"
  by (auto simp: set_add_def)

lemma distinct_set_add: "distinct xs \<Longrightarrow> distinct (set_add x xs)"
  by (simp add: set_add_def)

text \<open>A dictionary read that raises \<open>KeyError\<close>.\<close>

definition dict_get :: "('k \<times> 'v) list \<Rightarrow> 'k \<Rightarrow> pyexc + 'v" where
  "dict_get d k = (case map_of d k of None \<Rightarrow> Inl KeyError | Some v \<Rightarrow> Inr v)"

lemma dict_get_Inr: "dict_get d k = Inr v \<longleftrightarrow> map_of d k = Some v"
  by (simp add: dict_get_def split: option.splits)

end
