(* ===== verification/PyJson.thy ===== *)
theory PyJson
  imports Prelude
begin

text \<open>
  JSON values as the control code sees them after \<open>recv_json\<close> or \<open>json.load\<close>: the
  Python objects None, bool, int, str, list and dict (numbers with a fraction do not occur in
  the modelled messages). A dict is an association list in insertion order. Reads raise the
  exception Python raises: \<open>d[k]\<close> is \<open>KeyError\<close> on a missing key and
  \<open>TypeError\<close> on a value that is not a dict, \<open>d.get\<close> and \<open>d.items\<close> are
  \<open>AttributeError\<close> on a value that is not a dict.
\<close>

datatype json =
    JNull
  | JBool bool
  | JInt int
  | JStr string
  | JList "json list"
  | JDict "(string \<times> json) list"

type_synonym item = "(string \<times> json) list"

section \<open>Sequencing of fallible pure computations\<close>

definition sbind :: "pyexc + 'a \<Rightarrow> ('a \<Rightarrow> pyexc + 'b) \<Rightarrow> pyexc + 'b" where
  "sbind r f = (case r of Inl e \<Rightarrow> Inl e | Inr x \<Rightarrow> f x)"

fun smap :: "('a \<Rightarrow> pyexc + 'b) \<Rightarrow> 'a list \<Rightarrow> pyexc + 'b list" where
  "smap f [] = Inr []"
| "smap f (x # xs) =
     (case f x of Inl e \<Rightarrow> Inl e
      | Inr y \<Rightarrow> (case smap f xs of Inl e \<Rightarrow> Inl e | Inr ys \<Rightarrow> Inr (y # ys)))"

fun sfold :: "('x \<Rightarrow> 'a \<Rightarrow> pyexc + 'a) \<Rightarrow> 'x list \<Rightarrow> 'a \<Rightarrow> pyexc + 'a" where
  "sfold f [] a = Inr a"
| "sfold f (x # xs) a = (case f x a of Inl e \<Rightarrow> Inl e | Inr b \<Rightarrow> sfold f xs b)"

lemma sbind_Inr: "sbind r f = Inr y \<longleftrightarrow> (\<exists>x. r = Inr x \<and> f x = Inr y)"
  by (cases r) (auto simp: sbind_def)

lemma smap_Inr: "smap f xs = Inr ys \<longleftrightarrow> list_all2 (\<lambda>x y. f x = Inr y) xs ys"
proof (induction xs arbitrary: ys)
  case Nil
  then show ?case by auto
next
  case (Cons x xs)
  show ?case by (auto simp: list_all2_Cons1 Cons.IH [symmetric] split: sum.splits)
qed

lemma smap_append_Inr:
  "smap f xs = Inr ys \<Longrightarrow> smap f (xs @ zs) = (case smap f zs of Inl e \<Rightarrow> Inl e | Inr ws \<Rightarrow> Inr (ys @ ws))"
  by (induction xs arbitrary: ys) (auto split: sum.splits)

section \<open>Reads and writes\<close>

text \<open>\<open>d[k]\<close>\<close>

fun jget :: "json \<Rightarrow> string \<Rightarrow> pyexc + json" where
  "jget (JDict d) k = dict_get d k"
| "jget _ k = Inl TypeError"

text \<open>\<open>d.get(k, dflt)\<close>\<close>

fun jget_default :: "json \<Rightarrow> string \<Rightarrow> json \<Rightarrow> pyexc + json" where
  "jget_default (JDict d) k v = Inr (case map_of d k of None \<Rightarrow> v | Some w \<Rightarrow> w)"
| "jget_default _ k v = Inl (AttributeError ''get'')"

text \<open>\<open>d.items()\<close>\<close>

fun jitems :: "json \<Rightarrow> pyexc + (string \<times> json) list" where
  "jitems (JDict d) = Inr d"
| "jitems _ = Inl (AttributeError ''items'')"

text \<open>\<open>k in d\<close> for a dict; the bodies of messages are dicts or None.\<close>

fun jhas :: "json \<Rightarrow> string \<Rightarrow> bool" where
  "jhas (JDict d) k = (map_of d k \<noteq> None)"
| "jhas _ k = False"

text \<open>\<open>d[k1][k2]\<close> and \<open>d[k] = v\<close>\<close>

definition jget2 :: "json \<Rightarrow> string \<Rightarrow> string \<Rightarrow> pyexc + json" where
  "jget2 j k1 k2 = sbind (jget j k1) (\<lambda>v. jget v k2)"

fun jset :: "json \<Rightarrow> string \<Rightarrow> json \<Rightarrow> pyexc + json" where
  "jset (JDict d) k v = Inr (JDict (AList.update k v d))"
| "jset _ k v = Inl TypeError"

text \<open>\<open>bool(j)\<close>, \<open>j == 1\<close> and \<open>j == 0\<close>; a bool is an int in Python.\<close>

fun truthy :: "json \<Rightarrow> bool" where
  "truthy JNull = False"
| "truthy (JBool b) = b"
| "truthy (JInt i) = (i \<noteq> 0)"
| "truthy (JStr s) = (s \<noteq> [])"
| "truthy (JList xs) = (xs \<noteq> [])"
| "truthy (JDict d) = (d \<noteq> [])"

fun is_one :: "json \<Rightarrow> bool" where
  "is_one (JInt i) = (i = 1)"
| "is_one (JBool b) = b"
| "is_one _ = False"

fun is_zero :: "json \<Rightarrow> bool" where
  "is_zero (JInt i) = (i = 0)"
| "is_zero (JBool b) = (\<not> b)"
| "is_zero _ = False"

lemma is_one_truthy: "is_one j \<Longrightarrow> truthy j"
  by (cases j) auto

text \<open>A string where the code formats or concatenates one; anything else is a \<open>TypeError\<close>.\<close>

fun jstring :: "json \<Rightarrow> pyexc + string" where
  "jstring (JStr s) = Inr s"
| "jstring _ = Inl TypeError"

text \<open>A number in arithmetic or under \<open>'%d'\<close>; a bool counts as 0 or 1.\<close>

fun jint :: "json \<Rightarrow> pyexc + int" where
  "jint (JInt i) = Inr i"
| "jint (JBool b) = Inr (of_bool b)"
| "jint _ = Inl TypeError"

text \<open>\<open>str(j)\<close> inside a message text; quotes inside strings are not escaped.\<close>

fun jrepr :: "json \<Rightarrow> string" where
  "jrepr JNull = ''None''"
| "jrepr (JBool b) = (if b then ''True'' else ''False'')"
| "jrepr (JInt i) = int_str i"
| "jrepr (JStr s) = [CHR 39] @ s @ [CHR 39]"
| "jrepr (JList xs) = ''['' @ join_with '', '' (map jrepr xs) @ '']''"
| "jrepr (JDict d) =
     ''{'' @ join_with '', '' (map (\<lambda>p. [CHR 39] @ fst p @ [CHR 39] @ '': '' @ jrepr (snd p)) d) @ ''}''"

definition jtext :: "json \<Rightarrow> string" where
  "jtext j = (case j of JStr s \<Rightarrow> s | _ \<Rightarrow> jrepr j)"

lemma zip_size_fst [termination_simp]:
  "(a, b) \<in> set (zip xs ys) \<Longrightarrow> size a < Suc (size_list size xs)"
  by (meson le_imp_less_Suc set_zip_leftD size_list_estimation' order_refl)

text \<open>Python's \<open>==\<close>: dicts compare without regard to order, a bool equals 0 or 1.\<close>

fun jeq :: "json \<Rightarrow> json \<Rightarrow> bool" where
  "jeq JNull b = (b = JNull)"
| "jeq (JBool x) b = (case b of JBool y \<Rightarrow> x = y | JInt i \<Rightarrow> i = of_bool x | _ \<Rightarrow> False)"
| "jeq (JInt i) b = (case b of JInt j \<Rightarrow> i = j | JBool y \<Rightarrow> i = of_bool y | _ \<Rightarrow> False)"
| "jeq (JStr s) b = (b = JStr s)"
| "jeq (JList xs) b =
     (case b of JList ys \<Rightarrow>
        length xs = length ys \<and> list_all (\<lambda>x. x) (map2 (\<lambda>x y. jeq x y) xs ys)
      | _ \<Rightarrow> False)"
| "jeq (JDict d) b =
     (case b of JDict e \<Rightarrow>
        length d = length e
        \<and> list_all (\<lambda>p. case map_of e (fst p) of None \<Rightarrow> False | Some w \<Rightarrow> jeq (snd p) w) d
      | _ \<Rightarrow> False)"

end
