(* ===== verification/ControlDef.thy ===== *)
theory ControlDef
  imports PyJson
begin

text \<open>
  \<^verbatim>\<open>psdaq/psdaq/control/ControlDef.py\<close>: the names the control system is built
  on (states, transitions, transition ids of the timing system, ports) and the messages its
  processes exchange. States and transitions are strings in the source and datatypes here, with
  \<open>state_name\<close>, \<open>trans_name\<close> giving the strings that appear in messages and
  \<open>state_of_name\<close>, \<open>trans_of_name\<close> the membership tests of request keys.
\<close>

section \<open>States and transitions\<close>

datatype daq_state =
    St_reset
  | St_unallocated
  | St_allocated
  | St_connected
  | St_configured
  | St_starting
  | St_paused
  | St_running

fun state_name :: "daq_state \<Rightarrow> string" where
  "state_name St_reset = ''reset''"
| "state_name St_unallocated = ''unallocated''"
| "state_name St_allocated = ''allocated''"
| "state_name St_connected = ''connected''"
| "state_name St_configured = ''configured''"
| "state_name St_starting = ''starting''"
| "state_name St_paused = ''paused''"
| "state_name St_running = ''running''"

definition states :: "daq_state list" where
  "states = [St_reset, St_unallocated, St_allocated, St_connected, St_configured, St_starting,
             St_paused, St_running]"

definition state_of_name :: "string \<Rightarrow> daq_state option" where
  "state_of_name n = find (\<lambda>s. state_name s = n) states"

datatype transition =
    Tr_rollcall
  | Tr_alloc
  | Tr_dealloc
  | Tr_connect
  | Tr_disconnect
  | Tr_configure
  | Tr_unconfigure
  | Tr_beginrun
  | Tr_endrun
  | Tr_beginstep
  | Tr_endstep
  | Tr_enable
  | Tr_disable
  | Tr_slowupdate
  | Tr_reset

fun trans_name :: "transition \<Rightarrow> string" where
  "trans_name Tr_rollcall = ''rollcall''"
| "trans_name Tr_alloc = ''alloc''"
| "trans_name Tr_dealloc = ''dealloc''"
| "trans_name Tr_connect = ''connect''"
| "trans_name Tr_disconnect = ''disconnect''"
| "trans_name Tr_configure = ''configure''"
| "trans_name Tr_unconfigure = ''unconfigure''"
| "trans_name Tr_beginrun = ''beginrun''"
| "trans_name Tr_endrun = ''endrun''"
| "trans_name Tr_beginstep = ''beginstep''"
| "trans_name Tr_endstep = ''endstep''"
| "trans_name Tr_enable = ''enable''"
| "trans_name Tr_disable = ''disable''"
| "trans_name Tr_slowupdate = ''slowupdate''"
| "trans_name Tr_reset = ''reset''"

definition transitions :: "transition list" where
  "transitions = [Tr_rollcall, Tr_alloc, Tr_dealloc, Tr_connect, Tr_disconnect, Tr_configure,
                  Tr_unconfigure, Tr_beginrun, Tr_endrun, Tr_beginstep, Tr_endstep, Tr_enable,
                  Tr_disable, Tr_slowupdate, Tr_reset]"

definition trans_of_name :: "string \<Rightarrow> transition option" where
  "trans_of_name n = find (\<lambda>t. trans_name t = n) transitions"

lemma state_of_name_name [simp]: "state_of_name (state_name s) = Some s"
  by (cases s) (simp_all add: state_of_name_def states_def)

lemma trans_of_name_name [simp]: "trans_of_name (trans_name t) = Some t"
  by (cases t) (simp_all add: trans_of_name_def transitions_def)

lemma state_of_name_Some: "state_of_name n = Some s \<longleftrightarrow> n = state_name s"
proof
  assume "state_of_name n = Some s"
  then show "n = state_name s" by (auto simp: state_of_name_def find_Some_iff)
qed simp

lemma trans_of_name_Some: "trans_of_name n = Some t \<longleftrightarrow> n = trans_name t"
proof
  assume "trans_of_name n = Some t"
  then show "n = trans_name t" by (auto simp: trans_of_name_def find_Some_iff)
qed simp

lemma state_name_inj: "state_name s = state_name t \<longleftrightarrow> s = t"
  by (metis state_of_name_name option.inject)

lemma trans_name_inj: "trans_name s = trans_name t \<longleftrightarrow> s = t"
  by (metis trans_of_name_name option.inject)

text \<open>\<open>ControlDef.transitionId\<close>: the transition ids written to the timing system.\<close>

datatype transition_id =
    TI_ClearReadout
  | TI_Reset
  | TI_Configure
  | TI_Unconfigure
  | TI_BeginRun
  | TI_EndRun
  | TI_BeginStep
  | TI_EndStep
  | TI_Enable
  | TI_Disable
  | TI_SlowUpdate
  | TI_L1Accept

fun transitionId :: "transition_id \<Rightarrow> int" where
  "transitionId TI_ClearReadout = 0"
| "transitionId TI_Reset = 1"
| "transitionId TI_Configure = 2"
| "transitionId TI_Unconfigure = 3"
| "transitionId TI_BeginRun = 4"
| "transitionId TI_EndRun = 5"
| "transitionId TI_BeginStep = 6"
| "transitionId TI_EndStep = 7"
| "transitionId TI_Enable = 8"
| "transitionId TI_Disable = 9"
| "transitionId TI_SlowUpdate = 10"
| "transitionId TI_L1Accept = 12"

section \<open>Messages\<close>

text \<open>
  A message has a header with its key, its id and the id of its sender (None for the control
  process itself) and a JSON body.
\<close>

record msg =
  m_key :: string
  m_id :: string
  m_sender :: "int option"
  m_body :: json

definition POSIX_TIME_AT_EPICS_EPOCH :: int where
  "POSIX_TIME_AT_EPICS_EPOCH = 631152000"

text \<open>\<open>'%0<w>d'\<close>\<close>

definition zpad :: "nat \<Rightarrow> int \<Rightarrow> string" where
  "zpad w i =
     (if i < 0 then ''-'' @ replicate (w - 1 - length (nat_str (nat (- i)))) (CHR ''0'') @ nat_str (nat (- i))
      else replicate (w - length (nat_str (nat i))) (CHR ''0'') @ nat_str (nat i))"

text \<open>The clock gives the POSIX seconds and the microseconds within the second.\<close>

definition timestampStr :: "int \<times> int \<Rightarrow> string" where
  "timestampStr now =
     (let nsec = 1000 * snd now;
          sec = fst now - POSIX_TIME_AT_EPICS_EPOCH
      in zpad 10 sec @ ''-'' @ zpad 9 nsec)"

text \<open>\<open>create_msg\<close>, with the clock reading a missing \<open>msg_id\<close> is made of.\<close>

definition create_msg ::
    "int \<times> int \<Rightarrow> string \<Rightarrow> string option \<Rightarrow> int option \<Rightarrow> json \<Rightarrow> msg" where
  "create_msg now key msg_id sender_id body =
     \<lparr>m_key = key,
      m_id = (case msg_id of None \<Rightarrow> timestampStr now | Some i \<Rightarrow> i),
      m_sender = sender_id,
      m_body = body\<rparr>"

definition error_msg :: "int \<times> int \<Rightarrow> json \<Rightarrow> msg" where
  "error_msg now message =
     create_msg now ''error'' None None (JDict [(''err_info'', message)])"

definition warning_msg :: "int \<times> int \<Rightarrow> json \<Rightarrow> msg" where
  "warning_msg now message =
     create_msg now ''warning'' None None (JDict [(''err_info'', message)])"

definition fileReport_msg :: "int \<times> int \<Rightarrow> json \<Rightarrow> msg" where
  "fileReport_msg now path =
     create_msg now ''fileReport'' None None (JDict [(''path'', path)])"

definition chunkRequest_msg :: "int \<times> int \<Rightarrow> json \<Rightarrow> msg" where
  "chunkRequest_msg now offset =
     create_msg now ''chunkRequest'' None None (JDict [(''offset'', offset)])"

text \<open>Times are in milliseconds; the message holds whole seconds.\<close>

definition progress_msg :: "int \<times> int \<Rightarrow> string \<Rightarrow> nat \<Rightarrow> nat \<Rightarrow> msg" where
  "progress_msg now tname elapsed_ms total_ms =
     create_msg now ''progress'' None None
       (JDict [(''transition'', JStr tname), (''elapsed'', JInt (int (elapsed_ms div 1000))),
               (''total'', JInt (int (total_ms div 1000)))])"

definition step_msg :: "int \<times> int \<Rightarrow> int \<Rightarrow> msg" where
  "step_msg now doneFlag =
     create_msg now ''step'' None None (JDict [(''step_done'', JInt doneFlag)])"

section \<open>Ports\<close>

definition PORT_BASE :: int where
  "PORT_BASE = 29980"

definition back_pull_port :: "int \<Rightarrow> int" where
  "back_pull_port platform = PORT_BASE + platform"

definition back_pub_port :: "int \<Rightarrow> int" where
  "back_pub_port platform = PORT_BASE + platform + 10"

definition front_rep_port :: "int \<Rightarrow> int" where
  "front_rep_port platform = PORT_BASE + platform + 20"

definition front_pub_port :: "int \<Rightarrow> int" where
  "front_pub_port platform = PORT_BASE + platform + 30"

definition fast_rep_port :: "int \<Rightarrow> int" where
  "fast_rep_port platform = PORT_BASE + platform + 40"

definition step_pub_port :: "int \<Rightarrow> int" where
  "step_pub_port platform = PORT_BASE + platform + 50"

definition scan_pull_port :: "int \<Rightarrow> int" where
  "scan_pull_port platform = PORT_BASE + platform + 60"

definition all_ports :: "int \<Rightarrow> int list" where
  "all_ports p = [back_pull_port p, back_pub_port p, front_rep_port p, front_pub_port p,
                  fast_rep_port p, step_pub_port p, scan_pull_port p]"

lemmas port_defs = PORT_BASE_def back_pull_port_def back_pub_port_def front_rep_port_def
  front_pub_port_def fast_rep_port_def step_pub_port_def scan_pull_port_def

lemma in_all_ports: "q \<in> set (all_ports p) \<longleftrightarrow> (\<exists>k\<in>{0..6}. q = 29980 + p + 10 * k)"
proof -
  have "{0..6::int} = {0, 1, 2, 3, 4, 5, 6}" by auto
  then show ?thesis by (auto simp: all_ports_def port_defs)
qed

text \<open>
  The platforms the command line accepts (0 to 7) never share a port: the seven blocks of ten
  ports overlap for no pair of platforms.
\<close>

lemma ports_disjoint_platforms:
  assumes "0 \<le> p" "p < 8" "0 \<le> q" "q < 8" "p \<noteq> q"
  shows "set (all_ports p) \<inter> set (all_ports q) = {}"
proof -
  have "False" if "p + 10 * j = q + 10 * k" for j k :: int
    using that assms by presburger
  then show ?thesis by (auto simp: in_all_ports)
qed

lemma ports_distinct: "distinct (all_ports p)"
  by (simp add: all_ports_def port_defs)

end
