(* ===== verification/ControlState.thy ===== *)
theory ControlState
  imports ControlDef
begin

text \<open>
  The state of the control process (\<open>CollectionManager\<close>, \<open>DaqPVA\<close> and
  \<open>RunParams\<close> of \<^verbatim>\<open>psdaq/psdaq/control/control.py\<close>), the world it
  talks to and its primitive actions: publishing, reporting, PV puts, the reply collection of
  \<open>confirm_response\<close>, the processing of asynchronous reports.

  The libraries the code calls (zmq, p4p and epics, requests, the clock, the file system) are
  parameters: the record \<open>conf\<close> holds, beside the attributes that never change, functions that
  give the outcome of the n-th call of each kind, so a theorem over all \<open>conf\<close> holds for
  every behaviour of the outside. What the process sends out is recorded in \<open>out\<close>, in order.
  Logging is left out.
\<close>

section \<open>The outside world\<close>

datatype put_outcome = PutOk | PutTimeout | PutFailed

text \<open>
  An HTTP call raises (a \<open>RequestException\<close> or another exception, with a text) or returns a
  status, the decoded JSON (None when \<open>resp.json()\<close> raises) and whether the content type
  is \<^verbatim>\<open>application/json\<close>.
\<close>

datatype http_resp =
    HttpRaise bool string
  | HttpReply int "json option" bool

definition requests_codes_ok :: int where
  "requests_codes_ok = 200"

text \<open>
  One iteration of a polling loop: the milliseconds elapsed since the loop began, and what the
  socket delivered while it was polled (a decoded message, or a failed \<open>recv_json\<close>). A loop
  over a list of rounds is a loop that the deadline ends after the last round.
\<close>

datatype polled = Got msg | RecvError

record round =
  r_elapsed :: nat
  r_polled :: "polled list"

text \<open>A PV read: a value, NaN, None or a timeout.\<close>

datatype pv_value = PvVal json | PvNan | PvNone | PvTimeout

text \<open>A JSON file: empty, not JSON, or a document.\<close>

datatype jfile = JEmpty | JMalformed | JDoc json

record conf =
  c_platform :: int
  c_alias :: string
  c_cfg_dbase :: string
  c_trigger_config :: string
  c_xpm_master :: int
  c_pv_base :: string
  c_slow_update_rate :: int
  c_phase2_timeout :: nat
  c_rollcall_timeout :: nat
  c_activedetfilename :: string
  c_instrument :: string
  c_station :: int
  c_url :: string
  c_user :: string
  c_logbook_path :: string
  c_hostname :: string
  c_pid :: int
  c_clock :: "nat \<Rightarrow> int \<times> int"
  c_put :: "nat \<Rightarrow> string \<Rightarrow> int \<Rightarrow> put_outcome"
  c_recv :: "nat \<Rightarrow> round list"
  c_http :: "nat \<Rightarrow> http_resp"
  c_pv_get :: "nat \<Rightarrow> string list \<Rightarrow> pv_value list"
  c_caget :: "nat \<Rightarrow> string list \<Rightarrow> pv_value list"
  c_text_files :: "(string \<times> string list) list"
  c_can_write :: "string \<Rightarrow> bool"
  c_parse_text :: "json \<Rightarrow> jfile"
  c_getSelect :: "nat \<Rightarrow> item \<Rightarrow> string option"

text \<open>What the process does to the outside.\<close>

datatype obs =
    FrontPub msg
  | FrontRep msg
  | FrontRepEmpty
  | FastRep msg
  | BackPub string msg
  | StepPub msg
  | PvPut string int
  | HttpPost string json
  | HttpGet string
  | WriteFile string
  | Sleep nat

text \<open>The messages that answer a request, against those that are published.\<close>

fun is_reply :: "obs \<Rightarrow> bool" where
  "is_reply (FrontRep m) = True"
| "is_reply FrontRepEmpty = True"
| "is_reply (FastRep m) = True"
| "is_reply _ = False"

section \<open>The manager's state\<close>

type_synonym clients = "(int \<times> item) list"
type_synonym cmstate = "(string \<times> clients) list"

text \<open>
  The two REP sockets alternate between receiving a request and sending its reply;
  \<open>front_pending\<close> and \<open>fast_pending\<close> say that a reply is due. A send when none is
  due is a \<open>ZmqError\<close>.

  A run-parameter PV (\<open>PvInfo\<close>): its name and its description, if it has one.\<close>

record pv_info =
  pi_name :: string
  pi_desc :: "string option"

definition get_desc :: "pv_info \<Rightarrow> string" where
  "get_desc p = (case pi_desc p of None \<Rightarrow> pi_name p | Some d \<Rightarrow> d)"

record mgr =
  dstate :: daq_state
  cmstate_of :: cmstate
  ids :: "int set"
  history :: json
  phase1Info :: "(string \<times> json) list"
  groups :: int
  config_alias :: string
  lastTransition :: transition
  recording :: bool
  bypass_activedet :: bool
  slow_update_enabled :: bool
  experiment_name :: "string option"
  run_number :: "int option"
  last_run_number :: "int option"
  readoutCumulative :: int
  step_done :: bool
  pvListMsgHeader :: "string list"
  pvListXPM :: "string list"
  pvListL0Groups :: "string list option"
  rp_fileSet :: "string list"
  rp_pvaList :: "pv_info list"
  rp_caList :: "pv_info list"
  rp_recordedExperiments :: "string list option"
  jfiles :: "string \<Rightarrow> jfile option"
  out :: "obs list"
  n_clock :: nat
  n_put :: nat
  n_recv :: nat
  n_http :: nat
  n_get :: nat
  front_pending :: bool
  fast_pending :: bool

type_synonym 'a act = "(mgr, 'a) eff"

section \<open>Publishing and reporting\<close>

definition squote :: "string \<Rightarrow> string" where
  "squote s = [CHR 39] @ s @ [CHR 39]"

definition emit :: "obs \<Rightarrow> unit act" where
  "emit ob = emod (\<lambda>s. s\<lparr>out := out s @ [ob]\<rparr>)"

definition front_reply :: "msg \<Rightarrow> unit act" where
  "front_reply m = (\<lambda>s. if front_pending s
     then (Inr (), s\<lparr>out := out s @ [FrontRep m], front_pending := False\<rparr>) else (Inl ZmqError, s))"

definition front_reply_empty :: "unit act" where
  "front_reply_empty = (\<lambda>s. if front_pending s
     then (Inr (), s\<lparr>out := out s @ [FrontRepEmpty], front_pending := False\<rparr>) else (Inl ZmqError, s))"

definition fast_reply :: "msg \<Rightarrow> unit act" where
  "fast_reply m = (\<lambda>s. if fast_pending s
     then (Inr (), s\<lparr>out := out s @ [FastRep m], fast_pending := False\<rparr>) else (Inl ZmqError, s))"

definition now :: "conf \<Rightarrow> (int \<times> int) act" where
  "now C = ebind (eget n_clock) (\<lambda>n. eseq (emod (\<lambda>s. s\<lparr>n_clock := Suc n\<rparr>)) (eret (c_clock C n)))"

definition new_msg :: "conf \<Rightarrow> string \<Rightarrow> json \<Rightarrow> msg act" where
  "new_msg C key body = ebind (now C) (\<lambda>t. eret (create_msg t key None None body))"

definition report_error_json :: "conf \<Rightarrow> json \<Rightarrow> unit act" where
  "report_error_json C j = ebind (now C) (\<lambda>t. emit (FrontPub (error_msg t j)))"

definition report_error :: "conf \<Rightarrow> string \<Rightarrow> unit act" where
  "report_error C txt = report_error_json C (JStr txt)"

definition report_warning_json :: "conf \<Rightarrow> json \<Rightarrow> unit act" where
  "report_warning_json C j = ebind (now C) (\<lambda>t. emit (FrontPub (warning_msg t j)))"

definition report_warning :: "conf \<Rightarrow> string \<Rightarrow> unit act" where
  "report_warning C txt = report_warning_json C (JStr txt)"

definition progressReport :: "conf \<Rightarrow> nat \<Rightarrow> nat \<Rightarrow> string \<Rightarrow> unit act" where
  "progressReport C elapsed_ms total_ms progress_txt =
     ewhen (1000 \<le> elapsed_ms)
       (ebind (now C) (\<lambda>t. emit (FrontPub (progress_msg t progress_txt elapsed_ms total_ms))))"

section \<open>Process variables (DaqPVA)\<close>

definition pv_xpm_base :: "conf \<Rightarrow> string" where
  "pv_xpm_base C = c_pv_base C @ '':XPM:'' @ int_str (c_xpm_master C)"

definition pv_xpm_part_base :: "conf \<Rightarrow> string" where
  "pv_xpm_part_base C =
     c_pv_base C @ '':XPM:'' @ int_str (c_xpm_master C) @ '':PART:'' @ int_str (c_platform C)"

definition pvGroupL0Enable :: "conf \<Rightarrow> string" where
  "pvGroupL0Enable C = pv_xpm_base C @ '':GroupL0Enable''"

definition pvGroupL0Disable :: "conf \<Rightarrow> string" where
  "pvGroupL0Disable C = pv_xpm_base C @ '':GroupL0Disable''"

definition pvGroupMsgInsert :: "conf \<Rightarrow> string" where
  "pvGroupMsgInsert C = pv_xpm_base C @ '':GroupMsgInsert''"

definition pvGroupL0Reset :: "conf \<Rightarrow> string" where
  "pvGroupL0Reset C = pv_xpm_base C @ '':GroupL0Reset''"

definition pvStepGroups :: "conf \<Rightarrow> string" where
  "pvStepGroups C = pv_xpm_part_base C @ '':StepGroups''"

definition pvStepDone :: "conf \<Rightarrow> string" where
  "pvStepDone C = pv_xpm_part_base C @ '':StepDone''"

definition pvStepEnd :: "conf \<Rightarrow> string" where
  "pvStepEnd C = pv_xpm_part_base C @ '':StepEnd''"

definition pv_put :: "conf \<Rightarrow> string \<Rightarrow> int \<Rightarrow> bool act" where
  "pv_put C pvName val =
     ebind (eget n_put) (\<lambda>n.
     eseq (emod (\<lambda>s. s\<lparr>n_put := Suc n\<rparr>))
    (eseq (emit (PvPut pvName val))
       (case c_put C n pvName val of
          PutTimeout \<Rightarrow>
            eseq (report_error C (''self.ctxt.put('' @ squote pvName @ '', '' @ int_str val @ '') timed out''))
                 (eret False)
        | PutFailed \<Rightarrow>
            eseq (report_error C (''self.ctxt.put('' @ squote pvName @ '', '' @ int_str val @ '') failed''))
                 (eret False)
        | PutOk \<Rightarrow> eret True)))"

text \<open>A put whose result the code ignores, and a loop of such puts.\<close>

definition pv_put0 :: "conf \<Rightarrow> string \<Rightarrow> int \<Rightarrow> unit act" where
  "pv_put0 C pvName val = eseq (pv_put C pvName val) (eret ())"

definition pv_put_each :: "conf \<Rightarrow> string list \<Rightarrow> int \<Rightarrow> unit act" where
  "pv_put_each C pvs val = efor (\<lambda>pv. pv_put0 C pv val) pvs"

definition step_groups :: "conf \<Rightarrow> int \<Rightarrow> bool act" where
  "step_groups C gmask = pv_put C (pvStepGroups C) gmask"

definition group_run :: "conf \<Rightarrow> bool \<Rightarrow> bool act" where
  "group_run C enable =
     ebind (eget groups) (\<lambda>g.
       if enable then pv_put C (pvGroupL0Enable C) g else pv_put C (pvGroupL0Disable C) g)"

text \<open>\<open>groups & (1 << g)\<close> for the eight groups of a partition.\<close>

definition group_bits :: "int \<Rightarrow> nat list" where
  "group_bits gs = filter (\<lambda>g. bit gs g) [0..<8]"

fun step_groups_clear_loop :: "conf \<Rightarrow> nat list \<Rightarrow> bool \<Rightarrow> bool act" where
  "step_groups_clear_loop C [] retval = eret retval"
| "step_groups_clear_loop C (g # gs) retval =
     ebind (pv_put C (pv_xpm_base C @ '':PART:'' @ nat_str g @ '':StepGroups'') 0)
       (\<lambda>ok. step_groups_clear_loop C gs (retval \<and> ok))"

definition step_groups_clear :: "conf \<Rightarrow> int \<Rightarrow> bool act" where
  "step_groups_clear C gs = step_groups_clear_loop C (group_bits gs) True"

text \<open>The two puts that insert the message of the header PVs into the timing stream.\<close>

definition msg_insert :: "conf \<Rightarrow> unit act" where
  "msg_insert C =
     ebind (eget groups) (\<lambda>g.
     eseq (pv_put0 C (pvGroupMsgInsert C) g)
          (pv_put0 C (pvGroupMsgInsert C) 0))"

section \<open>The connected clients (cmstate)\<close>

definition level_keys :: "string list" where
  "level_keys = [''drp'', ''teb'', ''meb'', ''control'']"

text \<open>
  \<open>cmstate_levels\<close> builds its dict from a set of keys, whose order Python does not specify;
  the model keeps the order of \<open>cmstate\<close>.
\<close>

definition cmstate_levels :: "cmstate \<Rightarrow> cmstate" where
  "cmstate_levels cm = filter (\<lambda>(k, _). k \<in> set level_keys) cm"

definition active_flag :: "item \<Rightarrow> pyexc + bool" where
  "active_flag it = (case map_of it ''active'' of None \<Rightarrow> Inl KeyError | Some v \<Rightarrow> Inr (is_one v))"

text \<open>The clients of a level with the active flag set.\<close>

fun active_clients :: "clients \<Rightarrow> pyexc + clients" where
  "active_clients [] = Inr []"
| "active_clients ((xid, it) # cs) =
     (case active_flag it of Inl e \<Rightarrow> Inl e
      | Inr act \<Rightarrow> (case active_clients cs of Inl e \<Rightarrow> Inl e
                     | Inr r \<Rightarrow> Inr (if act then (xid, it) # r else r)))"

fun filter_active_levels :: "cmstate \<Rightarrow> pyexc + cmstate" where
  "filter_active_levels [] = Inr []"
| "filter_active_levels ((level, cs) # cm) =
     (case active_clients cs of Inl e \<Rightarrow> Inl e
      | Inr r \<Rightarrow> (case filter_active_levels cm of Inl e \<Rightarrow> Inl e
                   | Inr rest \<Rightarrow> Inr ((level, r) # rest)))"

text \<open>\<open>filter_active_dict\<close>: a level without an active client has no entry.\<close>

definition filter_active_dict :: "cmstate \<Rightarrow> pyexc + cmstate" where
  "filter_active_dict old =
     (case filter_active_levels old of Inl e \<Rightarrow> Inl e
      | Inr new \<Rightarrow> Inr (filter (\<lambda>(_, cs). cs \<noteq> []) new))"

definition client_ids :: "cmstate \<Rightarrow> int set" where
  "client_ids cm = set (concat (map (\<lambda>(_, cs). map fst cs) cm))"

definition filter_active_set :: "cmstate \<Rightarrow> int set \<Rightarrow> pyexc + int set" where
  "filter_active_set cm is =
     (case filter_active_levels (cmstate_levels cm) of Inl e \<Rightarrow> Inl e
      | Inr act \<Rightarrow> Inr (client_ids act \<inter> is))"

definition filter_level :: "cmstate \<Rightarrow> string \<Rightarrow> int set \<Rightarrow> int set" where
  "filter_level cm prefix is =
     client_ids (filter (\<lambda>(level, _). startswith level prefix) (cmstate_levels cm)) \<inter> is"

definition proc_alias :: "item \<Rightarrow> pyexc + string" where
  "proc_alias it = sbind (dict_get it ''proc_info'') (\<lambda>p. sbind (jget p ''alias'') jstring)"

text \<open>
  \<open>get_aliases\<close> of one client: its alias, or level, pid and host when it has none. An alias that
  is not a string (which the collection clients never send) is a \<open>TypeError\<close> here.
\<close>

definition client_alias :: "string \<Rightarrow> item \<Rightarrow> pyexc + string" where
  "client_alias level it =
     sbind (dict_get it ''proc_info'') (\<lambda>p.
       case jget p ''alias'' of
         Inr a \<Rightarrow> jstring a
       | Inl KeyError \<Rightarrow>
           sbind (jget p ''pid'') (\<lambda>pid. sbind (jget p ''host'') (\<lambda>host.
             Inr (level @ ''/'' @ jtext pid @ ''/'' @ jtext host)))
       | Inl e \<Rightarrow> Inl e)"

definition get_aliases :: "cmstate \<Rightarrow> int option set \<Rightarrow> pyexc + string list" where
  "get_aliases cm id_list =
     smap (\<lambda>(level, it). client_alias level it)
       (concat (map (\<lambda>(level, cs).
          map (\<lambda>(_, it). (level, it))
            (filter (\<lambda>(xid, it). Some xid \<in> id_list \<and> map_of it ''proc_info'' \<noteq> None) cs))
          (cmstate_levels cm)))"

text \<open>\<open>self.cmstate[level][id].update(item)\<close>\<close>

definition cm_update :: "cmstate \<Rightarrow> string \<Rightarrow> int \<Rightarrow> (item \<Rightarrow> item) \<Rightarrow> pyexc + cmstate" where
  "cm_update cm level xid f =
     (case map_of cm level of None \<Rightarrow> Inl KeyError
      | Some cs \<Rightarrow> (case map_of cs xid of None \<Rightarrow> Inl KeyError
                     | Some it \<Rightarrow> Inr (AList.update level (AList.update xid (f it) cs) cm)))"

definition map_cm :: "(cmstate \<Rightarrow> pyexc + cmstate) \<Rightarrow> unit act" where
  "map_cm f = (\<lambda>s. case f (cmstate_of s) of Inl e \<Rightarrow> (Inl e, s) | Inr cm \<Rightarrow> (Inr (), s\<lparr>cmstate_of := cm\<rparr>))"

definition active_ids :: "int set act" where
  "active_ids = ebind (eget (\<lambda>s. filter_active_set (cmstate_of s) (ids s))) elift"

definition aliases_of :: "int option set \<Rightarrow> string list act" where
  "aliases_of is = ebind (eget (\<lambda>s. get_aliases (cmstate_of s) is)) elift"

section \<open>Collecting replies\<close>

definition report_keys :: "string list" where
  "report_keys = [''error'', ''warning'', ''fileReport'']"

text \<open>
  \<open>wait_for_answers\<close>: asynchronous reports pass; other messages pass when they carry the expected
  id, which is the first message's when none was given.
\<close>

fun wait_for_answers :: "string option \<Rightarrow> polled list \<Rightarrow> msg list" where
  "wait_for_answers msg_id [] = []"
| "wait_for_answers msg_id (RecvError # ps) = wait_for_answers msg_id ps"
| "wait_for_answers msg_id (Got m # ps) =
     (if m_key m \<in> set report_keys then m # wait_for_answers msg_id ps
      else let i = (case msg_id of None \<Rightarrow> m_id m | Some i \<Rightarrow> i)
           in if m_id m = i then m # wait_for_answers (Some i) ps else wait_for_answers (Some i) ps)"

definition is_error_reply :: "msg \<Rightarrow> bool" where
  "is_error_reply m \<longleftrightarrow> jhas (m_body m) ''err_info'' \<and> m_key m \<noteq> ''warning''"

type_synonym collected = "int option set \<times> msg list \<times> msg list \<times> bool"

text \<open>The inner loop of \<open>confirm_response\<close> over the messages of one poll.\<close>

fun confirm_msgs :: "msg list \<Rightarrow> collected \<Rightarrow> collected" where
  "confirm_msgs [] st = st"
| "confirm_msgs (m # ms) (is, msgs, reports, error_flag) =
     (let is1 = (if is_error_reply m then {m_sender m} else is);
          err1 = (error_flag \<or> is_error_reply m);
          st1 = (if m_key m \<in> set report_keys then (is1, msgs, reports @ [m], err1)
                 else if m_sender m \<in> is1 then (is1 - {m_sender m}, msgs @ [m], reports, err1)
                 else (is1, msgs, reports, err1))
      in if err1 \<or> fst st1 = {} then st1 else confirm_msgs ms st1)"

fun confirm_loop ::
    "conf \<Rightarrow> nat \<Rightarrow> string option \<Rightarrow> string option \<Rightarrow> round list \<Rightarrow> collected \<Rightarrow> collected act" where
  "confirm_loop C wait_time msg_id progress_txt [] st = eret st"
| "confirm_loop C wait_time msg_id progress_txt (r # rs) (is, msgs, reports, error_flag) =
     (if is = {} \<or> error_flag then eret (is, msgs, reports, error_flag)
      else eseq (case progress_txt of None \<Rightarrow> eret ()
                 | Some txt \<Rightarrow> progressReport C (r_elapsed r) wait_time txt)
             (confirm_loop C wait_time msg_id progress_txt rs
               (confirm_msgs (wait_for_answers msg_id (r_polled r)) (is, msgs, reports, error_flag))))"

definition next_rounds :: "conf \<Rightarrow> round list act" where
  "next_rounds C = ebind (eget n_recv) (\<lambda>n. eseq (emod (\<lambda>s. s\<lparr>n_recv := Suc n\<rparr>)) (eret (c_recv C n)))"

definition confirm_response ::
    "conf \<Rightarrow> nat \<Rightarrow> string option \<Rightarrow> int set \<Rightarrow> string option \<Rightarrow>
     (int option set \<times> msg list \<times> msg list) act" where
  "confirm_response C wait_time msg_id is progress_txt =
     ebind (next_rounds C) (\<lambda>rs.
     ebind (confirm_loop C wait_time msg_id progress_txt rs (Some ` is, [], [], False))
       (\<lambda>(missing, msgs, reports, _). eret (missing, msgs, reports)))"

text \<open>\<open>check_answers\<close>: report and count the errors among the replies.\<close>

fun check_answers :: "conf \<Rightarrow> msg list \<Rightarrow> nat act" where
  "check_answers C [] = eret 0"
| "check_answers C (a # as) =
     ebind (etry
       (ebind (elift (jget (m_body a) ''err_info'')) (\<lambda>err_msg.
        ebind (aliases_of {m_sender a}) (\<lambda>al.
          if al = [] then eraise IndexError
          else eseq (report_error C (last al @ '': '' @ jtext err_msg)) (eret 1))))
       (\<lambda>e. if e = KeyError then eret 0 else eraise e))
     (\<lambda>k. ebind (check_answers C as) (\<lambda>n. eret (k + n)))"

section \<open>The logbook and asynchronous reports\<close>

definition next_http :: "conf \<Rightarrow> obs \<Rightarrow> http_resp act" where
  "next_http C req =
     eseq (emit req)
    (ebind (eget n_http) (\<lambda>n. eseq (emod (\<lambda>s. s\<lparr>n_http := Suc n\<rparr>)) (eret (c_http C n))))"

text \<open>\<open>resp.json().get(key, dflt)\<close>\<close>

definition resp_get :: "json option \<Rightarrow> string \<Rightarrow> json \<Rightarrow> pyexc + json" where
  "resp_get body key dflt = (case body of None \<Rightarrow> Inl JSONDecodeError | Some j \<Rightarrow> jget_default j key dflt)"

definition register_file :: "conf \<Rightarrow> json \<Rightarrow> unit act" where
  "register_file C body =
     ebind (eget experiment_name) (\<lambda>expt.
       case expt of
         None \<Rightarrow> eraise (ConfigDBError ''register_file: experiment_name is None'')
       | Some ename \<Rightarrow>
           ebind (elift (jget body ''path'')) (\<lambda>path.
           ebind (now C) (\<lambda>t.
           eseq (emit (FrontPub (fileReport_msg t path)))
          (ebind (next_http C (HttpPost (c_url C @ ''lgbk/'' @ ename @ ''/ws/register_file'') body)) (\<lambda>resp.
             case resp of
               HttpRaise _ ex \<Rightarrow> eraise (ConfigDBError (''register_file error. HTTP request: '' @ ex))
             | HttpReply status j _ \<Rightarrow>
                 if status = requests_codes_ok
                 then ebind (elift (resp_get j ''success'' JNull)) (\<lambda>ok.
                        if truthy ok then eret () else eraise (ConfigDBError ''register_file failure''))
                 else eraise (ConfigDBError (''register_file error: status code '' @ int_str status)))))))"

text \<open>
  \<open>process_reports\<close>. The handler of a chunk request is a parameter: only \<open>service_status\<close>
  can meet that message, every other caller passes messages whose keys are report keys.
\<close>

definition process_report :: "conf \<Rightarrow> (json \<Rightarrow> unit act) \<Rightarrow> msg \<Rightarrow> unit act" where
  "process_report C handle_chunk m =
     etry
       (eseq
         (if m_key m = ''fileReport'' then register_file C (m_body m)
          else if m_key m = ''error''
          then ebind (elift (jget (m_body m) ''err_info'')) (report_error_json C)
          else if m_key m = ''warning''
          then ebind (elift (jget (m_body m) ''err_info'')) (report_warning_json C)
          else eret ())
         (ewhen (m_key m = ''chunkRequest'') (handle_chunk (m_body m))))
       (\<lambda>e. if e = KeyError then eret () else eraise e)"

definition process_reports :: "conf \<Rightarrow> (json \<Rightarrow> unit act) \<Rightarrow> msg list \<Rightarrow> unit act" where
  "process_reports C handle_chunk report_list = efor (process_report C handle_chunk) report_list"

definition no_chunk :: "json \<Rightarrow> unit act" where
  "no_chunk _ = eret ()"

end
