(* ===== verification/Logbook.thy ===== *)
theory Logbook
  imports ControlState
begin

text \<open>
  The HTTP calls of \<open>CollectionManager\<close> to the electronic logbook: the active experiment, the
  last run number, starting and ending a run, recording run parameters. Each records its request
  and branches on the reply as the code does; a reply that is not JSON raises
  \<open>JSONDecodeError\<close>, a JSON reply that is not an object raises \<open>AttributeError\<close>, where
  the code does not catch them. Experiment names are strings and run numbers are numbers or null,
  as the logbook sends them.
\<close>

section \<open>URLs\<close>

fun replace_str :: "string \<Rightarrow> string \<Rightarrow> string \<Rightarrow> string" where
  "replace_str old new [] = []"
| "replace_str old new (c # cs) =
     (if old \<noteq> [] \<and> startswith (c # cs) old
      then new @ replace_str old new (drop (length old - 1) cs)
      else c # replace_str old new cs)"

definition slash_url :: "string \<Rightarrow> string" where
  "slash_url u = (if endswith u ''/'' then u else u @ ''/'')"

text \<open>The reads need no authentication and go to a URL without the authenticating prefix.\<close>

definition noauth_url :: "string \<Rightarrow> string" where
  "noauth_url u = replace_str ''ws-kerb'' ''ws'' (replace_str ''ws-auth'' ''ws'' u)"

definition run_control_url :: "conf \<Rightarrow> string \<Rightarrow> string" where
  "run_control_url C ename = slash_url (c_url C) @ ''run_control/'' @ ename @ ''/ws/''"

fun json_int :: "json \<Rightarrow> int option" where
  "json_int (JInt i) = Some i"
| "json_int _ = None"

fun json_str :: "json \<Rightarrow> string option" where
  "json_str (JStr s) = Some s"
| "json_str _ = None"

section \<open>Runs\<close>

definition start_run :: "conf \<Rightarrow> string \<Rightarrow> int option act" where
  "start_run C ename =
     ebind (next_http C (HttpPost (run_control_url C ename @ ''start_run'') JNull)) (\<lambda>resp.
       case resp of
         HttpRaise _ _ \<Rightarrow> eraise (RuntimeError ''start_run error'')
       | HttpReply status j _ \<Rightarrow>
           if status = requests_codes_ok
           then ebind (elift (resp_get j ''success'' JNull)) (\<lambda>ok.
                  if truthy ok
                  then ebind (elift (sbind (resp_get j ''value'' (JDict []))
                                      (\<lambda>v. jget_default v ''num'' JNull)))
                         (\<lambda>num. eret (json_int num))
                  else eraise (RuntimeError ''start_run error''))
           else eseq (report_error C (''start_run (user='' @ c_user C @ '') error: status code '' @ int_str status))
                     (eraise (RuntimeError ''start_run error'')))"

definition end_run :: "conf \<Rightarrow> string \<Rightarrow> unit act" where
  "end_run C ename =
     ebind (next_http C (HttpPost (run_control_url C ename @ ''end_run'') JNull)) (\<lambda>resp.
       case resp of
         HttpRaise _ ex \<Rightarrow> report_error C (''end_run error (user='' @ c_user C @ ''): '' @ ex)
       | HttpReply status j _ \<Rightarrow>
           if status = requests_codes_ok
           then ebind (elift (resp_get j ''success'' JNull)) (\<lambda>ok.
                  if truthy ok then eret () else report_error C ''end_run error'')
           else report_error C (''end_run error (user='' @ c_user C @ ''): status code '' @ int_str status))"

text \<open>
  \<open>add_run_params\<close> and \<open>add_update_run_param_descriptions\<close> post a dict and return how many
  entries were recorded: all of them or none.
\<close>

definition post_params :: "conf \<Rightarrow> string \<Rightarrow> string \<Rightarrow> (string \<times> json) list \<Rightarrow> nat act" where
  "post_params C what ename params =
     (if length params = 0 then eret 0
      else ebind (next_http C (HttpPost (run_control_url C ename @ what) (JDict params))) (\<lambda>resp.
        case resp of
          HttpRaise _ ex \<Rightarrow>
            eseq (report_error C (what @ '' error (user='' @ c_user C @ ''): '' @ ex)) (eret 0)
        | HttpReply status j _ \<Rightarrow>
            if status = requests_codes_ok
            then ebind (elift (resp_get j ''success'' JNull)) (\<lambda>ok.
                   if truthy ok then eret (length params)
                   else eseq (report_error C (what @ '' error'')) (eret 0))
            else eseq (report_error C (what @ '' error (user='' @ c_user C @ ''): status code '' @ int_str status))
                      (eret 0)))"

definition add_run_params :: "conf \<Rightarrow> string \<Rightarrow> (string \<times> json) list \<Rightarrow> nat act" where
  "add_run_params C ename params = post_params C ''add_run_params'' ename params"

definition add_update_run_param_descriptions ::
    "conf \<Rightarrow> string \<Rightarrow> (string \<times> json) list \<Rightarrow> nat act" where
  "add_update_run_param_descriptions C ename params =
     post_params C ''add_update_run_param_descriptions'' ename params"

section \<open>Experiment and last run number\<close>

definition get_last_run_number :: "conf \<Rightarrow> string \<Rightarrow> int option act" where
  "get_last_run_number C ename =
     ebind (next_http C (HttpGet (slash_url (noauth_url (c_url C)) @ ''lgbk/'' @ ename @ ''/ws/current_run''))) (\<lambda>resp.
       case resp of
         HttpRaise _ _ \<Rightarrow> eret (Some 0)
       | HttpReply status j is_json \<Rightarrow>
           if status = requests_codes_ok \<and> is_json
           then (case j of
                   None \<Rightarrow> eret (Some 0)
                 | Some JNull \<Rightarrow> eret (Some 0)
                 | Some r \<Rightarrow>
                     ebind (elift (jget_default r ''value'' (JDict []))) (\<lambda>v.
                       if v = JNull then eret (Some 0)
                       else case jget_default v ''num'' (JInt 0) of
                              Inl _ \<Rightarrow> eret (Some 0)
                            | Inr num \<Rightarrow> eret (json_int num)))
           else eret (Some 0))"

definition get_experiment :: "conf \<Rightarrow> string option act" where
  "get_experiment C =
     ebind (next_http C (HttpGet (slash_url (noauth_url (c_url C))
              @ ''/lgbk/ws/activeexperiment_for_instrument_station''))) (\<lambda>resp.
       case resp of
         HttpRaise is_request_exception ex \<Rightarrow>
           if is_request_exception then eret None else eraise (RuntimeError ex)
       | HttpReply status j is_json \<Rightarrow>
           if status = requests_codes_ok \<and> is_json
           then (case j of
                   None \<Rightarrow> eret None
                 | Some r \<Rightarrow>
                     ebind (elift (sbind (jget_default r ''value'' (JDict []))
                                     (\<lambda>v. jget_default v ''name'' JNull)))
                       (\<lambda>name. eret (json_str name)))
           else eret None)"

end
