(* ===== verification/RunParams.thy ===== *)
theory RunParams
  imports Logbook
begin

text \<open>
  \<open>RunParams\<close>: the run parameters written to the logbook at \<open>beginrun\<close>. \<open>configure\<close>
  reads the run-parameter file and every file it includes (lines \<^verbatim>\<open><file, file\<close>)
  and collects the PVs they name, \<open>beginrun\<close> reads the PVs and records them together with the
  active detector segments. The text files are the finite association list \<open>c_text_files\<close>; sets
  of file names and of experiments are lists without duplicates (Python leaves the iteration order
  of a set open, the model iterates in insertion order).
\<close>

section \<open>Detector names and segments\<close>

text \<open>\<open>set2csv\<close>: the sorted elements, comma separated.\<close>

fun csv_append :: "string \<Rightarrow> nat list \<Rightarrow> string" where
  "csv_append seg_csv [] = seg_csv"
| "csv_append seg_csv (e # es) =
     csv_append (if length seg_csv = 0 then nat_str e else seg_csv @ '','' @ nat_str e) es"

definition set2csv :: "nat set \<Rightarrow> string" where
  "set2csv seg_set = csv_append '''' (sorted_list_of_set seg_set)"

definition detector_name :: "string \<Rightarrow> string" where
  "detector_name drp_alias = hd (rsplit1 (CHR ''_'') drp_alias)"

text \<open>\<open>segment_count\<close> counts until a missing key ends the loop.\<close>

fun segment_count_loop :: "string \<Rightarrow> bool \<Rightarrow> item list \<Rightarrow> nat \<Rightarrow> pyexc + nat" where
  "segment_count_loop det only_active [] n = Inr n"
| "segment_count_loop det only_active (v # vs) n =
     (case (if only_active then active_flag v else Inr True) of
        Inl e \<Rightarrow> Inr n
      | Inr False \<Rightarrow> segment_count_loop det only_active vs n
      | Inr True \<Rightarrow>
          (case proc_alias v of
             Inl KeyError \<Rightarrow> Inr n
           | Inl e \<Rightarrow> Inl e
           | Inr a \<Rightarrow> segment_count_loop det only_active vs (if det = detector_name a then Suc n else n)))"

definition segment_count :: "string \<Rightarrow> cmstate \<Rightarrow> bool \<Rightarrow> pyexc + nat" where
  "segment_count det_name platform_dict only_active =
     (case map_of platform_dict ''drp'' of
        None \<Rightarrow> Inr 0
      | Some cs \<Rightarrow> segment_count_loop det_name only_active (map snd cs) 0)"

section \<open>Include files\<close>

definition line_includes :: "string \<Rightarrow> string \<Rightarrow> string list" where
  "line_includes dir rawline =
     (let line = strip (hd (split_on (CHR ''#'') rawline))
      in if startswith line ''<''
         then map (\<lambda>rawname. let rarename = strip rawname
                    in if startswith rarename ''/'' then rarename else dir @ ''/'' @ rarename)
                (split_on (CHR '','') (tl line))
         else [])"

definition file_includes :: "conf \<Rightarrow> string \<Rightarrow> string list" where
  "file_includes C ff =
     (case map_of (c_text_files C) ff of
        None \<Rightarrow> []
      | Some lines \<Rightarrow> concat (map (line_includes (dirname (c_logbook_path C))) lines))"

definition updateFileSet :: "conf \<Rightarrow> string list \<Rightarrow> string list" where
  "updateFileSet C fileSet = List.union fileSet (remdups (concat (map (file_includes C) fileSet)))"

definition all_includes :: "conf \<Rightarrow> string set" where
  "all_includes C = set (concat (map (\<lambda>(ff, _). file_includes C ff) (c_text_files C)))"

lemma finite_all_includes [simp]: "finite (all_includes C)"
  unfolding all_includes_def by (rule finite_set)

lemma file_includes_all: "set (file_includes C ff) \<subseteq> all_includes C"
proof (cases "map_of (c_text_files C) ff")
  case None
  then show ?thesis by (simp add: file_includes_def)
next
  case (Some lines)
  then have "(ff, lines) \<in> set (c_text_files C)" by (rule map_of_SomeD)
  then show ?thesis by (auto simp: all_includes_def)
qed

lemma set_updateFileSet: "set (updateFileSet C fs) = set fs \<union> (\<Union>f\<in>set fs. set (file_includes C f))"
  by (simp add: updateFileSet_def)

text \<open>The loop of \<open>configure\<close> over the files found in the last round.\<close>

function collect_files :: "conf \<Rightarrow> string list \<Rightarrow> string list \<Rightarrow> string list" where
  "collect_files C fileSet before =
     (let fileSet' = List.union fileSet before;
          after = updateFileSet C before;
          newfound = filter (\<lambda>f. f \<notin> set fileSet') after
      in if 0 < length newfound then collect_files C fileSet' newfound else fileSet')"
  by pat_completeness auto
termination
proof (relation "measure (\<lambda>(C, fs, b). card (all_includes C - (set fs \<union> set b)))", goal_cases)
  case 1
  show ?case by simp
next
  case (2 C fs b fs' after nf)
  have fs': "set fs' = set fs \<union> set b" using 2(1) by simp
  have nf: "set nf = set after - (set fs \<union> set b)" using 2(3) fs' by auto
  have sub: "set nf \<subseteq> all_includes C - (set fs \<union> set b)"
    using nf 2(2) file_includes_all [of C] by (auto simp: set_updateFileSet)
  have "hd nf \<in> set nf" using 2(4) by (intro hd_in_set) simp
  then have "all_includes C - (set fs' \<union> set nf) \<subset> all_includes C - (set fs \<union> set b)"
    unfolding fs' using sub by blast
  then show ?case by (auto intro!: psubset_card_mono)
qed

declare collect_files.simps [simp del]

section \<open>The PVs a file names\<close>

text \<open>State of the line loop: the PVs found so far (pva, ca) and the pending description.\<close>

definition pv_line ::
    "string \<Rightarrow> pv_info list \<times> pv_info list \<times> string option \<Rightarrow>
     pv_info list \<times> pv_info list \<times> string option" where
  "pv_line veryrawline st =
     (case st of (pvaFound, caFound, desc) \<Rightarrow>
      (let rawline = strip veryrawline in
       if startswith rawline ''<'' then (pvaFound, caFound, None)
       else if startswith rawline ''*'' \<or> startswith rawline ''#*''
       then (pvaFound, caFound, Some (strip (split_on (CHR ''*'') rawline ! 1)))
       else if length rawline = 0 \<or> startswith rawline ''#'' then (pvaFound, caFound, None)
       else (let nnn = split_ws rawline; name = hd nnn in
         if length nnn = 2 \<and> nnn ! 1 = ''pva''
         then (pvaFound @ [\<lparr>pi_name = name, pi_desc = desc\<rparr>], caFound, desc)
         else (pvaFound, caFound @ [\<lparr>pi_name = name, pi_desc = desc\<rparr>], desc))))"

definition updatePvSet :: "conf \<Rightarrow> string list \<Rightarrow> pv_info list \<times> pv_info list" where
  "updatePvSet C fileSet =
     (case fold pv_line
             (concat (map (\<lambda>ff. case map_of (c_text_files C) ff of None \<Rightarrow> [] | Some ls \<Rightarrow> ls) fileSet))
             ([], [], None)
      of (pvaFound, caFound, _) \<Rightarrow> (pvaFound, caFound))"

section \<open>configure, unconfigure, beginrun\<close>

definition is_text_file :: "conf \<Rightarrow> string \<Rightarrow> bool" where
  "is_text_file C f \<longleftrightarrow> map_of (c_text_files C) f \<noteq> None"

definition not_found :: "conf \<Rightarrow> string \<Rightarrow> unit act" where
  "not_found C f = report_error C (''logbook run parameter file not found: '' @ f)"

definition missing_files :: "conf \<Rightarrow> string list \<Rightarrow> string list" where
  "missing_files C fs = filter (\<lambda>f. f \<noteq> ''/dev/null'' \<and> \<not> is_text_file C f) fs"

definition rp_configure :: "conf \<Rightarrow> unit act" where
  "rp_configure C =
     eseq
       (if c_logbook_path C \<noteq> ''/dev/null'' \<and> \<not> is_text_file C (c_logbook_path C)
        then not_found C (c_logbook_path C)
        else
          eseq (emod (\<lambda>s. s\<lparr>rp_fileSet := collect_files C (rp_fileSet s) [c_logbook_path C]\<rparr>))
         (ebind (eget (\<lambda>s. missing_files C (rp_fileSet s))) (\<lambda>missing.
          eseq (efor (not_found C) missing)
               (emod (\<lambda>s. s\<lparr>rp_fileSet := filter (\<lambda>f. f \<notin> set missing) (rp_fileSet s)\<rparr>)))))
    (eseq
       (ebind (eget rp_fileSet) (\<lambda>fs. ewhen (0 < length fs)
          (emod (\<lambda>s. s\<lparr>rp_pvaList := fst (updatePvSet C fs), rp_caList := snd (updatePvSet C fs)\<rparr>))))
       (emod (\<lambda>s. s\<lparr>rp_recordedExperiments := Some []\<rparr>)))"

definition rp_unconfigure :: "unit act" where
  "rp_unconfigure = emod (\<lambda>s. s\<lparr>rp_fileSet := [], rp_pvaList := [], rp_caList := []\<rparr>)"

text \<open>The values read from PVs: a failed read or a NaN is reported and left out.\<close>

fun pva_params :: "conf \<Rightarrow> (string \<times> pv_value) list \<Rightarrow> (string \<times> json) list \<Rightarrow> (string \<times> json) list act" where
  "pva_params C [] params = eret params"
| "pva_params C ((name, value) # vs) params =
     (case value of
        PvTimeout \<Rightarrow> eseq (report_error C (''failed to read PVA PV '' @ name)) (pva_params C vs params)
      | PvNan \<Rightarrow> eseq (report_error C (''PVA PV '' @ name @ '' not recorded in logbook (nan)'')) (pva_params C vs params)
      | PvNone \<Rightarrow> pva_params C vs (AList.update name JNull params)
      | PvVal v \<Rightarrow> pva_params C vs (AList.update name v params))"

fun ca_params :: "conf \<Rightarrow> (string \<times> pv_value) list \<Rightarrow> (string \<times> json) list \<Rightarrow> (string \<times> json) list act" where
  "ca_params C [] params = eret params"
| "ca_params C ((name, value) # vs) params =
     (case value of
        PvVal v \<Rightarrow> ca_params C vs (AList.update name v params)
      | PvNan \<Rightarrow> eseq (report_error C (''CA PV '' @ name @ '' not recorded in logbook (nan)'')) (ca_params C vs params)
      | _ \<Rightarrow> eseq (report_error C (''failed to read CA PV '' @ name)) (ca_params C vs params))"

text \<open>The segments of the active detectors, by detector name.\<close>

fun drp_segments :: "conf \<Rightarrow> clients \<Rightarrow> (string \<times> nat set) list \<Rightarrow> (string \<times> nat set) list act" where
  "drp_segments C [] acc = eret acc"
| "drp_segments C ((xid, it) # cs) acc =
     (case active_flag it of
        Inl e \<Rightarrow> drp_segments C cs acc
      | Inr False \<Rightarrow> drp_segments C cs acc
      | Inr True \<Rightarrow>
          (case proc_alias it of
             Inl KeyError \<Rightarrow> drp_segments C cs acc
           | Inl e \<Rightarrow> eraise e
           | Inr unique_id \<Rightarrow>
               (case rsplit1 (CHR ''_'') unique_id of
                  [al, seg] \<Rightarrow>
                    if \<not> isnumeric seg
                    then eseq (report_error C (''drp id '' @ unique_id @ '' has malformed _N suffix''))
                              (drp_segments C cs acc)
                    else (let key = ''DAQ Detectors/drp/'' @ al;
                              old = (case map_of acc key of None \<Rightarrow> {} | Some segs \<Rightarrow> segs)
                          in drp_segments C cs (AList.update key (insert (digits_val seg) old) acc))
                | _ \<Rightarrow> eseq (report_error C (''drp id '' @ unique_id @ '' is missing _N suffix''))
                             (drp_segments C cs acc))))"

definition rp_descs :: "pv_info list \<Rightarrow> (string \<times> json) list" where
  "rp_descs ps = fold (\<lambda>p acc. AList.update (pi_name p) (JStr (get_desc p)) acc) ps []"

definition next_get :: "(nat \<Rightarrow> string list \<Rightarrow> pv_value list) \<Rightarrow> string list \<Rightarrow> pv_value list act" where
  "next_get f names = ebind (eget n_get) (\<lambda>n. eseq (emod (\<lambda>s. s\<lparr>n_get := Suc n\<rparr>)) (eret (f n names)))"

definition record_experiment :: "string \<Rightarrow> (string \<times> json) list act" where
  "record_experiment ename =
     ebind (eget rp_recordedExperiments) (\<lambda>rec.
       case rec of
         None \<Rightarrow> eraise (AttributeError ''recordedExperiments'')
       | Some es \<Rightarrow>
           if ename \<in> set es then eret []
           else eseq (emod (\<lambda>s. s\<lparr>rp_recordedExperiments := Some (es @ [ename])\<rparr>))
                     (eget (\<lambda>s. rp_descs (rp_pvaList s @ rp_caList s))))"

definition rp_beginrun :: "conf \<Rightarrow> string \<Rightarrow> unit act" where
  "rp_beginrun C ename =
     ebind (record_experiment ename) (\<lambda>param_descs.
     ebind (eget (\<lambda>s. map pi_name (rp_pvaList s))) (\<lambda>pvaNames.
     ebind (next_get (c_pv_get C) pvaNames) (\<lambda>pvaValues.
     ebind (pva_params C (zip pvaNames pvaValues) []) (\<lambda>params1.
     ebind (eget (\<lambda>s. map pi_name (rp_caList s))) (\<lambda>caNames.
     ebind (next_get (c_caget C) caNames) (\<lambda>caValues.
     ebind (ca_params C (zip caNames caValues) params1) (\<lambda>params2.
     ebind (eget (\<lambda>s. concat (map snd (filter (\<lambda>(level, _). level = ''drp'') (cmstate_levels (cmstate_of s)))))) (\<lambda>drps.
     ebind (drp_segments C drps []) (\<lambda>segs.
     (let params = fold (\<lambda>(key, seg_set) acc. AList.update key (JStr (set2csv seg_set)) acc) segs params2 in
     ebind (add_run_params C ename params) (\<lambda>outCount.
     eseq (ewhen (outCount < length params)
             (report_error C (nat_str outCount @ '' of '' @ nat_str (length params)
                @ '' run parameters recorded in logbook (experiment='' @ ename @ '')'')))
    (ebind (add_update_run_param_descriptions C ename param_descs) (\<lambda>outDescs.
       ewhen (outDescs < length param_descs)
         (report_error C (nat_str outDescs @ '' of '' @ nat_str (length param_descs)
            @ '' run parameter descriptions recorded in logbook (experiment='' @ ename @ '')'')))))))))))))))"

end
