(* ===== verification/ActiveDet.thy ===== *)
theory ActiveDet
  imports ControlState "HOL-Library.Word"
begin

unbundle bit_operations_syntax

text \<open>
  The active-detector file of \<^verbatim>\<open>control.py\<close>: the readout groups of the active
  detectors, the dict \<open>alloc\<close> writes to the file (\<open>levels_to_activedet\<close> with the
  history of group assignments) and the readers the next \<open>rollcall\<close> uses
  (\<open>read_json_file\<close>, \<open>get_active_and_inactive\<close>). A file is what \<open>json.load\<close>
  makes of it; the order of the keys of a dict in a file is not kept apart from its order in
  memory.
\<close>

section \<open>Readout groups\<close>

definition node_readout :: "item \<Rightarrow> pyexc + json" where
  "node_readout it = sbind (dict_get it ''det_info'') (\<lambda>d. jget d ''readout'')"

text \<open>\<open>1 << j\<close>\<close>

definition shift_one :: "json \<Rightarrow> pyexc + int" where
  "shift_one j = sbind (jint j) (\<lambda>r.
     if r < 0 then Inl (ValueError ''negative shift count'') else Inr (push_bit (nat r) 1))"

fun readout_mask :: "clients \<Rightarrow> int \<Rightarrow> pyexc + int" where
  "readout_mask [] m = Inr m"
| "readout_mask ((key, node_info) # cs) m =
     (case sbind (node_readout node_info) shift_one of
        Inl KeyError \<Rightarrow> readout_mask cs m
      | Inl e \<Rightarrow> Inl e
      | Inr b \<Rightarrow> readout_mask cs (m OR b))"

definition get_readout_group_mask :: "cmstate \<Rightarrow> pyexc + int" where
  "get_readout_group_mask body =
     (case map_of body ''drp'' of None \<Rightarrow> Inr 0 | Some cs \<Rightarrow> readout_mask cs 0)"

text \<open>The groups the clients name: bit \<open>g\<close> of the mask is set for these and no others.\<close>

definition readout_group :: "item \<Rightarrow> nat \<Rightarrow> bool" where
  "readout_group it g \<longleftrightarrow> (\<exists>j\<in>set_option (case node_readout it of Inl e \<Rightarrow> None | Inr j \<Rightarrow> Some j).
     jint j = Inr (int g))"

lemma shift_one_bit: "shift_one j = Inr b \<Longrightarrow> bit b g \<longleftrightarrow> jint j = Inr (int g)"
  by (auto simp: shift_one_def sbind_def bit_push_bit_iff bit_1_iff bit_exp_iff split: sum.splits if_splits)

lemma readout_mask_bit:
  "readout_mask cs m = Inr k \<Longrightarrow> bit k g \<longleftrightarrow> bit m g \<or> (\<exists>(xid, it)\<in>set cs. readout_group it g)"
proof (induction cs arbitrary: m)
  case Nil
  then show ?case by simp
next
  case (Cons c cs)
  obtain xid it where c: "c = (xid, it)" by (cases c)
  show ?case
  proof (cases "sbind (node_readout it) shift_one")
    case (Inl e)
    then have "readout_mask cs m = Inr k" using Cons.prems c by (cases e) simp_all
    moreover have "\<not> readout_group it g"
      using Inl by (auto simp: readout_group_def sbind_def shift_one_def split: sum.splits if_splits)
    ultimately show ?thesis using Cons.IH c by auto
  next
    case (Inr b)
    then have "readout_mask cs (m OR b) = Inr k" using Cons.prems c by simp
    moreover have "bit b g \<longleftrightarrow> readout_group it g"
      using Inr shift_one_bit by (auto simp: readout_group_def sbind_def split: sum.splits)
    ultimately show ?thesis using Cons.IH c by (auto simp: bit_or_iff)
  qed
qed

section \<open>Writing the file\<close>

definition activedet_entry :: "item \<Rightarrow> pyexc + json" where
  "activedet_entry it =
     sbind (case map_of it ''det_info'' of
              None \<Rightarrow> Inr []
            | Some (JDict d) \<Rightarrow> Inr [(''det_info'', JDict d)]
            | Some (JList d) \<Rightarrow> Inr [(''det_info'', JList d)]
            | Some _ \<Rightarrow> Inl (AttributeError ''copy''))
       (\<lambda>det. sbind (dict_get it ''active'') (\<lambda>a. Inr (JDict (det @ [(''active'', a)]))))"

definition activedet_level :: "clients \<Rightarrow> pyexc + item" where
  "activedet_level cs =
     sfold (\<lambda>(xid, it) acc. sbind (proc_alias it) (\<lambda>a. sbind (activedet_entry it) (\<lambda>e.
              Inr (AList.update a e acc)))) cs []"

definition levels_to_activedet :: "cmstate \<Rightarrow> pyexc + item" where
  "levels_to_activedet src =
     sbind (smap (\<lambda>(level, cs). sbind (activedet_level cs) (\<lambda>d. Inr (level, JDict d)))
              (filter (\<lambda>(level, _). level \<noteq> ''control'') src))
       (\<lambda>ls. Inr [(''activedet'', JDict ls)])"

definition is_file :: "mgr \<Rightarrow> string \<Rightarrow> bool" where
  "is_file s f \<longleftrightarrow> f \<noteq> ''/dev/null'' \<and> jfiles s f \<noteq> None"

text \<open>\<open>handle_storejsonconfig\<close> with the parsed content; a failed \<open>open\<close> is \<open>OSError\<close>.\<close>

definition store_activedet :: "conf \<Rightarrow> jfile \<Rightarrow> unit act" where
  "store_activedet C content =
     (if c_activedetfilename C = ''/dev/null'' then eret ()
      else if c_can_write C (c_activedetfilename C)
      then eseq (emit (WriteFile (c_activedetfilename C)))
             (emod (\<lambda>s. s\<lparr>jfiles := (jfiles s)(c_activedetfilename C := Some content)\<rparr>))
      else eraise OSError)"

text \<open>\<open>handle_storejsonconfig\<close> of a request: the printed body becomes the file.\<close>

definition handle_storejsonconfig :: "conf \<Rightarrow> json \<Rightarrow> unit act" where
  "handle_storejsonconfig C body = store_activedet C (c_parse_text C body)"

definition read_json_file :: "conf \<Rightarrow> string \<Rightarrow> json act" where
  "read_json_file C filename =
     ebind (eget (\<lambda>s. is_file s filename)) (\<lambda>isfile.
       if \<not> isfile
       then eseq (if filename = ''/dev/null''
                  then report_warning C ''/dev/null is not a proper active detectors file''
                  else report_error C (''active detectors file '' @ filename @ '' not found''))
              (eret (JDict []))
       else ebind (eget (\<lambda>s. jfiles s filename)) (\<lambda>content.
         case content of
           Some (JDoc j) \<Rightarrow> eret j
         | Some JEmpty \<Rightarrow>
             eseq (report_error C (''active detectors file '' @ filename @ '' is empty'')) (eret (JDict []))
         | _ \<Rightarrow> eseq (report_error C (''read_json_file('' @ filename @ '')'')) (eret (JDict []))))"

section \<open>Reading the file\<close>

text \<open>
  \<open>get_active_and_inactive\<close>: the state of the loop is the pair of sets; a \<open>KeyError\<close>
  ends it and keeps what was found, another exception is raised.
\<close>

definition client_name :: "string \<Rightarrow> string \<Rightarrow> string" where
  "client_name level al = level @ ''/'' @ al"

definition scan_alias :: "string \<Rightarrow> string \<times> json \<Rightarrow> (string list \<times> string list, unit) eff" where
  "scan_alias level p =
     (case p of (al, item2) \<Rightarrow>
        ebind (elift (jget item2 ''active'')) (\<lambda>v. emod (\<lambda>(act, inact).
          if truthy v then (set_add (client_name level al) act, inact)
          else (act, set_add (client_name level al) inact))))"

definition scan_level :: "string \<times> json \<Rightarrow> (string list \<times> string list, unit) eff" where
  "scan_level p =
     (case p of (level, item1) \<Rightarrow> ebind (elift (jitems item1)) (efor (scan_alias level)))"

definition get_active_and_inactive :: "json \<Rightarrow> pyexc + string list \<times> string list" where
  "get_active_and_inactive d =
     (case etry (ebind (elift (sbind (jget d ''activedet'') jitems)) (efor scan_level))
                (\<lambda>e. if e = KeyError then eret () else eraise e) ([], [])
      of (Inl e, _) \<Rightarrow> Inl e | (Inr _, sets) \<Rightarrow> Inr sets)"

section \<open>The file read back\<close>

text \<open>On entries that all have an active flag the loops are folds that never fail.\<close>

definition flag_of :: "json \<Rightarrow> bool option" where
  "flag_of e = (case jget e ''active'' of Inl _ \<Rightarrow> None | Inr v \<Rightarrow> Some (truthy v))"

definition note_alias :: "string \<Rightarrow> string \<times> json \<Rightarrow> string list \<times> string list \<Rightarrow> string list \<times> string list" where
  "note_alias level p st =
     (if flag_of (snd p) = Some True then (set_add (client_name level (fst p)) (fst st), snd st)
      else (fst st, set_add (client_name level (fst p)) (snd st)))"

definition flagged :: "bool \<Rightarrow> string \<Rightarrow> (string \<times> json) list \<Rightarrow> string set" where
  "flagged b level d = (client_name level \<circ> fst) ` {p \<in> set d. flag_of (snd p) = Some b}"

lemma flagged_Cons: "flagged b level (p # d) =
    (if flag_of (snd p) = Some b then insert (client_name level (fst p)) (flagged b level d)
     else flagged b level d)"
  by (auto simp: flagged_def)

lemma scan_alias_run: "flag_of (snd p) \<noteq> None \<Longrightarrow> scan_alias level p st = (Inr (), note_alias level p st)"
  by (cases p; cases st) (auto simp: scan_alias_def note_alias_def flag_of_def eff_simps split: sum.splits)

lemma scan_aliases_run:
  "\<forall>p\<in>set d. flag_of (snd p) \<noteq> None \<Longrightarrow>
    efor (scan_alias level) d st = (Inr (), fold (note_alias level) d st)"
  by (induction d arbitrary: st) (simp_all add: eff_simps scan_alias_run)

lemma note_aliases_sets:
  "\<forall>p\<in>set d. flag_of (snd p) \<noteq> None \<Longrightarrow>
    set (fst (fold (note_alias level) d st)) = set (fst st) \<union> flagged True level d
    \<and> set (snd (fold (note_alias level) d st)) = set (snd st) \<union> flagged False level d"
proof (induction d arbitrary: st)
  case Nil
  then show ?case by (simp add: flagged_def)
next
  case (Cons p d)
  then have "flag_of (snd p) = Some True \<or> flag_of (snd p) = Some False" by auto
  then show ?case using Cons by (auto simp: flagged_Cons note_alias_def)
qed

lemma scan_levels_run:
  assumes "\<forall>(level, e)\<in>set ls. \<exists>d. e = JDict d \<and> (\<forall>p\<in>set d. flag_of (snd p) \<noteq> None)"
  shows "\<exists>A' I'. efor scan_level ls (A, I) = (Inr (), A', I')
    \<and> set A' = set A \<union> (\<Union>(level, e)\<in>set ls. flagged True level (case e of JDict d \<Rightarrow> d | _ \<Rightarrow> []))
    \<and> set I' = set I \<union> (\<Union>(level, e)\<in>set ls. flagged False level (case e of JDict d \<Rightarrow> d | _ \<Rightarrow> []))"
  using assms
proof (induction ls arbitrary: A I)
  case Nil
  then show ?case by (simp add: eff_simps)
next
  case (Cons q ls)
  then obtain level d where q: "q = (level, JDict d)" "\<forall>p\<in>set d. flag_of (snd p) \<noteq> None"
    by (cases q) auto
  obtain A1 I1 where st: "fold (note_alias level) d (A, I) = (A1, I1)" by fastforce
  have run: "scan_level (level, JDict d) (A, I) = (Inr (), A1, I1)"
    by (simp add: scan_level_def eff_simps scan_aliases_run [OF q(2)] st)
  have sets: "set A1 = set A \<union> flagged True level d" "set I1 = set I \<union> flagged False level d"
    using note_aliases_sets [OF q(2), of level "(A, I)"] by (simp_all add: st)
  obtain A' I' where rest: "efor scan_level ls (A1, I1) = (Inr (), A', I')"
    "set A' = set A1 \<union> (\<Union>(level, e)\<in>set ls. flagged True level (case e of JDict d \<Rightarrow> d | _ \<Rightarrow> []))"
    "set I' = set I1 \<union> (\<Union>(level, e)\<in>set ls. flagged False level (case e of JDict d \<Rightarrow> d | _ \<Rightarrow> []))"
    using Cons.IH [of A1 I1] Cons.prems by auto
  then show ?case by (simp add: eff_simps run q(1) sets Un_assoc)
qed

text \<open>
  What \<open>alloc\<close> writes: for a level whose aliases are distinct the entries are those of the
  clients, in order.
\<close>

definition client_entry :: "item \<Rightarrow> pyexc + string \<times> json" where
  "client_entry it = sbind (proc_alias it) (\<lambda>a. sbind (activedet_entry it) (\<lambda>e. Inr (a, e)))"

lemma activedet_level_entries:
  assumes "smap (\<lambda>c. client_entry (snd c)) cs = Inr es" and "distinct (map fst es)"
  shows "activedet_level cs = Inr es"
proof -
  have "sfold (\<lambda>(xid, it) acc. sbind (proc_alias it) (\<lambda>a. sbind (activedet_entry it) (\<lambda>e.
              Inr (AList.update a e acc)))) cs acc = Inr (acc @ es)"
    if "smap (\<lambda>c. client_entry (snd c)) cs = Inr es" "distinct (map fst (acc @ es))" for cs es acc
    using that
  proof (induction cs arbitrary: es acc)
    case Nil
    then show ?case by simp
  next
    case (Cons c cs)
    obtain xid it where c: "c = (xid, it)" by (cases c)
    obtain a e es' where ce: "client_entry it = Inr (a, e)" "smap (\<lambda>c. client_entry (snd c)) cs = Inr es'"
      and es: "es = (a, e) # es'"
      using Cons.prems(1) c by (auto split: sum.splits)
    have parts: "proc_alias it = Inr a" "activedet_entry it = Inr e"
      using ce(1) by (auto simp: client_entry_def sbind_Inr)
    have "a \<notin> fst ` set acc" using Cons.prems(2) es by auto
    then have "AList.update a e acc = acc @ [(a, e)]" by (induction acc) auto
    then show ?case using Cons.IH [OF ce(2), of "acc @ [(a, e)]"] Cons.prems(2) es
      by (simp add: c parts sbind_def)
  qed
  from this [of cs es "[]"] assms show ?thesis by (simp add: activedet_level_def)
qed

lemma client_entry_flag:
  assumes "client_entry it = Inr (a, e)"
  shows "\<exists>v. dict_get it ''active'' = Inr v \<and> flag_of e = Some (truthy v)"
  using assms
  by (auto simp: client_entry_def activedet_entry_def sbind_Inr flag_of_def dict_get_def
      map_of_append split: option.splits json.splits)

end
