(* ===== verification/Conditions.thy ===== *)
theory Conditions
  imports RunParams ActiveDet
begin

text \<open>
  The condition methods of \<open>CollectionManager\<close>: what the control process does on each
  transition of its state machine, and whether the transition is allowed to happen. A transition
  has a first phase, a message to the active clients whose answers are collected, and for most a
  second phase, a message inserted into the timing stream through PVs and confirmed by the
  detectors. Each method is an action that returns a bool or raises.
\<close>

section \<open>Shared steps\<close>

text \<open>\<open>if not m: return False\<close> before \<open>n\<close>.\<close>

definition eguard :: "bool act \<Rightarrow> bool act \<Rightarrow> bool act" where
  "eguard m n = ebind m (\<lambda>ok. if ok then n else eret False)"

lemma eguard_run [eff_simps]:
  "eguard m n s = (case m s of (Inl e, t) \<Rightarrow> (Inl e, t) | (Inr True, t) \<Rightarrow> n t | (Inr False, t) \<Rightarrow> (Inr False, t))"
  by (auto simp: eguard_def ebind_def eret_def split: prod.splits sum.splits bool.splits)

definition set_last :: "transition \<Rightarrow> bool act" where
  "set_last t = eseq (emod (\<lambda>s. s\<lparr>lastTransition := t\<rparr>)) (eret True)"

definition back_send :: "conf \<Rightarrow> string \<Rightarrow> transition \<Rightarrow> json \<Rightarrow> msg act" where
  "back_send C topic t body =
     ebind (new_msg C (trans_name t) body) (\<lambda>m. eseq (emit (BackPub topic m)) (eret m))"

definition report_silent :: "conf \<Rightarrow> string \<Rightarrow> int option set \<Rightarrow> unit act" where
  "report_silent C what missing =
     ebind (aliases_of missing) (\<lambda>als. efor (\<lambda>a. report_error C (a @ '' did not respond to '' @ what)) als)"

definition report_missing :: "conf \<Rightarrow> string \<Rightarrow> int option set \<Rightarrow> unit act" where
  "report_missing C what missing =
     eseq (report_silent C what missing)
          (report_error C (nat_str (card missing) @ '' client did not respond to '' @ what))"

text \<open>Collect the answers to a message, report errors and missing clients.\<close>

definition confirm_all :: "conf \<Rightarrow> string \<Rightarrow> msg \<Rightarrow> nat \<Rightarrow> int set \<Rightarrow> bool act" where
  "confirm_all C what m timeout is =
     ebind (confirm_response C timeout (Some (m_id m)) is (Some what)) (\<lambda>(missing, answers, reports).
     eseq (process_reports C no_chunk reports)
    (ebind (check_answers C answers) (\<lambda>errs.
     eseq (ewhen (missing \<noteq> {}) (report_missing C what missing))
          (eret (missing = {} \<and> errs = 0)))))"

definition phase1_levels :: "cmstate \<Rightarrow> int set \<Rightarrow> int set" where
  "phase1_levels cm is = filter_level cm ''drp'' is \<union> filter_level cm ''teb'' is \<union> filter_level cm ''meb'' is"

definition phase2_levels :: "cmstate \<Rightarrow> int set \<Rightarrow> int set" where
  "phase2_levels cm is = filter_level cm ''drp'' is \<union> filter_level cm ''meb'' is"

definition condition_common :: "conf \<Rightarrow> transition \<Rightarrow> nat \<Rightarrow> item \<Rightarrow> bool act" where
  "condition_common C t timeout body =
     ebind active_ids (\<lambda>is0.
     ebind (eget (\<lambda>s. case map_of (phase1Info s) (trans_name t) of
                        None \<Rightarrow> body | Some v \<Rightarrow> AList.update ''phase1Info'' v body)) (\<lambda>body1.
     ebind (back_send C ''partition'' t (JDict body1)) (\<lambda>m.
     eseq (emod (\<lambda>s. s\<lparr>phase1Info := AList.delete (trans_name t) (phase1Info s)\<rparr>))
    (ebind (eget (\<lambda>s. phase1_levels (cmstate_of s) is0)) (\<lambda>is.
       if is = {} then eret True else confirm_all C (trans_name t) m timeout is)))))"

definition get_phase2_replies :: "conf \<Rightarrow> transition \<Rightarrow> bool act" where
  "get_phase2_replies C t =
     ebind active_ids (\<lambda>is0.
     ebind (eget (\<lambda>s. phase2_levels (cmstate_of s) is0)) (\<lambda>is.
     ebind (confirm_response C (c_phase2_timeout C) None is (Some (trans_name t @ '' phase 2'')))
       (\<lambda>(missing, answers, reports).
     eguard (etry (eseq (process_reports C no_chunk reports) (eret True))
              (\<lambda>e. case e of ConfigDBError txt \<Rightarrow> eseq (report_error C txt) (eret False) | _ \<Rightarrow> eraise e))
       (if missing = {} then eret True
        else eseq (report_silent C (trans_name t @ '' phase 2'') missing) (eret False)))))"

text \<open>The message of a transition written to the header PVs and inserted into the stream.\<close>

definition put_headers :: "conf \<Rightarrow> int \<Rightarrow> unit act" where
  "put_headers C val = ebind (eget pvListMsgHeader) (\<lambda>pvs. pv_put_each C pvs val)"

definition insert_transition :: "conf \<Rightarrow> int \<Rightarrow> unit act" where
  "insert_transition C val = eseq (put_headers C val) (msg_insert C)"

definition clear_readout :: "conf \<Rightarrow> unit act" where
  "clear_readout C =
     eseq (ebind (eget groups) (pv_put0 C (pvGroupL0Reset C)))
    (eseq (insert_transition C (transitionId TI_ClearReadout))
          (emit (Sleep 1000)))"

definition no_steps :: "conf \<Rightarrow> unit act" where
  "no_steps C = eseq (step_groups C 0) (eret ())"

section \<open>Status\<close>

definition cm_json :: "cmstate \<Rightarrow> json" where
  "cm_json cm = JDict (map (\<lambda>(level, cs). (level, JDict (map (\<lambda>(xid, it). (int_str xid, JDict it)) cs))) cm)"

definition opt_int :: "int option \<Rightarrow> json" where
  "opt_int n = (case n of None \<Rightarrow> JNull | Some i \<Rightarrow> JInt i)"

definition expname :: "string option \<Rightarrow> string" where
  "expname e = (case e of None \<Rightarrow> ''None'' | Some n \<Rightarrow> if n = [] then ''None'' else n)"

definition status_body :: "mgr \<Rightarrow> json" where
  "status_body s = JDict
     [(''state'', JStr (state_name (dstate s))),
      (''transition'', JStr (trans_name (lastTransition s))),
      (''platform'', cm_json (cmstate_levels (cmstate_of s))),
      (''config_alias'', JStr (config_alias s)),
      (''recording'', JBool (recording s)),
      (''bypass_activedet'', JBool (bypass_activedet s)),
      (''experiment_name'', JStr (expname (experiment_name s))),
      (''run_number'', opt_int (run_number s)),
      (''last_run_number'', opt_int (last_run_number s))]"

definition status_msg :: "conf \<Rightarrow> msg act" where
  "status_msg C = ebind (eget status_body) (new_msg C ''status'')"

definition report_status :: "conf \<Rightarrow> unit act" where
  "report_status C = ebind (status_msg C) (\<lambda>m. emit (FrontPub m))"

section \<open>alloc and dealloc\<close>

fun jdict :: "json \<Rightarrow> pyexc + item" where
  "jdict (JDict d) = Inr d"
| "jdict _ = Inl TypeError"

text \<open>The connection information of one answer, stored with its client.\<close>

definition store_answer :: "msg \<Rightarrow> unit act" where
  "store_answer m =
     ebind (elift (jitems (m_body m))) (efor (\<lambda>(level, info).
       case m_sender m of
         None \<Rightarrow> eraise KeyError
       | Some xid \<Rightarrow> map_cm (\<lambda>cm. sbind (cm_update cm level xid id) (\<lambda>_. sbind (jdict info) (\<lambda>d.
           cm_update cm level xid (\<lambda>it. dict_update it d))))))"

text \<open>\<open>for i, node in enumerate(nodes): cmstate[level][node][key] = i\<close>\<close>

definition number_nodes :: "string \<Rightarrow> string \<Rightarrow> clients \<Rightarrow> unit act" where
  "number_nodes level key nodes =
     efor (\<lambda>(i, node). map_cm (\<lambda>cm. cm_update cm level node (AList.update key (JInt (int i)))))
       (enumerate 0 (map fst nodes))"

definition part_pv :: "conf \<Rightarrow> string \<Rightarrow> nat \<Rightarrow> string" where
  "part_pv C suffix g = pv_xpm_base C @ '':PART:'' @ nat_str g @ suffix"

definition common_L0Groups :: "conf \<Rightarrow> string" where
  "common_L0Groups C = pv_xpm_base C @ '':PART:'' @ int_str (c_platform C) @ '':L0Groups''"

fun put_L0Groups :: "conf \<Rightarrow> int \<Rightarrow> string list \<Rightarrow> bool act" where
  "put_L0Groups C gs [] = eret True"
| "put_L0Groups C gs (pv # pvs) =
     (let val = (if pv \<noteq> common_L0Groups C then gs else push_bit (nat (c_platform C)) 1)
      in ebind (pv_put C pv val) (\<lambda>ok.
           if ok then put_L0Groups C gs pvs
           else eseq (report_error C (''condition_alloc() failed putting '' @ int_str val @ '' to PV '' @ pv))
                     (eret False)))"

definition history_of_drp :: "item \<Rightarrow> json \<Rightarrow> pyexc + json" where
  "history_of_drp drp h =
     sbind (proc_alias drp) (\<lambda>a. sbind (node_readout drp) (\<lambda>r. sbind (jget h ''drp'') (\<lambda>d.
     sbind (jset d a (JDict [(''det_info'', JDict [(''readout'', r)])])) (jset h ''drp''))))"

definition update_history :: "item \<Rightarrow> unit act" where
  "update_history drp = (\<lambda>s. case history_of_drp drp (history s) of
       Inl KeyError \<Rightarrow> (Inr (), s)
     | Inl e \<Rightarrow> (Inl e, s)
     | Inr h \<Rightarrow> (Inr (), s\<lparr>history := h\<rparr>))"

definition save_activedet :: "conf \<Rightarrow> bool act" where
  "save_activedet C =
     ebind (ebind (eget (\<lambda>s. levels_to_activedet (cmstate_levels (cmstate_of s)))) elift) (\<lambda>ad.
     ebind (eget (\<lambda>s. JDict (AList.update ''history'' (history s) ad))) (\<lambda>dst.
     ebind (read_json_file C (c_activedetfilename C)) (\<lambda>json_from_file.
       if jeq dst json_from_file then eret True
       else etry (eseq (store_activedet C (JDoc dst)) (eret True))
              (\<lambda>e. eseq (report_error C ''updating activedet file'') (eret False)))))"

definition alloc_groups :: "conf \<Rightarrow> int \<Rightarrow> bool act" where
  "alloc_groups C gs =
     eseq (emod (\<lambda>s. s\<lparr>groups := gs\<rparr>))
    (eguard (group_run C False)
    (eguard (step_groups_clear C gs)
    (eseq (emod (\<lambda>s. s\<lparr>pvListMsgHeader := map (part_pv C '':MsgHeader'') (group_bits gs),
                       pvListXPM := map (part_pv C '':Master'') (group_bits gs),
                       pvListL0Groups := Some (map (part_pv C '':L0Groups'') (group_bits gs))\<rparr>))
          (put_L0Groups C gs (map (part_pv C '':L0Groups'') (group_bits gs))))))"

definition alloc_nodes :: "conf \<Rightarrow> cmstate \<Rightarrow> bool act" where
  "alloc_nodes C active_state =
     (case map_of active_state ''drp'' of
        None \<Rightarrow> eseq (report_error C ''at least one DRP is required'') (eret False)
      | Some drps \<Rightarrow>
          eseq (number_nodes ''drp'' ''drp_id'' drps)
         (ebind (elift (get_readout_group_mask active_state)) (\<lambda>gs.
          eguard (alloc_groups C gs)
         (case map_of active_state ''teb'' of
            None \<Rightarrow> eseq (report_error C ''at least one TEB is required'') (eret False)
          | Some tebs \<Rightarrow>
              eseq (number_nodes ''teb'' ''teb_id'' tebs)
             (eseq (case map_of active_state ''meb'' of
                      None \<Rightarrow> report_warning C ''ami NOT supported in absence of MEB''
                    | Some mebs \<Rightarrow> number_nodes ''meb'' ''meb_id'' mebs)
             (eseq (ebind (eget (\<lambda>s. case map_of (cmstate_of s) ''drp'' of None \<Rightarrow> [] | Some cs \<Rightarrow> map snd cs))
                     (efor update_history))
             (eguard (save_activedet C)
                (set_last Tr_alloc))))))))"

definition condition_alloc :: "conf \<Rightarrow> bool act" where
  "condition_alloc C =
     ebind active_ids (\<lambda>is.
     ebind (back_send C ''all'' Tr_alloc
              (JDict [(''ids'', JList (map JInt (sorted_list_of_set is)))])) (\<lambda>m.
     ebind (confirm_response C 5000 (Some (m_id m)) is None) (\<lambda>(missing, answers, reports).
     eseq (process_reports C no_chunk reports)
       (if missing \<noteq> {} then eseq (report_missing C ''alloc'' missing) (eret False)
        else eseq (efor store_answer answers)
               (ebind (ebind (eget (\<lambda>s. filter_active_dict (cmstate_levels (cmstate_of s)))) elift)
                  (alloc_nodes C))))))"

fun clear_L0Groups :: "conf \<Rightarrow> string list \<Rightarrow> bool act" where
  "clear_L0Groups C [] = eret True"
| "clear_L0Groups C (pv # pvs) =
     ebind (pv_put C pv 0) (\<lambda>ok.
       if ok then clear_L0Groups C pvs
       else eseq (report_error C (''condition_dealloc() failed putting 0 to PV '' @ pv)) (eret False))"

definition condition_dealloc :: "conf \<Rightarrow> bool act" where
  "condition_dealloc C =
     ebind active_ids (\<lambda>is.
     ebind (back_send C ''partition'' Tr_dealloc (JDict [])) (\<lambda>m.
     eguard (confirm_all C ''dealloc'' m 30000 is)
    (ebind (eget pvListL0Groups) (\<lambda>pvs.
       case pvs of
         None \<Rightarrow> eraise (AttributeError ''pvListL0Groups'')
       | Some ps \<Rightarrow> eguard (clear_L0Groups C ps) (set_last Tr_dealloc)))))"

section \<open>connect and disconnect\<close>

fun claim_xpms :: "conf \<Rightarrow> string list \<Rightarrow> bool act" where
  "claim_xpms C [] = eret True"
| "claim_xpms C (pv # pvs) =
     ebind (pv_put C pv 1) (\<lambda>ok.
       if ok then claim_xpms C pvs
       else eseq (report_error C (''connect: failed to put PV '' @ squote pv)) (eret False))"

definition condition_connect :: "conf \<Rightarrow> bool act" where
  "condition_connect C =
     eguard (ebind (eget pvListXPM) (claim_xpms C))
    (ebind active_ids (\<lambda>is.
     ebind (ebind (eget (\<lambda>s. filter_active_dict (cmstate_levels (cmstate_of s)))) elift) (\<lambda>body.
     ebind (back_send C ''partition'' Tr_connect (cm_json body)) (\<lambda>m.
     eguard (confirm_all C ''connect'' m 20000 is)
       (set_last Tr_connect)))))"

definition condition_disconnect :: "conf \<Rightarrow> bool act" where
  "condition_disconnect C =
     ebind active_ids (\<lambda>is.
     ebind (back_send C ''partition'' Tr_disconnect (JDict [])) (\<lambda>m.
     eguard (confirm_all C ''disconnect'' m 30000 is)
       (set_last Tr_disconnect)))"

section \<open>configure and unconfigure\<close>

definition condition_configure :: "conf \<Rightarrow> bool act" where
  "condition_configure C =
     eguard (ebind (eget config_alias) (\<lambda>al.
               condition_common C Tr_configure 60000
                 [(''config_alias'', JStr al), (''trigger_config'', JStr (c_trigger_config C))]))
    (eseq (rp_configure C)
    (eseq (clear_readout C)
    (eseq (insert_transition C (transitionId TI_Configure))
    (eseq (no_steps C)
    (eseq (emod (\<lambda>s. s\<lparr>readoutCumulative := 0\<rparr>))
    (eguard (get_phase2_replies C Tr_configure)
       (set_last Tr_configure)))))))"

definition condition_unconfigure :: "conf \<Rightarrow> bool act" where
  "condition_unconfigure C =
     eseq (emod (\<lambda>s. s\<lparr>phase1Info := []\<rparr>))
    (eseq rp_unconfigure
    (eguard (condition_common C Tr_unconfigure 6000 [])
    (eseq (insert_transition C (transitionId TI_Unconfigure))
    (eguard (get_phase2_replies C Tr_unconfigure)
       (set_last Tr_unconfigure)))))"

section \<open>beginrun and endrun\<close>

definition run_info :: "string \<Rightarrow> int option \<Rightarrow> json" where
  "run_info ename num = JDict [(''run_info'',
     JDict [(''experiment_name'', JStr ename), (''run_number'', opt_int num)])]"

definition set_run_info :: "string \<Rightarrow> unit act" where
  "set_run_info ename =
     emod (\<lambda>s. s\<lparr>phase1Info := AList.update ''beginrun'' (run_info ename (run_number s)) (phase1Info s)\<rparr>)"

definition open_run :: "conf \<Rightarrow> string \<Rightarrow> bool act" where
  "open_run C ename =
     ebind (eget recording) (\<lambda>rec.
       if rec
       then etry_else (start_run C ename)
              (\<lambda>e. eseq (emod (\<lambda>s. s\<lparr>run_number := Some 0\<rparr>))
                  (eseq (report_error C ''Failed to start a run with recording enabled'') (eret False)))
              (\<lambda>num. eseq (emod (\<lambda>s. s\<lparr>run_number := num\<rparr>))
                    (eseq (set_run_info ename)
                    (eseq (rp_beginrun C ename) (eret True))))
       else eseq (emod (\<lambda>s. s\<lparr>run_number := Some 0\<rparr>))
              (eseq (set_run_info ename) (eret True)))"

definition condition_beginrun :: "conf \<Rightarrow> bool act" where
  "condition_beginrun C =
     ebind (get_experiment C) (\<lambda>expt.
     eseq (emod (\<lambda>s. s\<lparr>experiment_name := expt\<rparr>))
       (if expt = None \<or> expt = Some []
        then eseq (report_error C (''condition_beginrun(): get_experiment() failed (instrument=''
                     @ squote (c_instrument C) @ '', station='' @ int_str (c_station C) @ '')''))
                  (eret False)
        else eguard (open_run C (the expt))
            (eguard (condition_common C Tr_beginrun 6000 [])
            (eseq (clear_readout C)
            (eseq (insert_transition C (transitionId TI_BeginRun))
            (eseq (emod (\<lambda>s. s\<lparr>readoutCumulative := 0\<rparr>))
            (eguard (get_phase2_replies C Tr_beginrun)
               (set_last Tr_beginrun))))))))"

definition store_run_number :: "bool act" where
  "store_run_number =
     ebind (eget run_number) (\<lambda>num.
       case num of
         None \<Rightarrow> eraise TypeError
       | Some n \<Rightarrow>
           eseq (ewhen (0 < n) (emod (\<lambda>s. s\<lparr>last_run_number := run_number s, run_number := Some 0\<rparr>)))
                (eret True))"

definition condition_endrun :: "conf \<Rightarrow> bool act" where
  "condition_endrun C =
     eseq (ebind (eget (\<lambda>s. (recording s, experiment_name s))) (\<lambda>(rec, expt).
             case expt of
               None \<Rightarrow> eret ()
             | Some ename \<Rightarrow> ewhen (rec \<and> ename \<noteq> []) (end_run C ename)))
    (eguard (condition_common C Tr_endrun 6000 [])
    (eseq (insert_transition C (transitionId TI_EndRun))
    (eseq (no_steps C)
    (eguard (get_phase2_replies C Tr_endrun)
    (eseq (set_last Tr_endrun)
       store_run_number)))))"

section \<open>beginstep and endstep\<close>

definition condition_beginstep :: "conf \<Rightarrow> bool act" where
  "condition_beginstep C =
     eguard (condition_common C Tr_beginstep 30000 [])
    (eseq (insert_transition C (transitionId TI_BeginStep))
    (eguard (get_phase2_replies C Tr_beginstep)
       (set_last Tr_beginstep)))"

definition condition_endstep :: "conf \<Rightarrow> bool act" where
  "condition_endstep C =
     eguard (condition_common C Tr_endstep 6000 [])
    (eseq (insert_transition C (transitionId TI_EndStep))
    (eguard (get_phase2_replies C Tr_endstep)
       (set_last Tr_endstep)))"

section \<open>enable and disable\<close>

text \<open>The readout count and group mask of a step; without both the defaults are used.\<close>

definition step_info :: "conf \<Rightarrow> item \<Rightarrow> pyexc + json \<times> json" where
  "step_info C info =
     (case sbind (dict_get info ''enable'') (\<lambda>e. sbind (jget e ''readout_count'') (\<lambda>c.
             sbind (jget e ''group_mask'') (\<lambda>g. Inr (c, g)))) of
        Inl KeyError \<Rightarrow> Inr (JInt 0, JInt (push_bit (nat (c_platform C)) 1))
      | r \<Rightarrow> r)"

definition start_step :: "conf \<Rightarrow> json \<Rightarrow> json \<Rightarrow> unit act" where
  "start_step C readout_count group_mask =
     ebind (elift (jint readout_count)) (\<lambda>n.
       if 0 < n
       then eseq (emod (\<lambda>s. s\<lparr>readoutCumulative := readoutCumulative s + n\<rparr>))
           (eseq (ebind (eget readoutCumulative) (pv_put0 C (pvStepEnd C)))
           (eseq (ebind (elift (jint group_mask)) (pv_put0 C (pvStepGroups C)))
                 (pv_put0 C (pvStepDone C) 0)))
       else no_steps C)"

definition condition_enable :: "conf \<Rightarrow> bool act" where
  "condition_enable C =
     ebind (ebind (eget (\<lambda>s. step_info C (phase1Info s))) elift) (\<lambda>(readout_count, group_mask).
     eguard (condition_common C Tr_enable 6000 [])
    (eseq (start_step C readout_count group_mask)
    (eseq (insert_transition C (transitionId TI_Enable))
    (eguard (get_phase2_replies C Tr_enable)
    (eguard (group_run C True)
       (set_last Tr_enable))))))"

definition set_slow_update_enabled :: "bool \<Rightarrow> unit act" where
  "set_slow_update_enabled b = emod (\<lambda>s. s\<lparr>slow_update_enabled := b\<rparr>)"

definition after_enable :: "conf \<Rightarrow> unit act" where
  "after_enable C = ewhen (c_slow_update_rate C \<noteq> 0) (set_slow_update_enabled True)"

definition condition_disable :: "conf \<Rightarrow> bool act" where
  "condition_disable C =
     eguard (group_run C False)
    (eseq (ewhen (c_slow_update_rate C \<noteq> 0) (set_slow_update_enabled False))
    (eguard (condition_common C Tr_disable 6000 [])
    (eseq (insert_transition C (0x180 OR transitionId TI_Disable))
    (eguard (get_phase2_replies C Tr_disable)
       (set_last Tr_disable)))))"

section \<open>slowupdate and reset\<close>

fun put_until_failure :: "conf \<Rightarrow> int \<Rightarrow> string list \<Rightarrow> bool act" where
  "put_until_failure C val [] = eret True"
| "put_until_failure C val (pv # pvs) = eguard (pv_put C pv val) (put_until_failure C val pvs)"

definition condition_slowupdate :: "conf \<Rightarrow> bool act" where
  "condition_slowupdate C =
     eguard (ebind (eget pvListMsgHeader) (put_until_failure C (0x80 OR transitionId TI_SlowUpdate)))
    (eseq (msg_insert C)
       (set_last Tr_slowupdate))"

definition condition_reset :: "conf \<Rightarrow> bool act" where
  "condition_reset C =
     eseq (emod (\<lambda>s. s\<lparr>phase1Info := []\<rparr>))
    (eseq (ebind (eget dstate) (\<lambda>st. ewhen (st = St_running) (eseq (group_run C False) (eret ()))))
    (eseq (set_slow_update_enabled False)
    (eseq (back_send C ''all'' Tr_reset (JDict []))
       (set_last Tr_reset))))"

definition on_enter_reset :: "unit act" where
  "on_enter_reset = emod (\<lambda>s. s\<lparr>cmstate_of := [], ids := {}\<rparr>)"

end
