(* ===== verification/Rollcall.thy ===== *)
theory Rollcall
  imports Conditions
begin

text \<open>
  \<open>condition_rollcall\<close>: the control process asks who is there until every client the
  active-detector file requires has answered or the time is up, and gives each client its
  \<open>hidden\<close> and \<open>active\<close> flags and each detector its readout group. Without the
  file (bypassed) every client is active. The answers of collection clients carry the id of
  their sender; the model raises \<open>TypeError\<close> on one that does not.
\<close>

section \<open>Reading the active detectors\<close>

text \<open>\<open>k in j\<close> for any value\<close>

fun contains :: "string \<Rightarrow> string \<Rightarrow> bool" where
  "contains [] k = (k = [])"
| "contains (c # cs) k = (startswith (c # cs) k \<or> contains cs k)"

fun json_in :: "json \<Rightarrow> string \<Rightarrow> pyexc + bool" where
  "json_in (JDict d) k = Inr (map_of d k \<noteq> None)"
| "json_in (JList xs) k = Inr (JStr k \<in> set xs)"
| "json_in (JStr s) k = Inr (contains s k)"
| "json_in _ k = Inl TypeError"

text \<open>\<open>len(j)\<close>, and \<open>j.keys()\<close> as a \<open>k in\<close> test\<close>

fun json_len :: "json \<Rightarrow> pyexc + nat" where
  "json_len (JDict d) = Inr (length d)"
| "json_len (JList xs) = Inr (length xs)"
| "json_len (JStr s) = Inr (length s)"
| "json_len _ = Inl TypeError"

definition in_keys :: "json \<Rightarrow> string \<Rightarrow> pyexc + bool" where
  "in_keys j k = (case j of JDict d \<Rightarrow> Inr (map_of d k \<noteq> None) | _ \<Rightarrow> Inl (AttributeError ''keys''))"

fun jpath :: "json \<Rightarrow> string list \<Rightarrow> pyexc + json" where
  "jpath j [] = Inr j"
| "jpath j (k # ks) = sbind (jget j k) (\<lambda>v. jpath v ks)"

fun jcopy :: "json \<Rightarrow> pyexc + json" where
  "jcopy (JDict d) = Inr (JDict d)"
| "jcopy (JList xs) = Inr (JList xs)"
| "jcopy _ = Inl (AttributeError ''copy'')"

text \<open>The active detectors file is missing: its use is switched off.\<close>

definition check_activedet_file :: "conf \<Rightarrow> unit act" where
  "check_activedet_file C =
     ebind (eget (\<lambda>s. \<not> bypass_activedet s \<and> \<not> is_file s (c_activedetfilename C))) (\<lambda>gone.
       ewhen gone
         (eseq (report_error C (''Missing active detectors file '' @ c_activedetfilename C))
               (emod (\<lambda>s. s\<lparr>bypass_activedet := True\<rparr>))))"

definition empty_history :: json where
  "empty_history = JDict [(''drp'', JDict [])]"

text \<open>The history and the required clients of the file's content.\<close>

definition load_activedet :: "conf \<Rightarrow> json \<Rightarrow> string list act" where
  "load_activedet C json_data =
     ebind (elift (in_keys json_data ''history'')) (\<lambda>hist.
     eseq (ewhen hist (ebind (elift (jget json_data ''history'')) (\<lambda>h. emod (\<lambda>s. s\<lparr>history := h\<rparr>))))
    (eseq (ebind (ebind (eget (\<lambda>s. json_in (history s) ''drp'')) elift) (\<lambda>has.
             ewhen (\<not> has) (emod (\<lambda>s. s\<lparr>history := empty_history\<rparr>))))
    (ebind (elift (in_keys json_data ''activedet'')) (\<lambda>ad.
       if ad then ebind (elift (get_active_and_inactive json_data)) (\<lambda>(act, inact). eret act)
       else eseq (report_error C (''Missing \"activedet\" key in active detectors file '' @ c_activedetfilename C))
                 (eret [])))))"

definition required_clients :: "conf \<Rightarrow> (json \<times> string list) act" where
  "required_clients C =
     ebind (eget bypass_activedet) (\<lambda>bypass.
       if bypass then eret (JDict [], [])
       else ebind (read_json_file C (c_activedetfilename C)) (\<lambda>json_data.
            ebind (elift (json_len json_data)) (\<lambda>n.
            ebind (if 0 < n then load_activedet C json_data else eret []) (\<lambda>active_set.
            eseq (ewhen (active_set = [])
                    (report_error C (''Failed to read configuration from active detectors file ''
                       @ c_activedetfilename C)))
                 (eret (json_data, active_set))))))"

section \<open>One answer\<close>

text \<open>\<open>self.cmstate[level][id] = item\<close>, the level created when it is new\<close>

definition cm_store :: "string \<Rightarrow> int \<Rightarrow> item \<Rightarrow> cmstate \<Rightarrow> cmstate" where
  "cm_store level xid it cm =
     AList.update level (AList.update xid it (case map_of cm level of None \<Rightarrow> [] | Some cs \<Rightarrow> cs)) cm"

definition hidden_flag :: "string \<Rightarrow> json" where
  "hidden_flag level = JInt (if level = ''drp'' \<or> level = ''meb'' then 0 else 1)"

definition set_field :: "string \<Rightarrow> int \<Rightarrow> string \<Rightarrow> json \<Rightarrow> unit act" where
  "set_field level xid key v = map_cm (\<lambda>cm. cm_update cm level xid (AList.update key v))"

definition readout_info :: "json \<Rightarrow> json" where
  "readout_info g = JDict [(''readout'', g)]"

text \<open>The readout group of a new detector: the file's, the history's or the default.\<close>

definition default_group :: "conf \<Rightarrow> json \<Rightarrow> json \<Rightarrow> string \<Rightarrow> pyexc + json" where
  "default_group C json_data hist al =
     (case jpath json_data [''activedet'', ''drp'', al, ''det_info'', ''readout''] of
        Inl KeyError \<Rightarrow>
          (case jpath hist [''drp'', al, ''det_info'', ''readout''] of
             Inl KeyError \<Rightarrow> Inr (JInt (c_platform C))
           | r \<Rightarrow> r)
      | r \<Rightarrow> r)"

definition flag_client ::
    "conf \<Rightarrow> json \<Rightarrow> string \<Rightarrow> string \<Rightarrow> int \<Rightarrow> bool \<Rightarrow> unit act" where
  "flag_client C json_data level al xid newfound =
     ebind (eget bypass_activedet) (\<lambda>bypass.
       if bypass
       then eseq (set_field level xid ''active'' (JInt 1))
              (ewhen (level = ''drp'')
                 (set_field level xid ''det_info'' (readout_info (JInt (c_platform C)))))
       else if newfound
       then (if level = ''drp'' \<or> level = ''meb''
             then eseq (set_field level xid ''active'' (JInt 0))
                 (eseq (report_warning C (''rollcall: '' @ client_name level al @ '' NOT selected for data collection''))
                    (ewhen (level = ''drp'')
                       (ebind (ebind (eget (\<lambda>s. default_group C json_data (history s) al)) elift) (\<lambda>g.
                          set_field level xid ''det_info'' (readout_info g)))))
             else set_field level xid ''active'' (JInt 1))
       else ebind (elift (jpath json_data [''activedet'', level, al, ''active''])) (\<lambda>v.
            eseq (set_field level xid ''active'' v)
              (ewhen (level = ''drp'')
                 (ebind (elift (sbind (jpath json_data [''activedet'', level, al, ''det_info'']) jcopy)) (\<lambda>d.
                  eseq (set_field level xid ''det_info'' d)
                 (ebind (elift (jpath json_data [''activedet'', level, al, ''det_info'', ''readout''])) (\<lambda>g.
                  ebind (elift (jint g)) (\<lambda>_. eret ()))))))))"

text \<open>
  One level of an answer; the loop's variable is the set of responders that the file does not
  require. A second answer of such a responder is dropped.
\<close>

definition rollcall_item ::
    "conf \<Rightarrow> string list \<Rightarrow> json \<Rightarrow> string list \<Rightarrow> msg \<Rightarrow> string \<times> json \<Rightarrow> string list \<Rightarrow> string list act" where
  "rollcall_item C active_set json_data missing m p newfound =
     (case p of (level, info) \<Rightarrow>
        ebind (elift (sbind (jget2 info ''proc_info'' ''alias'') jstring)) (\<lambda>al.
        ebind (eget bypass_activedet) (\<lambda>bypass.
          (let responder = client_name level al;
               unlisted = (\<not> bypass \<and> responder \<notin> set active_set)
           in if unlisted \<and> responder \<in> set newfound \<and> responder \<notin> set missing then eret newfound
              else (case m_sender m of
                None \<Rightarrow> eraise TypeError
              | Some xid \<Rightarrow>
                  (let newfound' = (if unlisted then set_add responder newfound else newfound)
                   in ebind (elift (jdict info)) (\<lambda>it.
                      eseq (emod (\<lambda>s. s\<lparr>cmstate_of := cm_store level xid
                              (AList.update ''hidden'' (hidden_flag level) it) (cmstate_of s)\<rparr>))
                     (eseq (flag_client C json_data level al xid (responder \<in> set newfound'))
                     (eseq (emod (\<lambda>s. s\<lparr>ids := insert xid (ids s)\<rparr>))
                           (eret newfound'))))))))))"

definition rollcall_answer ::
    "conf \<Rightarrow> string list \<Rightarrow> json \<Rightarrow> string list \<Rightarrow> msg \<Rightarrow> string list \<Rightarrow> string list act" where
  "rollcall_answer C active_set json_data missing m newfound =
     (if m_key m \<in> set report_keys
      then eseq (process_reports C no_chunk [m]) (eret newfound)
      else ebind (elift (jitems (m_body m))) (\<lambda>levels.
             efold (rollcall_item C active_set json_data missing m) levels newfound))"

section \<open>The loop\<close>

text \<open>\<open>missing_set -= ...\<close>; a client without an alias is passed over.\<close>

definition subtract_client :: "string \<times> item \<Rightarrow> string list \<Rightarrow> pyexc + string list" where
  "subtract_client p missing =
     (case p of (level, it) \<Rightarrow>
        (case proc_alias it of
           Inl KeyError \<Rightarrow> Inr missing
         | Inl e \<Rightarrow> Inl e
         | Inr al \<Rightarrow> Inr (filter (\<lambda>c. c \<noteq> client_name level al) missing)))"

definition level_clients :: "cmstate \<Rightarrow> (string \<times> item) list" where
  "level_clients cm = concat (map (\<lambda>(level, cs). map (\<lambda>(xid, it). (level, it)) cs) (cmstate_levels cm))"

definition subtract_clients :: "cmstate \<Rightarrow> string list \<Rightarrow> pyexc + string list" where
  "subtract_clients cm missing =
     (if missing = [] then Inr [] else sfold subtract_client (level_clients cm) missing)"

fun rollcall_loop ::
    "conf \<Rightarrow> string list \<Rightarrow> json \<Rightarrow> msg \<Rightarrow> round list \<Rightarrow> string list \<Rightarrow> string list \<Rightarrow> string list act" where
  "rollcall_loop C active_set json_data m [] missing newfound = eret missing"
| "rollcall_loop C active_set json_data m (r # rs) missing newfound =
     eseq (emit (BackPub ''all'' m))
    (ebind (efold (rollcall_answer C active_set json_data missing)
              (wait_for_answers (Some (m_id m)) (r_polled r)) newfound) (\<lambda>newfound'.
     ebind (ebind (eget (\<lambda>s. subtract_clients (cmstate_of s) missing)) elift) (\<lambda>missing'.
       if missing' = [] then eret []
       else eseq (progressReport C (r_elapsed r) (1000 * c_rollcall_timeout C) ''rollcall'')
              (rollcall_loop C active_set json_data m rs missing' newfound'))))"

section \<open>Duplicate aliases and control information\<close>

fun find_dups :: "(string \<times> item) list \<Rightarrow> string list \<Rightarrow> string list \<Rightarrow> pyexc + string list" where
  "find_dups [] aliases dups = Inr dups"
| "find_dups ((level, it) # cs) aliases dups =
     sbind (proc_alias it) (\<lambda>al.
       if al \<in> set aliases then find_dups cs aliases (set_add (client_name level al) dups)
       else find_dups cs (aliases @ [al]) dups)"

definition check_for_dups :: "cmstate \<Rightarrow> pyexc + string list" where
  "check_for_dups cm = find_dups (level_clients cm) [] []"

definition control_item :: "conf \<Rightarrow> item" where
  "control_item C =
     [(''active'', JInt 1), (''hidden'', JInt 1),
      (''control_info'', JDict
         [(''xpm_master'', JInt (c_xpm_master C)), (''pv_base'', JStr (c_pv_base C)),
          (''cfg_dbase'', JStr (c_cfg_dbase C)), (''instrument'', JStr (c_instrument C)),
          (''slow_update_rate'', JInt (c_slow_update_rate C))]),
      (''proc_info'', JDict
         [(''alias'', JStr (c_alias C)), (''host'', JStr (c_hostname C)), (''pid'', JInt (c_pid C))])]"

definition add_control_info :: "conf \<Rightarrow> cmstate \<Rightarrow> cmstate" where
  "add_control_info C cm =
     (if map_of cm ''control'' = None then cm_store ''control'' 0 (control_item C) cm else cm)"

definition condition_rollcall :: "conf \<Rightarrow> bool act" where
  "condition_rollcall C =
     eseq (check_activedet_file C)
    (ebind (required_clients C) (\<lambda>(json_data, active_set).
     eseq (emod (\<lambda>s. s\<lparr>cmstate_of := [], ids := {}\<rparr>))
    (ebind (new_msg C ''rollcall'' (JDict [])) (\<lambda>m.
     ebind (next_rounds C) (\<lambda>rs.
     ebind (rollcall_loop C active_set json_data m rs active_set []) (\<lambda>missing.
     ebind (ebind (eget (\<lambda>s. check_for_dups (cmstate_of s))) elift) (\<lambda>dups.
     eseq (efor (\<lambda>d. report_error C (''duplicate alias responded to rollcall: '' @ d)) dups)
    (eseq (efor (\<lambda>c. report_warning C (c @ '' did not respond to rollcall'')) missing)
    (eseq (emod (\<lambda>s. s\<lparr>lastTransition := Tr_rollcall, cmstate_of := add_control_info C (cmstate_of s)\<rparr>))
          (eret True))))))))))"

end
