(* ===== verification/Machine.thy ===== *)
theory Machine
  imports Rollcall
begin

text \<open>
  The state machine of the control process: the transition table \<open>collectMachine\<close>, the
  route table \<open>next_dict\<close>, \<open>handle_trigger\<close>, \<open>handle_setstate\<close> and
  \<open>handle_chunkrequest\<close>.

  The package \<^verbatim>\<open>transitions\<close> that runs the table is a parameter \<open>trig\<close>;
  the locale \<open>transitions_package\<close> states its documented behaviour on a table with at most
  one row for a trigger and a state: the trigger raises \<open>MachineError\<close> when there is no
  row, otherwise the row's condition runs, and when it returns True the state is set, the
  state's \<open>on_enter\<close> method and the row's \<open>after\<close> methods run. \<open>std_trig\<close> is an
  instance, which shows that the assumptions can hold.
\<close>

section \<open>The table\<close>

datatype row = Row
  (row_trigger: transition)
  (row_sources: "daq_state list")
  (row_dest: "daq_state option")
  (row_condition: "bool act")
  (row_after: "unit act list")

definition collectMachine :: "conf \<Rightarrow> row list" where
  "collectMachine C =
     [Row Tr_reset states (Some St_reset) (condition_reset C) [report_status C],
      Row Tr_rollcall [St_reset, St_unallocated] (Some St_unallocated) (condition_rollcall C) [report_status C],
      Row Tr_alloc [St_unallocated] (Some St_allocated) (condition_alloc C) [report_status C],
      Row Tr_dealloc [St_allocated] (Some St_unallocated) (condition_dealloc C) [report_status C],
      Row Tr_connect [St_allocated] (Some St_connected) (condition_connect C) [report_status C],
      Row Tr_disconnect [St_connected] (Some St_allocated) (condition_disconnect C) [report_status C],
      Row Tr_configure [St_connected] (Some St_configured) (condition_configure C) [report_status C],
      Row Tr_unconfigure [St_configured] (Some St_connected) (condition_unconfigure C) [report_status C],
      Row Tr_beginrun [St_configured] (Some St_starting) (condition_beginrun C) [report_status C],
      Row Tr_endrun [St_starting] (Some St_configured) (condition_endrun C) [report_status C],
      Row Tr_beginstep [St_starting] (Some St_paused) (condition_beginstep C) [report_status C],
      Row Tr_endstep [St_paused] (Some St_starting) (condition_endstep C) [report_status C],
      Row Tr_enable [St_paused] (Some St_running) (condition_enable C) [after_enable C, report_status C],
      Row Tr_disable [St_running] (Some St_paused) (condition_disable C) [report_status C],
      Row Tr_slowupdate [St_running] None (condition_slowupdate C) []]"

text \<open>The \<open>on_enter\<close> methods of the class: only the state reset has one.\<close>

definition on_enter :: "daq_state \<Rightarrow> unit act" where
  "on_enter st = (if st = St_reset then on_enter_reset else eret ())"

section \<open>The package\<close>

type_synonym trig_fun = "row list \<Rightarrow> (daq_state \<Rightarrow> unit act) \<Rightarrow> transition \<Rightarrow> bool act"

definition enter_state :: "(daq_state \<Rightarrow> unit act) \<Rightarrow> daq_state option \<Rightarrow> unit act" where
  "enter_state enter d =
     (case d of None \<Rightarrow> eret () | Some st \<Rightarrow> eseq (emod (\<lambda>s. s\<lparr>dstate := st\<rparr>)) (enter st))"

definition fire :: "(daq_state \<Rightarrow> unit act) \<Rightarrow> row \<Rightarrow> bool act" where
  "fire enter r =
     eguard (row_condition r)
    (eseq (enter_state enter (row_dest r))
    (eseq (efor (\<lambda>a. a) (row_after r))
          (eret True)))"

definition matching :: "row list \<Rightarrow> transition \<Rightarrow> daq_state \<Rightarrow> row list" where
  "matching rows t st = filter (\<lambda>r. row_trigger r = t \<and> st \<in> set (row_sources r)) rows"

locale transitions_package =
  fixes trig :: trig_fun
  assumes trig_row: "matching rows t (dstate s) = [r] \<Longrightarrow> trig rows enter t s = fire enter r s"
    and trig_no_row: "matching rows t (dstate s) = [] \<Longrightarrow>
      \<exists>txt. trig rows enter t s = (Inl (MachineError txt), s)"

definition std_trig :: trig_fun where
  "std_trig rows enter t = (\<lambda>s. case matching rows t (dstate s) of
       [] \<Rightarrow> (Inl (MachineError ''no transition''), s)
     | r # _ \<Rightarrow> fire enter r s)"

interpretation std: transitions_package std_trig
  by unfold_locales (auto simp: std_trig_def)

section \<open>Routes between states\<close>

fun next_dict :: "daq_state \<Rightarrow> daq_state \<Rightarrow> transition option" where
  "next_dict St_reset new = (if new = St_reset then None else Some Tr_rollcall)"
| "next_dict St_unallocated new =
     (case new of St_reset \<Rightarrow> Some Tr_reset | St_unallocated \<Rightarrow> None | _ \<Rightarrow> Some Tr_alloc)"
| "next_dict St_allocated new =
     (case new of St_reset \<Rightarrow> Some Tr_reset | St_unallocated \<Rightarrow> Some Tr_dealloc
      | St_allocated \<Rightarrow> None | _ \<Rightarrow> Some Tr_connect)"
| "next_dict St_connected new =
     (case new of St_reset \<Rightarrow> Some Tr_reset | St_unallocated \<Rightarrow> Some Tr_disconnect
      | St_allocated \<Rightarrow> Some Tr_disconnect | St_connected \<Rightarrow> None | _ \<Rightarrow> Some Tr_configure)"
| "next_dict St_configured new =
     (case new of St_reset \<Rightarrow> Some Tr_reset | St_configured \<Rightarrow> None
      | St_starting \<Rightarrow> Some Tr_beginrun | St_paused \<Rightarrow> Some Tr_beginrun | St_running \<Rightarrow> Some Tr_beginrun
      | _ \<Rightarrow> Some Tr_unconfigure)"
| "next_dict St_starting new =
     (case new of St_reset \<Rightarrow> Some Tr_reset | St_starting \<Rightarrow> None
      | St_paused \<Rightarrow> Some Tr_beginstep | St_running \<Rightarrow> Some Tr_beginstep | _ \<Rightarrow> Some Tr_endrun)"
| "next_dict St_paused new =
     (case new of St_reset \<Rightarrow> Some Tr_reset | St_paused \<Rightarrow> None | St_running \<Rightarrow> Some Tr_enable
      | _ \<Rightarrow> Some Tr_endstep)"
| "next_dict St_running new =
     (case new of St_reset \<Rightarrow> Some Tr_reset | St_running \<Rightarrow> None | _ \<Rightarrow> Some Tr_disable)"

text \<open>\<open>next_transition\<close>: None stands for \<open>'error'\<close>.\<close>

definition next_transition :: "daq_state \<Rightarrow> daq_state \<Rightarrow> transition option" where
  "next_transition oldstate newstate = next_dict oldstate newstate"

section \<open>Triggering transitions\<close>

definition err_body :: "string \<Rightarrow> json" where
  "err_body txt = JDict [(''err_info'', JStr txt)]"

text \<open>The machine's errors; another exception of a condition method is not caught.\<close>

definition trigger_error :: "pyexc \<Rightarrow> string option" where
  "trigger_error e = (case e of MachineError x \<Rightarrow> Some x | AttributeError x \<Rightarrow> Some x | _ \<Rightarrow> None)"

definition handle_trigger :: "conf \<Rightarrow> trig_fun \<Rightarrow> transition \<Rightarrow> bool \<Rightarrow> msg act" where
  "handle_trigger C trig key stateChange =
     ebind (eget dstate) (\<lambda>stateBefore.
     ebind (etry_else (trig (collectMachine C) on_enter key)
              (\<lambda>e. case trigger_error e of Some x \<Rightarrow> eret (Some x) | None \<Rightarrow> eraise e)
              (\<lambda>_. eget (\<lambda>s. if stateChange \<and> dstate s = stateBefore
                               then Some (trans_name key @ '' failed to change state'') else None)))
       (\<lambda>trigError.
     ebind (eget (\<lambda>s. (dstate s, cmstate_of s))) (\<lambda>(st, cm).
       case trigError of
         None \<Rightarrow> new_msg C (state_name st) (cm_json cm)
       | Some x \<Rightarrow> new_msg C (state_name st) (err_body (filter (\<lambda>c. c \<noteq> CHR 34) x)))))"

text \<open>\<open>'err_info' in answer['body']\<close>\<close>

definition has_err :: "msg \<Rightarrow> bool" where
  "has_err m = jhas (m_body m) ''err_info''"

definition report_err_of :: "conf \<Rightarrow> msg \<Rightarrow> unit act" where
  "report_err_of C m = ebind (elift (jget (m_body m) ''err_info'')) (report_error_json C)"

text \<open>
  The loop of \<open>handle_setstate\<close>. It has no bound in the source; None is a loop that does not
  end.
\<close>

partial_function (option) setstate_loop ::
    "conf \<Rightarrow> trig_fun \<Rightarrow> daq_state \<Rightarrow> msg \<Rightarrow> mgr \<Rightarrow> ((pyexc + msg) \<times> mgr) option" where
  "setstate_loop C trig newstate answer s =
     (if dstate s = newstate then Some (Inr answer, s)
      else (case next_transition (dstate s) newstate of
              None \<Rightarrow> Some (new_msg C ''error'' (err_body ''next_transition() error'') s)
            | Some nextT \<Rightarrow>
                (case handle_trigger C trig nextT True s of
                   (Inl e, s1) \<Rightarrow> Some (Inl e, s1)
                 | (Inr answer1, s1) \<Rightarrow>
                     if has_err answer1 then Some (eseq (report_err_of C answer1) (eret answer1) s1)
                     else setstate_loop C trig newstate answer1 s1)))"

definition handle_setstate ::
    "conf \<Rightarrow> trig_fun \<Rightarrow> string \<Rightarrow> mgr \<Rightarrow> ((pyexc + msg) \<times> mgr) option" where
  "handle_setstate C trig newstate s =
     (case state_of_name newstate of
        None \<Rightarrow>
          Some (ebind (new_msg C ''error'' (err_body (filter (\<lambda>c. c \<noteq> CHR 34)
                        (''state '' @ squote newstate @ '' not recognized''))))
                  (\<lambda>answer. eseq (front_reply answer) (eret answer)) s)
      | Some st \<Rightarrow>
          (case ebind (new_msg C ''ok'' (JDict [])) (\<lambda>answer. eseq (front_reply answer) (eret answer)) s of
             (Inl e, s1) \<Rightarrow> Some (Inl e, s1)
           | (Inr answer, s1) \<Rightarrow> setstate_loop C trig st answer s1))"

text \<open>A chunking opportunity: running, paused, running.\<close>

definition handle_chunkrequest :: "conf \<Rightarrow> trig_fun \<Rightarrow> json \<Rightarrow> msg act" where
  "handle_chunkrequest C trig body =
     ebind (new_msg C ''ok'' (JDict [])) (\<lambda>ok.
     ebind (eget dstate) (\<lambda>st.
       if st = St_running
       then ebind (handle_trigger C trig Tr_disable True) (\<lambda>answer.
              if has_err answer then eret answer
              else ebind (handle_trigger C trig Tr_enable True) (\<lambda>answer2.
                     if has_err answer2 then eret answer2 else eret ok))
       else new_msg C ''error'' (err_body
              (''cannot chunkrequest in state '' @ squote (state_name st) @ '' -- must be Running first''))))"

end
