(* ===== verification/Frames.thy ===== *)
theory Frames
  imports Machine
begin

text \<open>
  What the methods of the manager leave alone, in four locales that each take a preorder on
  states. \<open>talk_frame\<close>: the preorder respects published output and the counters of calls to
  the outside, so publishing, reports, the collection of answers and the logbook respect it.
  \<open>io_frame\<close>: it respects puts to PVs as well.
  \<open>mgr_frame\<close>: it also respects every field the condition methods write, the switch of the
  slow updates apart. \<open>slow_frame\<close>: the switch as well. The interpretations are \<open>quiet\<close>
  (nothing but output and counters changes), \<open>keeps\<close> (the machine's state, the configuration
  alias, the recording flag and the sockets are untouched and the output grows without replies)
  and \<open>keeps_slow\<close> (the machine's state and the switch are untouched).
\<close>

section \<open>Case distinctions on the model's types\<close>

lemma frames_case_put_outcome:
  "frames R a \<Longrightarrow> frames R b \<Longrightarrow> frames R c \<Longrightarrow>
    frames R (case x of PutOk \<Rightarrow> a | PutTimeout \<Rightarrow> b | PutFailed \<Rightarrow> c)"
  by (cases x) auto

lemma frames_case_http:
  "(\<And>b t. frames R (f b t)) \<Longrightarrow> (\<And>n j c. frames R (g n j c)) \<Longrightarrow>
    frames R (case x of HttpRaise b t \<Rightarrow> f b t | HttpReply n j c \<Rightarrow> g n j c)"
  by (cases x) auto

lemma frames_case_pv_value:
  "(\<And>j. frames R (f j)) \<Longrightarrow> frames R a \<Longrightarrow> frames R b \<Longrightarrow> frames R c \<Longrightarrow>
    frames R (case x of PvVal j \<Rightarrow> f j | PvNan \<Rightarrow> a | PvNone \<Rightarrow> b | PvTimeout \<Rightarrow> c)"
  by (cases x) auto

lemma frames_case_jfile:
  "frames R a \<Longrightarrow> frames R b \<Longrightarrow> (\<And>j. frames R (f j)) \<Longrightarrow>
    frames R (case x of JEmpty \<Rightarrow> a | JMalformed \<Rightarrow> b | JDoc j \<Rightarrow> f j)"
  by (cases x) auto

lemma frames_case_bool: "frames R a \<Longrightarrow> frames R b \<Longrightarrow> frames R (case x of True \<Rightarrow> a | False \<Rightarrow> b)"
  by (cases x) auto

lemma frames_case_json:
  "frames R a \<Longrightarrow> (\<And>b. frames R (f b)) \<Longrightarrow> (\<And>i. frames R (g i)) \<Longrightarrow> (\<And>s. frames R (h s)) \<Longrightarrow>
    (\<And>xs. frames R (k xs)) \<Longrightarrow> (\<And>d. frames R (l d)) \<Longrightarrow>
    frames R (case x of JNull \<Rightarrow> a | JBool b \<Rightarrow> f b | JInt i \<Rightarrow> g i | JStr s \<Rightarrow> h s | JList xs \<Rightarrow> k xs | JDict d \<Rightarrow> l d)"
  by (cases x) auto

lemmas frames_case_types =
  frames_case_put_outcome frames_case_http frames_case_pv_value frames_case_jfile frames_case_bool
  frames_case_json

section \<open>Publishing, the collection of answers, puts\<close>

fun is_put :: "obs \<Rightarrow> bool" where
  "is_put (PvPut pv val) = True"
| "is_put _ = False"

locale talk_frame = effect_frame R for R :: "mgr \<Rightarrow> mgr \<Rightarrow> bool" +
  assumes R_talk: "\<not> is_reply ob \<Longrightarrow> \<not> is_put ob \<Longrightarrow> R s (s\<lparr>out := out s @ [ob]\<rparr>)"
    and R_counts: "R s (s\<lparr>n_clock := a\<rparr>)" "R s (s\<lparr>n_recv := a\<rparr>)"
      "R s (s\<lparr>n_http := a\<rparr>)" "R s (s\<lparr>n_get := a\<rparr>)"
begin

lemma frame_mod_updates: "(\<And>s. R s (f s)) \<Longrightarrow> frames R (emod f)"
  by (rule frames_mod)

lemmas talk_rules = frame_rules frames_splits frames_case_types frame_mod_updates R_counts

lemma frame_emit:
  "frames R (emit (FrontPub m))" "frames R (emit (BackPub topic m))"
  "frames R (emit (HttpPost url j))" "frames R (emit (HttpGet url))" "frames R (emit (WriteFile f))"
  "frames R (emit (Sleep k))"
  unfolding emit_def by (intro talk_rules R_talk; simp)+

lemma frame_now: "frames R (now C)"
  unfolding now_def by (intro talk_rules)

lemma frame_new_msg: "frames R (new_msg C k b)"
  unfolding new_msg_def by (intro talk_rules frame_now)

lemma frame_reports:
  "frames R (report_error C t)" "frames R (report_error_json C j)"
  "frames R (report_warning C t)" "frames R (report_warning_json C j)"
  "frames R (progressReport C a b t)"
  unfolding report_error_def report_error_json_def report_warning_def report_warning_json_def
    progressReport_def
  by (intro talk_rules frame_now frame_emit)+

lemma frame_ids: "frames R active_ids" "frames R (aliases_of is)"
  unfolding active_ids_def aliases_of_def by (intro talk_rules)+

lemma frame_confirm_loop: "frames R (confirm_loop C w i tx rs st)"
proof (induction C w i tx rs st rule: confirm_loop.induct)
  case (1 C w i tx st)
  show ?case by (simp, intro talk_rules)
next
  case (2 C w i tx r rs js msgs reports err)
  show ?case
    by (cases "js = {} \<or> err", simp, intro talk_rules, simp only: confirm_loop.simps if_False,
        intro talk_rules frame_reports 2; simp)
qed

lemma frame_confirm_response: "frames R (confirm_response C w i is tx)"
  unfolding confirm_response_def next_rounds_def by (intro talk_rules frame_confirm_loop)

lemma frame_check_answers: "frames R (check_answers C as)"
  by (induction as) (simp_all, (intro talk_rules frame_ids frame_reports, assumption?)+)

lemma frame_http: "frames R (next_http C (HttpPost url j))" "frames R (next_http C (HttpGet url))"
  unfolding next_http_def by (intro talk_rules frame_emit)+

lemma frame_register_file: "frames R (register_file C b)"
  unfolding register_file_def by (intro talk_rules frame_emit frame_now frame_http)

lemma frame_process_reports:
  assumes "\<And>b. frames R (h b)"
  shows "frames R (process_reports C h ms)"
  unfolding process_reports_def process_report_def
  by (intro talk_rules frame_register_file frame_reports assms)

lemma frame_no_chunk: "frames R (process_reports C no_chunk ms)"
  by (rule frame_process_reports) (auto simp: no_chunk_def intro: talk_rules)

lemma frame_logbook:
  "frames R (start_run C en)" "frames R (end_run C en)" "frames R (add_run_params C en ps)"
  "frames R (add_update_run_param_descriptions C en ps)" "frames R (get_experiment C)"
  unfolding start_run_def end_run_def add_run_params_def add_update_run_param_descriptions_def
    post_params_def get_experiment_def
  by (intro talk_rules frame_http frame_reports)+

lemma frame_pva_params: "frames R (pva_params C vs ps)"
proof (induction C vs ps rule: pva_params.induct)
  case (1 C params)
  show ?case by (simp, intro talk_rules)
next
  case (2 C nm v vs params)
  then show ?case by (cases v) (simp_all, (intro talk_rules frame_reports, assumption?)+)
qed

lemma frame_ca_params: "frames R (ca_params C vs ps)"
proof (induction C vs ps rule: ca_params.induct)
  case (1 C params)
  show ?case by (simp, intro talk_rules)
next
  case (2 C nm v vs params)
  then show ?case by (cases v) (simp_all, (intro talk_rules frame_reports, assumption?)+)
qed

lemma frame_drp_segments: "frames R (drp_segments C cs acc)"
proof (induction cs arbitrary: acc)
  case Nil
  show ?case by (simp, intro talk_rules)
next
  case (Cons c cs)
  obtain xid it where c: "c = (xid, it)" by (cases c)
  show ?case unfolding c drp_segments.simps
    by (intro talk_rules frame_reports Cons.IH, (split pyexc.split | split list.split)+,
        intro allI conjI impI talk_rules frame_reports Cons.IH)
qed

lemma frame_guard: "frames R m \<Longrightarrow> frames R n \<Longrightarrow> frames R (eguard m n)"
  unfolding eguard_def by (intro talk_rules)

lemma frame_back_send: "frames R (back_send C topic t body)"
  unfolding back_send_def by (intro talk_rules frame_new_msg frame_emit)

lemma frame_report_silent: "frames R (report_silent C what is)" "frames R (report_missing C what is)"
  unfolding report_missing_def report_silent_def by (intro talk_rules frame_ids frame_reports)+

lemmas talk_guards = talk_rules frame_guard frame_back_send frame_report_silent frame_ids
  frame_reports frame_emit frame_now frame_new_msg

lemma frame_confirm_all: "frames R (confirm_all C what m t is)"
  unfolding confirm_all_def
  by (intro talk_guards frame_confirm_response frame_no_chunk frame_check_answers)

lemma frame_config_error: "frames R (case e of ConfigDBError t \<Rightarrow> f t | _ \<Rightarrow> eraise e)"
  if "\<And>t. frames R (f t)"
  using that frame_pure by (cases e) auto

lemma frame_phase2: "frames R (get_phase2_replies C t)"
  unfolding get_phase2_replies_def
  by (intro talk_guards frame_confirm_response frame_no_chunk frame_config_error)

lemma frame_report_status: "frames R (report_status C)"
  unfolding report_status_def status_msg_def by (intro talk_guards)

lemma frame_read_json_file: "frames R (read_json_file C f)"
  unfolding read_json_file_def by (intro talk_guards)

end

locale io_frame = talk_frame +
  assumes R_put: "R s (s\<lparr>out := out s @ [PvPut pv val]\<rparr>)" and R_n_put: "R s (s\<lparr>n_put := a\<rparr>)"
begin

lemma R_out: "\<not> is_reply ob \<Longrightarrow> R s (s\<lparr>out := out s @ [ob]\<rparr>)"
  using R_talk R_put by (cases "is_put ob") (auto elim!: is_put.elims)

lemma frame_emit_put: "frames R (emit (PvPut pv val))"
  unfolding emit_def by (intro talk_rules R_put)

lemmas io_rules = talk_rules R_n_put frame_emit_put

lemma frame_pv_put: "frames R (pv_put C pv val)" "frames R (pv_put0 C pv val)"
  unfolding pv_put0_def pv_put_def by (intro io_rules frame_emit frame_emit_put frame_reports)+

lemma frame_puts:
  "frames R (pv_put_each C pvs val)" "frames R (step_groups C n)" "frames R (group_run C b)"
  "frames R (msg_insert C)"
  unfolding pv_put_each_def step_groups_def group_run_def msg_insert_def
  by (intro io_rules frame_pv_put)+

lemma frame_step_groups_clear: "frames R (step_groups_clear C gs)"
proof -
  have "frames R (step_groups_clear_loop C ns b)" for ns b
    by (induction ns arbitrary: b) (simp_all, (intro io_rules frame_pv_put, assumption?)+)
  then show ?thesis by (simp add: step_groups_clear_def)
qed

lemmas io_guards = io_rules talk_guards frame_pv_put frame_puts frame_step_groups_clear

lemma frame_inserts:
  "frames R (insert_transition C n)" "frames R (clear_readout C)" "frames R (no_steps C)"
  unfolding insert_transition_def clear_readout_def no_steps_def put_headers_def
  by (intro io_guards)+

lemma frame_put_L0Groups: "frames R (put_L0Groups C gs pvs)"
  by (induction pvs) (simp_all only: put_L0Groups.simps, (intro io_guards, assumption?)+)

lemma frame_clear_L0Groups: "frames R (clear_L0Groups C pvs)"
  by (induction pvs) (simp_all, (intro io_guards, assumption?)+)

lemma frame_claim_xpms: "frames R (claim_xpms C pvs)"
  by (induction pvs) (simp_all, (intro io_guards, assumption?)+)

end

section \<open>The condition methods, the switch apart\<close>

locale mgr_frame = io_frame +
  assumes R_clients: "R s (s\<lparr>cmstate_of := cm\<rparr>)" "R s (s\<lparr>cmstate_of := cm, ids := is\<rparr>)"
      "R s (s\<lparr>ids := is\<rparr>)" "R s (s\<lparr>lastTransition := tr, cmstate_of := cm\<rparr>)"
    and R_activedet: "R s (s\<lparr>history := h\<rparr>)" "R s (s\<lparr>jfiles := jf\<rparr>)" "R s (s\<lparr>bypass_activedet := b\<rparr>)"
    and R_run: "R s (s\<lparr>phase1Info := p\<rparr>)" "R s (s\<lparr>lastTransition := tr\<rparr>)"
      "R s (s\<lparr>experiment_name := en\<rparr>)" "R s (s\<lparr>run_number := rn\<rparr>)"
      "R s (s\<lparr>last_run_number := rn, run_number := rn'\<rparr>)" "R s (s\<lparr>readoutCumulative := n\<rparr>)"
    and R_groups: "R s (s\<lparr>groups := g\<rparr>)"
      "R s (s\<lparr>pvListMsgHeader := l1, pvListXPM := l2, pvListL0Groups := l3\<rparr>)"
    and R_runparams: "R s (s\<lparr>rp_fileSet := fs\<rparr>)" "R s (s\<lparr>rp_pvaList := ps, rp_caList := qs\<rparr>)"
      "R s (s\<lparr>rp_recordedExperiments := re\<rparr>)" "R s (s\<lparr>rp_fileSet := fs, rp_pvaList := ps, rp_caList := qs\<rparr>)"
begin

lemmas rules = io_rules R_clients R_activedet R_run R_groups R_runparams

lemma frame_set_last: "frames R (set_last t)"
  unfolding set_last_def by (intro rules)

lemmas guards = rules io_guards frame_set_last

lemma frame_map_cm: "frames R (map_cm f)"
  by (rule framesI) (auto simp: map_cm_def intro: R_refl R_clients split: sum.splits)

lemma frame_rp_beginrun: "frames R (rp_beginrun C en)"
  unfolding rp_beginrun_def record_experiment_def next_get_def
  by (intro rules frame_pva_params frame_ca_params frame_drp_segments frame_logbook frame_reports)

lemma frame_rp_configure: "frames R (rp_configure C)" "frames R rp_unconfigure"
  unfolding rp_configure_def rp_unconfigure_def not_found_def
  by (intro rules frame_reports)+

lemma frame_condition_common: "frames R (condition_common C t timeout body)"
  unfolding condition_common_def by (intro guards frame_confirm_all)

lemma frame_store_answers: "frames R (efor store_answer ms)"
  unfolding store_answer_def by (intro guards frame_map_cm)

lemma frame_number_nodes: "frames R (number_nodes level key nodes)"
  unfolding number_nodes_def by (intro guards frame_map_cm)

lemma frame_update_history: "frames R (update_history drp)"
  by (rule framesI) (auto simp: update_history_def intro: R_refl R_activedet split: sum.splits pyexc.splits)

lemma frame_store_activedet: "frames R (store_activedet C content)"
  unfolding store_activedet_def by (intro guards)

lemma frame_save_activedet: "frames R (save_activedet C)"
  unfolding save_activedet_def by (intro guards frame_read_json_file frame_store_activedet)

lemma frame_alloc: "frames R (condition_alloc C)"
  unfolding condition_alloc_def alloc_nodes_def alloc_groups_def
  by (intro guards frame_confirm_response frame_no_chunk frame_store_answers frame_number_nodes
      frame_put_L0Groups frame_update_history frame_save_activedet)

lemma frame_dealloc: "frames R (condition_dealloc C)"
  unfolding condition_dealloc_def by (intro guards frame_confirm_all frame_clear_L0Groups)

lemma frame_connect: "frames R (condition_connect C)" "frames R (condition_disconnect C)"
  unfolding condition_connect_def condition_disconnect_def
  by (intro guards frame_confirm_all frame_claim_xpms)+

lemma frame_configure: "frames R (condition_configure C)" "frames R (condition_unconfigure C)"
  unfolding condition_configure_def condition_unconfigure_def
  by (intro guards frame_condition_common frame_phase2 frame_inserts frame_rp_configure)+

lemma frame_beginrun: "frames R (condition_beginrun C)" "frames R (condition_endrun C)"
  unfolding condition_beginrun_def condition_endrun_def open_run_def set_run_info_def store_run_number_def
  by (intro guards frame_condition_common frame_phase2 frame_inserts frame_logbook frame_rp_beginrun)+

lemma frame_steps: "frames R (condition_beginstep C)" "frames R (condition_endstep C)"
  unfolding condition_beginstep_def condition_endstep_def
  by (intro guards frame_condition_common frame_phase2 frame_inserts)+

lemma frame_enable: "frames R (condition_enable C)"
  unfolding condition_enable_def start_step_def
  by (intro guards frame_condition_common frame_phase2 frame_inserts)

lemma frame_slowupdate: "frames R (condition_slowupdate C)"
proof -
  have "frames R (put_until_failure C n pvs)" for n pvs
    by (induction pvs) (simp_all, (intro guards, assumption?)+)
  then show ?thesis unfolding condition_slowupdate_def by (intro guards)
qed

lemma frame_activedet:
  "frames R (check_activedet_file C)" "frames R (required_clients C)"
  unfolding check_activedet_file_def required_clients_def load_activedet_def
  by (intro guards frame_read_json_file)+

lemma frame_rollcall_answer: "frames R (rollcall_answer C A J missing m newfound)"
  unfolding rollcall_answer_def rollcall_item_def flag_client_def set_field_def Let_def
  by (intro guards frame_no_chunk frame_map_cm)

lemma frame_rollcall_loop: "frames R (rollcall_loop C A J m rs missing newfound)"
  by (induction rs arbitrary: missing newfound)
    (simp_all, (intro guards frame_rollcall_answer, assumption?)+)

lemma frame_rollcall: "frames R (condition_rollcall C)"
  unfolding condition_rollcall_def next_rounds_def
  by (intro guards frame_activedet frame_rollcall_loop)

end

section \<open>The switch of the slow updates\<close>

locale slow_frame = mgr_frame +
  assumes R_slow: "R s (s\<lparr>slow_update_enabled := b\<rparr>)"
begin

lemma frame_set_slow: "frames R (set_slow_update_enabled b)" "frames R (after_enable C)"
  unfolding after_enable_def set_slow_update_enabled_def by (intro guards R_slow)+

lemma frame_disable: "frames R (condition_disable C)"
  unfolding condition_disable_def
  by (intro guards frame_condition_common frame_phase2 frame_inserts frame_set_slow)

lemma frame_reset: "frames R (condition_reset C)" "frames R on_enter_reset"
  unfolding condition_reset_def on_enter_reset_def by (intro guards frame_set_slow)+

lemma frame_row_condition:
  assumes "r \<in> set (collectMachine C)"
  shows "frames R (row_condition r)" and "a \<in> set (row_after r) \<Longrightarrow> frames R a"
  using assms
  by (auto simp: collectMachine_def intro: frame_rollcall frame_alloc frame_dealloc frame_connect
      frame_configure frame_beginrun frame_steps frame_enable frame_disable frame_reset
      frame_slowupdate frame_report_status frame_set_slow)

end

section \<open>Interpretations\<close>

definition keeps :: "mgr \<Rightarrow> mgr \<Rightarrow> bool" where
  "keeps s t \<longleftrightarrow> dstate t = dstate s \<and> config_alias t = config_alias s \<and> recording t = recording s
     \<and> front_pending t = front_pending s \<and> fast_pending t = fast_pending s
     \<and> step_done t = step_done s \<and> (\<exists>obs. out t = out s @ obs \<and> (\<forall>ob\<in>set obs. \<not> is_reply ob))"

definition keeps_slow :: "mgr \<Rightarrow> mgr \<Rightarrow> bool" where
  "keeps_slow s t \<longleftrightarrow> dstate t = dstate s \<and> slow_update_enabled t = slow_update_enabled s"

lemma keeps_trans:
  assumes "keeps s t" and "keeps t u"
  shows "keeps s u"
proof -
  obtain xs ys where "out t = out s @ xs" "\<forall>ob\<in>set xs. \<not> is_reply ob"
    "out u = out t @ ys" "\<forall>ob\<in>set ys. \<not> is_reply ob"
    using assms by (auto simp: keeps_def)
  then have "out u = out s @ (xs @ ys) \<and> (\<forall>ob\<in>set (xs @ ys). \<not> is_reply ob)" by auto
  then have "\<exists>obs. out u = out s @ obs \<and> (\<forall>ob\<in>set obs. \<not> is_reply ob)" by blast
  then show ?thesis using assms by (simp add: keeps_def)
qed

interpretation kp: slow_frame keeps
proof (unfold_locales, goal_cases)
  case (2 s t u)
  then show ?case by (rule keeps_trans)
qed (simp_all add: keeps_def)

interpretation ks: mgr_frame keeps_slow
  by unfold_locales (auto simp: keeps_slow_def)

lemma keepsD:
  assumes "keeps s t"
  shows "dstate t = dstate s" "config_alias t = config_alias s" "recording t = recording s"
    "front_pending t = front_pending s" "fast_pending t = fast_pending s"
    "step_done t = step_done s" "\<exists>obs. out t = out s @ obs \<and> (\<forall>ob\<in>set obs. \<not> is_reply ob)"
  using assms by (auto simp: keeps_def)

text \<open>The actions of the first locale change nothing but the output and the counters.\<close>

definition core :: "mgr \<Rightarrow> mgr" where
  "core s = s\<lparr>out := [], n_clock := 0, n_put := 0, n_recv := 0, n_http := 0, n_get := 0\<rparr>"

definition quiet :: "mgr \<Rightarrow> mgr \<Rightarrow> bool" where
  "quiet s t \<longleftrightarrow> core t = core s"

fun puts :: "obs list \<Rightarrow> (string \<times> int) list" where
  "puts [] = []"
| "puts (PvPut pv val # obs) = (pv, val) # puts obs"
| "puts (_ # obs) = puts obs"

lemma puts_append: "puts (xs @ ys) = puts xs @ puts ys"
  by (induction xs rule: puts.induct) simp_all

lemma puts_other: "\<not> is_put ob \<Longrightarrow> puts [ob] = []"
  by (cases ob) simp_all

definition same_puts :: "mgr \<Rightarrow> mgr \<Rightarrow> bool" where
  "same_puts s t \<longleftrightarrow> puts (out t) = puts (out s)"

interpretation sp: talk_frame same_puts
  by unfold_locales (simp_all add: same_puts_def puts_append puts_other)

interpretation qt: io_frame quiet
  by unfold_locales (simp_all add: quiet_def core_def)

lemma quietD:
  assumes "quiet s t"
  shows "dstate t = dstate s" "cmstate_of t = cmstate_of s" "ids t = ids s" "groups t = groups s"
    "pvListMsgHeader t = pvListMsgHeader s" "readoutCumulative t = readoutCumulative s"
    "run_number t = run_number s" "last_run_number t = last_run_number s" "phase1Info t = phase1Info s"
    "history t = history s" "lastTransition t = lastTransition s" "pvListXPM t = pvListXPM s"
    "pvListL0Groups t = pvListL0Groups s" "slow_update_enabled t = slow_update_enabled s" "jfiles t = jfiles s"
  using assms by (cases s; cases t; simp add: quiet_def core_def)+

end
