(* ===== verification/MachineFacts.thy ===== *)
theory MachineFacts
  imports Frames
begin

text \<open>
  The state machine's contract. \<open>daq_edge\<close> is the graph of states the operators know;
  \<open>collectMachine\<close> has exactly its edges, \<open>next_dict\<close> routes along them towards the
  requested state, and a trigger either follows its edge or leaves the state alone. The loop of
  \<open>handle_setstate\<close> ends because every successful step is one closer to its target.
\<close>

section \<open>The graph\<close>

definition daq_edge :: "transition \<Rightarrow> daq_state \<Rightarrow> daq_state option" where
  "daq_edge t st =
     (case t of
        Tr_reset \<Rightarrow> Some St_reset
      | Tr_rollcall \<Rightarrow> if st = St_reset \<or> st = St_unallocated then Some St_unallocated else None
      | Tr_alloc \<Rightarrow> if st = St_unallocated then Some St_allocated else None
      | Tr_dealloc \<Rightarrow> if st = St_allocated then Some St_unallocated else None
      | Tr_connect \<Rightarrow> if st = St_allocated then Some St_connected else None
      | Tr_disconnect \<Rightarrow> if st = St_connected then Some St_allocated else None
      | Tr_configure \<Rightarrow> if st = St_connected then Some St_configured else None
      | Tr_unconfigure \<Rightarrow> if st = St_configured then Some St_connected else None
      | Tr_beginrun \<Rightarrow> if st = St_configured then Some St_starting else None
      | Tr_endrun \<Rightarrow> if st = St_starting then Some St_configured else None
      | Tr_beginstep \<Rightarrow> if st = St_starting then Some St_paused else None
      | Tr_endstep \<Rightarrow> if st = St_paused then Some St_starting else None
      | Tr_enable \<Rightarrow> if st = St_paused then Some St_running else None
      | Tr_disable \<Rightarrow> if st = St_running then Some St_paused else None
      | Tr_slowupdate \<Rightarrow> if st = St_running then Some St_running else None)"

lemma matching_edge:
  "daq_edge t st = None \<Longrightarrow> matching (collectMachine C) t st = []"
  by (cases t; cases st) (simp_all add: daq_edge_def matching_def collectMachine_def)

lemma matching_edge_row:
  assumes "daq_edge t st = Some st'"
  obtains r where "matching (collectMachine C) t st = [r]" and "r \<in> set (collectMachine C)"
    and "row_trigger r = t" and "st \<in> set (row_sources r)" and "st' = (case row_dest r of None \<Rightarrow> st | Some d \<Rightarrow> d)"
proof -
  have "\<exists>r. matching (collectMachine C) t st = [r]
    \<and> st' = (case row_dest r of None \<Rightarrow> st | Some d \<Rightarrow> d)"
    using assms
    by (cases t; cases st)
      (simp_all add: daq_edge_def matching_def collectMachine_def states_def split: if_splits)
  then obtain r where r: "matching (collectMachine C) t st = [r]"
    "st' = (case row_dest r of None \<Rightarrow> st | Some d \<Rightarrow> d)" by blast
  have "r \<in> set (matching (collectMachine C) t st)" by (simp add: r)
  then have "r \<in> set (collectMachine C)" "row_trigger r = t" "st \<in> set (row_sources r)" by (auto simp: matching_def)
  then show ?thesis using that r by blast
qed

section \<open>Firing a row\<close>

text \<open>Everything \<open>keeps\<close> keeps except the state.\<close>

definition keeps_io :: "mgr \<Rightarrow> mgr \<Rightarrow> bool" where
  "keeps_io s t \<longleftrightarrow> config_alias t = config_alias s \<and> recording t = recording s
     \<and> front_pending t = front_pending s \<and> fast_pending t = fast_pending s
     \<and> step_done t = step_done s \<and> (\<exists>obs. out t = out s @ obs \<and> (\<forall>ob\<in>set obs. \<not> is_reply ob))"

lemma keeps_io_trans:
  assumes "keeps_io s t" and "keeps_io t u"
  shows "keeps_io s u"
proof -
  obtain xs ys where "out t = out s @ xs" "\<forall>ob\<in>set xs. \<not> is_reply ob"
    "out u = out t @ ys" "\<forall>ob\<in>set ys. \<not> is_reply ob"
    using assms by (auto simp: keeps_io_def)
  then have "out u = out s @ (xs @ ys) \<and> (\<forall>ob\<in>set (xs @ ys). \<not> is_reply ob)" by auto
  then have "\<exists>obs. out u = out s @ obs \<and> (\<forall>ob\<in>set obs. \<not> is_reply ob)" by blast
  then show ?thesis using assms by (simp add: keeps_io_def)
qed

lemma keeps_keeps_io: "keeps s t \<Longrightarrow> keeps_io s t"
  by (auto simp: keeps_def keeps_io_def)

interpretation ki: slow_frame keeps_io
proof (unfold_locales, goal_cases)
  case (2 s t u)
  then show ?case by (rule keeps_io_trans)
qed (simp_all add: keeps_io_def)

lemma ki_enter_state: "frames keeps_io (enter_state on_enter d)"
  unfolding enter_state_def on_enter_def
  by (intro ki.rules ki.frame_reset) (simp add: keeps_io_def)

lemma ki_fire:
  assumes "r \<in> set (collectMachine C)"
  shows "frames keeps_io (fire on_enter r)"
proof -
  have "frames keeps_io (efor (\<lambda>a. a) as)" if "set as \<subseteq> set (row_after r)" for as
    using that
  proof (induction as)
    case Nil
    then show ?case by (simp add: ki.frame_pure)
  next
    case (Cons a as)
    then show ?case using ki.frame_row_condition(2) [OF assms] by (simp add: ki.frame_seq)
  qed
  then have after: "frames keeps_io (efor (\<lambda>a. a) (row_after r))" by simp
  show ?thesis unfolding fire_def
    by (intro ki.frame_guard ki.frame_seq ki.frame_pure ki.frame_row_condition(1) [OF assms]
        ki_enter_state after)
qed

text \<open>The \<open>after\<close> methods and \<open>on_enter\<close> never fail and keep the state.\<close>

lemma report_error_ok: "\<exists>t. report_error C x s = (Inr (), t)"
  by (simp add: report_error_def report_error_json_def now_def emit_def eff_simps)

lemma report_status_ok: "\<exists>t. report_status C s = (Inr (), t)"
  by (simp add: report_status_def status_msg_def new_msg_def now_def emit_def eff_simps)

lemma after_enable_ok: "\<exists>t. after_enable C s = (Inr (), t)"
  by (simp add: after_enable_def set_slow_update_enabled_def eff_simps)

lemma run_after:
  assumes "r \<in> set (collectMachine C)"
  shows "\<exists>t. efor (\<lambda>a. a) (row_after r) s = (Inr (), t) \<and> keeps s t"
proof -
  have one: "\<exists>t. efor (\<lambda>a. a) as s = (Inr (), t) \<and> keeps s t"
    if "set as \<subseteq> {after_enable C, report_status C}" for as s
    using that
  proof (induction as arbitrary: s)
    case Nil
    then show ?case by (simp add: eff_simps kp.R_refl)
  next
    case (Cons a as)
    have fr: "frames keeps a"
      using Cons.prems kp.frame_set_slow kp.frame_report_status by auto
    obtain u where u: "a s = (Inr (), u)"
      using Cons.prems report_status_ok [of C s] after_enable_ok [of C s] by auto
    obtain t where t: "efor (\<lambda>a. a) as u = (Inr (), t)" "keeps u t"
      using Cons.IH [of u] Cons.prems by auto
    show ?case using u t framesD [OF fr u] by (auto simp: eff_simps intro: kp.R_trans)
  qed
  have "set (row_after r) \<subseteq> {after_enable C, report_status C}"
    using assms by (auto simp: collectMachine_def)
  then show ?thesis by (rule one)
qed

lemma run_enter:
  "\<exists>t. enter_state on_enter d s = (Inr (), t) \<and> dstate t = (case d of None \<Rightarrow> dstate s | Some st \<Rightarrow> st)"
  by (auto simp: enter_state_def on_enter_def on_enter_reset_def eff_simps split: option.splits)

text \<open>A row fires completely or the machine's state is unchanged.\<close>

lemma fire_result:
  assumes r: "r \<in> set (collectMachine C)" and run: "fire on_enter r s = (res, t)"
  shows "res = Inr True \<and> dstate t = (case row_dest r of None \<Rightarrow> dstate s | Some st \<Rightarrow> st)
    \<or> res \<noteq> Inr True \<and> dstate t = dstate s"
proof -
  obtain c u where c: "row_condition r s = (c, u)" by (cases "row_condition r s")
  have u: "dstate u = dstate s"
    using framesD [OF kp.frame_row_condition(1) [OF r] c] keepsD(1) by blast
  show ?thesis
  proof (cases "c = Inr True")
    case True
    obtain v where v: "enter_state on_enter (row_dest r) u = (Inr (), v)"
      "dstate v = (case row_dest r of None \<Rightarrow> dstate u | Some st \<Rightarrow> st)"
      using run_enter by blast
    obtain w where w: "efor (\<lambda>a. a) (row_after r) v = (Inr (), w)" "keeps v w"
      using run_after [OF r] by blast
    have "res = Inr True" "t = w"
      using run c True v(1) w(1) by (simp_all add: fire_def eff_simps)
    then show ?thesis using v(2) keepsD(1) [OF w(2)] u by (auto split: option.splits)
  next
    case False
    then have "res \<noteq> Inr True \<and> t = u"
      using run c by (auto simp: fire_def eff_simps split: sum.splits bool.splits)
    then show ?thesis using u by simp
  qed
qed

section \<open>Triggers\<close>

context transitions_package
begin

lemma trig_fires:
  assumes run: "trig (collectMachine C) on_enter t s = (res, s')"
  shows "(\<exists>x. res = Inl (MachineError x)) \<and> s' = s \<and> daq_edge t (dstate s) = None
    \<or> (\<exists>r st'. r \<in> set (collectMachine C) \<and> row_trigger r = t \<and> dstate s \<in> set (row_sources r)
         \<and> fire on_enter r s = (res, s')
         \<and> daq_edge t (dstate s) = Some st'
         \<and> st' = (case row_dest r of None \<Rightarrow> dstate s | Some d \<Rightarrow> d))"
proof (cases "daq_edge t (dstate s)")
  case None
  obtain x where "trig (collectMachine C) on_enter t s = (Inl (MachineError x), s)"
    using trig_no_row matching_edge [OF None] by blast
  then show ?thesis using run None by simp
next
  case (Some st')
  obtain r where r: "matching (collectMachine C) t (dstate s) = [r]" "r \<in> set (collectMachine C)"
    "row_trigger r = t" "dstate s \<in> set (row_sources r)" "st' = (case row_dest r of None \<Rightarrow> dstate s | Some d \<Rightarrow> d)"
    by (rule matching_edge_row [OF Some])
  then show ?thesis using run trig_row [OF r(1)] Some by auto
qed

lemma trig_result:
  assumes run: "trig (collectMachine C) on_enter t s = (res, s')"
  shows "(res = Inr True \<and> daq_edge t (dstate s) = Some (dstate s')
    \<or> res \<noteq> Inr True \<and> dstate s' = dstate s) \<and> keeps_io s s'"
  using trig_fires [OF run]
proof (elim disjE exE conjE)
  fix x assume "res = Inl (MachineError x)" "s' = s"
  then show ?thesis using ki.R_refl by simp
next
  fix r st' assume r: "r \<in> set (collectMachine C)" "fire on_enter r s = (res, s')"
    "daq_edge t (dstate s) = Some st'" "st' = (case row_dest r of None \<Rightarrow> dstate s | Some d \<Rightarrow> d)"
  show ?thesis
    using fire_result [OF r(1,2)] framesD [OF ki_fire [OF r(1)] r(2)] r(3,4) by auto
qed

text \<open>
  An answer of \<open>handle_trigger\<close> is named after the state it leaves, and one without an error
  means that the machine took the edge (and, where a change was asked for, moved).
\<close>

lemma handle_trigger_result:
  assumes run: "handle_trigger C trig t chg s = (Inr m, s')"
  shows "m_key m = state_name (dstate s') \<and> keeps_io s s'
    \<and> (dstate s' = dstate s \<or> daq_edge t (dstate s) = Some (dstate s'))
    \<and> (\<not> has_err m \<longrightarrow> chg \<longrightarrow> dstate s' \<noteq> dstate s)
    \<and> (m_body m = cm_json (cmstate_of s') \<and> (chg \<longrightarrow> dstate s' \<noteq> dstate s)
       \<or> has_err m \<and> (dstate s' = dstate s))"
proof -
  obtain res u where tr: "trig (collectMachine C) on_enter t s = (res, u)"
    by (cases "trig (collectMachine C) on_enter t s")
  have res: "(res = Inr True \<and> daq_edge t (dstate s) = Some (dstate u)
      \<or> res \<noteq> Inr True \<and> dstate u = dstate s)" and io: "keeps_io s u"
    using trig_result [OF tr] by blast+
  have clock: "dstate (x\<lparr>n_clock := k\<rparr>) = dstate x" "keeps_io x (x\<lparr>n_clock := k\<rparr>)" for x k
    by (simp_all add: keeps_io_def)
  show ?thesis
  proof (cases res)
    case (Inl e)
    then obtain x where x: "trigger_error e = Some x"
      using run tr by (auto simp: handle_trigger_def eff_simps split: option.splits)
    then have "s' = u\<lparr>n_clock := Suc (n_clock u)\<rparr>" "has_err m" "m_key m = state_name (dstate u)"
      using run tr Inl
      by (auto simp: handle_trigger_def eff_simps new_msg_def now_def create_msg_def has_err_def err_body_def)
    then show ?thesis using Inl res io clock ki.R_trans by auto
  next
    case (Inr ok)
    then have "s' = u\<lparr>n_clock := Suc (n_clock u)\<rparr> \<and> m_key m = state_name (dstate u)
        \<and> (if chg \<and> dstate u = dstate s then has_err m else m_body m = cm_json (cmstate_of u))"
      using run tr
      by (auto simp: handle_trigger_def eff_simps new_msg_def now_def create_msg_def has_err_def
          err_body_def split: if_splits)
    then show ?thesis using res io clock ki.R_trans by (auto split: if_splits)
  qed
qed

lemma handle_trigger_moves:
  assumes "handle_trigger C trig t True s = (Inr m, s')" and "\<not> has_err m"
  shows "dstate s' \<noteq> dstate s \<and> daq_edge t (dstate s) = Some (dstate s')"
  using handle_trigger_result [OF assms(1)] assms(2) by auto

lemma handle_trigger_raises:
  assumes run: "handle_trigger C trig t chg s = (Inl e, s')"
  shows "dstate s' = dstate s \<and> keeps_io s s' \<and> trigger_error e = None"
proof -
  obtain res u where tr: "trig (collectMachine C) on_enter t s = (res, u)"
    by (cases "trig (collectMachine C) on_enter t s")
  have "res = Inl e \<and> trigger_error e = None \<and> u = s'"
    using run tr by (auto simp: handle_trigger_def eff_simps new_msg_def now_def
        split: sum.splits option.splits if_splits)
  then show ?thesis using trig_result [OF tr] by auto
qed

end

section \<open>Routing\<close>

fun state_pos :: "daq_state \<Rightarrow> int" where
  "state_pos St_reset = 0"
| "state_pos St_unallocated = 1"
| "state_pos St_allocated = 2"
| "state_pos St_connected = 3"
| "state_pos St_configured = 4"
| "state_pos St_starting = 5"
| "state_pos St_paused = 6"
| "state_pos St_running = 7"

definition state_dist :: "daq_state \<Rightarrow> daq_state \<Rightarrow> nat" where
  "state_dist a b = nat \<bar>state_pos a - state_pos b\<bar>"

lemma next_dict_None: "next_dict a b = None \<longleftrightarrow> a = b"
  by (cases a; cases b) simp_all

text \<open>A route step is an edge of the machine that brings the target nearer and never passes it.\<close>

lemma next_dict_edge:
  assumes "next_dict a b = Some t"
  shows "\<exists>c. daq_edge t a = Some c \<and> c \<noteq> a \<and> state_dist c b < state_dist a b
    \<and> min (state_pos a) (state_pos b) \<le> state_pos c \<and> state_pos c \<le> max (state_pos a) (state_pos b)"
  using assms
  by (cases a; cases b) (simp_all add: daq_edge_def state_dist_def split: if_splits)

context transitions_package
begin

lemma setstate_loop_ends:
  "\<exists>r s'. setstate_loop C trig st answer s = Some (r, s') \<and> keeps_io s s'
    \<and> min (state_pos (dstate s)) (state_pos st) \<le> state_pos (dstate s')
    \<and> state_pos (dstate s') \<le> max (state_pos (dstate s)) (state_pos st)
    \<and> (case r of Inl e \<Rightarrow> True | Inr m \<Rightarrow> dstate s' = st \<or> has_err m)"
proof (induction "state_dist (dstate s) st" arbitrary: s answer rule: less_induct)
  case less
  show ?case
  proof (cases "dstate s = st")
    case True
    then show ?thesis by (subst setstate_loop.simps) (simp add: ki.R_refl)
  next
    case False
    then obtain t where t: "next_dict (dstate s) st = Some t"
      using next_dict_None [of "dstate s" st] by auto
    obtain c where c: "daq_edge t (dstate s) = Some c" "state_dist c st < state_dist (dstate s) st"
      "min (state_pos (dstate s)) (state_pos st) \<le> state_pos c"
      "state_pos c \<le> max (state_pos (dstate s)) (state_pos st)"
      using next_dict_edge [OF t] by blast
    obtain res u where tr: "handle_trigger C trig t True s = (res, u)"
      by (cases "handle_trigger C trig t True s")
    show ?thesis
    proof (cases res)
      case (Inl e)
      then show ?thesis using handle_trigger_raises [of C t True s e u] tr False t
        by (subst setstate_loop.simps) (simp add: next_transition_def)
    next
      case (Inr m)
      note facts = handle_trigger_result [OF tr [unfolded Inr]]
      have near: "dstate u = dstate s \<or> dstate u = c" using facts c(1) by auto
      show ?thesis
      proof (cases "has_err m")
        case True
        obtain v where v: "eseq (report_err_of C m) (eret m) u = (Inr m, v)" "keeps u v"
        proof -
          obtain r v where rv: "report_err_of C m u = (r, v)" by (cases "report_err_of C m u")
          have "frames keeps (report_err_of C m)"
            unfolding report_err_of_def by (intro kp.guards)
          then have k: "keeps u v" using rv by (rule framesD)
          have "r = Inr ()" using rv True
            by (cases "m_body m") (auto simp: has_err_def report_err_of_def eff_simps dict_get_def
                report_error_json_def now_def emit_def)
          then show ?thesis using that [OF _ k] rv by (simp add: eff_simps)
        qed
        have io: "keeps_io s v"
          using facts keeps_keeps_io [OF v(2)] keeps_io_trans by blast
        then show ?thesis using True tr Inr False t v near c keepsD(1) [OF v(2)]
          by (subst setstate_loop.simps) (auto simp: next_transition_def)
      next
        case False2: False
        then have uc: "dstate u = c"
          using handle_trigger_moves [OF tr [unfolded Inr]] c(1) by simp
        then obtain r s' where rec: "setstate_loop C trig st m u = Some (r, s')" "keeps_io u s'"
          "min (state_pos c) (state_pos st) \<le> state_pos (dstate s')"
          "state_pos (dstate s') \<le> max (state_pos c) (state_pos st)"
          "case r of Inl e \<Rightarrow> True | Inr m \<Rightarrow> dstate s' = st \<or> has_err m"
          using less.hyps [of u m] c(2) by auto
        have "keeps_io s s'" using facts rec(2) ki.R_trans by blast
        then show ?thesis using rec c False2 False tr Inr t
          by (subst setstate_loop.simps) (auto simp: next_transition_def)
      qed
    qed
  qed
qed

end

end
