(* ===== verification/Requests.thy ===== *)
theory Requests
  imports MachineFacts
begin

text \<open>
  The requests the control process serves: \<open>service_requests\<close> on the front socket,
  \<open>service_fast\<close> on the fast socket, \<open>service_status\<close> on the back socket, the StepDone
  monitor, and the dispatch of \<open>run\<close> and the threads as one step function on events. A step
  is a whole handler; the interleaving of the threads inside a handler is not modelled. An
  exception that a handler lets through ends the thread it runs in, the main loop or the thread of
  the fast socket; the other goes on, for nothing sets \<open>threads_exit\<close>.
\<close>

section \<open>Settings\<close>

definition refuse :: "conf \<Rightarrow> (msg \<Rightarrow> unit act) \<Rightarrow> string \<Rightarrow> unit act" where
  "refuse C reply errMsg = ebind (new_msg C ''error'' (err_body errMsg)) reply"

definition reply_ok :: "conf \<Rightarrow> (msg \<Rightarrow> unit act) \<Rightarrow> unit act" where
  "reply_ok C reply = ebind (new_msg C ''ok'' (JDict [])) reply"

definition handle_setconfig :: "conf \<Rightarrow> string \<Rightarrow> unit act" where
  "handle_setconfig C newconfig =
     ebind (eget dstate) (\<lambda>st.
       if st = St_running \<or> st = St_paused
       then refuse C front_reply (''cannot set config alias in state '' @ squote (state_name st))
       else eseq (ebind (eget config_alias) (\<lambda>old. ewhen (newconfig \<noteq> old)
                    (eseq (emod (\<lambda>s. s\<lparr>config_alias := newconfig\<rparr>)) (report_status C))))
                 (reply_ok C front_reply))"

definition handle_setrecord :: "conf \<Rightarrow> bool \<Rightarrow> unit act" where
  "handle_setrecord C newrecording =
     ebind (eget dstate) (\<lambda>st.
       if st = St_running \<or> st = St_paused \<or> st = St_starting
       then refuse C fast_reply (''cannot change recording setting in state '' @ squote (state_name st)
              @ '' -- end run first'')
       else eseq (ebind (eget recording) (\<lambda>old. ewhen (newrecording \<noteq> old)
                    (eseq (emod (\<lambda>s. s\<lparr>recording := newrecording\<rparr>)) (report_status C))))
                 (reply_ok C fast_reply))"

definition handle_setbypass :: "conf \<Rightarrow> bool \<Rightarrow> unit act" where
  "handle_setbypass C newbypass =
     ebind (eget dstate) (\<lambda>st.
       if st \<noteq> St_reset \<and> st \<noteq> St_unallocated
       then refuse C fast_reply (''cannot change bypass_activedet setting in state ''
              @ squote (state_name st) @ '' -- deallocate first'')
       else eseq (ebind (eget bypass_activedet) (\<lambda>old. ewhen (newbypass \<noteq> old)
                    (eseq (emod (\<lambda>s. s\<lparr>bypass_activedet := newbypass\<rparr>)) (report_status C))))
                 (reply_ok C fast_reply))"

section \<open>Queries\<close>

definition handle_getstate :: "conf \<Rightarrow> msg act" where
  "handle_getstate C =
     ebind (eget (\<lambda>s. (state_name (dstate s), cm_json (cmstate_levels (cmstate_of s)))))
       (\<lambda>(st, cm). new_msg C st cm)"

definition handle_getstatus :: "conf \<Rightarrow> msg act" where
  "handle_getstatus C = status_msg C"

definition handle_getinstrument :: "conf \<Rightarrow> msg act" where
  "handle_getinstrument C = new_msg C ''instrument''
     (JDict [(''instrument'', JStr (c_instrument C)), (''station'', JInt (c_station C))])"

text \<open>
  \<open>handle_getblock\<close>. The names the method reads inside its \<open>try\<close> are not bound when one is
  missing or the datagram library refuses them, and their use after the \<open>try\<close> raises.
\<close>

definition getblock_names :: "string list" where
  "getblock_names = [''detname'', ''dettype'', ''serial_number'', ''namesid'', ''alg_name'', ''alg_version'',
     ''motors'', ''add_names'', ''add_shapes_data'', ''timestamp'', ''transitionid'']"

definition rejected :: "conf \<Rightarrow> string \<Rightarrow> msg act" where
  "rejected C t = eseq (report_error C t) (ebind (now C) (\<lambda>tm. eret (error_msg tm (JStr t))))"

definition handle_getblock :: "conf \<Rightarrow> json \<Rightarrow> msg act" where
  "handle_getblock C body =
     (case body of
        JDict d \<Rightarrow>
          if list_all (\<lambda>k. map_of d k \<noteq> None) getblock_names
          then ebind (eget n_get) (\<lambda>n. eseq (emod (\<lambda>s. s\<lparr>n_get := Suc n\<rparr>))
                 (case c_getSelect C n d of
                    None \<Rightarrow> eraise (NameError ''transitionid'')
                  | Some hex \<Rightarrow> new_msg C ''block'' (JStr hex)))
          else eraise (NameError ''transitionid'')
      | _ \<Rightarrow> rejected C ''getblock requires dict'')"

section \<open>selectplatform\<close>

text \<open>\<open>int(s)\<close> for decimal digits with white space around and a sign\<close>

definition py_int :: "string \<Rightarrow> pyexc + int" where
  "py_int s =
     (case strip s of
        [] \<Rightarrow> Inl (ValueError s)
      | c # cs \<Rightarrow>
          if isnumeric (c # cs) then Inr (int (digits_val (c # cs)))
          else if (c = CHR ''-'' \<or> c = CHR ''+'') \<and> isnumeric cs
          then Inr (if c = CHR ''-'' then - int (digits_val cs) else int (digits_val cs))
          else Inl (ValueError s))"

definition set_readout :: "string \<Rightarrow> int \<Rightarrow> json \<Rightarrow> cmstate \<Rightarrow> pyexc + cmstate" where
  "set_readout level xid r cm =
     sbind (sbind (dict_get cm level) (\<lambda>cs. dict_get cs xid)) (\<lambda>it.
     sbind (dict_get it ''det_info'') (\<lambda>d. sbind (jset d ''readout'' r) (\<lambda>d'.
       cm_update cm level xid (AList.update ''det_info'' d'))))"

definition select_client :: "conf \<Rightarrow> string \<Rightarrow> string \<times> json \<Rightarrow> unit act" where
  "select_client C level p =
     (case p of (key2, val2) \<Rightarrow>
        ebind (elift (jget val2 ''active'')) (\<lambda>a.
        ebind (if level = ''control'' \<and> is_zero a
               then eseq (report_warning C ''ignoring attempt to clear the control level active flag'')
                         (eret (JInt 1))
               else eret a) (\<lambda>active.
        ebind (elift (py_int key2)) (\<lambda>xid.
        eseq (map_cm (\<lambda>cm. cm_update cm level xid (AList.update ''active'' active)))
          (ewhen (level = ''drp'')
             (ebind (elift (sbind (jget val2 ''det_info'') (\<lambda>d. jget d ''readout''))) (\<lambda>r.
                map_cm (set_readout level xid r))))))))"

definition handle_selectplatform :: "conf \<Rightarrow> json \<Rightarrow> msg act" where
  "handle_selectplatform C body =
     ebind (eget dstate) (\<lambda>st.
       if st \<noteq> St_unallocated
       then rejected C ''selectPlatform only permitted in unallocated state''
       else etry_else
              (ebind (elift (jitems body)) (efor (\<lambda>(level, val1).
                 ebind (elift (jitems val1)) (efor (select_client C level)))))
              (\<lambda>_. ebind (now C) (\<lambda>tm. eret (error_msg tm (JStr ''handle_selectplatform()''))))
              (\<lambda>_. new_msg C ''ok'' (JDict [])))"

section \<open>The front socket\<close>

definition key_arg :: "string list \<Rightarrow> pyexc + string" where
  "key_arg key = (case key of _ # a # _ \<Rightarrow> Inr a | _ \<Rightarrow> Inl IndexError)"

text \<open>
  A body with a transition request: the debug message about it fails for a string or a number,
  and after the body is stored the next one names an undefined variable.
\<close>

definition phase1_body :: "string list \<Rightarrow> json \<Rightarrow> unit act" where
  "phase1_body key body =
     (case body of
        JStr _ \<Rightarrow> eraise TypeError
      | JInt _ \<Rightarrow> eraise TypeError
      | JBool _ \<Rightarrow> eraise TypeError
      | _ \<Rightarrow> ebind (elift (key_arg key)) (\<lambda>k.
           eseq (emod (\<lambda>s. s\<lparr>phase1Info := AList.update k body (phase1Info s)\<rparr>))
                (eraise (NameError ''phase1Info''))))"

definition service_transition :: "conf \<Rightarrow> trig_fun \<Rightarrow> transition \<Rightarrow> string list \<Rightarrow> json \<Rightarrow> unit act" where
  "service_transition C trig t key body =
     eseq (ewhen (truthy body) (phase1_body key body))
    (eseq (reply_ok C front_reply)
    (ebind (eget slow_update_enabled) (\<lambda>slow.
       ewhen (\<not> (t = Tr_slowupdate \<and> \<not> slow))
         (ebind (handle_trigger C trig t False) (\<lambda>retval.
            ewhen (has_err retval) (report_err_of C retval))))))"

definition handle_request :: "conf \<Rightarrow> trig_fun \<Rightarrow> string \<Rightarrow> json \<Rightarrow> unit act" where
  "handle_request C trig name body =
     (if name = ''selectplatform'' then ebind (handle_selectplatform C body) front_reply
      else if name = ''getstate'' then ebind (handle_getstate C) front_reply
      else if name = ''storejsonconfig'' then eseq (handle_storejsonconfig C body) front_reply_empty
      else if name = ''getstatus'' then ebind (handle_getstatus C) front_reply
      else if name = ''chunkRequest'' then ebind (handle_chunkrequest C trig body) front_reply
      else eraise KeyError)"

text \<open>\<open>except KeyError\<close>: the answer is an error.\<close>

definition on_key_error :: "conf \<Rightarrow> (msg \<Rightarrow> unit act) \<Rightarrow> unit act \<Rightarrow> unit act" where
  "on_key_error C reply m =
     etry m (\<lambda>e. if e = KeyError then ebind (new_msg C ''error'' (JDict [])) reply else eraise e)"

definition service_setstate ::
    "conf \<Rightarrow> trig_fun \<Rightarrow> string list \<Rightarrow> json \<Rightarrow> mgr \<Rightarrow> ((pyexc + unit) \<times> mgr) option" where
  "service_setstate C trig key body s =
     (case ebind (elift (jdict body)) (\<lambda>b.
            eseq (emod (\<lambda>s. s\<lparr>phase1Info := dict_update (phase1Info s) b\<rparr>)) (elift (key_arg key))) s of
        (Inl e, s1) \<Rightarrow> Some (Inl e, s1)
      | (Inr newstate, s1) \<Rightarrow>
          (case handle_setstate C trig newstate s1 of
             None \<Rightarrow> None
           | Some (r, s2) \<Rightarrow> Some (case r of Inl e \<Rightarrow> Inl e | Inr _ \<Rightarrow> Inr (), s2)))"

definition service_requests :: "conf \<Rightarrow> trig_fun \<Rightarrow> msg \<Rightarrow> mgr \<Rightarrow> ((pyexc + unit) \<times> mgr) option" where
  "service_requests C trig m s =
     (let key = split_on (CHR ''.'') (m_key m); name = hd key; body = m_body m in
      if name = ''setstate''
      then (case service_setstate C trig key body s of
              None \<Rightarrow> None
            | Some (r, s1) \<Rightarrow> Some (on_key_error C front_reply (elift r) s1))
      else Some (on_key_error C front_reply
             (if name = ''setconfig'' then ebind (elift (key_arg key)) (handle_setconfig C)
              else (case trans_of_name name of
                      Some t \<Rightarrow> service_transition C trig t key body
                    | None \<Rightarrow> handle_request C trig name body)) s))"

section \<open>The fast socket, the back socket, the StepDone monitor\<close>

definition service_fast :: "conf \<Rightarrow> msg \<Rightarrow> unit act" where
  "service_fast C m =
     (let key = split_on (CHR ''.'') (m_key m); name = hd key; body = m_body m in
      on_key_error C fast_reply
        (if name = ''setrecord'' then ebind (elift (key_arg key)) (\<lambda>a. handle_setrecord C (a \<noteq> ''0''))
         else if name = ''setbypass'' then ebind (elift (key_arg key)) (\<lambda>a. handle_setbypass C (a \<noteq> ''0''))
         else if name = ''getinstrument'' then ebind (handle_getinstrument C) fast_reply
         else if name = ''getblock'' then ebind (handle_getblock C body) fast_reply
         else eraise KeyError))"

definition service_status :: "conf \<Rightarrow> trig_fun \<Rightarrow> msg \<Rightarrow> unit act" where
  "service_status C trig m =
     process_reports C (\<lambda>b. eseq (handle_chunkrequest C trig b) (eret ())) [m]"

text \<open>The callback sets the event; the thread clears it and publishes the step.\<close>

definition step_callback :: "int \<Rightarrow> unit act" where
  "step_callback done = emod (\<lambda>s. if done \<noteq> 0 \<and> dstate s = St_running then s\<lparr>step_done := True\<rparr> else s)"

definition step_tick :: "conf \<Rightarrow> unit act" where
  "step_tick C =
     ebind (eget step_done) (\<lambda>d. ewhen d
       (eseq (emod (\<lambda>s. s\<lparr>step_done := False\<rparr>))
             (ebind (now C) (\<lambda>t. emit (StepPub (step_msg t 1))))))"

section \<open>The process\<close>

datatype event =
    FrontReq msg
  | FastReq msg
  | BackMsg msg
  | StepDone int
  | StepTick

text \<open>A received request owes a reply.\<close>

fun manager_step :: "conf \<Rightarrow> trig_fun \<Rightarrow> event \<Rightarrow> mgr \<Rightarrow> ((pyexc + unit) \<times> mgr) option" where
  "manager_step C trig (FrontReq m) s = service_requests C trig m (s\<lparr>front_pending := True\<rparr>)"
| "manager_step C trig (FastReq m) s = Some (service_fast C m (s\<lparr>fast_pending := True\<rparr>))"
| "manager_step C trig (BackMsg m) s = Some (service_status C trig m s)"
| "manager_step C trig (StepDone d) s = Some (step_callback d s)"
| "manager_step C trig StepTick s = Some (step_tick C s)"

text \<open>\<open>__init__\<close>\<close>

definition init_mgr :: "conf \<Rightarrow> string \<Rightarrow> (string \<Rightarrow> jfile option) \<Rightarrow> mgr" where
  "init_mgr C al files =
     \<lparr>dstate = St_reset, cmstate_of = [], ids = {}, history = JDict [], phase1Info = [], groups = 0,
      config_alias = al, lastTransition = Tr_reset, recording = False,
      bypass_activedet = (c_activedetfilename C = ''/dev/null''), slow_update_enabled = False,
      experiment_name = None, run_number = Some 0, last_run_number = Some 0, readoutCumulative = 0,
      step_done = False, pvListMsgHeader = [], pvListXPM = [], pvListL0Groups = None,
      rp_fileSet = [], rp_pvaList = [], rp_caList = [], rp_recordedExperiments = None,
      jfiles = files, out = [], n_clock = 0, n_put = 0, n_recv = 0, n_http = 0, n_get = 0,
      front_pending = False, fast_pending = False\<rparr>"

definition startup :: "conf \<Rightarrow> unit act" where
  "startup C =
     ebind (get_experiment C) (\<lambda>expt.
     eseq (emod (\<lambda>s. s\<lparr>experiment_name := expt\<rparr>))
    (eseq (if expt = None \<or> expt = Some []
           then report_error C (''get_experiment() failed (instrument='' @ squote (c_instrument C)
                  @ '', station='' @ int_str (c_station C) @ '')'')
           else ebind (get_last_run_number C (the expt)) (\<lambda>n. emod (\<lambda>s. s\<lparr>last_run_number := n\<rparr>)))
      (ebind (eget last_run_number) (\<lambda>n. if n = None then eraise TypeError else eret ()))))"

text \<open>
  The threads of the process: the main loop \<open>run\<close>, which serves the front and the back socket, the
  thread \<open>fast_reply_func\<close> of the fast socket, and the thread of the StepDone monitor, which raises
  nothing. What is sent to a thread that has ended stays in its socket.
\<close>

record process =
  pr_mgr :: mgr
  pr_main :: bool
  pr_fast :: bool

definition run_main :: "conf \<Rightarrow> trig_fun \<Rightarrow> event \<Rightarrow> process \<Rightarrow> process option" where
  "run_main C trig ev p =
     (if pr_main p
      then (case manager_step C trig ev (pr_mgr p) of None \<Rightarrow> None
            | Some (r, s) \<Rightarrow> Some (p\<lparr>pr_mgr := s, pr_main := \<not> isl r\<rparr>))
      else Some p)"

definition fast_reply_func :: "conf \<Rightarrow> trig_fun \<Rightarrow> event \<Rightarrow> process \<Rightarrow> process option" where
  "fast_reply_func C trig ev p =
     (if pr_fast p
      then (case manager_step C trig ev (pr_mgr p) of None \<Rightarrow> None
            | Some (r, s) \<Rightarrow> Some (p\<lparr>pr_mgr := s, pr_fast := \<not> isl r\<rparr>))
      else Some p)"

definition step_done_func :: "conf \<Rightarrow> trig_fun \<Rightarrow> event \<Rightarrow> process \<Rightarrow> process option" where
  "step_done_func C trig ev p =
     (case manager_step C trig ev (pr_mgr p) of None \<Rightarrow> None | Some (r, s) \<Rightarrow> Some (p\<lparr>pr_mgr := s\<rparr>))"

definition process_step :: "conf \<Rightarrow> trig_fun \<Rightarrow> event \<Rightarrow> process \<Rightarrow> process option" where
  "process_step C trig ev p =
     (case ev of FrontReq m \<Rightarrow> run_main C trig ev p
      | BackMsg m \<Rightarrow> run_main C trig ev p
      | FastReq m \<Rightarrow> fast_reply_func C trig ev p
      | StepDone d \<Rightarrow> step_done_func C trig ev p
      | StepTick \<Rightarrow> step_done_func C trig ev p)"

inductive reachable :: "conf \<Rightarrow> trig_fun \<Rightarrow> process \<Rightarrow> bool" for C trig where
  start: "startup C (init_mgr C al files) = (Inr (), s) \<Longrightarrow>
    reachable C trig \<lparr>pr_mgr = s, pr_main = True, pr_fast = True\<rparr>"
| step: "reachable C trig p \<Longrightarrow> process_step C trig ev p = Some p' \<Longrightarrow> reachable C trig p'"

end
