(* ===== verification/RequestFacts.thy ===== *)
theory RequestFacts
  imports Requests
begin

text \<open>
  Invariants of the control process over its steps: the switch of the slow updates is on only
  while running, every request is answered exactly once, and the settings change only in the
  states that allow it.
\<close>

section \<open>Inversion\<close>

lemma eguard_TrueD:
  assumes "eguard m n s = (Inr True, t)"
  obtains u where "m s = (Inr True, u)" and "n u = (Inr True, t)"
  using assms by (cases "m s") (auto simp: eff_simps split: sum.splits bool.splits)

section \<open>The switch of the slow updates\<close>

definition slow_inv :: "conf \<Rightarrow> mgr \<Rightarrow> bool" where
  "slow_inv C s \<longleftrightarrow> (slow_update_enabled s \<longrightarrow> dstate s = St_running \<and> c_slow_update_rate C \<noteq> 0)"

definition inv_le :: "conf \<Rightarrow> mgr \<Rightarrow> mgr \<Rightarrow> bool" where
  "inv_le C s t \<longleftrightarrow> (slow_inv C s \<longrightarrow> slow_inv C t)"

interpretation si: mgr_frame "inv_le C" for C
  by unfold_locales (auto simp: inv_le_def slow_inv_def)

lemma si_slow_off: "frames (inv_le C) (set_slow_update_enabled False)"
  unfolding set_slow_update_enabled_def by (intro frames_mod) (simp add: inv_le_def slow_inv_def)

lemma si_condition:
  assumes "r \<in> set (collectMachine C)"
  shows "frames (inv_le C) (row_condition r)"
proof -
  have "frames (inv_le C) (condition_disable C)" "frames (inv_le C) (condition_reset C)"
    unfolding condition_disable_def condition_reset_def
    by (intro si.guards si.frame_condition_common si.frame_phase2 si.frame_inserts si_slow_off)+
  then show ?thesis using assms
    by (auto simp: collectMachine_def intro: si.frame_rollcall si.frame_alloc si.frame_dealloc
        si.frame_connect si.frame_configure si.frame_beginrun si.frame_steps si.frame_enable
        si.frame_slowupdate)
qed

lemma off_then_kept:
  assumes "eseq (ewhen b (set_slow_update_enabled False)) m s = (r, u)" and "b" and "frames keeps_slow m"
  shows "\<not> slow_update_enabled u"
proof -
  have "m (s\<lparr>slow_update_enabled := False\<rparr>) = (r, u)"
    using assms(1,2) by (simp add: eff_simps set_slow_update_enabled_def)
  from framesD [OF assms(3) this] show ?thesis by (simp add: keeps_slow_def)
qed

lemma disable_slow_off:
  assumes run: "condition_disable C s = (Inr True, u)" and rate: "c_slow_update_rate C \<noteq> 0"
  shows "\<not> slow_update_enabled u"
proof -
  let ?rest = "eguard (condition_common C Tr_disable 6000 [])
      (eseq (insert_transition C (0x180 OR transitionId TI_Disable))
      (eguard (get_phase2_replies C Tr_disable) (set_last Tr_disable)))"
  obtain a where a: "eseq (ewhen (c_slow_update_rate C \<noteq> 0) (set_slow_update_enabled False)) ?rest a = (Inr True, u)"
    using run unfolding condition_disable_def by (rule eguard_TrueD)
  have "frames keeps_slow ?rest"
    by (intro ks.guards ks.frame_condition_common ks.frame_phase2 ks.frame_inserts)
  then show ?thesis by (rule off_then_kept [OF a rate])
qed

lemma reset_slow_off:
  assumes run: "condition_reset C s = (Inr ok, u)"
  shows "\<not> slow_update_enabled u"
proof -
  let ?rest = "eseq (back_send C ''all'' Tr_reset (JDict [])) (set_last Tr_reset)"
  obtain x where x: "eseq (ebind (eget dstate) (\<lambda>st. ewhen (st = St_running) (eseq (group_run C False) (eret ()))))
      (eseq (set_slow_update_enabled False) ?rest) x = (Inr ok, u)"
    using run unfolding condition_reset_def by (rule eseq_InrD)
  obtain a where "eseq (set_slow_update_enabled False) ?rest a = (Inr ok, u)"
    using x by (rule eseq_InrD)
  then have a: "eseq (ewhen True (set_slow_update_enabled False)) ?rest a = (Inr ok, u)"
    by (simp add: ewhen_def)
  have "frames keeps_slow ?rest" by (intro ks.guards)
  then show ?thesis by (rule off_then_kept [OF a TrueI])
qed

text \<open>A row that leaves its state has the switch off when its condition has held.\<close>

lemma condition_slow_off:
  assumes r: "r \<in> set (collectMachine C)" and inv: "slow_inv C s" and src: "dstate s \<in> set (row_sources r)"
    and run: "row_condition r s = (Inr True, u)" and dest: "row_dest r \<noteq> None"
  shows "\<not> slow_update_enabled u"
proof -
  have kept: "\<not> slow_update_enabled u" if "frames keeps_slow (row_condition r)" "dstate s \<noteq> St_running"
    using framesD [OF that(1) run] that(2) inv by (auto simp: keeps_slow_def slow_inv_def)
  have "row_condition r = condition_reset C \<or> row_condition r = condition_disable C
      \<or> frames keeps_slow (row_condition r) \<and> dstate s \<noteq> St_running"
    using r src dest
    by (auto simp: collectMachine_def ks.frame_rollcall ks.frame_alloc ks.frame_dealloc
        ks.frame_connect ks.frame_configure ks.frame_beginrun ks.frame_steps ks.frame_enable)
  then consider (reset) "row_condition r = condition_reset C" | (disable) "row_condition r = condition_disable C"
    | (other) "frames keeps_slow (row_condition r)" "dstate s \<noteq> St_running"
    by blast
  then show ?thesis
  proof cases
    case reset
    then show ?thesis using reset_slow_off run by metis
  next
    case disable
    show ?thesis
    proof (cases "c_slow_update_rate C = 0")
      case True
      have "slow_inv C u" using framesD [OF si_condition [OF r] run] inv by (simp add: inv_le_def)
      then show ?thesis using True by (simp add: slow_inv_def)
    next
      case False
      then show ?thesis using disable disable_slow_off run by metis
    qed
  next
    case other
    then show ?thesis by (rule kept)
  qed
qed

lemma after_slow_inv:
  assumes r: "r \<in> set (collectMachine C)" and off: "\<not> slow_update_enabled v \<or> row_dest r = None \<and> slow_inv C v"
    and dest: "row_dest r = None \<or> row_dest r = Some (dstate v)"
    and run: "efor (\<lambda>a. a) (row_after r) v = (res, w)"
  shows "slow_inv C w"
proof -
  have inv: "slow_inv C v" using off by (auto simp: slow_inv_def)
  have status: "slow_inv C (snd (report_status C x))" if "slow_inv C x" for x
    using si.frame_report_status [of C C] that by (auto simp: frames_def inv_le_def)
  have "row_after r = [] \<or> row_after r = [report_status C]
    \<or> row_after r = [after_enable C, report_status C] \<and> row_dest r = Some St_running"
    using r by (auto simp: collectMachine_def)
  then show ?thesis
  proof (elim disjE conjE)
    assume "row_after r = []"
    then show ?thesis using run inv by (simp add: eff_simps)
  next
    assume "row_after r = [report_status C]"
    then show ?thesis using run status [OF inv] by (auto simp: eff_simps split: prod.splits sum.splits)
  next
    assume af: "row_after r = [after_enable C, report_status C]" "row_dest r = Some St_running"
    then have "slow_inv C (snd (after_enable C v))"
      using dest inv by (auto simp: after_enable_def set_slow_update_enabled_def eff_simps slow_inv_def)
    moreover have "snd (efor (\<lambda>a. a) (row_after r) v) = snd (report_status C (snd (after_enable C v)))"
      using report_status_ok [of C] after_enable_ok [of C v]
      by (auto simp: af eff_simps split: prod.splits sum.splits)
    ultimately show ?thesis using status run by (metis snd_conv)
  qed
qed

lemma fire_slow_inv:
  assumes r: "r \<in> set (collectMachine C)" and inv: "slow_inv C s" and src: "dstate s \<in> set (row_sources r)"
    and run: "fire on_enter r s = (res, t)"
  shows "slow_inv C t"
proof -
  obtain c u where c: "row_condition r s = (c, u)" by (cases "row_condition r s")
  have iu: "slow_inv C u" using framesD [OF si_condition [OF r] c] inv by (simp add: inv_le_def)
  show ?thesis
  proof (cases "c = Inr True")
    case False
    then have "t = u" using run c by (auto simp: fire_def eff_simps split: sum.splits bool.splits)
    then show ?thesis using iu by simp
  next
    case True
    obtain v where v: "enter_state on_enter (row_dest r) u = (Inr (), v)"
      "dstate v = (case row_dest r of None \<Rightarrow> dstate u | Some st \<Rightarrow> st)"
      using run_enter by blast
    have same: "slow_update_enabled v = slow_update_enabled u"
      using v(1) by (auto simp: enter_state_def on_enter_def on_enter_reset_def eff_simps split: option.splits if_splits)
    obtain w where w: "efor (\<lambda>a. a) (row_after r) v = (Inr (), w)" using run_after [OF r] by blast
    have "t = w" using run c True v(1) w by (simp add: fire_def eff_simps)
    moreover have "\<not> slow_update_enabled v \<or> row_dest r = None \<and> slow_inv C v"
    proof (cases "row_dest r")
      case None
      then have "v = u" using v(1) by (simp add: enter_state_def eff_simps)
      then show ?thesis using None iu by simp
    next
      case (Some st)
      then show ?thesis using condition_slow_off [OF r inv src] c True same by auto
    qed
    moreover have "row_dest r = None \<or> row_dest r = Some (dstate v)" using v(2) by (auto split: option.splits)
    ultimately show ?thesis using after_slow_inv [OF r _ _ w] by blast
  qed
qed

section \<open>Relations kept by whole handlers\<close>

text \<open>
  A preorder that the condition methods respect and that triggers, replies and changes of the
  settings respect as well is respected by every step.
\<close>

locale front_frame = mgr_frame +
  fixes C :: conf and trig :: trig_fun
  assumes R_trig: "frames R (trig (collectMachine C) on_enter t)"
    and R_replies: "frames R (front_reply m)" "frames R front_reply_empty"
    and R_alias: "R s (s\<lparr>config_alias := al\<rparr>)"
begin

lemmas serve = guards R_trig R_replies R_alias

lemma frame_raise_or: "frames R (case x of None \<Rightarrow> eraise e | Some t \<Rightarrow> eret y)"
  by (cases x) (simp_all add: frame_pure)

lemma frame_trigger: "frames R (handle_trigger C trig t chg)"
  unfolding handle_trigger_def by (intro serve)

lemma frame_report_err: "frames R (report_err_of C m)"
  unfolding report_err_of_def by (intro serve)

lemma frame_chunk: "frames R (handle_chunkrequest C trig b)"
  unfolding handle_chunkrequest_def by (intro serve frame_trigger)

lemma frame_setstate_loop:
  assumes "setstate_loop C trig st answer s = Some (r, s')"
  shows "R s s'"
proof -
  let ?P = "\<lambda>D tr (st::daq_state) (answer::msg) a (res :: (pyexc + msg) \<times> mgr). D = C \<longrightarrow> tr = trig \<longrightarrow> R a (snd res)"
  have "?P C trig st answer s (r, s')"
    using assms
  proof (rule setstate_loop.raw_induct [where P = ?P, rotated], intro impI, goal_cases)
    case (1 loop D tr st answer a res)
    show ?case
    proof (cases "dstate a = st")
      case True
      then show ?thesis using 1(2-) R_refl by auto
    next
      case far: False
      show ?thesis
      proof (cases "next_transition (dstate a) st")
        case None
        then show ?thesis using 1(2-) far framesD [OF frame_new_msg] by (cases res) auto
      next
        case (Some t)
        obtain q b where q: "handle_trigger C trig t True a = (q, b)" by (cases "handle_trigger C trig t True a")
        have ab: "R a b" using frame_trigger q by (rule framesD)
        show ?thesis
        proof (cases q)
          case (Inl e)
          then show ?thesis using 1(2-) far Some q ab by auto
        next
          case (Inr m)
          show ?thesis
          proof (cases "has_err m")
            case True
            have "frames R (eseq (report_err_of C m) (eret m))" by (intro serve frame_report_err)
            then show ?thesis using 1(2-) far Some q ab Inr True
              by (cases res) (auto intro: R_trans framesD)
          next
            case False
            then have "loop C trig st m b = Some res" using 1(2-) far Some q Inr by simp
            then have "R b (snd res)" using 1(1) by blast
            then show ?thesis using ab by (rule R_trans [rotated])
          qed
        qed
      qed
    qed
  qed
  then show ?thesis by simp
qed

lemma frame_reply_ok:
  "frames R (reply_ok C' front_reply)" "frames R (refuse C' front_reply e)"
  unfolding reply_ok_def refuse_def by (intro serve)+

lemma frame_setstate:
  assumes "handle_setstate C trig n s = Some (r, s')"
  shows "R s s'"
proof (cases "state_of_name n")
  case None
  have "frames R (ebind (new_msg C ''error'' (err_body (filter (\<lambda>c. c \<noteq> CHR 34)
                        (''state '' @ squote n @ '' not recognized''))))
                  (\<lambda>answer. eseq (front_reply answer) (eret answer)))"
    by (intro serve)
  then show ?thesis using assms None by (auto simp: handle_setstate_def intro: framesD)
next
  case (Some st)
  obtain q u where q: "ebind (new_msg C ''ok'' (JDict [])) (\<lambda>answer. eseq (front_reply answer) (eret answer)) s = (q, u)"
    by fastforce
  have "frames R (ebind (new_msg C ''ok'' (JDict [])) (\<lambda>answer. eseq (front_reply answer) (eret answer)))"
    by (intro serve)
  then have su: "R s u" using q by (rule framesD)
  show ?thesis
  proof (cases q)
    case (Inl e)
    then show ?thesis using assms Some q su by (simp add: handle_setstate_def)
  next
    case (Inr answer)
    then have "setstate_loop C trig st answer u = Some (r, s')"
      using assms Some q by (simp add: handle_setstate_def)
    then show ?thesis using frame_setstate_loop su R_trans by blast
  qed
qed

lemma frame_setconfig: "frames R (handle_setconfig C al)"
  unfolding handle_setconfig_def by (intro serve frame_reply_ok frame_report_status)

lemma frame_selectplatform: "frames R (handle_selectplatform C body)"
  unfolding handle_selectplatform_def select_client_def rejected_def by (intro serve frame_map_cm)

lemma frame_key_error: "frames R m \<Longrightarrow> frames R (on_key_error C front_reply m)"
  unfolding on_key_error_def by (intro serve)

lemma frame_request: "frames R (handle_request C trig n body)"
  unfolding handle_request_def handle_getstate_def handle_getstatus_def status_msg_def handle_storejsonconfig_def
  by (intro serve frame_selectplatform frame_chunk frame_store_activedet)

lemma frame_service_transition: "frames R (service_transition C trig t key body)"
  unfolding service_transition_def phase1_body_def
  by (intro serve frame_trigger frame_report_err frame_reply_ok)

lemma frame_requests:
  assumes run: "service_requests C trig m s = Some (r, s')"
  shows "R s s'"
proof (cases "hd (split_on (CHR ''.'') (m_key m)) = ''setstate''")
  case True
  let ?key = "split_on (CHR ''.'') (m_key m)"
  let ?m1 = "ebind (elift (jdict (m_body m))) (\<lambda>b.
      eseq (emod (\<lambda>s. s\<lparr>phase1Info := dict_update (phase1Info s) b\<rparr>)) (elift (key_arg ?key)))"
  obtain q u where q: "?m1 s = (q, u)" by fastforce
  have "frames R ?m1" by (intro serve)
  then have su: "R s u" using q by (rule framesD)
  obtain r1 v where v: "service_setstate C trig ?key (m_body m) s = Some (r1, v)"
    and rest: "on_key_error C front_reply (elift r1) v = (r, s')"
    using run True by (auto simp: service_requests_def Let_def split: option.splits)
  have "R s v"
  proof (cases q)
    case (Inl e)
    then show ?thesis using v q su by (simp add: service_setstate_def)
  next
    case (Inr n)
    then obtain r2 where "handle_setstate C trig n u = Some (r2, v)"
      using v q by (auto simp: service_setstate_def split: option.splits)
    then show ?thesis using frame_setstate su R_trans by blast
  qed
  moreover have "R v s'" using framesD [OF frame_key_error rest] frame_pure(3) by blast
  ultimately show ?thesis by (rule R_trans)
next
  case False
  let ?body = "if hd (split_on (CHR ''.'') (m_key m)) = ''setconfig''
      then ebind (elift (key_arg (split_on (CHR ''.'') (m_key m)))) (handle_setconfig C)
      else (case trans_of_name (hd (split_on (CHR ''.'') (m_key m))) of
              Some t \<Rightarrow> service_transition C trig t (split_on (CHR ''.'') (m_key m)) (m_body m)
            | None \<Rightarrow> handle_request C trig (hd (split_on (CHR ''.'') (m_key m))) (m_body m))"
  have "on_key_error C front_reply ?body s = (r, s')"
    using run False unfolding service_requests_def Let_def by (simp only: if_False option.inject)
  moreover have "frames R ?body"
    by (intro serve frame_setconfig frame_service_transition frame_request)
  ultimately show ?thesis using framesD [OF frame_key_error] by blast
qed

lemma frame_status: "frames R (service_status C trig m)"
  unfolding service_status_def by (intro frame_process_reports serve frame_chunk)

end

locale service_frame = front_frame +
  assumes R_fast: "frames R (fast_reply m)"
    and R_recording: "R s (s\<lparr>recording := b\<rparr>)"
begin

lemma frame_fast_settings:
  "frames R (handle_setrecord C b)" "frames R (handle_setbypass C b)"
  unfolding handle_setrecord_def handle_setbypass_def refuse_def reply_ok_def
  by (intro serve R_fast R_recording frame_report_status)+

lemma frame_getblock: "frames R (handle_getblock C body)"
  unfolding handle_getblock_def rejected_def by (intro serve)

lemma frame_fast: "frames R (service_fast C m)"
  unfolding service_fast_def handle_getinstrument_def Let_def on_key_error_def
  by (intro serve R_fast frame_fast_settings frame_getblock)

end

section \<open>The switch and the states of the process\<close>

text \<open>The replies sent and the one that is due, counted together on each socket.\<close>

fun is_front_reply :: "obs \<Rightarrow> bool" where
  "is_front_reply (FrontRep m) = True"
| "is_front_reply FrontRepEmpty = True"
| "is_front_reply _ = False"

fun is_fast_reply :: "obs \<Rightarrow> bool" where
  "is_fast_reply (FastRep m) = True"
| "is_fast_reply _ = False"

definition front_replies :: "mgr \<Rightarrow> nat" where
  "front_replies s = length (filter is_front_reply (out s))"

definition fast_replies :: "mgr \<Rightarrow> nat" where
  "fast_replies s = length (filter is_fast_reply (out s))"

definition same_credit :: "mgr \<Rightarrow> mgr \<Rightarrow> bool" where
  "same_credit s t \<longleftrightarrow>
     front_replies t + of_bool (front_pending t) = front_replies s + of_bool (front_pending s)
     \<and> fast_replies t + of_bool (fast_pending t) = fast_replies s + of_bool (fast_pending s)
     \<and> (front_pending t \<longrightarrow> front_pending s) \<and> (fast_pending t \<longrightarrow> fast_pending s)"

lemma not_reply: "\<not> is_reply ob \<Longrightarrow> \<not> is_front_reply ob \<and> \<not> is_fast_reply ob"
  by (cases ob) auto

lemma keeps_io_credit:
  assumes "keeps_io s t"
  shows "same_credit s t"
proof -
  obtain xs where xs: "out t = out s @ xs" "\<forall>ob\<in>set xs. \<not> is_reply ob"
    using assms by (auto simp: keeps_io_def)
  have "filter is_front_reply xs = []" "filter is_fast_reply xs = []"
    using xs(2) not_reply by (auto simp: filter_empty_conv)
  then show ?thesis using assms xs(1)
    by (simp add: keeps_io_def same_credit_def front_replies_def fast_replies_def)
qed

interpretation cr: mgr_frame same_credit
proof (unfold_locales, goal_cases)
  case (2 s t u)
  then show ?case by (simp add: same_credit_def)
next
  case (3 ob s)
  then show ?case using not_reply by (simp add: same_credit_def front_replies_def fast_replies_def)
qed (simp_all add: same_credit_def front_replies_def fast_replies_def)

definition same_recording :: "mgr \<Rightarrow> mgr \<Rightarrow> bool" where
  "same_recording s t \<longleftrightarrow> recording t = recording s"

interpretation rec: mgr_frame same_recording
  by unfold_locales (simp_all add: same_recording_def)

text \<open>Neither socket is answered by the handlers of the other.\<close>

definition same_fast :: "mgr \<Rightarrow> mgr \<Rightarrow> bool" where
  "same_fast s t \<longleftrightarrow> fast_replies t = fast_replies s \<and> fast_pending t = fast_pending s"

interpretation sf: mgr_frame same_fast
proof (unfold_locales, goal_cases)
  case (3 ob s)
  then show ?case using not_reply by (simp add: same_fast_def fast_replies_def)
qed (simp_all add: same_fast_def fast_replies_def)

definition same_front :: "mgr \<Rightarrow> mgr \<Rightarrow> bool" where
  "same_front s t \<longleftrightarrow> front_replies t = front_replies s \<and> front_pending t = front_pending s"

interpretation sr: mgr_frame same_front
proof (unfold_locales, goal_cases)
  case (3 ob s)
  then show ?case using not_reply by (simp add: same_front_def front_replies_def)
qed (simp_all add: same_front_def front_replies_def)

lemma fast_keeps_front: "frames same_front (service_fast C m)"
proof -
  have fr: "frames same_front (fast_reply x)" for x
    by (rule framesI) (simp add: fast_reply_def same_front_def front_replies_def)
  have fl: "same_front s (s\<lparr>recording := b\<rparr>)" for s b by (simp add: same_front_def front_replies_def)
  show ?thesis
    unfolding service_fast_def Let_def on_key_error_def handle_getinstrument_def handle_setrecord_def handle_setbypass_def
      refuse_def reply_ok_def handle_getblock_def rejected_def
    by (intro sr.guards fr fl sr.frame_report_status)
qed

lemma cr_replies:
  "frames same_credit (front_reply m)" "frames same_credit front_reply_empty"
  "frames same_credit (fast_reply m)"
  by (auto intro!: framesI simp: front_reply_def front_reply_empty_def fast_reply_def same_credit_def
      front_replies_def fast_replies_def)

context transitions_package
begin

lemma si_trig: "frames (inv_le C) (trig (collectMachine C) on_enter t)"
proof (rule framesI)
  fix s
  obtain res s' where run: "trig (collectMachine C) on_enter t s = (res, s')"
    by (cases "trig (collectMachine C) on_enter t s")
  show "inv_le C s (snd (trig (collectMachine C) on_enter t s))"
    using trig_fires [OF run] fire_slow_inv si.R_refl run by (auto simp: inv_le_def)
qed

lemma si_service: "service_frame (inv_le C) C trig"
  by (intro service_frame.intro front_frame.intro si.mgr_frame_axioms front_frame_axioms.intro service_frame_axioms.intro si_trig)
    (auto intro!: framesI simp: front_reply_def front_reply_empty_def fast_reply_def inv_le_def slow_inv_def)

lemma cr_trig: "frames same_credit (trig (collectMachine C) on_enter t)"
  using trig_result keeps_io_credit by (metis framesI prod.collapse)

lemma cr_service: "service_frame same_credit C trig"
  by (intro service_frame.intro front_frame.intro cr.mgr_frame_axioms front_frame_axioms.intro service_frame_axioms.intro cr_trig cr_replies)
    (auto simp: same_credit_def front_replies_def fast_replies_def)

lemma cr_front: "front_frame same_credit C trig"
  using cr_service by (simp add: service_frame_def)

lemma rec_front: "front_frame same_recording C trig"
proof -
  have "frames same_recording (trig (collectMachine C) on_enter t)" for t
  proof (rule framesI)
    fix s
    show "same_recording s (snd (trig (collectMachine C) on_enter t s))"
      using trig_result [of C t s] by (cases "trig (collectMachine C) on_enter t s")
        (auto simp: keeps_io_def same_recording_def)
  qed
  then show ?thesis
    by (intro front_frame.intro rec.mgr_frame_axioms front_frame_axioms.intro)
      (auto intro!: framesI simp: front_reply_def front_reply_empty_def same_recording_def)
qed

lemma sf_front: "front_frame same_fast C trig"
proof -
  have "frames same_fast (trig (collectMachine C) on_enter t)" for t
  proof (rule framesI)
    fix s
    have io: "keeps_io s (snd (trig (collectMachine C) on_enter t s))"
      using trig_result [of C t s] by (metis prod.collapse)
    show "same_fast s (snd (trig (collectMachine C) on_enter t s))"
      using keeps_io_credit [OF io] io by (simp add: keeps_io_def same_fast_def same_credit_def)
  qed
  then show ?thesis
    by (intro front_frame.intro sf.mgr_frame_axioms front_frame_axioms.intro)
      (auto intro!: framesI simp: front_reply_def front_reply_empty_def same_fast_def fast_replies_def)
qed

text \<open>Every handler of the front socket that returns has sent its reply.\<close>

lemma handle_trigger_io: "frames keeps_io (handle_trigger C trig t chg)"
proof (rule framesI)
  fix s
  obtain r u where "handle_trigger C trig t chg s = (r, u)" by (cases "handle_trigger C trig t chg s")
  then show "keeps_io s (snd (handle_trigger C trig t chg s))"
    using handle_trigger_result [of C t chg s _ u] handle_trigger_raises [of C t chg s _ u]
    by (cases r) auto
qed

end

lemma front_reply_done: "front_reply m s = (Inr x, t) \<Longrightarrow> \<not> front_pending t"
  by (auto simp: front_reply_def split: if_splits)

lemma front_reply_empty_done: "front_reply_empty s = (Inr x, t) \<Longrightarrow> \<not> front_pending t"
  by (auto simp: front_reply_empty_def split: if_splits)

lemma fast_reply_done: "fast_reply m s = (Inr x, t) \<Longrightarrow> \<not> fast_pending t"
  by (auto simp: fast_reply_def split: if_splits)

text \<open>\<open>settled P m\<close>: when \<open>m\<close> returns, \<open>P\<close> holds.\<close>

definition settled :: "(mgr \<Rightarrow> bool) \<Rightarrow> 'a act \<Rightarrow> bool" where
  "settled P m \<longleftrightarrow> (\<forall>s x t. m s = (Inr x, t) \<longrightarrow> P t)"

lemma settled_bind: "(\<And>x. settled P (f x)) \<Longrightarrow> settled P (ebind m f)"
  unfolding settled_def by (metis ebind_InrD)

lemma settled_seq: "settled P n \<Longrightarrow> settled P (eseq m n)"
  unfolding settled_def by (metis eseq_InrD)

lemma settled_raise: "settled P (eraise e)"
  by (simp add: settled_def eff_simps)

lemma settled_if: "settled P m \<Longrightarrow> settled P n \<Longrightarrow> settled P (if b then m else n)"
  by simp

lemma settled_try: "settled P m \<Longrightarrow> (\<And>e. settled P (h e)) \<Longrightarrow> settled P (etry m h)"
  unfolding settled_def by (auto simp: eff_simps split: sum.splits prod.splits)

lemma settled_reply:
  "settled (\<lambda>s. \<not> front_pending s) (front_reply m)" "settled (\<lambda>s. \<not> front_pending s) front_reply_empty"
  "settled (\<lambda>s. \<not> fast_pending s) (fast_reply m)"
  unfolding settled_def by (auto dest: front_reply_done front_reply_empty_done fast_reply_done)

text \<open>A reply that was sent stays sent.\<close>

lemma settled_then:
  assumes "settled (\<lambda>s. \<not> front_pending s) m" and "frames same_credit n"
  shows "settled (\<lambda>s. \<not> front_pending s) (eseq m n)"
  unfolding settled_def
proof (intro allI impI)
  fix s x t
  assume "eseq m n s = (Inr x, t)"
  then obtain y u where "m s = (Inr y, u)" "n u = (Inr x, t)" by (rule eseq_InrD)
  then show "\<not> front_pending t"
    using assms framesD [OF assms(2)] by (fastforce simp: settled_def same_credit_def)
qed

lemmas settled_rules = settled_bind settled_seq settled_raise settled_if settled_try settled_reply

lemma settled_settings:
  "settled (\<lambda>s. \<not> front_pending s) (handle_setconfig C al)"
  "settled (\<lambda>s. \<not> fast_pending s) (handle_setrecord C b)"
  "settled (\<lambda>s. \<not> fast_pending s) (handle_setbypass C b)"
  unfolding handle_setconfig_def handle_setrecord_def handle_setbypass_def refuse_def reply_ok_def
  by (intro settled_rules)+

lemma settled_request: "settled (\<lambda>s. \<not> front_pending s) (handle_request C trig n body)"
  unfolding handle_request_def by (intro settled_rules)

lemma settled_fast: "settled (\<lambda>s. \<not> fast_pending s) (service_fast C m)"
  unfolding service_fast_def Let_def on_key_error_def by (intro settled_rules settled_settings)

context transitions_package
begin

lemma settled_transition: "settled (\<lambda>s. \<not> front_pending s) (service_transition C trig t key body)"
proof -
  have tail: "frames same_credit
      (ebind (eget slow_update_enabled) (\<lambda>slow.
         ewhen (\<not> (t = Tr_slowupdate \<and> \<not> slow))
           (ebind (handle_trigger C trig t False) (\<lambda>retval.
              ewhen (has_err retval) (report_err_of C retval)))))"
    by (intro cr.rules front_frame.frame_trigger [OF cr_front] front_frame.frame_report_err [OF cr_front])
  have "settled (\<lambda>s. \<not> front_pending s) (reply_ok C front_reply)"
    unfolding reply_ok_def by (intro settled_rules)
  then show ?thesis unfolding service_transition_def by (intro settled_seq settled_then tail)
qed

lemma setstate_settled:
  assumes run: "handle_setstate C trig n s = Some (Inr m, t)"
  shows "\<not> front_pending t"
proof (cases "state_of_name n")
  case None
  have "settled (\<lambda>s. \<not> front_pending s) (ebind (new_msg C ''error'' (err_body (filter (\<lambda>c. c \<noteq> CHR 34)
                        (''state '' @ squote n @ '' not recognized''))))
                  (\<lambda>answer. eseq (front_reply answer) (eret answer)))"
    by (intro settled_bind settled_then settled_reply cr.rules)
  then show ?thesis using run None by (auto simp: handle_setstate_def settled_def)
next
  case (Some st)
  have ok: "settled (\<lambda>s. \<not> front_pending s)
      (ebind (new_msg C ''ok'' (JDict [])) (\<lambda>answer. eseq (front_reply answer) (eret answer)))"
    by (intro settled_bind settled_then settled_reply cr.rules)
  obtain answer u where u: "ebind (new_msg C ''ok'' (JDict [])) (\<lambda>answer. eseq (front_reply answer) (eret answer)) s
      = (Inr answer, u)" and loop: "setstate_loop C trig st answer u = Some (Inr m, t)"
    using run Some by (auto simp: handle_setstate_def split: prod.splits sum.splits)
  have "\<not> front_pending u" using ok u by (simp add: settled_def)
  then show ?thesis
    using setstate_loop_ends [of C st answer u] loop by (auto simp: keeps_io_def)
qed

lemma setstate_loop_returns: "setstate_loop C trig st answer s \<noteq> None"
  using setstate_loop_ends [of C st answer s] by auto

lemma setstate_returns: "handle_setstate C trig n s \<noteq> None"
  by (auto simp: handle_setstate_def setstate_loop_returns simp del: not_None_eq
      split: option.splits prod.splits sum.splits)

lemma requests_return: "service_requests C trig m s \<noteq> None"
  using setstate_returns
  by (auto simp: service_requests_def service_setstate_def Let_def simp del: not_None_eq
      split: option.splits prod.splits sum.splits)

lemma requests_settled:
  assumes run: "service_requests C trig m s = Some (Inr x, t)"
  shows "\<not> front_pending t"
proof (cases "hd (split_on (CHR ''.'') (m_key m)) = ''setstate''")
  case True
  let ?key = "split_on (CHR ''.'') (m_key m)"
  obtain r v where v: "service_setstate C trig ?key (m_body m) s = Some (r, v)"
    and rest: "on_key_error C front_reply (elift r) v = (Inr x, t)"
    using run True by (auto simp: service_requests_def Let_def split: option.splits)
  show ?thesis
  proof (cases r)
    case (Inl e)
    then have "e = KeyError" "ebind (new_msg C ''error'' (JDict [])) front_reply v = (Inr x, t)"
      using rest by (auto simp: on_key_error_def eff_simps split: if_splits)
    then show ?thesis using settled_bind [OF settled_reply(1)] by (fastforce simp: settled_def)
  next
    case (Inr y)
    then have "v = t" using rest by (simp add: on_key_error_def eff_simps)
    moreover obtain n u m' where "handle_setstate C trig n u = Some (Inr m', v)"
      using v Inr by (auto simp: service_setstate_def split: prod.splits sum.splits option.splits)
    ultimately show ?thesis using setstate_settled by blast
  qed
next
  case False
  let ?body = "if hd (split_on (CHR ''.'') (m_key m)) = ''setconfig''
      then ebind (elift (key_arg (split_on (CHR ''.'') (m_key m)))) (handle_setconfig C)
      else (case trans_of_name (hd (split_on (CHR ''.'') (m_key m))) of
              Some t \<Rightarrow> service_transition C trig t (split_on (CHR ''.'') (m_key m)) (m_body m)
            | None \<Rightarrow> handle_request C trig (hd (split_on (CHR ''.'') (m_key m))) (m_body m))"
  have "on_key_error C front_reply ?body s = (Inr x, t)"
    using run False unfolding service_requests_def Let_def by (simp only: if_False option.inject)
  moreover have "settled (\<lambda>s. \<not> front_pending s) (on_key_error C front_reply ?body)"
    unfolding on_key_error_def
    by (cases "trans_of_name (hd (split_on (CHR ''.'') (m_key m)))")
      (simp_all only: option.case, (intro settled_rules settled_settings settled_request settled_transition)+)
  ultimately show ?thesis by (simp add: settled_def)
qed

end

interpretation sw: service_frame "inv_le C" C std_trig for C
  by (rule std.si_service)

interpretation cw: service_frame same_credit C std_trig for C
  by (rule std.cr_service)

section \<open>Reachable states\<close>

lemma step_callback_run:
  "step_callback d s = (r, s') \<Longrightarrow> s' = (if d \<noteq> 0 \<and> dstate s = St_running then s\<lparr>step_done := True\<rparr> else s)"
  by (simp add: step_callback_def eff_simps)

lemma step_tick_run:
  "step_tick C s = (r, s') \<Longrightarrow> s' = s
    \<or> s' = s\<lparr>step_done := False, n_clock := Suc (n_clock s),
              out := out s @ [StepPub (step_msg (c_clock C (n_clock s)) 1)]\<rparr>"
  by (cases "step_done s") (auto simp: step_tick_def now_def emit_def eff_simps)


text \<open>A thread that goes on owes no reply.\<close>

definition sound :: "conf \<Rightarrow> process \<Rightarrow> bool" where
  "sound C p \<longleftrightarrow> slow_inv C (pr_mgr p) \<and> (pr_main p \<longrightarrow> \<not> front_pending (pr_mgr p)) \<and> (pr_fast p \<longrightarrow> \<not> fast_pending (pr_mgr p))"

lemma startup_keeps: "frames keeps (startup C)"
  unfolding startup_def get_last_run_number_def get_experiment_def
  by (intro kp.guards kp.frame_http) (simp add: keeps_def)

lemma startup_keeps_slow: "frames keeps_slow (startup C)"
  unfolding startup_def get_last_run_number_def get_experiment_def
  by (intro ks.guards ks.frame_http) (simp add: keeps_slow_def)

context transitions_package
begin

lemma step_frames:
  assumes "manager_step C trig ev s = Some (r, s')"
  shows "(slow_inv C s \<longrightarrow> slow_inv C s')
    \<and> same_credit (case ev of FrontReq m \<Rightarrow> s\<lparr>front_pending := True\<rparr> | FastReq m \<Rightarrow> s\<lparr>fast_pending := True\<rparr> | _ \<Rightarrow> s) s'"
proof (cases ev)
  case (FrontReq m)
  then have run: "service_requests C trig m (s\<lparr>front_pending := True\<rparr>) = Some (r, s')" using assms by simp
  have "inv_le C (s\<lparr>front_pending := True\<rparr>) s'" "same_credit (s\<lparr>front_pending := True\<rparr>) s'"
    using front_frame.frame_requests [OF _ run] si_service cr_service by (auto simp: service_frame_def)
  then show ?thesis using FrontReq by (auto simp: inv_le_def slow_inv_def)
next
  case (FastReq m)
  then have run: "service_fast C m (s\<lparr>fast_pending := True\<rparr>) = (r, s')" using assms by simp
  have "inv_le C (s\<lparr>fast_pending := True\<rparr>) s'" "same_credit (s\<lparr>fast_pending := True\<rparr>) s'"
    using framesD [OF service_frame.frame_fast [OF si_service] run]
      framesD [OF service_frame.frame_fast [OF cr_service] run] by blast+
  then show ?thesis using FastReq by (auto simp: inv_le_def slow_inv_def)
next
  case (BackMsg m)
  then have run: "service_status C trig m s = (r, s')" using assms by simp
  have ff: "front_frame (inv_le C) C trig" using si_service by (simp add: service_frame_def)
  have "inv_le C s s'" using front_frame.frame_status [OF ff] run by (rule framesD)
  then show ?thesis
    using BackMsg framesD [OF front_frame.frame_status [OF cr_front] run] by (simp add: inv_le_def)
next
  case (StepDone d)
  then have "s' = s \<or> s' = s\<lparr>step_done := True\<rparr>"
    using assms step_callback_run [of d s r s'] by (auto split: if_splits)
  then show ?thesis using StepDone
    by (elim disjE) (simp_all add: slow_inv_def same_credit_def front_replies_def fast_replies_def)
next
  case StepTick
  then have "s' = s \<or> s' = s\<lparr>step_done := False, n_clock := Suc (n_clock s),
      out := out s @ [StepPub (step_msg (c_clock C (n_clock s)) 1)]\<rparr>"
    using assms step_tick_run by simp
  then show ?thesis using StepTick
    by (elim disjE) (simp_all add: slow_inv_def same_credit_def front_replies_def fast_replies_def)
qed

lemma step_settles:
  assumes run: "manager_step C trig ev s = Some (Inr (), s')"
  shows "case ev of FrontReq m \<Rightarrow> \<not> front_pending s' | FastReq m \<Rightarrow> \<not> fast_pending s' | _ \<Rightarrow> True"
  using run requests_settled settled_fast by (cases ev) (fastforce simp: settled_def)+

lemma step_other_socket:
  assumes run: "manager_step C trig ev s = Some (r, s')"
  shows "case ev of FrontReq m \<Rightarrow> same_fast s s' | FastReq m \<Rightarrow> same_front s s' | _ \<Rightarrow> True"
proof (cases ev)
  case (FrontReq m)
  then have "service_requests C trig m (s\<lparr>front_pending := True\<rparr>) = Some (r, s')" using run by simp
  from front_frame.frame_requests [OF sf_front this] show ?thesis
    using FrontReq by (simp add: same_fast_def fast_replies_def)
next
  case (FastReq m)
  then have "service_fast C m (s\<lparr>fast_pending := True\<rparr>) = (r, s')" using run by simp
  from framesD [OF fast_keeps_front this] show ?thesis using FastReq by (simp add: same_front_def front_replies_def)
qed simp_all

lemma step_sound:
  assumes run: "process_step C trig ev p = Some p'" and ok: "sound C p"
  shows "sound C p'"
proof (cases "manager_step C trig ev (pr_mgr p)")
  case None
  then show ?thesis using run ok
    by (auto simp: process_step_def run_main_def fast_reply_func_def step_done_func_def split: event.splits if_splits)
next
  case (Some res)
  obtain r s' where res: "res = (r, s')" by fastforce
  then have step: "manager_step C trig ev (pr_mgr p) = Some (r, s')" using Some by simp
  have slow: "slow_inv C s'" using step_frames [OF step] ok by (simp add: sound_def)
  have settle: "case ev of FrontReq m \<Rightarrow> \<not> front_pending s' | FastReq m \<Rightarrow> \<not> fast_pending s' | _ \<Rightarrow> True" if "\<not> isl r"
  proof -
    have "r = Inr ()" using that by (cases r) auto
    then show ?thesis using step_settles step by simp
  qed
  show ?thesis
    using run ok slow settle step_frames [OF step] step
    by (cases ev) (auto simp: sound_def process_step_def run_main_def fast_reply_func_def step_done_func_def
        same_credit_def split: if_splits)
qed

lemma reachable_sound:
  assumes "reachable C trig p"
  shows "sound C p"
  using assms
proof (induction rule: reachable.induct)
  case (start al files s)
  then show ?case
    using framesD [OF startup_keeps] framesD [OF startup_keeps_slow]
    by (fastforce simp: sound_def slow_inv_def init_mgr_def keeps_def keeps_slow_def)
next
  case (step p ev p')
  then show ?case using step_sound by blast
qed

text \<open>
  A request on the front socket: it is answered there once, or it ends the main loop and the answer
  is sent or owed.
\<close>

lemma front_request_reply:
  assumes ok: "sound C p" and main: "pr_main p"
  shows "\<exists>p'. process_step C trig (FrontReq m) p = Some p' \<and> pr_fast p' = pr_fast p
    \<and> fast_replies (pr_mgr p') = fast_replies (pr_mgr p)
    \<and> front_replies (pr_mgr p') + of_bool (front_pending (pr_mgr p')) = Suc (front_replies (pr_mgr p))
    \<and> (pr_main p' \<longrightarrow> \<not> front_pending (pr_mgr p'))"
proof -
  obtain r s' where run: "manager_step C trig (FrontReq m) (pr_mgr p) = Some (r, s')"
    using requests_return [of C m "pr_mgr p\<lparr>front_pending := True\<rparr>"] by fastforce
  let ?p = "p\<lparr>pr_mgr := s', pr_main := \<not> isl r\<rparr>"
  have step: "process_step C trig (FrontReq m) p = Some ?p" using run main by (simp add: process_step_def run_main_def)
  then have "sound C ?p" using ok by (rule step_sound)
  then show ?thesis using step step_other_socket [OF run] step_frames [OF run] ok main
    by (intro exI [of _ ?p]) (simp add: same_credit_def same_fast_def sound_def front_replies_def)
qed

text \<open>
  A request on the fast socket: the same for its thread, and only \<open>getblock\<close> and a setting without a
  value can end it.
\<close>

lemma fast_survives:
  assumes "fast_pending s" and "hd (split_on (CHR ''.'') (m_key m)) \<noteq> ''getblock''"
    and "hd (split_on (CHR ''.'') (m_key m)) \<in> {''setrecord'', ''setbypass''} \<Longrightarrow> 1 < length (split_on (CHR ''.'') (m_key m))"
  shows "\<exists>s'. service_fast C m s = (Inr (), s')"
proof -
  let ?key = "split_on (CHR ''.'') (m_key m)"
  have arg: "\<exists>a. key_arg ?key = Inr a" if "1 < length ?key"
    using that by (cases ?key; cases "tl ?key") (auto simp: key_arg_def)
  show ?thesis
    using assms arg
    by (auto simp: service_fast_def Let_def on_key_error_def handle_setrecord_def handle_setbypass_def handle_getinstrument_def
        refuse_def reply_ok_def report_status_def status_msg_def new_msg_def now_def emit_def fast_reply_def eff_simps)
qed

lemma fast_request_reply:
  assumes ok: "sound C p" and alive: "pr_fast p"
  shows "\<exists>p'. process_step C trig (FastReq m) p = Some p' \<and> pr_main p' = pr_main p
    \<and> front_replies (pr_mgr p') = front_replies (pr_mgr p)
    \<and> fast_replies (pr_mgr p') + of_bool (fast_pending (pr_mgr p')) = Suc (fast_replies (pr_mgr p))
    \<and> (pr_fast p' \<longrightarrow> \<not> fast_pending (pr_mgr p'))
    \<and> (let key = split_on (CHR ''.'') (m_key m) in
         hd key \<noteq> ''getblock'' \<and> (hd key \<in> {''setrecord'', ''setbypass''} \<longrightarrow> 1 < length key) \<longrightarrow> pr_fast p')"
proof -
  obtain r s' where run: "manager_step C trig (FastReq m) (pr_mgr p) = Some (r, s')" by fastforce
  let ?p = "p\<lparr>pr_mgr := s', pr_fast := \<not> isl r\<rparr>"
  have step: "process_step C trig (FastReq m) p = Some ?p" using run alive by (simp add: process_step_def fast_reply_func_def)
  then have "sound C ?p" using ok by (rule step_sound)
  moreover have "pr_fast ?p" if "hd (split_on (CHR ''.'') (m_key m)) \<noteq> ''getblock''"
    "hd (split_on (CHR ''.'') (m_key m)) \<in> {''setrecord'', ''setbypass''} \<longrightarrow> 1 < length (split_on (CHR ''.'') (m_key m))"
    using fast_survives [of "pr_mgr p\<lparr>fast_pending := True\<rparr>" m C] that run by auto
  ultimately show ?thesis using step step_other_socket [OF run] step_frames [OF run] ok alive
    by (intro exI [of _ ?p]) (simp add: same_credit_def same_front_def sound_def fast_replies_def Let_def)
qed

text \<open>The recording flag changes only on request, and not while a run is open.\<close>

lemma step_recording:
  assumes run: "manager_step C trig ev s = Some (r, s')" and chg: "recording s' \<noteq> recording s"
  shows "dstate s \<notin> {St_starting, St_paused, St_running}
    \<and> (\<exists>m. ev = FastReq m \<and> hd (split_on (CHR ''.'') (m_key m)) = ''setrecord'')"
proof (cases ev)
  case (FrontReq m)
  then have "service_requests C trig m (s\<lparr>front_pending := True\<rparr>) = Some (r, s')" using run by simp
  from front_frame.frame_requests [OF rec_front this] show ?thesis using chg by (simp add: same_recording_def)
next
  case (BackMsg m)
  then have "service_status C trig m s = (r, s')" using run by simp
  from framesD [OF front_frame.frame_status [OF rec_front] this] show ?thesis
    using chg by (simp add: same_recording_def)
next
  case (StepDone d)
  then show ?thesis using run chg by (auto simp: step_callback_def eff_simps split: if_splits)
next
  case StepTick
  then show ?thesis using run chg step_tick_run [of C s r s'] by auto
next
  case (FastReq m)
  have fr: "frames same_recording (fast_reply x)" for x
    by (rule framesI) (simp add: fast_reply_def same_recording_def)
  let ?key = "split_on (CHR ''.'') (m_key m)" and ?s = "s\<lparr>fast_pending := True\<rparr>"
  have fast: "service_fast C m ?s = (r, s')" using FastReq run by simp
  have other: "frames same_recording (service_fast C m)" if "hd ?key \<noteq> ''setrecord''"
    using that unfolding service_fast_def Let_def on_key_error_def handle_getinstrument_def handle_setbypass_def
      refuse_def reply_ok_def handle_getblock_def rejected_def
    by (simp only: if_False) (intro rec.guards fr rec.frame_report_status)
  have setrec: "hd ?key = ''setrecord''"
    using framesD [OF other fast] chg by (auto simp: same_recording_def)
  have locked: "frames same_recording (ebind (new_msg C k b) fast_reply)" for k b
    by (intro rec.guards fr)
  have "recording s' = recording s" if st: "dstate s \<in> {St_starting, St_paused, St_running}"
  proof -
    have "handle_setrecord C b ?s = refuse C fast_reply (''cannot change recording setting in state ''
        @ squote (state_name (dstate s)) @ '' -- end run first'') ?s" for b
      using st by (auto simp: handle_setrecord_def eff_simps)
    then have "same_recording ?s (snd (handle_setrecord C b ?s))" for b
      unfolding refuse_def using locked by (simp add: frames_def)
    moreover have "fst (handle_setrecord C b ?s) \<noteq> Inl KeyError" for b
      using st by (auto simp: handle_setrecord_def refuse_def eff_simps new_msg_def now_def fast_reply_def split: if_splits)
    ultimately show ?thesis
      using fast setrec locked framesD [OF locked]
      by (auto simp: service_fast_def Let_def on_key_error_def eff_simps same_recording_def key_arg_def
          split: list.splits prod.splits sum.splits if_splits) (metis fst_conv snd_conv)+
  qed
  then show ?thesis using chg setrec FastReq by blast
qed

end

end
