(* ===== verification/ConditionFacts.thy ===== *)
theory ConditionFacts
  imports RequestFacts
begin

text \<open>
  What the condition methods achieve: a phase 1 that succeeds has an error-free answer of every
  client it asked, the puts of a second phase come in the order of the timing system, triggers are
  disabled first and enabled last, the clients are numbered in order.
\<close>

section \<open>Collecting answers\<close>

text \<open>The messages a poll of the socket lets through.\<close>

lemma wait_for_answers_sound:
  "m \<in> set (wait_for_answers (Some i) ps) \<Longrightarrow> Got m \<in> set ps \<and> (m_key m \<in> set report_keys \<or> m_id m = i)"
  by (induction "Some i" ps rule: wait_for_answers.induct) (auto split: if_splits)

lemma wait_for_answers_complete:
  "Got m \<in> set ps \<Longrightarrow> m_key m \<in> set report_keys \<or> m_id m = i \<Longrightarrow> m \<in> set (wait_for_answers (Some i) ps)"
  by (induction "Some i" ps rule: wait_for_answers.induct) auto

text \<open>
  Invariant of the collection: without an error, the clients asked are those that answered (each
  once, from the messages seen) and those still missing; after an error, the one that reported it
  is missing or its answer was taken.
\<close>

definition is_report :: "msg \<Rightarrow> bool" where
  "is_report m \<longleftrightarrow> m_key m \<in> set report_keys"

definition collected_ok :: "int option set \<Rightarrow> msg set \<Rightarrow> collected \<Rightarrow> bool" where
  "collected_ok asked seen st =
     (case st of (missing, msgs, reports, err) \<Rightarrow>
        set msgs \<subseteq> seen \<and> set reports \<subseteq> seen
        \<and> list_all (\<lambda>m. \<not> is_report m) msgs \<and> list_all is_report reports
        \<and> (\<not> err \<longrightarrow> missing \<union> m_sender ` set msgs = asked \<and> missing \<inter> m_sender ` set msgs = {}
             \<and> distinct (map m_sender msgs) \<and> list_all (\<lambda>m. \<not> is_error_reply m) (msgs @ reports))
        \<and> (err \<longrightarrow> (\<exists>m. is_error_reply m \<and> (m \<in> set msgs \<and> missing = {} \<or> m \<in> set reports \<and> missing = {m_sender m}))))"

lemma confirm_msgs_ok:
  assumes "collected_ok asked seen st" and "\<not> snd (snd (snd st))" and "set ms \<subseteq> seen"
  shows "collected_ok asked seen (confirm_msgs ms st)"
  using assms
proof (induction ms st rule: confirm_msgs.induct)
  case (1 st)
  then show ?case by simp
next
  case (2 m ms missing msgs reports err)
  have ok: "collected_ok asked seen (missing, msgs, reports, err)" "\<not> err" "m \<in> seen"
    using 2(2-) by auto
  consider (bad) "is_error_reply m" | (report) "\<not> is_error_reply m" "is_report m"
    | (answer) "\<not> is_error_reply m" "\<not> is_report m" "m_sender m \<in> missing"
    | (stray) "\<not> is_error_reply m" "\<not> is_report m" "m_sender m \<notin> missing" by blast
  then show ?case
  proof cases
    case bad
    then show ?thesis using ok by (auto simp: collected_ok_def is_report_def Let_def)
  next
    case report
    have "collected_ok asked seen (missing, msgs, reports @ [m], err)"
      using ok report by (auto simp: collected_ok_def)
    then show ?thesis using 2 ok report by (auto simp: Let_def is_report_def)
  next
    case answer
    have "collected_ok asked seen (missing - {m_sender m}, msgs @ [m], reports, err)"
      using ok answer by (auto simp: collected_ok_def)
    then show ?thesis using 2 ok answer by (auto simp: Let_def is_report_def)
  next
    case stray
    then show ?thesis using 2 ok by (auto simp: Let_def is_report_def)
  qed
qed

lemma confirm_loop_ok:
  assumes "collected_ok asked seen st"
    and "\<forall>r\<in>set rs. \<forall>m. m \<in> set (wait_for_answers i (r_polled r)) \<longrightarrow> m \<in> seen"
  shows "\<exists>st' s'. confirm_loop C w i p rs st s = (Inr st', s') \<and> collected_ok asked seen st'"
  using assms
proof (induction C w i p rs st arbitrary: s rule: confirm_loop.induct)
  case (1 C w i p st)
  then show ?case by (auto simp: eff_simps)
next
  case (2 C w i p r rs missing msgs reports err)
  show ?case
  proof (cases "missing = {} \<or> err")
    case True
    then show ?thesis using 2(2) by (auto simp: eff_simps)
  next
    case False
    have "\<exists>u. (case p of None \<Rightarrow> eret () | Some t \<Rightarrow> progressReport C (r_elapsed r) w t) s = (Inr (), u)"
      by (cases p) (auto simp: progressReport_def now_def emit_def eff_simps)
    then obtain u where u: "(case p of None \<Rightarrow> eret () | Some t \<Rightarrow> progressReport C (r_elapsed r) w t) s = (Inr (), u)"
      by blast
    have "collected_ok asked seen (confirm_msgs (wait_for_answers i (r_polled r)) (missing, msgs, reports, err))"
      using False 2(2,3) by (intro confirm_msgs_ok) auto
    then show ?thesis using 2(1) [of u] 2(3) False by (auto simp: eff_simps u)
  qed
qed

text \<open>The messages received in the rounds of the n-th collection.\<close>

definition heard :: "conf \<Rightarrow> nat \<Rightarrow> string option \<Rightarrow> msg set" where
  "heard C n i = (\<Union>r\<in>set (c_recv C n). set (wait_for_answers i (r_polled r)))"

lemma confirm_response_ok:
  assumes "confirm_response C w i is p s = (res, s')"
  shows "\<exists>missing msgs reports err. res = Inr (missing, msgs, reports)
    \<and> collected_ok (Some ` is) (heard C (n_recv s) i) (missing, msgs, reports, err)"
proof -
  have start: "collected_ok (Some ` is) (heard C (n_recv s) i) (Some ` is, [], [], False)"
    by (simp add: collected_ok_def)
  obtain st' u where run: "confirm_loop C w i p (c_recv C (n_recv s)) (Some ` is, [], [], False)
      (s\<lparr>n_recv := Suc (n_recv s)\<rparr>) = (Inr st', u)"
    and ok: "collected_ok (Some ` is) (heard C (n_recv s) i) st'"
    using confirm_loop_ok [OF start, of "c_recv C (n_recv s)" i C w p "s\<lparr>n_recv := Suc (n_recv s)\<rparr>"]
    unfolding heard_def by blast
  obtain missing msgs reports err where st': "st' = (missing, msgs, reports, err)" by (cases st')
  have "confirm_response C w i is p s = (Inr (missing, msgs, reports), u)"
    by (simp add: confirm_response_def next_rounds_def eff_simps run st')
  then show ?thesis using assms ok st' by auto
qed

section \<open>Phase 1\<close>

definition has_alias :: "cmstate \<Rightarrow> bool" where
  "has_alias cm \<longleftrightarrow> (\<forall>(level, cs)\<in>set (cmstate_levels cm). \<forall>(xid, it)\<in>set cs. \<exists>a. proc_alias it = Inr a)"

lemma client_alias_ok: "proc_alias it = Inr a \<Longrightarrow> client_alias level it = Inr a"
  by (auto simp: proc_alias_def client_alias_def sbind_def split: sum.splits pyexc.splits)

lemma smap_total: "(\<And>x. x \<in> set xs \<Longrightarrow> \<exists>y. f x = Inr y) \<Longrightarrow> \<exists>ys. smap f xs = Inr ys"
proof (induction xs)
  case (Cons x xs)
  then obtain y ys where "f x = Inr y" "smap f xs = Inr ys" by fastforce
  then show ?case by simp
qed simp

lemma get_aliases_ok:
  assumes "has_alias cm"
  shows "\<exists>as. get_aliases cm is = Inr as"
  unfolding get_aliases_def
proof (rule smap_total)
  fix p
  assume "p \<in> set (concat (map (\<lambda>(level, cs).
          map (\<lambda>(_, it). (level, it))
            (filter (\<lambda>(xid, it). Some xid \<in> is \<and> map_of it ''proc_info'' \<noteq> None) cs))
          (cmstate_levels cm)))"
  then obtain level cs xid it where p: "p = (level, it)" "(level, cs) \<in> set (cmstate_levels cm)" "(xid, it) \<in> set cs"
    by auto
  then obtain a where "proc_alias it = Inr a" using assms unfolding has_alias_def by blast
  then show "\<exists>y. (case p of (level, it) \<Rightarrow> client_alias level it) = Inr y"
    using client_alias_ok p by auto
qed

definition no_err_info :: "msg \<Rightarrow> bool" where
  "no_err_info m \<longleftrightarrow> jget (m_body m) ''err_info'' = Inl KeyError"

lemma check_answers_zero:
  assumes "check_answers C as s = (Inr 0, s')" and "has_alias (cmstate_of s)"
  shows "list_all no_err_info as"
  using assms
proof (induction as arbitrary: s)
  case Nil
  then show ?case by simp
next
  case (Cons a as)
  let ?m = "etry
       (ebind (elift (jget (m_body a) ''err_info'')) (\<lambda>err_msg.
        ebind (aliases_of {m_sender a}) (\<lambda>al.
          if al = [] then eraise IndexError
          else eseq (report_error C (last al @ '': '' @ jtext err_msg)) (eret 1))))
       (\<lambda>e. if e = KeyError then eret (0::nat) else eraise e)"
  obtain k u where k: "?m s = (Inr k, u)" and rest: "ebind (check_answers C as) (\<lambda>n. eret (k + n)) u = (Inr 0, s')"
    using Cons.prems(1) unfolding check_answers.simps by (rule ebind_InrD)
  obtain n where n: "check_answers C as u = (Inr n, s')" "k + n = 0"
    using rest by (rule ebind_InrD) (auto simp: eff_simps)
  have "frames quiet ?m" by (intro qt.io_guards)
  then have "cmstate_of u = cmstate_of s" using k by (intro quietD(2)) (rule framesD)
  then have tail: "list_all no_err_info as" using Cons.IH [of u] n Cons.prems(2) by (auto simp: eff_simps)
  obtain als where als: "get_aliases (cmstate_of s) {m_sender a} = Inr als"
    using get_aliases_ok [OF Cons.prems(2)] by blast
  have "no_err_info a"
  proof (cases "jget (m_body a) ''err_info''")
    case (Inl e)
    then show ?thesis using k by (auto simp: no_err_info_def eff_simps split: if_splits)
  next
    case (Inr j)
    have "k = 1" using k Inr als
      by (auto simp: eff_simps aliases_of_def report_error_def report_error_json_def now_def emit_def
          split: if_splits)
    then show ?thesis using n by simp
  qed
  then show ?case using tail by simp
qed

definition answered :: "conf \<Rightarrow> nat \<Rightarrow> string \<Rightarrow> int \<Rightarrow> bool" where
  "answered C n i xid \<longleftrightarrow> (\<exists>a\<in>heard C n (Some i).
     m_sender a = Some xid \<and> m_id a = i \<and> \<not> is_report a \<and> no_err_info a)"

lemma process_reports_quiet: "frames quiet (process_reports C no_chunk ms)"
  by (rule qt.frame_no_chunk)

lemma confirm_all_True:
  assumes run: "confirm_all C what m timeout is s = (Inr True, s')" and al: "has_alias (cmstate_of s)"
    and i: "xid \<in> is"
  shows "answered C (n_recv s) (m_id m) xid"
proof -
  obtain trip u where c: "confirm_response C timeout (Some (m_id m)) is (Some what) s = (Inr trip, u)"
    and r1: "(case trip of (missing, answers, reports) \<Rightarrow>
       eseq (process_reports C no_chunk reports)
      (ebind (check_answers C answers) (\<lambda>errs.
       eseq (ewhen (missing \<noteq> {}) (report_missing C what missing))
            (eret (missing = {} \<and> errs = 0))))) u = (Inr True, s')"
    using run unfolding confirm_all_def by (rule ebind_InrD)
  obtain missing answers reports err where trip: "trip = (missing, answers, reports)"
    and ok: "collected_ok (Some ` is) (heard C (n_recv s) (Some (m_id m))) (missing, answers, reports, err)"
    using confirm_response_ok [OF c] by blast
  obtain x v where v: "process_reports C no_chunk reports u = (Inr x, v)"
    and r2: "ebind (check_answers C answers) (\<lambda>errs.
       eseq (ewhen (missing \<noteq> {}) (report_missing C what missing))
            (eret (missing = {} \<and> errs = 0))) v = (Inr True, s')"
    using r1 unfolding trip by (auto elim: eseq_InrD)
  obtain n w where n: "check_answers C answers v = (Inr n, w)"
    and r3: "eseq (ewhen (missing \<noteq> {}) (report_missing C what missing)) (eret (missing = {} \<and> n = 0)) w = (Inr True, s')"
    using r2 by (rule ebind_InrD)
  obtain y z where "eret (missing = {} \<and> n = 0) z = (Inr True, s')"
    using r3 by (rule eseq_InrD)
  then have fin: "missing = {}" "n = 0" by (simp_all add: eff_simps)
  have "cmstate_of v = cmstate_of s"
    using framesD [OF qt.frame_confirm_response c] framesD [OF process_reports_quiet v]
    by (simp add: quietD(2))
  then have good: "list_all no_err_info answers" using check_answers_zero n fin al by metis
  have "\<not> err"
  proof
    assume err
    then obtain b where "is_error_reply b" "b \<in> set answers"
      using ok fin(1) by (auto simp: collected_ok_def)
    then show False using good
      by (cases "m_body b") (auto simp: list_all_iff is_error_reply_def no_err_info_def dict_get_def)
  qed
  then have "Some xid \<in> m_sender ` set answers" using ok fin(1) i by (auto simp: collected_ok_def)
  then obtain b where b: "b \<in> set answers" "m_sender b = Some xid" by auto
  have "b \<in> heard C (n_recv s) (Some (m_id m))" "\<not> is_report b" "no_err_info b"
    using ok b good by (auto simp: collected_ok_def list_all_iff)
  moreover from this have "m_id b = m_id m"
    by (auto simp: heard_def is_report_def dest: wait_for_answers_sound)
  ultimately show ?thesis using b by (auto simp: answered_def)
qed

lemma active_ids_run: "active_ids s = (filter_active_set (cmstate_of s) (ids s), s)"
  by (simp add: active_ids_def eff_simps split: sum.splits)

lemma condition_common_True:
  assumes run: "condition_common C t timeout body s = (Inr True, s')" and al: "has_alias (cmstate_of s)"
  shows "\<exists>act m rest. filter_active_set (cmstate_of s) (ids s) = Inr act
    \<and> out s' = out s @ BackPub ''partition'' m # rest \<and> m_key m = trans_name t
    \<and> (\<forall>xid\<in>phase1_levels (cmstate_of s) act. answered C (n_recv s) (m_id m) xid)"
proof -
  obtain act where act: "filter_active_set (cmstate_of s) (ids s) = Inr act"
    using run by (auto simp: condition_common_def eff_simps active_ids_run split: sum.splits)
  define body1 where "body1 = (case map_of (phase1Info s) (trans_name t) of
      None \<Rightarrow> body | Some v \<Rightarrow> AList.update ''phase1Info'' v body)"
  define m where "m = create_msg (c_clock C (n_clock s)) (trans_name t) None None (JDict body1)"
  define u where "u = s\<lparr>n_clock := Suc (n_clock s), out := out s @ [BackPub ''partition'' m],
      phase1Info := AList.delete (trans_name t) (phase1Info s)\<rparr>"
  define asked where "asked = phase1_levels (cmstate_of s) act"
  have rest: "(if asked = {} then eret True else confirm_all C (trans_name t) m timeout asked) u = (Inr True, s')"
    using run act
    by (cases "asked = {}") (simp_all add: condition_common_def eff_simps active_ids_run back_send_def new_msg_def now_def emit_def
        body1_def m_def u_def asked_def)
  have key: "m_key m = trans_name t" by (simp add: m_def create_msg_def)
  have out_u: "out u = out s @ [BackPub ''partition'' m]" by (simp add: u_def)
  have "frames keeps (if asked = {} then eret True else confirm_all C (trans_name t) m timeout asked)"
    by (intro kp.guards kp.frame_confirm_all)
  then have "keeps u s'" using rest by (rule framesD)
  then obtain obs where obs: "out s' = out u @ obs" by (auto simp: keeps_def)
  have "answered C (n_recv s) (m_id m) xid" if "xid \<in> asked" for xid
  proof -
    have "asked \<noteq> {}" using that by blast
    then have "confirm_all C (trans_name t) m timeout asked u = (Inr True, s')" using rest by simp
    from confirm_all_True [OF this _ that] show ?thesis using al by (simp add: u_def)
  qed
  then show ?thesis using act obs out_u key unfolding asked_def by (metis append.assoc append_Cons append_Nil)
qed

section \<open>Second phases\<close>

lemma pv_put_run:
  "\<exists>b s'. pv_put C pv val s = (Inr b, s') \<and> puts (out s') = puts (out s) @ [(pv, val)] \<and> quiet s s'"
proof -
  have ret: "\<exists>b. fst (pv_put C pv val s) = Inr b"
    by (cases "c_put C (n_put s) pv val")
      (auto simp: pv_put_def eff_simps emit_def report_error_def report_error_json_def now_def)
  obtain r s' where rs: "pv_put C pv val s = (r, s')" by (cases "pv_put C pv val s")
  have "puts (out s') = puts (out s) @ [(pv, val)]"
    using rs by (cases "c_put C (n_put s) pv val")
      (auto simp: pv_put_def eff_simps emit_def report_error_def report_error_json_def now_def puts_append)
  then show ?thesis using rs ret framesD [OF qt.frame_pv_put(1) rs] by auto
qed

lemma pv_put0_run:
  "\<exists>s'. pv_put0 C pv val s = (Inr (), s') \<and> puts (out s') = puts (out s) @ [(pv, val)] \<and> quiet s s'"
  using pv_put_run [of C pv val s] by (auto simp: pv_put0_def eff_simps)

lemma pv_put_each_run:
  "\<exists>s'. pv_put_each C pvs val s = (Inr (), s')
    \<and> puts (out s') = puts (out s) @ map (\<lambda>pv. (pv, val)) pvs \<and> quiet s s'"
proof (induction pvs arbitrary: s)
  case Nil
  then show ?case by (simp add: pv_put_each_def eff_simps qt.R_refl)
next
  case (Cons pv pvs)
  obtain u where u: "pv_put0 C pv val s = (Inr (), u)" "puts (out u) = puts (out s) @ [(pv, val)]" "quiet s u"
    using pv_put0_run by blast
  obtain s' where "pv_put_each C pvs val u = (Inr (), s')"
    "puts (out s') = puts (out u) @ map (\<lambda>pv. (pv, val)) pvs" "quiet u s'"
    using Cons.IH by blast
  then show ?case using u qt.R_trans by (auto simp: pv_put_each_def eff_simps)
qed

definition insert_puts :: "conf \<Rightarrow> mgr \<Rightarrow> int \<Rightarrow> (string \<times> int) list" where
  "insert_puts C s val = map (\<lambda>pv. (pv, val)) (pvListMsgHeader s)
     @ [(pvGroupMsgInsert C, groups s), (pvGroupMsgInsert C, 0)]"

lemma insert_puts_quiet: "quiet s t \<Longrightarrow> insert_puts C t val = insert_puts C s val"
  by (simp add: insert_puts_def quietD)

lemma insert_transition_run:
  "\<exists>s'. insert_transition C val s = (Inr (), s')
    \<and> puts (out s') = puts (out s) @ insert_puts C s val \<and> quiet s s'"
proof -
  obtain u where u: "pv_put_each C (pvListMsgHeader s) val s = (Inr (), u)"
    "puts (out u) = puts (out s) @ map (\<lambda>pv. (pv, val)) (pvListMsgHeader s)" "quiet s u"
    using pv_put_each_run by blast
  obtain v where v: "pv_put0 C (pvGroupMsgInsert C) (groups u) u = (Inr (), v)"
    "puts (out v) = puts (out u) @ [(pvGroupMsgInsert C, groups u)]" "quiet u v"
    using pv_put0_run by blast
  obtain w where w: "pv_put0 C (pvGroupMsgInsert C) 0 v = (Inr (), w)"
    "puts (out w) = puts (out v) @ [(pvGroupMsgInsert C, 0)]" "quiet v w"
    using pv_put0_run by blast
  have "insert_transition C val s = (Inr (), w)"
    using u(1) v(1) w(1) by (simp add: insert_transition_def put_headers_def msg_insert_def eff_simps)
  moreover have "quiet s w" using u(3) v(3) w(3) by (blast intro: qt.R_trans)
  ultimately show ?thesis using u(2) v(2) w(2) by (simp add: insert_puts_def quietD(4) [OF u(3)])
qed

text \<open>Collections of answers put nothing.\<close>

lemma sp_common: "frames same_puts (condition_common C t timeout body)"
proof -
  show ?thesis unfolding condition_common_def
    by (intro sp.talk_guards sp.frame_confirm_all) (simp add: same_puts_def)
qed

lemma group_run_run:
  "\<exists>b s'. group_run C e s = (Inr b, s') \<and> quiet s s'
    \<and> puts (out s') = puts (out s) @ [(if e then pvGroupL0Enable C else pvGroupL0Disable C, groups s)]"
  using pv_put_run [of C "pvGroupL0Enable C" "groups s" s] pv_put_run [of C "pvGroupL0Disable C" "groups s" s]
  by (cases e) (auto simp: group_run_def eff_simps)

text \<open>A phase 1 changes nothing but \<open>phase1Info\<close>, the output and the counters.\<close>

definition calm :: "mgr \<Rightarrow> mgr \<Rightarrow> bool" where
  "calm s t \<longleftrightarrow> (core t)\<lparr>phase1Info := []\<rparr> = (core s)\<lparr>phase1Info := []\<rparr>"

interpretation cm: io_frame calm
  by unfold_locales (simp_all add: calm_def core_def)

lemma quiet_calm: "quiet s t \<Longrightarrow> calm s t"
  by (simp add: quiet_def calm_def)

lemma calmD:
  assumes "calm s t"
  shows "dstate t = dstate s" "cmstate_of t = cmstate_of s" "ids t = ids s" "groups t = groups s"
    "pvListMsgHeader t = pvListMsgHeader s" "readoutCumulative t = readoutCumulative s"
    "run_number t = run_number s" "last_run_number t = last_run_number s"
    "lastTransition t = lastTransition s" "slow_update_enabled t = slow_update_enabled s"
  using assms by (cases s; cases t; simp add: calm_def core_def)+

lemma cm_common: "frames calm (condition_common C t timeout body)"
proof -
  show ?thesis unfolding condition_common_def
    by (intro cm.io_guards cm.frame_confirm_all) (simp add: calm_def core_def)
qed

lemma insert_puts_calm: "calm s t \<Longrightarrow> insert_puts C t val = insert_puts C s val"
  by (simp add: insert_puts_def calmD)

lemma guarded_phase:
  assumes run: "eguard m n s = (Inr True, s')" and quiet: "frames calm m" and sp: "frames same_puts m"
  obtains u where "n u = (Inr True, s')" "calm s u" "puts (out u) = puts (out s)"
proof -
  obtain u where "m s = (Inr True, u)" "n u = (Inr True, s')" using run by (rule eguard_TrueD)
  then show ?thesis using that framesD [OF quiet] framesD [OF sp] by (auto simp: same_puts_def)
qed

lemma phase2_calm: "frames calm (get_phase2_replies C t)" "frames same_puts (get_phase2_replies C t)"
  by (rule cm.frame_phase2, rule sp.frame_phase2)

text \<open>The puts of a disable that succeeds: triggers off first, then the transition.\<close>

lemma condition_disable_puts:
  assumes run: "condition_disable C s = (Inr True, s')"
  shows "puts (out s') = puts (out s) @ (pvGroupL0Disable C, groups s) # insert_puts C s 393"
proof -
  let ?t = "eguard (condition_common C Tr_disable 6000 [])
    (eseq (insert_transition C (0x180 OR transitionId TI_Disable))
    (eguard (get_phase2_replies C Tr_disable) (set_last Tr_disable)))"
  obtain a where a: "group_run C False s = (Inr True, a)"
    and r1: "eseq (ewhen (c_slow_update_rate C \<noteq> 0) (set_slow_update_enabled False)) ?t a = (Inr True, s')"
    using run unfolding condition_disable_def by (rule eguard_TrueD)
  have qa: "quiet s a" "puts (out a) = puts (out s) @ [(pvGroupL0Disable C, groups s)]"
    using group_run_run [of C False s] a by auto
  obtain b where b: "?t b = (Inr True, s')" "out b = out a" "groups b = groups a"
    "pvListMsgHeader b = pvListMsgHeader a"
    using r1 by (rule eseq_InrD) (auto simp: eff_simps set_slow_update_enabled_def split: if_splits)
  obtain c where c: "eseq (insert_transition C (0x180 OR transitionId TI_Disable))
      (eguard (get_phase2_replies C Tr_disable) (set_last Tr_disable)) c = (Inr True, s')"
    "calm b c" "puts (out c) = puts (out b)"
    using guarded_phase [OF b(1) cm_common sp_common] by blast
  obtain d where d: "insert_transition C 393 c = (Inr (), d)" "puts (out d) = puts (out c) @ insert_puts C c 393"
    using insert_transition_run by blast
  have r2: "eguard (get_phase2_replies C Tr_disable) (set_last Tr_disable) d = (Inr True, s')"
    using c(1) d(1) by (simp add: eff_simps)
  obtain e where "set_last Tr_disable e = (Inr True, s')" "puts (out e) = puts (out d)"
    using guarded_phase [OF r2 phase2_calm] by blast
  then have "puts (out s') = puts (out d)" by (auto simp: set_last_def eff_simps)
  moreover have "insert_puts C c 393 = insert_puts C s 393"
    using insert_puts_calm [OF c(2)] b(3,4) quietD [OF qa(1)] by (simp add: insert_puts_def)
  ultimately show ?thesis using d(2) c(3) b(2) qa(2) by simp
qed

text \<open>The puts of an enable: the step, the transition, and last the triggers.\<close>

definition step_puts :: "conf \<Rightarrow> mgr \<Rightarrow> int \<Rightarrow> int \<Rightarrow> (string \<times> int) list" where
  "step_puts C s n g =
     (if 0 < n then [(pvStepEnd C, readoutCumulative s + n), (pvStepGroups C, g), (pvStepDone C, 0)]
      else [(pvStepGroups C, 0)])"

lemma start_step_run:
  assumes "jint c = Inr n" and "jint g = Inr m"
  shows "\<exists>s'. start_step C c g s = (Inr (), s') \<and> puts (out s') = puts (out s) @ step_puts C s n m
    \<and> readoutCumulative s' = readoutCumulative s + max 0 n \<and> groups s' = groups s
    \<and> pvListMsgHeader s' = pvListMsgHeader s \<and> dstate s' = dstate s"
proof (cases "0 < n")
  case True
  define a where "a = s\<lparr>readoutCumulative := readoutCumulative s + n\<rparr>"
  obtain u where u: "pv_put0 C (pvStepEnd C) (readoutCumulative a) a = (Inr (), u)"
    "puts (out u) = puts (out a) @ [(pvStepEnd C, readoutCumulative a)]" "quiet a u"
    using pv_put0_run by blast
  obtain v where v: "pv_put0 C (pvStepGroups C) m u = (Inr (), v)"
    "puts (out v) = puts (out u) @ [(pvStepGroups C, m)]" "quiet u v"
    using pv_put0_run by blast
  obtain w where w: "pv_put0 C (pvStepDone C) 0 v = (Inr (), w)"
    "puts (out w) = puts (out v) @ [(pvStepDone C, 0)]" "quiet v w"
    using pv_put0_run by blast
  have "start_step C c g s = (Inr (), w)"
    using True assms u(1) v(1) w(1) by (simp add: start_step_def eff_simps a_def)
  moreover have "quiet a w" using u(3) v(3) w(3) by (blast intro: qt.R_trans)
  ultimately show ?thesis
    using u(2) v(2) w(2) True quietD [OF \<open>quiet a w\<close>] by (simp add: a_def step_puts_def)
next
  case False
  obtain b u where u: "pv_put C (pvStepGroups C) 0 s = (Inr b, u)"
    "puts (out u) = puts (out s) @ [(pvStepGroups C, 0)]" "quiet s u"
    using pv_put_run by blast
  have "start_step C c g s = (Inr (), u)"
    using False assms u(1) by (simp add: start_step_def no_steps_def step_groups_def eff_simps)
  then show ?thesis using u(2) False quietD [OF u(3)] by (simp add: step_puts_def)
qed

lemma set_last_run: "set_last t s = (Inr True, s\<lparr>lastTransition := t\<rparr>)"
  by (simp add: set_last_def eff_simps)

lemma condition_enable_puts:
  assumes run: "condition_enable C s = (Inr True, s')"
    and info: "step_info C (phase1Info s) = Inr (c, g)" and n: "jint c = Inr n" "jint g = Inr m"
  shows "puts (out s') = puts (out s) @ step_puts C s n m @ insert_puts C s 8 @ [(pvGroupL0Enable C, groups s)]
    \<and> readoutCumulative s' = readoutCumulative s + max 0 n"
proof -
  let ?t2 = "eguard (get_phase2_replies C Tr_enable) (eguard (group_run C True) (set_last Tr_enable))"
  let ?t1 = "eseq (start_step C c g) (eseq (insert_transition C (transitionId TI_Enable)) ?t2)"
  have r0: "eguard (condition_common C Tr_enable 6000 []) ?t1 s = (Inr True, s')"
    using run by (simp add: condition_enable_def info ebind_run elift_run eget_run)
  obtain a where a: "?t1 a = (Inr True, s')" "calm s a" "puts (out a) = puts (out s)"
    using guarded_phase [OF r0 cm_common sp_common] by blast
  obtain b where b: "start_step C c g a = (Inr (), b)" "puts (out b) = puts (out a) @ step_puts C a n m"
    "readoutCumulative b = readoutCumulative a + max 0 n" "groups b = groups a" "pvListMsgHeader b = pvListMsgHeader a"
    using start_step_run [OF n] by blast
  obtain d where d: "insert_transition C (transitionId TI_Enable) b = (Inr (), d)"
    "puts (out d) = puts (out b) @ insert_puts C b (transitionId TI_Enable)" "quiet b d"
    using insert_transition_run by blast
  have r2: "?t2 d = (Inr True, s')" using a(1) b(1) d(1) by (simp add: eff_simps)
  obtain e where e: "eguard (group_run C True) (set_last Tr_enable) e = (Inr True, s')" "calm d e"
    "puts (out e) = puts (out d)"
    using guarded_phase [OF r2 phase2_calm] by blast
  obtain ok f where f: "group_run C True e = (Inr ok, f)" "quiet e f"
    "puts (out f) = puts (out e) @ [(pvGroupL0Enable C, groups e)]"
    using group_run_run [of C True e] by auto
  have "s' = f\<lparr>lastTransition := Tr_enable\<rparr>"
    using e(1) f(1) by (cases ok) (simp_all add: eff_simps set_last_run)
  then show ?thesis
    using a b d(2) e(3) f(3) calmD [OF a(2)] quietD [OF d(3)] calmD [OF e(2)] quietD [OF f(2)]
    by (simp add: step_puts_def insert_puts_def)
qed

section \<open>Phase 2 and error answers\<close>

text \<open>
  A phase-2 collection that meets an error answer first ends at once: the answering client is
  taken off a set that holds only it, so nobody is missing and the phase counts as confirmed.
\<close>

lemma confirm_error_first:
  assumes rs: "c_recv C (n_recv s) = r # rs" and heard: "wait_for_answers i (r_polled r) = m # ms"
    and bad: "is_error_reply m" "m_key m \<notin> set report_keys" and ne: "is \<noteq> {}"
  shows "\<exists>s'. confirm_response C w i is p s = (Inr ({}, [m], []), s') \<and> quiet s s'"
proof -
  obtain res s' where run: "confirm_response C w i is p s = (res, s')" by (cases "confirm_response C w i is p s")
  have more: "confirm_loop C w i p rs ({}, [m], [], True) u = (Inr ({}, [m], [], True), u)" for u
    by (cases rs) (simp_all add: eff_simps)
  have pr: "\<exists>v. (case p of None \<Rightarrow> eret () | Some t \<Rightarrow> progressReport C (r_elapsed r) w t) u = (Inr (), v)" for u
    by (cases p) (auto simp: progressReport_def now_def emit_def eff_simps)
  have "res = Inr ({}, [m], [])"
    using run rs heard bad ne pr [of "s\<lparr>n_recv := Suc (n_recv s)\<rparr>"] more
    by (auto simp: confirm_response_def next_rounds_def eff_simps Let_def)
  then show ?thesis using run framesD [OF qt.frame_confirm_response run] by blast
qed

lemma phase2_error_confirmed:
  assumes act: "filter_active_set (cmstate_of s) (ids s) = Inr act" and ne: "phase2_levels (cmstate_of s) act \<noteq> {}"
    and rs: "c_recv C (n_recv s) = r # rs" and heard: "wait_for_answers None (r_polled r) = m # ms"
    and bad: "is_error_reply m" "m_key m \<notin> set report_keys"
  shows "fst (get_phase2_replies C t s) = Inr True"
  using confirm_error_first [OF rs heard bad ne, of "c_phase2_timeout C" "Some (trans_name t @ '' phase 2'')"]
  by (auto simp: get_phase2_replies_def eff_simps active_ids_run act process_reports_def)

section \<open>alloc\<close>

text \<open>\<open>enumerate\<close> and the numbers it gives the nodes of a level.\<close>

lemma map_cm_run:
  "map_cm f s = (case f (cmstate_of s) of Inl e \<Rightarrow> (Inl e, s) | Inr cm \<Rightarrow> (Inr (), s\<lparr>cmstate_of := cm\<rparr>))"
  by (simp add: map_cm_def split: sum.splits)

lemma cm_update_Inr:
  assumes "map_of cm level = Some cs" and "map_of cs xid = Some it"
  shows "cm_update cm level xid f = Inr (AList.update level (AList.update xid (f it) cs) cm)"
  using assms by (simp add: cm_update_def)

lemma number_nodes_run:
  assumes "map_of (cmstate_of s) level = Some cs" and "set (map fst nodes) \<subseteq> dom (map_of cs)"
    and "distinct (map fst nodes)"
  shows "\<exists>cm cs'. number_nodes level key nodes s = (Inr (), s\<lparr>cmstate_of := cm\<rparr>)
    \<and> map_of cm level = Some cs' \<and> (\<forall>l. l \<noteq> level \<longrightarrow> map_of cm l = map_of (cmstate_of s) l)
    \<and> (\<forall>i<length nodes. map_of cs' (fst (nodes ! i)) =
         map_option (AList.update key (JInt (int i))) (map_of cs (fst (nodes ! i))))
    \<and> (\<forall>xid. xid \<notin> set (map fst nodes) \<longrightarrow> map_of cs' xid = map_of cs xid)"
proof -
  let ?step = "\<lambda>(i, node). map_cm (\<lambda>cm. cm_update cm level node (AList.update key (JInt (int i))))"
  have "\<exists>cm cs'. efor ?step (enumerate k ns) s = (Inr (), s\<lparr>cmstate_of := cm\<rparr>)
      \<and> map_of cm level = Some cs' \<and> (\<forall>l. l \<noteq> level \<longrightarrow> map_of cm l = map_of (cmstate_of s) l)
      \<and> (\<forall>i<length ns. map_of cs' (ns ! i) = map_option (AList.update key (JInt (int (k + i)))) (map_of cs (ns ! i)))
      \<and> (\<forall>xid. xid \<notin> set ns \<longrightarrow> map_of cs' xid = map_of cs xid)"
    if "map_of (cmstate_of s) level = Some cs" "set ns \<subseteq> dom (map_of cs)" "distinct ns" for k ns s cs
    using that
  proof (induction ns arbitrary: k s cs)
    case Nil
    then show ?case by (intro exI [of _ "cmstate_of s"] exI [of _ cs]) (simp add: eff_simps)
  next
    case (Cons x xs)
    obtain it where it: "map_of cs x = Some it" using Cons.prems(2) by auto
    define cs1 where "cs1 = AList.update x (AList.update key (JInt (int k)) it) cs"
    define s1 where "s1 = s\<lparr>cmstate_of := AList.update level cs1 (cmstate_of s)\<rparr>"
    have m1: "map_of cs1 = (map_of cs)(x \<mapsto> AList.update key (JInt (int k)) it)"
      by (simp add: cs1_def update_conv')
    have c1: "map_of (cmstate_of s1) = (map_of (cmstate_of s))(level \<mapsto> cs1)"
      by (simp add: s1_def update_conv')
    have pre: "map_of (cmstate_of s1) level = Some cs1" "set xs \<subseteq> dom (map_of cs1)" "distinct xs"
      using Cons.prems by (auto simp: m1 c1)
    obtain cm cs' where IH: "efor ?step (enumerate (Suc k) xs) s1 = (Inr (), s1\<lparr>cmstate_of := cm\<rparr>)"
      "map_of cm level = Some cs'" "\<forall>l. l \<noteq> level \<longrightarrow> map_of cm l = map_of (cmstate_of s1) l"
      "\<forall>i<length xs. map_of cs' (xs ! i) = map_option (AList.update key (JInt (int (Suc k + i)))) (map_of cs1 (xs ! i))"
      "\<forall>xid. xid \<notin> set xs \<longrightarrow> map_of cs' xid = map_of cs1 xid"
      using Cons.IH [OF pre, of "Suc k"] by blast
    have run: "efor ?step (enumerate k (x # xs)) s = (Inr (), s\<lparr>cmstate_of := cm\<rparr>)"
      using IH(1) Cons.prems(1) it by (simp add: eff_simps map_cm_run cm_update_def cs1_def s1_def)
    have nth: "\<forall>i<length (x # xs). map_of cs' ((x # xs) ! i) =
        map_option (AList.update key (JInt (int (k + i)))) (map_of cs ((x # xs) ! i))"
    proof (intro allI impI)
      fix i assume "i < length (x # xs)"
      then show "map_of cs' ((x # xs) ! i) = map_option (AList.update key (JInt (int (k + i)))) (map_of cs ((x # xs) ! i))"
        using IH(4,5) m1 it Cons.prems(3) by (cases i) (auto simp: nth_mem)
    qed
    have "map_of cs' xid = map_of cs xid" if "xid \<notin> set (x # xs)" for xid
      using IH(5) m1 that by simp
    moreover have "map_of cm l = map_of (cmstate_of s) l" if "l \<noteq> level" for l
      using IH(3) c1 that by simp
    ultimately show ?case using run IH(2) nth by blast
  qed
  from this [of s cs "map fst nodes" 0] assms show ?thesis by (simp add: number_nodes_def)
qed

end
