(* ===== verification/Samples.thy ===== *)
theory Samples
  imports ConditionFacts
begin

text \<open>
  A concrete control process on which the properties are exercised: platform 0 with two clients,
  a readout process and an event builder, that answer every message; a logbook that never
  answers; PVs that take every value.
\<close>

definition reply_of :: "int \<Rightarrow> string \<Rightarrow> msg" where
  "reply_of xid i = \<lparr>m_key = ''ok'', m_id = i, m_sender = Some xid, m_body = JDict []\<rparr>"

definition conf0 :: "(nat \<Rightarrow> round list) \<Rightarrow> conf" where
  "conf0 recv =
     \<lparr>c_platform = 0, c_alias = ''BEAM'', c_cfg_dbase = ''db'', c_trigger_config = ''tmo'', c_xpm_master = 2,
      c_pv_base = ''DAQ'', c_slow_update_rate = 1, c_phase2_timeout = 7500, c_rollcall_timeout = 30,
      c_activedetfilename = ''ad.json'', c_instrument = ''TMO'', c_station = 0, c_url = ''u/'', c_user = ''opr'',
      c_logbook_path = ''f.txt'', c_hostname = ''h'', c_pid = 7, c_clock = (\<lambda>n. (631152000 + int n, 0)),
      c_put = (\<lambda>n pv v. PutOk), c_recv = recv, c_http = (\<lambda>n. HttpRaise True ''down''),
      c_pv_get = (\<lambda>n pvs. []), c_caget = (\<lambda>n pvs. []), c_text_files = [], c_can_write = (\<lambda>f. True),
      c_parse_text = JDoc, c_getSelect = (\<lambda>n d. None)\<rparr>"

definition client0 :: "string \<Rightarrow> item" where
  "client0 al = [(''proc_info'', JDict [(''alias'', JStr al)]), (''active'', JInt 1)]"

definition cm0 :: cmstate where
  "cm0 = [(''drp'', [(11, client0 ''cam_0'')]), (''teb'', [(12, client0 ''teb0'')])]"

text \<open>A process that is idle, and one that has paused a run.\<close>

definition idle0 :: mgr where
  "idle0 =
     \<lparr>dstate = St_reset, cmstate_of = [], ids = {}, history = JDict [], phase1Info = [], groups = 0,
      config_alias = ''BEAM'', lastTransition = Tr_reset, recording = False, bypass_activedet = False,
      slow_update_enabled = False, experiment_name = None, run_number = Some 0, last_run_number = Some 0,
      readoutCumulative = 0, step_done = False, pvListMsgHeader = [], pvListXPM = [], pvListL0Groups = None,
      rp_fileSet = [], rp_pvaList = [], rp_caList = [], rp_recordedExperiments = None, jfiles = (\<lambda>f. None),
      out = [], n_clock = 0, n_put = 0, n_recv = 0, n_http = 0, n_get = 0, front_pending = False,
      fast_pending = False\<rparr>"

definition paused0 :: mgr where
  "paused0 = idle0\<lparr>dstate := St_paused, cmstate_of := cm0, ids := {11, 12}, groups := 1,
      pvListMsgHeader := [''DAQ:XPM:2:PART:0:MsgHeader''], readoutCumulative := 5,
      phase1Info := [(''enable'', JDict [(''readout_count'', JInt 3), (''group_mask'', JInt 1)])]\<rparr>"

text \<open>Every client answers every message in the first round of its poll.\<close>

definition stamp0 :: string where
  "stamp0 = ''0000000000-000000000''"

definition answers0 :: "string \<Rightarrow> nat \<Rightarrow> round list" where
  "answers0 i n = [\<lparr>r_elapsed = 10, r_polled = [Got (reply_of 11 i), Got (reply_of 12 i)]\<rparr>]"

definition conf1 :: conf where
  "conf1 = conf0 (answers0 stamp0)"

definition started1 :: mgr where
  "started1 = snd (startup conf1 (init_mgr conf1 ''BEAM'' (\<lambda>f. None)))"

text \<open>A readout process that answers the first message with an error of its own key.\<close>

definition conf2 :: conf where
  "conf2 = conf0 (\<lambda>n. [\<lparr>r_elapsed = 10, r_polled =
     [Got \<lparr>m_key = ''enable'', m_id = ''x'', m_sender = Some 11, m_body = JDict [(''err_info'', JStr ''damage'')]\<rparr>]\<rparr>])"

definition request0 :: "string \<Rightarrow> msg" where
  "request0 key = \<lparr>m_key = key, m_id = ''x'', m_sender = None, m_body = JNull\<rparr>"

lemma run_eq: "fst (m s) = r \<Longrightarrow> m s = (r, snd (m s))"
  by (simp add: prod_eq_iff)

definition process1 :: process where
  "process1 = \<lparr>pr_mgr = started1, pr_main = True, pr_fast = True\<rparr>"

lemma process1: "reachable conf1 std_trig process1"
  unfolding process1_def started1_def by (rule reachable.start, rule run_eq) code_simp

text \<open>The process after a request for a block without its arguments: the thread of the fast socket has ended.\<close>

definition process2 :: process where
  "process2 = the (process_step conf1 std_trig (FastReq \<lparr>m_key = ''getblock'', m_id = ''x'', m_sender = None, m_body = JDict []\<rparr>) process1)"

lemma process2: "reachable conf1 std_trig process2" "\<not> pr_fast process2" "pr_main process2"
proof -
  let ?ev = "FastReq \<lparr>m_key = ''getblock'', m_id = ''x'', m_sender = None, m_body = JDict []\<rparr>"
  have step: "process_step conf1 std_trig ?ev process1 = Some process2"
    unfolding process2_def process1_def by (simp add: process_step_def fast_reply_func_def split: prod.splits)
  show "reachable conf1 std_trig process2" using process1 step by (rule reachable.step)
  have "isl (fst (service_fast conf1 \<lparr>m_key = ''getblock'', m_id = ''x'', m_sender = None, m_body = JDict []\<rparr> (started1\<lparr>fast_pending := True\<rparr>)))"
    by (simp add: service_fast_def handle_getblock_def getblock_names_def on_key_error_def eff_simps split_on.simps)
  then show "\<not> pr_fast process2" "pr_main process2"
    using step
    by (auto simp: process1_def process_step_def fast_reply_func_def split: prod.splits
        dest: arg_cong [of _ _ pr_fast] arg_cong [of _ _ pr_main])
qed

end
