(* ===== verification/RollcallFacts.thy ===== *)
theory RollcallFacts
  imports RequestFacts
begin

text \<open>
  What a rollcall that returns leaves: every client has its \<open>active\<close> flag, so the choice of
  the active clients cannot fail, the control process is among the clients, and the levels and
  clients are dicts (no key occurs twice).
\<close>

section \<open>The clients after a rollcall\<close>

definition wf_cm :: "cmstate \<Rightarrow> bool" where
  "wf_cm cm \<longleftrightarrow> distinct (map fst cm) \<and> (\<forall>(level, cs)\<in>set cm. distinct (map fst cs))"

definition flags_but :: "(string \<Rightarrow> int \<Rightarrow> bool) \<Rightarrow> cmstate \<Rightarrow> bool" where
  "flags_but ex cm \<longleftrightarrow> (\<forall>level cs xid it. map_of cm level = Some cs \<longrightarrow> map_of cs xid = Some it \<longrightarrow>
     \<not> ex level xid \<longrightarrow> map_of it ''active'' \<noteq> None \<and> map_of it ''hidden'' \<noteq> None)"

definition flags_ok :: "cmstate \<Rightarrow> bool" where
  "flags_ok cm \<longleftrightarrow> wf_cm cm \<and> flags_but (\<lambda>_ _. False) cm"

definition flags_ok_but :: "string \<Rightarrow> int \<Rightarrow> cmstate \<Rightarrow> bool" where
  "flags_ok_but level xid cm \<longleftrightarrow> wf_cm cm \<and> flags_but (\<lambda>l i. l = level \<and> i = xid) cm
     \<and> (\<exists>cs it. map_of cm level = Some cs \<and> map_of cs xid = Some it \<and> map_of it ''hidden'' \<noteq> None)"

lemma wf_update:
  assumes "wf_cm cm" and "distinct (map fst cs)"
  shows "wf_cm (AList.update level cs cm)"
proof -
  have "set (AList.update level cs cm) \<subseteq> insert (level, cs) (set cm)"
    by (induction cm) auto
  then show ?thesis using assms by (auto simp: wf_cm_def distinct_update)
qed

lemma wf_clients: "wf_cm cm \<Longrightarrow> map_of cm level = Some cs \<Longrightarrow> distinct (map fst cs)"
  by (auto simp: wf_cm_def dest: map_of_SomeD)

lemma flags_ok_store:
  assumes "flags_ok cm" and "map_of it ''hidden'' \<noteq> None"
  shows "flags_ok_but level xid (cm_store level xid it cm)"
proof -
  let ?cs = "case map_of cm level of None \<Rightarrow> [] | Some cs \<Rightarrow> cs"
  have "distinct (map fst ?cs)" using assms(1) wf_clients by (auto simp: flags_ok_def split: option.splits)
  then have "wf_cm (cm_store level xid it cm)"
    using assms(1) unfolding cm_store_def by (intro wf_update) (auto simp: flags_ok_def distinct_update)
  moreover have "flags_but (\<lambda>l i. l = level \<and> i = xid) (cm_store level xid it cm)"
    using assms(1) by (auto simp: flags_ok_def flags_but_def cm_store_def update_conv' split: if_splits option.splits)
  ultimately show ?thesis
    using assms(2) by (simp add: flags_ok_but_def cm_store_def update_conv')
qed

lemma flags_ok_set:
  assumes "flags_ok cm" and "cm_update cm level xid (AList.update key v) = Inr cm'"
  shows "flags_ok cm'"
proof -
  obtain cs it where c: "map_of cm level = Some cs" "map_of cs xid = Some it"
    "cm' = AList.update level (AList.update xid (AList.update key v it) cs) cm"
    using assms(2) by (auto simp: cm_update_def split: option.splits)
  have "wf_cm cm'"
    using assms(1) wf_clients [OF _ c(1)] unfolding c(3)
    by (intro wf_update) (auto simp: flags_ok_def distinct_update)
  moreover have "flags_but (\<lambda>_ _. False) cm'"
    using assms(1) c by (auto simp: flags_ok_def flags_but_def update_conv' split: if_splits)
  ultimately show ?thesis by (simp add: flags_ok_def)
qed

lemma flags_ok_active:
  assumes "flags_ok_but level xid cm" and "cm_update cm level xid (AList.update ''active'' v) = Inr cm'"
  shows "flags_ok cm'"
proof -
  obtain cs it where c: "map_of cm level = Some cs" "map_of cs xid = Some it"
    "cm' = AList.update level (AList.update xid (AList.update ''active'' v it) cs) cm"
    using assms(2) by (auto simp: cm_update_def split: option.splits)
  have "wf_cm cm'"
    using assms(1) wf_clients [OF _ c(1)] unfolding c(3)
    by (intro wf_update) (auto simp: flags_ok_but_def distinct_update)
  moreover have "flags_but (\<lambda>_ _. False) cm'"
    using assms(1) c by (auto simp: flags_ok_but_def flags_but_def update_conv' split: if_splits)
  ultimately show ?thesis by (simp add: flags_ok_def)
qed

section \<open>The loop keeps the flags\<close>

abbreviation flagged_s :: "mgr \<Rightarrow> bool" where
  "flagged_s s \<equiv> flags_ok (cmstate_of s)"

abbreviation flagged_but_s :: "string \<Rightarrow> int \<Rightarrow> mgr \<Rightarrow> bool" where
  "flagged_but_s level xid s \<equiv> flags_ok_but level xid (cmstate_of s)"

lemma quiet_flagged: "frames quiet m \<Longrightarrow> ensures flagged_s m flagged_s"
  by (erule ensures_frame) (simp add: quietD(2))

lemma ensures_set_field: "ensures flagged_s (set_field level xid key v) flagged_s"
  unfolding ensures_def set_field_def
  by (auto simp: map_cm_def dest: flags_ok_set split: sum.splits)

lemma ensures_set_active: "ensures (flagged_but_s level xid) (set_field level xid ''active'' v) flagged_s"
  unfolding ensures_def set_field_def
  by (auto simp: map_cm_def dest: flags_ok_active split: sum.splits)

lemma ensures_warning: "ensures flagged_s (report_warning C t) flagged_s"
  by (intro quiet_flagged qt.frame_reports)

lemma ensures_active_then:
  "ensures flagged_s n flagged_s \<Longrightarrow>
    ensures (flagged_but_s level xid) (eseq (set_field level xid ''active'' v) n) flagged_s"
  by (rule ensures_seq [OF ensures_set_active])

lemma ensures_flag_client: "ensures (flagged_but_s level xid) (flag_client C J level al xid new) flagged_s"
  unfolding flag_client_def
  by (intro ensures_read ensures_if ensures_active_then ensures_set_active ensures_when ensures_inv
      ensures_warning ensures_set_field ensures_pure)

lemma ensures_rollcall_item:
  "ensures flagged_s (rollcall_item C A J missing m p newfound) flagged_s"
proof -
  have store: "ensures flagged_s
      (eseq (emod (\<lambda>s. s\<lparr>cmstate_of := cm_store level xid (AList.update ''hidden'' h it) (cmstate_of s)\<rparr>))
            (eseq (flag_client C J level al xid new) n)) flagged_s"
    if "ensures flagged_s n flagged_s" for level xid h it al new and n :: "string list act"
  proof (rule ensures_seq)
    show "ensures flagged_s (emod (\<lambda>s. s\<lparr>cmstate_of := cm_store level xid (AList.update ''hidden'' h it) (cmstate_of s)\<rparr>))
        (flagged_but_s level xid)"
      by (rule ensures_mod) (auto intro: flags_ok_store simp: update_conv')
  qed (rule ensures_seq [OF ensures_flag_client that])
  have addid: "ensures flagged_s (emod (\<lambda>s. s\<lparr>ids := insert xid (ids s)\<rparr>)) flagged_s" for xid
    by (rule ensures_mod) simp
  show ?thesis
    by (cases p; cases "m_sender m")
      (auto simp: rollcall_item_def Let_def intro!: ensures_read ensures_pure ensures_if store ensures_inv addid)
qed

lemma ensures_rollcall_loop:
  "ensures flagged_s (rollcall_loop C A J m rs missing newfound) flagged_s"
proof (induction rs arbitrary: missing newfound)
  case Nil
  then show ?case by (simp add: ensures_pure)
next
  case (Cons r rs)
  have emit: "ensures flagged_s (emit (BackPub ''all'' m)) flagged_s"
    by (intro quiet_flagged qt.frame_emit)
  have prog: "ensures flagged_s (progressReport C a b t) flagged_s" for a b t
    by (intro quiet_flagged qt.frame_reports)
  have rep: "ensures flagged_s (process_reports C no_chunk ms) flagged_s" for ms
    by (intro quiet_flagged qt.frame_no_chunk)
  have answer: "ensures flagged_s (rollcall_answer C A J missing x y) flagged_s" for x y
    unfolding rollcall_answer_def
    by (intro ensures_if ensures_read ensures_inv ensures_fold ensures_rollcall_item rep ensures_pure)
  show ?case unfolding rollcall_loop.simps
    by (intro ensures_inv(2) [OF emit] ensures_inv(1) [OF ensures_fold [OF answer]] ensures_read ensures_if
        ensures_pure ensures_inv(2) [OF prog] Cons.IH)
qed

lemma flags_ok_control: "flags_ok cm \<Longrightarrow> flags_ok (add_control_info C cm)"
proof -
  assume ok: "flags_ok cm"
  have "flags_but (\<lambda>_ _. False) (cm_store ''control'' 0 (control_item C) cm)" if "map_of cm ''control'' = None"
    using ok that by (auto simp: flags_ok_def flags_but_def cm_store_def update_conv' control_item_def split: if_splits)
  moreover have "wf_cm (cm_store ''control'' 0 (control_item C) cm)" if "map_of cm ''control'' = None"
    using ok that unfolding cm_store_def by (intro wf_update) (auto simp: flags_ok_def)
  ultimately show ?thesis using ok by (auto simp: add_control_info_def flags_ok_def)
qed

lemma has_control: "map_of (add_control_info C cm) ''control'' \<noteq> None"
  by (simp add: add_control_info_def cm_store_def update_conv')

text \<open>A rollcall that returns allows the transition and leaves flagged clients.\<close>

lemma condition_rollcall_ok:
  assumes run: "condition_rollcall C s = (Inr ok, s')"
  shows "ok \<and> lastTransition s' = Tr_rollcall \<and> flags_ok (cmstate_of s')
    \<and> map_of (cmstate_of s') ''control'' \<noteq> None"
proof -
  let ?last = "\<lambda>missing dups. eseq (efor (\<lambda>d. report_error C (''duplicate alias responded to rollcall: '' @ d)) dups)
    (eseq (efor (\<lambda>c. report_warning C (c @ '' did not respond to rollcall'')) missing)
    (eseq (emod (\<lambda>s. s\<lparr>lastTransition := Tr_rollcall, cmstate_of := add_control_info C (cmstate_of s)\<rparr>))
          (eret True)))"
  let ?fin = "\<lambda>s'. lastTransition s' = Tr_rollcall \<and> flags_ok (cmstate_of s')
      \<and> map_of (cmstate_of s') ''control'' \<noteq> None"
  have fin: "ensures flagged_s (emod (\<lambda>s. s\<lparr>lastTransition := Tr_rollcall, cmstate_of := add_control_info C (cmstate_of s)\<rparr>)) ?fin"
    by (rule ensures_mod) (simp add: flags_ok_control has_control del: not_None_eq)
  have reports: "ensures flagged_s (efor (\<lambda>d. report_error C (t @ d)) ds) flagged_s"
    "ensures flagged_s (efor (\<lambda>c. report_warning C (c @ t)) ds) flagged_s" for t ds
    by (intro ensures_for quiet_flagged qt.frame_reports)+
  have last: "ensures flagged_s (?last missing dups) ?fin" for missing dups
    by (intro ensures_seq [OF reports(1)] ensures_seq [OF reports(2)] ensures_seq [OF fin] ensures_pure)
  have clear: "ensures (\<lambda>_. True) (emod (\<lambda>s. s\<lparr>cmstate_of := [], ids := {}\<rparr>)) flagged_s"
    by (rule ensures_mod) (simp add: flags_ok_def wf_cm_def flags_but_def)
  have any: "ensures (\<lambda>_. True) m (\<lambda>_. True)" for m :: "'x act" by (simp add: ensures_def)
  have any2: "ensures (\<lambda>_. True) (required_clients C) (\<lambda>_. True)" "ensures (\<lambda>_. True) (check_activedet_file C) (\<lambda>_. True)"
    by (simp_all add: ensures_def)
  have nr: "ensures flagged_s (next_rounds C) flagged_s"
    unfolding next_rounds_def by (intro quiet_flagged qt.io_guards)
  have nm: "ensures flagged_s (new_msg C k b) flagged_s" for k b
    by (intro quiet_flagged qt.frame_new_msg)
  have all: "ensures (\<lambda>_. True) (condition_rollcall C) ?fin"
    unfolding condition_rollcall_def
    by (intro ensures_seq [OF any2(2)] ensures_bind [OF any2(1)], split prod.split,
        intro allI impI ensures_seq [OF clear] ensures_bind [OF nm] ensures_bind [OF nr]
        ensures_bind [OF ensures_rollcall_loop] ensures_read last)
  have "yields (\<lambda>x. x) (condition_rollcall C)"
    unfolding condition_rollcall_def by (auto intro!: yields_rules split: prod.split)
  then have "ok" using run by (rule yieldsD)
  then show ?thesis using ensuresD [OF all _ run] by simp
qed

text \<open>With the flags there the choice of the active clients cannot raise.\<close>

lemma active_clients_total:
  "(\<And>xid it. (xid, it) \<in> set cs \<Longrightarrow> map_of it ''active'' \<noteq> None) \<Longrightarrow> \<exists>r. active_clients cs = Inr r"
proof (induction cs)
  case (Cons c cs)
  obtain xid it where c: "c = (xid, it)" by (cases c)
  obtain r where "active_clients cs = Inr r" using Cons by fastforce
  then show ?case using Cons.prems [of xid it] c by (auto simp: active_flag_def)
qed simp

lemma filter_active_levels_total:
  "(\<And>level cs xid it. (level, cs) \<in> set cm \<Longrightarrow> (xid, it) \<in> set cs \<Longrightarrow> map_of it ''active'' \<noteq> None) \<Longrightarrow>
    \<exists>r. filter_active_levels cm = Inr r"
proof (induction cm)
  case (Cons c cm)
  obtain level cs where c: "c = (level, cs)" by (cases c)
  obtain r where "filter_active_levels cm = Inr r" using Cons by fastforce
  moreover obtain q where "active_clients cs = Inr q"
    using active_clients_total [of cs] Cons.prems c by fastforce
  ultimately show ?case using c by simp
qed simp

lemma flags_ok_active_set:
  assumes "flags_ok cm"
  shows "\<exists>act. filter_active_set cm is = Inr act"
proof -
  have "map_of it ''active'' \<noteq> None"
    if "(level, cs) \<in> set (cmstate_levels cm)" "(xid, it) \<in> set cs" for level cs xid it
  proof -
    have m: "(level, cs) \<in> set cm" using that(1) by (simp add: cmstate_levels_def)
    then have "map_of cm level = Some cs" "map_of cs xid = Some it"
      using assms that(2) by (auto simp: flags_ok_def wf_cm_def)
    then show ?thesis using assms by (simp add: flags_ok_def flags_but_def)
  qed
  then obtain r where "filter_active_levels (cmstate_levels cm) = Inr r"
    using filter_active_levels_total by metis
  then show ?thesis by (simp add: filter_active_set_def)
qed

end
