(* ===== verification/ParamFacts.thy ===== *)
theory ParamFacts
  imports RunParams ActiveDet
begin

text \<open>
  The run-parameter files and the active-detector file: the include search finds exactly the files
  reachable from the first one, the comma-separated segments read back as the set they were made
  of, and the active-detector file written by \<open>alloc\<close> reads back as the clients' flags.
\<close>

section \<open>The include search\<close>

definition inc_rel :: "conf \<Rightarrow> (string \<times> string) set" where
  "inc_rel C = {(f, g). g \<in> set (file_includes C f)}"

lemma collect_files_step:
  "collect_files C fs b =
     (let nf = filter (\<lambda>f. f \<notin> set fs \<and> f \<notin> set b) (updateFileSet C b)
      in if nf = [] then List.union fs b else collect_files C (List.union fs b) nf)"
  by (subst collect_files.simps) (simp add: Let_def)

lemma collect_files_closed:
  assumes "\<And>f g. f \<in> set fs \<Longrightarrow> (f, g) \<in> inc_rel C \<Longrightarrow> g \<in> set fs \<union> set b"
  shows "set fs \<union> set b \<subseteq> set (collect_files C fs b)
    \<and> inc_rel C `` set (collect_files C fs b) \<subseteq> set (collect_files C fs b)"
  using assms
proof (induction C fs b rule: collect_files.induct)
  case (1 C fs b)
  define nf where "nf = filter (\<lambda>f. f \<notin> set fs \<and> f \<notin> set b) (updateFileSet C b)"
  have nf: "set nf = (set b \<union> inc_rel C `` set b) - (set fs \<union> set b)"
    by (auto simp: nf_def set_updateFileSet inc_rel_def)
  show ?case
  proof (cases "nf = []")
    case True
    then have "collect_files C fs b = List.union fs b"
      by (subst collect_files_step) (simp add: nf_def [symmetric])
    moreover have "inc_rel C `` set b \<subseteq> set fs \<union> set b" using True nf by auto
    ultimately show ?thesis using 1(2) by auto
  next
    case False
    then have eq: "collect_files C fs b = collect_files C (List.union fs b) nf"
      by (subst collect_files_step) (simp add: nf_def [symmetric])
    have "set (List.union fs b) \<union> set nf \<subseteq> set (collect_files C (List.union fs b) nf)
      \<and> inc_rel C `` set (collect_files C (List.union fs b) nf) \<subseteq> set (collect_files C (List.union fs b) nf)"
    proof (rule 1(1) [OF refl refl])
      show "nf = filter (\<lambda>f. f \<notin> set (List.union fs b)) (updateFileSet C b)" by (simp add: nf_def)
      show "0 < length nf" using False by simp
      fix f g assume "f \<in> set (List.union fs b)" "(f, g) \<in> inc_rel C"
      then show "g \<in> set (List.union fs b) \<union> set nf" using 1(2) nf by auto
    qed
    then show ?thesis unfolding eq by auto
  qed
qed

lemma collect_files_least:
  assumes "set fs \<union> set b \<subseteq> S" and "inc_rel C `` S \<subseteq> S"
  shows "set (collect_files C fs b) \<subseteq> S"
  using assms
proof (induction C fs b rule: collect_files.induct)
  case (1 C fs b)
  define nf where "nf = filter (\<lambda>f. f \<notin> set fs \<and> f \<notin> set b) (updateFileSet C b)"
  have nf: "set nf \<subseteq> set b \<union> inc_rel C `` set b"
    by (auto simp: nf_def set_updateFileSet inc_rel_def)
  show ?case
  proof (cases "nf = []")
    case True
    then show ?thesis using 1(2) by (subst collect_files_step) (simp add: nf_def [symmetric])
  next
    case False
    then have eq: "collect_files C fs b = collect_files C (List.union fs b) nf"
      by (subst collect_files_step) (simp add: nf_def [symmetric])
    have "set (collect_files C (List.union fs b) nf) \<subseteq> S"
    proof (rule 1(1) [OF refl refl])
      show "nf = filter (\<lambda>f. f \<notin> set (List.union fs b)) (updateFileSet C b)" by (simp add: nf_def)
      show "0 < length nf" using False by simp
      have "inc_rel C `` set b \<subseteq> inc_rel C `` S" using 1(2) by (intro Image_mono) auto
      then have "set b \<union> inc_rel C `` set b \<subseteq> S" using 1(2,3) by simp
      then have "set nf \<subseteq> S" using nf by (rule order_trans [rotated])
      then show "set (List.union fs b) \<union> set nf \<subseteq> S" using 1(2) by simp
      show "inc_rel C `` S \<subseteq> S" by (rule 1(3))
    qed
    then show ?thesis unfolding eq .
  qed
qed

lemma collect_files_reachable: "set (collect_files C [] [p]) = (inc_rel C)\<^sup>* `` {p}"
proof
  have "inc_rel C `` ((inc_rel C)\<^sup>* `` {p}) \<subseteq> (inc_rel C)\<^sup>* `` {p}"
    by (auto intro: rtrancl.rtrancl_into_rtrancl)
  then show "set (collect_files C [] [p]) \<subseteq> (inc_rel C)\<^sup>* `` {p}"
    by (intro collect_files_least) auto
next
  have closed: "{p} \<subseteq> set (collect_files C [] [p])"
    "inc_rel C `` set (collect_files C [] [p]) \<subseteq> set (collect_files C [] [p])"
    using collect_files_closed [of "[]" C "[p]"] by auto
  have "f \<in> set (collect_files C [] [p])" if "(p, f) \<in> (inc_rel C)\<^sup>*" for f
    using that by (induction rule: rtrancl_induct) (use closed in auto)
  then show "(inc_rel C)\<^sup>* `` {p} \<subseteq> set (collect_files C [] [p])" by auto
qed

section \<open>Segments\<close>

lemma nat_str_nonempty: "nat_str n \<noteq> []"
  using nat_str_isnumeric [of n] by (simp add: isnumeric_def)

lemma nat_str_no_comma: "CHR '','' \<notin> set (nat_str n)"
  using nat_str_isnumeric [of n] by (auto simp: isnumeric_def list_all_iff is_digit_def)

lemma join_append:
  "xs \<noteq> [] \<Longrightarrow> join_with sep (xs @ [y]) = join_with sep xs @ sep @ y"
  by (induction xs rule: induct_list012) auto

lemma csv_append_join:
  assumes "pre \<noteq> []"
  shows "csv_append (join_with '','' (map nat_str pre)) es = join_with '','' (map nat_str (pre @ es))"
  using assms
proof (induction es arbitrary: pre)
  case Nil
  then show ?case by simp
next
  case (Cons e es)
  have "join_with '','' (map nat_str pre) \<noteq> []"
    using Cons.prems nat_str_nonempty by (cases pre; cases "tl pre") auto
  then have "csv_append (join_with '','' (map nat_str pre)) (e # es)
      = csv_append (join_with '','' (map nat_str (pre @ [e]))) es"
    using Cons.prems by (simp add: join_append)
  also have "\<dots> = join_with '','' (map nat_str ((pre @ [e]) @ es))" by (rule Cons.IH) simp
  finally show ?case by simp
qed

lemma set2csv_join: "set2csv S = join_with '','' (map nat_str (sorted_list_of_set S))"
proof (cases "sorted_list_of_set S")
  case Nil
  then show ?thesis by (simp add: set2csv_def)
next
  case (Cons e es)
  have "csv_append '''' (e # es) = csv_append (join_with '','' (map nat_str [e])) es" by simp
  also have "\<dots> = join_with '','' (map nat_str ([e] @ es))" by (rule csv_append_join) simp
  finally show ?thesis using Cons by (simp add: set2csv_def)
qed

lemma set2csv_roundtrip:
  assumes "finite S" and "S \<noteq> {}"
  shows "map digits_val (split_on (CHR '','') (set2csv S)) = sorted_list_of_set S"
proof -
  have "sorted_list_of_set S \<noteq> []" using assms by simp
  then have "split_on (CHR '','') (set2csv S) = map nat_str (sorted_list_of_set S)"
    unfolding set2csv_join using nat_str_no_comma by (intro split_on_join) auto
  then show ?thesis by (simp add: digits_val_nat_str comp_def)
qed

section \<open>The active-detector file read back\<close>

definition entries_of :: "clients \<Rightarrow> pyexc + (string \<times> json) list" where
  "entries_of cs = smap (\<lambda>c. client_entry (snd c)) cs"

definition named_flag :: "bool \<Rightarrow> string \<Rightarrow> clients \<Rightarrow> string set" where
  "named_flag b level cs = {client_name level al | al xid it v.
     (xid, it) \<in> set cs \<and> proc_alias it = Inr al \<and> dict_get it ''active'' = Inr v \<and> truthy v = b}"

lemma entries_flagged:
  assumes "entries_of cs = Inr es"
  shows "flagged b level es = named_flag b level cs" and "\<forall>p\<in>set es. flag_of (snd p) \<noteq> None"
proof -
  have both: "flagged b level es = named_flag b level cs \<and> (\<forall>p\<in>set es. flag_of (snd p) \<noteq> None)"
    using assms unfolding entries_of_def
  proof (induction cs arbitrary: es)
    case Nil
    then show ?case by (simp add: flagged_def named_flag_def)
  next
    case (Cons c cs)
    obtain xid it where c: "c = (xid, it)" by (cases c)
    obtain a e es' where ce: "client_entry it = Inr (a, e)" "smap (\<lambda>c. client_entry (snd c)) cs = Inr es'"
      "es = (a, e) # es'"
      using Cons.prems c by (auto split: sum.splits)
    obtain v where v: "dict_get it ''active'' = Inr v" "flag_of e = Some (truthy v)"
      using client_entry_flag [OF ce(1)] by blast
    have al: "proc_alias it = Inr a" using ce(1) by (auto simp: client_entry_def sbind_Inr)
    have "named_flag b level (c # cs) =
        (if truthy v = b then insert (client_name level a) (named_flag b level cs) else named_flag b level cs)"
      using v(1) al c by (auto simp: named_flag_def)
    then show ?case using Cons.IH [OF ce(2)] v(2) by (auto simp: ce(3) flagged_Cons)
  qed
  then show "flagged b level es = named_flag b level cs" "\<forall>p\<in>set es. flag_of (snd p) \<noteq> None" by blast+
qed

definition data_levels :: "cmstate \<Rightarrow> cmstate" where
  "data_levels cm = filter (\<lambda>(level, _). level \<noteq> ''control'') cm"

lemma activedet_roundtrip_lists:
  assumes "\<forall>(level, cs)\<in>set ls. \<exists>es. entries_of cs = Inr es \<and> distinct (map fst es)"
  shows "\<exists>ds. smap (\<lambda>(level, cs). sbind (activedet_level cs) (\<lambda>d. Inr (level, JDict d))) ls = Inr ds
    \<and> (\<forall>(level, e)\<in>set ds. \<exists>d. e = JDict d \<and> (\<forall>p\<in>set d. flag_of (snd p) \<noteq> None))
    \<and> (\<forall>b. (\<Union>(level, e)\<in>set ds. flagged b level (case e of JDict d \<Rightarrow> d | _ \<Rightarrow> []))
         = (\<Union>(level, cs)\<in>set ls. named_flag b level cs))"
  using assms
proof (induction ls)
  case Nil
  then show ?case by simp
next
  case (Cons q ls)
  obtain level cs where q: "q = (level, cs)" by (cases q)
  obtain es where es: "entries_of cs = Inr es" "distinct (map fst es)" using Cons.prems q by auto
  have lev: "activedet_level cs = Inr es"
    using activedet_level_entries es by (simp add: entries_of_def)
  have "\<forall>(level, cs)\<in>set ls. \<exists>es. entries_of cs = Inr es \<and> distinct (map fst es)"
    using Cons.prems by simp
  then obtain ds where ds: "smap (\<lambda>(level, cs). sbind (activedet_level cs) (\<lambda>d. Inr (level, JDict d))) ls = Inr ds"
    "\<forall>(level, e)\<in>set ds. \<exists>d. e = JDict d \<and> (\<forall>p\<in>set d. flag_of (snd p) \<noteq> None)"
    "\<forall>b. (\<Union>(level, e)\<in>set ds. flagged b level (case e of JDict d \<Rightarrow> d | _ \<Rightarrow> []))
         = (\<Union>(level, cs)\<in>set ls. named_flag b level cs)"
    using Cons.IH by blast
  let ?ds = "(level, JDict es) # ds"
  have "smap (\<lambda>(level, cs). sbind (activedet_level cs) (\<lambda>d. Inr (level, JDict d))) (q # ls) = Inr ?ds"
    using ds(1) by (simp add: q lev sbind_def)
  moreover have "\<forall>(level, e)\<in>set ?ds. \<exists>d. e = JDict d \<and> (\<forall>p\<in>set d. flag_of (snd p) \<noteq> None)"
    using ds(2) entries_flagged(2) [OF es(1)] by simp
  moreover have "(\<Union>(level, e)\<in>set ?ds. flagged b level (case e of JDict d \<Rightarrow> d | _ \<Rightarrow> []))
         = (\<Union>(level, cs)\<in>set (q # ls). named_flag b level cs)" for b
  proof -
    have "(\<Union>(level, e)\<in>set ds. flagged b level (case e of JDict d \<Rightarrow> d | _ \<Rightarrow> []))
         = (\<Union>(level, cs)\<in>set ls. named_flag b level cs)" using ds(3) by blast
    then show ?thesis using entries_flagged(1) [OF es(1), of b level]
      by (simp only: q list.set UN_insert case_prod_conv json.case)
  qed
  ultimately show ?case by (intro exI [of _ ?ds] conjI allI)
qed

lemma activedet_file_roundtrip:
  assumes "\<forall>(level, cs)\<in>set (data_levels cm). \<exists>es. entries_of cs = Inr es \<and> distinct (map fst es)"
  shows "\<exists>ad A I. levels_to_activedet cm = Inr ad
    \<and> get_active_and_inactive (JDict (AList.update ''history'' h ad)) = Inr (A, I)
    \<and> set A = (\<Union>(level, cs)\<in>set (data_levels cm). named_flag True level cs)
    \<and> set I = (\<Union>(level, cs)\<in>set (data_levels cm). named_flag False level cs)"
proof -
  obtain ds where ds: "smap (\<lambda>(level, cs). sbind (activedet_level cs) (\<lambda>d. Inr (level, JDict d))) (data_levels cm) = Inr ds"
    "\<forall>(level, e)\<in>set ds. \<exists>d. e = JDict d \<and> (\<forall>p\<in>set d. flag_of (snd p) \<noteq> None)"
    "\<forall>b. (\<Union>(level, e)\<in>set ds. flagged b level (case e of JDict d \<Rightarrow> d | _ \<Rightarrow> []))
         = (\<Union>(level, cs)\<in>set (data_levels cm). named_flag b level cs)"
    using activedet_roundtrip_lists [OF assms] by blast
  obtain A I where run: "efor scan_level ds ([], []) = (Inr (), A, I)"
    and sets: "set A = (\<Union>(level, e)\<in>set ds. flagged True level (case e of JDict d \<Rightarrow> d | _ \<Rightarrow> []))"
      "set I = (\<Union>(level, e)\<in>set ds. flagged False level (case e of JDict d \<Rightarrow> d | _ \<Rightarrow> []))"
    using scan_levels_run [OF ds(2), of "[]" "[]"] by auto
  have ad: "levels_to_activedet cm = Inr [(''activedet'', JDict ds)]"
    using ds(1) by (simp add: levels_to_activedet_def data_levels_def sbind_def)
  have "get_active_and_inactive (JDict (AList.update ''history'' h [(''activedet'', JDict ds)])) = Inr (A, I)"
    using run by (simp add: get_active_and_inactive_def eff_simps sbind_def dict_get_def)
  then show ?thesis using ad sets ds(3) [rule_format, of True] ds(3) [rule_format, of False]
    by (intro exI [of _ "[(''activedet'', JDict ds)]"] exI [of _ A] exI [of _ I] conjI) simp_all
qed

end
