(* ===== verification/ControlProps.thy ===== *)
theory ControlProps
  imports Samples RollcallFacts ParamFacts
begin

text \<open>
  The properties of the control process (\<^verbatim>\<open>psdaq/psdaq/control\<close>), each followed by
  an application to the sample process of \<open>Samples\<close>. The state machine of the package
  \<open>transitions\<close> is the parameter \<open>trig\<close>; \<open>transitions_package trig\<close> is what its
  documentation says of it.
\<close>

section \<open>Requests\<close>

text \<open>
  C1. In every reachable state in which the main loop runs, a request on the front socket is served to
  an end. When the loop goes on afterwards it is answered exactly once, on the socket it came from;
  when it ends the loop, its answer was sent once or is still owed. The fast socket and its thread
  are not touched.
\<close>

theorem front_request_answered:
  assumes "transitions_package trig" and "reachable C trig p" and "pr_main p"
  shows "\<exists>p'. process_step C trig (FrontReq m) p = Some p' \<and> pr_fast p' = pr_fast p
    \<and> fast_replies (pr_mgr p') = fast_replies (pr_mgr p)
    \<and> front_replies (pr_mgr p') + of_bool (front_pending (pr_mgr p')) = Suc (front_replies (pr_mgr p))
    \<and> (pr_main p' \<longrightarrow> \<not> front_pending (pr_mgr p'))"
  using transitions_package.front_request_reply [OF assms(1) transitions_package.reachable_sound [OF assms(1,2)] assms(3)] .

theorem front_request_answered_witness:
  "\<exists>p'. process_step conf1 std_trig (FrontReq (request0 ''getstate'')) process2 = Some p' \<and> \<not> pr_fast p'
    \<and> (front_pending (pr_mgr p') \<or> front_replies (pr_mgr p') = Suc (front_replies (pr_mgr process2)))"
  using front_request_answered [OF std.transitions_package_axioms process2(1,3), of "request0 ''getstate''"] process2(2)
  by (auto simp: of_bool_def split: if_splits)

text \<open>
  C2. In every reachable state in which the thread of the fast socket runs, a request on that socket is
  served to an end and leaves the main loop and the front socket alone. It is answered exactly once or
  it ends the thread, with its answer sent or owed; only a request for a block, and a setting without
  its value, can end the thread.
\<close>

theorem fast_request_answered:
  assumes "transitions_package trig" and "reachable C trig p" and "pr_fast p"
  shows "\<exists>p'. process_step C trig (FastReq m) p = Some p' \<and> pr_main p' = pr_main p
    \<and> front_replies (pr_mgr p') = front_replies (pr_mgr p)
    \<and> fast_replies (pr_mgr p') + of_bool (fast_pending (pr_mgr p')) = Suc (fast_replies (pr_mgr p))
    \<and> (pr_fast p' \<longrightarrow> \<not> fast_pending (pr_mgr p'))
    \<and> (let key = split_on (CHR ''.'') (m_key m) in
         hd key \<noteq> ''getblock'' \<and> (hd key \<in> {''setrecord'', ''setbypass''} \<longrightarrow> 1 < length key) \<longrightarrow> pr_fast p')"
  using transitions_package.fast_request_reply [OF assms(1) transitions_package.reachable_sound [OF assms(1,2)] assms(3)] .

theorem fast_request_answered_witness:
  "\<exists>p'. process_step conf1 std_trig (FastReq (request0 ''setrecord.1'')) process1 = Some p' \<and> pr_main p' \<and> pr_fast p'
    \<and> fast_replies (pr_mgr p') = Suc (fast_replies (pr_mgr process1))"
proof -
  have "pr_fast process1" "pr_main process1" by (simp_all add: process1_def)
  moreover have key: "split_on (CHR ''.'') (m_key (request0 ''setrecord.1'')) = [''setrecord'', ''1'']" by code_simp
  ultimately show ?thesis
    using fast_request_answered [OF std.transitions_package_axioms process1, of "request0 ''setrecord.1''"]
    by (auto simp: key)
qed

section \<open>The state machine\<close>

text \<open>
  C3. \<open>handle_setstate\<close> ends from every state for every target. On the way it stays between
  the state it starts from and the target on the line reset, unallocated, ..., running, and when
  it raises nothing it is at the target or answers with an error.
\<close>

theorem setstate_reaches_target:
  assumes "transitions_package trig"
  shows "\<exists>r s'. setstate_loop C trig target answer s = Some (r, s')
    \<and> min (state_pos (dstate s)) (state_pos target) \<le> state_pos (dstate s')
    \<and> state_pos (dstate s') \<le> max (state_pos (dstate s)) (state_pos target)
    \<and> (case r of Inl e \<Rightarrow> True | Inr m \<Rightarrow> dstate s' = target \<or> has_err m)"
  using transitions_package.setstate_loop_ends [OF assms] by blast

theorem setstate_reaches_target_witness:
  "\<exists>r s'. setstate_loop conf1 std_trig St_running (request0 ''ok'') started1 = Some (r, s')
    \<and> min (state_pos (dstate started1)) (state_pos St_running) \<le> state_pos (dstate s')
    \<and> state_pos (dstate s') \<le> max (state_pos (dstate started1)) (state_pos St_running)
    \<and> (case r of Inl e \<Rightarrow> True | Inr m \<Rightarrow> dstate s' = St_running \<or> has_err m)"
  by (rule setstate_reaches_target [OF std.transitions_package_axioms])

text \<open>
  C4. A trigger follows the edges of the run-control machine: it moves the state along the edge of
  its transition and answers with the new state, or it leaves the state and answers with an error,
  or it leaves the state and raises.
\<close>

theorem trigger_follows_machine:
  assumes "transitions_package trig"
  shows "case handle_trigger C trig t True s of
      (Inr m, s') \<Rightarrow> m_key m = state_name (dstate s')
        \<and> (daq_edge t (dstate s) = Some (dstate s') \<and> dstate s' \<noteq> dstate s \<and> m_body m = cm_json (cmstate_of s')
           \<or> dstate s' = dstate s \<and> has_err m)
    | (Inl e, s') \<Rightarrow> dstate s' = dstate s \<and> trigger_error e = None"
proof (cases "handle_trigger C trig t True s")
  case (Pair r s')
  then show ?thesis
    using transitions_package.handle_trigger_raises [OF assms, of C t True s]
      transitions_package.handle_trigger_result [OF assms, of C t True s]
    by (cases r) auto
qed

theorem trigger_follows_machine_witness:
  "case handle_trigger conf1 std_trig Tr_rollcall True started1 of
      (Inr m, s') \<Rightarrow> m_key m = state_name (dstate s')
        \<and> (daq_edge Tr_rollcall (dstate started1) = Some (dstate s') \<and> dstate s' \<noteq> dstate started1
             \<and> m_body m = cm_json (cmstate_of s')
           \<or> dstate s' = dstate started1 \<and> has_err m)
    | (Inl e, s') \<Rightarrow> dstate s' = dstate started1 \<and> trigger_error e = None"
  by (rule trigger_follows_machine [OF std.transitions_package_axioms])

text \<open>
  The routing table knows a transition for every pair of different states, and that transition
  leaves the first state for one strictly nearer to the second and never beyond it.
\<close>

theorem route_brings_nearer:
  "case next_dict a b of
      None \<Rightarrow> a = b
    | Some t \<Rightarrow> \<exists>c. daq_edge t a = Some c \<and> c \<noteq> a \<and> state_dist c b < state_dist a b
        \<and> min (state_pos a) (state_pos b) \<le> state_pos c \<and> state_pos c \<le> max (state_pos a) (state_pos b)"
  using next_dict_edge [of a b] next_dict_None [of a b] by (cases "next_dict a b") auto

text \<open>
  C5. In every reachable state, whichever thread has ended, slow updates are enabled at most in the
  state running and at a rate that is not zero, and a thread that runs owes no reply on its socket.
\<close>

theorem reachable_states_sound:
  assumes "transitions_package trig" and "reachable C trig p"
  shows "(pr_main p \<longrightarrow> \<not> front_pending (pr_mgr p)) \<and> (pr_fast p \<longrightarrow> \<not> fast_pending (pr_mgr p))
    \<and> (slow_update_enabled (pr_mgr p) \<longrightarrow> dstate (pr_mgr p) = St_running \<and> c_slow_update_rate C \<noteq> 0)"
  using transitions_package.reachable_sound [OF assms] by (simp add: sound_def slow_inv_def)

theorem reachable_states_sound_witness:
  "\<not> front_pending (pr_mgr process2) \<and> \<not> pr_fast process2
    \<and> \<not> (slow_update_enabled (pr_mgr process2) \<and> dstate (pr_mgr process2) \<noteq> St_running)"
  using reachable_states_sound [OF std.transitions_package_axioms process2(1)] process2(2,3) by simp

text \<open>
  C6. The recording flag is changed by nothing but a \<open>setrecord\<close> request on the fast socket,
  and never while a run is open.
\<close>

theorem recording_changes_between_runs:
  assumes "transitions_package trig" and "manager_step C trig ev s = Some (r, s')"
    and "recording s' \<noteq> recording s"
  shows "dstate s \<notin> {St_starting, St_paused, St_running}
    \<and> (\<exists>m. ev = FastReq m \<and> hd (split_on (CHR ''.'') (m_key m)) = ''setrecord'')"
  using transitions_package.step_recording [OF assms] .

theorem recording_changes_between_runs_witness:
  "dstate started1 \<notin> {St_starting, St_paused, St_running}
    \<and> (\<exists>m. FastReq (request0 ''setrecord.1'') = FastReq m \<and> hd (split_on (CHR ''.'') (m_key m)) = ''setrecord'')"
proof (rule recording_changes_between_runs [OF std.transitions_package_axioms])
  let ?res = "service_fast conf1 (request0 ''setrecord.1'') (started1\<lparr>fast_pending := True\<rparr>)"
  show "manager_step conf1 std_trig (FastReq (request0 ''setrecord.1'')) started1 = Some (fst ?res, snd ?res)"
    by simp
  show "recording (snd ?res) \<noteq> recording started1" by code_simp
qed

section \<open>Transitions\<close>

text \<open>
  C7. When the common part of a transition succeeds, the transition was published to the partition
  under its name, and every active readout process and event builder answered that very message
  without an error. The clients have aliases, which a rollcall gives them.
\<close>

theorem transition_answered_by_all:
  assumes "condition_common C t timeout body s = (Inr True, s')" and "has_alias (cmstate_of s)"
  shows "\<exists>act m rest. filter_active_set (cmstate_of s) (ids s) = Inr act
    \<and> out s' = out s @ BackPub ''partition'' m # rest \<and> m_key m = trans_name t
    \<and> (\<forall>xid\<in>phase1_levels (cmstate_of s) act. answered C (n_recv s) (m_id m) xid)"
  using condition_common_True [OF assms] .

theorem transition_answered_by_all_witness:
  "\<exists>act m rest. filter_active_set cm0 {11, 12} = Inr act
    \<and> out (snd (condition_common conf1 Tr_beginstep 6000 [] paused0)) = out paused0 @ BackPub ''partition'' m # rest
    \<and> m_key m = trans_name Tr_beginstep
    \<and> (\<forall>xid\<in>phase1_levels cm0 act. answered conf1 (n_recv paused0) (m_id m) xid)"
proof -
  have run: "condition_common conf1 Tr_beginstep 6000 [] paused0
      = (Inr True, snd (condition_common conf1 Tr_beginstep 6000 [] paused0))"
    by (rule run_eq) code_simp
  have al: "has_alias (cmstate_of paused0)"
    by (simp add: has_alias_def paused0_def cm0_def client0_def cmstate_levels_def level_keys_def proc_alias_def
        sbind_def dict_get_def)
  have "cmstate_of paused0 = cm0" "ids paused0 = {11, 12}" by (simp_all add: paused0_def)
  then show ?thesis using transition_answered_by_all [OF run al] by simp
qed

text \<open>
  C8. A successful \<open>enable\<close> programs the trigger system in this order: the end and the groups
  of the step (or no step), the Enable message on every header PV, its insertion, and last the run
  enable of all groups; the readout counter advances by the readouts of the step.
\<close>

theorem enable_programs_step:
  assumes "condition_enable C s = (Inr True, s')" and "step_info C (phase1Info s) = Inr (c, g)"
    and "jint c = Inr n" "jint g = Inr m"
  shows "puts (out s') = puts (out s) @ step_puts C s n m @ insert_puts C s 8 @ [(pvGroupL0Enable C, groups s)]
    \<and> readoutCumulative s' = readoutCumulative s + max 0 n"
  using condition_enable_puts [OF assms] .

theorem enable_programs_step_witness:
  "puts (out (snd (condition_enable conf1 paused0))) = puts (out paused0) @ step_puts conf1 paused0 3 1
      @ insert_puts conf1 paused0 8 @ [(pvGroupL0Enable conf1, groups paused0)]
    \<and> readoutCumulative (snd (condition_enable conf1 paused0)) = readoutCumulative paused0 + max 0 3"
proof (rule enable_programs_step)
  show "condition_enable conf1 paused0 = (Inr True, snd (condition_enable conf1 paused0))"
    by (rule run_eq) code_simp
  show "step_info conf1 (phase1Info paused0) = Inr (JInt 3, JInt 1)"
    by (simp add: step_info_def paused0_def sbind_def dict_get_def)
qed simp_all



text \<open>
  C10. In phase 2 an error reply of one client confirms the transition for all: when the first
  reply the loop sees carries an error (and is not an asynchronous report), the collection ends,
  no client is missing, and phase 2 succeeds.
\<close>

theorem phase2_error_counts_as_success:
  assumes "filter_active_set (cmstate_of s) (ids s) = Inr act" and "phase2_levels (cmstate_of s) act \<noteq> {}"
    and "c_recv C (n_recv s) = r # rs" and "wait_for_answers None (r_polled r) = m # ms"
    and "is_error_reply m" "m_key m \<notin> set report_keys"
  shows "fst (get_phase2_replies C t s) = Inr True"
  using phase2_error_confirmed [OF assms] .

theorem phase2_error_counts_as_success_witness:
  "fst (get_phase2_replies conf2 Tr_enable paused0) = Inr True"
proof (rule phase2_error_counts_as_success)
  show "filter_active_set (cmstate_of paused0) (ids paused0) = Inr {11, 12}" by code_simp
  show "phase2_levels (cmstate_of paused0) {11, 12} \<noteq> {}" by code_simp
  show "c_recv conf2 (n_recv paused0) = [\<lparr>r_elapsed = 10, r_polled =
      [Got \<lparr>m_key = ''enable'', m_id = ''x'', m_sender = Some 11, m_body = JDict [(''err_info'', JStr ''damage'')]\<rparr>]\<rparr>]"
    by (simp add: conf2_def conf0_def)
  show "wait_for_answers None (r_polled \<lparr>r_elapsed = 10, r_polled =
      [Got \<lparr>m_key = ''enable'', m_id = ''x'', m_sender = Some 11, m_body = JDict [(''err_info'', JStr ''damage'')]\<rparr>]\<rparr>)
    = [\<lparr>m_key = ''enable'', m_id = ''x'', m_sender = Some 11, m_body = JDict [(''err_info'', JStr ''damage'')]\<rparr>]"
    by (simp add: report_keys_def)
qed (simp_all add: report_keys_def is_error_reply_def)

text \<open>
  C11. \<open>rollcall\<close> never fails: when it returns it says true, and every client that was found,
  the control process among them, then has the flags \<open>active\<close> and \<open>hidden\<close>, so that
  every later selection of active clients succeeds.
\<close>

theorem rollcall_flags_clients:
  "case condition_rollcall C s of
      (Inr ok, s') \<Rightarrow> ok \<and> lastTransition s' = Tr_rollcall \<and> flags_ok (cmstate_of s')
        \<and> map_of (cmstate_of s') ''control'' \<noteq> None
        \<and> (\<forall>is. \<exists>act. filter_active_set (cmstate_of s') is = Inr act)
    | (Inl e, s') \<Rightarrow> True"
proof (cases "condition_rollcall C s")
  case (Pair r s')
  then show ?thesis
    using condition_rollcall_ok [of C s] flags_ok_active_set by (cases r) auto
qed

text \<open>
  \<open>alloc\<close> numbers the nodes of a level: the \<open>i\<close>-th gets the id \<open>i\<close> and
  nothing else of the connected clients changes.
\<close>

theorem alloc_numbers_nodes:
  assumes "map_of (cmstate_of s) level = Some cs" and "set (map fst nodes) \<subseteq> dom (map_of cs)"
    and "distinct (map fst nodes)"
  shows "\<exists>cm cs'. number_nodes level key nodes s = (Inr (), s\<lparr>cmstate_of := cm\<rparr>)
    \<and> map_of cm level = Some cs' \<and> (\<forall>l. l \<noteq> level \<longrightarrow> map_of cm l = map_of (cmstate_of s) l)
    \<and> (\<forall>i<length nodes. map_of cs' (fst (nodes ! i)) =
         map_option (AList.update key (JInt (int i))) (map_of cs (fst (nodes ! i))))
    \<and> (\<forall>xid. xid \<notin> set (map fst nodes) \<longrightarrow> map_of cs' xid = map_of cs xid)"
  using number_nodes_run [OF assms] .

theorem alloc_numbers_nodes_witness:
  "\<exists>cm cs'. number_nodes ''drp'' ''drp_id'' [(11, client0 ''cam_0'')] paused0 = (Inr (), paused0\<lparr>cmstate_of := cm\<rparr>)
    \<and> map_of cm ''drp'' = Some cs' \<and> map_of cm ''teb'' = Some [(12, client0 ''teb0'')]
    \<and> map_of cs' 11 = Some (AList.update ''drp_id'' (JInt 0) (client0 ''cam_0''))"
proof -
  have "map_of (cmstate_of paused0) ''drp'' = Some [(11, client0 ''cam_0'')]"
    "map_of (cmstate_of paused0) ''teb'' = Some [(12, client0 ''teb0'')]"
    by (simp_all add: paused0_def cm0_def)
  moreover have "set (map fst [(11, client0 ''cam_0'')]) \<subseteq> dom (map_of [(11 :: int, client0 ''cam_0'')])" by simp
  ultimately show ?thesis
    using alloc_numbers_nodes [of paused0 "''drp''" "[(11, client0 ''cam_0'')]" "[(11, client0 ''cam_0'')]" "''drp_id''"]
    by force
qed

text \<open>
  The active-detector file that \<open>alloc\<close> writes reads back: the next \<open>rollcall\<close> finds
  as active and as inactive the clients, by level and alias, that had the flag set and cleared.
\<close>

theorem active_detectors_read_back:
  assumes "\<forall>(level, cs)\<in>set (data_levels cm). \<exists>es. entries_of cs = Inr es \<and> distinct (map fst es)"
  shows "\<exists>ad A I. levels_to_activedet cm = Inr ad
    \<and> get_active_and_inactive (JDict (AList.update ''history'' h ad)) = Inr (A, I)
    \<and> set A = (\<Union>(level, cs)\<in>set (data_levels cm). named_flag True level cs)
    \<and> set I = (\<Union>(level, cs)\<in>set (data_levels cm). named_flag False level cs)"
  using activedet_file_roundtrip [OF assms] .

theorem active_detectors_read_back_witness:
  "\<exists>ad A I. levels_to_activedet cm0 = Inr ad
    \<and> get_active_and_inactive (JDict (AList.update ''history'' (JDict []) ad)) = Inr (A, I)
    \<and> set A = (\<Union>(level, cs)\<in>set (data_levels cm0). named_flag True level cs)
    \<and> set I = (\<Union>(level, cs)\<in>set (data_levels cm0). named_flag False level cs)"
proof (rule active_detectors_read_back)
  have "\<exists>es. entries_of [(11, client0 ''cam_0'')] = Inr es \<and> distinct (map fst es)"
    "\<exists>es. entries_of [(12, client0 ''teb0'')] = Inr es \<and> distinct (map fst es)"
    by (simp_all add: entries_of_def client_entry_def client0_def proc_alias_def sbind_def dict_get_def activedet_entry_def)
  then show "\<forall>(level, cs)\<in>set (data_levels cm0). \<exists>es. entries_of cs = Inr es \<and> distinct (map fst es)"
    by (simp add: data_levels_def cm0_def)
qed

section \<open>Parameters and reports\<close>

text \<open>
  The PV file and the files it includes: \<open>RunParams.configure\<close> collects exactly the
  files reachable through include lines, also when they include each other in a cycle.
\<close>

theorem include_files_reachable: "set (collect_files C [] [p]) = (inc_rel C)\<^sup>* `` {p}"
  by (rule collect_files_reachable)

text \<open>
  \<open>confirm_response\<close> without an error: the senders of the replies and the clients still
  missing together are the clients that were asked, no client is counted twice, and reports are
  kept apart from replies.
\<close>

theorem confirm_response_accounts:
  "\<exists>missing msgs reports err. fst (confirm_response C w i asked p s) = Inr (missing, msgs, reports)
    \<and> collected_ok (Some ` asked) (heard C (n_recv s) i) (missing, msgs, reports, err)"
  using confirm_response_ok [of C w i asked p s] by (cases "confirm_response C w i asked p s") auto

end
