(* ===== verification/PacketFooter.thy ===== *)
theory PacketFooter
  imports Prelude "HOL-Library.Word"
begin

text \<open>
  \<^verbatim>\<open>psana/psana/psexp/packet_footer.py\<close>: a batch of packets is their bytes followed
  by a footer, the size of each packet and the number of packets as unsigned 32-bit integers
  (\<open>struct.pack("I", n)\<close>, little endian). Also \<open>EventBuilderNode.pack\<close> of
  \<^verbatim>\<open>node.py\<close> and \<open>Event._to_bytes\<close>, \<open>Event._from_bytes\<close> of
  \<^verbatim>\<open>event.py\<close>, which build and take apart such batches. A dgram is its bytes.
\<close>

type_synonym byte = "8 word"
type_synonym bytes = "byte list"

section \<open>32-bit integers as bytes\<close>

fun le_bytes :: "nat \<Rightarrow> nat \<Rightarrow> bytes" where
  "le_bytes 0 n = []"
| "le_bytes (Suc k) n = word_of_nat (n mod 256) # le_bytes k (n div 256)"

fun le_val :: "bytes \<Rightarrow> nat" where
  "le_val [] = 0"
| "le_val (b # bs) = unat b + 256 * le_val bs"

definition pack_I :: "nat \<Rightarrow> pyexc + bytes" where
  "pack_I n = (if n < 2 ^ 32 then Inr (le_bytes 4 n) else Inl StructError)"

definition unpack_I :: "bytes \<Rightarrow> pyexc + nat" where
  "unpack_I bs = (if length bs = 4 then Inr (le_val bs) else Inl StructError)"

lemma length_le_bytes [simp]: "length (le_bytes k n) = k"
  by (induction k arbitrary: n) auto

lemma le_val_bytes: "n < 256 ^ k \<Longrightarrow> le_val (le_bytes k n) = n"
proof (induction k arbitrary: n)
  case 0
  then show ?case by simp
next
  case (Suc k)
  have "n div 256 < 256 ^ k" using Suc.prems by (simp add: less_mult_imp_div_less)
  moreover have "unat (word_of_nat (n mod 256) :: byte) = n mod 256"
    by (simp add: unat_of_nat take_bit_eq_mod)
  ultimately show ?case using Suc.IH by simp
qed

lemma pack_I_Inr: "pack_I n = Inr bs \<longleftrightarrow> n < 2 ^ 32 \<and> bs = le_bytes 4 n"
  by (auto simp: pack_I_def)

lemma unpack_pack: "n < 2 ^ 32 \<Longrightarrow> unpack_I (le_bytes 4 n) = Inr n"
  by (simp add: unpack_I_def le_val_bytes)

section \<open>The footer\<close>

record packet_footer =
  n_packets :: nat
  footer :: bytes
  pf_view :: "bytes option"

definition n_bytes :: nat where
  "n_bytes = 4"

text \<open>\<open>b[-n:]\<close> for \<open>n > 0\<close>, \<open>b[i:j]\<close> and \<open>b[i:j] = x\<close>\<close>

definition last_bytes :: "nat \<Rightarrow> 'a list \<Rightarrow> 'a list" where
  "last_bytes n b = drop (length b - n) b"

definition slice :: "nat \<Rightarrow> nat \<Rightarrow> 'a list \<Rightarrow> 'a list" where
  "slice i j b = drop i (take j b)"

definition put_slice :: "nat \<Rightarrow> nat \<Rightarrow> 'a list \<Rightarrow> 'a list \<Rightarrow> 'a list" where
  "put_slice i j x b = take i b @ x @ drop (max i j) b"

definition put_last :: "nat \<Rightarrow> 'a list \<Rightarrow> 'a list \<Rightarrow> 'a list" where
  "put_last n x b = take (length b - n) b @ x"

text \<open>\<open>PacketFooter(n_packets)\<close>, \<open>PacketFooter(view=view)\<close> and \<open>PacketFooter()\<close>\<close>

definition pf_init :: "nat \<Rightarrow> bytes option \<Rightarrow> pyexc + packet_footer" where
  "pf_init n view =
     (if n \<noteq> 0
      then case pack_I n of
             Inl e \<Rightarrow> Inl e
           | Inr b \<Rightarrow> Inr \<lparr>n_packets = n, footer = put_last n_bytes b (replicate ((n + 1) * n_bytes) 0),
                            pf_view = None\<rparr>
      else case view of
             None \<Rightarrow> Inr \<lparr>n_packets = 0, footer = [], pf_view = None\<rparr>
           | Some [] \<Rightarrow> Inr \<lparr>n_packets = 0, footer = [], pf_view = None\<rparr>
           | Some v \<Rightarrow>
               (case unpack_I (last_bytes n_bytes v) of
                  Inl e \<Rightarrow> Inl e
                | Inr k \<Rightarrow> Inr \<lparr>n_packets = k, footer = last_bytes ((k + 1) * n_bytes) v, pf_view = Some v\<rparr>))"

definition set_size :: "nat \<Rightarrow> nat \<Rightarrow> packet_footer \<Rightarrow> pyexc + packet_footer" where
  "set_size idx sz pf =
     (if idx < n_packets pf
      then case pack_I sz of
             Inl e \<Rightarrow> Inl e
           | Inr b \<Rightarrow> Inr (pf\<lparr>footer := put_slice (idx * n_bytes) (idx * n_bytes + n_bytes) b (footer pf)\<rparr>)
      else Inl AssertionError)"

definition get_size :: "nat \<Rightarrow> packet_footer \<Rightarrow> pyexc + nat" where
  "get_size idx pf =
     (if idx < n_packets pf
      then unpack_I (slice (idx * n_bytes) (idx * n_bytes + n_bytes) (footer pf))
      else Inl AssertionError)"

fun get_sizes :: "nat list \<Rightarrow> packet_footer \<Rightarrow> pyexc + nat list" where
  "get_sizes [] pf = Inr []"
| "get_sizes (i # is) pf =
     (case get_size i pf of Inl e \<Rightarrow> Inl e
      | Inr s \<Rightarrow> (case get_sizes is pf of Inl e \<Rightarrow> Inl e | Inr ss \<Rightarrow> Inr (s # ss)))"

definition cut_packets :: "bytes \<Rightarrow> nat list \<Rightarrow> bytes list" where
  "cut_packets v sizes =
     map (\<lambda>i. slice (sum_list (take i sizes)) (sum_list (take i sizes) + sizes ! i) v) [0..<length sizes]"

definition split_packets :: "packet_footer \<Rightarrow> pyexc + bytes list" where
  "split_packets pf =
     (case get_sizes [0..<n_packets pf] pf of
        Inl e \<Rightarrow> Inl e
      | Inr sizes \<Rightarrow>
          if sizes = [] then Inr []
          else (case pf_view pf of
                  None \<Rightarrow> Inl (AttributeError ''view'')
                | Some v \<Rightarrow> Inr (cut_packets v sizes)))"

definition add_packet :: "nat \<Rightarrow> packet_footer \<Rightarrow> pyexc + packet_footer" where
  "add_packet sz pf =
     (case pack_I sz of Inl e \<Rightarrow> Inl e
      | Inr b \<Rightarrow>
          (case pack_I (n_packets pf + 1) of Inl e \<Rightarrow> Inl e
           | Inr c \<Rightarrow>
               (let f = footer pf; f1 = take (length f - n_bytes) f @ b @ drop (length f - n_bytes) f
                in Inr (pf\<lparr>n_packets := n_packets pf + 1, footer := put_last n_bytes c f1\<rparr>))))"

section \<open>Building a batch\<close>

text \<open>\<open>EventBuilderNode.pack\<close>: the sizes are set as the packets are appended.\<close>

fun set_sizes :: "nat \<Rightarrow> bytes list \<Rightarrow> packet_footer \<Rightarrow> pyexc + packet_footer" where
  "set_sizes i [] pf = Inr pf"
| "set_sizes i (p # ps) pf =
     (case set_size i (length p) pf of Inl e \<Rightarrow> Inl e | Inr pf' \<Rightarrow> set_sizes (Suc i) ps pf')"

definition pack :: "bytes list \<Rightarrow> pyexc + bytes" where
  "pack ps =
     (case pf_init (length ps) None of Inl e \<Rightarrow> Inl e
      | Inr pf \<Rightarrow> (case set_sizes 0 ps pf of Inl e \<Rightarrow> Inl e | Inr pf' \<Rightarrow> Inr (concat ps @ footer pf')))"

text \<open>
  \<open>Event._to_bytes\<close>: a missing dgram (None) cannot be turned into bytes. \<open>_from_bytes\<close>:
  an empty packet is a missing dgram.
\<close>

fun dgrams_bytes :: "bytes option list \<Rightarrow> pyexc + bytes list" where
  "dgrams_bytes [] = Inr []"
| "dgrams_bytes (None # ds) = Inl TypeError"
| "dgrams_bytes (Some d # ds) =
     (case dgrams_bytes ds of Inl e \<Rightarrow> Inl e | Inr bs \<Rightarrow> Inr (d # bs))"

definition to_bytes :: "bytes option list \<Rightarrow> pyexc + bytes" where
  "to_bytes dgrams =
     (case pf_init (length dgrams) None of Inl e \<Rightarrow> Inl e
      | Inr pf \<Rightarrow>
          (case dgrams_bytes dgrams of Inl e \<Rightarrow> Inl e
           | Inr ds \<Rightarrow>
               (case set_sizes 0 ds pf of Inl e \<Rightarrow> Inl e
                | Inr pf' \<Rightarrow> Inr (if concat ds = [] then [] else concat ds @ footer pf'))))"

definition from_bytes :: "nat \<Rightarrow> bytes \<Rightarrow> pyexc + bytes option list" where
  "from_bytes n_configs event_bytes =
     (if event_bytes = [] then Inr []
      else case pf_init 0 (Some event_bytes) of Inl e \<Rightarrow> Inl e
      | Inr pf \<Rightarrow>
          (case split_packets pf of Inl e \<Rightarrow> Inl e
           | Inr views \<Rightarrow>
               if n_configs = n_packets pf
               then Inr (map (\<lambda>v. if v = [] then None else Some v) views)
               else Inl AssertionError))"

section \<open>What a footer holds\<close>

text \<open>The footer of given sizes, as bytes.\<close>

definition footer_of :: "nat list \<Rightarrow> bytes" where
  "footer_of sizes = concat (map (le_bytes 4) sizes) @ le_bytes 4 (length sizes)"

definition sizes_ok :: "nat list \<Rightarrow> bool" where
  "sizes_ok sizes \<longleftrightarrow> list_all (\<lambda>s. s < 2 ^ 32) sizes \<and> length sizes < 2 ^ 32"

lemma length_concat_le: "length (concat (map (le_bytes 4) sizes)) = 4 * length sizes"
  by (induction sizes) auto

lemma length_footer_of: "length (footer_of sizes) = (length sizes + 1) * n_bytes"
  by (simp add: footer_of_def length_concat_le n_bytes_def)

lemma footer_slice:
  assumes "i < length sizes"
  shows "slice (i * n_bytes) (i * n_bytes + n_bytes) (footer_of sizes) = le_bytes 4 (sizes ! i)"
proof -
  have parts: "sizes = take i sizes @ sizes ! i # drop (Suc i) sizes"
    using assms by (simp add: id_take_nth_drop)
  have len: "length (concat (map (le_bytes 4) (take i sizes))) = i * 4"
    using assms by (simp add: length_concat_le)
  have "footer_of sizes = concat (map (le_bytes 4) (take i sizes)) @ le_bytes 4 (sizes ! i)
      @ concat (map (le_bytes 4) (drop (Suc i) sizes)) @ le_bytes 4 (length sizes)"
    unfolding footer_of_def by (subst parts) simp
  then show ?thesis using len by (simp add: slice_def n_bytes_def)
qed

lemma get_size_footer_of:
  assumes "sizes_ok sizes" and "footer pf = footer_of sizes" and "n_packets pf = length sizes"
    and "i < length sizes"
  shows "get_size i pf = Inr (sizes ! i)"
  using assms by (simp add: get_size_def footer_slice unpack_pack sizes_ok_def list_all_length)

lemma get_sizes_map:
  "(\<And>i. i \<in> set is \<Longrightarrow> get_size i pf = Inr (f i)) \<Longrightarrow> get_sizes is pf = Inr (map f is)"
  by (induction "is") auto

lemma pf_init_view:
  assumes "sizes_ok sizes"
  shows "pf_init 0 (Some (data @ footer_of sizes)) =
    Inr \<lparr>n_packets = length sizes, footer = footer_of sizes, pf_view = Some (data @ footer_of sizes)\<rparr>"
proof -
  have "data @ footer_of sizes \<noteq> []" using length_footer_of [of sizes] by (auto simp: n_bytes_def)
  then obtain b v where v: "data @ footer_of sizes = b # v" by (cases "data @ footer_of sizes") auto
  have "last_bytes n_bytes (data @ footer_of sizes) = le_bytes 4 (length sizes)"
    by (simp add: last_bytes_def n_bytes_def footer_of_def)
  then have "unpack_I (last_bytes n_bytes (data @ footer_of sizes)) = Inr (length sizes)"
    using assms by (simp add: unpack_pack sizes_ok_def)
  moreover have "last_bytes ((length sizes + 1) * n_bytes) (data @ footer_of sizes) = footer_of sizes"
    using length_footer_of [of sizes] by (simp add: last_bytes_def)
  ultimately show ?thesis unfolding pf_init_def by (simp add: v)
qed

lemma cut_packets_concat: "cut_packets (concat ps @ rest) (map length ps) = ps"
proof (rule nth_equalityI)
  show "length (cut_packets (concat ps @ rest) (map length ps)) = length ps"
    by (simp add: cut_packets_def)
next
  fix i assume "i < length (cut_packets (concat ps @ rest) (map length ps))"
  then have i: "i < length ps" by (simp add: cut_packets_def)
  have parts: "concat ps @ rest = concat (take i ps) @ ps ! i @ concat (drop (Suc i) ps) @ rest"
    using i by (metis append.assoc concat.simps(2) concat_append id_take_nth_drop)
  have len: "sum_list (take i (map length ps)) = length (concat (take i ps))"
    by (simp add: length_concat take_map)
  show "cut_packets (concat ps @ rest) (map length ps) ! i = ps ! i"
    using i by (simp add: cut_packets_def slice_def len parts del: length_concat)
qed

lemma split_footer_of:
  assumes "sizes_ok (map length ps)" and "ps \<noteq> []"
  shows "split_packets \<lparr>n_packets = length ps, footer = footer_of (map length ps),
      pf_view = Some (concat ps @ footer_of (map length ps))\<rparr> = Inr ps"
proof -
  let ?pf = "\<lparr>n_packets = length ps, footer = footer_of (map length ps),
      pf_view = Some (concat ps @ footer_of (map length ps))\<rparr>"
  have "get_sizes [0..<length ps] ?pf = Inr (map (\<lambda>i. map length ps ! i) [0..<length ps])"
    using assms(1) by (intro get_sizes_map get_size_footer_of) auto
  moreover have "map (\<lambda>i. map length ps ! i) [0..<length ps] = map length ps"
    by (metis length_map map_nth)
  ultimately have "get_sizes [0..<length ps] ?pf = Inr (map length ps)" by simp
  then show ?thesis using assms(2) cut_packets_concat by (simp add: split_packets_def)
qed

text \<open>Setting the sizes one after the other gives the footer of the sizes.\<close>

lemma put_slice_middle: "length p = i \<Longrightarrow> length q = j - i \<Longrightarrow> i \<le> j \<Longrightarrow> put_slice i j x (p @ q @ r) = p @ x @ r"
  by (simp add: put_slice_def)

lemma set_sizes_footer:
  assumes "list_all (\<lambda>p. length p < 2 ^ 32) ps" and "n_packets pf = i + length ps"
    and "footer pf = pre @ replicate (4 * length ps) 0 @ suf" and "length pre = 4 * i"
  shows "set_sizes i ps pf = Inr (pf\<lparr>footer := pre @ concat (map (\<lambda>p. le_bytes 4 (length p)) ps) @ suf\<rparr>)"
  using assms
proof (induction i ps pf arbitrary: pre rule: set_sizes.induct)
  case (1 i pf)
  then show ?case by simp
next
  case (2 i p ps pf)
  let ?pf = "pf\<lparr>footer := put_slice (i * n_bytes) (i * n_bytes + n_bytes) (le_bytes 4 (length p)) (footer pf)\<rparr>"
  have len: "length p < 2 ^ 32" using 2(2) by simp
  have "pack_I (length p) = Inr (le_bytes 4 (length p))" using len by (simp only: pack_I_def if_True)
  then have step: "set_size i (length p) pf = Inr ?pf" using 2(3) by (simp add: set_size_def)
  have "footer pf = pre @ replicate 4 0 @ replicate (4 * length ps) 0 @ suf"
    using 2(4) by (simp add: replicate_add)
  then have f: "footer ?pf = (pre @ le_bytes 4 (length p)) @ replicate (4 * length ps) 0 @ suf"
    using 2(5) put_slice_middle [of pre "i * n_bytes" "replicate 4 0" "i * n_bytes + n_bytes"]
    by (simp add: n_bytes_def)
  have "set_sizes (Suc i) ps ?pf
      = Inr (?pf\<lparr>footer := (pre @ le_bytes 4 (length p)) @ concat (map (\<lambda>p. le_bytes 4 (length p)) ps) @ suf\<rparr>)"
    using 2(2,3,5) by (intro 2(1) [OF step] f) auto
  then show ?case using step by simp
qed

lemma pf_init_new:
  assumes "0 < n" and "n < 2 ^ 32"
  shows "pf_init n None = Inr \<lparr>n_packets = n, footer = replicate (4 * n) 0 @ le_bytes 4 n, pf_view = None\<rparr>"
  using assms by (simp add: pf_init_def pack_I_def put_last_def n_bytes_def)

lemma set_sizes_new:
  assumes "sizes_ok (map length ps)" and "ps \<noteq> []"
  shows "\<exists>pf pf'. pf_init (length ps) None = Inr pf \<and> set_sizes 0 ps pf = Inr pf' \<and> footer pf' = footer_of (map length ps)
    \<and> n_packets pf' = length ps"
proof -
  let ?pf = "\<lparr>n_packets = length ps, footer = replicate (4 * length ps) 0 @ le_bytes 4 (length ps), pf_view = None\<rparr>"
  have "pf_init (length ps) None = Inr ?pf"
    using assms by (intro pf_init_new) (auto simp: sizes_ok_def)
  moreover have "set_sizes 0 ps ?pf = Inr (?pf\<lparr>footer := [] @ concat (map (\<lambda>p. le_bytes 4 (length p)) ps) @ le_bytes 4 (length ps)\<rparr>)"
    using assms(1) by (intro set_sizes_footer) (auto simp: sizes_ok_def list_all_iff)
  ultimately show ?thesis by (simp add: footer_of_def comp_def)
qed

lemma pack_Inr:
  assumes "sizes_ok (map length ps)" and "ps \<noteq> []"
  shows "pack ps = Inr (concat ps @ footer_of (map length ps))"
  using set_sizes_new [OF assms] by (auto simp: pack_def)

text \<open>A batch built from packets splits into the same packets.\<close>

lemma split_pack:
  assumes "sizes_ok (map length ps)" and "ps \<noteq> []"
  shows "\<exists>batch pf. pack ps = Inr batch \<and> pf_init 0 (Some batch) = Inr pf \<and> split_packets pf = Inr ps"
  using pack_Inr [OF assms] pf_init_view [OF assms(1)] split_footer_of [OF assms] by simp

lemma get_set_size:
  assumes "set_size i sz pf = Inr pf'" and "length (footer pf) = (n_packets pf + 1) * n_bytes" and "j < n_packets pf"
  shows "get_size j pf' = (if j = i then Inr sz else get_size j pf)"
proof -
  have i: "i < n_packets pf" "sz < 2 ^ 32"
    "pf' = pf\<lparr>footer := put_slice (i * n_bytes) (i * n_bytes + n_bytes) (le_bytes 4 sz) (footer pf)\<rparr>"
    using assms(1) by (auto simp: set_size_def pack_I_def split: if_splits)
  let ?f = "footer pf"
  have lf: "i * 4 + 4 \<le> length ?f" "j * 4 + 4 \<le> length ?f"
    using i(1) assms(2,3) by (auto simp: n_bytes_def)
  have f': "footer pf' = take (i * 4) ?f @ le_bytes 4 sz @ drop (i * 4 + 4) ?f"
    by (simp add: i(3) put_slice_def n_bytes_def)
  consider "j = i" | "j < i" | "i < j" by linarith
  then have "slice (j * 4) (j * 4 + 4) (footer pf') = (if j = i then le_bytes 4 sz else slice (j * 4) (j * 4 + 4) ?f)"
  proof cases
    case 1
    then show ?thesis using lf by (simp add: f' slice_def min_def)
  next
    case 2
    then show ?thesis using lf by (simp add: f' slice_def min_def)
  next
    case 3
    then have "drop (j * 4) (take (j * 4 + 4) (drop (i * 4 + 4) ?f)) = drop (j * 4) (take (j * 4 + 4) (drop (i * 4 + 4) ?f))"
      by simp
    have a: "j * 4 - i * 4 - 4 + (i * 4 + 4) = j * 4" using 3 by simp
    have "slice (j * 4) (j * 4 + 4) (footer pf') = take 4 (drop (j * 4) (footer pf'))"
      by (simp add: slice_def drop_take)
    also have "drop (j * 4) (footer pf') = drop (j * 4) ?f"
      using lf 3 a by (simp add: f' min_def)
    finally show ?thesis using 3 by (simp add: slice_def drop_take)
  qed
  then show ?thesis using i assms(3) unpack_pack [OF i(2)] by (simp add: get_size_def n_bytes_def)
qed

end
