(* ===== verification/StepHistory.thy ===== *)
theory StepHistory
  imports PacketFooter
begin

text \<open>
  The step data of parallel psana (\<^verbatim>\<open>psana/psana/psexp/node.py\<close>). Step transitions must
  reach every client, while each event goes to one of them. \<open>StepHistory\<close> keeps the step data
  seen so far, one buffer per smalldata file, and how much of each buffer each client has;
  \<open>repack_for_bd\<close> puts the missing steps in front of a batch. The locale \<open>delivery\<close> is
  the contract the nodes rely on, and its consequence is that every client receives the whole step
  data once and in order.

  The size of a dgram is read by \<open>Dgram\<close>, a class of a C extension: it is the parameter
  \<open>dsize\<close> (configuration, buffer, offset). Client numbers start at 1.
\<close>

section \<open>StepHistory\<close>

record step_history =
  n_smds :: nat
  bufs :: "bytes list"
  send_history :: "nat list list"

definition sh_init :: "nat \<Rightarrow> nat \<Rightarrow> step_history" where
  "sh_init client_size n =
     \<lparr>n_smds = n, bufs = replicate n [], send_history = replicate (client_size - 1) (replicate n 0)\<rparr>"

text \<open>\<open>client_id - 1\<close> as a Python index: client 0 is the last row.\<close>

definition client_row :: "step_history \<Rightarrow> nat \<Rightarrow> nat" where
  "client_row sh c = (if c = 0 then length (send_history sh) - 1 else c - 1)"

definition add_sent :: "nat \<Rightarrow> nat \<Rightarrow> nat \<Rightarrow> step_history \<Rightarrow> pyexc + step_history" where
  "add_sent idx i n sh =
     (if idx < length (send_history sh) \<and> i < length (send_history sh ! idx)
      then Inr (sh\<lparr>send_history := (send_history sh)[idx := (send_history sh ! idx)[i := send_history sh ! idx ! i + n]]\<rparr>)
      else Inl IndexError)"

fun extend_views :: "nat \<Rightarrow> nat \<Rightarrow> bytes list \<Rightarrow> step_history \<Rightarrow> pyexc + step_history" where
  "extend_views idx i [] sh = Inr sh"
| "extend_views idx i (v # vs) sh =
     (if i < length (bufs sh)
      then (case add_sent idx i (length v) (sh\<lparr>bufs := (bufs sh)[i := bufs sh ! i @ v]\<rparr>) of
              Inl e \<Rightarrow> Inl e
            | Inr sh' \<Rightarrow> extend_views idx (Suc i) vs sh')
      else Inl IndexError)"

fun extend_events :: "nat \<Rightarrow> bytes list \<Rightarrow> step_history \<Rightarrow> pyexc + step_history" where
  "extend_events idx [] sh = Inr sh"
| "extend_events idx (e # es) sh =
     (case pf_init 0 (Some e) of Inl x \<Rightarrow> Inl x
      | Inr pf \<Rightarrow>
          if n_packets pf = n_smds sh
          then (case split_packets pf of Inl x \<Rightarrow> Inl x
                | Inr ds \<Rightarrow> (case extend_views idx 0 ds sh of Inl x \<Rightarrow> Inl x
                             | Inr sh' \<Rightarrow> extend_events idx es sh'))
          else Inl AssertionError)"

definition extend_buffers :: "bytes list \<Rightarrow> nat \<Rightarrow> bool \<Rightarrow> step_history \<Rightarrow> pyexc + step_history" where
  "extend_buffers views c as_event sh =
     (if as_event then extend_events (client_row sh c) views sh
      else extend_views (client_row sh c) 0 views sh)"

fun update_views :: "nat \<Rightarrow> nat \<Rightarrow> bytes list \<Rightarrow> step_history \<Rightarrow> pyexc + step_history" where
  "update_views idx i [] sh = Inr sh"
| "update_views idx i (v # vs) sh =
     (case add_sent idx i (length v) sh of Inl e \<Rightarrow> Inl e | Inr sh' \<Rightarrow> update_views idx (Suc i) vs sh')"

definition update_history :: "bytes list \<Rightarrow> nat \<Rightarrow> step_history \<Rightarrow> pyexc + step_history" where
  "update_history views c sh = update_views (client_row sh c) 0 views sh"

text \<open>The new part of each buffer for a client, which is then recorded as sent.\<close>

definition get_buffer :: "nat \<Rightarrow> step_history \<Rightarrow> pyexc + bytes list \<times> step_history" where
  "get_buffer c sh =
     (if n_smds sh = 0 then Inr ([], sh)
      else (let idx = client_row sh c in
        if idx < length (send_history sh) \<and> length (bufs sh) \<le> length (send_history sh ! idx)
        then (let sent = send_history sh ! idx in
          Inr (map2 drop (take (length (bufs sh)) sent) (bufs sh),
               sh\<lparr>send_history := (send_history sh)[idx :=
                    map2 (\<lambda>off b. if off < length b then length b else off) sent (bufs sh)
                      @ drop (length (bufs sh)) sent]\<rparr>))
        else Inl IndexError))"

section \<open>The contract of delivery\<close>

text \<open>
  A store of data on \<open>n\<close> channels with a position per client. \<open>fetch\<close> hands a client what
  lies behind its position and moves it to the end, \<open>publish\<close> appends data that its client
  already has. The nodes serve a client by fetching for it and then publishing its own data.
\<close>

locale delivery =
  fixes n :: nat and clients :: "nat set" and wf :: "'s \<Rightarrow> bool"
    and log :: "'s \<Rightarrow> nat \<Rightarrow> 'b list" and seen :: "'s \<Rightarrow> nat \<Rightarrow> nat \<Rightarrow> nat"
    and fetch :: "nat \<Rightarrow> 's \<Rightarrow> (nat \<Rightarrow> 'b list) \<times> 's"
    and publish :: "nat \<Rightarrow> (nat \<Rightarrow> 'b list) \<Rightarrow> 's \<Rightarrow> 's"
  assumes fetch_wf: "wf s \<Longrightarrow> c \<in> clients \<Longrightarrow> wf (snd (fetch c s))"
    and publish_wf: "wf s \<Longrightarrow> c \<in> clients \<Longrightarrow> wf (publish c xs s)"
    and fetch_data: "wf s \<Longrightarrow> c \<in> clients \<Longrightarrow> i < n \<Longrightarrow> fst (fetch c s) i = drop (seen s c i) (log s i)"
    and fetch_log: "wf s \<Longrightarrow> c \<in> clients \<Longrightarrow> i < n \<Longrightarrow> log (snd (fetch c s)) i = log s i"
    and fetch_seen: "wf s \<Longrightarrow> c \<in> clients \<Longrightarrow> d \<in> clients \<Longrightarrow> i < n \<Longrightarrow> seen s c i \<le> length (log s i) \<Longrightarrow>
      seen (snd (fetch c s)) d i = (if d = c then length (log s i) else seen s d i)"
    and publish_log: "wf s \<Longrightarrow> c \<in> clients \<Longrightarrow> i < n \<Longrightarrow> log (publish c xs s) i = log s i @ xs i"
    and publish_seen: "wf s \<Longrightarrow> c \<in> clients \<Longrightarrow> d \<in> clients \<Longrightarrow> i < n \<Longrightarrow>
      seen (publish c xs s) d i = (if d = c then seen s d i + length (xs i) else seen s d i)"
begin

text \<open>A client's stream: what it fetched and its own data, in the order it got them.\<close>

definition serve :: "nat \<Rightarrow> (nat \<Rightarrow> 'b list) \<Rightarrow> 's \<times> (nat \<Rightarrow> nat \<Rightarrow> 'b list) \<Rightarrow> 's \<times> (nat \<Rightarrow> nat \<Rightarrow> 'b list)" where
  "serve c xs st =
     (case fetch c (fst st) of (missing, s1) \<Rightarrow>
        (publish c xs s1, (snd st)(c := (\<lambda>i. snd st c i @ missing i @ xs i))))"

definition in_step :: "'s \<times> (nat \<Rightarrow> nat \<Rightarrow> 'b list) \<Rightarrow> bool" where
  "in_step st \<longleftrightarrow> wf (fst st) \<and> (\<forall>c\<in>clients. \<forall>i<n. seen (fst st) c i \<le> length (log (fst st) i)
     \<and> snd st c i = take (seen (fst st) c i) (log (fst st) i))"

lemma serve_in_step:
  assumes st: "in_step st" and c: "c \<in> clients"
  shows "in_step (serve c xs st)"
    and "i < n \<Longrightarrow> log (fst (serve c xs st)) i = log (fst st) i @ xs i"
    and "i < n \<Longrightarrow> snd (serve c xs st) c i = log (fst st) i @ xs i"
proof -
  obtain s rcv where [simp]: "st = (s, rcv)" by (cases st)
  obtain missing s1 where f: "fetch c s = (missing, s1)" by (cases "fetch c s")
  have s: "wf s" "\<And>d i. d \<in> clients \<Longrightarrow> i < n \<Longrightarrow> seen s d i \<le> length (log s i) \<and> rcv d i = take (seen s d i) (log s i)"
    using st by (auto simp: in_step_def)
  have s1: "wf s1" "\<And>i. i < n \<Longrightarrow> missing i = drop (seen s c i) (log s i)" "\<And>i. i < n \<Longrightarrow> log s1 i = log s i"
    "\<And>d i. d \<in> clients \<Longrightarrow> i < n \<Longrightarrow> seen s1 d i = (if d = c then length (log s i) else seen s d i)"
    using fetch_wf [OF s(1) c] fetch_data [OF s(1) c] fetch_log [OF s(1) c] fetch_seen [OF s(1) c] s(2) c f
    by auto
  have sv: "serve c xs (s, rcv) = (publish c xs s1, rcv(c := (\<lambda>i. rcv c i @ missing i @ xs i)))"
    by (simp add: serve_def f)
  show "in_step (serve c xs st)"
    using s s1 c publish_wf [OF s1(1) c] publish_log [OF s1(1) c] publish_seen [OF s1(1) c]
    by (auto simp: in_step_def sv trans_le_add1)
  show "i < n \<Longrightarrow> log (fst (serve c xs st)) i = log (fst st) i @ xs i"
    using s1 publish_log [OF s1(1) c] by (simp add: sv)
  show "i < n \<Longrightarrow> snd (serve c xs st) c i = log (fst st) i @ xs i"
    using s(2) [OF c] s1 by (simp add: sv)
qed

text \<open>A fetch alone brings a client up to date.\<close>

lemma fetch_in_step:
  assumes st: "in_step st" and c: "c \<in> clients"
  shows "in_step (snd (fetch c (fst st)), (snd st)(c := (\<lambda>i. snd st c i @ fst (fetch c (fst st)) i)))"
    and "i < n \<Longrightarrow> snd st c i @ fst (fetch c (fst st)) i = log (fst st) i"
proof -
  have s: "wf (fst st)" "\<And>d i. d \<in> clients \<Longrightarrow> i < n \<Longrightarrow> seen (fst st) d i \<le> length (log (fst st) i)
      \<and> snd st d i = take (seen (fst st) d i) (log (fst st) i)"
    using st by (auto simp: in_step_def)
  show "in_step (snd (fetch c (fst st)), (snd st)(c := (\<lambda>i. snd st c i @ fst (fetch c (fst st)) i)))"
    using fetch_wf [OF s(1) c] fetch_data [OF s(1) c] fetch_log [OF s(1) c] fetch_seen [OF s(1) c] s(2) c
    by (auto simp: in_step_def)
  show "i < n \<Longrightarrow> snd st c i @ fst (fetch c (fst st)) i = log (fst st) i"
    using s(2) [OF c] fetch_data [OF s(1) c] by simp
qed

text \<open>Data appended in any way, for a client that is up to date, keeps the streams in step.\<close>

lemma append_in_step:
  assumes st: "in_step (s, rcv)" and c: "c \<in> clients" and cur: "\<And>i. i < n \<Longrightarrow> rcv c i = log s i"
    and s': "wf s'" "\<And>i. i < n \<Longrightarrow> log s' i = log s i @ xs i"
    and seen: "\<And>d i. d \<in> clients \<Longrightarrow> i < n \<Longrightarrow> seen s' d i = (if d = c then seen s d i + length (xs i) else seen s d i)"
  shows "in_step (s', rcv(c := (\<lambda>i. rcv c i @ xs i)))"
proof -
  have full: "seen s c i = length (log s i)" if "i < n" for i
  proof -
    have "seen s c i \<le> length (log s i)" "log s i = take (seen s c i) (log s i)"
      using st c cur [OF that] that by (auto simp: in_step_def)
    then have "length (log s i) = min (length (log s i)) (seen s c i)" by (metis length_take)
    then show ?thesis using \<open>seen s c i \<le> length (log s i)\<close> by simp
  qed
  show ?thesis
    using st s' seen cur full by (auto simp: in_step_def trans_le_add1)
qed

text \<open>Any sequence of services keeps every client in step with the log.\<close>

lemma serve_all:
  assumes "in_step st" and "\<And>c xs. (c, xs) \<in> set ops \<Longrightarrow> c \<in> clients" and "i < n"
  shows "in_step (fold (\<lambda>(c, xs). serve c xs) ops st)
    \<and> log (fst (fold (\<lambda>(c, xs). serve c xs) ops st)) i = log (fst st) i @ concat (map (\<lambda>(c, xs). xs i) ops)"
  using assms(1,2)
proof (induction ops arbitrary: st)
  case Nil
  then show ?case by simp
next
  case (Cons op ops)
  obtain c xs where op: "op = (c, xs)" by (cases op)
  have c: "c \<in> clients" using Cons.prems(2) op by auto
  show ?case
    using Cons.IH [OF serve_in_step(1) [OF Cons.prems(1) c, of xs]] Cons.prems(2)
      serve_in_step(2) [OF Cons.prems(1) c assms(3)] op by auto
qed

end

section \<open>StepHistory delivers\<close>

definition sh_wf :: "nat \<Rightarrow> nat \<Rightarrow> step_history \<Rightarrow> bool" where
  "sh_wf n m sh \<longleftrightarrow> n_smds sh = n \<and> length (bufs sh) = n \<and> length (send_history sh) = m
     \<and> (\<forall>row\<in>set (send_history sh). length row = n)"

definition sh_log :: "step_history \<Rightarrow> nat \<Rightarrow> bytes" where
  "sh_log sh i = bufs sh ! i"

definition sh_seen :: "step_history \<Rightarrow> nat \<Rightarrow> nat \<Rightarrow> nat" where
  "sh_seen sh c i = send_history sh ! (c - 1) ! i"

definition sh_fetch :: "nat \<Rightarrow> step_history \<Rightarrow> (nat \<Rightarrow> bytes) \<times> step_history" where
  "sh_fetch c sh = (case get_buffer c sh of Inl e \<Rightarrow> (\<lambda>_. [], sh) | Inr (vs, sh') \<Rightarrow> (\<lambda>i. vs ! i, sh'))"

definition sh_publish :: "nat \<Rightarrow> nat \<Rightarrow> (nat \<Rightarrow> bytes) \<Rightarrow> step_history \<Rightarrow> step_history" where
  "sh_publish n c xs sh = (case extend_buffers (map xs [0..<n]) c False sh of Inl e \<Rightarrow> sh | Inr sh' \<Rightarrow> sh')"

lemma get_buffer_run:
  assumes "sh_wf n m sh" and "c \<in> {1..m}" and "0 < n"
  shows "\<exists>vs sh'. get_buffer c sh = Inr (vs, sh') \<and> sh_wf n m sh' \<and> bufs sh' = bufs sh \<and> length vs = n
    \<and> (\<forall>i<n. vs ! i = drop (sh_seen sh c i) (sh_log sh i))
    \<and> (\<forall>d\<in>{1..m}. \<forall>i<n. sh_seen sh' d i = (if d = c then max (sh_seen sh c i) (length (sh_log sh i)) else sh_seen sh d i))"
proof -
  let ?sent = "send_history sh ! (c - 1)"
  let ?new = "map2 (\<lambda>off b. if off < length b then length b else off) ?sent (bufs sh) @ drop (length (bufs sh)) ?sent"
  have idx: "client_row sh c = c - 1" "c - 1 < length (send_history sh)"
    using assms by (auto simp: client_row_def sh_wf_def)
  have sent: "length ?sent = n" using assms(1) idx(2) by (auto simp: sh_wf_def)
  have b: "length (bufs sh) = n" using assms(1) by (simp add: sh_wf_def)
  have run: "get_buffer c sh = Inr (map2 drop ?sent (bufs sh), sh\<lparr>send_history := (send_history sh)[c - 1 := ?new]\<rparr>)"
    using assms idx sent b by (simp add: get_buffer_def sh_wf_def Let_def)
  have "set ((send_history sh)[c - 1 := ?new]) \<subseteq> insert ?new (set (send_history sh))"
    by (rule set_update_subset_insert)
  then have wf': "sh_wf n m (sh\<lparr>send_history := (send_history sh)[c - 1 := ?new]\<rparr>)"
    using assms(1) sent b by (auto simp: sh_wf_def)
  have seen: "sh_seen (sh\<lparr>send_history := (send_history sh)[c - 1 := ?new]\<rparr>) d i
      = (if d = c then max (sh_seen sh c i) (length (sh_log sh i)) else sh_seen sh d i)"
    if "d \<in> {1..m}" "i < n" for d i
    using that assms(1,2) idx sent b by (auto simp: sh_seen_def sh_log_def sh_wf_def nth_list_update nth_append)
  show ?thesis using run wf' seen sent b by (auto simp: sh_seen_def sh_log_def)
qed

lemma extend_views_run:
  assumes "sh_wf n m sh" and "idx < m" and "k + length vs \<le> n"
  shows "\<exists>sh'. extend_views idx k vs sh = Inr sh' \<and> sh_wf n m sh'
    \<and> (\<forall>i<n. bufs sh' ! i = bufs sh ! i @ (if k \<le> i \<and> i < k + length vs then vs ! (i - k) else []))
    \<and> (\<forall>r<m. \<forall>i<n. send_history sh' ! r ! i = send_history sh ! r ! i
         + (if r = idx \<and> k \<le> i \<and> i < k + length vs then length (vs ! (i - k)) else 0))"
  using assms
proof (induction vs arbitrary: k sh)
  case Nil
  then show ?case by auto
next
  case (Cons v vs)
  let ?row = "send_history sh ! idx"
  define sh1 where "sh1 = sh\<lparr>bufs := (bufs sh)[k := bufs sh ! k @ v],
      send_history := (send_history sh)[idx := ?row[k := ?row ! k + length v]]\<rparr>"
  have len: "length ?row = n" "length (bufs sh) = n" "length (send_history sh) = m" "k < n"
    using Cons.prems by (auto simp: sh_wf_def)
  have step: "extend_views idx k (v # vs) sh = extend_views idx (Suc k) vs sh1"
    using Cons.prems len by (simp add: add_sent_def sh1_def)
  have "set (send_history sh1) \<subseteq> insert (?row[k := ?row ! k + length v]) (set (send_history sh))"
    unfolding sh1_def by (simp add: set_update_subset_insert)
  then have wf1: "sh_wf n m sh1"
    using Cons.prems(1) len by (auto simp: sh_wf_def sh1_def)
  obtain sh' where IH: "extend_views idx (Suc k) vs sh1 = Inr sh'" "sh_wf n m sh'"
    "\<forall>i<n. bufs sh' ! i = bufs sh1 ! i @ (if Suc k \<le> i \<and> i < Suc k + length vs then vs ! (i - Suc k) else [])"
    "\<forall>r<m. \<forall>i<n. send_history sh' ! r ! i = send_history sh1 ! r ! i
         + (if r = idx \<and> Suc k \<le> i \<and> i < Suc k + length vs then length (vs ! (i - Suc k)) else 0)"
    using Cons.IH [OF wf1 Cons.prems(2), of "Suc k"] Cons.prems(3) by auto
  have "bufs sh' ! i = bufs sh ! i @ (if k \<le> i \<and> i < k + length (v # vs) then (v # vs) ! (i - k) else [])"
    if "i < n" for i
  proof -
    consider "i < k" | "i = k" | "k < i" by linarith
    then show ?thesis using IH(3) that len by cases (simp_all add: sh1_def nth_list_update nth_Cons' Suc_le_eq)
  qed
  moreover have "send_history sh' ! r ! i = send_history sh ! r ! i
         + (if r = idx \<and> k \<le> i \<and> i < k + length (v # vs) then length ((v # vs) ! (i - k)) else 0)"
    if "r < m" "i < n" for r i
  proof -
    consider "i < k" | "i = k" | "k < i" by linarith
    then show ?thesis using IH(4) that len Cons.prems(2)
      by cases (simp_all add: sh1_def nth_list_update nth_Cons' Suc_le_eq)
  qed
  ultimately show ?case using step IH(1,2) by auto
qed

lemma extend_buffers_run:
  assumes "sh_wf n m sh" and "c \<in> {1..m}" and "length vs = n"
  shows "\<exists>sh'. extend_buffers vs c False sh = Inr sh' \<and> sh_wf n m sh'
    \<and> (\<forall>i<n. sh_log sh' i = sh_log sh i @ vs ! i)
    \<and> (\<forall>d\<in>{1..m}. \<forall>i<n. sh_seen sh' d i = (if d = c then sh_seen sh d i + length (vs ! i) else sh_seen sh d i))"
proof -
  have idx: "client_row sh c = c - 1" "c - 1 < m" using assms(2) by (auto simp: client_row_def)
  obtain sh' where run: "extend_views (c - 1) 0 vs sh = Inr sh'" "sh_wf n m sh'"
    "\<forall>i<n. bufs sh' ! i = bufs sh ! i @ (if 0 \<le> i \<and> i < 0 + length vs then vs ! (i - 0) else [])"
    "\<forall>r<m. \<forall>i<n. send_history sh' ! r ! i = send_history sh ! r ! i
         + (if r = c - 1 \<and> 0 \<le> i \<and> i < 0 + length vs then length (vs ! (i - 0)) else 0)"
    using extend_views_run [OF assms(1) idx(2), of 0 vs] assms(3) by auto
  have "sh_seen sh' d i = (if d = c then sh_seen sh d i + length (vs ! i) else sh_seen sh d i)"
    if "d \<in> {1..m}" "i < n" for d i
  proof -
    have "d - 1 < m" "(d - 1 = c - 1) = (d = c)" using that(1) assms(2) by auto
    then show ?thesis using run(4) that(2) assms(3) by (simp add: sh_seen_def)
  qed
  then show ?thesis using run assms(3) idx by (auto simp: extend_buffers_def sh_log_def)
qed

lemma sh_delivery:
  assumes "0 < n"
  shows "delivery n {1..m} (sh_wf n m) sh_log sh_seen sh_fetch (sh_publish n)"
proof (unfold_locales, goal_cases)
  case (1 s c)
  then show ?case using get_buffer_run [OF 1 assms] by (auto simp: sh_fetch_def)
next
  case (2 s c xs)
  then show ?case using extend_buffers_run [OF 2, of "map xs [0..<n]"] by (auto simp: sh_publish_def)
next
  case (3 s c i)
  then show ?case using get_buffer_run [OF 3(1,2) assms] by (auto simp: sh_fetch_def)
next
  case (4 s c i)
  then show ?case using get_buffer_run [OF 4(1,2) assms] by (auto simp: sh_fetch_def sh_log_def)
next
  case (5 s c d i)
  then show ?case using get_buffer_run [OF 5(1,2) assms] by (auto simp: sh_fetch_def)
next
  case (6 s c i xs)
  then show ?case using extend_buffers_run [OF 6(1,2), of "map xs [0..<n]"] by (auto simp: sh_publish_def)
next
  case (7 s c d i xs)
  then show ?case using extend_buffers_run [OF 7(1,2), of "map xs [0..<n]"] by (auto simp: sh_publish_def)
qed

interpretation sh: delivery "Suc k" "{1..m}" "sh_wf (Suc k) m" sh_log sh_seen sh_fetch "sh_publish (Suc k)" for k m
  by (rule sh_delivery) simp

end
