(* ===== verification/Repack.thy ===== *)
theory Repack
  imports StepHistory
begin

text \<open>
  \<open>repack_for_bd\<close> of \<^verbatim>\<open>psana/psana/psexp/node.py\<close>: the missing steps of a
  client, one event per step, are put in front of a batch of events, and the footers are built
  again.
\<close>

section \<open>The code\<close>

text \<open>One event of step dgrams: the dgrams of the files at their offsets.\<close>

fun step_dgrams ::
    "('c \<Rightarrow> bytes \<Rightarrow> nat \<Rightarrow> pyexc + nat) \<Rightarrow> ('c \<times> bytes \<times> nat) list \<Rightarrow> pyexc + bytes list" where
  "step_dgrams dsize [] = Inr []"
| "step_dgrams dsize ((config, view, off) # rest) =
     (case dsize config view off of Inl e \<Rightarrow> Inl e
      | Inr sz \<Rightarrow>
          (case step_dgrams dsize rest of Inl e \<Rightarrow> Inl e
           | Inr ds \<Rightarrow> Inr (slice off (off + sz) view # ds)))"

definition step_event :: "nat \<Rightarrow> bytes list \<Rightarrow> pyexc + bytes" where
  "step_event n ds =
     (case pf_init n None of Inl e \<Rightarrow> Inl e
      | Inr pf \<Rightarrow> (case set_sizes 0 ds pf of Inl e \<Rightarrow> Inl e | Inr pf' \<Rightarrow> Inr (concat ds @ footer pf')))"

text \<open>\<open>offsets[i] += d._size\<close>\<close>

definition advance :: "nat list \<Rightarrow> nat list \<Rightarrow> nat list" where
  "advance offsets sizes = map2 (+) offsets sizes @ drop (length sizes) offsets"

text \<open>
  The loop over the events of the first step view. It need not end (a dgram of size 0 moves no
  offset): its value is then None.
\<close>

partial_function (option) step_events ::
    "('c \<Rightarrow> bytes \<Rightarrow> nat \<Rightarrow> pyexc + nat) \<Rightarrow> 'c list \<Rightarrow> bytes list \<Rightarrow> nat list \<Rightarrow> (pyexc + bytes list) option" where
  "step_events dsize configs views offsets =
     (if offsets ! 0 < length (views ! 0)
      then (case step_dgrams dsize (zip configs (zip views offsets)) of Inl e \<Rightarrow> Some (Inl e)
            | Inr ds \<Rightarrow>
                (case step_event (length views) ds of Inl e \<Rightarrow> Some (Inl e)
                 | Inr ev \<Rightarrow>
                     Option.bind (step_events dsize configs views (advance offsets (map length ds)))
                       (\<lambda>r. Some (case r of Inl e \<Rightarrow> Inl e | Inr evs \<Rightarrow> Inr (ev # evs)))))
      else Some (Inr []))"

fun set_lengths :: "nat \<Rightarrow> nat list \<Rightarrow> packet_footer \<Rightarrow> pyexc + packet_footer" where
  "set_lengths i [] pf = Inr pf"
| "set_lengths i (s # ss) pf =
     (case set_size i s pf of Inl e \<Rightarrow> Inl e | Inr pf' \<Rightarrow> set_lengths (Suc i) ss pf')"

text \<open>What is done with the events of the steps: their sizes and those of the batch, the data, the footer.\<close>

definition put_in_front :: "bytes list \<Rightarrow> packet_footer \<Rightarrow> bytes \<Rightarrow> pyexc + bytes" where
  "put_in_front steps batch_pf smd_batch =
     (case pf_init (n_packets batch_pf + length steps) None of Inl e \<Rightarrow> Inl e
      | Inr pf0 \<Rightarrow>
          (case get_sizes [0..<n_packets batch_pf] batch_pf of Inl e \<Rightarrow> Inl e
           | Inr old \<Rightarrow>
               (case set_lengths 0 (map length steps @ old) pf0 of Inl e \<Rightarrow> Inl e
                | Inr pf \<Rightarrow> Inr (concat steps
                    @ take (length smd_batch - length (footer batch_pf)) smd_batch @ footer pf))))"

definition repack_for_bd ::
    "('c \<Rightarrow> bytes \<Rightarrow> nat \<Rightarrow> pyexc + nat) \<Rightarrow> 'c list \<Rightarrow> bytes \<Rightarrow> bytes list \<Rightarrow> (pyexc + bytes) option" where
  "repack_for_bd dsize configs smd_batch step_views =
     (if step_views = [] then Some (Inr smd_batch)
      else case pf_init 0 (Some smd_batch) of Inl e \<Rightarrow> Some (Inl e)
      | Inr batch_pf \<Rightarrow>
          Option.bind (step_events dsize configs step_views (replicate (length step_views) 0))
            (\<lambda>r. Some (case r of Inl e \<Rightarrow> Inl e | Inr steps \<Rightarrow> put_in_front steps batch_pf smd_batch)))"

section \<open>What a batch holds\<close>

text \<open>A batch of given events: empty, or the events and their footer.\<close>

definition batch_of :: "bytes list \<Rightarrow> bytes" where
  "batch_of evs = (if evs = [] then [] else concat evs @ footer_of (map length evs))"

lemma set_lengths_sizes: "set_lengths i (map length ps) pf = set_sizes i ps pf"
  by (induction i ps pf rule: set_sizes.induct) (auto split: sum.splits)

lemma step_event_pack:
  assumes "sizes_ok (map length ds)" and "ds \<noteq> []"
  shows "step_event (length ds) ds = Inr (concat ds @ footer_of (map length ds))"
  using set_sizes_new [OF assms] by (auto simp: step_event_def)

text \<open>
  Step views that are columns of dgrams: file \<open>i\<close> holds \<open>rows ! 0 ! i, rows ! 1 ! i, ...\<close>.
  \<open>dsize\<close> reads the size of the dgram at each position the loop visits.
\<close>

definition column :: "bytes list list \<Rightarrow> nat \<Rightarrow> bytes" where
  "column rows i = concat (map (\<lambda>row. row ! i) rows)"

definition rows_ok :: "('c \<Rightarrow> bytes \<Rightarrow> nat \<Rightarrow> pyexc + nat) \<Rightarrow> 'c list \<Rightarrow> bytes list list \<Rightarrow> bool" where
  "rows_ok dsize configs rows \<longleftrightarrow>
     (\<forall>row\<in>set rows. length row = length configs \<and> sizes_ok (map length row) \<and> list_all (\<lambda>d. d \<noteq> []) row)
     \<and> (\<forall>i<length configs. \<forall>k<length rows.
          dsize (configs ! i) (column rows i) (length (column (take k rows) i)) = Inr (length (rows ! k ! i)))"

lemma slice_middle: "slice (length p) (length p + length d) (p @ d @ r) = d"
  by (simp add: slice_def)

lemma column_split: "k < length rows \<Longrightarrow>
    column rows i = column (take k rows) i @ rows ! k ! i @ column (drop (Suc k) rows) i"
  unfolding column_def by (subst id_take_nth_drop [of k rows]) simp_all

lemma step_dgrams_row:
  assumes ok: "rows_ok dsize configs rows" and k: "k < length rows" and "js = map (\<lambda>i. i) is"
    and "set is \<subseteq> {..<length configs}"
  shows "step_dgrams dsize (map (\<lambda>i. (configs ! i, column rows i, length (column (take k rows) i))) is)
    = Inr (map (\<lambda>i. rows ! k ! i) is)"
  using assms(4)
proof (induction "is")
  case Nil
  then show ?case by simp
next
  case (Cons i js)
  have i: "i < length configs" using Cons.prems by simp
  have ds: "dsize (configs ! i) (column rows i) (length (column (take k rows) i)) = Inr (length (rows ! k ! i))"
    using ok k i by (simp add: rows_ok_def)
  have "rows ! k \<in> set rows" using k by simp
  then have "length (rows ! k) = length configs" "list_all (\<lambda>d. d \<noteq> []) (rows ! k)"
    using ok by (auto simp: rows_ok_def)
  then have ne: "length (rows ! k ! i) \<noteq> 0" using i by (simp add: list_all_length)
  have "slice (length (column (take k rows) i)) (length (column (take k rows) i) + length (rows ! k ! i)) (column rows i)
      = rows ! k ! i"
    by (subst column_split [OF k]) (rule slice_middle)
  then show ?case using ds ne Cons.IH Cons.prems by simp
qed

definition row_event :: "bytes list \<Rightarrow> bytes" where
  "row_event row = concat row @ footer_of (map length row)"

lemma zip_map_upt:
  assumes "length xs = n"
  shows "zip xs (zip (map f [0..<n]) (map g [0..<n])) = map (\<lambda>i. (xs ! i, f i, g i)) [0..<n]"
  using assms by (intro nth_equalityI) auto

lemma step_events_rows:
  assumes ok: "rows_ok dsize configs rows" and n: "configs \<noteq> []" and k: "k \<le> length rows"
  shows "step_events dsize configs (map (column rows) [0..<length configs])
      (map (\<lambda>i. length (column (take k rows) i)) [0..<length configs]) = Some (Inr (map row_event (drop k rows)))"
  using k
proof (induction "length rows - k" arbitrary: k)
  case 0
  then show ?case using n by (subst step_events.simps) simp
next
  case (Suc j)
  then have k: "k < length rows" by simp
  let ?n = "length configs"
  let ?views = "map (column rows) [0..<?n]"
  let ?offs = "\<lambda>k. map (\<lambda>i. length (column (take k rows) i)) [0..<?n]"
  have row: "rows ! k \<in> set rows" using k by simp
  have len: "length (rows ! k) = ?n" and sz: "sizes_ok (map length (rows ! k))" and ne: "list_all (\<lambda>d. d \<noteq> []) (rows ! k)"
    using ok row by (auto simp: rows_ok_def)
  have ds: "step_dgrams dsize (zip configs (zip ?views (?offs k))) = Inr (rows ! k)"
  proof -
    have "step_dgrams dsize (zip configs (zip ?views (?offs k))) = Inr (map (\<lambda>i. rows ! k ! i) [0..<?n])"
      by (subst zip_map_upt) (auto intro!: step_dgrams_row [OF ok k])
    then show ?thesis using len by (metis map_nth)
  qed
  have ev: "step_event (length ?views) (rows ! k) = Inr (row_event (rows ! k))"
    using step_event_pack [OF sz] n len by (cases "rows ! k = []") (auto simp: row_event_def)
  have col: "length (column (take (Suc k) rows) i) = length (column (take k rows) i) + length (rows ! k ! i)" for i
    using k by (simp add: column_def take_Suc_conv_app_nth)
  have adv: "advance (?offs k) (map length (rows ! k)) = ?offs (Suc k)"
    using len by (intro nth_equalityI) (auto simp: advance_def col)
  have pos: "0 < length (rows ! k ! 0)" using ne n len by (auto simp: list_all_length)
  have more: "?offs k ! 0 < length (?views ! 0)"
    using n pos by (simp add: column_split [OF k])
  have "step_events dsize configs ?views (?offs (Suc k)) = Some (Inr (map row_event (drop (Suc k) rows)))"
    using Suc k by (intro Suc.hyps(1)) auto
  then show ?case
    using more ds ev k by (subst step_events.simps) (simp add: adv Cons_nth_drop_Suc [symmetric])
qed

lemma set_lengths_footer:
  assumes "sizes_ok sizes" and "sizes \<noteq> []"
  shows "\<exists>pf pf'. pf_init (length sizes) None = Inr pf \<and> set_lengths 0 sizes pf = Inr pf' \<and> footer pf' = footer_of sizes"
proof -
  let ?ps = "map (\<lambda>s. replicate s (0 :: byte)) sizes"
  have eq: "map length ?ps = sizes" by (simp add: comp_def)
  then have "set_lengths i sizes pf = set_sizes i ?ps pf" for i pf using set_lengths_sizes [of i ?ps pf] by simp
  then show ?thesis using set_sizes_new [of ?ps] assms eq by auto
qed

text \<open>Repacking puts the events of the missing steps in front of those of the batch.\<close>

lemma repack_rows:
  assumes ok: "rows_ok dsize configs rows" and n: "configs \<noteq> []"
    and sz: "sizes_ok (map length (map row_event rows @ evs))"
  shows "repack_for_bd dsize configs (batch_of evs) (map (column rows) [0..<length configs])
    = Some (Inr (batch_of (map row_event rows @ evs)))"
proof -
  let ?views = "map (column rows) [0..<length configs]"
  have sizes: "sizes_ok (map length evs)" using sz by (auto simp: sizes_ok_def)
  obtain bpf where bpf: "pf_init 0 (Some (batch_of evs)) = Inr bpf" "n_packets bpf = length evs"
    "take (length (batch_of evs) - length (footer bpf)) (batch_of evs) = concat evs"
    "get_sizes [0..<length evs] bpf = Inr (map length evs)" "evs = [] \<longrightarrow> footer bpf = []"
  proof (cases "evs = []")
    case True
    then show ?thesis using that [of "\<lparr>n_packets = 0, footer = [], pf_view = None\<rparr>"]
      by (simp add: batch_of_def pf_init_def)
  next
    case False
    let ?pf = "\<lparr>n_packets = length evs, footer = footer_of (map length evs), pf_view = Some (batch_of evs)\<rparr>"
    have "get_sizes [0..<length evs] ?pf = Inr (map (\<lambda>i. map length evs ! i) [0..<length evs])"
      using sizes by (intro get_sizes_map get_size_footer_of) auto
    moreover have "map (\<lambda>i. map length evs ! i) [0..<length evs] = map length evs"
      by (metis length_map map_nth)
    ultimately have "get_sizes [0..<length evs] ?pf = Inr (map length evs)" by simp
    then show ?thesis using that [of ?pf] pf_init_view [OF sizes, of "concat evs"] False
      by (simp add: batch_of_def)
  qed
  have "replicate (length ?views) 0 = map (\<lambda>i. length (column (take 0 rows) i)) [0..<length configs]"
    by (simp add: column_def map_replicate_const)
  then have st: "step_events dsize configs ?views (replicate (length ?views) 0) = Some (Inr (map row_event rows))"
    using step_events_rows [OF ok n, of 0] by simp
  show ?thesis
  proof (cases "map row_event rows @ evs = []")
    case True
    then show ?thesis using bpf st n by (simp add: repack_for_bd_def put_in_front_def batch_of_def pf_init_def)
  next
    case False
    then obtain pf pf' where pf: "pf_init (length (map row_event rows @ evs)) None = Inr pf"
      "set_lengths 0 (map length (map row_event rows @ evs)) pf = Inr pf'"
      "footer pf' = footer_of (map length (map row_event rows @ evs))"
      using set_lengths_footer [OF sz] by auto
    have "pf_init (n_packets bpf + length (map row_event rows)) None = Inr pf"
      using pf(1) bpf(2) by (simp add: add.commute)
    then have "put_in_front (map row_event rows) bpf (batch_of evs)
        = Inr (concat (map row_event rows) @ concat evs @ footer_of (map length (map row_event rows @ evs)))"
      using bpf(2,3,4) pf(2,3) by (simp add: put_in_front_def)
    then have "repack_for_bd dsize configs (batch_of evs) ?views
        = Some (Inr (concat (map row_event rows) @ concat evs @ footer_of (map length (map row_event rows @ evs))))"
      using bpf(1) st n by (simp add: repack_for_bd_def)
    also have "\<dots> = Some (Inr (batch_of (map row_event rows @ evs)))"
      unfolding batch_of_def using False by (simp only: if_False concat_append append_assoc)
    finally show ?thesis .
  qed
qed

end
