(* ===== verification/Smd0Node.thy ===== *)
theory Smd0Node
  imports StepHistory "HOL-Library.Sublist"
begin

text \<open>
  The ranks of parallel psana and the first of its nodes (\<^verbatim>\<open>psana/psana/psexp/node.py\<close>).
  \<open>Communicators\<close> gives every MPI rank its role. \<open>Smd0\<close> sends chunks of smalldata to
  the event builders that ask for them, with the step data they have missed in front, and in the end
  tells them to stop. The requests that arrive (\<open>Irecv\<close> from any source) are a list; waiting
  for one more ends the run as \<open>Blocked\<close>. Logging and the Prometheus counters are left out.
\<close>

section \<open>Communicators\<close>

datatype node_kind = Smd0Rank | EbRank | BdRank | SrvRank

text \<open>
  The ranks of the groups: the last \<open>PS_SRV_NODES\<close> ranks of the world are reserved, the first
  \<open>PS_EB_NODES + 1\<close> of the others are the smalldata group, all of the others but rank 0 the
  bigdata group, which is split by rank modulo the number of event builders.
\<close>

definition psana_group :: "nat \<Rightarrow> nat \<Rightarrow> nat list" where
  "psana_group world_size srv_nodes = [0..<world_size - srv_nodes]"

definition smd_group :: "nat \<Rightarrow> nat \<Rightarrow> nat \<Rightarrow> pyexc + nat list" where
  "smd_group world_size srv_nodes eb_nodes =
     (if eb_nodes + 1 \<le> world_size - srv_nodes then Inr [0..<eb_nodes + 1]
      else Inl (RuntimeError ''invalid rank''))"

definition bd_main_group :: "nat \<Rightarrow> nat \<Rightarrow> nat list" where
  "bd_main_group world_size srv_nodes = [1..<world_size - srv_nodes]"

definition bd_comm :: "nat \<Rightarrow> nat \<Rightarrow> nat \<Rightarrow> nat \<Rightarrow> nat list" where
  "bd_comm world_size srv_nodes eb_nodes color =
     filter (\<lambda>r. (r - 1) mod eb_nodes = color) (bd_main_group world_size srv_nodes)"

fun index_of :: "'a list \<Rightarrow> 'a \<Rightarrow> nat" where
  "index_of [] x = 0"
| "index_of (y # ys) x = (if x = y then 0 else Suc (index_of ys x))"

definition bd_rank :: "nat \<Rightarrow> nat \<Rightarrow> nat \<Rightarrow> nat \<Rightarrow> nat" where
  "bd_rank world_size srv_nodes eb_nodes r =
     index_of (bd_comm world_size srv_nodes eb_nodes ((r - 1) mod eb_nodes)) r"

definition node_type :: "nat \<Rightarrow> nat \<Rightarrow> nat \<Rightarrow> nat \<Rightarrow> pyexc + node_kind" where
  "node_type world_size srv_nodes eb_nodes rank =
     (if world_size < srv_nodes + 3 then Inl (RuntimeError ''Too few MPI cores to run parallel psana.'')
      else case smd_group world_size srv_nodes eb_nodes of Inl e \<Rightarrow> Inl e
      | Inr _ \<Rightarrow>
          if eb_nodes = 0 \<and> 0 < rank \<and> rank < world_size - srv_nodes then Inl (RuntimeError ''modulo by zero'')
          else Inr (if rank = 0 then Smd0Rank
               else if length (psana_group world_size srv_nodes) \<le> rank then SrvRank
               else if bd_rank world_size srv_nodes eb_nodes rank = 0 then EbRank else BdRank))"

lemma index_of_0: "xs \<noteq> [] \<Longrightarrow> index_of xs x = 0 \<longleftrightarrow> x = hd xs"
  by (cases xs) auto

lemma hd_filter_upt:
  assumes "c < k" and "c + 1 < n"
  shows "hd (filter (\<lambda>r. (r - 1) mod k = c) [1..<n]) = c + 1"
proof -
  have "[1..<n] = [1..<c + 1] @ [c + 1..<n]"
    using assms(2) upt_add_eq_append [of 1 "c + 1" "n - (c + 1)"] by simp
  also have "[c + 1..<n] = (c + 1) # [c + 2..<n]"
    using assms(2) by (simp add: upt_conv_Cons)
  finally have "[1..<n] = [1..<c + 1] @ (c + 1) # [c + 2..<n]" .
  moreover have "filter (\<lambda>r. (r - 1) mod k = c) [1..<c + 1] = []"
  proof -
    have "(r - 1) mod k \<noteq> c" if "r \<in> set [1..<c + 1]" for r
    proof -
      have "r - 1 < c" using that by auto
      then show ?thesis using assms(1) by (simp add: mod_less [of "r - 1" k])
    qed
    then show ?thesis by (simp add: filter_empty_conv)
  qed
  ultimately show ?thesis using assms(1) by simp
qed

text \<open>
  The ranks in use are one \<open>Smd0\<close>, then the event builders, then the bigdata nodes. The event
  builder of a bigdata node is the rank 0 of its communicator.
\<close>

lemma node_type_ranks:
  assumes "srv_nodes + 3 \<le> world_size" and "0 < eb_nodes" and "eb_nodes + 1 \<le> world_size - srv_nodes"
    and "rank < world_size"
  shows "node_type world_size srv_nodes eb_nodes rank =
    Inr (if rank = 0 then Smd0Rank else if rank \<le> eb_nodes then EbRank
         else if rank < world_size - srv_nodes then BdRank else SrvRank)"
proof -
  let ?c = "(rank - 1) mod eb_nodes"
  have "bd_rank world_size srv_nodes eb_nodes rank = 0 \<longleftrightarrow> rank \<le> eb_nodes"
    if r: "0 < rank" "rank < world_size - srv_nodes"
  proof -
    have "?c \<le> rank - 1" by (rule mod_less_eq_dividend)
    then have "?c + 1 \<le> rank" using r(1) by linarith
    moreover have "?c < eb_nodes" using assms(2) by simp
    ultimately have c: "?c < eb_nodes" "?c + 1 \<le> rank" "?c + 1 < world_size - srv_nodes"
      using r(2) by linarith+
    let ?bd = "bd_comm world_size srv_nodes eb_nodes ?c"
    have "hd ?bd = ?c + 1"
      unfolding bd_comm_def bd_main_group_def using c by (intro hd_filter_upt)
    moreover have "?bd \<noteq> []"
      using r by (auto simp: bd_comm_def bd_main_group_def filter_empty_conv intro!: bexI [of _ rank])
    ultimately have "bd_rank world_size srv_nodes eb_nodes rank = 0 \<longleftrightarrow> rank = ?c + 1"
      by (simp add: bd_rank_def index_of_0)
    also have "\<dots> \<longleftrightarrow> rank \<le> eb_nodes"
      using r(1) c(1) by (cases "rank \<le> eb_nodes") auto
    finally show ?thesis .
  qed
  then show ?thesis
    using assms by (auto simp: node_type_def smd_group_def psana_group_def)
qed

section \<open>Smd0\<close>

text \<open>
  What the reader shows of one viewing window: the step data and the smalldata of every file, the
  fake transitions to add (mostly none), and what is found after the window was sent: a terminating
  signal, the end of the run. \<open>repack_parallel\<close> is the reader's (\<^verbatim>\<open>smdreader.pyx\<close>).
\<close>

record chunk =
  ck_steps :: "bytes list"
  ck_smds :: "bytes list"
  ck_fake :: bytes
  ck_terminate :: bool
  ck_endrun :: bool

definition repack_parallel :: "chunk \<Rightarrow> bytes list \<Rightarrow> bool \<Rightarrow> pyexc + bytes" where
  "repack_parallel ck step_views only_steps =
     (if length step_views < length (ck_smds ck) then Inl IndexError
      else (let parts = map2 (\<lambda>sv smd. sv @ (if only_steps then [] else smd) @ ck_fake ck) step_views (ck_smds ck)
            in Inr (concat parts @ footer_of (map length parts))))"

text \<open>What is sent to a client: the bytes of a chunk, or the empty message.\<close>

datatype s0_send =
    ChunkSent nat bytes
  | NullSent nat

record smd0 =
  s0_hist :: step_history
  s0_view :: chunk
  s0_requests :: "nat list"
  s0_out :: "s0_send list"

type_synonym 'a s0 = "(smd0, 'a) eff"

definition s0_recv :: "nat s0" where
  "s0_recv = (\<lambda>s. case s0_requests s of [] \<Rightarrow> (Inl Blocked, s) | r # rs \<Rightarrow> (Inr r, s\<lparr>s0_requests := rs\<rparr>))"

definition s0_get_buffer :: "nat \<Rightarrow> bytes list s0" where
  "s0_get_buffer r = (\<lambda>s. case get_buffer r (s0_hist s) of
     Inl e \<Rightarrow> (Inl e, s) | Inr (vs, h) \<Rightarrow> (Inr vs, s\<lparr>s0_hist := h\<rparr>))"

definition s0_extend :: "bytes list \<Rightarrow> nat \<Rightarrow> unit s0" where
  "s0_extend vs r = (\<lambda>s. case extend_buffers vs r False (s0_hist s) of
     Inl e \<Rightarrow> (Inl e, s) | Inr h \<Rightarrow> (Inr (), s\<lparr>s0_hist := h\<rparr>))"

definition s0_repack :: "bytes list \<Rightarrow> bool \<Rightarrow> bytes s0" where
  "s0_repack vs only_steps = (\<lambda>s. (repack_parallel (s0_view s) vs only_steps, s))"

text \<open>\<open>requests[r - 1] = Isend(...)\<close> with one slot per client.\<close>

definition s0_isend :: "nat \<Rightarrow> nat \<Rightarrow> s0_send \<Rightarrow> unit s0" where
  "s0_isend smd_size r m =
     (if smd_size - 1 < r \<or> smd_size \<le> 1 then eraise IndexError else emod (\<lambda>s. s\<lparr>s0_out := s0_out s @ [m]\<rparr>))"

definition serve_chunk :: "nat \<Rightarrow> chunk \<Rightarrow> unit s0" where
  "serve_chunk smd_size ck =
     eseq (emod (\<lambda>s. s\<lparr>s0_view := ck\<rparr>))
    (ebind s0_recv (\<lambda>r.
     ebind (s0_get_buffer r) (\<lambda>missing.
     eseq (s0_extend (ck_steps ck) r)
    (ebind (s0_repack missing False) (\<lambda>batch.
     s0_isend smd_size r (ChunkSent r batch))))))"

text \<open>The loop over the chunks stops at a terminating signal and at the end of the run.\<close>

fun serve_chunks :: "nat \<Rightarrow> chunk list \<Rightarrow> unit s0" where
  "serve_chunks smd_size [] = eret ()"
| "serve_chunks smd_size (ck # cks) =
     eseq (serve_chunk smd_size ck)
       (if ck_terminate ck \<or> ck_endrun ck then eret () else serve_chunks smd_size cks)"

definition send_missing :: "nat \<Rightarrow> nat list \<Rightarrow> nat list s0" where
  "send_missing smd_size waiting_ebs =
     ebind s0_recv (\<lambda>r.
     ebind (s0_get_buffer r) (\<lambda>missing.
     ebind (s0_repack missing True) (\<lambda>batch.
       if 0 < length batch
       then eseq (s0_isend smd_size r (ChunkSent r batch)) (eret waiting_ebs)
       else eret (waiting_ebs @ [r]))))"

definition kill_next :: "nat \<Rightarrow> unit s0" where
  "kill_next smd_size = ebind s0_recv (\<lambda>r. s0_isend smd_size r (NullSent r))"

definition smd0_start :: "nat \<Rightarrow> nat \<Rightarrow> chunk list \<Rightarrow> unit s0" where
  "smd0_start smd_size n_smd_nodes chunks =
     eseq (serve_chunks smd_size chunks)
    (ebind (efold (\<lambda>_. send_missing smd_size) [0..<n_smd_nodes] []) (\<lambda>waiting_ebs.
     eseq (efor (\<lambda>r. s0_isend smd_size r (NullSent r)) waiting_ebs)
          (efor (\<lambda>_. kill_next smd_size) [0..<n_smd_nodes - length waiting_ebs])))"

section \<open>What is sent\<close>

text \<open>The chunks of a run up to the one that ends it.\<close>

definition served :: "chunk list \<Rightarrow> chunk list" where
  "served cks = takeWhile (\<lambda>ck. \<not> (ck_terminate ck \<or> ck_endrun ck)) cks
     @ take 1 (dropWhile (\<lambda>ck. \<not> (ck_terminate ck \<or> ck_endrun ck)) cks)"

lemma served_Nil [simp]: "served [] = []"
  by (simp add: served_def)

lemma served_Cons:
  "served (ck # cks) = ck # (if ck_terminate ck \<or> ck_endrun ck then [] else served cks)"
  by (simp add: served_def)

text \<open>The files of the run and the clients of the smalldata group.\<close>

definition chunk_ok :: "nat \<Rightarrow> chunk \<Rightarrow> bool" where
  "chunk_ok n ck \<longleftrightarrow> length (ck_steps ck) = n \<and> length (ck_smds ck) = n"

lemma in_step_wf: "sh.in_step k m (h, rcv) \<Longrightarrow> sh_wf (Suc k) m h"
  unfolding sh.in_step_def by simp

lemma footer_of_ne: "xs @ footer_of sizes \<noteq> []"
  using length_footer_of [of sizes] by (auto simp: n_bytes_def)

text \<open>What a client has seen of the history is a part of it.\<close>

definition smd0_ok :: "nat \<Rightarrow> nat \<Rightarrow> smd0 \<Rightarrow> bool" where
  "smd0_ok k m s \<longleftrightarrow> sh_wf (Suc k) m (s0_hist s) \<and> length (ck_smds (s0_view s)) = Suc k
     \<and> (\<forall>c\<in>{1..m}. \<forall>i\<le>k. sh_seen (s0_hist s) c i \<le> length (sh_log (s0_hist s) i))"

text \<open>What a client misses of a file.\<close>

definition missed :: "smd0 \<Rightarrow> nat \<Rightarrow> nat \<Rightarrow> bytes" where
  "missed s c i = drop (sh_seen (s0_hist s) c i) (sh_log (s0_hist s) i)"

text \<open>
  A chunk: the client gets what it missed in front of the window, and has the steps of the window,
  which all others miss.
\<close>

lemma serve_chunk_run:
  assumes st: "smd0_ok k m s" and rq: "s0_requests s = r # rs" and r: "r \<in> {1..m}" and ck: "chunk_ok (Suc k) ck"
  shows "\<exists>s' b. serve_chunk (Suc m) ck s = (Inr (), s') \<and> smd0_ok k m s' \<and> s0_requests s' = rs \<and> s0_view s' = ck
    \<and> s0_out s' = s0_out s @ [ChunkSent r b] \<and> repack_parallel ck (map (missed s r) [0..<Suc k]) False = Inr b
    \<and> (\<forall>i\<le>k. sh_log (s0_hist s') i = sh_log (s0_hist s) i @ ck_steps ck ! i)
    \<and> (\<forall>c\<in>{1..m}. \<forall>i\<le>k. missed s' c i = (if c = r then [] else missed s c i @ ck_steps ck ! i))"
proof -
  have wf: "sh_wf (Suc k) m (s0_hist s)" and le: "\<And>c i. c \<in> {1..m} \<Longrightarrow> i \<le> k \<Longrightarrow> sh_seen (s0_hist s) c i \<le> length (sh_log (s0_hist s) i)"
    using st by (simp_all add: smd0_ok_def)
  obtain vs h1 where g: "get_buffer r (s0_hist s) = Inr (vs, h1)" "sh_wf (Suc k) m h1" "bufs h1 = bufs (s0_hist s)" "length vs = Suc k"
    "\<forall>i<Suc k. vs ! i = drop (sh_seen (s0_hist s) r i) (sh_log (s0_hist s) i)"
    "\<forall>d\<in>{1..m}. \<forall>i<Suc k. sh_seen h1 d i = (if d = r then max (sh_seen (s0_hist s) r i) (length (sh_log (s0_hist s) i)) else sh_seen (s0_hist s) d i)"
    using get_buffer_run [OF wf r] by auto
  have vs: "vs = map (missed s r) [0..<Suc k]" using g(4,5) by (intro nth_equalityI) (simp_all add: missed_def del: upt_Suc)
  have len: "length (ck_steps ck) = Suc k" "length (ck_smds ck) = Suc k" using ck by (auto simp: chunk_ok_def)
  obtain h2 where e: "extend_buffers (ck_steps ck) r False h1 = Inr h2" "sh_wf (Suc k) m h2"
    "\<forall>i<Suc k. sh_log h2 i = sh_log h1 i @ ck_steps ck ! i"
    "\<forall>d\<in>{1..m}. \<forall>i<Suc k. sh_seen h2 d i = (if d = r then sh_seen h1 d i + length (ck_steps ck ! i) else sh_seen h1 d i)"
    using extend_buffers_run [OF g(2) r len(1)] by blast
  obtain b where b: "repack_parallel ck vs False = Inr b" using g(4) len by (auto simp: repack_parallel_def)
  let ?s = "s\<lparr>s0_hist := h2, s0_view := ck, s0_requests := rs, s0_out := s0_out s @ [ChunkSent r b]\<rparr>"
  have run: "serve_chunk (Suc m) ck s = (Inr (), ?s)"
    using rq g(1) e(1) b r by (simp add: serve_chunk_def s0_recv_def s0_get_buffer_def s0_extend_def s0_repack_def
        s0_isend_def eff_simps)
  have log: "sh_log h2 i = sh_log (s0_hist s) i @ ck_steps ck ! i" if "i \<le> k" for i
    using e(3) g(3) that by (simp add: sh_log_def)
  have seen: "sh_seen h2 c i = (if c = r then length (sh_log h2 i) else sh_seen (s0_hist s) c i)" if ci: "c \<in> {1..m}" "i \<le> k" for c i
    using e(4) g(6) log [OF ci(2)] le [OF ci] ci by (cases "c = r") (simp_all add: max_absorb2)
  have "smd0_ok k m ?s" using e(2) seen log le len by (fastforce simp: smd0_ok_def)
  moreover have "missed ?s c i = (if c = r then [] else missed s c i @ ck_steps ck ! i)" if "c \<in> {1..m}" "i \<le> k" for c i
    using seen [OF that] log [OF that(2)] le [OF that] by (simp add: missed_def)
  ultimately show ?thesis using run log b unfolding vs
    by (intro exI [of _ ?s] exI [of _ b]) simp
qed

text \<open>A client that asks in the first of the final rounds: the batch of missing steps is never empty, for it has its footer.\<close>

lemma send_missing_run:
  assumes st: "smd0_ok k m s" and rq: "s0_requests s = r # rs" and r: "r \<in> {1..m}"
  shows "\<exists>s' b. send_missing (Suc m) w s = (Inr w, s') \<and> smd0_ok k m s' \<and> s0_requests s' = rs \<and> s0_view s' = s0_view s
    \<and> s0_out s' = s0_out s @ [ChunkSent r b] \<and> repack_parallel (s0_view s) (map (missed s r) [0..<Suc k]) True = Inr b
    \<and> (\<forall>i\<le>k. sh_log (s0_hist s') i = sh_log (s0_hist s) i)
    \<and> (\<forall>c\<in>{1..m}. \<forall>i\<le>k. missed s' c i = (if c = r then [] else missed s c i))"
proof -
  have wf: "sh_wf (Suc k) m (s0_hist s)" and le: "\<And>c i. c \<in> {1..m} \<Longrightarrow> i \<le> k \<Longrightarrow> sh_seen (s0_hist s) c i \<le> length (sh_log (s0_hist s) i)"
    and nf: "length (ck_smds (s0_view s)) = Suc k"
    using st by (simp_all add: smd0_ok_def)
  obtain vs h where g: "get_buffer r (s0_hist s) = Inr (vs, h)" "sh_wf (Suc k) m h" "bufs h = bufs (s0_hist s)" "length vs = Suc k"
    "\<forall>i<Suc k. vs ! i = drop (sh_seen (s0_hist s) r i) (sh_log (s0_hist s) i)"
    "\<forall>d\<in>{1..m}. \<forall>i<Suc k. sh_seen h d i = (if d = r then max (sh_seen (s0_hist s) r i) (length (sh_log (s0_hist s) i)) else sh_seen (s0_hist s) d i)"
    using get_buffer_run [OF wf r] by auto
  have vs: "vs = map (missed s r) [0..<Suc k]" using g(4,5) by (intro nth_equalityI) (simp_all add: missed_def del: upt_Suc)
  obtain b where b: "repack_parallel (s0_view s) vs True = Inr b" "b \<noteq> []"
    using g(4) nf footer_of_ne by (simp add: repack_parallel_def Let_def)
  let ?s = "s\<lparr>s0_hist := h, s0_requests := rs, s0_out := s0_out s @ [ChunkSent r b]\<rparr>"
  have run: "send_missing (Suc m) w s = (Inr w, ?s)"
    using rq g(1) b r by (simp add: send_missing_def s0_recv_def s0_get_buffer_def s0_repack_def s0_isend_def eff_simps)
  have log: "sh_log h i = sh_log (s0_hist s) i" for i using g(3) by (simp add: sh_log_def)
  have seen: "sh_seen h c i = (if c = r then length (sh_log h i) else sh_seen (s0_hist s) c i)" if ci: "c \<in> {1..m}" "i \<le> k" for c i
    using g(6) log le [OF ci] ci by (cases "c = r") (simp_all add: max_absorb2)
  have "smd0_ok k m ?s" using g(2) seen log le nf by (fastforce simp: smd0_ok_def)
  moreover have "missed ?s c i = (if c = r then [] else missed s c i)" if "c \<in> {1..m}" "i \<le> k" for c i
    using seen [OF that] log by (simp add: missed_def)
  ultimately show ?thesis using run log b(1) unfolding vs
    by (intro exI [of _ ?s] exI [of _ b]) simp
qed

lemma upt_length_Cons: "[j..<j + length (r # rs)] = j # [Suc j..<Suc j + length rs]"
  by (simp add: upt_conv_Cons del: upt_Suc)

lemma kill_all:
  assumes "s0_requests s = rs @ rest" and "set rs \<subseteq> {1..m}"
  shows "efor (\<lambda>_. kill_next (Suc m)) [j..<j + length rs] s
    = (Inr (), s\<lparr>s0_requests := rest, s0_out := s0_out s @ map NullSent rs\<rparr>)"
  using assms
proof (induction rs arbitrary: s j)
  case Nil
  then show ?case by (simp add: eff_simps)
next
  case (Cons r rs)
  have upt: "[j..<j + length (r # rs)] = j # [Suc j..<Suc j + length rs]" by (rule upt_length_Cons)
  have "kill_next (Suc m) s = (Inr (), s\<lparr>s0_requests := rs @ rest, s0_out := s0_out s @ [NullSent r]\<rparr>)"
    using Cons.prems by (simp add: kill_next_def s0_recv_def s0_isend_def eff_simps)
  then show ?case
    using Cons.IH [of "s\<lparr>s0_requests := rs @ rest, s0_out := s0_out s @ [NullSent r]\<rparr>" "Suc j"] Cons.prems
    unfolding upt by (simp add: eff_simps)
qed

definition smd0_init :: "nat \<Rightarrow> nat \<Rightarrow> nat list \<Rightarrow> smd0" where
  "smd0_init smd_size n requests =
     \<lparr>s0_hist = sh_init smd_size n,
      s0_view = \<lparr>ck_steps = replicate n [], ck_smds = replicate n [], ck_fake = [], ck_terminate = False, ck_endrun = False\<rparr>,
      s0_requests = requests, s0_out = []\<rparr>"

lemma smd0_init_ok: "smd0_ok k m (smd0_init (Suc m) (Suc k) rs)"
proof -
  have "sh_wf (Suc k) m (sh_init (Suc m) (Suc k))" by (auto simp: sh_wf_def sh_init_def)
  then show ?thesis
    unfolding smd0_ok_def by (auto simp: smd0_init_def sh_seen_def sh_init_def nth_append simp del: replicate_Suc)
qed

lemma smd0_init_missed: "c \<in> {1..m} \<Longrightarrow> i \<le> k \<Longrightarrow> missed (smd0_init (Suc m) (Suc k) rs) c i = []"
  by (simp add: missed_def smd0_init_def sh_init_def sh_log_def less_Suc_eq_le nth_append del: replicate_Suc)

text \<open>The messages that client \<open>c\<close> receives; the empty one ends it.\<close>

definition received_chunks :: "nat \<Rightarrow> s0_send list \<Rightarrow> bytes list" where
  "received_chunks c out = concat (map (\<lambda>m. case m of
     ChunkSent r b \<Rightarrow> if r = c then [b] else []
   | NullSent r \<Rightarrow> if r = c then [[]] else []) out)"

lemma received_chunks_add:
  "received_chunks c (out @ [ChunkSent r b]) = received_chunks c out @ (if r = c then [b] else [])"
  "received_chunks c (out @ [NullSent r]) = received_chunks c out @ (if r = c then [[]] else [])"
  by (simp_all add: received_chunks_def)

lemma received_chunks_null: "received_chunks c (out @ map NullSent rs) = received_chunks c out @ replicate (count_list rs c) []"
  by (induction rs arbitrary: out) (auto simp: received_chunks_def)

end
