(* ===== verification/EbNode.thy ===== *)
theory EbNode
  imports Repack Smd0Node
begin

text \<open>
  \<open>EventBuilderNode\<close> of \<^verbatim>\<open>psana/psana/psexp/node.py\<close> with
  \<open>EventBuilderManager\<close>: it takes chunks of smalldata from \<open>Smd0\<close>, lets the event
  builder make batches of events of them, and sends each batch, with the step events the client has
  missed in front, to a bigdata node that asks. The event builder (\<open>EventBuilder\<close>, a C
  extension) is the parameter \<open>build\<close>: the results of its successive calls on the views of a
  chunk, after which it finds no more events. The chunks that \<open>Smd0\<close> sends and the requests
  of the bigdata nodes are lists; waiting for one more ends the run as \<open>Blocked\<close>.
\<close>

section \<open>State\<close>

text \<open>A batch by destination (0: any), the step events in it, and the numbers of events.\<close>

record built =
  bt_smd :: "(nat \<times> bytes) list"
  bt_step :: "(nat \<times> bytes) list"
  bt_nevents :: nat
  bt_nsteps :: nat

text \<open>A sent batch, with what it is made of: the batch of events, the views of the missing steps, and
  the step events of the batch that are added to the history.\<close>

datatype eb_send =
    BatchSent nat bytes "bytes list" bytes bytes
  | EbNull nat

record eb =
  eb_hist :: step_history
  eb_waiting :: "nat list"
  eb_requests :: "nat list"
  eb_chunks :: "bytes list"
  eb_out :: "eb_send list"

type_synonym 'a ebm = "(eb, 'a) eff"

definition eb_init :: "nat \<Rightarrow> nat \<Rightarrow> nat list \<Rightarrow> bytes list \<Rightarrow> eb" where
  "eb_init bd_size n requests chunks =
     \<lparr>eb_hist = sh_init bd_size n, eb_waiting = [], eb_requests = requests, eb_chunks = chunks, eb_out = []\<rparr>"

section \<open>Operations\<close>

definition request_rank :: "nat ebm" where
  "request_rank = (\<lambda>s. case eb_requests s of [] \<Rightarrow> (Inl Blocked, s) | r # rs \<Rightarrow> (Inr r, s\<lparr>eb_requests := rs\<rparr>))"

definition request_data :: "bytes ebm" where
  "request_data = (\<lambda>s. case eb_chunks s of [] \<Rightarrow> (Inl Blocked, s) | c # cs \<Rightarrow> (Inr c, s\<lparr>eb_chunks := cs\<rparr>))"

definition eb_get_buffer :: "nat \<Rightarrow> bytes list ebm" where
  "eb_get_buffer r = (\<lambda>s. case get_buffer r (eb_hist s) of
     Inl e \<Rightarrow> (Inl e, s) | Inr (vs, h) \<Rightarrow> (Inr vs, s\<lparr>eb_hist := h\<rparr>))"

definition eb_isend :: "nat \<Rightarrow> nat \<Rightarrow> eb_send \<Rightarrow> unit ebm" where
  "eb_isend bd_size r m =
     (if bd_size - 1 < r \<or> bd_size \<le> 1 then eraise IndexError else emod (\<lambda>s. s\<lparr>eb_out := eb_out s @ [m]\<rparr>))"

text \<open>\<open>self.step_hist.extend_buffers(step_pf.split_packets(), rank, as_event=True)\<close>, when there are steps.\<close>

definition add_steps :: "nat \<Rightarrow> nat \<Rightarrow> bytes \<Rightarrow> unit ebm" where
  "add_steps nsteps r step_batch = (\<lambda>s.
     if 0 < nsteps \<and> step_batch \<noteq> []
     then (case pf_init 0 (Some step_batch) of Inl e \<Rightarrow> (Inl e, s)
           | Inr pf \<Rightarrow> (case split_packets pf of Inl e \<Rightarrow> (Inl e, s)
               | Inr evs \<Rightarrow> (case extend_buffers evs r True (eb_hist s) of
                     Inl e \<Rightarrow> (Inl e, s) | Inr h \<Rightarrow> (Inr (), s\<lparr>eb_hist := h\<rparr>))))
     else (Inr (), s))"

text \<open>
  Repacking a batch for a client. A repacking that does not end is a process that makes no further
  step.
\<close>

definition eb_repack ::
    "('c \<Rightarrow> bytes \<Rightarrow> nat \<Rightarrow> pyexc + nat) \<Rightarrow> 'c list \<Rightarrow> bytes \<Rightarrow> bytes list \<Rightarrow> bytes ebm" where
  "eb_repack dsize configs smd_batch views =
     elift (case repack_for_bd dsize configs smd_batch views of None \<Rightarrow> Inl Blocked | Some r \<Rightarrow> r)"

definition send_batch ::
    "('c \<Rightarrow> bytes \<Rightarrow> nat \<Rightarrow> pyexc + nat) \<Rightarrow> 'c list \<Rightarrow> nat \<Rightarrow> nat \<Rightarrow> nat \<Rightarrow> bytes \<Rightarrow> bytes \<Rightarrow> unit ebm" where
  "send_batch dsize configs bd_size nsteps r smd_batch step_batch =
     ebind (eb_get_buffer r) (\<lambda>missing.
     ebind (eb_repack dsize configs smd_batch missing) (\<lambda>batch.
     eseq (eb_isend bd_size r (BatchSent r smd_batch missing (if 0 < nsteps then step_batch else []) batch))
          (add_steps nsteps r step_batch)))"

text \<open>A batch for any client goes to the last client that waits, or to the next that asks.\<close>

definition serve_any ::
    "('c \<Rightarrow> bytes \<Rightarrow> nat \<Rightarrow> pyexc + nat) \<Rightarrow> 'c list \<Rightarrow> nat \<Rightarrow> built \<Rightarrow> unit ebm" where
  "serve_any dsize configs bd_size b =
     ebind (elift (dict_get (bt_smd b) 0)) (\<lambda>smd_batch.
     ebind (elift (dict_get (bt_step b) 0)) (\<lambda>step_batch.
     ebind (eget eb_waiting) (\<lambda>waiting.
     ebind (if waiting \<noteq> []
            then eseq (emod (\<lambda>s. s\<lparr>eb_waiting := butlast waiting\<rparr>)) (eret (last waiting))
            else request_rank) (\<lambda>r.
     send_batch dsize configs bd_size (bt_nsteps b) r smd_batch step_batch))))"

text \<open>\<open>_send_to_dest\<close> on the two dicts, which lose the destination.\<close>

type_synonym dest_dicts = "(nat \<times> bytes) list \<times> (nat \<times> bytes) list"

definition send_to_dest ::
    "('c \<Rightarrow> bytes \<Rightarrow> nat \<Rightarrow> pyexc + nat) \<Rightarrow> 'c list \<Rightarrow> nat \<Rightarrow> nat \<Rightarrow> nat \<Rightarrow> dest_dicts \<Rightarrow> dest_dicts ebm" where
  "send_to_dest dsize configs bd_size nsteps dest d =
     ebind (elift (dict_get (fst d) dest)) (\<lambda>smd_batch.
     ebind (eb_get_buffer dest) (\<lambda>missing.
     ebind (eb_repack dsize configs smd_batch missing) (\<lambda>batch.
     ebind (elift (dict_get (snd d) dest)) (\<lambda>step_batch.
     eseq (eb_isend bd_size dest (BatchSent dest smd_batch missing (if 0 < nsteps then step_batch else []) batch))
    (eseq (add_steps nsteps dest step_batch)
          (eret (AList.delete dest (fst d), AList.delete dest (snd d))))))))"

fun from_waiting ::
    "('c \<Rightarrow> bytes \<Rightarrow> nat \<Rightarrow> pyexc + nat) \<Rightarrow> 'c list \<Rightarrow> nat \<Rightarrow> nat \<Rightarrow> nat list \<Rightarrow> dest_dicts \<Rightarrow> dest_dicts ebm" where
  "from_waiting dsize configs bd_size nsteps [] d = eret d"
| "from_waiting dsize configs bd_size nsteps (r # rs) d =
     (if map_of (fst d) r \<noteq> None
      then ebind (send_to_dest dsize configs bd_size nsteps r d) (\<lambda>d1.
           eseq (emod (\<lambda>s. s\<lparr>eb_waiting := remove1 r (eb_waiting s)\<rparr>))
                (from_waiting dsize configs bd_size nsteps rs d1))
      else from_waiting dsize configs bd_size nsteps rs d)"

text \<open>
  The loop over a dict of destinations. Every round but the last takes one request, so it runs over
  the requests; it returns those that are left.
\<close>

fun dest_loop ::
    "('c \<Rightarrow> bytes \<Rightarrow> nat \<Rightarrow> pyexc + nat) \<Rightarrow> 'c list \<Rightarrow> nat \<Rightarrow> nat \<Rightarrow> nat list \<Rightarrow> dest_dicts \<Rightarrow> nat list ebm" where
  "dest_loop dsize configs bd_size nsteps [] d =
     (if fst d = [] then eret []
      else ebind (eget eb_waiting) (\<lambda>ws.
           ebind (from_waiting dsize configs bd_size nsteps ws d) (\<lambda>d1.
             if fst d1 = [] then eret [] else eraise Blocked)))"
| "dest_loop dsize configs bd_size nsteps (r # rs) d =
     (if fst d = [] then eret (r # rs)
      else ebind (eget eb_waiting) (\<lambda>ws.
           ebind (from_waiting dsize configs bd_size nsteps ws d) (\<lambda>d1.
             if fst d1 = [] then eret (r # rs)
             else if map_of (fst d1) r \<noteq> None
             then ebind (send_to_dest dsize configs bd_size nsteps r d1) (dest_loop dsize configs bd_size nsteps rs)
             else eseq (emod (\<lambda>s. s\<lparr>eb_waiting := eb_waiting s @ [r]\<rparr>))
                       (dest_loop dsize configs bd_size nsteps rs d1))))"

definition serve_dests ::
    "('c \<Rightarrow> bytes \<Rightarrow> nat \<Rightarrow> pyexc + nat) \<Rightarrow> 'c list \<Rightarrow> nat \<Rightarrow> built \<Rightarrow> unit ebm" where
  "serve_dests dsize configs bd_size b =
     ebind (eget eb_requests) (\<lambda>rs.
     ebind (dest_loop dsize configs bd_size (bt_nsteps b) rs (bt_smd b, bt_step b)) (\<lambda>left.
     emod (\<lambda>s. s\<lparr>eb_requests := left\<rparr>)))"

text \<open>One batch of the generator; the value says that the loop goes on. An invalid destination ends it.\<close>

definition serve_built ::
    "('c \<Rightarrow> bytes \<Rightarrow> nat \<Rightarrow> pyexc + nat) \<Rightarrow> 'c list \<Rightarrow> nat \<Rightarrow> built \<Rightarrow> bool ebm" where
  "serve_built dsize configs bd_size b =
     (if map_of (bt_smd b) 0 \<noteq> None then eseq (serve_any dsize configs bd_size b) (eret True)
      else if list_ex (\<lambda>(d, _). bd_size - 1 < d) (bt_smd b) then eret False
      else eseq (serve_dests dsize configs bd_size b) (eret True))"

text \<open>\<open>EventBuilderManager.batches\<close>: until a call finds neither events nor steps.\<close>

fun serve_batches ::
    "('c \<Rightarrow> bytes \<Rightarrow> nat \<Rightarrow> pyexc + nat) \<Rightarrow> 'c list \<Rightarrow> nat \<Rightarrow> (pyexc + built) list \<Rightarrow> unit ebm" where
  "serve_batches dsize configs bd_size [] = eret ()"
| "serve_batches dsize configs bd_size (Inl e # bs) = eraise e"
| "serve_batches dsize configs bd_size (Inr b # bs) =
     (if bt_nevents b = 0 \<and> bt_nsteps b = 0 then eret ()
      else ebind (serve_built dsize configs bd_size b) (\<lambda>go_on.
        if go_on then serve_batches dsize configs bd_size bs else eret ()))"

definition eb_views :: "bytes \<Rightarrow> pyexc + bytes list" where
  "eb_views chunk = (case pf_init 0 (Some chunk) of Inl e \<Rightarrow> Inl e | Inr pf \<Rightarrow> split_packets pf)"

text \<open>The main loop ends at the first empty chunk.\<close>

fun serve_data ::
    "('c \<Rightarrow> bytes \<Rightarrow> nat \<Rightarrow> pyexc + nat) \<Rightarrow> 'c list \<Rightarrow> nat \<Rightarrow> (bytes list \<Rightarrow> (pyexc + built) list) \<Rightarrow> bytes list \<Rightarrow> unit ebm" where
  "serve_data dsize configs bd_size build [] = eraise Blocked"
| "serve_data dsize configs bd_size build (c # cs) =
     eseq (emod (\<lambda>s. s\<lparr>eb_chunks := cs\<rparr>))
       (if c = [] then eret ()
        else ebind (elift (eb_views c)) (\<lambda>views.
             eseq (serve_batches dsize configs bd_size (build views))
                  (serve_data dsize configs bd_size build cs)))"

text \<open>The missing steps of one client at the end; the value says that something was sent.\<close>

definition send_last ::
    "('c \<Rightarrow> bytes \<Rightarrow> nat \<Rightarrow> pyexc + nat) \<Rightarrow> 'c list \<Rightarrow> nat \<Rightarrow> nat \<Rightarrow> bool ebm" where
  "send_last dsize configs bd_size r =
     ebind (eb_get_buffer r) (\<lambda>missing.
     ebind (eb_repack dsize configs [] missing) (\<lambda>batch.
       if batch \<noteq> []
       then eseq (eb_isend bd_size r (BatchSent r [] missing [] batch)) (eret True)
       else eret False))"

definition last_of_waiting ::
    "('c \<Rightarrow> bytes \<Rightarrow> nat \<Rightarrow> pyexc + nat) \<Rightarrow> 'c list \<Rightarrow> nat \<Rightarrow> nat \<Rightarrow> unit ebm" where
  "last_of_waiting dsize configs bd_size r =
     ebind (send_last dsize configs bd_size r) (\<lambda>sent.
       ewhen sent (emod (\<lambda>s. s\<lparr>eb_waiting := remove1 r (eb_waiting s)\<rparr>)))"

definition last_of_rest ::
    "('c \<Rightarrow> bytes \<Rightarrow> nat \<Rightarrow> pyexc + nat) \<Rightarrow> 'c list \<Rightarrow> nat \<Rightarrow> unit ebm" where
  "last_of_rest dsize configs bd_size =
     ebind request_rank (\<lambda>r.
     ebind (send_last dsize configs bd_size r) (\<lambda>sent.
       ewhen (\<not> sent) (emod (\<lambda>s. s\<lparr>eb_waiting := eb_waiting s @ [r]\<rparr>))))"

definition kill_next_bd :: "nat \<Rightarrow> unit ebm" where
  "kill_next_bd bd_size = ebind request_rank (\<lambda>r. eb_isend bd_size r (EbNull r))"

definition eb_finish ::
    "('c \<Rightarrow> bytes \<Rightarrow> nat \<Rightarrow> pyexc + nat) \<Rightarrow> 'c list \<Rightarrow> nat \<Rightarrow> unit ebm" where
  "eb_finish dsize configs bd_size =
     eseq (ebind (eget eb_waiting) (efor (last_of_waiting dsize configs bd_size)))
    (eseq (ebind (eget eb_waiting) (\<lambda>ws.
             efor (\<lambda>_. last_of_rest dsize configs bd_size) [0..<(bd_size - 1) - length ws]))
    (eseq (ebind (eget eb_waiting) (efor (\<lambda>r. eb_isend bd_size r (EbNull r))))
          (ebind (eget eb_waiting) (\<lambda>ws.
             efor (\<lambda>_. kill_next_bd bd_size) [0..<(bd_size - 1) - length ws]))))"

definition eb_start ::
    "('c \<Rightarrow> bytes \<Rightarrow> nat \<Rightarrow> pyexc + nat) \<Rightarrow> 'c list \<Rightarrow> nat \<Rightarrow> (bytes list \<Rightarrow> (pyexc + built) list) \<Rightarrow> unit ebm" where
  "eb_start dsize configs bd_size build =
     ebind (eget eb_chunks) (\<lambda>cs.
     eseq (serve_data dsize configs bd_size build cs) (eb_finish dsize configs bd_size))"

end
