(* ===== verification/EbFacts.thy ===== *)
theory EbFacts
  imports EbNode
begin

text \<open>
  What the bigdata nodes receive from an event builder: each batch of events once, with the step
  events in front that the client had not got, so that a client's step data is always a beginning
  of the step data of the run, and the whole of it at the end.
\<close>

section \<open>Events of step dgrams\<close>

text \<open>The size in the header of a dgram does not depend on what is around it.\<close>

definition dgram_ok :: "('c \<Rightarrow> bytes \<Rightarrow> nat \<Rightarrow> pyexc + nat) \<Rightarrow> 'c \<Rightarrow> bytes \<Rightarrow> bool" where
  "dgram_ok dsize config d \<longleftrightarrow> d \<noteq> [] \<and> (\<forall>pre post. dsize config (pre @ d @ post) (length pre) = Inr (length d))"

definition rows_good :: "('c \<Rightarrow> bytes \<Rightarrow> nat \<Rightarrow> pyexc + nat) \<Rightarrow> 'c list \<Rightarrow> bytes list list \<Rightarrow> bool" where
  "rows_good dsize configs rows \<longleftrightarrow> (\<forall>row\<in>set rows. length row = length configs \<and> sizes_ok (map length row)
     \<and> (\<forall>i<length configs. dgram_ok dsize (configs ! i) (row ! i)))"

lemma rows_good_append: "rows_good dsize configs (xs @ ys) \<longleftrightarrow> rows_good dsize configs xs \<and> rows_good dsize configs ys"
  by (auto simp: rows_good_def)

lemma rows_good_drop: "rows_good dsize configs rows \<Longrightarrow> rows_good dsize configs (drop p rows)"
  using set_drop_subset [of p rows] by (auto simp: rows_good_def)

lemma rows_good_ok:
  assumes "rows_good dsize configs rows"
  shows "rows_ok dsize configs rows"
proof -
  have "dsize (configs ! i) (column rows i) (length (column (take k rows) i)) = Inr (length (rows ! k ! i))"
    if "i < length configs" "k < length rows" for i k
    using assms that nth_mem [OF that(2)] unfolding column_split [OF that(2)]
    by (auto simp: rows_good_def dgram_ok_def)
  moreover have "list_all (\<lambda>d. d \<noteq> []) row" if "row \<in> set rows" for row
    using assms that by (auto simp: rows_good_def dgram_ok_def list_all_length)
  ultimately show ?thesis using assms by (auto simp: rows_ok_def rows_good_def)
qed

lemma column_append: "column (xs @ ys) i = column xs i @ column ys i"
  by (simp add: column_def)

lemma eb_views_batch:
  assumes "sizes_ok (map length ps)" and "ps \<noteq> []"
  shows "eb_views (concat ps @ footer_of (map length ps)) = Inr ps"
  using pf_init_view [OF assms(1)] split_footer_of [OF assms] by (simp add: eb_views_def)

lemma eb_views_row:
  assumes "rows_good dsize configs rows" and "row \<in> set rows" and "configs \<noteq> []"
  shows "eb_views (row_event row) = Inr row"
  using assms by (auto simp: row_event_def rows_good_def intro!: eb_views_batch)

section \<open>The step data a client receives\<close>

definition batch_steps :: "nat \<Rightarrow> bytes \<Rightarrow> bytes" where
  "batch_steps i b =
     (if b = [] then []
      else case eb_views b of Inl e \<Rightarrow> []
      | Inr evs \<Rightarrow> concat (map (\<lambda>ev. case eb_views ev of Inl e \<Rightarrow> [] | Inr ds \<Rightarrow> ds ! i) evs))"

fun eb_steps_in :: "nat \<Rightarrow> nat \<Rightarrow> eb_send \<Rightarrow> bytes" where
  "eb_steps_in c i (BatchSent r smd missing steps b) = (if r = c then missing ! i @ batch_steps i steps else [])"
| "eb_steps_in c i (EbNull r) = []"

definition eb_received :: "eb_send list \<Rightarrow> nat \<Rightarrow> nat \<Rightarrow> bytes" where
  "eb_received out c i = concat (map (eb_steps_in c i) out)"

lemma batch_of_views:
  "sizes_ok (map length evs) \<Longrightarrow> evs \<noteq> [] \<Longrightarrow> eb_views (batch_of evs) = Inr evs"
  by (simp add: batch_of_def eb_views_batch)

lemma batch_of_Nil: "batch_of evs = [] \<longleftrightarrow> evs = []"
  using footer_of_ne by (auto simp: batch_of_def)

lemma batch_steps_rows:
  assumes "rows_good dsize configs rows" and "configs \<noteq> []" and "sizes_ok (map length (map row_event rows))"
  shows "batch_steps i (batch_of (map row_event rows)) = column rows i"
proof (cases "rows = []")
  case True
  then show ?thesis by (simp add: batch_steps_def batch_of_def column_def)
next
  case False
  have "map (\<lambda>ev. case eb_views ev of Inl e \<Rightarrow> [] | Inr ds \<Rightarrow> ds ! i) (map row_event rows) = map (\<lambda>row. row ! i) rows"
    using eb_views_row [OF assms(1) _ assms(2)] by simp
  then show ?thesis
    using False batch_of_views [OF assms(3)] unfolding batch_steps_def column_def
    by (simp add: batch_of_Nil del: map_map)
qed

text \<open>Step events extend the buffers column by column.\<close>

lemma extend_events_run:
  assumes "sh_wf n m sh" and "c \<in> {1..m}" and "0 < n" and "rows_good dsize configs rows" and "length configs = n"
  shows "\<exists>sh'. extend_buffers (map row_event rows) c True sh = Inr sh' \<and> sh_wf n m sh'
    \<and> (\<forall>i<n. sh_log sh' i = sh_log sh i @ column rows i)
    \<and> (\<forall>d\<in>{1..m}. \<forall>i<n. sh_seen sh' d i = (if d = c then sh_seen sh d i + length (column rows i) else sh_seen sh d i))"
  using assms(1,4)
proof (induction rows arbitrary: sh)
  case Nil
  then show ?case by (auto simp: extend_buffers_def column_def)
next
  case (Cons row rows)
  have n: "n_smds sh = n" "configs \<noteq> []" using Cons.prems(1) assms(3,5) by (auto simp: sh_wf_def)
  have row: "length row = n" "row \<noteq> []" using Cons.prems(2) assms(3,5) by (auto simp: rows_good_def)
  have "eb_views (row_event row) = Inr row" using eb_views_row [OF Cons.prems(2)] n(2) by simp
  then obtain pf where pf: "pf_init 0 (Some (row_event row)) = Inr pf" "split_packets pf = Inr row"
    by (auto simp: eb_views_def split: sum.splits)
  have "n_packets pf = n"
  proof -
    have sz: "sizes_ok (map length row)" using Cons.prems(2) by (simp add: rows_good_def)
    show ?thesis using pf_init_view [OF sz, of "concat row"] pf(1) row(1) by (auto simp: row_event_def)
  qed
  moreover obtain sh1 where sh1: "extend_buffers row c False sh = Inr sh1" "sh_wf n m sh1"
    "\<forall>i<n. sh_log sh1 i = sh_log sh i @ row ! i"
    "\<forall>d\<in>{1..m}. \<forall>i<n. sh_seen sh1 d i = (if d = c then sh_seen sh d i + length (row ! i) else sh_seen sh d i)"
    using extend_buffers_run [OF Cons.prems(1) assms(2) row(1)] by auto
  moreover have same: "client_row sh1 c = client_row sh c"
    using Cons.prems(1) sh1(2) by (simp add: client_row_def sh_wf_def)
  moreover obtain sh' where sh': "extend_buffers (map row_event rows) c True sh1 = Inr sh'" "sh_wf n m sh'"
    "\<forall>i<n. sh_log sh' i = sh_log sh1 i @ column rows i"
    "\<forall>d\<in>{1..m}. \<forall>i<n. sh_seen sh' d i = (if d = c then sh_seen sh1 d i + length (column rows i) else sh_seen sh1 d i)"
    using Cons.IH [OF sh1(2)] Cons.prems(2) by (auto simp: rows_good_def)
  ultimately have "extend_buffers (map row_event (row # rows)) c True sh = Inr sh'"
    using pf n(1) by (simp add: extend_buffers_def)
  then show ?case using sh1 sh' by (auto simp: column_def)
qed

section \<open>Sending a batch\<close>

text \<open>
  The state after step events \<open>rows\<close>: the history holds them by column, and every client has
  those of the first \<open>p\<close> rows for some \<open>p\<close>.
\<close>

definition eb_ok ::
    "('c \<Rightarrow> bytes \<Rightarrow> nat \<Rightarrow> pyexc + nat) \<Rightarrow> 'c list \<Rightarrow> nat \<Rightarrow> nat \<Rightarrow> bytes list list \<Rightarrow> eb \<Rightarrow> bool" where
  "eb_ok dsize configs k m rows s \<longleftrightarrow>
     length configs = Suc k \<and> rows_good dsize configs rows
     \<and> sh.in_step k m (eb_hist s, eb_received (eb_out s))
     \<and> (\<forall>i\<le>k. sh_log (eb_hist s) i = column rows i)
     \<and> (\<forall>c\<in>{1..m}. \<exists>p\<le>length rows. \<forall>i\<le>k. eb_received (eb_out s) c i = column (take p rows) i)"

lemma eb_received_add: "eb_received (out @ [x]) c i = eb_received out c i @ eb_steps_in c i x"
  by (simp add: eb_received_def)

lemma eb_ok_prefix: "eb_ok dsize configs k m rows s \<Longrightarrow> c \<in> {1..m} \<Longrightarrow>
    \<exists>p\<le>length rows. \<forall>i\<le>k. eb_received (eb_out s) c i = column (take p rows) i"
  unfolding eb_ok_def by blast

text \<open>
  The messages that a client receives, and what it has seen: the batches in them are lists of events,
  and these with the step events it still misses are the client's view of the run.
\<close>

definition node_messages :: "nat \<Rightarrow> eb_send list \<Rightarrow> bytes list" where
  "node_messages c out = concat (map (\<lambda>m. case m of
     BatchSent r smd missing steps b \<Rightarrow> if r = c then [b] else []
   | EbNull r \<Rightarrow> if r = c then [[]] else []) out)"

definition good_batch :: "bytes list \<Rightarrow> bool" where
  "good_batch es \<longleftrightarrow> es \<noteq> [] \<and> sizes_ok (map length es)"

definition sees :: "nat \<Rightarrow> bytes list list \<Rightarrow> eb_send list \<Rightarrow> nat \<Rightarrow> bytes list \<Rightarrow> bool" where
  "sees k rows out c V \<longleftrightarrow> (\<exists>q ess. q \<le> length rows \<and> (\<forall>i\<le>k. eb_received out c i = column (take q rows) i)
     \<and> node_messages c out = map batch_of ess \<and> list_all good_batch ess \<and> V = concat ess @ map row_event (drop q rows))"

lemma node_messages_add:
  "node_messages c (out @ [BatchSent r smd missing steps b]) = node_messages c out @ (if r = c then [b] else [])"
  by (simp add: node_messages_def)

lemma take_column_inj:
  assumes good: "rows_good dsize configs rows" and "configs \<noteq> []" and "p \<le> length rows" and "q \<le> length rows"
    and "column (take p rows) 0 = column (take q rows) 0"
  shows "p = q"
proof -
  have le: "False" if "a < b" "b \<le> length rows" "column (take a rows) 0 = column (take b rows) 0" for a b
  proof -
    have "take b rows = take a rows @ rows ! a # drop (Suc a) (take b rows)"
      using that(1,2) id_take_nth_drop [of a "take b rows"] by (simp add: min_def)
    then have "column (take b rows) 0 = column (take a rows @ rows ! a # drop (Suc a) (take b rows)) 0" by (rule arg_cong)
    also have "\<dots> = column (take a rows) 0 @ rows ! a ! 0 @ column (drop (Suc a) (take b rows)) 0" by (simp add: column_def)
    finally have "rows ! a ! 0 = []" using that(3) by simp
    moreover have "dgram_ok dsize (configs ! 0) (rows ! a ! 0)"
      using good that(1,2) assms(2) by (auto simp: rows_good_def)
    ultimately show False by (simp add: dgram_ok_def)
  qed
  show ?thesis using le [of p q] le [of q p] assms(3-5) by (cases p q rule: linorder_cases) auto
qed

text \<open>What a batch adds to the view of its client, and its steps to that of the others.\<close>

lemma sees_batch:
  assumes see: "sees k rows out c V" and good: "rows_good dsize configs rows" and "configs \<noteq> []"
    and p: "p \<le> length rows" "\<forall>i\<le>k. eb_received out r i = column (take p rows) i"
    and full: "\<forall>i\<le>k. eb_received (out @ [BatchSent r smd missing steps b]) r i = column (rows @ new) i"
    and b: "b = batch_of (map row_event (drop p rows) @ evs)"
    and ok: "good_batch (map row_event (drop p rows) @ evs)"
  shows "sees k (rows @ new) (out @ [BatchSent r smd missing steps b]) c (V @ (if c = r then evs else map row_event new))"
proof -
  obtain q ess where q: "q \<le> length rows" "\<forall>i\<le>k. eb_received out c i = column (take q rows) i"
    "node_messages c out = map batch_of ess" "list_all good_batch ess" "V = concat ess @ map row_event (drop q rows)"
    using see unfolding sees_def by blast
  show ?thesis
  proof (cases "c = r")
    case True
    then have "p = q" using take_column_inj [OF good assms(3) p(1) q(1)] p(2) q(2) by simp
    then show ?thesis
      unfolding sees_def using True full q b ok
      by (intro exI [of _ "length (rows @ new)"] exI [of _ "ess @ [map row_event (drop p rows) @ evs]"])
        (simp add: node_messages_add)
  next
    case False
    then show ?thesis
      unfolding sees_def using q
      by (intro exI [of _ q] exI [of _ ess]) (simp add: node_messages_add eb_received_add)
  qed
qed

text \<open>What is missing are the step events behind the client's position.\<close>

lemma eb_missing:
  assumes ok: "eb_ok dsize configs k m rows s" and r: "r \<in> {1..m}"
  obtains p h where "p \<le> length rows" "\<forall>i\<le>k. eb_received (eb_out s) r i = column (take p rows) i"
    and "get_buffer r (eb_hist s) = Inr (map (column (drop p rows)) [0..<length configs], h)"
    and "sh.in_step k m (h, (eb_received (eb_out s))(r := (\<lambda>i. eb_received (eb_out s) r i
          @ map (column (drop p rows)) [0..<length configs] ! i)))"
    and "\<forall>i\<le>k. sh_log h i = column rows i" "sh_wf (Suc k) m h"
proof -
  have inst: "sh.in_step k m (eb_hist s, eb_received (eb_out s))" and len: "length configs = Suc k"
    and log: "\<forall>i\<le>k. sh_log (eb_hist s) i = column rows i"
    using ok by (simp_all add: eb_ok_def)
  note wf = in_step_wf [OF inst]
  obtain p where p: "p \<le> length rows" "\<forall>i\<le>k. eb_received (eb_out s) r i = column (take p rows) i"
    using eb_ok_prefix [OF ok r] by blast
  obtain vs h where g: "get_buffer r (eb_hist s) = Inr (vs, h)" "sh_wf (Suc k) m h" "bufs h = bufs (eb_hist s)"
    "length vs = Suc k" "\<forall>i<Suc k. vs ! i = drop (sh_seen (eb_hist s) r i) (sh_log (eb_hist s) i)"
    using get_buffer_run [OF wf r] by auto
  have vs: "vs = map (column (drop p rows)) [0..<length configs]"
  proof (rule nth_equalityI)
    show "length vs = length (map (column (drop p rows)) [0..<length configs])" using g(4) len by simp
    fix i assume "i < length vs"
    then have i: "i \<le> k" using g(4) by simp
    have "column (take p rows) i @ vs ! i = column rows i"
      using sh.fetch_in_step(2) [OF inst r, of i] i p(2) log g(1) by (simp add: sh_fetch_def)
    also have "\<dots> = column (take p rows) i @ column (drop p rows) i"
      by (simp add: column_append [symmetric])
    finally show "vs ! i = map (column (drop p rows)) [0..<length configs] ! i" using i len by (simp del: upt_Suc)
  qed
  have "sh.in_step k m (h, (eb_received (eb_out s))(r := (\<lambda>i. eb_received (eb_out s) r i @ vs ! i)))"
    using sh.fetch_in_step(1) [OF inst r] g(1) by (simp add: sh_fetch_def)
  then show thesis
    using that [of p h] p g(1,2,3) log vs by (simp add: sh_log_def)
qed

lemma sizes_ok_split:
  "sizes_ok (map length (xs @ ys)) \<Longrightarrow> sizes_ok (map length (map row_event (drop p rows) @ evs))"
  if "xs = map row_event rows" "ys = evs"
  using that set_drop_subset [of p rows] by (auto simp: sizes_ok_def list_all_iff)

text \<open>
  Serving a client: it gets the events of its missing steps followed by the events of the batch, and
  afterwards it has every step of the history, those of the batch among them.
\<close>

lemma send_batch_run:
  assumes ok: "eb_ok dsize configs k m rows s" and r: "r \<in> {1..m}" and new: "rows_good dsize configs new"
    and fit: "sizes_ok (map length (map row_event rows @ evs))" "sizes_ok (map length (map row_event new))"
    and steps: "new = [] \<or> 0 < nsteps"
  shows "\<exists>p h sb. p \<le> length rows \<and> (\<forall>i\<le>k. eb_received (eb_out s) r i = column (take p rows) i) \<and>
     (let s' = s\<lparr>eb_hist := h, eb_out := eb_out s @ [BatchSent r (batch_of evs)
          (map (column (drop p rows)) [0..<length configs]) sb (batch_of (map row_event (drop p rows) @ evs))]\<rparr> in
      send_batch dsize configs (Suc m) nsteps r (batch_of evs) (batch_of (map row_event new)) s = (Inr (), s')
      \<and> eb_ok dsize configs k m (rows @ new) s'
      \<and> (\<forall>i\<le>k. eb_received (eb_out s') r i = column (rows @ new) i))"
proof -
  have len: "length configs = Suc k" "configs \<noteq> []" and good: "rows_good dsize configs rows"
    using ok by (auto simp: eb_ok_def)
  obtain p h where p: "p \<le> length rows" "\<forall>i\<le>k. eb_received (eb_out s) r i = column (take p rows) i"
    and g: "get_buffer r (eb_hist s) = Inr (map (column (drop p rows)) [0..<length configs], h)"
    and st: "sh.in_step k m (h, (eb_received (eb_out s))(r := (\<lambda>i. eb_received (eb_out s) r i
          @ map (column (drop p rows)) [0..<length configs] ! i)))"
    and h: "\<forall>i\<le>k. sh_log h i = column rows i" "sh_wf (Suc k) m h"
    by (rule eb_missing [OF ok r]) blast
  let ?vs = "map (column (drop p rows)) [0..<length configs]"
  let ?b = "batch_of (map row_event (drop p rows) @ evs)"
  let ?sb = "if 0 < nsteps then batch_of (map row_event new) else []"
  have rep: "repack_for_bd dsize configs (batch_of evs) ?vs = Some (Inr ?b)"
    using rows_good_ok [OF rows_good_drop [OF good]] len(2) sizes_ok_split [OF refl refl fit(1)] by (rule repack_rows)
  obtain h2 where h2: "extend_buffers (map row_event new) r True h = Inr h2" "sh_wf (Suc k) m h2"
    "\<forall>i<Suc k. sh_log h2 i = sh_log h i @ column new i"
    "\<forall>d\<in>{1..m}. \<forall>i<Suc k. sh_seen h2 d i = (if d = r then sh_seen h d i + length (column new i) else sh_seen h d i)"
    using extend_events_run [OF h(2) r _ new len(1)] by auto
  have add: "add_steps nsteps r (batch_of (map row_event new)) t = (Inr (), t\<lparr>eb_hist := h2\<rparr>)" if "eb_hist t = h" for t
  proof (cases "new = []")
    case True
    then have "h2 = h" using h2(1) by (simp add: extend_buffers_def)
    then show ?thesis using True that by (simp add: add_steps_def batch_of_Nil)
  next
    case False
    then have "eb_views (batch_of (map row_event new)) = Inr (map row_event new)"
      using fit(2) by (intro batch_of_views) auto
    then obtain pf where "pf_init 0 (Some (batch_of (map row_event new))) = Inr pf"
      "split_packets pf = Inr (map row_event new)"
      by (auto simp: eb_views_def split: sum.splits)
    then show ?thesis using False steps that h2(1) by (simp add: add_steps_def batch_of_Nil)
  qed
  define s' where "s' = s\<lparr>eb_hist := h2, eb_out := eb_out s @ [BatchSent r (batch_of evs) ?vs ?sb ?b]\<rparr>"
  have run: "send_batch dsize configs (Suc m) nsteps r (batch_of evs) (batch_of (map row_event new)) s = (Inr (), s')"
    using g rep r add by (simp add: send_batch_def eb_get_buffer_def eb_repack_def eb_isend_def eff_simps s'_def)
  have own: "batch_steps i ?sb = column new i" for i
    using batch_steps_rows [OF new len(2) fit(2)] steps by (auto simp: batch_steps_def column_def)
  let ?rcv = "(eb_received (eb_out s))(r := (\<lambda>i. eb_received (eb_out s) r i @ ?vs ! i))"
  have rcv: "eb_received (eb_out s') = ?rcv(r := (\<lambda>i. ?rcv r i @ column new i))"
    by (intro ext) (simp add: s'_def eb_received_add own)
  have cur: "?rcv r i = sh_log h i" if "i < Suc k" for i
  proof -
    have "?rcv r i = column (take p rows) i @ column (drop p rows) i" using that p(2) len(1) by (simp del: upt_Suc)
    then show ?thesis using that h(1) by (simp add: column_append [symmetric])
  qed
  have "sh.in_step k m (h2, ?rcv(r := (\<lambda>i. ?rcv r i @ column new i)))"
    using sh.append_in_step [OF st r] cur h2 by blast
  then have st': "sh.in_step k m (eb_hist s', eb_received (eb_out s'))" by (simp add: rcv) (simp add: s'_def)
  have log': "\<forall>i\<le>k. sh_log (eb_hist s') i = column (rows @ new) i"
    using h2(3) h(1) by (simp add: s'_def column_append)
  have full: "\<forall>i\<le>k. eb_received (eb_out s') r i = column (rows @ new) i"
    using cur h(1) by (simp add: rcv column_append)
  have "\<exists>q\<le>length (rows @ new). \<forall>i\<le>k. eb_received (eb_out s') c i = column (take q (rows @ new)) i"
    if c: "c \<in> {1..m}" for c
  proof (cases "c = r")
    case True
    then show ?thesis using full by (intro exI [of _ "length (rows @ new)"]) simp
  next
    case False
    obtain q where "q \<le> length rows" "\<forall>i\<le>k. eb_received (eb_out s) c i = column (take q rows) i"
      using eb_ok_prefix [OF ok c] by blast
    then show ?thesis using False by (intro exI [of _ q]) (simp add: rcv)
  qed
  then have "eb_ok dsize configs k m (rows @ new) s'"
    using st' log' len(1) good new by (simp add: eb_ok_def rows_good_append)
  then show ?thesis
    using run full p unfolding s'_def by (intro exI [of _ p] exI [of _ h2] exI [of _ ?sb]) (simp add: Let_def)
qed

section \<open>A whole run\<close>

text \<open>
  What the event builder hands over for any client: a batch of events \<open>evs\<close> that holds the step
  events \<open>new\<close>. The batches that were sent, in order.
\<close>

definition any_built ::
    "('c \<Rightarrow> bytes \<Rightarrow> nat \<Rightarrow> pyexc + nat) \<Rightarrow> 'c list \<Rightarrow> pyexc + built \<Rightarrow> bytes list \<times> bytes list list \<Rightarrow> bool" where
  "any_built dsize configs res w \<longleftrightarrow> (\<exists>b. res = Inr b \<and> fst w \<noteq> [] \<and> 0 < bt_nevents b
     \<and> map_of (bt_smd b) 0 = Some (batch_of (fst w))
     \<and> map_of (bt_step b) 0 = Some (batch_of (map row_event (snd w)))
     \<and> (snd w = [] \<or> 0 < bt_nsteps b)
     \<and> rows_good dsize configs (snd w) \<and> sizes_ok (map length (map row_event (snd w))))"

fun sent_batch :: "eb_send \<Rightarrow> bytes list" where
  "sent_batch (BatchSent r smd missing steps b) = (if smd = [] then [] else [smd])"
| "sent_batch (EbNull r) = []"

definition sent_batches :: "eb_send list \<Rightarrow> bytes list" where
  "sent_batches out = concat (map sent_batch out)"

definition fits :: "bytes list list \<Rightarrow> (bytes list \<times> bytes list list) list \<Rightarrow> bool" where
  "fits rows ws \<longleftrightarrow> (\<forall>w\<in>set ws. sizes_ok (map length (map row_event (rows @ concat (map snd ws)) @ fst w)))"

lemma sizes_ok_sub:
  "sizes_ok (map length (xs @ ys @ zs)) \<Longrightarrow> sizes_ok (map length (xs @ zs))"
  by (auto simp: sizes_ok_def)

lemma fits_first: "fits rows (w # ws) \<Longrightarrow> sizes_ok (map length (map row_event rows @ fst w))"
  using sizes_ok_sub [of "map row_event rows" "map row_event (concat (map snd (w # ws)))" "fst w"]
  by (simp add: fits_def)

lemma fits_rest: "fits rows (w # ws) \<Longrightarrow> fits (rows @ snd w) ws"
  by (auto simp: fits_def)

lemma fits_append: "fits rows (ws @ vs) \<Longrightarrow> fits rows ws \<and> fits (rows @ concat (map snd ws)) vs"
proof (induction ws arbitrary: rows)
  case Nil
  then show ?case by (simp add: fits_def)
next
  case (Cons w ws)
  have "sizes_ok (map length (map row_event (rows @ concat (map snd (w # ws))) @ fst v))"
    if "v \<in> set (w # ws)" for v
  proof -
    have "sizes_ok (map length (map row_event (rows @ concat (map snd (w # ws)))
        @ map row_event (concat (map snd vs)) @ fst v))"
      using Cons.prems that by (auto simp: fits_def)
    then show ?thesis by (rule sizes_ok_sub)
  qed
  then show ?case using Cons.IH [of "rows @ snd w"] fits_rest [of rows w "ws @ vs"] Cons.prems
    by (simp add: fits_def)
qed

text \<open>The state between batches: nobody waits.\<close>

definition idle_ok where
  "idle_ok dsize configs k m rows V rs s \<longleftrightarrow> eb_ok dsize configs k m rows s \<and> eb_waiting s = [] \<and> eb_requests s = rs
     \<and> (\<forall>c\<in>{1..m}. sees k rows (eb_out s) c (V c))"

text \<open>The views after some batches have gone to the clients that asked.\<close>

definition add_view :: "nat \<Rightarrow> bytes list \<times> bytes list list \<Rightarrow> (nat \<Rightarrow> bytes list) \<Rightarrow> nat \<Rightarrow> bytes list" where
  "add_view r w V = (\<lambda>c. V c @ (if c = r then fst w else map row_event (snd w)))"

definition after_batches where
  "after_batches rs ws V = fold (\<lambda>(r, w). add_view r w) (zip rs ws) V"

text \<open>The same for one client: the batches it asked for, and the step events of all others.\<close>

definition client_batches :: "nat \<Rightarrow> nat list \<Rightarrow> (bytes list \<times> bytes list list) list \<Rightarrow> bytes list" where
  "client_batches c rs ws = concat (map2 (\<lambda>r w. if r = c then fst w else map row_event (snd w)) rs ws)"

lemma view_client_batches: "after_batches rs ws (\<lambda>_. []) c = client_batches c rs ws"
proof -
  have "after_batches rs ws V c = V c @ client_batches c rs ws" for V
    by (induction rs ws arbitrary: V rule: list_induct2')
      (auto simp: after_batches_def client_batches_def add_view_def split: prod.split)
  then show ?thesis by simp
qed

lemma serve_built_run:
  assumes ok: "idle_ok dsize configs k m rows V (r # rs) s" and r: "r \<in> {1..m}"
    and b: "any_built dsize configs (Inr b) w" and fit: "sizes_ok (map length (map row_event rows @ fst w))"
  shows "\<exists>s'. serve_built dsize configs (Suc m) b s = (Inr True, s')
    \<and> idle_ok dsize configs k m (rows @ snd w) (add_view r w V) rs s'
    \<and> sent_batches (eb_out s') = sent_batches (eb_out s) @ [batch_of (fst w)]"
proof -
  let ?s = "s\<lparr>eb_requests := rs\<rparr>"
  have eb: "eb_ok dsize configs k m rows ?s" using ok by (simp add: idle_ok_def eb_ok_def)
  obtain s' p sb where s': "send_batch dsize configs (Suc m) (bt_nsteps b) r (batch_of (fst w))
      (batch_of (map row_event (snd w))) ?s = (Inr (), s')"
    "eb_ok dsize configs k m (rows @ snd w) s'" "eb_waiting s' = eb_waiting s" "eb_requests s' = rs"
    "eb_out s' = eb_out s @ [BatchSent r (batch_of (fst w))
          (map (column (drop p rows)) [0..<length configs]) sb (batch_of (map row_event (drop p rows) @ fst w))]"
    "p \<le> length rows" "\<forall>i\<le>k. eb_received (eb_out s) r i = column (take p rows) i"
    "\<forall>i\<le>k. eb_received (eb_out s') r i = column (rows @ snd w) i"
    using send_batch_run [OF eb r, of "snd w" "fst w" "bt_nsteps b"] b fit
    by (fastforce simp: any_built_def Let_def)
  have good: "rows_good dsize configs rows" "configs \<noteq> []" using eb by (auto simp: eb_ok_def)
  have "good_batch (map row_event (drop p rows) @ fst w)"
    using sizes_ok_split [OF refl refl fit] b by (auto simp: good_batch_def any_built_def)
  then have see: "sees k (rows @ snd w) (eb_out s') c (add_view r w V c)" if "c \<in> {1..m}" for c
    unfolding s'(5) add_view_def using ok that s'(6-8) [unfolded s'(5)]
    by (intro sees_batch [OF _ good]) (simp_all add: idle_ok_def)
  have "serve_built dsize configs (Suc m) b s = (Inr True, s')"
    using b ok s'(1) by (simp add: serve_built_def serve_any_def any_built_def idle_ok_def request_rank_def
        dict_get_def eff_simps)
  then show ?thesis using s'(2-5) ok b see
    by (intro exI [of _ s']) (auto simp: idle_ok_def sent_batches_def any_built_def batch_of_Nil)
qed

lemma serve_batches_run:
  assumes "idle_ok dsize configs k m rows V (rs @ rest) s" and "set rs \<subseteq> {1..m}" and "length rs = length ws"
    and "list_all2 (any_built dsize configs) bs ws" and "fits rows ws"
  shows "\<exists>s'. serve_batches dsize configs (Suc m) bs s = (Inr (), s')
    \<and> idle_ok dsize configs k m (rows @ concat (map snd ws)) (after_batches rs ws V) rest s'
    \<and> sent_batches (eb_out s') = sent_batches (eb_out s) @ map (\<lambda>w. batch_of (fst w)) ws"
  using assms
proof (induction ws arbitrary: rows V rs s bs)
  case Nil
  then show ?case by (auto simp: eff_simps after_batches_def)
next
  case (Cons w ws)
  obtain r rs' where rs: "rs = r # rs'" using Cons.prems(3) by (cases rs) auto
  obtain b bs' where bs: "bs = Inr b # bs'" "any_built dsize configs (Inr b) w" "list_all2 (any_built dsize configs) bs' ws"
  proof -
    obtain z zs where z: "bs = z # zs" "any_built dsize configs z w" "list_all2 (any_built dsize configs) zs ws"
      using Cons.prems(4) by (auto simp: list_all2_Cons2)
    obtain b where "z = Inr b" using z(2) by (auto simp: any_built_def)
    then show thesis using that z by simp
  qed
  obtain s1 where s1: "serve_built dsize configs (Suc m) b s = (Inr True, s1)"
    "idle_ok dsize configs k m (rows @ snd w) (add_view r w V) (rs' @ rest) s1"
    "sent_batches (eb_out s1) = sent_batches (eb_out s) @ [batch_of (fst w)]"
    using serve_built_run [OF _ _ bs(2), of k m rows V r "rs' @ rest" s] Cons.prems rs fits_first by fastforce
  obtain s' where s': "serve_batches dsize configs (Suc m) bs' s1 = (Inr (), s')"
    "idle_ok dsize configs k m ((rows @ snd w) @ concat (map snd ws)) (after_batches rs' ws (add_view r w V)) rest s'"
    "sent_batches (eb_out s') = sent_batches (eb_out s1) @ map (\<lambda>w. batch_of (fst w)) ws"
    using Cons.IH [OF s1(2) _ _ bs(3)] Cons.prems(2,3) rs fits_rest [OF Cons.prems(5)] by auto
  have "0 < bt_nevents b" using bs(2) by (simp add: any_built_def)
  then show ?case using s1 s' bs(1) rs by (intro exI [of _ s']) (simp add: eff_simps after_batches_def)
qed

text \<open>The chunks and what the event builder makes of them.\<close>

definition chunk_built ::
    "('c \<Rightarrow> bytes \<Rightarrow> nat \<Rightarrow> pyexc + nat) \<Rightarrow> 'c list \<Rightarrow> (bytes list \<Rightarrow> (pyexc + built) list) \<Rightarrow>
     bytes \<Rightarrow> (bytes list \<times> bytes list list) list \<Rightarrow> bool" where
  "chunk_built dsize configs build c ws \<longleftrightarrow>
     c \<noteq> [] \<and> (\<exists>v. eb_views c = Inr v \<and> list_all2 (any_built dsize configs) (build v) ws)"

lemma serve_data_run:
  assumes "idle_ok dsize configs k m rows V (rs @ rest) s" and "set rs \<subseteq> {1..m}"
    and "length rs = length (concat wss)" and "list_all2 (chunk_built dsize configs build) cs wss"
    and "fits rows (concat wss)"
  shows "\<exists>s'. serve_data dsize configs (Suc m) build (cs @ [[]]) s = (Inr (), s')
    \<and> idle_ok dsize configs k m (rows @ concat (map snd (concat wss))) (after_batches rs (concat wss) V) rest s'
    \<and> sent_batches (eb_out s') = sent_batches (eb_out s) @ map (\<lambda>w. batch_of (fst w)) (concat wss)"
  using assms
proof (induction wss arbitrary: rows V rs s cs)
  case Nil
  then show ?case by (auto simp: eff_simps idle_ok_def eb_ok_def after_batches_def)
next
  case (Cons ws wss)
  obtain c cs' v where cs: "cs = c # cs'" "c \<noteq> []" "eb_views c = Inr v" "list_all2 (any_built dsize configs) (build v) ws"
    "list_all2 (chunk_built dsize configs build) cs' wss"
  proof -
    obtain z zs where z: "cs = z # zs" "chunk_built dsize configs build z ws"
      "list_all2 (chunk_built dsize configs build) zs wss"
      using Cons.prems(4) by (auto simp: list_all2_Cons2)
    then show thesis using that by (auto simp: chunk_built_def)
  qed
  let ?n = "length ws"
  have rs: "rs @ rest = take ?n rs @ (drop ?n rs @ rest)" "length (take ?n rs) = ?n" using Cons.prems(3) by simp_all
  have fit: "fits rows ws" "fits (rows @ concat (map snd ws)) (concat wss)"
    using fits_append [of rows ws "concat wss"] Cons.prems(5) by simp_all
  let ?s = "s\<lparr>eb_chunks := cs' @ [[]]\<rparr>"
  have st: "idle_ok dsize configs k m rows V (take ?n rs @ (drop ?n rs @ rest)) ?s"
    using Cons.prems(1) by (simp add: idle_ok_def eb_ok_def)
  have sub: "set (take ?n rs) \<subseteq> {1..m}" "set (drop ?n rs) \<subseteq> {1..m}"
    using Cons.prems(2) set_take_subset [of ?n rs] set_drop_subset [of ?n rs] by (meson subset_trans)+
  obtain s1 where s1: "serve_batches dsize configs (Suc m) (build v) ?s = (Inr (), s1)"
    "idle_ok dsize configs k m (rows @ concat (map snd ws)) (after_batches (take ?n rs) ws V) (drop ?n rs @ rest) s1"
    "sent_batches (eb_out s1) = sent_batches (eb_out s) @ map (\<lambda>w. batch_of (fst w)) ws"
    using serve_batches_run [OF st sub(1) rs(2) cs(4) fit(1)] by auto
  obtain s' where "serve_data dsize configs (Suc m) build (cs' @ [[]]) s1 = (Inr (), s')"
    "idle_ok dsize configs k m ((rows @ concat (map snd ws)) @ concat (map snd (concat wss)))
      (after_batches (drop ?n rs) (concat wss) (after_batches (take ?n rs) ws V)) rest s'"
    "sent_batches (eb_out s') = sent_batches (eb_out s1) @ map (\<lambda>w. batch_of (fst w)) (concat wss)"
    using Cons.IH [OF s1(2) sub(2) _ cs(5) fit(2)] Cons.prems(3) by auto
  moreover have "after_batches (drop ?n rs) (concat wss) (after_batches (take ?n rs) ws V) = after_batches rs (concat (ws # wss)) V"
    using zip_append [OF rs(2), of "drop ?n rs" "concat wss"] by (simp add: after_batches_def)
  ultimately show ?case using s1 cs by (intro exI [of _ s']) (simp add: eff_simps)
qed

section \<open>The end of the run\<close>

text \<open>A client that is up to date gets nothing; any other gets the rest of the step events.\<close>

lemma in_step_cong:
  "sh.in_step k m (h, rcv) \<Longrightarrow> (\<And>c i. c \<in> {1..m} \<Longrightarrow> i \<le> k \<Longrightarrow> rcv' c i = rcv c i) \<Longrightarrow> sh.in_step k m (h, rcv')"
  unfolding sh.in_step_def by (simp add: less_Suc_eq_le)

lemma send_last_run:
  assumes ok: "eb_ok dsize configs k m rows s" and r: "r \<in> {1..m}" and fit: "sizes_ok (map length (map row_event rows))"
  shows "\<exists>sent s'. send_last dsize configs (Suc m) r s = (Inr sent, s') \<and> eb_ok dsize configs k m rows s'
    \<and> eb_waiting s' = eb_waiting s \<and> eb_requests s' = eb_requests s
    \<and> (\<forall>i\<le>k. eb_received (eb_out s') r i = column rows i)
    \<and> (\<forall>c i. c \<noteq> r \<longrightarrow> eb_received (eb_out s') c i = eb_received (eb_out s) c i)
    \<and> sent_batches (eb_out s') = sent_batches (eb_out s)
    \<and> (\<forall>c V. sees k rows (eb_out s) c V \<longrightarrow> sees k rows (eb_out s') c V)"
proof -
  have len: "length configs = Suc k" "configs \<noteq> []" and good: "rows_good dsize configs rows"
    using ok by (auto simp: eb_ok_def)
  obtain p h where p: "p \<le> length rows" "\<forall>i\<le>k. eb_received (eb_out s) r i = column (take p rows) i"
    and g: "get_buffer r (eb_hist s) = Inr (map (column (drop p rows)) [0..<length configs], h)"
    and st: "sh.in_step k m (h, (eb_received (eb_out s))(r := (\<lambda>i. eb_received (eb_out s) r i
          @ map (column (drop p rows)) [0..<length configs] ! i)))"
    and h: "\<forall>i\<le>k. sh_log h i = column rows i" "sh_wf (Suc k) m h"
    by (rule eb_missing [OF ok r]) blast
  let ?vs = "map (column (drop p rows)) [0..<length configs]"
  let ?b = "batch_of (map row_event (drop p rows))"
  have "sizes_ok (map length (map row_event (drop p rows) @ []))"
    using sizes_ok_split [OF refl refl, of rows "[]" p] fit by simp
  then have rep: "repack_for_bd dsize configs [] ?vs = Some (Inr ?b)"
    using repack_rows [OF rows_good_ok [OF rows_good_drop [OF good]] len(2), of p "[]"] by (simp add: batch_of_def)
  have all: "eb_received (eb_out s) r i @ ?vs ! i = column rows i" if "i \<le> k" for i
  proof -
    have "?vs ! i = column (drop p rows) i" using that len(1) by (simp del: upt_Suc)
    then show ?thesis using p(2) that by (simp add: column_append [symmetric])
  qed
  show ?thesis
  proof (cases "drop p rows = []")
    case True
    let ?s' = "s\<lparr>eb_hist := h\<rparr>"
    have nil: "column [] i = []" for i by (simp add: column_def)
    have full: "\<forall>i\<le>k. eb_received (eb_out s) r i = column rows i"
      using p(2) True by simp
    have "sh.in_step k m (h, eb_received (eb_out s))"
      by (rule in_step_cong [OF st]) (use True nil len(1) in \<open>auto simp del: upt_Suc\<close>)
    then have "eb_ok dsize configs k m rows ?s'"
      using ok h(1) by (simp add: eb_ok_def)
    moreover have "send_last dsize configs (Suc m) r s = (Inr False, ?s')"
      using g rep True by (simp add: send_last_def eb_get_buffer_def eb_repack_def eff_simps batch_of_Nil)
    ultimately show ?thesis using full by (intro exI [of _ False] exI [of _ ?s']) simp
  next
    case False
    let ?s' = "s\<lparr>eb_hist := h, eb_out := eb_out s @ [BatchSent r [] ?vs [] ?b]\<rparr>"
    have rcv: "eb_received (eb_out ?s') = (eb_received (eb_out s))(r := (\<lambda>i. eb_received (eb_out s) r i @ ?vs ! i))"
      by (intro ext) (simp add: eb_received_add batch_steps_def)
    have "\<exists>q\<le>length rows. \<forall>i\<le>k. eb_received (eb_out ?s') c i = column (take q rows) i" if c: "c \<in> {1..m}" for c
    proof (cases "c = r")
      case True
      then show ?thesis using all by (intro exI [of _ "length rows"]) (simp only: rcv, simp)
    next
      case False
      then show ?thesis using eb_ok_prefix [OF ok c] unfolding rcv by simp
    qed
    then have "eb_ok dsize configs k m rows ?s'"
      using ok h(1) st unfolding eb_ok_def rcv by simp
    moreover have "send_last dsize configs (Suc m) r s = (Inr True, ?s')"
      using g rep False r by (simp add: send_last_def eb_get_buffer_def eb_repack_def eb_isend_def eff_simps batch_of_Nil)
    moreover have "\<forall>i\<le>k. eb_received (eb_out ?s') r i = column rows i" using all unfolding rcv by simp
    moreover have "\<forall>c i. c \<noteq> r \<longrightarrow> eb_received (eb_out ?s') c i = eb_received (eb_out s) c i" unfolding rcv by simp
    moreover have "sent_batches (eb_out ?s') = sent_batches (eb_out s)" by (simp add: sent_batches_def)
    moreover have "sees k rows (eb_out ?s') c V" if "sees k rows (eb_out s) c V" for c V
    proof -
      have "good_batch (map row_event (drop p rows) @ [])"
        using \<open>sizes_ok (map length (map row_event (drop p rows) @ []))\<close> False by (simp add: good_batch_def)
      then have "sees k (rows @ []) (eb_out s @ [BatchSent r [] ?vs [] ?b]) c (V @ (if c = r then [] else map row_event []))"
        using \<open>\<forall>i\<le>k. eb_received (eb_out ?s') r i = column rows i\<close>
        by (intro sees_batch [OF that good len(2) p]) (simp_all del: upt_Suc)
      then show ?thesis by (cases "c = r") simp_all
    qed
    ultimately show ?thesis by (intro exI [of _ True] exI [of _ ?s']) simp
  qed
qed

text \<open>The requests of the last round: those who have nothing to get wait.\<close>

definition rest_ok where
  "rest_ok dsize configs k m rows ws rs s \<longleftrightarrow>
     eb_ok dsize configs k m rows s \<and> eb_waiting s = ws \<and> eb_requests s = rs"

lemma last_of_rest_all:
  assumes "rest_ok dsize configs k m rows ws (rs @ rest) s" and "set rs \<subseteq> {1..m}" and "set ws \<subseteq> {1..m}"
    and "sizes_ok (map length (map row_event rows))"
  shows "\<exists>us s'. efor (\<lambda>_. last_of_rest dsize configs (Suc m)) [j..<j + length rs] s = (Inr (), s')
    \<and> rest_ok dsize configs k m rows (ws @ us) rest s' \<and> set us \<subseteq> {1..m} \<and> length us \<le> length rs
    \<and> (\<forall>c\<in>set rs. \<forall>i\<le>k. eb_received (eb_out s') c i = column rows i)
    \<and> (\<forall>c i. c \<notin> set rs \<longrightarrow> eb_received (eb_out s') c i = eb_received (eb_out s) c i)
    \<and> sent_batches (eb_out s') = sent_batches (eb_out s)
    \<and> (\<forall>c V. sees k rows (eb_out s) c V \<longrightarrow> sees k rows (eb_out s') c V)"
  using assms(1,2,3)
proof (induction rs arbitrary: s j ws)
  case Nil
  then show ?case by (intro exI [of _ "[]"] exI [of _ s]) (auto simp: eff_simps)
next
  case (Cons r rs)
  let ?s = "s\<lparr>eb_requests := rs @ rest\<rparr>"
  have ok: "eb_ok dsize configs k m rows ?s" using Cons.prems(1) by (simp add: rest_ok_def eb_ok_def)
  have r: "r \<in> {1..m}" using Cons.prems(2) by simp
  obtain sent s0 where s0: "send_last dsize configs (Suc m) r ?s = (Inr sent, s0)" "eb_ok dsize configs k m rows s0"
    "eb_waiting s0 = eb_waiting s" "eb_requests s0 = rs @ rest"
    "\<forall>i\<le>k. eb_received (eb_out s0) r i = column rows i"
    "\<forall>c i. c \<noteq> r \<longrightarrow> eb_received (eb_out s0) c i = eb_received (eb_out s) c i"
    "sent_batches (eb_out s0) = sent_batches (eb_out s)"
    "\<forall>c V. sees k rows (eb_out s) c V \<longrightarrow> sees k rows (eb_out s0) c V"
    using send_last_run [OF ok r assms(4)] by auto
  define u where "u = (if sent then [] else [r])"
  define s1 where "s1 = s0\<lparr>eb_waiting := ws @ u\<rparr>"
  have w: "eb_waiting s = ws" using Cons.prems(1) by (simp add: rest_ok_def)
  have run: "last_of_rest dsize configs (Suc m) s = (Inr (), s1)"
  proof (cases sent)
    case True
    then have "s1 = s0" using w s0(3) by (simp add: s1_def u_def)
    then show ?thesis using s0(1) True Cons.prems(1)
      by (simp add: last_of_rest_def request_rank_def rest_ok_def eff_simps)
  next
    case False
    then show ?thesis using s0(1,3) w Cons.prems(1)
      by (simp add: last_of_rest_def request_rank_def rest_ok_def eff_simps s1_def u_def)
  qed
  have s1: "rest_ok dsize configs k m rows (ws @ u) (rs @ rest) s1" "eb_out s1 = eb_out s0"
    using s0(2,4) by (simp_all add: rest_ok_def s1_def eb_ok_def)
  have u: "set u \<subseteq> {1..m}" "length u \<le> 1" using r by (auto simp: u_def)
  obtain us s' where s': "efor (\<lambda>_. last_of_rest dsize configs (Suc m)) [Suc j..<Suc j + length rs] s1 = (Inr (), s')"
    "rest_ok dsize configs k m rows ((ws @ u) @ us) rest s'" "set us \<subseteq> {1..m}" "length us \<le> length rs"
    "\<forall>c\<in>set rs. \<forall>i\<le>k. eb_received (eb_out s') c i = column rows i"
    "\<forall>c i. c \<notin> set rs \<longrightarrow> eb_received (eb_out s') c i = eb_received (eb_out s1) c i"
    "sent_batches (eb_out s') = sent_batches (eb_out s1)"
    "\<forall>c V. sees k rows (eb_out s1) c V \<longrightarrow> sees k rows (eb_out s') c V"
    using Cons.IH [OF s1(1), of "Suc j"] Cons.prems(2,3) u(1) by auto
  have "eb_received (eb_out s') r i = column rows i" if "i \<le> k" for i
    using s'(5,6) s1(2) s0(5) that by (cases "r \<in> set rs") auto
  then show ?case
    using run s' s1(2) s0(6-8) u unfolding upt_length_Cons
    by (intro exI [of _ "u @ us"] exI [of _ s']) (auto simp: eff_simps)
qed

lemma kill_waiting:
  assumes "set ws \<subseteq> {1..m}"
  shows "efor (\<lambda>r. eb_isend (Suc m) r (EbNull r)) ws s = (Inr (), s\<lparr>eb_out := eb_out s @ map EbNull ws\<rparr>)"
  using assms
proof (induction ws arbitrary: s)
  case (Cons w ws)
  then show ?case by (simp add: eff_simps eb_isend_def)
qed (simp add: eff_simps)

lemma kill_rest:
  assumes "eb_requests s = rs @ rest" and "set rs \<subseteq> {1..m}"
  shows "efor (\<lambda>_. kill_next_bd (Suc m)) [j..<j + length rs] s
    = (Inr (), s\<lparr>eb_requests := rest, eb_out := eb_out s @ map EbNull rs\<rparr>)"
  using assms
proof (induction rs arbitrary: s j)
  case Nil
  then show ?case by (simp add: eff_simps)
next
  case (Cons r rs)
  have "kill_next_bd (Suc m) s = (Inr (), s\<lparr>eb_requests := rs @ rest, eb_out := eb_out s @ [EbNull r]\<rparr>)"
    using Cons.prems by (simp add: kill_next_bd_def request_rank_def eb_isend_def eff_simps)
  then show ?case
    using Cons.IH [of "s\<lparr>eb_requests := rs @ rest, eb_out := eb_out s @ [EbNull r]\<rparr>" "Suc j"] Cons.prems
    unfolding upt_length_Cons by (simp add: eff_simps)
qed

lemma eb_received_null: "eb_received (out @ map EbNull rs) = eb_received out"
  by (intro ext) (simp add: eb_received_def comp_def)

lemma sent_batches_null: "sent_batches (out @ map EbNull rs) = sent_batches out"
  by (simp add: sent_batches_def comp_def)

text \<open>A client that has all steps has no more to see, and the end is told it by empty messages.\<close>

lemma node_messages_null: "node_messages c (out @ map EbNull rs) = node_messages c out @ replicate (count_list rs c) []"
  by (induction rs arbitrary: out) (auto simp: node_messages_def)

lemma last_messages:
  assumes "sees k rows out c V" and "rows_good dsize configs rows" and "configs \<noteq> []"
  shows "\<exists>ess p. node_messages c (out @ map EbNull us @ map EbNull rs) = map batch_of ess @ replicate (count_list (us @ rs) c) []
    \<and> list_all good_batch ess \<and> concat ess @ map row_event (drop p rows) = V
    \<and> ((\<forall>i\<le>k. eb_received out c i = column rows i) \<longrightarrow> drop p rows = [])"
proof -
  obtain q ess where q: "q \<le> length rows" "\<forall>i\<le>k. eb_received out c i = column (take q rows) i"
    "node_messages c out = map batch_of ess" "list_all good_batch ess" "V = concat ess @ map row_event (drop q rows)"
    using assms(1) unfolding sees_def by blast
  have "(\<forall>i\<le>k. eb_received out c i = column rows i) \<longrightarrow> drop q rows = []"
  proof
    assume "\<forall>i\<le>k. eb_received out c i = column rows i"
    then have "length rows = q" using take_column_inj [OF assms(2,3) _ q(1), of "length rows"] q(2) by simp
    then show "drop q rows = []" by simp
  qed
  moreover have "node_messages c (out @ map EbNull us @ map EbNull rs) = map batch_of ess @ replicate (count_list (us @ rs) c) []"
    unfolding map_append [symmetric] node_messages_null q(3) ..
  ultimately show ?thesis using q(4) q(5) [symmetric] by blast
qed

lemma eb_init_idle:
  assumes "length configs = Suc k"
  shows "idle_ok dsize configs k m [] (\<lambda>_. []) rs (eb_init (Suc m) (Suc k) rs cs)"
proof -
  have "sh_wf (Suc k) m (sh_init (Suc m) (Suc k))" by (auto simp: sh_wf_def sh_init_def)
  then have "sh.in_step k m (sh_init (Suc m) (Suc k), \<lambda>c i. [])"
    unfolding sh.in_step_def by (auto simp: sh_seen_def sh_init_def nth_append simp del: replicate_Suc)
  then show ?thesis
    using assms unfolding idle_ok_def eb_ok_def eb_received_def
    by (auto simp: eb_init_def rows_good_def column_def sh_log_def sh_init_def less_Suc_eq_le sees_def node_messages_def eb_received_def
        simp del: replicate_Suc)
qed

text \<open>
  A run in which every batch may go to any client. With enough requests it ends: the batches are sent
  once each and in order, every client that asks in the last round has all step data, and no client
  has anything but a beginning of it.
\<close>

lemma eb_start_messages:
  assumes len: "length configs = Suc k" and rq: "set (rs1 @ rs2 @ rs3) \<subseteq> {1..m}"
    and n: "length rs1 = length (concat wss)" "length rs2 = m" "length rs3 = m"
    and built: "list_all2 (chunk_built dsize configs build) cs wss" and fit: "fits [] (concat wss)"
    and total: "sizes_ok (map length (map row_event (concat (map snd (concat wss)))))"
  shows "\<exists>s' ended. eb_start dsize configs (Suc m) build (eb_init (Suc m) (Suc k) (rs1 @ rs2 @ rs3) (cs @ [[]])) = (Inr (), s')
    \<and> sent_batches (eb_out s') = map (\<lambda>w. batch_of (fst w)) (concat wss)
    \<and> (\<forall>c\<in>set rs2. \<forall>i\<le>k. eb_received (eb_out s') c i = column (concat (map snd (concat wss))) i)
    \<and> (\<forall>c\<in>{1..m}. \<exists>p. \<forall>i\<le>k. eb_received (eb_out s') c i = column (take p (concat (map snd (concat wss)))) i)
    \<and> length ended = m \<and> set ended \<subseteq> {1..m}
    \<and> (\<forall>c\<in>{1..m}. \<exists>ess p. node_messages c (eb_out s') = map batch_of ess @ replicate (count_list ended c) []
        \<and> list_all good_batch ess
        \<and> concat ess @ map row_event (drop p (concat (map snd (concat wss)))) = client_batches c rs1 (concat wss)
        \<and> (c \<in> set rs2 \<longrightarrow> drop p (concat (map snd (concat wss))) = []))"
proof -
  let ?rows = "concat (map snd (concat wss))"
  let ?s0 = "eb_init (Suc m) (Suc k) (rs1 @ rs2 @ rs3) (cs @ [[]])"
  have sub: "set rs1 \<subseteq> {1..m}" "set rs2 \<subseteq> {1..m}" "set rs3 \<subseteq> {1..m}" using rq by auto
  obtain s1 where s1: "serve_data dsize configs (Suc m) build (cs @ [[]]) ?s0 = (Inr (), s1)"
    "idle_ok dsize configs k m ?rows (after_batches rs1 (concat wss) (\<lambda>_. [])) (rs2 @ rs3) s1"
    "sent_batches (eb_out s1) = map (\<lambda>w. batch_of (fst w)) (concat wss)"
    using serve_data_run [OF eb_init_idle [OF len] sub(1) n(1) built fit]
    by (auto simp: eb_init_def sent_batches_def)
  have st: "rest_ok dsize configs k m ?rows [] (rs2 @ rs3) s1" using s1(2) by (simp add: idle_ok_def rest_ok_def)
  obtain us s2 where s2: "efor (\<lambda>_. last_of_rest dsize configs (Suc m)) [0..<0 + length rs2] s1 = (Inr (), s2)"
    "rest_ok dsize configs k m ?rows ([] @ us) rs3 s2" "set us \<subseteq> {1..m}" "length us \<le> length rs2"
    "\<forall>c\<in>set rs2. \<forall>i\<le>k. eb_received (eb_out s2) c i = column ?rows i"
    "sent_batches (eb_out s2) = sent_batches (eb_out s1)"
    "\<forall>c V. sees k ?rows (eb_out s1) c V \<longrightarrow> sees k ?rows (eb_out s2) c V"
    using last_of_rest_all [OF st sub(2) _ total, of 0] by auto
  let ?k = "m - length us"
  let ?s3 = "s2\<lparr>eb_out := eb_out s2 @ map EbNull us\<rparr>"
  let ?s4 = "?s3\<lparr>eb_requests := drop ?k rs3, eb_out := eb_out ?s3 @ map EbNull (take ?k rs3)\<rparr>"
  have w2: "eb_waiting s2 = us" "eb_requests s2 = take ?k rs3 @ drop ?k rs3" using s2(2) by (simp_all add: rest_ok_def)
  have tk: "length (take ?k rs3) = ?k" "set (take ?k rs3) \<subseteq> {1..m}"
    using n(3) sub(3) set_take_subset [of ?k rs3] by auto
  have k4: "efor (\<lambda>_. kill_next_bd (Suc m)) [0..<?k] ?s3 = (Inr (), ?s4)"
    using kill_rest [of ?s3 "take ?k rs3" "drop ?k rs3" m 0] w2(2) tk by simp
  have run: "eb_start dsize configs (Suc m) build ?s0 = (Inr (), ?s4)"
    using s1(1,2) s2(1) kill_waiting [OF s2(3), of s2] k4 w2(1) n(2)
    by (simp add: eb_start_def eb_finish_def eff_simps idle_ok_def eb_init_def)
  have rcv: "eb_received (eb_out ?s4) = eb_received (eb_out s2)"
    by (simp add: eb_received_null map_append [symmetric] del: map_append)
  have sb: "sent_batches (eb_out ?s4) = sent_batches (eb_out s2)"
    by (simp add: sent_batches_null map_append [symmetric] del: map_append)
  have ok2: "eb_ok dsize configs k m ?rows s2" using s2(2) by (simp add: rest_ok_def)
  then have good: "rows_good dsize configs ?rows" by (simp add: eb_ok_def)
  have "\<forall>c\<in>{1..m}. \<exists>p. \<forall>i\<le>k. eb_received (eb_out s2) c i = column (take p ?rows) i"
    using eb_ok_prefix [OF ok2] by blast
  moreover have "\<exists>ess p. node_messages c (eb_out ?s4) = map batch_of ess @ replicate (count_list (us @ take ?k rs3) c) []
      \<and> list_all good_batch ess \<and> concat ess @ map row_event (drop p ?rows) = client_batches c rs1 (concat wss)
      \<and> (c \<in> set rs2 \<longrightarrow> drop p ?rows = [])" if c: "c \<in> {1..m}" for c
  proof -
    have "sees k ?rows (eb_out s2) c (client_batches c rs1 (concat wss))"
      using s1(2) s2(7) c by (simp add: idle_ok_def view_client_batches)
    moreover have "configs \<noteq> []" using len by auto
    moreover have "eb_out ?s4 = eb_out s2 @ map EbNull us @ map EbNull (take ?k rs3)" by simp
    ultimately show ?thesis using last_messages [OF _ good, of k "eb_out s2" c _ us "take ?k rs3"] s2(5) by (simp only:) blast
  qed
  moreover have "length (us @ take ?k rs3) = m" "set (us @ take ?k rs3) \<subseteq> {1..m}" using s2(3,4) tk n(2) by auto
  ultimately show ?thesis using run s2(5,6) s1(3) unfolding rcv [symmetric] sb [symmetric]
    by (intro exI [of _ ?s4] exI [of _ "us @ take ?k rs3"]) simp
qed

lemma eb_start_views:
  assumes "length configs = Suc k" and "set (rs1 @ rs2 @ rs3) \<subseteq> {1..m}"
    and "length rs1 = length (concat wss)" and "length rs2 = m" and "length rs3 = m"
    and "list_all2 (chunk_built dsize configs build) cs wss" and "fits [] (concat wss)"
    and "sizes_ok (map length (map row_event (concat (map snd (concat wss)))))"
  shows "\<exists>s' ended. eb_start dsize configs (Suc m) build (eb_init (Suc m) (Suc k) (rs1 @ rs2 @ rs3) (cs @ [[]])) = (Inr (), s')
    \<and> sent_batches (eb_out s') = map (\<lambda>w. batch_of (fst w)) (concat wss)
    \<and> (\<forall>c\<in>set rs2. \<forall>i\<le>k. eb_received (eb_out s') c i = column (concat (map snd (concat wss))) i)
    \<and> length ended = m \<and> set ended \<subseteq> {1..m}
    \<and> (\<forall>c\<in>set rs2. \<exists>ess. node_messages c (eb_out s') = map batch_of ess @ replicate (count_list ended c) []
        \<and> list_all good_batch ess \<and> concat ess = after_batches rs1 (concat wss) (\<lambda>_. []) c)"
proof -
  obtain s' ended where s': "eb_start dsize configs (Suc m) build (eb_init (Suc m) (Suc k) (rs1 @ rs2 @ rs3) (cs @ [[]])) = (Inr (), s')"
    "sent_batches (eb_out s') = map (\<lambda>w. batch_of (fst w)) (concat wss)"
    "\<forall>c\<in>set rs2. \<forall>i\<le>k. eb_received (eb_out s') c i = column (concat (map snd (concat wss))) i"
    "length ended = m" "set ended \<subseteq> {1..m}"
    and all: "\<forall>c\<in>{1..m}. \<exists>ess p. node_messages c (eb_out s') = map batch_of ess @ replicate (count_list ended c) []
        \<and> list_all good_batch ess
        \<and> concat ess @ map row_event (drop p (concat (map snd (concat wss)))) = client_batches c rs1 (concat wss)
        \<and> (c \<in> set rs2 \<longrightarrow> drop p (concat (map snd (concat wss))) = [])"
    using eb_start_messages [OF assms] by blast
  have "\<exists>ess. node_messages c (eb_out s') = map batch_of ess @ replicate (count_list ended c) []
        \<and> list_all good_batch ess \<and> concat ess = after_batches rs1 (concat wss) (\<lambda>_. []) c" if c: "c \<in> set rs2" for c
  proof -
    have "c \<in> {1..m}" using c assms(2) by auto
    from bspec [OF all this] c obtain ess p where "node_messages c (eb_out s') = map batch_of ess @ replicate (count_list ended c) []"
      "list_all good_batch ess" "concat ess @ map row_event (drop p (concat (map snd (concat wss)))) = client_batches c rs1 (concat wss)"
      "drop p (concat (map snd (concat wss))) = []" by blast
    then show ?thesis unfolding view_client_batches by (intro exI [of _ ess]) simp
  qed
  then show ?thesis using s' by (intro exI [of _ s'] exI [of _ ended]) simp
qed

end
