(* ===== verification/EbDest.thy ===== *)
theory EbDest
  imports EbFacts "HOL-Library.Multiset"
begin

text \<open>
  Batches with destinations: what \<open>EventBuilderNode\<close> does with a dict of batches. Every
  request of a client is answered by one batch or kept, and every batch of the dict goes to its own
  destination, unless the dict also has a batch for any client: then that one is sent and the
  others are dropped.
\<close>

definition waiting_requests :: "eb \<Rightarrow> nat list \<Rightarrow> nat multiset" where
  "waiting_requests s rs = mset (eb_waiting s) + mset rs"

fun send_to :: "eb_send \<Rightarrow> nat \<times> bytes" where
  "send_to (BatchSent r smd missing steps b) = (r, smd)"
| "send_to (EbNull r) = (r, [])"

text \<open>\<open>m\<close> sends the batches that \<open>d\<close> has and \<open>d'\<close> has not.\<close>

definition serves :: "dest_dicts \<Rightarrow> dest_dicts \<Rightarrow> eb \<Rightarrow> eb \<Rightarrow> bool" where
  "serves d d' s s' \<longleftrightarrow> distinct (map fst (fst d')) \<and> (\<exists>sends. eb_out s' = eb_out s @ sends
     \<and> mset (map send_to sends) + mset (fst d') = mset (fst d))"

lemma serves_refl: "distinct (map fst (fst d)) \<Longrightarrow> eb_out s' = eb_out s \<Longrightarrow> serves d d s s'"
  by (auto simp: serves_def)

lemma mset_delete:
  assumes "distinct (map fst xs)" and "map_of xs k = Some v"
  shows "add_mset (k, v) (mset (AList.delete k xs)) = mset xs"
  using assms
proof (induction xs)
  case (Cons x xs)
  show ?case
  proof (cases "fst x = k")
    case True
    then have "AList.delete k xs = xs" using Cons.prems(1) by (simp add: AList.delete_idem)
    then show ?thesis using True Cons.prems(2) by (cases x) (simp add: AList.delete_eq)
  next
    case False
    then show ?thesis using Cons by (cases x) (auto simp: AList.delete_eq)
  qed
qed simp

text \<open>Running an operation from its first effect on.\<close>

lemma add_steps_out: "add_steps n r b s = (Inr x, s') \<Longrightarrow> eb_out s' = eb_out s \<and> eb_waiting s' = eb_waiting s"
  by (auto simp: add_steps_def split: if_splits sum.splits)

lemma get_buffer_out: "eb_get_buffer r s = (Inr x, s') \<Longrightarrow> eb_out s' = eb_out s \<and> eb_waiting s' = eb_waiting s"
  by (auto simp: eb_get_buffer_def split: sum.splits prod.splits)

lemma isend_out: "eb_isend n r m s = (Inr x, s') \<Longrightarrow> eb_out s' = eb_out s @ [m] \<and> eb_waiting s' = eb_waiting s"
  by (auto simp: eb_isend_def eff_simps split: if_splits)

lemma send_batch_out:
  assumes "send_batch dsize configs n nsteps r smd steps s = (Inr x, s')"
  shows "eb_waiting s' = eb_waiting s \<and> (\<exists>missing sb b. eb_out s' = eb_out s @ [BatchSent r smd missing sb b])"
proof -
  obtain missing s1 where 1: "eb_get_buffer r s = (Inr missing, s1)"
    "ebind (eb_repack dsize configs smd missing) (\<lambda>batch.
      eseq (eb_isend n r (BatchSent r smd missing (if 0 < nsteps then steps else []) batch)) (add_steps nsteps r steps)) s1 = (Inr x, s')"
    using assms unfolding send_batch_def by (rule ebind_InrD)
  obtain batch s2 where 2: "eb_repack dsize configs smd missing s1 = (Inr batch, s2)"
    "eseq (eb_isend n r (BatchSent r smd missing (if 0 < nsteps then steps else []) batch)) (add_steps nsteps r steps) s2 = (Inr x, s')"
    using 1(2) by (rule ebind_InrD)
  obtain y s3 where 3: "eb_isend n r (BatchSent r smd missing (if 0 < nsteps then steps else []) batch) s2 = (Inr y, s3)"
    "add_steps nsteps r steps s3 = (Inr x, s')"
    using 2(2) by (rule eseq_InrD)
  have "s2 = s1" using 2(1) by (simp add: eb_repack_def elift_def)
  then show ?thesis using get_buffer_out [OF 1(1)] isend_out [OF 3(1)] add_steps_out [OF 3(2)] by auto
qed

text \<open>\<open>_send_to_dest\<close> is the sending of the batch of the dict.\<close>

lemma send_to_dest_batch:
  assumes "send_to_dest dsize configs n nsteps dest d s = (Inr d', s')"
  shows "\<exists>smd steps. map_of (fst d) dest = Some smd \<and> map_of (snd d) dest = Some steps
    \<and> d' = (AList.delete dest (fst d), AList.delete dest (snd d))
    \<and> send_batch dsize configs n nsteps dest smd steps s = (Inr (), s')"
proof -
  obtain smd where smd: "map_of (fst d) dest = Some smd"
    using assms by (cases "map_of (fst d) dest") (auto simp: send_to_dest_def eff_simps dict_get_def)
  obtain steps where steps: "map_of (snd d) dest = Some steps"
    using assms by (cases "map_of (snd d) dest")
      (auto simp: send_to_dest_def eff_simps dict_get_def split: option.splits sum.splits prod.splits)
  have "send_to_dest dsize configs n nsteps dest d s =
    (case send_batch dsize configs n nsteps dest smd steps s of
       (Inl e, t) \<Rightarrow> (Inl e, t)
     | (Inr _, t) \<Rightarrow> (Inr (AList.delete dest (fst d), AList.delete dest (snd d)), t))"
    using smd steps by (simp add: send_to_dest_def send_batch_def eff_simps dict_get_def
        split: sum.splits prod.splits split del: if_split)
  then show ?thesis using assms smd steps by (auto split: sum.splits prod.splits)
qed

lemma send_to_dest_serves:
  assumes run: "send_to_dest dsize configs n nsteps dest d s = (Inr d', s')" and dis: "distinct (map fst (fst d))"
  shows "serves d d' s s' \<and> eb_waiting s' = eb_waiting s
    \<and> (\<exists>m. eb_out s' = eb_out s @ [m] \<and> fst (send_to m) = dest)"
proof -
  obtain smd steps where d: "map_of (fst d) dest = Some smd"
    "d' = (AList.delete dest (fst d), AList.delete dest (snd d))"
    "send_batch dsize configs n nsteps dest smd steps s = (Inr (), s')"
    using send_to_dest_batch [OF run] by auto
  obtain missing sb b where out: "eb_waiting s' = eb_waiting s" "eb_out s' = eb_out s @ [BatchSent dest smd missing sb b]"
    using send_batch_out [OF d(3)] by auto
  have "distinct (map fst (fst d'))" using dis d(2) by (simp add: AList.distinct_delete)
  then show ?thesis using out d(2) mset_delete [OF dis d(1)] by (simp add: serves_def)
qed

text \<open>What is sent and to whom: the requests that were answered.\<close>

definition answers :: "dest_dicts \<Rightarrow> nat list \<Rightarrow> dest_dicts \<Rightarrow> nat list \<Rightarrow> eb \<Rightarrow> eb \<Rightarrow> bool" where
  "answers d rs d' rs' s s' \<longleftrightarrow> distinct (map fst (fst d')) \<and> (\<exists>sends. eb_out s' = eb_out s @ sends
     \<and> mset (map send_to sends) + mset (fst d') = mset (fst d)
     \<and> mset (map (fst \<circ> send_to) sends) + waiting_requests s' rs' = waiting_requests s rs)"

lemma answers_trans:
  assumes "answers d rs d1 rs1 s s1" and "answers d1 rs1 d2 rs2 s1 s2"
  shows "answers d rs d2 rs2 s s2"
proof -
  obtain x where x: "eb_out s1 = eb_out s @ x" "mset (map send_to x) + mset (fst d1) = mset (fst d)"
    "mset (map (fst \<circ> send_to) x) + waiting_requests s1 rs1 = waiting_requests s rs"
    using assms(1) by (auto simp: answers_def)
  obtain y where y: "eb_out s2 = eb_out s1 @ y" "mset (map send_to y) + mset (fst d2) = mset (fst d1)"
    "mset (map (fst \<circ> send_to) y) + waiting_requests s2 rs2 = waiting_requests s1 rs1" "distinct (map fst (fst d2))"
    using assms(2) by (auto simp: answers_def)
  show ?thesis unfolding answers_def
  proof (intro conjI exI [of _ "x @ y"])
    show "mset (map send_to (x @ y)) + mset (fst d2) = mset (fst d)"
      using x(2) y(2) by (simp add: union_assoc)
    show "mset (map (fst \<circ> send_to) (x @ y)) + waiting_requests s2 rs2 = waiting_requests s rs"
      using x(3) y(3) by (simp add: union_assoc)
  qed (use x(1) y(1,4) in auto)
qed

lemma send_answers:
  assumes run: "send_to_dest dsize configs n nsteps dest d s = (Inr d', s1)" and dis: "distinct (map fst (fst d))"
    and w: "add_mset dest (waiting_requests s' rs') = waiting_requests s rs" and out: "eb_out s' = eb_out s1"
  shows "answers d rs d' rs' s s'"
proof -
  obtain m where m: "serves d d' s s1" "eb_out s1 = eb_out s @ [m]" "fst (send_to m) = dest"
    using send_to_dest_serves [OF run dis] by auto
  then show ?thesis using w out by (auto simp: answers_def serves_def intro!: exI [of _ "[m]"])
qed

lemma from_waiting_answers:
  assumes "from_waiting dsize configs n nsteps ws d s = (Inr d', s')" and "distinct (map fst (fst d))"
    and "mset ws \<subseteq># mset (eb_waiting s)"
  shows "answers d rs d' rs s s'"
  using assms
proof (induction ws arbitrary: d s)
  case Nil
  then show ?case by (auto simp: answers_def eff_simps)
next
  case (Cons r ws)
  have sub: "mset ws \<subseteq># mset (eb_waiting s) - {#r#}" "r \<in> set (eb_waiting s)"
    using Cons.prems(3) by (auto simp: insert_subset_eq_iff)
  show ?case
  proof (cases "map_of (fst d) r = None")
    case True
    have "mset ws \<subseteq># mset (eb_waiting s)" using sub(1) diff_subset_eq_self subset_mset.order_trans by blast
    then show ?thesis using Cons.IH [of d s] Cons.prems True by simp
  next
    case False
    then have run: "ebind (send_to_dest dsize configs n nsteps r d) (\<lambda>d1.
           eseq (emod (\<lambda>s. s\<lparr>eb_waiting := remove1 r (eb_waiting s)\<rparr>))
                (from_waiting dsize configs n nsteps ws d1)) s = (Inr d', s')" using Cons.prems(1) by simp
    obtain d1 s1 where 1: "send_to_dest dsize configs n nsteps r d s = (Inr d1, s1)"
      "eseq (emod (\<lambda>s. s\<lparr>eb_waiting := remove1 r (eb_waiting s)\<rparr>)) (from_waiting dsize configs n nsteps ws d1) s1 = (Inr d', s')"
      using run by (rule ebind_InrD)
    let ?s1 = "s1\<lparr>eb_waiting := remove1 r (eb_waiting s1)\<rparr>"
    have s1: "serves d d1 s s1" "eb_waiting s1 = eb_waiting s"
      using send_to_dest_serves [OF 1(1) Cons.prems(2)] by auto
    have 2: "from_waiting dsize configs n nsteps ws d1 ?s1 = (Inr d', s')"
      using 1(2) by (simp add: eff_simps)
    have "answers d rs d1 rs s ?s1"
      using sub(2) s1(2) by (intro send_answers [OF 1(1) Cons.prems(2)]) (simp_all add: waiting_requests_def)
    moreover have "answers d1 rs d' rs ?s1 s'"
      using Cons.IH [OF 2] sub(1) s1 by (simp add: serves_def)
    ultimately show ?thesis by (rule answers_trans)
  qed
qed

lemma dest_loop_answers:
  assumes "dest_loop dsize configs n nsteps rs d s = (Inr left, s')" and "distinct (map fst (fst d))"
  shows "\<exists>d'. fst d' = [] \<and> answers d rs d' left s s'"
  using assms
proof (induction rs arbitrary: d s)
  case Nil
  show ?case
  proof (cases "fst d = []")
    case True
    then show ?thesis using Nil by (intro exI [of _ d]) (auto simp: answers_def eff_simps)
  next
    case False
    then have run: "ebind (from_waiting dsize configs n nsteps (eb_waiting s) d)
        (\<lambda>d1. if fst d1 = [] then eret [] else eraise Blocked) s = (Inr left, s')"
      using Nil.prems(1) by (simp add: ebind_run eget_run)
    obtain d1 s1 where 1: "from_waiting dsize configs n nsteps (eb_waiting s) d s = (Inr d1, s1)"
      "(if fst d1 = [] then eret [] else eraise Blocked) s1 = (Inr left, s')"
      using run by (rule ebind_InrD)
    then show ?thesis
      using from_waiting_answers [OF 1(1) Nil.prems(2)] by (intro exI [of _ d1]) (auto simp: eff_simps split: if_splits)
  qed
next
  case (Cons r rs)
  show ?case
  proof (cases "fst d = []")
    case True
    then show ?thesis using Cons.prems by (intro exI [of _ d]) (auto simp: answers_def eff_simps)
  next
    case False
    define cont where "cont d1 = (if fst d1 = [] then eret (r # rs)
         else if map_of (fst d1) r \<noteq> None
         then ebind (send_to_dest dsize configs n nsteps r d1) (dest_loop dsize configs n nsteps rs)
         else eseq (emod (\<lambda>s. s\<lparr>eb_waiting := eb_waiting s @ [r]\<rparr>))
                   (dest_loop dsize configs n nsteps rs d1))" for d1
    have run: "ebind (from_waiting dsize configs n nsteps (eb_waiting s) d) cont s = (Inr left, s')"
      using Cons.prems(1) False unfolding cont_def by (simp add: ebind_run eget_run)
    obtain d1 s1 where 1: "from_waiting dsize configs n nsteps (eb_waiting s) d s = (Inr d1, s1)"
      "cont d1 s1 = (Inr left, s')"
      using run by (rule ebind_InrD)
    have a1: "answers d (r # rs) d1 (r # rs) s s1" using from_waiting_answers [OF 1(1) Cons.prems(2)] by simp
    then have dis: "distinct (map fst (fst d1))" by (simp add: answers_def)
    consider "fst d1 = []" | "fst d1 \<noteq> []" "map_of (fst d1) r \<noteq> None" | "fst d1 \<noteq> []" "map_of (fst d1) r = None"
      by blast
    then show ?thesis
    proof cases
      case 1
      then show ?thesis using a1 \<open>cont d1 s1 = (Inr left, s')\<close>
        by (intro exI [of _ d1]) (simp add: cont_def eff_simps)
    next
      case 2
      then have "ebind (send_to_dest dsize configs n nsteps r d1) (dest_loop dsize configs n nsteps rs) s1 = (Inr left, s')"
        using 1(2) by (simp add: cont_def)
      then obtain d2 s2 where 3: "send_to_dest dsize configs n nsteps r d1 s1 = (Inr d2, s2)"
        "dest_loop dsize configs n nsteps rs d2 s2 = (Inr left, s')" by (rule ebind_InrD)
      have s2: "serves d1 d2 s1 s2" "eb_waiting s2 = eb_waiting s1" using send_to_dest_serves [OF 3(1) dis] by auto
      have a2: "answers d1 (r # rs) d2 rs s1 s2"
        using s2(2) by (intro send_answers [OF 3(1) dis]) (simp_all add: waiting_requests_def)
      obtain d' where "fst d' = []" "answers d2 rs d' left s2 s'"
        using Cons.IH [OF 3(2)] s2(1) by (auto simp: serves_def)
      then show ?thesis using answers_trans [OF a1 answers_trans [OF a2]] by blast
    next
      case 3
      let ?s2 = "s1\<lparr>eb_waiting := eb_waiting s1 @ [r]\<rparr>"
      have 4: "dest_loop dsize configs n nsteps rs d1 ?s2 = (Inr left, s')"
        using 1(2) 3 by (simp add: cont_def eff_simps)
      have a2: "answers d1 (r # rs) d1 rs s1 ?s2" using dis by (simp add: answers_def waiting_requests_def)
      obtain d' where "fst d' = []" "answers d1 rs d' left ?s2 s'"
        using Cons.IH [OF 4 dis] by auto
      then show ?thesis using answers_trans [OF a1 answers_trans [OF a2]] by blast
    qed
  qed
qed

text \<open>
  A dict of destinations: every batch goes to its destination once, and every request was answered
  or is kept.
\<close>

lemma serve_dests_sends:
  assumes run: "serve_dests dsize configs n b s = (Inr (), s')" and dis: "distinct (map fst (bt_smd b))"
  shows "\<exists>sends. eb_out s' = eb_out s @ sends \<and> mset (map send_to sends) = mset (bt_smd b)
    \<and> mset (map (fst \<circ> send_to) sends) + mset (eb_waiting s') + mset (eb_requests s')
        = mset (eb_waiting s) + mset (eb_requests s)"
proof -
  obtain left s1 where 1: "dest_loop dsize configs n (bt_nsteps b) (eb_requests s) (bt_smd b, bt_step b) s = (Inr left, s1)"
    "s' = s1\<lparr>eb_requests := left\<rparr>"
    using run by (auto simp: serve_dests_def eff_simps split: sum.splits prod.splits)
  obtain d' where "fst d' = []" "answers (bt_smd b, bt_step b) (eb_requests s) d' left s s1"
    using dest_loop_answers [OF 1(1)] dis by auto
  then show ?thesis using 1(2) by (auto simp: answers_def waiting_requests_def union_assoc)
qed

text \<open>With a batch for any client in the dict, that batch is the only one that is sent.\<close>

lemma any_batch_only:
  assumes run: "serve_built dsize configs n b s = (Inr go, s')" and "map_of (bt_smd b) 0 = Some smd"
  shows "go \<and> (\<exists>r missing sb batch. eb_out s' = eb_out s @ [BatchSent r smd missing sb batch])"
proof -
  have go: "go" and any: "serve_any dsize configs n b s = (Inr (), s')"
    using run assms(2) by (auto simp: serve_built_def eff_simps split: sum.splits prod.splits)
  obtain steps r s1 where 1: "send_batch dsize configs n (bt_nsteps b) r smd steps s1 = (Inr (), s')" "eb_out s1 = eb_out s"
    using any assms(2)
    by (auto simp: serve_any_def eff_simps dict_get_def request_rank_def split: option.splits if_splits list.splits)
  show ?thesis using go send_batch_out [OF 1(1)] 1(2) by auto
qed

end
