(* ===== verification/Smd0Facts.thy ===== *)
theory Smd0Facts
  imports EbFacts
begin

text \<open>
  What the event builders receive from \<open>Smd0\<close>, read from the bytes of the messages alone: a message
  is a packet with one part per file, and the parts for a file, one message after the other, are the
  client's stream of that file. The invariant of the run is that this stream and what the node's step
  history still holds for the client are together the client's view of the run.
\<close>

section \<open>The stream of a client\<close>

definition chunk_part :: "nat \<Rightarrow> bytes \<Rightarrow> bytes" where
  "chunk_part i b = (case eb_views b of Inl e \<Rightarrow> [] | Inr vs \<Rightarrow> vs ! i)"

definition has_parts :: "nat \<Rightarrow> bytes \<Rightarrow> bool" where
  "has_parts n b \<longleftrightarrow> (\<exists>vs. eb_views b = Inr vs \<and> length vs = n)"

text \<open>
  The view of a client: the window of a chunk that it asked for, with the fake transitions, and the
  steps of all others.
\<close>

definition client_view :: "nat list \<Rightarrow> chunk list \<Rightarrow> nat \<Rightarrow> nat \<Rightarrow> bytes" where
  "client_view rs cks c i =
     concat (map2 (\<lambda>r ck. if r = c then ck_smds ck ! i @ ck_fake ck else ck_steps ck ! i) rs cks)"

text \<open>The fake transitions of the last window, which the batches of the last round have again.\<close>

definition last_fake :: "chunk list \<Rightarrow> bytes" where
  "last_fake cks = (if served cks = [] then [] else ck_fake (last (served cks)))"

definition steps_of :: "chunk list \<Rightarrow> nat \<Rightarrow> bytes" where
  "steps_of cks i = concat (map (\<lambda>ck. ck_steps ck ! i) cks)"

text \<open>The sizes of a message's parts fit the four bytes that the footer has for each.\<close>

definition run_fits :: "nat \<Rightarrow> chunk list \<Rightarrow> bool" where
  "run_fits n cks \<longleftrightarrow> n < 2 ^ 32 \<and> (\<forall>ck\<in>set cks. \<forall>i<n.
     length (steps_of cks i) + length (ck_smds ck ! i) + length (ck_fake ck) < 2 ^ 32)"

lemma client_view_Cons:
  "client_view (r # rs) (ck # cks) c i =
     (if r = c then ck_smds ck ! i @ ck_fake ck else ck_steps ck ! i) @ client_view rs cks c i"
  by (simp add: client_view_def)

lemma repack_parts:
  assumes "repack_parallel ck (map f [0..<Suc k]) only = Inr b" and "length (ck_smds ck) = Suc k" and "Suc k < 2 ^ 32"
    and "\<And>i. i \<le> k \<Longrightarrow> length (f i @ (if only then [] else ck_smds ck ! i) @ ck_fake ck) < 2 ^ 32"
  shows "has_parts (Suc k) b" "i \<le> k \<Longrightarrow> chunk_part i b = f i @ (if only then [] else ck_smds ck ! i) @ ck_fake ck"
proof -
  let ?p = "map2 (\<lambda>sv smd. sv @ (if only then [] else smd) @ ck_fake ck) (map f [0..<Suc k]) (ck_smds ck)"
  have p: "length ?p = Suc k" "\<And>i. i \<le> k \<Longrightarrow> ?p ! i = f i @ (if only then [] else ck_smds ck ! i) @ ck_fake ck"
    using assms(2) by (simp_all add: less_Suc_eq_le del: upt_Suc)
  have "sizes_ok (map length ?p)"
    using p assms(3,4) by (auto simp: sizes_ok_def list_all_length less_Suc_eq_le simp del: upt_Suc)
  moreover have "?p \<noteq> []" using p(1) by (metis list.size(3) nat.distinct(1))
  ultimately have "eb_views b = Inr ?p" using assms(1,2) eb_views_batch [of ?p]
    by (simp add: repack_parallel_def Let_def del: upt_Suc)
  then show "has_parts (Suc k) b" "i \<le> k \<Longrightarrow> chunk_part i b = f i @ (if only then [] else ck_smds ck ! i) @ ck_fake ck"
    using p by (simp_all add: has_parts_def chunk_part_def del: upt_Suc)
qed

section \<open>The run\<close>

text \<open>
  The messages of a client are packets, as many as \<open>n\<close> says, and its stream with what it misses is
  its view \<open>V\<close>; the history is \<open>L\<close>.
\<close>

definition streams :: "nat \<Rightarrow> nat \<Rightarrow> (nat \<Rightarrow> bytes) \<Rightarrow> (nat \<Rightarrow> nat) \<Rightarrow> (nat \<Rightarrow> nat \<Rightarrow> bytes) \<Rightarrow> smd0 \<Rightarrow> bool" where
  "streams k m L n V s \<longleftrightarrow> smd0_ok k m s \<and> (\<forall>i\<le>k. sh_log (s0_hist s) i = L i)
     \<and> (\<forall>c\<in>{1..m}. list_all (has_parts (Suc k)) (received_chunks c (s0_out s)) \<and> length (received_chunks c (s0_out s)) = n c
          \<and> (\<forall>i\<le>k. concat (map (chunk_part i) (received_chunks c (s0_out s))) @ missed s c i = V c i))"

lemma missed_le: "length (missed s c i) \<le> length (sh_log (s0_hist s) i)"
  by (simp add: missed_def)

lemma streams_chunk:
  assumes st: "streams k m L n V s" and rq: "s0_requests s = r # rs" and r: "r \<in> {1..m}" and ck: "chunk_ok (Suc k) ck"
    and k: "Suc k < 2 ^ 32" and fit: "\<And>i. i \<le> k \<Longrightarrow> length (L i) + length (ck_smds ck ! i) + length (ck_fake ck) < 2 ^ 32"
  shows "\<exists>s'. serve_chunk (Suc m) ck s = (Inr (), s') \<and> s0_requests s' = rs \<and> s0_view s' = ck
    \<and> streams k m (\<lambda>i. L i @ ck_steps ck ! i) (n(r := Suc (n r)))
        (\<lambda>c i. V c i @ (if r = c then ck_smds ck ! i @ ck_fake ck else ck_steps ck ! i)) s'"
proof -
  have ok: "smd0_ok k m s" and log: "\<And>i. i \<le> k \<Longrightarrow> sh_log (s0_hist s) i = L i" using st by (simp_all add: streams_def)
  obtain s' b where s': "serve_chunk (Suc m) ck s = (Inr (), s')" "smd0_ok k m s'" "s0_requests s' = rs" "s0_view s' = ck"
    "s0_out s' = s0_out s @ [ChunkSent r b]" "repack_parallel ck (map (missed s r) [0..<Suc k]) False = Inr b"
    "\<forall>i\<le>k. sh_log (s0_hist s') i = sh_log (s0_hist s) i @ ck_steps ck ! i"
    "\<forall>c\<in>{1..m}. \<forall>i\<le>k. missed s' c i = (if c = r then [] else missed s c i @ ck_steps ck ! i)"
    using serve_chunk_run [OF ok rq r ck] by blast
  have "length (missed s r i @ (if False then [] else ck_smds ck ! i) @ ck_fake ck) < 2 ^ 32" if "i \<le> k" for i
    using fit [OF that] missed_le [of s r i] log [OF that] by simp
  then have "has_parts (Suc k) b" "\<And>i. i \<le> k \<Longrightarrow> chunk_part i b = missed s r i @ ck_smds ck ! i @ ck_fake ck"
    using repack_parts [OF s'(6) _ k] ck by (simp_all add: chunk_ok_def)
  then show ?thesis
    using st s' log by (intro exI [of _ s']) (auto simp: streams_def received_chunks_add simp flip: append_assoc)
qed

lemma streams_missing:
  assumes st: "streams k m L n V s" and rq: "s0_requests s = r # rs" and r: "r \<in> {1..m}"
    and k: "Suc k < 2 ^ 32" and fit: "\<And>i. i \<le> k \<Longrightarrow> length (L i) + length (ck_fake (s0_view s)) < 2 ^ 32"
  shows "\<exists>s'. send_missing (Suc m) w s = (Inr w, s') \<and> s0_requests s' = rs \<and> s0_view s' = s0_view s
    \<and> streams k m L (n(r := Suc (n r))) (\<lambda>c i. V c i @ (if r = c then ck_fake (s0_view s) else [])) s'
    \<and> (\<forall>i\<le>k. missed s' r i = []) \<and> (\<forall>c\<in>{1..m}. \<forall>i\<le>k. missed s c i = [] \<longrightarrow> missed s' c i = [])"
proof -
  have ok: "smd0_ok k m s" and log: "\<And>i. i \<le> k \<Longrightarrow> sh_log (s0_hist s) i = L i" using st by (simp_all add: streams_def)
  obtain s' b where s': "send_missing (Suc m) w s = (Inr w, s')" "smd0_ok k m s'" "s0_requests s' = rs" "s0_view s' = s0_view s"
    "s0_out s' = s0_out s @ [ChunkSent r b]" "repack_parallel (s0_view s) (map (missed s r) [0..<Suc k]) True = Inr b"
    "\<forall>i\<le>k. sh_log (s0_hist s') i = sh_log (s0_hist s) i"
    "\<forall>c\<in>{1..m}. \<forall>i\<le>k. missed s' c i = (if c = r then [] else missed s c i)"
    using send_missing_run [OF ok rq r] by blast
  have "length (missed s r i @ (if True then [] else ck_smds (s0_view s) ! i) @ ck_fake (s0_view s)) < 2 ^ 32" if "i \<le> k" for i
    using fit [OF that] missed_le [of s r i] log [OF that] by simp
  then have "has_parts (Suc k) b" "\<And>i. i \<le> k \<Longrightarrow> chunk_part i b = missed s r i @ ck_fake (s0_view s)"
    using repack_parts [OF s'(6) _ k] ok by (simp_all add: smd0_ok_def)
  then show ?thesis
    using st s' log r by (intro exI [of _ s']) (auto simp: streams_def received_chunks_add simp flip: append_assoc)
qed

text \<open>The chunks of a run.\<close>

lemma streams_chunks:
  assumes "streams k m L n V s" and "s0_requests s = rs @ rest" and "set rs \<subseteq> {1..m}" and "list_all (chunk_ok (Suc k)) cks"
    and "length rs = length (served cks)" and "Suc k < 2 ^ 32"
    and "\<forall>ck\<in>set (served cks). \<forall>i\<le>k. length (L i @ steps_of (served cks) i) + length (ck_smds ck ! i) + length (ck_fake ck) < 2 ^ 32"
  shows "\<exists>s'. serve_chunks (Suc m) cks s = (Inr (), s') \<and> s0_requests s' = rest
    \<and> s0_view s' = (if served cks = [] then s0_view s else last (served cks))
    \<and> streams k m (\<lambda>i. L i @ steps_of (served cks) i) (\<lambda>c. n c + count_list rs c)
        (\<lambda>c i. V c i @ client_view rs (served cks) c i) s'"
  using assms
proof (induction cks arbitrary: rs L n V s)
  case Nil
  then show ?case by (simp add: steps_of_def client_view_def eff_simps)
next
  case (Cons ck cks)
  have sv: "served (ck # cks) = ck # (if ck_terminate ck \<or> ck_endrun ck then [] else served cks)" by (rule served_Cons)
  then obtain r rs' where rs: "rs = r # rs'" using Cons.prems(5) by (cases rs) simp_all
  have fit: "length (L i) + length (ck_smds ck ! i) + length (ck_fake ck) < 2 ^ 32" if "i \<le> k" for i
    using Cons.prems(7) that unfolding sv by (fastforce simp: steps_of_def)
  have r: "r \<in> {1..m}" "set rs' \<subseteq> {1..m}" and ck: "chunk_ok (Suc k) ck" "list_all (chunk_ok (Suc k)) cks"
    and rq: "s0_requests s = r # rs' @ rest"
    using Cons.prems(2-4) rs by auto
  let ?V = "\<lambda>c i. V c i @ (if r = c then ck_smds ck ! i @ ck_fake ck else ck_steps ck ! i)"
  obtain s1 where s1: "serve_chunk (Suc m) ck s = (Inr (), s1)" "s0_requests s1 = rs' @ rest" "s0_view s1 = ck"
    "streams k m (\<lambda>i. L i @ ck_steps ck ! i) (n(r := Suc (n r))) ?V s1"
    using streams_chunk [OF Cons.prems(1) rq r(1) ck(1) Cons.prems(6) fit] by blast
  have cnt: "(\<lambda>c. (n(r := Suc (n r))) c + count_list rs' c) = (\<lambda>c. n c + count_list rs c)" by (simp add: rs fun_eq_iff)
  show ?case
  proof (cases "ck_terminate ck \<or> ck_endrun ck")
    case True
    then have "rs' = []" "served (ck # cks) = [ck]" using Cons.prems(5) rs sv by simp_all
    then have "(\<lambda>c. n c + count_list rs c) = n(r := Suc (n r))" "(\<lambda>c i. V c i @ client_view rs (served (ck # cks)) c i) = ?V"
      "(\<lambda>i. L i @ steps_of (served (ck # cks)) i) = (\<lambda>i. L i @ ck_steps ck ! i)"
      using rs by (auto simp: client_view_def steps_of_def)
    then show ?thesis using s1 True \<open>rs' = []\<close> \<open>served (ck # cks) = [ck]\<close>
      by (intro exI [of _ s1]) (simp add: eff_simps)
  next
    case False
    then have sc: "served (ck # cks) = ck # served cks" using sv by simp
    have "\<forall>ck'\<in>set (served cks). \<forall>i\<le>k. length ((L i @ ck_steps ck ! i) @ steps_of (served cks) i)
        + length (ck_smds ck' ! i) + length (ck_fake ck') < 2 ^ 32"
      using Cons.prems(7) unfolding sc by (simp add: steps_of_def)
    then obtain s' where "serve_chunks (Suc m) cks s1 = (Inr (), s')" "s0_requests s' = rest"
      "s0_view s' = (if served cks = [] then s0_view s1 else last (served cks))"
      "streams k m (\<lambda>i. (L i @ ck_steps ck ! i) @ steps_of (served cks) i) (\<lambda>c. (n(r := Suc (n r))) c + count_list rs' c)
        (\<lambda>c i. ?V c i @ client_view rs' (served cks) c i) s'"
      using Cons.IH [OF s1(4,2) r(2) ck(2) _ Cons.prems(6)] Cons.prems(5) rs sc by auto
    then show ?thesis using s1(1,3) False unfolding cnt
      by (intro exI [of _ s']) (simp add: eff_simps sc rs steps_of_def client_view_Cons)
  qed
qed

text \<open>The first of the last two rounds; who asks in it misses nothing afterwards.\<close>

lemma streams_round:
  assumes "streams k m L n V s" and "s0_requests s = rs @ rest" and "set rs \<subseteq> {1..m}" and "Suc k < 2 ^ 32"
    and "\<And>i. i \<le> k \<Longrightarrow> length (L i) + length (ck_fake (s0_view s)) < 2 ^ 32"
  shows "\<exists>s'. efold (\<lambda>_. send_missing (Suc m)) [j..<j + length rs] w s = (Inr w, s') \<and> s0_requests s' = rest
    \<and> s0_view s' = s0_view s
    \<and> streams k m L (\<lambda>c. n c + count_list rs c) (\<lambda>c i. V c i @ concat (replicate (count_list rs c) (ck_fake (s0_view s)))) s'
    \<and> (\<forall>c\<in>{1..m}. \<forall>i\<le>k. c \<in> set rs \<or> missed s c i = [] \<longrightarrow> missed s' c i = [])"
  using assms
proof (induction rs arbitrary: s n V j)
  case Nil
  then show ?case by (simp add: eff_simps)
next
  case (Cons r rs)
  have r: "r \<in> {1..m}" "set rs \<subseteq> {1..m}" using Cons.prems(3) by auto
  let ?f = "ck_fake (s0_view s)"
  let ?V = "\<lambda>c i. V c i @ (if r = c then ?f else [])"
  obtain s1 where s1: "send_missing (Suc m) w s = (Inr w, s1)" "s0_requests s1 = rs @ rest" "s0_view s1 = s0_view s"
    "streams k m L (n(r := Suc (n r))) ?V s1" "\<forall>i\<le>k. missed s1 r i = []"
    "\<forall>c\<in>{1..m}. \<forall>i\<le>k. missed s c i = [] \<longrightarrow> missed s1 c i = []"
    using streams_missing [OF Cons.prems(1) _ r(1) Cons.prems(4,5), of "rs @ rest" w] Cons.prems(2) by auto
  have cnt: "(\<lambda>c. (n(r := Suc (n r))) c + count_list rs c) = (\<lambda>c. n c + count_list (r # rs) c)" by (simp add: fun_eq_iff)
  have V: "(\<lambda>c i. ?V c i @ concat (replicate (count_list rs c) ?f)) = (\<lambda>c i. V c i @ concat (replicate (count_list (r # rs) c) ?f))"
    by (simp add: fun_eq_iff)
  obtain s' where s': "efold (\<lambda>_. send_missing (Suc m)) [Suc j..<Suc j + length rs] w s1 = (Inr w, s')" "s0_requests s' = rest"
    "s0_view s' = s0_view s1"
    "streams k m L (\<lambda>c. (n(r := Suc (n r))) c + count_list rs c) (\<lambda>c i. ?V c i @ concat (replicate (count_list rs c) ?f)) s'"
    "\<forall>c\<in>{1..m}. \<forall>i\<le>k. c \<in> set rs \<or> missed s1 c i = [] \<longrightarrow> missed s' c i = []"
    using Cons.IH [OF s1(4,2) r(2) Cons.prems(4), of "Suc j"] Cons.prems(5) unfolding s1(3) by blast
  have "\<forall>c\<in>{1..m}. \<forall>i\<le>k. c \<in> set (r # rs) \<or> missed s c i = [] \<longrightarrow> missed s' c i = []"
    using s'(5) s1(5,6) by auto
  then show ?case using s1(1,3) s'(1-4) unfolding cnt V upt_length_Cons
    by (intro exI [of _ s']) (simp add: eff_simps)
qed

text \<open>
  The whole run: a client's messages are as many packets as it asked for in the rounds before the
  last, then empty ones. Its stream is a beginning of its view, and the whole view for those that
  asked in the first of the two last rounds.
\<close>

lemma smd0_streams:
  assumes "list_all (chunk_ok (Suc k)) cks" and rq: "set (rs1 @ rs2 @ rs3) \<subseteq> {1..m}"
    and n: "length rs1 = length (served cks)" "length rs2 = N" "length rs3 = N" and fit: "run_fits (Suc k) (served cks)"
  shows "\<exists>s'. smd0_start (Suc m) N cks (smd0_init (Suc m) (Suc k) (rs1 @ rs2 @ rs3)) = (Inr (), s') \<and> s0_requests s' = []
    \<and> (\<forall>c\<in>{1..m}. \<exists>msgs. received_chunks c (s0_out s') = msgs @ replicate (count_list rs3 c) []
        \<and> length msgs = count_list (rs1 @ rs2) c \<and> list_all (has_parts (Suc k)) msgs
        \<and> (\<forall>i\<le>k. prefix (concat (map (chunk_part i) msgs))
              (client_view rs1 (served cks) c i @ concat (replicate (count_list rs2 c) (last_fake cks))))
        \<and> (c \<in> set rs2 \<longrightarrow> (\<forall>i\<le>k. concat (map (chunk_part i) msgs)
              = client_view rs1 (served cks) c i @ concat (replicate (count_list rs2 c) (last_fake cks)))))"
proof -
  let ?s0 = "smd0_init (Suc m) (Suc k) (rs1 @ rs2 @ rs3)"
  have sub: "set rs1 \<subseteq> {1..m}" "set rs2 \<subseteq> {1..m}" "set rs3 \<subseteq> {1..m}" using rq by auto
  have log0: "sh_log (s0_hist ?s0) i = []" if "i \<le> k" for i
    using that by (simp add: smd0_init_def sh_init_def sh_log_def less_Suc_eq_le del: replicate_Suc)
  have st0: "streams k m (\<lambda>_. []) (\<lambda>_. 0) (\<lambda>_ _. []) ?s0"
    using smd0_init_ok [of k m] smd0_init_missed [of _ m _ k] log0
    by (simp add: streams_def) (simp add: smd0_init_def received_chunks_def)
  have k: "Suc k < 2 ^ 32" using fit by (simp add: run_fits_def)
  obtain s1 where s1: "serve_chunks (Suc m) cks ?s0 = (Inr (), s1)" "s0_requests s1 = rs2 @ rs3"
    "s0_view s1 = (if served cks = [] then s0_view ?s0 else last (served cks))"
    "streams k m (steps_of (served cks)) (count_list rs1) (client_view rs1 (served cks)) s1"
    using streams_chunks [OF st0 _ sub(1) assms(1) n(1) k, of "rs2 @ rs3"] fit by (auto simp: run_fits_def smd0_init_def less_Suc_eq_le)
  have fake: "ck_fake (s0_view s1) = last_fake cks" using s1(3) by (simp add: last_fake_def smd0_init_def)
  have "length (steps_of (served cks) i) + length (ck_fake (s0_view s1)) < 2 ^ 32" if "i \<le> k" for i
  proof (cases "served cks = []")
    case True
    then show ?thesis using fake by (simp add: last_fake_def steps_of_def)
  next
    case False
    have "length (steps_of (served cks) i) + length (ck_smds (last (served cks)) ! i) + length (ck_fake (last (served cks))) < 2 ^ 32"
      using fit that last_in_set [OF False] unfolding run_fits_def less_Suc_eq_le by blast
    then show ?thesis using False unfolding fake by (simp add: last_fake_def)
  qed
  then obtain s2 where s2: "efold (\<lambda>_. send_missing (Suc m)) [0..<0 + length rs2] [] s1 = (Inr [], s2)" "s0_requests s2 = rs3"
    "streams k m (steps_of (served cks)) (\<lambda>c. count_list rs1 c + count_list rs2 c)
      (\<lambda>c i. client_view rs1 (served cks) c i @ concat (replicate (count_list rs2 c) (last_fake cks))) s2"
    "\<forall>c\<in>{1..m}. \<forall>i\<le>k. c \<in> set rs2 \<or> missed s1 c i = [] \<longrightarrow> missed s2 c i = []"
    using streams_round [OF s1(4,2) sub(2) k, of 0 "[]"] unfolding fake by blast
  let ?s' = "s2\<lparr>s0_requests := [], s0_out := s0_out s2 @ map NullSent rs3\<rparr>"
  have kill: "efor (\<lambda>_. kill_next (Suc m)) [0..<0 + length rs3] s2 = (Inr (), ?s')"
    using kill_all [of s2 rs3 "[]" m 0] s2(2) sub(3) by simp
  then have run: "smd0_start (Suc m) N cks ?s0 = (Inr (), ?s')"
    using s1(1) s2(1) n by (simp add: smd0_start_def eff_simps)
  have "\<exists>msgs. received_chunks c (s0_out ?s') = msgs @ replicate (count_list rs3 c) []
        \<and> length msgs = count_list (rs1 @ rs2) c \<and> list_all (has_parts (Suc k)) msgs
        \<and> (\<forall>i\<le>k. prefix (concat (map (chunk_part i) msgs))
              (client_view rs1 (served cks) c i @ concat (replicate (count_list rs2 c) (last_fake cks))))
        \<and> (c \<in> set rs2 \<longrightarrow> (\<forall>i\<le>k. concat (map (chunk_part i) msgs)
              = client_view rs1 (served cks) c i @ concat (replicate (count_list rs2 c) (last_fake cks))))" if c: "c \<in> {1..m}" for c
  proof (intro exI [of _ "received_chunks c (s0_out s2)"] conjI allI impI)
    show "received_chunks c (s0_out ?s') = received_chunks c (s0_out s2) @ replicate (count_list rs3 c) []"
      by (simp add: received_chunks_null)
    show "length (received_chunks c (s0_out s2)) = count_list (rs1 @ rs2) c" "list_all (has_parts (Suc k)) (received_chunks c (s0_out s2))"
      using s2(3) c by (simp_all add: streams_def)
    have all: "concat (map (chunk_part i) (received_chunks c (s0_out s2))) @ missed s2 c i
        = client_view rs1 (served cks) c i @ concat (replicate (count_list rs2 c) (last_fake cks))" if "i \<le> k" for i
      using s2(3) c that by (simp add: streams_def)
    then show "prefix (concat (map (chunk_part i) (received_chunks c (s0_out s2))))
        (client_view rs1 (served cks) c i @ concat (replicate (count_list rs2 c) (last_fake cks)))" if "i \<le> k" for i
      using that by (metis prefixI)
    show "concat (map (chunk_part i) (received_chunks c (s0_out s2)))
        = client_view rs1 (served cks) c i @ concat (replicate (count_list rs2 c) (last_fake cks))" if "c \<in> set rs2" "i \<le> k" for i
      using all [OF that(2)] s2(4) c that by simp
  qed
  then show ?thesis using run by (intro exI [of _ ?s']) simp
qed

end
