(* ===== verification/PsanaProps.thy ===== *)
theory PsanaProps
  imports EbDest Smd0Facts
begin

text \<open>
  The properties of parallel psana (\<^verbatim>\<open>psana/psana/psexp\<close>) that concern packets and
  the nodes that pass data on, each followed by an application to a small run: two smalldata files
  whose dgrams hold their size in the first byte.
\<close>

section \<open>A small run\<close>

definition dsize0 :: "unit \<Rightarrow> bytes \<Rightarrow> nat \<Rightarrow> pyexc + nat" where
  "dsize0 config view off = (if off < length view then Inr (unat (view ! off)) else Inl IndexError)"

definition step0 :: "bytes list" where
  "step0 = [[2, 7], [3, 8, 9]]"

definition event0 :: bytes where
  "event0 = [1, 1, 1]"

lemma dgram_ok0: "d \<noteq> [] \<Longrightarrow> unat (hd d) = length d \<Longrightarrow> dgram_ok dsize0 c d"
  by (cases d) (simp_all add: dgram_ok_def dsize0_def)

lemma rows_good0: "rows_good dsize0 [(), ()] [step0]"
  by (auto simp: rows_good_def step0_def sizes_ok_def less_Suc_eq intro!: dgram_ok0)

section \<open>Packets\<close>

text \<open>
  C18. A batch that \<open>EventBuilderNode.pack\<close> makes of packets, of which there is at least one
  and none is longer than 32 bits can say, is split by \<open>PacketFooter\<close> into the same packets.
\<close>

theorem packets_read_back:
  assumes "ps \<noteq> []" and "list_all (\<lambda>p. length p < 2 ^ 32) ps" and "length ps < 2 ^ 32"
  shows "\<exists>batch pf. pack ps = Inr batch \<and> pf_init 0 (Some batch) = Inr pf \<and> split_packets pf = Inr ps"
  using assms by (intro split_pack) (simp_all add: sizes_ok_def list_all_length)

theorem packets_read_back_witness:
  "\<exists>batch pf. pack [event0, [], [5]] = Inr batch \<and> pf_init 0 (Some batch) = Inr pf \<and> split_packets pf = Inr [event0, [], [5]]"
  by (rule packets_read_back) (simp_all add: event0_def)

text \<open>
  \<open>Event._from_bytes\<close> gives back the dgrams that \<open>Event._to_bytes\<close> wrote, when no
  dgram is missing. When one is, \<open>_to_bytes\<close> raises TypeError.
\<close>

theorem event_bytes_read_back:
  assumes "ds \<noteq> []" and "list_all (\<lambda>d. d \<noteq> [] \<and> length d < 2 ^ 32) ds" and "length ds + 1 < 2 ^ 32"
  shows "(\<exists>b. to_bytes (map Some ds) = Inr b \<and> from_bytes (length ds) b = Inr (map Some ds))
    \<and> to_bytes (map Some ds @ [None]) = Inl TypeError"
proof -
  have sz: "sizes_ok (map length ds)" using assms by (auto simp: sizes_ok_def list_all_length)
  have bytes: "dgrams_bytes (map Some xs) = Inr xs" "dgrams_bytes (map Some xs @ [None]) = Inl TypeError" for xs
    by (induction xs) auto
  obtain pf pf' where pf: "pf_init (length ds) None = Inr pf" "set_sizes 0 ds pf = Inr pf'"
    "footer pf' = footer_of (map length ds)" using set_sizes_new [OF sz assms(1)] by blast
  have ne: "concat ds \<noteq> []" using assms(1,2) by (cases ds) auto
  have to: "to_bytes (map Some ds) = Inr (concat ds @ footer_of (map length ds))"
    using pf ne by (simp only: to_bytes_def length_map bytes sum.case if_False)
  have "from_bytes (length ds) (concat ds @ footer_of (map length ds)) = Inr (map Some ds)"
    using pf_init_view [OF sz, of "concat ds"] split_footer_of [OF sz assms(1)] ne assms(2)
    by (auto simp: from_bytes_def list_all_iff)
  moreover have "to_bytes (map Some ds @ [None]) = Inl TypeError"
    using pf_init_new [of "length ds + 1"] assms(3) by (simp add: to_bytes_def bytes)
  ultimately show ?thesis using to by blast
qed

theorem event_bytes_read_back_witness:
  "(\<exists>b. to_bytes (map Some step0) = Inr b \<and> from_bytes (length step0) b = Inr (map Some step0))
    \<and> to_bytes (map Some step0 @ [None]) = Inl TypeError"
  by (rule event_bytes_read_back) (simp_all add: step0_def)

text \<open>
  A footer with at least one packet that is given the size of another reports the size of every
  packet, old and new.
\<close>

lemma added_packet_reported:
  assumes "sizes \<noteq> []" and "list_all (\<lambda>s. s < 2 ^ 32) sizes" and "sz < 2 ^ 32" and "length sizes + 1 < 2 ^ 32"
    and "n_packets pf = length sizes" and "footer pf = footer_of sizes"
  shows "\<exists>pf'. add_packet sz pf = Inr pf' \<and> n_packets pf' = length sizes + 1 \<and> footer pf' = footer_of (sizes @ [sz])
    \<and> (\<forall>i\<le>length sizes. get_size i pf' = Inr ((sizes @ [sz]) ! i))"
proof -
  have "length (footer_of sizes) - 4 = length (concat (map (le_bytes 4) sizes))"
    by (simp add: footer_of_def)
  then have "add_packet sz pf = Inr (pf\<lparr>n_packets := length sizes + 1, footer := footer_of (sizes @ [sz])\<rparr>)"
    using assms by (simp add: add_packet_def pack_I_def put_last_def n_bytes_def footer_of_def Let_def)
  moreover have "sizes_ok (sizes @ [sz])" using assms by (simp add: sizes_ok_def)
  ultimately show ?thesis
    by (auto intro!: get_size_footer_of)
qed

text \<open>
  The first packet added to a footer that was made empty is lost: the place of its size is
  taken by the number of packets, so the footer says that the packet has one byte.
\<close>

lemma first_added_size_lost:
  assumes "sz < 2 ^ 32" and "sz \<noteq> 1"
  shows "\<exists>pf pf'. pf_init 0 None = Inr pf \<and> add_packet sz pf = Inr pf' \<and> n_packets pf' = 1 \<and> get_size 0 pf' = Inr 1
    \<and> get_size 0 pf' \<noteq> Inr sz"
proof -
  have "unpack_I (le_bytes 4 1) = Inr 1" by (rule unpack_pack) simp
  then show ?thesis using assms
    by (simp add: pf_init_def add_packet_def pack_I_def put_last_def n_bytes_def get_size_def slice_def Let_def)
qed

section \<open>Repacking\<close>

text \<open>
  C19. \<open>repack_for_bd\<close> of a batch of events and the step data of each file gives the batch
  whose events are first one per step, made of the dgrams of the files, and then those of the batch.
  It ends, as no dgram is empty.
\<close>

theorem steps_put_in_front:
  assumes "configs \<noteq> []" and "rows_good dsize configs rows" and "sizes_ok (map length (map row_event rows @ evs))"
  shows "repack_for_bd dsize configs (batch_of evs) (map (column rows) [0..<length configs])
    = Some (Inr (batch_of (map row_event rows @ evs)))"
  using assms by (intro repack_rows rows_good_ok)

theorem steps_put_in_front_witness:
  "repack_for_bd dsize0 [(), ()] (batch_of [event0]) (map (column [step0]) [0..<length [(), ()]])
    = Some (Inr (batch_of (map row_event [step0] @ [event0])))"
  by (rule steps_put_in_front [OF _ rows_good0])
     (simp_all add: sizes_ok_def event0_def step0_def row_event_def footer_of_def)

section \<open>Nodes\<close>

text \<open>
  Every rank of the world has exactly one role: 0 is smd0, the next \<open>PS_EB_NODES\<close> are
  event builders, the last \<open>PS_SRV_NODES\<close> are servers and the others are bigdata nodes.
\<close>

theorem ranks_have_roles:
  assumes "srv_nodes + 3 \<le> world_size" and "0 < eb_nodes" and "eb_nodes + 1 \<le> world_size - srv_nodes"
    and "rank < world_size"
  shows "node_type world_size srv_nodes eb_nodes rank =
    Inr (if rank = 0 then Smd0Rank else if rank \<le> eb_nodes then EbRank
         else if rank < world_size - srv_nodes then BdRank else SrvRank)"
  using assms by (rule node_type_ranks)

theorem ranks_have_roles_witness:
  "node_type 13 1 3 5 = Inr (if (5::nat) = 0 then Smd0Rank else if (5::nat) \<le> 3 then EbRank
         else if (5::nat) < 13 - 1 then BdRank else SrvRank)"
  by (rule ranks_have_roles) simp_all

text \<open>
  C20. \<open>Smd0.start\<close>: whichever event builders ask, once for every chunk of the run and then
  \<open>N\<close> times and \<open>N\<close> times again, it ends without error, every request answered. An event
  builder receives as many packets with a part per file as it asked for in the rounds before the
  last, and then empty messages. The parts for a file, one message after the other, are always a
  beginning of its view of the file: the windows of the chunks it asked for, and in their places the
  step data of the chunks of the others, nothing lost, sent twice or out of order, with the fake
  transitions of the last window at the end for each time it asked in the first of the two last
  rounds. Who asked in that round has received the whole view. The sizes of the parts must fit the
  four bytes of the footer.
\<close>

theorem smd0_steps_reach_clients:
  assumes "list_all (chunk_ok (Suc k)) cks" and "set (rs1 @ rs2 @ rs3) \<subseteq> {1..m}"
    and "length rs1 = length (served cks)" and "length rs2 = N" and "length rs3 = N" and "run_fits (Suc k) (served cks)"
  shows "\<exists>s'. smd0_start (Suc m) N cks (smd0_init (Suc m) (Suc k) (rs1 @ rs2 @ rs3)) = (Inr (), s') \<and> s0_requests s' = []
    \<and> (\<forall>c\<in>{1..m}. \<exists>msgs. received_chunks c (s0_out s') = msgs @ replicate (count_list rs3 c) []
        \<and> length msgs = count_list (rs1 @ rs2) c \<and> list_all (has_parts (Suc k)) msgs
        \<and> (\<forall>i\<le>k. prefix (concat (map (chunk_part i) msgs))
              (client_view rs1 (served cks) c i @ concat (replicate (count_list rs2 c) (last_fake cks))))
        \<and> (c \<in> set rs2 \<longrightarrow> (\<forall>i\<le>k. concat (map (chunk_part i) msgs)
              = client_view rs1 (served cks) c i @ concat (replicate (count_list rs2 c) (last_fake cks)))))"
  using assms by (rule smd0_streams)

definition chunk0 :: chunk where
  "chunk0 = \<lparr>ck_steps = [[1], [2, 3]], ck_smds = [[1, 4], [2, 3]], ck_fake = [], ck_terminate = False, ck_endrun = False\<rparr>"

lemma chunks0:
  "list_all (chunk_ok (Suc 1)) [chunk0, chunk0\<lparr>ck_endrun := True\<rparr>]"
  "served [chunk0, chunk0\<lparr>ck_endrun := True\<rparr>] = [chunk0, chunk0\<lparr>ck_endrun := True\<rparr>]" "served [chunk0] = [chunk0]"
  "run_fits (Suc 1) [chunk0, chunk0\<lparr>ck_endrun := True\<rparr>]" "run_fits (Suc 1) [chunk0]"
  by (simp_all add: chunk_ok_def chunk0_def served_def run_fits_def steps_of_def less_Suc_eq)

theorem smd0_steps_reach_clients_witness:
  "\<exists>s' msgs. smd0_start (Suc 2) 2 [chunk0, chunk0\<lparr>ck_endrun := True\<rparr>]
      (smd0_init (Suc 2) (Suc 1) ([1, 1] @ [2, 1] @ [1, 2])) = (Inr (), s')
    \<and> received_chunks 2 (s0_out s') = msgs @ [[]] \<and> length msgs = 1 \<and> concat (map (chunk_part 1) msgs) = [2, 3, 2, 3]"
proof -
  let ?cks = "[chunk0, chunk0\<lparr>ck_endrun := True\<rparr>]"
  have "set ([1, 1] @ [2, 1] @ [1, 2]) \<subseteq> {1..2::nat}" "length [1, 1 :: nat] = length (served ?cks)"
    "length [2, 1 :: nat] = 2" "length [1, 2 :: nat] = 2" "run_fits (Suc 1) (served ?cks)"
    using chunks0(4) by (simp_all add: chunks0(2))
  from smd0_steps_reach_clients [OF chunks0(1) this]
  obtain s' where s': "smd0_start (Suc 2) 2 ?cks (smd0_init (Suc 2) (Suc 1) ([1, 1] @ [2, 1] @ [1, 2])) = (Inr (), s')"
    "\<forall>c\<in>{1..2}. \<exists>msgs. received_chunks c (s0_out s') = msgs @ replicate (count_list [1, 2] c) []
        \<and> length msgs = count_list ([1, 1] @ [2, 1]) c
        \<and> (c \<in> set [2, 1] \<longrightarrow> (\<forall>i\<le>1. concat (map (chunk_part i) msgs)
              = client_view [1, 1] (served ?cks) c i @ concat (replicate (count_list [2, 1] c) (last_fake ?cks))))"
    by blast
  have two: "2 \<in> {1..2::nat}" by simp
  from bspec [OF s'(2) two] obtain msgs where "received_chunks 2 (s0_out s') = msgs @ replicate (count_list [1, 2 :: nat] 2) []"
    "length msgs = count_list ([1, 1] @ [2, 1 :: nat]) 2" "2 \<in> set [2, 1 :: nat] \<longrightarrow> (\<forall>i\<le>1. concat (map (chunk_part i) msgs)
      = client_view [1, 1] (served ?cks) 2 i @ concat (replicate (count_list [2, 1 :: nat] 2) (last_fake ?cks)))"
    by blast
  moreover have "client_view [1, 1] (served ?cks) 2 1 = [2, 3, 2, 3]" "last_fake ?cks = []"
    unfolding last_fake_def chunks0 by (simp_all add: client_view_def chunk0_def)
  ultimately show ?thesis using s'(1) by (intro exI [of _ s'] exI [of _ msgs]) simp
qed

text \<open>
  C21. The rounds at the end of \<open>Smd0.start\<close> count requests, not clients. When others ask for
  every chunk of the run and then for the \<open>N\<close> messages of the first of the last two rounds, an
  event builder that asks after that receives empty messages alone, which end it: none of the step
  data of the run, which is all it had to see, reaches it.
\<close>

theorem smd0_may_end_client_early:
  assumes "list_all (chunk_ok (Suc k)) cks" and "set (rs1 @ rs2 @ rs3) \<subseteq> {1..m}"
    and "length rs1 = length (served cks)" and "length rs2 = N" and "length rs3 = N" and "run_fits (Suc k) (served cks)"
    and "c \<in> {1..m}" and "c \<notin> set (rs1 @ rs2)"
  shows "\<exists>s'. smd0_start (Suc m) N cks (smd0_init (Suc m) (Suc k) (rs1 @ rs2 @ rs3)) = (Inr (), s')
    \<and> received_chunks c (s0_out s') = replicate (count_list rs3 c) []
    \<and> (\<forall>i. client_view rs1 (served cks) c i = steps_of (served cks) i)"
proof -
  have "client_view rs1 cks' c i = steps_of cks' i" if "length rs1 = length cks'" for cks' i
    using that assms(8) by (induction rs1 cks' rule: list_induct2) (auto simp: client_view_def steps_of_def)
  moreover have "count_list (rs1 @ rs2) c = 0" using assms(8) by (simp add: count_list_0_iff)
  ultimately show ?thesis using smd0_streams [OF assms(1-6)] assms(3,7) by fastforce
qed

theorem smd0_may_end_client_early_witness:
  "\<exists>s'. smd0_start (Suc 2) 2 [chunk0] (smd0_init (Suc 2) (Suc 1) ([1] @ [1, 1] @ [2, 1])) = (Inr (), s')
    \<and> received_chunks 2 (s0_out s') = [[]] \<and> client_view [1] (served [chunk0]) 2 0 = [1]"
proof -
  have "list_all (chunk_ok (Suc 1)) [chunk0]" "set ([1] @ [1, 1] @ [2, 1]) \<subseteq> {1..2::nat}"
    "length [1 :: nat] = length (served [chunk0])" "length [1, 1 :: nat] = 2" "length [2, 1 :: nat] = 2"
    "run_fits (Suc 1) (served [chunk0])" "2 \<in> {1..2::nat}" "2 \<notin> set ([1] @ [1, 1 :: nat])"
    using chunks0(1,5) by (simp_all add: chunks0(3))
  from smd0_may_end_client_early [OF this] show ?thesis
    by (auto simp: chunks0(3)) (simp add: steps_of_def chunk0_def)
qed

text \<open>
  C22. \<open>EventBuilderNode.start\<close> for batches that may go to any bigdata node: whichever nodes
  ask, once for every batch and then as many times as there are nodes and as many times again, it
  ends without error. The messages that a node receives are batches of events and then empty
  messages, of which there are as many as nodes in all. The events of its batches, one batch after
  the other, are a beginning of what it has to see: the events of the batches it asked for, in order,
  and in the place of each batch of another the step events of that batch, with nothing lost, sent
  twice or out of order. What remains is an end of the run's step events, and nothing for the nodes
  that ask in the first of the two last rounds.
\<close>

theorem eb_batches_and_steps_sent:
  assumes "length configs = Suc k" and "set (rs1 @ rs2 @ rs3) \<subseteq> {1..m}"
    and "length rs1 = length (concat wss)" and "length rs2 = m" and "length rs3 = m"
    and "list_all2 (chunk_built dsize configs build) cs wss" and "fits [] (concat wss)"
    and "sizes_ok (map length (map row_event (concat (map snd (concat wss)))))"
  shows "\<exists>s' ended. eb_start dsize configs (Suc m) build (eb_init (Suc m) (Suc k) (rs1 @ rs2 @ rs3) (cs @ [[]])) = (Inr (), s')
    \<and> length ended = m \<and> set ended \<subseteq> {1..m}
    \<and> (\<forall>c\<in>{1..m}. \<exists>ess p. node_messages c (eb_out s') = map batch_of ess @ replicate (count_list ended c) []
        \<and> list_all good_batch ess
        \<and> concat ess @ map row_event (drop p (concat (map snd (concat wss)))) = client_batches c rs1 (concat wss)
        \<and> (c \<in> set rs2 \<longrightarrow> drop p (concat (map snd (concat wss))) = []))"
  using eb_start_messages [OF assms] by blast

definition built0 :: built where
  "built0 = \<lparr>bt_smd = [(0, batch_of [event0])], bt_step = [(0, batch_of [row_event step0])], bt_nevents = 1, bt_nsteps = 1\<rparr>"

definition built1 :: built where
  "built1 = \<lparr>bt_smd = [(0, batch_of [event0, event0])], bt_step = [(0, [])], bt_nevents = 2, bt_nsteps = 0\<rparr>"

definition build0 :: "bytes list \<Rightarrow> (pyexc + built) list" where
  "build0 views = (if views = step0 then [Inr built0] else [Inr built1])"

lemma eb_views_built0: "eb_views (concat step0 @ footer_of (map length step0)) = Inr step0"
  by (rule eb_views_batch) (simp_all add: step0_def sizes_ok_def)

lemma eb_views_built1: "eb_views (concat [event0] @ footer_of (map length [event0])) = Inr [event0]"
  by (rule eb_views_batch) (simp_all add: event0_def sizes_ok_def)

lemma chunk_built0:
  "chunk_built dsize0 [(), ()] build0 (concat step0 @ footer_of (map length step0)) [([event0], [step0])]"
  using eb_views_built0 rows_good0 footer_of_ne
  by (auto simp: chunk_built_def build0_def any_built_def built0_def sizes_ok_def row_event_def footer_of_def step0_def)

lemma chunk_built1:
  "chunk_built dsize0 [(), ()] build0 (concat [event0] @ footer_of (map length [event0])) [([event0, event0], [])]"
  using eb_views_built1 footer_of_ne
  by (auto simp: chunk_built_def build0_def any_built_def built1_def sizes_ok_def rows_good_def batch_of_def step0_def event0_def)

lemma fits0: "fits [] [([event0], [step0]), ([event0, event0], [])]"
  by (simp add: fits_def sizes_ok_def event0_def step0_def row_event_def footer_of_def)

theorem eb_batches_and_steps_sent_witness:
  "\<exists>s' ess n. eb_start dsize0 [(), ()] (Suc 2) build0 (eb_init (Suc 2) (Suc 1) ([1, 2] @ [2, 1] @ [1, 2])
        ([concat step0 @ footer_of (map length step0), concat [event0] @ footer_of (map length [event0])] @ [[]])) = (Inr (), s')
    \<and> node_messages 2 (eb_out s') = map batch_of ess @ replicate n []
    \<and> concat ess = [row_event step0, event0, event0]"
proof -
  let ?wss = "[[([event0], [step0])], [([event0, event0], [])]]"
  let ?cs = "[concat step0 @ footer_of (map length step0), concat [event0] @ footer_of (map length [event0])]"
  have "sizes_ok (map length (map row_event (concat (map snd (concat ?wss)))))"
    by (simp add: sizes_ok_def step0_def row_event_def footer_of_def)
  moreover have "length [(), ()] = Suc 1" "set ([1, 2] @ [2, 1] @ [1, 2]) \<subseteq> {1..2::nat}" "length [1, 2 :: nat] = length (concat ?wss)"
    "length [2, 1 :: nat] = 2" "length [1, 2 :: nat] = 2" by simp_all
  moreover have "list_all2 (chunk_built dsize0 [(), ()] build0) ?cs ?wss" "fits [] (concat ?wss)"
    using chunk_built0 chunk_built1 fits0 by simp_all
  ultimately obtain s' ended where s': "eb_start dsize0 [(), ()] (Suc 2) build0 (eb_init (Suc 2) (Suc 1) ([1, 2] @ [2, 1] @ [1, 2]) (?cs @ [[]])) = (Inr (), s')"
    "\<forall>c\<in>{1..2}. \<exists>ess p. node_messages c (eb_out s') = map batch_of ess @ replicate (count_list ended c) []
        \<and> concat ess @ map row_event (drop p (concat (map snd (concat ?wss)))) = client_batches c [1, 2] (concat ?wss)
        \<and> (c \<in> set [2, 1] \<longrightarrow> drop p (concat (map snd (concat ?wss))) = [])"
    using eb_batches_and_steps_sent [of "[(), ()]" 1 "[1, 2]" "[2, 1]" "[1, 2]" 2 ?wss dsize0 build0 ?cs] by blast
  have "2 \<in> {1..2::nat}" by simp
  from bspec [OF s'(2) this] obtain ess p where "node_messages 2 (eb_out s') = map batch_of ess @ replicate (count_list ended 2) []"
    "concat ess @ map row_event (drop p (concat (map snd (concat ?wss)))) = client_batches 2 [1, 2] (concat ?wss)"
    "2 \<in> set [2, 1 :: nat] \<longrightarrow> drop p (concat (map snd (concat ?wss))) = []"
    by blast
  moreover have "client_batches 2 [1, 2] (concat ?wss) = [row_event step0, event0, event0]" by (simp add: client_batches_def)
  ultimately show ?thesis using s'(1) by (intro exI [of _ s'] exI [of _ ess] exI [of _ "count_list ended 2"]) simp
qed



lemma repack_nothing:
  assumes "sizes_ok (map length evs)"
  shows "repack_for_bd dsize0 [(), ()] (batch_of evs) [[], []] = Some (Inr (batch_of evs))"
  using repack_rows [of dsize0 "[(), ()]" "[]" evs] assms by (simp add: rows_ok_def column_def)

lemma repack_nothing0:
  "repack_for_bd dsize0 [(), ()] (batch_of [event0]) [[], []] = Some (Inr (batch_of [event0]))"
  "repack_for_bd dsize0 [(), ()] (batch_of [event0, event0]) [[], []] = Some (Inr (batch_of [event0, event0]))"
  "repack_for_bd dsize0 [(), ()] (batch_of [row_event step0]) [[], []] = Some (Inr (batch_of [row_event step0]))"
  by (simp_all add: repack_nothing sizes_ok_def event0_def step0_def row_event_def footer_of_def)

lemmas run_small = serve_built_def serve_dests_def serve_any_def send_batch_def eff_simps eb_init_def sh_init_def send_to_dest_def
  eb_get_buffer_def get_buffer_def client_row_def eb_repack_def eb_isend_def add_steps_def request_rank_def dict_get_def
  numeral_eq_Suc Let_def


text \<open>
  A dict with a batch for any node, at key 0: that batch alone is sent, whatever else the dict
  holds, and the loop goes on with the next dict.
\<close>

theorem any_batch_drops_others:
  assumes "serve_built dsize configs n b s = (Inr go, s')" and "map_of (bt_smd b) 0 = Some smd"
  shows "go \<and> (\<exists>r missing sb batch. eb_out s' = eb_out s @ [BatchSent r smd missing sb batch])"
  using assms by (rule any_batch_only)

definition mixed0 :: built where
  "mixed0 = \<lparr>bt_smd = [(0, batch_of [row_event step0]), (2, batch_of [event0])], bt_step = [(0, []), (2, [])],
     bt_nevents = 2, bt_nsteps = 0\<rparr>"

theorem any_batch_drops_others_witness:
  "\<exists>s' r missing sb batch. serve_built dsize0 [(), ()] 3 mixed0 (eb_init 3 2 [1, 2] []) = (Inr True, s')
    \<and> eb_out s' = eb_out (eb_init 3 2 [1, 2] []) @ [BatchSent r (batch_of [row_event step0]) missing sb batch]
    \<and> map_of (bt_smd mixed0) 2 = Some (batch_of [event0])"
proof -
  let ?r = "serve_built dsize0 [(), ()] 3 mixed0 (eb_init 3 2 [1, 2] [])"
  have run: "?r = (Inr True, snd ?r)"
    by (simp add: run_small mixed0_def repack_nothing0)
  have "map_of (bt_smd mixed0) 0 = Some (batch_of [row_event step0])" by (simp add: mixed0_def)
  then show ?thesis using any_batch_drops_others [OF run] run by (auto simp: mixed0_def)
qed

end
