(* ===== verification/EventManager.thy ===== *)
theory EventManager
  imports PacketFooter
begin

text \<open>
  \<^verbatim>\<open>psana/psana/psexp/event_manager.py\<close>: the events of a batch. A pass over the
  smalldata of the batch finds for every event and file where the bigdata dgram lies
  (\<open>_get_offset_and_size\<close>) and which dgrams must begin a new read (the cutoff flags); the
  iterator then reads the bigdata of each file in chunks that run from one cutoff to the next
  (\<open>_fill_bd_chunk\<close>, \<open>_read\<close>) and takes the dgrams out of them
  (\<open>_get_next_evt\<close>). The six arrays of the source, indexed by event and file, are one list
  of rows of records. The dgram reader (\<open>dgram.Dgram\<close>, a C extension) is the parameter
  \<open>ec_parse\<close>, \<open>os.pread\<close> the parameter \<open>ec_pread\<close>, whose first argument
  counts the calls.
\<close>

section \<open>What is read from a dgram\<close>

text \<open>
  Its size and service, the place of the bigdata dgram (\<open>smdinfo\<close>), and the pairs of chunk id
  and file name (\<open>chunkinfo\<close>).
\<close>

record dginfo =
  di_size :: nat
  di_service :: nat
  di_smdinfo :: "(nat \<times> nat) option"
  di_chunkinfo :: "(nat \<times> string) list"

definition TransitionId_Enable :: nat where
  "TransitionId_Enable = 8"

definition TransitionId_L1Accept :: nat where
  "TransitionId_L1Accept = 12"

record 'c em_conf =
  ec_n_smd_files :: nat
  ec_configs :: "nat \<Rightarrow> 'c"
  ec_parse :: "'c \<Rightarrow> bytes \<Rightarrow> nat \<Rightarrow> pyexc + dginfo"
  ec_use_smds :: "nat \<Rightarrow> bool"
  ec_n_files :: nat
  ec_chunksize :: nat
  ec_max_retries :: nat
  ec_pread :: "nat \<Rightarrow> string \<Rightarrow> nat \<Rightarrow> nat \<Rightarrow> bytes"

record cell =
  ce_bd_offset :: nat
  ce_bd_size :: nat
  ce_smd_offset :: nat
  ce_smd_size :: nat
  ce_new_chunk :: nat
  ce_cutoff :: bool

definition new_cell :: cell where
  "new_cell = \<lparr>ce_bd_offset = 0, ce_bd_size = 0, ce_smd_offset = 0, ce_smd_size = 0, ce_new_chunk = 0, ce_cutoff = True\<rparr>"

section \<open>The pass over the smalldata\<close>

record scan =
  sn_offset :: nat
  sn_cur_offsets :: "nat \<Rightarrow> nat"
  sn_cur_sizes :: "nat \<Rightarrow> nat"
  sn_first_L1 :: "nat option"
  sn_service :: nat
  sn_info :: "((nat \<times> nat) \<times> string) list"

text \<open>\<open>_get_bd_offset_and_size\<close>\<close>

definition get_bd_offset_and_size ::
    "'c em_conf \<Rightarrow> dginfo \<Rightarrow> nat \<Rightarrow> nat \<Rightarrow> cell \<Rightarrow> scan \<Rightarrow> pyexc + cell \<times> scan" where
  "get_bd_offset_and_size C d i_evt i_smd c st =
     (if ec_use_smds C i_smd then Inr (c, st)
      else (case di_smdinfo d of
              None \<Rightarrow> Inl (AttributeError ''smdinfo'')
            | Some (off, sz) \<Rightarrow>
                (let same = sn_cur_offsets st i_smd = off \<and> Some i_evt \<noteq> sn_first_L1 st
                            \<and> sn_cur_sizes st i_smd + sz < ec_chunksize C
                 in Inr (c\<lparr>ce_bd_offset := off, ce_bd_size := sz, ce_cutoff := \<not> same\<rparr>,
                         st\<lparr>sn_cur_sizes := (sn_cur_sizes st)(i_smd := if same then sn_cur_sizes st i_smd + sz else sz),
                            sn_cur_offsets := (sn_cur_offsets st)(i_smd := off + sz)\<rparr>))))"

text \<open>One dgram of an event; \<open>chunk_ids\<close> are the ids of the bigdata files that are open.\<close>

definition scan_dgram ::
    "'c em_conf \<Rightarrow> (nat \<Rightarrow> nat) \<Rightarrow> bytes \<Rightarrow> nat \<Rightarrow> nat \<Rightarrow> nat \<Rightarrow> scan \<Rightarrow> pyexc + cell \<times> scan" where
  "scan_dgram C chunk_ids view i_evt i_smd sz st =
     (if sz = 0 then Inr (new_cell\<lparr>ce_cutoff := False\<rparr>, st)
      else (case ec_parse C (ec_configs C i_smd) view (sn_offset st) of Inl e \<Rightarrow> Inl e
            | Inr d \<Rightarrow>
                (let c = new_cell\<lparr>ce_smd_offset := sn_offset st, ce_smd_size := di_size d\<rparr>;
                     st1 = st\<lparr>sn_service := di_service d\<rparr>
                 in if di_service d = TransitionId_L1Accept \<and> 0 < ec_n_files C
                    then get_bd_offset_and_size C d i_evt i_smd c
                           (st1\<lparr>sn_first_L1 := Some (case sn_first_L1 st of None \<Rightarrow> i_evt | Some e \<Rightarrow> e)\<rparr>)
                    else if di_service d = TransitionId_Enable \<and> 0 < ec_n_files C
                    then (case di_chunkinfo d of
                            [] \<Rightarrow> Inr (c, st1)
                          | (new_chunk_id, new_filename) # _ \<Rightarrow>
                              if chunk_ids i_smd < new_chunk_id
                              then Inr (c\<lparr>ce_new_chunk := new_chunk_id\<rparr>,
                                        st1\<lparr>sn_info := AList.update (i_smd, new_chunk_id) new_filename (sn_info st1)\<rparr>)
                              else Inr (c, st1))
                    else Inr (c, st1))))"

fun scan_row ::
    "'c em_conf \<Rightarrow> (nat \<Rightarrow> nat) \<Rightarrow> bytes \<Rightarrow> nat \<Rightarrow> nat \<Rightarrow> nat list \<Rightarrow> scan \<Rightarrow> pyexc + cell list \<times> scan" where
  "scan_row C chunk_ids view i_evt i_smd [] st = Inr ([], st)"
| "scan_row C chunk_ids view i_evt i_smd (sz # sizes) st =
     (case scan_dgram C chunk_ids view i_evt i_smd sz st of Inl e \<Rightarrow> Inl e
      | Inr (c, st1) \<Rightarrow>
          (case scan_row C chunk_ids view i_evt (Suc i_smd) sizes (st1\<lparr>sn_offset := sn_offset st1 + sz\<rparr>) of
             Inl e \<Rightarrow> Inl e | Inr (cs, st2) \<Rightarrow> Inr (c # cs, st2)))"

text \<open>\<open>smd_aux_sizes[:] = [...]\<close>: numpy takes a list of the right length, or of length 1.\<close>

definition aux_sizes :: "nat \<Rightarrow> nat list \<Rightarrow> pyexc + nat list" where
  "aux_sizes n sizes =
     (if length sizes = n then Inr sizes
      else if length sizes = 1 then Inr (replicate n (hd sizes))
      else Inl (ValueError ''could not broadcast input array''))"

definition event_sizes :: "'c em_conf \<Rightarrow> bytes \<Rightarrow> packet_footer \<Rightarrow> nat \<Rightarrow> nat \<Rightarrow> pyexc + nat list" where
  "event_sizes C view chunk_pf i_evt offset =
     (case get_size i_evt chunk_pf of Inl e \<Rightarrow> Inl e
      | Inr evt_size \<Rightarrow>
          (case pf_init 0 (Some (slice offset (offset + evt_size) view)) of Inl e \<Rightarrow> Inl e
           | Inr evt_pf \<Rightarrow>
               (case get_sizes [0..<n_packets evt_pf] evt_pf of Inl e \<Rightarrow> Inl e
                | Inr sizes \<Rightarrow> aux_sizes (ec_n_smd_files C) sizes)))"

text \<open>
  The loop, event by event: \<open>k\<close> events are left. A footer with fewer events than the data fails
  the assertion of \<open>get_size\<close>. The rows and services of the events.
\<close>

fun scan_events ::
    "'c em_conf \<Rightarrow> (nat \<Rightarrow> nat) \<Rightarrow> bytes \<Rightarrow> packet_footer \<Rightarrow> nat \<Rightarrow> nat \<Rightarrow> scan \<Rightarrow>
     pyexc + (cell list \<times> nat) list \<times> scan" where
  "scan_events C chunk_ids view chunk_pf 0 i_evt st =
     (if sn_offset st < length view - length (footer chunk_pf) then Inl AssertionError else Inr ([], st))"
| "scan_events C chunk_ids view chunk_pf (Suc k) i_evt st =
     (if sn_offset st < length view - length (footer chunk_pf)
      then (case event_sizes C view chunk_pf i_evt (sn_offset st) of Inl e \<Rightarrow> Inl e
            | Inr sizes \<Rightarrow>
                (case scan_row C chunk_ids view i_evt 0 sizes (st\<lparr>sn_service := 0\<rparr>) of Inl e \<Rightarrow> Inl e
                 | Inr (row, st1) \<Rightarrow>
                     (case scan_events C chunk_ids view chunk_pf k (Suc i_evt)
                             (st1\<lparr>sn_offset := sn_offset st1 + n_bytes * (ec_n_smd_files C + 1)\<rparr>) of
                        Inl e \<Rightarrow> Inl e | Inr (rows, st2) \<Rightarrow> Inr ((row, sn_service st1) # rows, st2))))
      else Inr (replicate (Suc k) (replicate (ec_n_smd_files C) new_cell, 0), st))"

definition scan_init :: scan where
  "scan_init = \<lparr>sn_offset = 0, sn_cur_offsets = (\<lambda>_. 0), sn_cur_sizes = (\<lambda>_. 0), sn_first_L1 = None,
     sn_service = 0, sn_info = []\<rparr>"

definition cutoff_indices :: "cell list list \<Rightarrow> nat \<Rightarrow> nat list" where
  "cutoff_indices rows i_smd = filter (\<lambda>e. ce_cutoff (rows ! e ! i_smd)) [0..<length rows]"

section \<open>The iterator\<close>

text \<open>The object, with the bigdata files it reads (paths and chunk ids of the DgramManager).\<close>

record em =
  em_view :: bytes
  em_rows :: "cell list list"
  em_services :: "nat list"
  em_chunkinfo :: "((nat \<times> nat) \<times> string) list"
  em_chunk_indices :: "nat \<Rightarrow> nat"
  em_bufs :: "nat \<Rightarrow> bytes"
  em_buf_offsets :: "nat \<Rightarrow> nat"
  em_i_evt :: nat
  em_failed :: bool
  em_fds :: "nat \<Rightarrow> string"
  em_chunk_ids :: "nat \<Rightarrow> nat"
  em_reads :: nat
  em_env :: "bytes option list list"

definition em_init :: "'c em_conf \<Rightarrow> (nat \<Rightarrow> string) \<Rightarrow> (nat \<Rightarrow> nat) \<Rightarrow> bytes \<Rightarrow> pyexc + em" where
  "em_init C fds chunk_ids view =
     (case pf_init 0 (Some view) of Inl e \<Rightarrow> Inl e
      | Inr pf \<Rightarrow>
          (case scan_events C chunk_ids view pf (n_packets pf) 0 scan_init of Inl e \<Rightarrow> Inl e
           | Inr (rows, st) \<Rightarrow>
               Inr \<lparr>em_view = view, em_rows = map fst rows, em_services = map snd rows, em_chunkinfo = sn_info st,
                    em_chunk_indices = (\<lambda>_. 0), em_bufs = (\<lambda>_. []), em_buf_offsets = (\<lambda>_. 0), em_i_evt = 0,
                    em_failed = False, em_fds = fds, em_chunk_ids = chunk_ids, em_reads = 0, em_env = []\<rparr>))"

type_synonym 'a ema = "(em, 'a) eff"

text \<open>\<open>_open_new_bd_file\<close>\<close>

definition open_new_bd_file :: "nat \<Rightarrow> nat \<Rightarrow> unit ema" where
  "open_new_bd_file i_smd new_chunk_id =
     ebind (eget (\<lambda>s. dict_get (em_chunkinfo s) (i_smd, new_chunk_id))) (\<lambda>r.
     ebind (elift r) (\<lambda>new_filename.
     emod (\<lambda>s. s\<lparr>em_fds := (em_fds s)(i_smd := path_join (dirname (em_fds s i_smd)) new_filename),
                 em_chunk_ids := (em_chunk_ids s)(i_smd := new_chunk_id)\<rparr>)))"

text \<open>
  \<open>_read\<close> with \<open>r\<close> retries left: the bytes, whether the read failed, and the number of
  calls of \<open>pread\<close>.
\<close>

fun read_loop ::
    "(nat \<Rightarrow> string \<Rightarrow> nat \<Rightarrow> nat \<Rightarrow> bytes) \<Rightarrow> nat \<Rightarrow> string \<Rightarrow> nat \<Rightarrow> nat \<Rightarrow> nat \<Rightarrow> bytes \<Rightarrow> nat \<Rightarrow>
     bytes \<times> bool \<times> nat" where
  "read_loop pread request_size fd sz offset 0 chunk n =
     (let new_read = pread n fd sz offset in
      (chunk @ new_read, length (chunk @ new_read) \<noteq> request_size \<and> length new_read < sz, Suc n))"
| "read_loop pread request_size fd sz offset (Suc r) chunk n =
     (let new_read = pread n fd sz offset in
      if length (chunk @ new_read) = request_size then (chunk @ new_read, False, Suc n)
      else read_loop pread request_size fd (sz - length new_read) (offset + length new_read) r
             (chunk @ new_read) (Suc n))"

definition bd_read :: "'c em_conf \<Rightarrow> string \<Rightarrow> nat \<Rightarrow> nat \<Rightarrow> bytes ema" where
  "bd_read C fd sz offset = (\<lambda>s.
     case read_loop (ec_pread C) sz fd sz offset (ec_max_retries C) [] (em_reads s) of
       (chunk, failed, n) \<Rightarrow> (Inr chunk, s\<lparr>em_failed := em_failed s \<or> failed, em_reads := n\<rparr>))"

definition sum_sizes :: "cell list list \<Rightarrow> nat \<Rightarrow> nat \<Rightarrow> nat \<Rightarrow> nat" where
  "sum_sizes rows i_smd a b = sum_list (map (\<lambda>e. ce_bd_size (rows ! e ! i_smd)) [a..<b])"

definition fill_bd_chunk :: "'c em_conf \<Rightarrow> nat \<Rightarrow> unit ema" where
  "fill_bd_chunk C i_smd =
     (if ec_use_smds C i_smd then eret ()
      else eseq (emod (\<lambda>s. s\<lparr>em_buf_offsets := (em_buf_offsets s)(i_smd := 0)\<rparr>))
       (ebind (eget (\<lambda>s. (cutoff_indices (em_rows s) i_smd, em_chunk_indices s i_smd, em_rows s, em_fds s i_smd)))
         (\<lambda>(cuts, k, rows, fd).
           if length cuts \<le> k then eraise IndexError
           else (let a = cuts ! k; b = (if k = length cuts - 1 then length rows else cuts ! (k + 1))
                 in ebind (bd_read C fd (sum_sizes rows i_smd a b) (ce_bd_offset (rows ! a ! i_smd))) (\<lambda>chunk.
                    emod (\<lambda>s. s\<lparr>em_bufs := (em_bufs s)(i_smd := chunk)\<rparr>))))))"

text \<open>One dgram of the next event; a dgram is its bytes.\<close>

definition next_dgram :: "'c em_conf \<Rightarrow> nat \<Rightarrow> bytes option ema" where
  "next_dgram C i_smd =
     ebind (eget (\<lambda>s. (em_rows s ! em_i_evt s ! i_smd, em_services s ! em_i_evt s))) (\<lambda>(c, service).
       if ec_n_files C = 0 \<or> service \<noteq> TransitionId_L1Accept \<or> ec_use_smds C i_smd
       then eseq (emod (\<lambda>s. s\<lparr>em_chunk_indices := (em_chunk_indices s)(i_smd := em_chunk_indices s i_smd + 1)\<rparr>))
           (eseq (ewhen (service \<noteq> TransitionId_L1Accept \<and> ce_new_chunk c \<noteq> 0) (open_new_bd_file i_smd (ce_new_chunk c)))
                 (eget (\<lambda>s. if 0 < ce_smd_size c
                            then Some (slice (ce_smd_offset c) (ce_smd_offset c + ce_smd_size c) (em_view s)) else None)))
       else eseq (ebind (eget (\<lambda>s. length (em_bufs s i_smd) < em_buf_offsets s i_smd + ce_bd_size c)) (\<lambda>full.
                   ewhen full (eseq (fill_bd_chunk C i_smd)
                     (emod (\<lambda>s. s\<lparr>em_chunk_indices := (em_chunk_indices s)(i_smd := em_chunk_indices s i_smd + 1)\<rparr>)))))
           (ebind (eget (\<lambda>s. (em_buf_offsets s i_smd, em_bufs s i_smd))) (\<lambda>(offset, view).
            eseq (emod (\<lambda>s. s\<lparr>em_buf_offsets := (em_buf_offsets s)(i_smd := offset + ce_bd_size c)\<rparr>))
                 (eret (if 0 < ce_bd_size c then Some (slice offset (offset + ce_bd_size c) view) else None)))))"

fun next_dgrams :: "'c em_conf \<Rightarrow> nat list \<Rightarrow> bytes option list ema" where
  "next_dgrams C [] = eret []"
| "next_dgrams C (i # is) = ebind (next_dgram C i) (\<lambda>d. ebind (next_dgrams C is) (\<lambda>ds. eret (d # ds)))"

definition get_next_evt :: "'c em_conf \<Rightarrow> bytes option list ema" where
  "get_next_evt C =
     ebind (next_dgrams C [0..<ec_n_smd_files C]) (\<lambda>dgrams.
     eseq (emod (\<lambda>s. s\<lparr>em_i_evt := em_i_evt s + 1\<rparr>)) (eret dgrams))"

text \<open>\<open>Event.service\<close>: that of the first dgram that is there, which must not be 0.\<close>

fun first_service :: "'c em_conf \<Rightarrow> nat \<Rightarrow> bytes option list \<Rightarrow> pyexc + nat" where
  "first_service C i [] = Inl AssertionError"
| "first_service C i (None # ds) = first_service C (Suc i) ds"
| "first_service C i (Some d # ds) =
     (case ec_parse C (ec_configs C i) d 0 of Inl e \<Rightarrow> Inl e
      | Inr di \<Rightarrow> if di_service di = 0 then Inl AssertionError else Inr (di_service di))"

definition em_next :: "'c em_conf \<Rightarrow> bytes option list ema" where
  "em_next C =
     ebind (eget (\<lambda>s. em_failed s \<or> em_i_evt s = length (em_rows s))) (\<lambda>stop.
       if stop then eraise StopIteration
       else ebind (get_next_evt C) (\<lambda>evt.
            ebind (elift (first_service C 0 evt)) (\<lambda>service.
            eseq (ewhen (service \<noteq> TransitionId_L1Accept) (emod (\<lambda>s. s\<lparr>em_env := em_env s @ [evt]\<rparr>)))
                 (eret evt))))"

end
