(* ===== verification/EventManagerFacts.thy ===== *)
theory EventManagerFacts
  imports EventManager
begin

text \<open>
  Reading bigdata in chunks gives the same dgrams as reading each of them where its smalldata says
  it lies. The chunk bookkeeping of a file is an invariant on its column: either the buffer is used
  up, or it holds the dgrams from the last cutoff to the next and the offset is that of the next
  dgram.
\<close>

section \<open>A column\<close>

text \<open>Event \<open>e\<close> has a bigdata dgram in the column.\<close>

definition has :: "cell list list \<Rightarrow> nat list \<Rightarrow> nat \<Rightarrow> nat \<Rightarrow> bool" where
  "has rows svc i e \<longleftrightarrow> svc ! e = TransitionId_L1Accept \<and> 0 < ce_bd_size (rows ! e ! i)"

definition is_cut :: "cell list list \<Rightarrow> nat \<Rightarrow> nat \<Rightarrow> bool" where
  "is_cut rows i e = ce_cutoff (rows ! e ! i)"

text \<open>
  Transitions are cutoffs and missing dgrams are not. A dgram that is not a cutoff lies in the file
  right behind the one before, with no transition between the two events.
\<close>

definition col_ok :: "cell list list \<Rightarrow> nat list \<Rightarrow> nat \<Rightarrow> bool" where
  "col_ok rows svc i \<longleftrightarrow> (\<forall>e<length rows.
     (svc ! e \<noteq> TransitionId_L1Accept \<longrightarrow> is_cut rows i e)
     \<and> (svc ! e = TransitionId_L1Accept \<and> ce_bd_size (rows ! e ! i) = 0 \<longrightarrow> \<not> is_cut rows i e)
     \<and> (has rows svc i e \<and> \<not> is_cut rows i e \<longrightarrow>
          (\<exists>p<e. has rows svc i p \<and> (\<forall>x. p < x \<and> x < e \<longrightarrow> svc ! x = TransitionId_L1Accept \<and> ce_bd_size (rows ! x ! i) = 0)
             \<and> ce_bd_offset (rows ! e ! i) = ce_bd_offset (rows ! p ! i) + ce_bd_size (rows ! p ! i))))"

lemma sum_sizes_Suc: "a \<le> b \<Longrightarrow> sum_sizes rows i a (Suc b) = sum_sizes rows i a b + ce_bd_size (rows ! b ! i)"
  by (simp add: sum_sizes_def)

lemma sum_sizes_split: "a \<le> b \<Longrightarrow> b \<le> c \<Longrightarrow> sum_sizes rows i a c = sum_sizes rows i a b + sum_sizes rows i b c"
  using upt_add_eq_append [of a b "c - b"] by (simp add: sum_sizes_def)

lemma sum_sizes_refl [simp]: "sum_sizes rows i a a = 0"
  by (simp add: sum_sizes_def)

text \<open>Within a chunk the dgrams lie one behind the other.\<close>

lemma chunk_chain:
  assumes ok: "col_ok rows svc i" and c: "has rows svc i c" and e: "c < e" "e \<le> length rows"
    and mid: "\<forall>x. c < x \<and> x < e \<longrightarrow> \<not> is_cut rows i x"
  shows "\<exists>p. c \<le> p \<and> p < e \<and> has rows svc i p
    \<and> (\<forall>x. p < x \<and> x < e \<longrightarrow> svc ! x = TransitionId_L1Accept \<and> ce_bd_size (rows ! x ! i) = 0)
    \<and> ce_bd_offset (rows ! p ! i) + ce_bd_size (rows ! p ! i) = ce_bd_offset (rows ! c ! i) + sum_sizes rows i c e"
  using e mid
proof (induction e)
  case 0
  then show ?case by simp
next
  case (Suc e)
  show ?case
  proof (cases "e = c")
    case True
    then show ?thesis using c by (intro exI [of _ c]) (simp add: sum_sizes_Suc)
  next
    case False
    then have e: "c < e" "e < length rows" "\<not> is_cut rows i e" using Suc.prems by auto
    obtain p where p: "c \<le> p" "p < e" "has rows svc i p"
      "\<forall>x. p < x \<and> x < e \<longrightarrow> svc ! x = TransitionId_L1Accept \<and> ce_bd_size (rows ! x ! i) = 0"
      "ce_bd_offset (rows ! p ! i) + ce_bd_size (rows ! p ! i) = ce_bd_offset (rows ! c ! i) + sum_sizes rows i c e"
      using Suc.IH Suc.prems e by auto
    have L: "svc ! e = TransitionId_L1Accept" using ok e by (auto simp: col_ok_def)
    show ?thesis
    proof (cases "ce_bd_size (rows ! e ! i) = 0")
      case True
      then show ?thesis using p L e by (intro exI [of _ p]) (auto simp: sum_sizes_Suc less_Suc_eq)
    next
      case False
      then have he: "has rows svc i e" using L by (simp add: has_def)
      obtain q where q: "q < e" "has rows svc i q"
        "\<forall>x. q < x \<and> x < e \<longrightarrow> svc ! x = TransitionId_L1Accept \<and> ce_bd_size (rows ! x ! i) = 0"
        "ce_bd_offset (rows ! e ! i) = ce_bd_offset (rows ! q ! i) + ce_bd_size (rows ! q ! i)"
        using ok e he by (auto simp: col_ok_def)
      have "q = p"
      proof (rule ccontr)
        assume "q \<noteq> p"
        then consider "q < p" | "p < q" by linarith
        then show False using p(2,3,4) q(1,2,3) by cases (auto simp: has_def)
      qed
      then show ?thesis using he p q e by (intro exI [of _ e]) (simp add: sum_sizes_Suc)
    qed
  qed
qed

definition next_cut :: "cell list list \<Rightarrow> nat \<Rightarrow> nat \<Rightarrow> nat" where
  "next_cut rows i e = (case filter (is_cut rows i) [Suc e..<length rows] of [] \<Rightarrow> length rows | x # _ \<Rightarrow> x)"

lemma filter_upt_first:
  assumes "filter P [a..<n] = x # xs"
  shows "a \<le> x \<and> x < n \<and> P x \<and> (\<forall>y. a \<le> y \<and> y < x \<longrightarrow> \<not> P y)"
proof -
  obtain us vs where uv: "[a..<n] = us @ x # vs" "\<forall>u\<in>set us. \<not> P u" "P x"
    using assms by (auto simp: filter_eq_Cons_iff)
  have len: "length us < n - a" using arg_cong [OF uv(1), of length] by simp
  have nth: "x = a + length us" using arg_cong [OF uv(1), of "\<lambda>l. l ! length us"] len by simp
  have "y \<in> set us" if y: "a \<le> y" "y < x" for y
  proof -
    have "y - a < length us" using y nth by linarith
    then have "us ! (y - a) = [a..<n] ! (y - a)" by (simp add: uv(1) nth_append)
    also have "\<dots> = y" using y nth len by simp
    finally have "us ! (y - a) = y" .
    moreover have "y - a < length us" using y nth by linarith
    ultimately show ?thesis using nth_mem by fastforce
  qed
  then show ?thesis using uv nth len by auto
qed

lemma next_cut_bounds:
  assumes "e < length rows"
  shows "e < next_cut rows i e \<and> next_cut rows i e \<le> length rows
    \<and> (\<forall>x. e < x \<and> x < next_cut rows i e \<longrightarrow> \<not> is_cut rows i x)
    \<and> (next_cut rows i e < length rows \<longrightarrow> is_cut rows i (next_cut rows i e))"
proof (cases "filter (is_cut rows i) [Suc e..<length rows]")
  case Nil
  then show ?thesis using assms by (auto simp: next_cut_def filter_empty_conv)
next
  case (Cons x xs)
  then show ?thesis using filter_upt_first [OF Cons] by (auto simp: next_cut_def Suc_le_eq)
qed

lemma next_cut_eq:
  assumes "c < e" "e < length rows" "is_cut rows i e" "\<forall>x. c < x \<and> x < e \<longrightarrow> \<not> is_cut rows i x"
  shows "next_cut rows i c = e"
  using next_cut_bounds [of c rows i] assms by (metis linorder_neqE_nat order.strict_trans)

text \<open>The cutoff indices at their positions.\<close>

definition n_cuts :: "cell list list \<Rightarrow> nat \<Rightarrow> nat \<Rightarrow> nat" where
  "n_cuts rows i e = length (filter (is_cut rows i) [0..<e])"

lemma n_cuts_Suc: "n_cuts rows i (Suc e) = n_cuts rows i e + (if is_cut rows i e then 1 else 0)"
  by (simp add: n_cuts_def)

lemma cutoff_indices_at:
  assumes "e < length rows" and "is_cut rows i e"
  shows "cutoff_indices rows i ! n_cuts rows i e = e" and "n_cuts rows i e < length (cutoff_indices rows i)"
    and "(if n_cuts rows i e = length (cutoff_indices rows i) - 1 then length rows
          else cutoff_indices rows i ! (n_cuts rows i e + 1)) = next_cut rows i e"
proof -
  have "[0..<length rows] = [0..<e] @ e # [Suc e..<length rows]"
    using assms(1) upt_add_eq_append [of 0 e "length rows - e"] by (simp add: upt_conv_Cons)
  then have split: "cutoff_indices rows i = filter (is_cut rows i) [0..<e] @ e # filter (is_cut rows i) [Suc e..<length rows]"
    using assms(2) by (simp add: cutoff_indices_def is_cut_def [abs_def])
  show "cutoff_indices rows i ! n_cuts rows i e = e" "n_cuts rows i e < length (cutoff_indices rows i)"
    by (simp_all add: split n_cuts_def)
  show "(if n_cuts rows i e = length (cutoff_indices rows i) - 1 then length rows
          else cutoff_indices rows i ! (n_cuts rows i e + 1)) = next_cut rows i e"
    by (auto simp: split n_cuts_def nth_append next_cut_def split: list.splits)
qed

section \<open>Reading each dgram where it lies\<close>

text \<open>
  The reference: the files that are open at each event, and the dgram of a file at an event. \<open>fc\<close>
  is the content of the files.
\<close>

definition new_fd :: "((nat \<times> nat) \<times> string) list \<Rightarrow> nat \<Rightarrow> cell \<Rightarrow> string \<Rightarrow> string" where
  "new_fd info i c fd =
     (case map_of info (i, ce_new_chunk c) of None \<Rightarrow> fd | Some f \<Rightarrow> path_join (dirname fd) f)"

fun fd_at :: "cell list list \<Rightarrow> nat list \<Rightarrow> ((nat \<times> nat) \<times> string) list \<Rightarrow> (nat \<Rightarrow> string) \<Rightarrow> nat \<Rightarrow> nat \<Rightarrow> string" where
  "fd_at rows svc info fds 0 i = fds i"
| "fd_at rows svc info fds (Suc e) i =
     (if svc ! e \<noteq> TransitionId_L1Accept \<and> ce_new_chunk (rows ! e ! i) \<noteq> 0
      then new_fd info i (rows ! e ! i) (fd_at rows svc info fds e i) else fd_at rows svc info fds e i)"

definition direct_dgram ::
    "'c em_conf \<Rightarrow> (string \<Rightarrow> bytes) \<Rightarrow> bytes \<Rightarrow> cell list list \<Rightarrow> nat list \<Rightarrow> ((nat \<times> nat) \<times> string) list \<Rightarrow>
     (nat \<Rightarrow> string) \<Rightarrow> nat \<Rightarrow> nat \<Rightarrow> bytes option" where
  "direct_dgram C fc view rows svc info fds e i =
     (let c = rows ! e ! i in
      if ec_n_files C = 0 \<or> svc ! e \<noteq> TransitionId_L1Accept \<or> ec_use_smds C i
      then (if 0 < ce_smd_size c then Some (slice (ce_smd_offset c) (ce_smd_offset c + ce_smd_size c) view) else None)
      else (if 0 < ce_bd_size c
            then Some (slice (ce_bd_offset c) (ce_bd_offset c + ce_bd_size c) (fc (fd_at rows svc info fds e i))) else None))"

definition direct_event where
  "direct_event C fc view rows svc info fds e =
     map (direct_dgram C fc view rows svc info fds e) [0..<ec_n_smd_files C]"

text \<open>
  What the reading needs: \<open>pread\<close> returns what it is asked for, every dgram lies within its file,
  every new chunk has a name, and the columns of the files that are read are in order.
\<close>

definition batch_ok where
  "batch_ok C fc rows svc info fds \<longleftrightarrow>
     length svc = length rows
     \<and> (\<forall>n f sz off. ec_pread C n f sz off = take sz (drop off (fc f)))
     \<and> (\<forall>i<ec_n_smd_files C. \<forall>e<length rows.
          svc ! e \<noteq> TransitionId_L1Accept \<and> ce_new_chunk (rows ! e ! i) \<noteq> 0 \<longrightarrow> map_of info (i, ce_new_chunk (rows ! e ! i)) \<noteq> None)
     \<and> (\<forall>i<ec_n_smd_files C. ec_n_files C \<noteq> 0 \<and> \<not> ec_use_smds C i \<longrightarrow> col_ok rows svc i
          \<and> (\<forall>e<length rows. has rows svc i e \<longrightarrow>
               ce_bd_offset (rows ! e ! i) + ce_bd_size (rows ! e ! i) \<le> length (fc (fd_at rows svc info fds e i))))"

lemma slice_eq: "slice a (a + n) b = take n (drop a b)"
  by (simp add: slice_def take_drop add.commute)

lemma length_slice: "a + n \<le> length b \<Longrightarrow> length (slice a (a + n) b) = n"
  by (simp add: slice_eq)

lemma slice_slice: "x + n \<le> m \<Longrightarrow> slice x (x + n) (slice a (a + m) b) = slice (a + x) (a + x + n) b"
  unfolding slice_eq by (simp add: slice_eq add.assoc drop_take min_def add.commute)

lemma read_loop_all:
  assumes "\<forall>n f sz off. pread n f sz off = take sz (drop off (fc f))" and "off + sz \<le> length (fc f)"
  shows "read_loop pread sz f sz off r [] n = (slice off (off + sz) (fc f), False, Suc n)"
  using assms by (cases r) (simp_all add: slice_eq Let_def)

section \<open>The invariant of a column\<close>

definition used_up :: "cell list list \<Rightarrow> nat list \<Rightarrow> nat \<Rightarrow> nat \<Rightarrow> em \<Rightarrow> bool" where
  "used_up rows svc i e s \<longleftrightarrow> em_buf_offsets s i = length (em_bufs s i)
     \<and> (\<forall>p<e. has rows svc i p \<longrightarrow> (\<exists>x. p < x \<and> x < e \<and> \<not> (svc ! x = TransitionId_L1Accept \<and> ce_bd_size (rows ! x ! i) = 0)))"

definition in_chunk where
  "in_chunk fc rows svc info fds i e s \<longleftrightarrow> (\<exists>c<e. has rows svc i c \<and> is_cut rows i c
     \<and> (\<forall>x. c < x \<and> x < e \<longrightarrow> \<not> is_cut rows i x)
     \<and> em_bufs s i = slice (ce_bd_offset (rows ! c ! i))
         (ce_bd_offset (rows ! c ! i) + sum_sizes rows i c (next_cut rows i c)) (fc (fd_at rows svc info fds c i))
     \<and> length (em_bufs s i) = sum_sizes rows i c (next_cut rows i c)
     \<and> em_buf_offsets s i = sum_sizes rows i c e)"

definition col_inv where
  "col_inv C fc rows svc info fds i e s \<longleftrightarrow>
     em_fds s i = fd_at rows svc info fds e i
     \<and> (ec_n_files C \<noteq> 0 \<and> \<not> ec_use_smds C i \<longrightarrow> em_chunk_indices s i = n_cuts rows i e
        \<and> (used_up rows svc i e s \<or> in_chunk fc rows svc info fds i e s))"

lemma in_chunkE:
  assumes "in_chunk fc rows svc info fds i e s"
  obtains c where "c < e" "has rows svc i c" "is_cut rows i c" "\<forall>x. c < x \<and> x < e \<longrightarrow> \<not> is_cut rows i x"
    "em_bufs s i = slice (ce_bd_offset (rows ! c ! i))
         (ce_bd_offset (rows ! c ! i) + sum_sizes rows i c (next_cut rows i c)) (fc (fd_at rows svc info fds c i))"
    "length (em_bufs s i) = sum_sizes rows i c (next_cut rows i c)"
    "em_buf_offsets s i = sum_sizes rows i c e"
  using assms unfolding in_chunk_def by (elim exE conjE) (rule that)

text \<open>Between cutoffs the file stays open.\<close>

lemma fd_at_chunk:
  assumes "col_ok rows svc i" and "c < e" "e \<le> length rows" and "svc ! c = TransitionId_L1Accept"
    and "\<forall>x. c < x \<and> x < e \<longrightarrow> \<not> is_cut rows i x"
  shows "fd_at rows svc info fds e i = fd_at rows svc info fds c i"
  using assms(2,3,5)
proof (induction e)
  case 0
  then show ?case by simp
next
  case (Suc e)
  show ?case
  proof (cases "e = c")
    case True
    then show ?thesis using assms(4) by simp
  next
    case False
    then have "e < length rows" "\<not> is_cut rows i e" using Suc.prems by auto
    then have "svc ! e = TransitionId_L1Accept" using assms(1) by (auto simp: col_ok_def)
    then show ?thesis using Suc False by simp
  qed
qed

lemma in_chunk_end:
  assumes ch: "in_chunk fc rows svc info fds i e s" and e: "e < length rows" "is_cut rows i e"
  shows "em_buf_offsets s i = length (em_bufs s i)"
proof -
  obtain c where "c < e" "\<forall>x. c < x \<and> x < e \<longrightarrow> \<not> is_cut rows i x"
    "length (em_bufs s i) = sum_sizes rows i c (next_cut rows i c)" "em_buf_offsets s i = sum_sizes rows i c e"
    using ch by (auto simp: in_chunk_def)
  then show ?thesis using next_cut_eq [OF _ e] by simp
qed

lemma at_end:
  assumes "used_up rows svc i e s \<or> in_chunk fc rows svc info fds i e s" and "e < length rows" "is_cut rows i e"
  shows "em_buf_offsets s i = length (em_bufs s i)"
  using assms in_chunk_end by (auto simp: used_up_def)

lemma in_chunk_room:
  assumes "c < e" "e \<le> length rows" "\<forall>x. c < x \<and> x < e \<longrightarrow> \<not> is_cut rows i x"
  shows "e \<le> next_cut rows i c"
proof (rule ccontr)
  assume "\<not> e \<le> next_cut rows i c"
  then show False using next_cut_bounds [of c rows i] assms by (meson leD le_less_linear less_le_trans)
qed

lemma sum_sizes_mono: "a \<le> b \<Longrightarrow> b \<le> c \<Longrightarrow> sum_sizes rows i a b \<le> sum_sizes rows i a c"
  by (simp add: sum_sizes_split [of a b c])

lemma not_full:
  assumes "used_up rows svc i e s \<or> in_chunk fc rows svc info fds i e s" and "e \<le> length rows"
  shows "em_buf_offsets s i \<le> length (em_bufs s i)"
proof -
  have "em_buf_offsets s i \<le> length (em_bufs s i)" if ch: "in_chunk fc rows svc info fds i e s"
  proof -
    obtain c where "c < e" "\<forall>x. c < x \<and> x < e \<longrightarrow> \<not> is_cut rows i x"
      "length (em_bufs s i) = sum_sizes rows i c (next_cut rows i c)" "em_buf_offsets s i = sum_sizes rows i c e"
      using ch by (elim in_chunkE)
    then show ?thesis using in_chunk_room [of c e rows i] assms(2) sum_sizes_mono [of c e] by simp
  qed
  then show ?thesis using assms(1) by (auto simp: used_up_def)
qed

text \<open>A dgram that is not a cutoff follows in the buffer.\<close>

lemma in_chunk_next:
  assumes ok: "col_ok rows svc i" and ch: "in_chunk fc rows svc info fds i e s"
    and e: "e < length rows" and h: "has rows svc i e" and nc: "\<not> is_cut rows i e"
  shows "em_buf_offsets s i + ce_bd_size (rows ! e ! i) \<le> length (em_bufs s i)"
    and "slice (em_buf_offsets s i) (em_buf_offsets s i + ce_bd_size (rows ! e ! i)) (em_bufs s i)
      = slice (ce_bd_offset (rows ! e ! i)) (ce_bd_offset (rows ! e ! i) + ce_bd_size (rows ! e ! i))
          (fc (fd_at rows svc info fds e i))"
proof -
  obtain c where c: "c < e" "has rows svc i c" "\<forall>x. c < x \<and> x < e \<longrightarrow> \<not> is_cut rows i x"
    "em_bufs s i = slice (ce_bd_offset (rows ! c ! i))
         (ce_bd_offset (rows ! c ! i) + sum_sizes rows i c (next_cut rows i c)) (fc (fd_at rows svc info fds c i))"
    "length (em_bufs s i) = sum_sizes rows i c (next_cut rows i c)" "em_buf_offsets s i = sum_sizes rows i c e"
    using ch by (rule in_chunkE)
  have mid: "\<forall>x. c < x \<and> x < Suc e \<longrightarrow> \<not> is_cut rows i x" using c(3) nc by (auto simp: less_Suc_eq)
  have room: "sum_sizes rows i c (Suc e) \<le> sum_sizes rows i c (next_cut rows i c)"
    using in_chunk_room [of c "Suc e" rows i] c(1) e mid by (intro sum_sizes_mono) auto
  have Suc: "sum_sizes rows i c (Suc e) = sum_sizes rows i c e + ce_bd_size (rows ! e ! i)"
    using c(1) by (simp add: sum_sizes_Suc)
  obtain p where p: "c \<le> p" "p < Suc e" "has rows svc i p"
    "\<forall>x. p < x \<and> x < Suc e \<longrightarrow> svc ! x = TransitionId_L1Accept \<and> ce_bd_size (rows ! x ! i) = 0"
    "ce_bd_offset (rows ! p ! i) + ce_bd_size (rows ! p ! i) = ce_bd_offset (rows ! c ! i) + sum_sizes rows i c (Suc e)"
    using chunk_chain [OF ok c(2) _ _ mid] c(1) e by auto
  have "p = e" using p(2,4) h by (auto simp: has_def less_Suc_eq)
  then have off: "ce_bd_offset (rows ! e ! i) = ce_bd_offset (rows ! c ! i) + sum_sizes rows i c e"
    using p(5) Suc by simp
  show "em_buf_offsets s i + ce_bd_size (rows ! e ! i) \<le> length (em_bufs s i)"
    using room Suc c(5,6) by simp
  have "fd_at rows svc info fds e i = fd_at rows svc info fds c i"
    using fd_at_chunk [OF ok c(1) _ _ c(3)] c(2) e by (simp add: has_def)
  then show "slice (em_buf_offsets s i) (em_buf_offsets s i + ce_bd_size (rows ! e ! i)) (em_bufs s i)
      = slice (ce_bd_offset (rows ! e ! i)) (ce_bd_offset (rows ! e ! i) + ce_bd_size (rows ! e ! i))
          (fc (fd_at rows svc info fds e i))"
    using room Suc by (simp only: c(4,6) off) (subst slice_slice, simp_all)
qed

text \<open>The read at a cutoff stays within the file.\<close>

lemma chunk_within:
  assumes ok: "col_ok rows svc i" and e: "e < length rows" and h: "has rows svc i e"
    and len: "\<forall>e<length rows. has rows svc i e \<longrightarrow>
               ce_bd_offset (rows ! e ! i) + ce_bd_size (rows ! e ! i) \<le> length (fc (fd_at rows svc info fds e i))"
  shows "ce_bd_offset (rows ! e ! i) + sum_sizes rows i e (next_cut rows i e) \<le> length (fc (fd_at rows svc info fds e i))"
proof -
  note b = next_cut_bounds [OF e, of i]
  obtain p where p: "e \<le> p" "p < next_cut rows i e" "has rows svc i p"
    "ce_bd_offset (rows ! p ! i) + ce_bd_size (rows ! p ! i) = ce_bd_offset (rows ! e ! i) + sum_sizes rows i e (next_cut rows i e)"
    using chunk_chain [OF ok h, of "next_cut rows i e"] b by auto
  have "p < length rows" using p(2) b by linarith
  moreover have "fd_at rows svc info fds p i = fd_at rows svc info fds e i"
  proof (cases "p = e")
    case False
    then show ?thesis using fd_at_chunk [OF ok, of e p info fds] p b \<open>p < length rows\<close> h by (auto simp: has_def)
  qed simp
  ultimately show ?thesis using len p(3,4) by metis
qed

end
