(* ===== verification/EmRun.thy ===== *)
theory EmRun
  imports EventManagerFacts
begin

text \<open>
  The iterator of \<^verbatim>\<open>event_manager.py\<close> run over a batch: one dgram, one event, all
  events. Each step keeps the invariant of its column and leaves the other columns alone.
\<close>

section \<open>One dgram\<close>

text \<open>The state a batch is read in, up to the columns.\<close>

definition em_at :: "bytes \<Rightarrow> cell list list \<Rightarrow> nat list \<Rightarrow> ((nat \<times> nat) \<times> string) list \<Rightarrow> nat \<Rightarrow> em \<Rightarrow> bool" where
  "em_at view rows svc info e s \<longleftrightarrow> em_view s = view \<and> em_rows s = rows \<and> em_services s = svc
     \<and> em_chunkinfo s = info \<and> em_i_evt s = e \<and> \<not> em_failed s"

text \<open>Every column but \<open>i\<close> is as before.\<close>

definition others_same :: "nat \<Rightarrow> em \<Rightarrow> em \<Rightarrow> bool" where
  "others_same i s t \<longleftrightarrow> (\<forall>j. j \<noteq> i \<longrightarrow> em_chunk_indices t j = em_chunk_indices s j \<and> em_bufs t j = em_bufs s j
     \<and> em_buf_offsets t j = em_buf_offsets s j \<and> em_fds t j = em_fds s j)"

lemma col_inv_others:
  "others_same i s t \<Longrightarrow> j \<noteq> i \<Longrightarrow> col_inv C fc rows svc info fds j e t \<longleftrightarrow> col_inv C fc rows svc info fds j e s"
  by (simp add: others_same_def col_inv_def used_up_def in_chunk_def)

lemma batch_okD:
  assumes "batch_ok C fc rows svc info fds" and "i < ec_n_smd_files C" and "e < length rows"
  shows "svc ! e \<noteq> TransitionId_L1Accept \<Longrightarrow> ce_new_chunk (rows ! e ! i) \<noteq> 0 \<Longrightarrow>
      \<exists>f. map_of info (i, ce_new_chunk (rows ! e ! i)) = Some f"
    and "ec_n_files C \<noteq> 0 \<Longrightarrow> \<not> ec_use_smds C i \<Longrightarrow> col_ok rows svc i"
    and "ec_n_files C \<noteq> 0 \<Longrightarrow> \<not> ec_use_smds C i \<Longrightarrow> \<forall>e<length rows. has rows svc i e \<longrightarrow>
      ce_bd_offset (rows ! e ! i) + ce_bd_size (rows ! e ! i) \<le> length (fc (fd_at rows svc info fds e i))"
    and "\<forall>n f sz off. ec_pread C n f sz off = take sz (drop off (fc f))"
  using assms by (auto simp: batch_ok_def)

text \<open>A transition, or a file whose smalldata is its data.\<close>

lemma next_dgram_smd:
  assumes ok: "batch_ok C fc rows svc info fds" and i: "i < ec_n_smd_files C" and e: "e < length rows"
    and at: "em_at view rows svc info e s" and inv: "col_inv C fc rows svc info fds i e s"
    and smd: "ec_n_files C = 0 \<or> svc ! e \<noteq> TransitionId_L1Accept \<or> ec_use_smds C i"
  shows "\<exists>t. next_dgram C i s = (Inr (direct_dgram C fc view rows svc info fds e i), t)
    \<and> em_at view rows svc info e t \<and> others_same i s t \<and> col_inv C fc rows svc info fds i (Suc e) t"
proof -
  let ?c = "rows ! e ! i"
  define s1 where "s1 = s\<lparr>em_chunk_indices := (em_chunk_indices s)(i := em_chunk_indices s i + 1)\<rparr>"
  define t where "t = (if svc ! e \<noteq> TransitionId_L1Accept \<and> ce_new_chunk ?c \<noteq> 0
    then s1\<lparr>em_fds := (em_fds s)(i := new_fd info i ?c (em_fds s i)),
            em_chunk_ids := (em_chunk_ids s)(i := ce_new_chunk ?c)\<rparr> else s1)"
  have cur: "em_rows s ! em_i_evt s ! i = ?c" "em_services s ! em_i_evt s = svc ! e" using at by (simp_all add: em_at_def)
  have run: "next_dgram C i s = (Inr (direct_dgram C fc view rows svc info fds e i), t)"
  proof (cases "svc ! e \<noteq> TransitionId_L1Accept \<and> ce_new_chunk ?c \<noteq> 0")
    case True
    then obtain f where f: "map_of info (i, ce_new_chunk ?c) = Some f" using batch_okD(1) [OF ok i e] by blast
    then have "dict_get (em_chunkinfo s) (i, ce_new_chunk ?c) = Inr f" using at by (simp add: em_at_def dict_get_def)
    then show ?thesis using True smd at f
      by (simp add: next_dgram_def cur open_new_bd_file_def eff_simps s1_def t_def new_fd_def direct_dgram_def em_at_def Let_def)
  next
    case False
    then show ?thesis using smd at
      by (auto simp: next_dgram_def cur eff_simps s1_def t_def direct_dgram_def em_at_def Let_def)
  qed
  have t: "em_at view rows svc info e t" "others_same i s t"
    using at by (simp_all add: t_def s1_def em_at_def others_same_def)
  have fds: "em_fds t i = fd_at rows svc info fds (Suc e) i"
    using inv by (simp add: t_def s1_def col_inv_def)
  have "em_chunk_indices t i = n_cuts rows i (Suc e) \<and> used_up rows svc i (Suc e) t"
    if read: "ec_n_files C \<noteq> 0" "\<not> ec_use_smds C i"
  proof -
    have tr: "svc ! e \<noteq> TransitionId_L1Accept" using smd read by simp
    then have cut: "is_cut rows i e" using batch_okD(2) [OF ok i e read] e by (auto simp: col_ok_def)
    have "em_buf_offsets s i = length (em_bufs s i)"
      using inv read by (intro at_end [OF _ e cut]) (auto simp: col_inv_def)
    moreover have "\<exists>x. p < x \<and> x < Suc e \<and> \<not> (svc ! x = TransitionId_L1Accept \<and> ce_bd_size (rows ! x ! i) = 0)"
      if p: "p < Suc e" "has rows svc i p" for p
      using p tr by (intro exI [of _ e]) (cases "p = e"; simp add: has_def)
    ultimately show ?thesis using inv read cut
      by (simp add: used_up_def col_inv_def n_cuts_Suc t_def s1_def)
  qed
  then show ?thesis using run t fds by (auto simp: col_inv_def)
qed

text \<open>An event the file has no dgram of.\<close>

lemma next_dgram_missing:
  assumes ok: "batch_ok C fc rows svc info fds" and i: "i < ec_n_smd_files C" and e: "e < length rows"
    and at: "em_at view rows svc info e s" and inv: "col_inv C fc rows svc info fds i e s"
    and read: "ec_n_files C \<noteq> 0" "\<not> ec_use_smds C i" and L1: "svc ! e = TransitionId_L1Accept"
    and zero: "ce_bd_size (rows ! e ! i) = 0"
  shows "next_dgram C i s = (Inr (direct_dgram C fc view rows svc info fds e i), s)
    \<and> col_inv C fc rows svc info fds i (Suc e) s"
proof -
  have cur: "em_rows s ! em_i_evt s ! i = rows ! e ! i" "em_services s ! em_i_evt s = svc ! e"
    using at by (simp_all add: em_at_def)
  have col: "used_up rows svc i e s \<or> in_chunk fc rows svc info fds i e s" using inv read by (simp add: col_inv_def)
  have room: "em_buf_offsets s i \<le> length (em_bufs s i)" using not_full [OF col] e by simp
  have run: "next_dgram C i s = (Inr (direct_dgram C fc view rows svc info fds e i), s)"
    using read L1 zero room by (simp add: next_dgram_def cur eff_simps direct_dgram_def Let_def)
  have nc: "\<not> is_cut rows i e" using batch_okD(2) [OF ok i e read] e L1 zero by (auto simp: col_ok_def)
  have nh: "\<not> has rows svc i e" using zero by (simp add: has_def)
  have "used_up rows svc i (Suc e) s \<or> in_chunk fc rows svc info fds i (Suc e) s"
    using col
  proof
    assume u: "used_up rows svc i e s"
    then have "used_up rows svc i (Suc e) s" using nh unfolding used_up_def by (metis less_Suc_eq)
    then show ?thesis ..
  next
    assume "in_chunk fc rows svc info fds i e s"
    then obtain c where c: "c < e" "has rows svc i c" "is_cut rows i c" "\<forall>x. c < x \<and> x < e \<longrightarrow> \<not> is_cut rows i x"
      "em_bufs s i = slice (ce_bd_offset (rows ! c ! i))
         (ce_bd_offset (rows ! c ! i) + sum_sizes rows i c (next_cut rows i c)) (fc (fd_at rows svc info fds c i))"
      "length (em_bufs s i) = sum_sizes rows i c (next_cut rows i c)" "em_buf_offsets s i = sum_sizes rows i c e"
      by (rule in_chunkE)
    have "\<forall>x. c < x \<and> x < Suc e \<longrightarrow> \<not> is_cut rows i x" using c(4) nc by (auto simp: less_Suc_eq)
    moreover have "em_buf_offsets s i = sum_sizes rows i c (Suc e)" using c(1,7) zero by (simp add: sum_sizes_Suc)
    ultimately have "in_chunk fc rows svc info fds i (Suc e) s"
      unfolding in_chunk_def using c(1,2,3,5,6) less_SucI by blast
    then show ?thesis ..
  qed
  then show ?thesis using run inv nc L1 by (simp add: col_inv_def n_cuts_Suc)
qed

lemma fill_at:
  assumes use: "\<not> ec_use_smds C i" and rows: "em_rows s = rows" and k: "em_chunk_indices s i = k"
    and len: "k < length (cutoff_indices rows i)" and a: "cutoff_indices rows i ! k = a"
    and b: "(if k = length (cutoff_indices rows i) - 1 then length rows else cutoff_indices rows i ! (k + 1)) = b"
    and loop: "read_loop (ec_pread C) (sum_sizes rows i a b) (em_fds s i) (sum_sizes rows i a b)
      (ce_bd_offset (rows ! a ! i)) (ec_max_retries C) [] (em_reads s) = (chunk, False, n)"
  shows "fill_bd_chunk C i s = (Inr (), s\<lparr>em_buf_offsets := (em_buf_offsets s)(i := 0), em_failed := em_failed s,
    em_reads := n, em_bufs := (em_bufs s)(i := chunk)\<rparr>)"
proof -
  let ?b = "if k = length (cutoff_indices rows i) - 1 then length rows else cutoff_indices rows i ! (k + 1)"
  have "fill_bd_chunk C i s =
      ebind (bd_read C (em_fds s i) (sum_sizes rows i (cutoff_indices rows i ! k) ?b)
              (ce_bd_offset (rows ! (cutoff_indices rows i ! k) ! i)))
        (\<lambda>chunk. emod (\<lambda>s. s\<lparr>em_bufs := (em_bufs s)(i := chunk)\<rparr>)) (s\<lparr>em_buf_offsets := (em_buf_offsets s)(i := 0)\<rparr>)"
    using use len by (simp add: fill_bd_chunk_def eff_simps rows k Let_def)
  then show ?thesis unfolding a b by (simp add: eff_simps bd_read_def loop)
qed

text \<open>A dgram that is read from the bigdata file: at a cutoff after a new read, else from the buffer.\<close>

lemma next_dgram_cut:
  assumes ok: "batch_ok C fc rows svc info fds" and i: "i < ec_n_smd_files C" and e: "e < length rows"
    and at: "em_at view rows svc info e s" and inv: "col_inv C fc rows svc info fds i e s"
    and read: "ec_n_files C \<noteq> 0" "\<not> ec_use_smds C i" and h: "has rows svc i e" and cut: "is_cut rows i e"
  shows "\<exists>t. next_dgram C i s = (Inr (direct_dgram C fc view rows svc info fds e i), t)
    \<and> em_at view rows svc info e t \<and> others_same i s t \<and> col_inv C fc rows svc info fds i (Suc e) t"
proof -
  let ?c = "rows ! e ! i" and ?n = "next_cut rows i e"
  let ?sum = "sum_sizes rows i e ?n"
  let ?buf = "slice (ce_bd_offset ?c) (ce_bd_offset ?c + ?sum) (fc (em_fds s i))"
  have cur: "em_rows s ! em_i_evt s ! i = ?c" "em_services s ! em_i_evt s = svc ! e" "em_rows s = rows" "\<not> em_failed s"
    using at by (simp_all add: em_at_def)
  have st: "em_fds s i = fd_at rows svc info fds e i" "em_chunk_indices s i = n_cuts rows i e"
    "used_up rows svc i e s \<or> in_chunk fc rows svc info fds i e s" using inv read by (simp_all add: col_inv_def)
  have full: "em_buf_offsets s i = length (em_bufs s i)" using at_end [OF st(3) e cut] .
  have within: "ce_bd_offset ?c + ?sum \<le> length (fc (em_fds s i))"
    using chunk_within [OF batch_okD(2) [OF ok i e read] e h batch_okD(3) [OF ok i e read]] st(1) by simp
  have L1: "svc ! e = TransitionId_L1Accept" and pos: "0 < ce_bd_size ?c" using h by (simp_all add: has_def)
  note nb = next_cut_bounds [OF e, of i]
  have first: "ce_bd_size ?c \<le> ?sum"
    using nb sum_sizes_mono [of e "Suc e" ?n rows i] by (simp add: sum_sizes_Suc)
  have take: "slice 0 (ce_bd_size ?c) (slice a (a + ?sum) f) = slice a (a + ce_bd_size ?c) f" for a and f :: bytes
    using slice_slice [of 0 "ce_bd_size ?c" ?sum a f] first by simp
  note at_k = cutoff_indices_at [OF e cut]
  define t where "t = s\<lparr>em_buf_offsets := (em_buf_offsets s)(i := ce_bd_size ?c), em_reads := Suc (em_reads s),
    em_bufs := (em_bufs s)(i := ?buf), em_chunk_indices := (em_chunk_indices s)(i := em_chunk_indices s i + 1)\<rparr>"
  have fill: "fill_bd_chunk C i s = (Inr (), s\<lparr>em_buf_offsets := (em_buf_offsets s)(i := 0), em_reads := Suc (em_reads s),
      em_bufs := (em_bufs s)(i := ?buf)\<rparr>)"
    using fill_at [OF read(2) cur(3) st(2) at_k(2,1,3) read_loop_all [OF batch_okD(4) [OF ok i e] within]] cur(4)
    by simp
  have run: "next_dgram C i s = (Inr (direct_dgram C fc view rows svc info fds e i), t)"
    using read L1 pos full first within st(1)
    by (simp add: next_dgram_def cur(1,2) eff_simps fill direct_dgram_def Let_def t_def take)
  have buf: "length ?buf = ?sum" using within by (rule length_slice)
  have "in_chunk fc rows svc info fds i (Suc e) t"
    unfolding in_chunk_def using h cut buf
    by (intro exI [of _ e]) (auto simp: t_def st(1) [symmetric] sum_sizes_Suc)
  moreover have "em_at view rows svc info e t" "others_same i s t" "em_fds t i = fd_at rows svc info fds (Suc e) i"
    "em_chunk_indices t i = n_cuts rows i (Suc e)"
    using at st(1,2) L1 cut by (simp_all add: t_def em_at_def others_same_def n_cuts_Suc)
  ultimately show ?thesis using run by (auto simp: col_inv_def)
qed

lemma next_dgram_buffered:
  assumes ok: "batch_ok C fc rows svc info fds" and i: "i < ec_n_smd_files C" and e: "e < length rows"
    and at: "em_at view rows svc info e s" and inv: "col_inv C fc rows svc info fds i e s"
    and read: "ec_n_files C \<noteq> 0" "\<not> ec_use_smds C i" and h: "has rows svc i e" and nc: "\<not> is_cut rows i e"
  shows "\<exists>t. next_dgram C i s = (Inr (direct_dgram C fc view rows svc info fds e i), t)
    \<and> em_at view rows svc info e t \<and> others_same i s t \<and> col_inv C fc rows svc info fds i (Suc e) t"
proof -
  let ?c = "rows ! e ! i"
  have cur: "em_rows s ! em_i_evt s ! i = ?c" "em_services s ! em_i_evt s = svc ! e" using at by (simp_all add: em_at_def)
  have col: "col_ok rows svc i" by (rule batch_okD(2) [OF ok i e read])
  obtain p where p: "p < e" "has rows svc i p"
    "\<forall>x. p < x \<and> x < e \<longrightarrow> svc ! x = TransitionId_L1Accept \<and> ce_bd_size (rows ! x ! i) = 0"
    using col e h nc unfolding col_ok_def by blast
  then have "\<not> used_up rows svc i e s" by (auto simp: used_up_def)
  then have ch: "in_chunk fc rows svc info fds i e s" using inv read by (simp add: col_inv_def)
  note nxt = in_chunk_next [OF col ch e h nc]
  have L1: "svc ! e = TransitionId_L1Accept" and pos: "0 < ce_bd_size ?c" using h by (simp_all add: has_def)
  define t where "t = s\<lparr>em_buf_offsets := (em_buf_offsets s)(i := em_buf_offsets s i + ce_bd_size ?c)\<rparr>"
  have run: "next_dgram C i s = (Inr (direct_dgram C fc view rows svc info fds e i), t)"
    using read L1 pos nxt by (simp add: next_dgram_def cur eff_simps direct_dgram_def Let_def t_def)
  have "in_chunk fc rows svc info fds i (Suc e) t"
    using ch
  proof (rule in_chunkE)
    fix c assume c: "c < e" "has rows svc i c" "is_cut rows i c" "\<forall>x. c < x \<and> x < e \<longrightarrow> \<not> is_cut rows i x"
      "em_bufs s i = slice (ce_bd_offset (rows ! c ! i))
         (ce_bd_offset (rows ! c ! i) + sum_sizes rows i c (next_cut rows i c)) (fc (fd_at rows svc info fds c i))"
      "length (em_bufs s i) = sum_sizes rows i c (next_cut rows i c)" "em_buf_offsets s i = sum_sizes rows i c e"
    have "\<forall>x. c < x \<and> x < Suc e \<longrightarrow> \<not> is_cut rows i x" using c(4) nc by (auto simp: less_Suc_eq)
    moreover have "em_bufs t = em_bufs s" "em_buf_offsets t i = sum_sizes rows i c (Suc e)"
      using c(1,7) by (simp_all add: t_def sum_sizes_Suc)
    ultimately show ?thesis unfolding in_chunk_def using c(1,2,3,5,6) less_SucI by metis
  qed
  moreover have "em_at view rows svc info e t" "others_same i s t" "em_fds t i = fd_at rows svc info fds (Suc e) i"
    "em_chunk_indices t i = n_cuts rows i (Suc e)"
    using at inv read L1 nc by (simp_all add: t_def em_at_def others_same_def n_cuts_Suc col_inv_def)
  ultimately show ?thesis using run by (auto simp: col_inv_def)
qed

lemma next_dgram_run:
  assumes "batch_ok C fc rows svc info fds" and "i < ec_n_smd_files C" and "e < length rows"
    and "em_at view rows svc info e s" and "col_inv C fc rows svc info fds i e s"
  shows "\<exists>t. next_dgram C i s = (Inr (direct_dgram C fc view rows svc info fds e i), t)
    \<and> em_at view rows svc info e t \<and> others_same i s t \<and> col_inv C fc rows svc info fds i (Suc e) t"
proof (cases "ec_n_files C = 0 \<or> svc ! e \<noteq> TransitionId_L1Accept \<or> ec_use_smds C i")
  case True
  then show ?thesis by (rule next_dgram_smd [OF assms])
next
  case False
  then have read: "ec_n_files C \<noteq> 0" "\<not> ec_use_smds C i" and L1: "svc ! e = TransitionId_L1Accept" by auto
  show ?thesis
  proof (cases "ce_bd_size (rows ! e ! i) = 0")
    case True
    then show ?thesis using next_dgram_missing [OF assms read L1] assms(4) by (auto simp: others_same_def)
  next
    case False
    then have h: "has rows svc i e" using L1 by (simp add: has_def)
    then show ?thesis
      using next_dgram_cut [OF assms read h] next_dgram_buffered [OF assms read h] by (cases "is_cut rows i e") auto
  qed
qed

section \<open>One event and all events\<close>

definition row_inv where
  "row_inv C fc rows svc info fds e s \<longleftrightarrow> (\<forall>i<ec_n_smd_files C. col_inv C fc rows svc info fds i e s)"

lemma next_dgrams_run:
  assumes ok: "batch_ok C fc rows svc info fds" and e: "e < length rows"
  shows "em_at view rows svc info e s \<Longrightarrow> a \<le> ec_n_smd_files C \<Longrightarrow>
    (\<forall>i<a. col_inv C fc rows svc info fds i (Suc e) s) \<Longrightarrow>
    (\<forall>i. a \<le> i \<and> i < ec_n_smd_files C \<longrightarrow> col_inv C fc rows svc info fds i e s) \<Longrightarrow>
    \<exists>t. next_dgrams C [a..<ec_n_smd_files C] s
        = (Inr (map (direct_dgram C fc view rows svc info fds e) [a..<ec_n_smd_files C]), t)
      \<and> em_at view rows svc info e t \<and> row_inv C fc rows svc info fds (Suc e) t"
proof (induction "ec_n_smd_files C - a" arbitrary: a s)
  case 0
  then have "a = ec_n_smd_files C" by simp
  then show ?case using 0 by (auto simp: eff_simps row_inv_def)
next
  case (Suc k)
  then have a: "a < ec_n_smd_files C" by simp
  obtain t where t: "next_dgram C a s = (Inr (direct_dgram C fc view rows svc info fds e a), t)"
    "em_at view rows svc info e t" "others_same a s t" "col_inv C fc rows svc info fds a (Suc e) t"
    using next_dgram_run [OF ok a e Suc.prems(1)] Suc.prems(4) a by auto
  have "\<forall>i<Suc a. col_inv C fc rows svc info fds i (Suc e) t"
    using Suc.prems(3) t(3,4) by (auto simp: less_Suc_eq col_inv_others)
  moreover have "\<forall>i. Suc a \<le> i \<and> i < ec_n_smd_files C \<longrightarrow> col_inv C fc rows svc info fds i e t"
    using Suc.prems(4) t(3) by (auto simp: col_inv_others)
  moreover have "k = ec_n_smd_files C - Suc a" "Suc a \<le> ec_n_smd_files C" using Suc.hyps(2) a by simp_all
  ultimately obtain u where "next_dgrams C [Suc a..<ec_n_smd_files C] t
      = (Inr (map (direct_dgram C fc view rows svc info fds e) [Suc a..<ec_n_smd_files C]), u)"
    "em_at view rows svc info e u" "row_inv C fc rows svc info fds (Suc e) u"
    using Suc.hyps(1) [of "Suc a" t] t(2) by blast
  then show ?case using t(1) a by (intro exI [of _ u]) (simp add: upt_conv_Cons eff_simps)
qed

lemma get_next_evt_run:
  assumes ok: "batch_ok C fc rows svc info fds" and e: "e < length rows"
    and "em_at view rows svc info e s" and "row_inv C fc rows svc info fds e s"
  shows "\<exists>t. get_next_evt C s = (Inr (direct_event C fc view rows svc info fds e), t)
    \<and> em_at view rows svc info (Suc e) t \<and> row_inv C fc rows svc info fds (Suc e) t"
proof -
  obtain t where "next_dgrams C [0..<ec_n_smd_files C] s
      = (Inr (map (direct_dgram C fc view rows svc info fds e) [0..<ec_n_smd_files C]), t)"
    "em_at view rows svc info e t" "row_inv C fc rows svc info fds (Suc e) t"
    using next_dgrams_run [OF ok e assms(3), of 0] assms(4) by (auto simp: row_inv_def)
  then show ?thesis
    by (intro exI [of _ "t\<lparr>em_i_evt := em_i_evt t + 1\<rparr>"])
       (auto simp: get_next_evt_def eff_simps direct_event_def em_at_def row_inv_def col_inv_def used_up_def in_chunk_def)
qed

text \<open>\<open>for evt in evt_man\<close>: at most \<open>k\<close> events, until the iterator stops.\<close>

fun em_all :: "'c em_conf \<Rightarrow> nat \<Rightarrow> em \<Rightarrow> (pyexc + bytes option list list) \<times> em" where
  "em_all C 0 s = (Inr [], s)"
| "em_all C (Suc k) s =
     (case em_next C s of
        (Inl StopIteration, s1) \<Rightarrow> (Inr [], s1)
      | (Inl e, s1) \<Rightarrow> (Inl e, s1)
      | (Inr evt, s1) \<Rightarrow> (case em_all C k s1 of (Inl e, s2) \<Rightarrow> (Inl e, s2) | (Inr evts, s2) \<Rightarrow> (Inr (evt # evts), s2)))"

lemma em_next_run:
  assumes ok: "batch_ok C fc rows svc info fds" and e: "e < length rows"
    and at: "em_at view rows svc info e s" and inv: "row_inv C fc rows svc info fds e s"
    and serv: "first_service C 0 (direct_event C fc view rows svc info fds e) = Inr v"
  shows "\<exists>t. em_next C s = (Inr (direct_event C fc view rows svc info fds e), t)
    \<and> em_at view rows svc info (Suc e) t \<and> row_inv C fc rows svc info fds (Suc e) t"
proof -
  obtain t where t: "get_next_evt C s = (Inr (direct_event C fc view rows svc info fds e), t)"
    "em_at view rows svc info (Suc e) t" "row_inv C fc rows svc info fds (Suc e) t"
    using get_next_evt_run [OF ok e at inv] by blast
  let ?t = "if v \<noteq> TransitionId_L1Accept then t\<lparr>em_env := em_env t @ [direct_event C fc view rows svc info fds e]\<rparr> else t"
  have "em_next C s = (Inr (direct_event C fc view rows svc info fds e), ?t)"
    using at e by (simp add: em_next_def eff_simps t(1) serv em_at_def)
  moreover have "em_at view rows svc info (Suc e) ?t \<and> row_inv C fc rows svc info fds (Suc e) ?t"
    using t(2,3) by (simp add: em_at_def row_inv_def col_inv_def used_up_def in_chunk_def)
  ultimately show ?thesis by blast
qed

lemma em_all_run:
  assumes ok: "batch_ok C fc rows svc info fds"
    and serv: "\<forall>e<length rows. \<exists>v. first_service C 0 (direct_event C fc view rows svc info fds e) = Inr v"
  shows "em_at view rows svc info e s \<Longrightarrow> row_inv C fc rows svc info fds e s \<Longrightarrow> e \<le> length rows \<Longrightarrow> length rows - e < k \<Longrightarrow>
    \<exists>t. em_all C k s = (Inr (map (direct_event C fc view rows svc info fds) [e..<length rows]), t)"
proof (induction k arbitrary: e s)
  case 0
  then show ?case by simp
next
  case (Suc k)
  show ?case
  proof (cases "e = length rows")
    case True
    then have "em_next C s = (Inl StopIteration, s)" using Suc.prems(1) by (simp add: em_next_def eff_simps em_at_def)
    then show ?thesis using True by simp
  next
    case False
    then have e: "e < length rows" using Suc.prems by simp
    obtain v where "first_service C 0 (direct_event C fc view rows svc info fds e) = Inr v" using serv e by blast
    then obtain t where t: "em_next C s = (Inr (direct_event C fc view rows svc info fds e), t)"
      "em_at view rows svc info (Suc e) t" "row_inv C fc rows svc info fds (Suc e) t"
      using em_next_run [OF ok e Suc.prems(1,2)] by blast
    obtain u where "em_all C k t = (Inr (map (direct_event C fc view rows svc info fds) [Suc e..<length rows]), u)"
      using Suc.IH [OF t(2,3)] e Suc.prems(4) by (metis Suc_diff_Suc Suc_leI Suc_less_SucD)
    then show ?thesis using t(1) e by (simp add: upt_conv_Cons)
  qed
qed

text \<open>A fresh iterator has read nothing.\<close>

lemma em_init_shape:
  assumes "em_init C fds ids view = Inr s"
  shows "em_at view (em_rows s) (em_services s) (em_chunkinfo s) 0 s"
    and "row_inv C fc (em_rows s) (em_services s) (em_chunkinfo s) fds 0 s"
  using assms by (auto simp: em_init_def em_at_def row_inv_def col_inv_def used_up_def n_cuts_def split: sum.splits prod.splits)

lemma em_batch_run:
  assumes "em_init C fds ids view = Inr s"
    and "batch_ok C fc (em_rows s) (em_services s) (em_chunkinfo s) fds"
    and "\<forall>e<length (em_rows s). \<exists>v. first_service C 0
           (direct_event C fc view (em_rows s) (em_services s) (em_chunkinfo s) fds e) = Inr v"
    and "length (em_rows s) < k"
  shows "\<exists>t. em_all C k s = (Inr (map (direct_event C fc view (em_rows s) (em_services s) (em_chunkinfo s) fds)
    [0..<length (em_rows s)]), t)"
  using em_all_run [OF assms(2,3) em_init_shape [OF assms(1)]] assms(4) by simp

text \<open>
  A read never returns more than was asked for, as long as \<open>pread\<close> does not, and makes at most
  one call more than the retries; when it does not fail, it returned all.
\<close>

lemma read_loop_bounds:
  assumes pr: "\<forall>n f sz off. length (pread n f sz off) \<le> sz" and len: "length chunk + sz = req"
  shows "case read_loop pread req fd sz off r chunk n of
    (res, failed, m) \<Rightarrow> length res \<le> req \<and> m \<le> n + r + 1 \<and> n < m \<and> (\<not> failed \<longrightarrow> length res = req)"
  using len
proof (induction r arbitrary: sz off chunk n)
  case 0
  then show ?case using pr [rule_format, of n fd sz off] by (auto simp: Let_def)
next
  case (Suc r)
  let ?new = "pread n fd sz off"
  have le: "length ?new \<le> sz" using pr by blast
  show ?case
  proof (cases "length (chunk @ ?new) = req")
    case True
    then show ?thesis by (simp add: Let_def)
  next
    case False
    have "length (chunk @ ?new) + (sz - length ?new) = req" using Suc.prems le by simp
    note Suc.IH [OF this, of "Suc n" "off + length ?new"]
    then show ?thesis using False by (auto simp: Let_def split: prod.splits)
  qed
qed

end
