(* ===== verification/EmBatch.thy ===== *)
theory EmBatch
  imports EmRun Repack
begin

text \<open>
  The events of a batch as the smalldata dgrams name them: the pass over a batch that is packed of
  dgrams finds for each of them the place of its bigdata dgram, and marks as cutoffs all that do not
  lie right behind the dgram before. So what is read in chunks is what the dgrams name.
\<close>

section \<open>What the dgrams of a batch say\<close>

text \<open>
  A batch is given by its rows, one for each event, with the dgram of every file or nothing. What
  \<^verbatim>\<open>dgram.Dgram\<close> reads of a dgram; where its bigdata dgram is, when the file's bigdata is read; and
  the new bigdata file that it announces.
\<close>

definition said :: "'c em_conf \<Rightarrow> nat \<Rightarrow> bytes \<Rightarrow> dginfo option" where
  "said C i d =
     (if d = [] then None else case ec_parse C (ec_configs C i) d 0 of Inl e \<Rightarrow> None | Inr di \<Rightarrow> Some di)"

definition reads_big :: "'c em_conf \<Rightarrow> nat \<Rightarrow> bool" where
  "reads_big C i \<longleftrightarrow> ec_n_files C \<noteq> 0 \<and> \<not> ec_use_smds C i"

definition bd_place :: "'c em_conf \<Rightarrow> nat \<Rightarrow> bytes \<Rightarrow> (nat \<times> nat) option" where
  "bd_place C i d = (case said C i d of None \<Rightarrow> None
     | Some di \<Rightarrow> if di_service di = TransitionId_L1Accept \<and> reads_big C i then di_smdinfo di else None)"

definition announced :: "'c em_conf \<Rightarrow> (nat \<Rightarrow> nat) \<Rightarrow> nat \<Rightarrow> bytes \<Rightarrow> (nat \<times> string) option" where
  "announced C ids i d = (case said C i d of None \<Rightarrow> None
     | Some di \<Rightarrow> if di_service di = TransitionId_Enable \<and> 0 < ec_n_files C
                  then (case di_chunkinfo di of [] \<Rightarrow> None | (cid, name) # _ \<Rightarrow> if ids i < cid then Some (cid, name) else None)
                  else None)"

text \<open>The bigdata file of a stream that is open before an event.\<close>

fun open_file :: "'c em_conf \<Rightarrow> (nat \<Rightarrow> nat) \<Rightarrow> (nat \<Rightarrow> string) \<Rightarrow> bytes list list \<Rightarrow> nat \<Rightarrow> nat \<Rightarrow> string" where
  "open_file C ids fds rows 0 i = fds i"
| "open_file C ids fds rows (Suc e) i =
     (case announced C ids i (rows ! e ! i) of None \<Rightarrow> open_file C ids fds rows e i
      | Some (cid, name) \<Rightarrow> path_join (dirname (open_file C ids fds rows e i)) name)"

text \<open>The reference: the event that the smalldata dgrams name; \<open>fc\<close> is the content of the files.\<close>

definition named_event ::
    "'c em_conf \<Rightarrow> (string \<Rightarrow> bytes) \<Rightarrow> (nat \<Rightarrow> nat) \<Rightarrow> (nat \<Rightarrow> string) \<Rightarrow> bytes list list \<Rightarrow> nat \<Rightarrow> bytes option list" where
  "named_event C fc ids fds rows e =
     map (\<lambda>i. case bd_place C i (rows ! e ! i) of
            Some (off, sz) \<Rightarrow> Some (slice off (off + sz) (fc (open_file C ids fds rows e i)))
          | None \<Rightarrow> if rows ! e ! i = [] then None else Some (rows ! e ! i)) [0..<ec_n_smd_files C]"

text \<open>
  The rows of a batch: the reader reads the same of a dgram wherever it lies in a view; the dgrams of
  an event have one service; an L1Accept names a place when its bigdata is read, which is not at the
  beginning of the file, and a transition is in every file that is read.
\<close>

definition reads_same :: "'c em_conf \<Rightarrow> nat \<Rightarrow> bytes \<Rightarrow> bool" where
  "reads_same C i d \<longleftrightarrow> (\<exists>di. said C i d = Some di \<and> di_size di = length d
     \<and> (\<forall>pre post. ec_parse C (ec_configs C i) (pre @ d @ post) (length pre) = Inr di))"

definition row_says :: "'c em_conf \<Rightarrow> nat \<Rightarrow> bytes list \<Rightarrow> bool" where
  "row_says C sv row \<longleftrightarrow> length row = ec_n_smd_files C \<and> sizes_ok (map length row) \<and> (\<exists>d\<in>set row. d \<noteq> [])
     \<and> (\<forall>i<length row. row ! i \<noteq> [] \<longrightarrow> reads_same C i (row ! i) \<and> map_option di_service (said C i (row ! i)) = Some sv
          \<and> (sv = TransitionId_L1Accept \<and> reads_big C i \<longrightarrow> (\<exists>off sz. bd_place C i (row ! i) = Some (off, sz) \<and> 0 < off \<and> 0 < sz)))
     \<and> (\<forall>i<length row. sv \<noteq> TransitionId_L1Accept \<and> reads_big C i \<longrightarrow> row ! i \<noteq> [])"

text \<open>The end of the bigdata dgram that was named last in the events before, or 0.\<close>

fun named_end :: "'c em_conf \<Rightarrow> bytes list list \<Rightarrow> nat \<Rightarrow> nat \<Rightarrow> nat" where
  "named_end C rows 0 i = 0"
| "named_end C rows (Suc e) i = (case bd_place C i (rows ! e ! i) of None \<Rightarrow> named_end C rows e i | Some (off, sz) \<Rightarrow> off + sz)"

text \<open>
  The bigdata dgrams lie in their files, in which a transition lies between what is before and behind
  it, or begins a new file; and a new file has one name.
\<close>

definition places_good ::
    "'c em_conf \<Rightarrow> (string \<Rightarrow> bytes) \<Rightarrow> (nat \<Rightarrow> nat) \<Rightarrow> (nat \<Rightarrow> string) \<Rightarrow> nat list \<Rightarrow> bytes list list \<Rightarrow> bool" where
  "places_good C fc ids fds svs rows \<longleftrightarrow>
     (\<forall>i<ec_n_smd_files C. \<forall>e<length rows. \<forall>off sz. bd_place C i (rows ! e ! i) = Some (off, sz) \<longrightarrow>
          off + sz \<le> length (fc (open_file C ids fds rows e i))
          \<and> (\<forall>x<e. svs ! x \<noteq> TransitionId_L1Accept \<and> (\<forall>y. x < y \<and> y < e \<longrightarrow> bd_place C i (rows ! y ! i) = None)
               \<longrightarrow> off \<noteq> named_end C rows x i))"

definition names_agree :: "'c em_conf \<Rightarrow> (nat \<Rightarrow> nat) \<Rightarrow> bytes list list \<Rightarrow> bool" where
  "names_agree C ids rows \<longleftrightarrow> (\<forall>i<ec_n_smd_files C. \<forall>x<length rows. \<forall>y<length rows. \<forall>cid a b.
     announced C ids i (rows ! x ! i) = Some (cid, a) \<and> announced C ids i (rows ! y ! i) = Some (cid, b) \<longrightarrow> a = b)"

definition preads :: "'c em_conf \<Rightarrow> (string \<Rightarrow> bytes) \<Rightarrow> bool" where
  "preads C fc \<longleftrightarrow> (\<forall>n f sz off. ec_pread C n f sz off = take sz (drop off (fc f)))"

definition batch_good ::
    "'c em_conf \<Rightarrow> (string \<Rightarrow> bytes) \<Rightarrow> (nat \<Rightarrow> nat) \<Rightarrow> (nat \<Rightarrow> string) \<Rightarrow> nat list \<Rightarrow> bytes list list \<Rightarrow> bool" where
  "batch_good C fc ids fds svs rows \<longleftrightarrow>
     rows \<noteq> [] \<and> sizes_ok (map length (map row_event rows)) \<and> list_all2 (row_says C) svs rows
     \<and> preads C fc \<and> places_good C fc ids fds svs rows \<and> names_agree C ids rows"

section \<open>The pass over a row\<close>

text \<open>What the pass finds of a dgram.\<close>

definition cell_found :: "'c em_conf \<Rightarrow> (nat \<Rightarrow> nat) \<Rightarrow> bytes \<Rightarrow> bytes list list \<Rightarrow> nat \<Rightarrow> nat \<Rightarrow> cell \<Rightarrow> bool" where
  "cell_found C ids view rows e i c \<longleftrightarrow>
     (let d = rows ! e ! i in
      ce_smd_size c = length d \<and> slice (ce_smd_offset c) (ce_smd_offset c + length d) view = d
      \<and> ce_new_chunk c = (case announced C ids i d of None \<Rightarrow> 0 | Some (cid, name) \<Rightarrow> cid)
      \<and> (case bd_place C i d of None \<Rightarrow> ce_bd_size c = 0 \<and> ce_cutoff c = (d \<noteq> [])
         | Some (off, sz) \<Rightarrow> ce_bd_offset c = off \<and> ce_bd_size c = sz \<and> (ce_cutoff c \<or> off = named_end C rows e i)))"

text \<open>What the pass knows when it is at file \<open>i\<close> of event \<open>e\<close>.\<close>

definition scanned :: "'c em_conf \<Rightarrow> (nat \<Rightarrow> nat) \<Rightarrow> bytes list list \<Rightarrow> nat \<Rightarrow> nat \<Rightarrow> scan \<Rightarrow> bool" where
  "scanned C ids rows e i st \<longleftrightarrow>
     (\<forall>j<ec_n_smd_files C. sn_cur_offsets st j = named_end C rows (if j < i then Suc e else e) j)
     \<and> (\<forall>x j cid name. (x < e \<or> x = e \<and> j < i) \<and> j < ec_n_smd_files C \<and> announced C ids j (rows ! x ! j) = Some (cid, name)
          \<longrightarrow> map_of (sn_info st) (j, cid) = Some name)"

lemma place_said: "bd_place C i d = Some p \<Longrightarrow> d \<noteq> []" "bd_place C i [] = None" "announced C ids i [] = None"
  by (auto simp: bd_place_def announced_def said_def)

lemma scanned_cong:
  "sn_cur_offsets st' = sn_cur_offsets st \<Longrightarrow> sn_info st' = sn_info st \<Longrightarrow> scanned C ids rows e i st' = scanned C ids rows e i st"
  by (simp only: scanned_def)

lemma scanned_next_row: "scanned C ids rows e (ec_n_smd_files C) st \<Longrightarrow> scanned C ids rows (Suc e) 0 st"
  by (simp add: scanned_def less_Suc_eq) blast

lemma scanned_step:
  assumes sc: "scanned C ids rows e i st" and i: "i < ec_n_smd_files C"
    and off: "sn_cur_offsets st' = (sn_cur_offsets st)(i := (case bd_place C i (rows ! e ! i) of None \<Rightarrow> sn_cur_offsets st i | Some (off, sz) \<Rightarrow> off + sz))"
    and info: "\<And>j cid name. map_of (sn_info st) (j, cid) = Some name \<Longrightarrow> (\<exists>x<e. announced C ids j (rows ! x ! j) = Some (cid, name)) \<or> j < i \<Longrightarrow>
      j < ec_n_smd_files C \<Longrightarrow> map_of (sn_info st') (j, cid) = Some name"
    and new: "\<And>cid name. announced C ids i (rows ! e ! i) = Some (cid, name) \<Longrightarrow> map_of (sn_info st') (i, cid) = Some name"
  shows "scanned C ids rows e (Suc i) st'"
proof -
  have cur: "sn_cur_offsets st j = named_end C rows (if j < i then Suc e else e) j" if "j < ec_n_smd_files C" for j
    using sc that by (simp add: scanned_def)
  have "map_of (sn_info st') (j, cid) = Some name"
    if a: "(x < e \<or> x = e \<and> j < Suc i) \<and> j < ec_n_smd_files C \<and> announced C ids j (rows ! x ! j) = Some (cid, name)" for x j cid name
  proof (cases "x = e \<and> j = i")
    case True
    then show ?thesis using new a by simp
  next
    case False
    then have b: "x < e \<or> x = e \<and> j < i" using a by auto
    then have "map_of (sn_info st) (j, cid) = Some name" using sc a unfolding scanned_def by blast
    then show ?thesis using info a b by blast
  qed
  moreover have "sn_cur_offsets st' j = named_end C rows (if j < Suc i then Suc e else e) j" if "j < ec_n_smd_files C" for j
    using cur [of j] cur [of i] that i unfolding off by (auto simp: less_Suc_eq split: option.splits)
  ultimately show ?thesis unfolding scanned_def by blast
qed

lemma scanned_keep:
  assumes "scanned C ids rows e i st" and "i < ec_n_smd_files C" and "bd_place C i (rows ! e ! i) = None" and "announced C ids i (rows ! e ! i) = None"
    and "sn_cur_offsets st' = sn_cur_offsets st" and "sn_info st' = sn_info st"
  shows "scanned C ids rows e (Suc i) st'"
  using assms by (intro scanned_step [OF assms(1,2)]) auto

lemma scan_dgram_run:
  assumes sc: "scanned C ids rows e i st" and row: "row_says C sv (rows ! e)" and e: "e < length rows"
    and i: "i < ec_n_smd_files C" and names: "names_agree C ids rows"
    and view: "view = pre @ rows ! e ! i @ post" and off: "sn_offset st = length pre"
  shows "\<exists>c st'. scan_dgram C ids view e i (length (rows ! e ! i)) st = Inr (c, st') \<and> cell_found C ids view rows e i c
    \<and> scanned C ids rows e (Suc i) st' \<and> sn_offset st' = length pre
    \<and> sn_service st' = (if rows ! e ! i = [] then sn_service st else sv)"
proof (cases "rows ! e ! i = []")
  case True
  then show ?thesis using sc off
    by (intro exI [of _ "new_cell\<lparr>ce_cutoff := False\<rparr>"] exI [of _ st])
      (auto simp: scan_dgram_def cell_found_def place_said new_cell_def slice_def intro: scanned_keep [OF sc i])
next
  case False
  let ?d = "rows ! e ! i"
  have len: "length (rows ! e) = ec_n_smd_files C" using row by (simp add: row_says_def)
  obtain di where di: "said C i ?d = Some di" "di_size di = length ?d" "di_service di = sv"
    "ec_parse C (ec_configs C i) view (length pre) = Inr di"
  proof -
    have "reads_same C i ?d" "map_option di_service (said C i ?d) = Some sv" using row False i len by (simp_all add: row_says_def)
    then show thesis using that unfolding reads_same_def view by auto
  qed
  let ?c = "new_cell\<lparr>ce_smd_offset := length pre, ce_smd_size := length ?d\<rparr>"
  have sl: "slice (length pre) (length pre + length ?d) view = ?d" unfolding view by (rule slice_middle)
  consider (L1) "sv = TransitionId_L1Accept" "0 < ec_n_files C" | (Enable) "sv = TransitionId_Enable" "0 < ec_n_files C"
    | (other) "ec_n_files C = 0 \<or> sv \<noteq> TransitionId_L1Accept \<and> sv \<noteq> TransitionId_Enable" by auto
  then show ?thesis
  proof cases
    case L1
    let ?st = "st\<lparr>sn_service := sv, sn_first_L1 := Some (case sn_first_L1 st of None \<Rightarrow> e | Some x \<Rightarrow> x)\<rparr>"
    have an: "announced C ids i ?d = None" using L1 di by (simp add: announced_def TransitionId_L1Accept_def TransitionId_Enable_def)
    have run: "scan_dgram C ids view e i (length ?d) st = get_bd_offset_and_size C di e i ?c ?st"
      using di off False L1 by (simp add: scan_dgram_def Let_def)
    show ?thesis
    proof (cases "ec_use_smds C i")
      case True
      then have "bd_place C i ?d = None" using di by (simp add: bd_place_def reads_big_def)
      then show ?thesis using run True sc an sl False off
        by (intro exI [of _ ?c] exI [of _ ?st])
          (auto simp: get_bd_offset_and_size_def cell_found_def new_cell_def intro: scanned_keep [OF sc i])
    next
      case smd: False
      then have rf: "reads_big C i" using L1 by (simp add: reads_big_def)
      then obtain o' z where p: "bd_place C i ?d = Some (o', z)" using row L1 False i len by (auto simp: row_says_def)
      then have info: "di_smdinfo di = Some (o', z)" using di L1 rf by (simp add: bd_place_def)
      let ?same = "sn_cur_offsets ?st i = o' \<and> Some e \<noteq> sn_first_L1 ?st \<and> sn_cur_sizes ?st i + z < ec_chunksize C"
      let ?c' = "?c\<lparr>ce_bd_offset := o', ce_bd_size := z, ce_cutoff := \<not> ?same\<rparr>"
      let ?st' = "?st\<lparr>sn_cur_sizes := (sn_cur_sizes ?st)(i := if ?same then sn_cur_sizes ?st i + z else z),
                      sn_cur_offsets := (sn_cur_offsets ?st)(i := o' + z)\<rparr>"
      have "scan_dgram C ids view e i (length ?d) st = Inr (?c', ?st')"
        using run smd info by (simp add: get_bd_offset_and_size_def Let_def)
      moreover have "cell_found C ids view rows e i ?c'"
        using sc i p an sl by (auto simp: cell_found_def scanned_def new_cell_def)
      moreover have "scanned C ids rows e (Suc i) ?st'"
        using p an by (intro scanned_step [OF sc i]) auto
      ultimately show ?thesis using off False by (intro exI [of _ ?c'] exI [of _ ?st']) simp
    qed
  next
    case Enable
    let ?st = "st\<lparr>sn_service := sv\<rparr>"
    have pl: "bd_place C i ?d = None" using Enable di by (simp add: bd_place_def TransitionId_L1Accept_def TransitionId_Enable_def)
    have ne: "sv \<noteq> TransitionId_L1Accept" using Enable by (simp add: TransitionId_L1Accept_def TransitionId_Enable_def)
    show ?thesis
    proof (cases "announced C ids i ?d")
      case None
      then have "scan_dgram C ids view e i (length ?d) st = Inr (?c, ?st)"
        using di off False Enable ne by (auto simp: scan_dgram_def Let_def announced_def split: list.splits if_splits)
      then show ?thesis using None pl sl sc False off
        by (intro exI [of _ ?c] exI [of _ ?st]) (auto simp: cell_found_def new_cell_def intro: scanned_keep [OF sc i])
    next
      case (Some p)
      obtain cid name where p: "p = (cid, name)" by fastforce
      have an: "announced C ids i ?d = Some (cid, name)" using Some p by simp
      then obtain more where ci: "di_chunkinfo di = (cid, name) # more" "ids i < cid"
        using di Enable by (auto simp: announced_def split: list.splits if_splits)
      let ?c' = "?c\<lparr>ce_new_chunk := cid\<rparr>" and ?st' = "?st\<lparr>sn_info := AList.update (i, cid) name (sn_info st)\<rparr>"
      have "scan_dgram C ids view e i (length ?d) st = Inr (?c', ?st')"
        using di off False Enable ne ci by (simp add: scan_dgram_def Let_def)
      moreover have "cell_found C ids view rows e i ?c'" using an pl sl False by (simp add: cell_found_def new_cell_def)
      moreover have "scanned C ids rows e (Suc i) ?st'"
      proof -
        have "nm = name" if "announced C ids i (rows ! x ! i) = Some (cid, nm)" "x < e" for x nm
          using names that an i e unfolding names_agree_def by (meson less_trans)
        then show ?thesis using pl an by (intro scanned_step [OF sc i]) (auto simp: update_conv')
      qed
      ultimately show ?thesis using off False by (intro exI [of _ ?c'] exI [of _ ?st']) simp
    qed
  next
    case other
    let ?st = "st\<lparr>sn_service := sv\<rparr>"
    have "bd_place C i ?d = None" "announced C ids i ?d = None"
      using other di by (auto simp: bd_place_def announced_def reads_big_def)
    moreover have "scan_dgram C ids view e i (length ?d) st = Inr (?c, ?st)"
      using di off False other by (auto simp: scan_dgram_def Let_def)
    ultimately show ?thesis using sl sc False off
      by (intro exI [of _ ?c] exI [of _ ?st]) (auto simp: cell_found_def new_cell_def intro: scanned_keep [OF sc i])
  qed
qed

lemma scan_row_run:
  assumes row: "row_says C sv (rows ! e)" and e: "e < length rows" and names: "names_agree C ids rows"
  shows "scanned C ids rows e i st \<Longrightarrow> i \<le> ec_n_smd_files C \<Longrightarrow> view = pre @ concat (drop i (rows ! e)) @ post \<Longrightarrow>
    sn_offset st = length pre \<Longrightarrow>
    \<exists>cs st'. scan_row C ids view e i (map length (drop i (rows ! e))) st = Inr (cs, st')
      \<and> length cs = ec_n_smd_files C - i \<and> (\<forall>j<length cs. cell_found C ids view rows e (i + j) (cs ! j))
      \<and> scanned C ids rows e (ec_n_smd_files C) st' \<and> sn_offset st' = length pre + length (concat (drop i (rows ! e)))
      \<and> sn_service st' = (if \<exists>d\<in>set (drop i (rows ! e)). d \<noteq> [] then sv else sn_service st)"
proof (induction "ec_n_smd_files C - i" arbitrary: i st pre)
  case 0
  have "length (rows ! e) = ec_n_smd_files C" using row by (simp add: row_says_def)
  then show ?case using 0 by (intro exI [of _ "[]"] exI [of _ st]) simp
next
  case (Suc n)
  let ?row = "rows ! e"
  have len: "length ?row = ec_n_smd_files C" using row by (simp add: row_says_def)
  have i: "i < ec_n_smd_files C" using Suc.hyps(2) by simp
  have drop: "drop i ?row = ?row ! i # drop (Suc i) ?row" using i len by (simp add: Cons_nth_drop_Suc)
  have v: "view = pre @ ?row ! i @ concat (drop (Suc i) ?row) @ post" using Suc.prems(3) by (simp add: drop)
  obtain c st1 where c: "scan_dgram C ids view e i (length (?row ! i)) st = Inr (c, st1)" "cell_found C ids view rows e i c"
    "scanned C ids rows e (Suc i) st1" "sn_offset st1 = length pre" "sn_service st1 = (if ?row ! i = [] then sn_service st else sv)"
    using scan_dgram_run [OF Suc.prems(1) row e i names v Suc.prems(4)] by blast
  let ?st = "st1\<lparr>sn_offset := sn_offset st1 + length (?row ! i)\<rparr>"
  have "scanned C ids rows e (Suc i) ?st" using c(3) by (simp add: scanned_cong [of ?st st1])
  moreover have "view = (pre @ ?row ! i) @ concat (drop (Suc i) ?row) @ post" using v by simp
  moreover have "n = ec_n_smd_files C - Suc i" using Suc.hyps(2) by simp
  moreover have "sn_offset ?st = length (pre @ ?row ! i)" using c(4) by simp
  ultimately obtain cs st' where cs: "scan_row C ids view e (Suc i) (map length (drop (Suc i) ?row)) ?st = Inr (cs, st')"
    "length cs = ec_n_smd_files C - Suc i" "\<forall>j<length cs. cell_found C ids view rows e (Suc i + j) (cs ! j)"
    "scanned C ids rows e (ec_n_smd_files C) st'" "sn_offset st' = length (pre @ ?row ! i) + length (concat (drop (Suc i) ?row))"
    "sn_service st' = (if \<exists>d\<in>set (drop (Suc i) ?row). d \<noteq> [] then sv else sn_service ?st)"
    using Suc.hyps(1) [of "Suc i" ?st "pre @ ?row ! i"] i by auto
  have "cell_found C ids view rows e (i + j) ((c # cs) ! j)" if "j < length (c # cs)" for j
    using c(2) cs(3) that by (cases j) auto
  then show ?case using c(1,5) cs i unfolding drop
    by (intro exI [of _ "c # cs"] exI [of _ st']) auto
qed

section \<open>The pass over a batch\<close>

lemma event_sizes_row:
  assumes ok: "sizes_ok (map length row)" "length row = ec_n_smd_files C" and "get_size i pf = Inr (length (row_event row))"
  shows "event_sizes C (pre @ row_event row @ post) pf i (length pre) = Inr (map length row)"
proof -
  let ?ev = "row_event row"
  let ?pf = "\<lparr>n_packets = length row, footer = footer_of (map length row), pf_view = Some ?ev\<rparr>"
  have init: "pf_init 0 (Some ?ev) = Inr ?pf" unfolding row_event_def using pf_init_view [OF ok(1)] by simp
  have "get_sizes [0..<length row] ?pf = Inr (map (\<lambda>i. map length row ! i) [0..<length row])"
    using ok(1) by (intro get_sizes_map get_size_footer_of) auto
  moreover have "map (\<lambda>i. map length row ! i) [0..<length row] = map length row" by (metis length_map map_nth)
  ultimately have "get_sizes [0..<length row] ?pf = Inr (map length row)" by simp
  then show ?thesis using assms(3) init ok(2) by (simp add: event_sizes_def slice_def aux_sizes_def)
qed

lemma scan_events_run:
  assumes says: "list_all2 (row_says C) svs rows" and names: "names_agree C ids rows"
  shows "e \<le> length rows \<Longrightarrow> scanned C ids rows e 0 st \<Longrightarrow> sn_offset st = length pre \<Longrightarrow>
    view = pre @ concat (map row_event (drop e rows)) @ footer pf \<Longrightarrow>
    \<forall>j. e \<le> j \<and> j < length rows \<longrightarrow> get_size j pf = Inr (length (row_event (rows ! j))) \<Longrightarrow>
    \<exists>cells st'. scan_events C ids view pf (length rows - e) e st = Inr (zip cells (drop e svs), st') \<and> length cells = length rows - e
      \<and> (\<forall>j<length cells. length (cells ! j) = ec_n_smd_files C
           \<and> (\<forall>i<ec_n_smd_files C. cell_found C ids view rows (e + j) i (cells ! j ! i)))
      \<and> scanned C ids rows (length rows) 0 st'"
proof (induction "length rows - e" arbitrary: e st pre)
  case 0
  then show ?case by (intro exI [of _ "[]"] exI [of _ st]) simp
next
  case (Suc n)
  let ?row = "rows ! e"
  have e: "e < length rows" using Suc.hyps(2) by simp
  have len: "length svs = length rows" using says by (rule list_all2_lengthD)
  have row: "row_says C (svs ! e) ?row" using says e len by (simp add: list_all2_conv_all_nth)
  have drop: "drop e rows = ?row # drop (Suc e) rows" "drop e svs = svs ! e # drop (Suc e) svs"
    using e len by (simp_all add: Cons_nth_drop_Suc)
  let ?rest = "footer_of (map length ?row) @ concat (map row_event (drop (Suc e) rows)) @ footer pf"
  have view: "view = pre @ row_event ?row @ concat (map row_event (drop (Suc e) rows)) @ footer pf"
    using Suc.prems(4) by (simp add: drop)
  then have view': "view = pre @ concat (drop 0 ?row) @ ?rest" by (simp add: row_event_def)
  have sz: "event_sizes C view pf e (length pre) = Inr (map length ?row)"
    using row Suc.prems(5) e unfolding view by (intro event_sizes_row) (simp_all add: row_says_def)
  have sc0: "scanned C ids rows e 0 (st\<lparr>sn_service := 0\<rparr>)" and off0: "sn_offset (st\<lparr>sn_service := 0\<rparr>) = length pre"
    using Suc.prems(2,3) by (simp_all add: scanned_cong [of "st\<lparr>sn_service := 0\<rparr>" st])
  obtain cs st1 where cs: "scan_row C ids view e 0 (map length ?row) (st\<lparr>sn_service := 0\<rparr>) = Inr (cs, st1)"
    "length cs = ec_n_smd_files C" "\<forall>j<length cs. cell_found C ids view rows e j (cs ! j)"
    "scanned C ids rows e (ec_n_smd_files C) st1" "sn_offset st1 = length pre + length (concat ?row)"
    "sn_service st1 = (if \<exists>d\<in>set ?row. d \<noteq> [] then svs ! e else sn_service (st\<lparr>sn_service := 0\<rparr>))"
    using scan_row_run [OF row e names sc0 zero_le view' off0] unfolding drop0 diff_zero add_0 by (elim exE conjE) (rule that)
  have sv: "sn_service st1 = svs ! e" using cs(6) row by (simp add: row_says_def)
  have flen: "length (row_event ?row) = length (concat ?row) + n_bytes * (ec_n_smd_files C + 1)"
    using row by (simp add: row_event_def row_says_def length_footer_of mult.commute)
  let ?st = "st1\<lparr>sn_offset := sn_offset st1 + n_bytes * (ec_n_smd_files C + 1)\<rparr>"
  have sc1: "scanned C ids rows (Suc e) 0 ?st"
    by (subst scanned_cong [of _ st1]) (simp_all add: scanned_next_row [OF cs(4)])
  have off1: "sn_offset ?st = length (pre @ row_event ?row)" using cs(5) flen by simp
  have view1: "view = (pre @ row_event ?row) @ concat (map row_event (drop (Suc e) rows)) @ footer pf" using view by simp
  have n: "n = length rows - Suc e" "Suc e \<le> length rows" using Suc.hyps(2) e by simp_all
  have sizes: "\<forall>j. Suc e \<le> j \<and> j < length rows \<longrightarrow> get_size j pf = Inr (length (row_event (rows ! j)))" using Suc.prems(5) by simp
  obtain cells st' where ih: "scan_events C ids view pf (length rows - Suc e) (Suc e) ?st = Inr (zip cells (drop (Suc e) svs), st')"
    "length cells = length rows - Suc e"
    "\<forall>j<length cells. length (cells ! j) = ec_n_smd_files C
       \<and> (\<forall>i<ec_n_smd_files C. cell_found C ids view rows (Suc e + j) i (cells ! j ! i))"
    "scanned C ids rows (length rows) 0 st'"
    using Suc.hyps(1) [OF n sc1 off1 view1 sizes] by blast
  have more: "sn_offset st < length view - length (footer pf)"
    using Suc.prems(3) flen unfolding view by (simp add: n_bytes_def)
  have "length rows - e = Suc (length rows - Suc e)" using e by simp
  then have "scan_events C ids view pf (length rows - e) e st = Inr (zip (cs # cells) (drop e svs), st')"
    using more sz cs(1) ih(1) sv Suc.prems(3) by (simp add: drop)
  moreover have "length (((cs # cells) ! j)) = ec_n_smd_files C
      \<and> (\<forall>i<ec_n_smd_files C. cell_found C ids view rows (e + j) i ((cs # cells) ! j ! i))" if "j < length (cs # cells)" for j
    using cs(2,3) ih(3) that by (cases j) simp_all
  ultimately show ?case using ih(2,4) e by (intro exI [of _ "cs # cells"] exI [of _ st']) auto
qed

section \<open>The events\<close>

lemma places_goodD:
  assumes "places_good C fc ids fds svs rows" and "i < ec_n_smd_files C" "e < length rows" and "bd_place C i (rows ! e ! i) = Some (off, sz)"
  shows "off + sz \<le> length (fc (open_file C ids fds rows e i))"
    and "x < e \<Longrightarrow> svs ! x \<noteq> TransitionId_L1Accept \<Longrightarrow> \<forall>y. x < y \<and> y < e \<longrightarrow> bd_place C i (rows ! y ! i) = None \<Longrightarrow> off \<noteq> named_end C rows x i"
  using assms by (simp_all add: places_good_def)

lemma em_init_batch:
  assumes g: "rows \<noteq> []" "sizes_ok (map length (map row_event rows))" "list_all2 (row_says C) svs rows" "names_agree C ids rows"
  shows "\<exists>s. em_init C fds ids (batch_of (map row_event rows)) = Inr s \<and> em_services s = svs \<and> length (em_rows s) = length rows
    \<and> (\<forall>e<length rows. \<forall>i<ec_n_smd_files C. cell_found C ids (batch_of (map row_event rows)) rows e i (em_rows s ! e ! i))
    \<and> (\<forall>x<length rows. \<forall>j<ec_n_smd_files C. \<forall>cid name. announced C ids j (rows ! x ! j) = Some (cid, name)
        \<longrightarrow> map_of (em_chunkinfo s) (j, cid) = Some name)"
proof -
  let ?foot = "footer_of (map length (map row_event rows))"
  let ?view = "concat (map row_event rows) @ ?foot"
  let ?pf = "\<lparr>n_packets = length rows, footer = ?foot, pf_view = Some ?view\<rparr>"
  have view: "batch_of (map row_event rows) = ?view" using g(1) by (simp add: batch_of_def)
  have init: "pf_init 0 (Some ?view) = Inr ?pf" using pf_init_view [OF g(2)] by simp
  have sizes: "\<forall>j. 0 \<le> j \<and> j < length rows \<longrightarrow> get_size j ?pf = Inr (length (row_event (rows ! j)))"
    using get_size_footer_of [OF g(2), of ?pf] by simp
  have sc: "scanned C ids rows 0 0 scan_init" by (simp add: scanned_def scan_init_def)
  obtain cells st where run: "scan_events C ids ?view ?pf (length rows) 0 scan_init = Inr (zip cells svs, st)" "length cells = length rows"
    "\<forall>j<length cells. length (cells ! j) = ec_n_smd_files C
       \<and> (\<forall>i<ec_n_smd_files C. cell_found C ids ?view rows j i (cells ! j ! i))"
    "scanned C ids rows (length rows) 0 st"
  proof -
    have "sn_offset scan_init = length ([] :: bytes)" by (simp add: scan_init_def)
    moreover have "?view = [] @ concat (map row_event (drop 0 rows)) @ footer ?pf" by simp
    ultimately show thesis
      using scan_events_run [OF g(3,4) zero_le sc _ _ sizes, of "[]" ?view] that unfolding drop0 diff_zero add_0 by blast
  qed
  have "length svs = length rows" using g(3) by (rule list_all2_lengthD)
  then have zip: "map fst (zip cells svs) = cells" "map snd (zip cells svs) = svs" using run(2) by simp_all
  show ?thesis
  proof (intro exI conjI)
    let ?s = "\<lparr>em_view = ?view, em_rows = cells, em_services = svs, em_chunkinfo = sn_info st,
                    em_chunk_indices = (\<lambda>_. 0), em_bufs = (\<lambda>_. []), em_buf_offsets = (\<lambda>_. 0), em_i_evt = 0,
                    em_failed = False, em_fds = fds, em_chunk_ids = ids, em_reads = 0, em_env = []\<rparr>"
    show "em_init C fds ids (batch_of (map row_event rows)) = Inr ?s"
      unfolding view em_init_def init by (simp only: sum.case prod.case packet_footer.simps run(1) zip)
    show "\<forall>e<length rows. \<forall>i<ec_n_smd_files C. cell_found C ids (batch_of (map row_event rows)) rows e i (em_rows ?s ! e ! i)"
      unfolding view using run(2,3) by simp
    show "\<forall>x<length rows. \<forall>j<ec_n_smd_files C. \<forall>cid name. announced C ids j (rows ! x ! j) = Some (cid, name)
        \<longrightarrow> map_of (em_chunkinfo ?s) (j, cid) = Some name"
      using run(4) unfolding scanned_def by simp
  qed (simp_all add: run(2))
qed

text \<open>The bookkeeping of a batch whose cells are found agrees with what its dgrams name.\<close>

lemma found_said:
  assumes "row_says C sv (rows ! e)" and "i < ec_n_smd_files C" and "cell_found C ids view rows e i c"
  shows "reads_big C i \<Longrightarrow> sv \<noteq> TransitionId_L1Accept \<Longrightarrow> ce_cutoff c \<and> ce_bd_size c = 0"
    and "reads_big C i \<Longrightarrow> sv = TransitionId_L1Accept \<Longrightarrow> ce_bd_size c = 0 \<longleftrightarrow> rows ! e ! i = []"
    and "sv \<noteq> TransitionId_L1Accept \<or> \<not> reads_big C i \<Longrightarrow> bd_place C i (rows ! e ! i) = None"
    and "rows ! e ! i = [] \<Longrightarrow> \<not> ce_cutoff c \<and> ce_bd_size c = 0"
    and "announced C ids i (rows ! e ! i) = Some (cid, name) \<Longrightarrow> sv \<noteq> TransitionId_L1Accept \<and> cid \<noteq> 0 \<and> ce_new_chunk c = cid"
    and "announced C ids i (rows ! e ! i) = None \<Longrightarrow> ce_new_chunk c = 0"
proof -
  have len: "length (rows ! e) = ec_n_smd_files C" using assms(1) by (simp add: row_says_def)
  have sv: "map_option di_service (said C i (rows ! e ! i)) = Some sv" if "rows ! e ! i \<noteq> []"
    using assms(1,2) that len by (simp add: row_says_def)
  show pl: "bd_place C i (rows ! e ! i) = None" if "sv \<noteq> TransitionId_L1Accept \<or> \<not> reads_big C i"
  proof (cases "rows ! e ! i = []")
    case False
    then show ?thesis using sv that by (auto simp: bd_place_def)
  qed (simp add: place_said)
  show "ce_cutoff c \<and> ce_bd_size c = 0" if "reads_big C i" "sv \<noteq> TransitionId_L1Accept"
    using pl [OF disjI1] that assms len by (simp add: cell_found_def Let_def row_says_def)
  show "\<not> ce_cutoff c \<and> ce_bd_size c = 0" if "rows ! e ! i = []"
    using that assms(3) by (simp add: cell_found_def Let_def place_said)
  show "ce_bd_size c = 0 \<longleftrightarrow> rows ! e ! i = []" if "reads_big C i" "sv = TransitionId_L1Accept"
  proof (cases "rows ! e ! i = []")
    case True
    then show ?thesis using assms(3) by (simp add: cell_found_def Let_def place_said)
  next
    case False
    have "\<exists>off sz. bd_place C i (rows ! e ! i) = Some (off, sz) \<and> 0 < off \<and> 0 < sz"
      using False that assms(1,2) len by (simp add: row_says_def)
    then obtain off sz where "bd_place C i (rows ! e ! i) = Some (off, sz)" "0 < sz" by blast
    then show ?thesis using assms(3) False by (simp add: cell_found_def Let_def)
  qed
  show "ce_new_chunk c = 0" if "announced C ids i (rows ! e ! i) = None"
    using that assms(3) by (simp add: cell_found_def Let_def)
  show "sv \<noteq> TransitionId_L1Accept \<and> cid \<noteq> 0 \<and> ce_new_chunk c = cid" if "announced C ids i (rows ! e ! i) = Some (cid, name)"
  proof -
    have "rows ! e ! i \<noteq> []" using that by (auto simp: place_said)
    then show ?thesis using sv that assms(3)
      by (auto simp: announced_def cell_found_def Let_def TransitionId_L1Accept_def TransitionId_Enable_def
          split: option.splits if_splits list.splits)
  qed
qed

text \<open>The columns are in order, and the reference of \<^verbatim>\<open>EventManagerFacts\<close> is what the dgrams name.\<close>

lemma named_end_last:
  assumes "named_end C rows e i = off" and "0 < off"
  shows "\<exists>p<e. \<exists>o' z. bd_place C i (rows ! p ! i) = Some (o', z) \<and> off = o' + z \<and> (\<forall>x. p < x \<and> x < e \<longrightarrow> bd_place C i (rows ! x ! i) = None)"
  using assms
proof (induction e)
  case (Suc e)
  show ?case
  proof (cases "bd_place C i (rows ! e ! i)")
    case None
    then obtain p o' z where "p < e" "bd_place C i (rows ! p ! i) = Some (o', z)" "off = o' + z"
      "\<forall>x. p < x \<and> x < e \<longrightarrow> bd_place C i (rows ! x ! i) = None"
      using Suc by auto
    then show ?thesis using None by (intro exI [of _ p]) (auto simp: less_Suc_eq)
  next
    case (Some q)
    then show ?thesis using Suc.prems by (intro exI [of _ e]) (auto split: prod.splits)
  qed
qed simp

lemma named_end_kept:
  "x \<le> e \<Longrightarrow> \<forall>y. x \<le> y \<and> y < e \<longrightarrow> bd_place C i (rows ! y ! i) = None \<Longrightarrow> named_end C rows e i = named_end C rows x i"
  by (induction e) (auto simp: le_Suc_eq)

definition scan_found where
  "scan_found C fc ids fds svs rows view s \<longleftrightarrow>
     batch_good C fc ids fds svs rows \<and> em_services s = svs \<and> length (em_rows s) = length rows
     \<and> (\<forall>e<length rows. \<forall>i<ec_n_smd_files C. cell_found C ids view rows e i (em_rows s ! e ! i))
     \<and> (\<forall>x<length rows. \<forall>j<ec_n_smd_files C. \<forall>cid name. announced C ids j (rows ! x ! j) = Some (cid, name)
        \<longrightarrow> map_of (em_chunkinfo s) (j, cid) = Some name)"

lemma scan_foundD:
  assumes "scan_found C fc ids fds svs rows view s"
  shows "batch_good C fc ids fds svs rows" "length (em_rows s) = length rows" "places_good C fc ids fds svs rows" "preads C fc"
    "e < length rows \<Longrightarrow> i < ec_n_smd_files C \<Longrightarrow> cell_found C ids view rows e i (em_rows s ! e ! i)"
    "x < length rows \<Longrightarrow> j < ec_n_smd_files C \<Longrightarrow> announced C ids j (rows ! x ! j) = Some (cid, name) \<Longrightarrow>
      map_of (em_chunkinfo s) (j, cid) = Some name"
    "e < length rows \<Longrightarrow> row_says C (svs ! e) (rows ! e)" "length svs = length rows"
  using assms by (simp_all add: scan_found_def batch_good_def list_all2_conv_all_nth)

lemma fd_named:
  assumes sf: "scan_found C fc ids fds svs rows view s" and i: "i < ec_n_smd_files C"
  shows "e \<le> length rows \<Longrightarrow> fd_at (em_rows s) svs (em_chunkinfo s) fds e i = open_file C ids fds rows e i"
proof (induction e)
  case (Suc e)
  then have e: "e < length rows" by simp
  note f = found_said [OF scan_foundD(7) [OF sf e] i scan_foundD(5) [OF sf e i]]
  show ?case
  proof (cases "announced C ids i (rows ! e ! i)")
    case None
    then show ?thesis using f(6) Suc by simp
  next
    case (Some p)
    obtain cid name where "p = (cid, name)" by fastforce
    then show ?thesis using f(5) [of cid name] scan_foundD(6) [OF sf e i, of cid name] Some Suc by (simp add: new_fd_def)
  qed
qed simp

lemma has_place:
  assumes sf: "scan_found C fc ids fds svs rows view s" and e: "e < length rows" and i: "i < ec_n_smd_files C" and rf: "reads_big C i"
  shows "has (em_rows s) svs i e \<longleftrightarrow> bd_place C i (rows ! e ! i) \<noteq> None"
proof -
  have says: "row_says C (svs ! e) (rows ! e)" by (rule scan_foundD(7) [OF sf e])
  note f = found_said [OF says i scan_foundD(5) [OF sf e i]]
  show ?thesis
  proof (cases "svs ! e = TransitionId_L1Accept")
    case True
    have "bd_place C i (rows ! e ! i) \<noteq> None" if "rows ! e ! i \<noteq> []"
      using says i rf True that by (auto simp: row_says_def)
    then show ?thesis using f(2) [OF rf True] True place_said(2) [of C i] by (cases "rows ! e ! i = []") (auto simp: has_def)
  next
    case False
    then show ?thesis using f(3) by (simp add: has_def)
  qed
qed

lemma found_col:
  assumes sf: "scan_found C fc ids fds svs rows view s" and i: "i < ec_n_smd_files C" and rf: "reads_big C i"
  shows "col_ok (em_rows s) svs i"
proof -
  have bd: "bd_place C i (rows ! e ! i) = Some (o', z) \<Longrightarrow> ce_bd_offset (em_rows s ! e ! i) = o' \<and> ce_bd_size (em_rows s ! e ! i) = z
      \<and> (is_cut (em_rows s) i e \<or> o' = named_end C rows e i)" if "e < length rows" for e o' z
    using scan_foundD(5) [OF sf that i] by (simp add: cell_found_def is_cut_def Let_def)
  have "\<exists>p<e. has (em_rows s) svs i p
      \<and> (\<forall>x. p < x \<and> x < e \<longrightarrow> svs ! x = TransitionId_L1Accept \<and> ce_bd_size (em_rows s ! x ! i) = 0)
      \<and> ce_bd_offset (em_rows s ! e ! i) = ce_bd_offset (em_rows s ! p ! i) + ce_bd_size (em_rows s ! p ! i)"
    if e: "e < length rows" "has (em_rows s) svs i e" "\<not> is_cut (em_rows s) i e" for e
  proof -
    obtain o' z where pl: "bd_place C i (rows ! e ! i) = Some (o', z)" using has_place [OF sf e(1) i rf] e(2) by auto
    have off: "named_end C rows e i = o'" using bd [OF e(1) pl] e(3) by simp
    have "svs ! e = TransitionId_L1Accept" "rows ! e ! i \<noteq> []" using e(2) pl place_said(1) [OF pl] by (simp_all add: has_def)
    then have "0 < o'" using scan_foundD(7) [OF sf e(1)] i rf pl by (auto simp: row_says_def)
    then obtain p o1 z1 where p: "p < e" "bd_place C i (rows ! p ! i) = Some (o1, z1)" "o' = o1 + z1"
      "\<forall>x. p < x \<and> x < e \<longrightarrow> bd_place C i (rows ! x ! i) = None"
      using named_end_last [OF off] by blast
    have "svs ! x = TransitionId_L1Accept \<and> ce_bd_size (em_rows s ! x ! i) = 0" if x: "p < x" "x < e" for x
    proof -
      have none: "\<forall>y. x \<le> y \<and> y < e \<longrightarrow> bd_place C i (rows ! y ! i) = None" using p(4) x(1) by auto
      have "svs ! x = TransitionId_L1Accept"
      proof (rule ccontr)
        assume "svs ! x \<noteq> TransitionId_L1Accept"
        then have "o' \<noteq> named_end C rows x i"
          using none x(2) by (intro places_goodD(2) [OF scan_foundD(3) [OF sf] i e(1) pl]) simp_all
        moreover have "named_end C rows e i = named_end C rows x i" using named_end_kept [OF _ none] x(2) by simp
        ultimately show False using off by simp
      qed
      moreover have "\<not> has (em_rows s) svs i x" using has_place [OF sf _ i rf, of x] none x e(1) by simp
      ultimately show ?thesis by (simp add: has_def)
    qed
    then show ?thesis
      using p(1-3) bd [OF _ p(2)] bd [OF e(1) pl] has_place [OF sf _ i rf, of p] e(1) by (intro exI [of _ p]) auto
  qed
  moreover have "is_cut (em_rows s) i e" if "e < length rows" "svs ! e \<noteq> TransitionId_L1Accept" for e
    using found_said(1) [OF scan_foundD(7) [OF sf that(1)] i scan_foundD(5) [OF sf that(1) i] rf that(2)] by (simp add: is_cut_def)
  moreover have "\<not> is_cut (em_rows s) i e"
    if "e < length rows" "svs ! e = TransitionId_L1Accept" "ce_bd_size (em_rows s ! e ! i) = 0" for e
  proof -
    note f = found_said [OF scan_foundD(7) [OF sf that(1)] i scan_foundD(5) [OF sf that(1) i]]
    show ?thesis using f(2) [OF rf that(2)] f(4) that(3) by (simp add: is_cut_def)
  qed
  ultimately show ?thesis by (simp add: col_ok_def scan_foundD(2) [OF sf])
qed

lemma found_batch_ok:
  assumes sf: "scan_found C fc ids fds svs rows view s"
  shows "batch_ok C fc (em_rows s) svs (em_chunkinfo s) fds"
proof -
  have "\<forall>n f sz off. ec_pread C n f sz off = take sz (drop off (fc f))"
    using scan_foundD(4) [OF sf] unfolding preads_def by blast
  moreover have "map_of (em_chunkinfo s) (i, ce_new_chunk (em_rows s ! e ! i)) \<noteq> None"
    if n: "i < ec_n_smd_files C" "e < length rows" "ce_new_chunk (em_rows s ! e ! i) \<noteq> 0" for i e
  proof -
    note f = found_said [OF scan_foundD(7) [OF sf n(2)] n(1) scan_foundD(5) [OF sf n(2,1)]]
    obtain cid name where "announced C ids i (rows ! e ! i) = Some (cid, name)" using f(6) n(3) by fastforce
    then show ?thesis using f(5) scan_foundD(6) [OF sf n(2,1)] by simp
  qed
  moreover have "ce_bd_offset (em_rows s ! e ! i) + ce_bd_size (em_rows s ! e ! i)
      \<le> length (fc (fd_at (em_rows s) svs (em_chunkinfo s) fds e i))"
    if h: "i < ec_n_smd_files C" "reads_big C i" "e < length rows" "has (em_rows s) svs i e" for i e
  proof -
    obtain o' z where pl: "bd_place C i (rows ! e ! i) = Some (o', z)" using has_place [OF sf h(3,1,2)] h(4) by auto
    have "o' + z \<le> length (fc (open_file C ids fds rows e i))"
      by (rule places_goodD(1) [OF scan_foundD(3) [OF sf] h(1,3) pl])
    moreover have "ce_bd_offset (em_rows s ! e ! i) = o'" "ce_bd_size (em_rows s ! e ! i) = z"
      using scan_foundD(5) [OF sf h(3,1)] pl by (simp_all add: cell_found_def Let_def)
    ultimately show ?thesis using fd_named [OF sf h(1), of e] h(3) by simp
  qed
  ultimately show ?thesis
    using found_col [OF sf] scan_foundD(8) [OF sf] unfolding batch_ok_def scan_foundD(2) [OF sf] reads_big_def by blast
qed

lemma found_direct:
  assumes sf: "scan_found C fc ids fds svs rows view s" and e: "e < length rows"
  shows "direct_event C fc view (em_rows s) svs (em_chunkinfo s) fds e = named_event C fc ids fds rows e"
proof -
  have "direct_dgram C fc view (em_rows s) svs (em_chunkinfo s) fds e i = (case bd_place C i (rows ! e ! i) of
            Some (off, sz) \<Rightarrow> Some (slice off (off + sz) (fc (open_file C ids fds rows e i)))
          | None \<Rightarrow> if rows ! e ! i = [] then None else Some (rows ! e ! i))" if i: "i < ec_n_smd_files C" for i
  proof -
    note f = found_said [OF scan_foundD(7) [OF sf e] i scan_foundD(5) [OF sf e i]]
    let ?c = "em_rows s ! e ! i"
    have sm: "ce_smd_size ?c = length (rows ! e ! i)"
        "slice (ce_smd_offset ?c) (ce_smd_offset ?c + length (rows ! e ! i)) view = rows ! e ! i"
      using scan_foundD(5) [OF sf e i] by (simp_all add: cell_found_def Let_def)
    show ?thesis
    proof (cases "svs ! e \<noteq> TransitionId_L1Accept \<or> \<not> reads_big C i")
      case True
      then show ?thesis using f(3) sm by (auto simp: direct_dgram_def reads_big_def Let_def)
    next
      case False
      then have rf: "reads_big C i" "svs ! e = TransitionId_L1Accept" by simp_all
      show ?thesis
      proof (cases "bd_place C i (rows ! e ! i)")
        case None
        then have "ce_bd_size ?c = 0" using has_place [OF sf e i rf(1)] rf(2) by (simp add: has_def)
        then show ?thesis using None f(2) [OF rf] rf by (simp add: direct_dgram_def reads_big_def)
      next
        case (Some p)
        obtain o' z where p: "p = (o', z)" by fastforce
        then have "ce_bd_offset ?c = o'" "ce_bd_size ?c = z" using scan_foundD(5) [OF sf e i] Some by (simp_all add: cell_found_def Let_def)
        moreover have "0 < ce_bd_size ?c" using has_place [OF sf e i rf(1)] Some by (simp add: has_def)
        ultimately show ?thesis using Some p rf fd_named [OF sf i, of e] e by (simp add: direct_dgram_def reads_big_def)
      qed
    qed
  qed
  then show ?thesis by (simp add: direct_event_def named_event_def)
qed

lemma em_batch_named:
  assumes good: "batch_good C fc ids fds svs rows"
  shows "\<exists>s. em_init C fds ids (batch_of (map row_event rows)) = Inr s \<and> length (em_rows s) = length rows
    \<and> batch_ok C fc (em_rows s) (em_services s) (em_chunkinfo s) fds
    \<and> (\<forall>e<length rows. direct_event C fc (batch_of (map row_event rows)) (em_rows s) (em_services s) (em_chunkinfo s) fds e
         = named_event C fc ids fds rows e)"
proof -
  have "rows \<noteq> []" "sizes_ok (map length (map row_event rows))" "list_all2 (row_says C) svs rows" "names_agree C ids rows"
    using good by (simp_all add: batch_good_def)
  then obtain s where s: "em_init C fds ids (batch_of (map row_event rows)) = Inr s" "em_services s = svs" "length (em_rows s) = length rows"
    "\<forall>e<length rows. \<forall>i<ec_n_smd_files C. cell_found C ids (batch_of (map row_event rows)) rows e i (em_rows s ! e ! i)"
    "\<forall>x<length rows. \<forall>j<ec_n_smd_files C. \<forall>cid name. announced C ids j (rows ! x ! j) = Some (cid, name)
        \<longrightarrow> map_of (em_chunkinfo s) (j, cid) = Some name"
    using em_init_batch by blast
  then have sf: "scan_found C fc ids fds svs rows (batch_of (map row_event rows)) s" using good by (simp add: scan_found_def)
  then show ?thesis using s(1-3) found_batch_ok [OF sf] found_direct [OF sf] by (intro exI [of _ s]) simp
qed

lemma em_all_named:
  assumes good: "batch_good C fc ids fds svs rows"
    and serv: "\<forall>e<length rows. \<exists>v. first_service C 0 (named_event C fc ids fds rows e) = Inr v" and "length rows < k"
  shows "\<exists>s t. em_init C fds ids (batch_of (map row_event rows)) = Inr s
    \<and> em_all C k s = (Inr (map (named_event C fc ids fds rows) [0..<length rows]), t)"
proof -
  let ?view = "batch_of (map row_event rows)"
  obtain s where s: "em_init C fds ids ?view = Inr s" "length (em_rows s) = length rows"
    "batch_ok C fc (em_rows s) (em_services s) (em_chunkinfo s) fds"
    "\<forall>e<length rows. direct_event C fc ?view (em_rows s) (em_services s) (em_chunkinfo s) fds e = named_event C fc ids fds rows e"
    using em_batch_named [OF good] by blast
  have "\<exists>t. em_all C k s = (Inr (map (direct_event C fc ?view (em_rows s) (em_services s) (em_chunkinfo s) fds) [0..<length (em_rows s)]), t)"
    using em_batch_run [OF s(1,3)] s(2,4) serv assms(3) by simp
  moreover have "map (direct_event C fc ?view (em_rows s) (em_services s) (em_chunkinfo s) fds) [0..<length (em_rows s)]
      = map (named_event C fc ids fds rows) [0..<length rows]"
    using s(2,4) by simp
  ultimately show ?thesis using s(1) by simp
qed

end
