(* ===== verification/BigdataProps.thy ===== *)
theory BigdataProps
  imports EmBatch
begin

text \<open>
  The properties of the bigdata side of psana (\<^verbatim>\<open>psana/psana/psexp\<close>), each followed
  by an application to a small batch. The dgrams of the sample hold their size, their service and
  the place of the bigdata dgram in their first four bytes.
\<close>

section \<open>A small batch\<close>

definition parse0 :: "unit \<Rightarrow> bytes \<Rightarrow> nat \<Rightarrow> pyexc + dginfo" where
  "parse0 config view off =
     (let at = (\<lambda>k. if off + k < length view then unat (view ! (off + k)) else 0)
      in Inr \<lparr>di_size = at 0, di_service = at 1, di_smdinfo = (if at 0 = 4 then Some (at 2, at 3) else None), di_chunkinfo = []\<rparr>)"

definition bigfile0 :: bytes where
  "bigfile0 = [0, 3, 12, 9, 2, 12, 0, 2, 12]"

definition emconf0 :: "unit em_conf" where
  "emconf0 = \<lparr>ec_n_smd_files = 1, ec_configs = (\<lambda>_. ()), ec_parse = parse0, ec_use_smds = (\<lambda>_. False), ec_n_files = 1,
     ec_chunksize = 100, ec_max_retries = 0, ec_pread = (\<lambda>n f sz off. take sz (drop off bigfile0))\<rparr>"

text \<open>Two events that lie one behind the other, a transition, and a third event.\<close>

definition rows0 :: "bytes list list" where
  "rows0 = [[[4, 12, 1, 3]], [[4, 12, 4, 2]], [[2, 10]], [[4, 12, 7, 2]]]"

abbreviation named0 :: "nat \<Rightarrow> bytes option list" where
  "named0 \<equiv> named_event emconf0 (\<lambda>_. bigfile0) (\<lambda>_. 0) (\<lambda>_. ''xtc2'') rows0"

lemma parse0_anywhere:
  "parse0 c (pre @ (4 # v # o' # z # d) @ post) (length pre)
     = Inr \<lparr>di_size = 4, di_service = unat v, di_smdinfo = Some (unat o', unat z), di_chunkinfo = []\<rparr>"
  "parse0 c (pre @ (2 # v # d) @ post) (length pre)
     = Inr \<lparr>di_size = 2, di_service = unat v, di_smdinfo = None, di_chunkinfo = []\<rparr>"
  by (simp_all add: parse0_def Let_def nth_append)

lemma said0:
  "said emconf0 i [4, v, o', z] = Some \<lparr>di_size = 4, di_service = unat v, di_smdinfo = Some (unat o', unat z), di_chunkinfo = []\<rparr>"
  "said emconf0 i [2, v] = Some \<lparr>di_size = 2, di_service = unat v, di_smdinfo = None, di_chunkinfo = []\<rparr>"
  using parse0_anywhere(1) [of "()" "[]" v o' z "[]" "[]"] parse0_anywhere(2) [of "()" "[]" v "[]" "[]"]
  by (simp_all add: said_def emconf0_def)

lemma reads0: "reads_same emconf0 i [4, v, o', z]" "reads_same emconf0 i [2, v]"
  using parse0_anywhere(1) [of "()" _ v o' z "[]"] parse0_anywhere(2) [of "()" _ v "[]"]
  unfolding reads_same_def said0 by (simp_all add: emconf0_def)

lemma place0:
  "bd_place emconf0 i [4, 12, o', z] = Some (unat o', unat z)" "bd_place emconf0 i [2, v] = None" "announced emconf0 ids i [4, 12, o', z] = None"
  "announced emconf0 ids i [2, 10] = None"
  by (simp_all add: bd_place_def announced_def said0 reads_big_def TransitionId_L1Accept_def TransitionId_Enable_def) (simp_all add: emconf0_def)

lemma batch0_good: "batch_good emconf0 (\<lambda>_. bigfile0) (\<lambda>_. 0) (\<lambda>_. ''xtc2'') [12, 12, 10, 12] rows0"
proof -
  have conf: "ec_n_smd_files emconf0 = 1" "reads_big emconf0 i" for i by (simp_all add: emconf0_def reads_big_def)
  have "sizes_ok (map length (map row_event rows0))" by (simp add: rows0_def row_event_def sizes_ok_def footer_of_def)
  moreover have "list_all2 (row_says emconf0) [12, 12, 10, 12] rows0"
    by (simp add: rows0_def row_says_def conf reads0 place0 said0 sizes_ok_def TransitionId_L1Accept_def)
  moreover have "preads emconf0 (\<lambda>_. bigfile0)" by (simp add: preads_def emconf0_def)
  moreover have "places_good emconf0 (\<lambda>_. bigfile0) (\<lambda>_. 0) (\<lambda>_. ''xtc2'') [12, 12, 10, 12] rows0"
    unfolding places_good_def conf by (simp add: rows0_def place0 bigfile0_def less_Suc_eq TransitionId_L1Accept_def all_conj_distrib)
  moreover have "names_agree emconf0 (\<lambda>_. 0) rows0"
    unfolding names_agree_def conf by (simp add: rows0_def place0 less_Suc_eq)
  ultimately show ?thesis by (simp add: batch_good_def rows0_def)
qed

lemma named0_run: "map named0 [0..<length rows0] = [[Some [3, 12, 9]], [Some [2, 12]], [Some [2, 10]], [Some [2, 12]]]"
  by code_simp

lemma named0_services: "\<forall>e<length rows0. \<exists>v. first_service emconf0 0 (named0 e) = Inr v"
proof -
  have "map (\<lambda>e. isl (first_service emconf0 0 (named0 e))) [0..<4] = [False, False, False, False]" by code_simp
  moreover have "length rows0 = 4" by (simp add: rows0_def)
  ultimately show ?thesis by (auto simp: upt_rec numeral_eq_Suc less_Suc_eq isl_def) (metis sum.exhaust_sel)+
qed

section \<open>Bigdata\<close>

text \<open>
  C24. Reading bigdata in chunks is the same as reading each dgram where its smalldata says it lies.
  For a batch that is packed of the smalldata dgrams of its events, \<open>EventManager\<close> is made without
  error, and its iterator gives, event by event and file by file, the bytes of the bigdata file that
  is open at the event, at the offset and of the size in the \<open>smdinfo\<close> of the dgram; the smalldata
  dgram itself for a transition and for a file that keeps its data there; and nothing where the event
  has no dgram. The reader reads the same of a dgram wherever it lies, the dgrams of an event have one
  service, and a transition is in every file that is read. An L1Accept names a place within its file and
  not at its beginning; in the file a transition, or the change to a new file, lies between the bigdata
  before it and behind it, and a new file has one name. \<open>pread\<close> gives what it is asked for.
\<close>

theorem chunked_reads_equal_direct:
  assumes "batch_good C fc ids fds svs rows"
    and "\<forall>e<length rows. \<exists>v. first_service C 0 (named_event C fc ids fds rows e) = Inr v"
    and "length rows < k"
  shows "\<exists>s t. em_init C fds ids (batch_of (map row_event rows)) = Inr s
    \<and> em_all C k s = (Inr (map (named_event C fc ids fds rows) [0..<length rows]), t)"
  using em_all_named [OF assms] .

theorem chunked_reads_equal_direct_witness:
  "\<exists>s t. em_init emconf0 (\<lambda>_. ''xtc2'') (\<lambda>_. 0) (batch_of (map row_event rows0)) = Inr s
    \<and> em_all emconf0 5 s = (Inr [[Some [3, 12, 9]], [Some [2, 12]], [Some [2, 10]], [Some [2, 12]]], t)"
  using chunked_reads_equal_direct [OF batch0_good named0_services, of 5] unfolding named0_run by (simp add: rows0_def)

text \<open>
  \<open>EventManager._read\<close> with a \<open>pread\<close> that never returns more than it is asked
  for: it makes at least one call and at most one more than the retries, returns at most what was
  asked, and reports a failure unless it returns exactly that.
\<close>

theorem bd_read_bounds:
  assumes "\<forall>n f sz off. length (ec_pread C n f sz off) \<le> sz"
  shows "\<exists>chunk t. bd_read C fd sz off s = (Inr chunk, t) \<and> length chunk \<le> sz
    \<and> em_reads s < em_reads t \<and> em_reads t \<le> em_reads s + ec_max_retries C + 1
    \<and> (em_failed t \<or> length chunk = sz)"
  using read_loop_bounds [OF assms, where chunk = "[]" and sz = sz and req = sz and fd = fd and off = off
      and r = "ec_max_retries C" and n = "em_reads s"]
  by (auto simp: bd_read_def split: prod.splits)

theorem bd_read_bounds_witness:
  "\<exists>chunk t. bd_read emconf0 ''xtc2'' 20 4 s = (Inr chunk, t) \<and> length chunk \<le> 20
    \<and> em_reads s < em_reads t \<and> em_reads t \<le> em_reads s + ec_max_retries emconf0 + 1
    \<and> (em_failed t \<or> length chunk = 20)"
  by (rule bd_read_bounds) (simp add: emconf0_def)

end
