(* ===== verification/SmallServer.thy ===== *)
theory SmallServer
  imports Prelude "HOL-Library.Word"
begin

text \<open>
  The server of smalldata (\<^verbatim>\<open>psana/psana/smalldata.py\<close>): it receives batches of
  events, each a dict of dataset names and values, keeps the rows of each dataset in a cache and
  writes the cache to an HDF5 file when it is full. An aligned dataset has one row per event: what
  an event does not say is filled with a missing value, for the events before the dataset appears
  too. numpy and h5py are the parameter \<open>np\<close>.
\<close>

section \<open>Values\<close>

text \<open>
  The types of \<open>INT_TYPES\<close>, of \<open>FLOAT_TYPES\<close>, and any other; the elements of arrays,
  floats by their bits.
\<close>

datatype dtype = IntType string | FloatType string | OtherType string

datatype elem = EInt int | EFloat "64 word"

datatype sval = PyInt int | PyFloat "64 word" | NpArray dtype "nat list" "elem list" | PyOther

type_synonym event_dict = "(string \<times> sval) list"

text \<open>
  \<open>np_cast\<close> stores a number in a type, \<open>np_assign\<close> a value in the slot of an array of a
  type and a shape, \<open>np_empty\<close> is what is in a slot of \<open>np.empty\<close>, and \<open>h5_refuses\<close>
  says whether \<open>create_dataset\<close> raises, given the names that exist.
\<close>

record np =
  np_cast :: "dtype \<Rightarrow> elem \<Rightarrow> pyexc + elem"
  np_assign :: "dtype \<Rightarrow> nat list \<Rightarrow> sval \<Rightarrow> pyexc + elem list"
  np_empty :: "dtype \<Rightarrow> nat list \<Rightarrow> elem list"
  h5_refuses :: "string list \<Rightarrow> string \<Rightarrow> dtype \<Rightarrow> nat list \<Rightarrow> pyexc option"

definition MISSING_INT :: int where
  "MISSING_INT = -99999"

definition MISSING_FLOAT :: "64 word" where
  "MISSING_FLOAT = 0x7FF8000000000000"

definition UNALIGED_PREFIX :: string where
  "UNALIGED_PREFIX = ''unaligned_''"

definition is_unaligned :: "string \<Rightarrow> bool" where
  "is_unaligned dset_name = startswith (last (split_on CHR ''/'' dset_name)) UNALIGED_PREFIX"

definition get_missing_value :: "dtype \<Rightarrow> pyexc + elem" where
  "get_missing_value dtype =
     (case dtype of IntType t \<Rightarrow> Inr (EInt MISSING_INT) | FloatType t \<Rightarrow> Inr (EFloat MISSING_FLOAT)
      | OtherType t \<Rightarrow> Inl (ValueError (t @ '' :: Invalid num type for missing data'')))"

section \<open>The cache\<close>

record cache_array =
  ca_shape :: "nat list"
  ca_dtype :: dtype
  ca_data :: "elem list list"
  ca_n_events :: nat

definition cache_init :: "np \<Rightarrow> nat list \<Rightarrow> dtype \<Rightarrow> nat \<Rightarrow> cache_array" where
  "cache_init N shape dtype cache_size =
     \<lparr>ca_shape = shape, ca_dtype = dtype, ca_data = replicate cache_size (np_empty N dtype shape), ca_n_events = 0\<rparr>"

definition cache_append :: "np \<Rightarrow> sval \<Rightarrow> cache_array \<Rightarrow> pyexc + cache_array" where
  "cache_append N data c =
     (if ca_n_events c < length (ca_data c)
      then (case np_assign N (ca_dtype c) (ca_shape c) data of Inl e \<Rightarrow> Inl e
            | Inr row \<Rightarrow> Inr (c\<lparr>ca_data := (ca_data c)[ca_n_events c := row], ca_n_events := ca_n_events c + 1\<rparr>))
      else Inl IndexError)"

definition cache_reset :: "cache_array \<Rightarrow> cache_array" where
  "cache_reset c = c\<lparr>ca_n_events := 0\<rparr>"

section \<open>The server\<close>

record h5_dset =
  hd_dtype :: dtype
  hd_shape :: "nat list"
  hd_rows :: "elem list list"

record server =
  sv_filename :: "string option"
  sv_cache_size :: nat
  sv_callbacks :: "(event_dict \<Rightarrow> pyexc + event_dict) list"
  sv_dsets :: "(string \<times> dtype \<times> nat list) list"
  sv_cache :: "(string \<times> cache_array) list"
  sv_num_events_seen :: nat
  sv_file :: "(string \<times> h5_dset) list"
  sv_closed :: bool

definition server_init :: "string option \<Rightarrow> nat \<Rightarrow> (event_dict \<Rightarrow> pyexc + event_dict) list \<Rightarrow> server" where
  "server_init filename cache_size callbacks =
     \<lparr>sv_filename = filename, sv_cache_size = cache_size, sv_callbacks = callbacks, sv_dsets = [], sv_cache = [],
      sv_num_events_seen = 0, sv_file = [], sv_closed = False\<rparr>"

type_synonym 'a srv = "(server, 'a) eff"

text \<open>
  Writing the filled part of the cache behind the rows of the dataset. With an empty cache the
  slice \<open>[-0:]\<close> would be the whole dataset.
\<close>

definition write_to_file :: "string \<Rightarrow> cache_array \<Rightarrow> unit srv" where
  "write_to_file name c = (\<lambda>s.
     case map_of (sv_file s) name of
       None \<Rightarrow> (Inl (AttributeError ''shape''), s)
     | Some d \<Rightarrow>
         if ca_n_events c = 0 \<and> hd_rows d \<noteq> [] then (Inl TypeError, s)
         else (Inr (), s\<lparr>sv_file := AList.update name (d\<lparr>hd_rows := hd_rows d @ take (ca_n_events c) (ca_data c)\<rparr>) (sv_file s),
                         sv_cache := AList.update name (cache_reset c) (sv_cache s)\<rparr>))"

definition append_to_cache :: "np \<Rightarrow> string \<Rightarrow> sval \<Rightarrow> unit srv" where
  "append_to_cache N name data =
     ebind (eget (\<lambda>s. map_of (sv_cache s) name)) (\<lambda>found.
     ebind (case found of
              Some c \<Rightarrow> eret c
            | None \<Rightarrow>
                ebind (ebind (eget (\<lambda>s. dict_get (sv_dsets s) name)) elift) (\<lambda>(dtype, shape).
                ebind (eget (\<lambda>s. cache_init N shape dtype (sv_cache_size s))) (\<lambda>c.
                eseq (emod (\<lambda>s. s\<lparr>sv_cache := AList.update name c (sv_cache s)\<rparr>)) (eret c)))) (\<lambda>c.
     ebind (elift (cache_append N data c)) (\<lambda>c1.
     eseq (emod (\<lambda>s. s\<lparr>sv_cache := AList.update name c1 (sv_cache s)\<rparr>))
    (ebind (eget (\<lambda>s. ca_n_events c1 = sv_cache_size s)) (\<lambda>full.
     ewhen full (write_to_file name c1))))))"

definition backfill :: "np \<Rightarrow> string \<Rightarrow> nat \<Rightarrow> unit srv" where
  "backfill N name num_to_backfill =
     ebind (ebind (eget (\<lambda>s. dict_get (sv_dsets s) name)) elift) (\<lambda>(dtype, shape).
     ebind (elift (get_missing_value dtype)) (\<lambda>missing_value.
     ebind (elift (np_cast N dtype missing_value)) (\<lambda>x.
     efor (\<lambda>_. append_to_cache N name (NpArray dtype shape (replicate (prod_list shape) x))) [0..<num_to_backfill])))"

definition describe :: "sval \<Rightarrow> pyexc + dtype \<times> nat list" where
  "describe data =
     (case data of PyInt i \<Rightarrow> Inr (IntType ''i8'', []) | PyFloat f \<Rightarrow> Inr (FloatType ''f8'', [])
      | NpArray dtype shape els \<Rightarrow> if shape = [0] then Inl (ValueError ''illegal shape (0,)'') else Inr (dtype, shape)
      | PyOther \<Rightarrow> Inl TypeError)"

definition new_dset :: "np \<Rightarrow> string \<Rightarrow> sval \<Rightarrow> unit srv" where
  "new_dset N name data =
     ebind (elift (describe data)) (\<lambda>(dtype, shape).
     eseq (emod (\<lambda>s. s\<lparr>sv_dsets := AList.update name (dtype, shape) (sv_dsets s)\<rparr>))
    (ebind (eget (\<lambda>s. h5_refuses N (map fst (sv_file s)) name dtype shape)) (\<lambda>refused.
     ebind (case refused of Some e \<Rightarrow> eraise e | None \<Rightarrow> eret ()) (\<lambda>_.
     eseq (emod (\<lambda>s. s\<lparr>sv_file := AList.update name \<lparr>hd_dtype = dtype, hd_shape = shape, hd_rows = []\<rparr> (sv_file s)\<rparr>))
    (if is_unaligned name then eret ()
     else ebind (eget sv_num_events_seen) (backfill N name))))))"

text \<open>One item of an event; \<open>to_backfill\<close> loses the name, which must be in it.\<close>

definition handle_item :: "np \<Rightarrow> string \<times> sval \<Rightarrow> string list \<Rightarrow> string list srv" where
  "handle_item N item to_backfill =
     (case item of (name, data) \<Rightarrow>
        ebind (eget (\<lambda>s. map_of (sv_dsets s) name)) (\<lambda>found.
        ebind (if found = None then eseq (new_dset N name data) (eret to_backfill)
               else if name \<in> set to_backfill then eret (remove1 name to_backfill)
               else eraise (ValueError ''list.remove(x): x not in list'')) (\<lambda>left.
        eseq (append_to_cache N name data) (eret left))))"

fun run_callbacks :: "(event_dict \<Rightarrow> pyexc + event_dict) list \<Rightarrow> event_dict \<Rightarrow> pyexc + event_dict" where
  "run_callbacks [] ev = Inr ev"
| "run_callbacks (cb # cbs) ev = (case cb ev of Inl e \<Rightarrow> Inl e | Inr ev1 \<Rightarrow> run_callbacks cbs ev1)"

definition handle_event :: "np \<Rightarrow> event_dict \<Rightarrow> unit srv" where
  "handle_event N event_data_dict =
     ebind (ebind (eget (\<lambda>s. run_callbacks (sv_callbacks s) event_data_dict)) elift) (\<lambda>ev.
     ebind (eget sv_filename) (\<lambda>filename.
     eseq (ewhen (filename \<noteq> None)
            (ebind (eget (\<lambda>s. map fst (sv_dsets s))) (\<lambda>keys.
             ebind (efold (handle_item N) ev keys) (\<lambda>to_backfill.
             efor (\<lambda>name. ewhen (\<not> is_unaligned name) (backfill N name 1)) to_backfill))))
          (emod (\<lambda>s. s\<lparr>sv_num_events_seen := sv_num_events_seen s + 1\<rparr>))))"

definition handle :: "np \<Rightarrow> event_dict list \<Rightarrow> unit srv" where
  "handle N batch = efor (handle_event N) batch"

text \<open>Flushing the caches and closing the file.\<close>

definition server_done :: "unit srv" where
  "server_done =
     ebind (eget sv_filename) (\<lambda>filename.
       ewhen (filename \<noteq> None)
         (eseq (ebind (eget sv_cache) (efor (\<lambda>(name, c). ewhen (0 < ca_n_events c) (write_to_file name c))))
               (emod (\<lambda>s. s\<lparr>sv_closed := True\<rparr>))))"

text \<open>
  The loop over the messages of the clients: a list is a batch, \<open>done\<close> the end of a client.
  Without a further message it waits.
\<close>

datatype sd_msg = Batch "event_dict list" | DoneMsg

fun recv_loop :: "np \<Rightarrow> nat \<Rightarrow> sd_msg list \<Rightarrow> sd_msg list srv" where
  "recv_loop N 0 msgs = eret msgs"
| "recv_loop N (Suc k) [] = eraise Blocked"
| "recv_loop N (Suc k) (Batch b # msgs) = eseq (handle N b) (recv_loop N (Suc k) msgs)"
| "recv_loop N (Suc k) (DoneMsg # msgs) = recv_loop N k msgs"

end
