(* ===== verification/SmallServerFacts.thy ===== *)
theory SmallServerFacts
  imports SmallServer
begin

text \<open>
  The server of smalldata as a table: every dataset is a column, and an event adds a row to every
  aligned column. The rows of a column are those in the file and then those in the cache.
\<close>

section \<open>Columns\<close>

type_synonym column = "(dtype \<times> nat list) \<times> elem list list"
type_synonym table = "string \<Rightarrow> column option"

definition cached :: "nat \<Rightarrow> dtype \<times> nat list \<Rightarrow> cache_array option \<Rightarrow> elem list list \<Rightarrow> bool" where
  "cached sz k c rows \<longleftrightarrow> (case c of None \<Rightarrow> rows = []
     | Some c \<Rightarrow> ca_dtype c = fst k \<and> ca_shape c = snd k \<and> length (ca_data c) = sz \<and> ca_n_events c < sz
         \<and> rows = take (ca_n_events c) (ca_data c))"

definition holds :: "server \<Rightarrow> string \<Rightarrow> column option \<Rightarrow> bool" where
  "holds s name col \<longleftrightarrow> (case col of
       None \<Rightarrow> map_of (sv_dsets s) name = None \<and> map_of (sv_cache s) name = None \<and> map_of (sv_file s) name = None
     | Some (k, rows) \<Rightarrow> map_of (sv_dsets s) name = Some k
         \<and> (\<exists>d buf. map_of (sv_file s) name = Some d \<and> hd_dtype d = fst k \<and> hd_shape d = snd k \<and> rows = hd_rows d @ buf
              \<and> cached (sv_cache_size s) k (map_of (sv_cache s) name) buf))"

definition represents :: "server \<Rightarrow> table \<Rightarrow> bool" where
  "represents s tbl \<longleftrightarrow> 0 < sv_cache_size s \<and> distinct (map fst (sv_cache s)) \<and> distinct (map fst (sv_dsets s))
     \<and> (\<forall>name. holds s name (tbl name))"

text \<open>What stays the same when one column changes.\<close>

definition same_but :: "string \<Rightarrow> server \<Rightarrow> server \<Rightarrow> bool" where
  "same_but name s t \<longleftrightarrow> sv_filename t = sv_filename s \<and> sv_cache_size t = sv_cache_size s \<and> sv_callbacks t = sv_callbacks s
     \<and> sv_num_events_seen t = sv_num_events_seen s \<and> (\<forall>n. n \<noteq> name \<longrightarrow> map_of (sv_dsets t) n = map_of (sv_dsets s) n
         \<and> map_of (sv_cache t) n = map_of (sv_cache s) n \<and> map_of (sv_file t) n = map_of (sv_file s) n)"

definition same_head :: "server \<Rightarrow> server \<Rightarrow> bool" where
  "same_head s t \<longleftrightarrow> sv_filename t = sv_filename s \<and> sv_cache_size t = sv_cache_size s \<and> sv_callbacks t = sv_callbacks s
     \<and> sv_num_events_seen t = sv_num_events_seen s"

lemma same_head_trans: "same_head s t \<Longrightarrow> same_head t u \<Longrightarrow> same_head s u"
  by (simp add: same_head_def)

lemma same_head_refl [simp]: "same_head s s"
  by (simp add: same_head_def)

lemma holds_other: "same_but name s t \<Longrightarrow> n \<noteq> name \<Longrightarrow> holds t n col = holds s n col"
  by (cases col) (simp_all add: same_but_def holds_def split_beta)

lemma represents_upd:
  assumes "represents s tbl" and "same_but name s t" and "holds t name col"
    and "distinct (map fst (sv_cache t))" "distinct (map fst (sv_dsets t))"
  shows "represents t (tbl(name := col))"
  using assms holds_other [OF assms(2)] by (auto simp: represents_def same_but_def)

section \<open>Appending\<close>

text \<open>A cache that takes a row, with its row.\<close>

lemma cache_append_run:
  assumes "ca_n_events c < length (ca_data c)" and "np_assign N (ca_dtype c) (ca_shape c) v = Inr row"
  shows "cache_append N v c = Inr (c\<lparr>ca_data := (ca_data c)[ca_n_events c := row], ca_n_events := Suc (ca_n_events c)\<rparr>)"
    and "take (Suc (ca_n_events c)) ((ca_data c)[ca_n_events c := row]) = take (ca_n_events c) (ca_data c) @ [row]"
  using assms by (simp_all add: cache_append_def take_Suc_conv_app_nth)

text \<open>The append itself, on the cache of the dataset.\<close>

definition append_with :: "np \<Rightarrow> string \<Rightarrow> sval \<Rightarrow> cache_array \<Rightarrow> unit srv" where
  "append_with N name data c =
     ebind (elift (cache_append N data c)) (\<lambda>c1.
     eseq (emod (\<lambda>s. s\<lparr>sv_cache := AList.update name c1 (sv_cache s)\<rparr>))
    (ebind (eget (\<lambda>s. ca_n_events c1 = sv_cache_size s)) (\<lambda>full.
     ewhen full (write_to_file name c1))))"

lemma append_to_cache_with:
  assumes "map_of (sv_dsets s) name = Some (dtype, shape)"
  shows "append_to_cache N name v s = (case map_of (sv_cache s) name of
     Some c \<Rightarrow> append_with N name v c s
   | None \<Rightarrow> append_with N name v (cache_init N shape dtype (sv_cache_size s))
       (s\<lparr>sv_cache := AList.update name (cache_init N shape dtype (sv_cache_size s)) (sv_cache s)\<rparr>))"
  using assms by (simp add: append_to_cache_def append_with_def eff_simps dict_get_def split: option.splits)

lemma append_with_run:
  assumes c: "cached (sv_cache_size s) k (Some c) buf" and d: "map_of (sv_file s) name = Some d"
    "hd_dtype d = fst k" "hd_shape d = snd k" and row: "np_assign N (fst k) (snd k) v = Inr row"
    and dis: "distinct (map fst (sv_cache s))" and ds: "map_of (sv_dsets s) name = Some k"
  shows "\<exists>t. append_with N name v c s = (Inr (), t) \<and> same_but name s t \<and> sv_dsets t = sv_dsets s
    \<and> distinct (map fst (sv_cache t)) \<and> holds t name (Some (k, hd_rows d @ buf @ [row]))"
proof -
  let ?c1 = "c\<lparr>ca_data := (ca_data c)[ca_n_events c := row], ca_n_events := Suc (ca_n_events c)\<rparr>"
  have c': "ca_dtype c = fst k" "ca_shape c = snd k" "length (ca_data c) = sv_cache_size s" "ca_n_events c < sv_cache_size s"
    "buf = take (ca_n_events c) (ca_data c)" using c by (simp_all add: cached_def)
  have app: "cache_append N v c = Inr ?c1" using cache_append_run(1) c' row by simp
  have rows: "take (Suc (ca_n_events c)) ((ca_data c)[ca_n_events c := row]) = buf @ [row]"
    using cache_append_run(2) c' row by simp
  have dist: "distinct (map fst (AList.update name x (sv_cache s)))" for x
    using dis by (simp add: distinct_update)
  have dist2: "distinct (map fst (AList.update name y (AList.update name x (sv_cache s))))" for x y
    using dist by (simp add: distinct_update)
  show ?thesis
  proof (cases "Suc (ca_n_events c) = sv_cache_size s")
    case True
    then show ?thesis using app d rows ds dist2 c'
      by (auto simp: append_with_def eff_simps write_to_file_def same_but_def holds_def cached_def cache_reset_def update_conv')
  next
    case False
    then show ?thesis using app d rows ds dist c'
      by (auto simp: append_with_def eff_simps same_but_def holds_def cached_def update_conv')
  qed
qed

lemma append_to_cache_run:
  assumes rep: "represents s tbl" and col: "tbl name = Some (k, rows)" and row: "np_assign N (fst k) (snd k) v = Inr row"
  shows "\<exists>t. append_to_cache N name v s = (Inr (), t) \<and> represents t (tbl(name := Some (k, rows @ [row]))) \<and> same_head s t
    \<and> sv_dsets t = sv_dsets s"
proof -
  have size: "0 < sv_cache_size s" and dis: "distinct (map fst (sv_cache s))" "distinct (map fst (sv_dsets s))"
    using rep by (simp_all add: represents_def)
  have "holds s name (Some (k, rows))" using rep col by (metis represents_def)
  then obtain d buf where h: "map_of (sv_dsets s) name = Some k" "map_of (sv_file s) name = Some d"
    "hd_dtype d = fst k" "hd_shape d = snd k" "rows = hd_rows d @ buf"
    "cached (sv_cache_size s) k (map_of (sv_cache s) name) buf"
    by (auto simp: holds_def)
  obtain t where "append_to_cache N name v s = (Inr (), t)" "same_but name s t" "sv_dsets t = sv_dsets s"
    "distinct (map fst (sv_cache t))" "holds t name (Some (k, rows @ [row]))"
  proof (cases "map_of (sv_cache s) name")
    case None
    let ?c = "cache_init N (snd k) (fst k) (sv_cache_size s)"
    let ?s = "s\<lparr>sv_cache := AList.update name ?c (sv_cache s)\<rparr>"
    have buf: "buf = []" using h(6) None by (simp add: cached_def)
    have "cached (sv_cache_size ?s) k (Some ?c) []" using size by (simp add: cached_def cache_init_def)
    from append_with_run [OF this _ _ _ row, of name d] obtain t where
      "append_with N name v ?c ?s = (Inr (), t)" "same_but name ?s t" "sv_dsets t = sv_dsets s"
      "distinct (map fst (sv_cache t))" "holds t name (Some (k, hd_rows d @ [row]))"
      using h dis by (auto simp: distinct_update)
    moreover have "same_but name s t" using \<open>same_but name ?s t\<close> by (simp add: same_but_def update_conv')
    ultimately show ?thesis
      using that append_to_cache_with [of s name "fst k" "snd k" N v] h(1,5) None buf by simp
  next
    case (Some c)
    from append_with_run [OF h(6) [unfolded Some] h(2,3,4) row dis(1) h(1)] obtain t where
      "append_with N name v c s = (Inr (), t)" "same_but name s t" "sv_dsets t = sv_dsets s"
      "distinct (map fst (sv_cache t))" "holds t name (Some (k, rows @ [row]))" using h(5) by auto
    then show ?thesis
      using that append_to_cache_with [of s name "fst k" "snd k" N v] h(1) Some by simp
  qed
  then show ?thesis using represents_upd [OF rep] dis(2) by (auto simp: same_but_def same_head_def)
qed

section \<open>Filling\<close>

lemma not_isl_Inr: "\<not> isl x \<Longrightarrow> \<exists>y. x = Inr y"
  by (cases x) auto

definition missing_row :: "np \<Rightarrow> dtype \<times> nat list \<Rightarrow> elem list" where
  "missing_row N k = replicate (prod_list (snd k)) (projr (np_cast N (fst k) (projr (get_missing_value (fst k)))))"

definition slot_row :: "np \<Rightarrow> dtype \<times> nat list \<Rightarrow> sval \<Rightarrow> elem list" where
  "slot_row N k v = projr (np_assign N (fst k) (snd k) v)"

definition fillable :: "np \<Rightarrow> dtype \<times> nat list \<Rightarrow> bool" where
  "fillable N k \<longleftrightarrow> (case get_missing_value (fst k) of Inl e \<Rightarrow> False | Inr m \<Rightarrow> \<not> isl (np_cast N (fst k) m))"

text \<open>An array is stored unchanged in a slot of its own type and shape.\<close>

definition np_copies :: "np \<Rightarrow> bool" where
  "np_copies N \<longleftrightarrow> (\<forall>dtype shape els. length els = prod_list shape \<longrightarrow> np_assign N dtype shape (NpArray dtype shape els) = Inr els)"

lemma append_times:
  assumes "represents s tbl" and "tbl name = Some (k, rows)" and "np_assign N (fst k) (snd k) v = Inr row"
  shows "\<exists>t. efor (\<lambda>_. append_to_cache N name v) [j..<j + n] s = (Inr (), t)
    \<and> represents t (tbl(name := Some (k, rows @ replicate n row))) \<and> same_head s t \<and> sv_dsets t = sv_dsets s"
  using assms(1,2)
proof (induction n arbitrary: s tbl rows j)
  case 0
  then show ?case by (auto simp: eff_simps fun_upd_idem)
next
  case (Suc n)
  obtain t where t: "append_to_cache N name v s = (Inr (), t)" "represents t (tbl(name := Some (k, rows @ [row])))"
    "same_head s t" "sv_dsets t = sv_dsets s" using append_to_cache_run [OF Suc.prems assms(3)] by blast
  obtain u where u: "efor (\<lambda>_. append_to_cache N name v) [Suc j..<Suc j + n] t = (Inr (), u)"
    "represents u (tbl(name := Some (k, rows @ [row] @ replicate n row)))" "same_head t u" "sv_dsets u = sv_dsets t"
    using Suc.IH [OF t(2) fun_upd_same, of "Suc j", unfolded fun_upd_upd append_assoc] by blast
  have "[j..<j + Suc n] = j # [Suc j..<Suc j + n]" by (simp add: upt_conv_Cons)
  then have "efor (\<lambda>_. append_to_cache N name v) [j..<j + Suc n] s = (Inr (), u)"
    using t(1) u(1) by (simp add: eff_simps del: upt_Suc)
  moreover have "represents u (tbl(name := Some (k, rows @ replicate (Suc n) row)))" using u(2) by simp
  ultimately show ?case using t(4) u(4) same_head_trans [OF t(3) u(3)] by metis
qed

lemma backfill_run:
  assumes "represents s tbl" and "tbl name = Some (k, rows)" and "np_copies N" and "fillable N k"
  shows "\<exists>t. backfill N name n s = (Inr (), t)
    \<and> represents t (tbl(name := Some (k, rows @ replicate n (missing_row N k)))) \<and> same_head s t \<and> sv_dsets t = sv_dsets s"
proof -
  have ds: "map_of (sv_dsets s) name = Some k" using assms(1,2) by (auto simp: represents_def holds_def dest!: spec [of _ name])
  obtain m x where m: "get_missing_value (fst k) = Inr m" "np_cast N (fst k) m = Inr x"
    using assms(4) not_isl_Inr by (fastforce simp: fillable_def split: sum.splits)
  have "np_assign N (fst k) (snd k) (NpArray (fst k) (snd k) (missing_row N k)) = Inr (missing_row N k)"
    using assms(3) by (simp add: np_copies_def missing_row_def)
  note app = append_times [OF assms(1,2) this, of 0 n]
  have "missing_row N k = replicate (prod_list (snd k)) x" by (simp add: missing_row_def m)
  then show ?thesis using app ds m by (cases k) (simp add: backfill_def eff_simps dict_get_def)
qed

section \<open>An event\<close>

definition h5_accepts :: "np \<Rightarrow> string set \<Rightarrow> string \<Rightarrow> dtype \<times> nat list \<Rightarrow> bool" where
  "h5_accepts N Names name k \<longleftrightarrow> (\<forall>names. set names \<subseteq> Names - {name} \<longrightarrow> h5_refuses N names name (fst k) (snd k) = None)"

definition item_ok :: "np \<Rightarrow> string set \<Rightarrow> table \<Rightarrow> string \<times> sval \<Rightarrow> bool" where
  "item_ok N Names tbl item \<longleftrightarrow> fst item \<in> Names \<and> (case tbl (fst item) of
      Some (k, _) \<Rightarrow> \<not> isl (np_assign N (fst k) (snd k) (snd item))
    | None \<Rightarrow> (\<exists>k. describe (snd item) = Inr k \<and> \<not> isl (np_assign N (fst k) (snd k) (snd item))
         \<and> h5_accepts N Names (fst item) k \<and> (is_unaligned (fst item) \<or> fillable N k)))"

definition spec_item :: "np \<Rightarrow> nat \<Rightarrow> string \<times> sval \<Rightarrow> table \<Rightarrow> table" where
  "spec_item N seen item tbl = tbl(fst item := Some (case tbl (fst item) of
      Some (k, rows) \<Rightarrow> (k, rows @ [slot_row N k (snd item)])
    | None \<Rightarrow> (let k = projr (describe (snd item))
               in (k, (if is_unaligned (fst item) then [] else replicate seen (missing_row N k)) @ [slot_row N k (snd item)]))))"

definition spec_fill :: "np \<Rightarrow> string \<Rightarrow> table \<Rightarrow> table" where
  "spec_fill N name tbl = (if is_unaligned name then tbl
     else tbl(name := map_option (\<lambda>(k, rows). (k, rows @ [missing_row N k])) (tbl name)))"

lemma names_in_file:
  assumes "represents s tbl" and "dom tbl \<subseteq> Names" and "tbl name = None"
  shows "set (map fst (sv_file s)) \<subseteq> Names - {name}"
proof
  fix n assume "n \<in> set (map fst (sv_file s))"
  then have "map_of (sv_file s) n \<noteq> None" by (simp add: map_of_eq_None_iff)
  moreover have "holds s n (tbl n)" using assms(1) by (simp add: represents_def)
  ultimately have "tbl n \<noteq> None" by (auto simp: holds_def split: option.splits)
  then show "n \<in> Names - {name}" using assms(2,3) by auto
qed

lemma new_dset_run:
  assumes rep: "represents s tbl" and new: "tbl name = None" and k: "describe v = Inr k"
    and h5: "h5_accepts N Names name k" and fill: "is_unaligned name \<or> fillable N k" and copies: "np_copies N"
    and names: "dom tbl \<subseteq> Names"
  shows "\<exists>t. new_dset N name v s = (Inr (), t) \<and> same_head s t \<and> represents t (tbl(name := Some (k,
      if is_unaligned name then [] else replicate (sv_num_events_seen s) (missing_row N k))))"
proof -
  have h: "map_of (sv_dsets s) name = None" "map_of (sv_cache s) name = None" "map_of (sv_file s) name = None"
    using rep new by (auto simp: represents_def holds_def dest!: spec [of _ name])
  have acc: "h5_refuses N (map fst (sv_file s)) name (fst k) (snd k) = None"
    using h5 names_in_file [OF rep names new] by (auto simp: h5_accepts_def)
  let ?s = "s\<lparr>sv_dsets := AList.update name k (sv_dsets s),
    sv_file := AList.update name \<lparr>hd_dtype = fst k, hd_shape = snd k, hd_rows = []\<rparr> (sv_file s)\<rparr>"
  have run: "new_dset N name v s = (if is_unaligned name then eret () else backfill N name (sv_num_events_seen s)) ?s"
    using k acc by (cases k) (simp add: new_dset_def eff_simps)
  have "same_but name s ?s" by (simp add: same_but_def update_conv')
  moreover have "holds ?s name (Some (k, []))" using h by (simp add: holds_def update_conv' cached_def)
  ultimately have rep': "represents ?s (tbl(name := Some (k, [])))"
    using represents_upd [OF rep] rep by (simp add: represents_def distinct_update)
  show ?thesis
  proof (cases "is_unaligned name")
    case True
    then show ?thesis using run rep' by (auto simp: eff_simps same_head_def)
  next
    case False
    then obtain t where "backfill N name (sv_num_events_seen s) ?s = (Inr (), t)" "same_head ?s t"
      "represents t (tbl(name := Some (k, replicate (sv_num_events_seen s) (missing_row N k))))"
      using backfill_run [OF rep' _ copies, of name k "[]" "sv_num_events_seen s"] fill by auto
    then show ?thesis using run False by (auto simp: same_head_def)
  qed
qed

lemma handle_item_run:
  assumes rep: "represents s tbl" and ok: "item_ok N Names tbl item" and copies: "np_copies N" and names: "dom tbl \<subseteq> Names"
    and keys: "tbl (fst item) \<noteq> None \<Longrightarrow> fst item \<in> set keys" "tbl (fst item) = None \<Longrightarrow> fst item \<notin> set keys"
  shows "\<exists>t. handle_item N item keys s = (Inr (remove1 (fst item) keys), t) \<and> same_head s t
    \<and> represents t (spec_item N (sv_num_events_seen s) item tbl)"
proof -
  obtain name v where item: "item = (name, v)" by (cases item)
  show ?thesis
  proof (cases "tbl name")
    case None
    then have h: "map_of (sv_dsets s) name = None" using rep by (auto simp: represents_def holds_def dest!: spec [of _ name])
    obtain k where k: "describe v = Inr k" "\<not> isl (np_assign N (fst k) (snd k) v)" "h5_accepts N Names name k"
      "is_unaligned name \<or> fillable N k" using ok None by (auto simp: item_ok_def item)
    obtain t where t: "new_dset N name v s = (Inr (), t)" "same_head s t" "represents t (tbl(name := Some (k,
      if is_unaligned name then [] else replicate (sv_num_events_seen s) (missing_row N k))))"
      using new_dset_run [OF rep None k(1,3,4) copies names] by blast
    obtain row where row: "np_assign N (fst k) (snd k) v = Inr row" using not_isl_Inr [OF k(2)] by blast
    obtain u where u: "append_to_cache N name v t = (Inr (), u)" "same_head t u" "represents u (tbl(name := Some (k,
      (if is_unaligned name then [] else replicate (sv_num_events_seen s) (missing_row N k)) @ [row])))"
      using append_to_cache_run [OF t(3) _ row, of name] by auto
    have "remove1 name keys = keys" using keys(2) None by (simp add: item remove1_idem)
    then show ?thesis using t(1) u h row k(1) None same_head_trans [OF t(2) u(2)]
      by (intro exI [of _ u]) (simp add: handle_item_def item eff_simps spec_item_def slot_row_def)
  next
    case (Some col)
    obtain k rows where col: "col = (k, rows)" by (cases col)
    have h: "map_of (sv_dsets s) name = Some k" using rep Some col by (auto simp: represents_def holds_def dest!: spec [of _ name])
    have "\<not> isl (np_assign N (fst k) (snd k) v)" using ok Some col by (auto simp: item_ok_def item)
    then obtain row where row: "np_assign N (fst k) (snd k) v = Inr row" using not_isl_Inr by blast
    obtain t where "append_to_cache N name v s = (Inr (), t)" "same_head s t" "represents t (tbl(name := Some (k, rows @ [row])))"
      using append_to_cache_run [OF rep _ row] Some col by blast
    moreover have "name \<in> set keys" using keys(1) Some by (simp add: item)
    ultimately show ?thesis using h row Some col
      by (intro exI [of _ t]) (simp add: handle_item_def item eff_simps spec_item_def slot_row_def)
  qed
qed

lemma spec_item_other: "n \<noteq> fst item \<Longrightarrow> spec_item N seen item tbl n = tbl n"
  by (simp add: spec_item_def)

lemma spec_item_at: "spec_item N seen item tbl (fst item) \<noteq> None"
  by (simp add: spec_item_def)

lemma item_ok_other:
  "fst x \<noteq> fst item \<Longrightarrow> item_ok N Names (spec_item N seen item tbl) x = item_ok N Names tbl x"
  by (simp add: item_ok_def spec_item_other)

lemma names_differ: "distinct (map fst (item # ev)) \<Longrightarrow> x \<in> set ev \<Longrightarrow> fst x \<noteq> fst item"
  by (metis distinct.simps(2) image_eqI list.simps(9) set_map)

lemma handle_items_run:
  assumes "np_copies N"
  shows "represents s tbl \<Longrightarrow> dom tbl \<subseteq> Names \<Longrightarrow> distinct (map fst ev) \<Longrightarrow> (\<forall>item\<in>set ev. item_ok N Names tbl item) \<Longrightarrow>
    distinct keys \<Longrightarrow> (\<forall>n\<in>set (map fst ev). n \<in> set keys \<longleftrightarrow> tbl n \<noteq> None) \<Longrightarrow>
    \<exists>t. efold (handle_item N) ev keys s = (Inr (filter (\<lambda>n. n \<notin> set (map fst ev)) keys), t) \<and> same_head s t
      \<and> represents t (fold (spec_item N (sv_num_events_seen s)) ev tbl)"
proof (induction ev arbitrary: s tbl keys)
  case Nil
  then show ?case by (auto simp: eff_simps)
next
  case (Cons item ev)
  let ?tbl = "spec_item N (sv_num_events_seen s) item tbl"
  obtain t where t: "handle_item N item keys s = (Inr (remove1 (fst item) keys), t)" "same_head s t" "represents t ?tbl"
    using handle_item_run [OF Cons.prems(1) _ assms Cons.prems(2), of item keys] Cons.prems(4,6) by auto
  have new: "fst item \<notin> set (map fst ev)" using Cons.prems(3) by simp
  have same: "?tbl (fst x) = tbl (fst x)" if "x \<in> set ev" for x
    using names_differ [OF Cons.prems(3) that] by (rule spec_item_other)
  have "dom ?tbl \<subseteq> Names" using Cons.prems(2,4) by (auto simp: spec_item_def item_ok_def)
  moreover have "\<forall>x\<in>set ev. item_ok N Names ?tbl x"
    using Cons.prems(4) item_ok_other names_differ [OF Cons.prems(3)] by simp
  moreover have "\<forall>n\<in>set (map fst ev). n \<in> set (remove1 (fst item) keys) \<longleftrightarrow> ?tbl n \<noteq> None"
    using Cons.prems(5,6) same names_differ [OF Cons.prems(3)] by auto
  moreover have "distinct (map fst ev)" "distinct (remove1 (fst item) keys)" using Cons.prems(3,5) by simp_all
  moreover have "sv_num_events_seen t = sv_num_events_seen s" using t(2) by (simp add: same_head_def)
  ultimately obtain u where u: "efold (handle_item N) ev (remove1 (fst item) keys) t
      = (Inr (filter (\<lambda>n. n \<notin> set (map fst ev)) (remove1 (fst item) keys)), u)" "same_head t u"
      "represents u (fold (spec_item N (sv_num_events_seen s)) ev ?tbl)"
    using Cons.IH [OF t(3)] by metis
  have "filter (\<lambda>n. n \<notin> set (map fst ev)) (remove1 (fst item) keys) = filter (\<lambda>n. n \<notin> set (map fst (item # ev))) keys"
    using Cons.prems(5) by (simp add: distinct_remove1_removeAll removeAll_filter_not_eq) metis
  then show ?case using t(1) u same_head_trans [OF t(2) u(2)] by (intro exI [of _ u]) (simp add: eff_simps)
qed

definition columns_fillable :: "np \<Rightarrow> table \<Rightarrow> bool" where
  "columns_fillable N tbl \<longleftrightarrow> (\<forall>name k rows. tbl name = Some (k, rows) \<and> \<not> is_unaligned name \<longrightarrow> fillable N k)"

lemma columns_fillable_item: "columns_fillable N tbl \<Longrightarrow> item_ok N Names tbl item \<Longrightarrow> columns_fillable N (spec_item N seen item tbl)"
  by (auto simp: columns_fillable_def spec_item_def item_ok_def Let_def split: if_splits option.splits)

lemma columns_fillable_items:
  "columns_fillable N tbl \<Longrightarrow> (\<forall>item\<in>set ev. item_ok N Names tbl item) \<Longrightarrow> distinct (map fst ev) \<Longrightarrow>
    columns_fillable N (fold (spec_item N seen) ev tbl)"
proof (induction ev arbitrary: tbl)
  case (Cons item ev)
  let ?tbl = "spec_item N seen item tbl"
  have "\<forall>x\<in>set ev. item_ok N Names ?tbl x"
    using Cons.prems(2) item_ok_other names_differ [OF Cons.prems(3)] by simp
  then have "columns_fillable N (fold (spec_item N seen) ev ?tbl)"
    using Cons.prems(2,3) columns_fillable_item [OF Cons.prems(1), of Names item] by (intro Cons.IH) simp_all
  then show ?case by simp
qed simp

lemma columns_fillable_fill: "columns_fillable N tbl \<Longrightarrow> columns_fillable N (spec_fill N name tbl)"
  by (auto simp: columns_fillable_def spec_fill_def split: if_splits)

lemma fill_all_run:
  assumes "np_copies N"
  shows "represents s tbl \<Longrightarrow> columns_fillable N tbl \<Longrightarrow> (\<forall>n\<in>set names. tbl n \<noteq> None) \<Longrightarrow>
    \<exists>t. efor (\<lambda>name. ewhen (\<not> is_unaligned name) (backfill N name 1)) names s = (Inr (), t) \<and> same_head s t
      \<and> represents t (fold (spec_fill N) names tbl)"
proof (induction names arbitrary: s tbl)
  case Nil
  then show ?case by (auto simp: eff_simps)
next
  case (Cons name names)
  obtain t where t: "ewhen (\<not> is_unaligned name) (backfill N name 1) s = (Inr (), t)" "same_head s t"
    "represents t (spec_fill N name tbl)"
  proof (cases "is_unaligned name")
    case True
    then show ?thesis using that Cons.prems(1) by (simp add: eff_simps spec_fill_def)
  next
    case False
    obtain k rows where col: "tbl name = Some (k, rows)" using Cons.prems(3) by auto
    then have "fillable N k" using Cons.prems(2) False unfolding columns_fillable_def by blast
    from backfill_run [OF Cons.prems(1) col assms this, of 1] show ?thesis
      using that False col by (auto simp: eff_simps spec_fill_def)
  qed
  have "\<forall>n\<in>set names. spec_fill N name tbl n \<noteq> None" using Cons.prems(3) by (auto simp: spec_fill_def)
  then obtain u where "efor (\<lambda>name. ewhen (\<not> is_unaligned name) (backfill N name 1)) names t = (Inr (), u)" "same_head t u"
      "represents u (fold (spec_fill N) names (spec_fill N name tbl))"
    using Cons.IH [OF t(3) columns_fillable_fill [OF Cons.prems(2)]] by blast
  then show ?case using t(1) same_head_trans [OF t(2)] by (intro exI [of _ u]) (simp add: eseq_run)
qed

text \<open>The event as a step of the table.\<close>

definition spec_event :: "np \<Rightarrow> event_dict \<Rightarrow> nat \<times> table \<Rightarrow> nat \<times> table" where
  "spec_event N ev st = (case st of (seen, tbl) \<Rightarrow>
     (Suc seen, \<lambda>name. if tbl name \<noteq> None \<and> name \<notin> set (map fst ev) then spec_fill N name tbl name
                       else fold (spec_item N seen) ev tbl name))"

lemma fold_items_other: "n \<notin> set (map fst ev) \<Longrightarrow> fold (spec_item N seen) ev tbl n = tbl n"
  by (induction ev arbitrary: tbl) (auto simp: spec_item_other)

lemma fold_fill:
  "distinct names \<Longrightarrow> fold (spec_fill N) names tbl n = (if n \<in> set names then spec_fill N n tbl n else tbl n)"
proof (induction names arbitrary: tbl)
  case (Cons m names)
  have "spec_fill N n (spec_fill N m tbl) n = spec_fill N n tbl n" if "n \<noteq> m" using that by (simp add: spec_fill_def)
  moreover have "spec_fill N m tbl n = tbl n" if "n \<noteq> m" using that by (simp add: spec_fill_def)
  ultimately show ?case using Cons by auto
qed simp

lemma holds_dsets: "holds s n col \<Longrightarrow> map_of (sv_dsets s) n = map_option fst col"
  by (cases col) (auto simp: holds_def)

lemma dsets_of_table:
  assumes "represents s tbl"
  shows "set (map fst (sv_dsets s)) = dom tbl" and "distinct (map fst (sv_dsets s))"
proof -
  have "map_of (sv_dsets s) n = map_option fst (tbl n)" for n
    using assms holds_dsets [of s n "tbl n"] by (simp add: represents_def)
  then have "dom (map_of (sv_dsets s)) = dom tbl" by (auto simp: dom_def)
  then show "set (map fst (sv_dsets s)) = dom tbl" by (simp add: dom_map_of_conv_image_fst)
  show "distinct (map fst (sv_dsets s))" using assms by (simp add: represents_def)
qed

text \<open>What an event needs, given the table: callbacks that return, storable values, names that h5py accepts.\<close>

definition event_ok :: "np \<Rightarrow> string set \<Rightarrow> table \<Rightarrow> event_dict \<Rightarrow> bool" where
  "event_ok N Names tbl ev \<longleftrightarrow> distinct (map fst ev) \<and> (\<forall>item\<in>set ev. item_ok N Names tbl item)"

lemma represents_seen: "represents (s\<lparr>sv_num_events_seen := x\<rparr>) tbl = represents s tbl"
  by (simp add: represents_def holds_def cong: option.case_cong)

lemma handle_event_run:
  assumes copies: "np_copies N" and rep: "represents s tbl" and names: "dom tbl \<subseteq> Names" and fill: "columns_fillable N tbl"
    and fname: "sv_filename s \<noteq> None" and cb: "run_callbacks (sv_callbacks s) ev0 = Inr ev" and ok: "event_ok N Names tbl ev"
  shows "\<exists>t. handle_event N ev0 s = (Inr (), t) \<and> sv_filename t = sv_filename s \<and> sv_callbacks t = sv_callbacks s
    \<and> represents t (snd (spec_event N ev (sv_num_events_seen s, tbl)))
    \<and> sv_num_events_seen t = Suc (sv_num_events_seen s)
    \<and> columns_fillable N (snd (spec_event N ev (sv_num_events_seen s, tbl)))
    \<and> dom (snd (spec_event N ev (sv_num_events_seen s, tbl))) \<subseteq> Names"
proof -
  let ?keys = "map fst (sv_dsets s)" and ?seen = "sv_num_events_seen s"
  let ?left = "filter (\<lambda>n. n \<notin> set (map fst ev)) ?keys"
  let ?tbl = "fold (spec_item N ?seen) ev tbl"
  note ds = dsets_of_table [OF rep]
  obtain t where t: "efold (handle_item N) ev ?keys s = (Inr ?left, t)" "same_head s t" "represents t ?tbl"
    using handle_items_run [OF copies rep names _ _ ds(2), of ev] ok ds(1) unfolding event_ok_def by (metis domIff)
  have fill1: "columns_fillable N ?tbl" using columns_fillable_items [OF fill] ok by (auto simp: event_ok_def)
  have "\<forall>n\<in>set ?left. ?tbl n \<noteq> None" using ds(1) by (auto simp: fold_items_other)
  then obtain u where u: "efor (\<lambda>name. ewhen (\<not> is_unaligned name) (backfill N name 1)) ?left t = (Inr (), u)"
    "same_head t u" "represents u (fold (spec_fill N) ?left ?tbl)"
    using fill_all_run [OF copies t(3) fill1] by blast
  have left: "n \<in> set ?left \<longleftrightarrow> tbl n \<noteq> None \<and> n \<notin> set (map fst ev)" for n using ds(1) by auto
  have "spec_fill N n ?tbl n = spec_fill N n tbl n" if "n \<notin> set (map fst ev)" for n
    using fold_items_other [OF that] by (simp add: spec_fill_def)
  then have spec: "fold (spec_fill N) ?left ?tbl = snd (spec_event N ev (?seen, tbl))"
    using ds(2) left by (intro ext) (auto simp: fold_fill spec_event_def simp del: set_filter)
  have "columns_fillable N (fold (spec_fill N) ns ?tbl)" for ns
    using fill1 by (induction ns rule: rev_induct) (auto simp: columns_fillable_fill)
  then have "columns_fillable N (snd (spec_event N ev (?seen, tbl)))" by (metis spec)
  moreover have "dom (snd (spec_event N ev (?seen, tbl))) \<subseteq> Names"
  proof
    fix n assume n: "n \<in> dom (snd (spec_event N ev (?seen, tbl)))"
    show "n \<in> Names"
    proof (cases "n \<in> set (map fst ev)")
      case True
      then show ?thesis using ok by (auto simp: event_ok_def item_ok_def)
    next
      case False
      then show ?thesis using n names by (auto simp: spec_event_def fold_items_other spec_fill_def split: if_splits)
    qed
  qed
  moreover have "handle_event N ev0 s = (Inr (), u\<lparr>sv_num_events_seen := sv_num_events_seen u + 1\<rparr>)"
    using cb fname t(1) u(1) by (simp add: handle_event_def eff_simps)
  ultimately show ?thesis using u(2,3) t(2) spec
    by (intro exI [of _ "u\<lparr>sv_num_events_seen := sv_num_events_seen u + 1\<rparr>"]) (simp add: represents_seen same_head_def)
qed

end
