(* ===== verification/SmallTable.thy ===== *)
theory SmallTable
  imports SmallServerFacts
begin

text \<open>
  The file of a smalldata server after a run: the columns in closed form, the flush at the end, and
  the loop over the messages of the clients.
\<close>

section \<open>A run of events\<close>

fun events_ok :: "np \<Rightarrow> string set \<Rightarrow> nat \<times> table \<Rightarrow> event_dict list \<Rightarrow> bool" where
  "events_ok N Names st [] \<longleftrightarrow> True"
| "events_ok N Names st (ev # evs) \<longleftrightarrow> event_ok N Names (snd st) ev \<and> events_ok N Names (spec_event N ev st) evs"

lemma handle_run:
  assumes copies: "np_copies N"
  shows "represents s tbl \<Longrightarrow> dom tbl \<subseteq> Names \<Longrightarrow> columns_fillable N tbl \<Longrightarrow> sv_filename s \<noteq> None \<Longrightarrow>
    list_all2 (\<lambda>ev0 ev. run_callbacks (sv_callbacks s) ev0 = Inr ev) evs0 evs \<Longrightarrow>
    events_ok N Names (sv_num_events_seen s, tbl) evs \<Longrightarrow>
    \<exists>t. handle N evs0 s = (Inr (), t) \<and> sv_filename t = sv_filename s
      \<and> represents t (snd (fold (spec_event N) evs (sv_num_events_seen s, tbl)))
      \<and> sv_num_events_seen t = sv_num_events_seen s + length evs"
proof (induction evs arbitrary: evs0 s tbl)
  case Nil
  then show ?case by (auto simp: handle_def eff_simps)
next
  case (Cons ev evs)
  obtain ev0 evs1 where e: "evs0 = ev0 # evs1" "run_callbacks (sv_callbacks s) ev0 = Inr ev"
    "list_all2 (\<lambda>ev0 ev. run_callbacks (sv_callbacks s) ev0 = Inr ev) evs1 evs"
    using Cons.prems(5) by (auto simp: list_all2_Cons2)
  let ?st = "spec_event N ev (sv_num_events_seen s, tbl)"
  have ok: "event_ok N Names tbl ev" "events_ok N Names ?st evs" using Cons.prems(6) by simp_all
  obtain t where t: "handle_event N ev0 s = (Inr (), t)" "sv_filename t = sv_filename s" "sv_callbacks t = sv_callbacks s"
    "represents t (snd ?st)" "sv_num_events_seen t = Suc (sv_num_events_seen s)"
    "columns_fillable N (snd ?st)" "dom (snd ?st) \<subseteq> Names"
    using handle_event_run [OF copies Cons.prems(1,2,3,4) e(2) ok(1)] by blast
  have st: "?st = (sv_num_events_seen t, snd ?st)" using t(5) by (simp add: spec_event_def)
  obtain u where u: "handle N evs1 t = (Inr (), u)" "sv_filename u = sv_filename t"
    "represents u (snd (fold (spec_event N) evs (sv_num_events_seen t, snd ?st)))"
    "sv_num_events_seen u = sv_num_events_seen t + length evs"
    using Cons.IH [OF t(4,7,6)] Cons.prems(4) t(2,3) e(3) ok(2) st by metis
  have "handle N evs0 s = (Inr (), u)" using t(1) u(1) by (simp add: e(1) handle_def eff_simps)
  moreover have "represents u (snd (fold (spec_event N) (ev # evs) (sv_num_events_seen s, tbl)))"
    using u(3) st by (metis fold_simps(2))
  ultimately show ?case using u(2,4) t(2,5) by (intro exI [of _ u]) simp
qed

section \<open>The columns\<close>

text \<open>The values of a dataset in the events that have it, and its column.\<close>

definition present :: "event_dict list \<Rightarrow> string \<Rightarrow> sval list" where
  "present evs name = concat (map (\<lambda>ev. case map_of ev name of None \<Rightarrow> [] | Some v \<Rightarrow> [v]) evs)"

definition column_of :: "np \<Rightarrow> event_dict list \<Rightarrow> string \<Rightarrow> column option" where
  "column_of N evs name = (case present evs name of [] \<Rightarrow> None
     | v # _ \<Rightarrow> (let k = projr (describe v) in Some (k,
         if is_unaligned name then map (slot_row N k) (present evs name)
         else map (\<lambda>ev. case map_of ev name of None \<Rightarrow> missing_row N k | Some v \<Rightarrow> slot_row N k v) evs)))"

lemma present_snoc: "present (evs @ [ev]) name = present evs name @ (case map_of ev name of None \<Rightarrow> [] | Some v \<Rightarrow> [v])"
  by (simp add: present_def)

lemma present_Nil: "present evs name = [] \<longleftrightarrow> (\<forall>ev\<in>set evs. map_of ev name = None)"
  by (auto simp: present_def split: option.splits)

lemma fold_items_at:
  "distinct (map fst ev) \<Longrightarrow> map_of ev n = Some v \<Longrightarrow> fold (spec_item N seen) ev tbl n = spec_item N seen (n, v) tbl n"
proof (induction ev arbitrary: tbl)
  case (Cons item ev)
  show ?case
  proof (cases "fst item = n")
    case True
    then have "item = (n, v)" using Cons.prems(2) by (cases item) simp
    then show ?thesis using Cons.prems(1) by (simp add: fold_items_other)
  next
    case False
    then have "fold (spec_item N seen) ev (spec_item N seen item tbl) n = spec_item N seen (n, v) (spec_item N seen item tbl) n"
      using Cons by (cases item) auto
    also have "\<dots> = spec_item N seen (n, v) tbl n" using False by (simp add: spec_item_def)
    finally show ?thesis by simp
  qed
qed simp

lemma column_of_step:
  assumes "distinct (map fst ev)"
  shows "spec_event N ev (length evs, column_of N evs) = (length (evs @ [ev]), column_of N (evs @ [ev]))"
proof -
  have "snd (spec_event N ev (length evs, column_of N evs)) name = column_of N (evs @ [ev]) name" for name
  proof (cases "map_of ev name")
    case None
    then have out: "name \<notin> set (map fst ev)" by (simp add: map_of_eq_None_iff)
    then have "snd (spec_event N ev (length evs, column_of N evs)) name
        = (if column_of N evs name \<noteq> None then spec_fill N name (column_of N evs) name else column_of N evs name)"
      using fold_items_other [OF out] by (simp add: spec_event_def)
    then show ?thesis using None
      by (auto simp: spec_fill_def column_of_def present_snoc Let_def split: list.splits)
  next
    case (Some v)
    then have "name \<in> set (map fst ev)" by (force dest: map_of_SomeD)
    then have at: "snd (spec_event N ev (length evs, column_of N evs)) name = spec_item N (length evs) (name, v) (column_of N evs) name"
      using fold_items_at [OF assms Some] by (simp add: spec_event_def)
    show ?thesis
    proof (cases "present evs name")
      case Nil
      then have "map (\<lambda>ev. case map_of ev name of None \<Rightarrow> m | Some v \<Rightarrow> f v) evs = map (\<lambda>_. m) evs"
        for m :: "elem list" and f by (intro map_cong) (auto simp: present_Nil)
      then show ?thesis using Nil Some
        by (simp add: at spec_item_def column_of_def present_snoc Let_def map_replicate_const)
    next
      case (Cons w ws)
      then show ?thesis using Some
        by (simp add: at spec_item_def column_of_def present_snoc Let_def)
    qed
  qed
  then show ?thesis by (intro prod_eqI ext) (simp_all add: spec_event_def)
qed

lemma spec_events_columns:
  assumes "\<forall>ev\<in>set evs. distinct (map fst ev)"
  shows "fold (spec_event N) evs (0, \<lambda>_. None) = (length evs, column_of N evs)"
  using assms
proof (induction evs rule: rev_induct)
  case Nil
  then show ?case by (auto simp: column_of_def present_def)
next
  case (snoc ev evs)
  then show ?case by (simp add: column_of_step)
qed

lemma events_ok_distinct: "events_ok N Names st evs \<Longrightarrow> \<forall>ev\<in>set evs. distinct (map fst ev)"
proof (induction evs arbitrary: st)
  case (Cons ev evs)
  have "\<forall>ev\<in>set evs. distinct (map fst ev)" using Cons.prems by (intro Cons.IH [of "spec_event N ev st"]) simp
  then show ?case using Cons.prems by (simp add: event_ok_def)
qed simp

section \<open>The flush\<close>

definition flushed :: "server \<Rightarrow> string \<Rightarrow> bool" where
  "flushed s name \<longleftrightarrow> (\<forall>c. map_of (sv_cache s) name = Some c \<longrightarrow> ca_n_events c = 0)"

lemma write_run:
  assumes rep: "represents s tbl" and c: "map_of (sv_cache s) name = Some c" "0 < ca_n_events c"
  shows "\<exists>t. write_to_file name c s = (Inr (), t) \<and> represents t tbl \<and> flushed t name \<and> same_but name s t"
proof -
  have h: "holds s name (tbl name)" using rep by (simp add: represents_def)
  then obtain k rows where col: "tbl name = Some (k, rows)" using c by (cases "tbl name") (auto simp: holds_def)
  from h obtain d buf where d: "map_of (sv_dsets s) name = Some k" "map_of (sv_file s) name = Some d"
    "hd_dtype d = fst k" "hd_shape d = snd k" "rows = hd_rows d @ buf" "cached (sv_cache_size s) k (Some c) buf"
    using c(1) by (auto simp: col holds_def)
  let ?t = "s\<lparr>sv_file := AList.update name (d\<lparr>hd_rows := hd_rows d @ take (ca_n_events c) (ca_data c)\<rparr>) (sv_file s),
              sv_cache := AList.update name (cache_reset c) (sv_cache s)\<rparr>"
  have "write_to_file name c s = (Inr (), ?t)" using c d by (simp add: write_to_file_def)
  moreover have sb: "same_but name s ?t" by (simp add: same_but_def update_conv')
  moreover have "holds ?t name (Some (k, rows))" using d by (simp add: holds_def cached_def cache_reset_def update_conv')
  then have "represents ?t (tbl(name := Some (k, rows)))"
    using rep by (intro represents_upd [OF rep sb]) (auto simp: represents_def distinct_update)
  then have "represents ?t tbl" by (metis col fun_upd_triv)
  moreover have "flushed ?t name" by (simp add: flushed_def cache_reset_def update_conv')
  ultimately show ?thesis by blast
qed

lemma flush_run:
  "represents s tbl \<Longrightarrow> distinct (map fst cs) \<Longrightarrow> (\<forall>(name, c)\<in>set cs. map_of (sv_cache s) name = Some c) \<Longrightarrow>
    \<exists>t. efor (\<lambda>(name, c). ewhen (0 < ca_n_events c) (write_to_file name c)) cs s = (Inr (), t) \<and> represents t tbl
      \<and> (\<forall>name. name \<in> set (map fst cs) \<or> flushed s name \<longrightarrow> flushed t name)"
proof (induction cs arbitrary: s)
  case Nil
  then show ?case by (auto simp: eff_simps)
next
  case (Cons x cs)
  obtain name c where x: "x = (name, c)" by (cases x)
  have c: "map_of (sv_cache s) name = Some c" using Cons.prems(3) x by auto
  obtain t where t: "ewhen (0 < ca_n_events c) (write_to_file name c) s = (Inr (), t)" "represents t tbl" "flushed t name"
    "same_but name s t"
  proof (cases "0 < ca_n_events c")
    case True
    then show ?thesis using that write_run [OF Cons.prems(1) c] by (auto simp: eff_simps)
  next
    case False
    then show ?thesis using that [of s] Cons.prems(1) c by (simp add: eff_simps flushed_def same_but_def)
  qed
  have "map_of (sv_cache t) (fst y) = Some (snd y)" if y: "y \<in> set cs" for y
  proof -
    have "fst y \<noteq> name" using names_differ [OF Cons.prems(2) y] by (simp add: x)
    then show ?thesis using Cons.prems(3) t(4) y by (auto simp: same_but_def)
  qed
  then have "\<forall>(n, c)\<in>set cs. map_of (sv_cache t) n = Some c" by auto
  then obtain u where u: "efor (\<lambda>(name, c). ewhen (0 < ca_n_events c) (write_to_file name c)) cs t = (Inr (), u)"
    "represents u tbl" "\<forall>name. name \<in> set (map fst cs) \<or> flushed t name \<longrightarrow> flushed u name"
    using Cons.IH [OF t(2)] Cons.prems(2) by auto
  have "flushed t n" if "flushed s n" for n using that t(3,4) by (cases "n = name") (auto simp: flushed_def same_but_def)
  then show ?case using u t(1,3) by (intro exI [of _ u]) (auto simp: x eseq_run)
qed

lemma server_done_run:
  assumes rep: "represents s tbl" and f: "sv_filename s \<noteq> None"
  shows "\<exists>t. server_done s = (Inr (), t) \<and> sv_closed t
    \<and> (\<forall>name. map_of (sv_file t) name = map_option (\<lambda>(k, rows). \<lparr>hd_dtype = fst k, hd_shape = snd k, hd_rows = rows\<rparr>) (tbl name))"
proof -
  have dis: "distinct (map fst (sv_cache s))" using rep by (simp add: represents_def)
  obtain t where t: "efor (\<lambda>(name, c). ewhen (0 < ca_n_events c) (write_to_file name c)) (sv_cache s) s = (Inr (), t)"
    "represents t tbl" "\<forall>name. name \<in> set (map fst (sv_cache s)) \<or> flushed s name \<longrightarrow> flushed t name"
    using flush_run [OF rep dis] dis by auto
  have fl: "flushed t name" for name
  proof (cases "name \<in> set (map fst (sv_cache s))")
    case False
    then have "map_of (sv_cache s) name = None" by (simp add: map_of_eq_None_iff)
    then have "flushed s name" by (simp add: flushed_def)
    then show ?thesis using t(3) by blast
  qed (use t(3) in blast)
  have "map_of (sv_file t) name = map_option (\<lambda>(k, rows). \<lparr>hd_dtype = fst k, hd_shape = snd k, hd_rows = rows\<rparr>) (tbl name)" for name
  proof -
    have h: "holds t name (tbl name)" using t(2) by (simp add: represents_def)
    show ?thesis
    proof (cases "tbl name")
      case None
      then show ?thesis using h by (simp add: holds_def)
    next
      case (Some col)
      obtain k rows where "col = (k, rows)" by (cases col)
      then show ?thesis using h Some fl [of name]
        by (cases "map_of (sv_cache t) name") (auto simp: holds_def cached_def flushed_def)
    qed
  qed
  then show ?thesis using t(1) f by (intro exI [of _ "t\<lparr>sv_closed := True\<rparr>"]) (simp add: server_done_def eff_simps)
qed

section \<open>From an empty file\<close>

lemma init_represents: "0 < cache_size \<Longrightarrow> represents (server_init filename cache_size callbacks) (\<lambda>_. None)"
  by (simp add: represents_def holds_def server_init_def)

lemma no_columns_fillable: "columns_fillable N (\<lambda>_. None)"
  by (simp add: columns_fillable_def)

text \<open>Every event of the run can be handled: its names, its values, and what they are filled with.\<close>

definition run_ok :: "np \<Rightarrow> string set \<Rightarrow> event_dict list \<Rightarrow> bool" where
  "run_ok N Names evs \<longleftrightarrow> np_copies N \<and> events_ok N Names (0, \<lambda>_. None) evs"

lemma handle_from_empty:
  assumes "run_ok N Names evs" and "0 < cache_size"
    and "list_all2 (\<lambda>ev0 ev. run_callbacks callbacks ev0 = Inr ev) evs0 evs"
  shows "\<exists>t. handle N evs0 (server_init (Some filename) cache_size callbacks) = (Inr (), t) \<and> sv_filename t = Some filename
    \<and> represents t (column_of N evs) \<and> sv_num_events_seen t = length evs"
proof -
  let ?s = "server_init (Some filename) cache_size callbacks"
  have s: "sv_callbacks ?s = callbacks" "sv_num_events_seen ?s = 0" "sv_filename ?s = Some filename"
    by (simp_all add: server_init_def)
  have ok: "np_copies N" "events_ok N Names (0, \<lambda>_. None) evs" using assms(1) by (simp_all add: run_ok_def)
  show ?thesis
    using handle_run [OF ok(1) init_represents [OF assms(2)] _ no_columns_fillable, of Names "Some filename" callbacks evs0 evs]
      spec_events_columns [OF events_ok_distinct [OF ok(2)]] ok(2) assms(3) s by auto
qed

lemma callbacks_none: "list_all2 (\<lambda>ev0 ev. run_callbacks [] ev0 = Inr ev) evs evs"
  by (simp add: list_all2_conv_all_nth)

definition dataset_of :: "column \<Rightarrow> h5_dset" where
  "dataset_of col = \<lparr>hd_dtype = fst (fst col), hd_shape = snd (fst col), hd_rows = snd col\<rparr>"

lemma file_from_empty:
  assumes "run_ok N Names evs" and "0 < cache_size"
    and "list_all2 (\<lambda>ev0 ev. run_callbacks callbacks ev0 = Inr ev) evs0 evs"
  shows "\<exists>t. eseq (handle N evs0) server_done (server_init (Some filename) cache_size callbacks) = (Inr (), t) \<and> sv_closed t
    \<and> (\<forall>name. map_of (sv_file t) name = map_option dataset_of (column_of N evs name))"
proof -
  obtain t where t: "handle N evs0 (server_init (Some filename) cache_size callbacks) = (Inr (), t)" "sv_filename t = Some filename"
    "represents t (column_of N evs)" using handle_from_empty [OF assms] by blast
  have d: "dataset_of = (\<lambda>(k, rows). \<lparr>hd_dtype = fst k, hd_shape = snd k, hd_rows = rows\<rparr>)"
    by (intro ext) (simp add: dataset_of_def split_beta)
  obtain u where "server_done t = (Inr (), u)" "sv_closed u"
    "\<forall>name. map_of (sv_file u) name = map_option dataset_of (column_of N evs name)"
    using server_done_run [OF t(3)] t(2) unfolding d by auto
  then show ?thesis using t(1) by (intro exI [of _ u]) (simp add: eff_simps)
qed

section \<open>Messages\<close>

text \<open>The events in the messages up to the end of the last client, and the messages behind.\<close>

fun take_msgs :: "nat \<Rightarrow> sd_msg list \<Rightarrow> event_dict list \<times> sd_msg list" where
  "take_msgs 0 msgs = ([], msgs)"
| "take_msgs (Suc k) [] = ([], [])"
| "take_msgs (Suc k) (Batch b # msgs) = (b @ fst (take_msgs (Suc k) msgs), snd (take_msgs (Suc k) msgs))"
| "take_msgs (Suc k) (DoneMsg # msgs) = take_msgs k msgs"

lemma handle_append: "handle N (xs @ ys) s = eseq (handle N xs) (handle N ys) s"
  by (induction xs arbitrary: s) (auto simp: handle_def eff_simps split: sum.splits prod.splits)

lemma recv_loop_handle:
  "k \<le> count_list msgs DoneMsg \<Longrightarrow>
    recv_loop N k msgs s = eseq (handle N (fst (take_msgs k msgs))) (eret (snd (take_msgs k msgs))) s"
proof (induction N k msgs arbitrary: s rule: recv_loop.induct)
  case (3 N k b msgs)
  then show ?case by (auto simp: eff_simps handle_append split: sum.splits prod.splits)
qed (auto simp: eff_simps handle_def)

text \<open>Every client ends with \<open>done\<close>, so the last message is one.\<close>

fun batches_of :: "sd_msg list \<Rightarrow> event_dict list" where
  "batches_of [] = []"
| "batches_of (Batch b # msgs) = b @ batches_of msgs"
| "batches_of (DoneMsg # msgs) = batches_of msgs"

lemma take_msgs_all:
  "count_list msgs DoneMsg = k \<Longrightarrow> (msgs = [] \<or> last msgs = DoneMsg) \<Longrightarrow> take_msgs k msgs = (batches_of msgs, [])"
proof (induction k msgs rule: take_msgs.induct)
  case (1 msgs)
  then show ?case by (metis batches_of.simps(1) count_list_0_iff last_in_set take_msgs.simps(1))
next
  case (3 k b msgs)
  then have "msgs \<noteq> []" by auto
  then show ?case using 3 by simp
next
  case (4 k msgs)
  then show ?case by (cases "msgs = []") auto
qed simp

end
