(* ===== verification/SmallClient.thy ===== *)
theory SmallClient
  imports SmallTable
begin

text \<open>
  The client of smalldata (class \<open>SmallData\<close> of \<^verbatim>\<open>psana/psana/smalldata.py\<close>):
  the data of an event is collected over several calls, events are shipped in batches, to the server
  of the same process (serial) or by MPI (parallel), and summary data goes to the full file.
\<close>

section \<open>Nested dictionaries\<close>

datatype nested = Leaf sval | Node "(string \<times> nested) list"

text \<open>\<open>dict(items)\<close> and \<open>d.update(items)\<close>: a later value replaces an earlier one in place.\<close>

definition update_items :: "(string \<times> 'v) list \<Rightarrow> (string \<times> 'v) list \<Rightarrow> (string \<times> 'v) list" where
  "update_items d items = fold (\<lambda>(k, v). AList.update k v) items d"

definition new_key :: "string \<Rightarrow> string \<Rightarrow> string" where
  "new_key parent_key k = (if parent_key = [] then k else parent_key @ ''/'' @ k)"

fun flatten_items :: "string \<Rightarrow> (string \<times> nested) list \<Rightarrow> (string \<times> sval) list" where
  "flatten_items parent_key [] = []"
| "flatten_items parent_key ((k, Leaf v) # items) = (new_key parent_key k, v) # flatten_items parent_key items"
| "flatten_items parent_key ((k, Node d) # items) =
     update_items [] (flatten_items (new_key parent_key k) d) @ flatten_items parent_key items"

definition flatten_dictionary :: "(string \<times> nested) list \<Rightarrow> event_dict" where
  "flatten_dictionary d = update_items [] (flatten_items [] d)"

section \<open>The object\<close>

datatype run_mode = SerialMode | ParallelMode
datatype node_role = ServerRole | ClientRole | SerialRole | OtherRole

text \<open>A dataset of the full file: summary data, or a view of the partial files (see \<open>SmallJoin\<close>).\<close>

record client =
  cl_mode :: run_mode
  cl_role :: node_role
  cl_rank :: nat
  cl_batch_size :: nat
  cl_batch :: "event_dict list"
  cl_prev :: int
  cl_full_filename :: "string option"
  cl_first_open :: bool
  cl_main :: "(string \<times> sval) list"
  cl_server :: server
  cl_sent :: "sd_msg list"

type_synonym 'a clm = "(client, 'a) eff"

function without_h5 :: "string \<Rightarrow> string" where
  "without_h5 [] = []"
| "without_h5 (c # cs) = (if take 3 (c # cs) = ''.h5'' then without_h5 (drop 3 (c # cs)) else c # without_h5 cs)"
  by pat_completeness auto
termination
  by (relation "measure length") auto

definition format_srv_filename :: "string \<Rightarrow> string \<Rightarrow> nat \<Rightarrow> string" where
  "format_srv_filename dir base rank = path_join dir (without_h5 base @ ''_part'' @ nat_str rank @ ''.h5'')"

text \<open>
  \<open>setup_parms\<close>: the cache is at least as large as a batch. A server of a parallel run serves
  its clients until they are done; \<open>srv_file\<close> is the name of its partial file.
\<close>

definition setup_cache_size :: "nat \<Rightarrow> nat option \<Rightarrow> nat" where
  "setup_cache_size batch_size cache_size =
     (case cache_size of None \<Rightarrow> batch_size | Some c \<Rightarrow> if c < batch_size then batch_size else c)"

definition setup_parms ::
    "run_mode \<Rightarrow> node_role \<Rightarrow> nat \<Rightarrow> string option \<Rightarrow> string option \<Rightarrow> nat \<Rightarrow> nat option \<Rightarrow>
     (event_dict \<Rightarrow> pyexc + event_dict) list \<Rightarrow> client" where
  "setup_parms mode role rank filename srv_file batch_size cache_size callbacks =
     \<lparr>cl_mode = mode, cl_role = (if mode = SerialMode then SerialRole else role), cl_rank = rank, cl_batch_size = batch_size,
      cl_batch = [], cl_prev = -1, cl_full_filename = filename, cl_first_open = True, cl_main = [],
      cl_server = server_init (if mode = SerialMode then filename else srv_file) (setup_cache_size batch_size cache_size) callbacks,
      cl_sent = []\<rparr>"

section \<open>Events\<close>

definition on_server :: "'a srv \<Rightarrow> 'a clm" where
  "on_server m = (\<lambda>s. case m (cl_server s) of (r, t) \<Rightarrow> (r, s\<lparr>cl_server := t\<rparr>))"

definition cl_send :: "sd_msg \<Rightarrow> unit clm" where
  "cl_send m = emod (\<lambda>s. s\<lparr>cl_sent := cl_sent s @ [m]\<rparr>)"

definition event_data :: "event_dict \<Rightarrow> (string \<times> nested) list list \<Rightarrow> event_dict" where
  "event_data kwargs args = fold (\<lambda>d acc. update_items acc (flatten_dictionary d)) args kwargs"

text \<open>\<open>None\<close> for an event without a time stamp. Old events are ignored.\<close>

definition sd_event :: "np \<Rightarrow> int option \<Rightarrow> (string \<times> nested) list list \<Rightarrow> event_dict \<Rightarrow> unit clm" where
  "sd_event N ts args kwargs =
     (case ts of None \<Rightarrow> eraise (ValueError ''event must have a timestamp attribute'')
      | Some timestamp \<Rightarrow>
          (let data = event_data kwargs args in
           ebind (eget (\<lambda>s. s)) (\<lambda>s.
             if timestamp = cl_prev s
             then (if cl_batch s = [] then eraise IndexError
                   else emod (\<lambda>s. s\<lparr>cl_batch := butlast (cl_batch s) @ [update_items (last (cl_batch s)) data]\<rparr>))
             else if cl_prev s < timestamp
             then eseq (ewhen (cl_batch_size s \<le> length (cl_batch s))
                     (eseq (if cl_mode s = SerialMode then on_server (handle N (cl_batch s)) else cl_send (Batch (cl_batch s)))
                           (emod (\<lambda>s. s\<lparr>cl_batch := []\<rparr>))))
                   (emod (\<lambda>s. s\<lparr>cl_prev := timestamp,
                      cl_batch := cl_batch s @ [AList.update ''timestamp'' (PyInt timestamp) data]\<rparr>))
             else eret ())))"

definition sd_summary :: "client \<Rightarrow> bool" where
  "sd_summary s \<longleftrightarrow> (case cl_mode s of ParallelMode \<Rightarrow> cl_role s = ClientRole | SerialMode \<Rightarrow> True)"

text \<open>
  \<open>_get_full_file_handle\<close>: the first opening in a parallel run empties the file. A serial run
  uses the file of its server.
\<close>

definition get_full_file_handle :: "unit clm" where
  "get_full_file_handle = (\<lambda>s. case cl_mode s of
     SerialMode \<Rightarrow> (Inr (), s)
   | ParallelMode \<Rightarrow>
       if cl_first_open s \<and> cl_full_filename s \<noteq> None then (Inr (), s\<lparr>cl_main := [], cl_first_open := False\<rparr>)
       else if cl_full_filename s = None then (Inl TypeError, s) else (Inr (), s))"

definition write_summary :: "string \<times> sval option \<Rightarrow> unit clm" where
  "write_summary item = (case item of (name, data) \<Rightarrow> (\<lambda>s. case data of
       None \<Rightarrow> (Inr (), s)
     | Some v \<Rightarrow>
         if name \<in> set (map fst (cl_main s)) \<or> cl_mode s = SerialMode \<and> name \<in> set (map fst (sv_file (cl_server s)))
         then (Inl (ValueError ''name already exists''), s)
         else (Inr (), s\<lparr>cl_main := cl_main s @ [(name, v)]\<rparr>)))"

definition save_summary :: "(string \<times> sval option) list \<Rightarrow> unit clm" where
  "save_summary data_dict =
     ebind (eget (\<lambda>s. cl_full_filename s = None \<or> cl_mode s = ParallelMode \<and> cl_rank s \<noteq> 0)) (\<lambda>skip.
       if skip then eret () else eseq get_full_file_handle (efor write_summary data_dict))"

text \<open>
  \<open>done\<close> up to the barrier; joining the files, which the client of rank 0 does behind it, is
  \<open>join_files\<close> of \<open>SmallJoin\<close>. The value says whether this process joins.
\<close>

definition sd_done :: "np \<Rightarrow> bool clm" where
  "sd_done N =
     ebind (eget (\<lambda>s. s)) (\<lambda>s.
     eseq (case cl_role s of
             ClientRole \<Rightarrow> eseq (ewhen (0 < length (cl_batch s)) (cl_send (Batch (cl_batch s)))) (cl_send DoneMsg)
           | ServerRole \<Rightarrow> on_server server_done
           | SerialRole \<Rightarrow> eseq (on_server (handle N (cl_batch s))) (on_server server_done)
           | OtherRole \<Rightarrow> eret ())
       (eret (cl_mode s = ParallelMode \<and> cl_role s = ClientRole \<and> cl_full_filename s \<noteq> None \<and> cl_rank s = 0)))"

section \<open>What the calls amount to\<close>

text \<open>The events of a sequence of calls: calls with the time stamp of the event before are merged into it.\<close>

fun merge_calls :: "int \<Rightarrow> event_dict list \<Rightarrow> (int \<times> event_dict) list \<Rightarrow> event_dict list" where
  "merge_calls prev evs [] = evs"
| "merge_calls prev evs ((ts, data) # calls) =
     (if ts = prev \<and> evs \<noteq> [] then merge_calls prev (butlast evs @ [update_items (last evs) data]) calls
      else if prev < ts then merge_calls ts (evs @ [AList.update ''timestamp'' (PyInt ts) data]) calls
      else merge_calls prev evs calls)"

text \<open>A sequence of calls of the client: time stamp, positional and keyword arguments.\<close>

type_synonym call = "int \<times> (string \<times> nested) list list \<times> event_dict"

definition sd_events :: "np \<Rightarrow> call list \<Rightarrow> unit clm" where
  "sd_events N calls = efor (\<lambda>(ts, args, kwargs). sd_event N (Some ts) args kwargs) calls"

definition call_data :: "call \<Rightarrow> int \<times> event_dict" where
  "call_data c = (case c of (ts, args, kwargs) \<Rightarrow> (ts, event_data kwargs args))"

definition full_batches :: "nat \<Rightarrow> event_dict list list \<Rightarrow> bool" where
  "full_batches n bs \<longleftrightarrow> list_all (\<lambda>b. length b = n) bs"

text \<open>
  The state behind some calls: the batches \<open>bs\<close> are shipped, to the messages of a parallel
  run or to the server, which was \<open>sv\<close>, of a serial one; with the batch that is being filled
  they hold the events \<open>evs\<close>.
\<close>

definition shipped :: "np \<Rightarrow> server \<Rightarrow> client \<Rightarrow> event_dict list list \<Rightarrow> bool" where
  "shipped N sv s bs \<longleftrightarrow> (case cl_mode s of ParallelMode \<Rightarrow> cl_sent s = map Batch bs
     | SerialMode \<Rightarrow> handle N (concat bs) sv = (Inr (), cl_server s))"

definition client_inv :: "np \<Rightarrow> server \<Rightarrow> event_dict list list \<Rightarrow> event_dict list \<Rightarrow> client \<Rightarrow> bool" where
  "client_inv N sv bs evs s \<longleftrightarrow> 0 < cl_batch_size s \<and> shipped N sv s bs \<and> full_batches (cl_batch_size s) bs
     \<and> length (cl_batch s) \<le> cl_batch_size s \<and> concat bs @ cl_batch s = evs
     \<and> (cl_batch s = [] \<longrightarrow> cl_prev s = -1 \<and> bs = [])"

definition same_setup :: "client \<Rightarrow> client \<Rightarrow> bool" where
  "same_setup s t \<longleftrightarrow> cl_mode t = cl_mode s \<and> cl_role t = cl_role s \<and> cl_batch_size t = cl_batch_size s \<and> cl_rank t = cl_rank s
     \<and> cl_full_filename t = cl_full_filename s"

definition handles :: "np \<Rightarrow> server \<Rightarrow> event_dict list \<Rightarrow> bool" where
  "handles N sv evs \<longleftrightarrow> (\<exists>t. handle N evs sv = (Inr (), t))"

lemma handles_prefix: "handles N sv (xs @ ys) \<Longrightarrow> handles N sv xs"
  by (auto simp: handles_def handle_append elim: eseq_InrD)

lemma shipped_upd [simp]:
  "shipped N sv (s\<lparr>cl_batch := b\<rparr>) bs = shipped N sv s bs" "shipped N sv (s\<lparr>cl_prev := p\<rparr>) bs = shipped N sv s bs"
  by (cases "cl_mode s"; simp add: shipped_def)+

lemma ship_run:
  assumes inv: "client_inv N sv bs evs s" and ok: "cl_mode s = SerialMode \<longrightarrow> handles N sv evs"
  shows "\<exists>t. (if cl_mode s = SerialMode then on_server (handle N (cl_batch s)) else cl_send (Batch (cl_batch s))) s = (Inr (), t)
    \<and> same_setup s t \<and> cl_batch t = cl_batch s \<and> cl_prev t = cl_prev s \<and> shipped N sv t (bs @ [cl_batch s])"
proof (cases "cl_mode s")
  case SerialMode
  then have "handles N sv (concat bs @ cl_batch s)" using ok inv by (simp add: client_inv_def)
  then obtain u where u: "handle N (concat bs @ cl_batch s) sv = (Inr (), u)" by (auto simp: handles_def)
  have "handle N (concat bs) sv = (Inr (), cl_server s)" using inv SerialMode by (simp add: client_inv_def shipped_def)
  then have "handle N (cl_batch s) (cl_server s) = (Inr (), u)" using u by (simp add: handle_append eff_simps)
  then show ?thesis using SerialMode u
    by (intro exI [of _ "s\<lparr>cl_server := u\<rparr>"]) (simp add: on_server_def shipped_def same_setup_def)
next
  case ParallelMode
  then show ?thesis using inv
    by (intro exI [of _ "s\<lparr>cl_sent := cl_sent s @ [Batch (cl_batch s)]\<rparr>"])
       (simp add: cl_send_def emod_run shipped_def client_inv_def same_setup_def)
qed

lemma sd_event_run:
  assumes inv: "client_inv N sv bs evs s" and ts: "0 \<le> ts"
    and ok: "cl_mode s = SerialMode \<longrightarrow> cl_prev s < ts \<longrightarrow> handles N sv evs"
  shows "\<exists>t bs'. sd_event N (Some ts) args kwargs s = (Inr (), t) \<and> same_setup s t \<and> cl_batch t \<noteq> []
    \<and> client_inv N sv bs' (merge_calls (cl_prev s) evs [(ts, event_data kwargs args)]) t
    \<and> cl_prev t = max (cl_prev s) ts"
proof -
  let ?data = "event_data kwargs args" and ?ev = "AList.update ''timestamp'' (PyInt ts) (event_data kwargs args)"
  have i: "0 < cl_batch_size s" "shipped N sv s bs" "full_batches (cl_batch_size s) bs" "length (cl_batch s) \<le> cl_batch_size s"
    "concat bs @ cl_batch s = evs" "cl_batch s = [] \<longrightarrow> cl_prev s = -1 \<and> bs = []" using inv by (simp_all add: client_inv_def)
  consider "ts = cl_prev s" | "cl_prev s < ts" | "ts < cl_prev s" by linarith
  then show ?thesis
  proof cases
    case 1
    then have b: "cl_batch s \<noteq> []" using i(6) ts by auto
    then have "butlast evs = concat bs @ butlast (cl_batch s)" "last evs = last (cl_batch s)" "evs \<noteq> []"
      using i(5) by (auto simp: butlast_append)
    then show ?thesis using 1 b i
      by (intro exI [of _ "s\<lparr>cl_batch := butlast (cl_batch s) @ [update_items (last (cl_batch s)) ?data]\<rparr>"] exI [of _ bs])
         (simp add: sd_event_def eff_simps Let_def client_inv_def same_setup_def)
  next
    case 2
    show ?thesis
    proof (cases "cl_batch_size s \<le> length (cl_batch s)")
      case True
      obtain t where t: "(if cl_mode s = SerialMode then on_server (handle N (cl_batch s)) else cl_send (Batch (cl_batch s))) s = (Inr (), t)"
        "same_setup s t" "cl_batch t = cl_batch s" "cl_prev t = cl_prev s" "shipped N sv t (bs @ [cl_batch s])"
        using ship_run [OF inv] ok 2 by blast
      let ?t = "t\<lparr>cl_batch := [?ev], cl_prev := ts\<rparr>"
      have "sd_event N (Some ts) args kwargs s = (Inr (), ?t)" using 2 True t
        by (simp add: sd_event_def eff_simps Let_def)
      moreover have "client_inv N sv (bs @ [cl_batch s]) (evs @ [?ev]) ?t"
        using t i True by (auto simp: client_inv_def same_setup_def full_batches_def Suc_le_eq)
      ultimately show ?thesis using 2 t(2)
        by (intro exI [of _ ?t] exI [of _ "bs @ [cl_batch s]"]) (simp add: same_setup_def)
    next
      case False
      then show ?thesis using 2 i
        by (intro exI [of _ "s\<lparr>cl_prev := ts, cl_batch := cl_batch s @ [?ev]\<rparr>"] exI [of _ bs])
           (auto simp: sd_event_def eff_simps Let_def client_inv_def same_setup_def)
    qed
  next
    case 3
    then have "cl_batch s \<noteq> []" using i(6) ts by auto
    moreover have "sd_event N (Some ts) args kwargs s = (Inr (), s)" using 3 by (simp add: sd_event_def eff_simps Let_def)
    moreover have "merge_calls (cl_prev s) evs [(ts, ?data)] = evs" using 3 by simp
    ultimately show ?thesis using 3 inv by (intro exI [of _ s] exI [of _ bs]) (simp add: same_setup_def)
  qed
qed

lemma merge_calls_Cons:
  assumes "0 \<le> ts" and "evs = [] \<longrightarrow> prev = -1"
  shows "merge_calls prev evs ((ts, data) # calls) = merge_calls (max prev ts) (merge_calls prev evs [(ts, data)]) calls"
proof -
  have "ts = prev \<Longrightarrow> evs \<noteq> []" using assms by auto
  then consider "ts = prev" "evs \<noteq> []" | "prev < ts" | "ts < prev" by linarith
  then show ?thesis by cases (simp_all add: max_absorb1 max_absorb2)
qed

lemma merge_calls_prefix: "\<exists>zs. merge_calls prev evs calls = butlast evs @ zs"
proof (induction prev evs calls rule: merge_calls.induct)
  case (1 prev evs)
  show ?case by (cases evs rule: rev_cases) auto
next
  case (2 prev evs ts data calls)
  show ?case
  proof (cases "ts = prev \<and> evs \<noteq> []")
    case True
    then show ?thesis using 2(1) by simp
  next
    case F: False
    show ?thesis
    proof (cases "prev < ts")
      case True
      then obtain zs where zs: "merge_calls ts (evs @ [AList.update ''timestamp'' (PyInt ts) data]) calls = evs @ zs"
        using 2(2) F by auto
      then show ?thesis using True F by (cases evs rule: rev_cases) auto
    next
      case False
      then show ?thesis using 2(3) F by simp
    qed
  qed
qed

lemma merge_calls_new: "prev < ts \<Longrightarrow> \<exists>zs. merge_calls prev evs ((ts, data) # calls) = evs @ zs"
  using merge_calls_prefix [of ts "evs @ [AList.update ''timestamp'' (PyInt ts) data]" calls] by auto

lemma sd_events_run:
  "client_inv N sv bs evs s \<Longrightarrow> \<forall>(ts, args, kwargs)\<in>set calls. 0 \<le> ts \<Longrightarrow>
    (cl_mode s = SerialMode \<longrightarrow> handles N sv (merge_calls (cl_prev s) evs (map call_data calls))) \<Longrightarrow>
    \<exists>t bs'. sd_events N calls s = (Inr (), t) \<and> same_setup s t
      \<and> client_inv N sv bs' (merge_calls (cl_prev s) evs (map call_data calls)) t"
proof (induction calls arbitrary: s bs evs)
  case Nil
  then show ?case by (auto simp: sd_events_def eff_simps same_setup_def)
next
  case (Cons c calls)
  obtain ts args kwargs where c: "c = (ts, args, kwargs)" by (cases c) auto
  have ts: "0 \<le> ts" using Cons.prems(2) c by auto
  have ne: "evs = [] \<longrightarrow> cl_prev s = -1" using Cons.prems(1) by (auto simp: client_inv_def)
  let ?evs = "merge_calls (cl_prev s) evs [(ts, event_data kwargs args)]"
  have all: "merge_calls (cl_prev s) evs (map call_data (c # calls)) = merge_calls (max (cl_prev s) ts) ?evs (map call_data calls)"
    using merge_calls_Cons [OF ts ne, of "event_data kwargs args" "map call_data calls"] by (simp add: c call_data_def)
  have "handles N sv evs" if "cl_mode s = SerialMode" and new: "cl_prev s < ts"
  proof -
    obtain zs where "merge_calls (cl_prev s) evs (map call_data (c # calls)) = evs @ zs"
      using merge_calls_new [OF new, of evs "event_data kwargs args" "map call_data calls"] by (auto simp: c call_data_def)
    then show ?thesis using Cons.prems(3) that(1) handles_prefix by metis
  qed
  then obtain t bs' where t: "sd_event N (Some ts) args kwargs s = (Inr (), t)" "same_setup s t" "client_inv N sv bs' ?evs t"
    "cl_prev t = max (cl_prev s) ts" using sd_event_run [OF Cons.prems(1) ts] by blast
  obtain u bs'' where u: "sd_events N calls t = (Inr (), u)" "same_setup t u"
    "client_inv N sv bs'' (merge_calls (cl_prev t) ?evs (map call_data calls)) u"
    using Cons.IH [OF t(3)] Cons.prems(2,3) t(2,4) all by (auto simp: same_setup_def)
  have "sd_events N (c # calls) s = (Inr (), u)" using t(1) u(1) by (simp add: sd_events_def eff_simps c)
  moreover have "same_setup s u" using u(2) t(2) by (simp add: same_setup_def)
  moreover have "client_inv N sv bs'' (merge_calls (cl_prev s) evs (map call_data (c # calls))) u"
    using u(3) unfolding all t(4) .
  ultimately show ?case by blast
qed

lemma setup_inv: "0 < batch_size \<Longrightarrow>
    client_inv N (cl_server (setup_parms mode role rank filename srv_file batch_size cache_size callbacks)) [] []
      (setup_parms mode role rank filename srv_file batch_size cache_size callbacks)"
  by (simp add: client_inv_def shipped_def setup_parms_def full_batches_def handle_def eff_simps split: run_mode.splits)

end
