(* ===== verification/SmallJoin.thy ===== *)
theory SmallJoin
  imports SmallClient "HOL-Library.Multiset"
begin

text \<open>
  Behind a parallel run of smalldata: the partial files of the servers are joined to one file of
  virtual datasets (\<open>join_files\<close>), and values are reduced over the clients
  (\<open>_safe_reduction\<close>).
\<close>

section \<open>Joining\<close>

text \<open>
  A partial file as the join sees it: its name, and of each dataset the type and the shape, the
  number of rows first. The names of \<open>visititems\<close> begin with a slash.
\<close>

record part_file =
  pt_name :: string
  pt_dsets :: "(string \<times> dtype \<times> nat list) list"

record vds =
  vd_dtype :: dtype
  vd_shape :: "nat list"
  vd_layout :: "(nat \<times> nat \<times> string) list"
  vd_fill :: elem

definition part_of :: "string \<Rightarrow> server \<Rightarrow> part_file" where
  "part_of name s = \<lparr>pt_name = name,
     pt_dsets = map (\<lambda>(n, d). (''/'' @ n, hd_dtype d, length (hd_rows d) # hd_shape d)) (sv_file s)\<rparr>"

text \<open>\<open>shape[0]\<close>\<close>

definition first_dim :: "nat list \<Rightarrow> pyexc + nat" where
  "first_dim shape = (case shape of [] \<Rightarrow> Inl IndexError | n # _ \<Rightarrow> Inr n)"

text \<open>The events of a file that lacks a dataset: those of its time stamps, if the dataset is aligned.\<close>

definition gap :: "string \<Rightarrow> part_file \<Rightarrow> pyexc + nat" where
  "gap dset_name p =
     (if is_unaligned dset_name then Inr 0
      else case map_of (pt_dsets p) ''/timestamp'' of None \<Rightarrow> Inr 0 | Some (_, shape) \<Rightarrow> first_dim shape)"

text \<open>Part 1: the number of events, and type and shape in the last file that has the dataset.\<close>

fun total_events :: "string \<Rightarrow> part_file list \<Rightarrow> nat \<Rightarrow> (dtype \<times> nat list) option \<Rightarrow> pyexc + nat \<times> (dtype \<times> nat list) option" where
  "total_events dset_name [] n last_seen = Inr (n, last_seen)"
| "total_events dset_name (p # ps) n last_seen =
     (case map_of (pt_dsets p) dset_name of
        Some (dtype, shape) \<Rightarrow>
          (case first_dim shape of Inl e \<Rightarrow> Inl e | Inr m \<Rightarrow> total_events dset_name ps (n + m) (Some (dtype, shape)))
      | None \<Rightarrow> (case gap dset_name p of Inl e \<Rightarrow> Inl e | Inr m \<Rightarrow> total_events dset_name ps (n + m) last_seen))"

text \<open>
  Part 2: where the rows of each file go. h5py is the parameter \<open>refuses\<close>, on the shape of the
  slice of the layout and that of the source.
\<close>

fun make_layout ::
    "(nat list \<Rightarrow> nat list \<Rightarrow> pyexc option) \<Rightarrow> nat list \<Rightarrow> string \<Rightarrow> part_file list \<Rightarrow> nat \<Rightarrow> pyexc + (nat \<times> nat \<times> string) list" where
  "make_layout refuses tail_shape dset_name [] k = Inr []"
| "make_layout refuses tail_shape dset_name (p # ps) k =
     (case map_of (pt_dsets p) dset_name of
        Some (dtype, shape) \<Rightarrow>
          (case first_dim shape of Inl e \<Rightarrow> Inl e
           | Inr m \<Rightarrow>
               (case refuses (m # tail_shape) shape of Some e \<Rightarrow> Inl e
                | None \<Rightarrow>
                    (case make_layout refuses tail_shape dset_name ps (k + m) of Inl e \<Rightarrow> Inl e
                     | Inr l \<Rightarrow> Inr ((k, m, pt_name p) # l))))
      | None \<Rightarrow>
          (case gap dset_name p of Inl e \<Rightarrow> Inl e | Inr m \<Rightarrow> make_layout refuses tail_shape dset_name ps (k + m)))"

definition join_dset :: "(nat list \<Rightarrow> nat list \<Rightarrow> pyexc option) \<Rightarrow> part_file list \<Rightarrow> string \<Rightarrow> pyexc + vds" where
  "join_dset refuses files dset_name =
     (case total_events dset_name files 0 None of Inl e \<Rightarrow> Inl e
      | Inr (n, None) \<Rightarrow> Inl (NameError ''shape'')
      | Inr (n, Some (dtype, shape)) \<Rightarrow>
          (case make_layout refuses (drop 1 shape) dset_name files 0 of Inl e \<Rightarrow> Inl e
           | Inr layout \<Rightarrow>
               (case get_missing_value dtype of Inl e \<Rightarrow> Inl e
                | Inr fill \<Rightarrow> Inr \<lparr>vd_dtype = dtype, vd_shape = n # drop 1 shape, vd_layout = layout, vd_fill = fill\<rparr>)))"

text \<open>
  The names of all files, in the order the set yields them (\<open>order\<close>), and the virtual datasets
  that are made before the first error, if there is one.
\<close>

definition all_dsets :: "part_file list \<Rightarrow> string list" where
  "all_dsets files = remdups (concat (map (\<lambda>p. map fst (pt_dsets p)) files))"

fun join_dsets ::
    "(nat list \<Rightarrow> nat list \<Rightarrow> pyexc option) \<Rightarrow> part_file list \<Rightarrow> string list \<Rightarrow> (string \<times> vds) list \<Rightarrow>
     (pyexc + unit) \<times> (string \<times> vds) list" where
  "join_dsets refuses files [] joined = (Inr (), joined)"
| "join_dsets refuses files (n # ns) joined =
     (case join_dset refuses files n of Inl e \<Rightarrow> (Inl e, joined)
      | Inr v \<Rightarrow> join_dsets refuses files ns (joined @ [(n, v)]))"

text \<open>Partial files that do not exist are left out with a warning.\<close>

definition join_files ::
    "(nat list \<Rightarrow> nat list \<Rightarrow> pyexc option) \<Rightarrow> (string list \<Rightarrow> string list) \<Rightarrow> part_file option list \<Rightarrow>
     (pyexc + unit) \<times> (string \<times> vds) list" where
  "join_files refuses order expected =
     (let files = List.map_filter (\<lambda>p. p) expected
      in join_dsets refuses files (order (all_dsets files)) [])"

section \<open>What a virtual dataset shows\<close>

text \<open>The rows of a virtual dataset: those of its sources at their places, else the fill value (None).\<close>

fun look :: "(string \<Rightarrow> 'r list) \<Rightarrow> (nat \<times> nat \<times> string) list \<Rightarrow> nat \<Rightarrow> 'r option" where
  "look src [] i = None"
| "look src ((k, m, f) # l) i = (if k \<le> i \<and> i < k + m then Some (src f ! (i - k)) else look src l i)"

definition vds_rows :: "(string \<Rightarrow> 'r list) \<Rightarrow> vds \<Rightarrow> 'r option list" where
  "vds_rows src v = map (look src (vd_layout v)) [0..<hd (vd_shape v)]"

lemma look_None: "\<forall>(a, m, f)\<in>set l. i < a \<Longrightarrow> look src l i = None"
  by (induction l) auto

definition part_rows :: "(string \<Rightarrow> 'r list) \<Rightarrow> string \<Rightarrow> part_file \<Rightarrow> 'r option list" where
  "part_rows src name p = (case map_of (pt_dsets p) name of
      Some (_, shape) \<Rightarrow> map Some (src (pt_name p)) | None \<Rightarrow> replicate (projr (gap name p)) None)"

definition part_ok :: "(string \<Rightarrow> 'r list) \<Rightarrow> string \<Rightarrow> dtype \<times> nat list \<Rightarrow> part_file \<Rightarrow> bool" where
  "part_ok src name k p \<longleftrightarrow> (case map_of (pt_dsets p) name of
       Some (dtype, shape) \<Rightarrow> dtype = fst k \<and> shape = length (src (pt_name p)) # snd k
     | None \<Rightarrow> True) \<and> (\<forall>dt sh. map_of (pt_dsets p) ''/timestamp'' = Some (dt, sh) \<longrightarrow> sh \<noteq> [])"

lemma gap_ok: "part_ok src name k p \<Longrightarrow> \<exists>m. gap name p = Inr m"
  by (auto simp: gap_def part_ok_def first_dim_def neq_Nil_conv split: option.splits list.splits)

lemma total_events_run:
  "list_all (part_ok src name k) ps \<Longrightarrow>
    total_events name ps n last_seen = Inr (n + length (concat (map (part_rows src name) ps)),
      case filter (\<lambda>p. map_of (pt_dsets p) name \<noteq> None) ps of [] \<Rightarrow> last_seen
      | qs \<Rightarrow> map_of (pt_dsets (last qs)) name)"
proof (induction ps arbitrary: n last_seen)
  case (Cons p ps)
  show ?case
  proof (cases "map_of (pt_dsets p) name")
    case None
    then show ?thesis using Cons gap_ok [of src name k p] by (auto simp: part_rows_def split: list.splits)
  next
    case (Some ds)
    then show ?thesis using Cons
      by (cases ds) (auto simp: part_rows_def part_ok_def first_dim_def split: list.splits)
  qed
qed simp

text \<open>The places of the layout lie behind each other.\<close>

lemma make_layout_run:
  assumes "list_all (part_ok src name k) ps" and "\<forall>shape. refuses shape shape = None"
  shows "\<exists>l. make_layout refuses (snd k) name ps j = Inr l
    \<and> (\<forall>(a, m, f)\<in>set l. j \<le> a \<and> a + m \<le> j + length (concat (map (part_rows src name) ps)))
    \<and> (\<forall>i<length (concat (map (part_rows src name) ps)). look src l (j + i) = concat (map (part_rows src name) ps) ! i)"
  using assms(1)
proof (induction ps arbitrary: j)
  case Nil
  then show ?case by simp
next
  case (Cons p ps)
  let ?rest = "concat (map (part_rows src name) ps)"
  let ?n = "length (part_rows src name p)"
  obtain l where l: "make_layout refuses (snd k) name ps (j + ?n) = Inr l"
    "\<forall>(a, m, f)\<in>set l. j + ?n \<le> a \<and> a + m \<le> j + ?n + length ?rest"
    "\<forall>i<length ?rest. look src l (j + ?n + i) = ?rest ! i"
    using Cons.IH [of "j + ?n"] Cons.prems by auto
  have before: "look src l x = None" if "x < j + ?n" for x
    using l(2) that by (intro look_None) auto
  show ?case
  proof (cases "map_of (pt_dsets p) name")
    case None
    obtain m where m: "gap name p = Inr m" using gap_ok [of src name k p] Cons.prems by auto
    then have rows: "part_rows src name p = replicate m None" using None by (simp add: part_rows_def)
    have "look src l (j + i) = concat (map (part_rows src name) (p # ps)) ! i"
      if "i < length (concat (map (part_rows src name) (p # ps)))" for i
      using that before [of "j + i"] l(3) [rule_format, of "i - ?n"] rows
      by (cases "i < m") (auto simp: nth_append)
    then show ?thesis using l(1,2) None m rows by (intro exI [of _ l]) (auto simp: split_beta)
  next
    case (Some ds)
    let ?m = "length (src (pt_name p))"
    have ds: "ds = (fst k, ?m # snd k)" using Cons.prems Some by (cases ds) (auto simp: part_ok_def)
    have rows: "part_rows src name p = map Some (src (pt_name p))" using Some ds by (simp add: part_rows_def)
    have run: "make_layout refuses (snd k) name (p # ps) j = Inr ((j, ?m, pt_name p) # l)"
      using l(1) Some ds rows assms(2) by (simp add: first_dim_def)
    have "look src ((j, ?m, pt_name p) # l) (j + i) = concat (map (part_rows src name) (p # ps)) ! i"
      if "i < length (concat (map (part_rows src name) (p # ps)))" for i
      using that l(3) [rule_format, of "i - ?n"] rows
      by (cases "i < ?m") (auto simp: nth_append)
    then show ?thesis using run l(2) rows by (intro exI [of _ "(j, ?m, pt_name p) # l"]) (auto simp: split_beta)
  qed
qed

text \<open>A joined dataset shows the rows of the files one after the other, with gaps for missing ones.\<close>

lemma join_dset_run:
  assumes ok: "list_all (part_ok src name k) files" and some: "\<exists>p\<in>set files. map_of (pt_dsets p) name \<noteq> None"
    and h5: "\<forall>shape. refuses shape shape = None" and fill: "get_missing_value (fst k) = Inr m"
  shows "\<exists>v. join_dset refuses files name = Inr v \<and> vd_dtype v = fst k \<and> drop 1 (vd_shape v) = snd k
    \<and> vds_rows src v = concat (map (part_rows src name) files)"
proof -
  let ?rows = "concat (map (part_rows src name) files)"
  let ?qs = "filter (\<lambda>p. map_of (pt_dsets p) name \<noteq> None) files"
  have qs: "?qs \<noteq> []" using some by (auto simp: filter_empty_conv)
  then have "last ?qs \<in> set ?qs" by (rule last_in_set)
  then obtain ds where ds: "map_of (pt_dsets (last ?qs)) name = Some ds" "last ?qs \<in> set files" by auto
  then have k: "ds = (fst k, length (src (pt_name (last ?qs))) # snd k)"
    using ok by (cases ds) (auto simp: part_ok_def list_all_iff)
  have total: "total_events name files 0 None = Inr (length ?rows, Some (fst k, length (src (pt_name (last ?qs))) # snd k))"
    using total_events_run [OF ok, of 0 None] qs ds(1) k by (cases ?qs) auto
  obtain l where l: "make_layout refuses (snd k) name files 0 = Inr l"
    "\<forall>i<length ?rows. look src l i = ?rows ! i"
    using make_layout_run [where refuses = refuses and j = 0, OF ok h5] by auto
  let ?v = "\<lparr>vd_dtype = fst k, vd_shape = length ?rows # snd k, vd_layout = l, vd_fill = m\<rparr>"
  have "join_dset refuses files name = Inr ?v" using total l(1) fill by (simp add: join_dset_def)
  moreover have "vds_rows src ?v = ?rows"
    using l(2) by (intro nth_equalityI) (simp_all add: vds_rows_def)
  ultimately show ?thesis by (intro exI [of _ ?v]) simp
qed

section \<open>Reduction over the clients\<close>

text \<open>
  The value of a rank: an array, an int or float (a scalar, which becomes an array of one element),
  or anything else, which counts as no data.
\<close>

datatype red_op = OpSum | OpMin | OpMax

record 'a arr =
  ar_shape :: "nat list"
  ar_dtype :: dtype
  ar_els :: "'a list"

datatype 'a red_value = RScalar dtype 'a | RArray "'a arr" | ROther

fun as_array :: "'a red_value \<Rightarrow> 'a arr option" where
  "as_array (RScalar dtype x) = Some \<lparr>ar_shape = [1], ar_dtype = dtype, ar_els = [x]\<rparr>"
| "as_array (RArray a) = Some a"
| "as_array ROther = None"

type_synonym 'a arr_info = "(nat list \<times> dtype) \<times> 'a \<times> 'a"

definition arr_info :: "'a::linorder arr \<Rightarrow> pyexc + 'a arr_info" where
  "arr_info a = (if ar_els a = [] then Inl (ValueError ''zero-size array to reduction operation'')
     else Inr ((ar_shape a, ar_dtype a), Min (set (ar_els a)), Max (set (ar_els a))))"

text \<open>The infos of all ranks must agree in shape and type; the global minimum and maximum.\<close>

fun summary_info :: "'a::linorder arr_info option list \<Rightarrow> 'a arr_info option \<Rightarrow> pyexc + 'a arr_info option" where
  "summary_info [] acc = Inr acc"
| "summary_info (None # infos) acc = summary_info infos acc"
| "summary_info (Some i # infos) None = summary_info infos (Some i)"
| "summary_info (Some (k, lo, hi) # infos) (Some (k0, lo0, hi0)) =
     (if k \<noteq> k0 then Inl (RuntimeError ''Unable to reduce incompatible array shapes/types'')
      else summary_info infos (Some (k0, min lo lo0, max hi hi0)))"

fun all_infos :: "'a::linorder arr option list \<Rightarrow> pyexc + 'a arr_info option list" where
  "all_infos [] = Inr []"
| "all_infos (None # vs) = (case all_infos vs of Inl e \<Rightarrow> Inl e | Inr is \<Rightarrow> Inr (None # is))"
| "all_infos (Some a # vs) =
     (case arr_info a of Inl e \<Rightarrow> Inl e | Inr i \<Rightarrow> (case all_infos vs of Inl e \<Rightarrow> Inl e | Inr is \<Rightarrow> Inr (Some i # is)))"

definition red :: "red_op \<Rightarrow> 'a::{linorder, monoid_add} list \<Rightarrow> 'a" where
  "red op xs = (case op of OpSum \<Rightarrow> sum_list xs | OpMin \<Rightarrow> Min (set xs) | OpMax \<Rightarrow> Max (set xs))"

text \<open>\<open>comm.Reduce\<close>: element by element over the ranks.\<close>

definition mpi_reduce :: "red_op \<Rightarrow> nat \<Rightarrow> 'a::{linorder, monoid_add} arr list \<Rightarrow> 'a list" where
  "mpi_reduce op n arrs = map (\<lambda>j. red op (map (\<lambda>a. ar_els a ! j) arrs)) [0..<n]"

text \<open>What a rank without data contributes.\<close>

definition neutral :: "red_op \<Rightarrow> 'a::{linorder, monoid_add} arr_info \<Rightarrow> 'a arr" where
  "neutral op info = (case info of ((shape, dtype), lo, hi) \<Rightarrow>
     \<lparr>ar_shape = shape, ar_dtype = dtype,
      ar_els = replicate (prod_list shape) (case op of OpSum \<Rightarrow> 0 | OpMin \<Rightarrow> hi | OpMax \<Rightarrow> lo)\<rparr>)"

definition safe_reduction :: "red_op \<Rightarrow> 'a::{linorder, monoid_add} red_value list \<Rightarrow> pyexc + 'a arr" where
  "safe_reduction op vals =
     (case all_infos (map as_array vals) of Inl e \<Rightarrow> Inl e
      | Inr infos \<Rightarrow>
          (case summary_info infos None of Inl e \<Rightarrow> Inl e
           | Inr None \<Rightarrow> Inl (RuntimeError ''No arrays found for MPI reduce'')
           | Inr (Some info) \<Rightarrow>
               (let arrs = map (\<lambda>v. case as_array v of Some a \<Rightarrow> a | None \<Rightarrow> neutral op info) vals
                in Inr \<lparr>ar_shape = fst (fst info), ar_dtype = snd (fst info),
                        ar_els = mpi_reduce op (prod_list (fst (fst info))) arrs\<rparr>)))"

text \<open>The arrays that are there, of one shape and type.\<close>

definition arrays_of :: "'a red_value list \<Rightarrow> 'a arr list" where
  "arrays_of vals = List.map_filter as_array vals"

definition arrays_ok :: "nat list \<Rightarrow> dtype \<Rightarrow> 'a arr list \<Rightarrow> bool" where
  "arrays_ok shape dtype as \<longleftrightarrow> (\<forall>a\<in>set as. ar_shape a = shape \<and> ar_dtype a = dtype \<and> length (ar_els a) = prod_list shape)"

lemma all_infos_run:
  "(\<forall>a. Some a \<in> set vs \<longrightarrow> ar_els a \<noteq> []) \<Longrightarrow>
    all_infos vs = Inr (map (map_option (\<lambda>a. ((ar_shape a, ar_dtype a), Min (set (ar_els a)), Max (set (ar_els a))))) vs)"
proof (induction vs rule: all_infos.induct)
  case (3 a vs)
  then show ?case by (simp add: arr_info_def)
qed auto

text \<open>The summary bounds every element of every array.\<close>

definition bounded_by :: "'a::linorder arr_info \<Rightarrow> 'a arr_info option list \<Rightarrow> bool" where
  "bounded_by info infos \<longleftrightarrow> (\<forall>i. Some i \<in> set infos \<longrightarrow> fst (snd info) \<le> fst (snd i) \<and> snd (snd i) \<le> snd (snd info))"

lemma summary_info_run:
  "(\<forall>i. Some i \<in> set infos \<longrightarrow> fst i = k) \<Longrightarrow> (\<forall>j. acc = Some j \<longrightarrow> fst j = k) \<Longrightarrow>
    (acc \<noteq> None \<or> (\<exists>i. Some i \<in> set infos)) \<Longrightarrow>
    \<exists>info. summary_info infos acc = Inr (Some info) \<and> fst info = k \<and> bounded_by info infos \<and> bounded_by info [acc]"
proof (induction infos acc rule: summary_info.induct)
  case (1 acc)
  then show ?case by (auto simp: bounded_by_def)
next
  case (2 infos acc)
  then show ?case by (auto simp: bounded_by_def)
next
  case (3 i infos)
  then show ?case by (fastforce simp: bounded_by_def)
next
  case (4 key lo hi infos k0 lo0 hi0)
  have k: "key = k" using 4(2) [rule_format, of "(key, lo, hi)"] by simp
  have k0: "k0 = k" using 4(3) [rule_format, of "(k0, lo0, hi0)"] by simp
  obtain info where info: "summary_info infos (Some (k0, min lo lo0, max hi hi0)) = Inr (Some info)" "fst info = k"
    "bounded_by info infos" "bounded_by info [Some (k0, min lo lo0, max hi hi0)]"
    using 4(1) 4(2) k k0 by auto
  then show ?case using k k0 by (auto simp: bounded_by_def)
qed

lemma red_neutral:
  fixes hi :: "'a::{linorder, comm_monoid_add}"
  assumes "xs \<noteq> []" and "\<forall>x\<in>set xs. lo \<le> x \<and> x \<le> hi"
    and "set ys \<subseteq> {case op of OpSum \<Rightarrow> 0 | OpMin \<Rightarrow> hi | OpMax \<Rightarrow> lo}" and "mset zs = mset xs + mset ys"
  shows "red op zs = red op xs"
proof -
  have set: "set zs = set xs \<union> set ys" using arg_cong [OF assms(4), of set_mset] by simp
  show ?thesis
  proof (cases op)
    case OpSum
    have "sum_list zs = sum_list xs + sum_list ys" using assms(4) by (metis mset_append sum_mset_sum_list sum_list_append)
    moreover have "sum_list ys = 0" using assms(3) OpSum by (induction ys) auto
    ultimately show ?thesis using OpSum by (simp add: red_def)
  next
    case OpMin
    obtain x where x: "x \<in> set xs" using assms(1) by (cases xs) auto
    have "Min (set xs) \<le> y" if "y \<in> set ys" for y
    proof -
      have "y = hi" using that assms(3) OpMin by auto
      then show ?thesis using x assms(2) Min_le [of "set xs" x] by (meson List.finite_set order_trans)
    qed
    then have "Min (set zs) = Min (set xs)"
      using assms(1) unfolding set by (intro Min_eqI) (auto intro: Min_le Min_in)
    then show ?thesis using OpMin by (simp add: red_def)
  next
    case OpMax
    obtain x where x: "x \<in> set xs" using assms(1) by (cases xs) auto
    have "y \<le> Max (set xs)" if "y \<in> set ys" for y
    proof -
      have "y = lo" using that assms(3) OpMax by auto
      then show ?thesis using x assms(2) Max_ge [of "set xs" x] by (meson List.finite_set order_trans)
    qed
    then have "Max (set zs) = Max (set xs)"
      using assms(1) unfolding set by (intro Max_eqI) (auto intro: Max_ge Max_in)
    then show ?thesis using OpMax by (simp add: red_def)
  qed
qed

text \<open>The arrays of the ranks and what stands in for the others, as a multiset.\<close>

lemma mset_fill:
  "mset (map (\<lambda>v. case as_array v of Some a \<Rightarrow> f a | None \<Rightarrow> z) vals)
    = mset (map f (arrays_of vals)) + mset (replicate (length (filter (\<lambda>v. as_array v = None) vals)) z)"
  by (induction vals) (auto simp: arrays_of_def List.map_filter_simps split: option.splits)

lemma safe_reduction_run:
  fixes vals :: "'a::{linorder, comm_monoid_add} red_value list"
  assumes ok: "arrays_ok shape dtype (arrays_of vals)" and some: "arrays_of vals \<noteq> []" and pos: "0 < prod_list shape"
  shows "safe_reduction op vals
    = Inr \<lparr>ar_shape = shape, ar_dtype = dtype, ar_els = mpi_reduce op (prod_list shape) (arrays_of vals)\<rparr>"
proof -
  let ?info = "\<lambda>a. ((ar_shape a, ar_dtype a), Min (set (ar_els a)), Max (set (ar_els a)))"
  let ?infos = "map (map_option ?info) (map as_array vals)"
  have arr: "a \<in> set (arrays_of vals) \<longleftrightarrow> Some a \<in> set (map as_array vals)" for a
    by (induction vals) (auto simp: arrays_of_def List.map_filter_simps split: option.splits)
  have good: "ar_shape a = shape" "ar_dtype a = dtype" "length (ar_els a) = prod_list shape" if "a \<in> set (arrays_of vals)" for a
    using ok that by (auto simp: arrays_ok_def)
  have "ar_els a \<noteq> []" if "Some a \<in> set (map as_array vals)" for a
    using good(3) [of a] arr that pos by auto
  then have infos: "all_infos (map as_array vals) = Inr ?infos" by (intro all_infos_run) blast
  have in_infos: "Some i \<in> set ?infos \<longleftrightarrow> (\<exists>a\<in>set (arrays_of vals). i = ?info a)" for i
  proof -
    have "Some i \<in> set ?infos \<longleftrightarrow> (\<exists>a. Some a \<in> set (map as_array vals) \<and> i = ?info a)"
      by (auto simp: image_iff eq_commute [of "Some i"] simp del: prod.inject) (metis option.sel)+
    then show ?thesis using arr by blast
  qed
  obtain a0 where "a0 \<in> set (arrays_of vals)" using some by (cases "arrays_of vals") auto
  then have "\<exists>i. Some i \<in> set ?infos" using in_infos by blast
  moreover have "\<forall>i. Some i \<in> set ?infos \<longrightarrow> fst i = (shape, dtype)" using in_infos good by auto
  ultimately obtain info where info: "summary_info ?infos None = Inr (Some info)" "fst info = (shape, dtype)" "bounded_by info ?infos"
    using summary_info_run [of ?infos "(shape, dtype)" None] by auto
  obtain lo hi where lh: "info = ((shape, dtype), lo, hi)" using info(2) by (cases info) auto
  have elem: "lo \<le> x \<and> x \<le> hi" if "a \<in> set (arrays_of vals)" "x \<in> set (ar_els a)" for a x
  proof -
    have "Some (?info a) \<in> set ?infos" using in_infos that(1) by blast
    then have "lo \<le> Min (set (ar_els a))" "Max (set (ar_els a)) \<le> hi"
      using info(3) lh unfolding bounded_by_def by fastforce+
    then show ?thesis using that(2) by (meson List.finite_set Max_ge Min_le order_trans)
  qed
  let ?fill = "\<lambda>v. case as_array v of Some a \<Rightarrow> a | None \<Rightarrow> neutral op info"
  have "red op (map (\<lambda>a. ar_els a ! j) (map ?fill vals)) = red op (map (\<lambda>a. ar_els a ! j) (arrays_of vals))"
    if j: "j < prod_list shape" for j
  proof (rule red_neutral)
    let ?z = "case op of OpSum \<Rightarrow> 0 | OpMin \<Rightarrow> hi | OpMax \<Rightarrow> lo"
    have z: "ar_els (neutral op info) ! j = ?z" using j by (simp add: neutral_def lh)
    have "map (\<lambda>a. ar_els a ! j) (map ?fill vals) = map (\<lambda>v. case as_array v of Some a \<Rightarrow> ar_els a ! j | None \<Rightarrow> ?z) vals"
      using z by (auto split: option.splits)
    then show "mset (map (\<lambda>a. ar_els a ! j) (map ?fill vals)) = mset (map (\<lambda>a. ar_els a ! j) (arrays_of vals))
        + mset (replicate (length (filter (\<lambda>v. as_array v = None) vals)) ?z)"
      by (simp only: mset_fill)
    show "map (\<lambda>a. ar_els a ! j) (arrays_of vals) \<noteq> []" using some by simp
    show "\<forall>x\<in>set (map (\<lambda>a. ar_els a ! j) (arrays_of vals)). lo \<le> x \<and> x \<le> hi"
      using elem good(3) j by auto
    show "set (replicate (length (filter (\<lambda>v. as_array v = None) vals)) ?z) \<subseteq> {?z}" by auto
  qed
  then have "mpi_reduce op (prod_list shape) (map ?fill vals) = mpi_reduce op (prod_list shape) (arrays_of vals)"
    by (simp add: mpi_reduce_def)
  then show ?thesis
    unfolding safe_reduction_def infos sum.case info(1) option.case info(2) fst_conv snd_conv Let_def by simp
qed

end
