(* ===== verification/SmallProps.thy ===== *)
theory SmallProps
  imports SmallJoin
begin

text \<open>
  The properties of smalldata (\<^verbatim>\<open>psana/psana/smalldata.py\<close>), each followed by an
  application to two events, the second of which lacks a dataset.
\<close>

section \<open>A small run\<close>

definition np0 :: np where
  "np0 = \<lparr>np_cast = (\<lambda>dtype x. Inr x),
     np_assign = (\<lambda>dtype shape v. case v of PyInt i \<Rightarrow> Inr [EInt i] | PyFloat f \<Rightarrow> Inr [EFloat f]
       | NpArray d s els \<Rightarrow> if s = shape then Inr els else Inl (ValueError ''could not broadcast'') | PyOther \<Rightarrow> Inl TypeError),
     np_empty = (\<lambda>dtype shape. replicate (prod_list shape) (EInt 0)), h5_refuses = (\<lambda>_ _ _ _. None)\<rparr>"

definition calls0 :: "call list" where
  "calls0 = [(5, [], [(''x'', PyInt 3)]), (5, [[(''d'', Node [(''y'', Leaf (PyInt 4))])]], []), (4, [], [(''x'', PyInt 9)]),
     (7, [], [(''x'', PyInt 6)])]"

definition events0 :: "event_dict list" where
  "events0 = [[(''x'', PyInt 3), (''timestamp'', PyInt 5), (''d/y'', PyInt 4)], [(''x'', PyInt 6), (''timestamp'', PyInt 7)]]"

lemma merged0: "merge_calls (-1) [] (map call_data calls0) = events0"
  by code_simp

lemma h5_accepts0: "h5_accepts np0 Names name k"
  by (simp add: h5_accepts_def np0_def)

lemma unaligned0: "\<not> is_unaligned ''x''" "\<not> is_unaligned ''d/y''" "\<not> is_unaligned ''timestamp''" "is_unaligned ''a/unaligned_b''"
  by code_simp+

lemma run_ok0: "run_ok np0 {''x'', ''timestamp'', ''d/y''} events0"
proof -
  have "np_copies np0" by (simp add: np_copies_def np0_def)
  moreover have "events_ok np0 {''x'', ''timestamp'', ''d/y''} (0, \<lambda>_. None) events0"
    by (simp add: events0_def event_ok_def item_ok_def h5_accepts0 spec_event_def spec_item_def describe_def unaligned0)
       (simp add: np0_def fillable_def get_missing_value_def)
  ultimately show ?thesis by (simp add: run_ok_def)
qed

lemma columns0:
  "column_of np0 events0 ''x'' = Some ((IntType ''i8'', []), [[EInt 3], [EInt 6]])"
  "column_of np0 events0 ''d/y'' = Some ((IntType ''i8'', []), [[EInt 4], [EInt (-99999)]])"
  by (simp_all add: column_of_def present_def events0_def describe_def unaligned0 slot_row_def missing_row_def np0_def
      get_missing_value_def MISSING_INT_def)

section \<open>The server\<close>

text \<open>
  C25. A smalldata server that handles the events of a run and is done has written, for every
  dataset that appears in an event, exactly its column: for an aligned dataset one row per event of
  the run, the value where the event has one and the missing value elsewhere, before its first
  appearance too; for an unaligned one the values in order. Nothing else is in the file, whatever the
  size of the cache. The events must be such that the server can store them: no name twice in an
  event, every value assignable to the type and shape that its name had at first, with a missing value
  of that type for aligned names, and names that h5py accepts beside each other.
\<close>

theorem server_writes_columns:
  assumes "run_ok N Names evs" and "0 < cache_size"
    and "list_all2 (\<lambda>ev0 ev. run_callbacks callbacks ev0 = Inr ev) evs0 evs"
  shows "\<exists>t. eseq (handle N evs0) server_done (server_init (Some filename) cache_size callbacks) = (Inr (), t) \<and> sv_closed t
    \<and> (\<forall>name. map_of (sv_file t) name = map_option dataset_of (column_of N evs name))"
  using assms by (rule file_from_empty)

theorem server_writes_columns_witness:
  "\<exists>t. eseq (handle np0 events0) server_done (server_init (Some ''f.h5'') 1 []) = (Inr (), t) \<and> sv_closed t
    \<and> map_of (sv_file t) ''d/y'' = Some \<lparr>hd_dtype = IntType ''i8'', hd_shape = [], hd_rows = [[EInt 4], [EInt (-99999)]]\<rparr>"
  using server_writes_columns [OF run_ok0 _ callbacks_none, of 1 "''f.h5''"] columns0(2) by (auto simp: dataset_of_def)

text \<open>
  At any point of the run the rows of every aligned dataset, in the file and in its cache, are
  as many as the events the server has seen, and fewer rows than the cache has slots are not yet in
  the file.
\<close>

theorem aligned_rows_count_events:
  assumes "run_ok N Names evs" and "0 < cache_size"
    and "list_all2 (\<lambda>ev0 ev. run_callbacks callbacks ev0 = Inr ev) evs0 evs"
  shows "\<exists>t. handle N evs0 (server_init (Some filename) cache_size callbacks) = (Inr (), t)
    \<and> sv_num_events_seen t = length evs0
    \<and> (\<forall>name d. map_of (sv_file t) name = Some d \<and> \<not> is_unaligned name \<longrightarrow>
         (let waiting = (case map_of (sv_cache t) name of None \<Rightarrow> 0 | Some c \<Rightarrow> ca_n_events c)
          in waiting < sv_cache_size t \<and> length (hd_rows d) + waiting = sv_num_events_seen t))"
proof -
  obtain t where t: "handle N evs0 (server_init (Some filename) cache_size callbacks) = (Inr (), t)"
    "represents t (column_of N evs)" "sv_num_events_seen t = length evs" using handle_from_empty [OF assms] by blast
  have "(case map_of (sv_cache t) name of None \<Rightarrow> 0 | Some c \<Rightarrow> ca_n_events c) < sv_cache_size t
      \<and> length (hd_rows d) + (case map_of (sv_cache t) name of None \<Rightarrow> 0 | Some c \<Rightarrow> ca_n_events c) = length evs"
    if d: "map_of (sv_file t) name = Some d" and al: "\<not> is_unaligned name" for name d
  proof -
    have h: "holds t name (column_of N evs name)" and pos: "0 < sv_cache_size t" using t(2) by (simp_all add: represents_def)
    obtain k rows where col: "column_of N evs name = Some (k, rows)" using h d by (cases "column_of N evs name") (auto simp: holds_def)
    then have "length rows = length evs" using al by (auto simp: column_of_def Let_def split: list.splits)
    then show ?thesis using h col d pos
      by (cases "map_of (sv_cache t) name") (auto simp: holds_def cached_def)
  qed
  then show ?thesis using t(1,3) list_all2_lengthD [OF assms(3)] by (auto simp: Let_def)
qed

theorem aligned_rows_count_events_witness:
  "\<exists>t. handle np0 events0 (server_init (Some ''f.h5'') 4 []) = (Inr (), t) \<and> sv_num_events_seen t = length events0
    \<and> \<not> (\<exists>name d. map_of (sv_file t) name = Some d \<and> \<not> is_unaligned name \<and>
         \<not> (let waiting = (case map_of (sv_cache t) name of None \<Rightarrow> 0 | Some c \<Rightarrow> ca_n_events c)
          in waiting < sv_cache_size t \<and> length (hd_rows d) + waiting = sv_num_events_seen t))"
  using aligned_rows_count_events [OF run_ok0 _ callbacks_none, of 4 "''f.h5''"] by auto

text \<open>
  C26. A server of \<open>k\<close> clients, each of which ends with \<open>done\<close>, leaves its loop when all
  are done, with no message left, and its file then has the columns of all events of all batches in
  the order of arrival, when the server can store these.
\<close>

theorem server_hears_all_clients:
  assumes "count_list msgs DoneMsg = k" and "msgs = [] \<or> last msgs = DoneMsg"
    and "run_ok N Names (batches_of msgs)" and "0 < cache_size"
  shows "\<exists>t. ebind (recv_loop N k msgs) (\<lambda>left. eseq server_done (eret left)) (server_init (Some filename) cache_size [])
      = (Inr [], t)
    \<and> (\<forall>name. map_of (sv_file t) name = map_option dataset_of (column_of N (batches_of msgs) name))"
proof -
  obtain t where t: "eseq (handle N (batches_of msgs)) server_done (server_init (Some filename) cache_size []) = (Inr (), t)"
    "\<forall>name. map_of (sv_file t) name = map_option dataset_of (column_of N (batches_of msgs) name)"
    using file_from_empty [OF assms(3,4) callbacks_none] by blast
  obtain u where "handle N (batches_of msgs) (server_init (Some filename) cache_size []) = (Inr (), u)" "server_done u = (Inr (), t)"
    using t(1) by (elim eseq_InrD) auto
  then show ?thesis using t(2) recv_loop_handle [of k msgs N] take_msgs_all [OF assms(1,2)] assms(1)
    by (intro exI [of _ t]) (simp add: eff_simps)
qed

theorem server_hears_all_clients_witness:
  "\<exists>t. ebind (recv_loop np0 2 [Batch [hd events0], DoneMsg, Batch (tl events0), DoneMsg]) (\<lambda>left. eseq server_done (eret left))
      (server_init (Some ''f.h5'') 3 []) = (Inr [], t)
    \<and> map_of (sv_file t) ''x'' = Some \<lparr>hd_dtype = IntType ''i8'', hd_shape = [], hd_rows = [[EInt 3], [EInt 6]]\<rparr>"
proof -
  let ?msgs = "[Batch [hd events0], DoneMsg, Batch (tl events0), DoneMsg]"
  have b: "batches_of ?msgs = events0" by (simp add: events0_def)
  have "count_list ?msgs DoneMsg = 2" "?msgs = [] \<or> last ?msgs = DoneMsg" by simp_all
  then show ?thesis
    using server_hears_all_clients [of ?msgs 2 np0 "{''x'', ''timestamp'', ''d/y''}" 3 "''f.h5''"] run_ok0 columns0(1)
    unfolding b by (auto simp: dataset_of_def)
qed

section \<open>The client\<close>

text \<open>
  C27. A serial run with any calls whose time stamps are not negative, a batch size that is positive,
  any cache size, and callbacks that answer: the file holds the columns of the merged events as the
  callbacks return them. Calls with the time stamp of the event before add to it, later ones begin a
  new event, older ones are ignored. The events must be such that the server can store them: no name
  twice in an event, every value assignable to the type and shape that its name had at first, with a
  missing value of that type for aligned names, and names that h5py accepts beside each other.
\<close>

theorem serial_run_writes_columns:
  assumes "0 < batch_size" and "\<forall>(ts, args, kwargs)\<in>set calls. 0 \<le> ts"
    and "list_all2 (\<lambda>ev0 ev. run_callbacks callbacks ev0 = Inr ev) (merge_calls (-1) [] (map call_data calls)) evs"
    and "run_ok N Names evs"
  shows "\<exists>t r. eseq (sd_events N calls) (sd_done N)
      (setup_parms SerialMode role rank (Some filename) srv_file batch_size cache_size callbacks) = (Inr r, t)
    \<and> (\<forall>name. map_of (sv_file (cl_server t)) name
         = map_option dataset_of (column_of N evs name))"
proof -
  let ?evs = "merge_calls (-1) [] (map call_data calls)"
  let ?s = "setup_parms SerialMode role rank (Some filename) srv_file batch_size cache_size callbacks"
  let ?sv = "server_init (Some filename) (setup_cache_size batch_size cache_size) callbacks"
  have s: "cl_server ?s = ?sv" "cl_mode ?s = SerialMode" "cl_prev ?s = -1" "cl_role ?s = SerialRole" by (simp_all add: setup_parms_def)
  have "0 < setup_cache_size batch_size cache_size" using assms(1) by (auto simp: setup_cache_size_def split: option.splits)
  from file_from_empty [OF assms(4) this assms(3)] obtain v
    where v: "eseq (handle N ?evs) server_done ?sv = (Inr (), v)"
      "\<forall>name. map_of (sv_file v) name = map_option dataset_of (column_of N evs name)" by blast
  obtain w where w: "handle N ?evs ?sv = (Inr (), w)" "server_done w = (Inr (), v)" using v(1) by (elim eseq_InrD) auto
  obtain t bs where t: "sd_events N calls ?s = (Inr (), t)" "same_setup ?s t" "client_inv N ?sv bs ?evs t"
    using sd_events_run [OF setup_inv [OF assms(1), of N SerialMode role rank "Some filename" srv_file cache_size callbacks] assms(2)] w s
    by (auto simp: handles_def)
  have mode: "cl_mode t = SerialMode" "cl_role t = SerialRole" using t(2) s by (simp_all add: same_setup_def)
  have "handle N (concat bs @ cl_batch t) ?sv = (Inr (), w)" using w(1) t(3) by (simp add: client_inv_def)
  moreover have "handle N (concat bs) ?sv = (Inr (), cl_server t)" using t(3) mode by (simp add: client_inv_def shipped_def)
  ultimately have "handle N (cl_batch t) (cl_server t) = (Inr (), w)" by (simp add: handle_append eff_simps)
  then have "sd_done N t = (Inr False, t\<lparr>cl_server := v\<rparr>)" using mode w(2)
    by (simp add: sd_done_def eff_simps on_server_def)
  then show ?thesis using t(1) v(2) by (intro exI [of _ "t\<lparr>cl_server := v\<rparr>"] exI [of _ False]) (simp add: eff_simps)
qed

theorem serial_run_writes_columns_witness:
  "\<exists>t r. eseq (sd_events np0 calls0) (sd_done np0) (setup_parms SerialMode SerialRole 0 (Some ''f.h5'') None 1 None []) = (Inr r, t)
    \<and> map_of (sv_file (cl_server t)) ''d/y'' = Some \<lparr>hd_dtype = IntType ''i8'', hd_shape = [], hd_rows = [[EInt 4], [EInt (-99999)]]\<rparr>"
proof -
  have "\<forall>(ts, args, kwargs)\<in>set calls0. 0 \<le> ts" by (simp add: calls0_def)
  then obtain t r where "eseq (sd_events np0 calls0) (sd_done np0) (setup_parms SerialMode SerialRole 0 (Some ''f.h5'') None 1 None []) = (Inr r, t)"
    "\<forall>name. map_of (sv_file (cl_server t)) name = map_option dataset_of (column_of np0 events0 name)"
    using serial_run_writes_columns [of 1 calls0 "[]" events0 np0 "{''x'', ''timestamp'', ''d/y''}" SerialRole 0 "''f.h5''" None None] run_ok0 callbacks_none
    unfolding merged0 by auto
  then show ?thesis using columns0(2) by (intro exI [of _ t] exI [of _ r]) (simp add: dataset_of_def)
qed

text \<open>
  C28. A client of a parallel run ships every merged event once and in order, in batches of exactly
  the batch size but for the last, which is not longer and not empty, and then \<open>done\<close>.
\<close>

theorem parallel_client_ships_events:
  assumes "0 < batch_size" and "\<forall>(ts, args, kwargs)\<in>set calls. 0 \<le> ts"
  shows "\<exists>t r bs b. eseq (sd_events N calls) (sd_done N)
      (setup_parms ParallelMode ClientRole rank filename srv_file batch_size cache_size callbacks) = (Inr r, t)
    \<and> cl_sent t = map Batch (bs @ b) @ [DoneMsg] \<and> concat (bs @ b) = merge_calls (-1) [] (map call_data calls)
    \<and> (\<forall>x\<in>set bs. length x = batch_size) \<and> length b \<le> 1 \<and> (\<forall>x\<in>set b. x \<noteq> [] \<and> length x \<le> batch_size)
    \<and> r = (filename \<noteq> None \<and> rank = 0)"
proof -
  let ?evs = "merge_calls (-1) [] (map call_data calls)"
  let ?s = "setup_parms ParallelMode ClientRole rank filename srv_file batch_size cache_size callbacks"
  have s: "cl_mode ?s = ParallelMode" "cl_prev ?s = -1" "cl_role ?s = ClientRole" "cl_batch_size ?s = batch_size"
    "cl_rank ?s = rank" "cl_full_filename ?s = filename" by (simp_all add: setup_parms_def)
  obtain t bs where t: "sd_events N calls ?s = (Inr (), t)" "same_setup ?s t" "client_inv N (cl_server ?s) bs ?evs t"
    using sd_events_run [OF setup_inv [OF assms(1), of N ParallelMode ClientRole rank filename srv_file cache_size callbacks] assms(2)] s
    by auto
  have same: "cl_mode t = ParallelMode" "cl_role t = ClientRole" "cl_batch_size t = batch_size" "cl_rank t = rank"
    "cl_full_filename t = filename" using t(2) s by (simp_all add: same_setup_def)
  have inv: "cl_sent t = map Batch bs" "concat bs @ cl_batch t = ?evs" "\<forall>x\<in>set bs. length x = batch_size" "length (cl_batch t) \<le> batch_size"
    using t(3) same by (auto simp: client_inv_def shipped_def full_batches_def list_all_iff)
  let ?b = "if cl_batch t = [] then [] else [cl_batch t]"
  have "sd_done N t = (Inr (filename \<noteq> None \<and> rank = 0), t\<lparr>cl_sent := map Batch (bs @ ?b) @ [DoneMsg]\<rparr>)"
    using same inv(1) by (auto simp: sd_done_def eff_simps cl_send_def)
  then have "eseq (sd_events N calls) (sd_done N) ?s = (Inr (filename \<noteq> None \<and> rank = 0), t\<lparr>cl_sent := map Batch (bs @ ?b) @ [DoneMsg]\<rparr>)"
    using t(1) by (simp add: eff_simps)
  moreover have "concat (bs @ ?b) = ?evs" "length ?b \<le> 1" "\<forall>x\<in>set ?b. x \<noteq> [] \<and> length x \<le> batch_size" using inv by auto
  moreover have "cl_sent (t\<lparr>cl_sent := map Batch (bs @ ?b) @ [DoneMsg]\<rparr>) = map Batch (bs @ ?b) @ [DoneMsg]" by simp
  ultimately show ?thesis using inv(3)
    by (intro exI [where x = "t\<lparr>cl_sent := map Batch (bs @ ?b) @ [DoneMsg]\<rparr>"] exI [where x = "filename \<noteq> None \<and> rank = 0"])
       (rule exI [where x = bs], rule exI [where x = ?b], blast)
qed

theorem parallel_client_ships_events_witness:
  "\<exists>t r bs b. eseq (sd_events np0 calls0) (sd_done np0) (setup_parms ParallelMode ClientRole 0 (Some ''f.h5'') None 1 None []) = (Inr r, t)
    \<and> cl_sent t = map Batch (bs @ b) @ [DoneMsg] \<and> concat (bs @ b) = events0 \<and> r"
proof -
  have "\<forall>(ts, args, kwargs)\<in>set calls0. 0 \<le> ts" by (simp add: calls0_def)
  then show ?thesis using parallel_client_ships_events [of 1 calls0 np0 0 "Some ''f.h5''" None None "[]"] unfolding merged0 by fastforce
qed

section \<open>Behind the run\<close>

text \<open>
  \<open>join_files\<close> shows, of a dataset that some partial file has, the rows of the files one
  behind the other, with as many missing values for a file that lacks it as that file has time
  stamps, if the dataset is aligned. So aligned datasets of files whose datasets have a row per time
  stamp all have the rows of all time stamps.
\<close>

theorem joined_rows:
  assumes "list_all (part_ok src name k) files" and "\<exists>p\<in>set files. map_of (pt_dsets p) name \<noteq> None"
    and "\<forall>shape. refuses shape shape = None" and "get_missing_value (fst k) = Inr m"
  shows "\<exists>v. join_dset refuses files name = Inr v \<and> vd_dtype v = fst k \<and> drop 1 (vd_shape v) = snd k
    \<and> vds_rows src v = concat (map (part_rows src name) files)
    \<and> ((\<forall>p\<in>set files. map_of (pt_dsets p) name \<noteq> None \<longrightarrow> length (src (pt_name p)) = projr (gap name p)) \<longrightarrow>
         length (vds_rows src v) = sum_list (map (\<lambda>p. projr (gap name p)) files))"
proof -
  obtain v where v: "join_dset refuses files name = Inr v" "vd_dtype v = fst k" "drop 1 (vd_shape v) = snd k"
    "vds_rows src v = concat (map (part_rows src name) files)" using join_dset_run [where refuses = refuses, OF assms] by blast
  have "length (part_rows src name p) = projr (gap name p)"
    if "map_of (pt_dsets p) name \<noteq> None \<longrightarrow> length (src (pt_name p)) = projr (gap name p)" for p
    using that by (auto simp: part_rows_def split: option.splits)
  then have "length (concat (map (part_rows src name) files)) = sum_list (map (\<lambda>p. projr (gap name p)) files)"
    if "\<forall>p\<in>set files. map_of (pt_dsets p) name \<noteq> None \<longrightarrow> length (src (pt_name p)) = projr (gap name p)"
    using that by (induction files) auto
  then show ?thesis using v by auto
qed

definition parts0 :: "part_file list" where
  "parts0 = [\<lparr>pt_name = ''a'', pt_dsets = [(''/timestamp'', IntType ''i8'', [2])]\<rparr>,
     \<lparr>pt_name = ''b'', pt_dsets = [(''/timestamp'', IntType ''i8'', [1]), (''/x'', IntType ''i8'', [1])]\<rparr>]"

theorem joined_rows_witness:
  "\<exists>v. join_dset (\<lambda>d s. if d = s then None else Some TypeError) parts0 ''/x'' = Inr v
    \<and> vds_rows (\<lambda>f. if f = ''b'' then [7::int] else []) v = [None, None, Some 7]"
proof -
  have al: "\<not> is_unaligned ''/x''" by code_simp
  have "list_all (part_ok (\<lambda>f. if f = ''b'' then [7::int] else []) ''/x'' (IntType ''i8'', [])) parts0"
    by (simp add: parts0_def part_ok_def)
  then obtain v where "join_dset (\<lambda>d s. if d = s then None else Some TypeError) parts0 ''/x'' = Inr v"
    "vds_rows (\<lambda>f. if f = ''b'' then [7::int] else []) v = concat (map (part_rows (\<lambda>f. if f = ''b'' then [7::int] else []) ''/x'') parts0)"
    using joined_rows [of "\<lambda>f. if f = ''b'' then [7::int] else []" "''/x''" "(IntType ''i8'', [])" parts0
        "\<lambda>d s. if d = s then None else Some TypeError" "EInt MISSING_INT"]
    by (auto simp: parts0_def get_missing_value_def)
  then show ?thesis using al by (auto simp: parts0_def part_rows_def gap_def first_dim_def numeral_2_eq_2)
qed

text \<open>
  A reduction over the clients is that of the arrays that are there, for sum, minimum and
  maximum: ranks without data do not change it, however many there are.
\<close>

theorem reduction_ignores_empty_ranks:
  fixes vals :: "'a::{linorder, comm_monoid_add} red_value list"
  assumes "arrays_ok shape dtype (arrays_of vals)" and "arrays_of vals \<noteq> []" and "0 < prod_list shape"
  shows "safe_reduction op vals
    = Inr \<lparr>ar_shape = shape, ar_dtype = dtype, ar_els = mpi_reduce op (prod_list shape) (arrays_of vals)\<rparr>"
  using assms by (rule safe_reduction_run)

theorem reduction_ignores_empty_ranks_witness:
  "safe_reduction OpMin [ROther, RScalar (IntType ''i8'') (5::int), ROther, RScalar (IntType ''i8'') 3]
    = Inr \<lparr>ar_shape = [1], ar_dtype = IntType ''i8'', ar_els = [3]\<rparr>"
proof -
  let ?vals = "[ROther, RScalar (IntType ''i8'') (5::int), ROther, RScalar (IntType ''i8'') 3]"
  have vals: "arrays_of ?vals = [\<lparr>ar_shape = [1], ar_dtype = IntType ''i8'', ar_els = [5]\<rparr>, \<lparr>ar_shape = [1], ar_dtype = IntType ''i8'', ar_els = [3]\<rparr>]"
    by (simp add: arrays_of_def List.map_filter_simps)
  then have "arrays_ok [1] (IntType ''i8'') (arrays_of ?vals)" by (simp add: arrays_ok_def)
  from reduction_ignores_empty_ranks [OF this] show ?thesis by (simp add: vals mpi_reduce_def red_def)
qed

end
