(* ===== verification/PyObj.thy ===== *)
theory PyObj
  imports PyJson
begin

text \<open>
  The objects the dgram reader builds from the names in a datagram: attributes, segments keyed by
  number, and values. \<open>Obj\<close> is an object with its \<open>__dict__\<close> in order, \<open>Dic\<close> a dictionary
  keyed by the segment, \<open>Val\<close> a value, which has neither attributes nor items. A read raises what
  Python raises.
\<close>

datatype 'v pyval = VInt int | VStr string | VInts "int list" | VData 'v

datatype 'v pyo = Val "'v pyval" | Obj "(string \<times> 'v pyo) list" | Dic "(int \<times> 'v pyo) list"

type_synonym 'v attrs = "(string \<times> 'v pyo) list"

fun obj_hasattr :: "'v pyo \<Rightarrow> string \<Rightarrow> bool" where
  "obj_hasattr (Obj as) n \<longleftrightarrow> map_of as n \<noteq> None"
| "obj_hasattr _ n \<longleftrightarrow> False"

fun obj_getattr :: "'v pyo \<Rightarrow> string \<Rightarrow> pyexc + 'v pyo" where
  "obj_getattr (Obj as) n = (case map_of as n of None \<Rightarrow> Inl (AttributeError n) | Some v \<Rightarrow> Inr v)"
| "obj_getattr _ n = Inl (AttributeError n)"

fun obj_setattr :: "'v pyo \<Rightarrow> string \<Rightarrow> 'v pyo \<Rightarrow> pyexc + 'v pyo" where
  "obj_setattr (Obj as) n v = Inr (Obj (AList.update n v as))"
| "obj_setattr _ n v = Inl (AttributeError n)"

fun obj_vars :: "'v pyo \<Rightarrow> pyexc + 'v attrs" where
  "obj_vars (Obj as) = Inr as"
| "obj_vars _ = Inl TypeError"

fun obj_items :: "'v pyo \<Rightarrow> pyexc + (int \<times> 'v pyo) list" where
  "obj_items (Dic kvs) = Inr kvs"
| "obj_items _ = Inl (AttributeError ''items'')"

fun obj_item :: "'v pyo \<Rightarrow> int \<Rightarrow> pyexc + 'v pyo" where
  "obj_item (Dic kvs) k = dict_get kvs k"
| "obj_item _ k = Inl TypeError"

fun obj_set_item :: "'v pyo \<Rightarrow> int \<Rightarrow> 'v pyo \<Rightarrow> pyexc + 'v pyo" where
  "obj_set_item (Dic kvs) k v = Inr (Dic (AList.update k v kvs))"
| "obj_set_item _ k v = Inl TypeError"

fun obj_int :: "'v pyo \<Rightarrow> pyexc + int" where
  "obj_int (Val (VInt i)) = Inr i"
| "obj_int _ = Inl TypeError"

fun obj_str :: "'v pyo \<Rightarrow> pyexc + string" where
  "obj_str (Val (VStr s)) = Inr s"
| "obj_str _ = Inl TypeError"

text \<open>The numbers a tuple yields.\<close>

fun obj_ints :: "'v pyo \<Rightarrow> pyexc + int list" where
  "obj_ints (Val (VInts is)) = Inr is"
| "obj_ints _ = Inl TypeError"

text \<open>A path of attributes.\<close>

fun obj_path :: "'v pyo \<Rightarrow> string list \<Rightarrow> 'v pyo option" where
  "obj_path x [] = Some x"
| "obj_path (Obj as) (n # ns) = (case map_of as n of None \<Rightarrow> None | Some v \<Rightarrow> obj_path v ns)"
| "obj_path _ (n # ns) = None"

end
