(* ===== verification/StepIter.thy ===== *)
theory StepIter
  imports EventManager
begin

text \<open>
  The generators a user loops over (\<^verbatim>\<open>psana/psana/psexp/run.py\<close>,
  \<^verbatim>\<open>step.py\<close>, \<^verbatim>\<open>mpi_ds.py\<close>): the events of a run, its steps, and the
  events of a step. A step shares the iterator of its run, so an iterator is the list of events that
  are left, and a generator that is run to its end gives what it yields and what is left. An event
  is its service and what it carries.
\<close>

definition TransitionId_BeginRun :: nat where
  "TransitionId_BeginRun = 4"

definition TransitionId_EndRun :: nat where
  "TransitionId_EndRun = 5"

definition TransitionId_BeginStep :: nat where
  "TransitionId_BeginStep = 6"

definition TransitionId_EndStep :: nat where
  "TransitionId_EndStep = 7"

definition TransitionId_Disable :: nat where
  "TransitionId_Disable = 9"

definition TransitionId_SlowUpdate :: nat where
  "TransitionId_SlowUpdate = 10"

type_synonym 'e evt = "nat \<times> 'e"

section \<open>Runs\<close>

text \<open>\<open>events\<close> of RunShmem, RunSingleFile and RunSerial.\<close>

fun run_events :: "'e evt list \<Rightarrow> 'e evt list \<times> 'e evt list" where
  "run_events [] = ([], [])"
| "run_events (e # es) =
     (if fst e \<noteq> TransitionId_L1Accept
      then (if fst e = TransitionId_EndRun then ([], es) else run_events es)
      else (e # fst (run_events es), snd (run_events es)))"

text \<open>\<open>events\<close> of RunParallel, whose iterator ends with the run.\<close>

fun parallel_events :: "'e evt list \<Rightarrow> 'e evt list" where
  "parallel_events [] = []"
| "parallel_events (e # es) = (if fst e \<noteq> TransitionId_L1Accept then parallel_events es else e # parallel_events es)"

text \<open>
  \<open>Step.events\<close>, with the transitions that are added to \<open>proxy_events\<close>. What is left is
  behind the end of the step.
\<close>

fun step_events_of :: "'e evt list \<Rightarrow> 'e evt list \<times> 'e evt list \<times> 'e evt list" where
  "step_events_of [] = ([], [], [])"
| "step_events_of (e # es) =
     (if fst e \<noteq> TransitionId_L1Accept
      then (if fst e = TransitionId_EndStep then ([], [], es)
            else (case step_events_of es of (ys, ps, rest) \<Rightarrow> (ys, e # ps, rest)))
      else (case step_events_of es of (ys, ps, rest) \<Rightarrow> (e # ys, ps, rest)))"

lemma step_events_rest: "length (snd (snd (step_events_of es))) \<le> length es"
  by (induction es rule: step_events_of.induct) (auto split: prod.splits)

text \<open>
  \<open>for step in run.steps(): for evt in step.events(): ...\<close>, every step run to its end: the steps
  with their events, the transitions added to \<open>proxy_events\<close>, and what is left. \<open>small\<close> is
  RunSmallData, whose \<open>steps\<close> adds the transitions between the steps.
\<close>

function run_steps :: "bool \<Rightarrow> 'e evt list \<Rightarrow> ('e evt \<times> 'e evt list) list \<times> 'e evt list \<times> 'e evt list" where
  "run_steps small [] = ([], [], [])"
| "run_steps small (e # es) =
     (if fst e = TransitionId_L1Accept then run_steps small es
      else if fst e = TransitionId_EndRun then ([], (if small then [e] else []), es)
      else if fst e = TransitionId_BeginStep
      then (case step_events_of es of (ys, ps, rest) \<Rightarrow>
              case run_steps small rest of (ss, qs, left) \<Rightarrow> ((e, ys) # ss, (if small then e # ps @ qs else []), left))
      else (case run_steps small es of (ss, qs, left) \<Rightarrow> (ss, (if small then e # qs else []), left)))"
  by pat_completeness auto
termination
proof (relation "measure (\<lambda>(small, es). length es)", goal_cases)
  case (3 small e es x y xa rest)
  then have "snd (snd (step_events_of es)) = rest" by (metis snd_conv)
  then show ?case using step_events_rest [of es] by auto
qed auto

text \<open>\<open>steps\<close> of RunParallel does not stop at the end of the run.\<close>

function parallel_steps :: "'e evt list \<Rightarrow> ('e evt \<times> 'e evt list) list" where
  "parallel_steps [] = []"
| "parallel_steps (e # es) =
     (if fst e = TransitionId_BeginStep
      then (case step_events_of es of (ys, ps, rest) \<Rightarrow> (e, ys) # parallel_steps rest)
      else parallel_steps es)"
  by pat_completeness auto
termination
proof (relation "measure length", goal_cases)
  case (2 e es x y xa rest)
  then have "snd (snd (step_events_of es)) = rest" by (metis snd_conv)
  then show ?case using step_events_rest [of es] by auto
qed auto

text \<open>\<open>events\<close> of RunSmallData: all transitions are added to \<open>proxy_events\<close>.\<close>

fun small_events :: "'e evt list \<Rightarrow> 'e evt list \<times> 'e evt list \<times> 'e evt list" where
  "small_events [] = ([], [], [])"
| "small_events (e # es) =
     (if fst e \<noteq> TransitionId_L1Accept
      then (if fst e = TransitionId_EndRun then ([], [e], es)
            else (case small_events es of (ys, ps, rest) \<Rightarrow> (ys, e # ps, rest)))
      else (case small_events es of (ys, ps, rest) \<Rightarrow> (e # ys, ps, rest)))"

section \<open>Well-formed runs\<close>

text \<open>
  A step: its BeginStep, its events with transitions that neither begin nor end a step or a run, and
  its EndStep. A run: steps with such transitions between them, and the EndRun.
\<close>

definition inner :: "'e evt \<Rightarrow> bool" where
  "inner e \<longleftrightarrow> fst e \<notin> {TransitionId_BeginStep, TransitionId_EndStep, TransitionId_EndRun}"

definition between :: "'e evt \<Rightarrow> bool" where
  "between e \<longleftrightarrow> inner e \<and> fst e \<noteq> TransitionId_L1Accept"

definition step_ok :: "'e evt \<times> 'e evt list \<times> 'e evt \<times> 'e evt list \<Rightarrow> bool" where
  "step_ok s \<longleftrightarrow> (case s of (b, body, e, gap) \<Rightarrow> fst b = TransitionId_BeginStep \<and> list_all inner body
     \<and> fst e = TransitionId_EndStep \<and> list_all between gap)"

definition step_trace :: "'e evt \<times> 'e evt list \<times> 'e evt \<times> 'e evt list \<Rightarrow> 'e evt list" where
  "step_trace s = (case s of (b, body, e, gap) \<Rightarrow> b # body @ e # gap)"

definition l1s :: "'e evt list \<Rightarrow> 'e evt list" where
  "l1s es = filter (\<lambda>e. fst e = TransitionId_L1Accept) es"

lemmas services = TransitionId_EndRun_def TransitionId_BeginStep_def TransitionId_EndStep_def TransitionId_L1Accept_def

lemma step_events_body:
  "list_all inner body \<Longrightarrow> fst e = TransitionId_EndStep \<Longrightarrow>
    step_events_of (body @ e # rest) = (l1s body, filter (\<lambda>e. fst e \<noteq> TransitionId_L1Accept) body, rest)"
  by (induction body) (auto simp: inner_def l1s_def services)

lemma plain_steps_add_nothing: "fst (snd (run_steps False es)) = []"
  by (induction False es rule: run_steps.induct) (auto split: prod.splits)

lemma run_steps_between:
  "list_all between gap \<Longrightarrow> run_steps small es = (ss, (if small then qs else []), left) \<Longrightarrow>
    run_steps small (gap @ es) = (ss, (if small then gap @ qs else []), left)"
proof (induction gap)
  case (Cons e gap)
  then have "fst e \<notin> {TransitionId_L1Accept, TransitionId_EndRun, TransitionId_BeginStep}"
    by (auto simp: between_def inner_def)
  then show ?case using Cons by auto
qed auto

text \<open>What \<open>steps\<close> gives, and which transitions it adds: all but the ends of the steps.\<close>

lemma run_steps_trace:
  assumes "list_all step_ok ss" and "fst r = TransitionId_EndRun"
  shows "run_steps small (concat (map step_trace ss) @ r # rest)
    = (map (\<lambda>(b, body, e, gap). (b, l1s body)) ss,
       (if small then concat (map (\<lambda>(b, body, e, gap). b # filter (\<lambda>e. fst e \<noteq> TransitionId_L1Accept) body @ gap) ss) @ [r] else []),
       rest)"
  using assms(1)
proof (induction ss)
  case Nil
  then show ?case using assms(2) by (simp add: services)
next
  case (Cons s ss)
  obtain b body e gap where s: "s = (b, body, e, gap)" by (cases s) auto
  have ok: "fst b = TransitionId_BeginStep" "list_all inner body" "fst e = TransitionId_EndStep" "list_all between gap"
    using Cons.prems by (simp_all add: step_ok_def s)
  let ?es = "concat (map step_trace ss) @ r # rest"
  have one: "step_events_of (body @ e # gap @ ?es)
      = (l1s body, filter (\<lambda>e. fst e \<noteq> TransitionId_L1Accept) body, gap @ ?es)"
    by (rule step_events_body [OF ok(2,3)])
  have b: "fst b \<noteq> TransitionId_L1Accept" "fst b \<noteq> TransitionId_EndRun" using ok(1) by (simp_all add: services)
  have ss: "list_all step_ok ss" using Cons.prems by simp
  have tr: "concat (map step_trace (s # ss)) @ r # rest = b # body @ e # gap @ ?es"
    by (simp add: s step_trace_def)
  show ?case unfolding tr using ok(1) b one run_steps_between [OF ok(4) Cons.IH [OF ss]]
    by (simp add: s)
qed

lemma run_events_skip:
  "list_all (\<lambda>e. fst e \<noteq> TransitionId_EndRun) es \<Longrightarrow> run_events (es @ rest) = (l1s es @ fst (run_events rest), snd (run_events rest))"
  by (induction es) (auto simp: l1s_def)

lemma small_events_skip:
  "list_all (\<lambda>e. fst e \<noteq> TransitionId_EndRun) es \<Longrightarrow> fst r = TransitionId_EndRun \<Longrightarrow>
    small_events (es @ r # rest) = (l1s es, filter (\<lambda>e. fst e \<noteq> TransitionId_L1Accept) es @ [r], rest)"
  by (induction es) (auto simp: l1s_def services)

lemma step_trace_no_endrun: "step_ok s \<Longrightarrow> list_all (\<lambda>e. fst e \<noteq> TransitionId_EndRun) (step_trace s)"
proof -
  obtain b body e gap where s: "s = (b, body, e, gap)" by (cases s) auto
  assume "step_ok s"
  then have "fst b \<noteq> TransitionId_EndRun" "fst e \<noteq> TransitionId_EndRun" "list_all inner body" "list_all between gap"
    by (simp_all add: step_ok_def s services)
  then show ?thesis by (auto simp: s step_trace_def between_def inner_def list_all_iff)
qed

lemma steps_no_endrun: "list_all step_ok ss \<Longrightarrow> list_all (\<lambda>e. fst e \<noteq> TransitionId_EndRun) (concat (map step_trace ss))"
  by (induction ss) (simp_all add: step_trace_no_endrun)

lemma l1s_append: "l1s (xs @ ys) = l1s xs @ l1s ys"
  by (simp add: l1s_def)

lemma l1s_step_trace: "step_ok s \<Longrightarrow> l1s (step_trace s) = (\<lambda>(b, body, e, gap). l1s body) s"
proof -
  obtain b body e gap where s: "s = (b, body, e, gap)" by (cases s) auto
  assume "step_ok s"
  then have "fst b \<noteq> TransitionId_L1Accept" "fst e \<noteq> TransitionId_L1Accept" "list_all between gap"
    by (simp_all add: step_ok_def s services)
  then show ?thesis by (simp add: s step_trace_def l1s_def list_all_iff between_def filter_empty_conv)
qed

lemma l1s_steps: "list_all step_ok ss \<Longrightarrow> l1s (concat (map step_trace ss)) = concat (map (\<lambda>(b, body, e, gap). l1s body) ss)"
  by (induction ss) (simp_all add: l1s_append l1s_step_trace l1s_def [of "[]"] del: split_paired_All)

end
