(* ===== verification/EnvStore.thy ===== *)
theory EnvStore
  imports PyObj StepIter
begin

text \<open>
  The store of slow data (\<^verbatim>\<open>psana/psana/psexp/envstore.py\<close> and
  \<^verbatim>\<open>envstore_manager.py\<close>): for each smalldata file the datagrams that carry epics or scan
  variables, found again by the timestamp of an event. \<open>np.searchsorted\<close> is the parameter
  \<open>ss\<close> (\<open>True\<close> for \<open>side='right'\<close>); what is used of it is \<open>searchsorted_ok\<close>.
\<close>

section \<open>Variables of a config\<close>

datatype rtype = AnyType | IntType | FloatType | Array1d | Array2d | Array3d | StrType

definition return_types :: "int \<Rightarrow> int \<Rightarrow> rtype" where
  "return_types rtype rrank =
     (if rtype < 10
      then (if rrank = 0 then (if rtype < 8 then IntType else FloatType)
            else if rrank = 1 then Array1d
            else if rrank = 2 then Array2d
            else if rrank = 3 then Array3d
            else AnyType)
      else if rtype < 11 then StrType
      else AnyType)"

type_synonym var_dict = "(string \<times> rtype) list"
type_synonym env_variables = "(string \<times> (int \<times> var_dict) list) list"

record 'v dgm =
  dg_timestamp :: nat
  dg_service :: nat
  dg_attrs :: "'v attrs"

record 'v env_manager =
  ev_dgrams :: "'v dgm list"
  ev_timestamps :: "nat list"
  ev_n_items :: nat
  ev_variables :: env_variables
  ev_mapper :: "(string \<times> 'v pyo) list"
  ev_inv_mapper :: "('v pyo \<times> string) list"

type_synonym 'v mappers = "(string \<times> 'v pyo) list \<times> ('v pyo \<times> string) list"

text \<open>The mapping table of epics names, for one variable.\<close>

definition epics_names :: "string \<Rightarrow> 'v pyo \<Rightarrow> 'v mappers \<Rightarrow> pyexc + 'v mappers" where
  "epics_names var_name epicsinfo_seg ms =
     sbind (obj_getattr epicsinfo_seg ''epicsinfo'') (\<lambda>names.
     sbind (case names of Obj as \<Rightarrow> Inr as | _ \<Rightarrow> Inl (AttributeError ''__dict__'')) (\<lambda>as.
       case map_of as var_name of
         None \<Rightarrow> Inr ms
       | Some epics_value \<Rightarrow> Inr (AList.update var_name epics_value (fst ms), AList.update epics_value var_name (snd ms))))"

definition map_epics :: "'v pyo \<Rightarrow> string \<Rightarrow> string \<Rightarrow> 'v mappers \<Rightarrow> pyexc + 'v mappers" where
  "map_epics config env_name var_name ms =
     (if env_name = ''epics'' \<and> obj_hasattr config ''epicsinfo''
      then sbind (obj_getattr config ''epicsinfo'') (\<lambda>epicsinfo.
           sbind (obj_items epicsinfo) (\<lambda>segs.
             sfold (\<lambda>(eseg_id, seg). epics_names var_name seg) segs ms))
      else Inr ms)"

definition add_var :: "'v pyo \<Rightarrow> string \<Rightarrow> string \<times> 'v pyo \<Rightarrow> var_dict \<times> 'v mappers \<Rightarrow> pyexc + (var_dict \<times> 'v mappers)" where
  "add_var config env_name v acc = (case v of (var_name, var_obj) \<Rightarrow>
     (if var_name = ''version'' \<or> var_name = ''software'' then Inr acc
      else sbind (map_epics config env_name var_name (snd acc)) (\<lambda>ms.
        if \<not> obj_hasattr var_obj ''_type'' then Inr (fst acc, ms)
        else sbind (sbind (obj_getattr var_obj ''_type'') obj_int) (\<lambda>t.
             sbind (sbind (obj_getattr var_obj ''_rank'') obj_int) (\<lambda>r.
               Inr (AList.update var_name (return_types t r) (fst acc), ms))))))"

definition add_alg ::
    "'v pyo \<Rightarrow> string \<Rightarrow> int \<Rightarrow> string \<times> 'v pyo \<Rightarrow> env_variables \<times> 'v mappers \<Rightarrow> pyexc + (env_variables \<times> 'v mappers)" where
  "add_alg config env_name segment_id a acc = (case a of (alg, seg_alg) \<Rightarrow>
     sbind (obj_vars seg_alg) (\<lambda>vs.
     sbind (sfold (add_var config env_name) vs ([], snd acc)) (\<lambda>(env_vars, ms).
       Inr (AList.update alg [(segment_id, env_vars)] (fst acc), ms))))"

definition remove_name :: "string \<Rightarrow> 'v attrs \<Rightarrow> pyexc + 'v attrs" where
  "remove_name n as = (if n \<in> set (map fst as) then Inr (filter (\<lambda>(k, _). k \<noteq> n) as)
     else Inl (ValueError ''list.remove(x): x not in list''))"

definition add_segment ::
    "'v pyo \<Rightarrow> string \<Rightarrow> int \<times> 'v pyo \<Rightarrow> env_variables \<times> 'v mappers \<Rightarrow> pyexc + (env_variables \<times> 'v mappers)" where
  "add_segment config env_name s acc = (case s of (segment_id, env) \<Rightarrow>
     sbind (obj_vars env) (\<lambda>as.
     sbind (remove_name ''dettype'' as) (\<lambda>as1.
     sbind (remove_name ''detid'' as1) (\<lambda>algs.
       sfold (add_alg config env_name segment_id) algs acc))))"

definition init_env_variables :: "'v pyo \<Rightarrow> string \<Rightarrow> pyexc + (env_variables \<times> 'v mappers)" where
  "init_env_variables config env_name =
     sbind (obj_getattr config ''software'') (\<lambda>software.
       if obj_hasattr software env_name
       then sbind (obj_getattr software env_name) (\<lambda>envs.
            sbind (obj_items envs) (\<lambda>segs. sfold (add_segment config env_name) segs ([], [], [])))
       else Inr ([], [], []))"

definition env_manager_init :: "string \<Rightarrow> 'v pyo \<Rightarrow> pyexc + 'v env_manager" where
  "env_manager_init env_name config =
     sbind (init_env_variables config env_name) (\<lambda>(vars, mapper, inv).
       Inr \<lparr>ev_dgrams = [], ev_timestamps = [], ev_n_items = 0, ev_variables = vars, ev_mapper = mapper, ev_inv_mapper = inv\<rparr>)"

definition env_manager_add :: "'v dgm \<Rightarrow> 'v env_manager \<Rightarrow> 'v env_manager" where
  "env_manager_add d m = m\<lparr>ev_dgrams := ev_dgrams m @ [d], ev_timestamps := ev_timestamps m @ [dg_timestamp d],
     ev_n_items := ev_n_items m + 1\<rparr>"

text \<open>\<open>locate_variable\<close>: the first algorithm and its first segment with the variable.\<close>

fun locate_segment :: "(int \<times> var_dict) list \<Rightarrow> string \<Rightarrow> int option" where
  "locate_segment [] var_name = None"
| "locate_segment ((segment_id, var_dict) # segs) var_name =
     (if var_name \<in> fst ` set var_dict then Some segment_id else locate_segment segs var_name)"

fun locate_variable :: "env_variables \<Rightarrow> string \<Rightarrow> (string \<times> int) option" where
  "locate_variable [] var_name = None"
| "locate_variable ((alg, envs) # vs) var_name =
     (case locate_segment envs var_name of Some segment_id \<Rightarrow> Some (alg, segment_id) | None \<Rightarrow> locate_variable vs var_name)"

section \<open>The store of one kind of data\<close>

record 'v env_store =
  es_managers :: "'v env_manager list"
  es_variables :: env_variables
  es_mapper :: "(string \<times> 'v pyo) list"
  es_inv_mapper :: "('v pyo \<times> string) list"
  es_name :: string
  es_info :: "(string \<times> string) list"

text \<open>The loop over the algorithms of one manager; a missing algorithm starts as an empty dict.\<close>

definition merge_alg :: "string \<times> (int \<times> var_dict) list \<Rightarrow> env_variables \<Rightarrow> env_variables" where
  "merge_alg a vs = (case a of (alg, env_dict) \<Rightarrow>
     (case map_of vs alg of
        None \<Rightarrow> AList.update alg (dict_update [] env_dict) vs
      | Some old \<Rightarrow> AList.update alg (dict_update old env_dict) vs))"

text \<open>\<open>sort\<close> of a list of names.\<close>

fun str_less :: "string \<Rightarrow> string \<Rightarrow> bool" where
  "str_less [] [] \<longleftrightarrow> False"
| "str_less [] (c # cs) \<longleftrightarrow> True"
| "str_less (b # bs) [] \<longleftrightarrow> False"
| "str_less (b # bs) (c # cs) \<longleftrightarrow>
     (of_char b :: nat) < of_char c \<or> b = c \<and> str_less bs cs"

fun insert_name :: "string \<Rightarrow> string list \<Rightarrow> string list" where
  "insert_name x [] = [x]"
| "insert_name x (y # ys) = (if str_less y x then y # insert_name x ys else x # y # ys)"

definition env_info_of :: "env_variables \<Rightarrow> (string \<times> string) list" where
  "env_info_of vs = concat (map (\<lambda>(alg, env_dict).
     map (\<lambda>v. (v, alg)) (foldr insert_name (concat (map (\<lambda>(segment_id, var_dict). map fst var_dict) env_dict)) [])) vs)"

definition env_store_init :: "'v pyo list \<Rightarrow> string \<Rightarrow> pyexc + 'v env_store" where
  "env_store_init configs env_name =
     sbind (smap (env_manager_init env_name) configs) (\<lambda>ms.
       let vars = fold (\<lambda>m vs. fold merge_alg (ev_variables m) vs) ms [] in
       Inr \<lparr>es_managers = ms, es_variables = vars, es_mapper = fold (\<lambda>m d. dict_update d (ev_mapper m)) ms [],
            es_inv_mapper = fold (\<lambda>m d. dict_update d (ev_inv_mapper m)) ms [], es_name = env_name, es_info = env_info_of vars\<rparr>)"

definition add_to :: "'v dgm \<Rightarrow> nat \<Rightarrow> 'v env_store \<Rightarrow> pyexc + 'v env_store" where
  "add_to d i st = (if i < length (es_managers st)
     then Inr (st\<lparr>es_managers := (es_managers st)[i := env_manager_add d (es_managers st ! i)]\<rparr>)
     else Inl IndexError)"

text \<open>\<open>dgrams\<close>, which counts from 1 before it compares with \<open>from_pos\<close>.\<close>

definition store_dgrams :: "nat \<Rightarrow> bool \<Rightarrow> 'v env_store \<Rightarrow> 'v dgm list" where
  "store_dgrams from_pos scan st =
     (if scan then drop (from_pos - 1) (concat (map ev_dgrams (es_managers st))) else [])"

definition get_step_dgrams_of_event ::
    "(bool \<Rightarrow> nat list \<Rightarrow> nat \<Rightarrow> nat) \<Rightarrow> 'v env_store \<Rightarrow> nat \<Rightarrow> 'v dgm option list" where
  "get_step_dgrams_of_event ss st t =
     map (\<lambda>m. let found_pos = int (ss True (ev_timestamps m) t) - 1 in
       if found_pos < 0 then None else Some (ev_dgrams m ! nat found_pos)) (es_managers st)"

text \<open>The search of \<open>values\<close> backward from \<open>p\<close>, at most so many datagrams.\<close>

fun search_back :: "string \<Rightarrow> int \<Rightarrow> string \<Rightarrow> string \<Rightarrow> 'v dgm list \<Rightarrow> nat \<Rightarrow> int \<Rightarrow> pyexc + 'v pyo option" where
  "search_back env_name segment_id alg var ds 0 p = Inr None"
| "search_back env_name segment_id alg var ds (Suc k) p =
     (if p < 0 then Inr None
      else let env_d = Obj (dg_attrs (ds ! nat p)) in
        if obj_hasattr env_d env_name
        then sbind (sbind (obj_getattr env_d env_name) (\<lambda>e. obj_item e segment_id)) (\<lambda>envs.
          if obj_hasattr envs alg
          then sbind (sbind (obj_getattr envs alg) (\<lambda>a. obj_getattr a var)) (\<lambda>v. Inr (Some v))
          else search_back env_name segment_id alg var ds k (p - 1))
        else search_back env_name segment_id alg var ds k (p - 1))"

definition value_from ::
    "(bool \<Rightarrow> nat list \<Rightarrow> nat \<Rightarrow> nat) \<Rightarrow> int \<Rightarrow> string \<Rightarrow> string \<Rightarrow> nat \<Rightarrow> 'v env_manager \<Rightarrow> pyexc + 'v pyo option" where
  "value_from ss steps env_name var t m = (case locate_variable (ev_variables m) var of
     None \<Rightarrow> Inr None
   | Some (alg, segment_id) \<Rightarrow>
       (let pos = ss False (ev_timestamps m) t;
            found_pos = (if pos = ev_n_items m then int pos - 1 else int pos) in
        search_back env_name segment_id alg var (ev_dgrams m) (nat steps) found_pos))"

text \<open>
  The loop over the managers stops at the first value. \<open>val\<close> is unbound when there is no manager.
\<close>

fun values_loop ::
    "(bool \<Rightarrow> nat list \<Rightarrow> nat \<Rightarrow> nat) \<Rightarrow> int \<Rightarrow> string \<Rightarrow> string \<Rightarrow> nat \<Rightarrow> 'v pyo option option \<Rightarrow> 'v env_manager list \<Rightarrow> pyexc + 'v pyo option" where
  "values_loop ss steps env_name var t val [] = (case val of None \<Rightarrow> Inl (NameError ''val'') | Some v \<Rightarrow> Inr v)"
| "values_loop ss steps env_name var t val (m # ms) =
     sbind (value_from ss steps env_name var t m) (\<lambda>v.
       case v of Some x \<Rightarrow> Inr (Some x) | None \<Rightarrow> values_loop ss steps env_name var t (Some None) ms)"

definition env_values ::
    "(bool \<Rightarrow> nat list \<Rightarrow> nat \<Rightarrow> nat) \<Rightarrow> int \<Rightarrow> 'v env_store \<Rightarrow> nat list \<Rightarrow> string \<Rightarrow> pyexc + 'v pyo option list" where
  "env_values ss steps st events var = smap (\<lambda>t. values_loop ss steps (es_name st) var t None (es_managers st)) events"

text \<open>\<open>get_info\<close>: the keys are the names with their epics names or their algorithms.\<close>

definition get_info :: "'v env_store \<Rightarrow> ((string \<times> 'v pyo) \<times> 'v pyo) list" where
  "get_info st = fold (\<lambda>(alg, segs) info.
     fold (\<lambda>(segment_id, var_dict) info.
       fold (\<lambda>(var_name, t) info.
         if es_name st = ''epics''
         then (let epics_name = (case map_of (es_mapper st) var_name of None \<Rightarrow> Val (VStr []) | Some n \<Rightarrow> n) in
               AList.update (var_name, epics_name) epics_name info)
         else AList.update (var_name, Val (VStr alg)) (Val (VStr alg)) info) var_dict info) segs info) (es_variables st) []"

definition var_type :: "'v env_store \<Rightarrow> string \<Rightarrow> pyexc + rtype option" where
  "var_type st var_name = (case locate_variable (es_variables st) var_name of
     None \<Rightarrow> Inr None
   | Some (alg, segment_id) \<Rightarrow>
       sbind (dict_get (es_variables st) alg) (\<lambda>segs.
       sbind (dict_get segs segment_id) (\<lambda>var_dict. Inr (map_of var_dict var_name))))"

section \<open>The manager of the stores\<close>

record 'v esm =
  sm_configs :: "'v pyo list"
  sm_epics :: "'v env_store"
  sm_scan :: "'v env_store"

definition esm_init :: "'v pyo list \<Rightarrow> pyexc + 'v esm" where
  "esm_init configs =
     sbind (env_store_init configs ''epics'') (\<lambda>epics.
     sbind (env_store_init configs ''scan'') (\<lambda>scan.
       Inr \<lparr>sm_configs = configs, sm_epics = epics, sm_scan = scan\<rparr>))"

text \<open>
  \<open>_update_config\<close>: a field with a \<open>__dict__\<close> is updated in place, any other replaces the one
  of the config.
\<close>

fun update_fields :: "'v pyo \<Rightarrow> 'v attrs \<Rightarrow> pyexc + 'v pyo" where
  "update_fields objori [] = Inr objori"
| "update_fields objori ((key, v) # upd) =
     (case v of
        Obj as \<Rightarrow>
          sbind (obj_getattr objori key) (\<lambda>o1.
          sbind (update_fields o1 as) (\<lambda>o2.
          sbind (obj_setattr objori key o2) (\<lambda>ori. update_fields ori upd)))
      | _ \<Rightarrow> sbind (obj_setattr objori key v) (\<lambda>ori. update_fields ori upd))"

definition update_config :: "'v pyo \<Rightarrow> 'v pyo \<Rightarrow> pyexc + 'v pyo" where
  "update_config objori objupd = (case objupd of Obj as \<Rightarrow> update_fields objori as | _ \<Rightarrow> Inl (AttributeError ''__dict__''))"

definition update_segment :: "string \<Rightarrow> int \<times> 'v pyo \<Rightarrow> 'v pyo \<Rightarrow> pyexc + 'v pyo" where
  "update_segment key s config = (case s of (segid, segment) \<Rightarrow>
     (if obj_hasattr segment ''config''
      then sbind (obj_getattr config key) (\<lambda>cfgold.
           sbind (obj_item cfgold segid) (\<lambda>old.
           sbind (obj_getattr old ''config'') (\<lambda>oldc.
           sbind (obj_getattr segment ''config'') (\<lambda>newc.
           sbind (update_config oldc newc) (\<lambda>c.
           sbind (obj_setattr old ''config'' c) (\<lambda>old1.
           sbind (obj_set_item cfgold segid old1) (\<lambda>cfg1. obj_setattr config key cfg1)))))))
      else Inr config))"

definition update_key :: "string \<times> 'v pyo \<Rightarrow> 'v pyo \<Rightarrow> pyexc + 'v pyo" where
  "update_key kv config = (case kv of (key, val) \<Rightarrow>
     (if startswith key ''_'' \<or> \<not> obj_hasattr config key then Inr config
      else sbind (obj_items val) (\<lambda>segs. sfold (update_segment key) segs config)))"

definition update_by_dgram :: "nat \<times> 'v dgm option \<Rightarrow> 'v esm \<Rightarrow> pyexc + 'v esm" where
  "update_by_dgram nd m = (case nd of
     (i, None) \<Rightarrow> Inr m
   | (i, Some d) \<Rightarrow>
       (if i \<ge> length (sm_configs m) then Inl IndexError
        else if dg_service d = TransitionId_SlowUpdate
        then sbind (add_to d i (sm_epics m)) (\<lambda>st. Inr (m\<lparr>sm_epics := st\<rparr>))
        else if dg_service d = TransitionId_BeginStep \<or> dg_service d = TransitionId_BeginRun
        then sbind (add_to d i (sm_scan m)) (\<lambda>st.
             sbind (sfold update_key (dg_attrs d) (sm_configs m ! i)) (\<lambda>c.
               Inr (m\<lparr>sm_scan := st, sm_configs := (sm_configs m)[i := c]\<rparr>)))
        else Inr m))"

definition update_by_event :: "'v dgm option list \<Rightarrow> 'v esm \<Rightarrow> pyexc + 'v esm" where
  "update_by_event evt m = sfold update_by_dgram (enumerate 0 evt) m"

definition env_from_variable :: "'v esm \<Rightarrow> string \<Rightarrow> (string \<times> string) option" where
  "env_from_variable m var =
     (case locate_variable (es_variables (sm_epics m)) var of
        Some (alg, _) \<Rightarrow> Some (''epics'', alg)
      | None \<Rightarrow> (case locate_variable (es_variables (sm_scan m)) var of
          Some (alg, _) \<Rightarrow> Some (''scan'', alg)
        | None \<Rightarrow> None))"

text \<open>\<open>_get_valid_env_var_name\<close> of a run: a variable, or the variable of an epics name.\<close>

definition get_valid_env_var_name :: "'v esm \<Rightarrow> string \<Rightarrow> string option" where
  "get_valid_env_var_name m det_name =
     (if env_from_variable m det_name \<noteq> None then Some det_name
      else map_of (es_inv_mapper (sm_epics m)) (Val (VStr det_name)))"

end
