(* ===== verification/EnvFacts.thy ===== *)
theory EnvFacts
  imports EnvStore
begin

text \<open>
  What the store holds and finds: which datagrams the managers keep after the events of a run, the
  search by time, the merge of the config, and the variables of a config.
\<close>

section \<open>What the managers hold\<close>

definition manager_holds :: "'v env_manager \<Rightarrow> 'v dgm list \<Rightarrow> bool" where
  "manager_holds m ds \<longleftrightarrow> ev_dgrams m = ds \<and> ev_timestamps m = map dg_timestamp ds \<and> ev_n_items m = length ds"

definition store_holds :: "nat \<Rightarrow> 'v env_store \<Rightarrow> (nat \<Rightarrow> 'v dgm list) \<Rightarrow> bool" where
  "store_holds n st f \<longleftrightarrow> length (es_managers st) = n \<and> (\<forall>i<n. manager_holds (es_managers st ! i) (f i))"

definition esm_holds :: "nat \<Rightarrow> 'v esm \<Rightarrow> (nat \<Rightarrow> 'v dgm list) \<Rightarrow> (nat \<Rightarrow> 'v dgm list) \<Rightarrow> bool" where
  "esm_holds n m e s \<longleftrightarrow> length (sm_configs m) = n \<and> store_holds n (sm_epics m) e \<and> store_holds n (sm_scan m) s"

definition is_scan :: "'v dgm \<Rightarrow> bool" where
  "is_scan d \<longleftrightarrow> dg_service d = TransitionId_BeginStep \<or> dg_service d = TransitionId_BeginRun"

definition is_epics :: "'v dgm \<Rightarrow> bool" where
  "is_epics d \<longleftrightarrow> dg_service d = TransitionId_SlowUpdate"

definition kept :: "('v dgm \<Rightarrow> bool) \<Rightarrow> 'v dgm option \<Rightarrow> 'v dgm list" where
  "kept P d = (case d of None \<Rightarrow> [] | Some d \<Rightarrow> if P d then [d] else [])"

text \<open>The datagrams of one file in the events of a run.\<close>

definition dgrams_of :: "nat \<Rightarrow> 'v dgm option list list \<Rightarrow> 'v dgm list" where
  "dgrams_of i evs = concat (map (\<lambda>evt. kept (\<lambda>_. True) (evt ! i)) evs)"

lemma manager_holds_add: "manager_holds m ds \<Longrightarrow> manager_holds (env_manager_add d m) (ds @ [d])"
  by (simp add: manager_holds_def env_manager_add_def)

lemma store_holds_add:
  "add_to d i st = Inr st' \<Longrightarrow> store_holds n st f \<Longrightarrow> store_holds n st' (f(i := f i @ [d]))"
  by (auto simp: add_to_def store_holds_def nth_list_update manager_holds_add split: if_splits)

lemma is_scan_not_epics: "is_scan d \<Longrightarrow> \<not> is_epics d"
  by (auto simp: is_scan_def is_epics_def TransitionId_BeginStep_def TransitionId_BeginRun_def TransitionId_SlowUpdate_def)

lemma update_by_dgram_holds:
  assumes "update_by_dgram (i, d) m = Inr m'" and "esm_holds n m e s"
  shows "esm_holds n m' (e(i := e i @ kept is_epics d)) (s(i := s i @ kept is_scan d))"
proof (cases d)
  case None
  then show ?thesis using assms by (simp add: update_by_dgram_def kept_def)
next
  case (Some x)
  consider "is_epics x" "\<not> is_scan x" | "is_scan x" "\<not> is_epics x" | "\<not> is_scan x" "\<not> is_epics x"
    using is_scan_not_epics by blast
  then show ?thesis
    by cases (use assms store_holds_add in \<open>auto simp: Some update_by_dgram_def kept_def esm_holds_def sbind_Inr
        is_scan_def is_epics_def split: if_splits\<close>)
qed

lemma update_by_dgrams_hold:
  "sfold update_by_dgram (enumerate k evt) m = Inr m' \<Longrightarrow> esm_holds n m e s \<Longrightarrow>
    esm_holds n m' (\<lambda>i. e i @ (if k \<le> i \<and> i < k + length evt then kept is_epics (evt ! (i - k)) else []))
                   (\<lambda>i. s i @ (if k \<le> i \<and> i < k + length evt then kept is_scan (evt ! (i - k)) else []))"
proof (induction evt arbitrary: k m e s)
  case (Cons d evt)
  from Cons.prems(1) obtain m1 where m1: "update_by_dgram (k, d) m = Inr m1" "sfold update_by_dgram (enumerate (Suc k) evt) m1 = Inr m'"
    by (auto split: sum.splits)
  have split: "(f(k := f k @ kept P d)) i @ (if Suc k \<le> i \<and> i < Suc k + length evt then kept P (evt ! (i - Suc k)) else [])
      = f i @ (if k \<le> i \<and> i < k + length (d # evt) then kept P ((d # evt) ! (i - k)) else [])"
    for f :: "nat \<Rightarrow> 'a dgm list" and P i
    by (cases "i = k") (auto simp: nth_Cons' not_less Suc_diff_Suc)
  show ?case
    using Cons.IH [OF m1(2) update_by_dgram_holds [OF m1(1) Cons.prems(2)]] unfolding split .
next
  case Nil
  moreover have "(if k \<le> i \<and> i < k + length [] then x else y) = y" for i and x y :: "'a dgm list" by auto
  ultimately show ?case by simp
qed

lemma dgrams_of_Cons [simp]: "dgrams_of i (evt # evs) = kept (\<lambda>_. True) (evt ! i) @ dgrams_of i evs"
  by (simp add: dgrams_of_def)

lemma filter_kept: "filter P (kept (\<lambda>_. True) d) = kept P d"
  by (simp add: kept_def split: option.splits)

lemma update_by_events_hold:
  "sfold update_by_event evs m = Inr m' \<Longrightarrow> esm_holds n m e s \<Longrightarrow> \<forall>evt\<in>set evs. length evt = n \<Longrightarrow>
    store_holds n (sm_epics m') (\<lambda>i. e i @ filter is_epics (dgrams_of i evs)) \<and>
    store_holds n (sm_scan m') (\<lambda>i. s i @ filter is_scan (dgrams_of i evs))"
proof (induction evs arbitrary: m e s)
  case Nil
  then show ?case by (simp add: esm_holds_def dgrams_of_def)
next
  case (Cons evt evs)
  from Cons.prems(1) obtain m1 where m1: "update_by_event evt m = Inr m1" "sfold update_by_event evs m1 = Inr m'"
    by (auto split: sum.splits)
  let ?f = "\<lambda>P f i. f i @ (if i < n then kept P (evt ! i) else [])"
  have "esm_holds n m1 (?f is_epics e) (?f is_scan s)"
    using update_by_dgrams_hold [OF m1(1) [unfolded update_by_event_def] Cons.prems(2), unfolded diff_zero] Cons.prems(3)
    by simp
  from Cons.IH [OF m1(2) this] Cons.prems(3)
  show ?case by (simp add: store_holds_def filter_kept)
qed

lemma env_manager_init_holds: "env_manager_init name config = Inr m \<Longrightarrow> manager_holds m []"
  by (auto simp: env_manager_init_def sbind_Inr manager_holds_def)

lemma env_store_init_holds:
  assumes "env_store_init configs name = Inr st"
  shows "store_holds (length configs) st (\<lambda>_. [])"
proof -
  from assms obtain ms where ms: "smap (env_manager_init name) configs = Inr ms" "es_managers st = ms"
    unfolding env_store_init_def sbind_Inr by (auto simp: Let_def)
  then have "list_all2 (\<lambda>c m. env_manager_init name c = Inr m) configs ms" by (simp add: smap_Inr)
  then show ?thesis using ms(2) env_manager_init_holds
    by (fastforce simp: store_holds_def list_all2_conv_all_nth)
qed

lemma esm_init_holds: "esm_init configs = Inr m \<Longrightarrow> esm_holds (length configs) m (\<lambda>_. []) (\<lambda>_. [])"
  by (auto simp: esm_init_def sbind_Inr esm_holds_def env_store_init_holds)

section \<open>The search by time\<close>

text \<open>What \<open>np.searchsorted\<close> gives for an array in ascending order.\<close>

definition searchsorted_ok :: "(bool \<Rightarrow> nat list \<Rightarrow> nat \<Rightarrow> nat) \<Rightarrow> bool" where
  "searchsorted_ok ss \<longleftrightarrow> (\<forall>xs x. sorted xs \<longrightarrow>
     ss False xs x = length (filter (\<lambda>y. y < x) xs) \<and> ss True xs x = length (filter (\<lambda>y. y \<le> x) xs))"

definition last_of :: "'a list \<Rightarrow> 'a option" where
  "last_of xs = (if xs = [] then None else Some (last xs))"

lemma filter_sorted_take:
  "sorted (map f ds) \<Longrightarrow> (\<And>x y. x \<le> y \<Longrightarrow> P y \<Longrightarrow> P x) \<Longrightarrow> take (length (filter (\<lambda>d. P (f d)) ds)) ds = filter (\<lambda>d. P (f d)) ds"
proof (induction ds)
  case (Cons d ds)
  have "filter (\<lambda>d. P (f d)) ds = []" if "\<not> P (f d)"
  proof (rule ccontr)
    assume "filter (\<lambda>d. P (f d)) ds \<noteq> []"
    then obtain x where "x \<in> set ds" "P (f x)" by (auto simp: filter_empty_conv)
    then show False using Cons.prems that by auto
  qed
  then show ?case using Cons by auto
qed simp

lemma step_dgram_found:
  assumes "searchsorted_ok ss" and "manager_holds m ds" and "sorted (map dg_timestamp ds)"
  shows "(let found_pos = int (ss True (ev_timestamps m) t) - 1 in
       if found_pos < 0 then None else Some (ev_dgrams m ! nat found_pos)) = last_of (filter (\<lambda>d. dg_timestamp d \<le> t) ds)"
proof -
  let ?n = "length (filter (\<lambda>d. dg_timestamp d \<le> t) ds)"
  have pos: "ss True (ev_timestamps m) t = ?n"
    using assms by (simp add: searchsorted_ok_def manager_holds_def filter_map o_def)
  have tk: "filter (\<lambda>d. dg_timestamp d \<le> t) ds = take ?n ds"
    using filter_sorted_take [OF assms(3), of "\<lambda>x. x \<le> t"] by simp
  show ?thesis
  proof (cases "?n = 0")
    case True
    then show ?thesis using pos by (simp add: last_of_def)
  next
    case False
    have "?n \<le> length ds" by (rule length_filter_le)
    then have "last (take ?n ds) = ds ! (?n - 1)" using False by (subst last_conv_nth) auto
    then have "last (filter (\<lambda>d. dg_timestamp d \<le> t) ds) = ds ! (?n - 1)" using tk by simp
    moreover have "nat (int ?n - 1) = ?n - 1" by simp
    ultimately show ?thesis using False pos assms(2) by (simp add: last_of_def manager_holds_def Let_def)
  qed
qed

text \<open>The first found of a list of searches.\<close>

fun first_found :: "('a \<Rightarrow> pyexc + 'b option) \<Rightarrow> 'a list \<Rightarrow> pyexc + 'b option" where
  "first_found look [] = Inr None"
| "first_found look (x # xs) = sbind (look x) (\<lambda>v. case v of None \<Rightarrow> first_found look xs | Some y \<Rightarrow> Inr (Some y))"

text \<open>What one datagram says of a variable.\<close>

definition env_lookup :: "string \<Rightarrow> int \<Rightarrow> string \<Rightarrow> string \<Rightarrow> 'v dgm \<Rightarrow> pyexc + 'v pyo option" where
  "env_lookup env_name segment_id alg var d =
     (if obj_hasattr (Obj (dg_attrs d)) env_name
      then sbind (sbind (obj_getattr (Obj (dg_attrs d)) env_name) (\<lambda>e. obj_item e segment_id)) (\<lambda>envs.
        if obj_hasattr envs alg
        then sbind (sbind (obj_getattr envs alg) (\<lambda>a. obj_getattr a var)) (\<lambda>v. Inr (Some v))
        else Inr None)
      else Inr None)"

text \<open>The datagrams before a time, and the next one.\<close>

definition up_to_next :: "nat \<Rightarrow> 'v dgm list \<Rightarrow> 'v dgm list" where
  "up_to_next t ds = filter (\<lambda>d. dg_timestamp d < t) ds @ take 1 (filter (\<lambda>d. t \<le> dg_timestamp d) ds)"

lemma sbind_assoc: "sbind (sbind r f) g = sbind r (\<lambda>x. sbind (f x) g)"
  by (simp add: sbind_def split: sum.splits)

lemma search_back_step:
  "0 \<le> p \<Longrightarrow> search_back name seg alg var ds (Suc k) p = sbind (env_lookup name seg alg var (ds ! nat p))
    (\<lambda>v. case v of None \<Rightarrow> search_back name seg alg var ds k (p - 1) | Some y \<Rightarrow> Inr (Some y))"
  unfolding search_back.simps env_lookup_def
  by (simp add: Let_def sbind_assoc del: obj_hasattr.simps obj_getattr.simps search_back.simps)
     (simp add: sbind_def split: sum.split del: search_back.simps)

lemma search_back_first_found:
  "p < int (length ds) \<Longrightarrow> search_back name seg alg var ds k p
    = first_found (env_lookup name seg alg var) (take k (rev (take (nat (p + 1)) ds)))"
proof (induction k arbitrary: p)
  case (Suc k)
  show ?case
  proof (cases "p < 0")
    case False
    have take: "rev (take (nat (p + 1)) ds) = ds ! nat p # rev (take (nat (p - 1 + 1)) ds)"
      using False Suc.prems by (simp add: nat_add_distrib take_Suc_conv_app_nth nat_less_iff)
    have IH: "search_back name seg alg var ds k (p - 1) = first_found (env_lookup name seg alg var) (take k (rev (take (nat (p - 1 + 1)) ds)))"
      by (rule Suc.IH) (use Suc.prems in simp)
    have "0 \<le> p" using False by simp
    show ?thesis unfolding search_back_step [OF \<open>0 \<le> p\<close>] take take_Suc_Cons first_found.simps IH ..
  qed simp
qed simp

lemma take_up_to_next:
  assumes "sorted (map dg_timestamp ds)"
  shows "take (Suc (length (filter (\<lambda>d. dg_timestamp d < t) ds))) ds = up_to_next t ds"
  using assms
proof (induction ds)
  case (Cons d ds)
  have "filter (\<lambda>d. dg_timestamp d < t) ds = []" if "\<not> dg_timestamp d < t"
    using that Cons.prems by (auto simp: filter_empty_conv)
  then show ?case using Cons by (auto simp: up_to_next_def not_less)
qed (simp add: up_to_next_def)

lemma value_from_found:
  assumes "searchsorted_ok ss" and "manager_holds m ds" and "sorted (map dg_timestamp ds)"
    and "locate_variable (ev_variables m) var = Some (alg, seg)"
  shows "value_from ss steps name var t m = first_found (env_lookup name seg alg var) (take (nat steps) (rev (up_to_next t ds)))"
proof -
  let ?n = "length (filter (\<lambda>d. dg_timestamp d < t) ds)"
  have pos: "ss False (ev_timestamps m) t = ?n"
    using assms by (simp add: searchsorted_ok_def manager_holds_def filter_map o_def)
  have le: "?n \<le> length ds" by (rule length_filter_le)
  let ?p = "if ?n = length ds then int ?n - 1 else int ?n"
  have "take (nat (?p + 1)) ds = take (Suc ?n) ds"
    using le by (auto simp: nat_add_distrib)
  then have "take (nat (?p + 1)) ds = up_to_next t ds"
    using take_up_to_next [OF assms(3)] by simp
  moreover have "?p < int (length ds)" by (simp add: le_neq_implies_less [OF length_filter_le])
  ultimately show ?thesis
    using assms(2,4) pos by (simp add: value_from_def Let_def manager_holds_def search_back_first_found)
qed

lemma values_loop_found:
  "values_loop ss steps name var t (Some None) ms = first_found (value_from ss steps name var t) ms"
proof (induction ms)
  case (Cons m ms)
  have "(if v \<noteq> None then Inr v else first_found (value_from ss steps name var t) ms)
      = (case v of None \<Rightarrow> first_found (value_from ss steps name var t) ms | Some y \<Rightarrow> Inr (Some y))" for v
    by (cases v) simp_all
  then show ?case using Cons by simp
qed simp

lemma values_loop_first_found:
  "ms \<noteq> [] \<Longrightarrow> values_loop ss steps name var t None ms = first_found (value_from ss steps name var t) ms"
  by (cases ms) (simp_all only: values_loop.simps first_found.simps values_loop_found simp_thms)

section \<open>The merge of a config\<close>

fun is_obj :: "'v pyo \<Rightarrow> bool" where
  "is_obj (Obj as) \<longleftrightarrow> True"
| "is_obj _ \<longleftrightarrow> False"

definition leaf_at :: "'v pyo \<Rightarrow> string list \<Rightarrow> 'v pyo option" where
  "leaf_at x p = (case obj_path x p of None \<Rightarrow> None | Some v \<Rightarrow> if is_obj v then None else Some v)"

text \<open>A path that meets a leaf of an object on the way.\<close>

fun meets_leaf :: "'v pyo \<Rightarrow> string list \<Rightarrow> bool" where
  "meets_leaf (Obj as) [] \<longleftrightarrow> False"
| "meets_leaf (Obj as) (n # ns) \<longleftrightarrow> (case map_of as n of None \<Rightarrow> False | Some v \<Rightarrow> meets_leaf v ns)"
| "meets_leaf _ ns \<longleftrightarrow> True"

text \<open>An object has each attribute once.\<close>

fun obj_ok :: "'v pyo \<Rightarrow> bool" where
  "obj_ok (Obj as) \<longleftrightarrow> distinct (map fst as) \<and> list_all (\<lambda>(_, v). obj_ok v) as"
| "obj_ok _ \<longleftrightarrow> True"

lemma leaf_at_Nil [simp]: "leaf_at (Obj as) [] = None"
  by (simp add: leaf_at_def)

lemma leaf_at_Cons [simp]: "leaf_at (Obj as) (n # ns) = (case map_of as n of None \<Rightarrow> None | Some v \<Rightarrow> leaf_at v ns)"
  by (simp add: leaf_at_def split: option.splits)

lemma leaf_at_leaf: "\<not> is_obj v \<Longrightarrow> leaf_at v ns = (if ns = [] then Some v else None)"
  by (cases v; cases ns) (simp_all add: leaf_at_def)

lemma meets_leaf_leaf: "\<not> is_obj v \<Longrightarrow> meets_leaf v ns"
  by (cases v) simp_all

definition merged :: "'v pyo \<Rightarrow> 'v pyo \<Rightarrow> 'v pyo \<Rightarrow> bool" where
  "merged ori upd new \<longleftrightarrow> (\<forall>p. leaf_at new p = (if meets_leaf upd p then leaf_at upd p else leaf_at ori p))"

lemma obj_setattr_Inr: "obj_setattr o1 n v = Inr o2 \<longleftrightarrow> (\<exists>as. o1 = Obj as \<and> o2 = Obj (AList.update n v as))"
  by (cases o1) auto

lemma obj_getattr_Inr: "obj_getattr o1 n = Inr v \<longleftrightarrow> (\<exists>as. o1 = Obj as \<and> map_of as n = Some v)"
  by (cases o1) (auto split: option.splits)

text \<open>One attribute set, and the others after it.\<close>

lemma merged_attr:
  assumes "merged (Obj (AList.update key o2 as)) (Obj upd) new" and "key \<notin> fst ` set upd"
    and "\<And>p. leaf_at o2 p = (if meets_leaf v p then leaf_at v p else (case map_of as key of None \<Rightarrow> None | Some o1 \<Rightarrow> leaf_at o1 p))"
  shows "merged (Obj as) (Obj ((key, v) # upd)) new"
  unfolding merged_def
proof
  fix p
  have new: "leaf_at new p = (if meets_leaf (Obj upd) p then leaf_at (Obj upd) p else leaf_at (Obj (AList.update key o2 as)) p)"
    using assms(1) by (simp add: merged_def)
  have none: "map_of upd key = None" using assms(2) by (simp add: map_of_eq_None_iff)
  show "leaf_at new p = (if meets_leaf (Obj ((key, v) # upd)) p then leaf_at (Obj ((key, v) # upd)) p else leaf_at (Obj as) p)"
  proof (cases p)
    case Nil
    then show ?thesis using new by simp
  next
    case (Cons n ns)
    then show ?thesis using new none assms(3) by (cases "n = key") (simp_all add: update_conv' split: option.splits)
  qed
qed

lemma update_fields_merged:
  "update_fields ori upd = Inr new \<Longrightarrow> obj_ok (Obj upd) \<Longrightarrow> merged ori (Obj upd) new"
proof (induction ori upd arbitrary: new rule: update_fields.induct)
  case (1 ori)
  have "\<not> meets_leaf (Obj [] :: 'a pyo) p" for p by (cases p) simp_all
  then show ?case using 1 by (simp add: merged_def)
next
  case (2 ori key v upd)
  have key: "key \<notin> fst ` set upd" using "2.prems"(2) by simp
  obtain bs o2 where *: "ori = Obj bs" "update_fields (Obj (AList.update key o2 bs)) upd = Inr new"
    and o2: "\<And>p. leaf_at o2 p = (if meets_leaf v p then leaf_at v p else (case map_of bs key of None \<Rightarrow> None | Some o1 \<Rightarrow> leaf_at o1 p))"
  proof (cases "\<exists>as. v = Obj as")
    case True
    then obtain as where v: "v = Obj as" by blast
    from "2.prems"(1) obtain bs o1 o2 where o: "ori = Obj bs" "map_of bs key = Some o1" "update_fields o1 as = Inr o2"
        "update_fields (Obj (AList.update key o2 bs)) upd = Inr new"
      by (auto simp: v sbind_Inr obj_getattr_Inr obj_setattr_Inr)
    have "merged o1 (Obj as) o2" using "2.IH"(2) [OF v o(3)] "2.prems"(2) by (simp add: v)
    then show ?thesis using o that [of bs o2] by (simp add: v merged_def)
  next
    case False
    then have leaf: "\<not> is_obj v" by (cases v) simp_all
    from "2.prems"(1) obtain bs where "ori = Obj bs" "update_fields (Obj (AList.update key v bs)) upd = Inr new"
      using False by (auto simp: sbind_Inr obj_setattr_Inr split: pyo.splits)
    then show ?thesis using that [of bs v] meets_leaf_leaf [OF leaf] by simp
  qed
  have "merged (Obj (AList.update key o2 bs)) (Obj upd) new"
    by (cases v) (use "2.IH" "2.prems"(2) * in auto)
  then show ?case unfolding *(1) using key o2 by (rule merged_attr)
qed

lemma update_config_merged: "update_config ori upd = Inr new \<Longrightarrow> obj_ok upd \<Longrightarrow> merged ori upd new"
  by (auto simp: update_config_def update_fields_merged split: pyo.splits)

section \<open>The variables of a config\<close>

definition seg_algs :: "int \<times> 'v pyo \<Rightarrow> string set" where
  "seg_algs s = (case snd s of Obj as \<Rightarrow> fst ` set as - {''dettype'', ''detid''} | _ \<Rightarrow> {})"

lemma remove_name_Inr: "remove_name n as = Inr bs \<Longrightarrow> fst ` set bs = fst ` set as - {n}"
  by (force simp: remove_name_def split: if_splits)

definition alg_segments :: "env_variables \<Rightarrow> string \<Rightarrow> int list option" where
  "alg_segments vs alg = map_option (map fst) (map_of vs alg)"

lemma add_alg_segments:
  "add_alg config name sid a acc = Inr acc' \<Longrightarrow> alg_segments (fst acc') = (alg_segments (fst acc))(fst a \<mapsto> [sid])"
  by (auto simp: add_alg_def sbind_Inr alg_segments_def update_conv' fun_eq_iff split: prod.splits)

lemma add_algs_segments:
  "sfold (add_alg config name sid) algs acc = Inr acc' \<Longrightarrow>
    alg_segments (fst acc') alg = (if alg \<in> fst ` set algs then Some [sid] else alg_segments (fst acc) alg)"
proof (induction algs arbitrary: acc)
  case (Cons a algs)
  then obtain acc1 where acc1: "add_alg config name sid a acc = Inr acc1" "sfold (add_alg config name sid) algs acc1 = Inr acc'"
    by (auto split: sum.splits)
  show ?case using Cons.IH [OF acc1(2)] add_alg_segments [OF acc1(1)] by auto
qed simp

lemma add_segment_segments:
  assumes "add_segment config name s acc = Inr acc'"
  shows "alg_segments (fst acc') alg = (if alg \<in> seg_algs s then Some [fst s] else alg_segments (fst acc) alg)"
proof -
  obtain sid env where s: "s = (sid, env)" by (cases s)
  from assms obtain as as1 algs where *: "obj_vars env = Inr as" "remove_name ''dettype'' as = Inr as1"
      "remove_name ''detid'' as1 = Inr algs" "sfold (add_alg config name sid) algs acc = Inr acc'"
    by (auto simp: add_segment_def s sbind_Inr)
  have "env = Obj as" using *(1) by (cases env) simp_all
  then have "seg_algs s = fst ` set algs"
    using remove_name_Inr [OF *(2)] remove_name_Inr [OF *(3)] by (auto simp: seg_algs_def s)
  then show ?thesis using add_algs_segments [OF *(4), of alg] by (simp add: s)
qed

lemma add_segments_segments:
  "sfold (add_segment config name) segs acc = Inr acc' \<Longrightarrow>
    alg_segments (fst acc') alg = (case last_of (filter (\<lambda>s. alg \<in> seg_algs s) segs) of
      None \<Rightarrow> alg_segments (fst acc) alg | Some s \<Rightarrow> Some [fst s])"
proof (induction segs arbitrary: acc)
  case Nil
  then show ?case by (simp add: last_of_def)
next
  case (Cons s segs)
  then obtain acc1 where acc1: "add_segment config name s acc = Inr acc1" "sfold (add_segment config name) segs acc1 = Inr acc'"
    by (auto split: sum.splits)
  show ?case using Cons.IH [OF acc1(2)] add_segment_segments [OF acc1(1), of alg] by (auto simp: last_of_def)
qed

end
