(* ===== verification/RunProps.thy ===== *)
theory RunProps
  imports EnvFacts
begin

text \<open>
  The properties of a run's loops and of its store of slow data, each followed by an application to
  a small run.
\<close>

section \<open>Steps and events\<close>

definition steps0 :: "(nat evt \<times> nat evt list \<times> nat evt \<times> nat evt list) list" where
  "steps0 = [((6, 0), [(9, 1), (12, 2), (8, 3)], (7, 4), []), ((6, 5), [(12, 6), (12, 7)], (7, 8), [(10, 9)])]"

lemma steps0_ok: "list_all step_ok steps0"
  by code_simp

text \<open>
  C29. For a run of complete steps, the events that a user sees in the steps of the run, one step
  after the other, are the events the run gives without steps, and both loops leave the iterator at
  the same place, behind the end of the run.
\<close>

theorem steps_equal_events:
  assumes "list_all step_ok ss" and "fst r = TransitionId_EndRun"
  shows "run_events (concat (map step_trace ss) @ r # rest)
    = (concat (map snd (fst (run_steps False (concat (map step_trace ss) @ r # rest)))),
       snd (snd (run_steps False (concat (map step_trace ss) @ r # rest))))"
proof -
  have "concat (map snd (map (\<lambda>(b, body, e, gap). (b, l1s body)) ss)) = l1s (concat (map step_trace ss))"
    using l1s_steps [OF assms(1)] by (simp add: o_def split_def)
  moreover have "fst r \<noteq> TransitionId_L1Accept" using assms(2) by (simp add: services)
  ultimately show ?thesis
    using run_events_skip [OF steps_no_endrun [OF assms(1)]] assms(2) by (simp add: run_steps_trace [OF assms])
qed

theorem steps_equal_events_witness:
  "run_events (concat (map step_trace steps0) @ [(5, 10)]) = ([(12, 2), (12, 6), (12, 7)], [])"
proof -
  have "fst (run_steps False (concat (map step_trace steps0) @ [(5, 10)]))
      = [((6, 0), [(12, 2)]), ((6, 5), [(12, 6), (12, 7)])]"
    by (simp add: run_steps_trace [OF steps0_ok] services) (simp add: steps0_def l1s_def services)
  moreover have "snd (snd (run_steps False (concat (map step_trace steps0) @ [(5, 10)]))) = []"
    by (simp add: run_steps_trace [OF steps0_ok] services)
  ultimately show ?thesis using steps_equal_events [OF steps0_ok, of "(5, 10)" "[]"] by (simp add: services)
qed

text \<open>
  A smalldata callback that loops over steps hands all transitions to the bigdata nodes but the
  ends of the steps, which the loop over events hands on; the events it sees are the same.
\<close>

theorem small_steps_lose_endstep:
  assumes "list_all step_ok ss" and "fst r = TransitionId_EndRun"
  shows "fst (snd (run_steps True (concat (map step_trace ss) @ r # rest)))
      = filter (\<lambda>e. fst e \<noteq> TransitionId_EndStep) (fst (snd (small_events (concat (map step_trace ss) @ r # rest))))
    \<and> concat (map snd (fst (run_steps True (concat (map step_trace ss) @ r # rest))))
      = fst (small_events (concat (map step_trace ss) @ r # rest))"
proof -
  let ?no = "\<lambda>e. fst e \<noteq> TransitionId_EndStep"
  let ?t = "\<lambda>e. fst e \<noteq> TransitionId_L1Accept"
  have "filter ?no (filter ?t (step_trace s)) = (\<lambda>(b, body, e, gap). b # filter ?t body @ gap) s" if "step_ok s" for s :: "'a evt \<times> 'a evt list \<times> 'a evt \<times> 'a evt list"
  proof -
    obtain b body e gap where s: "s = (b, body, e, gap)" by (cases s) auto
    have "fst b = TransitionId_BeginStep" "fst e = TransitionId_EndStep" "list_all inner body" "list_all between gap"
      using that by (simp_all add: step_ok_def s)
    moreover from this have "filter ?t gap = gap" "filter ?no gap = gap" "filter ?no (filter ?t body) = filter ?t body"
      by (auto simp: list_all_iff between_def inner_def filter_id_conv intro!: filter_cong)
    ultimately show ?thesis by (simp add: s step_trace_def services)
  qed
  then have "filter ?no (filter ?t (concat (map step_trace ss)))
      = concat (map (\<lambda>(b, body, e, gap). b # filter ?t body @ gap) ss)"
    using assms(1) by (induction ss) (simp_all add: list_all_iff)
  moreover have "fst r \<noteq> TransitionId_EndStep" using assms(2) by (simp add: services)
  moreover have "concat (map snd (map (\<lambda>(b, body, e, gap). (b, l1s body)) ss)) = l1s (concat (map step_trace ss))"
    using l1s_steps [OF assms(1)] by (simp add: o_def split_def)
  ultimately show ?thesis
    using small_events_skip [OF steps_no_endrun [OF assms(1)] assms(2)] by (simp add: run_steps_trace [OF assms])
qed

theorem small_steps_lose_endstep_witness:
  "fst (snd (run_steps True (concat (map step_trace steps0) @ [(5, 10)])))
    = [(6, 0), (9, 1), (8, 3), (6, 5), (10, 9), (5, 10)]"
proof -
  have "fst (snd (small_events (concat (map step_trace steps0) @ [(5, 10)])))
      = [(6, 0), (9, 1), (8, 3), (7, 4), (6, 5), (7, 8), (10, 9), (5, 10)]"
    by code_simp
  then show ?thesis using small_steps_lose_endstep [OF steps0_ok, of "(5, 10)" "[]"] by (simp add: services)
qed

section \<open>The store of slow data\<close>

definition ss0 :: "bool \<Rightarrow> nat list \<Rightarrow> nat \<Rightarrow> nat" where
  "ss0 right xs x = length (filter (\<lambda>y. if right then y \<le> x else y < x) xs)"

lemma searchsorted0: "searchsorted_ok ss0"
  by (simp add: searchsorted_ok_def ss0_def)

definition scan_config0 :: "nat pyo" where
  "scan_config0 = Obj [(''software'', Obj [(''scan'', Dic [(0, Obj [(''dettype'', Val (VStr ''scan'')),
     (''detid'', Val (VStr ''1'')), (''raw'', Obj [(''x'', Obj [(''_type'', Val (VInt 9)), (''_rank'', Val (VInt 0))])])])])])]"

definition scan_dgm0 :: "nat \<Rightarrow> nat \<Rightarrow> nat dgm" where
  "scan_dgm0 t x = \<lparr>dg_timestamp = t, dg_service = 6,
     dg_attrs = [(''scan'', Dic [(0, Obj [(''raw'', Obj [(''x'', Val (VData x))])])])]\<rparr>"

definition scan_evts0 :: "nat dgm option list list" where
  "scan_evts0 = [[Some (scan_dgm0 2 20)], [None], [Some (scan_dgm0 4 40)]]"

definition esm0 :: "nat esm" where
  "esm0 = projr (esm_init [scan_config0])"

definition esm1 :: "nat esm" where
  "esm1 = projr (sfold update_by_event scan_evts0 esm0)"

lemma esm0: "esm_init [scan_config0] = Inr esm0" and esm1: "sfold update_by_event scan_evts0 esm0 = Inr esm1"
  by code_simp+

lemma dgrams0: "dgrams_of 0 scan_evts0 = [scan_dgm0 2 20, scan_dgm0 4 40]"
  by (simp add: scan_evts0_def dgrams_of_def kept_def)

text \<open>
  C30. After the events of a run, in order of time, the step of an event has from every file the
  last begin of a run or a step that is not after the event, and no datagram where there is none.
\<close>

theorem step_of_event:
  assumes "searchsorted_ok ss" and "esm_init configs = Inr m0" and "sfold update_by_event evs m0 = Inr m"
    and "\<forall>evt\<in>set evs. length evt = length configs" and "\<forall>i<length configs. sorted (map dg_timestamp (dgrams_of i evs))"
  shows "get_step_dgrams_of_event ss (sm_scan m) t
    = map (\<lambda>i. last_of (filter (\<lambda>d. is_scan d \<and> dg_timestamp d \<le> t) (dgrams_of i evs))) [0..<length configs]"
proof (rule nth_equalityI)
  have holds: "store_holds (length configs) (sm_scan m) (\<lambda>i. filter is_scan (dgrams_of i evs))"
    using update_by_events_hold [OF assms(3) esm_init_holds [OF assms(2)] assms(4)] by simp
  then show len: "length (get_step_dgrams_of_event ss (sm_scan m) t) = length (map (\<lambda>i. last_of (filter (\<lambda>d. is_scan d \<and>
      dg_timestamp d \<le> t) (dgrams_of i evs))) [0..<length configs])"
    by (simp add: get_step_dgrams_of_event_def store_holds_def)
  fix i assume "i < length (get_step_dgrams_of_event ss (sm_scan m) t)"
  then have i: "i < length configs" using len by simp
  then have m: "manager_holds (es_managers (sm_scan m) ! i) (filter is_scan (dgrams_of i evs))" "i < length (es_managers (sm_scan m))"
    using holds by (simp_all add: store_holds_def)
  have "sorted (map dg_timestamp (filter is_scan (dgrams_of i evs)))"
    using assms(5) i by (simp add: sorted_filter)
  from step_dgram_found [OF assms(1) m(1) this] m(2) i
  show "get_step_dgrams_of_event ss (sm_scan m) t ! i = map (\<lambda>i. last_of (filter (\<lambda>d. is_scan d \<and>
      dg_timestamp d \<le> t) (dgrams_of i evs))) [0..<length configs] ! i"
    by (simp add: get_step_dgrams_of_event_def conj_commute)
qed

theorem step_of_event_witness: "get_step_dgrams_of_event ss0 (sm_scan esm1) 3 = [Some (scan_dgm0 2 20)]"
  using step_of_event [OF searchsorted0 esm0 esm1, of 3]
  by (simp add: dgrams0 scan_dgm0_def is_scan_def last_of_def TransitionId_BeginStep_def) (simp add: scan_evts0_def)

text \<open>
  The value of a variable for an event comes from the first file whose search finds one. The
  search of a file begins at the first datagram that is not before the event, or at the last one
  when all are before it, and goes back over at most so many datagrams until one has the algorithm
  of the variable. A value that changes between two datagrams is therefore that of the next one
  when the store has it already.
\<close>

theorem values_search_from_next:
  assumes "searchsorted_ok ss" and "es_managers st \<noteq> []"
    and "list_all2 (\<lambda>m ds. manager_holds m ds \<and> sorted (map dg_timestamp ds)) (es_managers st) dss"
  shows "env_values ss steps st ts var = smap (\<lambda>t. first_found (\<lambda>(m, ds).
      case locate_variable (ev_variables m) var of None \<Rightarrow> Inr None
      | Some (alg, seg) \<Rightarrow> first_found (env_lookup (es_name st) seg alg var) (take (nat steps) (rev (up_to_next t ds))))
      (zip (es_managers st) dss)) ts"
proof -
  let ?look = "\<lambda>t (m, ds). case locate_variable (ev_variables m) var of None \<Rightarrow> Inr None
      | Some (alg, seg) \<Rightarrow> first_found (env_lookup (es_name st) seg alg var) (take (nat steps) (rev (up_to_next t ds)))"
  have found: "first_found (value_from ss steps (es_name st) var t) (es_managers st) = first_found (?look t) (zip (es_managers st) dss)" for t
    using assms(3)
  proof (induction rule: list_all2_induct)
    case (Cons m ms ds dss)
    have "value_from ss steps (es_name st) var t m = ?look t (m, ds)"
    proof (cases "locate_variable (ev_variables m) var")
      case None
      then show ?thesis by (simp add: value_from_def)
    next
      case (Some as)
      then show ?thesis using value_from_found [OF assms(1), of m ds] Cons.hyps by (cases as) auto
    qed
    then show ?case using Cons.IH by simp
  qed simp
  show ?thesis unfolding env_values_def using values_loop_first_found [OF assms(2)] found by simp
qed

theorem values_search_from_next_witness:
  "env_values ss0 10 (sm_scan esm1) [3] ''x'' = Inr [Some (Val (VData 40))]"
proof -
  have "store_holds 1 (sm_scan esm1) (\<lambda>i. [] @ filter is_scan (dgrams_of i scan_evts0))"
    using update_by_events_hold [OF esm1 esm_init_holds [OF esm0]] by (simp add: scan_evts0_def)
  then obtain m where m: "es_managers (sm_scan esm1) = [m]" "manager_holds m [scan_dgm0 2 20, scan_dgm0 4 40]"
    by (auto simp: store_holds_def dgrams0 is_scan_def scan_dgm0_def TransitionId_BeginStep_def length_Suc_conv)
  have vars: "map ev_variables (es_managers (sm_scan esm1)) = [[(''raw'', [(0, [(''x'', FloatType)])])]]" "es_name (sm_scan esm1) = ''scan''"
    by code_simp+
  have "env_values ss0 10 (sm_scan esm1) [3] ''x'' = smap (\<lambda>t. first_found (\<lambda>(m, ds).
      case locate_variable (ev_variables m) ''x'' of None \<Rightarrow> Inr None
      | Some (alg, seg) \<Rightarrow> first_found (env_lookup (es_name (sm_scan esm1)) seg alg ''x'') (take (nat 10) (rev (up_to_next t ds))))
      (zip (es_managers (sm_scan esm1)) [[scan_dgm0 2 20, scan_dgm0 4 40]])) [3]"
    by (rule values_search_from_next [OF searchsorted0]) (use m in \<open>simp_all add: scan_dgm0_def\<close>)
  then show ?thesis using vars m(1)
    by (simp add: up_to_next_def scan_dgm0_def env_lookup_def sbind_def dict_get_def)
qed

text \<open>
  A step that updates the config of a detector merges: every leaf of the step's config replaces
  the one of the config, and all leaves the step does not reach stay as they are.
\<close>

theorem config_update_merges:
  assumes "update_config ori upd = Inr new" and "obj_ok upd"
  shows "leaf_at new p = (if meets_leaf upd p then leaf_at upd p else leaf_at ori p)"
  using update_config_merged [OF assms] by (simp add: merged_def)

theorem config_update_merges_witness:
  "leaf_at (projr (update_config (Obj [(''user'', Obj [(''a'', Val (VInt 1)), (''b'', Val (VInt 2))])])
      (Obj [(''user'', Obj [(''b'', Val (VInt 3))])]) :: pyexc + nat pyo)) [''user'', ''a''] = Some (Val (VInt 1))"
proof -
  let ?o = "Obj [(''user'', Obj [(''a'', Val (VInt 1)), (''b'', Val (VInt 2))])] :: nat pyo"
  let ?u = "Obj [(''user'', Obj [(''b'', Val (VInt 3))])]"
  have "update_config ?o ?u = Inr (projr (update_config ?o ?u))" by code_simp
  from config_update_merges [OF this, of "[''user'', ''a'']"] show ?thesis
    by (simp add: leaf_at_leaf)
qed

text \<open>
  Of the segments of a config that have the same algorithm only the last one's variables are
  kept for a file.
\<close>

theorem last_segment_only:
  assumes "obj_getattr config ''software'' = Inr software" and "obj_getattr software name = Inr (Dic segs)"
    and "init_env_variables config name = Inr (vars, ms)"
  shows "map_option (map fst) (map_of vars alg) = map_option (\<lambda>s. [fst s]) (last_of (filter (\<lambda>s. alg \<in> seg_algs s) segs))"
proof -
  have "obj_hasattr software name" using assms(2) by (cases software) (auto split: option.splits)
  then have "sfold (add_segment config name) segs ([], [], []) = Inr (vars, ms)"
    using assms by (simp add: init_env_variables_def sbind_def)
  from add_segments_segments [OF this, of alg] show ?thesis
    by (simp add: alg_segments_def split: option.splits)
qed

theorem last_segment_only_witness:
  "map_option (map fst) (map_of (fst (projr (init_env_variables scan_config0 ''scan''))) ''raw'') = Some [0]"
proof -
  let ?segs = "[(0, Obj [(''dettype'', Val (VStr ''scan'')),
     (''detid'', Val (VStr ''1'')), (''raw'', Obj [(''x'', Obj [(''_type'', Val (VInt 9)), (''_rank'', Val (VInt 0))])])])] :: (int \<times> nat pyo) list"
  have "init_env_variables scan_config0 ''scan'' = Inr (fst (projr (init_env_variables scan_config0 ''scan'')),
      snd (projr (init_env_variables scan_config0 ''scan'')))"
    by code_simp
  from last_segment_only [OF _ _ this, of "Obj [(''scan'', Dic ?segs)]" ?segs "''raw''"] show ?thesis
    by (simp add: scan_config0_def seg_algs_def last_of_def)
qed

end
