(* ===== verification/DgramMan.thy ===== *)
theory DgramMan
  imports PyObj StepIter "HOL-Library.Word"
begin

unbundle bit_operations_syntax

text \<open>
  The datagram manager (\<^verbatim>\<open>psana/psana/dgrammanager.py\<close>): the iterator over one file or a
  shared memory, which closes a run that has no EndRun with a made-up one, and the tables of the
  detectors it builds from the configs. The datagrams that can still be read are a list; a shared
  memory also loses its server and connects again.
\<close>

section \<open>The iterator\<close>

record 'c dgr =
  dr_service :: nat
  dr_timestamp :: "64 word"
  dr_content :: 'c

datatype 'c reading = Got "'c dgr list" | Reconnect "'c dgr"

record 'c dgram_manager =
  dm_shmem :: bool
  dm_configs :: "'c dgr list"
  dm_found_endrun :: bool
  dm_buffered_beginruns :: "'c dgr list"
  dm_timestamps :: "64 word list"
  dm_left :: "'c reading list"

type_synonym ('c, 'a) dmm = "('c dgram_manager, 'a) eff"

definition TransitionId_Configure :: nat where
  "TransitionId_Configure = 2"

definition dgram_manager_init :: "bool \<Rightarrow> 'c dgr list \<Rightarrow> 'c reading list \<Rightarrow> 'c dgram_manager" where
  "dgram_manager_init shmem configs left = \<lparr>dm_shmem = shmem, dm_configs = configs, dm_found_endrun = True,
     dm_buffered_beginruns = [], dm_timestamps = [], dm_left = left\<rparr>"

text \<open>
  The made-up EndRun. Its seconds and what the code calls microseconds are C unsigned values of 32
  bits, which the reader takes as the two halves of a timestamp.
\<close>

definition fake_sec :: "64 word \<Rightarrow> 32 word" where
  "fake_sec t = ucast (drop_bit 32 t AND 0xffffffff)"

definition fake_usec :: "64 word \<Rightarrow> 32 word" where
  "fake_usec t = of_nat (unat (t AND 0xffffffff) * 1000 + 1)"

definition fake_timestamp :: "64 word \<Rightarrow> 64 word" where
  "fake_timestamp t = push_bit 32 (ucast (fake_sec t)) OR ucast (fake_usec t)"

definition fake_endrun :: "64 word \<Rightarrow> 'c dgr \<Rightarrow> 'c dgr" where
  "fake_endrun t config = \<lparr>dr_service = TransitionId_EndRun, dr_timestamp = fake_timestamp t, dr_content = dr_content config\<rparr>"

definition check_missing_endrun :: "'c dgr list \<Rightarrow> ('c, 'c dgr list) dmm" where
  "check_missing_endrun beginruns =
     ebind (eget dm_found_endrun) (\<lambda>found.
       if \<not> found
       then ebind (ebind (eget (\<lambda>m. if dm_timestamps m = [] then Inl IndexError else Inr (last (dm_timestamps m)))) elift) (\<lambda>t.
            eseq (ewhen (beginruns \<noteq> []) (emod (\<lambda>m. m\<lparr>dm_buffered_beginruns := map fst (zip beginruns (dm_configs m))\<rparr>)))
           (ebind (eget (\<lambda>m. map (fake_endrun t) (dm_configs m))) (\<lambda>fakes.
            eseq (emod (\<lambda>m. m\<lparr>dm_found_endrun := True\<rparr>)) (eret fakes))))
       else eseq (emod (\<lambda>m. m\<lparr>dm_found_endrun := False\<rparr>)) (eret []))"

text \<open>An event has the time of its first datagram, which must not be 0.\<close>

definition note_event :: "'c dgr list \<Rightarrow> ('c, 'c dgr list) dmm" where
  "note_event dgrams = (case dgrams of
     [] \<Rightarrow> eraise AssertionError
   | d # _ \<Rightarrow> (if dr_timestamp d = 0 then eraise AssertionError
       else eseq (emod (\<lambda>m. m\<lparr>dm_timestamps := dm_timestamps m @ [dr_timestamp d]\<rparr>)) (eret dgrams)))"

text \<open>What follows a read that is no Configure.\<close>

definition pair_event :: "'c dgr list \<Rightarrow> ('c, 'c dgr list) dmm" where
  "pair_event dgrams = (case dgrams of
     [] \<Rightarrow> eraise IndexError
   | d # _ \<Rightarrow>
       ebind (if dr_service d = TransitionId_BeginRun
              then ebind (check_missing_endrun dgrams) (\<lambda>fakes. eret (if fakes \<noteq> [] then fakes else dgrams))
              else eret dgrams) (\<lambda>out.
       eseq (ewhen (dr_service d = TransitionId_EndRun) (emod (\<lambda>m. m\<lparr>dm_found_endrun := True\<rparr>)))
            (note_event out)))"

definition at_end_of_file :: "('c, 'c dgr list) dmm" where
  "at_end_of_file =
     ebind (check_missing_endrun []) (\<lambda>fakes. if fakes \<noteq> [] then pair_event fakes else eraise StopIteration)"

text \<open>A Configure replaces the configs and the next datagrams are read.\<close>

fun read_event :: "'c reading list \<Rightarrow> ('c, 'c dgr list) dmm" where
  "read_event [] m = (if dm_shmem m then (Inl Blocked, m\<lparr>dm_left := []\<rparr>) else at_end_of_file (m\<lparr>dm_left := []\<rparr>))"
| "read_event (Got dgrams # left) m =
     (if dgrams \<noteq> [] \<and> dr_service (hd dgrams) = TransitionId_Configure
      then read_event left (m\<lparr>dm_configs := dgrams\<rparr>)
      else pair_event dgrams (m\<lparr>dm_left := left\<rparr>))"
| "read_event (Reconnect d # left) m =
     (if dr_service d = TransitionId_Configure then read_event left (m\<lparr>dm_configs := [d]\<rparr>)
      else (Inl (RuntimeError ''Configure expected''), m\<lparr>dm_left := left\<rparr>))"

definition dm_next :: "('c, 'c dgr list) dmm" where
  "dm_next m =
     (if dm_buffered_beginruns m \<noteq> []
      then (let b = dm_buffered_beginruns m in
            eseq (emod (\<lambda>m. m\<lparr>dm_found_endrun := False\<rparr>))
           (ebind (note_event b) (\<lambda>e. eseq (emod (\<lambda>m. m\<lparr>dm_buffered_beginruns := []\<rparr>)) (eret e))) m)
      else read_event (dm_left m) m)"

text \<open>The iterator run for at most so many events: what it gave, and how it ended, if it did.\<close>

fun dm_events :: "nat \<Rightarrow> 'c dgram_manager \<Rightarrow> 'c dgr list list \<times> pyexc option \<times> 'c dgram_manager" where
  "dm_events 0 m = ([], None, m)"
| "dm_events (Suc n) m = (case dm_next m of
     (Inl e, m1) \<Rightarrow> ([], Some e, m1)
   | (Inr evt, m1) \<Rightarrow> (case dm_events n m1 of (evts, r, m2) \<Rightarrow> (evt # evts, r, m2)))"

text \<open>\<open>jump\<close>: one datagram per file; the reader is a parameter that may end with StopIteration.\<close>

definition jumps :: "(nat \<Rightarrow> nat \<Rightarrow> nat \<Rightarrow> pyexc + 'd) \<Rightarrow> nat \<Rightarrow> nat \<Rightarrow> nat \<Rightarrow> pyexc + 'd option" where
  "jumps pread i offset sz =
     (if offset = 0 \<and> sz = 0 then Inr None
      else (case pread i offset sz of
              Inl StopIteration \<Rightarrow> Inr None
            | Inl e \<Rightarrow> Inl e
            | Inr d \<Rightarrow> Inr (Some d)))"

definition jump :: "(nat \<Rightarrow> nat \<Rightarrow> nat \<Rightarrow> pyexc + 'd) \<Rightarrow> nat list \<Rightarrow> nat list \<Rightarrow> pyexc + 'd option list" where
  "jump pread offsets sizes =
     (if offsets = [] \<or> sizes = [] then Inl AssertionError
      else smap (\<lambda>(i, offset, sz). jumps pread i offset sz) (enumerate 0 (zip offsets sizes)))"

end
