(* ===== verification/DgramManFacts.thy ===== *)
theory DgramManFacts
  imports DgramMan "HOL-Library.Sublist"
begin

text \<open>
  What the iterator of the datagram manager gives: the events that are read, with a made-up EndRun
  wherever a run is not closed.
\<close>

definition events_of :: "'c reading list \<Rightarrow> 'c dgr list list" where
  "events_of rs = concat (map (\<lambda>r. case r of
     Got e \<Rightarrow> if dr_service (hd e) = TransitionId_Configure then [] else [e] | Reconnect d \<Rightarrow> []) rs)"

text \<open>The specification; \<open>opn\<close> says that a run has begun and not ended.\<close>

fun complete_runs :: "bool \<Rightarrow> 'c dgr list \<Rightarrow> bool \<Rightarrow> 64 word \<Rightarrow> 'c reading list \<Rightarrow> 'c dgr list list" where
  "complete_runs shmem configs opn t [] = (if opn \<and> \<not> shmem then [map (fake_endrun t) configs] else [])"
| "complete_runs shmem configs opn t (Reconnect d # rs) = complete_runs shmem [d] opn t rs"
| "complete_runs shmem configs opn t (Got e # rs) =
     (let s = dr_service (hd e); t1 = dr_timestamp (hd e) in
      if s = TransitionId_Configure then complete_runs shmem e opn t rs
      else if s = TransitionId_BeginRun
      then (if opn then [map (fake_endrun t) configs] else []) @ e # complete_runs shmem configs True t1 rs
      else e # complete_runs shmem configs (opn \<and> s \<noteq> TransitionId_EndRun) t1 rs)"

fun good_reading :: "nat \<Rightarrow> 'c reading \<Rightarrow> bool" where
  "good_reading n (Got e) \<longleftrightarrow> length e = n \<and> dr_timestamp (hd e) \<noteq> 0"
| "good_reading n (Reconnect d) \<longleftrightarrow> n = 1 \<and> dr_service d = TransitionId_Configure"

text \<open>Every BeginRun closes before the next one and before the end.\<close>

fun runs_closed :: "bool \<Rightarrow> 'c dgr list list \<Rightarrow> bool" where
  "runs_closed opn [] \<longleftrightarrow> \<not> opn"
| "runs_closed opn (e # es) \<longleftrightarrow>
     (if dr_service (hd e) = TransitionId_BeginRun then \<not> opn \<and> runs_closed True es
      else if dr_service (hd e) = TransitionId_EndRun then runs_closed False es
      else runs_closed opn es)"

lemmas tids = TransitionId_BeginRun_def TransitionId_EndRun_def TransitionId_Configure_def

section \<open>The time of a made-up EndRun\<close>

lemma len64: "LENGTH(64) = 64"
  by simp

lemma mask32: "(0xffffffff :: 64 word) = mask 32"
  by (simp add: mask_eq_exp_minus_1)

lemma low_unat: "unat (t AND 0xffffffff :: 64 word) = unat t mod 2 ^ 32"
  by (simp only: mask32 unsigned_take_bit_eq flip: take_bit_eq_mask take_bit_eq_mod)

lemma drop_bit_div64: "unat (drop_bit 32 t :: 64 word) = unat t div 2 ^ 32"
  by (simp add: drop_bit_eq_div unat_div)

lemma fake_timestamp_nat:
  "unat (fake_timestamp t) = (unat t div 2 ^ 32) * 2 ^ 32 + (unat t mod 2 ^ 32 * 1000 + 1) mod 2 ^ 32"
proof -
  have "unat t < 2 ^ 64" using unsigned_less [of t] by simp
  then have hi: "unat t div 2 ^ 32 < 2 ^ 32" by (simp add: less_mult_imp_div_less)
  have sec: "unat (fake_sec t) = unat t div 2 ^ 32"
  proof -
    have "unat (fake_sec t) = take_bit 32 (unat (drop_bit 32 t AND 0xffffffff))"
      by (simp add: fake_sec_def unsigned_ucast_eq)
    also have "unat (drop_bit 32 t AND 0xffffffff) = unat t div 2 ^ 32"
      using hi by (simp only: low_unat drop_bit_div64 mod_less)
    finally show ?thesis using hi by (simp add: take_bit_nat_eq_self)
  qed
  have usec: "unat (fake_usec t) = (unat t mod 2 ^ 32 * 1000 + 1) mod 2 ^ 32"
    by (simp only: fake_usec_def low_unat unat_of_nat) simp
  have disj: "push_bit 32 (ucast (fake_sec t) :: 64 word) AND ucast (fake_usec t) = 0"
    by (rule bit_word_eqI) (auto simp: bit_and_iff bit_push_bit_iff bit_ucast_iff dest: bit_imp_le_length)
  have "unat (push_bit 32 (ucast (fake_sec t) :: 64 word)) = unat (fake_sec t) * 2 ^ 32"
    using hi sec by (simp add: push_bit_eq_mult unat_word_ariths unsigned_ucast_eq take_bit_nat_eq_self)
  moreover have "unat (ucast (fake_usec t) :: 64 word) = unat (fake_usec t)"
    using usec by (simp add: unsigned_ucast_eq take_bit_nat_eq_self)
  moreover have "fake_timestamp t = push_bit 32 (ucast (fake_sec t)) + ucast (fake_usec t)"
    unfolding fake_timestamp_def by (rule disjunctive_add_eq_or [OF disj, symmetric])
  moreover have "unat t div 2 ^ 32 * 2 ^ 32 + (unat t mod 2 ^ 32 * 1000 + 1) mod 2 ^ 32 < 2 ^ 64"
  proof -
    have "unat t div 2 ^ 32 * 2 ^ 32 \<le> (2 ^ 32 - 1) * 2 ^ 32" using hi by simp
    moreover have "(unat t mod 2 ^ 32 * 1000 + 1) mod 2 ^ 32 < 2 ^ 32" by simp
    ultimately have "unat t div 2 ^ 32 * 2 ^ 32 + (unat t mod 2 ^ 32 * 1000 + 1) mod 2 ^ 32 < (2 ^ 32 - 1) * 2 ^ 32 + 2 ^ 32"
      by (rule add_le_less_mono)
    then show ?thesis by simp
  qed
  ultimately show ?thesis
    using sec usec by (simp only: unat_word_ariths len64 mod_less)
qed

lemma fake_timestamp_ne_0: "fake_timestamp t \<noteq> 0"
proof
  assume "fake_timestamp t = 0"
  then have "unat (fake_timestamp t) = 0" by simp
  then have "(unat t mod 2 ^ 32 * 1000 + 1) mod 2 ^ 32 = 0" unfolding fake_timestamp_nat by linarith
  then have "2 ^ 32 dvd unat t mod 2 ^ 32 * 1000 + 1" by (rule mod_0_imp_dvd)
  then have "even (unat t mod 2 ^ 32 * 1000 + 1)" by (rule dvd_trans [rotated]) simp
  then show False by simp
qed

section \<open>One event\<close>

text \<open>A state between two events: whether a run is open, its last time, and what is left.\<close>

definition dm_at :: "'c dgram_manager \<Rightarrow> bool \<Rightarrow> 'c dgr list \<Rightarrow> bool \<Rightarrow> 64 word \<Rightarrow> 'c reading list \<Rightarrow> bool" where
  "dm_at m shmem configs opn t rs \<longleftrightarrow> dm_shmem m = shmem \<and> dm_configs m = configs \<and> dm_found_endrun m = (\<not> opn)
     \<and> dm_buffered_beginruns m = [] \<and> dm_left m = rs \<and> (opn \<longrightarrow> dm_timestamps m \<noteq> [] \<and> last (dm_timestamps m) = t)"

lemma read_event_left: "read_event rs (m\<lparr>dm_left := x\<rparr>) = read_event rs m"
proof (induction rs m rule: read_event.induct)
  case (2 dgrams left m)
  have eq: "m\<lparr>dm_left := x, dm_configs := dgrams\<rparr> = m\<lparr>dm_configs := dgrams, dm_left := x\<rparr>" by simp
  show ?case using 2 unfolding read_event.simps eq by auto
next
  case (3 d left m)
  have eq: "m\<lparr>dm_left := x, dm_configs := [d]\<rparr> = m\<lparr>dm_configs := [d], dm_left := x\<rparr>" by simp
  show ?case using 3 unfolding read_event.simps eq by auto
qed simp

lemma dm_next_configure:
  assumes "dm_at m shmem configs opn t (Got e # rs)" and "e \<noteq> []" and "dr_service (hd e) = TransitionId_Configure"
  shows "dm_next m = dm_next (m\<lparr>dm_configs := e, dm_left := rs\<rparr>)"
  using assms by (simp add: dm_next_def dm_at_def read_event_left)

lemma dm_next_reconnect:
  assumes "dm_at m shmem configs opn t (Reconnect d # rs)" and "dr_service d = TransitionId_Configure"
  shows "dm_next m = dm_next (m\<lparr>dm_configs := [d], dm_left := rs\<rparr>)"
  using assms by (simp add: dm_next_def dm_at_def read_event_left)

lemmas dm_runs = eff_simps pair_event_def check_missing_endrun_def note_event_def

lemma dm_next_plain:
  assumes "dm_at m shmem configs opn t (Got e # rs)" and "e \<noteq> []" and "dr_timestamp (hd e) \<noteq> 0"
    and "dr_service (hd e) \<noteq> TransitionId_Configure" and "dr_service (hd e) = TransitionId_BeginRun \<Longrightarrow> \<not> opn"
  shows "\<exists>m1. dm_next m = (Inr e, m1) \<and>
    dm_at m1 shmem configs (dr_service (hd e) = TransitionId_BeginRun \<or> opn \<and> dr_service (hd e) \<noteq> TransitionId_EndRun)
      (dr_timestamp (hd e)) rs"
proof -
  obtain d ds where e: "e = d # ds" using assms(2) by (cases e) auto
  show ?thesis using assms
    by (auto simp: e dm_next_def dm_at_def dm_runs tids)
qed

lemma dm_next_unclosed:
  assumes "dm_at m shmem configs True t (Got e # rs)" and "configs \<noteq> []" and "length e = length configs"
    and "dr_timestamp (hd e) \<noteq> 0" and "dr_service (hd e) = TransitionId_BeginRun"
  shows "\<exists>m1 m2. dm_next m = (Inr (map (fake_endrun t) configs), m1) \<and> dm_next m1 = (Inr e, m2) \<and>
    dm_at m2 shmem configs True (dr_timestamp (hd e)) rs"
proof -
  obtain d ds where e: "e = d # ds" using assms(2,3) by (cases e) auto
  obtain c cs where c: "configs = c # cs" using assms(2) by (cases configs) auto
  have z: "map fst (zip ds cs) = ds" using assms(3) by (simp add: e c)
  show ?thesis using assms
    by (auto simp: e c z dm_next_def dm_at_def dm_runs tids fake_endrun_def fake_timestamp_ne_0 Let_def)
qed

lemma dm_next_end_open:
  assumes "dm_at m False configs True t []" and "configs \<noteq> []"
  shows "\<exists>m1. dm_next m = (Inr (map (fake_endrun t) configs), m1) \<and> dm_at m1 False configs False (fake_timestamp t) []"
proof -
  obtain c cs where c: "configs = c # cs" using assms(2) by (cases configs) auto
  show ?thesis using assms
    by (auto simp: c dm_next_def dm_at_def at_end_of_file_def dm_runs tids fake_endrun_def fake_timestamp_ne_0)
qed

lemma dm_next_end: "dm_at m shmem configs (opn \<and> shmem) t [] \<Longrightarrow> \<exists>m1. dm_next m = (Inl (if shmem then Blocked else StopIteration), m1)"
  by (auto simp: dm_next_def dm_at_def at_end_of_file_def dm_runs)

section \<open>All events\<close>

definition gives :: "'c dgram_manager \<Rightarrow> 'c dgr list list \<Rightarrow> pyexc \<Rightarrow> bool" where
  "gives m evts r \<longleftrightarrow> (\<exists>m1. dm_events (Suc (length evts)) m = (evts, Some r, m1))"

lemma gives_Cons: "dm_next m = (Inr e, m1) \<Longrightarrow> gives m1 evts r \<Longrightarrow> gives m (e # evts) r"
  by (auto simp: gives_def simp del: dm_events.simps(2)) (subst dm_events.simps(2), simp del: dm_events.simps(2))

lemma gives_end: "dm_next m = (Inl r, m1) \<Longrightarrow> gives m [] r"
  by (simp add: gives_def)

lemma gives_same: "dm_next m = dm_next m' \<Longrightarrow> gives m' evts r \<Longrightarrow> gives m evts r"
  by (simp add: gives_def)

abbreviation stops :: "bool \<Rightarrow> pyexc" where
  "stops shmem \<equiv> if shmem then Blocked else StopIteration"

lemma dm_events_complete:
  "list_all (good_reading (length configs)) rs \<Longrightarrow> configs \<noteq> [] \<Longrightarrow> dm_at m shmem configs opn t rs \<Longrightarrow>
    gives m (complete_runs shmem configs opn t rs) (stops shmem)"
proof (induction shmem configs opn t rs arbitrary: m rule: complete_runs.induct)
  case (1 shmem configs opn t)
  show ?case
  proof (cases "opn \<and> \<not> shmem")
    case True
    then obtain m1 where m1: "dm_next m = (Inr (map (fake_endrun t) configs), m1)" "dm_at m1 False configs False (fake_timestamp t) []"
      using dm_next_end_open [of m configs t] 1 by auto
    moreover obtain m2 where "dm_next m1 = (Inl StopIteration, m2)"
      using dm_next_end [of m1 False configs False "fake_timestamp t"] m1(2) by auto
    ultimately show ?thesis using True gives_Cons gives_end by fastforce
  next
    case False
    then have "(opn \<and> shmem) = opn" by blast
    then show ?thesis using dm_next_end [of m shmem configs opn t] 1 False gives_end by auto
  qed
next
  case (2 shmem configs opn t d rs)
  have "dm_at (m\<lparr>dm_configs := [d], dm_left := rs\<rparr>) shmem [d] opn t rs" using 2(4) by (simp add: dm_at_def)
  moreover have n: "length configs = 1" "dr_service d = TransitionId_Configure" "list_all (good_reading (length [d])) rs"
    using 2(2) by auto
  ultimately have "gives (m\<lparr>dm_configs := [d], dm_left := rs\<rparr>) (complete_runs shmem [d] opn t rs) (stops shmem)"
    by (intro "2.IH") simp_all
  then show ?case unfolding complete_runs.simps by (rule gives_same [OF dm_next_reconnect [OF 2(4) n(2)]])
next
  case (3 shmem configs opn t e rs)
  have e: "length e = length configs" "dr_timestamp (hd e) \<noteq> 0" "e \<noteq> []" using "3.prems"(1,2) by auto
  have rs: "list_all (good_reading (length configs)) rs" using "3.prems"(1) by simp
  consider "dr_service (hd e) = TransitionId_Configure"
    | "dr_service (hd e) = TransitionId_BeginRun" "opn"
    | "dr_service (hd e) \<noteq> TransitionId_Configure" "dr_service (hd e) = TransitionId_BeginRun \<Longrightarrow> \<not> opn" by blast
  then show ?case
  proof cases
    case 1
    have "dm_at (m\<lparr>dm_configs := e, dm_left := rs\<rparr>) shmem e opn t rs" using "3.prems"(3) by (simp add: dm_at_def)
    from "3.IH"(1) [OF refl refl 1 _ e(3) this] rs e(1)
    have "gives (m\<lparr>dm_configs := e, dm_left := rs\<rparr>) (complete_runs shmem e opn t rs) (stops shmem)" by simp
    from gives_same [OF dm_next_configure [OF "3.prems"(3) e(3) 1] this] show ?thesis using 1 by (simp add: Let_def)
  next
    case 2
    then have nc: "dr_service (hd e) \<noteq> TransitionId_Configure" by (simp add: tids)
    obtain m1 m2 where m1: "dm_next m = (Inr (map (fake_endrun t) configs), m1)" "dm_next m1 = (Inr e, m2)"
        and m2: "dm_at m2 shmem configs True (dr_timestamp (hd e)) rs"
      using dm_next_unclosed [of m shmem configs t e rs] 2 e "3.prems" by auto
    from gives_Cons [OF m1(1) gives_Cons [OF m1(2) "3.IH"(2) [OF refl refl nc 2(1) rs "3.prems"(2) m2]]]
    show ?thesis using 2 nc by (simp add: Let_def)
  next
    case 3
    from dm_next_plain [OF "3.prems"(3) e(3,2) 3] obtain m1 where m1: "dm_next m = (Inr e, m1)"
      "dm_at m1 shmem configs (dr_service (hd e) = TransitionId_BeginRun \<or> opn \<and> dr_service (hd e) \<noteq> TransitionId_EndRun)
        (dr_timestamp (hd e)) rs" by auto
    show ?thesis
    proof (cases "dr_service (hd e) = TransitionId_BeginRun")
      case True
      have "dm_at m1 shmem configs True (dr_timestamp (hd e)) rs" using m1(2) True by simp
      from gives_Cons [OF m1(1) "3.IH"(2) [OF refl refl 3(1) True rs "3.prems"(2) this]]
      show ?thesis using 3 True by (simp add: Let_def)
    next
      case False
      have "dm_at m1 shmem configs (opn \<and> dr_service (hd e) \<noteq> TransitionId_EndRun) (dr_timestamp (hd e)) rs"
        using m1(2) False by simp
      from gives_Cons [OF m1(1) "3.IH"(3) [OF refl refl 3(1) False rs "3.prems"(2) this]]
      show ?thesis using 3 False by (simp add: Let_def)
    qed
  qed
qed

lemma complete_runs_closed: "configs \<noteq> [] \<Longrightarrow> list_all (good_reading (length configs)) rs \<Longrightarrow> runs_closed opn (complete_runs False configs opn t rs)"
proof (induction False configs opn t rs rule: complete_runs.induct)
  case (3 configs opn t e rs)
  have f: "dr_service (hd (map (fake_endrun t) configs)) = TransitionId_EndRun"
    using 3(4) by (simp add: hd_map fake_endrun_def)
  have "e \<noteq> []" using 3(4,5) by auto
  with 3 f show ?case by (auto simp: Let_def tids)
qed (auto simp: hd_map fake_endrun_def tids)

lemma complete_runs_read: "subseq (events_of rs) (complete_runs shmem configs opn t rs)"
proof (induction shmem configs opn t rs rule: complete_runs.induct)
  case (3 shmem configs opn t e rs)
  then show ?case by (auto simp: events_of_def Let_def intro: list_emb_append2)
qed (auto simp: events_of_def)

end
