(* ===== verification/DetTable.thy ===== *)
theory DetTable
  imports EnvStore
begin

text \<open>
  The tables of the detectors that a datagram manager builds from the configs
  (\<^verbatim>\<open>psana/psana/dgrammanager.py\<close>), and \<open>Detector\<close> of a run
  (\<^verbatim>\<open>psana/psana/psexp/run.py\<close>), which reads them. The detector classes that exist are the
  parameter \<open>known\<close>; a class is its name.
\<close>

section \<open>Classes and streams\<close>

type_synonym det_key = "string \<times> string"
type_synonym det_classes = "(string \<times> (det_key \<times> string) list) list"
type_synonym xtc_entry = "string \<times> string \<times> string \<times> string"

record 'v det_tables =
  dt_classes :: det_classes
  dt_xtc_info :: "xtc_entry list"
  dt_info :: "(string \<times> 'v pyo option \<times> 'v pyo option) list"
  dt_stream :: "(string \<times> nat) list"

definition det_tables_init :: "'v det_tables" where
  "det_tables_init = \<lparr>dt_classes = [(''epics'', []), (''scan'', []), (''step'', []), (''normal'', [])],
     dt_xtc_info = [], dt_info = [], dt_stream = []\<rparr>"

text \<open>One attribute of the first segment: the type, the id or a detector class.\<close>

definition add_drp_class ::
    "(string \<Rightarrow> bool) \<Rightarrow> string \<Rightarrow> 'v pyo \<Rightarrow> string \<times> 'v pyo
      \<Rightarrow> ('v pyo option \<times> 'v pyo option) \<times> det_classes \<times> xtc_entry list
      \<Rightarrow> pyexc + ('v pyo option \<times> 'v pyo option) \<times> det_classes \<times> xtc_entry list" where
  "add_drp_class known det_name det drp acc = (case (drp, acc) of
     ((drp_class_name, drp_class), ((dettype, detid), classes, xtc_info)) \<Rightarrow>
       (if drp_class_name = ''dettype'' then Inr ((Some drp_class, detid), classes, xtc_info)
        else if drp_class_name = ''detid'' then Inr ((dettype, Some drp_class), classes, xtc_info)
        else if startswith drp_class_name ''_'' then Inr ((dettype, detid), classes, xtc_info)
        else sbind (sbind (obj_getattr drp_class ''version'') obj_ints) (\<lambda>version.
             sbind (sbind (obj_getattr det ''dettype'') obj_str) (\<lambda>type_name.
             sbind (sbind (obj_getattr drp_class ''software'') obj_str) (\<lambda>software.
               let versionstring = map int_str version;
                   class_name = join_with ''_'' ([type_name, software] @ versionstring);
                   xtc_entry = (det_name, type_name, drp_class_name, join_with ''_'' versionstring);
                   table = (if map_of classes det_name = None then ''normal'' else det_name)
               in sbind (dict_get classes table) (\<lambda>old.
                    Inr ((dettype, detid),
                      (if known class_name then AList.update table (AList.update (det_name, drp_class_name) class_name old) classes
                       else classes),
                      (if xtc_entry \<in> set xtc_info then xtc_info else xtc_info @ [xtc_entry]))))))))"

definition add_detector ::
    "(string \<Rightarrow> bool) \<Rightarrow> nat \<Rightarrow> string \<times> 'v pyo \<Rightarrow> 'v det_tables \<Rightarrow> pyexc + 'v det_tables" where
  "add_detector known i nd t = (case nd of (det_name, det_dict) \<Rightarrow>
     sbind (obj_items det_dict) (\<lambda>segs.
       case segs of
         [] \<Rightarrow> Inl StopIteration
       | (first_key, det) # _ \<Rightarrow>
           sbind (sbind (obj_vars det) (\<lambda>as. sfold (add_drp_class known det_name det) as ((None, None), dt_classes t, dt_xtc_info t)))
             (\<lambda>((dettype, detid), classes, xtc_info).
               Inr (t\<lparr>dt_classes := classes, dt_xtc_info := xtc_info,
                 dt_info := AList.update det_name (dettype, detid) (dt_info t),
                 dt_stream := (if map_of (dt_stream t) det_name = None then AList.update det_name i (dt_stream t)
                   else dt_stream t)\<rparr>))))"

definition add_config_detectors :: "(string \<Rightarrow> bool) \<Rightarrow> nat \<times> 'v pyo \<Rightarrow> 'v det_tables \<Rightarrow> pyexc + 'v det_tables" where
  "add_config_detectors known ic t = (case ic of (i, cfg) \<Rightarrow>
     sbind (sbind (obj_getattr cfg ''software'') obj_vars) (\<lambda>dets. sfold (add_detector known i) dets t))"

definition setup_det_class_table :: "(string \<Rightarrow> bool) \<Rightarrow> 'v pyo list \<Rightarrow> pyexc + 'v det_tables" where
  "setup_det_class_table known configs = sfold (add_config_detectors known) (enumerate 0 configs) det_tables_init"

section \<open>Config information\<close>

record 'v config_info =
  ci_configs :: "'v pyo list"
  ci_segment_ids :: "int list"
  ci_detid_dict :: "(int \<times> 'v pyo) list"
  ci_dettype :: "'v pyo"
  ci_uniqueid :: "'v pyo"

definition has_detector :: "string \<Rightarrow> 'v pyo \<Rightarrow> pyexc + bool" where
  "has_detector det_name cfg = sbind (obj_getattr cfg ''software'') (\<lambda>sw. Inr (obj_hasattr sw det_name))"

definition sfilter :: "('a \<Rightarrow> pyexc + bool) \<Rightarrow> 'a list \<Rightarrow> pyexc + 'a list" where
  "sfilter f xs = sbind (smap f xs) (\<lambda>bs. Inr (map fst (filter snd (zip xs bs))))"

definition add_segment_info :: "int \<times> 'v pyo \<Rightarrow> (int \<times> 'v pyo) list \<times> 'v pyo \<Rightarrow> pyexc + (int \<times> 'v pyo) list \<times> 'v pyo" where
  "add_segment_info s acc = (case (s, acc) of ((segment, det), (detid_dict, dettype)) \<Rightarrow>
     sbind (obj_getattr det ''detid'') (\<lambda>i.
     sbind (obj_getattr det ''dettype'') (\<lambda>t. Inr (AList.update segment i detid_dict, t))))"

definition add_det_config ::
    "string \<Rightarrow> 'v pyo \<Rightarrow> int list \<times> (int \<times> 'v pyo) list \<times> 'v pyo \<Rightarrow> pyexc + int list \<times> (int \<times> 'v pyo) list \<times> 'v pyo" where
  "add_det_config det_name config acc = (case acc of (ids, dd) \<Rightarrow>
     sbind (sbind (sbind (obj_getattr config ''software'') (\<lambda>sw. obj_getattr sw det_name)) obj_items) (\<lambda>segs.
     sbind (sfold add_segment_info segs dd) (\<lambda>dd1. Inr (ids @ map fst segs, dd1))))"

definition add_uniqueid :: "(int \<times> 'v pyo) list \<Rightarrow> int \<Rightarrow> 'v pyo \<Rightarrow> pyexc + 'v pyo" where
  "add_uniqueid detid_dict segid uid =
     sbind (dict_get detid_dict segid) (\<lambda>i.
     sbind (obj_str i) (\<lambda>istr.
     sbind (obj_str uid) (\<lambda>u. Inr (Val (VStr (u @ ''_'' @ istr))))))"

definition config_info_of :: "'v pyo list \<Rightarrow> string \<Rightarrow> pyexc + 'v config_info" where
  "config_info_of configs det_name =
     sbind (sfilter (has_detector det_name) configs) (\<lambda>det_configs.
     sbind (sfold (add_det_config det_name) det_configs ([], [], Val (VStr []))) (\<lambda>(ids, detid_dict, dettype).
       let sorted_segment_ids = sort ids in
       sbind (sfold (add_uniqueid detid_dict) sorted_segment_ids dettype) (\<lambda>uid.
         Inr \<lparr>ci_configs = det_configs, ci_segment_ids = sorted_segment_ids, ci_detid_dict = detid_dict,
              ci_dettype = dettype, ci_uniqueid = uid\<rparr>)))"

definition set_configinfo :: "'v pyo list \<Rightarrow> det_classes \<Rightarrow> pyexc + (string \<times> 'v config_info) list" where
  "set_configinfo configs classes =
     sfold (\<lambda>det_name d. sbind (config_info_of configs det_name) (\<lambda>ci. Inr (AList.update det_name ci d)))
       (concat (map (\<lambda>(_, det_class). map (fst \<circ> fst) det_class) classes)) []"

section \<open>Chunks\<close>

text \<open>\<open>s.find(p)\<close>\<close>

fun str_find :: "string \<Rightarrow> string \<Rightarrow> nat option" where
  "str_find [] p = (if p = [] then Some 0 else None)"
| "str_find (c # cs) p = (if startswith (c # cs) p then Some 0 else map_option Suc (str_find cs p))"

text \<open>\<open>int(s)\<close>: blanks around, a sign, and digits in groups.\<close>

definition py_int :: "string \<Rightarrow> pyexc + int" where
  "py_int s = (let t = strip s;
       neg = startswith t ''-'';
       ds = (if neg \<or> startswith t ''+'' then tl t else t);
       groups = split_on (CHR ''_'') ds in
     if list_all isnumeric groups
     then Inr ((if neg then -1 else 1) * int (digits_val (concat groups)))
     else Inl (ValueError ''invalid literal for int()''))"

definition path_basename :: "string \<Rightarrow> string" where
  "path_basename p = rev (takeWhile (\<lambda>c. c \<noteq> CHR ''/'') (rev p))"

definition chunk_id_of :: "string \<Rightarrow> int list \<Rightarrow> pyexc + int list" where
  "chunk_id_of xtc_file chunk_ids =
     (let filename = path_basename xtc_file;
          st = str_find filename ''-c'';
          en = (case str_find filename ''.smd.xtc2'' of Some n \<Rightarrow> Some n | None \<Rightarrow> str_find filename ''.xtc2'') in
      case (st, en) of
        (Some a, Some b) \<Rightarrow> sbind (py_int (drop (a + 2) (take b filename))) (\<lambda>i. Inr (chunk_ids @ [i]))
      | _ \<Rightarrow> Inr chunk_ids)"

definition set_chunk_ids :: "string list \<Rightarrow> int list \<Rightarrow> pyexc + int list" where
  "set_chunk_ids xtc_files chunk_ids =
     (if xtc_files = [] then Inr chunk_ids
      else if hd xtc_files = ''shmem'' then Inr chunk_ids
      else sfold chunk_id_of xtc_files chunk_ids)"

definition get_chunk_id :: "int list \<Rightarrow> nat \<Rightarrow> pyexc + int option" where
  "get_chunk_id chunk_ids ind =
     (if chunk_ids = [] then Inr None
      else if ind < length chunk_ids then Inr (Some (chunk_ids ! ind)) else Inl IndexError)"

definition set_chunk_id :: "int list \<Rightarrow> nat \<Rightarrow> int \<Rightarrow> pyexc + int list" where
  "set_chunk_id chunk_ids ind new_chunk_id =
     (if ind < length chunk_ids then Inr (chunk_ids[ind := new_chunk_id]) else Inl IndexError)"

section \<open>Detectors of a run\<close>

record 'v dsparms =
  ds_classes :: det_classes
  ds_info_table :: "(string \<times> 'v pyo option \<times> 'v pyo option) list"
  ds_configinfo :: "(string \<times> 'v config_info) list"
  ds_calibconst :: "(string \<times> 'v option) list option"

text \<open>
  What a detector object is made of: its class, the name it is given, its config information, its
  calibration constants and the store of slow data it reads.
\<close>

record 'v drp_instance =
  dr_class :: string
  dr_det_name :: string
  dr_class_name :: string
  dr_configinfo :: "'v config_info"
  dr_calibconst :: "'v option"
  dr_env_store :: "string option"
  dr_var_name :: "string option"

datatype 'v detector =
    Container "(string \<times> 'v drp_instance) list"
  | EnvDetector "'v drp_instance"
  | MissingDet

record 'v run_dets =
  rd_dsparms :: "'v dsparms"
  rd_esm :: "'v esm"
  rd_dets :: "(string \<times> 'v detector) list"

type_synonym ('v, 'a) rdm = "('v run_dets, 'a) eff"

definition check_empty_calibconst :: "string \<Rightarrow> ('v, unit) rdm" where
  "check_empty_calibconst det_name =
     emod (\<lambda>s. s\<lparr>rd_dsparms := (rd_dsparms s)\<lparr>ds_calibconst := Some (case ds_calibconst (rd_dsparms s) of
        None \<Rightarrow> [(det_name, None)]
      | Some c \<Rightarrow> (if map_of c det_name = None then AList.update det_name None c else c))\<rparr>\<rparr>)"

definition make_instance ::
    "string \<Rightarrow> string \<Rightarrow> string \<Rightarrow> string option \<Rightarrow> string option \<Rightarrow> ('v, 'v drp_instance) rdm" where
  "make_instance cls det_name drp_class_name env_store var_name =
     ebind (ebind (eget (\<lambda>s. dict_get (ds_configinfo (rd_dsparms s)) det_name)) elift) (\<lambda>ci.
     ebind (ebind (eget (\<lambda>s. dict_get (the (ds_calibconst (rd_dsparms s))) det_name)) elift) (\<lambda>cal.
       eret \<lparr>dr_class = cls, dr_det_name = det_name, dr_class_name = drp_class_name, dr_configinfo = ci,
             dr_calibconst = cal, dr_env_store = env_store, dr_var_name = var_name\<rparr>))"

text \<open>The loop over the normal detector classes. The type and the id are read from the table as well.\<close>

definition add_drp_instance ::
    "string \<Rightarrow> det_key \<times> string \<Rightarrow> (string \<times> 'v drp_instance) list \<times> bool \<Rightarrow> ('v, (string \<times> 'v drp_instance) list \<times> bool) rdm" where
  "add_drp_instance name entry acc = (case entry of ((det_name, drp_class_name), drp_class) \<Rightarrow>
     (if det_name = name
      then eseq (check_empty_calibconst det_name)
          (ebind (make_instance drp_class det_name drp_class_name
               (if det_name = ''epics'' \<or> det_name = ''scan'' then Some det_name else None) None) (\<lambda>d.
           ebind (ebind (eget (\<lambda>s. dict_get (ds_info_table (rd_dsparms s)) det_name)) elift) (\<lambda>_.
             eret (AList.update drp_class_name d (fst acc), True))))
      else eret acc))"

definition env_detector :: "string \<Rightarrow> ('v, 'v detector option) rdm" where
  "env_detector name =
     ebind (eget (\<lambda>s. env_from_variable (rd_esm s) name)) (\<lambda>found.
       case found of
         None \<Rightarrow> eret None
       | Some (env_name, alg) \<Rightarrow>
           ebind (ebind (eget (\<lambda>s. dict_get (ds_classes (rd_dsparms s)) env_name)) elift) (\<lambda>det_class_table.
           ebind (elift (dict_get det_class_table (env_name, alg))) (\<lambda>drp_class.
           eseq (check_empty_calibconst env_name)
          (ebind (make_instance drp_class env_name alg (Some env_name) (Some name)) (\<lambda>d.
             eret (Some (EnvDetector d)))))))"

definition run_detector :: "string \<Rightarrow> bool \<Rightarrow> ('v, 'v detector) rdm" where
  "run_detector name0 accept_missing =
     ebind (eget (\<lambda>s. map_of (rd_dets s) name0)) (\<lambda>cached.
       case cached of
         Some det \<Rightarrow> eret det
       | None \<Rightarrow>
           ebind (eget (\<lambda>s. (get_valid_env_var_name (rd_esm s) name0, map_of (ds_configinfo (rd_dsparms s)) name0 = None)))
             (\<lambda>(mapped, unknown).
             if unknown \<and> mapped = None
             then (if \<not> accept_missing then eraise (NamedError ''DetectorNameError'') else eret MissingDet)
             else (let name = (case mapped of None \<Rightarrow> name0 | Some n \<Rightarrow> n) in
               ebind (ebind (eget (\<lambda>s. dict_get (ds_classes (rd_dsparms s)) ''normal'')) elift) (\<lambda>normal.
               ebind (efold (add_drp_instance name) normal ([], False)) (\<lambda>(parts, flag_found).
               ebind (if flag_found then eret None else env_detector name) (\<lambda>env.
               let det = (case env of Some d \<Rightarrow> d | None \<Rightarrow> Container parts) in
               eseq (emod (\<lambda>s. s\<lparr>rd_dets := AList.update name det (rd_dets s)\<rparr>)) (eret det)))))))"

end
