(* ===== verification/DetFacts.thy ===== *)
theory DetFacts
  imports DetTable EnvFacts
begin

text \<open>What the tables of the detectors hold, in terms of the configs.\<close>

section \<open>Streams\<close>

text \<open>The detectors a config names, and their segments.\<close>

definition det_names :: "'v pyo \<Rightarrow> string set" where
  "det_names cfg = (case obj_path cfg [''software''] of Some (Obj as) \<Rightarrow> fst ` set as | _ \<Rightarrow> {})"

definition det_segs :: "string \<Rightarrow> 'v pyo \<Rightarrow> (int \<times> 'v pyo) list" where
  "det_segs det_name cfg = (case obj_path cfg [''software'', det_name] of Some (Dic kvs) \<Rightarrow> kvs | _ \<Rightarrow> [])"

lemma obj_vars_Inr: "obj_vars x = Inr as \<longleftrightarrow> x = Obj as"
  by (cases x) auto

lemma obj_items_Inr: "obj_items x = Inr kvs \<longleftrightarrow> x = Dic kvs"
  by (cases x) auto

lemma sfold_Cons_Inr: "sfold f (x # xs) a = Inr b \<longleftrightarrow> (\<exists>c. f x a = Inr c \<and> sfold f xs c = Inr b)"
  by (auto split: sum.splits)

lemma add_detector_stream:
  "add_detector known i (n, dd) t = Inr t1 \<Longrightarrow>
    map_of (dt_stream t1) d = (if map_of (dt_stream t) d = None \<and> d = n then Some i else map_of (dt_stream t) d)"
proof -
  assume "add_detector known i (n, dd) t = Inr t1"
  then obtain segs where "obj_items dd = Inr segs" and r: "(case segs of [] \<Rightarrow> Inl StopIteration
       | (first_key, det) # _ \<Rightarrow>
           sbind (sbind (obj_vars det) (\<lambda>as. sfold (add_drp_class known n det) as ((None, None), dt_classes t, dt_xtc_info t)))
             (\<lambda>((dettype, detid), classes, xtc_info).
               Inr (t\<lparr>dt_classes := classes, dt_xtc_info := xtc_info,
                 dt_info := AList.update n (dettype, detid) (dt_info t),
                 dt_stream := (if map_of (dt_stream t) n = None then AList.update n i (dt_stream t)
                   else dt_stream t)\<rparr>))) = Inr t1"
    unfolding add_detector_def prod.case sbind_Inr by blast
  obtain k det more where segs: "segs = (k, det) # more" using r by (cases segs) auto
  from r obtain classes xtc_info info where "t1 = t\<lparr>dt_classes := classes, dt_xtc_info := xtc_info, dt_info := info,
      dt_stream := (if map_of (dt_stream t) n = None then AList.update n i (dt_stream t) else dt_stream t)\<rparr>"
    unfolding segs list.case prod.case sbind_Inr by (auto split: prod.splits)
  then show ?thesis by (auto simp: update_conv')
qed

lemma add_detectors_stream:
  "sfold (add_detector known i) dets t = Inr t1 \<Longrightarrow>
    map_of (dt_stream t1) d = (if map_of (dt_stream t) d = None \<and> d \<in> fst ` set dets then Some i else map_of (dt_stream t) d)"
proof (induction dets arbitrary: t)
  case (Cons x dets)
  obtain n dd where x: "x = (n, dd)" by (cases x)
  from Cons.prems obtain t2 where t2: "add_detector known i (n, dd) t = Inr t2" "sfold (add_detector known i) dets t2 = Inr t1"
    by (auto simp: x sfold_Cons_Inr simp del: sfold.simps)
  show ?case using Cons.IH [OF t2(2)] add_detector_stream [OF t2(1), of d] by (auto simp: x)
qed auto

lemma add_config_stream:
  "add_config_detectors known (i, cfg) t = Inr t1 \<Longrightarrow>
    map_of (dt_stream t1) d = (if map_of (dt_stream t) d = None \<and> d \<in> det_names cfg then Some i else map_of (dt_stream t) d)"
  by (auto simp: add_config_detectors_def sbind_Inr obj_getattr_Inr obj_vars_Inr det_names_def dest!: add_detectors_stream [of _ _ _ _ _ d])

lemma add_configs_stream:
  "sfold (add_config_detectors known) (enumerate k configs) t = Inr t1 \<Longrightarrow>
    map_of (dt_stream t1) d = (case map_of (dt_stream t) d of Some i \<Rightarrow> Some i
      | None \<Rightarrow> find (\<lambda>i. d \<in> det_names (configs ! (i - k))) [k..<k + length configs])"
proof (induction configs arbitrary: k t)
  case (Cons cfg configs)
  from Cons.prems obtain t2 where t2: "add_config_detectors known (k, cfg) t = Inr t2"
      "sfold (add_config_detectors known) (enumerate (Suc k) configs) t2 = Inr t1"
    by (auto simp: sfold_Cons_Inr simp del: sfold.simps)
  have up: "[k..<k + length (cfg # configs)] = k # [Suc k..<Suc k + length configs]"
    by (simp add: upt_conv_Cons del: upt_Suc)
  have "find (\<lambda>i. d \<in> det_names ((cfg # configs) ! (i - k))) [Suc k..<Suc k + length configs]
      = find (\<lambda>i. d \<in> det_names (configs ! (i - Suc k))) [Suc k..<Suc k + length configs]"
    by (rule find_cong) (auto simp: nth_Cons')
  then show ?case using Cons.IH [OF t2(2)] add_config_stream [OF t2(1), of d] unfolding up
    by (auto split: option.splits)
qed (auto split: option.splits)

section \<open>Config information\<close>

lemma add_segment_info_Inr:
  "add_segment_info (sid, det) (dd, ty) = Inr r \<longleftrightarrow> (\<exists>i t. obj_path det [''detid''] = Some i \<and> obj_path det [''dettype''] = Some t
    \<and> r = (AList.update sid i dd, t))"
  by (cases det) (auto simp: add_segment_info_def sbind_Inr split: option.splits)

lemma add_segment_infos:
  "sfold add_segment_info segs (dd, ty) = Inr (dd1, ty1) \<Longrightarrow>
    map_of dd1 k = (case map_of (rev segs) k of None \<Rightarrow> map_of dd k | Some det \<Rightarrow> obj_path det [''detid''])
    \<and> Some ty1 = (case segs of [] \<Rightarrow> Some ty | _ \<Rightarrow> obj_path (snd (last segs)) [''dettype''])"
proof (induction segs arbitrary: dd ty)
  case (Cons s segs)
  obtain sid det where s: "s = (sid, det)" by (cases s)
  from Cons.prems obtain i t where it: "obj_path det [''detid''] = Some i" "obj_path det [''dettype''] = Some t"
      "sfold add_segment_info segs (AList.update sid i dd, t) = Inr (dd1, ty1)"
    by (auto simp: s sfold_Cons_Inr add_segment_info_Inr simp del: sfold.simps obj_path.simps)
  show ?case using Cons.IH [OF it(3)] it(1,2)
    by (auto simp: s map_add_def update_conv' split: option.splits list.splits simp del: obj_path.simps)
qed simp

lemma add_det_config_InrD:
  assumes "add_det_config n cfg (ids, dd) = Inr r"
  shows "\<exists>dd1. sfold add_segment_info (det_segs n cfg) dd = Inr dd1 \<and> r = (ids @ map fst (det_segs n cfg), dd1)"
proof -
  from assms obtain sw dn kvs dd1 where *: "obj_getattr cfg ''software'' = Inr sw" "obj_getattr sw n = Inr (Dic kvs)"
      "sfold add_segment_info kvs dd = Inr dd1" "r = (ids @ map fst kvs, dd1)"
    unfolding add_det_config_def prod.case sbind_Inr obj_items_Inr by auto
  have "det_segs n cfg = kvs" using *(1,2) by (auto simp: det_segs_def obj_getattr_Inr)
  then show ?thesis using * by simp
qed

lemma sfold_append: "sfold f (xs @ ys) a = sbind (sfold f xs a) (sfold f ys)"
  by (induction xs arbitrary: a) (auto simp: sbind_def split: sum.splits)

lemma add_det_configs:
  "sfold (add_det_config n) cfgs (ids, dd) = Inr (ids1, dd1) \<Longrightarrow>
    ids1 = ids @ map fst (concat (map (det_segs n) cfgs)) \<and>
    sfold add_segment_info (concat (map (det_segs n) cfgs)) dd = Inr dd1"
proof (induction cfgs arbitrary: ids dd)
  case (Cons cfg cfgs)
  from Cons.prems obtain dd2 where "sfold add_segment_info (det_segs n cfg) dd = Inr dd2"
      "sfold (add_det_config n) cfgs (ids @ map fst (det_segs n cfg), dd2) = Inr (ids1, dd1)"
    by (auto simp: sfold_Cons_Inr dest!: add_det_config_InrD simp del: sfold.simps)
  with Cons.IH [OF this(2)] show ?case by (simp add: sfold_append sbind_def)
qed simp

definition id_text :: "(int \<times> 'v pyo) list \<Rightarrow> int \<Rightarrow> string" where
  "id_text dd k = (case map_of dd k of Some (Val (VStr s)) \<Rightarrow> s | _ \<Rightarrow> [])"

lemma obj_str_Inr: "obj_str x = Inr s \<longleftrightarrow> x = Val (VStr s)"
  by (cases x; cases "case x of Val v \<Rightarrow> v") (auto split: pyval.splits)

lemma add_uniqueid_Inr:
  "add_uniqueid dd k (Val (VStr u)) = Inr r \<longleftrightarrow> (\<exists>s. map_of dd k = Some (Val (VStr s)) \<and> r = Val (VStr (u @ ''_'' @ s)))"
  by (auto simp: add_uniqueid_def sbind_Inr dict_get_Inr obj_str_Inr)

lemma add_uniqueids:
  "sfold (add_uniqueid dd) ks (Val (VStr u)) = Inr r \<Longrightarrow> r = Val (VStr (u @ concat (map (\<lambda>k. ''_'' @ id_text dd k) ks)))"
proof (induction ks arbitrary: u)
  case (Cons k ks)
  from Cons.prems obtain s where s: "map_of dd k = Some (Val (VStr s))"
      "sfold (add_uniqueid dd) ks (Val (VStr (u @ ''_'' @ s))) = Inr r"
    by (auto simp: add_uniqueid_Inr sfold_Cons_Inr simp del: sfold.simps)
  from Cons.IH [OF s(2)] s(1) show ?case by (simp add: id_text_def)
qed simp

lemma sfilter_Inr: "sfilter f xs = Inr ys \<Longrightarrow> ys = filter (\<lambda>x. f x = Inr True) xs"
proof -
  assume "sfilter f xs = Inr ys"
  then obtain bs where bs: "smap f xs = Inr bs" "ys = map fst (filter snd (zip xs bs))"
    by (auto simp: sfilter_def sbind_Inr)
  from bs(1) have "list_all2 (\<lambda>x b. f x = Inr b) xs bs" by (simp add: smap_Inr)
  then have "map fst (filter snd (zip xs bs)) = filter (\<lambda>x. f x = Inr True) xs"
    by (induction rule: list_all2_induct) auto
  with bs(2) show ?thesis by simp
qed

lemma obj_hasattr_iff: "obj_hasattr sw n \<longleftrightarrow> (case sw of Obj as \<Rightarrow> n \<in> fst ` set as | _ \<Rightarrow> False)"
  by (cases sw) (auto simp: map_of_eq_None_iff)

lemma has_detector_Inr: "has_detector n cfg = Inr True \<longleftrightarrow> n \<in> det_names cfg"
proof (cases "obj_getattr cfg ''software''")
  case (Inl e)
  then have "obj_path cfg [''software''] = None" by (cases cfg) (auto split: option.splits)
  then show ?thesis using Inl by (simp add: has_detector_def det_names_def sbind_def)
next
  case (Inr sw)
  then have "obj_path cfg [''software''] = Some sw" by (auto simp: obj_getattr_Inr)
  then show ?thesis using Inr
    by (cases sw) (simp_all add: has_detector_def det_names_def sbind_def obj_hasattr_iff del: obj_hasattr.simps obj_path.simps)
qed

lemma config_info_run:
  assumes "config_info_of configs n = Inr ci"
  shows "ci_configs ci = filter (\<lambda>cfg. n \<in> det_names cfg) configs
    \<and> ci_segment_ids ci = sort (map fst (concat (map (det_segs n) (ci_configs ci))))
    \<and> (\<forall>k. map_of (ci_detid_dict ci) k = (case map_of (rev (concat (map (det_segs n) (ci_configs ci)))) k of
          None \<Rightarrow> None | Some det \<Rightarrow> obj_path det [''detid'']))
    \<and> (\<forall>ty. ci_dettype ci = Val (VStr ty) \<longrightarrow>
          ci_uniqueid ci = Val (VStr (ty @ concat (map (\<lambda>k. ''_'' @ id_text (ci_detid_dict ci) k) (ci_segment_ids ci)))))"
proof -
  from assms obtain cfgs ids dd ty uid where *: "sfilter (has_detector n) configs = Inr cfgs"
      "sfold (add_det_config n) cfgs ([], [], Val (VStr [])) = Inr (ids, dd, ty)"
      "sfold (add_uniqueid dd) (sort ids) ty = Inr uid"
      "ci = \<lparr>ci_configs = cfgs, ci_segment_ids = sort ids, ci_detid_dict = dd, ci_dettype = ty, ci_uniqueid = uid\<rparr>"
    by (auto simp: config_info_of_def sbind_Inr Let_def)
  have cfgs: "cfgs = filter (\<lambda>cfg. n \<in> det_names cfg) configs"
    using sfilter_Inr [OF *(1)] by (simp add: has_detector_Inr)
  have segs: "ids = map fst (concat (map (det_segs n) cfgs))"
      "sfold add_segment_info (concat (map (det_segs n) cfgs)) ([], Val (VStr [])) = Inr (dd, ty)"
    using add_det_configs [OF *(2)] by simp_all
  have dd: "map_of dd k = (case map_of (rev (concat (map (det_segs n) cfgs))) k of
          None \<Rightarrow> None | Some det \<Rightarrow> obj_path det [''detid''])" for k
    using conjunct1 [OF add_segment_infos [OF segs(2), of k], unfolded map_of.simps] .
  have ci: "ci_configs ci = cfgs" "ci_segment_ids ci = sort ids" "ci_detid_dict ci = dd" "ci_dettype ci = ty" "ci_uniqueid ci = uid"
    using *(4) by simp_all
  show ?thesis unfolding ci using cfgs segs(1) dd add_uniqueids *(3) by blast
qed

end
