(* ===== verification/DgramProps.thy ===== *)
theory DgramProps
  imports DgramManFacts DetFacts
begin

text \<open>
  The properties of the datagram manager: the events its iterator gives, the time of the EndRun it
  makes up, and the tables of the detectors. Each is followed by an application to a small input.
\<close>

section \<open>The iterator\<close>

definition dgr0 :: "nat \<Rightarrow> 64 word \<Rightarrow> nat dgr" where
  "dgr0 s t = \<lparr>dr_service = s, dr_timestamp = t, dr_content = 0\<rparr>"

definition readings0 :: "nat reading list" where
  "readings0 = [Got [dgr0 4 8], Got [dgr0 12 9], Got [dgr0 4 10]]"

text \<open>
  C31. The iterator over a file gives the datagrams of the file in their order, without the
  Configures, and made-up EndRuns just where a run that has begun has not ended before the next one
  begins or the file ends; after that it stops. So every run of what it gives is closed.
\<close>

theorem iterator_closes_runs:
  assumes "configs \<noteq> []" and "list_all (good_reading (length configs)) rs"
  shows "\<exists>evts m. dm_events (Suc (length evts)) (dgram_manager_init False configs rs) = (evts, Some StopIteration, m)
    \<and> evts = complete_runs False configs False t rs \<and> runs_closed False evts \<and> subseq (events_of rs) evts"
proof -
  have "dm_at (dgram_manager_init False configs rs) False configs False t rs"
    by (simp add: dm_at_def dgram_manager_init_def)
  from dm_events_complete [OF assms(2,1) this] show ?thesis
    using complete_runs_closed [OF assms] complete_runs_read by (auto simp: gives_def simp del: dm_events.simps)
qed

theorem iterator_closes_runs_witness:
  "\<exists>evts m. dm_events (Suc (length evts)) (dgram_manager_init False [dgr0 2 1] readings0) = (evts, Some StopIteration, m)
    \<and> map (dr_service \<circ> hd) evts = [4, 12, 5, 4, 5]"
proof -
  have "\<exists>evts m. dm_events (Suc (length evts)) (dgram_manager_init False [dgr0 2 1] readings0) = (evts, Some StopIteration, m)
      \<and> evts = complete_runs False [dgr0 2 1] False 0 readings0 \<and> runs_closed False evts \<and> subseq (events_of readings0) evts"
    by (rule iterator_closes_runs) (simp_all add: readings0_def dgr0_def)
  moreover have "map (dr_service \<circ> hd) (complete_runs False [dgr0 2 1] False 0 readings0) = [4, 12, 5, 4, 5]"
    by (simp add: readings0_def dgr0_def tids fake_endrun_def)
  ultimately show ?thesis by auto
qed

text \<open>
  A made-up EndRun keeps the seconds of the last event; its lower half is the one of the last
  event times 1000 plus 1, cut to 32 bits. It is later than the last event exactly when the cut
  leaves the lower half larger.
\<close>

theorem fake_endrun_time:
  "drop_bit 32 (fake_timestamp t) = drop_bit 32 t \<and> (t < fake_timestamp t \<longleftrightarrow> unat t mod 2 ^ 32 < (unat t mod 2 ^ 32 * 1000 + 1) mod 2 ^ 32)"
proof
  have lt: "(unat t mod 2 ^ 32 * 1000 + 1) mod 2 ^ 32 < 2 ^ 32" by simp
  have "unat (fake_timestamp t) div 2 ^ 32 = unat t div 2 ^ 32"
    unfolding fake_timestamp_nat using lt by (simp only: div_mult_self3 [of "2 ^ 32 :: nat"]) simp
  then have "unat (drop_bit 32 (fake_timestamp t)) = unat (drop_bit 32 t)" unfolding drop_bit_div64 .
  then show "drop_bit 32 (fake_timestamp t) = drop_bit 32 t" by (rule unsigned_word_eqI)
  have "unat t = unat t div 2 ^ 32 * 2 ^ 32 + unat t mod 2 ^ 32" by simp
  then show "t < fake_timestamp t \<longleftrightarrow> unat t mod 2 ^ 32 < (unat t mod 2 ^ 32 * 1000 + 1) mod 2 ^ 32"
    unfolding word_less_nat_alt fake_timestamp_nat by linarith
qed

text \<open>An event 4.294968 milliseconds into a second is followed by an EndRun that is earlier.\<close>

lemma fake_endrun_too_early: "fake_timestamp 0x500418938 < 0x500418938"
  unfolding word_less_nat_alt fake_timestamp_nat by simp

section \<open>Detectors\<close>

definition det_config0 :: "string \<Rightarrow> int \<Rightarrow> string \<Rightarrow> nat pyo" where
  "det_config0 name seg i = Obj [(''software'', Obj [(name, Dic [(seg, Obj [(''dettype'', Val (VStr ''cam'')),
     (''detid'', Val (VStr i)), (''raw'', Obj [(''version'', Val (VInts [2, 0, 1])), (''software'', Val (VStr ''raw''))])])])])]"

definition det_configs0 :: "nat pyo list" where
  "det_configs0 = [det_config0 ''a'' 1 ''s1'', det_config0 ''b'' 0 ''t0'', det_config0 ''a'' 0 ''s0'']"

text \<open>
  The information of a detector has the configs of exactly the streams that have it, all their
  segment numbers in ascending order, for each number the id of the last segment with it, and the
  unique id: the type followed by the ids in the order of the segments.
\<close>

theorem detector_config_info:
  assumes "config_info_of configs n = Inr ci"
  shows "ci_configs ci = filter (\<lambda>cfg. n \<in> det_names cfg) configs
    \<and> ci_segment_ids ci = sort (map fst (concat (map (det_segs n) (ci_configs ci))))
    \<and> (\<forall>k. map_of (ci_detid_dict ci) k = (case map_of (rev (concat (map (det_segs n) (ci_configs ci)))) k of
          None \<Rightarrow> None | Some det \<Rightarrow> obj_path det [''detid'']))
    \<and> (\<forall>ty. ci_dettype ci = Val (VStr ty) \<longrightarrow>
          ci_uniqueid ci = Val (VStr (ty @ concat (map (\<lambda>k. ''_'' @ id_text (ci_detid_dict ci) k) (ci_segment_ids ci)))))"
  using config_info_run [OF assms] .

theorem detector_config_info_witness:
  "ci_segment_ids (projr (config_info_of det_configs0 ''a'')) = [0, 1] \<and> ci_uniqueid (projr (config_info_of det_configs0 ''a'')) = Val (VStr ''cam_s0_s1'')"
proof -
  let ?ci = "projr (config_info_of det_configs0 ''a'')"
  have ci: "config_info_of det_configs0 ''a'' = Inr ?ci" by code_simp
  have d: "ci_detid_dict ?ci = [(1, Val (VStr ''s1'')), (0, Val (VStr ''s0''))]" "ci_dettype ?ci = Val (VStr ''cam'')"
    by code_simp+
  have f: "filter (\<lambda>cfg. ''a'' \<in> det_names cfg) det_configs0 = [det_config0 ''a'' 1 ''s1'', det_config0 ''a'' 0 ''s0'']"
    by (simp add: det_configs0_def det_config0_def det_names_def)
  have "ci_configs ?ci = filter (\<lambda>cfg. ''a'' \<in> det_names cfg) det_configs0
      \<and> ci_segment_ids ?ci = sort (map fst (concat (map (det_segs ''a'') (ci_configs ?ci))))"
    "\<forall>ty. ci_dettype ?ci = Val (VStr ty) \<longrightarrow>
      ci_uniqueid ?ci = Val (VStr (ty @ concat (map (\<lambda>k. ''_'' @ id_text (ci_detid_dict ?ci) k) (ci_segment_ids ?ci))))"
    using detector_config_info [OF ci] by blast+
  then have ids: "ci_segment_ids ?ci = [0, 1]" and "ci_uniqueid ?ci = Val (VStr (''cam'' @ concat (map (\<lambda>k. ''_'' @ id_text (ci_detid_dict ?ci) k) (ci_segment_ids ?ci))))"
    using f d by (simp_all add: det_segs_def det_config0_def)
  then show ?thesis unfolding ids d by (simp add: id_text_def)
qed

text \<open>
  The stream of a detector is the first file whose config has the detector, and the table has
  no other detectors.
\<close>

theorem stream_of_detector:
  assumes "setup_det_class_table known configs = Inr t"
  shows "map_of (dt_stream t) d = find (\<lambda>i. d \<in> det_names (configs ! i)) [0..<length configs]"
  using add_configs_stream [OF assms [unfolded setup_det_class_table_def], of d] by (simp add: det_tables_init_def)

theorem stream_of_detector_witness:
  "map_of (dt_stream (projr (setup_det_class_table (\<lambda>_. True) det_configs0))) ''b'' = Some 1"
proof -
  have t: "setup_det_class_table (\<lambda>_. True) det_configs0 = Inr (projr (setup_det_class_table (\<lambda>_. True) det_configs0))"
    by code_simp
  show ?thesis using stream_of_detector [OF t, of "''b''"]
    by (simp add: det_configs0_def det_config0_def det_names_def)
qed

end
