(* ===== verification/DataSource.thy ===== *)
theory DataSource
  imports DetTable Smd0Node
begin

text \<open>
  Data sources (\<^verbatim>\<open>psana/psana/psexp/ds_base.py\<close>, \<^verbatim>\<open>serial_ds.py\<close>,
  \<^verbatim>\<open>tools.py\<close>): the run numbers, the files of a run, the selection of detectors and the loop
  over runs. Parameters: which file is there after so many seconds of waiting (\<open>isfile\<close>), what a
  pattern matches (\<open>glob\<close>), and what the web service answers.
\<close>

section \<open>Names of files\<close>

text \<open>\<open>os.path.splitext(p)[0]\<close>: without the last dot and what follows, unless only dots are before.\<close>

definition splitext0 :: "string \<Rightarrow> string" where
  "splitext0 p =
     (let base = path_basename p; pre = tl (dropWhile (\<lambda>c. c \<noteq> CHR ''.'') (rev base)) in
      if CHR ''.'' \<in> set base \<and> (\<exists>c\<in>set pre. c \<noteq> CHR ''.'')
      then take (length p - length base + length pre) p
      else p)"

text \<open>\<open>s.split(p)[0]\<close> and the other pieces, for a separator of more than one character.\<close>

definition before :: "string \<Rightarrow> string \<Rightarrow> string" where
  "before p s = (case str_find s p of None \<Rightarrow> s | Some n \<Rightarrow> take n s)"

definition second_piece :: "string \<Rightarrow> string \<Rightarrow> pyexc + string" where
  "second_piece p s = (case str_find s p of None \<Rightarrow> Inl IndexError | Some n \<Rightarrow> Inr (before p (drop (n + length p) s)))"

section \<open>Run numbers\<close>

datatype run_arg = RunNone | RunInt int | RunList "int list" | RunOther

definition run_of_file :: "string \<Rightarrow> pyexc + int" where
  "run_of_file f = sbind (second_piece ''-r'' (splitext0 (path_basename f))) (\<lambda>s. py_int (before ''-'' s))"

definition setup_runnum_list ::
    "(string \<Rightarrow> string list) \<Rightarrow> string \<Rightarrow> string option \<Rightarrow> string option \<Rightarrow> run_arg \<Rightarrow> pyexc + string \<times> int list" where
  "setup_runnum_list glob xtc_dir exp dir runnum =
     (case exp of
        None \<Rightarrow> Inl (NamedError ''InvalidDataSourceArgument'')
      | Some e \<Rightarrow>
          (if e = [] then Inl (NamedError ''InvalidDataSourceArgument'')
           else (let xtc_path = (case dir of
                   Some d \<Rightarrow> if d = [] then path_join (path_join (path_join xtc_dir (take 3 e)) e) ''xtc'' else d
                 | None \<Rightarrow> path_join (path_join (path_join xtc_dir (take 3 e)) e) ''xtc'') in
             sbind (case runnum of
                 RunNone \<Rightarrow> sbind (smap run_of_file (glob (path_join xtc_path ''*-r*.xtc2''))) (\<lambda>rs.
                   if rs = [] then Inl AssertionError else Inr (sort (remdups rs)))
               | RunList rs \<Rightarrow> Inr rs
               | RunInt r \<Rightarrow> Inr [r]
               | RunOther \<Rightarrow> Inl (NamedError ''InvalidDataSourceArgument'')) (\<lambda>rs. Inr (xtc_path, rs)))))"

section \<open>Waiting for a file\<close>

text \<open>The number of the retry is one of the data source: all its files share the retries.\<close>

definition inprogress_name :: "string \<Rightarrow> string" where
  "inprogress_name xtc_file = path_join (dirname xtc_file) (splitext0 (path_basename xtc_file) @ ''.xtc2.inprogress'')"

definition look_for :: "(nat \<Rightarrow> string \<Rightarrow> bool) \<Rightarrow> nat \<Rightarrow> string \<Rightarrow> string \<Rightarrow> bool \<times> string" where
  "look_for isfile t xtc_file true_xtc_file =
     (if isfile t xtc_file then (True, true_xtc_file)
      else if isfile t (inprogress_name xtc_file) then (True, inprogress_name xtc_file)
      else (False, true_xtc_file))"

function retry_loop ::
    "(nat \<Rightarrow> string \<Rightarrow> bool) \<Rightarrow> nat \<Rightarrow> string \<Rightarrow> bool \<times> string \<Rightarrow> nat \<Rightarrow> nat \<Rightarrow> (bool \<times> string) \<times> nat \<times> nat" where
  "retry_loop isfile max_retries xtc_file found cur t =
     (if cur < max_retries
      then (case look_for isfile t xtc_file (snd found) of
              (True, f) \<Rightarrow> ((True, f), cur, t)
            | (False, f) \<Rightarrow> retry_loop isfile max_retries xtc_file (False, f) (cur + 1) (t + 1))
      else (found, cur, t))"
  by pat_completeness auto
termination
  by (relation "measure (\<lambda>(isfile, max_retries, xtc_file, found, cur, t). max_retries - cur)") auto

definition check_file_exist_with_retry ::
    "(nat \<Rightarrow> string \<Rightarrow> bool) \<Rightarrow> nat \<Rightarrow> string \<Rightarrow> nat \<times> nat \<Rightarrow> (bool \<times> string) \<times> nat \<times> nat" where
  "check_file_exist_with_retry isfile max_retries xtc_file st =
     retry_loop isfile max_retries xtc_file (look_for isfile (snd st) xtc_file xtc_file) (fst st) (snd st)"

fun check_files :: "(nat \<Rightarrow> string \<Rightarrow> bool) \<Rightarrow> nat \<Rightarrow> string list \<Rightarrow> nat \<times> nat \<Rightarrow> pyexc + string list \<times> nat \<times> nat" where
  "check_files isfile max_retries [] st = Inr ([], st)"
| "check_files isfile max_retries (f # fs) st =
     (case check_file_exist_with_retry isfile max_retries f st of
        ((False, g), st1) \<Rightarrow> Inl (NamedError ''FileNotFoundError'')
      | ((True, g), st1) \<Rightarrow> sbind (check_files isfile max_retries fs st1) (\<lambda>(gs, st2). Inr (g # gs, st2)))"

section \<open>The files of a run\<close>

text \<open>The search for \<open>-c(.+?)0\.\<close> in a name without line breaks.\<close>

definition matches_chunk0 :: "string \<Rightarrow> bool" where
  "matches_chunk0 s \<longleftrightarrow> list_ex (\<lambda>i. startswith (drop i s) ''-c'' \<and> str_find (drop (i + 3) s) ''0.'' \<noteq> None) [0..<length s]"

definition get_file_info_from_db :: "string list \<Rightarrow> (string list \<times> string) option" where
  "get_file_info_from_db all_xtc_files =
     (let xtc_files = map path_basename (filter matches_chunk0 all_xtc_files) in
      if xtc_files = [] then None else Some (xtc_files, dirname (hd all_xtc_files)))"

definition sort_names :: "string list \<Rightarrow> string list" where
  "sort_names fs = foldr insert_name fs []"

definition zfill4 :: "int \<Rightarrow> string" where
  "zfill4 i = (let s = int_str i; n = 4 - length s in
     if i < 0 then ''-'' @ replicate n (CHR ''0'') @ tl s else replicate n (CHR ''0'') @ s)"

definition smd_names ::
    "(nat \<Rightarrow> string \<Rightarrow> bool) \<Rightarrow> (string \<Rightarrow> string list) \<Rightarrow> nat \<Rightarrow> string \<Rightarrow> int \<Rightarrow> string list \<Rightarrow> nat \<times> nat \<Rightarrow> pyexc + string list \<times> nat \<times> nat" where
  "smd_names isfile glob max_retries xtc_path runnum db st =
     (case get_file_info_from_db db of
        Some (xtc_files, _) \<Rightarrow>
          check_files isfile max_retries
            (map (\<lambda>f. path_join (path_join xtc_path ''smalldata'') (splitext0 f @ ''.smd.xtc2'')) xtc_files) (0, snd st)
      | None \<Rightarrow>
          (let smd_dir = path_join xtc_path ''smalldata''; r = ''*r'' @ zfill4 runnum in
           Inr (sort_names (glob (path_join smd_dir (r @ ''-s*.smd.xtc2'')) @ glob (path_join smd_dir (r @ ''-s*.smd.xtc2.inprogress''))), st)))"

definition setup_run_files ::
    "(nat \<Rightarrow> string \<Rightarrow> bool) \<Rightarrow> (string \<Rightarrow> string list) \<Rightarrow> nat \<Rightarrow> string \<Rightarrow> int \<Rightarrow> string list \<Rightarrow> nat \<times> nat
      \<Rightarrow> pyexc + (string list \<times> string list \<times> bool list) \<times> nat \<times> nat" where
  "setup_run_files isfile glob max_retries xtc_path runnum db st =
     sbind (smd_names isfile glob max_retries xtc_path runnum db st) (\<lambda>(smd_files, st1).
       if smd_files = [] then Inl AssertionError
       else sbind (check_files isfile max_retries
              (map (\<lambda>f. path_join xtc_path (before ''.smd'' (path_basename f) @ ''.xtc2'')) smd_files) st1) (\<lambda>(xtc_files, st2).
            Inr ((smd_files, xtc_files, replicate (length smd_files) False), st2)))"

definition smd_inprogress_converted :: "(nat \<Rightarrow> string \<Rightarrow> bool) \<Rightarrow> nat \<Rightarrow> string list \<Rightarrow> bool list" where
  "smd_inprogress_converted isfile t smd_files =
     map (\<lambda>f. str_find f ''.xtc2.inprogress'' \<noteq> None \<and> isfile t (splitext0 f)) smd_files"

section \<open>Selected detectors\<close>

definition software_names :: "'v pyo \<Rightarrow> pyexc + string list" where
  "software_names cfg = sbind (sbind (obj_getattr cfg ''software'') obj_vars) (\<lambda>as. Inr (map fst as))"

definition keep_selected ::
    "string list \<Rightarrow> string list \<Rightarrow> string list \<Rightarrow> nat \<times> 'v pyo
      \<Rightarrow> string list \<times> string list \<times> 'v pyo list \<Rightarrow> pyexc + string list \<times> string list \<times> 'v pyo list" where
  "keep_selected detectors all_smd all_xtc ic acc = (case (ic, acc) of ((i, config), (smd_files, xtc_files, configs)) \<Rightarrow>
     sbind (software_names config) (\<lambda>names.
       if set detectors \<inter> set names \<noteq> {}
       then sbind (if all_xtc = [] then Inr xtc_files else if i < length all_xtc then Inr (xtc_files @ [all_xtc ! i]) else Inl IndexError) (\<lambda>xs.
            sbind (if all_smd = [] then Inr smd_files else if i < length all_smd then Inr (smd_files @ [all_smd ! i]) else Inl IndexError) (\<lambda>ss.
              Inr (ss, xs, configs @ [config])))
       else Inr acc))"

definition swap_small ::
    "string list \<Rightarrow> string list \<Rightarrow> nat \<times> 'v pyo \<Rightarrow> string list \<times> bool list \<Rightarrow> pyexc + string list \<times> bool list" where
  "swap_small small_xtc xtc_files ic acc = (case (ic, acc) of ((i, config), (smd_files, use_smds)) \<Rightarrow>
     sbind (software_names config) (\<lambda>names.
       sbind (if set small_xtc \<inter> set names \<noteq> {}
         then (if i < length xtc_files \<and> i < length smd_files \<and> i < length use_smds
               then Inr (smd_files[i := xtc_files ! i], use_smds[i := True]) else Inl IndexError)
         else Inr (smd_files, use_smds)) (\<lambda>r.
         if i < length (fst r) then Inr r else Inl IndexError)))"

text \<open>\<open>all_configs\<close> is what the reader gives, which may be no configs at all.\<close>

definition apply_detector_selection ::
    "string list \<Rightarrow> string list \<Rightarrow> 'v pyo list option \<Rightarrow> string list \<Rightarrow> string list \<Rightarrow> pyexc + string list \<times> string list \<times> bool list" where
  "apply_detector_selection detectors small_xtc all_configs smd xtc =
     (if detectors = [] \<and> small_xtc = [] then Inr (smd, xtc, replicate (length smd) False)
      else sbind (if detectors \<noteq> []
             then (case all_configs of None \<Rightarrow> Inl TypeError
                   | Some cs \<Rightarrow> sbind (sfold (keep_selected detectors smd xtc) (enumerate 0 cs) ([], [], [])) (\<lambda>(s, x, c). Inr (s, x, Some c)))
             else Inr (smd, xtc, all_configs)) (\<lambda>(smd_files, xtc_files, configs).
           let use_smds = replicate (length smd_files) False in
           if small_xtc \<noteq> []
           then (case configs of None \<Rightarrow> Inl TypeError
                 | Some cs \<Rightarrow> sbind (sfold (swap_small small_xtc xtc_files) (enumerate 0 cs) (smd_files, use_smds)) (\<lambda>(s, u).
                     Inr (s, xtc_files, u)))
           else Inr (smd_files, xtc_files, use_smds)))"

section \<open>Runs of a serial data source\<close>

text \<open>
  What the data source can still read: the datagrams of the current files, each the service of the
  first file's, and for each run number that is left those of its files. \<open>read_files\<close> is the
  files of a run number; \<open>use_run\<close> is what the user's loop over a run leaves of them.
\<close>

record serial_ds =
  sd_index :: nat
  sd_current :: "nat list"

text \<open>\<open>_setup_beginruns\<close>: the datagrams are read until a BeginRun.\<close>

fun setup_beginruns :: "nat list \<Rightarrow> bool \<times> nat list" where
  "setup_beginruns [] = (False, [])"
| "setup_beginruns (d # ds) = (if d = TransitionId_BeginRun then (True, ds) else setup_beginruns ds)"

definition setup_run :: "(int \<Rightarrow> nat list) \<Rightarrow> int list \<Rightarrow> serial_ds \<Rightarrow> bool \<times> serial_ds" where
  "setup_run read_files runnums s =
     (if sd_index s = length runnums then (False, s)
      else (True, s\<lparr>sd_index := sd_index s + 1, sd_current := read_files (runnums ! sd_index s)\<rparr>))"

definition start_run :: "(int \<Rightarrow> nat list) \<Rightarrow> int list \<Rightarrow> serial_ds \<Rightarrow> bool \<times> serial_ds" where
  "start_run read_files runnums s =
     (case setup_beginruns (sd_current s) of
        (True, left) \<Rightarrow> (True, s\<lparr>sd_current := left\<rparr>)
      | (False, left) \<Rightarrow>
          (case setup_run read_files runnums (s\<lparr>sd_current := left\<rparr>) of
             (False, s1) \<Rightarrow> (False, s1)
           | (True, s1) \<Rightarrow> (case setup_beginruns (sd_current s1) of (b, left1) \<Rightarrow> (b, s1\<lparr>sd_current := left1\<rparr>))))"

definition serial_init :: "(int \<Rightarrow> nat list) \<Rightarrow> int list \<Rightarrow> serial_ds" where
  "serial_init read_files runnums = snd (setup_run read_files runnums \<lparr>sd_index = 0, sd_current = []\<rparr>)"

text \<open>\<open>runs\<close>, for at most so many runs: the index behind the run number of each run, and the rest.\<close>

fun serial_runs :: "nat \<Rightarrow> (nat list \<Rightarrow> nat list) \<Rightarrow> (int \<Rightarrow> nat list) \<Rightarrow> int list \<Rightarrow> serial_ds \<Rightarrow> nat list \<times> bool" where
  "serial_runs 0 use_run read_files runnums s = ([], False)"
| "serial_runs (Suc n) use_run read_files runnums s =
     (case start_run read_files runnums s of
        (False, s1) \<Rightarrow> ([], True)
      | (True, s1) \<Rightarrow>
          (case serial_runs n use_run read_files runnums (s1\<lparr>sd_current := use_run (sd_current s1)\<rparr>) of
             (rs, d) \<Rightarrow> (sd_index s1 # rs, d)))"

section \<open>Ranks of the user\<close>

definition get_excl_ranks :: "bool \<Rightarrow> nat \<Rightarrow> nat \<Rightarrow> nat \<Rightarrow> nat list" where
  "get_excl_ranks mpi world_size n_ebs n_srvs =
     (if \<not> mpi \<or> world_size = 1 then [] else 0 # [1..<n_ebs + 1] @ [world_size - n_srvs..<world_size])"

definition unique_user_rank :: "bool \<Rightarrow> nat \<Rightarrow> nat \<Rightarrow> nat \<Rightarrow> bool" where
  "unique_user_rank is_mpi world_size n_srvs rank \<longleftrightarrow> \<not> is_mpi \<or> int rank = int world_size - int n_srvs - 1"

end
