(* ===== verification/DataFacts.thy ===== *)
theory DataFacts
  imports DataSource DetFacts
begin

text \<open>
  The loop over runs ends and visits every run, waiting for a file is bounded, and the selection of
  detectors keeps and swaps the right files.
\<close>

section \<open>Runs\<close>

definition left_over :: "(int \<Rightarrow> nat list) \<Rightarrow> int list \<Rightarrow> serial_ds \<Rightarrow> nat" where
  "left_over read_files runnums s =
     length (sd_current s) + sum_list (map (\<lambda>r. length (read_files r)) (drop (sd_index s) runnums))"

lemma setup_beginruns_shorter: "setup_beginruns ds = (b, left) \<Longrightarrow> length left \<le> length ds \<and> (b \<longrightarrow> length left < length ds)"
  by (induction ds) (auto split: if_splits)

lemma start_run_left:
  assumes "sd_index s \<le> length runnums" and "start_run read_files runnums s = (True, s1)"
  shows "left_over read_files runnums s1 < left_over read_files runnums s \<and> sd_index s1 \<le> length runnums"
proof -
  obtain b left where b: "setup_beginruns (sd_current s) = (b, left)" by (cases "setup_beginruns (sd_current s)")
  show ?thesis
  proof (cases b)
    case True
    then show ?thesis using assms b setup_beginruns_shorter [OF b] by (auto simp: start_run_def left_over_def)
  next
    case False
    have i: "sd_index s < length runnums"
      using assms b False by (auto simp: start_run_def setup_run_def split: if_splits)
    let ?r = "runnums ! sd_index s"
    obtain b1 left1 where b1: "setup_beginruns (read_files ?r) = (b1, left1)" by (cases "setup_beginruns (read_files ?r)")
    have "b1" and s1: "s1 = s\<lparr>sd_index := sd_index s + 1, sd_current := left1\<rparr>"
      using assms(2) b False i b1 by (auto simp: start_run_def setup_run_def)
    then have "length left1 < length (read_files ?r)" using setup_beginruns_shorter [OF b1] by simp
    moreover have "drop (sd_index s) runnums = ?r # drop (Suc (sd_index s)) runnums"
      by (rule Cons_nth_drop_Suc [OF i, symmetric])
    ultimately show ?thesis using i by (simp add: s1 left_over_def)
  qed
qed

lemma serial_runs_end:
  assumes "\<And>ds. length (use_run ds) \<le> length ds"
  shows "sd_index s \<le> length runnums \<Longrightarrow> left_over read_files runnums s < n \<Longrightarrow> snd (serial_runs n use_run read_files runnums s)"
proof (induction n arbitrary: s)
  case (Suc n)
  show ?case
  proof (cases "start_run read_files runnums s")
    case (Pair b s1)
    show ?thesis
    proof (cases b)
      case True
      let ?s2 = "s1\<lparr>sd_current := use_run (sd_current s1)\<rparr>"
      have "left_over read_files runnums ?s2 \<le> left_over read_files runnums s1"
        using assms by (simp add: left_over_def)
      then have "snd (serial_runs n use_run read_files runnums ?s2)"
        using start_run_left [OF Suc.prems(1)] Pair True Suc.prems(2) by (intro Suc.IH) fastforce+
      then show ?thesis using Pair True by (simp add: split_def)
    qed (simp add: Pair)
  qed
qed simp

text \<open>The files of a run number have one run.\<close>

definition one_run :: "(nat list \<Rightarrow> nat list) \<Rightarrow> nat list \<Rightarrow> bool" where
  "one_run use_run ds \<longleftrightarrow> (case setup_beginruns ds of (b, left) \<Rightarrow> b \<and> \<not> fst (setup_beginruns (use_run left)))"

lemma start_run_next:
  assumes "\<not> fst (setup_beginruns (sd_current s))" and "sd_index s < length runnums"
    and "setup_beginruns (read_files (runnums ! sd_index s)) = (True, left)"
  shows "\<exists>s1. start_run read_files runnums s = (True, s1) \<and> sd_index s1 = Suc (sd_index s) \<and> sd_current s1 = left"
  using assms by (cases "setup_beginruns (sd_current s)") (auto simp: start_run_def setup_run_def)

lemma serial_runs_visits:
  assumes "\<And>r. r \<in> set runnums \<Longrightarrow> one_run use_run (read_files r)"
  shows "\<not> fst (setup_beginruns (sd_current s)) \<Longrightarrow> sd_index s \<le> length runnums \<Longrightarrow> length runnums - sd_index s < n \<Longrightarrow>
    fst (serial_runs n use_run read_files runnums s) = [Suc (sd_index s)..<Suc (length runnums)]"
proof (induction n arbitrary: s)
  case (Suc n)
  show ?case
  proof (cases "sd_index s = length runnums")
    case True
    then show ?thesis using Suc.prems(1)
      by (cases "setup_beginruns (sd_current s)") (auto simp: start_run_def setup_run_def)
  next
    case False
    then have i: "sd_index s < length runnums" using Suc.prems(2) by simp
    obtain left where left: "setup_beginruns (read_files (runnums ! sd_index s)) = (True, left)"
        "\<not> fst (setup_beginruns (use_run left))"
      using assms [OF nth_mem [OF i]] by (auto simp: one_run_def split: prod.splits)
    obtain s1 where s1: "start_run read_files runnums s = (True, s1)" "sd_index s1 = Suc (sd_index s)" "sd_current s1 = left"
      using start_run_next [of s runnums read_files left] Suc.prems(1) i left(1) by blast
    have "fst (serial_runs n use_run read_files runnums (s1\<lparr>sd_current := use_run (sd_current s1)\<rparr>))
        = [Suc (Suc (sd_index s))..<Suc (length runnums)]"
      using Suc.IH [of "s1\<lparr>sd_current := use_run (sd_current s1)\<rparr>"] left(2) s1 i Suc.prems(3) by simp
    then show ?thesis using s1 i by (simp add: split_def upt_conv_Cons)
  qed
qed simp

lemma setup_run_first:
  assumes "runnums \<noteq> []" and "one_run use_run (read_files (hd runnums))"
  shows "\<exists>s1. start_run read_files runnums (serial_init read_files runnums) = (True, s1) \<and> sd_index s1 = 1
    \<and> \<not> fst (setup_beginruns (use_run (sd_current s1)))"
proof -
  obtain r rs where r: "runnums = r # rs" using assms(1) by (cases runnums) auto
  obtain left where "setup_beginruns (read_files r) = (True, left)" "\<not> fst (setup_beginruns (use_run left))"
    using assms(2) by (auto simp: one_run_def r split: prod.splits)
  then show ?thesis by (simp add: r serial_init_def setup_run_def start_run_def)
qed

section \<open>Waiting\<close>

lemma retry_loop_time:
  "retry_loop isfile n f found cur t = (r, cur', t') \<Longrightarrow> cur \<le> cur' \<and> t' = t + (cur' - cur) \<and> cur' \<le> max cur n"
proof (induction isfile n f found cur t arbitrary: r cur' t' rule: retry_loop.induct)
  case (1 isfile n f found cur t)
  show ?case
  proof (cases "cur < n")
    case True
    obtain b g where look: "look_for isfile t f (snd found) = (b, g)" by (cases "look_for isfile t f (snd found)")
    show ?thesis
    proof (cases b)
      case True
      then show ?thesis using 1(2) look \<open>cur < n\<close> by (simp add: retry_loop.simps [of isfile n f found cur t])
    next
      case False
      then have "retry_loop isfile n f (False, g) (cur + 1) (t + 1) = (r, cur', t')"
        using 1(2) look \<open>cur < n\<close> by (simp add: retry_loop.simps [of isfile n f found cur t])
      from 1(1) [OF \<open>cur < n\<close> look [symmetric] _ this] False \<open>cur < n\<close> show ?thesis
        using look by (cases b) auto
    qed
  next
    case False
    then show ?thesis using 1(2) by (simp add: retry_loop.simps [of isfile n f found cur t])
  qed
qed

section \<open>Selected detectors\<close>

definition wanted :: "string list \<Rightarrow> 'v pyo \<Rightarrow> bool" where
  "wanted ds cfg \<longleftrightarrow> (\<exists>d\<in>set ds. d \<in> det_names cfg)"

lemma software_names_Inr: "software_names cfg = Inr ns \<Longrightarrow> set ns = det_names cfg"
  by (auto simp: software_names_def sbind_Inr obj_getattr_Inr obj_vars_Inr det_names_def)

lemma wanted_iff: "software_names cfg = Inr ns \<Longrightarrow> set ds \<inter> set ns \<noteq> {} \<longleftrightarrow> wanted ds cfg"
  by (auto simp: wanted_def software_names_Inr)

lemma keep_selected_fold:
  assumes "length smd = length all" and "length xtc = length all" and "smd \<noteq> []"
  shows "sfold (keep_selected ds smd xtc) (enumerate k cs) (s, x, c) = Inr (s1, x1, c1) \<Longrightarrow> k + length cs = length all \<Longrightarrow>
    s1 = s @ map fst (filter (\<lambda>(f, cfg). wanted ds cfg) (zip (drop k smd) cs))
    \<and> x1 = x @ map fst (filter (\<lambda>(f, cfg). wanted ds cfg) (zip (drop k xtc) cs))
    \<and> c1 = c @ filter (wanted ds) cs"
proof (induction cs arbitrary: k s x c)
  case (Cons cfg cs)
  have k: "k < length smd" "k < length xtc" "smd \<noteq> []" "xtc \<noteq> []" using assms Cons.prems(2) by auto
  then have dk: "drop k smd = smd ! k # drop (Suc k) smd" "drop k xtc = xtc ! k # drop (Suc k) xtc"
    by (simp_all add: Cons_nth_drop_Suc)
  from Cons.prems(1) obtain r where r: "keep_selected ds smd xtc (k, cfg) (s, x, c) = Inr r"
      "sfold (keep_selected ds smd xtc) (enumerate (Suc k) cs) r = Inr (s1, x1, c1)"
    by (auto simp: sfold_Cons_Inr simp del: sfold.simps)
  from r(1) obtain ns where ns: "software_names cfg = Inr ns" by (auto simp: keep_selected_def sbind_Inr)
  have r': "r = (if wanted ds cfg then (s @ [smd ! k], x @ [xtc ! k], c @ [cfg]) else (s, x, c))"
    using r(1) ns k wanted_iff [OF ns, of ds] by (auto simp: keep_selected_def sbind_def split: if_splits)
  show ?case using Cons.IH [of "Suc k" "fst r" "fst (snd r)" "snd (snd r)"] r(2) Cons.prems(2)
    by (auto simp: r' dk)
qed simp

lemma swap_small_fold:
  "sfold (swap_small sm xtc) (enumerate k cs) (s, u) = Inr (s1, u1) \<Longrightarrow>
    length s1 = length s \<and> length u1 = length u \<and> k + length cs \<le> max k (length s) \<and>
    (\<forall>i < length s. s1 ! i = (if k \<le> i \<and> i < k + length cs \<and> wanted sm (cs ! (i - k)) then xtc ! i else s ! i)) \<and>
    (length u = length s \<longrightarrow> (\<forall>i < length s. u1 ! i = (k \<le> i \<and> i < k + length cs \<and> wanted sm (cs ! (i - k)) \<or> u ! i)))"
proof (induction cs arbitrary: k s u)
  case (Cons cfg cs)
  from Cons.prems obtain s2 u2 where r: "swap_small sm xtc (k, cfg) (s, u) = Inr (s2, u2)"
      "sfold (swap_small sm xtc) (enumerate (Suc k) cs) (s2, u2) = Inr (s1, u1)"
    by (auto simp: sfold_Cons_Inr simp del: sfold.simps)
  from r(1) obtain ns where ns: "software_names cfg = Inr ns" by (auto simp: swap_small_def sbind_Inr)
  have su: "s2 = (if wanted sm cfg then s[k := xtc ! k] else s)" "u2 = (if wanted sm cfg then u[k := True] else u)" "k < length s"
    using r(1) ns wanted_iff [OF ns, of sm] by (auto simp: swap_small_def sbind_def split: if_splits)
  have len: "length s2 = length s" "length u2 = length u" using su by auto
  have nth: "(cfg # cs) ! (i - k) = (if i = k then cfg else cs ! (i - Suc k))" if "k \<le> i" for i
    using that by (auto simp: nth_Cons')
  note IH = Cons.IH [OF r(2)]
  have "s1 ! i = (if k \<le> i \<and> i < k + length (cfg # cs) \<and> wanted sm ((cfg # cs) ! (i - k)) then xtc ! i else s ! i)"
    if "i < length s" for i
    using IH that su(1) len nth [of i] by (cases "i = k"; cases "k \<le> i") (auto simp: nth_list_update)
  moreover have "u1 ! i = (k \<le> i \<and> i < k + length (cfg # cs) \<and> wanted sm ((cfg # cs) ! (i - k)) \<or> u ! i)"
    if "i < length s" "length u = length s" for i
    using IH that su(2) len nth [of i] by (cases "i = k"; cases "k \<le> i") (auto simp: nth_list_update)
  ultimately show ?case using IH len su(3) by auto
qed auto

definition keeps_config :: "string list \<Rightarrow> 'v pyo \<Rightarrow> bool" where
  "keeps_config detectors cfg \<longleftrightarrow> detectors = [] \<or> wanted detectors cfg"

lemma zip_filter_cong: "length xs = length ys \<Longrightarrow> filter P ys = map snd (filter (\<lambda>(x, y). P y) (zip xs ys))"
  by (induction xs ys rule: list_induct2) auto

lemma swapped_files:
  assumes "sfold (swap_small sm xtc) (enumerate 0 cs) (smd, replicate (length smd) False) = Inr (s1, u1)"
    and "length smd = length cs" and "length xtc = length cs"
  shows "s1 = map (\<lambda>(f, x, cfg). if wanted sm cfg then x else f) (zip smd (zip xtc cs)) \<and> u1 = map (wanted sm) cs"
  using swap_small_fold [OF assms(1)] assms(2,3) by (auto intro!: nth_equalityI)

lemma zip_filter3:
  assumes "length smd = length cs" and "length xtc = length cs"
  shows "zip (map fst (filter (\<lambda>(f, c). P c) (zip smd cs))) (zip (map fst (filter (\<lambda>(f, c). P c) (zip xtc cs))) (filter P cs))
    = filter (\<lambda>(f, x, c). P c) (zip smd (zip xtc cs))"
proof -
  have "length cs = length smd" "length smd = length xtc" using assms by auto
  then show ?thesis by (induction cs smd xtc rule: list_induct3) auto
qed

lemma length_filter_zip: "length xs = length ys \<Longrightarrow> length (filter (\<lambda>(x, y). P y) (zip xs ys)) = length (filter P ys)"
  by (induction xs ys rule: list_induct2) auto

lemma selected_files_run:
  assumes "apply_detector_selection detectors small_xtc (Some cs) smd xtc = Inr (smd', xtc', use)"
    and "length smd = length cs" and "length xtc = length cs" and "cs \<noteq> []"
  shows "smd' = map (\<lambda>(f, x, cfg). if wanted small_xtc cfg then x else f) (filter (\<lambda>(f, x, cfg). keeps_config detectors cfg) (zip smd (zip xtc cs)))
    \<and> xtc' = map fst (filter (\<lambda>(x, cfg). keeps_config detectors cfg) (zip xtc cs))
    \<and> use = map (wanted small_xtc) (filter (keeps_config detectors) cs)"
proof -
  let ?K = "keeps_config detectors"
  let ?s = "map fst (filter (\<lambda>(f, c). ?K c) (zip smd cs))" and ?x = "map fst (filter (\<lambda>(f, c). ?K c) (zip xtc cs))"
  let ?c = "filter ?K cs"
  have no: "(wanted [] :: 'a pyo \<Rightarrow> bool) = (\<lambda>cfg. False)" by (simp add: fun_eq_iff wanted_def)
  have len: "length ?s = length ?c" "length ?x = length ?c" using assms(2,3) by (simp_all add: length_filter_zip)
  have fsts: "map fst (zip smd (zip xtc cs)) = smd" "map fst (zip xtc cs) = xtc" using assms(2,3) by simp_all
  have "smd \<noteq> []" using assms(2,4) by auto
  have sel: "(if detectors \<noteq> []
         then sbind (sfold (keep_selected detectors smd xtc) (enumerate 0 cs) ([], [], [])) (\<lambda>(s, x, c). Inr (s, x, Some c))
         else Inr (smd, xtc, Some cs)) = Inr (?s, ?x, Some ?c)"
    if "detectors \<noteq> [] \<or> small_xtc \<noteq> []"
  proof (cases "detectors = []")
    case True
    then show ?thesis using assms(2,3) by (simp add: keeps_config_def split_def)
  next
    case False
    then obtain s x c where f: "sfold (keep_selected detectors smd xtc) (enumerate 0 cs) ([], [], []) = Inr (s, x, c)"
      using assms(1) by (auto simp: apply_detector_selection_def sbind_Inr)
    from keep_selected_fold [OF assms(2,3) \<open>smd \<noteq> []\<close> f] show ?thesis
      using False f by (simp add: sbind_def keeps_config_def [abs_def])
  qed
  show ?thesis
  proof (cases "detectors = [] \<and> small_xtc = []")
    case True
    then show ?thesis using assms(1) fsts no assms(2,3)
      by (auto simp: apply_detector_selection_def keeps_config_def split_def map_replicate_const)
  next
    case False
    then have any: "detectors \<noteq> [] \<or> small_xtc \<noteq> []" by simp
    have r: "sbind (Inr (?s, ?x, Some ?c)) (\<lambda>(smd_files, xtc_files, configs).
           let use_smds = replicate (length smd_files) False in
           if small_xtc \<noteq> []
           then (case configs of None \<Rightarrow> Inl TypeError
                 | Some cs \<Rightarrow> sbind (sfold (swap_small small_xtc xtc_files) (enumerate 0 cs) (smd_files, use_smds)) (\<lambda>(s, u).
                     Inr (s, xtc_files, u)))
           else Inr (smd_files, xtc_files, use_smds)) = Inr (smd', xtc', use)"
      using assms(1) False unfolding apply_detector_selection_def option.case sel [OF any] by argo
    show ?thesis
    proof (cases "small_xtc = []")
      case True
      then have res: "smd' = ?s" "xtc' = ?x" "use = replicate (length ?s) False"
        using r by (auto simp add: sbind_def)
      have "smd' = map fst (filter (\<lambda>(f, x, c). ?K c) (zip smd (zip xtc cs)))"
        unfolding res(1) zip_filter3 [OF assms(2,3), of ?K, symmetric] using len by (intro map_fst_zip [symmetric]) simp
      moreover have "use = map (wanted small_xtc) ?c"
        unfolding res(3) len(1) using True no by (simp add: map_replicate_const)
      ultimately show ?thesis using True no res(2) by (simp add: split_def)
    next
      case False
      then obtain u where "sfold (swap_small small_xtc ?x) (enumerate 0 ?c) (?s, replicate (length ?s) False) = Inr (smd', u)"
          "xtc' = ?x" "use = u"
        using r by (auto simp: sbind_def split: sum.splits)
      from swapped_files [OF this(1) len] this(2,3) show ?thesis
        by (simp add: zip_filter3 [OF assms(2,3)])
    qed
  qed
qed

end
