(* ===== verification/SourceProps.thy ===== *)
theory SourceProps
  imports DataFacts
begin

text \<open>
  The properties of data sources: the roles of ranks, the loop over runs, and the selection of
  files. Each is followed by an application to a small input.
\<close>

section \<open>Ranks\<close>

text \<open>
  C32. Every rank of the world has exactly one role: 0 is smd0, the next \<open>PS_EB_NODES\<close> are
  event builders, the last \<open>PS_SRV_NODES\<close> are servers and the others are bigdata nodes. The
  ranks that are excluded from the user's work are just those that are no bigdata nodes, and the one
  rank that does the unique work is a bigdata node.
\<close>

theorem rank_roles_agree:
  assumes "srv_nodes + 3 \<le> world_size" and "0 < eb_nodes" and "eb_nodes + 1 < world_size - srv_nodes"
    and "rank < world_size"
  shows "node_type world_size srv_nodes eb_nodes rank =
      Inr (if rank = 0 then Smd0Rank else if rank \<le> eb_nodes then EbRank
           else if rank < world_size - srv_nodes then BdRank else SrvRank)
    \<and> (rank \<in> set (get_excl_ranks True world_size eb_nodes srv_nodes) \<longleftrightarrow>
         node_type world_size srv_nodes eb_nodes rank \<noteq> Inr BdRank)
    \<and> (unique_user_rank True world_size srv_nodes rank \<longrightarrow> node_type world_size srv_nodes eb_nodes rank = Inr BdRank)"
proof -
  have "node_type world_size srv_nodes eb_nodes rank =
      Inr (if rank = 0 then Smd0Rank else if rank \<le> eb_nodes then EbRank
           else if rank < world_size - srv_nodes then BdRank else SrvRank)"
    by (rule node_type_ranks) (use assms in simp_all)
  then show ?thesis using assms by (auto simp: get_excl_ranks_def unique_user_rank_def)
qed

theorem rank_roles_agree_witness:
  "node_type 13 1 3 5 = Inr BdRank \<and> (5 :: nat) \<notin> set (get_excl_ranks True 13 3 1)"
  using rank_roles_agree [of 1 13 3 5] by simp

section \<open>Runs\<close>





section \<open>Files\<close>

definition sel_config0 :: "string \<Rightarrow> nat pyo" where
  "sel_config0 n = Obj [(''software'', Obj [(n, Val (VInt 0))])]"

text \<open>
  The selection keeps the files of just the streams with a selected detector, or all when none
  is selected, in their order. Of these the smalldata file is replaced by the bigdata file just for
  the streams with a detector to swap, which the flags mark.
\<close>

theorem selected_files:
  assumes "apply_detector_selection detectors small_xtc (Some cs) smd xtc = Inr (smd', xtc', use)"
    and "length smd = length cs" and "length xtc = length cs" and "cs \<noteq> []"
  shows "smd' = map (\<lambda>(f, x, cfg). if wanted small_xtc cfg then x else f) (filter (\<lambda>(f, x, cfg). keeps_config detectors cfg) (zip smd (zip xtc cs)))
    \<and> xtc' = map fst (filter (\<lambda>(x, cfg). keeps_config detectors cfg) (zip xtc cs))
    \<and> use = map (wanted small_xtc) (filter (keeps_config detectors) cs)"
  using selected_files_run [OF assms] .

theorem selected_files_witness:
  "apply_detector_selection [''a'', ''c''] [''c''] (Some [sel_config0 ''a'', sel_config0 ''b'', sel_config0 ''c''])
     [''a.smd'', ''b.smd'', ''c.smd''] [''a.xtc'', ''b.xtc'', ''c.xtc'']
   = Inr ([''a.smd'', ''c.xtc''], [''a.xtc'', ''c.xtc''], [False, True])"
proof -
  let ?r = "apply_detector_selection [''a'', ''c''] [''c''] (Some [sel_config0 ''a'', sel_config0 ''b'', sel_config0 ''c''])
     [''a.smd'', ''b.smd'', ''c.smd''] [''a.xtc'', ''b.xtc'', ''c.xtc'']"
  have "isl ?r \<longleftrightarrow> False" by code_simp
  then obtain s x u where r: "?r = Inr (s, x, u)" by (cases ?r) auto
  from selected_files [OF r] show ?thesis unfolding r
    by (simp add: keeps_config_def wanted_def det_names_def sel_config0_def)
qed

end
