(* ===== verification/SeqInstr.thy ===== *)
theory SeqInstr
  imports PyJson "HOL-Library.Word"
begin

unbundle bit_operations_syntax

text \<open>
  Timing sequences: the instructions (\<^verbatim>\<open>psdaq/psdaq/seq/seq.py\<close>, and the same without
  execution in \<^verbatim>\<open>psdaq/psdaq/cas/seq.py\<close>), their words and their encoding for the device,
  and the engine that plays a sequence for a plot (\<^verbatim>\<open>psdaq/psdaq/seq/seqplot.py\<close>).
  Python's integers are unbounded; an index below 0 counts from the end.
\<close>

section \<open>Instructions\<close>

text \<open>\<open>CheckPointWord\<close> is the CheckPoint of \<^verbatim>\<open>cas/seq.py\<close>, which has an argument.\<close>

datatype instr =
    FixedRateSync int int
  | ACRateSync int int int
  | BranchTo int
  | BranchUntil int int int
  | CheckPoint
  | CheckPointWord int
  | BeamRequest int
  | ControlRequest int

definition FixedIntvs :: "int list" where
  "FixedIntvs = [1, 13, 91, 910, 9100, 91000, 910000]"

definition ACIntvs :: "int list" where
  "ACIntvs = [1, 2, 6, 12, 60, 120]"

definition py_nth :: "'a list \<Rightarrow> int \<Rightarrow> pyexc + 'a" where
  "py_nth xs i = (let n = int (length xs) in
     if 0 \<le> i \<and> i < n then Inr (xs ! nat i)
     else if - n \<le> i \<and> i < 0 then Inr (xs ! nat (i + n))
     else Inl IndexError)"

datatype marker_arg = MarkerName string | MarkerNum int

text \<open>The names of the fixed rates with their markers.\<close>

definition FixedIntvsDict :: "(string \<times> int) list" where
  "FixedIntvsDict = [(''1H'', 6), (''10H'', 5), (''100H'', 4), (''1kH'', 3), (''10kH'', 2), (''70kH'', 1), (''910kH'', 0)]"

text \<open>The constructor of FixedRateSync; an unknown name is no index of a list.\<close>

definition fixed_rate_sync :: "marker_arg \<Rightarrow> int \<Rightarrow> pyexc + instr" where
  "fixed_rate_sync marker occ =
     (if 0xfff < occ then Inl (ValueError ''FixedRateSync called with occ'')
      else (case marker of
          MarkerName s \<Rightarrow> (case map_of FixedIntvsDict s of Some m \<Rightarrow> Inr (FixedRateSync m occ) | None \<Rightarrow> Inl TypeError)
        | MarkerNum m \<Rightarrow> sbind (py_nth FixedIntvs m) (\<lambda>_. Inr (FixedRateSync m occ))))"

fun opcode :: "instr \<Rightarrow> int" where
  "opcode (FixedRateSync m n) = 0"
| "opcode (ACRateSync t m n) = 1"
| "opcode (BranchTo l) = 2"
| "opcode (BranchUntil l c v) = 2"
| "opcode CheckPoint = 3"
| "opcode (CheckPointWord w) = 3"
| "opcode (BeamRequest q) = 4"
| "opcode (ControlRequest w) = 5"

text \<open>\<open>args\<close> of an instruction.\<close>

fun instr_args :: "instr \<Rightarrow> int list" where
  "instr_args (FixedRateSync m n) = [0, m, n]"
| "instr_args (ACRateSync t m n) = [1, t, m, n]"
| "instr_args (BranchTo l) = [2, l]"
| "instr_args (BranchUntil l c v) = [2, l, c, v]"
| "instr_args CheckPoint = [3]"
| "instr_args (CheckPointWord w) = [3, w]"
| "instr_args (BeamRequest q) = [4, q]"
| "instr_args (ControlRequest w) = [5, w]"

definition encoding :: "instr \<Rightarrow> int list" where
  "encoding i = (let as = instr_args i; zs = (replicate 7 0)[0 := int (length as) - 1] in
     take 1 zs @ as @ drop (length as + 1) zs)"

text \<open>\<open>_word\<close>; that of a branch takes the address of its target.\<close>

fun instr_word :: "instr \<Rightarrow> int \<Rightarrow> int" where
  "instr_word (FixedRateSync m n) a = push_bit 29 2 OR push_bit 16 (m AND 0xf) OR (n AND 0xfff)"
| "instr_word (ACRateSync t m n) a =
     push_bit 29 3 OR push_bit 23 (t AND 0x3f) OR push_bit 16 (m AND 0xf) OR (n AND 0xfff)"
| "instr_word (BranchTo l) a = a AND 0x7ff"
| "instr_word (BranchUntil l c v) a =
     push_bit 27 (c AND 0x3) OR push_bit 24 1 OR push_bit 16 (v AND 0xff) OR (a AND 0x7ff)"
| "instr_word CheckPoint a = push_bit 29 1"
| "instr_word (CheckPointWord w) a = push_bit 29 1"
| "instr_word (BeamRequest q) a = push_bit 29 4 OR q"
| "instr_word (ControlRequest w) a = push_bit 29 4 OR w"

section \<open>The engine of the plot\<close>

record engine =
  eg_request :: int
  eg_instr :: int
  eg_frame :: int
  eg_acframe :: int
  eg_acmode :: bool
  eg_modes :: int
  eg_ccnt :: "int list"
  eg_done :: bool

definition engine_init :: "bool \<Rightarrow> engine" where
  "engine_init acmode = \<lparr>eg_request = 0, eg_instr = 0, eg_frame = -1, eg_acframe = -1, eg_acmode = acmode,
     eg_modes = 0, eg_ccnt = [0, 0, 0, 0], eg_done = False\<rparr>"

definition frame_number :: "engine \<Rightarrow> int" where
  "frame_number e = (if eg_acmode e then eg_acframe e else eg_frame e)"

text \<open>The search for the next AC frame in one of the timeslots, which may never end.\<close>

definition ac_match :: "int \<Rightarrow> int \<Rightarrow> int \<Rightarrow> bool" where
  "ac_match tsm intv acframe \<longleftrightarrow> bit tsm (nat (acframe mod 6)) \<and> (acframe div 6) mod intv = 0"

partial_function (option) ac_wait :: "int \<Rightarrow> int \<Rightarrow> int \<Rightarrow> int option" where
  "ac_wait tsm intv acframe = (if ac_match tsm intv (acframe + 1) then Some (acframe + 1) else ac_wait tsm intv (acframe + 1))"

fun ac_waits :: "nat \<Rightarrow> int \<Rightarrow> int \<Rightarrow> int \<Rightarrow> int option" where
  "ac_waits 0 tsm intv acframe = Some acframe"
| "ac_waits (Suc n) tsm intv acframe = (case ac_wait tsm intv acframe of None \<Rightarrow> None | Some a \<Rightarrow> ac_waits n tsm intv a)"

text \<open>\<open>execute\<close> of an instruction; None when it does not return.\<close>

definition exec_fixed :: "int \<Rightarrow> int \<Rightarrow> engine \<Rightarrow> engine" where
  "exec_fixed intv occ e =
     (let step = intv * occ - eg_frame e mod intv;
          e1 = (if 0 < step then e\<lparr>eg_frame := eg_frame e + step, eg_request := 0\<rparr> else e)
      in e1\<lparr>eg_instr := eg_instr e + 1, eg_modes := eg_modes e OR 1\<rparr>)"

definition py_set_nth :: "'a list \<Rightarrow> int \<Rightarrow> 'a \<Rightarrow> 'a list" where
  "py_set_nth xs i x = xs[nat (if i < 0 then i + int (length xs) else i) := x]"

fun execute :: "instr \<Rightarrow> engine \<Rightarrow> (pyexc + engine) option" where
  "execute (FixedRateSync m n) e = Some (sbind (py_nth FixedIntvs m) (\<lambda>intv. Inr (exec_fixed intv n e)))"
| "execute (ACRateSync t m n) e =
     (case py_nth ACIntvs m of
        Inl err \<Rightarrow> Some (Inl err)
      | Inr intv \<Rightarrow> map_option (\<lambda>a. Inr (e\<lparr>eg_instr := eg_instr e + 1, eg_acframe := a, eg_request := 0,
            eg_modes := eg_modes e OR 2\<rparr>)) (ac_waits (nat n) (t AND 0x3f) intv (eg_acframe e)))"
| "execute (BranchTo l) e = Some (Inr (e\<lparr>eg_done := (eg_done e \<or> eg_instr e = l), eg_instr := l\<rparr>))"
| "execute (BranchUntil l c v) e =
     Some (sbind (py_nth (eg_ccnt e) c) (\<lambda>k.
       if k = v then Inr (e\<lparr>eg_instr := eg_instr e + 1, eg_ccnt := py_set_nth (eg_ccnt e) c 0\<rparr>)
       else Inr (e\<lparr>eg_instr := l, eg_ccnt := py_set_nth (eg_ccnt e) c (k + 1)\<rparr>)))"
| "execute CheckPoint e = Some (Inr (e\<lparr>eg_instr := eg_instr e + 1\<rparr>))"
| "execute (CheckPointWord w) e = Some (Inl (AttributeError ''execute''))"
| "execute (BeamRequest q) e = Some (Inr (e\<lparr>eg_request := push_bit 16 q OR 1, eg_instr := eg_instr e + 1\<rparr>))"
| "execute (ControlRequest w) e = Some (Inr (e\<lparr>eg_request := w, eg_instr := eg_instr e + 1\<rparr>))"

definition seq_step :: "instr list \<Rightarrow> engine \<Rightarrow> (pyexc + engine) option" where
  "seq_step prog e = (case py_nth prog (eg_instr e) of Inl err \<Rightarrow> Some (Inl err) | Inr i \<Rightarrow> execute i e)"

text \<open>The points a step adds to the plot: the bits of the request at the frame that ends.\<close>

definition points :: "int \<Rightarrow> engine \<Rightarrow> engine \<Rightarrow> (int \<times> nat) list" where
  "points start e e1 =
     (if frame_number e1 \<noteq> frame_number e \<and> \<not> frame_number e < start \<and> eg_request e \<noteq> 0
      then map (\<lambda>i. (frame_number e, i)) (filter (\<lambda>i. bit (eg_request e) i) [0..<16])
      else [])"

text \<open>
  The loop of \<open>SeqUser.execute\<close>, for at most so many instructions; a loop that needs more gives no
  result. What it gives are the points and the engine.
\<close>

fun seq_plot :: "nat \<Rightarrow> instr list \<Rightarrow> int \<Rightarrow> int \<Rightarrow> engine \<Rightarrow> (pyexc + (int \<times> nat) list \<times> engine) option" where
  "seq_plot n prog start stop e =
     (if frame_number e < stop \<and> \<not> eg_done e
      then (case n of
          0 \<Rightarrow> None
        | Suc k \<Rightarrow> (case seq_step prog e of
              None \<Rightarrow> None
            | Some (Inl err) \<Rightarrow> Some (Inl err)
            | Some (Inr e1) \<Rightarrow>
                map_option (\<lambda>r. sbind r (\<lambda>(ps, e2). Inr (points start e e1 @ ps, e2))) (seq_plot k prog start stop e1)))
      else Some (Inr ([], e)))"

declare seq_plot.simps [simp del]

end
