(* ===== verification/SeqDevice.thy ===== *)
theory SeqDevice
  imports SeqInstr
begin

unbundle bit_operations_syntax

text \<open>
  The sequence engine of the timing hardware and its PVs (\<^verbatim>\<open>psdaq/psdaq/pyxpm/pvseq.py\<close>), with the
  client that programs it (\<^verbatim>\<open>psdaq/psdaq/seq/seqprogram.py\<close>). The registers are fields of the
  state: the memory is the list of its words, a word outside it raises \<open>IndexError\<close>; register 15
  of the jump table is \<open>sd_jump\<close>; the restart register resets itself, so that \<open>sd_restarts\<close>
  counts what is written to it. Printing and the dump of the registers change nothing.
\<close>

section \<open>The engine\<close>

definition NSubSeq :: int where
  "NSubSeq = 64"

definition nwords_of :: "instr \<Rightarrow> int" where
  "nwords_of i = 1"

record seq_cache =
  sc_index :: int
  sc_size :: int
  sc_instr :: "instr list"

record seq_dev =
  sd_id :: nat
  sd_addrlen :: nat
  sd_en :: int
  sd_restarts :: "int list"
  sd_jump :: int
  sd_ram :: "int list"
  sd_caches :: "(int \<times> seq_cache) list"
  sd_indices :: int
  sd_seq :: "instr list"

type_synonym 'a sdm = "(seq_dev, 'a) eff"

definition ram_set :: "int \<Rightarrow> int \<Rightarrow> unit sdm" where
  "ram_set a w = ebind (eget sd_ram) (\<lambda>ram.
     if - int (length ram) \<le> a \<and> a < int (length ram) then emod (sd_ram_update (\<lambda>xs. py_set_nth xs a w))
     else eraise IndexError)"

definition cache_put :: "int \<Rightarrow> seq_cache \<Rightarrow> unit sdm" where
  "cache_put a c = emod (sd_caches_update (AList.update a c))"

text \<open>The constructor: two sequences that do nothing, at both ends of the memory.\<close>

definition dev_init :: "unit sdm" where
  "dev_init =
     eseq (emod (\<lambda>s. s\<lparr>sd_caches := [], sd_indices := 0\<rparr>))
     (eseq (cache_put 0 \<lparr>sc_index = 0, sc_size = 3, sc_instr = [FixedRateSync 5 1, FixedRateSync 5 1, BranchTo 0]\<rparr>)
     (eseq (ram_set 0 (instr_word (FixedRateSync 5 1) 0))
     (eseq (ram_set 1 (instr_word (FixedRateSync 5 1) 0))
     (eseq (ram_set 2 (instr_word (BranchTo 0) 0))
     (ebind (eget (\<lambda>s. 2 ^ sd_addrlen s - 1)) (\<lambda>a.
      eseq (cache_put a \<lparr>sc_index = 1, sc_size = 1, sc_instr = [BranchTo 0]\<rparr>)
     (eseq (ram_set a (instr_word (BranchTo a) a))
     (emod (\<lambda>s. s\<lparr>sd_indices := 3, sd_seq := []\<rparr>)))))))))"

text \<open>\<open>cacheSeq\<close>: the list of instructions from what the client wrote, as far as it goes.\<close>

definition decode_instr :: "int \<Rightarrow> int list \<Rightarrow> instr list" where
  "decode_instr nargs args = (let opc = args ! 0 in
     if opc = 0 then [FixedRateSync (args ! 1) (args ! 2)]
     else if opc = 1 then [ACRateSync (args ! 1) (args ! 2) (args ! 3)]
     else if opc = 2 then (if nargs = 1 then [BranchTo (args ! 1)] else [BranchUntil (args ! 1) (args ! 2) (args ! 3)])
     else if opc = 3 then [CheckPointWord 0]
     else if opc = 5 then [ControlRequest (args ! 1)]
     else [])"

fun read_instrs :: "nat \<Rightarrow> int list \<Rightarrow> instr list" where
  "read_instrs 0 vs = []"
| "read_instrs (Suc n) vs =
     (if length vs < 7 then [] else decode_instr (hd vs) (take 6 (tl vs)) @ read_instrs n (drop 7 vs))"

definition decode_seq :: "int list \<Rightarrow> instr list" where
  "decode_seq vs = (case vs of [] \<Rightarrow> [] | n # ws \<Rightarrow> read_instrs (nat n) ws)"

definition cacheSeq :: "int list \<Rightarrow> int sdm" where
  "cacheSeq vs = eseq (emod (\<lambda>s. s\<lparr>sd_seq := decode_seq vs\<rparr>)) (eget (\<lambda>s. int (length (sd_seq s))))"

text \<open>\<open>removeSeq\<close>; a shift by a negative index raises.\<close>

definition removeSeq :: "int \<Rightarrow> int sdm" where
  "removeSeq index = (if index < 0 then eraise (ValueError ''negative shift count'') else
     ebind (eget sd_indices) (\<lambda>inds.
       if inds AND push_bit (nat index) 1 = 0 then eret (-1)
       else eseq (emod (\<lambda>s. s\<lparr>sd_indices := inds AND NOT (push_bit (nat index) 1)\<rparr>))
         (ebind (eget sd_caches) (\<lambda>cs.
           case find (\<lambda>kc. sc_index (snd kc) = index) cs of
             None \<Rightarrow> eret (-2)
           | Some (key, c) \<Rightarrow>
               eseq (ram_set key key) (eseq (emod (sd_caches_update (AList.delete key))) (eret 0))))))"

text \<open>The search for the memory range just large enough: its size and its address.\<close>

fun best_fit :: "int \<Rightarrow> int \<Rightarrow> int \<times> int \<Rightarrow> (int \<times> seq_cache) list \<Rightarrow> int \<times> int" where
  "best_fit nwords addr best [] = best"
| "best_fit nwords addr best ((key, c) # cs) =
     (let isize = key - addr in
      if isize = nwords then (isize, addr)
      else best_fit nwords (key + sc_size c) (if nwords < isize \<and> isize < fst best then (isize, addr) else best) cs)"

definition free_index :: "int \<Rightarrow> int \<Rightarrow> int" where
  "free_index inds aindex =
     (case find (\<lambda>i. inds AND push_bit i 1 = 0) [0..<64] of Some i \<Rightarrow> int i | None \<Rightarrow> aindex)"

definition jump_offset :: "instr list \<Rightarrow> int \<Rightarrow> int" where
  "jump_offset seq jumpto =
     sum_list (map (\<lambda>(j, i). nwords_of i) (takeWhile (\<lambda>(j, i). int j \<noteq> jumpto) (zip [0..<length seq] seq)))"

text \<open>The translation of one instruction; it carries the address and the result so far.\<close>

definition translate :: "instr list \<Rightarrow> int \<Rightarrow> instr \<Rightarrow> int \<times> int \<Rightarrow> (int \<times> int) sdm" where
  "translate seq best_ram i = (\<lambda>(addr, rval).
     if opcode i = 2 then
       (let jumpto = instr_args i ! 1 in
        if int (length seq) < jumpto then eret (addr, -3)
        else if 0 \<le> jumpto then eseq (ram_set addr (instr_word i (jump_offset seq jumpto + best_ram))) (eret (addr + 1, rval))
        else eret (addr, rval))
     else eseq (ram_set addr (instr_word i 0)) (eret (addr + 1, rval)))"

definition insertSeq :: "int sdm" where
  "insertSeq =
     ebind (eget id) (\<lambda>s.
       let seq = sd_seq s;
           nwords = sum_list (map nwords_of seq);
           none_found = 2 ^ sd_addrlen s;
           best = best_fit nwords 0 (none_found, 0) (sd_caches s)
       in if fst best = none_found then eret (-1)
          else if sd_indices s = -1 then eret (-2)
          else (let aindex = free_index (sd_indices s) (-3); best_ram = snd best in
            eseq (if aindex = -3 then eret () else emod (\<lambda>s. s\<lparr>sd_indices := sd_indices s OR push_bit (nat aindex) 1\<rparr>))
            (eseq (cache_put best_ram \<lparr>sc_index = aindex, sc_size = nwords, sc_instr = seq\<rparr>)
            (ebind (efold (translate seq best_ram) seq (best_ram, 0)) (\<lambda>(addr, rval).
              if rval \<noteq> 0 then eseq (removeSeq aindex) (eret rval) else eret aindex)))))"

text \<open>\<open>setManStart\<close> and \<open>setManSync\<close> write parts of register 15.\<close>

definition setManStart :: "int \<Rightarrow> int \<Rightarrow> unit sdm" where
  "setManStart addr pclass = emod (sd_jump_update (\<lambda>r.
     (r AND NOT 0xffff) OR (0xffff AND ((addr AND 0xfff) OR push_bit 12 (pclass AND 0xf)))))"

definition setManSync :: "int \<Rightarrow> unit sdm" where
  "setManSync sync = emod (sd_jump_update (\<lambda>r. (r AND NOT 0xffff0000) OR (0xffff0000 AND push_bit 16 sync)))"

definition setAddress :: "int \<Rightarrow> nat \<Rightarrow> int \<Rightarrow> unit sdm" where
  "setAddress seq start sync = ebind (eget sd_caches) (\<lambda>cs.
     let a = (case find (\<lambda>kc. sc_index (snd kc) = seq) cs of None \<Rightarrow> -1 | Some (key, c) \<Rightarrow> key + int start)
     in if 0 \<le> a then eseq (setManStart a 0) (setManSync sync) else eret ())"

definition dev_enable :: "bool \<Rightarrow> unit sdm" where
  "dev_enable e = emod (\<lambda>s. s\<lparr>sd_en := (if e then sd_en s OR push_bit (sd_id s) 1 else sd_en s AND NOT (push_bit (sd_id s) 1))\<rparr>)"

definition dev_reset :: "unit sdm" where
  "dev_reset = emod (\<lambda>s. s\<lparr>sd_restarts := sd_restarts s @ [push_bit (sd_id s) 1]\<rparr>)"

section \<open>The PVs\<close>

text \<open>
  \<open>sp_u32\<close> is the conversion of p4p for a PV of type I; it keeps what fits 32 bits.
\<close>

record seq_pvs =
  sp_eng :: seq_dev
  sp_desc :: string
  sp_instrcnt :: int
  sp_seqidx :: int
  sp_seqname :: string
  sp_bdesc :: "string list"
  sp_rmvidx :: int
  sp_runidx :: int
  sp_running :: int

type_synonym 'a spm = "(seq_pvs, 'a) eff"

definition on_eng :: "'a sdm \<Rightarrow> 'a spm" where
  "on_eng m = (\<lambda>s. case m (sp_eng s) of (r, d) \<Rightarrow> (r, s\<lparr>sp_eng := d\<rparr>))"

type_synonym u32conv = "int \<Rightarrow> pyexc + int"

definition pv_instrs :: "u32conv \<Rightarrow> int list \<Rightarrow> unit spm" where
  "pv_instrs u val = ebind (on_eng (cacheSeq val)) (\<lambda>n. ebind (elift (u n)) (\<lambda>n. emod (\<lambda>s. s\<lparr>sp_instrcnt := n\<rparr>)))"

definition pv_rmvseq :: "u32conv \<Rightarrow> int \<Rightarrow> unit spm" where
  "pv_rmvseq u pval = ebind (eget sp_rmvidx) (\<lambda>val.
     ewhen (1 < val \<and> val < NSubSeq)
       (eseq (on_eng (removeSeq val)) (ebind (elift (u 0)) (\<lambda>v. emod (\<lambda>s. s\<lparr>sp_seqidx := v\<rparr>)))))"

definition pv_ins :: "u32conv \<Rightarrow> int \<Rightarrow> unit spm" where
  "pv_ins u val = ewhen (val \<noteq> 0)
     (ebind (on_eng insertSeq) (\<lambda>rval. ebind (elift (u rval)) (\<lambda>v. emod (\<lambda>s. s\<lparr>sp_seqidx := v\<rparr>))))"

definition pv_start :: "u32conv \<Rightarrow> int \<Rightarrow> unit spm" where
  "pv_start u sync = ebind (eget sp_runidx) (\<lambda>idx.
     ebind (elift (u (if 1 < idx then 1 else 0))) (\<lambda>v.
       eseq (emod (\<lambda>s. s\<lparr>sp_running := v\<rparr>))
       (eseq (on_eng (dev_enable True))
       (eseq (on_eng (setAddress idx 0 sync)) (on_eng dev_reset)))))"

definition pv_schedReset :: "u32conv \<Rightarrow> int \<Rightarrow> unit spm" where
  "pv_schedReset u val = ewhen (val \<noteq> 0) (pv_start u 1)"

definition pv_forceReset :: "u32conv \<Rightarrow> int \<Rightarrow> unit spm" where
  "pv_forceReset u val = ewhen (val \<noteq> 0) (pv_start u 0)"

definition pv_checkPoint :: "u32conv \<Rightarrow> int \<Rightarrow> unit spm" where
  "pv_checkPoint u addr = ebind (elift (u 0)) (\<lambda>v. emod (\<lambda>s. s\<lparr>sp_running := v\<rparr>))"

section \<open>The client\<close>

text \<open>
  \<open>put\<close> converts the value, stores it and runs the handler of the PV before it returns; an exception of
  the handler reaches the client as p4p's \<open>RemoteError\<close>.
\<close>

definition pv_put :: "u32conv \<Rightarrow> (int \<Rightarrow> unit spm) \<Rightarrow> int \<Rightarrow> unit spm" where
  "pv_put u h v = ebind (elift (u v)) (\<lambda>v. etry (h v) (\<lambda>_. eraise (NamedError ''RemoteError'')))"

definition seq_stop :: "u32conv \<Rightarrow> unit spm" where
  "seq_stop u =
     eseq (pv_put u (\<lambda>v. emod (\<lambda>s. s\<lparr>sp_runidx := v\<rparr>)) 0)
     (eseq (pv_put u (pv_forceReset u) 1) (pv_put u (pv_forceReset u) 0))"

text \<open>\<open>clean\<close>, which may never end.\<close>

definition clean_body :: "u32conv \<Rightarrow> int \<Rightarrow> unit spm" where
  "clean_body u idx =
     eseq (pv_put u (\<lambda>v. emod (\<lambda>s. s\<lparr>sp_rmvidx := v\<rparr>)) idx)
     (eseq (pv_put u (pv_rmvseq u) 1) (pv_put u (pv_rmvseq u) 0))"

partial_function (option) seq_clean :: "u32conv \<Rightarrow> seq_pvs \<Rightarrow> ((pyexc + unit) \<times> seq_pvs) option" where
  "seq_clean u s =
     (if 0 < sp_seqidx s
      then (case clean_body u (sp_seqidx s) s of
          (Inl e, s1) \<Rightarrow> Some (Inl e, s1)
        | (Inr _, s1) \<Rightarrow> seq_clean u s1)
      else Some (Inr (), s))"

definition seq_encoding :: "instr list \<Rightarrow> int list" where
  "seq_encoding instrset = int (length instrset) # concat (map encoding instrset)"

definition seq_load :: "u32conv \<Rightarrow> string \<Rightarrow> instr list \<Rightarrow> string list option \<Rightarrow> int \<Rightarrow> int spm" where
  "seq_load u title instrset descset idx0 =
     eseq (emod (\<lambda>s. s\<lparr>sp_desc := title\<rparr>))
     (ebind (elift (smap u (seq_encoding instrset))) (\<lambda>vs.
      eseq (etry (pv_instrs u vs) (\<lambda>_. eraise (NamedError ''RemoteError'')))
     (ebind (eget sp_instrcnt) (\<lambda>ninstr.
      if ninstr \<noteq> int (length instrset) then eret idx0
      else
        eseq (pv_put u (pv_ins u) 1) (eseq (pv_put u (pv_ins u) 0)
        (ebind (eget sp_seqidx) (\<lambda>idx.
          if idx < 2 then eraise (RuntimeError ''Sequence failed'')
          else eseq (case descset of None \<Rightarrow> eret () | Some ds \<Rightarrow> emod (\<lambda>s. s\<lparr>sp_bdesc := ds\<rparr>)) (eret idx))))))))"

definition seq_begin :: "u32conv \<Rightarrow> int \<Rightarrow> unit spm" where
  "seq_begin u idx =
     eseq (pv_put u (\<lambda>v. emod (\<lambda>s. s\<lparr>sp_runidx := v\<rparr>)) idx)
     (eseq (pv_put u (pv_schedReset u) 0)
     (eseq (pv_put u (pv_forceReset u) 1) (pv_put u (pv_forceReset u) 0)))"

text \<open>\<open>execute\<close>, with the index the client remembers; None when \<open>clean\<close> does not return.\<close>

definition seq_execute ::
    "u32conv \<Rightarrow> string \<Rightarrow> instr list \<Rightarrow> string list option \<Rightarrow> int \<Rightarrow> seq_pvs \<Rightarrow> ((pyexc + int) \<times> seq_pvs) option" where
  "seq_execute u title instrset descset idx0 s =
     (case eseq (pv_put u (pv_ins u) 0) (seq_stop u) s of
        (Inl e, s1) \<Rightarrow> Some (Inl e, s1)
      | (Inr _, s1) \<Rightarrow> (case seq_clean u s1 of
          None \<Rightarrow> None
        | Some (Inl e, s2) \<Rightarrow> Some (Inl e, s2)
        | Some (Inr _, s2) \<Rightarrow>
            Some (ebind (seq_load u title instrset descset idx0) (\<lambda>idx. eseq (seq_begin u idx) (eret idx)) s2)))"

end
