(* ===== verification/SeqFacts.thy ===== *)
theory SeqFacts
  imports SeqDevice
begin

unbundle bit_operations_syntax

text \<open>
  Lemmas on the sequence engine: what of a program survives its encoding, where the words of a
  program go in the memory, and the states of the device between two programs. Then the client and
  the device together: each operation of \<open>SeqUser\<close> on a device between programs.
\<close>

section \<open>Encoding\<close>

fun is_beam :: "instr \<Rightarrow> bool" where
  "is_beam (BeamRequest q) = True"
| "is_beam _ = False"

text \<open>The device's instruction for one of the client.\<close>

fun device_instr :: "instr \<Rightarrow> instr" where
  "device_instr CheckPoint = CheckPointWord 0"
| "device_instr (CheckPointWord w) = CheckPointWord 0"
| "device_instr i = i"

lemma length_encoding [simp]: "length (encoding i) = 7"
  by (cases i) (simp_all add: encoding_def numeral_eq_Suc)

lemma decode_encoding:
  "decode_instr (hd (encoding i)) (take 6 (tl (encoding i))) = (if is_beam i then [] else [device_instr i])"
  by (cases i) (simp_all add: encoding_def decode_instr_def numeral_eq_Suc)

lemma read_instrs_encoding:
  "read_instrs (length p) (concat (map encoding p) @ r) = map device_instr (filter (\<lambda>i. \<not> is_beam i) p)"
proof (induction p)
  case (Cons i p)
  have "tl (encoding i @ xs) = tl (encoding i) @ xs" and "hd (encoding i @ xs) = hd (encoding i)" for xs
    using length_encoding [of i] by (cases "encoding i"; simp)+
  then show ?case using Cons.IH decode_encoding [of i] by simp
qed simp

lemma instr_word_device: "instr_word (device_instr i) a = instr_word i a"
  by (cases i) simp_all

lemma opcode_device: "opcode (device_instr i) = opcode i"
  by (cases i) simp_all

section \<open>Writing a program to memory\<close>

definition ram_write :: "int list \<Rightarrow> nat \<Rightarrow> int list \<Rightarrow> int list" where
  "ram_write xs n ws = take n xs @ ws @ drop (n + length ws) xs"

text \<open>The target of a branch, and the word of an instruction of a program that starts at an address.\<close>

fun branch_target :: "instr \<Rightarrow> int" where
  "branch_target (BranchTo l) = l"
| "branch_target (BranchUntil l c v) = l"
| "branch_target _ = 0"

definition placed_word :: "int \<Rightarrow> instr \<Rightarrow> int" where
  "placed_word base i = instr_word i (base + branch_target i)"

definition targets_in :: "instr list \<Rightarrow> instr list \<Rightarrow> bool" where
  "targets_in seq is = list_all (\<lambda>i. 0 \<le> branch_target i \<and> branch_target i \<le> int (length seq)) is"

lemma jump_offset_target:
  assumes "0 \<le> t" and "t \<le> int (length seq)"
  shows "jump_offset seq t = t"
proof -
  let ?z = "zip [0..<length seq] seq"
  have "takeWhile (\<lambda>(j, i). int j \<noteq> t) ?z = take (nat t) ?z"
    by (rule takeWhile_eq_take_P_nth) (use assms in auto)
  moreover have "map (\<lambda>(j, i). nwords_of i) (take (nat t) ?z) = replicate (nat t) 1"
    by (rule nth_equalityI) (use assms in \<open>auto simp: nwords_of_def\<close>)
  ultimately show ?thesis using assms by (simp add: jump_offset_def sum_list_replicate)
qed

lemma ram_set_run:
  assumes "n < length (sd_ram s)"
  shows "ram_set (int n) w s = (Inr (), s\<lparr>sd_ram := (sd_ram s)[n := w]\<rparr>)"
  using assms by (simp add: ram_set_def eff_simps py_set_nth_def)

lemma translate_run:
  assumes "0 \<le> branch_target i" "branch_target i \<le> int (length seq)" and "n < length (sd_ram s)"
  shows "translate seq base i (int n, r) s =
    (Inr (int n + 1, r), s\<lparr>sd_ram := (sd_ram s)[n := placed_word base i]\<rparr>)"
  using assms
  by (cases i) (simp_all add: translate_def eff_simps ram_set_run jump_offset_target placed_word_def add.commute)

lemma ram_write_Cons:
  "n < length xs \<Longrightarrow> ram_write (xs[n := w]) (Suc n) ws = ram_write xs n (w # ws)"
  by (simp add: ram_write_def take_Suc_conv_app_nth drop_update_cancel)

lemma translate_all:
  assumes "targets_in seq is" and "n + length is \<le> length (sd_ram s)"
  shows "efold (translate seq base) is (int n, r) s =
    (Inr (int (n + length is), r), s\<lparr>sd_ram := ram_write (sd_ram s) n (map (placed_word base) is)\<rparr>)"
  using assms
proof (induction "is" arbitrary: n s)
  case Nil
  then show ?case by (simp add: eff_simps ram_write_def)
next
  case (Cons i "is")
  have "efold (translate seq base) (i # is) (int n, r) s =
      efold (translate seq base) is (int (Suc n), r) (s\<lparr>sd_ram := (sd_ram s)[n := placed_word base i]\<rparr>)"
    using Cons.prems by (simp add: eff_simps targets_in_def translate_run add.commute)
  also have "\<dots> = (Inr (int (n + length (i # is)), r),
      s\<lparr>sd_ram := ram_write ((sd_ram s)[n := placed_word base i]) (Suc n) (map (placed_word base) is)\<rparr>)"
    using Cons.prems by (subst Cons.IH) (simp_all add: targets_in_def)
  finally show ?case using Cons.prems by (simp add: ram_write_Cons)
qed

lemma sum_nwords [simp]: "sum_list (map nwords_of seq) = int (length seq)"
  by (induction seq) (simp_all add: nwords_of_def)

text \<open>\<open>insertSeq\<close> once the range and the index are known.\<close>

lemma insertSeq_run:
  assumes fit: "best_fit (int (length (sd_seq s))) 0 (2 ^ sd_addrlen s, 0) (sd_caches s) = (sz, int b)"
    and sz: "sz \<noteq> 2 ^ sd_addrlen s" and inds: "sd_indices s \<noteq> -1"
    and ai: "free_index (sd_indices s) (-3) = int k"
    and tg: "targets_in (sd_seq s) (sd_seq s)" and room: "b + length (sd_seq s) \<le> length (sd_ram s)"
  shows "insertSeq s = (Inr (int k), s\<lparr>
      sd_ram := ram_write (sd_ram s) b (map (placed_word (int b)) (sd_seq s)),
      sd_caches := AList.update (int b) \<lparr>sc_index = int k, sc_size = int (length (sd_seq s)), sc_instr = sd_seq s\<rparr> (sd_caches s),
      sd_indices := sd_indices s OR push_bit k 1\<rparr>)"
  using assms by (simp add: insertSeq_def eff_simps Let_def cache_put_def translate_all)

section \<open>The device between programs\<close>

definition base_caches :: "nat \<Rightarrow> (int \<times> seq_cache) list" where
  "base_caches n = [(0, \<lparr>sc_index = 0, sc_size = 3, sc_instr = [FixedRateSync 5 1, FixedRateSync 5 1, BranchTo 0]\<rparr>),
     (2 ^ n - 1, \<lparr>sc_index = 1, sc_size = 1, sc_instr = [BranchTo 0]\<rparr>)]"

text \<open>A device with no program of a client, and one with a program.\<close>

definition dev_idle :: "seq_dev \<Rightarrow> bool" where
  "dev_idle s \<longleftrightarrow> 3 \<le> sd_addrlen s \<and> 2 ^ sd_addrlen s \<le> length (sd_ram s) \<and>
     sd_caches s = base_caches (sd_addrlen s) \<and> sd_indices s = 3"

definition dev_loaded :: "instr list \<Rightarrow> seq_dev \<Rightarrow> bool" where
  "dev_loaded p s \<longleftrightarrow> 3 \<le> sd_addrlen s \<and> 2 ^ sd_addrlen s \<le> length (sd_ram s) \<and>
     sd_caches s = base_caches (sd_addrlen s) @ [(3, \<lparr>sc_index = 2, sc_size = int (length p), sc_instr = p\<rparr>)] \<and>
     sd_indices s = 7 \<and> take (length p) (drop 3 (sd_ram s)) = map (placed_word 3) p"

lemma pow_ge_8: "3 \<le> n \<Longrightarrow> (8::int) \<le> 2 ^ n"
  using power_increasing [of 3 n "2::int"] by simp

lemma best_fit_idle:
  assumes "3 \<le> n" and "0 < m" and "m + 4 \<le> (2::int) ^ n"
  shows "best_fit m 0 (2 ^ n, 0) (base_caches n) = (2 ^ n - 4, 3)"
  using assms pow_ge_8 [of n] by (simp add: base_caches_def Let_def)

lemma best_fit_idle_full:
  assumes "3 \<le> n" and "0 < m" and "(2::int) ^ n < m + 4"
  shows "best_fit m 0 (2 ^ n, 0) (base_caches n) = (2 ^ n, 0)"
  using assms pow_ge_8 [of n] by (simp add: base_caches_def Let_def)

lemma free_index_3: "free_index 3 (-3) = 2"
  by (simp add: free_index_def upt_conv_Cons)

lemma room_nat:
  assumes "int m + k \<le> 2 ^ n" and "2 ^ n \<le> (l::nat)"
  shows "int m + k \<le> int l"
proof -
  have "int (2 ^ n) \<le> int l" using assms(2) by (simp only: of_nat_le_iff)
  then have "(2::int) ^ n \<le> int l" by (simp only: of_nat_power of_nat_numeral)
  with assms(1) show ?thesis by linarith
qed

lemma write_three:
  assumes "2 < length xs" and "3 \<le> k"
  shows "take 3 (xs[0 := x, Suc 0 := y, 2 := z, k := w]) = [x, y, z]"
proof -
  obtain a b c ys where "xs = a # b # c # ys" using assms(1)
    by (metis One_nat_def Suc_1 length_Cons less_nat_zero_code less_Suc_eq_0_disj list.exhaust list.size(3) not_less_eq)
  then show ?thesis using assms(2) by (simp add: numeral_eq_Suc split: nat.split)
qed

lemma dev_init_idle:
  assumes "3 \<le> sd_addrlen s" and "2 ^ sd_addrlen s \<le> length (sd_ram s)"
  obtains t where "dev_init s = (Inr (), t)" and "dev_idle t" and "sd_addrlen t = sd_addrlen s"
    and "length (sd_ram t) = length (sd_ram s)" and "sd_seq t = []"
    and "take 3 (sd_ram t) = [instr_word (FixedRateSync 5 1) 0, instr_word (FixedRateSync 5 1) 0, instr_word (BranchTo 0) 0]"
proof -
  have p: "(8::int) \<le> 2 ^ sd_addrlen s" "(8::nat) \<le> 2 ^ sd_addrlen s"
    using assms(1) pow_ge_8 power_increasing [of 3 "sd_addrlen s" "2::nat"] by simp_all
  have len: "2 < length (sd_ram s)" "2 ^ sd_addrlen s - 1 < length (sd_ram s)" using p assms(2) by auto
  have a: "(2::int) ^ sd_addrlen s - 1 = int (2 ^ sd_addrlen s - 1)" by (simp add: of_nat_diff)
  have set: "ram_set 0 w u = (Inr (), u\<lparr>sd_ram := (sd_ram u)[0 := w]\<rparr>)"
    "ram_set 1 w u = (Inr (), u\<lparr>sd_ram := (sd_ram u)[1 := w]\<rparr>)"
    "ram_set 2 w u = (Inr (), u\<lparr>sd_ram := (sd_ram u)[2 := w]\<rparr>)"
    if "length (sd_ram u) = length (sd_ram s)" for w u
    using that len ram_set_run [of 0 u w, simplified] ram_set_run [of 1 u w] ram_set_run [of 2 u w] by (auto simp: length_greater_0_conv [symmetric] simp del: length_greater_0_conv)
  have last: "ram_set (2 ^ sd_addrlen s - 1) w u = (Inr (), u\<lparr>sd_ram := (sd_ram u)[2 ^ sd_addrlen s - 1 := w]\<rparr>)"
    if "length (sd_ram u) = length (sd_ram s)" for w u
    unfolding a by (rule ram_set_run) (use that len in simp)
  show thesis
    by (rule that, simp add: dev_init_def eff_simps cache_put_def set last)
      (use p assms write_three [OF len(1), of "2 ^ sd_addrlen s - 1"] in \<open>auto simp: dev_idle_def base_caches_def\<close>)
qed

lemma insertSeq_idle:
  assumes idle: "dev_idle s" and tg: "targets_in (sd_seq s) (sd_seq s)"
    and ne: "sd_seq s \<noteq> []" and room: "int (length (sd_seq s)) + 4 \<le> 2 ^ sd_addrlen s"
  shows "insertSeq s = (Inr 2, s\<lparr>sd_ram := ram_write (sd_ram s) 3 (map (placed_word 3) (sd_seq s)),
      sd_caches := sd_caches s @ [(3, \<lparr>sc_index = 2, sc_size = int (length (sd_seq s)), sc_instr = sd_seq s\<rparr>)],
      sd_indices := 7\<rparr>)"
proof -
  have i: "3 \<le> sd_addrlen s" "2 ^ sd_addrlen s \<le> length (sd_ram s)" "sd_caches s = base_caches (sd_addrlen s)" "sd_indices s = 3"
    using idle by (simp_all add: dev_idle_def)
  have fit: "best_fit (int (length (sd_seq s))) 0 (2 ^ sd_addrlen s, 0) (sd_caches s) = (2 ^ sd_addrlen s - 4, int 3)"
    using best_fit_idle [OF i(1) _ room] ne i(3) by simp
  have fr: "free_index (sd_indices s) (-3) = int 2" using i(4) by (simp add: free_index_3)
  have len: "3 + length (sd_seq s) \<le> length (sd_ram s)" using room_nat [OF room i(2)] by simp
  have upd: "AList.update 3 c (sd_caches s) = sd_caches s @ [(3, c)]" for c
    using pow_ge_8 [OF i(1)] by (simp add: i(3) base_caches_def)
  have or7: "sd_indices s OR push_bit 2 1 = 7" using i(4) by simp
  show ?thesis
    using insertSeq_run [OF fit _ _ fr tg len] i(4) upd or7 by simp
qed

lemma insertSeq_loads:
  assumes "dev_idle s" and "targets_in (sd_seq s) (sd_seq s)" "sd_seq s \<noteq> []"
    and "int (length (sd_seq s)) + 4 \<le> 2 ^ sd_addrlen s"
  obtains t where "insertSeq s = (Inr 2, t)" and "dev_loaded (sd_seq s) t" and "sd_addrlen t = sd_addrlen s"
    and "sd_id t = sd_id s" and "sd_jump t = sd_jump s" and "sd_en t = sd_en s" and "sd_restarts t = sd_restarts s"
proof (rule that [OF insertSeq_idle [OF assms]])
  have len: "length (sd_seq s) + 4 \<le> length (sd_ram s)" and i: "3 \<le> sd_addrlen s" "2 ^ sd_addrlen s \<le> length (sd_ram s)"
    using assms(1) room_nat [OF assms(4), of "length (sd_ram s)"] by (simp_all add: dev_idle_def)
  show "dev_loaded (sd_seq s) (s\<lparr>sd_ram := ram_write (sd_ram s) 3 (map (placed_word 3) (sd_seq s)),
      sd_caches := sd_caches s @ [(3, \<lparr>sc_index = 2, sc_size = int (length (sd_seq s)), sc_instr = sd_seq s\<rparr>)],
      sd_indices := 7\<rparr>)"
    using assms(1) len by (simp add: dev_loaded_def dev_idle_def ram_write_def)
qed simp_all

lemma removeSeq_idle:
  assumes "dev_loaded p s"
  obtains t where "removeSeq 2 s = (Inr 0, t)" and "dev_idle t" and "sd_seq t = sd_seq s" and "sd_addrlen t = sd_addrlen s"
    and "sd_id t = sd_id s" and "sd_jump t = sd_jump s" and "sd_en t = sd_en s" and "sd_restarts t = sd_restarts s"
proof -
  have i: "3 \<le> sd_addrlen s" "2 ^ sd_addrlen s \<le> length (sd_ram s)" "sd_indices s = 7"
    "sd_caches s = base_caches (sd_addrlen s) @ [(3, \<lparr>sc_index = 2, sc_size = int (length p), sc_instr = p\<rparr>)]"
    using assms by (simp_all add: dev_loaded_def)
  have len: "3 < length (sd_ram s)" using i(1,2) power_increasing [of 3 "sd_addrlen s" "2::nat"] by simp
  have ram: "ram_set 3 3 u = (Inr (), u\<lparr>sd_ram := (sd_ram u)[3 := 3]\<rparr>)" if "sd_ram u = sd_ram s" for u
    using ram_set_run [of 3 u 3] len that by simp
  show thesis
    by (rule that, simp add: removeSeq_def eff_simps i(3,4) base_caches_def ram)
      (use i pow_ge_8 [OF i(1)] in \<open>simp_all add: dev_idle_def base_caches_def\<close>)
qed

lemma removeSeq_absent: "dev_idle s \<Longrightarrow> removeSeq 2 s = (Inr (-1), s)"
  by (simp add: dev_idle_def removeSeq_def eff_simps)

section \<open>What the client writes\<close>

definition u32_ok :: "u32conv \<Rightarrow> bool" where
  "u32_ok u \<longleftrightarrow> (\<forall>x. 0 \<le> x \<and> x < 2 ^ 32 \<longrightarrow> u x = Inr x)"

definition in_u32 :: "int \<Rightarrow> bool" where
  "in_u32 x \<longleftrightarrow> 0 \<le> x \<and> x < 2 ^ 32"

lemma u32_in: "u32_ok u \<Longrightarrow> in_u32 x \<Longrightarrow> u x = Inr x"
  by (simp add: u32_ok_def in_u32_def)

lemma u32_small: "u32_ok u \<Longrightarrow> u 0 = Inr 0" "u32_ok u \<Longrightarrow> u 1 = Inr 1" "u32_ok u \<Longrightarrow> u 2 = Inr 2"
  by (simp_all add: u32_ok_def)

lemma smap_u32: "u32_ok u \<Longrightarrow> list_all in_u32 xs \<Longrightarrow> smap u xs = Inr xs"
  by (induction xs) (simp_all add: u32_in)

text \<open>A program for a device with so many address bits.\<close>

definition program_ok :: "nat \<Rightarrow> instr list \<Rightarrow> bool" where
  "program_ok n p \<longleftrightarrow> p \<noteq> [] \<and> int (length p) + 4 \<le> 2 ^ n \<and> in_u32 (int (length p)) \<and> targets_in p p \<and>
     list_all (\<lambda>i. \<not> is_beam i \<and> list_all in_u32 (instr_args i)) p"

lemma encoding_u32: "list_all in_u32 (instr_args i) \<Longrightarrow> list_all in_u32 (encoding i)"
  by (cases i) (simp_all add: encoding_def in_u32_def numeral_eq_Suc)

lemma seq_encoding_u32: "program_ok n p \<Longrightarrow> list_all in_u32 (seq_encoding p)"
  by (auto simp: program_ok_def seq_encoding_def list_all_iff encoding_u32 [unfolded list_all_iff])

lemma program_filter: "program_ok n p \<Longrightarrow> filter (\<lambda>i. \<not> is_beam i) p = p"
  by (auto simp: program_ok_def list_all_iff intro: filter_True)

lemma decode_seq_encoding: "decode_seq (seq_encoding p) = map device_instr (filter (\<lambda>i. \<not> is_beam i) p)"
  using read_instrs_encoding [of p "[]"] by (simp add: decode_seq_def seq_encoding_def)

lemma branch_target_device: "branch_target (device_instr i) = branch_target i"
  by (cases i) simp_all

lemma program_device: "program_ok n p \<Longrightarrow> targets_in (map device_instr p) (map device_instr p)"
  by (auto simp: program_ok_def targets_in_def list_all_iff branch_target_device)

section \<open>Starting a sequence\<close>

definition dev_started :: "int \<Rightarrow> int \<Rightarrow> seq_dev \<Rightarrow> seq_dev" where
  "dev_started a sync d = d\<lparr>
     sd_jump := (((sd_jump d AND NOT 0xffff) OR (0xffff AND ((a AND 0xfff) OR push_bit 12 (0 AND 0xf)))) AND NOT 0xffff0000)
       OR (0xffff0000 AND push_bit 16 sync),
     sd_en := sd_en d OR push_bit (sd_id d) 1, sd_restarts := sd_restarts d @ [push_bit (sd_id d) 1]\<rparr>"

lemma dev_started_jump:
  assumes "0 \<le> a" and "a < 0x1000"
  shows "sd_jump (dev_started a sync d) AND 0xffff = a"
proof -
  have m: "(0xffff :: int) = mask 16" "(0xfff :: int) = mask 12" "(0xffff0000 :: int) = push_bit 16 (mask 16)"
    by (simp_all add: mask_eq_exp_minus_1 push_bit_eq_mult)
  have a: "a AND mask 12 = a" using assms by (simp add: take_bit_eq_mask [symmetric] take_bit_int_eq_self)
  have b: "bit a n \<Longrightarrow> n < 12" for n
  proof -
    assume "bit a n"
    then have "bit (a AND mask 12) n" by (simp only: a)
    then show "n < 12" by (simp add: bit_and_iff bit_mask_iff)
  qed
  show ?thesis
    unfolding dev_started_def m
    by (rule bit_eqI) (auto simp: bit_simps a dest: b)
qed

lemma pv_start_run:
  assumes "u32_ok u" and "find (\<lambda>kc. sc_index (snd kc) = sp_runidx s) (sd_caches (sp_eng s)) = Some (key, c)" and "0 \<le> key"
  shows "pv_start u sync s = (Inr (), s\<lparr>sp_running := (if 1 < sp_runidx s then 1 else 0), sp_eng := dev_started key sync (sp_eng s)\<rparr>)"
  using assms
  by (simp add: pv_start_def eff_simps u32_small on_eng_def dev_enable_def setAddress_def setManStart_def setManSync_def
      dev_reset_def dev_started_def)

lemma find_base: "find (\<lambda>kc. sc_index (snd kc) = 0) (base_caches n @ cs) = Some (hd (base_caches n))"
  by (simp add: base_caches_def)

lemma find_loaded:
  "find (\<lambda>kc. sc_index (snd kc) = 2) (base_caches n @ [(3, \<lparr>sc_index = 2, sc_size = m, sc_instr = p\<rparr>)]) =
    Some (3, \<lparr>sc_index = 2, sc_size = m, sc_instr = p\<rparr>)"
  by (simp add: base_caches_def)

lemma dev_idle_started [simp]: "dev_idle (dev_started a sync d) = dev_idle d"
  by (simp add: dev_idle_def dev_started_def)

lemma dev_loaded_started [simp]: "dev_loaded p (dev_started a sync d) = dev_loaded p d"
  by (simp add: dev_loaded_def dev_started_def)

definition pvs_ready :: "seq_pvs \<Rightarrow> bool" where
  "pvs_ready s \<longleftrightarrow> (sp_seqidx s = 0 \<and> dev_idle (sp_eng s)) \<or> (sp_seqidx s = 2 \<and> (\<exists>p. dev_loaded p (sp_eng s)))"

lemma seq_stop_run:
  assumes u: "u32_ok u" and r: "pvs_ready s"
  shows "seq_stop u s = (Inr (), s\<lparr>sp_runidx := 0, sp_running := 0, sp_eng := dev_started 0 0 (sp_eng s)\<rparr>)"
proof -
  obtain c where "find (\<lambda>kc. sc_index (snd kc) = 0) (sd_caches (sp_eng s)) = Some (0, c)"
    using r find_base [of "sd_addrlen (sp_eng s)"] find_base [of "sd_addrlen (sp_eng s)" "[]"]
    by (auto simp: pvs_ready_def dev_idle_def dev_loaded_def base_caches_def)
  then show ?thesis using u
    by (simp add: seq_stop_def pv_put_def eff_simps u32_small pv_forceReset_def pv_start_run)
qed

section \<open>Cleaning\<close>

lemma clean_body_loaded:
  assumes u: "u32_ok u" and d: "dev_loaded p (sp_eng s)"
  obtains e where "clean_body u 2 s = (Inr (), s\<lparr>sp_rmvidx := 2, sp_seqidx := 0, sp_eng := e\<rparr>)" and "dev_idle e"
    and "sd_addrlen e = sd_addrlen (sp_eng s)" and "sd_id e = sd_id (sp_eng s)"
proof -
  obtain e where e: "removeSeq 2 (sp_eng s) = (Inr 0, e)" "dev_idle e" "sd_addrlen e = sd_addrlen (sp_eng s)" "sd_id e = sd_id (sp_eng s)"
    using removeSeq_idle [OF d] by metis
  show thesis
    by (rule that [of e], simp add: clean_body_def pv_put_def eff_simps u32_small [OF u] pv_rmvseq_def NSubSeq_def on_eng_def
        e(1) removeSeq_absent [OF e(2)]) (use e in simp_all)
qed

lemma seq_clean_ready:
  assumes u: "u32_ok u" and r: "pvs_ready s"
  obtains t where "seq_clean u s = Some (Inr (), t)" and "dev_idle (sp_eng t)" and "sp_seqidx t = 0"
    and "sd_addrlen (sp_eng t) = sd_addrlen (sp_eng s)"
proof (cases "sp_seqidx s = 0")
  case True
  then show thesis using r by (intro that [of s]) (simp_all add: pvs_ready_def seq_clean.simps)
next
  case False
  then obtain p where d: "dev_loaded p (sp_eng s)" and i: "sp_seqidx s = 2" using r by (auto simp: pvs_ready_def)
  obtain e where e: "clean_body u 2 s = (Inr (), s\<lparr>sp_rmvidx := 2, sp_seqidx := 0, sp_eng := e\<rparr>)" "dev_idle e"
    "sd_addrlen e = sd_addrlen (sp_eng s)" "sd_id e = sd_id (sp_eng s)"
    using clean_body_loaded [OF u d] by metis
  have run: "seq_clean u s = Some (Inr (), s\<lparr>sp_rmvidx := 2, sp_seqidx := 0, sp_eng := e\<rparr>)"
    by (subst seq_clean.simps, simp add: i e(1), subst seq_clean.simps, simp)
  show thesis by (rule that [OF run]) (use e in simp_all)
qed

section \<open>Loading and starting\<close>

lemma seq_load_idle:
  assumes u: "u32_ok u" and d: "dev_idle (sp_eng s)" and p: "program_ok (sd_addrlen (sp_eng s)) p"
  obtains t where "seq_load u title p ds i0 s = (Inr 2, t)" and "sp_seqidx t = 2"
    and "dev_loaded (map device_instr p) (sp_eng t)" and "sd_addrlen (sp_eng t) = sd_addrlen (sp_eng s)"
proof -
  let ?q = "map device_instr p"
  let ?e = "(sp_eng s)\<lparr>sd_seq := ?q\<rparr>"
  have q: "decode_seq (seq_encoding p) = ?q" by (simp add: decode_seq_encoding program_filter [OF p])
  have len: "in_u32 (int (length p))" "p \<noteq> []" "int (length p) + 4 \<le> 2 ^ sd_addrlen (sp_eng s)"
    using p by (simp_all add: program_ok_def)
  have idle: "dev_idle ?e" using d by (simp add: dev_idle_def)
  obtain e where e: "insertSeq ?e = (Inr 2, e)" "dev_loaded ?q e" "sd_addrlen e = sd_addrlen (sp_eng s)"
    using insertSeq_loads [OF idle] program_device [OF p] len by auto
  have "seq_load u title p ds i0 s = (Inr 2, (case ds of None \<Rightarrow> id | Some b \<Rightarrow> sp_bdesc_update (\<lambda>_. b))
      (s\<lparr>sp_desc := title, sp_instrcnt := int (length p), sp_seqidx := 2, sp_eng := e\<rparr>))"
    by (cases ds) (simp_all add: seq_load_def eff_simps smap_u32 [OF u seq_encoding_u32 [OF p]] pv_instrs_def on_eng_def cacheSeq_def q
        u32_in [OF u len(1)] u32_small [OF u] pv_put_def pv_ins_def e(1))
  then show thesis by (rule that) (use e in \<open>simp_all split: option.split\<close>)
qed

lemma seq_begin_loaded:
  assumes u: "u32_ok u" and d: "dev_loaded q (sp_eng s)"
  shows "seq_begin u 2 s = (Inr (), s\<lparr>sp_runidx := 2, sp_running := 1, sp_eng := dev_started 3 0 (sp_eng s)\<rparr>)"
proof -
  have "find (\<lambda>kc. sc_index (snd kc) = 2) (sd_caches (sp_eng s)) =
      Some (3, \<lparr>sc_index = 2, sc_size = int (length q), sc_instr = q\<rparr>)"
    using d by (simp add: dev_loaded_def find_loaded)
  then show ?thesis using u
    by (simp add: seq_begin_def pv_put_def eff_simps u32_small pv_forceReset_def pv_schedReset_def pv_start_run)
qed

lemma seq_execute_ready:
  assumes u: "u32_ok u" and r: "pvs_ready s" and p: "program_ok (sd_addrlen (sp_eng s)) p"
  obtains t where "seq_execute u title p ds i0 s = Some (Inr 2, t)" and "pvs_ready t" and "sp_runidx t = 2" and "sp_running t = 1"
    and "dev_loaded (map device_instr p) (sp_eng t)" and "sd_jump (sp_eng t) AND 0xffff = 3"
    and "sd_addrlen (sp_eng t) = sd_addrlen (sp_eng s)"
proof -
  let ?s1 = "s\<lparr>sp_runidx := 0, sp_running := 0, sp_eng := dev_started 0 0 (sp_eng s)\<rparr>"
  have one: "eseq (pv_put u (pv_ins u) 0) (seq_stop u) s = (Inr (), ?s1)"
    by (simp add: pv_put_def eff_simps u32_small [OF u] pv_ins_def seq_stop_run [OF u r])
  have r1: "pvs_ready ?s1" using r by (simp add: pvs_ready_def)
  obtain s2 where s2: "seq_clean u ?s1 = Some (Inr (), s2)" "dev_idle (sp_eng s2)" "sp_seqidx s2 = 0"
    "sd_addrlen (sp_eng s2) = sd_addrlen (sp_eng s)"
    using seq_clean_ready [OF u r1] by (auto simp: dev_started_def)
  obtain s3 where s3: "seq_load u title p ds i0 s2 = (Inr 2, s3)" "sp_seqidx s3 = 2"
    "dev_loaded (map device_instr p) (sp_eng s3)" "sd_addrlen (sp_eng s3) = sd_addrlen (sp_eng s)"
    using seq_load_idle [OF u s2(2), of p] p s2(4) by metis
  have run: "seq_execute u title p ds i0 s = Some (Inr 2, s3\<lparr>sp_runidx := 2, sp_running := 1, sp_eng := dev_started 3 0 (sp_eng s3)\<rparr>)"
    unfolding seq_execute_def one by (simp add: s2(1) eff_simps s3(1) seq_begin_loaded [OF u s3(3)])
  have "sd_jump (dev_started 3 0 (sp_eng s3)) AND 0xffff = 3" by (rule dev_started_jump) simp_all
  moreover have "sd_addrlen (dev_started 3 0 (sp_eng s3)) = sd_addrlen (sp_eng s)" using s3(4) by (simp add: dev_started_def)
  ultimately show thesis using s3 by (intro that [OF run]) (auto simp: pvs_ready_def)
qed

end
