(* ===== verification/SeqPlay.thy ===== *)
theory SeqPlay
  imports SeqInstr
begin

unbundle bit_operations_syntax

text \<open>
  How a sequence plays: runs of the engine with the points they plot, loops by counted branches,
  the waits of the synchronising instructions, and the sequences of the scripts \<^verbatim>\<open>10k.py\<close>,
  \<^verbatim>\<open>40k.py\<close> and \<^verbatim>\<open>burst.py\<close> of \<^verbatim>\<open>psdaq/psdaq/seq\<close>.
\<close>

section \<open>Runs\<close>

inductive plays :: "instr list \<Rightarrow> int \<Rightarrow> engine \<Rightarrow> (int \<times> nat) list \<Rightarrow> engine \<Rightarrow> bool" for prog start where
  plays_refl: "plays prog start e [] e"
| plays_step: "\<lbrakk>seq_step prog e = Some (Inr e1); plays prog start e1 ps e2\<rbrakk> \<Longrightarrow>
    plays prog start e (points start e e1 @ ps) e2"

lemma plays_one: "seq_step prog e = Some (Inr e1) \<Longrightarrow> plays prog start e (points start e e1) e1"
  using plays_step [OF _ plays_refl] by simp

lemma plays_trans: "plays prog start e ps e1 \<Longrightarrow> plays prog start e1 qs e2 \<Longrightarrow> plays prog start e (ps @ qs) e2"
  by (induction rule: plays.induct) (auto intro: plays_step)

text \<open>The loop of the plot makes such a run.\<close>

lemma seq_plot_plays:
  "seq_plot n prog start stop e = Some (Inr (ps, e1)) \<Longrightarrow> plays prog start e ps e1"
proof (induction n arbitrary: e ps)
  case 0
  then show ?case by (subst (asm) seq_plot.simps) (auto split: if_splits intro: plays_refl)
next
  case (Suc n)
  show ?case
  proof (cases "frame_number e < stop \<and> \<not> eg_done e")
    case True
    then obtain e2 qs where "seq_step prog e = Some (Inr e2)" "seq_plot n prog start stop e2 = Some (Inr (qs, e1))"
      "ps = points start e e2 @ qs"
      using Suc.prems
      unfolding seq_plot.simps [of "Suc n"] by (auto simp: map_option_case sbind_Inr split: option.splits sum.splits)
    then show ?thesis using Suc.IH by (auto intro: plays_step)
  next
    case False
    then show ?thesis using Suc.prems by (subst (asm) seq_plot.simps) (auto intro: plays_refl)
  qed
qed

definition count_bit :: "nat \<Rightarrow> (int \<times> nat) list \<Rightarrow> nat" where
  "count_bit j ps = length (filter (\<lambda>p. snd p = j) ps)"

lemma count_bit_simps [simp]: "count_bit j [] = 0" "count_bit j (ps @ qs) = count_bit j ps + count_bit j qs"
  by (simp_all add: count_bit_def)

text \<open>
  A loop that a counter ends: \<open>A k\<close> holds at its first line with the counter at \<open>k\<close>, \<open>B k\<close> at
  the branch, \<open>C\<close> after it. The body runs once more than the value of the branch.
\<close>

lemma counted_loop:
  assumes body: "\<And>k f e. A k f e \<Longrightarrow> s \<le> f \<Longrightarrow> \<exists>ps e1. plays prog start e ps e1 \<and> (\<forall>j<16. count_bit j ps = m j) \<and> B k (f + int d) e1"
    and again: "\<And>k f e. B k f e \<Longrightarrow> k < n \<Longrightarrow> \<exists>e1. plays prog start e [] e1 \<and> A (Suc k) f e1"
    and out: "\<And>f e. B n f e \<Longrightarrow> \<exists>e1. plays prog start e [] e1 \<and> C f e1"
  shows "k \<le> n \<Longrightarrow> A k f e \<Longrightarrow> s \<le> f \<Longrightarrow>
    \<exists>ps e1. plays prog start e ps e1 \<and> (\<forall>j<16. count_bit j ps = (Suc n - k) * m j) \<and> C (f + int ((Suc n - k) * d)) e1"
proof (induction "n - k" arbitrary: k f e)
  case 0
  obtain ps e1 where b: "plays prog start e ps e1" "\<forall>j<16. count_bit j ps = m j" "B k (f + int d) e1"
    using body [OF 0(3,4)] by blast
  have k: "k = n" using 0 by simp
  obtain e2 where "plays prog start e1 [] e2" "C (f + int d) e2" using out b(3) k by blast
  then have "plays prog start e ps e2" "C (f + int d) e2" using plays_trans [OF b(1), of "[]" e2] by auto
  then show ?case using b(2) k by auto
next
  case (Suc x)
  obtain ps e1 where b: "plays prog start e ps e1" "\<forall>j<16. count_bit j ps = m j" "B k (f + int d) e1"
    using body [OF Suc(4,5)] by blast
  have "k < n" using Suc(2) by simp
  then obtain e2 where e2: "plays prog start e1 [] e2" "A (Suc k) (f + int d) e2" using again [OF b(3)] by blast
  have "x = n - Suc k" "Suc k \<le> n" "s \<le> f + int d" using Suc(2,5) by auto
  then obtain qs e3 where e3: "plays prog start e2 qs e3" "\<forall>j<16. count_bit j qs = (Suc n - Suc k) * m j"
    "C (f + int d + int ((Suc n - Suc k) * d)) e3"
    using Suc.hyps(1) [of "Suc k" "f + int d" e2] e2(2) by blast
  have split: "Suc n - k = Suc (Suc n - Suc k)" using Suc(2) by simp
  have "plays prog start e (ps @ qs) e3" using plays_trans [OF b(1) plays_trans [OF e2(1) e3(1)]] by simp
  moreover have "\<forall>j<16. count_bit j (ps @ qs) = (Suc n - k) * m j" using b(2) e3(2) unfolding split by simp
  moreover have "C (f + int ((Suc n - k) * d)) e3" using e3(3) unfolding split by (simp add: algebra_simps)
  ultimately show ?case by blast
qed

section \<open>Synchronising\<close>

text \<open>A fixed rate sync goes to the multiple of the interval as many after the frame as it says.\<close>

lemma exec_fixed_frame:
  assumes "0 < intv" and "1 \<le> occ"
  shows "eg_frame (exec_fixed intv occ e) = intv * (eg_frame e div intv + occ)" and "eg_request (exec_fixed intv occ e) = 0"
proof -
  have "eg_frame e mod intv < intv" "intv * 1 \<le> intv * occ"
    using assms mult_left_mono [of 1 occ intv] by simp_all
  then have pos: "0 < intv * occ - eg_frame e mod intv" by simp
  show "eg_request (exec_fixed intv occ e) = 0" using pos by (simp add: exec_fixed_def Let_def)
  have "eg_frame e = intv * (eg_frame e div intv) + eg_frame e mod intv" by simp
  then have "eg_frame e + (intv * occ - eg_frame e mod intv) = intv * (eg_frame e div intv) + intv * occ" by linarith
  then show "eg_frame (exec_fixed intv occ e) = intv * (eg_frame e div intv + occ)"
    using pos by (simp add: exec_fixed_def Let_def algebra_simps)
qed

text \<open>The wait for a timeslot ends at the first frame that matches.\<close>

lemma ac_wait_Some:
  assumes "ac_wait m v a = Some b"
  shows "a < b \<and> ac_match m v b \<and> (\<forall>c. a < c \<and> c < b \<longrightarrow> \<not> ac_match m v c)"
proof (rule ac_wait.raw_induct [OF _ assms, where P = "\<lambda>m v a b. a < b \<and> ac_match m v b \<and> (\<forall>c. a < c \<and> c < b \<longrightarrow> \<not> ac_match m v c)"])
  fix wait :: "int \<Rightarrow> int \<Rightarrow> int \<Rightarrow> int option" and m v a b
  assume IH: "\<And>m v a b. wait m v a = Some b \<Longrightarrow> a < b \<and> ac_match m v b \<and> (\<forall>c. a < c \<and> c < b \<longrightarrow> \<not> ac_match m v c)"
    and w: "(if ac_match m v (a + 1) then Some (a + 1) else wait m v (a + 1)) = Some b"
  show "a < b \<and> ac_match m v b \<and> (\<forall>c. a < c \<and> c < b \<longrightarrow> \<not> ac_match m v c)"
  proof (cases "ac_match m v (a + 1)")
    case False
    then have "wait m v (a + 1) = Some b" using w by simp
    note b = IH [OF this]
    have "\<not> ac_match m v c" if "a < c" "c < b" for c
      using b False that by (cases "c = a + 1") auto
    then show ?thesis using b by auto
  qed (use w in auto)
qed

lemma ac_wait_first:
  assumes "ac_match m v b" and "a < b"
  shows "\<exists>g. ac_wait m v a = Some g \<and> g \<le> b"
  using assms(2)
proof (induction "nat (b - a)" arbitrary: a)
  case (Suc n)
  show ?case
  proof (cases "ac_match m v (a + 1)")
    case True
    then show ?thesis using Suc.prems by (subst ac_wait.simps) auto
  next
    case False
    then have "a + 1 < b" using assms(1) Suc.prems by (cases "a + 1 = b") auto
    then show ?thesis using Suc.hyps False by (subst ac_wait.simps) auto
  qed
qed simp

lemma ac_match_exists:
  assumes "t < 6" and "bit m t" and "0 < v"
  shows "\<exists>b. a < b \<and> b \<le> a + 6 * v \<and> ac_match m v b"
proof -
  let ?q = "(a - int t) div (6 * v) + 1"
  let ?b = "6 * v * ?q + int t"
  have m: "(a - int t) mod (6 * v) < 6 * v" "0 \<le> (a - int t) mod (6 * v)" using assms(3) by simp_all
  have "a - int t = 6 * v * ((a - int t) div (6 * v)) + (a - int t) mod (6 * v)" by simp
  then have "a < ?b \<and> ?b \<le> a + 6 * v" using m unfolding distrib_left by linarith
  moreover have "?b mod 6 = int t" "?b div 6 = v * ?q" using assms(1) by (auto simp: mult.assoc)
  then have "ac_match m v ?b" using assms(2) by (simp add: ac_match_def)
  ultimately show ?thesis by blast
qed

lemma ac_wait_none:
  assumes "\<And>b. \<not> ac_match m v b"
  shows "ac_wait m v a = None"
  using ac_wait_Some [of m v a] assms by (cases "ac_wait m v a") auto

end
