(* ===== verification/SeqScripts.thy ===== *)
theory SeqScripts
  imports SeqPlay
begin

unbundle bit_operations_syntax

text \<open>
  The sequences that the scripts \<^verbatim>\<open>10k.py\<close>, \<^verbatim>\<open>40k.py\<close>, \<^verbatim>\<open>burst.py\<close> and \<^verbatim>\<open>finite.py\<close> of
  \<^verbatim>\<open>psdaq/psdaq/seq\<close> make, and how they play.
\<close>

section \<open>The scripts\<close>

definition rate_bits :: "nat \<Rightarrow> nat \<Rightarrow> int" where
  "rate_bits np i = foldl (\<lambda>bits j. if i * (j + 1) mod np < j + 1 then bits OR push_bit j 1 else bits) 0 [0..<16]"

definition rate_pulse :: "nat \<Rightarrow> nat \<Rightarrow> instr list" where
  "rate_pulse np i = [ControlRequest (rate_bits np i), FixedRateSync 0 1]"

definition rate_script :: "nat \<Rightarrow> nat \<Rightarrow> instr list" where
  "rate_script np v = FixedRateSync 6 1 # concat (map (rate_pulse np) [0..<np]) @
     [BranchUntil 1 0 (int v), BranchUntil 1 1 (int v), BranchTo 0]"

definition script_10k :: "instr list" where
  "script_10k = rate_script 90 99"

definition script_40k :: "instr list" where
  "script_40k = rate_script 22 199"

text \<open>The scripts \<open>burst.py\<close> and \<open>finite.py\<close>: the loops of four bits.\<close>

definition burst_loop :: "nat \<Rightarrow> int \<Rightarrow> int \<Rightarrow> instr list \<Rightarrow> instr list" where
  "burst_loop i bits v instrset =
     instrset @ [ControlRequest (push_bit (4 * i) bits), FixedRateSync 0 (int i + 1), BranchUntil (int (length instrset)) 0 v]"

definition burst_bits :: "nat \<Rightarrow> instr list \<Rightarrow> instr list" where
  "burst_bits i instrset =
     burst_loop i 0x8 7 (burst_loop i 0xc 3 (burst_loop i 0xe 1 (burst_loop i 0xf 1 instrset)))"

definition script_burst :: "instr list" where
  "script_burst = foldl (\<lambda>is i. burst_bits i is) [FixedRateSync 6 1] [0..<4] @ [BranchTo 0]"

definition script_finite :: "instr list" where
  "script_finite = (let is = foldl (\<lambda>is i. burst_bits i is) [FixedRateSync 6 1] [0..<4] @ [CheckPoint]
     in is @ [BranchTo (int (length is))])"

section \<open>The lines of a rate script\<close>

lemma concat_pairs:
  "length (concat (map (\<lambda>i. [f i, g i]) [0..<n])) = 2 * n"
  "i < n \<Longrightarrow> concat (map (\<lambda>i. [f i, g i]) [0..<n]) ! (2 * i) = f i"
  "i < n \<Longrightarrow> concat (map (\<lambda>i. [f i, g i]) [0..<n]) ! Suc (2 * i) = g i"
proof -
  show len: "length (concat (map (\<lambda>i. [f i, g i]) [0..<n])) = 2 * n" for n by (induction n) simp_all
  show "i < n \<Longrightarrow> concat (map (\<lambda>i. [f i, g i]) [0..<n]) ! (2 * i) = f i"
    and "i < n \<Longrightarrow> concat (map (\<lambda>i. [f i, g i]) [0..<n]) ! Suc (2 * i) = g i"
    by (induction n) (auto simp: nth_append len less_Suc_eq)
qed

lemma rate_script_lines:
  "rate_script np v ! 0 = FixedRateSync 6 1"
  "i < np \<Longrightarrow> rate_script np v ! Suc (2 * i) = ControlRequest (rate_bits np i)"
  "i < np \<Longrightarrow> rate_script np v ! Suc (Suc (2 * i)) = FixedRateSync 0 1"
  "rate_script np v ! (2 * np + 1) = BranchUntil 1 0 (int v)"
  "rate_script np v ! (2 * np + 2) = BranchUntil 1 1 (int v)"
  "rate_script np v ! (2 * np + 3) = BranchTo 0"
  "length (rate_script np v) = 2 * np + 4"
  by (simp_all add: rate_script_def rate_pulse_def [abs_def] nth_append concat_pairs)

lemma bit_rate_bits: "bit (rate_bits np i) j \<longleftrightarrow> j < 16 \<and> i * (j + 1) mod np < j + 1"
proof -
  have "bit (foldl (\<lambda>bits j. if P j then bits OR push_bit j 1 else bits) b [0..<n]) j \<longleftrightarrow> bit b j \<or> (j < n \<and> P j)"
    for P and b :: int and n
    by (induction n) (auto simp: bit_simps less_Suc_eq)
  then show ?thesis by (simp add: rate_bits_def)
qed

text \<open>The state of the engine at a line: the frame and the first two counters.\<close>

definition at_line :: "nat \<Rightarrow> int \<Rightarrow> nat \<Rightarrow> nat \<Rightarrow> engine \<Rightarrow> bool" where
  "at_line l f k0 k1 e \<longleftrightarrow> eg_instr e = int l \<and> eg_frame e = f \<and> eg_ccnt e = [int k0, int k1, 0, 0] \<and> eg_request e = 0 \<and>
     \<not> eg_acmode e \<and> \<not> eg_done e"

lemma step_at:
  "at_line l f k0 k1 e \<Longrightarrow> l < length prog \<Longrightarrow> seq_step prog e = execute (prog ! l) e"
  by (simp add: at_line_def seq_step_def py_nth_def)

lemma count_bit_points:
  "j < 16 \<Longrightarrow> count_bit j (map (\<lambda>i. (f, i)) (filter P [0..<16])) = (if P j then 1 else 0)"
proof -
  assume j: "j < 16"
  have "length (filter (\<lambda>i. P i \<and> i = j) [0..<n]) = (if j < n \<and> P j then 1 else 0)" for n
    by (induction n) (auto simp: less_Suc_eq)
  then show ?thesis using j by (simp add: count_bit_def filter_map o_def)
qed

section \<open>How a rate script plays\<close>

lemma pulse_plays:
  assumes at: "at_line (Suc (2 * i)) f k0 k1 e" and i: "i < np" and f: "start \<le> f"
  shows "\<exists>ps e1. plays (rate_script np v) start e ps e1 \<and> at_line (Suc (2 * Suc i)) (f + 1) k0 k1 e1 \<and>
    (\<forall>j<16. count_bit j ps = (if bit (rate_bits np i) j then 1 else 0))"
proof -
  let ?p = "rate_script np v" and ?b = "rate_bits np i"
  let ?e1 = "e\<lparr>eg_request := ?b, eg_instr := eg_instr e + 1\<rparr>"
  let ?e2 = "exec_fixed 1 1 ?e1"
  have l: "Suc (2 * i) < length ?p" "Suc (Suc (2 * i)) < length ?p" using i by (simp_all add: rate_script_lines)
  have s1: "seq_step ?p e = Some (Inr ?e1)" using i by (simp add: step_at [OF at l(1)] rate_script_lines)
  have "seq_step ?p ?e1 = execute (?p ! Suc (Suc (2 * i))) ?e1" using at l by (simp add: at_line_def seq_step_def py_nth_def nat_add_distrib nat_mult_distrib)
  then have s2: "seq_step ?p ?e1 = Some (Inr ?e2)"
    using i by (simp add: rate_script_lines FixedIntvs_def py_nth_def sbind_def)
  have fr: "eg_frame ?e2 = f + 1" "eg_request ?e2 = 0" using exec_fixed_frame [of 1 1 ?e1] at by (simp_all add: at_line_def)
  have "at_line (Suc (2 * Suc i)) (f + 1) k0 k1 ?e2" using at fr by (simp add: at_line_def exec_fixed_def Let_def)
  moreover have "points start e ?e1 = []" by (simp add: points_def frame_number_def)
  moreover have "points start ?e1 ?e2 = map (\<lambda>j. (f, j)) (filter (bit ?b) [0..<16])"
    using at f fr(1) by (auto simp: points_def frame_number_def at_line_def exec_fixed_def Let_def)
  ultimately show ?thesis
    using plays_trans [OF plays_one [OF s1, of start] plays_one [OF s2, of start]]
    by (intro exI [of _ "map (\<lambda>j. (f, j)) (filter (bit ?b) [0..<16])"] exI [of _ ?e2]) (simp add: count_bit_points)
qed

lemma pulses_play:
  assumes at: "at_line 1 f k0 k1 e" and f: "start \<le> f"
  shows "i \<le> np \<Longrightarrow> \<exists>ps e1. plays (rate_script np v) start e ps e1 \<and> at_line (Suc (2 * i)) (f + int i) k0 k1 e1 \<and>
    (\<forall>j<16. count_bit j ps = length (filter (\<lambda>x. bit (rate_bits np x) j) [0..<i]))"
proof (induction i)
  case 0
  then show ?case using at plays_refl by fastforce
next
  case (Suc i)
  then obtain ps e1 where 1: "plays (rate_script np v) start e ps e1" "at_line (Suc (2 * i)) (f + int i) k0 k1 e1"
    "\<forall>j<16. count_bit j ps = length (filter (\<lambda>x. bit (rate_bits np x) j) [0..<i])" by auto
  obtain qs e2 where 2: "plays (rate_script np v) start e1 qs e2" "at_line (Suc (2 * Suc i)) (f + int i + 1) k0 k1 e2"
    "\<forall>j<16. count_bit j qs = (if bit (rate_bits np i) j then 1 else 0)"
    using pulse_plays [OF 1(2), of np start v] Suc.prems f by auto
  show ?case using plays_trans [OF 1(1) 2(1)] 1(3) 2(2,3) by (intro exI [of _ "ps @ qs"] exI [of _ e2]) (simp add: ac_simps)
qed

definition per_body :: "nat \<Rightarrow> nat \<Rightarrow> nat" where
  "per_body np j = length (filter (\<lambda>x. bit (rate_bits np x) j) [0..<np])"

text \<open>The branches.\<close>

lemma branch_step:
  assumes at: "at_line l f k0 k1 e" and p: "l < length prog"
  shows "prog ! l = BranchUntil a 0 (int v) \<Longrightarrow> k0 \<noteq> v \<Longrightarrow> \<exists>e1. plays prog start e [] e1 \<and> (a = int b \<longrightarrow> at_line b f (Suc k0) k1 e1)"
    and "prog ! l = BranchUntil a 0 (int v) \<Longrightarrow> k0 = v \<Longrightarrow> \<exists>e1. plays prog start e [] e1 \<and> at_line (Suc l) f 0 k1 e1"
    and "prog ! l = BranchUntil a 1 (int v) \<Longrightarrow> k1 \<noteq> v \<Longrightarrow> \<exists>e1. plays prog start e [] e1 \<and> (a = int b \<longrightarrow> at_line b f k0 (Suc k1) e1)"
    and "prog ! l = BranchUntil a 1 (int v) \<Longrightarrow> k1 = v \<Longrightarrow> \<exists>e1. plays prog start e [] e1 \<and> at_line (Suc l) f k0 0 e1"
    and "prog ! l = BranchTo 0 \<Longrightarrow> l \<noteq> 0 \<Longrightarrow> \<exists>e1. plays prog start e [] e1 \<and> at_line 0 f k0 k1 e1"
proof -
  have pl: "\<exists>e1. plays prog start e [] e1 \<and> Q e1"
    if "execute (prog ! l) e = Some (Inr e1)" "eg_frame e1 = eg_frame e" "eg_acframe e1 = eg_acframe e" "eg_acmode e1 = eg_acmode e" "Q e1" for e1 Q
    using plays_one [of prog e e1 start] that step_at [OF at p] by (auto simp: points_def frame_number_def)
  show "prog ! l = BranchUntil a 0 (int v) \<Longrightarrow> k0 \<noteq> v \<Longrightarrow> \<exists>e1. plays prog start e [] e1 \<and> (a = int b \<longrightarrow> at_line b f (Suc k0) k1 e1)"
    by (rule pl [of "e\<lparr>eg_instr := a, eg_ccnt := py_set_nth (eg_ccnt e) 0 (int k0 + 1)\<rparr>"])
      (use at in \<open>auto simp: py_nth_def sbind_def at_line_def py_set_nth_def\<close>)
  show "prog ! l = BranchUntil a 0 (int v) \<Longrightarrow> k0 = v \<Longrightarrow> \<exists>e1. plays prog start e [] e1 \<and> at_line (Suc l) f 0 k1 e1"
    by (rule pl [of "e\<lparr>eg_instr := eg_instr e + 1, eg_ccnt := py_set_nth (eg_ccnt e) 0 0\<rparr>"])
      (use at in \<open>auto simp: py_nth_def sbind_def at_line_def py_set_nth_def\<close>)
  show "prog ! l = BranchUntil a 1 (int v) \<Longrightarrow> k1 \<noteq> v \<Longrightarrow> \<exists>e1. plays prog start e [] e1 \<and> (a = int b \<longrightarrow> at_line b f k0 (Suc k1) e1)"
    by (rule pl [of "e\<lparr>eg_instr := a, eg_ccnt := py_set_nth (eg_ccnt e) 1 (int k1 + 1)\<rparr>"])
      (use at in \<open>auto simp: py_nth_def sbind_def at_line_def py_set_nth_def\<close>)
  show "prog ! l = BranchUntil a 1 (int v) \<Longrightarrow> k1 = v \<Longrightarrow> \<exists>e1. plays prog start e [] e1 \<and> at_line (Suc l) f k0 0 e1"
    by (rule pl [of "e\<lparr>eg_instr := eg_instr e + 1, eg_ccnt := py_set_nth (eg_ccnt e) 1 0\<rparr>"])
      (use at in \<open>auto simp: py_nth_def sbind_def at_line_def py_set_nth_def\<close>)
  show "prog ! l = BranchTo 0 \<Longrightarrow> l \<noteq> 0 \<Longrightarrow> \<exists>e1. plays prog start e [] e1 \<and> at_line 0 f k0 k1 e1"
    by (rule pl [of "e\<lparr>eg_done := (eg_done e \<or> eg_instr e = 0), eg_instr := 0\<rparr>"])
      (use at in \<open>auto simp: at_line_def\<close>)
qed

lemma inner_loop:
  assumes "at_line 1 f 0 k1 e" and "start \<le> f"
  shows "\<exists>ps e1. plays (rate_script np v) start e ps e1 \<and> (\<forall>j<16. count_bit j ps = Suc v * per_body np j) \<and>
    at_line (2 * np + 2) (f + int (Suc v * np)) 0 k1 e1"
proof -
  let ?p = "rate_script np v"
  have "\<exists>ps e1. plays ?p start e ps e1 \<and> (\<forall>j<16. count_bit j ps = (Suc v - 0) * per_body np j) \<and>
      at_line (2 * np + 2) (f + int ((Suc v - 0) * np)) 0 k1 e1"
  proof (rule counted_loop [where A = "\<lambda>k f e. at_line 1 f k k1 e" and B = "\<lambda>k f e. at_line (2 * np + 1) f k k1 e"
        and C = "\<lambda>f e. at_line (2 * np + 2) f 0 k1 e" and s = start and n = v])
    show "\<exists>ps e1. plays ?p start e ps e1 \<and> (\<forall>j<16. count_bit j ps = per_body np j) \<and> at_line (2 * np + 1) (f + int np) k k1 e1"
      if "at_line 1 f k k1 e" "start \<le> f" for k f e
      using pulses_play [OF that order_refl, of np v] by (auto simp: per_body_def)
    show "\<exists>e1. plays ?p start e [] e1 \<and> at_line 1 f (Suc k) k1 e1" if "at_line (2 * np + 1) f k k1 e" "k < v" for k f e
      using branch_step(1) [OF that(1), of ?p 1 v start 1] that(2) rate_script_lines(4,7) [of np v] by auto
    show "\<exists>e1. plays ?p start e [] e1 \<and> at_line (2 * np + 2) f 0 k1 e1" if "at_line (2 * np + 1) f v k1 e" for f e
      using branch_step(2) [OF that, of ?p 1 v start] rate_script_lines(4,7) [of np v] by auto
  qed (use assms in auto)
  then show ?thesis by simp
qed

lemma outer_loop:
  assumes "at_line 1 f 0 0 e" and "start \<le> f"
  shows "\<exists>ps e1. plays (rate_script np v) start e ps e1 \<and> (\<forall>j<16. count_bit j ps = Suc v * (Suc v * per_body np j)) \<and>
    at_line (2 * np + 3) (f + int (Suc v * (Suc v * np))) 0 0 e1"
proof -
  let ?p = "rate_script np v"
  have "\<exists>ps e1. plays ?p start e ps e1 \<and> (\<forall>j<16. count_bit j ps = (Suc v - 0) * (Suc v * per_body np j)) \<and>
      at_line (2 * np + 3) (f + int ((Suc v - 0) * (Suc v * np))) 0 0 e1"
  proof (rule counted_loop [where A = "\<lambda>k f e. at_line 1 f 0 k e" and B = "\<lambda>k f e. at_line (2 * np + 2) f 0 k e"
        and C = "\<lambda>f e. at_line (2 * np + 3) f 0 0 e" and s = start and n = v])
    show "\<exists>ps e1. plays ?p start e ps e1 \<and> (\<forall>j<16. count_bit j ps = Suc v * per_body np j) \<and>
        at_line (2 * np + 2) (f + int (Suc v * np)) 0 k e1"
      if "at_line 1 f 0 k e" "start \<le> f" for k f e
      using inner_loop [OF that] by blast
    show "\<exists>e1. plays ?p start e [] e1 \<and> at_line 1 f 0 (Suc k) e1" if "at_line (2 * np + 2) f 0 k e" "k < v" for k f e
      using branch_step(3) [OF that(1), of ?p 1 v start 1] that(2) rate_script_lines(5,7) [of np v] by auto
    show "\<exists>e1. plays ?p start e [] e1 \<and> at_line (2 * np + 3) f 0 0 e1" if "at_line (2 * np + 2) f 0 v e" for f e
      using branch_step(4) [OF that, of ?p 1 v start] rate_script_lines(5,7) [of np v] by (auto simp: numeral_3_eq_3)
  qed (use assms in auto)
  then show ?thesis by simp
qed

text \<open>One period, from the first line to the first line.\<close>

definition sync_frame :: "int \<Rightarrow> int" where
  "sync_frame f = 910000 * (f div 910000 + 1)"

lemma period_plays:
  assumes at: "at_line 0 f 0 0 e" and f: "start \<le> sync_frame f"
  shows "\<exists>ps e1. plays (rate_script np v) start e ps e1 \<and> (\<forall>j<16. count_bit j ps = (v + 1) ^ 2 * per_body np j) \<and>
    at_line 0 (sync_frame f + int ((v + 1) ^ 2 * np)) 0 0 e1"
proof -
  let ?p = "rate_script np v" and ?e1 = "exec_fixed 910000 1 e"
  have s1: "seq_step ?p e = Some (Inr ?e1)"
    using step_at [OF at, of ?p] by (simp add: rate_script_lines FixedIntvs_def py_nth_def sbind_def)
  have "at_line 1 (sync_frame f) 0 0 ?e1"
    using at exec_fixed_frame [of 910000 1 e] by (simp add: at_line_def exec_fixed_def Let_def sync_frame_def)
  then obtain ps e2 where e2: "plays ?p start ?e1 ps e2" "\<forall>j<16. count_bit j ps = Suc v * (Suc v * per_body np j)"
    "at_line (2 * np + 3) (sync_frame f + int (Suc v * (Suc v * np))) 0 0 e2"
    using outer_loop f by blast
  obtain e3 where e3: "plays ?p start e2 [] e3" "at_line 0 (sync_frame f + int (Suc v * (Suc v * np))) 0 0 e3"
    using branch_step(5) [OF e2(3), of ?p start] rate_script_lines(6,7) [of np v] by auto
  have "points start e ?e1 = []" using at by (simp add: points_def at_line_def)
  then have "plays ?p start e ps e3" using plays_trans [OF plays_one [OF s1] plays_trans [OF e2(1) e3(1)]] by simp
  then show ?thesis using e2(2) e3(2) by (intro exI [of _ ps] exI [of _ e3]) (simp add: power2_eq_square algebra_simps)
qed

text \<open>The script from the start, for so many periods.\<close>

lemma periods_play:
  assumes np: "(v + 1) ^ 2 * np < 910000"
  shows "\<exists>ps e. plays (rate_script np v) 0 (engine_init False) ps e \<and> (\<forall>j<16. count_bit j ps = Suc n * ((v + 1) ^ 2 * per_body np j)) \<and>
    at_line 0 (910000 * int n + int ((v + 1) ^ 2 * np)) 0 0 e"
proof (induction n)
  case 0
  have "at_line 0 (-1) 0 0 (engine_init False)" by (simp add: at_line_def engine_init_def)
  then show ?case using period_plays [of "-1" "engine_init False" 0 np v] by (simp add: sync_frame_def)
next
  case (Suc n)
  let ?m = "(v + 1) ^ 2 * np"
  obtain ps e where e: "plays (rate_script np v) 0 (engine_init False) ps e"
    "\<forall>j<16. count_bit j ps = Suc n * ((v + 1) ^ 2 * per_body np j)" "at_line 0 (910000 * int n + int ?m) 0 0 e"
    using Suc.IH by blast
  have "(910000 * int n + int m) div 910000 = int n" if "m < 910000" for m using that by simp
  then have "(910000 * int n + int ?m) div 910000 = int n" using np by blast
  then have sf: "sync_frame (910000 * int n + int ?m) = 910000 * int (Suc n)" by (simp only: sync_frame_def) simp
  obtain qs e1 where e1: "plays (rate_script np v) 0 e qs e1" "\<forall>j<16. count_bit j qs = (v + 1) ^ 2 * per_body np j"
    "at_line 0 (910000 * int (Suc n) + int ?m) 0 0 e1"
    using period_plays [OF e(3), of 0 np v] sf by auto
  show ?case using plays_trans [OF e(1) e1(1)] e(2) e1(2,3) by (intro exI [of _ "ps @ qs"] exI [of _ e1]) simp
qed

text \<open>Of the multiples of \<open>m\<close>, one in each row of \<open>n\<close> is less than \<open>m\<close> past the row's start.\<close>

lemma div_step:
  fixes a m n :: nat
  assumes "m \<le> n" and "0 < n"
  shows "(a + m) div n = a div n + (if (a + m) mod n < m then 1 else 0)"
proof -
  define q r where "q = a div n" and "r = a mod n"
  have a: "a = q * n + r" and r: "r < n" using assms(2) by (simp_all add: q_def r_def)
  show ?thesis
  proof (cases "r + m < n")
    case True
    then have "(a + m) div n = q" "(a + m) mod n = r + m" using a by (simp_all add: add.assoc div_mult_self3)
    then show ?thesis by (simp add: q_def)
  next
    case False
    then obtain x where x: "r + m = n + x" using le_iff_add [of n "r + m"] by auto
    have "x < m" "x < n" using x r assms(1) by simp_all
    moreover have "a + m = (q + 1) * n + x" using a x by (simp add: algebra_simps)
    then have "(a + m) div n = q + 1" "(a + m) mod n = x"
      using \<open>x < n\<close> by (simp_all only: mod_mult_self3 mod_less div_mult_self3 div_less)
    ultimately show ?thesis by (simp add: q_def)
  qed
qed

lemma count_rows:
  assumes "1 \<le> m" and "m \<le> n"
  shows "length (filter (\<lambda>i. i * m mod n < m) [0..<Suc k]) = k * m div n + 1"
proof (induction k)
  case (Suc k)
  have "Suc k * m div n = k * m div n + (if Suc k * m mod n < m then 1 else 0)"
    using div_step [OF assms(2), of "k * m"] assms by (simp add: add.commute)
  moreover have "[0..<Suc (Suc k)] = [0..<Suc k] @ [Suc k]" by simp
  ultimately show ?case using Suc.IH by (simp del: upt_Suc mult_Suc)
qed (use assms in simp)

lemma per_body_rate:
  assumes "j < 16" and "16 \<le> np"
  shows "per_body np j = j + 1"
proof -
  obtain k where k: "np = Suc k" using assms(2) by (cases np) auto
  have pb: "per_body np j = k * (j + 1) div np + 1"
    using count_rows [of "j + 1" np k] assms k by (simp add: per_body_def bit_rate_bits)
  have "k * (j + 1) = j * np + (np - (j + 1))" using assms k by (simp add: algebra_simps)
  moreover have "(j * np + x) div np = j" if "x < np" for x using assms(2) that by simp
  then have "(j * np + (np - (j + 1))) div np = j"
  proof -
    have "np - (j + 1) < np" using assms(2) by simp
    then show ?thesis by (rule \<open>\<And>x. x < np \<Longrightarrow> (j * np + x) div np = j\<close>)
  qed
  ultimately have "k * (j + 1) div np = j" by (simp only:)
  with pb show ?thesis by simp
qed

end
