(* ===== verification/SeqProps.thy ===== *)
theory SeqProps
  imports SeqFacts SeqScripts
begin

unbundle bit_operations_syntax

text \<open>
  The properties of the timing sequences: programming a device, what programming does not keep, and
  what the sequences of the scripts play.
\<close>

section \<open>A device for the witnesses\<close>

definition wit_raw :: seq_dev where
  "wit_raw = \<lparr>sd_id = 0, sd_addrlen = 4, sd_en = 0, sd_restarts = [], sd_jump = 0, sd_ram = replicate 16 0,
     sd_caches = [], sd_indices = 0, sd_seq = []\<rparr>"

definition wit_dev :: seq_dev where
  "wit_dev = snd (dev_init wit_raw)"

definition wit_pvs :: seq_pvs where
  "wit_pvs = \<lparr>sp_eng = wit_dev, sp_desc = [], sp_instrcnt = 0, sp_seqidx = 0, sp_seqname = [], sp_bdesc = [],
     sp_rmvidx = 0, sp_runidx = 0, sp_running = 0\<rparr>"

definition wit_u32 :: u32conv where
  "wit_u32 x = (if 0 \<le> x \<and> x < 2 ^ 32 then Inr x else Inl (NamedError ''OverflowError''))"

definition wit_prog :: "instr list" where
  "wit_prog = [FixedRateSync 6 1, ControlRequest 3, BranchUntil 1 0 4, CheckPoint, BranchTo 4]"

lemma wit_dev_idle: "dev_idle wit_dev" and wit_dev_len: "sd_addrlen wit_dev = 4"
proof -
  have "3 \<le> sd_addrlen wit_raw" "2 ^ sd_addrlen wit_raw \<le> length (sd_ram wit_raw)" by (simp_all add: wit_raw_def)
  then obtain t where "dev_init wit_raw = (Inr (), t)" "dev_idle t" "sd_addrlen t = sd_addrlen wit_raw"
    using dev_init_idle by metis
  then show "dev_idle wit_dev" "sd_addrlen wit_dev = 4" by (simp_all add: wit_dev_def wit_raw_def)
qed

lemma wit_ok: "u32_ok wit_u32" "pvs_ready wit_pvs" "program_ok 4 wit_prog"
  by (simp_all add: u32_ok_def wit_u32_def pvs_ready_def wit_pvs_def wit_dev_idle program_ok_def wit_prog_def in_u32_def targets_in_def)

section \<open>Programming\<close>

text \<open>
  C34. \<open>SeqUser.execute\<close> on a device that has no program, or the one of an earlier call: it ends
  without error, and the device has the program's instructions at address 3, with the branches
  moved there, runs them from this address, and is ready for the next call. The program must fit
  between the two sequences of the device, its branches must stay within it, its arguments be
  unsigned words, and it may not have a BeamRequest; the conversion of p4p keeps unsigned words. The
  registers that enable and reset the engine are not part of this.
\<close>
theorem execute_loads_program:
  assumes "u32_ok u" and "pvs_ready s" and "program_ok (sd_addrlen (sp_eng s)) p"
  shows "\<exists>t. seq_execute u title p ds i0 s = Some (Inr 2, t) \<and> pvs_ready t \<and> sp_runidx t = 2 \<and> sp_running t = 1 \<and>
    take (length p) (drop 3 (sd_ram (sp_eng t))) = map (placed_word 3) p \<and> sd_jump (sp_eng t) AND 0xffff = 3 \<and>
    sd_addrlen (sp_eng t) = sd_addrlen (sp_eng s)"
proof -
  obtain t where t: "seq_execute u title p ds i0 s = Some (Inr 2, t)" "pvs_ready t" "sp_runidx t = 2" "sp_running t = 1"
    "dev_loaded (map device_instr p) (sp_eng t)" "sd_jump (sp_eng t) AND 0xffff = 3" "sd_addrlen (sp_eng t) = sd_addrlen (sp_eng s)"
    using seq_execute_ready [OF assms] .
  have "placed_word 3 \<circ> device_instr = placed_word 3"
    by (rule ext) (simp add: placed_word_def instr_word_device branch_target_device)
  then show ?thesis using t by (auto simp: dev_loaded_def)
qed

theorem execute_loads_program_witness:
  "\<exists>t. seq_execute wit_u32 ''T'' wit_prog None 0 wit_pvs = Some (Inr 2, t) \<and>
    take 5 (drop 3 (sd_ram (sp_eng t))) = [1074135041, 2147483651, 17039364, 536870912, 7]"
proof -
  have w: "program_ok (sd_addrlen (sp_eng wit_pvs)) wit_prog" using wit_ok(3) by (simp add: wit_pvs_def wit_dev_len)
  have "map (placed_word 3) wit_prog = [1074135041, 2147483651, 17039364, 536870912, 7]" by code_simp
  moreover have "length wit_prog = 5" by (simp add: wit_prog_def)
  ultimately show ?thesis using execute_loads_program [OF wit_ok(1,2) w, of "''T''" None 0] by metis
qed

text \<open>
  C35. A second program that is inserted without removing the first: \<open>insertSeq\<close> succeeds and gives
  it a new index, but the dict of the sequences is not in the order of the addresses, so that the
  memory of the first program is taken for free; the second is written over the first, whose index
  stays in use and has no sequence any more.
\<close>
theorem second_insert_overwrites:
  assumes "dev_loaded p s" and "targets_in (sd_seq s) (sd_seq s)" and "sd_seq s \<noteq> []"
    and "int (length (sd_seq s)) + 4 \<le> 2 ^ sd_addrlen s"
  shows "\<exists>t. insertSeq s = (Inr 3, t) \<and> take (length (sd_seq s)) (drop 3 (sd_ram t)) = map (placed_word 3) (sd_seq s) \<and>
    bit (sd_indices t) 2 \<and> find (\<lambda>kc. sc_index (snd kc) = 2) (sd_caches t) = None \<and> setAddress 2 0 sync t = (Inr (), t)"
proof -
  have i: "3 \<le> sd_addrlen s" "2 ^ sd_addrlen s \<le> length (sd_ram s)" "sd_indices s = 7"
    "sd_caches s = base_caches (sd_addrlen s) @ [(3, \<lparr>sc_index = 2, sc_size = int (length p), sc_instr = p\<rparr>)]"
    using assms(1) by (simp_all add: dev_loaded_def)
  note b8 = pow_ge_8 [OF i(1)]
  have fit: "best_fit (int (length (sd_seq s))) 0 (2 ^ sd_addrlen s, 0) (sd_caches s) = (2 ^ sd_addrlen s - 4, int 3)"
    using assms(3,4) b8 by (simp add: i(4) base_caches_def Let_def)
  have fr: "free_index (sd_indices s) (-3) = int 3" by (simp add: i(3) free_index_def upt_conv_Cons)
  have len: "3 + length (sd_seq s) \<le> length (sd_ram s)" using room_nat [OF assms(4) i(2)] by simp
  let ?t = "s\<lparr>sd_ram := ram_write (sd_ram s) 3 (map (placed_word 3) (sd_seq s)),
      sd_caches := AList.update 3 \<lparr>sc_index = 3, sc_size = int (length (sd_seq s)), sc_instr = sd_seq s\<rparr> (sd_caches s),
      sd_indices := 15\<rparr>"
  have run: "insertSeq s = (Inr 3, ?t)"
    using insertSeq_run [OF fit _ _ fr assms(2) len] by (simp add: i(3))
  have none: "find (\<lambda>kc. sc_index (snd kc) = 2) (sd_caches ?t) = None"
    using b8 by (simp add: i(4) base_caches_def)
  have "setAddress 2 0 sync ?t = (Inr (), ?t)" using none by (simp add: setAddress_def eff_simps)
  moreover have "bit (15 :: int) 2" by simp
  ultimately show ?thesis using run none len by (intro exI [of _ ?t]) (simp add: ram_write_def)
qed

definition wit_loaded :: seq_dev where
  "wit_loaded = snd (insertSeq (wit_dev\<lparr>sd_seq := wit_prog\<rparr>))"

theorem second_insert_overwrites_witness:
  "\<exists>t. insertSeq (wit_loaded\<lparr>sd_seq := [ControlRequest 1, BranchTo 0]\<rparr>) = (Inr 3, t) \<and>
    take 2 (drop 3 (sd_ram t)) = [2147483649, 3] \<and> setAddress 2 0 1 t = (Inr (), t)"
proof -
  have d: "dev_idle (wit_dev\<lparr>sd_seq := wit_prog\<rparr>)" using wit_dev_idle by (simp add: dev_idle_def)
  obtain t where t: "insertSeq (wit_dev\<lparr>sd_seq := wit_prog\<rparr>) = (Inr 2, t)" "dev_loaded wit_prog t" "sd_addrlen t = 4"
    using insertSeq_loads [OF d] wit_ok(3) wit_dev_len by (auto simp: program_ok_def)
  let ?q = "[ControlRequest 1, BranchTo 0]" and ?s = "wit_loaded\<lparr>sd_seq := [ControlRequest 1, BranchTo 0]\<rparr>"
  have l: "dev_loaded wit_prog ?s" "sd_addrlen ?s = 4" using t by (simp_all add: wit_loaded_def dev_loaded_def)
  have w: "map (placed_word 3) ?q = [2147483649, 3]" by code_simp
  have "targets_in ?q ?q" by (simp add: targets_in_def)
  then show ?thesis using second_insert_overwrites [OF l(1), of 1] l(2) w by (auto simp: numeral_2_eq_2)
qed

text \<open>
  A program with a BeamRequest: the device drops such instructions when it reads the program, so
  that the number it reports is not the client's, and \<open>load\<close> returns without an error and without
  inserting the program. The client keeps the index of its last program, which \<open>begin\<close> then starts.
\<close>
theorem beam_request_not_loaded:
  assumes "u32_ok u" and "list_all in_u32 (seq_encoding p)" and "list_ex is_beam p"
  shows "\<exists>t. seq_load u title p ds i0 s = (Inr i0, t) \<and> sp_seqidx t = sp_seqidx s \<and> sd_ram (sp_eng t) = sd_ram (sp_eng s) \<and>
    sd_caches (sp_eng t) = sd_caches (sp_eng s) \<and> sp_instrcnt t < int (length p)"
proof -
  let ?q = "map device_instr (filter (\<lambda>i. \<not> is_beam i) p)"
  have lt: "length ?q < length p"
    using assms(3) length_filter_less [of _ p "\<lambda>i. \<not> is_beam i"] by (auto simp: list_ex_iff)
  have "in_u32 (int (length p))" using assms(2) by (simp add: seq_encoding_def)
  then have n: "u (int (length ?q)) = Inr (int (length ?q))" using u32_in [OF assms(1)] lt by (simp add: in_u32_def)
  show ?thesis
    using lt n smap_u32 [OF assms(1,2)]
    by (simp add: seq_load_def eff_simps pv_instrs_def on_eng_def cacheSeq_def decode_seq_encoding)
qed

theorem beam_request_not_loaded_witness:
  "\<exists>t. seq_load wit_u32 ''T'' [BeamRequest 100, BranchTo 0] None 5 wit_pvs = (Inr 5, t) \<and> sp_instrcnt t < 2"
proof -
  have "list_all in_u32 (seq_encoding [BeamRequest 100, BranchTo 0])" by code_simp
  then show ?thesis using beam_request_not_loaded [OF wit_ok(1), of "[BeamRequest 100, BranchTo 0]" "''T''" None 5 wit_pvs] by auto
qed

section \<open>Playing\<close>

text \<open>
  C36. The scripts \<open>10k.py\<close> and \<open>40k.py\<close> play the rates that their descriptions say: after any number
  of periods of 910000 frames, bit \<open>j\<close> has been requested \<open>10000 (j + 1)\<close> or \<open>40000 (j + 1)\<close>
  times for each period, and the sequence is back at its first line, still within the last period.
\<close>
theorem scripts_play_rates:
  "(\<exists>ps e. plays script_10k 0 (engine_init False) ps e \<and>
      map (\<lambda>j. count_bit j ps) [0..<16] = map (\<lambda>j. (n + 1) * (10000 * (j + 1))) [0..<16] \<and>
      eg_instr e = 0 \<and> eg_frame e = 910000 * int n + 900000) \<and>
   (\<exists>ps e. plays script_40k 0 (engine_init False) ps e \<and>
      map (\<lambda>j. count_bit j ps) [0..<16] = map (\<lambda>j. (n + 1) * (40000 * (j + 1))) [0..<16] \<and>
      eg_instr e = 0 \<and> eg_frame e = 910000 * int n + 880000)"
proof
  have r: "\<forall>j<16. per_body 90 j = j + 1" "\<forall>j<16. per_body 22 j = j + 1" by (simp_all add: per_body_rate)
  show "\<exists>ps e. plays script_10k 0 (engine_init False) ps e \<and>
      map (\<lambda>j. count_bit j ps) [0..<16] = map (\<lambda>j. (n + 1) * (10000 * (j + 1))) [0..<16] \<and>
      eg_instr e = 0 \<and> eg_frame e = 910000 * int n + 900000"
    using periods_play [of 99 90 n] r(1) unfolding script_10k_def at_line_def by fastforce
  show "\<exists>ps e. plays script_40k 0 (engine_init False) ps e \<and>
      map (\<lambda>j. count_bit j ps) [0..<16] = map (\<lambda>j. (n + 1) * (40000 * (j + 1))) [0..<16] \<and>
      eg_instr e = 0 \<and> eg_frame e = 910000 * int n + 880000"
    using periods_play [of 199 22 n] r(2) unfolding script_40k_def at_line_def by fastforce
qed

text \<open>
  The plot of the script \<open>burst.py\<close> up to frame 200: it returns, and bit \<open>j\<close> has
  \<open>2 ^ (1 + j mod 4)\<close> pulses that are \<open>j div 4 + 1\<close> frames apart, all four bits of a group from
  the same first frame.
\<close>
theorem burst_plays:
  "map_option (\<lambda>r. case r of Inl err \<Rightarrow> [] | Inr (ps, e) \<Rightarrow> map (\<lambda>j. map fst (filter (\<lambda>p. snd p = j) ps)) [0..<16])
      (seq_plot 300 script_burst 0 200 (engine_init False)) =
    Some (map (\<lambda>j. map (\<lambda>k. let d = j div 4 in int (8 * d * (d + 1) + (d + 1) * k)) [0..<2 ^ (1 + j mod 4)]) [0..<16])"
  by code_simp

text \<open>
  The wait of an AC rate sync for the next frame in one of its timeslots: with a rate of the
  list it ends exactly when it has a timeslot, then at the first frame that matches, and within
  six times the interval. With no timeslot the plot of the sequence never ends.
\<close>
theorem ac_wait_ends:
  assumes "v \<in> set ACIntvs"
  shows "case ac_wait (m AND 0x3f) v a of
      Some b \<Rightarrow> m AND 0x3f \<noteq> 0 \<and> a < b \<and> b \<le> a + 6 * v \<and> ac_match (m AND 0x3f) v b \<and>
        (\<forall>c. a < c \<and> c < b \<longrightarrow> \<not> ac_match (m AND 0x3f) v c)
    | None \<Rightarrow> m AND 0x3f = 0"
proof (cases "m AND 0x3f = 0")
  case True
  then show ?thesis by (simp add: ac_wait_none ac_match_def)
next
  case False
  have v: "0 < v" using assms by (auto simp: ACIntvs_def)
  obtain t where t: "bit (m AND 0x3f) t" using False bit_eqI [of "m AND 0x3f" 0] by auto
  have "(0x3f :: int) = mask 6" by (simp add: mask_eq_exp_minus_1)
  then have "t < 6" using t by (simp only: bit_and_iff bit_mask_iff)
  then obtain b where b: "a < b" "b \<le> a + 6 * v" "ac_match (m AND 0x3f) v b" using ac_match_exists t v by blast
  then obtain g where "ac_wait (m AND 0x3f) v a = Some g" "g \<le> b" using ac_wait_first by blast
  then show ?thesis using ac_wait_Some [of "m AND 0x3f" v a g] b(2) False by auto
qed

theorem ac_wait_ends_witness: "ac_wait 0 60 7 = None \<and> (\<exists>b. ac_wait 0x15 2 3 = Some b \<and> 3 < b \<and> b \<le> 15)"
proof -
  have "60 \<in> set ACIntvs" "2 \<in> set ACIntvs" by (simp_all add: ACIntvs_def)
  then show ?thesis using ac_wait_ends [of 60 0 7] ac_wait_ends [of 2 "0x15" 3] by (auto split: option.splits)
qed

end
