(* ===== verification/TypedJson.thy ===== *)
theory TypedJson
  imports Prelude PyJson
begin

text \<open>
  Typed JSON dictionaries for detector configurations (\<^verbatim>\<open>psdaq/psdaq/configdb/typed_json.py\<close>): the
  values, the names with dots, and the class \<open>cdict\<close>. Floating point numbers are of a type of
  their own and arrays are their dtype, shape and elements in C order; what Python and numpy do with
  them beyond that is the record \<open>num_env\<close>. Values are trees: that two dictionaries share a part
  is not modelled.
\<close>

section \<open>Values\<close>

datatype 'f jv =
    VNone
  | VBool bool
  | VInt int
  | VFloat 'f
  | VStr string
  | VArr string "nat list" "'f jv list"
  | VTup "'f jv" "'f jv"
  | VList "'f jv list"
  | VDict "(string \<times> 'f jv) list"

type_synonym 'f entries = "(string \<times> 'f jv) list"

text \<open>
  \<open>ne_array\<close> is \<open>np.array(v, dtype=t).reshape(dims)\<close>, without the reshape when there are no
  dimensions given; \<open>ne_retag\<close> is what \<open>set\<close> makes of a number when the name holds an array.
\<close>

record 'f num_env =
  ne_int :: "'f \<Rightarrow> pyexc + int"
  ne_parse :: "string \<Rightarrow> pyexc + 'f"
  ne_eq :: "'f \<Rightarrow> 'f \<Rightarrow> bool"
  ne_eq_int :: "'f \<Rightarrow> int \<Rightarrow> bool"
  ne_array :: "string \<Rightarrow> 'f jv list \<Rightarrow> int list option \<Rightarrow> pyexc + 'f jv"
  ne_retag :: "'f jv \<Rightarrow> 'f jv \<Rightarrow> pyexc + 'f jv"
  ne_str :: "'f jv \<Rightarrow> string"

fun is_number :: "'f jv \<Rightarrow> bool" where
  "is_number (VBool b) = True"
| "is_number (VInt i) = True"
| "is_number (VFloat x) = True"
| "is_number _ = False"

text \<open>\<open>int(v)\<close> of a number and the equality of numbers.\<close>

fun num_int :: "'f num_env \<Rightarrow> 'f jv \<Rightarrow> pyexc + int" where
  "num_int N (VBool b) = Inr (if b then 1 else 0)"
| "num_int N (VInt i) = Inr i"
| "num_int N (VFloat x) = ne_int N x"
| "num_int N _ = Inl TypeError"

definition num_eq :: "'f num_env \<Rightarrow> 'f jv \<Rightarrow> 'f jv \<Rightarrow> bool" where
  "num_eq N v w = (case v of
       VFloat x \<Rightarrow> (case w of VFloat y \<Rightarrow> ne_eq N x y | _ \<Rightarrow> (case num_int N w of Inr i \<Rightarrow> ne_eq_int N x i | Inl _ \<Rightarrow> False))
     | _ \<Rightarrow> (case num_int N v of
           Inr i \<Rightarrow> (case w of VFloat y \<Rightarrow> ne_eq_int N y i | _ \<Rightarrow> num_int N w = Inr i)
         | Inl _ \<Rightarrow> False))"

definition typerange :: "(string \<times> (int \<times> int) option) list" where
  "typerange = [(''UINT8'', Some (0, 2 ^ 8 - 1)), (''UINT16'', Some (0, 2 ^ 16 - 1)), (''UINT32'', Some (0, 2 ^ 32 - 1)),
     (''UINT64'', Some (0, 2 ^ 64 - 1)), (''INT8'', Some (- (2 ^ 7), 2 ^ 7 - 1)), (''INT16'', Some (- (2 ^ 15), 2 ^ 15 - 1)),
     (''INT32'', Some (- (2 ^ 31), 2 ^ 31 - 1)), (''INT64'', Some (- (2 ^ 63), 2 ^ 63 - 1)),
     (''FLOAT'', None), (''DOUBLE'', None), (''CHARSTR'', None)]"

definition typedict :: "(string \<times> string) list" where
  "typedict = [(''UINT8'', ''uint8''), (''UINT16'', ''uint16''), (''UINT32'', ''uint32''), (''UINT64'', ''uint64''),
     (''INT8'', ''int8''), (''INT16'', ''int16''), (''INT32'', ''int32''), (''INT64'', ''int64''),
     (''FLOAT'', ''float32''), (''DOUBLE'', ''float64''), (''CHARSTR'', ''str'')]"

definition nptypedict :: "(string \<times> string) list" where
  "nptypedict = [(''uint8'', ''UINT8''), (''uint16'', ''UINT16''), (''uint32'', ''UINT32''), (''uint64'', ''UINT64''),
     (''int8'', ''INT8''), (''int16'', ''INT16''), (''int32'', ''INT32''), (''int64'', ''INT64''),
     (''float32'', ''FLOAT''), (''float64'', ''DOUBLE'')]"

section \<open>Names\<close>

datatype comp = CName string | CIdx nat

text \<open>\<open>int(s)\<close>: blanks around, a sign, and digits with single underscores between them.\<close>

fun digits_us :: "string \<Rightarrow> bool" where
  "digits_us [] = False"
| "digits_us [c] = is_digit c"
| "digits_us (c # d # cs) = (is_digit c \<and> (if d = CHR ''_'' then digits_us cs else digits_us (d # cs)))"

definition unsigned_int :: "string \<Rightarrow> pyexc + nat" where
  "unsigned_int s = (if digits_us s then Inr (digits_val (filter (\<lambda>c. c \<noteq> CHR ''_'') s))
     else Inl (ValueError ''invalid literal for int()''))"

definition py_int :: "string \<Rightarrow> pyexc + int" where
  "py_int s = (case strip s of
       [] \<Rightarrow> Inl (ValueError ''invalid literal for int()'')
     | c # cs \<Rightarrow>
         if c = CHR ''-'' then sbind (unsigned_int cs) (\<lambda>n. Inr (- int n))
         else if c = CHR ''+'' then sbind (unsigned_int cs) (\<lambda>n. Inr (int n))
         else sbind (unsigned_int (c # cs)) (\<lambda>n. Inr (int n)))"

text \<open>\<open>splitname\<close>: an empty part raises, a part that begins with a digit and is no number gives None.\<close>

fun split_parts :: "string list \<Rightarrow> pyexc + comp list option" where
  "split_parts [] = Inr (Some [])"
| "split_parts (nn # ns) =
     (case nn of [] \<Rightarrow> Inl IndexError
      | c # cs \<Rightarrow>
          if is_digit c
          then (case py_int nn of
              Inl e \<Rightarrow> Inr None
            | Inr i \<Rightarrow> sbind (split_parts ns) (\<lambda>r. Inr (map_option (\<lambda>r. CIdx (nat i) # r) r)))
          else sbind (split_parts ns) (\<lambda>r. Inr (map_option (\<lambda>r. CName nn # r) r)))"

definition splitname :: "string \<Rightarrow> pyexc + comp list option" where
  "splitname name = split_parts (split_on CHR ''.'' name)"

section \<open>The class cdict\<close>

record 'f cdict =
  cd_dict :: "'f entries"
  cd_enumdef :: "'f entries"

fun num_tree :: "'f jv \<Rightarrow> bool" where
  "num_tree (VList l) = list_all num_tree l"
| "num_tree v = is_number v"

definition checknumlist :: "'f jv list \<Rightarrow> bool" where
  "checknumlist l = list_all num_tree l"

text \<open>A value that \<open>set\<close> is called with, and what its first part makes of it.\<close>

datatype 'f setarg = AVal "'f jv" | ACdict "'f entries" | ACdicts nat

datatype 'f prepared = PSimple "'f jv" | PDict "'f entries" | PList

definition enum_values :: "'f jv \<Rightarrow> pyexc + 'f jv list" where
  "enum_values e = (case e of VDict m \<Rightarrow> Inr (map snd m) | _ \<Rightarrow> Inl (AttributeError ''values''))"

definition prepare :: "'f num_env \<Rightarrow> 'f entries \<Rightarrow> string \<Rightarrow> 'f setarg \<Rightarrow> pyexc + 'f prepared" where
  "prepare N enums typ arg = (case arg of
       ACdict d \<Rightarrow> Inr (PDict d)
     | ACdicts n \<Rightarrow> Inr PList
     | AVal v \<Rightarrow>
         if is_number v then
           (case map_of enums typ of
              None \<Rightarrow> if typ \<in> fst ` set typedict then Inr (PSimple (VTup (VStr typ) v)) else Inl TypeError
            | Some e \<Rightarrow> sbind (enum_values e) (\<lambda>vs.
                if list_ex (num_eq N v) vs then Inr (PSimple (VTup (VStr typ) v)) else Inl AssertionError))
         else (case v of
            VStr s \<Rightarrow> if typ = ''CHARSTR'' then Inr (PSimple v) else Inl TypeError
          | VArr dt sh xs \<Rightarrow> Inr (PSimple v)
          | VList l \<Rightarrow>
              if checknumlist l then
                sbind (if typ \<in> fst ` set enums then Inr ''int32'' else dict_get typedict typ) (\<lambda>dt.
                  sbind (ne_array N dt l None) (\<lambda>a. Inr (PSimple a)))
              else Inl TypeError
          | _ \<Rightarrow> Inl TypeError))"

text \<open>
  The last part of \<open>set\<close>: what becomes of the current value, None when the name is new. The entries
  of a list of cdicts are given to \<open>update\<close> of a dict as they are, which raises.
\<close>

definition type_of_value :: "'f jv \<Rightarrow> pyexc + 'f jv" where
  "type_of_value d = (case d of
       VTup t x \<Rightarrow> Inr t
     | VStr s \<Rightarrow> (case s of [] \<Rightarrow> Inl IndexError | c # cs \<Rightarrow> Inr (VStr [c]))
     | VList l \<Rightarrow> (case l of [] \<Rightarrow> Inl IndexError | x # xs \<Rightarrow> Inr x)
     | VDict m \<Rightarrow> Inl KeyError
     | _ \<Rightarrow> Inl TypeError)"

definition retag :: "'f num_env \<Rightarrow> 'f jv \<Rightarrow> 'f jv \<Rightarrow> pyexc + 'f jv" where
  "retag N d x = (case d of
       VArr dt sh xs \<Rightarrow> ne_retag N d x
     | _ \<Rightarrow> sbind (type_of_value d) (\<lambda>t.
         if t = VStr ''DOUBLE'' \<or> t = VStr ''FLOAT'' then Inr (VTup t x)
         else sbind (num_int N x) (\<lambda>i. Inr (VTup t (VInt i)))))"

definition store_simple :: "'f num_env \<Rightarrow> 'f entries \<Rightarrow> string \<Rightarrow> bool \<Rightarrow> 'f jv \<Rightarrow> 'f jv \<Rightarrow> pyexc + 'f jv" where
  "store_simple N enums typ override value d = (case value of
       VArr dt sh xs \<Rightarrow>
         let v = (if typ \<in> fst ` set enums then VTup (VStr typ) value else value) in
         if override \<or> d = VNone then Inr v
         else (case d of
             VArr dt' sh' xs' \<Rightarrow> if dt = dt' \<and> sh = sh' then Inr v else Inl (ValueError ''set: trying to change array dtype/shape'')
           | _ \<Rightarrow> Inl (ValueError ''set: trying to change type''))
     | VStr s \<Rightarrow> Inr (VTup (VStr ''CHARSTR'') value)
     | VTup t x \<Rightarrow> if override \<or> d = VNone then Inr value else retag N d x
     | _ \<Rightarrow> Inr value)"

definition store :: "'f num_env \<Rightarrow> 'f entries \<Rightarrow> string \<Rightarrow> bool \<Rightarrow> bool \<Rightarrow> 'f prepared \<Rightarrow> 'f jv \<Rightarrow> (pyexc + unit) \<times> 'f jv" where
  "store N enums typ override app p d = (case p of
       PSimple v \<Rightarrow> (case store_simple N enums typ override v d of Inl e \<Rightarrow> (Inl e, d) | Inr w \<Rightarrow> (Inr (), w))
     | PDict m \<Rightarrow>
         (case d of
            VList l \<Rightarrow> if override \<or> app then (Inr (), VList (l @ [VDict m])) else (Inl (ValueError ''set: expected dict or list type''), d)
          | VDict x \<Rightarrow> (Inr (), VDict m)
          | VNone \<Rightarrow> (Inr (), VDict m)
          | _ \<Rightarrow> if override then (Inr (), VDict m) else (Inl (ValueError ''set: expected dict or list type''), d))
     | PList \<Rightarrow>
         if \<not> override \<and> (case d of VNone \<Rightarrow> False | VList l \<Rightarrow> False | _ \<Rightarrow> True) then (Inl (ValueError ''set: expected list type''), d)
         else (Inl TypeError, if app then d else VList []))"

text \<open>The walk along the name; what it creates stays when a later part raises.\<close>

definition as_list :: "bool \<Rightarrow> 'f jv \<Rightarrow> 'f jv list option" where
  "as_list override d = (case d of VNone \<Rightarrow> Some [] | VList l \<Rightarrow> Some l | _ \<Rightarrow> if override then Some [] else None)"

definition as_dict :: "bool \<Rightarrow> 'f jv \<Rightarrow> 'f entries option" where
  "as_dict override d = (case d of VNone \<Rightarrow> Some [] | VDict m \<Rightarrow> Some m | _ \<Rightarrow> if override then Some [] else None)"

definition fresh :: "bool \<Rightarrow> comp list \<Rightarrow> 'f jv" where
  "fresh mklist cs = (case cs of [] \<Rightarrow> if mklist then VList [] else VNone | CIdx k # _ \<Rightarrow> VList [] | CName s # _ \<Rightarrow> VDict [])"

fun walk :: "bool \<Rightarrow> bool \<Rightarrow> ('f jv \<Rightarrow> (pyexc + unit) \<times> 'f jv) \<Rightarrow> comp list \<Rightarrow> 'f jv \<Rightarrow> (pyexc + unit) \<times> 'f jv" where
  "walk override mklist fin [] d = fin d"
| "walk override mklist fin (CIdx k # cs) d = (case as_list override d of
       None \<Rightarrow> (Inl (ValueError ''set: override set to false''), d)
     | Some l \<Rightarrow>
         let l1 = l @ replicate (k + 1 - length l) (VDict []);
             (r, c) = walk override mklist fin cs (l1 ! k)
         in (r, VList (l1[k := c])))"
| "walk override mklist fin (CName s # cs) d = (case as_dict override d of
       None \<Rightarrow> (Inl (ValueError ''set: override set to false''), d)
     | Some m \<Rightarrow>
         let (r, c) = walk override mklist fin cs (case map_of m s of Some v \<Rightarrow> v | None \<Rightarrow> fresh mklist cs)
         in (r, VDict (AList.update s c m)))"

definition the_entries :: "'f jv \<Rightarrow> 'f entries" where
  "the_entries d = (case d of VDict m \<Rightarrow> m | _ \<Rightarrow> [])"

definition is_simple :: "'f prepared \<Rightarrow> bool" where
  "is_simple p = (case p of PSimple v \<Rightarrow> True | _ \<Rightarrow> False)"

text \<open>\<open>set\<close>\<close>

definition cdict_set ::
    "'f num_env \<Rightarrow> string \<Rightarrow> 'f setarg \<Rightarrow> string \<Rightarrow> bool \<Rightarrow> bool \<Rightarrow> ('f cdict, unit) eff" where
  "cdict_set N name arg typ override app =
     (if name = [] then eraise (ValueError ''set: received name with length 0'')
      else ebind (elift (splitname name)) (\<lambda>n. case n of
          None \<Rightarrow> eraise (ValueError ''set: error splitting name'')
        | Some cs \<Rightarrow> ebind (eget cd_enumdef) (\<lambda>enums.
            ebind (elift (prepare N enums typ arg)) (\<lambda>p.
              case cs of
                CIdx k # _ \<Rightarrow> if override then eraise (NameError ''p'') else eraise (ValueError ''set: override set to false'')
              | _ \<Rightarrow> (\<lambda>c. case walk override (\<not> is_simple p \<and> app) (store N enums typ override app p) cs (VDict (cd_dict c)) of
                  (r, d) \<Rightarrow> (r, c\<lparr>cd_dict := the_entries d\<rparr>))))))"

definition define_enum :: "string \<Rightarrow> 'f jv \<Rightarrow> ('f cdict, bool) eff" where
  "define_enum name value = eseq (emod (cd_enumdef_update (AList.update name value))) (eret True)"

text \<open>\<open>d[int(s)]\<close> of a list, where a number below 0 counts from the end.\<close>

definition list_item :: "'a list \<Rightarrow> string \<Rightarrow> 'a option" where
  "list_item l s = (case py_int s of
       Inl e \<Rightarrow> None
     | Inr i \<Rightarrow> let j = (if i < 0 then i + int (length l) else i) in if 0 \<le> j \<and> j < int (length l) then Some (l ! nat j) else None)"

text \<open>\<open>get\<close>: it does not come back when the name goes on below a value that is no dict and no list.\<close>

partial_function (option) get_loop :: "comp list \<Rightarrow> 'f jv \<Rightarrow> 'f jv option option" where
  "get_loop n d = (case n of
       [] \<Rightarrow> Some (Some d)
     | c # cs \<Rightarrow> (case d of
           VList l \<Rightarrow> (case c of
               CIdx k \<Rightarrow> if k < length l then get_loop cs (l ! k) else Some None
             | CName s \<Rightarrow> (case list_item l s of None \<Rightarrow> Some None | Some v \<Rightarrow> get_loop cs v))
         | VDict m \<Rightarrow> (case c of
               CIdx k \<Rightarrow> Some None
             | CName s \<Rightarrow> (case map_of m s of None \<Rightarrow> Some None | Some v \<Rightarrow> get_loop cs v))
         | _ \<Rightarrow> get_loop n d))"

definition cdict_get :: "string \<Rightarrow> bool \<Rightarrow> 'f cdict \<Rightarrow> (pyexc + 'f jv option) option" where
  "cdict_get name withtype c =
     (if name = [] then Some (Inr None)
      else (case splitname name of
          Inl e \<Rightarrow> Some (Inl e)
        | Inr None \<Rightarrow> Some (Inr None)
        | Inr (Some cs) \<Rightarrow>
            map_option (\<lambda>r. Inr (case r of Some (VTup t v) \<Rightarrow> Some (if withtype then VTup t v else v) | _ \<Rightarrow> r)) (get_loop cs (VDict (cd_dict c)))))"

end
