(* ===== verification/TypedJsonConv.thy ===== *)
theory TypedJsonConv
  imports TypedJson
begin

text \<open>
  Typed JSON (\<^verbatim>\<open>psdaq/psdaq/configdb/typed_json.py\<close>), second part: \<open>cdict\<close> to and from JSON, the
  validation, and the functions that read and update a typed JSON dictionary.
\<close>

section \<open>From cdict to JSON\<close>

definition header_names :: "string list" where
  "header_names = [''detType:RO'', ''detName:RO'', ''detId:RO'', ''doc:RO'', ''alg:RO'']"

text \<open>\<open>merge_dict\<close>\<close>

fun merge_dict :: "'f entries \<Rightarrow> 'f entries \<Rightarrow> 'f entries" where
  "merge_dict t1 [] = t1"
| "merge_dict t1 ((k, v) # t2) = merge_dict
     (case map_of t1 k of
        None \<Rightarrow> t1 @ [(k, v)]
      | Some w \<Rightarrow> (case w of
            VDict a \<Rightarrow> (case v of VDict b \<Rightarrow> AList.update k (VDict (merge_dict a b)) t1 | _ \<Rightarrow> t1)
          | _ \<Rightarrow> t1)) t2"

definition merge_into :: "'f entries \<Rightarrow> 'f jv \<Rightarrow> pyexc + 'f entries" where
  "merge_into t t2 = (case t2 of VDict m \<Rightarrow> Inr (merge_dict t m) | _ \<Rightarrow> Inl (AttributeError ''keys''))"

text \<open>\<open>create_json\<close> below the top: the values and their types.\<close>

fun create_json :: "'f jv \<Rightarrow> pyexc + 'f jv \<times> 'f jv"
  and create_entries :: "'f entries \<Rightarrow> pyexc + 'f entries \<times> 'f entries"
  and create_items :: "'f jv list \<Rightarrow> 'f entries \<Rightarrow> pyexc + 'f jv list \<times> 'f entries" where
  "create_json (VDict m) = sbind (create_entries m) (\<lambda>(d, t). Inr (VDict d, VDict t))"
| "create_json (VList l) = sbind (create_items l []) (\<lambda>(d, t). Inr (VList d, VDict t))"
| "create_json (VArr dt sh xs) = sbind (dict_get nptypedict dt) (\<lambda>ty.
     Inr (VList xs, VList (VStr ty # map (\<lambda>n. VInt (int n)) sh)))"
| "create_json (VTup t v) = Inr (v, t)"
| "create_json _ = Inl (ValueError ''Type not supported'')"
| "create_entries [] = Inr ([], [])"
| "create_entries ((k, v) # m) = sbind (create_json v) (\<lambda>(d2, t2).
     sbind (create_entries m) (\<lambda>(d, t). Inr ((k, d2) # d, (k, t2) # t)))"
| "create_items [] t = Inr ([], t)"
| "create_items (v # l) t = sbind (create_json v) (\<lambda>(d2, t2).
     sbind (merge_into t t2) (\<lambda>t. sbind (create_items l t) (\<lambda>(d, t). Inr (d2 # d, t))))"

definition alg_types :: "'f jv" where
  "alg_types = VDict [(''alg:RO'', VStr ''CHARSTR''), (''doc:RO'', VStr ''CHARSTR''),
     (''version:RO'', VList [VStr ''INT32'', VInt 3])]"

fun create_top :: "'f entries \<Rightarrow> pyexc + 'f entries \<times> 'f entries" where
  "create_top [] = Inr ([], [])"
| "create_top ((k, v) # m) =
     sbind (if k \<in> set header_names then Inr (v, if k = ''alg:RO'' then alg_types else VStr ''CHARSTR'') else create_json v) (\<lambda>(d2, t2).
       sbind (create_top m) (\<lambda>(d, t). Inr ((k, d2) # d, (k, t2) # t)))"

definition typed_json :: "'f cdict \<Rightarrow> pyexc + 'f entries" where
  "typed_json c = sbind (create_top (cd_dict c)) (\<lambda>(d, t).
     Inr (AList.update '':types:'' (VDict (if cd_enumdef c \<noteq> [] then AList.update '':enum:'' (VDict (cd_enumdef c)) t else t)) d))"

section \<open>From JSON to cdict\<close>

text \<open>Reads of a dict or a list by a key and by a position.\<close>

definition jkey :: "'f jv \<Rightarrow> string \<Rightarrow> pyexc + 'f jv" where
  "jkey d k = (case d of VDict m \<Rightarrow> dict_get m k | _ \<Rightarrow> Inl TypeError)"

definition array_type :: "'f jv \<Rightarrow> pyexc + string \<times> int list" where
  "array_type t = (case t of
       VList (VStr s # ds) \<Rightarrow> sbind (dict_get typedict s) (\<lambda>dt.
         sbind (smap (\<lambda>d. case d of VInt i \<Rightarrow> Inr i | _ \<Rightarrow> Inl TypeError) ds) (\<lambda>is. Inr (dt, is)))
     | VList [] \<Rightarrow> Inl IndexError
     | VStr [] \<Rightarrow> Inl IndexError
     | VStr _ \<Rightarrow> Inl KeyError
     | VDict _ \<Rightarrow> Inl KeyError
     | _ \<Rightarrow> Inl TypeError)"

definition sub_name :: "string option \<Rightarrow> string \<Rightarrow> string" where
  "sub_name base k = (case base of None \<Rightarrow> k | Some b \<Rightarrow> b @ ''.'' @ k)"

definition nested :: "'f jv \<Rightarrow> bool" where
  "nested v = (case v of VDict m \<Rightarrow> True | VList l \<Rightarrow> \<not> checknumlist l | _ \<Rightarrow> False)"

definition init_leaf :: "'f num_env \<Rightarrow> string \<Rightarrow> 'f jv \<Rightarrow> 'f jv \<Rightarrow> ('f cdict, unit) eff" where
  "init_leaf N n v t = (case v of
       VList l \<Rightarrow> ebind (elift (array_type t)) (\<lambda>(dt, dims). ebind (elift (ne_array N dt l (Some dims))) (\<lambda>a.
         cdict_set N n (AVal a) ''INT32'' False False))
     | VArr dt sh xs \<Rightarrow> cdict_set N n (AVal v) ''INT32'' False False
     | _ \<Rightarrow> (case t of VStr s \<Rightarrow> cdict_set N n (AVal v) s False False | _ \<Rightarrow> cdict_set N n (AVal VNone) [] False False))"

definition put_entry :: "string \<Rightarrow> 'f jv \<Rightarrow> ('f cdict, unit) eff" where
  "put_entry k v = emod (cd_dict_update (AList.update k v))"

definition init_header :: "'f num_env \<Rightarrow> string \<Rightarrow> 'f jv \<Rightarrow> ('f cdict, unit) eff" where
  "init_header N k v =
     (if k \<noteq> ''alg:RO'' then put_entry k (VStr (case v of VStr s \<Rightarrow> s | _ \<Rightarrow> ne_str N v))
      else (case v of
          VDict a \<Rightarrow> ewhen (fst ` set a = {''alg:RO'', ''doc:RO'', ''version:RO''}) (put_entry k v)
        | _ \<Rightarrow> eret ()))"

fun init_from_json :: "'f num_env \<Rightarrow> 'f jv \<Rightarrow> 'f jv \<Rightarrow> string option \<Rightarrow> ('f cdict, unit) eff"
  and init_json_entries :: "'f num_env \<Rightarrow> 'f entries \<Rightarrow> 'f jv \<Rightarrow> string option \<Rightarrow> ('f cdict, unit) eff"
  and init_json_items :: "'f num_env \<Rightarrow> nat \<Rightarrow> 'f jv list \<Rightarrow> 'f jv \<Rightarrow> string option \<Rightarrow> ('f cdict, unit) eff" where
  "init_from_json N (VDict m) jt base = init_json_entries N m jt base"
| "init_from_json N (VList l) jt base = init_json_items N 0 l jt base"
| "init_from_json N v jt base = eret ()"
| "init_json_entries N [] jt base = eret ()"
| "init_json_entries N ((k, v) # m) jt base = eseq
     (if k \<in> set header_names then init_header N k v
      else ebind (elift (jkey jt k)) (\<lambda>t.
        if nested v then init_from_json N v t (Some (sub_name base k)) else init_leaf N (sub_name base k) v t))
     (init_json_entries N m jt base)"
| "init_json_items N k [] jt base = eret ()"
| "init_json_items N k (v # l) jt base = eseq
     (init_from_json N v jt (Some (sub_name base (nat_str k)))) (init_json_items N (Suc k) l jt base)"

fun init_from_dict :: "'f num_env \<Rightarrow> 'f jv \<Rightarrow> string option \<Rightarrow> ('f cdict, unit) eff"
  and init_dict_entries :: "'f num_env \<Rightarrow> 'f entries \<Rightarrow> string option \<Rightarrow> ('f cdict, unit) eff"
  and init_dict_items :: "'f num_env \<Rightarrow> nat \<Rightarrow> 'f jv list \<Rightarrow> string option \<Rightarrow> ('f cdict, unit) eff" where
  "init_from_dict N (VDict m) base = eseq (init_dict_entries N m base)
     (efor (\<lambda>k. ewhen (k \<notin> fst ` set m) (put_entry k
        (if k \<noteq> ''alg:RO'' then VStr []
         else VDict [(''alg:RO'', VStr []), (''doc:RO'', VStr []), (''version:RO'', VList [VInt 0, VInt 0, VInt 0])]))) header_names)"
| "init_from_dict N (VList l) base = init_dict_items N 0 l base"
| "init_from_dict N (VStr s) base = cdict_set N (the base) (AVal (VStr s)) ''CHARSTR'' False False"
| "init_from_dict N (VFloat x) base = cdict_set N (the base) (AVal (VFloat x)) ''DOUBLE'' False False"
| "init_from_dict N v base = cdict_set N (the base) (AVal v) ''INT32'' False False"
| "init_dict_entries N [] base = eret ()"
| "init_dict_entries N ((k, v) # m) base =
     eseq (init_from_dict N v (Some (sub_name base k))) (init_dict_entries N m base)"
| "init_dict_items N k [] base = eret ()"
| "init_dict_items N k (v # l) base =
     eseq (init_from_dict N v (Some (sub_name base (nat_str k)))) (init_dict_items N (Suc k) l base)"

text \<open>
  The constructor, with what it leaves of the dictionary it is called with: the enumerations are
  deleted from the types of the caller's dictionary.
\<close>

datatype 'f oldarg = OldNone | OldCdict "'f cdict" | OldDict "'f entries"

definition cdict_init :: "'f num_env \<Rightarrow> 'f oldarg \<Rightarrow> (pyexc + 'f cdict) \<times> 'f oldarg" where
  "cdict_init N old = (case old of
       OldNone \<Rightarrow> (Inr \<lparr>cd_dict = [], cd_enumdef = []\<rparr>, old)
     | OldCdict c \<Rightarrow> (Inr c, old)
     | OldDict m \<Rightarrow>
         let run = (\<lambda>eff enums m1. (case eff \<lparr>cd_dict = [], cd_enumdef = enums\<rparr> of
             (Inl e, c) \<Rightarrow> (Inl e, OldDict m1) | (Inr _, c) \<Rightarrow> (Inr c, OldDict m1)))
         in (case map_of m '':types:'' of
               None \<Rightarrow> run (init_from_dict N (VDict m) None) [] m
             | Some (VDict jt) \<Rightarrow>
                 (case map_of jt '':enum:'' of
                    None \<Rightarrow> run (init_from_json N (VDict (AList.delete '':types:'' m)) (VDict jt) None) [] m
                  | Some e \<Rightarrow>
                      let jt1 = VDict (AList.delete '':enum:'' jt) in
                      run (init_from_json N (VDict (AList.delete '':types:'' m)) jt1 None) (the_entries e) (AList.update '':types:'' jt1 m))
             | Some _ \<Rightarrow> (Inl (AttributeError ''keys''), old)))"

definition setAlg :: "'f jv \<Rightarrow> 'f jv \<Rightarrow> 'f jv \<Rightarrow> ('f cdict, unit) eff" where
  "setAlg alg version doc =
     (case version of
        VList [a, b, c] \<Rightarrow> (case alg of
            VStr al \<Rightarrow> (case doc of
                VStr dc \<Rightarrow> put_entry ''alg:RO'' (VDict [(''alg:RO'', alg), (''doc:RO'', doc), (''version:RO'', version)])
              | _ \<Rightarrow> eret ())
          | _ \<Rightarrow> eret ())
      | _ \<Rightarrow> eret ())"

definition setString :: "string \<Rightarrow> 'f jv \<Rightarrow> ('f cdict, unit) eff" where
  "setString name v = (case v of VStr s \<Rightarrow> put_entry name v | _ \<Rightarrow> eret ())"

text \<open>\<open>setInfo\<close> for a detector name that is a string when there is a segment.\<close>

definition setInfo :: "'f jv \<Rightarrow> 'f jv \<Rightarrow> int option \<Rightarrow> 'f jv \<Rightarrow> 'f jv \<Rightarrow> ('f cdict, unit) eff" where
  "setInfo detType detName detSegm detId doc =
     eseq (setString ''detType:RO'' detType)
     (ebind (case detSegm of
          None \<Rightarrow> eret detName
        | Some s \<Rightarrow> (case detName of VStr n \<Rightarrow> eret (VStr (n @ ''_'' @ int_str s)) | _ \<Rightarrow> eraise TypeError)) (\<lambda>dn.
      eseq (setString ''detName:RO'' dn)
      (eseq (setString ''detId:RO'' detId) (setString ''doc:RO'' doc))))"

end
