(* ===== verification/TypedJsonUpdate.thy ===== *)
theory TypedJsonUpdate
  imports TypedJsonConv
begin

text \<open>
  Typed JSON (\<^verbatim>\<open>psdaq/psdaq/configdb/typed_json.py\<close>), third part: the validation, and the functions that
  read and update a typed JSON dictionary, which has no arrays and no tuples.
\<close>

section \<open>Validation\<close>

definition namify_add :: "string \<Rightarrow> comp \<Rightarrow> string" where
  "namify_add s v = (case v of
       CName n \<Rightarrow> if s = [] then n else s @ ''.'' @ n
     | CIdx i \<Rightarrow> s @ ''.'' @ nat_str i)"

definition namify :: "comp list \<Rightarrow> string" where
  "namify l = foldl namify_add [] l"

definition is_vstr :: "'f jv \<Rightarrow> bool" where
  "is_vstr v = (case v of VStr s \<Rightarrow> True | _ \<Rightarrow> False)"

text \<open>The checks of the headers: None, or the text of the error.\<close>

definition has_str :: "'f entries \<Rightarrow> string \<Rightarrow> bool" where
  "has_str m k = (case map_of m k of Some v \<Rightarrow> is_vstr v | None \<Rightarrow> False)"

definition check_alg :: "'f jv \<Rightarrow> string option" where
  "check_alg a = (case a of
       VDict m \<Rightarrow>
         if \<not> has_str m ''alg:RO'' then Some ''alg has no valid alg''
         else if ''doc:RO'' \<in> fst ` set m \<and> \<not> has_str m ''doc:RO'' then Some ''alg has no valid doc''
         else (case map_of m ''version:RO'' of
             Some (VList [x, y, z]) \<Rightarrow> None
           | _ \<Rightarrow> Some ''alg has no valid version'')
     | _ \<Rightarrow> Some ''alg is not a dictionary'')"

definition check_headers :: "'f entries \<Rightarrow> string option" where
  "check_headers m =
     (case find (\<lambda>f. \<not> has_str m f) [''detType:RO'', ''detName:RO'', ''detId:RO''] of
        Some f \<Rightarrow> Some (''No valid '' @ f)
      | None \<Rightarrow>
          if ''doc:RO'' \<in> fst ` set m \<and> \<not> has_str m ''doc:RO'' then Some ''No valid doc''
          else (case map_of m ''alg:RO'' of None \<Rightarrow> None | Some a \<Rightarrow> check_alg a))"

text \<open>The check of a scalar.\<close>

definition is_int_value :: "'f jv \<Rightarrow> bool" where
  "is_int_value v = (case v of VInt i \<Rightarrow> True | VBool b \<Rightarrow> True | _ \<Rightarrow> False)"

definition is_array :: "'f jv \<Rightarrow> bool" where
  "is_array v = (case v of VArr dt sh xs \<Rightarrow> True | _ \<Rightarrow> False)"

definition scalar_int :: "'f jv \<Rightarrow> int" where
  "scalar_int v = (case v of VInt i \<Rightarrow> i | VBool b \<Rightarrow> (if b then 1 else 0) | _ \<Rightarrow> 0)"

definition check_scalar :: "'f entries \<Rightarrow> comp list \<Rightarrow> string \<Rightarrow> 'f jv \<Rightarrow> 'f jv \<Rightarrow> pyexc + string option" where
  "check_scalar edef tp n t x = (case t of
       VStr ty \<Rightarrow>
         let nm = namify (tp @ [CName n]) in
         if ty \<in> fst ` set edef \<and> (is_number x \<or> is_array x) then Inr None
         else if ty \<notin> fst ` set typerange \<and> ty \<notin> fst ` set edef then Inr (Some (nm @ '' has invalid type '' @ ty))
         else sbind (dict_get typerange ty) (\<lambda>vv. case vv of
             None \<Rightarrow> Inr (if ty \<noteq> ''CHARSTR'' \<and> \<not> is_number x then Some (nm @ '' value is not a number'') else None)
           | Some (lo, hi) \<Rightarrow>
               if \<not> is_int_value x then Inr (Some (nm @ n @ '' value is not an int''))
               else if scalar_int x < lo \<or> hi < scalar_int x then Inr (Some (nm @ n @ '' is out of range''))
               else Inr None)
     | _ \<Rightarrow> Inl TypeError)"

text \<open>
  \<open>validate_typed_json\<close>. The last line of the loop over the keys returns, so that the loop ends after
  the first key that is no header.
\<close>

fun validate_jv :: "'f entries \<Rightarrow> comp list \<Rightarrow> bool \<Rightarrow> 'f jv \<Rightarrow> pyexc + string option"
  and validate_keys :: "'f entries \<Rightarrow> comp list \<Rightarrow> 'f entries \<Rightarrow> pyexc + string option"
  and validate_items :: "'f entries \<Rightarrow> comp list \<Rightarrow> string \<Rightarrow> nat \<Rightarrow> 'f jv list \<Rightarrow> pyexc + string option" where
  "validate_jv edef tp headers (VDict m) =
     (case (if tp = [] \<and> headers then check_headers m else None) of
        Some msg \<Rightarrow> Inr (Some msg)
      | None \<Rightarrow> validate_keys edef tp m)"
| "validate_jv edef tp headers d = Inr (Some ''Not a dictionary'')"
| "validate_keys edef tp [] = Inr None"
| "validate_keys edef tp ((n, v) # m) =
     (if tp = [] \<and> n \<in> set header_names then validate_keys edef tp m
      else (case v of
          VDict x \<Rightarrow> validate_jv edef (tp @ [CName n]) True v
        | VList l \<Rightarrow> validate_items edef tp n 0 l
        | VTup t x \<Rightarrow> check_scalar edef tp n t x
        | VArr dt sh xs \<Rightarrow> Inr None
        | _ \<Rightarrow> Inr (Some (namify (tp @ [CName n]) @ '' is invalid''))))"
| "validate_items edef tp n k [] = Inr None"
| "validate_items edef tp n k (dd # l) = (case dd of
       VDict x \<Rightarrow> sbind (validate_jv edef (tp @ [CName (nat_str k)]) True dd) (\<lambda>r.
         case r of None \<Rightarrow> validate_items edef tp n (Suc k) l | Some msg \<Rightarrow> Inr (Some msg))
     | _ \<Rightarrow> Inr (Some (namify (tp @ [CName n, CIdx k]) @ '' is not a dict'')))"

definition validate_typed_json :: "'f entries \<Rightarrow> 'f entries \<Rightarrow> bool \<Rightarrow> pyexc + string option" where
  "validate_typed_json d edef headers = validate_jv edef [] headers (VDict d)"

section \<open>Reading a typed JSON dictionary\<close>

text \<open>\<open>v[i]\<close>\<close>

definition jitem :: "'f jv \<Rightarrow> comp \<Rightarrow> pyexc + 'f jv" where
  "jitem v i = (case v of
       VDict m \<Rightarrow> (case i of CName s \<Rightarrow> dict_get m s | CIdx k \<Rightarrow> Inl KeyError)
     | VList l \<Rightarrow> (case i of CName s \<Rightarrow> Inl TypeError | CIdx k \<Rightarrow> if k < length l then Inr (l ! k) else Inl IndexError)
     | VStr s \<Rightarrow> (case i of CName n \<Rightarrow> Inl TypeError | CIdx k \<Rightarrow> if k < length s then Inr (VStr [s ! k]) else Inl IndexError)
     | _ \<Rightarrow> Inl TypeError)"

definition jkeys :: "'f jv \<Rightarrow> pyexc + string list" where
  "jkeys v = (case v of VDict m \<Rightarrow> Inr (map fst m) | _ \<Rightarrow> Inl (AttributeError ''keys''))"

definition enum_part :: "'f jv \<Rightarrow> 'f jv" where
  "enum_part t = (case jitem t (CName '':enum:'') of Inr e \<Rightarrow> e | Inl _ \<Rightarrow> VDict [])"

text \<open>
  The state of the walk along a name: the value and, once it is known, the type with the
  enumerations. A step gives the error of a dictionary without types as \<open>None\<close>.
\<close>

type_synonym 'f tstate = "'f jv \<times> ('f jv \<times> 'f jv) option"

definition type_start :: "'f jv \<Rightarrow> 'f tstate" where
  "type_start d = (d, case jitem d (CName '':types:'') of Inr t \<Rightarrow> Some (t, enum_part t) | Inl _ \<Rightarrow> None)"

definition type_step :: "comp \<Rightarrow> 'f tstate \<Rightarrow> pyexc + 'f tstate option" where
  "type_step i st = sbind (jitem (fst st) i) (\<lambda>v. case snd st of
       None \<Rightarrow> sbind (jkeys v) (\<lambda>ks. if '':types:'' \<notin> set ks then Inr None
         else sbind (jitem v (CName '':types:'')) (\<lambda>t. Inr (Some (v, Some (t, enum_part t)))))
     | Some (t, e) \<Rightarrow> (case i of
         CIdx k \<Rightarrow> Inr (Some (v, Some (t, e)))
       | CName s \<Rightarrow> sbind (jitem t i) (\<lambda>t. Inr (Some (v, Some (t, e))))))"

fun type_walk :: "comp list \<Rightarrow> 'f tstate \<Rightarrow> pyexc + 'f tstate option" where
  "type_walk [] st = Inr (Some st)"
| "type_walk (i # is) st = sbind (type_step i st) (\<lambda>r. case r of None \<Rightarrow> Inr None | Some st \<Rightarrow> type_walk is st)"

definition find_type :: "'f jv \<Rightarrow> 'f jv \<Rightarrow> pyexc + 'f jv" where
  "find_type t e = (case t of
       VStr s \<Rightarrow>
         if s \<in> fst ` set typerange then Inr t
         else sbind (jkeys e) (\<lambda>ks. if s \<in> set ks then jkey e s else Inl TypeError)
     | _ \<Rightarrow> Inl TypeError)"

text \<open>\<open>getType\<close>: a \<open>TypeError\<close> is raised, any other exception on the way gives None.\<close>

definition getType :: "'f jv \<Rightarrow> string \<Rightarrow> pyexc + 'f jv option" where
  "getType d name = (case d of
       VDict m \<Rightarrow> sbind (splitname name) (\<lambda>n. case n of
           None \<Rightarrow> Inl TypeError
         | Some cs \<Rightarrow> (case type_walk cs (type_start d) of
               Inl TypeError \<Rightarrow> Inl TypeError
             | Inl _ \<Rightarrow> Inr None
             | Inr None \<Rightarrow> Inl TypeError
             | Inr (Some (v, None)) \<Rightarrow> Inl TypeError
             | Inr (Some (v, Some (t, e))) \<Rightarrow> (case t of
                   VList [] \<Rightarrow> Inl IndexError
                 | VList (t0 # ds) \<Rightarrow> sbind (find_type t0 e) (\<lambda>t1. Inr (Some (VList (t1 # ds))))
                 | _ \<Rightarrow> sbind (find_type t e) (\<lambda>t1. Inr (Some t1)))))
     | _ \<Rightarrow> Inl TypeError)"

fun get_items :: "comp list \<Rightarrow> 'f jv \<Rightarrow> pyexc + 'f jv" where
  "get_items [] v = Inr v"
| "get_items (i # is) v = sbind (jitem v i) (get_items is)"

definition getValue :: "'f jv \<Rightarrow> string \<Rightarrow> pyexc + 'f jv option" where
  "getValue d name = (case d of
       VDict m \<Rightarrow> sbind (splitname name) (\<lambda>n. case n of
           None \<Rightarrow> Inl TypeError
         | Some cs \<Rightarrow> Inr (case get_items cs d of Inl _ \<Rightarrow> None | Inr v \<Rightarrow> Some v))
     | _ \<Rightarrow> Inl TypeError)"

section \<open>Updating a typed JSON dictionary\<close>

definition simpleConvert :: "'f num_env \<Rightarrow> string \<Rightarrow> 'f jv \<Rightarrow> 'f jv \<Rightarrow> pyexc + 'f jv" where
  "simpleConvert N v t e = sbind (jkeys e) (\<lambda>ks. case t of
       VStr ty \<Rightarrow>
         if ty \<in> set ks then
           sbind (jkey e ty) (\<lambda>et. sbind (jkeys et) (\<lambda>names.
             if v \<in> set names then jkey et v
             else sbind (py_int v) (\<lambda>i. sbind (enum_values et) (\<lambda>vs.
               if list_ex (num_eq N (VInt i)) vs then Inr (VInt i) else Inl TypeError))))
         else if ty = ''CHARSTR'' then Inr (VStr v)
         else if ty = ''FLOAT'' \<or> ty = ''DOUBLE'' then sbind (ne_parse N v) (\<lambda>x. Inr (VFloat x))
         else (case map_of typerange ty of
             Some (Some (lo, hi)) \<Rightarrow> sbind (py_int v) (\<lambda>i.
               if lo \<le> i \<and> i \<le> hi then Inr (VInt i) else Inl (ValueError ''convertValue: not in range''))
           | _ \<Rightarrow> Inl TypeError)
     | _ \<Rightarrow> Inl TypeError)"

text \<open>\<open>np.prod\<close> of the dimensions.\<close>

definition dims_prod :: "'f jv list \<Rightarrow> pyexc + int" where
  "dims_prod ds = sbind (smap (\<lambda>d. case d of VInt i \<Rightarrow> Inr i | _ \<Rightarrow> Inl TypeError) ds) (\<lambda>is. Inr (prod_list is))"

definition convertValue :: "'f num_env \<Rightarrow> string \<Rightarrow> 'f jv \<Rightarrow> 'f jv \<Rightarrow> pyexc + 'f jv" where
  "convertValue N v t e = (case t of
       VStr s \<Rightarrow> simpleConvert N v t e
     | VList ts \<Rightarrow>
         let vs = split_on CHR '' '' v in
         sbind (dims_prod (tl ts)) (\<lambda>l.
           if int (length vs) \<noteq> l then Inl TypeError
           else (case ts of
               [] \<Rightarrow> Inl IndexError
             | t0 # ds \<Rightarrow> sbind (smap (\<lambda>vw. simpleConvert N vw t0 e) vs) (\<lambda>xs. Inr (VList xs))))
     | _ \<Rightarrow> Inl TypeError)"

text \<open>The assignment \<open>v[ln] = x\<close> below the path that the walk took.\<close>

fun put_at :: "comp list \<Rightarrow> 'f jv \<Rightarrow> 'f jv \<Rightarrow> 'f jv" where
  "put_at [] x d = x"
| "put_at (CName s # cs) x (VDict m) = VDict (AList.update s (put_at cs x (case map_of m s of Some v \<Rightarrow> v | None \<Rightarrow> VNone)) m)"
| "put_at (CIdx k # cs) x (VList l) = VList (l[k := put_at cs x (l ! k)])"
| "put_at (c # cs) x d = d"

definition update_at :: "'f num_env \<Rightarrow> comp list \<Rightarrow> string \<Rightarrow> 'f jv \<Rightarrow> int \<times> 'f jv" where
  "update_at N cs value d =
     (let ln = last cs; n = butlast cs in
      case type_walk n (type_start d) of
        Inl _ \<Rightarrow> (1, d)
      | Inr None \<Rightarrow> (3, d)
      | Inr (Some (v, ty)) \<Rightarrow> (case (v, ty, ln) of
            (VDict vm, Some (VDict tm, e), CName s) \<Rightarrow>
              if s \<notin> fst ` set vm \<or> s \<notin> fst ` set tm then (1, d)
              else (case sbind (dict_get tm s) (\<lambda>t. convertValue N value t e) of
                  Inl _ \<Rightarrow> (2, d)
                | Inr x \<Rightarrow> (0, put_at cs x d))
          | _ \<Rightarrow> (1, d)))"

definition updateValue :: "'f num_env \<Rightarrow> 'f jv \<Rightarrow> string \<Rightarrow> string \<Rightarrow> (pyexc + int) \<times> 'f jv" where
  "updateValue N d name value = (case d of
       VDict m \<Rightarrow> (case splitname name of
           Inl e \<Rightarrow> (Inl e, d)
         | Inr None \<Rightarrow> (Inl TypeError, d)
         | Inr (Some cs) \<Rightarrow> (case update_at N cs value d of (r, d1) \<Rightarrow> (Inr r, d1)))
     | _ \<Rightarrow> (Inr 3, d))"

end
