(* ===== verification/TypedJsonFacts.thy ===== *)
theory TypedJsonFacts
  imports TypedJsonUpdate
begin

text \<open>
  Lemmas on typed JSON: names and their parts, the walk of \<open>set\<close> as an update of one place of the
  tree, and the construction of a \<open>cdict\<close> from JSON entry by entry.
\<close>

section \<open>Names\<close>

lemma split_on_snoc: "split_on c (p @ c # q) = split_on c p @ split_on c q"
  by (induction p) (auto split: list.splits simp: split_on_nonempty)

lemma split_parts_append:
  "split_parts ps = Inr (Some xs) \<Longrightarrow> split_parts (ps @ qs) = sbind (split_parts qs) (\<lambda>r. Inr (map_option (\<lambda>r. xs @ r) r))"
proof (induction ps arbitrary: xs)
  case Nil
  then show ?case by (cases "split_parts qs") (auto simp: sbind_def option.map_ident)
next
  case (Cons p ps)
  obtain c cs where p: "p = c # cs" using Cons.prems by (cases p) auto
  show ?case
  proof (cases "is_digit c")
    case True
    then obtain i ys where "py_int p = Inr i" "split_parts ps = Inr (Some ys)" "xs = CIdx (nat i) # ys"
      using Cons.prems by (auto simp: p sbind_Inr split: sum.splits)
    then show ?thesis using Cons.IH True by (cases "split_parts qs") (auto simp: p sbind_def option.map_comp o_def)
  next
    case False
    then obtain ys where "split_parts ps = Inr (Some ys)" "xs = CName p # ys"
      using Cons.prems by (auto simp: p sbind_Inr)
    then show ?thesis using Cons.IH False by (cases "split_parts qs") (auto simp: p sbind_def option.map_comp o_def)
  qed
qed

text \<open>A name that is one part and no number.\<close>

definition plain_name :: "string \<Rightarrow> bool" where
  "plain_name k \<longleftrightarrow> k \<noteq> [] \<and> CHR ''.'' \<notin> set k \<and> \<not> is_digit (hd k)"

lemma split_plain: "plain_name k \<Longrightarrow> split_parts [k] = Inr (Some [CName k])"
  by (cases k) (simp_all add: plain_name_def sbind_def)

lemma digits_us_digits: "isnumeric s \<Longrightarrow> digits_us s"
proof (induction s rule: digits_us.induct)
  case (3 c d cs)
  then have "is_digit d" by (simp add: isnumeric_def)
  then have "d \<noteq> CHR ''_''" by (auto simp: is_digit_def)
  then show ?case using 3 by (simp add: isnumeric_def)
qed (simp_all add: isnumeric_def)

lemma digit_no_space: "is_digit c \<Longrightarrow> \<not> is_space c"
  by (auto simp: is_digit_def is_space_def Let_def)

lemma lstrip_digit: "s \<noteq> [] \<Longrightarrow> is_digit (hd s) \<Longrightarrow> lstrip s = s"
  by (cases s) (simp_all add: lstrip_def digit_no_space)

lemma strip_numeric: "isnumeric s \<Longrightarrow> strip s = s"
proof -
  assume n: "isnumeric s"
  then have "is_digit (hd s)" "is_digit (last s)" "s \<noteq> []" by (auto simp: isnumeric_def list_all_iff)
  then show ?thesis by (simp add: strip_def lstrip_digit hd_rev)
qed

lemma py_int_nat_str: "py_int (nat_str n) = Inr (int n)"
proof -
  have num: "isnumeric (nat_str n)" by (rule nat_str_isnumeric)
  obtain c cs where s: "nat_str n = c # cs" using num by (cases "nat_str n") (auto simp: isnumeric_def)
  have c: "is_digit c" using num by (simp add: s isnumeric_def)
  have "c \<noteq> CHR ''-''" "c \<noteq> CHR ''+''" using c by (auto simp: is_digit_def)
  moreover have "filter (\<lambda>c. c \<noteq> CHR ''_'') (nat_str n) = nat_str n"
    using num by (auto simp: isnumeric_def list_all_iff is_digit_def intro!: filter_True)
  ultimately show ?thesis
    using strip_numeric [OF num] digits_us_digits [OF num] digits_val_nat_str [of n]
    by (simp add: py_int_def s unsigned_int_def sbind_def)
qed

lemma split_index: "split_parts [nat_str k] = Inr (Some [CIdx k])"
proof -
  have num: "isnumeric (nat_str k)" by (rule nat_str_isnumeric)
  obtain c cs where s: "nat_str k = c # cs" using num by (cases "nat_str k") (auto simp: isnumeric_def)
  have "is_digit c" using num by (simp add: s isnumeric_def)
  then show ?thesis using py_int_nat_str [of k] by (simp add: s sbind_def)
qed

lemma nat_str_no_dot: "CHR ''.'' \<notin> set (nat_str k)"
  using nat_str_isnumeric [of k] by (auto simp: isnumeric_def list_all_iff is_digit_def)

definition base_path :: "string option \<Rightarrow> comp list \<Rightarrow> bool" where
  "base_path base cs \<longleftrightarrow> (case base of None \<Rightarrow> cs = [] | Some b \<Rightarrow> b \<noteq> [] \<and> splitname b = Inr (Some cs) \<and> (\<exists>s r. cs = CName s # r))"

lemma base_path_name:
  assumes "base_path base cs" and "plain_name k"
  shows "base_path (Some (sub_name base k)) (cs @ [CName k])"
proof (cases base)
  case None
  then show ?thesis using assms split_plain [of k] split_on_no_sep [of "CHR ''.''" k]
    by (auto simp: base_path_def sub_name_def splitname_def plain_name_def)
next
  case (Some b)
  then show ?thesis using assms split_plain [of k] split_on_no_sep [of "CHR ''.''" k] split_parts_append [of "split_on CHR ''.'' b" cs "[k]"]
    by (auto simp: base_path_def sub_name_def splitname_def plain_name_def split_on_snoc sbind_def)
qed

lemma base_path_index:
  assumes "base_path (Some b) cs"
  shows "base_path (Some (sub_name (Some b) (nat_str k))) (cs @ [CIdx k])"
  using assms split_index [of k] split_on_no_sep [OF nat_str_no_dot, of k] split_parts_append [of "split_on CHR ''.'' b" cs "[nat_str k]"]
  by (auto simp: base_path_def sub_name_def splitname_def split_on_snoc sbind_def)

section \<open>Places of the tree\<close>

text \<open>A place of \<open>d\<close>: the walk reaches \<open>x\<close> there, and \<open>K w\<close> is the tree with \<open>w\<close> instead.\<close>

definition place :: "comp list \<Rightarrow> 'f jv \<Rightarrow> 'f jv \<Rightarrow> ('f jv \<Rightarrow> 'f jv) \<Rightarrow> bool" where
  "place cs d x K \<longleftrightarrow> (\<forall>fin. walk False False fin cs d = (fst (fin x), K (snd (fin x))))"

lemma place_Nil: "place [] d d (\<lambda>w. w)"
  by (simp add: place_def)

lemma as_None: "as_dict b VNone = Some []" "as_dict b (VDict m) = Some m" "as_list b VNone = Some []" "as_list b (VList l) = Some l"
  by (simp_all add: as_dict_def as_list_def)

lemma walk_fresh: "cs \<noteq> [] \<Longrightarrow> walk b False fin cs (fresh False cs) = walk b False fin cs VNone"
  by (cases cs; cases "hd cs") (auto simp: fresh_def as_None)

lemma walk_append:
  "ds \<noteq> [] \<Longrightarrow> walk b False fin (cs @ ds) d = walk b False (walk b False fin ds) cs d"
proof (induction cs arbitrary: d)
  case (Cons c cs)
  show ?case
  proof (cases c)
    case (CName s)
    have "walk b False fin (cs @ ds) (fresh False (cs @ ds)) = walk b False (walk b False fin ds) cs (fresh False cs)"
    proof (cases cs)
      case Nil
      then show ?thesis using walk_fresh [OF Cons.prems] by (simp add: fresh_def [of False "[]"])
    next
      case (Cons c' cs')
      have "(fresh False (cs @ ds) :: 'a jv) = fresh False cs" by (simp add: Cons fresh_def)
      then show ?thesis using Cons.IH [OF Cons.prems] by simp
    qed
    then show ?thesis using Cons.IH [OF Cons.prems] CName by (simp split: option.splits)
  next
    case (CIdx k)
    then show ?thesis using Cons.IH [OF Cons.prems] by (simp add: Let_def split: option.splits)
  qed
qed simp

lemma place_name:
  assumes "place cs d x K" and "as_dict False x = Some m"
  shows "place (cs @ [CName k]) d (case map_of m k of Some v \<Rightarrow> v | None \<Rightarrow> VNone) (\<lambda>w. K (VDict (AList.update k w m)))"
  using assms by (auto simp: place_def walk_append fresh_def Let_def split: prod.splits option.splits)

lemma place_next:
  assumes "place cs d x K" and "as_list False x = Some l"
  shows "place (cs @ [CIdx (length l)]) d (VDict []) (\<lambda>w. K (VList (l @ [w])))"
  using assms by (auto simp: place_def walk_append Let_def nth_append list_update_append split: prod.splits)

text \<open>The walk finds what an earlier walk put at the place.\<close>

lemma walk_twice:
  "walk False False g cs d = (r, d1) \<Longrightarrow> (\<And>fin. walk False False fin cs d = (fst (fin x), K (snd (fin x)))) \<Longrightarrow>
    walk False False fin cs (K w) = (fst (fin w), K (snd (fin w)))"
proof (induction cs arbitrary: d d1 r x K g)
  case Nil
  have "K w' = w'" for w' using Nil.prems(2) [of "\<lambda>_. (Inr (), w')"] by simp
  then show ?case by simp
next
  case (Cons c cs)
  show ?case
  proof (cases c)
    case (CName s)
    have ne: "as_dict False d \<noteq> None"
    proof
      assume "as_dict False d = None"
      then have "fst (fin x) = Inl (ValueError ''set: override set to false'')" for fin :: "'a jv \<Rightarrow> (pyexc + unit) \<times> 'a jv"
        using Cons.prems(2) [of fin] by (simp add: CName)
      from this [of "\<lambda>_. (Inr (), VNone)"] show False by simp
    qed
    then obtain m where m: "as_dict False d = Some m" by blast
    define child where "child = (case map_of m s of Some v \<Rightarrow> v | None \<Rightarrow> fresh False cs)"
    define L where "L = (\<lambda>w. snd (walk False False (\<lambda>_. (Inr (), w)) cs child))"
    have w: "walk False False fin cs child = (fst (fin x), c') \<and> K (snd (fin x)) = VDict (AList.update s c' m)"
      if "walk False False fin cs child = (r', c')" for fin r' c'
      using Cons.prems(2) [of fin] that by (simp add: CName m child_def [symmetric])
    have L: "K w' = VDict (AList.update s (L w') m)" for w'
      using w [of "\<lambda>_. (Inr (), w')"] by (simp add: L_def) (metis prod.collapse snd_conv)
    have inj: "AList.update s a m = AList.update s b m \<Longrightarrow> a = b" for a b :: "'a jv"
      by (metis option.inject fun_upd_same update_conv')
    have ch: "walk False False fin cs child = (fst (fin x), L (snd (fin x)))" for fin
      using w [of fin] L inj by (cases "walk False False fin cs child") (metis jv.inject(8) fst_conv)
    have IH: "walk False False fin cs (L w) = (fst (fin w), L (snd (fin w)))"
      using Cons.IH [of _ child, OF _ ch] by (metis prod.collapse)
    have "map_of (AList.update s (L w) m) s = Some (L w)" by (simp add: update_conv')
    then show ?thesis using IH L by (simp add: CName as_dict_def)
  next
    case (CIdx k)
    have ne: "as_list False d \<noteq> None"
    proof
      assume "as_list False d = None"
      then have "fst (fin x) = Inl (ValueError ''set: override set to false'')" for fin :: "'a jv \<Rightarrow> (pyexc + unit) \<times> 'a jv"
        using Cons.prems(2) [of fin] by (simp add: CIdx)
      from this [of "\<lambda>_. (Inr (), VNone)"] show False by simp
    qed
    then obtain l where l: "as_list False d = Some l" by blast
    define l1 where "l1 = l @ replicate (k + 1 - length l) (VDict [])"
    have k: "k < length l1" by (simp add: l1_def)
    define L where "L = (\<lambda>w. snd (walk False False (\<lambda>_. (Inr (), w)) cs (l1 ! k)))"
    have w: "walk False False fin cs (l1 ! k) = (fst (fin x), c') \<and> K (snd (fin x)) = VList (l1[k := c'])"
      if "walk False False fin cs (l1 ! k) = (r', c')" for fin r' c'
      using Cons.prems(2) [of fin] that unfolding l1_def by (simp add: CIdx l Let_def)
    have L: "K w' = VList (l1[k := L w'])" for w'
      using w [of "\<lambda>_. (Inr (), w')"] by (simp add: L_def) (metis prod.collapse snd_conv)
    have inj: "l1[k := a] = l1[k := b] \<Longrightarrow> a = b" for a b using k by (metis nth_list_update_eq)
    have ch: "walk False False fin cs (l1 ! k) = (fst (fin x), L (snd (fin x)))" for fin
      using w [of fin] L inj by (cases "walk False False fin cs (l1 ! k)") (metis jv.inject(7) fst_conv)
    have IH: "walk False False fin cs (L w) = (fst (fin w), L (snd (fin w)))"
      using Cons.IH [of _ "l1 ! k", OF _ ch] by (metis prod.collapse)
    have len: "k + 1 - length (l1[k := L w]) = 0" using k by simp
    show ?thesis using IH L k by (simp add: CIdx as_list_def Let_def)
  qed
qed

lemma place_again: "place cs d x K \<Longrightarrow> place cs (K w) w K"
  unfolding place_def using walk_twice [of _ cs d _ _ x K] by (metis prod.collapse)

end
