(* ===== verification/TypedJsonBuild.thy ===== *)
theory TypedJsonBuild
  imports TypedJsonFacts
begin

text \<open>
  The round trip of typed JSON: the types that \<open>create_json\<close> gives, and \<open>init_from_json\<close> as the
  construction of the same tree.
\<close>

section \<open>The trees that come back\<close>

definition entry_name :: "string \<Rightarrow> bool" where
  "entry_name k \<longleftrightarrow> plain_name k \<and> k \<notin> set header_names"

definition json_type :: "'f jv \<Rightarrow> 'f jv" where
  "json_type v = (case create_json v of Inr (d, t) \<Rightarrow> t | Inl e \<Rightarrow> VNone)"

text \<open>
  A scalar has a type that it may be set with, an array may have an enumeration; an array without comes
  back from its elements and dimensions; the dictionaries of a list have the same types; no dictionary
  and no list is empty.
\<close>

definition scalar_ok :: "'f num_env \<Rightarrow> 'f entries \<Rightarrow> 'f jv \<Rightarrow> 'f jv \<Rightarrow> bool" where
  "scalar_ok N enums t x = (case t of
       VStr ty \<Rightarrow> (case x of
           VStr s \<Rightarrow> ty = ''CHARSTR''
         | _ \<Rightarrow> is_number x \<and> (case map_of enums ty of
               None \<Rightarrow> ty \<in> fst ` set typedict
             | Some e \<Rightarrow> (case e of VDict m \<Rightarrow> list_ex (num_eq N x) (map snd m) | _ \<Rightarrow> False)))
     | _ \<Rightarrow> False)"

definition enum_array :: "'f entries \<Rightarrow> 'f jv \<Rightarrow> 'f jv \<Rightarrow> bool" where
  "enum_array enums t x \<longleftrightarrow> (case t of
       VStr ty \<Rightarrow> (case x of VArr dt sh xs \<Rightarrow> ty \<in> fst ` set enums | _ \<Rightarrow> False)
     | _ \<Rightarrow> False)"

fun json_node :: "'f num_env \<Rightarrow> 'f entries \<Rightarrow> 'f jv \<Rightarrow> bool" where
  "json_node N enums (VTup t x) = (scalar_ok N enums t x \<or> enum_array enums t x)"
| "json_node N enums (VArr dt sh xs) = (dt \<in> fst ` set nptypedict \<and> list_all is_number xs \<and>
     ne_array N dt xs (Some (map int sh)) = Inr (VArr dt sh xs))"
| "json_node N enums (VDict m) = (m \<noteq> [] \<and> distinct (map fst m) \<and> list_all (\<lambda>(k, v). entry_name k \<and> json_node N enums v) m)"
| "json_node N enums (VList l) = (l \<noteq> [] \<and>
     list_all (\<lambda>v. (case v of VDict m \<Rightarrow> True | _ \<Rightarrow> False) \<and> json_node N enums v \<and> json_type v = json_type (hd l)) l)"
| "json_node N enums _ = False"

text \<open>What is read back of a value: the array of an enumeration array, without its enumeration.\<close>

fun read_back :: "'f jv \<Rightarrow> 'f jv" where
  "read_back (VTup t x) = (case x of VArr dt sh xs \<Rightarrow> x | _ \<Rightarrow> VTup t x)"
| "read_back (VDict m) = VDict (map (\<lambda>(k, v). (k, read_back v)) m)"
| "read_back (VList l) = VList (map read_back l)"
| "read_back v = v"

fun has_enum_array :: "'f jv \<Rightarrow> bool" where
  "has_enum_array (VTup t x) = (case x of VArr dt sh xs \<Rightarrow> True | _ \<Rightarrow> False)"
| "has_enum_array (VDict m) = list_ex (\<lambda>(k, v). has_enum_array v) m"
| "has_enum_array (VList l) = list_ex has_enum_array l"
| "has_enum_array v = False"

lemma read_back_same: "\<not> has_enum_array v \<Longrightarrow> read_back v = v"
proof (induction v rule: read_back.induct)
  case (2 m)
  have "read_back v = v" if "(k, v) \<in> set m" for k v using 2 that by (force simp: list_ex_iff)
  then show ?case by (auto intro!: map_idI)
next
  case (3 l)
  then show ?case by (auto simp: list_ex_iff intro!: map_idI)
qed (auto split: jv.splits)

lemma read_back_dict: "(\<exists>m. read_back v = VDict m) \<longleftrightarrow> (\<exists>m. v = VDict m)"
  by (cases v) (auto split: jv.splits)

lemma read_back_keys: "fst ` set (map (\<lambda>(k, v). (k, read_back v)) m) = fst ` set m"
  by (induction m) auto

section \<open>Types\<close>

fun distinct_keys :: "'f jv \<Rightarrow> bool" where
  "distinct_keys (VDict m) = (distinct (map fst m) \<and> list_all (\<lambda>(k, v). distinct_keys v) m)"
| "distinct_keys _ = True"

lemma merge_disjoint:
  "distinct (map fst (t1 @ t2)) \<Longrightarrow> merge_dict t1 t2 = t1 @ t2"
proof (induction t2 arbitrary: t1)
  case (Cons p t2)
  obtain k v where p: "p = (k, v)" by (cases p)
  have "map_of t1 k = None" using Cons.prems p by (auto simp: map_of_eq_None_iff)
  then show ?case using Cons.IH [of "t1 @ [(k, v)]"] Cons.prems p by simp
qed simp

lemma merge_self:
  "(\<And>k v. (k, v) \<in> set t2 \<Longrightarrow> map_of t1 k = Some v \<and> distinct_keys v) \<Longrightarrow> merge_dict t1 t2 = t1"
proof (induction t1 t2 rule: merge_dict.induct)
  case (2 t1 k v t2)
  have kv: "map_of t1 k = Some v" "distinct_keys v" using 2(3) [of k v] by simp_all
  have "(case v of VDict a \<Rightarrow> (case v of VDict b \<Rightarrow> AList.update k (VDict (merge_dict a b)) t1 | _ \<Rightarrow> t1) | _ \<Rightarrow> t1) = t1"
  proof (cases v)
    case (VDict b)
    have "merge_dict b b = b"
    proof (rule 2(1) [OF kv(1) VDict VDict])
      show "map_of b k' = Some v' \<and> distinct_keys v'" if "(k', v') \<in> set b" for k' v'
        using kv(2) that by (auto simp: VDict list_all_iff)
    qed
    moreover have "AList.update k (VDict b) t1 = t1" using kv(1)
    proof (induction t1)
      case (Cons q t1)
      then show ?case by (cases q) (auto simp: VDict split: if_splits)
    qed simp
    ultimately show ?thesis by (simp add: VDict)
  qed simp_all
  then have inner: "(case map_of t1 k of None \<Rightarrow> t1 @ [(k, v)]
      | Some w \<Rightarrow> (case w of VDict a \<Rightarrow> (case v of VDict b \<Rightarrow> AList.update k (VDict (merge_dict a b)) t1 | _ \<Rightarrow> t1) | _ \<Rightarrow> t1)) = t1"
    by (simp add: kv(1))
  have "merge_dict t1 t2 = t1"
    by (rule 2(2) [unfolded inner]) (use 2(3) in \<open>meson list.set_intros(2)\<close>)
  then show ?case unfolding merge_dict.simps inner .
qed simp

lemma create_entries_keys:
  "create_entries m = Inr (d, t) \<Longrightarrow> map fst d = map fst m \<and> map fst t = map fst m"
  by (induction m arbitrary: d t) (auto simp: sbind_Inr split: prod.splits)

lemma create_entries_types:
  "create_entries m = Inr (d, t) \<Longrightarrow> list_all2 (\<lambda>(k, v) (k', t). k = k' \<and> t = json_type v) m t"
  by (induction m arbitrary: d t) (auto simp: sbind_Inr json_type_def split: prod.splits)

lemma create_items_same:
  assumes "\<And>v. v \<in> set l \<Longrightarrow> \<exists>d. create_json v = Inr (d, VDict tm)" and "distinct_keys (VDict tm)"
  shows "\<exists>ds. create_items l tm = Inr (ds, tm) \<and> list_all2 (\<lambda>v d. create_json v = Inr (d, VDict tm)) l ds"
  using assms(1)
proof (induction l)
  case (Cons v l)
  obtain d where d: "create_json v = Inr (d, VDict tm)" using Cons.prems by auto
  have "merge_dict tm tm = tm"
    by (rule merge_self) (use assms(2) in \<open>auto simp: list_all_iff\<close>)
  then show ?case using Cons d by (fastforce simp: sbind_def merge_into_def)
qed simp

lemma create_items_type:
  assumes "l \<noteq> []" and "\<And>v. v \<in> set l \<Longrightarrow> \<exists>d. create_json v = Inr (d, VDict tm)" and "distinct_keys (VDict tm)"
  shows "\<exists>ds. create_items l [] = Inr (ds, tm) \<and> list_all2 (\<lambda>v d. create_json v = Inr (d, VDict tm)) l ds"
proof (cases l)
  case (Cons v l')
  have "merge_dict [] tm = tm" using merge_disjoint [of "[]" tm] assms(3) by simp
  moreover obtain d where "create_json v = Inr (d, VDict tm)" using assms(2) Cons by auto
  moreover obtain ds where "create_items l' tm = Inr (ds, tm)" "list_all2 (\<lambda>v d. create_json v = Inr (d, VDict tm)) l' ds"
    using create_items_same [of l' tm] assms Cons by auto
  ultimately show ?thesis by (auto simp: Cons sbind_def merge_into_def)
qed (use assms in simp)

lemma jv_is_dict: "(case v of VDict m \<Rightarrow> True | _ \<Rightarrow> False) \<longleftrightarrow> (\<exists>m. v = VDict m)"
  by (cases v) simp_all

lemma create_json_node:
  "json_node N enums v \<Longrightarrow> \<exists>d. create_json v = Inr (d, json_type v) \<and> distinct_keys (json_type v) \<and>
     (nested d \<longleftrightarrow> nested v) \<and> (\<forall>m. v = VDict m \<longrightarrow> (\<exists>t. json_type v = VDict t))"
proof (induction N enums v rule: json_node.induct)
  case (1 N enums t x)
  then have "distinct_keys t" "\<not> nested x" by (auto simp: scalar_ok_def enum_array_def nested_def split: jv.splits)
  then show ?case by (simp add: json_type_def nested_def)
next
  case (2 N enums dt sh xs)
  obtain ty where ty: "dict_get nptypedict dt = Inr ty" using 2 by (auto simp: dict_get_def nptypedict_def)
  have "checknumlist xs" using 2
    by (auto simp: checknumlist_def list_all_iff) (metis is_number.simps num_tree.simps jv.exhaust)
  then show ?case using ty by (simp add: json_type_def sbind_def nested_def)
next
  case (3 N enums m)
  have IH: "\<exists>d. create_json v = Inr (d, json_type v) \<and> distinct_keys (json_type v)" if "(k, v) \<in> set m" for k v
    using 3 that by (fastforce simp: list_all_iff)
  then have "\<exists>d t. create_entries m = Inr (d, t) \<and> list_all (\<lambda>(k, v). distinct_keys v) t"
  proof (induction m)
    case (Cons p m)
    obtain k v where p: "p = (k, v)" by (cases p)
    have "\<exists>d. create_json v = Inr (d, json_type v) \<and> distinct_keys (json_type v)" if "(k, v) \<in> set m" for k v
      using Cons.prems [of k v] that by simp
    then obtain d t where "create_entries m = Inr (d, t)" "list_all (\<lambda>(k, v). distinct_keys v) t" using Cons.IH by blast
    moreover obtain e where "create_json v = Inr (e, json_type v)" "distinct_keys (json_type v)" using Cons.prems p by auto
    ultimately show ?case by (simp add: p sbind_def)
  qed simp
  then obtain d t where e: "create_entries m = Inr (d, t)" "list_all (\<lambda>(k, v). distinct_keys v) t" by blast
  then have "distinct (map fst t)" using create_entries_keys [OF e(1)] 3(2) by simp
  then show ?case using e by (simp add: json_type_def sbind_def nested_def)
next
  case (4 N enums l)
  have ne: "l \<noteq> []" and all: "\<forall>v\<in>set l. (case v of VDict m \<Rightarrow> True | _ \<Rightarrow> False) \<and> json_node N enums v \<and> json_type v = json_type (hd l)"
    using 4(2) unfolding json_node.simps list_all_iff by blast+
  have el: "\<exists>m. v = VDict m" "json_node N enums v" "json_type v = json_type (hd l)" if "v \<in> set l" for v
    using bspec [OF all that] jv_is_dict [of v] by blast+
  have hd: "hd l \<in> set l" using ne by simp
  have IH: "\<exists>d. create_json v = Inr (d, json_type v) \<and> distinct_keys (json_type v) \<and> (\<exists>t. json_type v = VDict t)" if "v \<in> set l" for v
    using 4(1) [OF that el(2) [OF that]] el(1) [OF that] by (elim exE conjE) simp
  obtain tm where tm: "json_type (hd l) = VDict tm" "distinct_keys (VDict tm)" using IH [OF hd] by metis
  have "\<exists>d. create_json v = Inr (d, VDict tm)" if "v \<in> set l" for v using IH [OF that] el(3) [OF that] tm(1) by auto
  then obtain ds where ds: "create_items l [] = Inr (ds, tm)" "list_all2 (\<lambda>v d. create_json v = Inr (d, VDict tm)) l ds"
    using create_items_type [OF ne, of tm] tm(2) by blast
  have "\<not> checknumlist l" "\<not> checknumlist ds"
  proof -
    obtain v l' where l: "l = v # l'" using ne by (cases l) auto
    obtain m where m: "v = VDict m" using el(1) [of v] l by auto
    obtain d ds' where "ds = d # ds'" "create_json v = Inr (d, VDict tm)" using ds(2) l by (auto simp: list_all2_Cons1)
    moreover have "\<exists>x. d = VDict x" using calculation(2) m by (auto simp: sbind_Inr)
    ultimately show "\<not> checknumlist l" "\<not> checknumlist ds" using l m by (auto simp: checknumlist_def)
  qed
  then show ?case using ds(1) tm(2) by (simp add: json_type_def sbind_def nested_def)
qed simp_all

section \<open>Building the tree\<close>

lemma place_dict:
  assumes "place (CName s # r) d x K"
  shows "\<exists>m. K w = VDict m"
proof -
  have w: "walk False False (\<lambda>_. (Inr (), w)) (CName s # r) d = (Inr (), K w)" using assms by (simp add: place_def)
  obtain m where m: "as_dict False d = Some m" using w by (cases "as_dict False d") auto
  obtain r' c' where "walk False False (\<lambda>_. (Inr (), w)) r (case map_of m s of Some v \<Rightarrow> v | None \<Rightarrow> fresh False r) = (r', c')"
    by (cases "walk False False (\<lambda>_. (Inr (), w)) r (case map_of m s of Some v \<Rightarrow> v | None \<Rightarrow> fresh False r)")
  then have "K w = VDict (AList.update s c' m)" using w m by simp
  then show ?thesis by blast
qed

lemma store_simple_new:
  "store_simple N enums typ override (VStr s) d = Inr (VTup (VStr ''CHARSTR'') (VStr s))"
  "store_simple N enums typ override (VTup t x) VNone = Inr (VTup t x)"
  "typ \<notin> fst ` set enums \<Longrightarrow> store_simple N enums typ override (VArr dt sh xs) VNone = Inr (VArr dt sh xs)"
  by (simp_all add: store_simple_def)

text \<open>The state after the place got a value.\<close>

definition built :: "'f cdict \<Rightarrow> 'f jv \<Rightarrow> 'f cdict" where
  "built c d = c\<lparr>cd_dict := the_entries d\<rparr>"

lemma built_simps [simp]: "cd_enumdef (built c d) = cd_enumdef c" "built (built c d) e = built c e" "cd_dict (built c (VDict m)) = m"
  by (simp_all add: built_def the_entries_def)

lemma cdict_set_place:
  assumes "base_path (Some b) cs" and "place cs (VDict (cd_dict c)) x K"
    and "prepare N (cd_enumdef c) typ arg = Inr (PSimple p)" and "store_simple N (cd_enumdef c) typ False p x = Inr w"
  shows "cdict_set N b arg typ False False c = (Inr (), built c (K w))"
proof -
  obtain s r where cs: "cs = CName s # r" "b \<noteq> []" "splitname b = Inr (Some cs)" using assms(1) by (auto simp: base_path_def)
  have "walk False False (store N (cd_enumdef c) typ False False (PSimple p)) cs (VDict (cd_dict c)) = (Inr (), K w)"
    using assms(2,4) by (simp add: place_def store_def)
  then show ?thesis using cs assms(3) by (simp add: cdict_set_def eff_simps is_simple_def built_def)
qed

lemma list_nested: "l \<noteq> [] \<Longrightarrow> list_all (\<lambda>v. (case v of VDict m \<Rightarrow> True | _ \<Rightarrow> False) \<and> P v) l \<Longrightarrow> nested (VList l)"
  by (cases l) (auto simp: nested_def checknumlist_def jv_is_dict)

text \<open>A scalar or an array at a new place.\<close>

lemma init_leaf_node:
  assumes "json_node N (cd_enumdef c) v" and "create_json v = Inr (d, t)" and "\<not> nested d"
    and "base_path (Some b) cs" and "place cs (VDict (cd_dict c)) VNone K" and "''INT32'' \<notin> fst ` set (cd_enumdef c)"
  shows "init_leaf N b d t c = (Inr (), built c (K (read_back v)))"
proof (cases v)
  case (VTup t' x)
  then obtain ty where t: "t' = VStr ty" using assms(1) by (auto simp: scalar_ok_def enum_array_def split: jv.splits)
  have dt: "d = x" "t = VStr ty" using assms(2) by (simp_all add: VTup t)
  consider (str) s where "x = VStr s" | (arr) dy sh xs where "x = VArr dy sh xs"
    | (num) "scalar_ok N (cd_enumdef c) t' x" "\<not> (\<exists>s. x = VStr s)" "\<not> (\<exists>dy sh xs. x = VArr dy sh xs)"
    using assms(1) by (cases x) (auto simp: VTup enum_array_def t)
  then show ?thesis
  proof cases
    case arr
    have "cdict_set N b (AVal x) ''INT32'' False False c = (Inr (), built c (K (VArr dy sh xs)))"
      unfolding arr by (rule cdict_set_place [OF assms(4,5)], simp add: prepare_def) (rule store_simple_new(3) [OF assms(6)])
    then show ?thesis by (simp add: init_leaf_def dt VTup arr)
  next
    case str
    note x = str
    have v: "read_back v = v" by (simp add: VTup x)
    have ty: "ty = ''CHARSTR''" using assms(1) by (simp add: VTup t x scalar_ok_def enum_array_def)
    have "cdict_set N b (AVal x) ty False False c = (Inr (), built c (K v))"
      unfolding VTup t x ty by (rule cdict_set_place [OF assms(4,5)], simp add: prepare_def) (rule store_simple_new(1))
    then show ?thesis by (simp add: init_leaf_def dt x v)
  next
    case num
    note ok = num
    have v: "read_back v = v" using ok(3) by (cases x) (simp_all add: VTup)
    have num: "is_number x" using ok by (cases x) (auto simp: t scalar_ok_def)
    have "prepare N (cd_enumdef c) ty (AVal x) = Inr (PSimple (VTup (VStr ty) x))"
      using ok num
      by (cases x) (auto simp: VTup t scalar_ok_def prepare_def enum_values_def sbind_def split: option.splits jv.splits)
    then have "cdict_set N b (AVal x) ty False False c = (Inr (), built c (K v))"
      by (rule cdict_set_place [OF assms(4,5)]) (simp add: store_simple_new VTup t)
    moreover have "init_leaf N b x (VStr ty) = cdict_set N b (AVal x) ty False False"
      using num by (cases x) (simp_all add: init_leaf_def)
    ultimately show ?thesis by (simp add: dt v)
  qed
next
  case (VArr dt sh xs)
  have a: "ne_array N dt xs (Some (map int sh)) = Inr v" "dt \<in> fst ` set nptypedict" using assms(1) by (simp_all add: VArr)
  then obtain ty where ty: "dict_get nptypedict dt = Inr ty" "dict_get typedict ty = Inr dt"
    by (auto simp: nptypedict_def typedict_def dict_get_def)
  have d: "d = VList xs" "t = VList (VStr ty # map (\<lambda>n. VInt (int n)) sh)" using assms(2) ty by (simp_all add: VArr sbind_def)
  have "smap (\<lambda>d. case d of VInt i \<Rightarrow> Inr i | _ \<Rightarrow> Inl TypeError) (map (\<lambda>n. VInt (int n) :: 'a jv) sh) = Inr (map int sh)"
    by (induction sh) simp_all
  then have at: "array_type t = Inr (dt, map int sh)" using ty by (simp add: d array_type_def sbind_def)
  have "cdict_set N b (AVal v) ''INT32'' False False c = (Inr (), built c (K v))"
    unfolding VArr by (rule cdict_set_place [OF assms(4,5)], simp add: prepare_def) (rule store_simple_new(3) [OF assms(6)])
  then show ?thesis using at a(1) by (simp add: init_leaf_def d(1) eff_simps VArr)
next
  case (VList l)
  have "nested v" using assms(1) unfolding VList json_node.simps by (elim conjE) (rule list_nested)
  moreover have "nested d \<longleftrightarrow> nested v" using create_json_node [OF assms(1)] assms(2) by auto
  ultimately show ?thesis using assms(3) by simp
qed (use assms in \<open>auto simp: sbind_Inr nested_def\<close>)

text \<open>What the construction does at a place that has no entries yet.\<close>

definition init_node :: "'f num_env \<Rightarrow> string \<Rightarrow> 'f jv \<Rightarrow> 'f jv \<Rightarrow> ('f cdict, unit) eff" where
  "init_node N b d t = (if nested d then init_from_json N d t (Some b) else init_leaf N b d t)"

definition builds :: "'f num_env \<Rightarrow> 'f entries \<Rightarrow> 'f jv \<Rightarrow> bool" where
  "builds N enums v \<longleftrightarrow> (\<forall>b cs (c :: 'f cdict) x K d t. cd_enumdef c = enums \<longrightarrow> create_json v = Inr (d, t) \<longrightarrow> base_path (Some b) cs \<longrightarrow>
     place cs (VDict (cd_dict c)) x K \<longrightarrow> (x = VNone \<or> x = VDict [] \<and> (\<exists>m. v = VDict m)) \<longrightarrow>
     init_node N b d t c = (Inr (), built c (K (read_back v))))"

lemma buildsD:
  "builds N (cd_enumdef c) v \<Longrightarrow> create_json v = Inr (d, t) \<Longrightarrow> base_path (Some b) cs \<Longrightarrow> place cs (VDict (cd_dict c)) x K \<Longrightarrow>
    x = VNone \<or> x = VDict [] \<and> (\<exists>m. v = VDict m) \<Longrightarrow> init_node N b d t c = (Inr (), built c (K (read_back v)))"
  by (auto simp: builds_def)

text \<open>A place whose path begins with a name stays one of the built state.\<close>

lemma place_built:
  assumes "place cs (VDict (cd_dict c)) x K" and "cs = [] \<and> (\<exists>m. w = VDict m) \<or> (\<exists>s r. cs = CName s # r)"
  shows "place cs (VDict (cd_dict (built c (K w)))) w K"
proof -
  have "\<exists>m. K w = VDict m"
  proof (cases cs)
    case Nil
    then have "K w = w" using assms(1) by (auto simp: place_def dest: spec [of _ "\<lambda>_. (Inr (), w)"])
    then show ?thesis using assms(2) Nil by simp
  next
    case (Cons c' r)
    then show ?thesis using assms place_dict by fastforce
  qed
  then show ?thesis using place_again [OF assms(1), of w] by auto
qed

lemma update_new: "k \<notin> fst ` set m \<Longrightarrow> AList.update k v m = m @ [(k, v)]"
  by (induction m) auto

lemma init_entries_build:
  assumes "\<And>k v. (k, v) \<in> set m \<Longrightarrow> entry_name k \<and> builds N (cd_enumdef c) v" and "create_entries m = Inr (d, t)"
    and "\<And>k ty. (k, ty) \<in> set t \<Longrightarrow> map_of T k = Some ty" and "distinct (map fst (m0 @ m))" and "m \<noteq> []"
    and "base_path base cs" and "place cs (VDict (cd_dict c)) x K" and "as_dict False x = Some m0"
  shows "init_json_entries N d (VDict T) base c = (Inr (), built c (K (VDict (m0 @ map (\<lambda>(k, v). (k, read_back v)) m))))"
  using assms
proof (induction m arbitrary: c d t m0 x)
  case (Cons p m)
  obtain k v where p: "p = (k, v)" by (cases p)
  obtain d1 t1 d2 t2 where dt: "create_json v = Inr (d1, t1)" "create_entries m = Inr (d2, t2)" "d = (k, d1) # d2" "t = (k, t1) # t2"
    using Cons.prems(2) by (auto simp: p sbind_Inr split: prod.splits)
  have nm: "plain_name k" "k \<notin> set header_names" "builds N (cd_enumdef c) v" using Cons.prems(1) [of k v] by (simp_all add: p entry_name_def)
  have k0: "map_of m0 k = None" "k \<notin> fst ` set m0" using Cons.prems(4) by (auto simp: p map_of_eq_None_iff)
  have pl: "place (cs @ [CName k]) (VDict (cd_dict c)) VNone (\<lambda>w. K (VDict (m0 @ [(k, w)])))"
    using place_name [OF Cons.prems(7,8), of k] k0 by (simp add: update_new)
  have one: "init_node N (sub_name base k) d1 t1 c = (Inr (), built c (K (VDict (m0 @ [(k, read_back v)]))))"
    using buildsD [OF nm(3) dt(1) base_path_name [OF Cons.prems(6) nm(1)] pl] by simp
  have "map_of T k = Some t1" using Cons.prems(3) [of k t1] by (simp add: dt)
  then have step: "init_json_entries N d (VDict T) base c = init_json_entries N d2 (VDict T) base (built c (K (VDict (m0 @ [(k, read_back v)]))))"
    using one nm(2) by (simp add: dt eff_simps jkey_def dict_get_def init_node_def)
  show ?case
  proof (cases "m = []")
    case True
    then show ?thesis using step dt(2) by (simp add: p eff_simps)
  next
    case False
    have "cs = [] \<or> (\<exists>s r. cs = CName s # r)" using Cons.prems(6) by (auto simp: base_path_def split: option.splits)
    then have pl2: "place cs (VDict (cd_dict (built c (K (VDict (m0 @ [(k, read_back v)])))))) (VDict (m0 @ [(k, read_back v)])) K"
      using place_built [OF Cons.prems(7), of "VDict (m0 @ [(k, read_back v)])"] by auto
    have "init_json_entries N d2 (VDict T) base (built c (K (VDict (m0 @ [(k, read_back v)])))) =
        (Inr (), built (built c (K (VDict (m0 @ [(k, read_back v)])))) (K (VDict ((m0 @ [(k, read_back v)]) @ map (\<lambda>(k, v). (k, read_back v)) m))))"
    proof (rule Cons.IH [OF _ dt(2) _ _ False Cons.prems(6) pl2])
      show "entry_name k' \<and> builds N (cd_enumdef (built c (K (VDict (m0 @ [(k, read_back v)]))))) v'" if "(k', v') \<in> set m" for k' v'
        using Cons.prems(1) [of k' v'] that by simp
      show "map_of T k' = Some ty" if "(k', ty) \<in> set t2" for k' ty using Cons.prems(3) [of k' ty] that by (simp add: dt)
    qed (use Cons.prems(4) in \<open>simp_all add: p as_dict_def\<close>)
    then show ?thesis using step by (simp add: p)
  qed
qed simp

lemma init_items_build:
  assumes "list_all2 (\<lambda>v d. create_json v = Inr (d, T) \<and> (\<exists>m. v = VDict m) \<and> (\<exists>m. d = VDict m) \<and> builds N (cd_enumdef c) v) l ds"
    and "l \<noteq> []" and "base_path (Some b) cs" and "place cs (VDict (cd_dict c)) x K" and "as_list False x = Some l0"
  shows "init_json_items N (length l0) ds T (Some b) c = (Inr (), built c (K (VList (l0 @ map read_back l))))"
  using assms
proof (induction l arbitrary: c ds l0 x)
  case (Cons v l)
  obtain d ds' where ds: "ds = d # ds'" "create_json v = Inr (d, T)" "\<exists>m. v = VDict m" "\<exists>m. d = VDict m" "builds N (cd_enumdef c) v"
    "list_all2 (\<lambda>v d. create_json v = Inr (d, T) \<and> (\<exists>m. v = VDict m) \<and> (\<exists>m. d = VDict m) \<and> builds N (cd_enumdef c) v) l ds'"
    using Cons.prems(1) by (auto simp: list_all2_Cons1)
  let ?c = "built c (K (VList (l0 @ [read_back v])))"
  have pl: "place (cs @ [CIdx (length l0)]) (VDict (cd_dict c)) (VDict []) (\<lambda>w. K (VList (l0 @ [w])))"
    by (rule place_next [OF Cons.prems(4,5)])
  have "init_node N (sub_name (Some b) (nat_str (length l0))) d T c = (Inr (), ?c)"
    using buildsD [OF ds(5,2) base_path_index [OF Cons.prems(3)] pl] ds(3) by simp
  moreover have "nested d" using ds(4) by (auto simp: nested_def)
  ultimately have step: "init_json_items N (length l0) ds T (Some b) c = init_json_items N (length (l0 @ [read_back v])) ds' T (Some b) ?c"
    by (simp add: ds(1) init_node_def eff_simps)
  show ?case
  proof (cases "l = []")
    case True
    then show ?thesis using step ds(6) by (simp add: eff_simps)
  next
    case False
    have "\<exists>s r. cs = CName s # r" using Cons.prems(3) by (auto simp: base_path_def)
    then have pl2: "place cs (VDict (cd_dict ?c)) (VList (l0 @ [read_back v])) K" using place_built [OF Cons.prems(4)] by blast
    have "init_json_items N (length (l0 @ [read_back v])) ds' T (Some b) ?c = (Inr (), built ?c (K (VList ((l0 @ [read_back v]) @ map read_back l))))"
      by (rule Cons.IH [OF _ False Cons.prems(3) pl2]) (use ds(6) in \<open>simp_all add: as_list_def\<close>)
    then show ?thesis using step by simp
  qed
qed simp


lemma leaf_builds:
  assumes "json_node N enums v" and "\<not> nested v" and "''INT32'' \<notin> fst ` set enums"
  shows "builds N enums v"
  unfolding builds_def
proof (intro allI impI)
  fix b cs x K d t and c :: "'a cdict"
  assume a: "cd_enumdef c = enums" "create_json v = Inr (d, t)" "base_path (Some b) cs" "place cs (VDict (cd_dict c)) x K"
    "x = VNone \<or> x = VDict [] \<and> (\<exists>m. v = VDict m)"
  have d: "\<not> nested d" using create_json_node [OF assms(1)] a(2) assms(2) by auto
  have x: "x = VNone" using a(5) assms(2) by (auto simp: nested_def)
  show "init_node N b d t c = (Inr (), built c (K (read_back v)))"
    using init_leaf_node [of N c v d t b cs K] assms(1,3) a(1-4) d x by (simp add: init_node_def)
qed

lemma node_builds: "json_node N enums v \<Longrightarrow> ''INT32'' \<notin> fst ` set enums \<Longrightarrow> builds N enums v"
proof (induction N enums v rule: json_node.induct)
  case (3 N enums m)
  have el: "entry_name k" "json_node N enums v" if "(k, v) \<in> set m" for k v using 3(2) that by (auto simp: list_all_iff)
  have IH: "builds N enums v" if "(k, v) \<in> set m" for k v using 3(1) [OF that refl] el [OF that] 3(3) by simp
  show ?case
    unfolding builds_def
  proof (intro allI impI)
    fix b cs x K d t and c :: "'a cdict"
    assume a: "cd_enumdef c = enums" "create_json (VDict m) = Inr (d, t)" "base_path (Some b) cs" "place cs (VDict (cd_dict c)) x K"
      "x = VNone \<or> x = VDict [] \<and> (\<exists>m'. VDict m = VDict m')"
    obtain d' t' where dt: "create_entries m = Inr (d', t')" "d = VDict d'" "t = VDict t'" using a(2) by (auto simp: sbind_Inr)
    have keys: "distinct (map fst t')" "m \<noteq> []" "distinct (map fst m)" using create_entries_keys [OF dt(1)] 3(2) by simp_all
    have "init_json_entries N d' (VDict t') (Some b) c = (Inr (), built c (K (VDict ([] @ map (\<lambda>(k, v). (k, read_back v)) m))))"
      by (rule init_entries_build [OF _ dt(1) _ _ keys(2) a(3,4)])
        (use el IH keys a(1,5) in \<open>auto simp: as_None\<close>)
    then show "init_node N b d t c = (Inr (), built c (K (read_back (VDict m))))" by (simp add: init_node_def dt nested_def)
  qed
next
  case (4 N enums l)
  have ne: "l \<noteq> []" and all: "\<forall>v\<in>set l. (case v of VDict m \<Rightarrow> True | _ \<Rightarrow> False) \<and> json_node N enums v \<and> json_type v = json_type (hd l)"
    using 4(2) unfolding json_node.simps list_all_iff by blast+
  have el: "\<exists>m. v = VDict m" "json_node N enums v" "json_type v = json_type (hd l)" if "v \<in> set l" for v
    using bspec [OF all that] jv_is_dict [of v] by blast+
  have IH: "builds N enums v" if "v \<in> set l" for v using 4(1) [OF that el(2) [OF that] 4(3)] .
  have cr: "\<exists>d. create_json v = Inr (d, json_type v) \<and> distinct_keys (json_type v) \<and> (\<exists>t. json_type v = VDict t)" if "v \<in> set l" for v
    using create_json_node [OF el(2) [OF that]] el(1) [OF that] by blast
  have hd: "hd l \<in> set l" using ne by simp
  obtain tm where tm: "json_type (hd l) = VDict tm" "distinct_keys (VDict tm)" using cr [OF hd] by metis
  have "\<exists>d. create_json v = Inr (d, VDict tm)" if "v \<in> set l" for v using cr [OF that] el(3) [OF that] tm(1) by auto
  then obtain ds where ds: "create_items l [] = Inr (ds, tm)" "list_all2 (\<lambda>v d. create_json v = Inr (d, VDict tm)) l ds"
    using create_items_type [OF ne, of tm] tm(2) by blast
  show ?case
    unfolding builds_def
  proof (intro allI impI)
    fix b cs x K d t and c :: "'a cdict"
    assume a: "cd_enumdef c = enums" "create_json (VList l) = Inr (d, t)" "base_path (Some b) cs" "place cs (VDict (cd_dict c)) x K"
      "x = VNone \<or> x = VDict [] \<and> (\<exists>m'. VList l = VDict m')"
    have dt: "d = VList ds" "t = VDict tm" using a(2) ds(1) by (simp_all add: sbind_def)
    have "list_all2 (\<lambda>v d. create_json v = Inr (d, VDict tm) \<and> (\<exists>m. v = VDict m) \<and> (\<exists>m. d = VDict m) \<and> builds N (cd_enumdef c) v) l ds"
    proof (rule list.rel_mono_strong [OF ds(2)])
      fix v d assume "v \<in> set l" "d \<in> set ds" "create_json v = Inr (d, VDict tm)"
      then show "create_json v = Inr (d, VDict tm) \<and> (\<exists>m. v = VDict m) \<and> (\<exists>m. d = VDict m) \<and> builds N (cd_enumdef c) v"
        using IH el(1) [of v] a(1) by (auto simp: sbind_Inr)
    qed
    then have "init_json_items N (length ([] :: 'a jv list)) ds (VDict tm) (Some b) c = (Inr (), built c (K (VList ([] @ map read_back l))))"
      by (rule init_items_build [OF _ ne a(3,4)]) (use a(5) in \<open>auto simp: as_None\<close>)
    moreover have "nested (VList l)" by (rule list_nested [OF ne]) (use all in \<open>auto simp: list_all_iff\<close>)
    then have "nested d" using create_json_node [OF 4(2)] a(2) by auto
    ultimately show "init_node N b d t c = (Inr (), built c (K (read_back (VList l))))" by (simp add: init_node_def dt)
  qed
next
  case (1 N enums t x)
  then show ?case by (intro leaf_builds) (simp_all add: nested_def)
next
  case (2 N enums dt sh xs)
  then show ?case by (intro leaf_builds) (simp_all add: nested_def)
qed simp_all


section \<open>The whole dictionary\<close>

definition header_ok :: "string \<Rightarrow> 'f jv \<Rightarrow> bool" where
  "header_ok k v \<longleftrightarrow> (if k = ''alg:RO''
     then (case v of VDict a \<Rightarrow> fst ` set a = {''alg:RO'', ''doc:RO'', ''version:RO''} | _ \<Rightarrow> False)
     else is_vstr v)"

definition top_ok :: "'f num_env \<Rightarrow> 'f entries \<Rightarrow> string \<Rightarrow> 'f jv \<Rightarrow> bool" where
  "top_ok N enums k v \<longleftrightarrow> (if k \<in> set header_names then header_ok k v
     else plain_name k \<and> k \<noteq> '':types:'' \<and> k \<noteq> '':enum:'' \<and> json_node N enums v)"

definition cdict_ok :: "'f num_env \<Rightarrow> 'f cdict \<Rightarrow> bool" where
  "cdict_ok N c \<longleftrightarrow> distinct (map fst (cd_dict c)) \<and> list_all (\<lambda>(k, v). top_ok N (cd_enumdef c) k v) (cd_dict c) \<and>
     ''INT32'' \<notin> fst ` set (cd_enumdef c)"

text \<open>What is read back of an entry and of the whole.\<close>

definition read_back_entry :: "string \<times> 'f jv \<Rightarrow> string \<times> 'f jv" where
  "read_back_entry p = (fst p, if fst p \<in> set header_names then snd p else read_back (snd p))"

definition read_back_cdict :: "'f cdict \<Rightarrow> 'f cdict" where
  "read_back_cdict c = c\<lparr>cd_dict := map read_back_entry (cd_dict c)\<rparr>"

lemma read_back_cdict_same:
  assumes "\<not> list_ex (\<lambda>(k, v). has_enum_array v) (cd_dict c)"
  shows "read_back_cdict c = c"
proof -
  have "map read_back_entry (cd_dict c) = cd_dict c"
    by (rule map_idI) (use assms in \<open>fastforce simp: read_back_entry_def list_ex_iff read_back_same\<close>)
  then show ?thesis by (simp add: read_back_cdict_def)
qed

lemma create_top_ok:
  assumes "list_all (\<lambda>(k, v). top_ok N enums k v) m"
  shows "\<exists>d t. create_top m = Inr (d, t) \<and> map fst d = map fst m \<and> map fst t = map fst m"
  using assms
proof (induction m)
  case (Cons p m)
  obtain k v where p: "p = (k, v)" by (cases p)
  obtain d t where dt: "create_top m = Inr (d, t)" "map fst d = map fst m" "map fst t = map fst m" using Cons by auto
  show ?case
  proof (cases "k \<in> set header_names")
    case True
    then show ?thesis using dt by (simp add: p sbind_def)
  next
    case False
    then have "json_node N enums v" using Cons.prems by (simp add: p top_ok_def)
    then obtain d2 where "create_json v = Inr (d2, json_type v)" using create_json_node by blast
    then show ?thesis using dt False by (simp add: p sbind_def)
  qed
qed simp

lemma init_header_run:
  "header_ok k v \<Longrightarrow> k \<in> set header_names \<Longrightarrow> init_header N k v c = (Inr (), c\<lparr>cd_dict := AList.update k v (cd_dict c)\<rparr>)"
  by (auto simp: init_header_def header_ok_def put_entry_def eff_simps is_vstr_def split: jv.splits if_splits)

lemma init_top_build:
  assumes "list_all (\<lambda>(k, v). top_ok N (cd_enumdef c) k v) m" and "create_top m = Inr (d, t)"
    and "\<And>k ty. (k, ty) \<in> set t \<Longrightarrow> map_of T k = Some ty" and "distinct (map fst (cd_dict c @ m))"
    and "''INT32'' \<notin> fst ` set (cd_enumdef c)"
  shows "init_json_entries N d (VDict T) None c = (Inr (), c\<lparr>cd_dict := cd_dict c @ map read_back_entry m\<rparr>)"
  using assms
proof (induction m arbitrary: c d t)
  case Nil
  then show ?case by (simp add: eff_simps)
next
  case (Cons p m)
  obtain k v where p: "p = (k, v)" by (cases p)
  obtain d1 t1 d2 t2 where dt: "create_top m = Inr (d2, t2)" "d = (k, d1) # d2" "t = (k, t1) # t2"
    "(if k \<in> set header_names then Inr (v, if k = ''alg:RO'' then alg_types else VStr ''CHARSTR'') else create_json v) = Inr (d1, t1)"
    using Cons.prems(2) by (auto simp: p sbind_Inr split: prod.splits)
  have new: "k \<notin> fst ` set (cd_dict c)" using Cons.prems(4) by (auto simp: p)
  let ?c = "c\<lparr>cd_dict := cd_dict c @ [read_back_entry (k, v)]\<rparr>"
  have ok: "top_ok N (cd_enumdef c) k v" using Cons.prems(1) by (simp add: p)
  have step: "init_json_entries N d (VDict T) None c = init_json_entries N d2 (VDict T) None ?c"
  proof (cases "k \<in> set header_names")
    case True
    then have "d1 = v" "header_ok k v" using dt(4) ok by (simp_all add: top_ok_def)
    then show ?thesis using True init_header_run [of k v N c] update_new [OF new] by (simp add: dt(2) eff_simps read_back_entry_def)
  next
    case False
    then have k: "plain_name k" "json_node N (cd_enumdef c) v" "create_json v = Inr (d1, t1)" using ok dt(4) by (simp_all add: top_ok_def)
    have bp: "base_path (Some k) [CName k]" using base_path_name [of None "[]" k] k(1) by (simp add: base_path_def sub_name_def)
    have "map_of (cd_dict c) k = None" using new by (auto simp: map_of_eq_None_iff)
    then have "place [CName k] (VDict (cd_dict c)) VNone (\<lambda>w. VDict (cd_dict c @ [(k, w)]))"
      using place_name [OF place_Nil, of "VDict (cd_dict c)" "cd_dict c" k] update_new [OF new] by (simp add: as_None)
    then have "init_node N k d1 t1 c = (Inr (), built c (VDict (cd_dict c @ [read_back_entry (k, v)])))"
      using buildsD [OF node_builds [OF k(2) Cons.prems(5)] k(3) bp] False by (simp add: read_back_entry_def)
    moreover have "map_of T k = Some t1" using Cons.prems(3) [of k t1] by (simp add: dt(3))
    ultimately show ?thesis using False
      by (cases "nested d1") (simp_all add: dt(2) eff_simps jkey_def dict_get_def init_node_def sub_name_def built_def the_entries_def)
  qed
  have "init_json_entries N d2 (VDict T) None ?c = (Inr (), ?c\<lparr>cd_dict := cd_dict ?c @ map read_back_entry m\<rparr>)"
  proof (rule Cons.IH [OF _ dt(1)])
    show "map_of T k' = Some ty" if "(k', ty) \<in> set t2" for k' ty using Cons.prems(3) [of k' ty] that by (simp add: dt(3))
  qed (use Cons.prems in \<open>simp_all add: p read_back_entry_def\<close>)
  then show ?case using step by (simp add: p)
qed

lemma delete_last: "k \<notin> fst ` set m \<Longrightarrow> AList.delete k (m @ [(k, v)]) = m"
  by (induction m) auto

lemma map_of_last: "k \<notin> fst ` set m \<Longrightarrow> map_of (m @ [(k, v)]) k = Some v"
  by (induction m) auto

lemma typed_json_roundtrip:
  assumes "cdict_ok N c"
  shows "\<exists>m. typed_json c = Inr m \<and> fst (cdict_init N (OldDict m)) = Inr (read_back_cdict c)"
proof -
  let ?e = "cd_enumdef c"
  have ok: "list_all (\<lambda>(k, v). top_ok N ?e k v) (cd_dict c)" "distinct (map fst (cd_dict c))" "''INT32'' \<notin> fst ` set ?e"
    using assms by (simp_all add: cdict_ok_def)
  obtain d t where dt: "create_top (cd_dict c) = Inr (d, t)" "map fst d = map fst (cd_dict c)" "map fst t = map fst (cd_dict c)"
    using create_top_ok [OF ok(1)] by blast
  have dist: "distinct (map fst t)" using ok(2) dt(3) by simp
  have keys: "fst ` set d = fst ` set (cd_dict c)" "fst ` set t = fst ` set (cd_dict c)"
    using dt(2,3) by (metis list.set_map)+
  have "'':types:'' \<notin> set header_names" "'':enum:'' \<notin> set header_names" by (simp_all add: header_names_def)
  then have "k \<noteq> '':types:'' \<and> k \<noteq> '':enum:''" if "(k, v) \<in> set (cd_dict c)" for k v
    using ok(1) that by (auto simp: list_all_iff top_ok_def)
  then have new: "'':types:'' \<notin> fst ` set d" "'':enum:'' \<notin> fst ` set t"
    unfolding keys by force+
  have run: "init_json_entries N d (VDict t) None \<lparr>cd_dict = [], cd_enumdef = ?e\<rparr> = (Inr (), read_back_cdict c)"
    using init_top_build [OF _ dt(1), where N = N and T = t and c = "\<lparr>cd_dict = [], cd_enumdef = ?e\<rparr>"] ok dist
    by (simp add: map_of_is_SomeI read_back_cdict_def)
  show ?thesis
  proof (cases "?e = []")
    case True
    have "map_of t '':enum:'' = None" using new(2) by (auto simp: map_of_eq_None_iff)
    then show ?thesis using run new(1) True dt(1)
      by (simp add: typed_json_def sbind_def update_new cdict_init_def map_of_last delete_last Let_def del: map_of_append)
  next
    case False
    have "fst (cdict_init N (OldDict (d @ [('':types:'', VDict (t @ [('':enum:'', VDict ?e)]))]))) = Inr (read_back_cdict c)"
      using run new by (simp add: cdict_init_def map_of_last delete_last Let_def the_entries_def del: map_of_append)
    then show ?thesis using new False dt(1) by (simp add: typed_json_def sbind_def update_new)
  qed
qed

end
