(* ===== verification/TypedJsonProps.thy ===== *)
theory TypedJsonProps
  imports TypedJsonBuild "HOL-Library.Sublist"
begin

text \<open>
  The properties of typed JSON dictionaries: the round trip, the update of a value, what \<open>set\<close> keeps,
  and what the validation misses.
\<close>

section \<open>Numbers for the witnesses\<close>

text \<open>Without floating point numbers; an array is made as it is asked for.\<close>

definition wit_num :: "unit num_env" where
  "wit_num = \<lparr>ne_int = (\<lambda>_. Inr 0), ne_parse = (\<lambda>s. Inl (ValueError s)), ne_eq = (\<lambda>_ _. True), ne_eq_int = (\<lambda>_ _. False),
     ne_array = (\<lambda>dt xs dims. Inr (VArr dt (case dims of None \<Rightarrow> [length xs] | Some ds \<Rightarrow> map nat ds) xs)),
     ne_retag = (\<lambda>d x. Inl TypeError), ne_str = (\<lambda>v. [])\<rparr>"

definition wit_cdict :: "unit cdict" where
  "wit_cdict = \<lparr>cd_dict = [(''detType:RO'', VStr ''ts''),
       (''gain'', VTup (VStr ''onOff'') (VInt 1)), (''size'', VTup (VStr ''UINT8'') (VInt 7)),
       (''a'', VDict [(''b'', VList [VDict [(''c'', VArr ''int16'' [2, 1] [VInt 4, VInt 5])], VDict [(''c'', VArr ''int16'' [2, 1] [VInt 6, VInt 7])]])])],
     cd_enumdef = [(''onOff'', VDict [(''Off'', VInt 0), (''On'', VInt 1)])]\<rparr>"

lemma wit_cdict_ok: "cdict_ok wit_num wit_cdict"
  by (simp add: cdict_ok_def wit_cdict_def top_ok_def header_names_def header_ok_def is_vstr_def plain_name_def scalar_ok_def
      typedict_def nptypedict_def entry_name_def wit_num_def num_eq_def json_type_def sbind_def dict_get_def merge_into_def
      is_digit_def)

section \<open>Round trip\<close>

text \<open>
  C37. The typed JSON of a \<open>cdict\<close> reads back, but for arrays with an enumeration: the constructor makes
  of it the dictionary in which each of these is a plain array, without its enumeration, and all else
  is the same, with the same types and enumerations. Without such arrays it is the same dictionary.
  The names must be plain, the dictionaries and lists below the top not empty and the dictionaries of
  one list of the same types, no enumeration must be named INT32, a number must be one of its
  enumeration; a plain array must come back from its elements, dtype and dimensions, which is numpy's
  part.
\<close>
theorem typed_json_reads_back:
  assumes "cdict_ok N c"
  shows "\<exists>m. typed_json c = Inr m \<and> fst (cdict_init N (OldDict m)) = Inr (read_back_cdict c)
    \<and> (\<not> list_ex (\<lambda>(k, v). has_enum_array v) (cd_dict c) \<longrightarrow> read_back_cdict c = c)"
  using typed_json_roundtrip [OF assms] read_back_cdict_same [of c] by blast

definition wit_enum_array :: "unit jv" where
  "wit_enum_array = VArr ''int32'' [2] [VInt 0, VInt 1]"

theorem typed_json_reads_back_witness:
  "\<exists>m. typed_json (wit_cdict\<lparr>cd_dict := [(''g'', VTup (VStr ''onOff'') wit_enum_array), (''size'', VTup (VStr ''UINT8'') (VInt 7))]\<rparr>) = Inr m
    \<and> fst (cdict_init wit_num (OldDict m)) = Inr (wit_cdict\<lparr>cd_dict := [(''g'', wit_enum_array), (''size'', VTup (VStr ''UINT8'') (VInt 7))]\<rparr>)"
proof -
  let ?c = "wit_cdict\<lparr>cd_dict := [(''g'', VTup (VStr ''onOff'') wit_enum_array), (''size'', VTup (VStr ''UINT8'') (VInt 7))]\<rparr>"
  have "cdict_ok wit_num ?c"
    by (simp add: cdict_ok_def wit_cdict_def top_ok_def header_names_def plain_name_def scalar_ok_def enum_array_def wit_enum_array_def
        typedict_def is_digit_def)
  moreover have "read_back_cdict ?c = wit_cdict\<lparr>cd_dict := [(''g'', wit_enum_array), (''size'', VTup (VStr ''UINT8'') (VInt 7))]\<rparr>"
    by (simp add: read_back_cdict_def read_back_entry_def header_names_def wit_enum_array_def)
  ultimately show ?thesis using typed_json_reads_back [of wit_num ?c] by auto
qed

section \<open>Updates\<close>

text \<open>The values that a type has, by the precedence of the conversion.\<close>

definition basic_fits :: "string \<Rightarrow> 'f jv \<Rightarrow> bool" where
  "basic_fits ty x = (case map_of typerange ty of
       None \<Rightarrow> False
     | Some None \<Rightarrow> if ty = ''CHARSTR'' then is_vstr x else (case x of VFloat y \<Rightarrow> True | _ \<Rightarrow> False)
     | Some (Some (lo, hi)) \<Rightarrow> (case x of VInt i \<Rightarrow> lo \<le> i \<and> i \<le> hi | _ \<Rightarrow> False))"

definition simple_fits :: "'f num_env \<Rightarrow> 'f entries \<Rightarrow> 'f jv \<Rightarrow> 'f jv \<Rightarrow> bool" where
  "simple_fits N e t x = (case t of
       VStr ty \<Rightarrow> (case map_of e ty of
           Some (VDict m) \<Rightarrow> x \<in> snd ` set m \<or> (\<exists>i. x = VInt i \<and> list_ex (num_eq N x) (map snd m))
         | Some _ \<Rightarrow> False
         | None \<Rightarrow> basic_fits ty x)
     | _ \<Rightarrow> False)"

definition value_fits :: "'f num_env \<Rightarrow> 'f entries \<Rightarrow> 'f jv \<Rightarrow> 'f jv \<Rightarrow> bool" where
  "value_fits N e t x = (case t of
       VList (t0 # ds) \<Rightarrow> (case x of
           VList xs \<Rightarrow> dims_prod ds = Inr (int (length xs)) \<and> list_all (simple_fits N e t0) xs
         | _ \<Rightarrow> False)
     | _ \<Rightarrow> simple_fits N e t x)"

lemma jkeys_Inr: "jkeys e = Inr ks \<longleftrightarrow> (\<exists>m. e = VDict m \<and> ks = map fst m)"
  by (cases e) (auto simp: jkeys_def)

lemma typerange_floats:
  "map_of typerange ''CHARSTR'' = Some None" "map_of typerange ''FLOAT'' = Some None" "map_of typerange ''DOUBLE'' = Some None"
  by (simp_all add: typerange_def)

lemma simpleConvert_fits:
  assumes "simpleConvert N v t e = Inr x"
  shows "\<exists>m. e = VDict m \<and> simple_fits N m t x"
proof -
  obtain m where e: "e = VDict m" using assms by (auto simp: simpleConvert_def sbind_Inr jkeys_Inr)
  obtain ty where t: "t = VStr ty" using assms by (cases t) (auto simp: simpleConvert_def sbind_Inr jkeys_Inr e)
  show ?thesis
  proof (cases "map_of m ty")
    case None
    then have "ty \<notin> set (map fst m)" by (simp add: map_of_eq_None_iff)
    then have c: "(if ty = ''CHARSTR'' then Inr (VStr v)
         else if ty = ''FLOAT'' \<or> ty = ''DOUBLE'' then sbind (ne_parse N v) (\<lambda>x. Inr (VFloat x))
         else (case map_of typerange ty of
             Some (Some (lo, hi)) \<Rightarrow> sbind (py_int v) (\<lambda>i.
               if lo \<le> i \<and> i \<le> hi then Inr (VInt i) else Inl (ValueError ''convertValue: not in range''))
           | _ \<Rightarrow> Inl TypeError)) = Inr x"
      using assms by (simp add: simpleConvert_def jkeys_def e t sbind_def)
    consider "ty = ''CHARSTR''" | "ty = ''FLOAT'' \<or> ty = ''DOUBLE''" | "ty \<notin> {''CHARSTR'', ''FLOAT'', ''DOUBLE''}" by blast
    then have "basic_fits ty x"
    proof cases
      case 1
      then show ?thesis using c by (auto simp: basic_fits_def typerange_floats is_vstr_def)
    next
      case 2
      then show ?thesis using c by (auto simp: basic_fits_def typerange_floats sbind_Inr)
    next
      case 3
      then show ?thesis using c by (auto simp: basic_fits_def sbind_Inr split: option.splits if_splits)
    qed
    then show ?thesis using None by (simp add: e t simple_fits_def)
  next
    case (Some et)
    then have "ty \<in> set (map fst m)" by (metis map_of_eq_None_iff option.distinct(1) list.set_map)
    then obtain em where em: "et = VDict em"
      using assms Some by (auto simp: simpleConvert_def sbind_Inr jkeys_Inr jkey_def dict_get_def e t)
    have "x \<in> snd ` set em \<or> (\<exists>i. x = VInt i \<and> list_ex (num_eq N x) (map snd em))"
    proof (cases "v \<in> fst ` set em")
      case True
      then have "map_of em v = Some x"
        using assms Some \<open>ty \<in> set (map fst m)\<close> by (simp add: simpleConvert_def sbind_def jkeys_def jkey_def dict_get_def e t em split: option.splits)
      then show ?thesis using map_of_SomeD by force
    next
      case False
      then have "sbind (py_int v) (\<lambda>i. if list_ex (num_eq N (VInt i)) (map snd em) then Inr (VInt i) else Inl TypeError) = Inr x"
        using assms Some \<open>ty \<in> set (map fst m)\<close>
        by (simp add: simpleConvert_def sbind_def jkeys_def jkey_def dict_get_def enum_values_def e t em)
      then obtain i where "list_ex (num_eq N (VInt i)) (map snd em)" "x = VInt i"
        unfolding sbind_Inr by (elim exE conjE) (metis Inl_Inr_False Inr_inject)
      then show ?thesis by blast
    qed
    then show ?thesis using Some by (simp add: e t em simple_fits_def)
  qed
qed

lemma convertValue_fits:
  assumes "convertValue N v t e = Inr x"
  shows "\<exists>m. e = VDict m \<and> value_fits N m t x"
proof (cases "\<exists>ts. t = VList ts")
  case True
  then obtain ts where ts: "t = VList ts" by blast
  have c: "sbind (dims_prod (tl ts)) (\<lambda>l. if int (length (split_on CHR '' '' v)) \<noteq> l then Inl TypeError
      else (case ts of [] \<Rightarrow> Inl IndexError
        | t0 # ds \<Rightarrow> sbind (smap (\<lambda>vw. simpleConvert N vw t0 e) (split_on CHR '' '' v)) (\<lambda>xs. Inr (VList xs)))) = Inr x"
    using assms by (simp add: convertValue_def ts Let_def)
  obtain t0 ds where t0: "ts = t0 # ds" using c by (cases ts) (auto simp: sbind_Inr split: if_splits)
  have len: "dims_prod ds = Inr (int (length (split_on CHR '' '' v)))"
    using c by (cases "dims_prod ds") (simp_all add: t0 sbind_def split: if_splits)
  obtain xs where xs: "smap (\<lambda>vw. simpleConvert N vw t0 e) (split_on CHR '' '' v) = Inr xs" "x = VList xs"
    using c len by (cases "smap (\<lambda>vw. simpleConvert N vw t0 e) (split_on CHR '' '' v)") (simp_all add: t0 sbind_def)
  have t: "t = VList (t0 # ds)" by (simp add: ts t0)
  have l2: "list_all2 (\<lambda>vw x. simpleConvert N vw t0 e = Inr x) (split_on CHR '' '' v) xs" using xs(1) by (simp add: smap_Inr)
  have f: "\<exists>m. e = VDict m \<and> simple_fits N m t0 y" if y: "y \<in> set xs" for y
  proof -
    obtain i where i: "i < length xs" "y = xs ! i" using y by (auto simp: in_set_conv_nth)
    then have "simpleConvert N (split_on CHR '' '' v ! i) t0 e = Inr y" using list_all2_nthD2 [OF l2 i(1)] by simp
    then show ?thesis by (rule simpleConvert_fits)
  qed
  obtain y ys where "xs = y # ys" using l2 split_on_nonempty [of "CHR '' ''" v] by (cases xs) auto
  then obtain m where m: "e = VDict m" using f [of y] by auto
  have "list_all (simple_fits N m t0) xs" using f m by (auto simp: list_all_iff)
  moreover have "length xs = length (split_on CHR '' '' v)" using l2 by (simp add: list_all2_lengthD)
  ultimately show ?thesis using m len xs(2) by (simp add: t value_fits_def)
next
  case False
  then have "simpleConvert N v t e = Inr x" using assms by (cases t) (auto simp: convertValue_def)
  then show ?thesis using simpleConvert_fits [of N v t e x] False by (cases t) (auto simp: value_fits_def)
qed

text \<open>The place of an update.\<close>

lemma get_items_append: "get_items (cs @ ds) v = sbind (get_items cs v) (get_items ds)"
  by (induction cs arbitrary: v) (auto simp: sbind_def split: sum.splits)

text \<open>What is stored at a path is read there, and other paths read what they read before.\<close>

lemma jitem_str: "jitem (VStr s) i = Inr v \<Longrightarrow> \<exists>r. v = VStr r"
  by (auto simp: jitem_def split: comp.splits if_splits)

lemma get_items_str: "get_items cs (VStr s) = Inr v \<Longrightarrow> \<exists>r. v = VStr r"
proof (induction cs arbitrary: s)
  case Nil
  then show ?case by auto
next
  case (Cons c cs)
  then show ?case using jitem_str by (fastforce simp: sbind_Inr)
qed

lemma get_put_same:
  "get_items n d = Inr (VDict vm) \<Longrightarrow> get_items (n @ [CName s]) (put_at (n @ [CName s]) x d) = Inr x"
proof (induction n arbitrary: d)
  case Nil
  then show ?case by (simp add: jitem_def dict_get_def update_conv' sbind_def)
next
  case (Cons c n)
  then obtain v where v: "jitem d c = Inr v" "get_items n v = Inr (VDict vm)" by (auto simp: sbind_Inr)
  then show ?case
  proof (cases d)
    case (VStr r)
    then obtain r' where "v = VStr r'" using v(1) jitem_str by blast
    then show ?thesis using v(2) get_items_str by fastforce
  qed (use v Cons.IH in \<open>auto simp: jitem_def dict_get_def update_conv' sbind_def split: comp.splits option.splits if_splits\<close>)
qed

lemma get_put_other:
  "get_items n d = Inr (VDict vm) \<Longrightarrow> s \<in> fst ` set vm \<Longrightarrow> \<not> prefix (n @ [CName s]) cs \<Longrightarrow> \<not> prefix cs (n @ [CName s]) \<Longrightarrow>
    get_items cs (put_at (n @ [CName s]) x d) = get_items cs d"
proof (induction n arbitrary: d cs)
  case Nil
  then obtain c r where "cs = c # r" "c \<noteq> CName s" by (cases cs) auto
  then show ?case using Nil by (cases c) (auto simp: jitem_def dict_get_def update_conv')
next
  case (Cons c n)
  then obtain v where v: "jitem d c = Inr v" "get_items n v = Inr (VDict vm)" by (auto simp: sbind_Inr)
  obtain c' r where cs: "cs = c' # r" using Cons.prems(4) by (cases cs) auto
  have IH: "c' = c \<Longrightarrow> get_items r (put_at (n @ [CName s]) x v) = get_items r v" using Cons v cs by simp
  show ?case
  proof (cases d)
    case (VStr t)
    then show ?thesis by simp
  qed (use v IH in \<open>auto simp: cs nth_list_update jitem_def dict_get_def update_conv' sbind_def split: comp.splits option.splits if_splits\<close>)
qed


lemma type_walk_append:
  "type_walk (cs @ ds) st = sbind (type_walk cs st) (\<lambda>r. case r of None \<Rightarrow> Inr None | Some st1 \<Rightarrow> type_walk ds st1)"
  by (induction cs arbitrary: st) (auto simp: sbind_def split: sum.splits option.splits)

lemma type_walk_items: "type_walk cs st = Inr (Some (v, ty)) \<Longrightarrow> get_items cs (fst st) = Inr v"
proof (induction cs arbitrary: st)
  case (Cons c cs)
  then obtain st1 where st1: "type_step c st = Inr (Some st1)" "type_walk cs st1 = Inr (Some (v, ty))"
    by (auto simp: sbind_Inr split: option.splits)
  then have "jitem (fst st) c = Inr (fst st1)"
    by (cases c) (auto simp: type_step_def sbind_Inr split: option.splits if_splits)
  then show ?case using Cons.IH [OF st1(2)] by (simp add: sbind_def)
qed simp

lemma put_at_dict: "cs = n @ [CName s] \<Longrightarrow> \<exists>m1. put_at cs x (VDict m) = VDict m1"
proof (cases n)
  case (Cons c n')
  then show "cs = n @ [CName s] \<Longrightarrow> \<exists>m1. put_at cs x (VDict m) = VDict m1" by (cases c) simp_all
qed simp

text \<open>
  C38. \<open>updateValue\<close> on a dictionary, with a name that can be split: it gives one of the states 0 to 3. Unless
  this is 0, the dictionary is as before. When it is 0, the value at the name is now one that its
  type has (in range, of the right number of elements, or of the enumeration), and every name that
  is neither above nor below keeps its value.
\<close>
theorem update_keeps_types:
  assumes "splitname name = Inr (Some cs)" and "updateValue N (VDict m) name value = (r, d)"
  shows "(r \<in> {Inr 1, Inr 2, Inr 3} \<and> d = VDict m) \<or>
    (r = Inr 0 \<and> (\<exists>x v t e. getValue d name = Inr (Some x) \<and>
       type_walk cs (type_start (VDict m)) = Inr (Some (v, Some (t, VDict e))) \<and> value_fits N e t x) \<and>
     (\<forall>cs2. \<not> prefix cs cs2 \<and> \<not> prefix cs2 cs \<longrightarrow> get_items cs2 d = get_items cs2 (VDict m)))"
proof -
  let ?d = "VDict m" and ?n = "butlast cs" and ?s = "last cs"
  obtain q where q: "update_at N cs value ?d = (q, d)" "r = Inr q"
    using assms by (cases "update_at N cs value ?d") (simp add: updateValue_def)
  have "cs \<noteq> []" using assms(1) split_on_nonempty [of "CHR ''.''" name]
    by (cases "split_on CHR ''.'' name") (auto simp: splitname_def sbind_Inr split: list.splits sum.splits if_splits)
  then have cs: "cs = ?n @ [?s]" by simp
  show ?thesis
  proof (cases "q = 0")
    case False
    then show ?thesis using q by (auto simp: update_at_def Let_def split: sum.splits option.splits prod.splits jv.splits comp.splits if_splits)
  next
    case True
    obtain vm tm e s t x where w: "type_walk ?n (type_start ?d) = Inr (Some (VDict vm, Some (VDict tm, e)))" "?s = CName s"
      "s \<in> fst ` set vm" "dict_get tm s = Inr t" "convertValue N value t e = Inr x" "d = put_at cs x ?d"
      using q(1) True by (auto simp: update_at_def Let_def sbind_Inr split: sum.splits option.splits prod.splits jv.splits comp.splits if_splits)
    obtain em where em: "e = VDict em" "value_fits N em t x" using convertValue_fits [OF w(5)] by blast
    have items: "get_items ?n ?d = Inr (VDict vm)" using type_walk_items [OF w(1)] by (simp add: type_start_def)
    have get: "get_items cs d = Inr x" using get_put_same [OF items, of s x] cs w(2,6) by simp
    then have "getValue d name = Inr (Some x)" using assms(1) put_at_dict [of cs ?n s x m] w(2,6) cs
      by (auto simp: getValue_def sbind_def)
    moreover obtain v where "jitem (VDict vm) (CName s) = Inr v" using w(3)
      by (cases "map_of vm s") (auto simp: jitem_def dict_get_def map_of_eq_None_iff)
    then have "type_walk cs (type_start ?d) = Inr (Some (v, Some (t, VDict em)))"
      using w(1,2,4) em(1) by (subst cs) (simp add: type_walk_append sbind_def type_step_def jitem_def)
    moreover have "get_items cs2 d = get_items cs2 ?d" if "\<not> prefix cs cs2" "\<not> prefix cs2 cs" for cs2
    proof -
      have eq: "?n @ [CName s] = cs" using cs w(2) by simp
      show ?thesis using get_put_other [OF items w(3), where cs = cs2 and x = x] that unfolding eq w(6) by blast
    qed
    ultimately show ?thesis using em(2) q(2) True by blast
  qed
qed


definition wit_typed :: "unit entries" where
  "wit_typed = [(''x'', VInt 1), (''y'', VStr ''on''), ('':types:'', VDict [(''x'', VStr ''UINT8''), (''y'', VStr ''CHARSTR'')])]"

theorem update_keeps_types_witness:
  "updateValue wit_num (VDict wit_typed) ''x'' ''300'' = (Inr 2, VDict wit_typed) \<and>
   (\<exists>d x. updateValue wit_num (VDict wit_typed) ''x'' ''30'' = (Inr 0, d) \<and> getValue d ''x'' = Inr (Some x))"
proof -
  have n: "splitname ''x'' = Inr (Some [CName ''x''])" by (simp add: splitname_def is_digit_def sbind_def)
  have u: "fst (updateValue wit_num (VDict wit_typed) ''x'' ''300'') = Inr 2" "fst (updateValue wit_num (VDict wit_typed) ''x'' ''30'') = Inr 0"
    by code_simp+
  show ?thesis
    using update_keeps_types [OF n, of wit_num wit_typed "''300''"] update_keeps_types [OF n, of wit_num wit_typed "''30''"] u
    by (cases "updateValue wit_num (VDict wit_typed) ''x'' ''300''"; cases "updateValue wit_num (VDict wit_typed) ''x'' ''30''") auto
qed

section \<open>Setting\<close>

lemma split_parts_Nil: "split_parts ps = Inr (Some []) \<Longrightarrow> ps = []"
  by (cases ps) (auto simp: sbind_Inr split: list.splits sum.splits if_splits)

text \<open>The value at a path.\<close>

fun tree_get :: "comp list \<Rightarrow> 'f jv \<Rightarrow> 'f jv option" where
  "tree_get [] d = Some d"
| "tree_get (CName s # cs) d = (case d of VDict m \<Rightarrow> (case map_of m s of Some v \<Rightarrow> tree_get cs v | None \<Rightarrow> None) | _ \<Rightarrow> None)"
| "tree_get (CIdx k # cs) d = (case d of VList l \<Rightarrow> if k < length l then tree_get cs (l ! k) else None | _ \<Rightarrow> None)"

lemma get_loop_tree: "tree_get cs d = Some v \<Longrightarrow> get_loop cs d = Some (Some v)"
proof (induction cs d rule: tree_get.induct)
  case (2 s cs d)
  then show ?case by (subst get_loop.simps) (auto split: jv.splits option.splits)
next
  case (3 k cs d)
  then show ?case by (subst get_loop.simps) (auto split: jv.splits if_splits)
qed (simp add: get_loop.simps)

lemma tree_get_empty: "cs \<noteq> [] \<Longrightarrow> tree_get cs (fresh ml cs) = None" "cs \<noteq> [] \<Longrightarrow> tree_get cs (VDict []) = None"
  by (cases cs; cases "hd cs"; auto simp: fresh_def)+

lemma walk_find:
  "walk False False fin cs d = (Inr (), d1) \<Longrightarrow>
    \<exists>x w. fin x = (Inr (), w) \<and> tree_get cs d1 = Some w \<and> (tree_get cs d = Some x \<or> tree_get cs d = None \<and> x \<in> {VNone, VDict []})"
proof (induction cs arbitrary: d d1)
  case (Cons c cs)
  show ?case
  proof (cases c)
    case (CName s)
    obtain m where m: "as_dict False d = Some m" using Cons.prems by (cases "as_dict False d") (simp_all add: CName)
    let ?child = "case map_of m s of Some v \<Rightarrow> v | None \<Rightarrow> fresh False cs"
    obtain c1 where c1: "walk False False fin cs ?child = (Inr (), c1)" "d1 = VDict (AList.update s c1 m)"
      using Cons.prems by (auto simp: CName m split: prod.splits)
    have d: "d = VNone \<and> m = [] \<or> d = VDict m" using m by (auto simp: as_dict_def split: jv.splits)
    have "tree_get (CName s # cs) d = (case map_of m s of Some v \<Rightarrow> tree_get cs v | None \<Rightarrow> None)" using d by auto
    moreover have "tree_get cs (fresh False cs :: 'a jv) = None \<or> cs = [] \<and> (fresh False cs :: 'a jv) = VNone"
      using tree_get_empty(1) [of cs] by (cases cs) (auto simp: fresh_def)
    ultimately show ?thesis using Cons.IH [OF c1(1)] c1(2) by (cases "map_of m s") (auto simp: CName update_conv')
  next
    case (CIdx k)
    obtain l where l: "as_list False d = Some l" using Cons.prems by (cases "as_list False d") (simp_all add: CIdx)
    let ?l = "l @ replicate (k + 1 - length l) (VDict [])"
    obtain c1 where c1: "walk False False fin cs (?l ! k) = (Inr (), c1)" "d1 = VList (?l[k := c1])"
      using Cons.prems by (auto simp: CIdx l Let_def split: prod.splits)
    have d: "d = VNone \<and> l = [] \<or> d = VList l" using l by (auto simp: as_list_def split: jv.splits)
    have "tree_get (CIdx k # cs) d = (if k < length l then tree_get cs (l ! k) else None)" using d by auto
    moreover have "?l ! k = (if k < length l then l ! k else VDict [])" by (simp add: nth_append)
    moreover have "tree_get cs (VDict [] :: 'a jv) = None \<or> cs = []" using tree_get_empty(2) by blast
    ultimately show ?thesis using Cons.IH [OF c1(1)] c1(2) by (auto simp: CIdx split: if_splits)
  qed
qed auto

lemma walk_keeps:
  "walk False False fin cs d = (r, d1) \<Longrightarrow> tree_get cs2 d = Some v \<Longrightarrow> \<not> prefix cs cs2 \<Longrightarrow> \<not> prefix cs2 cs \<Longrightarrow> tree_get cs2 d1 = Some v"
proof (induction cs arbitrary: d d1 cs2)
  case (Cons c cs)
  obtain c2 r2 where cs2: "cs2 = c2 # r2" using Cons.prems(4) by (cases cs2) auto
  show ?case
  proof (cases c)
    case (CName s)
    show ?thesis
    proof (cases "as_dict False d")
      case None
      then show ?thesis using Cons.prems by (simp add: CName)
    next
      case (Some m)
      then have d: "d = VNone \<and> m = [] \<or> d = VDict m" by (auto simp: as_dict_def split: jv.splits)
      let ?child = "case map_of m s of Some v \<Rightarrow> v | None \<Rightarrow> fresh False cs"
      obtain c1 where c1: "walk False False fin cs ?child = (r, c1)" "d1 = VDict (AList.update s c1 m)"
        using Cons.prems(1) by (auto simp: CName Some split: prod.splits)
      have dd: "d = VDict m" using d Cons.prems(2) cs2 by (cases c2) auto
      then obtain n where n: "c2 = CName n" using Cons.prems(2) cs2 by (cases c2) auto
      show ?thesis using Cons.IH [OF c1(1), of r2] Cons.prems(2-4) c1(2)
        by (auto simp: cs2 n CName dd update_conv' split: option.splits)
    qed
  next
    case (CIdx k)
    show ?thesis
    proof (cases "as_list False d")
      case None
      then show ?thesis using Cons.prems by (simp add: CIdx)
    next
      case (Some l)
      then have d: "d = VNone \<and> l = [] \<or> d = VList l" by (auto simp: as_list_def split: jv.splits)
      let ?l = "l @ replicate (k + 1 - length l) (VDict [])"
      obtain c1 where c1: "walk False False fin cs (?l ! k) = (r, c1)" "d1 = VList (?l[k := c1])"
        using Cons.prems(1) by (auto simp: CIdx Some Let_def split: prod.splits)
      have dd: "d = VList l" using d Cons.prems(2) cs2 by (cases c2) auto
      then obtain j where j: "c2 = CIdx j" "j < length l" using Cons.prems(2) cs2 by (cases c2) (auto split: if_splits)
      show ?thesis using Cons.IH [OF c1(1), of r2] Cons.prems(2-4) c1(2) j(2)
        by (auto simp: cs2 j(1) CIdx dd nth_list_update nth_append)
    qed
  qed
qed auto

text \<open>
  C39. \<open>set\<close> of a number without \<open>override\<close>, when it returns: a name that was new then has the number
  with the type asked for. A name that had a typed value keeps its type and has the number, as it is
  when the type is DOUBLE or FLOAT and else as \<open>int\<close> of it. Every name that is neither above nor below it
  and had a value has this value still.
\<close>
theorem set_number:
  assumes "cdict_set N name (AVal x) typ False app c = (Inr (), c1)" and "is_number x" and "splitname name = Inr (Some cs)"
  shows "(tree_get cs (VDict (cd_dict c)) = None \<longrightarrow> cdict_get name True c1 = Some (Inr (Some (VTup (VStr typ) x)))) \<and>
    (\<forall>t z. tree_get cs (VDict (cd_dict c)) = Some (VTup t z) \<longrightarrow>
      (if t = VStr ''DOUBLE'' \<or> t = VStr ''FLOAT'' then cdict_get name True c1 = Some (Inr (Some (VTup t x)))
       else \<exists>i. num_int N x = Inr i \<and> cdict_get name True c1 = Some (Inr (Some (VTup t (VInt i)))))) \<and>
    (\<forall>cs2 v. tree_get cs2 (VDict (cd_dict c)) = Some v \<and> \<not> prefix cs cs2 \<and> \<not> prefix cs2 cs \<longrightarrow>
      get_loop cs2 (VDict (cd_dict c1)) = Some (Some v))"
proof -
  let ?d = "VDict (cd_dict c)"
  have p: "prepare N (cd_enumdef c) typ (AVal x) = Inr (PSimple (VTup (VStr typ) x))"
    using assms by (auto simp: cdict_set_def eff_simps prepare_def sbind_def split: sum.splits option.splits if_splits)
  have nm: "name \<noteq> []" "cs \<noteq> []" "\<And>k r. cs \<noteq> CIdx k # r"
    using assms(1,3) split_on_nonempty [of "CHR ''.''" name] split_parts_Nil [of "split_on CHR ''.'' name"]
    by (auto simp: cdict_set_def eff_simps p splitname_def split: if_splits sum.splits)
  obtain d1 where w: "walk False False (store N (cd_enumdef c) typ False app (PSimple (VTup (VStr typ) x))) cs ?d = (Inr (), d1)"
    "c1 = c\<lparr>cd_dict := the_entries d1\<rparr>"
    using assms(1,3) nm by (auto simp: cdict_set_def eff_simps p is_simple_def split: list.splits comp.splits prod.splits)
  obtain s r where cs: "cs = CName s # r" using nm by (cases cs; cases "hd cs") auto
  obtain m1 where m1: "d1 = VDict m1" using w(1) by (auto simp: cs as_dict_def split: prod.splits)
  obtain y v where y: "store N (cd_enumdef c) typ False app (PSimple (VTup (VStr typ) x)) y = (Inr (), v)" "tree_get cs d1 = Some v"
    "tree_get cs ?d = Some y \<or> tree_get cs ?d = None \<and> y \<in> {VNone, VDict []}"
    using walk_find [OF w(1)] by blast
  have st: "store_simple N (cd_enumdef c) typ False (VTup (VStr typ) x) y = Inr v"
    using y(1) by (auto simp: store_def split: sum.splits)
  then have v: "y = VNone \<and> v = VTup (VStr typ) x \<or> retag N y x = Inr v" by (auto simp: store_simple_def split: if_splits)
  have d1: "VDict (cd_dict c1) = d1" using w(2) m1 by (simp add: the_entries_def)
  have get: "cdict_get name True c1 = Some (Inr (Some v))" if "v = VTup t z" for t z
    using get_loop_tree [OF y(2)] assms(3) nm(1) that by (simp add: cdict_get_def d1)
  have "cdict_get name True c1 = Some (Inr (Some (VTup (VStr typ) x)))" if "tree_get cs ?d = None"
    using y(3) v that get by (auto simp: retag_def type_of_value_def sbind_def)
  moreover have "if t = VStr ''DOUBLE'' \<or> t = VStr ''FLOAT'' then cdict_get name True c1 = Some (Inr (Some (VTup t x)))
       else \<exists>i. num_int N x = Inr i \<and> cdict_get name True c1 = Some (Inr (Some (VTup t (VInt i))))"
    if "tree_get cs ?d = Some (VTup t z)" for t z
    using y(3) v that get by (auto simp: retag_def type_of_value_def sbind_Inr split: if_splits)
  moreover have "get_loop cs2 d1 = Some (Some v)" if "tree_get cs2 ?d = Some v" "\<not> prefix cs cs2" "\<not> prefix cs2 cs" for cs2 v
    using get_loop_tree [OF walk_keeps [OF w(1) that]] .
  ultimately show ?thesis unfolding d1 by blast
qed

theorem set_number_witness:
  "\<exists>c1. cdict_set wit_num ''size'' (AVal (VInt 5)) ''UINT16'' False False wit_cdict = (Inr (), c1) \<and>
    cdict_get ''size'' True c1 = Some (Inr (Some (VTup (VStr ''UINT8'') (VInt 5))))"
proof -
  have n: "splitname ''size'' = Inr (Some [CName ''size''])" by (simp add: splitname_def is_digit_def sbind_def)
  have "fst (cdict_set wit_num ''size'' (AVal (VInt 5)) ''UINT16'' False False wit_cdict) = Inr ()" by code_simp
  moreover have "tree_get [CName ''size''] (VDict (cd_dict wit_cdict)) = Some (VTup (VStr ''UINT8'') (VInt 7))" by (simp add: wit_cdict_def)
  ultimately show ?thesis
    using set_number [of wit_num "''size''" "VInt 5" "''UINT16''" False wit_cdict _ "[CName ''size'']"] n
    by (cases "cdict_set wit_num ''size'' (AVal (VInt 5)) ''UINT16'' False False wit_cdict") auto
qed

section \<open>Reading and validating\<close>

text \<open>\<open>get\<close> of a name that goes on below a value that is no dictionary and no list does not come back.\<close>

lemma get_loop_stuck: "c \<noteq> [] \<Longrightarrow> \<not> (\<exists>m. d = VDict m) \<Longrightarrow> \<not> (\<exists>l. d = VList l) \<Longrightarrow> get_loop c d = None"
proof (rule ccontr)
  assume a: "c \<noteq> []" "\<not> (\<exists>m. d = VDict m)" "\<not> (\<exists>l. d = VList l)" "get_loop c d \<noteq> None"
  then obtain r where "get_loop c d = Some r" by blast
  then have "c = [] \<or> (\<exists>m. d = VDict m) \<or> (\<exists>l. d = VList l)"
    by (rule get_loop.raw_induct [rotated, where P = "\<lambda>c d r. c = [] \<or> (\<exists>m. d = VDict m) \<or> (\<exists>l. d = VList l)"])
      (auto split: list.splits jv.splits)
  then show False using a by blast
qed

text \<open>
  C40. The validation looks at no more than the first entry that is no header, and at the headers: its
  answer, an error of Python included, is the same when all other entries behind that one are left
  out, whatever their names and values are.
\<close>
theorem validate_first_entry:
  assumes "fst ` set h \<subseteq> set header_names" and "k \<notin> set header_names"
  shows "validate_typed_json (h @ (k, v) # m) edef headers
    = validate_typed_json (h @ (k, v) # filter (\<lambda>(k, v). k \<in> set header_names) m) edef headers"
proof -
  let ?m = "filter (\<lambda>(k, v). k \<in> set header_names) m"
  have keys: "validate_keys edef [] (h @ (k, v) # m) = validate_keys edef [] (h @ (k, v) # ?m)"
    using assms by (induction h) auto
  have mo: "map_of (h @ (k, v) # m) f = map_of (h @ (k, v) # ?m) f" if "f \<in> set header_names" for f
  proof -
    have "map_of m f = map_of ?m f" using that by (induction m) auto
    then show ?thesis by (simp add: map_add_def split: option.splits)
  qed
  have hdr: "check_headers (h @ (k, v) # m) = check_headers (h @ (k, v) # ?m)"
  proof -
    have hs: "has_str (h @ (k, v) # m) f = has_str (h @ (k, v) # ?m) f" if "f \<in> set header_names" for f
      using mo [OF that] by (simp only: has_str_def)
    have mem: "f \<in> fst ` set (h @ (k, v) # m) \<longleftrightarrow> f \<in> fst ` set (h @ (k, v) # ?m)" if "f \<in> set header_names" for f
      using mo [OF that] by (metis map_of_eq_None_iff)
    have n: "''detType:RO'' \<in> set header_names" "''detName:RO'' \<in> set header_names" "''detId:RO'' \<in> set header_names"
      "''doc:RO'' \<in> set header_names" "''alg:RO'' \<in> set header_names" by (simp_all add: header_names_def)
    have f: "find (\<lambda>f. \<not> has_str (h @ (k, v) # m) f) [''detType:RO'', ''detName:RO'', ''detId:RO''] =
        find (\<lambda>f. \<not> has_str (h @ (k, v) # ?m) f) [''detType:RO'', ''detName:RO'', ''detId:RO'']"
      by (rule find_cong) (use hs n in auto)
    show ?thesis unfolding check_headers_def f mo [OF n(5)] mem [OF n(4)] hs [OF n(4)] by (rule refl)
  qed
  show ?thesis unfolding validate_typed_json_def validate_jv.simps keys hdr by (rule refl)
qed

theorem validate_first_entry_witness:
  "validate_typed_json [(''a'', VTup (VStr ''UINT8'') (VInt 3)), (''b'', VTup (VStr ''UINT8'') (VInt 300) :: unit jv), (''c'', VStr [])] [] False = Inr None"
proof -
  have "validate_typed_json ([] @ [(''a'', VTup (VStr ''UINT8'') (VInt 3) :: unit jv)]) [] False = Inr None" by code_simp
  then show ?thesis
    using validate_first_entry [of "[]" "''a''" "VTup (VStr ''UINT8'') (VInt 3)" "[(''b'', VTup (VStr ''UINT8'') (VInt 300) :: unit jv), (''c'', VStr [])]" "[]" False]
    by (simp add: header_names_def)
qed

end
