(* ===== verification/EventBuild.thy ===== *)
theory EventBuild
  imports StepIter EbNode PyJson
begin

text \<open>
  The event builder (\<^verbatim>\<open>psana/psana/eventbuilder.pyx\<close>, with the buffers of
  \<^verbatim>\<open>mypybuffer.pyx\<close> and the structs of \<^verbatim>\<open>dgramlite.pxd\<close>): the dgrams of the
  smalldata streams that have the same timestamp become an event, and events become batches by
  destination. A stream is the bytes of its view with an offset. The memory behind a view is not
  modelled: a dgram that does not lie inside its view is the error \<open>outside_view\<close>. The user's filter
  and destination are parameters; the Prometheus counters are left out.
\<close>

section \<open>Dgrams in memory\<close>

definition sizeof_Xtc :: nat where
  "sizeof_Xtc = 12"

definition sizeof_Dgram :: nat where
  "sizeof_Dgram = 24"

definition u32_at :: "nat \<Rightarrow> bytes \<Rightarrow> nat" where
  "u32_at i b = le_val (slice i (i + 4) b)"

definition dg_timestamp :: "bytes \<Rightarrow> nat" where
  "dg_timestamp d = u32_at 4 d * 2 ^ 32 + u32_at 0 d"

definition dg_service :: "bytes \<Rightarrow> nat" where
  "dg_service d = u32_at 8 d div 2 ^ 24 mod 16"

text \<open>
  \<open>sizeof(Dgram) + payload\<close> with \<open>payload = extent - sizeof(Xtc)\<close>: in 64 bits a payload below zero
  wraps, and wraps back in the sum.
\<close>

definition dg_size :: "bytes \<Rightarrow> nat" where
  "dg_size d = sizeof_Dgram + u32_at 20 d - sizeof_Xtc"

section \<open>Buffers\<close>

record mypybuf =
  mb_view :: bytes
  mb_offset :: nat
  mb_dg :: "nat option"

definition mypybuf_init :: "bytes \<Rightarrow> mypybuf" where
  "mypybuf_init view = \<lparr>mb_view = view, mb_offset = 0, mb_dg = None\<rparr>"

definition outside_view :: pyexc where
  "outside_view = NamedError ''outside the view''"

definition dgram_at :: "bytes \<Rightarrow> nat \<Rightarrow> pyexc + bytes" where
  "dgram_at v i =
     (let n = dg_size (drop i v) in
      if i + sizeof_Dgram \<le> length v \<and> i + n \<le> length v then Inr (slice i (i + n) v) else Inl outside_view)"

text \<open>\<open>next(mypybuf.dgrams())\<close>, a new generator at every call\<close>

definition mb_next :: "mypybuf \<Rightarrow> pyexc + bytes \<times> mypybuf" where
  "mb_next b =
     (if mb_offset b < length (mb_view b)
      then sbind (dgram_at (mb_view b) (mb_offset b)) (\<lambda>d.
             Inr (d, b\<lparr>mb_dg := Some (mb_offset b), mb_offset := mb_offset b + length d\<rparr>))
      else Inl StopIteration)"

definition mb_dgram :: "mypybuf \<Rightarrow> pyexc + bytes" where
  "mb_dgram b = (case mb_dg b of None \<Rightarrow> Inl outside_view | Some i \<Rightarrow> dgram_at (mb_view b) i)"

definition mb_rewind :: "mypybuf \<Rightarrow> pyexc + mypybuf" where
  "mb_rewind b = sbind (mb_dgram b) (\<lambda>d. Inr (b\<lparr>mb_offset := mb_offset b - length d\<rparr>))"

definition mb_left :: "mypybuf \<Rightarrow> nat" where
  "mb_left b = length (mb_view b) - mb_offset b"

lemma length_dgram_at: "dgram_at v i = Inr d \<Longrightarrow> length d = dg_size (drop i v) \<and> sizeof_Xtc \<le> length d \<and> i + length d \<le> length v"
  by (auto simp: dgram_at_def Let_def slice_def dg_size_def sizeof_Dgram_def sizeof_Xtc_def split: if_splits)

lemma mb_next_Inr: "mb_next b = Inr (d, b') \<longleftrightarrow> mb_offset b < length (mb_view b)
    \<and> dgram_at (mb_view b) (mb_offset b) = Inr d
    \<and> b' = b\<lparr>mb_dg := Some (mb_offset b), mb_offset := mb_offset b + length d\<rparr>"
  by (auto simp: mb_next_def sbind_def split: sum.splits)

lemma mb_next_less: "mb_next b = Inr (d, b') \<Longrightarrow> mb_left b' < mb_left b"
  by (auto simp: mb_next_Inr mb_left_def sizeof_Xtc_def dest!: length_dgram_at)

section \<open>Building an event\<close>

text \<open>An event under construction: 0 in the code is \<open>None\<close> for a stream without a dgram.\<close>

record proxy_event =
  pe_pydgrams :: "bytes option list"
  pe_destination :: nat
  pe_service :: nat
  pe_timestamp :: nat

text \<open>What the builder takes from \<open>dsparms\<close>. An empty list of timestamps selects everything.\<close>

record eb_parms =
  ep_n_configs :: nat
  ep_timestamps :: "nat list"
  ep_filter :: "(bytes option list \<Rightarrow> pyexc + int) option"
  ep_destination :: "(bytes option list \<Rightarrow> pyexc + nat) option"
  ep_batch_size :: nat
  ep_intg_stream_id :: int

definition dg_bytes :: "bytes option \<Rightarrow> bytes" where
  "dg_bytes d = (case d of None \<Rightarrow> [] | Some b \<Rightarrow> b)"

text \<open>The entries of the footer are 32-bit integers.\<close>

definition as_bytearray :: "bytes option list \<Rightarrow> pyexc + bytes" where
  "as_bytearray pydgrams =
     (let ds = map dg_bytes pydgrams in
      if list_all (\<lambda>d. length d < 2 ^ 32) ds then Inr (concat ds @ footer_of (map length ds))
      else Inl (NamedError ''OverflowError''))"

text \<open>The dgrams of a stream that the user did not select are skipped; None is a stream used up.\<close>

function select_dgram :: "nat list \<Rightarrow> bytes \<Rightarrow> mypybuf \<Rightarrow> pyexc + bytes option \<times> mypybuf" where
  "select_dgram tss d b =
     (if tss \<noteq> [] \<and> dg_timestamp d \<notin> set tss \<and> dg_service d = TransitionId_L1Accept
      then (if mb_offset b = length (mb_view b) then Inr (None, b)
            else (case mb_next b of Inl e \<Rightarrow> Inl e | Inr (d1, b1) \<Rightarrow> select_dgram tss d1 b1))
      else Inr (Some d, b))"
  by pat_completeness auto
termination
  by (relation "measure (\<lambda>(tss, d, b). mb_left b)") (auto dest: mb_next_less)

declare select_dgram.simps [simp del]

definition head_dgram :: "nat list \<Rightarrow> mypybuf \<Rightarrow> pyexc + bytes option \<times> mypybuf" where
  "head_dgram tss b =
     (if mb_offset b < length (mb_view b)
      then (case mb_next b of Inl e \<Rightarrow> Inl e | Inr (d, b1) \<Rightarrow> select_dgram tss d b1)
      else Inr (None, b))"

text \<open>The first loop: the next dgram of every stream, and the stream with the smallest timestamp.\<close>

definition smaller :: "nat \<Rightarrow> bytes option \<Rightarrow> nat \<times> nat option \<Rightarrow> nat \<times> nat option" where
  "smaller i d m =
     (case d of None \<Rightarrow> m
      | Some x \<Rightarrow> if fst m = 0 then (dg_timestamp x, Some i)
                 else if dg_timestamp x < fst m then (dg_timestamp x, Some i) else m)"

fun read_heads ::
    "nat list \<Rightarrow> nat \<Rightarrow> mypybuf list \<Rightarrow> nat \<times> nat option \<Rightarrow> pyexc + (bytes option \<times> mypybuf) list \<times> nat \<times> nat option" where
  "read_heads tss i [] m = Inr ([], m)"
| "read_heads tss i (b # bs) m =
     (case head_dgram tss b of Inl e \<Rightarrow> Inl e
      | Inr (d, b1) \<Rightarrow>
          (case read_heads tss (Suc i) bs (smaller i d m) of Inl e \<Rightarrow> Inl e
           | Inr (r, m1) \<Rightarrow> Inr ((d, b1) # r, m1)))"

text \<open>The second loop: a dgram that does not match goes back to its stream.\<close>

definition match_stream :: "nat \<Rightarrow> nat \<Rightarrow> nat \<Rightarrow> bytes option \<times> mypybuf \<Rightarrow> pyexc + bytes option \<times> mypybuf" where
  "match_stream smd_id ts i db =
     (case db of (d, b) \<Rightarrow>
        if i = smd_id then Inr (d, b)
        else if length (mb_view b) \<le> mb_offset b - length (dg_bytes d) then Inr (None, b)
        else (case mb_dgram b of Inl e \<Rightarrow> Inl e
              | Inr x \<Rightarrow> if dg_timestamp x = ts then Inr (Some x, b)
                        else (case mb_rewind b of Inl e \<Rightarrow> Inl e | Inr b1 \<Rightarrow> Inr (None, b1))))"

fun match_streams :: "nat \<Rightarrow> nat \<Rightarrow> nat \<Rightarrow> (bytes option \<times> mypybuf) list \<Rightarrow> pyexc + (bytes option \<times> mypybuf) list" where
  "match_streams smd_id ts i [] = Inr []"
| "match_streams smd_id ts i (db # dbs) =
     (case match_stream smd_id ts i db of Inl e \<Rightarrow> Inl e
      | Inr x \<Rightarrow> (case match_streams smd_id ts (Suc i) dbs of Inl e \<Rightarrow> Inl e | Inr xs \<Rightarrow> Inr (x # xs)))"

definition callback :: "('a \<Rightarrow> pyexc + 'b) option \<Rightarrow> 'a \<Rightarrow> 'b \<Rightarrow> pyexc + 'b" where
  "callback f x y = (case f of None \<Rightarrow> Inr y | Some g \<Rightarrow> g x)"

text \<open>What the filter says (1: accepted) and the destination, for a data event.\<close>

definition ask_user :: "eb_parms \<Rightarrow> nat \<Rightarrow> bytes option list \<Rightarrow> pyexc + int \<times> nat" where
  "ask_user p service pydgrams =
     (if (ep_filter p \<noteq> None \<or> ep_destination p \<noteq> None) \<and> service = TransitionId_L1Accept
      then sbind (as_bytearray pydgrams) (\<lambda>b.
           sbind (from_bytes (ep_n_configs p) b) (\<lambda>evt.
           sbind (callback (ep_filter p) evt 1) (\<lambda>accept.
           sbind (callback (ep_destination p) evt 0) (\<lambda>dest. Inr (accept, dest)))))
      else Inr (1, 0))"

definition build_proxy_event :: "eb_parms \<Rightarrow> mypybuf list \<Rightarrow> pyexc + proxy_event option \<times> mypybuf list" where
  "build_proxy_event p bs =
     (case read_heads (ep_timestamps p) 0 bs (0, None) of Inl e \<Rightarrow> Inl e
      | Inr (heads, min_ts, None) \<Rightarrow> Inr (None, map snd heads)
      | Inr (heads, min_ts, Some smd_id) \<Rightarrow>
          (let main = dg_bytes (fst (heads ! smd_id)); ts = dg_timestamp main; service = dg_service main in
           case match_streams smd_id ts 0 heads of Inl e \<Rightarrow> Inl e
           | Inr dbs \<Rightarrow>
               (let pydgrams = map fst dbs in
                sbind (ask_user p service pydgrams) (\<lambda>(accept, dest).
                  if accept = 1
                  then (if service \<noteq> TransitionId_L1Accept \<and> list_ex (\<lambda>d. d = None) pydgrams
                        then Inl (RuntimeError ''No active exception to reraise'')
                        else Inr (Some \<lparr>pe_pydgrams = pydgrams, pe_destination = dest, pe_service = service,
                                        pe_timestamp = ts\<rparr>, map snd dbs))
                  else Inr (None, map snd dbs)))))"

definition has_more :: "mypybuf list \<Rightarrow> bool" where
  "has_more bs \<longleftrightarrow> list_ex (\<lambda>b. mb_offset b < length (mb_view b)) bs"

text \<open>A built event uses up a part of some stream, and so does an event that is filtered out.\<close>

definition all_left :: "mypybuf list \<Rightarrow> nat" where
  "all_left bs = sum_list (map mb_left bs)"

lemma select_dgram_left: "select_dgram tss d b = Inr (x, b1) \<Longrightarrow> mb_left b1 \<le> mb_left b"
proof (induction tss d b rule: select_dgram.induct)
  case (1 tss d b)
  show ?case
  proof (cases "tss \<noteq> [] \<and> dg_timestamp d \<notin> set tss \<and> dg_service d = TransitionId_L1Accept \<and> mb_offset b \<noteq> length (mb_view b)")
    case True
    then obtain d2 b2 where n: "mb_next b = Inr (d2, b2)" "select_dgram tss d2 b2 = Inr (x, b1)"
      using 1(2) by (subst (asm) select_dgram.simps) (auto split: sum.splits)
    then have "mb_left b1 \<le> mb_left b2" using 1(1) True by auto
    then show ?thesis using mb_next_less [OF n(1)] by simp
  next
    case False
    then show ?thesis using 1(2) by (subst (asm) select_dgram.simps) (auto split: if_splits)
  qed
qed

text \<open>\<open>rewound b1 b\<close>: \<open>b1\<close> is \<open>b\<close> after some dgrams were read, and the last is the current one.\<close>

definition moved_on :: "mypybuf \<Rightarrow> mypybuf \<Rightarrow> bytes \<Rightarrow> bool" where
  "moved_on b b1 d \<longleftrightarrow> mb_dgram b1 = Inr d \<and> mb_view b1 = mb_view b \<and> mb_offset b + length d \<le> mb_offset b1
     \<and> mb_offset b1 \<le> length (mb_view b) \<and> 0 < length d"

lemma mb_next_moved: "mb_next b = Inr (d, b1) \<Longrightarrow> moved_on b b1 d"
  by (auto simp: mb_next_Inr moved_on_def mb_dgram_def sizeof_Xtc_def dest: length_dgram_at)

lemma select_dgram_moved:
  "select_dgram tss d b1 = Inr (Some x, b2) \<Longrightarrow> moved_on b b1 d \<Longrightarrow> moved_on b b2 x"
proof (induction tss d b1 rule: select_dgram.induct)
  case (1 tss d b1)
  show ?case
  proof (cases "tss \<noteq> [] \<and> dg_timestamp d \<notin> set tss \<and> dg_service d = TransitionId_L1Accept \<and> mb_offset b1 \<noteq> length (mb_view b1)")
    case True
    then obtain d3 b3 where n: "mb_next b1 = Inr (d3, b3)" "select_dgram tss d3 b3 = Inr (Some x, b2)"
      using 1(2) by (subst (asm) select_dgram.simps) (auto split: sum.splits)
    have "moved_on b b3 d3" using mb_next_moved [OF n(1)] 1(3) by (auto simp: moved_on_def)
    then show ?thesis using 1(1) True n by auto
  next
    case False
    then show ?thesis using 1(2,3) by (subst (asm) select_dgram.simps) (auto split: if_splits)
  qed
qed

lemma head_dgram_Some: "head_dgram tss b = Inr (Some d, b1) \<Longrightarrow> moved_on b b1 d"
  by (auto simp: head_dgram_def split: if_splits sum.splits dest!: mb_next_moved intro: select_dgram_moved)

lemma head_dgram_left: "head_dgram tss b = Inr (d, b1) \<Longrightarrow>
    mb_left b1 \<le> mb_left b \<and> (mb_offset b < length (mb_view b) \<longrightarrow> mb_left b1 < mb_left b)"
  by (auto simp: head_dgram_def split: if_splits sum.splits dest!: mb_next_less select_dgram_left)

lemma head_dgram_None: "head_dgram tss b = Inr (None, b1) \<Longrightarrow> mb_view b1 = mb_view b \<and> length (mb_view b) \<le> mb_offset b1"
proof -
  have "select_dgram tss d b0 = Inr (None, b2) \<Longrightarrow> mb_view b2 = mb_view b0 \<and> mb_offset b2 = length (mb_view b0)" for d b0 b2
  proof (induction tss d b0 rule: select_dgram.induct)
    case (1 tss d b0)
    then show ?case
      by (subst (asm) (2) select_dgram.simps) (auto split: if_splits sum.splits simp: mb_next_Inr)
  qed
  then show "head_dgram tss b = Inr (None, b1) \<Longrightarrow> mb_view b1 = mb_view b \<and> length (mb_view b) \<le> mb_offset b1"
    by (auto simp: head_dgram_def mb_next_Inr split: if_splits sum.splits)
qed

lemma head_left: "head_dgram tss b = Inr db \<Longrightarrow> mb_left (snd db) \<le> mb_left b"
  by (cases db) (simp add: head_dgram_left)

lemma match_stream_left:
  assumes "head_dgram tss b = Inr db" and "match_stream smd_id ts i db = Inr (x, b2)"
  shows "mb_left b2 \<le> mb_left b" and "i = smd_id \<Longrightarrow> mb_offset b < length (mb_view b) \<Longrightarrow> mb_left b2 < mb_left b"
proof -
  obtain d b1 where db: "db = (d, b1)" by force
  note left = head_dgram_left [OF assms(1) [unfolded db]]
  show "mb_left b2 \<le> mb_left b"
  proof (cases d)
    case None
    then show ?thesis
      using assms(2) left head_dgram_None [of tss b b1] assms(1) db by (auto simp: match_stream_def dg_bytes_def split: if_splits)
  next
    case (Some e)
    then have m: "moved_on b b1 e" using assms(1) db head_dgram_Some by auto
    then show ?thesis
      using assms(2) left db Some
      by (auto simp: match_stream_def moved_on_def mb_rewind_def mb_left_def dg_bytes_def sbind_def split: if_splits)
  qed
  show "i = smd_id \<Longrightarrow> mb_offset b < length (mb_view b) \<Longrightarrow> mb_left b2 < mb_left b"
    using assms(2) left db by (auto simp: match_stream_def)
qed

lemma read_heads_Inr:
  "read_heads tss i bs m = Inr (r, m1) \<Longrightarrow>
    list_all2 (\<lambda>b db. head_dgram tss b = Inr db) bs r \<and> m1 = fold (\<lambda>(j, d). smaller j d) (enumerate i (map fst r)) m"
proof (induction tss i bs m arbitrary: r rule: read_heads.induct)
  case (2 tss i b bs m)
  then show ?case by (fastforce split: sum.splits prod.splits)
qed simp

lemma match_streams_Inr:
  "match_streams smd_id ts i dbs = Inr xs \<Longrightarrow>
    length xs = length dbs \<and> (\<forall>j<length dbs. match_stream smd_id ts (i + j) (dbs ! j) = Inr (xs ! j))"
proof (induction smd_id ts i dbs arbitrary: xs rule: match_streams.induct)
  case (2 smd_id ts i db dbs)
  then show ?case by (auto simp: nth_Cons split: sum.splits nat.splits)
qed simp

text \<open>The stream found by the first loop has a dgram.\<close>

lemma smaller_fold:
  "fold (\<lambda>(j, d). smaller j d) (enumerate i ds) (n, None) = (t, Some k) \<Longrightarrow>
    i \<le> k \<and> k < i + length ds \<and> ds ! (k - i) \<noteq> None"
proof -
  have "fold (\<lambda>(j, d). smaller j d) (enumerate i ds) (n, q) = (t, Some k) \<Longrightarrow>
    q = Some k \<or> i \<le> k \<and> k < i + length ds \<and> ds ! (k - i) \<noteq> None" for n q
  proof (induction ds arbitrary: i n q)
    case (Cons d ds)
    obtain n1 q1 where s: "smaller i d (n, q) = (n1, q1)" by force
    have "q1 = Some k \<or> Suc i \<le> k \<and> k < Suc i + length ds \<and> ds ! (k - Suc i) \<noteq> None"
      using Cons.IH [of "Suc i" n1 q1] Cons.prems s by simp
    moreover have "q1 = q \<or> q1 = Some i \<and> d \<noteq> None"
      using s by (auto simp: smaller_def split: option.splits if_splits)
    moreover have "Suc i \<le> k \<Longrightarrow> (d # ds) ! (k - i) = ds ! (k - Suc i)" by (simp add: nth_Cons')
    ultimately show ?case by auto
  qed simp
  from this [of n None] show "fold (\<lambda>(j, d). smaller j d) (enumerate i ds) (n, None) = (t, Some k) \<Longrightarrow>
    i \<le> k \<and> k < i + length ds \<and> ds ! (k - i) \<noteq> None" by simp
qed

lemma sum_list_less:
  fixes xs :: "nat list"
  assumes "list_all2 (\<le>) xs ys" and "j < length xs" and "xs ! j < ys ! j"
  shows "sum_list xs < sum_list ys"
  using assms
proof (induction xs ys arbitrary: j rule: list_all2_induct)
  case (Cons x xs y ys)
  have "sum_list xs \<le> sum_list ys" using Cons.hyps(2) by (induction rule: list_all2_induct) auto
  then show ?case using Cons by (cases j) (auto intro: add_le_less_mono add_less_le_mono)
qed simp

lemma match_streams_left:
  assumes "list_all2 (\<lambda>b db. head_dgram tss b = Inr db) bs heads" and "match_streams smd_id ts 0 heads = Inr dbs"
  shows "list_all2 (\<le>) (map mb_left (map snd dbs)) (map mb_left bs)"
proof (intro list_all2_all_nthI)
  show "length (map mb_left (map snd dbs)) = length (map mb_left bs)"
    using assms(1) match_streams_Inr [OF assms(2)] by (auto dest: list_all2_lengthD)
next
  fix j
  assume "j < length (map mb_left (map snd dbs))"
  then have j: "j < length bs" "j < length heads" "j < length dbs"
    using assms(1) match_streams_Inr [OF assms(2)] by (auto dest: list_all2_lengthD)
  then show "map mb_left (map snd dbs) ! j \<le> map mb_left bs ! j"
    using match_streams_Inr [OF assms(2)] list_all2_nthD [OF assms(1) j(1)]
      match_stream_left(1) [of tss "bs ! j" "heads ! j" smd_id ts j "fst (dbs ! j)" "snd (dbs ! j)"] by simp
qed

lemma build_proxy_event_left:
  assumes "build_proxy_event p bs = Inr (ev, bs1)" and "has_more bs"
  shows "all_left bs1 < all_left bs"
proof -
  obtain heads t k where r: "read_heads (ep_timestamps p) 0 bs (0, None) = Inr (heads, t, k)"
    using assms(1) by (auto simp: build_proxy_event_def split: sum.splits prod.splits option.splits)
  note h = read_heads_Inr [OF r]
  have len: "length heads = length bs" using h by (auto dest: list_all2_lengthD)
  show ?thesis
  proof (cases k)
    case None
    then have bs1: "bs1 = map snd heads" using assms(1) r by (simp add: build_proxy_event_def)
    obtain j where j: "j < length bs" "mb_offset (bs ! j) < length (mb_view (bs ! j))"
      using assms(2) by (auto simp: has_more_def list_ex_length)
    have le: "list_all2 (\<le>) (map mb_left bs1) (map mb_left bs)"
      unfolding bs1 using h by (auto simp: list_all2_conv_all_nth intro: head_left)
    have "mb_left (snd (heads ! j)) < mb_left (bs ! j)"
      using head_dgram_left [of "ep_timestamps p" "bs ! j" "fst (heads ! j)" "snd (heads ! j)"] h j
      by (simp add: list_all2_conv_all_nth)
    then show ?thesis
      unfolding all_left_def using sum_list_less [OF le, of j] j len bs1 by simp
  next
    case (Some smd_id)
    let ?ts = "dg_timestamp (dg_bytes (fst (heads ! smd_id)))"
    obtain dbs where m: "match_streams smd_id ?ts 0 heads = Inr dbs" and bs1: "bs1 = map snd dbs"
      using assms(1) r Some
      by (auto simp: build_proxy_event_def Let_def sbind_def split: sum.splits prod.splits if_splits)
    have k: "smd_id < length bs" "fst (heads ! smd_id) \<noteq> None"
      using smaller_fold [of 0 "map fst heads" 0 t smd_id] h Some len by auto
    have hd: "head_dgram (ep_timestamps p) (bs ! smd_id) = Inr (heads ! smd_id)"
      using h k by (simp add: list_all2_conv_all_nth)
    have "mb_offset (bs ! smd_id) < length (mb_view (bs ! smd_id))"
      using hd k by (cases "heads ! smd_id") (auto simp: head_dgram_def split: if_splits)
    then have "mb_left (snd (dbs ! smd_id)) < mb_left (bs ! smd_id)"
      using match_streams_Inr [OF m] k len hd
        match_stream_left(2) [of _ _ "heads ! smd_id" smd_id ?ts smd_id "fst (dbs ! smd_id)" "snd (dbs ! smd_id)"] by simp
    moreover have "length dbs = length bs" using match_streams_Inr [OF m] len by simp
    ultimately show ?thesis
      unfolding all_left_def bs1 using sum_list_less [OF match_streams_left [OF conjunct1 [OF h] m], of smd_id] k
      by simp
  qed
qed

section \<open>Building events and batches\<close>

text \<open>With an integrating stream only the events in which it has a dgram are counted.\<close>

definition counted :: "eb_parms \<Rightarrow> proxy_event \<Rightarrow> pyexc + nat" where
  "counted p ev =
     (if ep_intg_stream_id p > -1
      then (if nat (ep_intg_stream_id p) < length (pe_pydgrams ev)
            then Inr (if pe_pydgrams ev ! nat (ep_intg_stream_id p) \<noteq> None then 1 else 0)
            else Inl IndexError)
      else Inr 1)"

function build_loop :: "eb_parms \<Rightarrow> nat \<Rightarrow> mypybuf list \<Rightarrow> pyexc + proxy_event list \<times> mypybuf list" where
  "build_loop p cn bs =
     (if cn < ep_batch_size p \<and> has_more bs
      then (case build_proxy_event p bs of
              Inl e \<Rightarrow> Inl e
            | Inr (None, bs1) \<Rightarrow> build_loop p cn bs1
            | Inr (Some ev, bs1) \<Rightarrow>
                (case counted p ev of Inl e \<Rightarrow> Inl e
                 | Inr n \<Rightarrow> (case build_loop p (cn + n) bs1 of
                      Inl e \<Rightarrow> Inl e | Inr (evs, bs2) \<Rightarrow> Inr (ev # evs, bs2))))
      else Inr ([], bs))"
  by pat_completeness auto
termination
  by (relation "measure (\<lambda>(p, cn, bs). all_left bs)") (auto dest: build_proxy_event_left)

declare build_loop.simps [simp del]

definition MAX_BATCH_SIZE :: nat where
  "MAX_BATCH_SIZE = 10000"

definition is_step :: "proxy_event \<Rightarrow> bool" where
  "is_step ev \<longleftrightarrow> pe_service ev \<noteq> TransitionId_L1Accept"

text \<open>\<open>build(as_proxy_events=True)\<close>\<close>

definition build_events :: "eb_parms \<Rightarrow> mypybuf list \<Rightarrow> pyexc + proxy_event list \<times> mypybuf list" where
  "build_events p bs =
     sbind (build_loop p 0 bs) (\<lambda>(evs, bs1).
       if length evs \<le> MAX_BATCH_SIZE \<and> length (filter is_step evs) \<le> MAX_BATCH_SIZE
       then Inr (evs, bs1) else Inl AssertionError)"

lemma build_loop_left:
  "build_loop p cn bs = Inr (evs, bs1) \<Longrightarrow> all_left bs1 \<le> all_left bs \<and> (evs \<noteq> [] \<longrightarrow> all_left bs1 < all_left bs)"
proof (induction p cn bs arbitrary: evs bs1 rule: build_loop.induct)
  case (1 p cn bs)
  show ?case
  proof (cases "cn < ep_batch_size p \<and> has_more bs")
    case True
    obtain ev bs2 where b: "build_proxy_event p bs = Inr (ev, bs2)"
      using 1(3) True by (subst (asm) build_loop.simps) (auto split: sum.splits prod.splits)
    have less: "all_left bs2 < all_left bs" using build_proxy_event_left [OF b] True by simp
    show ?thesis
    proof (cases ev)
      case None
      then have "build_loop p cn bs2 = Inr (evs, bs1)" using 1(3) True b by (subst (asm) build_loop.simps) simp
      then show ?thesis using 1(1) [OF True b] None less by force
    next
      case (Some e)
      then obtain n evs2 where "counted p e = Inr n" "build_loop p (cn + n) bs2 = Inr (evs2, bs1)"
        using 1(3) True b by (subst (asm) build_loop.simps) (auto split: sum.splits)
      then have "all_left bs1 \<le> all_left bs2" using 1(2) [OF True b] Some by blast
      then show ?thesis using less by simp
    qed
  next
    case False
    then show ?thesis using 1(3) by (subst (asm) build_loop.simps) auto
  qed
qed

text \<open>\<open>gen_batches\<close>: for every destination the bytes of its events and their sizes, in a dict.\<close>

type_synonym batch_dict = "(nat \<times> bytes \<times> nat list) list"

definition extend_batch :: "nat \<Rightarrow> bytes list \<Rightarrow> batch_dict \<Rightarrow> batch_dict" where
  "extend_batch dest evts d =
     (let (batch, sizes) = (case map_of d dest of None \<Rightarrow> ([], []) | Some x \<Rightarrow> x) in
      AList.update dest (batch @ concat evts, sizes @ map length evts) d)"

fun collect_events :: "proxy_event list \<Rightarrow> batch_dict \<times> batch_dict \<Rightarrow> pyexc + batch_dict \<times> batch_dict" where
  "collect_events [] ds = Inr ds"
| "collect_events (ev # evs) ds =
     (case as_bytearray (pe_pydgrams ev) of Inl e \<Rightarrow> Inl e
      | Inr b \<Rightarrow> collect_events evs
          (extend_batch (pe_destination ev) [b] (fst ds),
           extend_batch (pe_destination ev) (if is_step ev then [b] else []) (snd ds)))"

text \<open>The array of the footer has one place more than there may be events.\<close>

fun close_batches :: "batch_dict \<Rightarrow> pyexc + (nat \<times> bytes) list" where
  "close_batches [] = Inr []"
| "close_batches ((dest, batch, sizes) # d) =
     (case (if batch = [] then Inr []
            else if \<not> list_all (\<lambda>n. n < 2 ^ 32) sizes then Inl (NamedError ''OverflowError'')
            else if MAX_BATCH_SIZE < length sizes then Inl IndexError
            else Inr (batch @ footer_of sizes)) of
        Inl e \<Rightarrow> Inl e
      | Inr b \<Rightarrow> (case close_batches d of Inl e \<Rightarrow> Inl e | Inr r \<Rightarrow> Inr ((dest, b) # r)))"

definition gen_batches :: "proxy_event list \<Rightarrow> pyexc + (nat \<times> bytes) list \<times> (nat \<times> bytes) list" where
  "gen_batches evs =
     sbind (collect_events evs ([], [])) (\<lambda>(batch_dict, step_dict).
     sbind (close_batches batch_dict) (\<lambda>bd. sbind (close_batches step_dict) (\<lambda>sd. Inr (bd, sd))))"

definition eb_build :: "eb_parms \<Rightarrow> mypybuf list \<Rightarrow> pyexc + built \<times> mypybuf list" where
  "eb_build p bs =
     sbind (build_events p bs) (\<lambda>(evs, bs1).
     sbind (gen_batches evs) (\<lambda>(bd, sd).
       Inr (\<lparr>bt_smd = bd, bt_step = sd, bt_nevents = length evs, bt_nsteps = length (filter is_step evs)\<rparr>, bs1)))"

text \<open>
  \<open>events\<close>, a generator: the events of one build, each with its proxy. That the number of configs
  is the number of streams is checked for each event alike.
\<close>

definition eb_events :: "eb_parms \<Rightarrow> mypybuf list \<Rightarrow> pyexc + (bytes option list \<times> proxy_event) list \<times> mypybuf list" where
  "eb_events p bs =
     sbind (build_events p bs) (\<lambda>(evs, bs1).
     sbind (smap (\<lambda>ev. sbind (as_bytearray (pe_pydgrams ev)) (\<lambda>b.
                      sbind (from_bytes (ep_n_configs p) b) (\<lambda>e. Inr (e, ev)))) evs) (\<lambda>es. Inr (es, bs1)))"

text \<open>\<open>EventBuilderManager.batches\<close>, what the generator yields; an exception is the last element.\<close>

function manager_batches :: "eb_parms \<Rightarrow> mypybuf list \<Rightarrow> (pyexc + built) list" where
  "manager_batches p bs =
     (case eb_build p bs of
        Inl e \<Rightarrow> [Inl e]
      | Inr (b, bs1) \<Rightarrow>
          (if bt_nevents b = 0 \<and> bt_nsteps b = 0 then [] else Inr b # manager_batches p bs1))"
  by pat_completeness auto
termination
proof (relation "measure (\<lambda>(p, bs). all_left bs)", goal_cases)
  case (2 p bs r b bs1)
  then obtain evs where "build_loop p 0 bs = Inr (evs, bs1)" "bt_nevents b = length evs"
      "bt_nsteps b = length (filter is_step evs)"
    by (auto simp: eb_build_def build_events_def sbind_def split: sum.splits prod.splits if_splits)
  then show ?case using 2 build_loop_left [of p 0 bs evs bs1] by (cases evs) auto
qed simp

declare manager_batches.simps [simp del]

definition eb_manager :: "eb_parms \<Rightarrow> bytes list \<Rightarrow> (pyexc + built) list" where
  "eb_manager p views = manager_batches p (map mypybuf_init views)"

end
