(* ===== verification/SmdRead.thy ===== *)
theory SmdRead
  imports EventBuild
begin

text \<open>
  The reader of the small files (\<^verbatim>\<open>psana/psana/parallelreader.pyx\<close> and
  \<^verbatim>\<open>smdreader.pyx\<close>): chunks of every file are read into buffers, and \<open>view\<close> finds in each buffer
  the dgrams up to a common time, the viewing window, which \<open>show\<close> gives. The system call \<open>read\<close>, the
  conversion of files in progress and the transitions that \<open>DgramEdit\<close> makes are parameters. The
  loops over the files that run in parallel write to different files, so they run here one file after
  the other. The arrays of a buffer are functions of the index, because the code reads entries it has
  not written (and then ignores what it read). Clocks are left out.
\<close>

section \<open>State\<close>

record rbuf =
  rb_chunk :: bytes
  rb_got :: nat
  rb_ready_offset :: nat
  rb_n_ready :: nat
  rb_seen_offset :: nat
  rb_n_seen :: nat
  rb_timestamp :: nat
  rb_ts :: "nat \<Rightarrow> nat"
  rb_sv :: "nat \<Rightarrow> nat"
  rb_st :: "nat \<Rightarrow> nat"
  rb_en :: "nat \<Rightarrow> nat"
  rb_found_endrun :: bool
  rb_endrun_ts :: nat

text \<open>A file: its two buffers, the position of its descriptor, and its entries in the arrays of the reader.\<close>

record smd_file =
  sf_buf :: rbuf
  sf_step :: rbuf
  sf_pos :: nat
  sf_i_start :: nat
  sf_i_end :: nat
  sf_i_step_start :: nat
  sf_i_step_end :: nat
  sf_i_st :: nat
  sf_block :: nat
  sf_i_step_st :: nat
  sf_step_block :: nat

record smd_reader =
  sr_files :: "smd_file list"
  sr_calls :: nat
  sr_got :: nat
  sr_overflown :: nat
  sr_winner :: "nat option"
  sr_n_view_events :: nat
  sr_last_sv :: nat
  sr_last_ts :: nat
  sr_next_fake_ts :: nat
  sr_fakebuf :: bytes

text \<open>
  \<open>rc_read n i pos size\<close> is what the n-th round of reads gets of file \<open>i\<close> from a position, at most \<open>size\<close>
  bytes; \<open>rc_converted n\<close> says which files have left the state in progress.
\<close>

record rd_conf =
  rc_chunksize :: nat
  rc_max_retries :: nat
  rc_fakestep :: bool
  rc_read :: "nat \<Rightarrow> nat \<Rightarrow> nat \<Rightarrow> nat \<Rightarrow> bytes"
  rc_converted :: "nat \<Rightarrow> bool list"
  rc_fake :: "nat \<Rightarrow> nat \<Rightarrow> bytes"

text \<open>\<open>junk\<close> is what is in an array before it is written.\<close>

definition rbuf_init :: "(nat \<Rightarrow> nat) \<Rightarrow> rbuf" where
  "rbuf_init junk = \<lparr>rb_chunk = [], rb_got = 0, rb_ready_offset = 0, rb_n_ready = 0, rb_seen_offset = 0, rb_n_seen = 0,
     rb_timestamp = 0, rb_ts = junk, rb_sv = junk, rb_st = junk, rb_en = junk, rb_found_endrun = False, rb_endrun_ts = 0\<rparr>"

definition smd_file_init :: "(nat \<Rightarrow> nat) \<Rightarrow> smd_file" where
  "smd_file_init junk = \<lparr>sf_buf = rbuf_init junk, sf_step = rbuf_init junk, sf_pos = 0, sf_i_start = 0, sf_i_end = 0,
     sf_i_step_start = 0, sf_i_step_end = 0, sf_i_st = 0, sf_block = 0, sf_i_step_st = 0, sf_step_block = 0\<rparr>"

definition smd_reader_init :: "(nat \<Rightarrow> nat) \<Rightarrow> nat \<Rightarrow> pyexc + smd_reader" where
  "smd_reader_init junk nfiles =
     (if 0 < nfiles
      then Inr \<lparr>sr_files = replicate nfiles (smd_file_init junk), sr_calls = 0, sr_got = 0, sr_overflown = 0, sr_winner = None,
                sr_n_view_events = 0, sr_last_sv = 0, sr_last_ts = 0, sr_next_fake_ts = 0, sr_fakebuf = []\<rparr>
      else Inl AssertionError)"

section \<open>Reading\<close>

text \<open>The dgrams in a chunk are entered in the arrays, and the transitions among them copied.\<close>

definition enter_dgram :: "nat \<Rightarrow> nat \<Rightarrow> nat \<Rightarrow> rbuf \<Rightarrow> rbuf" where
  "enter_dgram ts sv n b = b\<lparr>rb_ts := (rb_ts b)(rb_n_ready b := ts), rb_sv := (rb_sv b)(rb_n_ready b := sv),
     rb_st := (rb_st b)(rb_n_ready b := rb_ready_offset b), rb_en := (rb_en b)(rb_n_ready b := rb_ready_offset b + n),
     rb_timestamp := ts, rb_ready_offset := rb_ready_offset b + n, rb_n_ready := rb_n_ready b + 1\<rparr>"

function scan_chunk :: "nat \<Rightarrow> rbuf \<times> rbuf \<times> nat \<Rightarrow> rbuf \<times> rbuf \<times> nat" where
  "scan_chunk chunksize (b, sb, overflown) =
     (if rb_ready_offset b < rb_got b \<and> sizeof_Dgram \<le> rb_got b - rb_ready_offset b
      then (let d = drop (rb_ready_offset b) (rb_chunk b); n = dg_size d; sv = dg_service d; ts = dg_timestamp d;
                overflown1 = (if chunksize < n then n else overflown) in
            if n \<le> rb_got b - rb_ready_offset b
            then scan_chunk chunksize
              ((enter_dgram ts sv n b)\<lparr>rb_endrun_ts := (if sv = TransitionId_EndRun then ts else rb_endrun_ts b)\<rparr>,
               (if sv \<noteq> TransitionId_L1Accept then enter_dgram ts sv n (sb\<lparr>rb_chunk := rb_chunk sb @ take n d\<rparr>) else sb),
               overflown1)
            else (b, sb, overflown1))
      else (b, sb, overflown))"
  by pat_completeness auto
termination
  by (relation "measure (\<lambda>(chunksize, b, sb, overflown). rb_got b - rb_ready_offset b)")
    (auto simp: enter_dgram_def dg_size_def sizeof_Dgram_def sizeof_Xtc_def)

declare scan_chunk.simps [simp del]

definition unseen :: "smd_file \<Rightarrow> nat" where
  "unseen f = rb_n_ready (sf_buf f) - rb_n_seen (sf_buf f)"

definition clear_buf :: "rbuf \<Rightarrow> rbuf" where
  "clear_buf b = b\<lparr>rb_ready_offset := 0, rb_n_ready := 0, rb_seen_offset := 0, rb_n_seen := 0\<rparr>"

text \<open>
  One file of \<open>just_read\<close>: the rest of the chunk is kept and filled up. The copies of transitions start
  again at the beginning of their chunk.
\<close>

definition read_file :: "rd_conf \<Rightarrow> nat \<Rightarrow> nat \<Rightarrow> smd_file \<Rightarrow> nat \<Rightarrow> smd_file \<times> nat \<times> nat" where
  "read_file C n i f overflown =
     (if 0 < unseen f then (f, 0, overflown)
      else (let b = sf_buf f; rest = drop (rb_ready_offset b) (rb_chunk b);
                new = rc_read C n i (sf_pos f) (rc_chunksize C - length rest);
                b1 = (clear_buf b)\<lparr>rb_chunk := rest @ new, rb_got := length rest + length new\<rparr>;
                sb1 = (clear_buf (sf_step f))\<lparr>rb_chunk := []\<rparr> in
            case scan_chunk (rc_chunksize C) (b1, sb1, overflown) of (b2, sb2, overflown1) \<Rightarrow>
              (f\<lparr>sf_buf := b2, sf_step := sb2, sf_pos := sf_pos f + length new\<rparr>, length new, overflown1)))"

fun read_files :: "rd_conf \<Rightarrow> nat \<Rightarrow> nat \<Rightarrow> smd_file list \<Rightarrow> nat \<Rightarrow> smd_file list \<times> nat \<times> nat" where
  "read_files C n i [] overflown = ([], 0, overflown)"
| "read_files C n i (f # fs) overflown =
     (case read_file C n i f overflown of (f1, got, o1) \<Rightarrow>
        case read_files C n (Suc i) fs o1 of (fs1, gots, o2) \<Rightarrow> (f1 # fs1, got + gots, o2))"

definition just_read :: "rd_conf \<Rightarrow> smd_reader \<Rightarrow> smd_reader" where
  "just_read C r = (case read_files C (sr_calls r) 0 (sr_files r) (sr_overflown r) of (fs, got, overflown) \<Rightarrow>
     r\<lparr>sr_files := fs, sr_got := got, sr_overflown := overflown, sr_calls := sr_calls r + 1\<rparr>)"

definition is_complete :: "smd_reader \<Rightarrow> bool" where
  "is_complete r \<longleftrightarrow> list_all (\<lambda>f. unseen f \<noteq> 0) (sr_files r)"

definition sr_found_endrun :: "smd_reader \<Rightarrow> bool" where
  "sr_found_endrun r \<longleftrightarrow> list_all (\<lambda>f. rb_found_endrun (sf_buf f)) (sr_files r)"

definition reset_indices :: "smd_file \<Rightarrow> smd_file" where
  "reset_indices f =
     (if 0 < unseen f then f else f\<lparr>sf_i_start := 0, sf_i_end := 0, sf_i_step_start := 0, sf_i_step_end := 0\<rparr>)"

text \<open>The retries; \<open>cn\<close> counts them.\<close>

function retry_reads :: "rd_conf \<Rightarrow> nat \<Rightarrow> smd_reader \<Rightarrow> smd_reader" where
  "retry_reads C cn r =
     (if \<not> is_complete r \<and> \<not> list_all id (rc_converted C (sr_calls r))
      then (let r1 = just_read C r in if rc_max_retries C \<le> cn + 1 then r1 else retry_reads C (cn + 1) r1)
      else r)"
  by pat_completeness auto
termination
  by (relation "measure (\<lambda>(C, cn, r). rc_max_retries C - cn)") auto

declare retry_reads.simps [simp del]

definition sr_get :: "rd_conf \<Rightarrow> smd_reader \<Rightarrow> smd_reader" where
  "sr_get C r =
     (if sr_found_endrun r then r
      else (let r1 = just_read C (r\<lparr>sr_files := map reset_indices (sr_files r)\<rparr>);
                r2 = (if 0 < rc_max_retries C then retry_reads C 0 r1 else r1) in
            r2\<lparr>sr_winner := None\<rparr>))"

section \<open>Viewing windows\<close>

text \<open>The first buffer whose last dgram is the earliest. The second component is the time found so far.\<close>

fun find_winner :: "nat \<Rightarrow> smd_file list \<Rightarrow> nat option \<times> nat \<Rightarrow> nat option \<times> nat" where
  "find_winner i [] w = w"
| "find_winner i (f # fs) w =
     find_winner (Suc i) fs
       (if rb_timestamp (sf_buf f) < snd w \<or> snd w = 0 then (Some i, rb_timestamp (sf_buf f)) else w)"

text \<open>\<open>while arr[e + 1] <= limit and e < n - 1: e += 1\<close>\<close>

function last_before :: "(nat \<Rightarrow> nat) \<Rightarrow> nat \<Rightarrow> nat \<Rightarrow> nat \<Rightarrow> nat" where
  "last_before arr limit n e = (if arr (e + 1) \<le> limit \<and> e < n - 1 then last_before arr limit n (e + 1) else e)"
  by pat_completeness auto
termination
  by (relation "measure (\<lambda>(arr, limit, n, e). n - e)") auto

declare last_before.simps [simp del]

definition view_buf :: "nat \<Rightarrow> smd_file \<Rightarrow> smd_file" where
  "view_buf limit f =
     (let b = sf_buf f; e0 = sf_i_start f in
      if e0 < rb_n_ready b
      then (let e = (if rb_ts b e0 \<noteq> limit then last_before (rb_ts b) limit (rb_n_ready b) e0 else e0) in
            f\<lparr>sf_i_end := e, sf_block := rb_en b e - rb_st b e0, sf_i_st := e0,
              sf_buf := b\<lparr>rb_seen_offset := rb_en b e, rb_n_seen := e + 1,
                          rb_found_endrun := rb_found_endrun b \<or> rb_sv b e = TransitionId_EndRun\<rparr>,
              sf_i_start := e + 1\<rparr>)
      else f\<lparr>sf_i_end := e0\<rparr>)"

definition view_steps :: "nat \<Rightarrow> smd_file \<Rightarrow> smd_file" where
  "view_steps limit f =
     (let b = sf_step f; e0 = sf_i_step_start f; f1 = f\<lparr>sf_i_step_st := 0, sf_step_block := 0, sf_i_step_end := e0\<rparr> in
      if e0 < rb_n_ready b \<and> rb_ts b e0 \<le> limit
      then (let e = last_before (rb_ts b) limit (rb_n_ready b) e0 in
            f1\<lparr>sf_i_step_end := e, sf_step_block := rb_en b e - rb_st b e0, sf_i_step_st := e0,
               sf_step := b\<lparr>rb_seen_offset := rb_en b e, rb_n_seen := e + 1\<rparr>, sf_i_step_start := e + 1\<rparr>)
      else f1)"

text \<open>A file that has nothing up to the limit is left at once, its window of steps as it was.\<close>

definition view_file :: "nat \<Rightarrow> smd_file \<Rightarrow> smd_file" where
  "view_file limit f =
     (let f1 = f\<lparr>sf_i_st := 0, sf_block := 0\<rparr> in
      if limit < rb_ts (sf_buf f) (sf_i_start f) then f1 else view_steps limit (view_buf limit f1))"

definition winner_of :: "int \<Rightarrow> smd_reader \<Rightarrow> nat option" where
  "winner_of intg_stream_id r =
     (if intg_stream_id > -1 then Some (nat intg_stream_id)
      else case sr_winner r of None \<Rightarrow> fst (find_winner 0 (sr_files r) (None, 0)) | Some w \<Rightarrow> Some w)"

text \<open>An index below zero is outside the array.\<close>

definition sr_view :: "nat \<Rightarrow> int \<Rightarrow> smd_reader \<Rightarrow> pyexc + smd_reader" where
  "sr_view batch_size intg_stream_id r =
     (case winner_of intg_stream_id r of
        None \<Rightarrow> Inl outside_view
      | Some w \<Rightarrow>
          (if w < length (sr_files r)
           then (let b = sf_buf (sr_files r ! w); n = unseen (sr_files r ! w);
                     en = (if batch_size < n then rb_n_seen b + batch_size else rb_n_ready b);
                     limit = (if batch_size < n then rb_ts b (en - 1) else rb_timestamp b) in
                 if en = 0 then Inl outside_view
                 else Inr (r\<lparr>sr_winner := Some w, sr_n_view_events := min n batch_size, sr_last_sv := rb_sv b (en - 1),
                        sr_last_ts := rb_ts b (en - 1), sr_next_fake_ts := 0, sr_fakebuf := [],
                        sr_files := map (view_file limit) (sr_files r)\<rparr>))
           else Inl outside_view))"

section \<open>What is shown\<close>

definition fake_transitions :: "nat list" where
  "fake_transitions = [TransitionId_Disable, TransitionId_EndStep, TransitionId_BeginStep, TransitionId_Enable]"

definition get_next_fake_ts :: "smd_reader \<Rightarrow> nat \<times> smd_reader" where
  "get_next_fake_ts r =
     (let t = (if sr_next_fake_ts r = 0 then sr_last_ts r + 1 else sr_next_fake_ts r) in (t, r\<lparr>sr_next_fake_ts := t\<rparr>))"

text \<open>An empty buffer of fake transitions is one that has not been made.\<close>

definition get_fake_buffer :: "rd_conf \<Rightarrow> smd_reader \<Rightarrow> bytes \<times> smd_reader" where
  "get_fake_buffer C r =
     (if rc_fakestep C \<and> sr_last_sv r \<in> {TransitionId_L1Accept, TransitionId_SlowUpdate}
      then (if sr_fakebuf r = []
            then (case get_next_fake_ts r of (t, r1) \<Rightarrow>
                    (let fake = concat (map2 (\<lambda>i tr. rc_fake C tr (t + i)) [0..<4] fake_transitions) in
                     (fake, r1\<lparr>sr_fakebuf := fake\<rparr>)))
            else (sr_fakebuf r, r))
      else ([], r))"

definition shown :: "rbuf \<Rightarrow> nat \<Rightarrow> nat \<Rightarrow> bytes" where
  "shown b i_st block = slice (rb_st b i_st) (rb_st b i_st + block) (rb_chunk b)"

definition sr_show :: "rd_conf \<Rightarrow> nat \<Rightarrow> bool \<Rightarrow> smd_reader \<Rightarrow> bytes \<times> smd_reader" where
  "sr_show C i step r =
     (let f = sr_files r ! i; block = (if step then sf_step_block f else sf_block f) in
      if 0 < block
      then (let v = (if step then shown (sf_step f) (sf_i_step_st f) block else shown (sf_buf f) (sf_i_st f) block) in
            case get_fake_buffer C r of (fake, r1) \<Rightarrow>
              (if sr_fakebuf r1 \<noteq> []
               then (v @ fake, if sr_winner r1 = Some i then r1\<lparr>sr_n_view_events := sr_n_view_events r1 + 4\<rparr> else r1)
               else (v, r1)))
      else ([], r))"

fun show_files :: "rd_conf \<Rightarrow> bool \<Rightarrow> nat list \<Rightarrow> smd_reader \<Rightarrow> bytes list \<times> smd_reader" where
  "show_files C step [] r = ([], r)"
| "show_files C step (i # is) r =
     (case sr_show C i step r of (v, r1) \<Rightarrow> case show_files C step is r1 of (vs, r2) \<Rightarrow> (v # vs, r2))"

definition show_all :: "rd_conf \<Rightarrow> bool \<Rightarrow> smd_reader \<Rightarrow> bytes list \<times> smd_reader" where
  "show_all C step r = show_files C step [0..<length (sr_files r)] r"

end
