(* ===== verification/SmdManager.thy ===== *)
theory SmdManager
  imports SmdRead Smd0Node
begin

text \<open>
  \<open>SmdReaderManager\<close> and \<open>BatchIterator\<close> (\<^verbatim>\<open>psana/psana/psexp/smdreader_manager.py\<close>): the
  reader's windows as chunks for the event builder nodes of a parallel run, or as batches of events
  for a serial run, whose events the user's callback may select. The reader of a dgram is a
  parameter. Metrics and logging are left out.
\<close>

section \<open>State\<close>

record sm_conf =
  sc_rd :: rd_conf
  sc_smd_n_events :: nat
  sc_max_events :: nat
  sc_intg_stream_id :: int
  sc_dgram :: "bytes option \<Rightarrow> bytes \<Rightarrow> pyexc + bytes"

record smd_man =
  mn_reader :: smd_reader
  mn_processed :: nat
  mn_got :: int
  mn_configs :: "bytes list option"

type_synonym 'a smm = "(smd_man, 'a) eff"

text \<open>\<open>max_events\<close> of 0 is no limit.\<close>

definition smd0_n_events :: "sm_conf \<Rightarrow> nat" where
  "smd0_n_events C =
     (if sc_max_events C \<noteq> 0 \<and> sc_max_events C < sc_smd_n_events C then sc_max_events C else sc_smd_n_events C)"

definition smd_man_init :: "(nat \<Rightarrow> nat) \<Rightarrow> nat \<Rightarrow> pyexc + smd_man" where
  "smd_man_init junk nfiles =
     (case smd_reader_init junk nfiles of Inl e \<Rightarrow> Inl e
      | Inr r \<Rightarrow> Inr \<lparr>mn_reader = r, mn_processed = 0, mn_got = -1, mn_configs = None\<rparr>)"

section \<open>Operations\<close>

definition mn_get :: "sm_conf \<Rightarrow> unit smm" where
  "mn_get C =
     eseq (emod (\<lambda>s. s\<lparr>mn_reader := sr_get (sc_rd C) (mn_reader s)\<rparr>))
    (ebind (eget (\<lambda>s. sr_overflown (mn_reader s))) (\<lambda>n.
       ewhen (0 < n) (eraise (ValueError ''SmdReader found dgram larger than chunksize''))))"

definition mn_complete :: "bool smm" where
  "mn_complete = eget (\<lambda>s. is_complete (mn_reader s))"

definition mn_view :: "nat \<Rightarrow> int \<Rightarrow> unit smm" where
  "mn_view batch_size intg = (\<lambda>s. case sr_view batch_size intg (mn_reader s) of
     Inl e \<Rightarrow> (Inl e, s) | Inr r \<Rightarrow> (Inr (), s\<lparr>mn_reader := r\<rparr>))"

definition mn_show :: "sm_conf \<Rightarrow> bool \<Rightarrow> bytes list smm" where
  "mn_show C step = (\<lambda>s. case show_all (sc_rd C) step (mn_reader s) of (vs, r) \<Rightarrow> (Inr vs, s\<lparr>mn_reader := r\<rparr>))"

definition limit_reached :: "sm_conf \<Rightarrow> smd_man \<Rightarrow> bool" where
  "limit_reached C s \<longleftrightarrow> 0 < sc_max_events C \<and> sc_max_events C \<le> mn_processed s"

definition get_next_dgrams :: "sm_conf \<Rightarrow> bytes list option smm" where
  "get_next_dgrams C =
     ebind (eget (limit_reached C)) (\<lambda>full.
       if full then eret None
       else ebind mn_complete (\<lambda>c.
            eseq (ewhen (\<not> c) (mn_get C))
           (ebind mn_complete (\<lambda>c1.
              if \<not> c1 then eret None
              else eseq (mn_view 1 (-1))
                  (ebind (mn_show C False) (\<lambda>vs.
                   ebind (eget mn_configs) (\<lambda>configs.
                     case configs of
                       None \<Rightarrow> ebind (elift (smap (sc_dgram C None) vs)) (\<lambda>ds.
                                 eseq (emod (\<lambda>s. s\<lparr>mn_configs := Some ds\<rparr>)) (eret (Some ds)))
                     | Some cs \<Rightarrow> ebind (elift (smap (\<lambda>(v, c). sc_dgram C (Some c) v) (zip vs cs))) (\<lambda>ds.
                                   eret (Some ds)))))))))"

text \<open>\<open>__next__\<close>: the views of the next batch.\<close>

definition mn_next :: "sm_conf \<Rightarrow> bytes list smm" where
  "mn_next C =
     ebind (eget (limit_reached C)) (\<lambda>full.
       if full then eraise StopIteration
       else ebind mn_complete (\<lambda>c.
            eseq (ewhen (\<not> c) (eseq (mn_get C) (ebind mn_complete (\<lambda>c1. ewhen (\<not> c1) (eraise StopIteration)))))
           (eseq (mn_view (smd0_n_events C) (sc_intg_stream_id C))
           (ebind (mn_show C False) (\<lambda>vs.
            eseq (emod (\<lambda>s. s\<lparr>mn_got := int (sr_n_view_events (mn_reader s)),
                              mn_processed := mn_processed s + sr_n_view_events (mn_reader s)\<rparr>))
                 (eret vs))))))"

text \<open>
  \<open>chunks\<close> from one \<open>yield\<close> to the next: whether there is a chunk, and whether the generator is then
  done. A window without events is passed over; with windows that have none the generator does not come
  back.
\<close>

definition view_chunk :: "sm_conf \<Rightarrow> (nat \<times> bool) smm" where
  "view_chunk C =
     eseq (mn_view (smd0_n_events C) (sc_intg_stream_id C))
    (eseq (emod (\<lambda>s. s\<lparr>mn_got := int (sr_n_view_events (mn_reader s)),
                      mn_processed := mn_processed s + sr_n_view_events (mn_reader s)\<rparr>))
          (eget (\<lambda>s. (sr_n_view_events (mn_reader s), limit_reached C s))))"

partial_function (option) next_chunk :: "sm_conf \<Rightarrow> smd_man \<Rightarrow> ((pyexc + bool \<times> bool) \<times> smd_man) option" where
  "next_chunk C s =
     (if is_complete (mn_reader s)
      then (case view_chunk C s of
              (Inl e, s1) \<Rightarrow> Some (Inl e, s1)
            | (Inr (n, is_done), s1) \<Rightarrow>
                (if n \<noteq> 0 then Some (Inr (True, is_done), s1)
                 else if is_done then Some (Inr (False, True), s1)
                 else next_chunk C s1))
      else (case mn_get C s of
              (Inl e, s1) \<Rightarrow> Some (Inl e, s1)
            | (Inr _, s1) \<Rightarrow>
                (if is_complete (mn_reader s1) then next_chunk C s1 else Some (Inr (False, True), s1))))"

text \<open>
  What \<open>Smd0\<close> takes from the reader for a chunk: the windows of steps, then for \<open>repack_parallel\<close> the
  bytes of the windows and the fake transitions.
\<close>

definition window_bytes :: "smd_file \<Rightarrow> bytes" where
  "window_bytes f = (if 0 < sf_block f then shown (sf_buf f) (sf_i_st f) (sf_block f) else [])"

definition chunk_of :: "sm_conf \<Rightarrow> bool \<Rightarrow> chunk smm" where
  "chunk_of C terminate =
     ebind (mn_show C True) (\<lambda>steps.
     ebind (\<lambda>s. case get_fake_buffer (sc_rd C) (mn_reader s) of (fake, r) \<Rightarrow> (Inr fake, s\<lparr>mn_reader := r\<rparr>)) (\<lambda>fake.
     eget (\<lambda>s. \<lparr>ck_steps = steps, ck_smds = map window_bytes (sr_files (mn_reader s)), ck_fake = fake,
               ck_terminate = terminate, ck_endrun = sr_found_endrun (mn_reader s)\<rparr>)))"

text \<open>The chunks of \<open>Smd0.start\<close>, for at most so many, while nobody asks to terminate: the chunks, and the exception.\<close>

fun smd0_chunks :: "nat \<Rightarrow> sm_conf \<Rightarrow> smd_man \<Rightarrow> (chunk list \<times> pyexc option \<times> smd_man) option" where
  "smd0_chunks 0 C s = None"
| "smd0_chunks (Suc n) C s =
     (case next_chunk C s of
        None \<Rightarrow> None
      | Some (Inl e, s1) \<Rightarrow> Some ([], Some e, s1)
      | Some (Inr (False, _), s1) \<Rightarrow> Some ([], None, s1)
      | Some (Inr (True, is_done), s1) \<Rightarrow>
          (case chunk_of C False s1 of
             (Inl e, s2) \<Rightarrow> Some ([], Some e, s2)
           | (Inr ck, s2) \<Rightarrow>
               (if ck_endrun ck \<or> is_done then Some ([ck], None, s2)
                else map_option (\<lambda>(cks, r). (ck # cks, r)) (smd0_chunks n C s2))))"

section \<open>Batches of events\<close>

text \<open>
  The event builder of a batch, the generator that \<open>steps\<close> of RunSmallData shares, and the events
  collected so far. A batch without data is one whose streams are empty.
\<close>

record batch_iter =
  bi_bufs :: "mypybuf list"
  bi_iter :: "(bytes option list \<times> proxy_event) list option"
  bi_proxy :: "proxy_event list"

definition batch_iter_init :: "bytes list \<Rightarrow> batch_iter" where
  "batch_iter_init views = \<lparr>bi_bufs = map mypybuf_init views, bi_iter = None, bi_proxy = []\<rparr>"

text \<open>A callback that loops over \<open>run.events()\<close> and yields the events it keeps; the default keeps all.\<close>

fun keep_events :: "(bytes option list \<Rightarrow> bool) \<Rightarrow> (bytes option list \<times> proxy_event) list \<Rightarrow> proxy_event list" where
  "keep_events keep [] = []"
| "keep_events keep ((evt, pe) # es) =
     (if is_step pe
      then (if pe_service pe = TransitionId_EndRun then [pe] else pe # keep_events keep es)
      else if keep evt then pe # keep_events keep es else keep_events keep es)"

definition events_callback :: "(bytes option list \<Rightarrow> bool) \<Rightarrow> eb_parms \<Rightarrow> batch_iter \<Rightarrow> pyexc + batch_iter" where
  "events_callback keep p b =
     sbind (eb_events p (bi_bufs b)) (\<lambda>(es, bs). Inr (b\<lparr>bi_bufs := bs, bi_proxy := bi_proxy b @ keep_events keep es\<rparr>))"

definition default_callback :: "eb_parms \<Rightarrow> batch_iter \<Rightarrow> pyexc + batch_iter" where
  "default_callback = events_callback (\<lambda>_. True)"

text \<open>A callback that loops over \<open>run.steps()\<close> and \<open>step.events()\<close>; the flag says that it is in a step.\<close>

fun keep_steps :: "(bytes option list \<Rightarrow> bool) \<Rightarrow> bool \<Rightarrow> (bytes option list \<times> proxy_event) list
    \<Rightarrow> proxy_event list \<times> (bytes option list \<times> proxy_event) list" where
  "keep_steps keep in_step [] = ([], [])"
| "keep_steps keep in_step ((evt, pe) # es) =
     (if \<not> is_step pe
      then (case keep_steps keep in_step es of (ps, r) \<Rightarrow> (if in_step \<and> keep evt then pe # ps else ps, r))
      else if in_step
      then (if pe_service pe = TransitionId_EndStep then keep_steps keep False es
            else (case keep_steps keep True es of (ps, r) \<Rightarrow> (pe # ps, r)))
      else if pe_service pe = TransitionId_EndRun then ([pe], es)
      else (case keep_steps keep (pe_service pe = TransitionId_BeginStep) es of (ps, r) \<Rightarrow> (pe # ps, r)))"

definition steps_callback :: "(bytes option list \<Rightarrow> bool) \<Rightarrow> eb_parms \<Rightarrow> batch_iter \<Rightarrow> pyexc + batch_iter" where
  "steps_callback keep p b =
     sbind (case bi_iter b of None \<Rightarrow> eb_events p (bi_bufs b) | Some es \<Rightarrow> Inr (es, bi_bufs b)) (\<lambda>(es, bs).
       (case keep_steps keep False es of (ps, r) \<Rightarrow>
          Inr (b\<lparr>bi_bufs := bs, bi_iter := Some r, bi_proxy := bi_proxy b @ ps\<rparr>)))"

text \<open>\<open>BatchIterator.__next__\<close>: the callback is called until it has given something or nothing is left.\<close>

partial_function (option) collect_proxies ::
    "(eb_parms \<Rightarrow> batch_iter \<Rightarrow> pyexc + batch_iter) \<Rightarrow> eb_parms \<Rightarrow> batch_iter \<Rightarrow> (pyexc + batch_iter) option" where
  "collect_proxies cb p b =
     (if bi_proxy b = [] \<and> has_more (bi_bufs b)
      then (case cb p b of Inl e \<Rightarrow> Some (Inl e) | Inr b1 \<Rightarrow> collect_proxies cb p b1)
      else Some (Inr b))"

definition batch_next ::
    "(eb_parms \<Rightarrow> batch_iter \<Rightarrow> pyexc + batch_iter) \<Rightarrow> eb_parms \<Rightarrow> batch_iter
      \<Rightarrow> (pyexc + ((nat \<times> bytes) list \<times> (nat \<times> bytes) list) \<times> batch_iter) option" where
  "batch_next cb p b =
     map_option (\<lambda>r. sbind r (\<lambda>b1.
       if bi_proxy b1 = [] then Inl StopIteration
       else sbind (gen_batches (bi_proxy b1)) (\<lambda>d. Inr (d, b1\<lparr>bi_proxy := []\<rparr>)))) (collect_proxies cb p b)"

end
