(* ===== verification/EventBuildFacts.thy ===== *)
theory EventBuildFacts
  imports EventBuild
begin

text \<open>
  What the event builder builds: the merge of its streams by timestamp. The buffers are read as the
  lists of their dgrams that the user selected; \<open>merge_events\<close> is the reference.
\<close>

section \<open>Buffers as lists of dgrams\<close>

definition whole_dgram :: "bytes \<Rightarrow> bool" where
  "whole_dgram d \<longleftrightarrow> sizeof_Dgram \<le> length d \<and> dg_size d = length d"

lemma u32_at_append: "i + 4 \<le> length d \<Longrightarrow> u32_at i (d @ r) = u32_at i d"
  by (simp add: u32_at_def slice_def)

lemma dg_append:
  assumes "sizeof_Dgram \<le> length d"
  shows "dg_timestamp (d @ r) = dg_timestamp d" "dg_service (d @ r) = dg_service d" "dg_size (d @ r) = dg_size d"
  using assms by (simp_all add: dg_timestamp_def dg_service_def dg_size_def u32_at_append sizeof_Dgram_def)

definition holds :: "mypybuf \<Rightarrow> bytes list \<Rightarrow> bool" where
  "holds b ds \<longleftrightarrow> mb_offset b \<le> length (mb_view b) \<and> drop (mb_offset b) (mb_view b) = concat ds \<and> list_all whole_dgram ds"

text \<open>The buffer after its dgram \<open>d\<close> was read, with \<open>ds\<close> behind it.\<close>

definition read_up_to :: "mypybuf \<Rightarrow> bytes \<Rightarrow> bytes list \<Rightarrow> bool" where
  "read_up_to b d ds \<longleftrightarrow> length d \<le> mb_offset b \<and> mb_dg b = Some (mb_offset b - length d)
     \<and> holds (b\<lparr>mb_offset := mb_offset b - length d\<rparr>) (d # ds)"

lemma holds_init: "list_all whole_dgram ds \<Longrightarrow> holds (mypybuf_init (concat ds)) ds"
  by (simp add: holds_def mypybuf_init_def)

lemma dgram_pos: "whole_dgram d \<Longrightarrow> 0 < length d"
  by (auto simp: whole_dgram_def sizeof_Dgram_def)

lemma holds_more: "holds b ds \<Longrightarrow> mb_offset b < length (mb_view b) \<longleftrightarrow> ds \<noteq> []"
proof (cases ds)
  case Nil
  then show "holds b ds \<Longrightarrow> ?thesis" by (simp add: holds_def)
next
  case (Cons d ds')
  show "?thesis" if h: "holds b ds"
  proof -
    have "length (drop (mb_offset b) (mb_view b)) = length d + length (concat ds')" "0 < length d"
      using h Cons dgram_pos [of d] by (simp_all add: holds_def)
    then have "mb_offset b < length (mb_view b)" by (simp only: length_drop)
    then show ?thesis using Cons by simp
  qed
qed

lemma dgram_at_holds: "holds b (d # ds) \<Longrightarrow> dgram_at (mb_view b) (mb_offset b) = Inr d"
proof -
  assume h: "holds b (d # ds)"
  then have v: "drop (mb_offset b) (mb_view b) = d @ concat ds" and d: "whole_dgram d" by (auto simp: holds_def)
  have "length d + mb_offset b \<le> length (mb_view b)"
    using arg_cong [OF v, of length] h by (auto simp: holds_def)
  moreover have "slice (mb_offset b) (mb_offset b + length d) (mb_view b) = d"
    using v by (simp add: slice_def drop_take)
  ultimately show ?thesis using v d by (simp add: dgram_at_def Let_def dg_append whole_dgram_def)
qed

lemma holds_next:
  assumes "holds b (d # ds)"
  shows "\<exists>b'. mb_next b = Inr (d, b') \<and> read_up_to b' d ds"
proof -
  have "mb_offset b < length (mb_view b)" using holds_more [OF assms] by simp
  then show ?thesis
    using dgram_at_holds [OF assms] assms by (simp add: mb_next_def sbind_def read_up_to_def holds_def)
qed

lemma read_up_to_holds: "read_up_to b d ds \<Longrightarrow> holds b ds"
proof -
  assume r: "read_up_to b d ds"
  then have v: "drop (mb_offset b - length d) (mb_view b) = d @ concat ds" "length d \<le> mb_offset b"
    by (auto simp: read_up_to_def holds_def)
  have "drop (mb_offset b) (mb_view b) = drop (length d) (drop (mb_offset b - length d) (mb_view b))"
    using v(2) by simp
  also have "\<dots> = concat ds" by (simp only: v(1)) simp
  finally have "drop (mb_offset b) (mb_view b) = concat ds" .
  moreover have "mb_offset b \<le> length (mb_view b)"
    using arg_cong [OF v(1), of length] v(2) r by (auto simp: read_up_to_def holds_def)
  ultimately show ?thesis using r by (simp add: holds_def read_up_to_def)
qed

lemma read_up_to_dgram: "read_up_to b d ds \<Longrightarrow> mb_dgram b = Inr d"
  using dgram_at_holds [of "b\<lparr>mb_offset := mb_offset b - length d\<rparr>" d ds] by (simp add: read_up_to_def mb_dgram_def)

lemma read_up_to_rewind: "read_up_to b d ds \<Longrightarrow> \<exists>b'. mb_rewind b = Inr b' \<and> holds b' (d # ds)"
  using read_up_to_dgram [of b d ds] by (simp add: mb_rewind_def sbind_def read_up_to_def)

section \<open>Selected dgrams\<close>

definition selected :: "nat list \<Rightarrow> bytes \<Rightarrow> bool" where
  "selected tss d \<longleftrightarrow> tss = [] \<or> dg_timestamp d \<in> set tss \<or> dg_service d \<noteq> TransitionId_L1Accept"

definition stands :: "nat list \<Rightarrow> mypybuf \<Rightarrow> bytes list \<Rightarrow> bool" where
  "stands tss b s \<longleftrightarrow> (\<exists>ds. holds b ds \<and> s = filter (selected tss) ds)"

definition stands_behind :: "nat list \<Rightarrow> bytes \<Rightarrow> bytes list \<Rightarrow> mypybuf \<Rightarrow> bool" where
  "stands_behind tss d s b \<longleftrightarrow> (\<exists>ds. read_up_to b d ds \<and> s = filter (selected tss) ds \<and> selected tss d)"

definition used_up :: "mypybuf \<Rightarrow> bool" where
  "used_up b \<longleftrightarrow> holds b []"

lemma stands_behindD:
  assumes "stands_behind tss d s b"
  shows "stands tss b s" "mb_dgram b = Inr d" "\<exists>b'. mb_rewind b = Inr b' \<and> stands tss b' (d # s)"
    "mb_offset b - length d < length (mb_view b)"
proof -
  obtain ds where ds: "read_up_to b d ds" "s = filter (selected tss) ds" "selected tss d"
    using assms by (auto simp: stands_behind_def)
  show "stands tss b s" using read_up_to_holds [OF ds(1)] ds(2) by (auto simp: stands_def)
  show "mb_dgram b = Inr d" using read_up_to_dgram [OF ds(1)] .
  show "\<exists>b'. mb_rewind b = Inr b' \<and> stands tss b' (d # s)"
    using read_up_to_rewind [OF ds(1)] ds(2,3) by (force simp: stands_def)
  show "mb_offset b - length d < length (mb_view b)"
    using ds(1) holds_more [of "b\<lparr>mb_offset := mb_offset b - length d\<rparr>" "d # ds"] by (simp add: read_up_to_def)
qed

text \<open>The next selected dgram of a stream, and the stream behind it.\<close>

definition head_state :: "nat list \<Rightarrow> bytes option \<times> mypybuf \<Rightarrow> bytes list \<Rightarrow> bool" where
  "head_state tss db s \<longleftrightarrow> (case s of
     [] \<Rightarrow> fst db = None \<and> used_up (snd db)
   | d # r \<Rightarrow> fst db = Some d \<and> stands_behind tss d r (snd db))"

lemma select_dgram_run:
  assumes "read_up_to b d ds"
  shows "\<exists>db. select_dgram tss d b = Inr db \<and> head_state tss db (filter (selected tss) (d # ds))"
  using assms
proof (induction ds arbitrary: b d)
  case Nil
  have "holds b []" by (rule read_up_to_holds [OF Nil])
  then show ?case
    using Nil by (subst select_dgram.simps)
      (auto simp: head_state_def selected_def stands_behind_def used_up_def holds_def)
next
  case (Cons d1 ds)
  have h: "holds b (d1 # ds)" by (rule read_up_to_holds [OF Cons.prems])
  then obtain b1 where b1: "mb_next b = Inr (d1, b1)" "read_up_to b1 d1 ds" using holds_next by blast
  have o: "mb_offset b \<noteq> length (mb_view b)" using holds_more [OF h] by simp
  show ?case
  proof (cases "selected tss d")
    case True
    then show ?thesis
      using Cons.prems by (subst select_dgram.simps) (auto simp: head_state_def selected_def stands_behind_def)
  next
    case False
    then have "select_dgram tss d b = select_dgram tss d1 b1"
      using b1 o by (subst select_dgram.simps) (auto simp: selected_def)
    then show ?thesis using Cons.IH [OF b1(2)] False by simp
  qed
qed

lemma head_dgram_run:
  assumes "stands tss b s"
  shows "\<exists>db. head_dgram tss b = Inr db \<and> head_state tss db s"
proof -
  obtain ds where ds: "holds b ds" "s = filter (selected tss) ds" using assms by (auto simp: stands_def)
  show ?thesis
  proof (cases ds)
    case Nil
    then show ?thesis using ds holds_more [OF ds(1)] by (simp add: head_dgram_def head_state_def used_up_def)
  next
    case (Cons d r)
    then obtain b1 where "mb_next b = Inr (d, b1)" "read_up_to b1 d r" using ds(1) holds_next by blast
    then show ?thesis
      using select_dgram_run [of b1 d r tss] holds_more [OF ds(1)] Cons ds(2) by (simp add: head_dgram_def)
  qed
qed

section \<open>The merge of streams\<close>

definition next_time :: "bytes list list \<Rightarrow> nat" where
  "next_time ss = Min ((\<lambda>s. dg_timestamp (hd s)) ` set (filter (\<lambda>s. s \<noteq> []) ss))"

definition take_at :: "nat \<Rightarrow> bytes list \<Rightarrow> bytes option" where
  "take_at t s = (case s of [] \<Rightarrow> None | d # r \<Rightarrow> if dg_timestamp d = t then Some d else None)"

definition drop_at :: "nat \<Rightarrow> bytes list \<Rightarrow> bytes list" where
  "drop_at t s = (case s of [] \<Rightarrow> [] | d # r \<Rightarrow> if dg_timestamp d = t then r else s)"

lemma next_time_in:
  assumes "\<exists>s\<in>set ss. s \<noteq> []"
  shows "\<exists>s\<in>set ss. s \<noteq> [] \<and> dg_timestamp (hd s) = next_time ss"
proof -
  have "next_time ss \<in> (\<lambda>s. dg_timestamp (hd s)) ` set (filter (\<lambda>s. s \<noteq> []) ss)"
    unfolding next_time_def using assms by (intro Min_in) auto
  then show ?thesis by auto
qed

lemma next_time_le: "s \<in> set ss \<Longrightarrow> s \<noteq> [] \<Longrightarrow> next_time ss \<le> dg_timestamp (hd s)"
  unfolding next_time_def by (intro Min_le) auto

lemma next_timeI:
  "s \<in> set ss \<Longrightarrow> s \<noteq> [] \<Longrightarrow> dg_timestamp (hd s) = t \<Longrightarrow> (\<And>r. r \<in> set ss \<Longrightarrow> r \<noteq> [] \<Longrightarrow> t \<le> dg_timestamp (hd r))
    \<Longrightarrow> next_time ss = t"
  unfolding next_time_def by (intro Min_eqI) auto

definition dgrams_left :: "'a list list \<Rightarrow> nat" where
  "dgrams_left ss = sum_list (map length ss)"

lemma drop_at_less:
  assumes "\<exists>s\<in>set ss. s \<noteq> []"
  shows "dgrams_left (map (drop_at (next_time ss)) ss) < dgrams_left ss"
proof -
  obtain s where s: "s \<in> set ss" "s \<noteq> []" "dg_timestamp (hd s) = next_time ss" using next_time_in [OF assms] by blast
  have le: "length (drop_at t r) \<le> length r" for t r by (simp add: drop_at_def split: list.split)
  have "length (drop_at (next_time ss) s) < length s" using s(2,3) by (cases s) (auto simp: drop_at_def)
  moreover obtain j where "j < length ss" "ss ! j = s" using s(1) by (auto simp: in_set_conv_nth)
  ultimately show ?thesis
    unfolding dgrams_left_def using le
    by (intro sum_list_less [of _ _ j]) (auto simp: list_all2_conv_all_nth)
qed

function merge_events :: "bytes list list \<Rightarrow> bytes option list list" where
  "merge_events ss =
     (if \<exists>s\<in>set ss. s \<noteq> []
      then map (take_at (next_time ss)) ss # merge_events (map (drop_at (next_time ss)) ss)
      else [])"
  by pat_completeness auto
termination
  by (relation "measure dgrams_left") (auto intro: drop_at_less)

declare merge_events.simps [simp del]

text \<open>An event that was built, as the reference sees it: its first dgram gives the service and the time.\<close>

definition row_main :: "bytes option list \<Rightarrow> bytes" where
  "row_main row = hd (map the (filter (\<lambda>d. d \<noteq> None) row))"

definition judge :: "eb_parms \<Rightarrow> bytes option list \<Rightarrow> pyexc + proxy_event option" where
  "judge p row =
     (let service = dg_service (row_main row) in
      sbind (ask_user p service row) (\<lambda>(accept, dest).
        if accept = 1
        then (if service \<noteq> TransitionId_L1Accept \<and> list_ex (\<lambda>d. d = None) row
              then Inl (RuntimeError ''No active exception to reraise'')
              else Inr (Some \<lparr>pe_pydgrams = row, pe_destination = dest, pe_service = service,
                              pe_timestamp = dg_timestamp (row_main row)\<rparr>))
        else Inr None))"

section \<open>The two loops\<close>

text \<open>The stream of the smallest timestamp, the first of them.\<close>

definition first_min :: "bytes option list \<Rightarrow> nat \<Rightarrow> nat option \<Rightarrow> bool" where
  "first_min ds t q \<longleftrightarrow> (case q of
     None \<Rightarrow> t = 0 \<and> (\<forall>i<length ds. ds ! i = None)
   | Some j \<Rightarrow> j < length ds \<and> (\<exists>x. ds ! j = Some x \<and> dg_timestamp x = t)
       \<and> (\<forall>i<length ds. \<forall>y. ds ! i = Some y \<longrightarrow> t \<le> dg_timestamp y \<and> (i < j \<longrightarrow> t < dg_timestamp y)))"

lemma first_min_snoc:
  assumes "first_min ds t q" and "\<forall>x. d = Some x \<longrightarrow> 0 < dg_timestamp x" and "\<forall>d\<in>set ds. \<forall>x. d = Some x \<longrightarrow> 0 < dg_timestamp x"
    and "smaller (length ds) d (t, q) = (t1, q1)"
  shows "first_min (ds @ [d]) t1 q1"
proof (cases d)
  case None
  then show ?thesis
    using assms(1,4) by (auto simp: smaller_def first_min_def nth_append less_Suc_eq split: option.splits)
next
  case (Some x)
  show ?thesis
  proof (cases q)
    case None
    then show ?thesis
      using assms Some by (auto simp: smaller_def first_min_def nth_append less_Suc_eq split: option.splits)
  next
    case (Some j)
    then have j: "j < length ds" "\<exists>x. ds ! j = Some x \<and> dg_timestamp x = t"
      "\<And>i y. i < length ds \<Longrightarrow> ds ! i = Some y \<Longrightarrow> t \<le> dg_timestamp y \<and> (i < j \<longrightarrow> t < dg_timestamp y)"
      using assms(1) by (auto simp: first_min_def)
    then have "0 < t" using assms(3) by (metis nth_mem)
    then have e: "(t1, q1) = (if dg_timestamp x < t then (dg_timestamp x, Some (length ds)) else (t, Some j))"
      using assms(4) Some \<open>d = Some x\<close> by (simp add: smaller_def split: if_splits)
    show ?thesis
    proof (cases "dg_timestamp x < t")
      case True
      then show ?thesis using e j(3) \<open>d = Some x\<close>
        by (force simp: first_min_def nth_append less_Suc_eq)
    next
      case False
      then show ?thesis using e j \<open>d = Some x\<close>
        by (auto simp: first_min_def nth_append less_Suc_eq)
    qed
  qed
qed

lemma enumerate_snoc: "enumerate i (xs @ [x]) = enumerate i xs @ [(i + length xs, x)]"
  by (induction xs arbitrary: i) auto

lemma first_min_fold:
  assumes "\<forall>d\<in>set ds. \<forall>x. d = Some x \<longrightarrow> 0 < dg_timestamp x"
    and "fold (\<lambda>(j, d). smaller j d) (enumerate 0 ds) (0, None) = (t, q)"
  shows "first_min ds t q"
  using assms
proof (induction ds arbitrary: t q rule: rev_induct)
  case Nil
  then show ?case by (simp add: first_min_def)
next
  case (snoc d ds)
  obtain t0 q0 where f: "fold (\<lambda>(j, d). smaller j d) (enumerate 0 ds) (0, None) = (t0, q0)" by force
  then have "first_min ds t0 q0" using snoc.IH snoc.prems(1) by simp
  then show ?case
    using first_min_snoc [of ds t0 q0 d t q] snoc.prems f by (simp add: enumerate_snoc)
qed

definition positive :: "bytes list list \<Rightarrow> bool" where
  "positive ss \<longleftrightarrow> (\<forall>s\<in>set ss. \<forall>d\<in>set s. 0 < dg_timestamp d)"

definition head_opt :: "'a list \<Rightarrow> 'a option" where
  "head_opt s = (case s of [] \<Rightarrow> None | d # r \<Rightarrow> Some d)"

lemma head_state_opt: "head_state tss db s \<Longrightarrow> fst db = head_opt s"
  by (auto simp: head_state_def head_opt_def split: list.splits)

lemma read_heads_run:
  assumes "list_all2 (stands tss) bs ss"
  shows "\<exists>heads m1. read_heads tss i bs m = Inr (heads, m1) \<and> list_all2 (head_state tss) heads ss"
  using assms
proof (induction bs ss arbitrary: i m rule: list_all2_induct)
  case (Cons b bs s ss)
  obtain d b1 where d: "head_dgram tss b = Inr (d, b1)" "head_state tss (d, b1) s"
    using head_dgram_run [OF Cons.hyps(1)] by auto
  obtain heads m1 where "read_heads tss (Suc i) bs (smaller i d m) = Inr (heads, m1)" "list_all2 (head_state tss) heads ss"
    using Cons.IH by blast
  then show ?case using d by simp
qed simp

text \<open>What the first loop finds.\<close>

lemma first_min_time:
  assumes "first_min (map head_opt ss) t q"
  shows "q = None \<longleftrightarrow> (\<forall>s\<in>set ss. s = [])"
    and "q = Some k \<Longrightarrow> k < length ss \<and> (\<exists>d r. ss ! k = d # r \<and> dg_timestamp d = next_time ss)
      \<and> (\<forall>i<k. take_at (next_time ss) (ss ! i) = None)"
proof -
  have h: "head_opt s = None \<longleftrightarrow> s = []" for s :: "bytes list" by (simp add: head_opt_def split: list.split)
  show "q = None \<longleftrightarrow> (\<forall>s\<in>set ss. s = [])"
  proof (cases q)
    case None
    then show ?thesis using assms h by (auto simp: first_min_def in_set_conv_nth)
  next
    case (Some j)
    then have "j < length ss" "head_opt (ss ! j) \<noteq> None" using assms by (auto simp: first_min_def)
    then show ?thesis using Some h by (metis nth_mem option.distinct(1))
  qed
  assume "q = Some k"
  then obtain d r where k: "k < length ss" "ss ! k = d # r" "dg_timestamp d = t"
    and m: "\<And>i y s. i < length ss \<Longrightarrow> ss ! i = y # s \<Longrightarrow> t \<le> dg_timestamp y \<and> (i < k \<longrightarrow> t < dg_timestamp y)"
    using assms by (auto simp: first_min_def head_opt_def split: list.splits)
  have "next_time ss = t"
  proof (rule next_timeI)
    show "ss ! k \<in> set ss" using k(1) by (rule nth_mem)
    show "ss ! k \<noteq> []" "dg_timestamp (hd (ss ! k)) = t" using k(2,3) by simp_all
    show "t \<le> dg_timestamp (hd r)" if "r \<in> set ss" "r \<noteq> []" for r
      using that m by (auto simp: in_set_conv_nth neq_Nil_conv)
  qed
  moreover have "take_at t (ss ! i) = None" if "i < k" for i
    using that k(1) m [of i] by (auto simp: take_at_def split: list.splits)
  ultimately show "k < length ss \<and> (\<exists>d r. ss ! k = d # r \<and> dg_timestamp d = next_time ss)
      \<and> (\<forall>i<k. take_at (next_time ss) (ss ! i) = None)"
    using k by auto
qed

lemma row_main_first:
  assumes "k < length row" and "row ! k = Some x" and "\<forall>i<k. row ! i = None"
  shows "row_main row = x"
proof -
  have "row = take k row @ Some x # drop (Suc k) row" using assms(1,2) by (metis id_take_nth_drop)
  moreover have "filter (\<lambda>d. d \<noteq> None) (take k row) = []"
    using assms(1,3) by (auto simp: filter_empty_conv in_set_conv_nth)
  ultimately have "filter (\<lambda>d. d \<noteq> None) row = Some x # filter (\<lambda>d. d \<noteq> None) (drop (Suc k) row)"
    by (metis (mono_tags, lifting) append_Nil filter.simps(2) filter_append option.distinct(1))
  then show ?thesis by (simp add: row_main_def)
qed

lemma used_up_stands: "used_up b \<Longrightarrow> stands tss b []"
  unfolding used_up_def stands_def by (intro exI [of _ "[]"]) simp

lemma match_stream_run:
  assumes "head_state tss db s" and "i = smd_id \<Longrightarrow> s \<noteq> [] \<and> dg_timestamp (hd s) = t"
  shows "\<exists>b. match_stream smd_id t i db = Inr (take_at t s, b) \<and> stands tss b (drop_at t s)"
proof (cases s)
  case Nil
  then obtain b where db: "db = (None, b)" "used_up b" using assms(1) by (cases db) (auto simp: head_state_def)
  then have "match_stream smd_id t i db = Inr (None, b)"
    using assms(2) Nil by (auto simp: match_stream_def used_up_def holds_def dg_bytes_def)
  then show ?thesis using Nil db(2) used_up_stands by (simp add: take_at_def drop_at_def)
next
  case (Cons d r)
  then obtain b where db: "db = (Some d, b)" and sb: "stands_behind tss d r b"
    using assms(1) by (cases db) (auto simp: head_state_def)
  note f = stands_behindD [OF sb]
  show ?thesis
  proof (cases "i = smd_id \<or> dg_timestamp d = t")
    case True
    then have "match_stream smd_id t i db = Inr (Some d, b)" "dg_timestamp d = t"
      using assms(2) Cons db f(2,4) by (auto simp: match_stream_def dg_bytes_def)
    then show ?thesis using Cons f(1) by (simp add: take_at_def drop_at_def)
  next
    case False
    then show ?thesis
      using Cons db f(2,3,4) by (auto simp: match_stream_def dg_bytes_def take_at_def drop_at_def)
  qed
qed

lemma match_streams_run:
  assumes "list_all2 (head_state tss) dbs ss"
    and "\<And>j. j < length ss \<Longrightarrow> i + j = smd_id \<Longrightarrow> ss ! j \<noteq> [] \<and> dg_timestamp (hd (ss ! j)) = t"
  shows "\<exists>xs. match_streams smd_id t i dbs = Inr xs \<and> map fst xs = map (take_at t) ss
    \<and> list_all2 (stands tss) (map snd xs) (map (drop_at t) ss)"
  using assms
proof (induction dbs ss arbitrary: i rule: list_all2_induct)
  case (Cons db dbs s ss)
  obtain b where b: "match_stream smd_id t i db = Inr (take_at t s, b)" "stands tss b (drop_at t s)"
    using match_stream_run [OF Cons.hyps(1), of i smd_id t] Cons.prems [of 0] by auto
  have "\<exists>xs. match_streams smd_id t (Suc i) dbs = Inr xs \<and> map fst xs = map (take_at t) ss
    \<and> list_all2 (stands tss) (map snd xs) (map (drop_at t) ss)"
    by (rule Cons.IH) (use Cons.prems [of "Suc _"] in auto)
  then show ?case using b by auto
qed simp

text \<open>One event: the dgrams of the smallest timestamp, if the user accepts them.\<close>

lemma positive_heads: "positive ss \<Longrightarrow> \<forall>d\<in>set (map head_opt ss). \<forall>x. d = Some x \<longrightarrow> 0 < dg_timestamp x"
  by (auto simp: positive_def head_opt_def split: list.splits)

lemma build_proxy_event_run:
  assumes "list_all2 (stands (ep_timestamps p)) bs ss" and "positive ss"
  shows "(\<exists>s\<in>set ss. s \<noteq> []) \<Longrightarrow> \<exists>bs'. list_all2 (stands (ep_timestamps p)) bs' (map (drop_at (next_time ss)) ss)
      \<and> build_proxy_event p bs = (case judge p (map (take_at (next_time ss)) ss) of Inl e \<Rightarrow> Inl e | Inr ev \<Rightarrow> Inr (ev, bs'))"
    and "\<not> (\<exists>s\<in>set ss. s \<noteq> []) \<Longrightarrow> \<exists>bs'. build_proxy_event p bs = Inr (None, bs') \<and> list_all used_up bs'
      \<and> list_all2 (stands (ep_timestamps p)) bs' ss"
proof -
  obtain heads t q where r: "read_heads (ep_timestamps p) 0 bs (0, None) = Inr (heads, t, q)"
    and h: "list_all2 (head_state (ep_timestamps p)) heads ss"
    using read_heads_run [OF assms(1), of 0 "(0, None)"] by auto
  have "map fst heads = map head_opt ss"
    using h by (induction rule: list_all2_induct) (auto dest: head_state_opt)
  then have fm: "first_min (map head_opt ss) t q"
    using first_min_fold [OF positive_heads [OF assms(2)]] read_heads_Inr [OF r] by simp
  let ?t = "next_time ss"
  let ?row = "map (take_at ?t) ss"
  show "\<exists>bs'. list_all2 (stands (ep_timestamps p)) bs' (map (drop_at ?t) ss)
      \<and> build_proxy_event p bs = (case judge p ?row of Inl e \<Rightarrow> Inl e | Inr ev \<Rightarrow> Inr (ev, bs'))"
    if "\<exists>s\<in>set ss. s \<noteq> []"
  proof -
    have "q \<noteq> None" using first_min_time(1) [OF fm] that by blast
    then obtain k where q: "q = Some k" by blast
    then obtain d s where k: "k < length ss" "ss ! k = d # s" "dg_timestamp d = ?t" "\<forall>i<k. take_at ?t (ss ! i) = None"
      using first_min_time(2) [OF fm] by auto
    have "head_state (ep_timestamps p) (heads ! k) (ss ! k)" using h k(1) by (simp add: list_all2_conv_all_nth)
    then have main: "dg_bytes (fst (heads ! k)) = d" using k(2) by (auto simp: head_state_def dg_bytes_def)
    obtain xs where xs: "match_streams k ?t 0 heads = Inr xs" "map fst xs = ?row"
        "list_all2 (stands (ep_timestamps p)) (map snd xs) (map (drop_at ?t) ss)"
      using match_streams_run [OF h, of 0 k ?t] k by auto
    have "row_main ?row = d" using k by (intro row_main_first [of k]) (auto simp: take_at_def)
    then have "build_proxy_event p bs = (case judge p ?row of Inl e \<Rightarrow> Inl e | Inr ev \<Rightarrow> Inr (ev, map snd xs))"
      using r q main k(3) xs(1,2)
      by (auto simp: build_proxy_event_def judge_def Let_def sbind_def split: sum.splits prod.splits)
    then show ?thesis using xs(3) by blast
  qed
  show "\<exists>bs'. build_proxy_event p bs = Inr (None, bs') \<and> list_all used_up bs' \<and> list_all2 (stands (ep_timestamps p)) bs' ss"
    if "\<not> (\<exists>s\<in>set ss. s \<noteq> [])"
  proof -
    have "q = None" using first_min_time(1) [OF fm] that by auto
    then have b: "build_proxy_event p bs = Inr (None, map snd heads)" using r by (simp add: build_proxy_event_def)
    have "list_all used_up (map snd heads) \<and> list_all2 (stands (ep_timestamps p)) (map snd heads) ss"
      using h that by (induction rule: list_all2_induct) (auto simp: head_state_def used_up_stands)
    then show ?thesis using b by blast
  qed
qed

section \<open>Batches of events\<close>

definition user_answers :: "eb_parms \<Rightarrow> bytes option list list \<Rightarrow> bool" where
  "user_answers p rows \<longleftrightarrow> (\<forall>row\<in>set rows. \<exists>ev. judge p row = Inr ev)"

definition accepted :: "eb_parms \<Rightarrow> bytes option list list \<Rightarrow> proxy_event list" where
  "accepted p rows = concat (map (\<lambda>row. case judge p row of Inr (Some ev) \<Rightarrow> [ev] | _ \<Rightarrow> []) rows)"

lemma positive_drop: "positive ss \<Longrightarrow> positive (map (drop_at t) ss)"
  by (fastforce simp: positive_def drop_at_def split: list.splits if_splits)

lemma stands_has_more:
  assumes "list_all2 (stands tss) bs ss" and "\<exists>s\<in>set ss. s \<noteq> []"
  shows "has_more bs"
proof -
  obtain j where j: "j < length ss" "ss ! j \<noteq> []" using assms(2) by (auto simp: in_set_conv_nth)
  then have "stands tss (bs ! j) (ss ! j)" using assms(1) by (simp add: list_all2_conv_all_nth)
  then obtain ds where "holds (bs ! j) ds" "ds \<noteq> []" using j(2) by (force simp: stands_def)
  then show ?thesis
    using holds_more [of "bs ! j" ds] j(1) assms(1) by (auto simp: has_more_def list_ex_length list_all2_lengthD)
qed

lemma used_up_no_more: "list_all used_up bs \<Longrightarrow> \<not> has_more bs"
  using holds_more [of _ "[]"] by (auto simp: has_more_def used_up_def list_all_iff list_ex_iff)

lemma merge_events_step:
  "\<exists>s\<in>set ss. s \<noteq> [] \<Longrightarrow> merge_events ss = map (take_at (next_time ss)) ss # merge_events (map (drop_at (next_time ss)) ss)"
  "\<not> (\<exists>s\<in>set ss. s \<noteq> []) \<Longrightarrow> merge_events ss = []"
  by (subst merge_events.simps; simp)+

text \<open>What the buffers hold is what is left to build.\<close>

definition left_to_build :: "eb_parms \<Rightarrow> mypybuf list \<Rightarrow> proxy_event list \<Rightarrow> bool" where
  "left_to_build p bs evs \<longleftrightarrow> (\<exists>ss. list_all2 (stands (ep_timestamps p)) bs ss \<and> positive ss
     \<and> user_answers p (merge_events ss) \<and> evs = accepted p (merge_events ss))"

lemma build_loop_run:
  assumes "list_all2 (stands (ep_timestamps p)) bs ss" and "positive ss" and "user_answers p (merge_events ss)"
    and "ep_intg_stream_id p \<le> -1"
  shows "\<exists>bs'. build_loop p cn bs = Inr (take (ep_batch_size p - cn) (accepted p (merge_events ss)), bs')
    \<and> left_to_build p bs' (drop (ep_batch_size p - cn) (accepted p (merge_events ss)))"
  using assms(1-3)
proof (induction ss arbitrary: bs cn rule: merge_events.induct)
  case (1 ss)
  let ?n = "ep_batch_size p" and ?tss = "ep_timestamps p" and ?t = "next_time ss"
  show ?case
  proof (cases "cn < ?n")
    case False
    then show ?thesis using "1.prems" by (subst build_loop.simps) (auto simp: left_to_build_def)
  next
    case cn: True
    show ?thesis
    proof (cases "\<exists>s\<in>set ss. s \<noteq> []")
      case True
      let ?row = "map (take_at ?t) ss" and ?rest = "map (drop_at ?t) ss"
      note m = merge_events_step(1) [OF True]
      obtain ev where ev: "judge p ?row = Inr ev" using "1.prems"(3) m by (auto simp: user_answers_def)
      obtain bs1 where bs1: "list_all2 (stands ?tss) bs1 ?rest" "build_proxy_event p bs = Inr (ev, bs1)"
        using build_proxy_event_run(1) [OF "1.prems"(1,2) True] ev by auto
      have u: "user_answers p (merge_events ?rest)" using "1.prems"(3) m by (simp add: user_answers_def)
      note IH = "1.IH" [OF True bs1(1) positive_drop [OF "1.prems"(2)] u]
      have go: "cn < ?n \<and> has_more bs" using cn stands_has_more [OF "1.prems"(1) True] by simp
      show ?thesis
      proof (cases ev)
        case None
        then have "build_loop p cn bs = build_loop p cn bs1" using go bs1(2) by (subst build_loop.simps) simp
        moreover have "accepted p (merge_events ss) = accepted p (merge_events ?rest)" using m ev None by (simp add: accepted_def)
        ultimately show ?thesis using IH [of cn] by simp
      next
        case (Some e)
        have a: "accepted p (merge_events ss) = e # accepted p (merge_events ?rest)" using m ev Some by (simp add: accepted_def)
        obtain bs2 where bs2: "build_loop p (Suc cn) bs1 = Inr (take (?n - Suc cn) (accepted p (merge_events ?rest)), bs2)"
            "left_to_build p bs2 (drop (?n - Suc cn) (accepted p (merge_events ?rest)))"
          using IH [of "Suc cn"] by blast
        have "counted p e = Inr 1" using assms(4) by (simp add: counted_def)
        then have "build_loop p cn bs = Inr (e # take (?n - Suc cn) (accepted p (merge_events ?rest)), bs2)"
          using go bs1(2) Some bs2(1) by (subst build_loop.simps) simp
        moreover have "?n - cn = Suc (?n - Suc cn)" using cn by simp
        ultimately show ?thesis using a bs2(2) by (intro exI [of _ bs2]) simp
      qed
    next
      case False
      obtain bs1 where bs1: "build_proxy_event p bs = Inr (None, bs1)" "list_all used_up bs1" "list_all2 (stands ?tss) bs1 ss"
        using build_proxy_event_run(2) [OF "1.prems"(1,2) False] by auto
      have "build_loop p cn bs1 = Inr ([], bs1)"
        using used_up_no_more [OF bs1(2)] by (subst build_loop.simps) simp
      then have "\<exists>bs'. build_loop p cn bs = Inr ([], bs') \<and> list_all2 (stands ?tss) bs' ss"
        using cn bs1 "1.prems"(1) by (subst build_loop.simps) auto
      then obtain bs' where b: "build_loop p cn bs = Inr ([], bs')" "list_all2 (stands ?tss) bs' ss" by blast
      have "left_to_build p bs' (accepted p (merge_events ss))"
        unfolding left_to_build_def using b(2) "1.prems"(2,3) by blast
      moreover have "accepted p (merge_events ss) = []" by (simp add: merge_events_step(2) [OF False] accepted_def)
      ultimately show ?thesis using b(1) by simp
    qed
  qed
qed

lemma left_to_build_run:
  assumes "left_to_build p bs evs" and "ep_intg_stream_id p \<le> -1"
  shows "\<exists>bs'. build_loop p 0 bs = Inr (take (ep_batch_size p) evs, bs') \<and> left_to_build p bs' (drop (ep_batch_size p) evs)"
  using assms build_loop_run [of p bs _ 0] by (auto simp: left_to_build_def)

lemma left_to_build_init:
  assumes "\<forall>ds\<in>set dss. list_all whole_dgram ds" and "ss = map (filter (selected (ep_timestamps p))) dss"
    and "positive ss" and "user_answers p (merge_events ss)"
  shows "left_to_build p (map mypybuf_init (map concat dss)) (accepted p (merge_events ss))"
proof -
  have "list_all2 (stands (ep_timestamps p)) (map mypybuf_init (map concat dss)) ss"
    unfolding assms(2) using assms(1) holds_init
    by (fastforce simp: list_all2_conv_all_nth stands_def)
  then show ?thesis using assms(3,4) by (auto simp: left_to_build_def)
qed

section \<open>Streams in the order of time\<close>

definition ordered :: "bytes list \<Rightarrow> bool" where
  "ordered s \<longleftrightarrow> sorted_wrt (<) (map dg_timestamp s)"

definition all_times :: "bytes list list \<Rightarrow> nat list" where
  "all_times ss = sorted_list_of_set (\<Union>s\<in>set ss. dg_timestamp ` set s)"

definition dgram_with :: "nat \<Rightarrow> bytes list \<Rightarrow> bytes option" where
  "dgram_with t s = find (\<lambda>d. dg_timestamp d = t) s"

lemma ordered_Cons: "ordered (d # s) \<longleftrightarrow> (\<forall>x\<in>set s. dg_timestamp d < dg_timestamp x) \<and> ordered s"
  by (simp add: ordered_def)

lemma dgram_with_none: "(\<forall>d\<in>set s. dg_timestamp d \<noteq> t) \<Longrightarrow> dgram_with t s = None"
  by (simp add: dgram_with_def find_None_iff)

lemma ordered_at:
  assumes "ordered s" and "\<forall>d\<in>set s. t \<le> dg_timestamp d"
  shows "take_at t s = dgram_with t s" "ordered (drop_at t s)" "dg_timestamp ` set (drop_at t s) = dg_timestamp ` set s - {t}"
    and "t' \<noteq> t \<Longrightarrow> dgram_with t' (drop_at t s) = dgram_with t' s"
proof -
  have "take_at t s = dgram_with t s \<and> ordered (drop_at t s) \<and> dg_timestamp ` set (drop_at t s) = dg_timestamp ` set s - {t}
      \<and> (t' \<noteq> t \<longrightarrow> dgram_with t' (drop_at t s) = dgram_with t' s)"
  proof (cases s)
    case Nil
    then show ?thesis using assms(1) by (simp add: take_at_def drop_at_def dgram_with_def)
  next
    case (Cons d r)
    have less: "\<forall>x\<in>set r. dg_timestamp d < dg_timestamp x" using assms(1) Cons by (simp add: ordered_Cons)
    show ?thesis
    proof (cases "dg_timestamp d = t")
      case True
      then show ?thesis using Cons assms(1) less by (auto simp: take_at_def drop_at_def dgram_with_def ordered_Cons)
    next
      case False
      then have "\<forall>x\<in>set s. dg_timestamp x \<noteq> t" using assms(2) less Cons by force
      then show ?thesis
        using Cons False assms(1) dgram_with_none [of s t] by (auto simp: take_at_def drop_at_def)
    qed
  qed
  then show "take_at t s = dgram_with t s" "ordered (drop_at t s)" "dg_timestamp ` set (drop_at t s) = dg_timestamp ` set s - {t}"
    and "t' \<noteq> t \<Longrightarrow> dgram_with t' (drop_at t s) = dgram_with t' s" by simp_all
qed

lemma ordered_next_time:
  assumes "list_all ordered ss" and "s \<in> set ss" and "d \<in> set s"
  shows "next_time ss \<le> dg_timestamp d"
proof -
  obtain h r where s: "s = h # r" using assms(3) by (cases s) auto
  then have "dg_timestamp h \<le> dg_timestamp d" using assms by (fastforce simp: list_all_iff ordered_Cons)
  moreover have "next_time ss \<le> dg_timestamp h" using next_time_le [OF assms(2)] s by simp
  ultimately show ?thesis by simp
qed

lemma merge_events_ordered:
  "list_all ordered ss \<Longrightarrow> merge_events ss = map (\<lambda>t. map (dgram_with t) ss) (all_times ss)"
proof (induction ss rule: merge_events.induct)
  case (1 ss)
  let ?T = "\<Union>s\<in>set ss. dg_timestamp ` set s" and ?t = "next_time ss"
  let ?ss = "map (drop_at ?t) ss"
  show ?case
  proof (cases "\<exists>s\<in>set ss. s \<noteq> []")
    case False
    then show ?thesis by (simp add: merge_events_step(2) all_times_def)
  next
    case True
    have o: "ordered s" "\<forall>d\<in>set s. ?t \<le> dg_timestamp d" if "s \<in> set ss" for s
      using "1.prems" that ordered_next_time [OF "1.prems" that] by (auto simp: list_all_iff)
    obtain s where s: "s \<in> set ss" "s \<noteq> []" "dg_timestamp (hd s) = ?t" using next_time_in [OF True] by blast
    then have "?t \<in> dg_timestamp ` set s" by (metis hd_in_set image_eqI)
    then have "?t \<in> ?T" using s(1) by blast
    then have ne: "?T \<noteq> {}" by blast
    have fin: "finite ?T" by simp
    have min: "Min ?T = ?t" using \<open>?t \<in> ?T\<close> o by (intro Min_eqI) auto
    have T': "(\<Union>s\<in>set ?ss. dg_timestamp ` set s) = ?T - {?t}"
      using ordered_at(3) [OF o] by auto
    have all_times: "all_times ss = ?t # all_times ?ss"
      unfolding all_times_def T' sorted_list_of_set_nonempty [OF fin ne] min ..
    have "list_all ordered ?ss" using ordered_at(2) [OF o] by (simp add: list_all_iff)
    then have "merge_events ?ss = map (\<lambda>t. map (dgram_with t) ?ss) (all_times ?ss)" using "1.IH" True by blast
    also have "\<dots> = map (\<lambda>t. map (dgram_with t) ss) (all_times ?ss)"
    proof (rule map_cong [OF refl])
      fix t'
      assume "t' \<in> set (all_times ?ss)"
      then have "t' \<noteq> ?t" unfolding all_times_def T' using fin by simp
      then show "map (dgram_with t') ?ss = map (dgram_with t') ss" using ordered_at(4) [OF o] by simp
    qed
    finally have "merge_events ss = map (take_at ?t) ss # map (\<lambda>t. map (dgram_with t) ss) (all_times ?ss)"
      by (simp add: merge_events_step(1) [OF True])
    moreover have "map (take_at ?t) ss = map (dgram_with ?t) ss" using ordered_at(1) [OF o] by simp
    ultimately show ?thesis unfolding all_times by simp
  qed
qed

text \<open>Streams that are cut at a time merge piece by piece.\<close>

lemma sorted_list_of_set_Un:
  assumes "finite A" and "finite B" and "\<And>a b. a \<in> A \<Longrightarrow> b \<in> B \<Longrightarrow> a < (b :: nat)"
  shows "sorted_list_of_set (A \<union> B) = sorted_list_of_set A @ sorted_list_of_set B"
  using assms by (intro sorted_distinct_set_unique) (auto simp: sorted_append intro: less_imp_le)

lemma ordered_append:
  "ordered (a @ b) \<longleftrightarrow> ordered a \<and> ordered b \<and> (\<forall>x\<in>set a. \<forall>y\<in>set b. dg_timestamp x < dg_timestamp y)"
  by (auto simp: ordered_def sorted_wrt_append)

lemma find_append: "find P (xs @ ys) = (case find P xs of None \<Rightarrow> find P ys | Some x \<Rightarrow> Some x)"
  by (induction xs) auto

lemma merge_events_append:
  assumes "length as = length bs" and "list_all ordered as" and "list_all ordered bs"
    and "\<And>s d. s \<in> set as \<Longrightarrow> d \<in> set s \<Longrightarrow> dg_timestamp d \<le> L"
    and "\<And>s d. s \<in> set bs \<Longrightarrow> d \<in> set s \<Longrightarrow> L < dg_timestamp d"
  shows "merge_events (map2 (@) as bs) = merge_events as @ merge_events bs"
proof -
  let ?T = "\<lambda>ss. \<Union>s\<in>set ss. dg_timestamp ` set s"
  have T: "?T (map2 (@) as bs) = ?T as \<union> ?T bs"
    using assms(1) by (induction as bs rule: list_induct2) auto
  have "ordered (as ! i @ bs ! i)" if "i < length as" for i
  proof -
    have i: "as ! i \<in> set as" "bs ! i \<in> set bs" using that assms(1) by simp_all
    then show ?thesis
      using assms(2,3) le_less_trans [OF assms(4) [OF i(1)] assms(5) [OF i(2)]]
      by (simp add: ordered_append list_all_iff)
  qed
  then have o: "list_all ordered (map2 (@) as bs)" using assms(1) by (simp add: list_all_length)
  have all: "all_times (map2 (@) as bs) = all_times as @ all_times bs"
    unfolding all_times_def T using le_less_trans [OF assms(4) assms(5)]
    by (intro sorted_list_of_set_Un) auto
  have d: "dgram_with t (a @ b) = (if t \<le> L then dgram_with t a else dgram_with t b)"
    if "a \<in> set as" "b \<in> set bs" for a b t
  proof (cases "t \<le> L")
    case True
    then have "dgram_with t b = None" using assms(5) [OF that(2)] by (intro dgram_with_none) (metis leD)
    then show ?thesis using True by (simp add: dgram_with_def find_append split: option.split)
  next
    case False
    then have "dgram_with t a = None" using assms(4) [OF that(1)] by (intro dgram_with_none) blast
    then show ?thesis using False by (simp add: dgram_with_def find_append)
  qed
  have "map (dgram_with t) (map2 (@) as bs) = map (dgram_with t) as" if "t \<in> set (all_times as)" for t
  proof -
    have "t \<le> L" using that assms(4) by (auto simp: all_times_def)
    then show ?thesis using assms(1) d by (auto intro!: nth_equalityI)
  qed
  moreover have "map (dgram_with t) (map2 (@) as bs) = map (dgram_with t) bs" if "t \<in> set (all_times bs)" for t
  proof -
    have "\<not> t \<le> L" using that assms(5) by (auto simp: all_times_def not_le)
    then show ?thesis using assms(1) d by (auto intro!: nth_equalityI)
  qed
  ultimately show ?thesis
    unfolding merge_events_ordered [OF o] merge_events_ordered [OF assms(2)] merge_events_ordered [OF assms(3)] all
    by simp
qed

end
