(* ===== verification/SmdReadFacts.thy ===== *)
theory SmdReadFacts
  imports SmdManager EventBuildFacts
begin

text \<open>
  What the reader shows. A file is its list of dgrams; its buffer holds a stretch of them of which the
  first are seen. A window takes from every file the dgrams up to a common time and leaves later ones,
  so that windows are consecutive pieces of all files at once.
\<close>

section \<open>Scanning a chunk\<close>

lemma dg_take:
  assumes "sizeof_Dgram \<le> length x" and "sizeof_Dgram \<le> length y" and "take sizeof_Dgram x = take sizeof_Dgram y"
  shows "dg_timestamp x = dg_timestamp y" "dg_service x = dg_service y" "dg_size x = dg_size y"
proof -
  have h: "dg_timestamp z = dg_timestamp (take sizeof_Dgram z) \<and> dg_service z = dg_service (take sizeof_Dgram z)
      \<and> dg_size z = dg_size (take sizeof_Dgram z)" if "sizeof_Dgram \<le> length z" for z
  proof -
    have "sizeof_Dgram \<le> length (take sizeof_Dgram z)" using that by simp
    from dg_append [OF this, of "drop sizeof_Dgram z"] show ?thesis by simp
  qed
  show "dg_timestamp x = dg_timestamp y" "dg_service x = dg_service y" "dg_size x = dg_size y"
    using h [OF assms(1)] h [OF assms(2)] assms(3) by simp_all
qed

text \<open>The dgrams \<open>B\<close> are entered in the arrays of a buffer.\<close>

definition entered :: "bytes list \<Rightarrow> rbuf \<Rightarrow> bool" where
  "entered B b \<longleftrightarrow> rb_n_ready b = length B \<and> rb_ready_offset b = length (concat B)
     \<and> (\<forall>j<length B. rb_ts b j = dg_timestamp (B ! j) \<and> rb_sv b j = dg_service (B ! j)
          \<and> rb_st b j = length (concat (take j B)) \<and> rb_en b j = length (concat (take (Suc j) B)))
     \<and> (B \<noteq> [] \<longrightarrow> rb_timestamp b = dg_timestamp (last B))"

definition is_tr :: "bytes \<Rightarrow> bool" where
  "is_tr d \<longleftrightarrow> dg_service d \<noteq> TransitionId_L1Accept"

lemma entered_add:
  assumes "entered B b" and "n = length d" and "ts = dg_timestamp d" and "sv = dg_service d"
  shows "entered (B @ [d]) (enter_dgram ts sv n b)"
  using assms by (auto simp: entered_def enter_dgram_def less_Suc_eq nth_append)

lemma entered_cong:
  "entered B b \<Longrightarrow> entered B (b\<lparr>rb_chunk := x\<rparr>)" "entered B b \<Longrightarrow> entered B (b\<lparr>rb_endrun_ts := t\<rparr>)"
  by (simp_all add: entered_def)

definition chunk_holds :: "bytes list \<Rightarrow> bytes \<Rightarrow> rbuf \<Rightarrow> bool" where
  "chunk_holds B rest b \<longleftrightarrow> entered B b \<and> rb_chunk b = concat B @ rest \<and> rb_got b = length (rb_chunk b)"

definition steps_hold :: "bytes list \<Rightarrow> rbuf \<Rightarrow> bool" where
  "steps_hold S sb \<longleftrightarrow> entered S sb \<and> rb_chunk sb = concat S"

lemma steps_hold_add:
  assumes "steps_hold S sb"
  shows "steps_hold (S @ [d]) (enter_dgram (dg_timestamp d) (dg_service d) (length d) (sb\<lparr>rb_chunk := rb_chunk sb @ d\<rparr>))"
proof -
  have "entered (S @ [d]) (enter_dgram (dg_timestamp d) (dg_service d) (length d) (sb\<lparr>rb_chunk := rb_chunk sb @ d\<rparr>))"
    using assms by (intro entered_add entered_cong) (simp_all add: steps_hold_def)
  then show ?thesis using assms by (simp add: steps_hold_def enter_dgram_def)
qed

text \<open>What is left of a chunk behind its whole dgrams: less than the next dgram.\<close>

definition cut_short :: "bytes \<Rightarrow> bytes list \<Rightarrow> bool" where
  "cut_short rest R \<longleftrightarrow> prefix rest (concat R) \<and> (R \<noteq> [] \<longrightarrow> length rest < length (hd R))"

lemma scan_chunk_run:
  assumes "chunk_holds B rest b" and "steps_hold (filter is_tr B) sb" and "prefix rest (concat R)"
    and "list_all (\<lambda>d. whole_dgram d \<and> length d \<le> chunksize) R"
  shows "\<exists>B' R' rest' b2 sb2. scan_chunk chunksize (b, sb, overflown) = (b2, sb2, overflown)
    \<and> R = B' @ R' \<and> rest = concat B' @ rest' \<and> chunk_holds (B @ B') rest' b2 \<and> steps_hold (filter is_tr (B @ B')) sb2
    \<and> cut_short rest' R' \<and> rb_n_seen b2 = rb_n_seen b \<and> rb_found_endrun b2 = rb_found_endrun b"
  using assms
proof (induction R arbitrary: B rest b sb)
  case Nil
  then have "rb_ready_offset b = rb_got b" by (simp add: chunk_holds_def entered_def)
  then have "scan_chunk chunksize (b, sb, overflown) = (b, sb, overflown)" by (subst scan_chunk.simps) simp
  then show ?case using Nil by (auto simp: cut_short_def)
next
  case (Cons d R)
  have d: "whole_dgram d" "length d \<le> chunksize" using Cons.prems(4) by simp_all
  have off: "rb_ready_offset b = length (concat B)" "rb_got b = length (concat B) + length rest"
    and dr: "drop (rb_ready_offset b) (rb_chunk b) = rest"
    using Cons.prems(1) by (simp_all add: chunk_holds_def entered_def)
  obtain zs where zs: "d @ concat R = rest @ zs" using Cons.prems(3) by (auto simp: prefix_def)
  show ?case
  proof (cases "length d \<le> length rest")
    case False
    have "scan_chunk chunksize (b, sb, overflown) = (b, sb, overflown)"
    proof (cases "sizeof_Dgram \<le> length rest")
      case True
      have "take sizeof_Dgram (d @ concat R) = take sizeof_Dgram (rest @ zs)" using zs by simp
      then have "take sizeof_Dgram rest = take sizeof_Dgram d" using True d(1) by (simp add: whole_dgram_def)
      then have "dg_size rest = length d" using dg_take(3) [OF True, of d] d(1) by (simp add: whole_dgram_def)
      then show ?thesis using False off dr d(2) by (subst scan_chunk.simps) (simp add: Let_def)
    next
      case False
      then show ?thesis using off by (subst scan_chunk.simps) simp
    qed
    moreover have "cut_short rest (d # R)" using False Cons.prems(3) by (simp add: cut_short_def)
    ultimately show ?thesis using Cons.prems(1,2) 
      by (intro exI [of _ "[]"] exI [of _ "d # R"] exI [of _ rest] exI [of _ b] exI [of _ sb]) simp
  next
    case True
    have "d = take (length d) rest" using arg_cong [OF zs, of "take (length d)"] True by simp
    moreover have "concat R = drop (length d) rest @ zs" using arg_cong [OF zs, of "drop (length d)"] True by simp
    ultimately obtain rest1 where r: "rest = d @ rest1" "prefix rest1 (concat R)"
      by (metis append_take_drop_id prefixI)
    have sz: "sizeof_Dgram \<le> length d" "dg_size rest = length d" "dg_timestamp rest = dg_timestamp d" "dg_service rest = dg_service d"
      using d(1) by (simp_all add: whole_dgram_def r(1) dg_append)
    let ?b1 = "(enter_dgram (dg_timestamp d) (dg_service d) (length d) b)
        \<lparr>rb_endrun_ts := (if dg_service d = TransitionId_EndRun then dg_timestamp d else rb_endrun_ts b)\<rparr>"
    let ?sb1 = "if dg_service d \<noteq> TransitionId_L1Accept
        then enter_dgram (dg_timestamp d) (dg_service d) (length d) (sb\<lparr>rb_chunk := rb_chunk sb @ d\<rparr>) else sb"
    have step: "scan_chunk chunksize (b, sb, overflown) = scan_chunk chunksize (?b1, ?sb1, overflown)"
      using off dr sz d(2) r(1) by (subst scan_chunk.simps) (auto simp: Let_def sizeof_Dgram_def)
    have "entered (B @ [d]) ?b1"
      using Cons.prems(1) by (intro entered_cong entered_add) (simp_all add: chunk_holds_def)
    then have b1: "chunk_holds (B @ [d]) rest1 ?b1" using Cons.prems(1) r(1) by (simp add: chunk_holds_def enter_dgram_def)
    have sb1: "steps_hold (filter is_tr (B @ [d])) ?sb1"
      using Cons.prems(2) steps_hold_add [OF Cons.prems(2), of d] is_tr_def [of d] by simp
    obtain B' R' rest' b2 sb2 where ih: "scan_chunk chunksize (?b1, ?sb1, overflown) = (b2, sb2, overflown)"
        "R = B' @ R'" "rest1 = concat B' @ rest'" "chunk_holds ((B @ [d]) @ B') rest' b2"
        "steps_hold (filter is_tr ((B @ [d]) @ B')) sb2" "cut_short rest' R'"
        "rb_n_seen b2 = rb_n_seen ?b1" "rb_found_endrun b2 = rb_found_endrun ?b1"
      using Cons.IH [OF b1 sb1 r(2)] Cons.prems(4) by auto
    then show ?thesis
      using step r(1) by (intro exI [of _ "d # B'"] exI [of _ R'] exI [of _ rest'] exI [of _ b2] exI [of _ sb2])
        (simp add: enter_dgram_def)
  qed
qed

section \<open>A file\<close>

text \<open>\<open>past\<close> was in the buffer before, \<open>B\<close> is in it, \<open>R\<close> is to be read.\<close>

definition file_at :: "bytes list \<Rightarrow> bytes list \<Rightarrow> bytes list \<Rightarrow> smd_file \<Rightarrow> bool" where
  "file_at past B R f \<longleftrightarrow> (\<exists>rest. chunk_holds B rest (sf_buf f) \<and> cut_short rest R
       \<and> sf_pos f = length (concat (past @ B)) + length rest)
     \<and> steps_hold (filter is_tr B) (sf_step f) \<and> rb_n_seen (sf_buf f) \<le> length B
     \<and> sf_i_start f = rb_n_seen (sf_buf f) \<and> sf_i_step_start f = length (filter is_tr (take (rb_n_seen (sf_buf f)) B))"

definition file_left :: "bytes list \<Rightarrow> bytes list \<Rightarrow> smd_file \<Rightarrow> bool" where
  "file_left D rem f \<longleftrightarrow> (\<exists>past B R. D = past @ B @ R \<and> file_at past B R f \<and> rem = drop (rb_n_seen (sf_buf f)) B @ R)"

definition fits_chunk :: "nat \<Rightarrow> bytes list \<Rightarrow> bool" where
  "fits_chunk chunksize D \<longleftrightarrow> list_all (\<lambda>d. whole_dgram d \<and> length d \<le> chunksize) D"

lemma file_left_init:
  assumes "fits_chunk n D"
  shows "file_left D D (smd_file_init junk)"
proof -
  have "chunk_holds [] [] (rbuf_init junk)" "steps_hold (filter is_tr []) (rbuf_init junk)"
    by (simp_all add: chunk_holds_def steps_hold_def entered_def rbuf_init_def)
  moreover have "cut_short [] D" using assms by (cases D) (auto simp: cut_short_def fits_chunk_def dest: dgram_pos)
  ultimately have "file_at [] [] D (smd_file_init junk)"
    by (simp add: file_at_def smd_file_init_def rbuf_init_def)
  then show ?thesis
    unfolding file_left_def by (intro exI [of _ "[]"] exI [of _ D]) (simp add: smd_file_init_def rbuf_init_def)
qed

lemma file_at_unseen: "file_at past B R f \<Longrightarrow> unseen f = length B - rb_n_seen (sf_buf f)"
  by (auto simp: file_at_def chunk_holds_def entered_def unseen_def)

text \<open>A finished file: reading gives what is there.\<close>

definition reads_file :: "rd_conf \<Rightarrow> nat \<Rightarrow> bytes list \<Rightarrow> bool" where
  "reads_file C i D \<longleftrightarrow> (\<forall>n pos sz. rc_read C n i pos sz = take sz (drop pos (concat D)))"

lemma cut_short_le: "cut_short rest R \<Longrightarrow> fits_chunk n R \<Longrightarrow> length rest \<le> n"
  by (cases R) (auto simp: cut_short_def fits_chunk_def)

lemma fits_chunk_append: "fits_chunk n (A @ B) \<longleftrightarrow> fits_chunk n A \<and> fits_chunk n B"
  by (simp add: fits_chunk_def)

lemma fill_up:
  assumes "reads_file C i (past @ B @ R)" and "prefix rest (concat R)" and "length rest \<le> n"
  shows "rest @ rc_read C m i (length (concat (past @ B)) + length rest) (n - length rest) = take n (concat R)"
proof -
  obtain zs where zs: "concat R = rest @ zs" using assms(2) by (auto simp: prefix_def)
  have "drop (length (concat (past @ B)) + length rest) (concat (past @ B @ R)) = zs" using zs by simp
  then show ?thesis using assms(1,3) zs by (simp add: reads_file_def)
qed

lemma read_file_run:
  assumes "file_left D rem f" and "fits_chunk (rc_chunksize C) D" and "reads_file C i D"
  shows "\<exists>f' got. read_file C n i (reset_indices f) overflown = (f', got, overflown) \<and> file_left D rem f'
    \<and> (rem \<noteq> [] \<longrightarrow> 0 < unseen f') \<and> rb_found_endrun (sf_buf f') = rb_found_endrun (sf_buf f)"
proof -
  obtain past B R where D: "D = past @ B @ R" and f: "file_at past B R f" and rem: "rem = drop (rb_n_seen (sf_buf f)) B @ R"
    using assms(1) by (auto simp: file_left_def)
  show ?thesis
  proof (cases "0 < unseen f")
    case True
    then show ?thesis using assms(1) by (simp add: read_file_def reset_indices_def)
  next
    case False
    then have "rem = R" using rem file_at_unseen [OF f] by simp
    obtain rest where r: "chunk_holds B rest (sf_buf f)" "cut_short rest R" "sf_pos f = length (concat (past @ B)) + length rest"
      using f by (auto simp: file_at_def)
    have R: "fits_chunk (rc_chunksize C) R" using assms(2) D by (simp add: fits_chunk_append)
    let ?cs = "rc_chunksize C"
    let ?new = "rc_read C n i (sf_pos f) (?cs - length rest)"
    have full: "rest @ ?new = take ?cs (concat R)"
      using fill_up [of C i past B R rest ?cs n] assms(3) D r cut_short_le [OF r(2) R] by (simp add: cut_short_def)
    have dr: "drop (rb_ready_offset (sf_buf f)) (rb_chunk (sf_buf f)) = rest"
      using r(1) by (simp add: chunk_holds_def entered_def)
    let ?b1 = "(clear_buf (sf_buf f))\<lparr>rb_chunk := rest @ ?new, rb_got := length rest + length ?new\<rparr>"
    let ?sb1 = "(clear_buf (sf_step f))\<lparr>rb_chunk := []\<rparr>"
    have "chunk_holds [] (rest @ ?new) ?b1" "steps_hold (filter is_tr []) ?sb1"
      by (simp_all add: chunk_holds_def entered_def steps_hold_def clear_buf_def)
    then obtain B' R' rest' b2 sb2 where s: "scan_chunk ?cs (?b1, ?sb1, overflown) = (b2, sb2, overflown)"
        "R = B' @ R'" "rest @ ?new = concat B' @ rest'" "chunk_holds B' rest' b2" "steps_hold (filter is_tr B') sb2"
        "cut_short rest' R'" "rb_n_seen b2 = 0" "rb_found_endrun b2 = rb_found_endrun (sf_buf f)"
      using scan_chunk_run [of "[]" "rest @ ?new" ?b1 ?sb1 R ?cs overflown] full R
      by (auto simp: fits_chunk_def take_is_prefix clear_buf_def)
    let ?f = "(reset_indices f)\<lparr>sf_buf := b2, sf_step := sb2, sf_pos := sf_pos f + length ?new\<rparr>"
    have run: "read_file C n i (reset_indices f) overflown = (?f, length ?new, overflown)"
      using False s(1) dr by (simp add: read_file_def reset_indices_def unseen_def Let_def del: length_drop)
    have "length rest + length ?new = length (concat B') + length rest'" using arg_cong [OF s(3), of length] by simp
    then have "file_at (past @ B) B' R' ?f"
      using s r(3) False unfolding file_at_def by (auto simp: reset_indices_def intro!: exI [of _ rest'])
    then have left: "file_left D rem ?f"
      unfolding file_left_def using D s(2,7) \<open>rem = R\<close> by (intro exI [of _ "past @ B"] exI [of _ B'] exI [of _ R']) simp
    have "B' \<noteq> []" if "R \<noteq> []"
    proof
      assume e: "B' = []"
      then have "rest' = take ?cs (concat R)" "length rest' < length (hd R)" using s(2,3,6) full that by (simp_all add: cut_short_def)
      moreover have "length (hd R) \<le> length (concat R)" "length (hd R) \<le> ?cs"
        using that R by (cases R; simp add: fits_chunk_def)+
      ultimately show False by simp
    qed
    then have "rem \<noteq> [] \<longrightarrow> 0 < unseen ?f"
      using \<open>rem = R\<close> s(4,7) by (auto simp: unseen_def chunk_holds_def entered_def)
    then show ?thesis using run left s(8) by auto
  qed
qed

section \<open>A window of a file\<close>

lemma last_before_run:
  assumes "\<forall>j<length S. arr j = dg_timestamp (S ! j)" and "e < length S" and "dg_timestamp (S ! e) \<le> limit"
  shows "Suc (last_before arr limit (length S) e) = e + length (takeWhile (\<lambda>d. dg_timestamp d \<le> limit) (drop e S))"
  using assms(2,3)
proof (induction "length S - e" arbitrary: e)
  case 0
  then show ?case by simp
next
  case (Suc n)
  let ?le = "\<lambda>d. dg_timestamp d \<le> limit"
  have e: "drop e S = S ! e # drop (Suc e) S" using Suc.prems(1) by (rule Cons_nth_drop_Suc [symmetric])
  show ?case
  proof (cases "Suc e < length S \<and> ?le (S ! Suc e)")
    case True
    then have "last_before arr limit (length S) e = last_before arr limit (length S) (Suc e)"
      using assms(1) by (subst last_before.simps) auto
    moreover have "Suc (last_before arr limit (length S) (Suc e)) = Suc e + length (takeWhile ?le (drop (Suc e) S))"
      using Suc.hyps(2) True by (intro Suc.hyps(1)) auto
    ultimately show ?thesis using e Suc.prems(2) by simp
  next
    case False
    then have "last_before arr limit (length S) e = e"
      using assms(1) Suc.prems by (subst last_before.simps) auto
    moreover have "takeWhile ?le (drop (Suc e) S) = []"
      using False by (cases "Suc e < length S") (auto simp: Cons_nth_drop_Suc [symmetric])
    ultimately show ?thesis using e Suc.prems(2) by simp
  qed
qed

lemma takeWhile_ordered_first:
  "ordered (d # s) \<Longrightarrow> takeWhile (\<lambda>x. dg_timestamp x \<le> dg_timestamp d) (d # s) = [d]"
  by (cases s) (auto simp: ordered_Cons)

text \<open>The dgrams of a stretch, from the arrays.\<close>

lemma entered_stretch:
  assumes "entered B b" and "W \<noteq> []" and "drop k B = W @ U"
  shows "rb_en b (k + length W - 1) - rb_st b k = length (concat W)" "rb_st b k = length (concat (take k B))"
    and "concat B @ rest = concat (take k B) @ concat W @ concat U @ rest"
proof -
  have k: "k < length B" using assms(2,3) by (metis append_is_Nil_conv drop_eq_Nil not_le)
  have B: "B = take k B @ W @ U" by (metis assms(3) append_take_drop_id)
  have len: "length B = k + length W + length U" using arg_cong [OF B, of length] k by simp
  have W: "0 < length W" using assms(2) by simp
  have "take (k + length W) B = take k B @ W" by (subst (1) B) (use k in simp)
  moreover have "Suc (k + length W - 1) = k + length W" "k + length W - 1 < length B" using W len by linarith+
  ultimately have "rb_en b (k + length W - 1) = length (concat (take k B)) + length (concat W)"
    using assms(1) by (simp add: entered_def)
  moreover show st: "rb_st b k = length (concat (take k B))" using assms(1) k by (simp add: entered_def)
  ultimately show "rb_en b (k + length W - 1) - rb_st b k = length (concat W)" by simp
  show "concat B @ rest = concat (take k B) @ concat W @ concat U @ rest" by (subst B) simp
qed

lemma shown_stretch:
  assumes "entered B b" and "rb_chunk b = concat B @ rest" and "W \<noteq> []" and "drop k B = W @ U"
  shows "shown b k (length (concat W)) = concat W"
  unfolding shown_def assms(2) entered_stretch(2) [OF assms(1,3,4)] entered_stretch(3) [OF assms(1,3,4)]
  by (simp add: slice_def)

definition window :: "nat \<Rightarrow> bytes list \<Rightarrow> bytes list" where
  "window limit ds = takeWhile (\<lambda>d. dg_timestamp d \<le> limit) ds"

lemma window_split: "ds = window limit ds @ drop (length (window limit ds)) ds"
  by (simp add: window_def) (metis append_eq_conv_conj takeWhile_dropWhile_id)

lemma view_buf_run:
  assumes "chunk_holds B rest (sf_buf f)" and "sf_i_start f = k" and "rb_n_seen (sf_buf f) = k" and "ordered B"
    and "W = window limit (drop k B)" and "W \<noteq> []"
  shows "sf_i_start (view_buf limit f) = k + length W" "rb_n_seen (sf_buf (view_buf limit f)) = k + length W"
    "chunk_holds B rest (sf_buf (view_buf limit f))" "sf_block (view_buf limit f) = length (concat W)" "sf_i_st (view_buf limit f) = k"
    "rb_found_endrun (sf_buf (view_buf limit f)) \<longleftrightarrow> rb_found_endrun (sf_buf f) \<or> dg_service (last W) = TransitionId_EndRun"
    "sf_step (view_buf limit f) = sf_step f" "sf_i_step_start (view_buf limit f) = sf_i_step_start f" "sf_pos (view_buf limit f) = sf_pos f"
    "sf_i_step_st (view_buf limit f) = sf_i_step_st f" "sf_step_block (view_buf limit f) = sf_step_block f"
proof -
  have ent: "entered B (sf_buf f)" "rb_n_ready (sf_buf f) = length B" using assms(1) by (simp_all add: chunk_holds_def entered_def)
  have k: "k < length B" using assms(5,6) by (cases "k < length B") (auto simp: window_def)
  then have d: "drop k B = B ! k # drop (Suc k) B" by (rule Cons_nth_drop_Suc [symmetric])
  have le: "dg_timestamp (B ! k) \<le> limit" using assms(5,6) d by (auto simp: window_def split: if_splits)
  have arr: "\<forall>j<length B. rb_ts (sf_buf f) j = dg_timestamp (B ! j)" using ent(1) by (simp add: entered_def)
  let ?e = "if rb_ts (sf_buf f) k \<noteq> limit then last_before (rb_ts (sf_buf f)) limit (length B) k else k"
  have e: "?e = k + length W - 1"
  proof (cases "rb_ts (sf_buf f) k = limit")
    case True
    have "ordered (drop k B)" using assms(4) by (simp add: ordered_def sorted_wrt_drop flip: drop_map)
    then have "W = [B ! k]"
      using takeWhile_ordered_first [of "B ! k" "drop (Suc k) B"] d True arr k assms(5) by (simp add: window_def)
    then show ?thesis using True by simp
  next
    case False
    then show ?thesis using last_before_run [OF arr k le] assms(5) by (simp add: window_def)
  qed
  have W: "0 < length W" using assms(6) by simp
  have U: "drop k B = W @ drop (length W) (drop k B)" unfolding assms(5) by (rule window_split)
  have st: "rb_en (sf_buf f) (k + length W - 1) - rb_st (sf_buf f) k = length (concat W)"
    by (rule entered_stretch(1) [OF ent(1) assms(6) U])
  have "k + length W \<le> length B" using arg_cong [OF U, of length] k by simp
  then have "k + length W - 1 < length B" using W by linarith
  then have "rb_sv (sf_buf f) (k + length W - 1) = dg_service (B ! (k + length W - 1))"
    using ent(1) unfolding entered_def by blast
  also have "B ! (k + length W - 1) = drop k B ! (length W - 1)"
  proof -
    have i: "k + length W - 1 = k + (length W - 1)" using W by linarith
    show ?thesis unfolding i using k by simp
  qed
  also have "\<dots> = last W" by (subst U) (simp add: nth_append last_conv_nth assms(6) W)
  finally have sv: "rb_sv (sf_buf f) (k + length W - 1) = dg_service (last W)" .
  have "view_buf limit f = f\<lparr>sf_i_end := k + length W - 1, sf_block := length (concat W), sf_i_st := k,
      sf_buf := (sf_buf f)\<lparr>rb_seen_offset := rb_en (sf_buf f) (k + length W - 1), rb_n_seen := k + length W - 1 + 1,
        rb_found_endrun := rb_found_endrun (sf_buf f) \<or> dg_service (last W) = TransitionId_EndRun\<rparr>,
      sf_i_start := k + length W - 1 + 1\<rparr>"
    unfolding view_buf_def Let_def assms(2) ent(2) if_P [OF k] e st sv ..
  moreover have "k + length W - 1 + 1 = k + length W" using W by simp
  ultimately show "sf_i_start (view_buf limit f) = k + length W" "rb_n_seen (sf_buf (view_buf limit f)) = k + length W"
    "chunk_holds B rest (sf_buf (view_buf limit f))" "sf_block (view_buf limit f) = length (concat W)" "sf_i_st (view_buf limit f) = k"
    "rb_found_endrun (sf_buf (view_buf limit f)) \<longleftrightarrow> rb_found_endrun (sf_buf f) \<or> dg_service (last W) = TransitionId_EndRun"
    "sf_step (view_buf limit f) = sf_step f" "sf_i_step_start (view_buf limit f) = sf_i_step_start f" "sf_pos (view_buf limit f) = sf_pos f"
    "sf_i_step_st (view_buf limit f) = sf_i_step_st f" "sf_step_block (view_buf limit f) = sf_step_block f"
    using assms(1) by (simp_all add: chunk_holds_def entered_def)
qed

definition step_window_bytes :: "smd_file \<Rightarrow> bytes" where
  "step_window_bytes f = (if 0 < sf_step_block f then shown (sf_step f) (sf_i_step_st f) (sf_step_block f) else [])"

lemma window_filter: "ordered ds \<Longrightarrow> window limit (filter P ds) = filter P (window limit ds)"
proof (induction ds)
  case (Cons d ds)
  show ?case
  proof (cases "dg_timestamp d \<le> limit")
    case True
    then show ?thesis using Cons by (simp add: window_def ordered_Cons)
  next
    case False
    then have "\<forall>x\<in>set (d # ds). \<not> dg_timestamp x \<le> limit" using Cons.prems by (auto simp: ordered_Cons)
    then have "\<forall>x\<in>set (filter P (d # ds)). \<not> dg_timestamp x \<le> limit" by auto
    then have "takeWhile (\<lambda>d. dg_timestamp d \<le> limit) (filter P (d # ds)) = []"
      by (cases "filter P (d # ds)") simp_all
    then show ?thesis using False by (simp add: window_def)
  qed
qed (simp add: window_def)

lemma view_steps_run:
  assumes "steps_hold S (sf_step f)" and "sf_i_step_start f = k" and "k \<le> length S" and "V = window limit (drop k S)"
  shows "sf_i_step_start (view_steps limit f) = k + length V" "steps_hold S (sf_step (view_steps limit f))"
    "step_window_bytes (view_steps limit f) = concat V" "sf_buf (view_steps limit f) = sf_buf f"
    "sf_i_start (view_steps limit f) = sf_i_start f" "sf_block (view_steps limit f) = sf_block f"
    "sf_i_st (view_steps limit f) = sf_i_st f" "sf_pos (view_steps limit f) = sf_pos f"
proof -
  have ent: "entered S (sf_step f)" "rb_n_ready (sf_step f) = length S" "rb_chunk (sf_step f) = concat S @ []"
    using assms(1) by (simp_all add: steps_hold_def entered_def)
  have arr: "\<forall>j<length S. rb_ts (sf_step f) j = dg_timestamp (S ! j)" using ent(1) by (simp add: entered_def)
  have "sf_i_step_start (view_steps limit f) = k + length V \<and> steps_hold S (sf_step (view_steps limit f))
    \<and> step_window_bytes (view_steps limit f) = concat V \<and> sf_buf (view_steps limit f) = sf_buf f
    \<and> sf_i_start (view_steps limit f) = sf_i_start f \<and> sf_block (view_steps limit f) = sf_block f
    \<and> sf_i_st (view_steps limit f) = sf_i_st f \<and> sf_pos (view_steps limit f) = sf_pos f"
  proof (cases "k < length S \<and> dg_timestamp (S ! k) \<le> limit")
    case False
    then have "V = []"
      using assms(4) by (cases "k < length S") (auto simp: window_def Cons_nth_drop_Suc [symmetric])
    moreover have "view_steps limit f = f\<lparr>sf_i_step_st := 0, sf_step_block := 0, sf_i_step_end := k\<rparr>"
      using False arr ent(2) assms(2) by (auto simp: view_steps_def Let_def)
    ultimately show ?thesis using assms(1,2) by (simp add: step_window_bytes_def)
  next
    case True
    then have V: "V \<noteq> []" using assms(4) by (auto simp: window_def Cons_nth_drop_Suc [symmetric])
    let ?e = "last_before (rb_ts (sf_step f)) limit (length S) k"
    have "Suc ?e = k + length V" using last_before_run [OF arr, of k limit] True assms(4) by (simp add: window_def)
    then have e: "?e = k + length V - 1" "?e + 1 = k + length V" by simp_all
    have U: "drop k S = V @ drop (length V) (drop k S)" unfolding assms(4) by (rule window_split)
    have st: "rb_en (sf_step f) ?e - rb_st (sf_step f) k = length (concat V)"
      unfolding e(1) by (rule entered_stretch(1) [OF ent(1) V U])
    have c: "k < length S \<and> rb_ts (sf_step f) k \<le> limit" using True arr by simp
    have run: "view_steps limit f = f\<lparr>sf_i_step_st := k, sf_step_block := length (concat V), sf_i_step_end := ?e,
        sf_step := (sf_step f)\<lparr>rb_seen_offset := rb_en (sf_step f) ?e, rb_n_seen := k + length V\<rparr>,
        sf_i_step_start := k + length V\<rparr>"
      unfolding view_steps_def Let_def assms(2) ent(2) if_P [OF c] st e(2) by simp
    have "shown (sf_step f) k (length (concat V)) = concat V" by (rule shown_stretch [OF ent(1,3) V U])
    then show ?thesis
      using assms(1) unfolding run
      by (cases "concat V = []") (auto simp: step_window_bytes_def steps_hold_def entered_def shown_def)
  qed
  then show "sf_i_step_start (view_steps limit f) = k + length V" "steps_hold S (sf_step (view_steps limit f))"
    "step_window_bytes (view_steps limit f) = concat V" "sf_buf (view_steps limit f) = sf_buf f"
    "sf_i_start (view_steps limit f) = sf_i_start f" "sf_block (view_steps limit f) = sf_block f"
    "sf_i_st (view_steps limit f) = sf_i_st f" "sf_pos (view_steps limit f) = sf_pos f" by simp_all
qed

text \<open>
  A window takes what is in the buffer up to the limit. The window of steps is right when there is
  something, and else what it was before.
\<close>

lemma view_file_run:
  assumes f: "file_at past B R f" and o: "ordered B" and k: "rb_n_seen (sf_buf f) = k" and u: "0 < unseen f"
    and W: "W = window limit (drop k B)"
  shows "file_at past B R (view_file limit f)" "rb_n_seen (sf_buf (view_file limit f)) = k + length W"
    "window_bytes (view_file limit f) = concat W"
    "rb_found_endrun (sf_buf (view_file limit f)) \<longleftrightarrow>
      rb_found_endrun (sf_buf f) \<or> W \<noteq> [] \<and> dg_service (last W) = TransitionId_EndRun"
    "step_window_bytes (view_file limit f) = (if W = [] then step_window_bytes f else concat (filter is_tr W))"
proof -
  let ?g = "f\<lparr>sf_i_st := 0, sf_block := 0\<rparr>" and ?S = "filter is_tr B" and ?ks = "length (filter is_tr (take k B))"
  obtain rest where r: "chunk_holds B rest (sf_buf f)" "cut_short rest R" "sf_pos f = length (concat (past @ B)) + length rest"
    using f by (auto simp: file_at_def)
  have fs: "steps_hold ?S (sf_step f)" "k \<le> length B" "sf_i_start f = k" "sf_i_step_start f = ?ks"
    using f k by (auto simp: file_at_def)
  have kl: "k < length B" using u k file_at_unseen [OF f] by simp
  then have d: "drop k B = B ! k # drop (Suc k) B" by (rule Cons_nth_drop_Suc [symmetric])
  have ts: "rb_ts (sf_buf f) (sf_i_start f) = dg_timestamp (B ! k)"
    using r(1) kl fs(3) by (simp add: chunk_holds_def entered_def)
  have "file_at past B R (view_file limit f) \<and> rb_n_seen (sf_buf (view_file limit f)) = k + length W
    \<and> window_bytes (view_file limit f) = concat W
    \<and> (rb_found_endrun (sf_buf (view_file limit f)) \<longleftrightarrow>
        rb_found_endrun (sf_buf f) \<or> W \<noteq> [] \<and> dg_service (last W) = TransitionId_EndRun)
    \<and> step_window_bytes (view_file limit f) = (if W = [] then step_window_bytes f else concat (filter is_tr W))"
  proof (cases "W = []")
    case True
    then have "limit < dg_timestamp (B ! k)" using W d by (auto simp: window_def split: if_splits)
    then have "view_file limit f = ?g" using ts by (simp add: view_file_def)
    then show ?thesis using f k True by (simp add: file_at_def window_bytes_def step_window_bytes_def)
  next
    case False
    let ?h = "view_buf limit ?g"
    have "\<not> limit < dg_timestamp (B ! k)" using W d False by (auto simp: window_def split: if_splits)
    then have run: "view_file limit f = view_steps limit ?h" using ts by (simp add: view_file_def)
    have g: "chunk_holds B rest (sf_buf ?g)" "sf_i_start ?g = k" "rb_n_seen (sf_buf ?g) = k" using r(1) fs(3) k by simp_all
    note vb = view_buf_run [OF g o W False]
    have B: "B = take k B @ drop k B" by simp
    have S: "?S = filter is_tr (take k B) @ filter is_tr (drop k B)" by (subst B) (simp only: filter_append)
    have od: "ordered (drop k B)" using o by (simp add: ordered_def sorted_wrt_drop flip: drop_map)
    have V: "filter is_tr W = window limit (drop ?ks ?S)"
      using window_filter [OF od, of limit is_tr] W by (simp add: S)
    have "steps_hold ?S (sf_step ?h)" "sf_i_step_start ?h = ?ks" "?ks \<le> length ?S" using vb(7,8) fs(1,4) S by simp_all
    note vs = view_steps_run [OF this V]
    have U: "drop k B = W @ drop (length W) (drop k B)" unfolding W by (rule window_split)
    have kW: "k + length W \<le> length B" using arg_cong [OF U, of length] kl by simp
    have "take (k + length W) B = take k B @ W"
      by (metis U append_eq_conv_conj take_add)
    then have "?ks + length (filter is_tr W) = length (filter is_tr (take (k + length W) B))" by simp
    then have at: "file_at past B R (view_file limit f)"
      unfolding run file_at_def using vb vs r(2,3) kW by (auto intro!: exI [of _ rest])
    have ent: "entered B (sf_buf ?h)" "rb_chunk (sf_buf ?h) = concat B @ rest" using vb(3) by (simp_all add: chunk_holds_def)
    have "window_bytes (view_file limit f) = concat W"
      using vs(4-7) vb(4,5) shown_stretch [OF ent False U] by (auto simp: run window_bytes_def)
    then show ?thesis using at vb(2,6) vs(3,4) False by (simp add: run)
  qed
  then show "file_at past B R (view_file limit f)" "rb_n_seen (sf_buf (view_file limit f)) = k + length W"
    "window_bytes (view_file limit f) = concat W"
    "rb_found_endrun (sf_buf (view_file limit f)) \<longleftrightarrow>
      rb_found_endrun (sf_buf f) \<or> W \<noteq> [] \<and> dg_service (last W) = TransitionId_EndRun"
    "step_window_bytes (view_file limit f) = (if W = [] then step_window_bytes f else concat (filter is_tr W))"
    by blast+
qed

section \<open>All files\<close>

text \<open>The files as lists of dgrams: finished, in the order of time, the EndRun at most at the end.\<close>

definition stream_ok :: "rd_conf \<Rightarrow> nat \<Rightarrow> bytes list \<Rightarrow> bool" where
  "stream_ok C i D \<longleftrightarrow> fits_chunk (rc_chunksize C) D \<and> reads_file C i D \<and> ordered D
     \<and> (\<forall>d\<in>set D. 0 < dg_timestamp d) \<and> (\<forall>d\<in>set (butlast D). dg_service d \<noteq> TransitionId_EndRun)"

definition streams_ok :: "rd_conf \<Rightarrow> bytes list list \<Rightarrow> bool" where
  "streams_ok C Ds \<longleftrightarrow> Ds \<noteq> [] \<and> (\<forall>i<length Ds. stream_ok C i (Ds ! i)) \<and> rc_max_retries C = 0 \<and> \<not> rc_fakestep C"

definition buf_time :: "smd_file \<Rightarrow> nat" where
  "buf_time f = rb_timestamp (sf_buf f)"

text \<open>What the reader has still to show of each file.\<close>

definition reader_left :: "bytes list list \<Rightarrow> bytes list list \<Rightarrow> smd_reader \<Rightarrow> bool" where
  "reader_left Ds rems r \<longleftrightarrow> length (sr_files r) = length Ds \<and> length rems = length Ds
     \<and> (\<forall>i<length Ds. file_left (Ds ! i) (rems ! i) (sr_files r ! i)
          \<and> (rb_found_endrun (sf_buf (sr_files r ! i)) \<longrightarrow> rems ! i = []))
     \<and> (\<forall>w. sr_winner r = Some w \<longrightarrow> w < length Ds \<and> (\<forall>i<length Ds. buf_time (sr_files r ! w) \<le> buf_time (sr_files r ! i)))
     \<and> sr_overflown r = 0"

lemma reader_left_init:
  assumes "streams_ok C Ds"
  shows "\<exists>r. smd_reader_init junk (length Ds) = Inr r \<and> reader_left Ds Ds r"
proof -
  have "file_left (Ds ! i) (Ds ! i) (smd_file_init junk)" if "i < length Ds" for i
    using that assms by (intro file_left_init [of "rc_chunksize C"]) (simp add: streams_ok_def stream_ok_def)
  then show ?thesis
    using assms by (auto simp: smd_reader_init_def streams_ok_def reader_left_def smd_file_init_def rbuf_init_def)
qed

lemma read_files_run:
  assumes "length fs = length Ds" and "length rems = length Ds"
    and "\<And>j. j < length Ds \<Longrightarrow> file_left (Ds ! j) (rems ! j) (fs ! j) \<and> fits_chunk (rc_chunksize C) (Ds ! j) \<and> reads_file C (i + j) (Ds ! j)"
  shows "\<exists>fs' got. read_files C n i (map reset_indices fs) overflown = (fs', got, overflown) \<and> length fs' = length Ds
    \<and> (\<forall>j<length Ds. file_left (Ds ! j) (rems ! j) (fs' ! j) \<and> (rems ! j \<noteq> [] \<longrightarrow> 0 < unseen (fs' ! j))
         \<and> rb_found_endrun (sf_buf (fs' ! j)) = rb_found_endrun (sf_buf (fs ! j)))"
  using assms
proof (induction fs arbitrary: i Ds rems)
  case (Cons f fs)
  obtain D Ds' rem rems' where l: "Ds = D # Ds'" "rems = rem # rems'"
    using Cons.prems(1,2) by (cases Ds; cases rems) auto
  have "file_left D rem f" "fits_chunk (rc_chunksize C) D" "reads_file C i D" using Cons.prems(3) [of 0] l by auto
  from read_file_run [OF this, of n overflown] obtain f' got where f': "read_file C n i (reset_indices f) overflown = (f', got, overflown)"
      "file_left D rem f'" "rem \<noteq> [] \<longrightarrow> 0 < unseen f'" "rb_found_endrun (sf_buf f') = rb_found_endrun (sf_buf f)" by blast
  have "\<exists>fs' got. read_files C n (Suc i) (map reset_indices fs) overflown = (fs', got, overflown) \<and> length fs' = length Ds'
    \<and> (\<forall>j<length Ds'. file_left (Ds' ! j) (rems' ! j) (fs' ! j) \<and> (rems' ! j \<noteq> [] \<longrightarrow> 0 < unseen (fs' ! j))
         \<and> rb_found_endrun (sf_buf (fs' ! j)) = rb_found_endrun (sf_buf (fs ! j)))"
    using Cons.prems l by (intro Cons.IH) (use Cons.prems(3) [of "Suc _"] in auto)
  then obtain fs' gots where "read_files C n (Suc i) (map reset_indices fs) overflown = (fs', gots, overflown)" "length fs' = length Ds'"
      "\<forall>j<length Ds'. file_left (Ds' ! j) (rems' ! j) (fs' ! j) \<and> (rems' ! j \<noteq> [] \<longrightarrow> 0 < unseen (fs' ! j))
         \<and> rb_found_endrun (sf_buf (fs' ! j)) = rb_found_endrun (sf_buf (fs ! j))" by blast
  then show ?case using f' l by (intro exI [of _ "f' # fs'"] exI [of _ "got + gots"]) (auto simp: nth_Cons split: nat.splits)
qed simp

lemma unseen_left: "file_left D rem f \<Longrightarrow> 0 < unseen f \<Longrightarrow> rem \<noteq> []"
  by (auto simp: file_left_def file_at_unseen)

lemma sr_get_run:
  assumes "reader_left Ds rems r" and "streams_ok C Ds"
  shows "reader_left Ds rems (sr_get C r)" "is_complete (sr_get C r) \<longleftrightarrow> (\<forall>rem\<in>set rems. rem \<noteq> [])"
proof -
  have len: "length (sr_files r) = length Ds" "length rems = length Ds" "sr_overflown r = 0" "Ds \<noteq> []"
    and f: "\<And>i. i < length Ds \<Longrightarrow> file_left (Ds ! i) (rems ! i) (sr_files r ! i)"
    and e: "\<And>i. i < length Ds \<Longrightarrow> rb_found_endrun (sf_buf (sr_files r ! i)) \<Longrightarrow> rems ! i = []"
    using assms by (auto simp: reader_left_def streams_ok_def)
  have "reader_left Ds rems (sr_get C r) \<and> (is_complete (sr_get C r) \<longleftrightarrow> (\<forall>rem\<in>set rems. rem \<noteq> []))"
  proof (cases "sr_found_endrun r")
    case True
    have "0 < length Ds" using len(4) by simp
    then have "rems ! 0 = []" using e len(1) True by (auto simp: sr_found_endrun_def list_all_length)
    moreover have "unseen (sr_files r ! 0) = 0"
      using unseen_left [OF f, of 0] \<open>rems ! 0 = []\<close> \<open>0 < length Ds\<close> by auto
    moreover have "rems ! 0 \<in> set rems" using len(2) \<open>0 < length Ds\<close> by simp
    ultimately have "\<not> is_complete r" "\<not> (\<forall>rem\<in>set rems. rem \<noteq> [])"
      using len(1) \<open>0 < length Ds\<close> by (force simp: is_complete_def list_all_length)+
    then show ?thesis using assms(1) True by (simp add: sr_get_def)
  next
    case False
    have "\<And>j. j < length Ds \<Longrightarrow> file_left (Ds ! j) (rems ! j) (sr_files r ! j) \<and> fits_chunk (rc_chunksize C) (Ds ! j) \<and> reads_file C (0 + j) (Ds ! j)"
      using f assms(2) by (simp add: streams_ok_def stream_ok_def)
    from read_files_run [OF len(1,2) this, of "sr_calls r" 0] obtain fs' got
      where fs': "read_files C (sr_calls r) 0 (map reset_indices (sr_files r)) 0 = (fs', got, 0)" "length fs' = length Ds"
        and g: "\<And>j. j < length Ds \<Longrightarrow> file_left (Ds ! j) (rems ! j) (fs' ! j)" "\<And>j. j < length Ds \<Longrightarrow> rems ! j \<noteq> [] \<Longrightarrow> 0 < unseen (fs' ! j)"
          "\<And>j. j < length Ds \<Longrightarrow> rb_found_endrun (sf_buf (fs' ! j)) = rb_found_endrun (sf_buf (sr_files r ! j))" by auto
    have run: "sr_get C r = r\<lparr>sr_files := fs', sr_got := got, sr_overflown := 0, sr_calls := sr_calls r + 1, sr_winner := None\<rparr>"
      using False fs'(1) len(3) assms(2) by (simp add: sr_get_def just_read_def streams_ok_def Let_def)
    have "reader_left Ds rems (sr_get C r)"
      unfolding run reader_left_def using fs'(2) len(2) g(1,3) e by auto
    moreover have "unseen (fs' ! j) \<noteq> 0 \<longleftrightarrow> rems ! j \<noteq> []" if "j < length Ds" for j
      using g(2) [OF that] unseen_left [OF g(1) [OF that]] by auto
    then have "is_complete (sr_get C r) \<longleftrightarrow> (\<forall>rem\<in>set rems. rem \<noteq> [])"
      unfolding run is_complete_def using fs'(2) len(2) by (auto simp: list_all_length all_set_conv_all_nth)
    ultimately show ?thesis ..
  qed
  then show "reader_left Ds rems (sr_get C r)" "is_complete (sr_get C r) \<longleftrightarrow> (\<forall>rem\<in>set rems. rem \<noteq> [])" by simp_all
qed

end
