(* ===== verification/SmdWindows.thy ===== *)
theory SmdWindows
  imports SmdReadFacts
begin

text \<open>
  The windows of a finished run: every call of \<open>view\<close> takes from all files what is there up to one
  time, at least one dgram, and the windows end with the file that ends first. Merging the windows one
  by one is merging the files.
\<close>

section \<open>The buffer that ends first\<close>

text \<open>What \<open>find_winner\<close> has found of the files \<open>fs\<close>.\<close>

definition first_end :: "smd_file list \<Rightarrow> nat option \<times> nat \<Rightarrow> bool" where
  "first_end fs w \<longleftrightarrow> (case fst w of
     None \<Rightarrow> fs = [] \<and> snd w = 0
   | Some i \<Rightarrow> i < length fs \<and> snd w = buf_time (fs ! i) \<and> (\<forall>f\<in>set fs. buf_time (fs ! i) \<le> buf_time f))"

lemma find_winner_run:
  assumes "first_end gs w" and "\<forall>f\<in>set (gs @ fs). 0 < buf_time f"
  shows "first_end (gs @ fs) (find_winner (length gs) fs w)"
  using assms
proof (induction fs arbitrary: gs w)
  case (Cons f fs)
  let ?w = "if rb_timestamp (sf_buf f) < snd w \<or> snd w = 0 then (Some (length gs), rb_timestamp (sf_buf f)) else w"
  have "first_end (gs @ [f]) ?w"
  proof (cases "fst w")
    case None
    then show ?thesis using Cons.prems(1) by (auto simp: first_end_def buf_time_def)
  next
    case (Some i)
    then have i: "i < length gs" "snd w = buf_time (gs ! i)" "\<forall>g\<in>set gs. buf_time (gs ! i) \<le> buf_time g" "0 < buf_time (gs ! i)"
      using Cons.prems by (auto simp: first_end_def)
    show ?thesis
    proof (cases "buf_time f < buf_time (gs ! i)")
      case True
      then show ?thesis using i by (fastforce simp: first_end_def buf_time_def)
    next
      case False
      then show ?thesis using i Some by (auto simp: first_end_def buf_time_def nth_append)
    qed
  qed
  then show ?case using Cons.IH [of "gs @ [f]" ?w] Cons.prems(2) by simp
qed simp

lemma find_winner_first:
  assumes "fs \<noteq> []" and "\<forall>f\<in>set fs. 0 < buf_time f"
  shows "\<exists>w. fst (find_winner 0 fs (None, 0)) = Some w \<and> w < length fs \<and> (\<forall>f\<in>set fs. buf_time (fs ! w) \<le> buf_time f)"
proof -
  have "first_end [] (None, 0)" by (simp add: first_end_def)
  from find_winner_run [OF this, of fs] assms show ?thesis by (auto simp: first_end_def split: option.splits)
qed

section \<open>One window\<close>

definition after_window :: "nat \<Rightarrow> bytes list \<Rightarrow> bytes list" where
  "after_window limit ds = dropWhile (\<lambda>d. dg_timestamp d \<le> limit) ds"

lemma window_after: "window limit ds @ after_window limit ds = ds"
  by (simp add: window_def after_window_def)

definition end_time :: "bytes list list \<Rightarrow> nat" where
  "end_time dss = Min (dg_timestamp ` last ` set dss)"

lemma end_time_le: "ds \<in> set dss \<Longrightarrow> end_time dss \<le> dg_timestamp (last ds)"
  unfolding end_time_def by (intro Min_le) auto

lemma window_append:
  assumes "\<forall>d\<in>set R. limit < dg_timestamp d"
  shows "window limit (xs @ R) = window limit xs" "after_window limit (xs @ R) = drop (length (window limit xs)) xs @ R"
proof -
  have "window limit R = [] \<and> after_window limit R = R"
    using assms by (cases R) (auto simp: window_def after_window_def)
  then have "window limit (xs @ R) = window limit xs \<and> after_window limit (xs @ R) = drop (length (window limit xs)) xs @ R"
    by (induction xs) (auto simp: window_def after_window_def)
  then show "window limit (xs @ R) = window limit xs" "after_window limit (xs @ R) = drop (length (window limit xs)) xs @ R"
    by simp_all
qed

text \<open>The last dgram of a buffer that is not used up, and what is behind it.\<close>

lemma file_left_buffer:
  assumes "file_left D rem f" and "0 < unseen f" and "ordered D"
  obtains past B R k where "D = past @ B @ R" "file_at past B R f" "rb_n_seen (sf_buf f) = k" "k < length B" "rem = drop k B @ R"
    "ordered B" "\<forall>d\<in>set R. buf_time f < dg_timestamp d" "buf_time f = dg_timestamp (last B)" "unseen f = length B - k"
proof -
  obtain past B R where f: "D = past @ B @ R" "file_at past B R f" "rem = drop (rb_n_seen (sf_buf f)) B @ R"
    using assms(1) by (auto simp: file_left_def)
  have u: "unseen f = length B - rb_n_seen (sf_buf f)" using file_at_unseen [OF f(2)] .
  then have k: "rb_n_seen (sf_buf f) < length B" using assms(2) by simp
  then have ne: "B \<noteq> []" by auto
  have t: "buf_time f = dg_timestamp (last B)"
    using f(2) ne by (auto simp: file_at_def chunk_holds_def entered_def buf_time_def)
  have "ordered B" "\<forall>d\<in>set R. dg_timestamp (last B) < dg_timestamp d"
    using assms(3) ne unfolding f(1) by (auto simp: ordered_append)
  then show ?thesis using that [OF f(1,2) refl k f(3)] t u by simp
qed

text \<open>A limit that no buffer ends before gives a window of the file, not only of the buffer.\<close>

lemma view_file_left:
  assumes "file_left D rem f" and "0 < unseen f" and "ordered D" and "limit \<le> buf_time f"
    and "\<forall>d\<in>set (butlast D). dg_service d \<noteq> TransitionId_EndRun" and "\<not> rb_found_endrun (sf_buf f)"
  shows "file_left D (after_window limit rem) (view_file limit f)"
    "window_bytes (view_file limit f) = concat (window limit rem)"
    "window limit rem \<noteq> [] \<Longrightarrow> step_window_bytes (view_file limit f) = concat (filter is_tr (window limit rem))"
    "rb_found_endrun (sf_buf (view_file limit f)) \<Longrightarrow> after_window limit rem = []"
    "buf_time (view_file limit f) = buf_time f"
proof -
  obtain past B R k where f: "D = past @ B @ R" "file_at past B R f" "rb_n_seen (sf_buf f) = k" "k < length B"
      "rem = drop k B @ R" "ordered B" "\<forall>d\<in>set R. buf_time f < dg_timestamp d"
    using file_left_buffer [OF assms(1-3)] by metis
  let ?W = "window limit (drop k B)"
  have "\<forall>d\<in>set R. limit < dg_timestamp d" using f(7) assms(4) by fastforce
  then have w: "window limit rem = ?W" "after_window limit rem = drop (length ?W) (drop k B) @ R"
    unfolding f(5) using window_append by auto
  note v = view_file_run [OF f(2,6,3) assms(2) refl, of limit]
  show "file_left D (after_window limit rem) (view_file limit f)"
    unfolding file_left_def
    by (intro exI [of _ past] exI [of _ B] exI [of _ R]) (simp add: f(1) v(1,2) w(2) add.commute)
  show "window_bytes (view_file limit f) = concat (window limit rem)" using v(3) w(1) by simp
  show "step_window_bytes (view_file limit f) = concat (filter is_tr (window limit rem))" if "window limit rem \<noteq> []"
    using v(5) w(1) that by simp
  show "after_window limit rem = []" if "rb_found_endrun (sf_buf (view_file limit f))"
  proof (rule ccontr)
    assume a: "after_window limit rem \<noteq> []"
    have W: "window limit rem \<noteq> []" "dg_service (last (window limit rem)) = TransitionId_EndRun"
      using v(4) assms(6) that w(1) by auto
    have "D = past @ take k B @ window limit rem @ after_window limit rem"
      unfolding window_after using f(1,5) by simp
    then have "last (window limit rem) \<in> set (butlast D)" using a W(1) by (simp add: butlast_append)
    then show False using assms(5) W(2) by auto
  qed
  have "B \<noteq> []" using f(4) by auto
  then show "buf_time (view_file limit f) = buf_time f"
    using v(1) f(2) by (auto simp: file_at_def chunk_holds_def entered_def buf_time_def)
qed

text \<open>All files, seen up to the time of the winner or less.\<close>

lemma view_left:
  assumes r: "reader_left Ds rems r" and C: "streams_ok C Ds" and c: "is_complete r"
    and limit: "\<forall>i<length Ds. limit \<le> buf_time (sr_files r ! i)" and w: "sr_winner r' = Some w" "w < length Ds"
      "\<forall>i<length Ds. buf_time (sr_files r ! w) \<le> buf_time (sr_files r ! i)"
    and r': "sr_files r' = map (view_file limit) (sr_files r)" "sr_overflown r' = 0"
  shows "reader_left Ds (map (after_window limit) rems) r'"
    "map window_bytes (sr_files r') = map (concat \<circ> window limit) rems"
    "i < length Ds \<Longrightarrow> window limit (rems ! i) \<noteq> [] \<Longrightarrow>
      step_window_bytes (sr_files r' ! i) = concat (filter is_tr (window limit (rems ! i)))"
proof -
  have len: "length (sr_files r) = length Ds" "length rems = length Ds" using r by (simp_all add: reader_left_def)
  have u: "0 < unseen (sr_files r ! i)" if "i < length Ds" for i
    using c that len by (simp add: is_complete_def list_all_length)
  have f: "file_left (Ds ! i) (rems ! i) (sr_files r ! i)" "rems ! i \<noteq> []" "\<not> rb_found_endrun (sf_buf (sr_files r ! i))"
    if "i < length Ds" for i
    using r that unseen_left [OF _ u [OF that]] by (auto simp: reader_left_def)
  have D: "ordered (Ds ! i)" "\<forall>d\<in>set (butlast (Ds ! i)). dg_service d \<noteq> TransitionId_EndRun" if "i < length Ds" for i
    using C that by (simp_all add: streams_ok_def stream_ok_def)
  note v = view_file_left [OF f(1) u D(1) _ D(2) f(3)]
  show "reader_left Ds (map (after_window limit) rems) r'"
    unfolding reader_left_def using len w limit r' v(1,4,5) by simp
  show "map window_bytes (sr_files r') = map (concat \<circ> window limit) rems"
    using len r' v(2) limit by (intro nth_equalityI) simp_all
  show "step_window_bytes (sr_files r' ! i) = concat (filter is_tr (window limit (rems ! i)))"
    if "i < length Ds" "window limit (rems ! i) \<noteq> []"
    using len r' v(3) limit that by simp
qed

lemma ordered_le: "ordered B \<Longrightarrow> i \<le> j \<Longrightarrow> j < length B \<Longrightarrow> dg_timestamp (B ! i) \<le> dg_timestamp (B ! j)"
  by (cases "i = j") (auto simp: ordered_def sorted_wrt_iff_nth_less intro: less_imp_le)

text \<open>The limit that \<open>view\<close> takes from the winner.\<close>

definition view_limit :: "nat \<Rightarrow> smd_file \<Rightarrow> nat" where
  "view_limit batch_size f =
     (if batch_size < unseen f then rb_ts (sf_buf f) (rb_n_seen (sf_buf f) + batch_size - 1) else buf_time f)"

lemma view_limit_run:
  assumes "file_left D rem f" and "0 < unseen f" and "ordered D" and "0 < n"
  shows "view_limit n f \<le> buf_time f" "window (view_limit n f) rem \<noteq> []"
proof -
  obtain past B R k where f: "file_at past B R f" "rb_n_seen (sf_buf f) = k" "k < length B" "rem = drop k B @ R"
      "ordered B" "buf_time f = dg_timestamp (last B)" "unseen f = length B - k"
    using file_left_buffer [OF assms(1-3)] by metis
  have ne: "B \<noteq> []" using f(3) by auto
  then have last: "last B = B ! (length B - 1)" by (rule last_conv_nth)
  have "\<exists>j. k \<le> j \<and> j < length B \<and> view_limit n f = dg_timestamp (B ! j)"
  proof (cases "n < unseen f")
    case True
    then have "k + n - 1 < length B" "k \<le> k + n - 1" using f(3,7) assms(4) by linarith+
    moreover from this have "rb_ts (sf_buf f) (k + n - 1) = dg_timestamp (B ! (k + n - 1))"
      using f(1) by (auto simp: file_at_def chunk_holds_def entered_def)
    ultimately show ?thesis using True f(2) by (auto simp: view_limit_def)
  next
    case False
    moreover have "k \<le> length B - 1" "length B - 1 < length B" using f(3) by linarith+
    ultimately show ?thesis using f(6) last by (intro exI [of _ "length B - 1"]) (simp add: view_limit_def)
  qed
  then obtain j where j: "k \<le> j" "j < length B" "view_limit n f = dg_timestamp (B ! j)" by blast
  show "view_limit n f \<le> buf_time f" using ordered_le [OF f(5), of j "length B - 1"] j f(6) last by simp
  have "dg_timestamp (B ! k) \<le> view_limit n f" using ordered_le [OF f(5) j(1,2)] j(3) by simp
  then show "window (view_limit n f) rem \<noteq> []"
    using f(3,4) by (simp add: window_def Cons_nth_drop_Suc [symmetric])
qed

lemma buf_time_last:
  assumes "file_left D rem f" and "0 < unseen f" and "ordered D"
  shows "buf_time f \<le> dg_timestamp (last rem)" "buf_time f \<in> dg_timestamp ` set D"
proof -
  obtain past B R k where f: "D = past @ B @ R" "k < length B" "rem = drop k B @ R"
      "\<forall>d\<in>set R. buf_time f < dg_timestamp d" "buf_time f = dg_timestamp (last B)"
    using file_left_buffer [OF assms] by metis
  show "buf_time f \<le> dg_timestamp (last rem)"
    using f(2-5) by (cases "R = []") (auto intro: less_imp_le)
  have "last B \<in> set D" using f(1,2) by (cases B rule: rev_cases) auto
  then show "buf_time f \<in> dg_timestamp ` set D" using f(5) by simp
qed

text \<open>What a call of \<open>view\<close> has shown of what was left.\<close>

definition window_shown :: "nat \<Rightarrow> bytes list list \<Rightarrow> smd_reader \<Rightarrow> bool" where
  "window_shown L rems r \<longleftrightarrow> (\<exists>rem\<in>set rems. window L rem \<noteq> []) \<and> L \<le> end_time rems
     \<and> map window_bytes (sr_files r) = map (concat \<circ> window L) rems
     \<and> (\<forall>i<length rems. window L (rems ! i) \<noteq> [] \<longrightarrow>
          step_window_bytes (sr_files r ! i) = concat (filter is_tr (window L (rems ! i))))
     \<and> sr_fakebuf r = [] \<and> 0 < sr_n_view_events r"

lemma sr_view_run:
  assumes r: "reader_left Ds rems r" and C: "streams_ok C Ds" and c: "is_complete r" and n: "0 < n"
  shows "\<exists>L r'. sr_view n (-1) r = Inr r' \<and> reader_left Ds (map (after_window L) rems) r' \<and> window_shown L rems r'"
proof -
  have len: "length (sr_files r) = length Ds" "length rems = length Ds" and ov: "sr_overflown r = 0" and ne: "Ds \<noteq> []"
    using r C by (simp_all add: reader_left_def streams_ok_def)
  have u: "0 < unseen (sr_files r ! i)" if "i < length Ds" for i
    using c that len by (simp add: is_complete_def list_all_length)
  have f: "file_left (Ds ! i) (rems ! i) (sr_files r ! i)" "ordered (Ds ! i)" "\<forall>d\<in>set (Ds ! i). 0 < dg_timestamp d"
    if "i < length Ds" for i
    using r C that by (simp_all add: reader_left_def streams_ok_def stream_ok_def)
  have pos: "0 < buf_time (sr_files r ! i)" if "i < length Ds" for i
    using buf_time_last(2) [OF f(1) u f(2)] f(3) that by fastforce
  have "\<exists>w. winner_of (-1) r = Some w \<and> w < length Ds \<and> (\<forall>i<length Ds. buf_time (sr_files r ! w) \<le> buf_time (sr_files r ! i))"
  proof (cases "sr_winner r")
    case None
    have "\<forall>f\<in>set (sr_files r). 0 < buf_time f" using pos len by (auto simp: in_set_conv_nth)
    moreover have "sr_files r \<noteq> []" using len ne by auto
    ultimately show ?thesis using find_winner_first [of "sr_files r"] None len by (fastforce simp: winner_of_def)
  next
    case (Some w)
    then show ?thesis using r by (simp add: winner_of_def reader_left_def)
  qed
  then obtain w where w: "winner_of (-1) r = Some w" "w < length Ds"
    "\<forall>i<length Ds. buf_time (sr_files r ! w) \<le> buf_time (sr_files r ! i)" by blast
  let ?f = "sr_files r ! w" and ?L = "view_limit n (sr_files r ! w)"
  note L = view_limit_run [OF f(1) [OF w(2)] u [OF w(2)] f(2) [OF w(2)] n]
  let ?en = "if n < unseen ?f then rb_n_seen (sf_buf ?f) + n else rb_n_ready (sf_buf ?f)"
  have en: "?en \<noteq> 0" using n u [OF w(2)] by (auto simp: unseen_def)
  let ?r = "r\<lparr>sr_winner := Some w, sr_n_view_events := min (unseen ?f) n, sr_last_sv := rb_sv (sf_buf ?f) (?en - 1),
      sr_last_ts := rb_ts (sf_buf ?f) (?en - 1), sr_next_fake_ts := 0, sr_fakebuf := [], sr_files := map (view_file ?L) (sr_files r)\<rparr>"
  have "?L = (if n < unseen ?f then rb_ts (sf_buf ?f) (?en - 1) else rb_timestamp (sf_buf ?f))"
    by (simp add: view_limit_def buf_time_def)
  then have run: "sr_view n (-1) r = Inr ?r" using w(1,2) len(1) en by (simp add: sr_view_def Let_def)
  have Li: "\<forall>i<length Ds. ?L \<le> buf_time (sr_files r ! i)" using L(1) w(3) le_trans by blast
  have "sr_winner ?r = Some w" "sr_files ?r = map (view_file ?L) (sr_files r)" "sr_overflown ?r = 0" using ov by simp_all
  note v = view_left [OF r C c Li this(1) w(2,3) this(2,3)]
  have "?L \<le> dg_timestamp (last rem)" if m: "rem \<in> set rems" for rem
  proof -
    obtain i where i: "i < length Ds" "rem = rems ! i" using m len(2) by (auto simp: in_set_conv_nth)
    have "?L \<le> buf_time (sr_files r ! i)" using Li i(1) by blast
    also have "\<dots> \<le> dg_timestamp (last rem)" unfolding i(2) by (rule buf_time_last(1) [OF f(1) u f(2)]) (rule i(1))+
    finally show ?thesis .
  qed
  moreover have "rems \<noteq> []" using len ne by auto
  ultimately have "?L \<le> end_time rems" by (simp add: end_time_def)
  moreover have "rems ! w \<in> set rems" using w(2) len(2) by simp
  ultimately have "window_shown ?L rems ?r"
    unfolding window_shown_def using v(2,3) L(2) len n u [OF w(2)] by auto
  then show ?thesis using run v(1) by blast
qed

section \<open>The chunks of \<open>Smd0\<close>\<close>

text \<open>Without fake steps the reader shows the windows.\<close>

lemma show_all_run:
  assumes "sr_fakebuf r = []" and "\<not> rc_fakestep C"
  shows "show_all C step r = (map (if step then step_window_bytes else window_bytes) (sr_files r), r)"
proof -
  have "sr_show C i step r = ((if step then step_window_bytes else window_bytes) (sr_files r ! i), r)" for i
    using assms by (simp add: sr_show_def get_fake_buffer_def Let_def window_bytes_def step_window_bytes_def)
  then have "show_files C step is r = (map (\<lambda>i. (if step then step_window_bytes else window_bytes) (sr_files r ! i)) is, r)" for "is"
    by (induction "is") simp_all
  moreover have "map (\<lambda>i. g (sr_files r ! i)) [0..<length (sr_files r)] = map g (sr_files r)" for g :: "smd_file \<Rightarrow> bytes"
    by (rule nth_equalityI) simp_all
  ultimately show ?thesis by (simp add: show_all_def)
qed

text \<open>The windows of what is left of the files, to the end of the file that ends first.\<close>

inductive cut_up :: "bytes list list \<Rightarrow> bytes list list list \<Rightarrow> bool" where
  cut_end: "rem \<in> set rems \<Longrightarrow> rem = [] \<Longrightarrow> cut_up rems []"
| cut_window: "\<forall>rem\<in>set rems. rem \<noteq> [] \<Longrightarrow> L \<le> end_time rems \<Longrightarrow> rems \<noteq> [] \<Longrightarrow>
    cut_up (map (after_window L) rems) Wss \<Longrightarrow> cut_up rems (map (window L) rems # Wss)"

definition chunk_shows :: "bytes list list \<Rightarrow> chunk \<Rightarrow> bool" where
  "chunk_shows W ck \<longleftrightarrow> ck_smds ck = map concat W \<and> length (ck_steps ck) = length W
     \<and> (\<forall>i<length W. W ! i \<noteq> [] \<longrightarrow> ck_steps ck ! i = concat (filter is_tr (W ! i)))
     \<and> ck_fake ck = [] \<and> \<not> ck_terminate ck"

definition plain_conf :: "sm_conf \<Rightarrow> bool" where
  "plain_conf C \<longleftrightarrow> sc_max_events C = 0 \<and> sc_intg_stream_id C = -1 \<and> 0 < sc_smd_n_events C"

lemma mn_view_run:
  assumes "reader_left Ds rems (mn_reader s)" and "streams_ok (sc_rd C) Ds" and "plain_conf C" and "is_complete (mn_reader s)"
  shows "\<exists>L r. mn_view (smd0_n_events C) (sc_intg_stream_id C) s = (Inr (), s\<lparr>mn_reader := r\<rparr>)
    \<and> reader_left Ds (map (after_window L) rems) r \<and> window_shown L rems r"
proof -
  have "0 < smd0_n_events C" "sc_intg_stream_id C = -1" using assms(3) by (auto simp: plain_conf_def smd0_n_events_def)
  moreover obtain L r where "sr_view (smd0_n_events C) (-1) (mn_reader s) = Inr r"
      "reader_left Ds (map (after_window L) rems) r" "window_shown L rems r"
    using sr_view_run [OF assms(1,2,4) calculation(1)] by blast
  ultimately show ?thesis by (intro exI [of _ L] exI [of _ r]) (simp add: mn_view_def)
qed

lemma next_chunk_complete:
  assumes "reader_left Ds rems (mn_reader s)" and "streams_ok (sc_rd C) Ds" and "plain_conf C" and "is_complete (mn_reader s)"
  shows "\<exists>L s1. next_chunk C s = Some (Inr (True, False), s1)
    \<and> reader_left Ds (map (after_window L) rems) (mn_reader s1) \<and> window_shown L rems (mn_reader s1)"
proof -
  obtain L r where v: "mn_view (smd0_n_events C) (sc_intg_stream_id C) s = (Inr (), s\<lparr>mn_reader := r\<rparr>)"
      "reader_left Ds (map (after_window L) rems) r" "window_shown L rems r"
    using mn_view_run [OF assms] by blast
  have "0 < sr_n_view_events r" "sc_max_events C = 0" using v(3) assms(3) by (simp_all add: window_shown_def plain_conf_def)
  then show ?thesis
    using v assms(4) by (subst next_chunk.simps) (auto simp: view_chunk_def eff_simps limit_reached_def)
qed

text \<open>Reading makes the reader complete when every file has something left, and only then.\<close>

lemma manager_get:
  assumes "reader_left Ds rems (mn_reader s)" and "streams_ok (sc_rd C) Ds"
  obtains r where "mn_get C s = (Inr (), s\<lparr>mn_reader := r\<rparr>)" "reader_left Ds rems r"
    "is_complete r \<longleftrightarrow> (\<forall>rem\<in>set rems. rem \<noteq> [])" "is_complete (mn_reader s) \<Longrightarrow> \<forall>rem\<in>set rems. rem \<noteq> []"
proof
  let ?r = "sr_get (sc_rd C) (mn_reader s)"
  note g = sr_get_run [OF assms]
  show "reader_left Ds rems ?r" "is_complete ?r \<longleftrightarrow> (\<forall>rem\<in>set rems. rem \<noteq> [])" by (rule g)+
  have "sr_overflown ?r = 0" using g(1) by (simp add: reader_left_def)
  then show "mn_get C s = (Inr (), s\<lparr>mn_reader := ?r\<rparr>)" by (simp add: mn_get_def eff_simps)
  assume c: "is_complete (mn_reader s)"
  show "\<forall>rem\<in>set rems. rem \<noteq> []"
  proof
    fix rem
    assume "rem \<in> set rems"
    then obtain i where "i < length Ds" "rem = rems ! i"
      using assms(1) by (auto simp: in_set_conv_nth reader_left_def)
    then have "file_left (Ds ! i) rem (sr_files (mn_reader s) ! i)" "0 < unseen (sr_files (mn_reader s) ! i)"
      using assms(1) c by (auto simp: reader_left_def is_complete_def list_all_length)
    then show "rem \<noteq> []" by (rule unseen_left)
  qed
qed

lemma next_chunk_run:
  assumes r: "reader_left Ds rems (mn_reader s)" and C: "streams_ok (sc_rd C) Ds" "plain_conf C"
  shows "\<exists>rem\<in>set rems. rem = [] \<Longrightarrow> \<exists>s1. next_chunk C s = Some (Inr (False, True), s1)"
    and "\<forall>rem\<in>set rems. rem \<noteq> [] \<Longrightarrow> \<exists>L s1. next_chunk C s = Some (Inr (True, False), s1)
      \<and> reader_left Ds (map (after_window L) rems) (mn_reader s1) \<and> window_shown L rems (mn_reader s1)"
proof -
  obtain r' where get: "mn_get C s = (Inr (), s\<lparr>mn_reader := r'\<rparr>)" "reader_left Ds rems r'"
      "is_complete r' \<longleftrightarrow> (\<forall>rem\<in>set rems. rem \<noteq> [])" "is_complete (mn_reader s) \<Longrightarrow> \<forall>rem\<in>set rems. rem \<noteq> []"
    using manager_get [OF r C(1)] by blast
  show "\<exists>s1. next_chunk C s = Some (Inr (False, True), s1)" if "\<exists>rem\<in>set rems. rem = []"
    using get(1,3,4) that by (subst next_chunk.simps) auto
  show "\<exists>L s1. next_chunk C s = Some (Inr (True, False), s1)
      \<and> reader_left Ds (map (after_window L) rems) (mn_reader s1) \<and> window_shown L rems (mn_reader s1)"
    if ne: "\<forall>rem\<in>set rems. rem \<noteq> []"
  proof (cases "is_complete (mn_reader s)")
    case True
    then show ?thesis using next_chunk_complete [OF r C] by blast
  next
    case False
    have "next_chunk C s = next_chunk C (s\<lparr>mn_reader := r'\<rparr>)"
      using False get(1,3) ne by (subst next_chunk.simps) simp
    then show ?thesis using next_chunk_complete [of Ds rems "s\<lparr>mn_reader := r'\<rparr>" C] get(2,3) C ne by simp
  qed
qed

lemma chunk_of_run:
  assumes "window_shown L rems (mn_reader s)" and "reader_left Ds (map (after_window L) rems) (mn_reader s)" and "\<not> rc_fakestep (sc_rd C)"
  shows "\<exists>ck. chunk_of C False s = (Inr ck, s) \<and> chunk_shows (map (window L) rems) ck
    \<and> (ck_endrun ck \<longleftrightarrow> sr_found_endrun (mn_reader s))"
proof -
  let ?r = "mn_reader s"
  let ?ck = "\<lparr>ck_steps = map step_window_bytes (sr_files ?r), ck_smds = map window_bytes (sr_files ?r), ck_fake = [],
      ck_terminate = False, ck_endrun = sr_found_endrun ?r\<rparr>"
  have f: "sr_fakebuf ?r = []" using assms(1) by (simp add: window_shown_def)
  have "show_all (sc_rd C) True ?r = (map step_window_bytes (sr_files ?r), ?r)"
    using show_all_run [OF f assms(3), of True] by simp
  moreover have "get_fake_buffer (sc_rd C) ?r = ([], ?r)" using assms(3) by (simp add: get_fake_buffer_def)
  ultimately have "chunk_of C False s = (Inr ?ck, s)" by (simp add: chunk_of_def mn_show_def eff_simps)
  moreover have "length (sr_files ?r) = length rems" using assms(2) by (simp add: reader_left_def)
  then have "chunk_shows (map (window L) rems) ?ck" using assms(1) by (simp add: chunk_shows_def window_shown_def comp_def)
  ultimately show ?thesis by simp
qed

lemma after_window_less:
  assumes "\<exists>rem\<in>set rems. window L rem \<noteq> []"
  shows "dgrams_left (map (after_window L) rems) < dgrams_left rems"
proof -
  have l: "length (window L rem) + length (after_window L rem) = length rem" for rem
    using arg_cong [OF window_after, of length L rem] by simp
  have le: "length (after_window L rem) \<le> length rem" for rem using l [of rem] by linarith
  obtain j where j: "j < length rems" "window L (rems ! j) \<noteq> []" using assms by (auto simp: in_set_conv_nth)
  have "length (after_window L (rems ! j)) < length (rems ! j)" using l [of "rems ! j"] j(2) by (cases "window L (rems ! j)") auto
  then show ?thesis
    unfolding dgrams_left_def using j(1) le
    by (intro sum_list_less [of _ _ j]) (auto simp: list_all2_conv_all_nth)
qed

lemma smd0_chunks_run:
  assumes "reader_left Ds rems (mn_reader s)" and "streams_ok (sc_rd C) Ds" and "plain_conf C" and "dgrams_left rems < n"
  shows "\<exists>cks Wss s'. smd0_chunks n C s = Some (cks, None, s') \<and> cut_up rems Wss \<and> list_all2 chunk_shows Wss cks"
  using assms(1,4)
proof (induction n arbitrary: s rems)
  case (Suc n)
  note nc = next_chunk_run [OF Suc.prems(1) assms(2,3)]
  have len: "length rems = length Ds" "Ds \<noteq> []" using Suc.prems(1) assms(2) by (simp_all add: reader_left_def streams_ok_def)
  show ?case
  proof (cases "\<exists>rem\<in>set rems. rem = []")
    case True
    then show ?thesis using nc(1) by (auto intro: cut_end)
  next
    case False
    then obtain L s1 where s1: "next_chunk C s = Some (Inr (True, False), s1)"
        "reader_left Ds (map (after_window L) rems) (mn_reader s1)" "window_shown L rems (mn_reader s1)"
      using nc(2) by blast
    have nf: "\<not> rc_fakestep (sc_rd C)" using assms(2) by (simp add: streams_ok_def)
    obtain ck where ck: "chunk_of C False s1 = (Inr ck, s1)" "chunk_shows (map (window L) rems) ck"
        "ck_endrun ck \<longleftrightarrow> sr_found_endrun (mn_reader s1)"
      using chunk_of_run [OF s1(3,2) nf] by blast
    have L: "L \<le> end_time rems" "\<exists>rem\<in>set rems. window L rem \<noteq> []" using s1(3) by (simp_all add: window_shown_def)
    show ?thesis
    proof (cases "ck_endrun ck")
      case True
      have l1: "0 < length (sr_files (mn_reader s1))" "length (sr_files (mn_reader s1)) = length Ds"
        using s1(2) len by (simp_all add: reader_left_def)
      then have "rb_found_endrun (sf_buf (sr_files (mn_reader s1) ! 0))"
        using True ck(3) by (simp add: sr_found_endrun_def list_all_length)
      then have "after_window L (rems ! 0) = []" using s1(2) l1 by (auto simp: reader_left_def)
      moreover have "after_window L (rems ! 0) \<in> set (map (after_window L) rems)" using l1 len by simp
      ultimately have "cut_up (map (after_window L) rems) []" by (intro cut_end [of "after_window L (rems ! 0)"])
      then have "cut_up rems [map (window L) rems]" using False L(1) len by (intro cut_window) auto
      then show ?thesis
        using s1(1) ck(1,2) True by (intro exI [of _ "[ck]"] exI [of _ "[map (window L) rems]"]) simp
    next
      case no: False
      have "dgrams_left (map (after_window L) rems) < n" using after_window_less [OF L(2)] Suc.prems(2) by simp
      then obtain cks Wss s' where "smd0_chunks n C s1 = Some (cks, None, s')" "cut_up (map (after_window L) rems) Wss"
          "list_all2 chunk_shows Wss cks" using Suc.IH [OF s1(2)] by blast
      moreover from this have "cut_up rems (map (window L) rems # Wss)" using False L(1) len by (intro cut_window) auto
      ultimately show ?thesis
        using s1(1) ck(1,2) no by (intro exI [of _ "ck # cks"] exI [of _ "map (window L) rems # Wss"]) simp
    qed
  qed
qed simp

section \<open>Windows and the merge\<close>

text \<open>What the windows show of the files: all that is not later than the end of the file that ends first.\<close>

definition shown_part :: "bytes list list \<Rightarrow> bytes list list" where
  "shown_part dss = (if [] \<in> set dss then map (\<lambda>_. []) dss else map (window (end_time dss)) dss)"

lemma last_after_window: "after_window L ds \<noteq> [] \<Longrightarrow> last (after_window L ds) = last ds"
  by (metis last_appendR window_after)

lemma window_twice: "L \<le> E \<Longrightarrow> window E ds = window L ds @ window E (after_window L ds)"
  by (induction ds) (auto simp: window_def after_window_def)

lemma after_window_later:
  assumes "ordered ds" and "d \<in> set (after_window L ds)"
  shows "L < dg_timestamp d"
  using assms
proof (induction ds)
  case (Cons e ds)
  show ?case
  proof (cases "dg_timestamp e \<le> L")
    case True
    then show ?thesis using Cons by (simp add: after_window_def ordered_Cons)
  next
    case False
    then have "d = e \<or> dg_timestamp e < dg_timestamp d" using Cons.prems by (auto simp: after_window_def ordered_Cons)
    then show ?thesis using False by auto
  qed
qed (simp add: after_window_def)

lemma after_window_empty: "after_window L ds = [] \<Longrightarrow> ds \<noteq> [] \<Longrightarrow> dg_timestamp (last ds) \<le> L"
  by (simp add: after_window_def)

lemma shown_part_step:
  assumes "[] \<notin> set rems" and "L \<le> end_time rems" and "rems \<noteq> []"
  shows "shown_part rems = map2 (@) (map (window L) rems) (shown_part (map (after_window L) rems))"
proof (cases "[] \<in> set (map (after_window L) rems)")
  case True
  then obtain rem where rem: "rem \<in> set rems" "after_window L rem = []" by auto
  then have "dg_timestamp (last rem) \<le> L" using assms(1) by (intro after_window_empty) auto
  then have "end_time rems = L" using end_time_le [OF rem(1)] assms(2) by simp
  then show ?thesis using True assms(1) by (auto simp: shown_part_def intro!: nth_equalityI)
next
  case False
  then have "(\<lambda>ds. dg_timestamp (last ds)) ` set (map (after_window L) rems) = (\<lambda>ds. dg_timestamp (last ds)) ` set rems"
    unfolding set_map image_image
  proof (intro image_cong refl)
    fix rem
    assume "rem \<in> set rems"
    then have "after_window L rem \<noteq> []" using False by force
    then show "dg_timestamp (last (after_window L rem)) = dg_timestamp (last rem)" by (simp add: last_after_window)
  qed
  then have "end_time (map (after_window L) rems) = end_time rems" by (simp add: end_time_def image_image)
  then show ?thesis
    using False assms(1) by (auto simp: shown_part_def window_twice [OF assms(2), symmetric] intro!: nth_equalityI)
qed

lemma ordered_parts: "ordered ds \<Longrightarrow> ordered (window L ds)" "ordered ds \<Longrightarrow> ordered (after_window L ds)"
  by (metis ordered_append window_after)+

lemma shown_part_sub: "s \<in> set (shown_part dss) \<Longrightarrow> \<exists>ds\<in>set dss. \<exists>r. ds = s @ r"
  by (auto simp: shown_part_def split: if_splits intro: window_after [symmetric])

lemma ordered_filter: "ordered ds \<Longrightarrow> ordered (filter P ds)"
  by (induction ds) (auto simp: ordered_Cons) 

text \<open>Also when the user selects dgrams.\<close>

lemma cut_up_parts:
  assumes "cut_up rems Wss" and "list_all ordered rems"
  shows "concat (map (\<lambda>W. merge_events (map (filter P) W)) Wss) = merge_events (map (filter P) (shown_part rems))"
    "\<forall>i<length rems. concat (map (\<lambda>W. W ! i) Wss) = shown_part rems ! i" "\<forall>W\<in>set Wss. length W = length rems"
proof -
  let ?f = "map (filter P) :: bytes list list \<Rightarrow> bytes list list"
  have "concat (map (\<lambda>W. merge_events (?f W)) Wss) = merge_events (?f (shown_part rems))
      \<and> (\<forall>i<length rems. concat (map (\<lambda>W. W ! i) Wss) = shown_part rems ! i) \<and> (\<forall>W\<in>set Wss. length W = length rems)"
    using assms
  proof (induction rule: cut_up.induct)
    case (cut_end rem rems)
    then show ?case by (auto simp: shown_part_def merge_events_step(2))
  next
    case (cut_window rems L Wss)
    let ?as = "map (window L) rems" and ?bs = "shown_part (map (after_window L) rems)"
    have o: "list_all ordered (map (after_window L) rems)" "list_all ordered (?f ?as)"
      using cut_window.prems ordered_parts ordered_filter by (auto simp: list_all_iff)
    note ih = cut_window.IH [OF o(1)]
    have s: "shown_part rems = map2 (@) ?as ?bs" using cut_window.hyps by (intro shown_part_step) auto
    have len: "length ?as = length ?bs" by (simp add: shown_part_def)
    have sf: "?f (shown_part rems) = map2 (@) (?f ?as) (?f ?bs)" unfolding s using len by (intro nth_equalityI) simp_all
    have ob: "list_all ordered (?f ?bs)"
    proof -
      have "ordered b" if b: "b \<in> set ?bs" for b
      proof -
        obtain r where "b @ r \<in> set (map (after_window L) rems)" using shown_part_sub [OF b] by blast
        then have "ordered (b @ r)" using o(1) unfolding list_all_iff by blast
        then show ?thesis by (simp add: ordered_append)
      qed
      then show ?thesis using ordered_filter by (auto simp: list_all_iff)
    qed
    have later: "L < dg_timestamp d" if b: "b \<in> set ?bs" and d: "d \<in> set b" for b d
    proof -
      obtain r where "b @ r \<in> set (map (after_window L) rems)" using shown_part_sub [OF b] by blast
      then obtain rem where rem: "rem \<in> set rems" "b @ r = after_window L rem" by auto
      then have "d \<in> set (after_window L rem)" using d by (simp flip: rem(2))
      moreover have "ordered rem" using rem(1) cut_window.prems by (simp add: list_all_iff)
      ultimately show ?thesis using after_window_later by blast
    qed
    have e1: "dg_timestamp d \<le> L" if "a \<in> set (?f ?as)" "d \<in> set a" for a d
      using that by (auto simp: window_def dest: set_takeWhileD)
    have e2: "L < dg_timestamp d" if "b \<in> set (?f ?bs)" "d \<in> set b" for b d
      using that later by auto
    have "merge_events (?f (shown_part rems)) = merge_events (?f ?as) @ merge_events (?f ?bs)"
      unfolding sf by (rule merge_events_append [OF _ o(2) ob e1 e2]) (use len in simp)
    then show ?case using ih len by (simp add: s)
  qed
  then show "concat (map (\<lambda>W. merge_events (map (filter P) W)) Wss) = merge_events (map (filter P) (shown_part rems))"
    "\<forall>i<length rems. concat (map (\<lambda>W. W ! i) Wss) = shown_part rems ! i" "\<forall>W\<in>set Wss. length W = length rems" by blast+
qed

text \<open>Files that end at the same time are shown to the end.\<close>

lemma shown_part_all:
  assumes "\<forall>ds\<in>set dss. ds \<noteq> [] \<and> dg_timestamp (last ds) = T" and "list_all ordered dss"
  shows "shown_part dss = dss"
proof (cases "dss = []")
  case True
  then show ?thesis by (simp add: shown_part_def)
next
  case False
  have "(\<lambda>ds. dg_timestamp (last ds)) ` set dss = {T}"
    using assms(1) False by (cases dss) auto
  then have T: "end_time dss = T" by (simp add: end_time_def image_image)
  have "window T ds = ds" if "ds \<in> set dss" for ds
  proof -
    have "dg_timestamp d \<le> T" if d: "d \<in> set ds" for d
    proof -
      obtain i where i: "i < length ds" "ds ! i = d" using d by (auto simp: in_set_conv_nth)
      have "ordered ds" using assms(2) \<open>ds \<in> set dss\<close> by (simp add: list_all_iff)
      from ordered_le [OF this, of i "length ds - 1"] i assms(1) \<open>ds \<in> set dss\<close> show ?thesis
        by (force simp: last_conv_nth)
    qed
    then show ?thesis by (simp add: window_def)
  qed
  then show ?thesis using T assms(1) by (auto simp: shown_part_def intro: map_idI)
qed

text \<open>A reader that has just been made shows finished files to the end, and stops.\<close>

definition end_together :: "bytes list list \<Rightarrow> bool" where
  "end_together dss \<longleftrightarrow> (\<exists>T. \<forall>ds\<in>set dss. ds \<noteq> [] \<and> dg_timestamp (last ds) = T)"

lemma streams_ordered: "streams_ok C Ds \<Longrightarrow> list_all ordered Ds"
  by (auto simp: streams_ok_def stream_ok_def list_all_length)

lemma smd0_chunks_all:
  assumes "smd_man_init junk (length Ds) = Inr s" and "streams_ok (sc_rd C) Ds" and "plain_conf C" and "end_together Ds"
    and "dgrams_left Ds < n"
  shows "\<exists>cks Wss s'. smd0_chunks n C s = Some (cks, None, s') \<and> list_all2 chunk_shows Wss cks
    \<and> (\<forall>W\<in>set Wss. length W = length Ds) \<and> (\<forall>i<length Ds. concat (map (\<lambda>W. W ! i) Wss) = Ds ! i)
    \<and> (\<forall>P. concat (map (\<lambda>W. merge_events (map (filter P) W)) Wss) = merge_events (map (filter P) Ds))"
proof -
  obtain r where "smd_reader_init junk (length Ds) = Inr r" "reader_left Ds Ds r"
    using reader_left_init [OF assms(2)] by blast
  then have "reader_left Ds Ds (mn_reader s)" using assms(1) by (auto simp: smd_man_init_def)
  from smd0_chunks_run [OF this assms(2,3,5)] obtain cks Wss s' where run: "smd0_chunks n C s = Some (cks, None, s')"
      "cut_up Ds Wss" "list_all2 chunk_shows Wss cks" by blast
  have "shown_part Ds = Ds"
    using assms(4) shown_part_all streams_ordered [OF assms(2)] by (auto simp: end_together_def)
  then show ?thesis using run cut_up_parts [OF run(2) streams_ordered [OF assms(2)]] by auto
qed

text \<open>No chunk comes after the one with the end of the run.\<close>

lemma smd0_chunks_served: "smd0_chunks n C s = Some (cks, x, s') \<Longrightarrow> served cks = cks"
proof (induction n arbitrary: s cks)
  case (Suc n)
  have t: "chunk_of C False s1 = (Inr ck, s2) \<Longrightarrow> \<not> ck_terminate ck" for s1 ck s2
    by (auto simp: chunk_of_def mn_show_def eff_simps split: prod.splits)
  show ?case
    using Suc.prems by (auto simp: served_Cons split: option.splits sum.splits prod.splits bool.splits if_splits
        dest: Suc.IH dest!: t)
qed simp

end
