(* ===== verification/EventNode.thy ===== *)
theory EventNode
  imports EventBuildFacts EbFacts
begin

text \<open>
  The batches of the event builder by destination, the batches of a chunk as pieces of its events,
  and the event builder node run with this event builder.
\<close>

section \<open>Batches by destination\<close>

definition event_row :: "proxy_event \<Rightarrow> bytes list" where
  "event_row ev = map dg_bytes (pe_pydgrams ev)"

definition event_bytes :: "proxy_event \<Rightarrow> bytes" where
  "event_bytes ev = row_event (event_row ev)"

definition grouped :: "(proxy_event \<Rightarrow> bytes list) \<Rightarrow> proxy_event list \<Rightarrow> (nat \<times> bytes list) list" where
  "grouped f evs = fold (\<lambda>ev g. AList.update (pe_destination ev)
     ((case map_of g (pe_destination ev) of None \<Rightarrow> [] | Some es \<Rightarrow> es) @ f ev) g) evs []"

definition as_batch :: "bytes list \<Rightarrow> bytes \<times> nat list" where
  "as_batch es = (concat es, map length es)"

definition dict_of :: "(nat \<times> bytes list) list \<Rightarrow> batch_dict" where
  "dict_of g = map (\<lambda>(k, es). (k, as_batch es)) g"

lemma update_dict_of: "AList.update k (as_batch es) (dict_of g) = dict_of (AList.update k es g)"
  by (induction g) (auto simp: dict_of_def)

lemma map_of_dict_of: "map_of (dict_of g) k = map_option as_batch (map_of g k)"
  by (induction g) (auto simp: dict_of_def)

lemma extend_batch_dict:
  "extend_batch k es (dict_of g) = dict_of (AList.update k ((case map_of g k of None \<Rightarrow> [] | Some xs \<Rightarrow> xs) @ es) g)"
  by (cases "map_of g k") (simp_all add: extend_batch_def map_of_dict_of as_batch_def flip: update_dict_of)

definition event_ok :: "proxy_event \<Rightarrow> bool" where
  "event_ok ev \<longleftrightarrow> list_all (\<lambda>d. length d < 2 ^ 32) (event_row ev)"

lemma as_bytearray_ok: "event_ok ev \<Longrightarrow> as_bytearray (pe_pydgrams ev) = Inr (event_bytes ev)"
  by (simp add: as_bytearray_def event_ok_def event_bytes_def event_row_def row_event_def Let_def)

lemma collect_events_run:
  assumes "list_all event_ok evs"
  shows "collect_events evs ([], [])
    = Inr (dict_of (grouped (\<lambda>ev. [event_bytes ev]) evs),
           dict_of (grouped (\<lambda>ev. if is_step ev then [event_bytes ev] else []) evs))"
proof -
  let ?add = "\<lambda>f ev g. AList.update (pe_destination ev)
     ((case map_of g (pe_destination ev) of None \<Rightarrow> [] | Some es \<Rightarrow> es) @ f ev) g"
  have "collect_events evs (dict_of g, dict_of h)
    = Inr (dict_of (fold (?add (\<lambda>ev. [event_bytes ev])) evs g),
           dict_of (fold (?add (\<lambda>ev. if is_step ev then [event_bytes ev] else [])) evs h))" for g h
    using assms by (induction evs arbitrary: g h) (simp_all add: as_bytearray_ok extend_batch_dict del: if_split_asm)
  from this [of "[]" "[]"] show ?thesis by (simp add: dict_of_def grouped_def)
qed

definition batch_fits :: "bytes list \<Rightarrow> bool" where
  "batch_fits es \<longleftrightarrow> list_all (\<lambda>e. e \<noteq> [] \<and> length e < 2 ^ 32) es \<and> length es \<le> MAX_BATCH_SIZE"

lemma close_batches_run:
  "list_all (\<lambda>(k, es). batch_fits es) g \<Longrightarrow> close_batches (dict_of g) = Inr (map (\<lambda>(k, es). (k, batch_of es)) g)"
proof (induction g)
  case (Cons x g)
  obtain k es where x: "x = (k, es)" by force
  then have "concat es = [] \<longleftrightarrow> es = []" "list_all (\<lambda>n. n < 2 ^ 32) (map length es)" "length es \<le> MAX_BATCH_SIZE"
    using Cons.prems by (cases es; auto simp: batch_fits_def list_all_iff)+
  then show ?case
    using Cons x by (auto simp: dict_of_def as_batch_def batch_of_def)
qed (simp add: dict_of_def)

text \<open>What is in the dict for a destination: its events, in order.\<close>

lemma grouped_snoc: "grouped f (evs @ [ev]) = AList.update (pe_destination ev)
     ((case map_of (grouped f evs) (pe_destination ev) of None \<Rightarrow> [] | Some es \<Rightarrow> es) @ f ev) (grouped f evs)"
  by (simp add: grouped_def)

lemma map_of_grouped:
  "map_of (grouped f evs) k =
    (if \<exists>ev\<in>set evs. pe_destination ev = k
     then Some (concat (map f (filter (\<lambda>ev. pe_destination ev = k) evs))) else None)"
proof (induction evs arbitrary: k rule: rev_induct)
  case Nil
  then show ?case by (simp add: grouped_def)
next
  case (snoc ev evs)
  have "filter (\<lambda>e. pe_destination e = k) evs = []" if "\<not> (\<exists>e\<in>set evs. pe_destination e = k)"
    using that by (auto simp: filter_empty_conv)
  then show ?case by (auto simp: grouped_snoc update_conv' snoc.IH)
qed

lemma distinct_grouped: "distinct (map fst (grouped f evs))"
  by (induction evs rule: rev_induct) (simp_all add: grouped_snoc distinct_update, simp add: grouped_def)

lemma grouped_fits:
  assumes "\<And>ev. ev \<in> set evs \<Longrightarrow> f ev = [] \<or> f ev = [event_bytes ev]"
    and "list_all (\<lambda>ev. length (event_bytes ev) < 2 ^ 32) evs" and "length evs \<le> MAX_BATCH_SIZE"
  shows "list_all (\<lambda>(k, es). batch_fits es) (grouped f evs)"
proof -
  have "batch_fits es" if "(k, es) \<in> set (grouped f evs)" for k es
  proof -
    let ?evs = "filter (\<lambda>ev. pe_destination ev = k) evs"
    have "map_of (grouped f evs) k = Some es" using that distinct_grouped by (simp add: map_of_is_SomeI)
    then have es: "es = concat (map f ?evs)" by (auto simp: map_of_grouped split: if_splits)
    have ne: "event_bytes ev \<noteq> []" for ev
      using footer_of_ne by (simp add: event_bytes_def row_event_def)
    have "e \<noteq> [] \<and> length e < 2 ^ 32" if e: "e \<in> set es" for e
    proof -
      obtain ev where ev: "ev \<in> set evs" "e \<in> set (f ev)" using e unfolding es by auto
      then have "e = event_bytes ev" using assms(1) [OF ev(1)] by auto
      then show ?thesis using ne ev(1) assms(2) by (simp add: list_all_iff)
    qed
    then have "list_all (\<lambda>e. e \<noteq> [] \<and> length e < 2 ^ 32) es" by (simp add: list_all_iff)
    moreover have "length (concat (map f xs)) \<le> length xs" if "set xs \<subseteq> set evs" for xs
      using that
    proof (induction xs)
      case (Cons x xs)
      then show ?case using assms(1) [of x] by auto
    qed simp
    then have "length es \<le> length ?evs" unfolding es by simp
    then have "length es \<le> length evs" by (rule le_trans) (rule length_filter_le)
    ultimately show ?thesis using assms(3) by (simp add: batch_fits_def)
  qed
  then show ?thesis by (auto simp: list_all_iff)
qed

definition batches_by_dest :: "(proxy_event \<Rightarrow> bytes list) \<Rightarrow> proxy_event list \<Rightarrow> (nat \<times> bytes) list" where
  "batches_by_dest f evs = map (\<lambda>(k, es). (k, batch_of es)) (grouped f evs)"

definition step_bytes :: "proxy_event \<Rightarrow> bytes list" where
  "step_bytes ev = (if is_step ev then [event_bytes ev] else [])"

definition events_fit :: "proxy_event list \<Rightarrow> bool" where
  "events_fit evs \<longleftrightarrow> list_all event_ok evs \<and> list_all (\<lambda>ev. length (event_bytes ev) < 2 ^ 32) evs"

lemma gen_batches_run:
  assumes "events_fit evs" and "length evs \<le> MAX_BATCH_SIZE"
  shows "gen_batches evs = Inr (batches_by_dest (\<lambda>ev. [event_bytes ev]) evs, batches_by_dest step_bytes evs)"
proof -
  have "list_all (\<lambda>(k, es). batch_fits es) (grouped (\<lambda>ev. [event_bytes ev]) evs)"
    using assms by (intro grouped_fits) (auto simp: events_fit_def)
  moreover have "list_all (\<lambda>(k, es). batch_fits es) (grouped step_bytes evs)"
    using assms by (intro grouped_fits) (auto simp: events_fit_def step_bytes_def)
  ultimately show ?thesis
    using collect_events_run [of evs] assms(1)
    by (simp add: gen_batches_def sbind_def close_batches_run batches_by_dest_def events_fit_def step_bytes_def [abs_def])
qed

lemma map_of_batches:
  "map_of (batches_by_dest f evs) k =
    (if \<exists>ev\<in>set evs. pe_destination ev = k
     then Some (batch_of (concat (map f (filter (\<lambda>ev. pe_destination ev = k) evs)))) else None)"
proof -
  have "map_of (map (\<lambda>(k, es). (k, batch_of es)) g) k = map_option batch_of (map_of g k)" for g :: "(nat \<times> bytes list) list"
    by (induction g) auto
  then show ?thesis by (simp add: batches_by_dest_def map_of_grouped)
qed

section \<open>All batches of a chunk\<close>

function pieces :: "nat \<Rightarrow> 'a list \<Rightarrow> 'a list list" where
  "pieces n xs = (if xs = [] \<or> n = 0 then [] else take n xs # pieces n (drop n xs))"
  by pat_completeness auto
termination
  by (relation "measure (\<lambda>(n, xs). length xs)") auto

declare pieces.simps [simp del]

lemma concat_pieces: "0 < n \<Longrightarrow> concat (pieces n xs) = xs"
  by (induction n xs rule: pieces.induct) (subst pieces.simps, simp)

lemma piece_length: "ys \<in> set (pieces n xs) \<Longrightarrow> length ys \<le> n \<and> ys \<noteq> [] \<and> set ys \<subseteq> set xs"
proof (induction n xs rule: pieces.induct)
  case (1 n xs)
  then show ?case using set_take_subset [of n xs] set_drop_subset [of n xs]
    by (subst (asm) (2) pieces.simps) (auto split: if_splits)
qed

definition built_of :: "proxy_event list \<Rightarrow> built" where
  "built_of evs = \<lparr>bt_smd = batches_by_dest (\<lambda>ev. [event_bytes ev]) evs, bt_step = batches_by_dest step_bytes evs,
     bt_nevents = length evs, bt_nsteps = length (filter is_step evs)\<rparr>"

lemma events_fit_take: "events_fit evs \<Longrightarrow> events_fit (take n evs) \<and> events_fit (drop n evs)"
  by (auto simp: events_fit_def list_all_iff dest: in_set_takeD in_set_dropD)

lemma eb_build_run:
  assumes "left_to_build p bs evs" and "ep_intg_stream_id p \<le> -1" and "ep_batch_size p \<le> MAX_BATCH_SIZE" and "events_fit evs"
  shows "\<exists>bs'. eb_build p bs = Inr (built_of (take (ep_batch_size p) evs), bs') \<and> left_to_build p bs' (drop (ep_batch_size p) evs)"
proof -
  let ?n = "ep_batch_size p"
  obtain bs' where b: "build_loop p 0 bs = Inr (take ?n evs, bs')" "left_to_build p bs' (drop ?n evs)"
    using left_to_build_run [OF assms(1,2)] by blast
  have len: "length (take ?n evs) \<le> MAX_BATCH_SIZE" "length (filter is_step (take ?n evs)) \<le> MAX_BATCH_SIZE"
    using assms(3) le_trans [OF length_filter_le [of is_step "take ?n evs"]] by simp_all
  then have "build_events p bs = Inr (take ?n evs, bs')" using b(1) by (simp add: build_events_def sbind_def)
  then show ?thesis
    using gen_batches_run [OF conjunct1 [OF events_fit_take [OF assms(4)]] len(1)] b(2)
    by (simp add: eb_build_def sbind_def built_of_def)
qed

lemma manager_batches_run:
  assumes "left_to_build p bs evs" and "ep_intg_stream_id p \<le> -1"
    and "0 < ep_batch_size p" and "ep_batch_size p \<le> MAX_BATCH_SIZE" and "events_fit evs"
  shows "manager_batches p bs = map (Inr \<circ> built_of) (pieces (ep_batch_size p) evs)"
  using assms(1,5)
proof (induction "ep_batch_size p" evs arbitrary: bs rule: pieces.induct)
  case (1 evs)
  let ?n = "ep_batch_size p"
  obtain bs' where b: "eb_build p bs = Inr (built_of (take ?n evs), bs')" "left_to_build p bs' (drop ?n evs)"
    using eb_build_run [OF "1.prems"(1) assms(2,4) "1.prems"(2)] by blast
  show ?case
  proof (cases "evs = []")
    case True
    then show ?thesis using b by (subst manager_batches.simps, subst pieces.simps) (simp add: built_of_def)
  next
    case False
    then have "bt_nevents (built_of (take ?n evs)) \<noteq> 0" using assms(3) by (simp add: built_of_def)
    moreover have "manager_batches p bs' = map (Inr \<circ> built_of) (pieces ?n (drop ?n evs))"
      using "1.hyps" [OF _ b(2)] False assms(3) events_fit_take [OF "1.prems"(2)] by simp
    ultimately show ?thesis
      using b(1) False assms(3) by (subst manager_batches.simps, subst pieces.simps) simp
  qed
qed

section \<open>The node with its event builder\<close>

text \<open>The reader of a dgram's size.\<close>

definition smd_dsize :: "'c \<Rightarrow> bytes \<Rightarrow> nat \<Rightarrow> pyexc + nat" where
  "smd_dsize config v i = sbind (dgram_at v i) (\<lambda>d. Inr (length d))"

lemma whole_dgram_sized: "whole_dgram d \<Longrightarrow> dgram_ok smd_dsize c d"
proof -
  assume w: "whole_dgram d"
  then have "dgram_at (pre @ d @ post) (length pre) = Inr d" for pre post
    by (simp add: dgram_at_def Let_def dg_append whole_dgram_def slice_middle)
  then show ?thesis using dgram_pos [OF w] by (auto simp: dgram_ok_def smd_dsize_def sbind_def)
qed

text \<open>A chunk as \<open>Smd0\<close> sends it: the bytes of the dgrams of every stream, and the footer.\<close>

definition chunk_bytes :: "bytes list list \<Rightarrow> bytes" where
  "chunk_bytes dss = concat (map concat dss) @ footer_of (map length (map concat dss))"

definition chunk_fits :: "nat \<Rightarrow> bytes list list \<Rightarrow> bool" where
  "chunk_fits n dss \<longleftrightarrow> length dss = n \<and> (\<forall>ds\<in>set dss. list_all whole_dgram ds) \<and> sizes_ok (map length (map concat dss))"

lemma chunk_views: "chunk_fits (Suc k) dss \<Longrightarrow> eb_views (chunk_bytes dss) = Inr (map concat dss)"
  unfolding chunk_bytes_def by (rule eb_views_batch) (auto simp: chunk_fits_def)

definition any_dest :: "eb_parms \<Rightarrow> bool" where
  "any_dest p \<longleftrightarrow> ep_destination p = None \<and> ep_intg_stream_id p \<le> -1 \<and> 0 < ep_batch_size p \<and> ep_batch_size p \<le> MAX_BATCH_SIZE"

lemma judge_Some: "judge p row = Inr (Some ev) \<Longrightarrow> pe_pydgrams ev = row \<and> pe_service ev = dg_service (row_main row)
    \<and> pe_timestamp ev = dg_timestamp (row_main row)
    \<and> (is_step ev \<longrightarrow> None \<notin> set row) \<and> (ep_destination p = None \<longrightarrow> pe_destination ev = 0)"
  by (auto simp: judge_def Let_def sbind_def ask_user_def callback_def is_step_def list_ex_iff
      split: sum.splits if_splits prod.splits option.splits)

lemma merge_row:
  "row \<in> set (merge_events ss) \<Longrightarrow> length row = length ss \<and> (\<forall>i<length ss. \<forall>d. row ! i = Some d \<longrightarrow> d \<in> set (ss ! i))"
proof (induction ss arbitrary: row rule: merge_events.induct)
  case (1 ss)
  show ?case
  proof (cases "\<exists>s\<in>set ss. s \<noteq> []")
    case False
    then show ?thesis using "1.prems" by (simp add: merge_events_step(2))
  next
    case True
    have t: "take_at t s = Some d \<Longrightarrow> d \<in> set s" "set (drop_at t s) \<subseteq> set s" for t s d
      by (auto simp: take_at_def drop_at_def split: list.splits if_splits)
    show ?thesis
      using "1.prems" "1.IH" [OF True, of row] t by (fastforce simp: merge_events_step(1) [OF True])
  qed
qed

lemma accepted_event:
  assumes "ev \<in> set (accepted p (merge_events ss))"
  shows "pe_pydgrams ev \<in> set (merge_events ss) \<and> judge p (pe_pydgrams ev) = Inr (Some ev)"
  using assms judge_Some by (fastforce simp: accepted_def split: sum.splits option.splits)

definition chunk_events :: "eb_parms \<Rightarrow> bytes list list \<Rightarrow> proxy_event list" where
  "chunk_events p dss = accepted p (merge_events (map (filter (selected (ep_timestamps p))) dss))"

definition handed :: "proxy_event list \<Rightarrow> bytes list \<times> bytes list list" where
  "handed evs = (map event_bytes evs, map event_row (filter is_step evs))"

lemma event_dgram:
  assumes "chunk_fits n dss" and "ev \<in> set (chunk_events p dss)"
  shows "length (event_row ev) = n"
    and "i < n \<Longrightarrow> is_step ev \<Longrightarrow> whole_dgram (event_row ev ! i)"
proof -
  let ?ss = "map (filter (selected (ep_timestamps p))) dss"
  have ev: "pe_pydgrams ev \<in> set (merge_events ?ss)" "judge p (pe_pydgrams ev) = Inr (Some ev)"
    using accepted_event assms(2) by (auto simp: chunk_events_def)
  note row = merge_row [OF ev(1)]
  have len: "length dss = n" using assms(1) by (simp add: chunk_fits_def)
  then show "length (event_row ev) = n" using row by (simp add: event_row_def)
  assume i: "i < n" and "is_step ev"
  then have "None \<notin> set (pe_pydgrams ev)" using judge_Some [OF ev(2)] by simp
  then obtain d where d: "pe_pydgrams ev ! i = Some d"
    using i row len by (metis length_map not_Some_eq nth_mem)
  then have "d \<in> set (dss ! i)" using row i len by fastforce
  then have "whole_dgram d" using assms(1) i len by (auto simp: chunk_fits_def list_all_iff)
  then show "whole_dgram (event_row ev ! i)" using d i row len by (simp add: event_row_def dg_bytes_def)
qed

lemma events_fit_sub: "events_fit evs \<Longrightarrow> set xs \<subseteq> set evs \<Longrightarrow> events_fit xs"
  by (auto simp: events_fit_def list_all_iff)

lemma events_sizes: "events_fit evs \<Longrightarrow> length evs < 2 ^ 32 \<Longrightarrow> sizes_ok (map length (map event_bytes evs))"
  by (auto simp: events_fit_def sizes_ok_def list_all_iff)

lemma step_events_bytes: "concat (map step_bytes evs) = map event_bytes (filter is_step evs)"
  by (induction evs) (simp_all add: step_bytes_def)

lemma built_any:
  assumes "chunk_fits (Suc k) dss" and "any_dest p" and "length configs = Suc k"
    and sub: "set evs \<subseteq> set (chunk_events p dss)" "evs \<noteq> []" and fit: "events_fit evs" "length evs \<le> MAX_BATCH_SIZE"
  shows "any_built smd_dsize configs (Inr (built_of evs)) (handed evs)"
proof -
  have dest: "pe_destination ev = 0" if "ev \<in> set evs" for ev
    using that sub(1) assms(2) accepted_event [of ev p] judge_Some [of p "pe_pydgrams ev" ev]
    by (auto simp: chunk_events_def any_dest_def)
  then have "filter (\<lambda>ev. pe_destination ev = 0) evs = evs" "\<exists>ev\<in>set evs. pe_destination ev = 0"
    using sub(2) by (auto simp: filter_id_conv neq_Nil_conv)
  then have m: "map_of (bt_smd (built_of evs)) 0 = Some (batch_of (map event_bytes evs))"
      "map_of (bt_step (built_of evs)) 0 = Some (batch_of (map event_bytes (filter is_step evs)))"
    by (simp_all add: built_of_def map_of_batches step_events_bytes)
  have k: "Suc k < 2 ^ 32" using assms(1) by (auto simp: chunk_fits_def sizes_ok_def)
  have small: "sizes_ok (map length (event_row ev))" if "ev \<in> set evs" for ev
    using fit(1) that event_dgram(1) [OF assms(1), of ev p] sub(1) k
    by (auto simp: events_fit_def event_ok_def list_all_iff sizes_ok_def)
  have good: "rows_good smd_dsize configs (map event_row (filter is_step evs))"
    unfolding rows_good_def assms(3)
    using small event_dgram [OF assms(1), of _ p] sub(1) by (auto intro!: whole_dgram_sized)
  have "events_fit (filter is_step evs)" by (rule events_fit_sub [OF fit(1)]) auto
  moreover have "length (filter is_step evs) < 2 ^ 32"
    using le_trans [OF length_filter_le fit(2), of is_step] by (simp add: MAX_BATCH_SIZE_def)
  ultimately have "sizes_ok (map length (map event_bytes (filter is_step evs)))" by (rule events_sizes)
  moreover have "evs = [] \<or> 0 < length evs" "filter is_step evs = [] \<or> 0 < length (filter is_step evs)" by auto
  ultimately show ?thesis
    unfolding any_built_def using m good sub(2)
    by (auto simp: handed_def built_of_def event_bytes_def [abs_def] comp_def)
qed

text \<open>What the event builder hands over of each chunk.\<close>

definition chunk_batches :: "eb_parms \<Rightarrow> bytes list list \<Rightarrow> proxy_event list list" where
  "chunk_batches p dss = pieces (ep_batch_size p) (chunk_events p dss)"

definition chunk_good :: "eb_parms \<Rightarrow> nat \<Rightarrow> bytes list list \<Rightarrow> bool" where
  "chunk_good p n dss \<longleftrightarrow> chunk_fits n dss \<and> positive dss \<and> events_fit (chunk_events p dss)
     \<and> user_answers p (merge_events (map (filter (selected (ep_timestamps p))) dss))"

lemma eb_manager_run:
  assumes "chunk_good p (Suc k) dss" and "ep_intg_stream_id p \<le> -1" and "0 < ep_batch_size p" and "ep_batch_size p \<le> MAX_BATCH_SIZE"
  shows "eb_manager p (map concat dss) = map (Inr \<circ> built_of) (chunk_batches p dss)"
proof -
  let ?ss = "map (filter (selected (ep_timestamps p))) dss"
  have "positive ?ss" using assms(1) by (auto simp: chunk_good_def positive_def)
  then have "left_to_build p (map mypybuf_init (map concat dss)) (chunk_events p dss)"
    unfolding chunk_events_def using assms(1)
    by (intro left_to_build_init) (auto simp: chunk_good_def chunk_fits_def)
  then show ?thesis
    using manager_batches_run assms by (simp add: eb_manager_def chunk_batches_def chunk_good_def)
qed

lemma chunk_built_run:
  assumes "chunk_good p (Suc k) dss" and "any_dest p" and "length configs = Suc k"
  shows "chunk_built smd_dsize configs (eb_manager p) (chunk_bytes dss) (map handed (chunk_batches p dss))"
proof -
  have fits: "chunk_fits (Suc k) dss" and ev: "events_fit (chunk_events p dss)"
    using assms(1) by (simp_all add: chunk_good_def)
  have "any_built smd_dsize configs (Inr (built_of evs)) (handed evs)" if "evs \<in> set (chunk_batches p dss)" for evs
    using piece_length [of evs "ep_batch_size p" "chunk_events p dss"] that assms(2) ev
    by (intro built_any [OF fits assms(2,3)]) (auto simp: chunk_batches_def any_dest_def intro: events_fit_sub)
  then have "list_all2 (any_built smd_dsize configs) (map (Inr \<circ> built_of) (chunk_batches p dss)) (map handed (chunk_batches p dss))"
    by (simp add: list_all2_conv_all_nth)
  moreover have "chunk_bytes dss \<noteq> []" using footer_of_ne by (simp add: chunk_bytes_def)
  ultimately show ?thesis
    unfolding chunk_built_def using chunk_views [OF fits] eb_manager_run [OF assms(1)] assms(2)
    by (auto simp: any_dest_def)
qed

text \<open>The node, for batches that may go to any client.\<close>

definition all_batches :: "eb_parms \<Rightarrow> bytes list list list \<Rightarrow> proxy_event list list" where
  "all_batches p css = concat (map (chunk_batches p) css)"

definition all_events :: "eb_parms \<Rightarrow> bytes list list list \<Rightarrow> proxy_event list" where
  "all_events p css = concat (map (chunk_events p) css)"

lemma concat_batches: "0 < ep_batch_size p \<Longrightarrow> concat (all_batches p css) = all_events p css"
  by (induction css) (simp_all add: all_batches_def all_events_def chunk_batches_def concat_pieces)

lemma handed_steps: "concat (map snd (map handed evss)) = map event_row (filter is_step (concat evss))"
  by (induction evss) (simp_all add: handed_def)

lemma row_event_step: "map row_event (map event_row evs) = map event_bytes evs"
  by (simp add: event_bytes_def)

lemma node_fits:
  assumes "any_dest p" and "events_fit (all_events p css)" and "length (all_events p css) + MAX_BATCH_SIZE < 2 ^ 32"
  shows "fits [] (map handed (all_batches p css))" and "sizes_ok (map length (map event_bytes (filter is_step (all_events p css))))"
proof -
  let ?evs = "all_events p css"
  have n: "0 < ep_batch_size p" "ep_batch_size p \<le> MAX_BATCH_SIZE" using assms(1) by (simp_all add: any_dest_def)
  have fl: "length (filter is_step ?evs) \<le> length ?evs" by (rule length_filter_le)
  have "sizes_ok (map length (map event_bytes (filter is_step ?evs @ evs)))" if e: "evs \<in> set (all_batches p css)" for evs
  proof -
    obtain dss where "dss \<in> set css" "evs \<in> set (chunk_batches p dss)" using e by (auto simp: all_batches_def)
    then have "length evs \<le> ep_batch_size p" "set evs \<subseteq> set (chunk_events p dss)" "dss \<in> set css"
      using piece_length [of evs "ep_batch_size p" "chunk_events p dss"] by (auto simp: chunk_batches_def)
    then have "set evs \<subseteq> set ?evs" "length evs \<le> MAX_BATCH_SIZE" using n(2) by (auto simp: all_events_def)
    moreover from this have "length (filter is_step ?evs) + length evs < 2 ^ 32" using assms(3) fl by linarith
    ultimately show ?thesis by (intro events_sizes events_fit_sub [OF assms(2)]) auto
  qed
  then show "fits [] (map handed (all_batches p css))"
    unfolding fits_def using handed_steps [of "all_batches p css"] concat_batches [OF n(1), of css]
    by (auto simp: handed_def event_bytes_def [abs_def] comp_def)
  show "sizes_ok (map length (map event_bytes (filter is_step ?evs)))"
    using le_less_trans [OF fl, of "2 ^ 32"] assms(3) by (intro events_sizes events_fit_sub [OF assms(2)]) auto
qed

text \<open>
  What a client sees of the batches: its own events, and of the batches of the others the steps.
\<close>

definition node_view :: "nat \<Rightarrow> nat list \<Rightarrow> proxy_event list list \<Rightarrow> proxy_event list" where
  "node_view c rs evss = concat (map (\<lambda>(r, evs). if r = c then evs else filter is_step evs) (zip rs evss))"

lemma views_handed: "after_batches rs (map handed evss) V c = V c @ map event_bytes (node_view c rs evss)"
proof (induction rs arbitrary: evss V)
  case (Cons r rs)
  show ?case
  proof (cases evss)
    case (Cons evs evss')
    have "after_batches (r # rs) (map handed evss) V c = after_batches rs (map handed evss') (add_view r (handed evs) V) c"
      by (simp add: after_batches_def Cons)
    also have "\<dots> = V c @ map event_bytes (if r = c then evs else filter is_step evs) @ map event_bytes (node_view c rs evss')"
      by (simp add: Cons.IH add_view_def handed_def event_bytes_def)
    finally show ?thesis by (simp add: node_view_def Cons)
  qed (simp add: after_batches_def node_view_def)
qed (simp add: after_batches_def node_view_def)

lemma eb_node_run:
  assumes "length configs = Suc k" and "set (rs1 @ rs2 @ rs3) \<subseteq> {1..m}"
    and "length rs1 = length (all_batches p css)" and "length rs2 = m" and "length rs3 = m"
    and "any_dest p" and "\<forall>dss\<in>set css. chunk_good p (Suc k) dss" and "length (all_events p css) + MAX_BATCH_SIZE < 2 ^ 32"
  shows "\<exists>s' ended. eb_start smd_dsize configs (Suc m) (eb_manager p)
        (eb_init (Suc m) (Suc k) (rs1 @ rs2 @ rs3) (map chunk_bytes css @ [[]])) = (Inr (), s')
    \<and> sent_batches (eb_out s') = map (\<lambda>evs. batch_of (map event_bytes evs)) (all_batches p css)
    \<and> (\<forall>c\<in>set rs2. \<forall>i\<le>k. eb_received (eb_out s') c i = column (map event_row (filter is_step (all_events p css))) i)
    \<and> length ended = m \<and> set ended \<subseteq> {1..m}
    \<and> (\<forall>c\<in>set rs2. \<exists>ess. node_messages c (eb_out s') = map batch_of ess @ replicate (count_list ended c) [] \<and> list_all good_batch ess
        \<and> concat ess = map event_bytes (node_view c rs1 (all_batches p css)))"
proof -
  let ?wss = "map (\<lambda>dss. map handed (chunk_batches p dss)) css"
  have w: "concat ?wss = map handed (all_batches p css)"
    by (simp add: all_batches_def map_concat comp_def)
  have n: "0 < ep_batch_size p" using assms(6) by (simp add: any_dest_def)
  have "events_fit (all_events p css)"
    using assms(7) by (auto simp: all_events_def chunk_good_def events_fit_def list_all_iff)
  note fit = node_fits [OF assms(6) this assms(8)]
  have steps: "concat (map snd (concat ?wss)) = map event_row (filter is_step (all_events p css))"
    unfolding w handed_steps concat_batches [OF n] ..
  have "list_all2 (chunk_built smd_dsize configs (eb_manager p)) (map chunk_bytes css) ?wss"
    using chunk_built_run [OF _ assms(6,1)] assms(7) by (auto simp: list_all2_conv_all_nth)
  from eb_start_views [OF assms(1,2) _ assms(4,5) this]
  obtain s' ended where s': "eb_start smd_dsize configs (Suc m) (eb_manager p)
        (eb_init (Suc m) (Suc k) (rs1 @ rs2 @ rs3) (map chunk_bytes css @ [[]])) = (Inr (), s')"
      "sent_batches (eb_out s') = map (\<lambda>w. batch_of (fst w)) (map handed (all_batches p css))"
      "\<forall>c\<in>set rs2. \<forall>i\<le>k. eb_received (eb_out s') c i = column (map event_row (filter is_step (all_events p css))) i"
      "length ended = m" "set ended \<subseteq> {1..m}"
      "\<forall>c\<in>set rs2. \<exists>ess. node_messages c (eb_out s') = map batch_of ess @ replicate (count_list ended c) []
        \<and> list_all good_batch ess \<and> concat ess = after_batches rs1 (map handed (all_batches p css)) (\<lambda>_. []) c"
    unfolding steps row_event_step unfolding w using fit assms(3) by auto
  moreover have "sent_batches (eb_out s') = map (\<lambda>evs. batch_of (map event_bytes evs)) (all_batches p css)"
    using s'(2) by (simp add: handed_def comp_def)
  ultimately show ?thesis unfolding views_handed append_Nil by (intro exI [of _ s'] exI [of _ ended] conjI) blast+
qed

end
