(* ===== verification/SmdPipeline.thy ===== *)
theory SmdPipeline
  imports SmdWindows EventNode
begin

text \<open>
  The way of the small data from the files to the batches, for one event builder node: the reader
  cuts the files into windows, \<open>Smd0\<close> sends them as chunks, the event builder builds the events of
  each chunk. The batches hold the merge of the files.
\<close>

section \<open>\<open>Smd0\<close> with one client\<close>

definition plain_chunk :: "nat \<Rightarrow> chunk \<Rightarrow> bool" where
  "plain_chunk n ck \<longleftrightarrow> chunk_ok n ck \<and> ck_fake ck = []"

definition chunk_message :: "chunk \<Rightarrow> bytes" where
  "chunk_message ck = concat (ck_smds ck) @ footer_of (map length (ck_smds ck))"

text \<open>A client that has all step data so far misses none, so its chunk has no step data in front.\<close>

lemma repack_plain:
  assumes "plain_chunk n ck" and "length missing = n" and "\<forall>i<n. missing ! i = []"
  shows "repack_parallel ck missing False = Inr (chunk_message ck)"
    "repack_parallel ck missing True = Inr (chunk_bytes (replicate n []))"
proof -
  have m: "missing = replicate n []" using assms(2,3) by (intro nth_equalityI) simp_all
  have ck: "length (ck_smds ck) = n" "ck_fake ck = []" using assms(1) by (simp_all add: plain_chunk_def chunk_ok_def)
  have "map2 (\<lambda>sv smd. sv @ smd) (replicate n []) (ck_smds ck) = ck_smds ck"
    "map2 (\<lambda>sv smd. sv) (replicate n []) (ck_smds ck) = replicate n ([] :: bytes)"
    using ck(1) by (auto intro!: nth_equalityI)
  then show "repack_parallel ck missing False = Inr (chunk_message ck)"
    "repack_parallel ck missing True = Inr (chunk_bytes (replicate n []))"
    using ck m by (simp_all add: repack_parallel_def Let_def chunk_message_def chunk_bytes_def)
qed

text \<open>The node between two requests of its only client.\<close>

definition one_client :: "nat \<Rightarrow> smd0 \<Rightarrow> bool" where
  "one_client k s \<longleftrightarrow> smd0_ok k 1 s \<and> plain_chunk (Suc k) (s0_view s) \<and> (\<forall>i\<le>k. missed s 1 i = [])"

lemma serve_only:
  assumes s: "one_client k s" and rq: "s0_requests s = 1 # rs" and ck: "plain_chunk (Suc k) ck"
  shows "\<exists>s'. serve_chunk 2 ck s = (Inr (), s') \<and> one_client k s' \<and> s0_requests s' = rs
    \<and> received_chunks 1 (s0_out s') = received_chunks 1 (s0_out s) @ [chunk_message ck]"
proof -
  have st: "smd0_ok k 1 s" and ok: "chunk_ok (Suc k) ck" using s ck by (simp_all add: one_client_def plain_chunk_def)
  obtain s' b where r: "serve_chunk (Suc 1) ck s = (Inr (), s')" "smd0_ok k 1 s'" "s0_requests s' = rs" "s0_view s' = ck"
    "s0_out s' = s0_out s @ [ChunkSent 1 b]" "repack_parallel ck (map (missed s 1) [0..<Suc k]) False = Inr b"
    "\<forall>c\<in>{1..1}. \<forall>i\<le>k. missed s' c i = (if c = 1 then [] else missed s c i @ ck_steps ck ! i)"
    using serve_chunk_run [OF st rq _ ok] by auto
  have "b = chunk_message ck"
    using repack_plain(1) [OF ck, of "map (missed s 1) [0..<Suc k]"] s r(6) by (simp add: one_client_def less_Suc_eq_le del: upt_Suc)
  then show ?thesis
    using r ck by (intro exI [of _ s']) (simp add: one_client_def received_chunks_add numeral_2_eq_2)
qed

lemma serve_all_only:
  assumes "one_client k s" and "s0_requests s = replicate (length cks) 1 @ rs" and "list_all (plain_chunk (Suc k)) cks"
    and "served cks = cks"
  shows "\<exists>s'. serve_chunks 2 cks s = (Inr (), s') \<and> one_client k s' \<and> s0_requests s' = rs
    \<and> received_chunks 1 (s0_out s') = received_chunks 1 (s0_out s) @ map chunk_message cks"
  using assms
proof (induction cks arbitrary: s)
  case (Cons ck cks)
  obtain s1 where s1: "serve_chunk 2 ck s = (Inr (), s1)" "one_client k s1" "s0_requests s1 = replicate (length cks) 1 @ rs"
      "received_chunks 1 (s0_out s1) = received_chunks 1 (s0_out s) @ [chunk_message ck]"
    using serve_only [OF Cons.prems(1)] Cons.prems(2,3) by auto
  show ?case
  proof (cases "ck_terminate ck \<or> ck_endrun ck")
    case True
    then have "cks = []" using Cons.prems(4) by (simp add: served_Cons)
    then show ?thesis using s1 True by (simp add: eff_simps)
  next
    case False
    then show ?thesis using Cons.IH [OF s1(2,3)] Cons.prems(3,4) s1(1,4) by (auto simp: served_Cons eff_simps)
  qed
qed (simp add: eff_simps)

lemma smd0_one_client:
  assumes "list_all (plain_chunk (Suc k)) cks" and "served cks = cks"
  shows "\<exists>s'. smd0_start 2 1 cks (smd0_init 2 (Suc k) (replicate (length cks) 1 @ [1, 1])) = (Inr (), s')
    \<and> received_chunks 1 (s0_out s') = map chunk_message cks @ [chunk_bytes (replicate (Suc k) []), []]"
proof -
  let ?s = "smd0_init 2 (Suc k) (replicate (length cks) 1 @ [1, 1])"
  have "smd0_ok k 1 ?s" "\<forall>i\<le>k. missed ?s 1 i = []"
    using smd0_init_ok [of k 1] smd0_init_missed [of 1 1 _ k] by (simp_all add: numeral_2_eq_2)
  then have "one_client k ?s"
    by (simp add: one_client_def smd0_init_def plain_chunk_def chunk_ok_def del: replicate_Suc)
  then obtain s1 where s1: "serve_chunks 2 cks ?s = (Inr (), s1)" "one_client k s1" "s0_requests s1 = [1, 1]"
      "received_chunks 1 (s0_out s1) = map chunk_message cks"
    using serve_all_only [OF _ _ assms, of ?s "[1, 1]"] by (auto simp: smd0_init_def received_chunks_def)
  have st: "smd0_ok k 1 s1" using s1(2) by (simp add: one_client_def)
  obtain s2 b where s2: "send_missing (Suc 1) [] s1 = (Inr [], s2)" "s0_requests s2 = [1]"
      "s0_out s2 = s0_out s1 @ [ChunkSent 1 b]" "repack_parallel (s0_view s1) (map (missed s1 1) [0..<Suc k]) True = Inr b"
    using send_missing_run [OF st s1(3), of "[]"] by auto
  have b: "b = chunk_bytes (replicate (Suc k) [])"
    using repack_plain(2) [of "Suc k" "s0_view s1" "map (missed s1 1) [0..<Suc k]"] s1(2) s2(4)
    by (simp add: one_client_def less_Suc_eq_le del: upt_Suc replicate_Suc)
  let ?s' = "s2\<lparr>s0_requests := [], s0_out := s0_out s2 @ [NullSent 1]\<rparr>"
  have "smd0_start 2 1 cks ?s = (Inr (), ?s')"
    using s1(1) s2(1,2) by (simp add: smd0_start_def eff_simps kill_next_def s0_recv_def s0_isend_def numeral_2_eq_2)
  moreover have "received_chunks 1 (s0_out ?s') = map chunk_message cks @ [b, []]"
    using s1(4) s2(3) by (simp add: received_chunks_add flip: append_assoc)
  ultimately show ?thesis using b by blast
qed

section \<open>Windows as chunks of the event builder\<close>

lemma window_chunks:
  assumes "list_all2 chunk_shows Wss cks" and "\<forall>W\<in>set Wss. length W = n"
  shows "list_all (plain_chunk n) cks" "map chunk_message cks = map chunk_bytes Wss"
  using assms
  by (induction rule: list_all2_induct)
    (auto simp: chunk_shows_def plain_chunk_def chunk_ok_def chunk_message_def chunk_bytes_def)

lemma accepted_concat: "accepted p (concat rowss) = concat (map (accepted p) rowss)"
  by (induction rowss) (simp_all add: accepted_def)

text \<open>What holds of the files holds of their windows.\<close>

lemma windows_good:
  assumes good: "chunk_good p n Ds" and len: "\<forall>W\<in>set Wss. length W = n"
    and cols: "\<forall>i<n. concat (map (\<lambda>W. W ! i) Wss) = Ds ! i"
    and merge: "\<And>P. concat (map (\<lambda>W. merge_events (map (filter P) W)) Wss) = merge_events (map (filter P) Ds)"
  shows "concat (map (chunk_events p) Wss) = chunk_events p Ds" "\<forall>W\<in>set Wss. chunk_good p n W"
proof -
  let ?P = "selected (ep_timestamps p)"
  have fits: "length Ds = n" "\<forall>ds\<in>set Ds. list_all whole_dgram ds" "sizes_ok (map length (map concat Ds))" "positive Ds"
      "events_fit (chunk_events p Ds)" "user_answers p (merge_events (map (filter ?P) Ds))"
    using good by (simp_all add: chunk_good_def chunk_fits_def)
  show ev: "concat (map (chunk_events p) Wss) = chunk_events p Ds"
    using accepted_concat [of p "map (\<lambda>W. merge_events (map (filter ?P) W)) Wss"] merge [of ?P]
    by (simp add: chunk_events_def [abs_def] comp_def)
  have "chunk_good p n W" if W: "W \<in> set Wss" for W
  proof -
    obtain xs ys where split: "Wss = xs @ W # ys" using split_list [OF W] by blast
    have sub: "set (W ! i) \<subseteq> set (Ds ! i)" "length (concat (W ! i)) \<le> length (concat (Ds ! i))" if "i < n" for i
      unfolding cols [rule_format, OF that, symmetric] split by auto
    have Wn: "length W = n" using len W by blast
    have "list_all whole_dgram ds \<and> (\<forall>d\<in>set ds. 0 < dg_timestamp d)" if m: "ds \<in> set W" for ds
    proof -
      obtain i where i: "i < n" "ds = W ! i" using m Wn by (auto simp: in_set_conv_nth)
      then have "Ds ! i \<in> set Ds" using fits(1) by simp
      then show ?thesis using fits(2,4) sub(1) [OF i(1)] i(2) by (fastforce simp: list_all_iff positive_def)
    qed
    moreover have "sizes_ok (map length (map concat W))"
      using fits(1,3) Wn le_less_trans [OF sub(2)] by (auto simp: sizes_ok_def list_all_length)
    moreover have "events_fit (chunk_events p W)"
      using fits(5) W by (intro events_fit_sub [OF fits(5)]) (auto simp flip: ev)
    moreover have "user_answers p (merge_events (map (filter ?P) W))"
      using fits(6) W by (auto simp: user_answers_def simp flip: merge)
    ultimately show ?thesis using Wn by (auto simp: chunk_good_def chunk_fits_def positive_def)
  qed
  then show "\<forall>W\<in>set Wss. chunk_good p n W" by blast
qed

text \<open>The chunk in the end has no dgrams.\<close>

lemma merge_empty: "merge_events (replicate n []) = []"
  by (simp add: merge_events_step(2))

lemma empty_good: "n < 2 ^ 32 \<Longrightarrow> chunk_good p n (replicate n []) \<and> chunk_events p (replicate n []) = []"
  by (simp add: chunk_good_def chunk_fits_def sizes_ok_def positive_def chunk_events_def accepted_def events_fit_def
      user_answers_def merge_empty list_all_iff)

section \<open>From the files to the batches\<close>

text \<open>
  What a run of the event builder node sends: the batches, the step data of each client and file, and
  the messages of each client.
\<close>

definition batches_sent ::
    "eb_parms \<Rightarrow> 'c list \<Rightarrow> nat \<Rightarrow> nat list \<Rightarrow> bytes list \<Rightarrow> (bytes list \<times> (nat \<Rightarrow> nat \<Rightarrow> bytes) \<times> (nat \<Rightarrow> bytes list)) option" where
  "batches_sent p configs bd_size requests msgs =
     (case eb_start smd_dsize configs bd_size (eb_manager p) (eb_init bd_size (length configs) requests msgs) of
        (Inl e, s) \<Rightarrow> None | (Inr _, s) \<Rightarrow> Some (sent_batches (eb_out s), eb_received (eb_out s), \<lambda>c. node_messages c (eb_out s)))"

lemma pipeline_run:
  assumes "smd_man_init junk (Suc k) = Inr s" and "length Ds = Suc k" and "streams_ok (sc_rd C) Ds" and "plain_conf C"
    and "end_together Ds" and "dgrams_left Ds < n"
    and "any_dest p" and "chunk_good p (Suc k) Ds" and "length (chunk_events p Ds) + MAX_BATCH_SIZE < 2 ^ 32"
    and "length configs = Suc k"
  shows "\<exists>cks s1 s2 evss. smd0_chunks n C s = Some (cks, None, s1)
    \<and> smd0_start 2 1 cks (smd0_init 2 (Suc k) (replicate (length cks) 1 @ [1, 1])) = (Inr (), s2)
    \<and> concat evss = chunk_events p Ds
    \<and> (\<forall>rs1 rs2 rs3. set (rs1 @ rs2 @ rs3) \<subseteq> {1..m} \<and> length rs1 = length evss \<and> length rs2 = m \<and> length rs3 = m \<longrightarrow>
        (\<exists>rcv msgs ended. batches_sent p configs (Suc m) (rs1 @ rs2 @ rs3) (received_chunks 1 (s0_out s2))
            = Some (map (\<lambda>evs. batch_of (map event_bytes evs)) evss, rcv, msgs)
          \<and> (\<forall>c\<in>set rs2. \<forall>i\<le>k. rcv c i = column (map event_row (filter is_step (chunk_events p Ds))) i)
          \<and> length ended = m \<and> set ended \<subseteq> {1..m}
          \<and> (\<forall>c\<in>set rs2. \<exists>ess. msgs c = map batch_of ess @ replicate (count_list ended c) [] \<and> list_all good_batch ess
              \<and> concat ess = map event_bytes (node_view c rs1 evss))))"
proof -
  obtain cks Wss s1 where c: "smd0_chunks n C s = Some (cks, None, s1)" "list_all2 chunk_shows Wss cks"
      "\<forall>W\<in>set Wss. length W = Suc k" "\<forall>i<Suc k. concat (map (\<lambda>W. W ! i) Wss) = Ds ! i"
      "\<And>P. concat (map (\<lambda>W. merge_events (map (filter P) W)) Wss) = merge_events (map (filter P) Ds)"
    using smd0_chunks_all [of junk Ds s C n] assms(1-6) by auto
  note w = window_chunks [OF c(2,3)] and g = windows_good [OF assms(8) c(3-5)]
  obtain s2 where s2: "smd0_start 2 1 cks (smd0_init 2 (Suc k) (replicate (length cks) 1 @ [1, 1])) = (Inr (), s2)"
      "received_chunks 1 (s0_out s2) = map chunk_message cks @ [chunk_bytes (replicate (Suc k) []), []]"
    using smd0_one_client [OF w(1) smd0_chunks_served [OF c(1)]] by blast
  let ?css = "Wss @ [replicate (Suc k) []]" and ?evs = "chunk_events p Ds"
  have msgs: "received_chunks 1 (s0_out s2) = map chunk_bytes ?css @ [[]]" using s2(2) w(2) by simp
  have "Suc k < 2 ^ 32" using assms(2,8) by (auto simp: chunk_good_def chunk_fits_def sizes_ok_def)
  note e = empty_good [OF this, of p]
  have all: "all_events p ?css = ?evs" using g(1) e by (simp add: all_events_def)
  have good: "\<forall>dss\<in>set ?css. chunk_good p (Suc k) dss" using g(2) e by auto
  have cat: "concat (all_batches p ?css) = ?evs"
    using concat_batches [of p ?css] assms(7) all by (simp add: any_dest_def)
  have node: "\<exists>rcv msgs ended. batches_sent p configs (Suc m) (rs1 @ rs2 @ rs3) (received_chunks 1 (s0_out s2))
        = Some (map (\<lambda>evs. batch_of (map event_bytes evs)) (all_batches p ?css), rcv, msgs)
      \<and> (\<forall>c\<in>set rs2. \<forall>i\<le>k. rcv c i = column (map event_row (filter is_step ?evs)) i)
      \<and> length ended = m \<and> set ended \<subseteq> {1..m}
      \<and> (\<forall>c\<in>set rs2. \<exists>ess. msgs c = map batch_of ess @ replicate (count_list ended c) [] \<and> list_all good_batch ess
          \<and> concat ess = map event_bytes (node_view c rs1 (all_batches p ?css)))"
    if r: "set (rs1 @ rs2 @ rs3) \<subseteq> {1..m}" "length rs1 = length (all_batches p ?css)" "length rs2 = m" "length rs3 = m"
    for rs1 rs2 rs3
    using eb_node_run [OF assms(10) r assms(7) good] assms(9) unfolding all msgs batches_sent_def assms(10) by fastforce
  show ?thesis using c(1) s2(1) cat node by blast
qed

end
