(* ===== verification/EventIter.thy ===== *)
theory EventIter
  imports SmdManager EmRun
begin

text \<open>
  \<open>Events\<close> (\<^verbatim>\<open>psana/psana/psexp/events.py\<close>), the iterator behind the runs: in a serial run over
  the batches of the reader, in a parallel run over the batches that a bigdata node gets
  (\<open>BigDataNode\<close> of \<^verbatim>\<open>node.py\<close>). An event of which no dgram is there is passed over by a call of
  the method itself. Where the code makes this call inside its \<^verbatim>\<open>try\<close>, the end of the iteration that
  it raises is caught. The depth of the recursion of Python is left open. The bigdata files that are
  open pass from one batch to the next.
\<close>

section \<open>State\<close>

record events =
  ev_man :: "em option"
  ev_fds :: "nat \<Rightarrow> string"
  ev_chunk_ids :: "nat \<Rightarrow> nat"

definition new_batch :: "'c em_conf \<Rightarrow> bytes \<Rightarrow> events \<Rightarrow> pyexc + events" where
  "new_batch C batch s =
     (let fds = (case ev_man s of None \<Rightarrow> ev_fds s | Some m \<Rightarrow> em_fds m);
          ids = (case ev_man s of None \<Rightarrow> ev_chunk_ids s | Some m \<Rightarrow> em_chunk_ids m) in
      sbind (em_init C fds ids batch) (\<lambda>m. Inr (s\<lparr>ev_man := Some m, ev_fds := fds, ev_chunk_ids := ids\<rparr>)))"

text \<open>\<open>next(self._evt_man)\<close>, at first an iterator over nothing.\<close>

definition next_of_batch :: "'c em_conf \<Rightarrow> (events, bytes option list) eff" where
  "next_of_batch C s =
     (case ev_man s of None \<Rightarrow> (Inl StopIteration, s)
      | Some m \<Rightarrow> (case em_next C m of (r, m1) \<Rightarrow> (r, s\<lparr>ev_man := Some m1\<rparr>)))"

definition no_dgrams :: "bytes option list \<Rightarrow> bool" where
  "no_dgrams evt \<longleftrightarrow> list_all (\<lambda>d. d = None) evt"

section \<open>A parallel run\<close>

text \<open>
  What the event builder node answers to the requests of this node, in order; asking once more than
  it answers is waiting for good.
\<close>

record bd_node =
  bd_events :: events
  bd_answers :: "bytes list"

definition bd_get_smd :: "(bd_node, bytes) eff" where
  "bd_get_smd = (\<lambda>s. case bd_answers s of [] \<Rightarrow> (Inl Blocked, s) | b # bs \<Rightarrow> (Inr b, s\<lparr>bd_answers := bs\<rparr>))"

definition bd_next_of_batch :: "'c em_conf \<Rightarrow> (bd_node, bytes option list) eff" where
  "bd_next_of_batch C s = (case next_of_batch C (bd_events s) of (r, e) \<Rightarrow> (r, s\<lparr>bd_events := e\<rparr>))"

definition bd_new_batch :: "'c em_conf \<Rightarrow> bytes \<Rightarrow> (bd_node, unit) eff" where
  "bd_new_batch C batch s = (case new_batch C batch (bd_events s) of Inl e \<Rightarrow> (Inl e, s) | Inr v \<Rightarrow> (Inr (), s\<lparr>bd_events := v\<rparr>))"

text \<open>The handler for the end of a batch, up to the first event of the next one.\<close>

definition bd_ask :: "'c em_conf \<Rightarrow> (bd_node, bytes option list) eff" where
  "bd_ask C =
     ebind bd_get_smd (\<lambda>smd_batch.
       if smd_batch = [] then eraise StopIteration
       else eseq (bd_new_batch C smd_batch) (bd_next_of_batch C))"

partial_function (option) parallel_next ::
    "'c em_conf \<Rightarrow> bd_node \<Rightarrow> ((pyexc + bytes option list) \<times> bd_node) option" where
  "parallel_next C s =
     Option.bind
       (case bd_next_of_batch C s of
          (Inr evt, s1) \<Rightarrow> if no_dgrams evt then parallel_next C s1 else Some (Inr evt, s1)
        | (Inl e, s1) \<Rightarrow> Some (Inl e, s1))
       (\<lambda>(r, s1).
         (case r of
            Inr evt \<Rightarrow> Some (Inr evt, s1)
          | Inl e \<Rightarrow>
              (if e = StopIteration
               then (case bd_ask C s1 of
                       (Inl e2, s2) \<Rightarrow> Some (Inl e2, s2)
                     | (Inr evt, s2) \<Rightarrow> if no_dgrams evt then parallel_next C s2 else Some (Inr evt, s2))
               else Some (Inl e, s1))))"

text \<open>
  The loop of \<open>BigDataNode.start\<close>, for at most so many calls: the events it yields, and the exception
  that ends it. \<open>terminated i\<close> says whether the user has asked to terminate when event \<open>i\<close> is there;
  then the events are still taken, but not yielded.
\<close>

fun bd_start ::
    "nat \<Rightarrow> (nat \<Rightarrow> bool) \<Rightarrow> nat \<Rightarrow> 'c em_conf \<Rightarrow> bd_node \<Rightarrow> (bytes option list list \<times> pyexc \<times> bd_node) option" where
  "bd_start 0 terminated i C s = None"
| "bd_start (Suc n) terminated i C s =
     (case parallel_next C s of
        None \<Rightarrow> None
      | Some (Inl e, s1) \<Rightarrow> Some ([], e, s1)
      | Some (Inr evt, s1) \<Rightarrow>
          map_option (\<lambda>(evts, r). (if terminated i then evts else evt # evts, r)) (bd_start n terminated (Suc i) C s1))"

section \<open>A serial run\<close>

record serial_events =
  se_events :: events
  se_batches :: batch_iter
  se_man :: smd_man

record 'c serial_conf =
  sn_em :: "'c em_conf"
  sn_sm :: sm_conf
  sn_eb :: eb_parms
  sn_callback :: "eb_parms \<Rightarrow> batch_iter \<Rightarrow> pyexc + batch_iter"

definition se_next_of_batch :: "'c serial_conf \<Rightarrow> (serial_events, bytes option list) eff" where
  "se_next_of_batch C s = (case next_of_batch (sn_em C) (se_events s) of (r, e) \<Rightarrow> (r, s\<lparr>se_events := e\<rparr>))"

text \<open>\<open>next(self._batch_iter)\<close> and the event manager of its batch for destination 0\<close>

definition se_next_batch :: "'c serial_conf \<Rightarrow> serial_events \<Rightarrow> ((pyexc + unit) \<times> serial_events) option" where
  "se_next_batch C s =
     map_option (\<lambda>r. case r of
         Inl e \<Rightarrow> (Inl e, s)
       | Inr ((batch_dict, _), b) \<Rightarrow>
           (case sbind (dict_get batch_dict 0) (\<lambda>batch. new_batch (sn_em C) batch (se_events s)) of
              Inl e \<Rightarrow> (Inl e, s\<lparr>se_batches := b\<rparr>)
            | Inr v \<Rightarrow> (Inr (), s\<lparr>se_batches := b, se_events := v\<rparr>)))
       (batch_next (sn_callback C) (sn_eb C) (se_batches s))"

definition se_next_views :: "'c serial_conf \<Rightarrow> (serial_events, unit) eff" where
  "se_next_views C s =
     (case mn_next (sn_sm C) (se_man s) of
        (Inl e, m) \<Rightarrow> (Inl e, s\<lparr>se_man := m\<rparr>)
      | (Inr vs, m) \<Rightarrow> (Inr (), s\<lparr>se_man := m, se_batches := batch_iter_init vs\<rparr>))"

text \<open>
  Both handlers: the end of a batch asks the batch iterator, the end of that the reader. The flag to
  terminate is read at the start of every call.
\<close>

partial_function (option) serial_next ::
    "'c serial_conf \<Rightarrow> bool \<Rightarrow> serial_events \<Rightarrow> ((pyexc + bytes option list) \<times> serial_events) option" where
  "serial_next C terminated s =
     (if terminated then Some (Inl StopIteration, s)
      else Option.bind
       (case se_next_of_batch C s of
          (Inr evt, s1) \<Rightarrow> if no_dgrams evt then serial_next C terminated s1 else Some (Inr evt, s1)
        | (Inl e, s1) \<Rightarrow> Some (Inl e, s1))
       (\<lambda>(r, s1).
         (case r of
            Inr evt \<Rightarrow> Some (Inr evt, s1)
          | Inl e \<Rightarrow>
              (if e \<noteq> StopIteration then Some (Inl e, s1)
               else Option.bind
                 (Option.bind (se_next_batch C s1) (\<lambda>(r2, s2).
                    (case r2 of Inl e2 \<Rightarrow> Some (Inl e2, s2) | Inr _ \<Rightarrow> serial_next C terminated s2)))
                 (\<lambda>(r2, s2).
                   (case r2 of
                      Inr evt \<Rightarrow> Some (Inr evt, s2)
                    | Inl e2 \<Rightarrow>
                        (if e2 \<noteq> StopIteration then Some (Inl e2, s2)
                         else (case se_next_views C s2 of
                                 (Inl e3, s3) \<Rightarrow> Some (Inl e3, s3)
                               | (Inr _, s3) \<Rightarrow> serial_next C terminated s3))))))))"

end
