(* ===== verification/EventIterFacts.thy ===== *)
theory EventIterFacts
  imports EventIter
begin

text \<open>
  The events of a bigdata node: what the iterator gives is what the event managers of its batches
  give, batch after batch, until the message without data.
\<close>

section \<open>The events of a batch\<close>

text \<open>\<open>gives C m evts m'\<close>: the event manager \<open>m\<close> gives these events and stops, for good.\<close>

inductive gives :: "'c em_conf \<Rightarrow> em \<Rightarrow> bytes option list list \<Rightarrow> em \<Rightarrow> bool" for C where
  gives_stop: "em_next C m = (Inl StopIteration, m) \<Longrightarrow> gives C m [] m"
| gives_event: "em_next C m = (Inr evt, m1) \<Longrightarrow> gives C m1 evts m' \<Longrightarrow> gives C m (evt # evts) m'"

inductive_cases gives_NilE: "gives C m [] m'"
inductive_cases gives_ConsE: "gives C m (evt # evts) m'"

text \<open>An event without any dgram has no service and does not come out of an event manager.\<close>

lemma first_service_dgrams: "first_service C i evt = Inr v \<Longrightarrow> \<not> no_dgrams evt"
  by (induction C i evt rule: first_service.induct) (auto simp: no_dgrams_def)

lemma em_next_dgrams: "em_next C m = (Inr evt, m') \<Longrightarrow> \<not> no_dgrams evt"
  by (auto simp: em_next_def eff_simps split: if_splits prod.splits sum.splits dest: first_service_dgrams)

lemma gives_direct:
  assumes ok: "batch_ok C fc rows svc info fds"
    and serv: "\<forall>e<length rows. \<exists>v. first_service C 0 (direct_event C fc view rows svc info fds e) = Inr v"
  shows "em_at view rows svc info e s \<Longrightarrow> row_inv C fc rows svc info fds e s \<Longrightarrow> e \<le> length rows \<Longrightarrow>
    \<exists>t. gives C s (map (direct_event C fc view rows svc info fds) [e..<length rows]) t"
proof (induction "length rows - e" arbitrary: e s)
  case 0
  then have "em_next C s = (Inl StopIteration, s)" by (simp add: em_next_def eff_simps em_at_def)
  then show ?case using 0 by (auto intro: gives_stop)
next
  case (Suc n)
  then have e: "e < length rows" by simp
  obtain v where "first_service C 0 (direct_event C fc view rows svc info fds e) = Inr v" using serv e by blast
  then obtain t where t: "em_next C s = (Inr (direct_event C fc view rows svc info fds e), t)"
    "em_at view rows svc info (Suc e) t" "row_inv C fc rows svc info fds (Suc e) t"
    using em_next_run [OF ok e Suc.prems(1,2)] by blast
  have "n = length rows - Suc e" "Suc e \<le> length rows" using Suc.hyps(2) e by simp_all
  from Suc.hyps(1) [OF this(1) t(2,3) this(2)] show ?case
    using t(1) e by (auto simp: upt_conv_Cons intro: gives_event)
qed

section \<open>The events of a node\<close>

text \<open>The batches of the node, with the events of each, from the state of the files that the one before left.\<close>

inductive batches_give :: "'c em_conf \<Rightarrow> events \<Rightarrow> bytes list \<Rightarrow> bytes option list list list \<Rightarrow> bool" for C where
  batches_none: "batches_give C s [] []"
| batches_more: "batch \<noteq> [] \<Longrightarrow> new_batch C batch s = Inr s1 \<Longrightarrow> ev_man s1 = Some m \<Longrightarrow> gives C m evts m' \<Longrightarrow>
    evts \<noteq> [] \<Longrightarrow> batches_give C (s1\<lparr>ev_man := Some m'\<rparr>) batches evtss \<Longrightarrow>
    batches_give C s (batch # batches) (evts # evtss)"

text \<open>The events that are yielded.\<close>

definition yielded :: "(nat \<Rightarrow> bool) \<Rightarrow> nat \<Rightarrow> 'a list \<Rightarrow> 'a list" where
  "yielded terminated i evts = map snd (filter (\<lambda>(j, _). \<not> terminated j) (enumerate i evts))"

lemma yielded_simps [simp]:
  "yielded terminated i [] = []"
  "yielded terminated i (e # es) = (if terminated i then yielded terminated (Suc i) es else e # yielded terminated (Suc i) es)"
  by (simp_all add: yielded_def)

lemma yielded_append: "yielded terminated i (es @ fs) = yielded terminated i es @ yielded terminated (i + length es) fs"
  by (induction es arbitrary: i) auto

lemma yielded_all: "\<forall>j. \<not> terminated j \<Longrightarrow> yielded terminated i es = es"
  by (induction es arbitrary: i) auto

lemma next_of_batch_man: "next_of_batch C (s\<lparr>ev_man := Some m\<rparr>) = (case em_next C m of (r, m1) \<Rightarrow> (r, s\<lparr>ev_man := Some m1\<rparr>))"
  by (simp add: next_of_batch_def)

lemma parallel_next_event:
  assumes "em_next C m = (Inr evt, m1)"
  shows "parallel_next C \<lparr>bd_events = s\<lparr>ev_man := Some m\<rparr>, bd_answers = as\<rparr>
    = Some (Inr evt, \<lparr>bd_events = s\<lparr>ev_man := Some m1\<rparr>, bd_answers = as\<rparr>)"
  using assms em_next_dgrams [OF assms]
  by (subst parallel_next.simps) (simp add: bd_next_of_batch_def next_of_batch_man)

text \<open>A call at the end of a batch.\<close>

definition at_end :: "'c em_conf \<Rightarrow> events \<Rightarrow> bool" where
  "at_end C s \<longleftrightarrow> next_of_batch C s = (Inl StopIteration, s)"

lemma gives_at_end: "gives C m evts m' \<Longrightarrow> at_end C (s\<lparr>ev_man := Some m'\<rparr>)"
  by (induction rule: gives.induct) (simp_all add: at_end_def next_of_batch_man)

lemma parallel_next_ask:
  assumes "at_end C s"
  shows "parallel_next C \<lparr>bd_events = s, bd_answers = [] # as\<rparr> = Some (Inl StopIteration, \<lparr>bd_events = s, bd_answers = as\<rparr>)"
    and "batch \<noteq> [] \<Longrightarrow> new_batch C batch s = Inr s1 \<Longrightarrow> ev_man s1 = Some m \<Longrightarrow> em_next C m = (Inr evt, m1) \<Longrightarrow>
      parallel_next C \<lparr>bd_events = s, bd_answers = batch # as\<rparr>
        = Some (Inr evt, \<lparr>bd_events = s1\<lparr>ev_man := Some m1\<rparr>, bd_answers = as\<rparr>)"
  using assms em_next_dgrams [of C m evt m1]
  by (subst parallel_next.simps,
      simp add: bd_next_of_batch_def bd_ask_def bd_get_smd_def bd_new_batch_def next_of_batch_def at_end_def eff_simps)+

lemma gives_loop:
  assumes "gives C m evts m'"
    and "bd_start n terminated (i + length evts) C \<lparr>bd_events = s\<lparr>ev_man := Some m'\<rparr>, bd_answers = as\<rparr> = Some (rest, r)"
  shows "bd_start (length evts + n) terminated i C \<lparr>bd_events = s\<lparr>ev_man := Some m\<rparr>, bd_answers = as\<rparr>
    = Some (yielded terminated i evts @ rest, r)"
  using assms
proof (induction arbitrary: i rule: gives.induct)
  case (gives_event m evt m1 evts m')
  then show ?case using parallel_next_event [OF gives_event.hyps(1), of s as] by simp
qed simp

lemma batches_loop:
  assumes "batches_give C s batches evtss" and "at_end C s"
  shows "\<exists>t. bd_start (Suc (length (concat evtss))) terminated i C \<lparr>bd_events = s, bd_answers = batches @ [] # rest\<rparr>
      = Some (yielded terminated i (concat evtss), StopIteration, t)"
  using assms
proof (induction arbitrary: i rule: batches_give.induct)
  case (batches_none s)
  then show ?case by (simp add: parallel_next_ask(1))
next
  case (batches_more batch s s1 m evts m' batches evtss)
  obtain evt evts' where evts: "evts = evt # evts'" using batches_more.hyps(5) by (cases evts) auto
  obtain t where t: "bd_start (Suc (length (concat evtss))) terminated (Suc i + length evts') C
        \<lparr>bd_events = s1\<lparr>ev_man := Some m'\<rparr>, bd_answers = batches @ [] # rest\<rparr>
      = Some (yielded terminated (Suc i + length evts') (concat evtss), StopIteration, t)"
    using batches_more.IH [OF gives_at_end [OF batches_more.hyps(4)], of "Suc i + length evts'"] by blast
  obtain m1 where m1: "em_next C m = (Inr evt, m1)" "gives C m1 evts' m'"
    using batches_more.hyps(4) unfolding evts by (auto elim: gives_ConsE)
  show ?case
    using parallel_next_ask(2) [OF batches_more.prems batches_more.hyps(1-3) m1(1)] gives_loop [OF m1(2) t] evts
    by (simp add: yielded_append)
qed

lemma bd_start_run:
  assumes "batches_give C s batches evtss" and "ev_man s = None"
  shows "\<exists>t. bd_start (Suc (length (concat evtss))) terminated 0 C \<lparr>bd_events = s, bd_answers = batches @ [[]]\<rparr>
    = Some (yielded terminated 0 (concat evtss), StopIteration, t)"
  using assms by (intro batches_loop) (simp_all add: at_end_def next_of_batch_def)

end
