(* ===== verification/SerialFacts.thy ===== *)
theory SerialFacts
  imports SmdPipeline EventIterFacts
begin

text \<open>
  A serial run with the default callback: the reader's windows become batches in the same process,
  and the iterator gives the events of the batches of all windows.
\<close>

section \<open>The views of the manager\<close>

text \<open>\<open>for views in smdr_man\<close>: the windows that are shown until the iteration stops.\<close>

inductive views_run :: "sm_conf \<Rightarrow> smd_man \<Rightarrow> bytes list list list \<Rightarrow> bool" for C where
  views_end: "mn_next C m = (Inl StopIteration, m') \<Longrightarrow> views_run C m []"
| views_more: "mn_next C m = (Inr (map concat W), m1) \<Longrightarrow> views_run C m1 Wss \<Longrightarrow> views_run C m (W # Wss)"

lemma mn_next_complete:
  assumes r: "reader_left Ds rems (mn_reader s)" and C: "streams_ok (sc_rd C) Ds" "plain_conf C" and c: "is_complete (mn_reader s)"
  shows "\<exists>L s1. mn_next C s = (Inr (map (concat \<circ> window L) rems), s1)
    \<and> reader_left Ds (map (after_window L) rems) (mn_reader s1) \<and> window_shown L rems (mn_reader s1)"
proof -
  obtain L r where v: "mn_view (smd0_n_events C) (sc_intg_stream_id C) s = (Inr (), s\<lparr>mn_reader := r\<rparr>)"
      "reader_left Ds (map (after_window L) rems) r" "window_shown L rems r"
    using mn_view_run [OF r C c] by blast
  have nf: "\<not> rc_fakestep (sc_rd C)" "\<not> limit_reached C s"
    using C by (simp_all add: streams_ok_def plain_conf_def limit_reached_def)
  have "show_all (sc_rd C) False r = (map (concat \<circ> window L) rems, r)"
    using show_all_run [OF _ nf(1), of r False] v(3) by (simp add: window_shown_def)
  then show ?thesis
    using v c nf(2) by (auto simp: mn_next_def mn_complete_def mn_show_def eff_simps)
qed

lemma mn_next_run:
  assumes r: "reader_left Ds rems (mn_reader s)" and C: "streams_ok (sc_rd C) Ds" "plain_conf C"
  shows "\<exists>rem\<in>set rems. rem = [] \<Longrightarrow> \<exists>s1. mn_next C s = (Inl StopIteration, s1)"
    and "\<forall>rem\<in>set rems. rem \<noteq> [] \<Longrightarrow> \<exists>L s1. mn_next C s = (Inr (map (concat \<circ> window L) rems), s1)
      \<and> reader_left Ds (map (after_window L) rems) (mn_reader s1) \<and> window_shown L rems (mn_reader s1)"
proof -
  obtain r' where get: "mn_get C s = (Inr (), s\<lparr>mn_reader := r'\<rparr>)" "reader_left Ds rems r'"
      "is_complete r' \<longleftrightarrow> (\<forall>rem\<in>set rems. rem \<noteq> [])" "is_complete (mn_reader s) \<Longrightarrow> \<forall>rem\<in>set rems. rem \<noteq> []"
    using manager_get [OF r C(1)] by blast
  have full: "\<not> limit_reached C s" using C(2) by (simp add: plain_conf_def limit_reached_def)
  show "\<exists>s1. mn_next C s = (Inl StopIteration, s1)" if "\<exists>rem\<in>set rems. rem = []"
    using get(1,3,4) full that by (auto simp: mn_next_def mn_complete_def eff_simps)
  show "\<exists>L s1. mn_next C s = (Inr (map (concat \<circ> window L) rems), s1)
      \<and> reader_left Ds (map (after_window L) rems) (mn_reader s1) \<and> window_shown L rems (mn_reader s1)"
    if ne: "\<forall>rem\<in>set rems. rem \<noteq> []"
  proof (cases "is_complete (mn_reader s)")
    case True
    then show ?thesis using mn_next_complete [OF r C] by blast
  next
    case False
    let ?s = "s\<lparr>mn_reader := r'\<rparr>"
    have "\<not> limit_reached C ?s" using C(2) by (simp add: plain_conf_def limit_reached_def)
    then have "mn_next C s = mn_next C ?s"
      using False get(1,3) ne full by (simp add: mn_next_def mn_complete_def eff_simps)
    then show ?thesis using mn_next_complete [of Ds rems ?s C] get(2,3) C ne by simp
  qed
qed

lemma views_run_windows:
  assumes "streams_ok (sc_rd C) Ds" and "plain_conf C"
  shows "reader_left Ds rems (mn_reader s) \<Longrightarrow> \<exists>Wss. views_run C s Wss \<and> cut_up rems Wss"
proof (induction "dgrams_left rems" arbitrary: rems s rule: less_induct)
  case less
  note n = mn_next_run [OF less.prems assms]
  show ?case
  proof (cases "\<exists>rem\<in>set rems. rem = []")
    case True
    then show ?thesis using n(1) by (auto intro: views_end cut_end)
  next
    case False
    then obtain L s1 where s1: "mn_next C s = (Inr (map (concat \<circ> window L) rems), s1)"
        "reader_left Ds (map (after_window L) rems) (mn_reader s1)" "window_shown L rems (mn_reader s1)"
      using n(2) by blast
    then have L: "L \<le> end_time rems" "\<exists>rem\<in>set rems. window L rem \<noteq> []" by (simp_all add: window_shown_def)
    obtain Wss where W: "views_run C s1 Wss" "cut_up (map (after_window L) rems) Wss"
      using less.hyps [OF after_window_less [OF L(2)] s1(2)] by blast
    have "views_run C s (map (window L) rems # Wss)" using s1(1) W(1) by (intro views_more) simp_all
    moreover have "cut_up rems (map (window L) rems # Wss)"
      using False L W(2) by (intro cut_window) auto
    ultimately show ?thesis by blast
  qed
qed

section \<open>The batches of a window\<close>

text \<open>Events whose bytes the builder can make and read back, of which at most the last ends the run.\<close>

definition serial_events_ok :: "eb_parms \<Rightarrow> nat \<Rightarrow> proxy_event list \<Rightarrow> bool" where
  "serial_events_ok p n evs \<longleftrightarrow> events_fit evs \<and> (\<forall>ev\<in>set evs. pe_destination ev = 0 \<and> length (pe_pydgrams ev) = n)
     \<and> (\<forall>ev\<in>set (butlast evs). pe_service ev \<noteq> TransitionId_EndRun)"

lemma butlast_take_drop:
  "set (butlast (take n xs)) \<subseteq> set (butlast xs)" "set (butlast (drop n xs)) \<subseteq> set (butlast xs)"
proof -
  have "butlast (a @ b) = (if b = [] then butlast a else a @ butlast b)" for a b :: "'a list" by (simp add: butlast_append)
  from this [of "take n xs" "drop n xs"] have e: "butlast xs = (if drop n xs = [] then butlast (take n xs) else take n xs @ butlast (drop n xs))"
    by simp
  show "set (butlast (take n xs)) \<subseteq> set (butlast xs)" unfolding e using in_set_butlastD by fastforce
  show "set (butlast (drop n xs)) \<subseteq> set (butlast xs)" unfolding e by auto
qed

lemma serial_events_sub:
  assumes "serial_events_ok p n evs"
  shows "serial_events_ok p n (take k evs)" "serial_events_ok p n (drop k evs)"
  using assms events_fit_take [of evs k] butlast_take_drop [of k evs]
  by (auto simp: serial_events_ok_def dest: in_set_takeD in_set_dropD)

lemma from_bytes_event:
  assumes "event_ok ev" and "length (pe_pydgrams ev) = Suc k" and "Suc k < 2 ^ 32"
  shows "\<exists>e. from_bytes (Suc k) (event_bytes ev) = Inr e"
proof -
  let ?ds = "event_row ev"
  have len: "length ?ds = Suc k" using assms(2) by (simp add: event_row_def)
  then have sz: "sizes_ok (map length ?ds)" "?ds \<noteq> []" using assms by (auto simp: sizes_ok_def event_ok_def list_all_iff)
  show ?thesis
    using pf_init_view [OF sz(1), of "concat ?ds"] split_footer_of [OF sz] footer_of_ne len
    by (auto simp: from_bytes_def event_bytes_def row_event_def)
qed

lemma keep_all: "length es = length pes \<Longrightarrow> \<forall>pe\<in>set (butlast pes). pe_service pe \<noteq> TransitionId_EndRun \<Longrightarrow>
    keep_events (\<lambda>_. True) (zip es pes) = pes"
proof (induction es pes rule: list_induct2)
  case (Cons e es pe pes)
  then show ?case by (cases pes) auto
qed simp

lemma smap_run: "(\<And>x. x \<in> set xs \<Longrightarrow> \<exists>e. f x = Inr (e, x)) \<Longrightarrow> \<exists>es. smap f xs = Inr (zip es xs) \<and> length es = length xs"
proof (induction xs)
  case (Cons x xs)
  obtain e where "f x = Inr (e, x)" using Cons.prems by auto
  moreover obtain es where "smap f xs = Inr (zip es xs)" "length es = length xs" using Cons by auto
  ultimately show ?case by (intro exI [of _ "e # es"]) simp
qed simp

text \<open>A build that does not fill its batch has used up the streams.\<close>

lemma build_loop_short:
  "build_loop p cn bs = Inr (evs, bs1) \<Longrightarrow> ep_intg_stream_id p \<le> -1 \<Longrightarrow> cn + length evs < ep_batch_size p \<Longrightarrow> \<not> has_more bs1"
proof (induction p cn bs arbitrary: evs bs1 rule: build_loop.induct)
  case (1 p cn bs)
  show ?case
  proof (cases "has_more bs")
    case False
    then show ?thesis using "1.prems" by (subst (asm) build_loop.simps) auto
  next
    case True
    have go: "cn < ep_batch_size p \<and> has_more bs" using True "1.prems"(3) by simp
    obtain ev bs2 where b: "build_proxy_event p bs = Inr (ev, bs2)"
      using "1.prems"(1) go by (subst (asm) build_loop.simps) (auto split: sum.splits prod.splits)
    show ?thesis
    proof (cases ev)
      case None
      then have "build_loop p cn bs2 = Inr (evs, bs1)" using "1.prems"(1) go b by (subst (asm) build_loop.simps) simp
      then show ?thesis using "1.IH"(1) [OF go b refl None] "1.prems"(2,3) by blast
    next
      case (Some e)
      have n: "counted p e = Inr 1" using "1.prems"(2) by (simp add: counted_def)
      then obtain evs2 where r: "build_loop p (cn + 1) bs2 = Inr (evs2, bs1)" "evs = e # evs2"
        using "1.prems"(1) go b Some by (subst (asm) build_loop.simps) (auto split: sum.splits prod.splits)
      then show ?thesis using "1.IH"(2) [OF go b refl Some n] "1.prems"(2,3) by simp
    qed
  qed
qed

lemma default_callback_run:
  assumes left: "left_to_build p bs evs" and p: "any_dest p" "ep_n_configs p = Suc k" "Suc k < 2 ^ 32"
    and ok: "serial_events_ok p (Suc k) evs"
  shows "\<exists>bs'. default_callback p \<lparr>bi_bufs = bs, bi_iter = None, bi_proxy = []\<rparr>
      = Inr \<lparr>bi_bufs = bs', bi_iter = None, bi_proxy = take (ep_batch_size p) evs\<rparr>
    \<and> left_to_build p bs' (drop (ep_batch_size p) evs) \<and> (evs = [] \<longrightarrow> \<not> has_more bs')"
proof -
  let ?n = "ep_batch_size p" and ?b = "take (ep_batch_size p) evs"
  have par: "ep_intg_stream_id p \<le> -1" "0 < ?n" "?n \<le> MAX_BATCH_SIZE" using p(1) by (simp_all add: any_dest_def)
  obtain bs' where b: "build_loop p 0 bs = Inr (?b, bs')" "left_to_build p bs' (drop ?n evs)"
    using left_to_build_run [OF left par(1)] by blast
  have "length (filter is_step ?b) \<le> MAX_BATCH_SIZE"
    using par(3) le_trans [OF length_filter_le [of is_step ?b]] by simp
  then have ev: "build_events p bs = Inr (?b, bs')" using b(1) par(3) by (simp add: build_events_def sbind_def)
  note okb = serial_events_sub(1) [OF ok, of ?n]
  have "\<exists>e. sbind (as_bytearray (pe_pydgrams x)) (\<lambda>b. sbind (from_bytes (ep_n_configs p) b) (\<lambda>e. Inr (e, x))) = Inr (e, x)"
    if "x \<in> set ?b" for x
  proof -
    have x: "event_ok x" "length (pe_pydgrams x) = Suc k"
      using okb that by (auto simp: serial_events_ok_def events_fit_def list_all_iff)
    then show ?thesis using as_bytearray_ok [OF x(1)] from_bytes_event [OF x p(3)] p(2) by (auto simp: sbind_def)
  qed
  from smap_run [of ?b, OF this] obtain es where es: "length es = length ?b"
      "smap (\<lambda>ev. sbind (as_bytearray (pe_pydgrams ev)) (\<lambda>b. sbind (from_bytes (ep_n_configs p) b) (\<lambda>e. Inr (e, ev)))) ?b
        = Inr (zip es ?b)" by blast
  then have "eb_events p bs = Inr (zip es ?b, bs')" using ev by (simp add: eb_events_def sbind_def)
  moreover have "keep_events (\<lambda>_. True) (zip es ?b) = ?b"
    using keep_all [OF es(1)] okb by (simp add: serial_events_ok_def)
  moreover have "evs = [] \<longrightarrow> \<not> has_more bs'" using build_loop_short [OF b(1) par(1)] par(2) by simp
  ultimately show ?thesis using b(2) by (simp add: default_callback_def events_callback_def sbind_def)
qed

lemma left_has_more: "left_to_build p bs evs \<Longrightarrow> evs \<noteq> [] \<Longrightarrow> has_more bs"
proof -
  assume "left_to_build p bs evs" "evs \<noteq> []"
  then obtain ss where ss: "list_all2 (stands (ep_timestamps p)) bs ss" "accepted p (merge_events ss) \<noteq> []"
    by (auto simp: left_to_build_def)
  have "\<exists>s\<in>set ss. s \<noteq> []"
  proof (rule ccontr)
    assume "\<not> (\<exists>s\<in>set ss. s \<noteq> [])"
    then show False using ss(2) by (simp add: merge_events_step(2) accepted_def)
  qed
  then show "has_more bs" using stands_has_more [OF ss(1)] by blast
qed

lemma batch_next_run:
  assumes left: "left_to_build p bs evs" and p: "any_dest p" "ep_n_configs p = Suc k" "Suc k < 2 ^ 32"
    and ok: "serial_events_ok p (Suc k) evs"
  shows "evs = [] \<Longrightarrow> batch_next default_callback p \<lparr>bi_bufs = bs, bi_iter = None, bi_proxy = []\<rparr> = Some (Inl StopIteration)"
    and "evs \<noteq> [] \<Longrightarrow> \<exists>d sd bs'. batch_next default_callback p \<lparr>bi_bufs = bs, bi_iter = None, bi_proxy = []\<rparr>
        = Some (Inr ((d, sd), \<lparr>bi_bufs = bs', bi_iter = None, bi_proxy = []\<rparr>))
      \<and> dict_get d 0 = Inr (batch_of (map event_bytes (take (ep_batch_size p) evs)))
      \<and> left_to_build p bs' (drop (ep_batch_size p) evs)"
proof -
  let ?b = "\<lparr>bi_bufs = bs, bi_iter = None, bi_proxy = []\<rparr>" and ?n = "ep_batch_size p"
  obtain bs' where c: "default_callback p ?b = Inr \<lparr>bi_bufs = bs', bi_iter = None, bi_proxy = take ?n evs\<rparr>"
      "left_to_build p bs' (drop ?n evs)" "evs = [] \<longrightarrow> \<not> has_more bs'"
    using default_callback_run [OF assms] by blast
  show "batch_next default_callback p ?b = Some (Inl StopIteration)" if "evs = []"
  proof (cases "has_more bs")
    case True
    have "collect_proxies default_callback p ?b = collect_proxies default_callback p \<lparr>bi_bufs = bs', bi_iter = None, bi_proxy = []\<rparr>"
      using True c(1) that by (subst collect_proxies.simps) simp
    also have "\<dots> = Some (Inr \<lparr>bi_bufs = bs', bi_iter = None, bi_proxy = []\<rparr>)"
      using c(3) that by (subst collect_proxies.simps) simp
    finally show ?thesis by (simp add: batch_next_def sbind_def)
  next
    case False
    then have "collect_proxies default_callback p ?b = Some (Inr ?b)" by (subst collect_proxies.simps) simp
    then show ?thesis by (simp add: batch_next_def sbind_def)
  qed
  show "\<exists>d sd bs'. batch_next default_callback p ?b = Some (Inr ((d, sd), \<lparr>bi_bufs = bs', bi_iter = None, bi_proxy = []\<rparr>))
      \<and> dict_get d 0 = Inr (batch_of (map event_bytes (take ?n evs))) \<and> left_to_build p bs' (drop ?n evs)" if ne: "evs \<noteq> []"
  proof -
    let ?e = "take ?n evs"
    have n: "0 < ?n" "?n \<le> MAX_BATCH_SIZE" using p(1) by (simp_all add: any_dest_def)
    then have e: "?e \<noteq> []" "length ?e \<le> MAX_BATCH_SIZE" using ne by auto
    have ok': "serial_events_ok p (Suc k) ?e" by (rule serial_events_sub(1) [OF ok])
    then have fit: "events_fit ?e" and dest: "\<forall>ev\<in>set ?e. pe_destination ev = 0" by (simp_all add: serial_events_ok_def)
    have more: "has_more bs" using left_has_more [OF left ne] .
    have "collect_proxies default_callback p ?b = collect_proxies default_callback p \<lparr>bi_bufs = bs', bi_iter = None, bi_proxy = ?e\<rparr>"
      using more c(1) by (subst collect_proxies.simps) simp
    also have "\<dots> = Some (Inr \<lparr>bi_bufs = bs', bi_iter = None, bi_proxy = ?e\<rparr>)"
      using e(1) by (subst collect_proxies.simps) simp
    finally have "batch_next default_callback p ?b
        = Some (Inr ((batches_by_dest (\<lambda>ev. [event_bytes ev]) ?e, batches_by_dest step_bytes ?e),
            \<lparr>bi_bufs = bs', bi_iter = None, bi_proxy = []\<rparr>))"
      using gen_batches_run [OF fit e(2)] e(1) by (simp add: batch_next_def sbind_def)
    moreover have "filter (\<lambda>ev. pe_destination ev = 0) ?e = ?e" "\<exists>ev\<in>set ?e. pe_destination ev = 0"
      using dest hd_in_set [OF e(1)] by (auto simp: filter_id_conv)
    then have "dict_get (batches_by_dest (\<lambda>ev. [event_bytes ev]) ?e) 0 = Inr (batch_of (map event_bytes ?e))"
      by (simp add: dict_get_def map_of_batches)
    ultimately show ?thesis using c(2) by blast
  qed
qed

section \<open>The iterator of a serial run\<close>

text \<open>\<open>for evt in events\<close> while nobody asks to terminate, for at most so many calls.\<close>

fun serial_loop :: "nat \<Rightarrow> 'c serial_conf \<Rightarrow> serial_events \<Rightarrow> (bytes option list list \<times> pyexc \<times> serial_events) option" where
  "serial_loop 0 C s = None"
| "serial_loop (Suc n) C s =
     (case serial_next C False s of
        None \<Rightarrow> None
      | Some (Inl e, s1) \<Rightarrow> Some ([], e, s1)
      | Some (Inr evt, s1) \<Rightarrow> map_option (\<lambda>(evts, r). (evt # evts, r)) (serial_loop n C s1))"

lemma serial_event:
  assumes "em_next (sn_em C) m = (Inr evt, m1)"
  shows "serial_next C False (s\<lparr>se_events := e\<lparr>ev_man := Some m\<rparr>\<rparr>) = Some (Inr evt, s\<lparr>se_events := e\<lparr>ev_man := Some m1\<rparr>\<rparr>)"
  using assms em_next_dgrams [OF assms]
  by (subst serial_next.simps) (simp add: se_next_of_batch_def next_of_batch_man)

lemma serial_new_batch:
  assumes "at_end (sn_em C) (se_events s)" and "batch_next (sn_callback C) (sn_eb C) (se_batches s) = Some (Inr ((d, sd), b))"
    and "dict_get d 0 = Inr batch" and "new_batch (sn_em C) batch (se_events s) = Inr e" and "ev_man e = Some m"
    and "em_next (sn_em C) m = (Inr evt, m1)"
  shows "serial_next C False s = Some (Inr evt, s\<lparr>se_batches := b, se_events := e\<lparr>ev_man := Some m1\<rparr>\<rparr>)"
proof -
  have "se_next_of_batch C s = (Inl StopIteration, s)" using assms(1) by (simp add: se_next_of_batch_def at_end_def)
  moreover have "se_next_batch C s = Some (Inr (), s\<lparr>se_batches := b, se_events := e\<rparr>)"
    using assms(2-4) by (simp add: se_next_batch_def sbind_def)
  moreover have "e\<lparr>ev_man := Some m\<rparr> = e" using assms(5) by simp
  then have "serial_next C False (s\<lparr>se_batches := b, se_events := e\<rparr>)
      = Some (Inr evt, s\<lparr>se_batches := b, se_events := e\<lparr>ev_man := Some m1\<rparr>\<rparr>)"
    using serial_event [OF assms(6), where s = "s\<lparr>se_batches := b\<rparr>" and e = e] by simp
  ultimately show ?thesis by (subst serial_next.simps) simp
qed

lemma serial_no_batch:
  assumes "at_end (sn_em C) (se_events s)" and "batch_next (sn_callback C) (sn_eb C) (se_batches s) = Some (Inl StopIteration)"
  shows "mn_next (sn_sm C) (se_man s) = (Inr vs, m) \<Longrightarrow>
      serial_next C False s = serial_next C False (s\<lparr>se_man := m, se_batches := batch_iter_init vs\<rparr>)"
    and "mn_next (sn_sm C) (se_man s) = (Inl StopIteration, m) \<Longrightarrow>
      serial_next C False s = Some (Inl StopIteration, s\<lparr>se_man := m\<rparr>)"
proof -
  have n: "se_next_of_batch C s = (Inl StopIteration, s)" "se_next_batch C s = Some (Inl StopIteration, s)"
    using assms by (simp_all add: se_next_of_batch_def at_end_def se_next_batch_def)
  show "serial_next C False s = serial_next C False (s\<lparr>se_man := m, se_batches := batch_iter_init vs\<rparr>)"
    if "mn_next (sn_sm C) (se_man s) = (Inr vs, m)"
    using n that by (subst serial_next.simps) (simp add: se_next_views_def)
  show "serial_next C False s = Some (Inl StopIteration, s\<lparr>se_man := m\<rparr>)"
    if "mn_next (sn_sm C) (se_man s) = (Inl StopIteration, m)"
    using n that by (subst serial_next.simps) (simp add: se_next_views_def)
qed

lemma serial_gives_loop:
  assumes "gives (sn_em C) m evts m'" and "serial_loop n C (s\<lparr>se_events := e\<lparr>ev_man := Some m'\<rparr>\<rparr>) = Some (rest, r)"
  shows "serial_loop (length evts + n) C (s\<lparr>se_events := e\<lparr>ev_man := Some m\<rparr>\<rparr>) = Some (evts @ rest, r)"
  using assms
proof (induction rule: gives.induct)
  case (gives_event m evt m1 evts m')
  then show ?case using serial_event [OF gives_event.hyps(1), where s = s and e = e] by simp
qed simp

text \<open>The parameters of a serial run.\<close>

definition serial_run :: "nat \<Rightarrow> 'c serial_conf \<Rightarrow> bool" where
  "serial_run k C \<longleftrightarrow> sn_callback C = default_callback \<and> any_dest (sn_eb C) \<and> ep_n_configs (sn_eb C) = Suc k \<and> Suc k < 2 ^ 32"

definition made_batches :: "proxy_event list list \<Rightarrow> bytes list" where
  "made_batches evss = map (\<lambda>evs. batch_of (map event_bytes evs)) evss"

text \<open>The rest of a window: its batches come first, then what comes from the state without a batch.\<close>

lemma serial_window:
  assumes C: "serial_run k C"
    and rest: "\<And>s evtss. se_man s = man \<Longrightarrow> at_end (sn_em C) (se_events s) \<Longrightarrow>
      batch_next (sn_callback C) (sn_eb C) (se_batches s) = Some (Inl StopIteration) \<Longrightarrow>
      batches_give (sn_em C) (se_events s) later evtss \<Longrightarrow>
      \<exists>t. serial_loop (Suc (length (concat evtss))) C s = Some (concat evtss, StopIteration, t)"
  shows "se_man s = man \<Longrightarrow> at_end (sn_em C) (se_events s) \<Longrightarrow>
    se_batches s = \<lparr>bi_bufs = bs, bi_iter = None, bi_proxy = []\<rparr> \<Longrightarrow> left_to_build (sn_eb C) bs evs \<Longrightarrow>
    serial_events_ok (sn_eb C) (Suc k) evs \<Longrightarrow>
    batches_give (sn_em C) (se_events s) (made_batches (pieces (ep_batch_size (sn_eb C)) evs) @ later) evtss \<Longrightarrow>
    \<exists>t. serial_loop (Suc (length (concat evtss))) C s = Some (concat evtss, StopIteration, t)"
proof (induction "ep_batch_size (sn_eb C)" evs arbitrary: s bs evtss rule: pieces.induct)
  case (1 evs)
  let ?p = "sn_eb C" and ?n = "ep_batch_size (sn_eb C)"
  have p: "any_dest ?p" "ep_n_configs ?p = Suc k" "Suc k < 2 ^ 32" "sn_callback C = default_callback" "0 < ?n"
    using C by (simp_all add: serial_run_def any_dest_def)
  note bn = batch_next_run [OF "1.prems"(4) p(1-3) "1.prems"(5)]
  show ?case
  proof (cases "evs = []")
    case True
    have "pieces ?n evs = []" using True by (subst pieces.simps) simp
    then show ?thesis using rest [OF "1.prems"(1,2)] bn(1) True "1.prems"(3,6) p(4) by (simp add: made_batches_def)
  next
    case False
    obtain d sd bs' where b: "batch_next default_callback ?p \<lparr>bi_bufs = bs, bi_iter = None, bi_proxy = []\<rparr>
        = Some (Inr ((d, sd), \<lparr>bi_bufs = bs', bi_iter = None, bi_proxy = []\<rparr>))"
      "dict_get d 0 = Inr (batch_of (map event_bytes (take ?n evs)))" "left_to_build ?p bs' (drop ?n evs)"
      using bn(2) [OF False] by blast
    have "pieces ?n evs = take ?n evs # pieces ?n (drop ?n evs)" using False p(5) by (subst pieces.simps) simp
    then have "batches_give (sn_em C) (se_events s)
        (batch_of (map event_bytes (take ?n evs)) # made_batches (pieces ?n (drop ?n evs)) @ later) evtss"
      using "1.prems"(6) by (simp add: made_batches_def)
    then obtain e m evts m' evtss' where g: "evtss = evts # evtss'"
        "new_batch (sn_em C) (batch_of (map event_bytes (take ?n evs))) (se_events s) = Inr e" "ev_man e = Some m"
        "gives (sn_em C) m evts m'" "evts \<noteq> []"
        "batches_give (sn_em C) (e\<lparr>ev_man := Some m'\<rparr>) (made_batches (pieces ?n (drop ?n evs)) @ later) evtss'"
      by (auto elim: batches_give.cases)
    obtain evt evts' m1 where m1: "evts = evt # evts'" "em_next (sn_em C) m = (Inr evt, m1)" "gives (sn_em C) m1 evts' m'"
      using g(4,5) by (cases evts) (auto elim: gives_ConsE)
    let ?s = "s\<lparr>se_batches := \<lparr>bi_bufs = bs', bi_iter = None, bi_proxy = []\<rparr>\<rparr>"
    let ?s' = "?s\<lparr>se_events := e\<lparr>ev_man := Some m'\<rparr>\<rparr>"
    have "\<exists>t. serial_loop (Suc (length (concat evtss'))) C ?s' = Some (concat evtss', StopIteration, t)"
      using False p(5) "1.prems"(1) gives_at_end [OF g(4)] b(3) serial_events_sub(2) [OF "1.prems"(5)] g(6)
      by (intro "1.hyps" [where bs = bs']) simp_all
    then obtain t where t: "serial_loop (Suc (length (concat evtss'))) C ?s' = Some (concat evtss', StopIteration, t)" by blast
    have "serial_next C False s = Some (Inr evt, ?s\<lparr>se_events := e\<lparr>ev_man := Some m1\<rparr>\<rparr>)"
      using serial_new_batch [OF "1.prems"(2) _ b(2) g(2,3) m1(2)] b(1) "1.prems"(3) p(4) by simp
    then show ?thesis using serial_gives_loop [OF m1(3) t] g(1) m1(1) by simp
  qed
qed

definition window_ok :: "eb_parms \<Rightarrow> nat \<Rightarrow> bytes list list \<Rightarrow> bool" where
  "window_ok p n W \<longleftrightarrow> chunk_good p n W \<and> serial_events_ok p n (chunk_events p W)"

lemma serial_windows:
  assumes "views_run (sn_sm C) man Wss" and "serial_run k C" and "\<forall>W\<in>set Wss. window_ok (sn_eb C) (Suc k) W"
    and "se_man s = man" and "at_end (sn_em C) (se_events s)"
    and "batch_next (sn_callback C) (sn_eb C) (se_batches s) = Some (Inl StopIteration)"
    and "batches_give (sn_em C) (se_events s) (made_batches (concat (map (chunk_batches (sn_eb C)) Wss))) evtss"
  shows "\<exists>t. serial_loop (Suc (length (concat evtss))) C s = Some (concat evtss, StopIteration, t)"
  using assms
proof (induction arbitrary: s evtss rule: views_run.induct)
  case (views_end m m')
  then have "evtss = []" by (auto simp: made_batches_def elim: batches_give.cases)
  then show ?case using serial_no_batch(2) [OF views_end.prems(4,5)] views_end.hyps views_end.prems(3) by simp
next
  case (views_more m W m1 Wss)
  let ?p = "sn_eb C"
  let ?s = "s\<lparr>se_man := m1, se_batches := batch_iter_init (map concat W)\<rparr>"
  have good: "chunk_good ?p (Suc k) W" "serial_events_ok ?p (Suc k) (chunk_events ?p W)"
    using views_more.prems(2) by (simp_all add: window_ok_def)
  then have "positive (map (filter (selected (ep_timestamps ?p))) W)" by (auto simp: chunk_good_def positive_def)
  then have left: "left_to_build ?p (map mypybuf_init (map concat W)) (chunk_events ?p W)"
    unfolding chunk_events_def using good(1)
    by (intro left_to_build_init) (auto simp: chunk_good_def chunk_fits_def)
  have give: "batches_give (sn_em C) (se_events ?s)
      (made_batches (pieces (ep_batch_size ?p) (chunk_events ?p W)) @ made_batches (concat (map (chunk_batches ?p) Wss))) evtss"
    using views_more.prems(6) by (simp add: made_batches_def chunk_batches_def [of ?p W])
  have "\<exists>t. serial_loop (Suc (length (concat evtss))) C ?s = Some (concat evtss, StopIteration, t)"
  proof (rule serial_window [OF views_more.prems(1) _ _ _ _ left good(2) give, of m1])
    show "\<exists>t. serial_loop (Suc (length (concat evtss))) C s = Some (concat evtss, StopIteration, t)"
      if "se_man s = m1" "at_end (sn_em C) (se_events s)"
        "batch_next (sn_callback C) (sn_eb C) (se_batches s) = Some (Inl StopIteration)"
        "batches_give (sn_em C) (se_events s) (made_batches (concat (map (chunk_batches ?p) Wss))) evtss" for s evtss
      using that views_more.prems(1,2) by (intro views_more.IH) simp_all
  qed (use views_more.prems(4) in \<open>simp_all add: batch_iter_init_def\<close>)
  moreover have "serial_next C False s = serial_next C False ?s"
    using serial_no_batch(1) [OF views_more.prems(4,5)] views_more.hyps(1) views_more.prems(3) by simp
  ultimately show ?case by simp
qed

text \<open>All windows of finished files.\<close>

lemma windows_ok:
  assumes "chunk_good p n Ds" and "\<forall>W\<in>set Wss. chunk_good p n W" and "concat (map (chunk_events p) Wss) = chunk_events p Ds"
    and "any_dest p" and "\<forall>ev\<in>set (butlast (chunk_events p Ds)). pe_service ev \<noteq> TransitionId_EndRun"
  shows "\<forall>W\<in>set Wss. window_ok p n W"
proof
  fix W
  assume W: "W \<in> set Wss"
  obtain xs ys where split: "Wss = xs @ W # ys" using split_list [OF W] by blast
  have good: "chunk_good p n W" using assms(2) W by blast
  have "set (butlast (chunk_events p W)) \<subseteq> set (butlast (chunk_events p Ds))"
    unfolding assms(3) [symmetric] split by (auto simp: butlast_append dest: in_set_butlastD)
  moreover have "pe_destination ev = 0 \<and> length (pe_pydgrams ev) = n" if "ev \<in> set (chunk_events p W)" for ev
    using event_dgram(1) [OF _ that, of n] good accepted_event [of ev p] that assms(4) judge_Some [of p "pe_pydgrams ev" ev]
    by (auto simp: chunk_good_def event_row_def chunk_events_def any_dest_def)
  ultimately show "window_ok p n W" using good assms(5) by (auto simp: window_ok_def serial_events_ok_def chunk_good_def)
qed

lemma serial_run_run:
  assumes "smd_man_init junk (Suc k) = Inr man" and "length Ds = Suc k" and "streams_ok (sc_rd (sn_sm C)) Ds" and "plain_conf (sn_sm C)"
    and "end_together Ds" and "serial_run k C" and "chunk_good (sn_eb C) (Suc k) Ds"
    and "\<forall>ev\<in>set (butlast (chunk_events (sn_eb C) Ds)). pe_service ev \<noteq> TransitionId_EndRun"
    and "ev_man e = None"
  shows "\<exists>evss. concat evss = chunk_events (sn_eb C) Ds \<and> (\<forall>evs\<in>set evss. evs \<noteq> [] \<and> length evs \<le> ep_batch_size (sn_eb C))
    \<and> (\<forall>evtss. batches_give (sn_em C) e (made_batches evss) evtss \<longrightarrow>
        (\<exists>t. serial_loop (Suc (length (concat evtss))) C \<lparr>se_events = e, se_batches = batch_iter_init [], se_man = man\<rparr>
          = Some (concat evtss, StopIteration, t)))"
proof -
  let ?p = "sn_eb C"
  let ?s = "\<lparr>se_events = e, se_batches = batch_iter_init [], se_man = man\<rparr>"
  obtain r where "smd_reader_init junk (length Ds) = Inr r" "reader_left Ds Ds r" using reader_left_init [OF assms(3)] by blast
  then have "reader_left Ds Ds (mn_reader man)" using assms(1,2) by (auto simp: smd_man_init_def)
  from views_run_windows [OF assms(3,4) this] obtain Wss where W: "views_run (sn_sm C) man Wss" "cut_up Ds Wss" by blast
  have shown: "shown_part Ds = Ds"
    using assms(5) shown_part_all streams_ordered [OF assms(3)] by (auto simp: end_together_def)
  note parts = cut_up_parts [OF W(2) streams_ordered [OF assms(3)], unfolded shown assms(2)]
  note g = windows_good [OF assms(7) parts(3,2,1)]
  have ok: "\<forall>W\<in>set Wss. window_ok ?p (Suc k) W"
    using assms(6,8) g by (intro windows_ok [OF assms(7)]) (auto simp: serial_run_def)
  have n: "0 < ep_batch_size ?p" using assms(6) by (simp add: serial_run_def any_dest_def)
  have "concat (concat (map (chunk_batches ?p) Wss)) = chunk_events ?p Ds"
    using concat_batches [OF n, of Wss] g(1) by (simp add: all_batches_def all_events_def)
  moreover have "\<forall>evs\<in>set (concat (map (chunk_batches ?p) Wss)). evs \<noteq> [] \<and> length evs \<le> ep_batch_size ?p"
    using piece_length by (fastforce simp: chunk_batches_def)
  moreover have "at_end (sn_em C) (se_events ?s)" using assms(9) by (simp add: at_end_def next_of_batch_def)
  moreover have "batch_next (sn_callback C) ?p (se_batches ?s) = Some (Inl StopIteration)"
    by (simp add: batch_next_def batch_iter_init_def has_more_def sbind_def collect_proxies.simps)
  ultimately show ?thesis
    using serial_windows [OF W(1) assms(6) ok, of ?s] by (intro exI [of _ "concat (map (chunk_batches ?p) Wss)"]) simp
qed

end
