(* ===== verification/SerialEvents.thy ===== *)
theory SerialEvents
  imports SerialFacts EmBatch
begin

text \<open>
  A serial run without bigdata files: the event manager finds in a batch of the event builder the
  dgrams that the builder put there, so the iterator of the run gives the merged events of the files.
\<close>

section \<open>The pass over a batch\<close>

text \<open>
  What \<^verbatim>\<open>dgram.Dgram\<close> does with the bytes of a dgram, wherever they lie in a view: it reads the
  size and the service of their header.
\<close>

definition reads_header :: "'c em_conf \<Rightarrow> bytes \<Rightarrow> bool" where
  "reads_header C d \<longleftrightarrow> (\<forall>i pre post. \<exists>di. ec_parse C (ec_configs C i) (pre @ d @ post) (length pre) = Inr di
     \<and> di_size di = length d \<and> di_service di = dg_service d)"

lemma reads_headerE:
  assumes "reads_header C d"
  obtains di where "ec_parse C (ec_configs C i) (pre @ d @ post) (length pre) = Inr di" "di_size di = length d"
    "di_service di = dg_service d"
  using assms unfolding reads_header_def by blast

text \<open>The cells of a row of dgrams that begins at an offset, and of the rows of a batch.\<close>

fun row_cells :: "nat \<Rightarrow> bytes list \<Rightarrow> cell list" where
  "row_cells off [] = []"
| "row_cells off (d # ds) =
     (if d = [] then new_cell\<lparr>ce_cutoff := False\<rparr> else new_cell\<lparr>ce_smd_offset := off, ce_smd_size := length d\<rparr>)
     # row_cells (off + length d) ds"

fun batch_cells :: "nat \<Rightarrow> bytes list list \<Rightarrow> cell list list" where
  "batch_cells off [] = []"
| "batch_cells off (row # rows) = row_cells off row # batch_cells (off + length (row_event row)) rows"

lemma length_batch_cells [simp]: "length (batch_cells off rows) = length rows"
  by (induction rows arbitrary: off) simp_all

lemma map_upt_nth: "length xs = n \<Longrightarrow> map (\<lambda>i. f (xs ! i)) [0..<n] = map f xs"
  by (rule nth_equalityI) simp_all

lemma scan_row_small:
  assumes "ec_n_files C = 0" and "\<forall>d\<in>set ds. d = [] \<or> reads_header C d"
  shows "sn_offset st = length pre \<Longrightarrow> \<exists>sv. scan_row C ids (pre @ concat ds @ post) i_evt i (map length ds) st
    = Inr (row_cells (length pre) ds, st\<lparr>sn_offset := length pre + length (concat ds), sn_service := sv\<rparr>)"
  using assms(2)
proof (induction ds arbitrary: pre i st)
  case Nil
  then show ?case by (auto intro!: exI [of _ "sn_service st"])
next
  case (Cons d ds)
  let ?view = "pre @ concat (d # ds) @ post"
  let ?c = "if d = [] then new_cell\<lparr>ce_cutoff := False\<rparr> else new_cell\<lparr>ce_smd_offset := length pre, ce_smd_size := length d\<rparr>"
  obtain sv where sv: "scan_dgram C ids ?view i_evt i (length d) st = Inr (?c, st\<lparr>sn_service := sv\<rparr>)"
  proof (cases "d = []")
    case True
    then show ?thesis using that [of "sn_service st"] by (simp add: scan_dgram_def)
  next
    case False
    then have "reads_header C d" using Cons.prems(2) by simp
    then obtain di where "ec_parse C (ec_configs C i) ?view (length pre) = Inr di" "di_size di = length d"
      by (auto elim: reads_headerE [where pre = pre and post = "concat ds @ post" and i = i])
    then show ?thesis
      using that [of "di_service di"] False Cons.prems(1) assms(1) by (simp add: scan_dgram_def Let_def)
  qed
  let ?st = "st\<lparr>sn_service := sv, sn_offset := length pre + length d\<rparr>"
  obtain sv' where "scan_row C ids ((pre @ d) @ concat ds @ post) i_evt (Suc i) (map length ds) ?st
      = Inr (row_cells (length (pre @ d)) ds, ?st\<lparr>sn_offset := length (pre @ d) + length (concat ds), sn_service := sv'\<rparr>)"
    using Cons.IH [of ?st "pre @ d" "Suc i"] Cons.prems(2) by auto
  then show ?case using sv Cons.prems(1) by (auto simp: add.assoc intro!: exI [of _ sv'])
qed

text \<open>A row that an event of the batch is made of.\<close>

definition small_row :: "'c em_conf \<Rightarrow> bytes list \<Rightarrow> bool" where
  "small_row C row \<longleftrightarrow> length row = ec_n_smd_files C \<and> sizes_ok (map length row)
     \<and> (\<forall>d\<in>set row. d = [] \<or> reads_header C d \<and> dg_service d \<noteq> 0) \<and> (\<exists>d\<in>set row. d \<noteq> [])"

lemma event_sizes_small:
  assumes "small_row C row" and "get_size i pf = Inr (length (row_event row))"
  shows "event_sizes C (pre @ row_event row @ post) pf i (length pre) = Inr (map length row)"
  using assms by (intro event_sizes_row) (simp_all add: small_row_def)

lemma scan_events_small:
  assumes "ec_n_files C = 0"
  shows "\<forall>row\<in>set rows. small_row C row \<Longrightarrow> sn_offset st = length pre \<Longrightarrow>
    view = pre @ concat (map row_event rows) @ footer pf \<Longrightarrow>
    \<forall>j<length rows. get_size (i + j) pf = Inr (length (row_event (rows ! j))) \<Longrightarrow>
    \<exists>svc st'. scan_events C ids view pf (length rows) i st = Inr (zip (batch_cells (length pre) rows) svc, st')
      \<and> length svc = length rows"
proof (induction rows arbitrary: i st pre)
  case Nil
  then show ?case by simp
next
  case (Cons row rows)
  let ?rest = "footer_of (map length row) @ concat (map row_event rows) @ footer pf"
  have row: "small_row C row" using Cons.prems(1) by simp
  have view: "view = pre @ row_event row @ concat (map row_event rows) @ footer pf" using Cons.prems(3) by simp
  then have sz: "event_sizes C view pf i (length pre) = Inr (map length row)"
    using event_sizes_small [OF row] Cons.prems(4) by force
  obtain sv where scan: "scan_row C ids (pre @ concat row @ ?rest) i 0 (map length row) (st\<lparr>sn_service := 0\<rparr>)
      = Inr (row_cells (length pre) row, st\<lparr>sn_offset := length pre + length (concat row), sn_service := sv\<rparr>)"
    using scan_row_small [OF assms, of row "st\<lparr>sn_service := 0\<rparr>" pre ids ?rest i 0] row Cons.prems(2)
    by (auto simp: small_row_def)
  have view': "view = pre @ concat row @ ?rest" using view by (simp add: row_event_def)
  let ?st = "st\<lparr>sn_service := sv, sn_offset := length (pre @ row_event row)\<rparr>"
  have len: "length (row_event row) = length (concat row) + n_bytes * (ec_n_smd_files C + 1)"
    using row by (simp add: row_event_def small_row_def length_footer_of mult.commute)
  have "\<exists>svc st'. scan_events C ids view pf (length rows) (Suc i) ?st = Inr (zip (batch_cells (length (pre @ row_event row)) rows) svc, st')
      \<and> length svc = length rows"
  proof (rule Cons.IH)
    show "\<forall>j<length rows. get_size (Suc i + j) pf = Inr (length (row_event (rows ! j)))"
      using Cons.prems(4) by force
  qed (use Cons.prems(1,3) in simp_all)
  then obtain svc st' where rest: "scan_events C ids view pf (length rows) (Suc i) ?st
      = Inr (zip (batch_cells (length pre + length (row_event row)) rows) svc, st')" "length svc = length rows" by auto
  have "sn_offset st < length view - length (footer pf)"
    using Cons.prems(2) view len by (simp add: n_bytes_def)
  then show ?case
    using sz Cons.prems(2) scan [folded view'] rest len by (auto simp: add.assoc intro!: exI [of _ "sv # svc"])
qed

lemma em_init_small:
  assumes "ec_n_files C = 0" and "\<forall>row\<in>set rows. small_row C row" and "rows \<noteq> []" and "sizes_ok (map length (map row_event rows))"
  shows "\<exists>m svc. em_init C fds ids (batch_of (map row_event rows)) = Inr m
    \<and> em_at (batch_of (map row_event rows)) (batch_cells 0 rows) svc (em_chunkinfo m) 0 m \<and> length svc = length rows"
proof -
  let ?view = "concat (map row_event rows) @ footer_of (map length (map row_event rows))"
  let ?pf = "\<lparr>n_packets = length rows, footer = footer_of (map length (map row_event rows)), pf_view = Some ?view\<rparr>"
  have view: "batch_of (map row_event rows) = ?view" using assms(3) by (simp add: batch_of_def)
  have init: "pf_init 0 (Some ?view) = Inr ?pf" using pf_init_view [OF assms(4)] by simp
  have sizes: "\<forall>j<length rows. get_size (0 + j) ?pf = Inr (length (row_event (rows ! j)))"
    using get_size_footer_of [OF assms(4), of ?pf] by simp
  obtain svc st where scan: "scan_events C ids ?view ?pf (length rows) 0 scan_init = Inr (zip (batch_cells 0 rows) svc, st)"
    "length svc = length rows"
    using scan_events_small [OF assms(1,2) _ _ sizes, of scan_init "[]" ?view ids] by (auto simp: scan_init_def)
  show ?thesis
    using init scan unfolding view by (auto simp: em_init_def em_at_def intro!: exI [of _ svc])
qed

section \<open>The events of a batch\<close>

definition shown_dgram :: "bytes \<Rightarrow> bytes option" where
  "shown_dgram d = (if d = [] then None else Some d)"

text \<open>What a cell shows of the view.\<close>

definition cell_dgram :: "bytes \<Rightarrow> cell \<Rightarrow> bytes option" where
  "cell_dgram view c =
     (if 0 < ce_smd_size c then Some (slice (ce_smd_offset c) (ce_smd_offset c + ce_smd_size c) view) else None)"

lemma row_cells_show:
  "map (cell_dgram (pre @ concat ds @ post)) (row_cells (length pre) ds) = map shown_dgram ds
    \<and> (\<forall>c\<in>set (row_cells (length pre) ds). ce_new_chunk c = 0)"
proof (induction ds arbitrary: pre)
  case (Cons d ds)
  from Cons.IH [of "pre @ d"] show ?case
    by (simp add: cell_dgram_def shown_dgram_def slice_def new_cell_def)
qed simp

lemma batch_cells_show:
  "e < length rows \<Longrightarrow> map (cell_dgram (pre @ concat (map row_event rows) @ post)) (batch_cells (length pre) rows ! e)
      = map shown_dgram (rows ! e)
    \<and> (\<forall>c\<in>set (batch_cells (length pre) rows ! e). ce_new_chunk c = 0)"
proof (induction rows arbitrary: pre e)
  case (Cons row rows)
  show ?case
  proof (cases e)
    case 0
    then show ?thesis
      using row_cells_show [of pre row "footer_of (map length row) @ concat (map row_event rows) @ post"]
      by (simp add: row_event_def [of row])
  next
    case (Suc e')
    then show ?thesis using Cons.IH [of e' "pre @ row_event row"] Cons.prems by simp
  qed
qed simp

lemma next_dgrams_small:
  assumes "ec_n_files C = 0" and "\<forall>c\<in>set (cells ! e). ce_new_chunk c = 0"
  shows "em_at view cells svc info e s \<Longrightarrow> \<forall>i\<in>set is. i < length (cells ! e) \<Longrightarrow>
    \<exists>t. next_dgrams C is s = (Inr (map (\<lambda>i. cell_dgram view (cells ! e ! i)) is), t) \<and> em_at view cells svc info e t"
proof (induction "is" arbitrary: s)
  case (Cons i "is")
  let ?s = "s\<lparr>em_chunk_indices := (em_chunk_indices s)(i := em_chunk_indices s i + 1)\<rparr>"
  have at: "em_at view cells svc info e ?s" using Cons.prems(1) by (simp add: em_at_def)
  have "next_dgram C i s = (Inr (cell_dgram view (cells ! e ! i)), ?s)"
    using assms Cons.prems by (auto simp: next_dgram_def eff_simps em_at_def cell_dgram_def Let_def)
  then show ?case using Cons.IH [OF at] Cons.prems(2) by (auto simp: eff_simps)
qed (simp add: eff_simps)

lemma first_service_small:
  "\<forall>d\<in>set row. d = [] \<or> reads_header C d \<and> dg_service d \<noteq> 0 \<Longrightarrow> \<exists>d\<in>set row. d \<noteq> [] \<Longrightarrow>
    \<exists>v. first_service C i (map shown_dgram row) = Inr v"
proof (induction row arbitrary: i)
  case (Cons d row)
  show ?case
  proof (cases "d = []")
    case True
    then show ?thesis using Cons by (auto simp: shown_dgram_def)
  next
    case False
    then have "reads_header C d" "dg_service d \<noteq> 0" using Cons.prems(1) by auto
    obtain di where "ec_parse C (ec_configs C i) ([] @ d @ []) (length ([] :: bytes)) = Inr di" "di_service di = dg_service d"
      using reads_headerE [OF \<open>reads_header C d\<close>] by blast
    then show ?thesis using False \<open>dg_service d \<noteq> 0\<close> by (simp add: shown_dgram_def)
  qed
qed simp

lemma gives_small:
  assumes "ec_n_files C = 0" and "\<forall>row\<in>set rows. small_row C row" and "rows \<noteq> []"
  shows "em_at (batch_of (map row_event rows)) (batch_cells 0 rows) svc info e s \<Longrightarrow> e \<le> length rows \<Longrightarrow>
    length svc = length rows \<Longrightarrow> \<exists>t. gives C s (map (map shown_dgram) (drop e rows)) t"
proof (induction "length rows - e" arbitrary: e s)
  case 0
  have "em_next C s = (Inl StopIteration, s)" using 0 by (simp add: em_next_def eff_simps em_at_def)
  then show ?case using 0 by (auto intro: gives_stop)
next
  case (Suc n)
  let ?view = "batch_of (map row_event rows)" and ?row = "rows ! e"
  have e: "e < length rows" using Suc.hyps(2) by simp
  have row: "small_row C ?row" using assms(2) e by simp
  have view: "?view = [] @ concat (map row_event rows) @ footer_of (map length (map row_event rows))"
    using assms(3) by (simp add: batch_of_def)
  have cells: "map (cell_dgram ?view) (batch_cells 0 rows ! e) = map shown_dgram ?row"
      "\<forall>c\<in>set (batch_cells 0 rows ! e). ce_new_chunk c = 0"
    using batch_cells_show [OF e, of "[]" "footer_of (map length (map row_event rows))"] view by simp_all
  have len: "length (batch_cells 0 rows ! e) = ec_n_smd_files C"
    using arg_cong [OF cells(1), of length] row by (simp add: small_row_def)
  obtain t where t: "next_dgrams C [0..<ec_n_smd_files C] s
      = (Inr (map (\<lambda>i. cell_dgram ?view (batch_cells 0 rows ! e ! i)) [0..<ec_n_smd_files C]), t)"
    "em_at ?view (batch_cells 0 rows) svc info e t"
    using next_dgrams_small [where cells = "batch_cells 0 rows" and e = e, OF assms(1) cells(2) Suc.prems(1), of "[0..<ec_n_smd_files C]"]
      len by auto
  have "map (\<lambda>i. cell_dgram ?view (batch_cells 0 rows ! e ! i)) [0..<ec_n_smd_files C] = map shown_dgram ?row"
    using map_upt_nth [OF len, of "cell_dgram ?view"] cells(1) by (rule trans)
  then have evt: "get_next_evt C s = (Inr (map shown_dgram ?row), t\<lparr>em_i_evt := Suc e\<rparr>)"
    using t by (simp add: get_next_evt_def eff_simps em_at_def)
  obtain v where v: "first_service C 0 (map shown_dgram ?row) = Inr v"
    using first_service_small [of ?row C 0] row by (auto simp: small_row_def)
  obtain t1 where t1: "em_next C s = (Inr (map shown_dgram ?row), t1)" "em_at ?view (batch_cells 0 rows) svc info (Suc e) t1"
    using evt v t(2) Suc.prems(1) e by (cases "v = TransitionId_L1Accept") (auto simp: em_next_def eff_simps em_at_def)
  have "n = length rows - Suc e" "Suc e \<le> length rows" using Suc.hyps(2) e by simp_all
  from Suc.hyps(1) [OF this(1) t1(2) this(2) Suc.prems(3)] obtain t' where
    "gives C t1 (map (map shown_dgram) (drop (Suc e) rows)) t'" by blast
  then show ?case using gives_event [OF t1(1)] e by (auto simp: Cons_nth_drop_Suc [symmetric])
qed

text \<open>All batches.\<close>

lemma batches_give_small:
  assumes "ec_n_files C = 0"
  shows "\<forall>rows\<in>set rowss. rows \<noteq> [] \<and> (\<forall>row\<in>set rows. small_row C row) \<and> sizes_ok (map length (map row_event rows)) \<Longrightarrow>
    batches_give C s (map (\<lambda>rows. batch_of (map row_event rows)) rowss) (map (map (map shown_dgram)) rowss)"
proof (induction rowss arbitrary: s)
  case Nil
  then show ?case by (simp add: batches_none)
next
  case (Cons rows rowss)
  let ?fds = "case ev_man s of None \<Rightarrow> ev_fds s | Some m \<Rightarrow> em_fds m"
    and ?ids = "case ev_man s of None \<Rightarrow> ev_chunk_ids s | Some m \<Rightarrow> em_chunk_ids m"
  have rows: "\<forall>row\<in>set rows. small_row C row" "rows \<noteq> []" "sizes_ok (map length (map row_event rows))" using Cons.prems by simp_all
  obtain m svc where m: "em_init C ?fds ?ids (batch_of (map row_event rows)) = Inr m"
      "em_at (batch_of (map row_event rows)) (batch_cells 0 rows) svc (em_chunkinfo m) 0 m" "length svc = length rows"
    using em_init_small [OF assms rows] by blast
  obtain m' where g: "gives C m (map (map shown_dgram) rows) m'"
    using gives_small [OF assms rows(1,2) m(2) _ m(3)] by auto
  let ?s = "s\<lparr>ev_man := Some m, ev_fds := ?fds, ev_chunk_ids := ?ids\<rparr>"
  have "new_batch C (batch_of (map row_event rows)) s = Inr ?s" using m(1) by (simp add: new_batch_def sbind_def)
  moreover have "batch_of (map row_event rows) \<noteq> []" using rows(2) by (simp add: batch_of_Nil)
  ultimately show ?case
    using batches_more [OF _ _ _ g _ Cons.IH [of "?s\<lparr>ev_man := Some m'\<rparr>"]] Cons.prems rows(2) by simp
qed

section \<open>The events of the run\<close>

lemma merged_row_dgram:
  assumes "list_all ordered ss" and "row \<in> set (merge_events ss)"
  shows "\<exists>d. Some d \<in> set row"
proof -
  obtain t where t: "t \<in> set (all_times ss)" "row = map (dgram_with t) ss"
    using assms by (auto simp: merge_events_ordered)
  then obtain s d where s: "s \<in> set ss" "d \<in> set s" "dg_timestamp d = t" by (auto simp: all_times_def)
  then have "dgram_with t s \<noteq> None" unfolding dgram_with_def by (auto simp: find_None_iff)
  then show ?thesis using t(2) s(1) by (metis imageI list.set_map not_Some_eq)
qed

lemma event_small:
  assumes "chunk_good p n Ds" and "list_all ordered Ds" and "ev \<in> set (chunk_events p Ds)" and "ec_n_smd_files C = n" and "n < 2 ^ 32"
    and headers: "\<forall>D\<in>set Ds. \<forall>d\<in>set D. reads_header C d \<and> dg_service d \<noteq> 0"
  shows "small_row C (event_row ev)" and "map shown_dgram (event_row ev) = pe_pydgrams ev"
proof -
  let ?ss = "map (filter (selected (ep_timestamps p))) Ds"
  have fits: "chunk_fits n Ds" and fit: "events_fit (chunk_events p Ds)" using assms(1) by (simp_all add: chunk_good_def)
  have row: "pe_pydgrams ev \<in> set (merge_events ?ss)" using assms(3) accepted_event by (auto simp: chunk_events_def)
  have dgram: "\<exists>D\<in>set Ds. d \<in> set D" if d: "Some d \<in> set (pe_pydgrams ev)" for d
  proof -
    obtain i where "i < length (pe_pydgrams ev)" "pe_pydgrams ev ! i = Some d" using d by (auto simp: in_set_conv_nth)
    then have "i < length Ds" "d \<in> set (Ds ! i)" using merge_row [OF row] by auto
    then show ?thesis by (meson nth_mem)
  qed
  then have ne: "d \<noteq> []" if "Some d \<in> set (pe_pydgrams ev)" for d
    using that fits dgram_pos by (fastforce simp: chunk_fits_def list_all_iff)
  have "shown_dgram (dg_bytes x) = x" if "x \<in> set (pe_pydgrams ev)" for x
  proof (cases x)
    case (Some d)
    then show ?thesis using ne [of d] that by (simp add: shown_dgram_def dg_bytes_def)
  qed (simp add: shown_dgram_def dg_bytes_def)
  then show "map shown_dgram (event_row ev) = pe_pydgrams ev" by (simp add: event_row_def map_idI)
  have "list_all ordered ?ss" using assms(2) ordered_filter by (auto simp: list_all_iff)
  then obtain d where d: "Some d \<in> set (pe_pydgrams ev)" using merged_row_dgram [OF _ row] by blast
  have "x = [] \<or> reads_header C x \<and> dg_service x \<noteq> 0" if "x \<in> set (event_row ev)" for x
  proof -
    obtain y where y: "y \<in> set (pe_pydgrams ev)" "x = dg_bytes y" using \<open>x \<in> set (event_row ev)\<close> by (auto simp: event_row_def)
    show ?thesis
    proof (cases y)
      case (Some d)
      then have "\<exists>D\<in>set Ds. x \<in> set D" using dgram [of d] y by (simp add: dg_bytes_def)
      then show ?thesis using headers by blast
    qed (simp add: y(2) dg_bytes_def)
  qed
  moreover have "\<exists>x\<in>set (event_row ev). x \<noteq> []"
    using ne [OF d] d by (auto simp: event_row_def dg_bytes_def intro!: bexI [of _ "Some d"])
  moreover have "length (event_row ev) = n" by (rule event_dgram(1) [OF fits assms(3)])
  moreover have "sizes_ok (map length (event_row ev))"
    using fit assms(3,5) \<open>length (event_row ev) = n\<close> by (auto simp: events_fit_def event_ok_def list_all_iff sizes_ok_def)
  ultimately show "small_row C (event_row ev)" using assms(4) by (auto simp: small_row_def)
qed

lemma serial_events_run:
  assumes "smd_man_init junk (Suc k) = Inr man" and "length Ds = Suc k" and "streams_ok (sc_rd (sn_sm C)) Ds" and "plain_conf (sn_sm C)"
    and "end_together Ds" and "serial_run k C" and "chunk_good (sn_eb C) (Suc k) Ds"
    and "\<forall>ev\<in>set (butlast (chunk_events (sn_eb C) Ds)). pe_service ev \<noteq> TransitionId_EndRun"
    and "ev_man e = None" and "ec_n_files (sn_em C) = 0" and "ec_n_smd_files (sn_em C) = Suc k"
    and "\<forall>D\<in>set Ds. \<forall>d\<in>set D. reads_header (sn_em C) d \<and> dg_service d \<noteq> 0"
  shows "\<exists>t. serial_loop (Suc (length (chunk_events (sn_eb C) Ds))) C
      \<lparr>se_events = e, se_batches = batch_iter_init [], se_man = man\<rparr>
    = Some (map pe_pydgrams (chunk_events (sn_eb C) Ds), StopIteration, t)"
proof -
  let ?p = "sn_eb C" and ?C = "sn_em C"
  obtain evss where evss: "concat evss = chunk_events ?p Ds" "\<forall>evs\<in>set evss. evs \<noteq> [] \<and> length evs \<le> ep_batch_size ?p"
    "\<forall>evtss. batches_give ?C e (made_batches evss) evtss \<longrightarrow>
        (\<exists>t. serial_loop (Suc (length (concat evtss))) C \<lparr>se_events = e, se_batches = batch_iter_init [], se_man = man\<rparr>
          = Some (concat evtss, StopIteration, t))"
    using serial_run_run [OF assms(1-9)] by blast
  have k: "Suc k < 2 ^ 32" and p: "ep_batch_size ?p \<le> MAX_BATCH_SIZE" using assms(6) by (simp_all add: serial_run_def any_dest_def)
  have in_run: "ev \<in> set (chunk_events ?p Ds)" if "evs \<in> set evss" "ev \<in> set evs" for evs ev
    using that evss(1) by (metis UN_I set_concat)
  note small = event_small [OF assms(7) streams_ordered [OF assms(3)] _ assms(11) k assms(12)]
  have sizes: "sizes_ok (map length (map event_bytes evs))" if "evs \<in> set evss" for evs
  proof (rule events_sizes)
    show "events_fit evs"
    proof (rule events_fit_sub)
      show "events_fit (chunk_events ?p Ds)" using assms(7) by (simp add: chunk_good_def)
      show "set evs \<subseteq> set (chunk_events ?p Ds)" using in_run [OF that] by blast
    qed
    show "length evs < 2 ^ 32"
    proof (rule le_less_trans)
      show "length evs \<le> ep_batch_size ?p" using evss(2) that by blast
      show "ep_batch_size ?p < 2 ^ 32" using p by (simp add: MAX_BATCH_SIZE_def)
    qed
  qed
  have "batches_give ?C e (map (\<lambda>rows. batch_of (map row_event rows)) (map (map event_row) evss))
      (map (map (map shown_dgram)) (map (map event_row) evss))"
  proof (rule batches_give_small [OF assms(10)])
    show "\<forall>rows\<in>set (map (map event_row) evss). rows \<noteq> [] \<and> (\<forall>row\<in>set rows. small_row ?C row)
        \<and> sizes_ok (map length (map row_event rows))"
    proof
      fix rows
      assume "rows \<in> set (map (map event_row) evss)"
      then obtain evs where evs: "evs \<in> set evss" "rows = map event_row evs" by auto
      then have "\<forall>row\<in>set rows. small_row ?C row" using small(1) in_run by auto
      moreover have "map row_event rows = map event_bytes evs" using evs(2) by (simp add: event_bytes_def)
      ultimately show "rows \<noteq> [] \<and> (\<forall>row\<in>set rows. small_row ?C row) \<and> sizes_ok (map length (map row_event rows))"
        using sizes [OF evs(1)] evss(2) evs by (simp only:) simp
    qed
  qed
  moreover have "map (\<lambda>rows. batch_of (map row_event rows)) (map (map event_row) evss) = made_batches evss"
    by (simp add: made_batches_def event_bytes_def [abs_def] comp_def)
  moreover have "map (map (map shown_dgram)) (map (map event_row) evss) = map (map pe_pydgrams) evss"
    using small(2) in_run by simp
  ultimately have "batches_give ?C e (made_batches evss) (map (map pe_pydgrams) evss)" by (simp only:)
  then have "\<exists>t. serial_loop (Suc (length (concat (map (map pe_pydgrams) evss)))) C
      \<lparr>se_events = e, se_batches = batch_iter_init [], se_man = man\<rparr> = Some (concat (map (map pe_pydgrams) evss), StopIteration, t)"
    using evss(3) by blast
  then show ?thesis by (simp only: map_concat [symmetric] evss(1) length_map)
qed

end
