(* ===== verification/ParallelRun.thy ===== *)
theory ParallelRun
  imports SerialEvents
begin

text \<open>
  A parallel run without bigdata files, with one event builder node: what the bigdata nodes give the
  user, from the files on. Each node sees its own events and the steps of all.
\<close>

section \<open>The events in the messages of a node\<close>

lemma concat_map_split: "concat xss = map f ys \<Longrightarrow> \<exists>yss. xss = map (map f) yss \<and> concat yss = ys"
proof (induction xss arbitrary: ys)
  case (Cons xs xss)
  obtain us vs where "ys = us @ vs" "xs = map f us" "concat xss = map f vs"
    using Cons.prems by (auto simp: append_eq_map_conv)
  moreover obtain yss where "xss = map (map f) yss" "concat yss = vs" using Cons.IH [OF \<open>concat xss = map f vs\<close>] by blast
  ultimately show ?case by (intro exI [of _ "us # yss"]) simp
qed simp

lemma node_gives:
  assumes "ec_n_files C = 0" and "ev_man e = None"
    and "list_all good_batch ess" and "concat ess = map event_bytes evs"
    and small: "\<forall>ev\<in>set evs. small_row C (event_row ev) \<and> map shown_dgram (event_row ev) = pe_pydgrams ev"
  shows "\<exists>t. bd_start (Suc (length evs)) terminated 0 C \<lparr>bd_events = e, bd_answers = map batch_of ess @ [] # rest\<rparr>
    = Some (yielded terminated 0 (map pe_pydgrams evs), StopIteration, t)"
proof -
  obtain evss where evss: "ess = map (map event_bytes) evss" "concat evss = evs" using concat_map_split [OF assms(4)] by blast
  let ?rowss = "map (map event_row) evss"
  have bytes: "map row_event (map event_row xs) = map event_bytes xs" for xs by (simp add: event_bytes_def)
  have in_run: "ev \<in> set evs" if "xs \<in> set evss" "ev \<in> set xs" for xs ev using that evss(2) by auto
  have "batches_give C e (map (\<lambda>rows. batch_of (map row_event rows)) ?rowss) (map (map (map shown_dgram)) ?rowss)"
  proof (rule batches_give_small [OF assms(1)])
    show "\<forall>rows\<in>set ?rowss. rows \<noteq> [] \<and> (\<forall>row\<in>set rows. small_row C row) \<and> sizes_ok (map length (map row_event rows))"
    proof
      fix rows
      assume "rows \<in> set ?rowss"
      then obtain xs where xs: "xs \<in> set evss" "rows = map event_row xs" by auto
      have "good_batch (map event_bytes xs)" using xs(1) assms(3) evss(1) by (simp add: list_all_iff)
      moreover have "\<forall>row\<in>set rows. small_row C row" using xs small in_run by auto
      ultimately show "rows \<noteq> [] \<and> (\<forall>row\<in>set rows. small_row C row) \<and> sizes_ok (map length (map row_event rows))"
        unfolding xs(2) bytes by (simp add: good_batch_def)
    qed
  qed
  moreover have "map (\<lambda>rows. batch_of (map row_event rows)) ?rowss = map batch_of ess"
    by (simp add: evss(1) event_bytes_def [abs_def] comp_def)
  moreover have "map (map (map shown_dgram)) ?rowss = map (map pe_pydgrams) evss" using small in_run by auto
  ultimately have "batches_give C e (map batch_of ess) (map (map pe_pydgrams) evss)" by (simp only:)
  then have "\<exists>t. bd_start (Suc (length (concat (map (map pe_pydgrams) evss)))) terminated 0 C
        \<lparr>bd_events = e, bd_answers = map batch_of ess @ [] # rest\<rparr>
      = Some (yielded terminated 0 (concat (map (map pe_pydgrams) evss)), StopIteration, t)"
    using assms(2) by (intro batches_loop) (simp_all add: at_end_def next_of_batch_def)
  then show ?thesis by (simp only: map_concat [symmetric] evss(2) length_map)
qed

lemma node_view_sub: "set (node_view c rs evss) \<subseteq> set (concat evss)"
  by (auto simp: node_view_def dest!: set_zip_rightD split: if_splits)

lemma node_view_only: "length evss = n \<Longrightarrow> node_view c (replicate n c) evss = concat evss"
  by (induction evss arbitrary: n) (auto simp: node_view_def)

text \<open>The events that are no steps are divided among the nodes.\<close>

lemma node_view_own:
  "filter (\<lambda>ev. \<not> is_step ev) (node_view c rs evss)
    = concat (map (\<lambda>(r, evs). if r = c then filter (\<lambda>ev. \<not> is_step ev) evs else []) (zip rs evss))"
proof (induction rs arbitrary: evss)
  case (Cons r rs)
  then show ?case by (cases evss) (simp_all add: node_view_def)
qed (simp add: node_view_def)

lemma node_view_steps:
  "length rs = length evss \<Longrightarrow> filter is_step (node_view c rs evss) = filter is_step (concat evss)"
proof (induction rs evss rule: list_induct2)
  case (Cons r rs evs evss)
  then show ?case by (simp add: node_view_def)
qed (simp add: node_view_def)

section \<open>From the files to the events of all nodes\<close>

lemma parallel_events_run:
  assumes "smd_man_init junk (Suc k) = Inr s" and "length Ds = Suc k" and "streams_ok (sc_rd C) Ds" and "plain_conf C"
    and "end_together Ds" and "dgrams_left Ds < n"
    and "any_dest p" and "chunk_good p (Suc k) Ds" and "length (chunk_events p Ds) + MAX_BATCH_SIZE < 2 ^ 32"
    and "length configs = Suc k"
    and "ec_n_files E = 0" and "ec_n_smd_files E = Suc k" and "ev_man e = None"
    and headers: "\<forall>D\<in>set Ds. \<forall>d\<in>set D. reads_header E d \<and> dg_service d \<noteq> 0"
  shows "\<exists>cks s1 s2 evss. smd0_chunks n C s = Some (cks, None, s1)
    \<and> smd0_start 2 1 cks (smd0_init 2 (Suc k) (replicate (length cks) 1 @ [1, 1])) = (Inr (), s2)
    \<and> concat evss = chunk_events p Ds
    \<and> (\<forall>rs1 rs2 rs3. set (rs1 @ rs2 @ rs3) \<subseteq> {1..m} \<and> length rs1 = length evss \<and> length rs2 = m \<and> length rs3 = m \<longrightarrow>
        (\<exists>batches rcv msgs ended. batches_sent p configs (Suc m) (rs1 @ rs2 @ rs3) (received_chunks 1 (s0_out s2)) = Some (batches, rcv, msgs)
          \<and> length ended = m \<and> set ended \<subseteq> {1..m}
          \<and> (\<forall>c\<in>set rs2 \<inter> set ended.
              \<exists>t. bd_start (Suc (length (node_view c rs1 evss))) terminated 0 E \<lparr>bd_events = e, bd_answers = msgs c\<rparr>
                = Some (yielded terminated 0 (map pe_pydgrams (node_view c rs1 evss)), StopIteration, t))))"
proof -
  have small: "\<forall>ev\<in>set evs. small_row E (event_row ev) \<and> map shown_dgram (event_row ev) = pe_pydgrams ev"
    if "set evs \<subseteq> set (chunk_events p Ds)" for evs
  proof -
    have "Suc k < 2 ^ 32" using assms(2,8) by (auto simp: chunk_good_def chunk_fits_def sizes_ok_def)
    then show ?thesis using that event_small [OF assms(8) streams_ordered [OF assms(3)] _ assms(12) _ headers] by blast
  qed
  have node: "\<exists>t. bd_start (Suc (length evs)) terminated 0 E \<lparr>bd_events = e, bd_answers = map batch_of ess @ replicate j []\<rparr>
      = Some (yielded terminated 0 (map pe_pydgrams evs), StopIteration, t)"
    if "j \<noteq> 0" "list_all good_batch ess" "concat ess = map event_bytes evs" "set evs \<subseteq> set (chunk_events p Ds)" for ess j evs
  proof -
    obtain i where "j = Suc i" using not0_implies_Suc [OF \<open>j \<noteq> 0\<close>] by blast
    then show ?thesis using node_gives [OF assms(11,13) that(2,3) small [OF that(4)]] by simp
  qed
  obtain cks s1 s2 evss where r: "smd0_chunks n C s = Some (cks, None, s1)"
    "smd0_start 2 1 cks (smd0_init 2 (Suc k) (replicate (length cks) 1 @ [1, 1])) = (Inr (), s2)" "concat evss = chunk_events p Ds"
    "\<forall>rs1 rs2 rs3. set (rs1 @ rs2 @ rs3) \<subseteq> {1..m} \<and> length rs1 = length evss \<and> length rs2 = m \<and> length rs3 = m \<longrightarrow>
        (\<exists>rcv msgs ended. batches_sent p configs (Suc m) (rs1 @ rs2 @ rs3) (received_chunks 1 (s0_out s2))
            = Some (map (\<lambda>evs. batch_of (map event_bytes evs)) evss, rcv, msgs)
          \<and> (\<forall>c\<in>set rs2. \<forall>i\<le>k. rcv c i = column (map event_row (filter is_step (chunk_events p Ds))) i)
          \<and> length ended = m \<and> set ended \<subseteq> {1..m}
          \<and> (\<forall>c\<in>set rs2. \<exists>ess. msgs c = map batch_of ess @ replicate (count_list ended c) [] \<and> list_all good_batch ess
              \<and> concat ess = map event_bytes (node_view c rs1 evss)))"
    using pipeline_run [OF assms(1-10), of m] by (elim exE conjE) (rule that)
  have sub: "set (node_view c rs1 evss) \<subseteq> set (chunk_events p Ds)" for c rs1
    using node_view_sub [of c rs1 evss] r(3) by simp
  have "\<exists>batches rcv msgs ended. batches_sent p configs (Suc m) (rs1 @ rs2 @ rs3) (received_chunks 1 (s0_out s2)) = Some (batches, rcv, msgs)
        \<and> length ended = m \<and> set ended \<subseteq> {1..m}
        \<and> (\<forall>c\<in>set rs2 \<inter> set ended.
            \<exists>t. bd_start (Suc (length (node_view c rs1 evss))) terminated 0 E \<lparr>bd_events = e, bd_answers = msgs c\<rparr>
              = Some (yielded terminated 0 (map pe_pydgrams (node_view c rs1 evss)), StopIteration, t))"
    if q: "set (rs1 @ rs2 @ rs3) \<subseteq> {1..m} \<and> length rs1 = length evss \<and> length rs2 = m \<and> length rs3 = m" for rs1 rs2 rs3
  proof -
    obtain rcv msgs ended where b: "batches_sent p configs (Suc m) (rs1 @ rs2 @ rs3) (received_chunks 1 (s0_out s2))
            = Some (map (\<lambda>evs. batch_of (map event_bytes evs)) evss, rcv, msgs)" "length ended = m" "set ended \<subseteq> {1..m}"
        "\<forall>c\<in>set rs2. \<exists>ess. msgs c = map batch_of ess @ replicate (count_list ended c) [] \<and> list_all good_batch ess
              \<and> concat ess = map event_bytes (node_view c rs1 evss)"
      using r(4) [rule_format, OF q] by blast
    have "\<exists>t. bd_start (Suc (length (node_view c rs1 evss))) terminated 0 E \<lparr>bd_events = e, bd_answers = msgs c\<rparr>
              = Some (yielded terminated 0 (map pe_pydgrams (node_view c rs1 evss)), StopIteration, t)"
      if c: "c \<in> set rs2" "c \<in> set ended" for c
    proof -
      obtain ess where "msgs c = map batch_of ess @ replicate (count_list ended c) []" "list_all good_batch ess"
        "concat ess = map event_bytes (node_view c rs1 evss)" using b(4) c(1) by blast
      moreover have "count_list ended c \<noteq> 0" using c(2) by (simp add: count_list_0_iff)
      ultimately show ?thesis using node [OF _ _ _ sub] by (simp only:)
    qed
    then show ?thesis
      using b(1-3) by (intro exI [of _ "map (\<lambda>evs. batch_of (map event_bytes evs)) evss"] exI [of _ rcv] exI [of _ msgs] exI [of _ ended]) blast
  qed
  then show ?thesis using r(1-3) by (intro exI [of _ cks] exI [of _ s1] exI [of _ s2] exI [of _ evss]) blast
qed

end
