(* ===== verification/BuildProps.thy ===== *)
theory BuildProps
  imports SmdPipeline ParallelRun BigdataProps
begin

text \<open>
  The properties of the way from the small files to the events: the reader's windows, the event
  builder, both behind each other, and the events of a bigdata node. The samples are two files of
  dgrams without payload.
\<close>

section \<open>Two small files\<close>

definition smd_dgram :: "nat \<Rightarrow> nat \<Rightarrow> bytes" where
  "smd_dgram t sv = le_bytes 4 t @ le_bytes 4 0 @ le_bytes 4 (sv * 2 ^ 24) @ le_bytes 4 0 @ le_bytes 4 0 @ le_bytes 4 12"

definition two_files :: "bytes list list" where
  "two_files =
     [[smd_dgram 10 TransitionId_BeginStep, smd_dgram 20 TransitionId_L1Accept, smd_dgram 30 TransitionId_L1Accept,
       smd_dgram 90 TransitionId_EndRun],
      [smd_dgram 10 TransitionId_BeginStep, smd_dgram 30 TransitionId_L1Accept, smd_dgram 90 TransitionId_EndRun]]"

definition smd_conf :: sm_conf where
  "smd_conf = \<lparr>sc_rd = \<lparr>rc_chunksize = 60, rc_max_retries = 0, rc_fakestep = False,
       rc_read = (\<lambda>_ i pos sz. take sz (drop pos (concat (two_files ! i)))), rc_converted = (\<lambda>_. []), rc_fake = (\<lambda>_ _. [])\<rparr>,
     sc_smd_n_events = 1, sc_max_events = 0, sc_intg_stream_id = -1, sc_dgram = (\<lambda>_ d. Inr d)\<rparr>"

definition new_man :: smd_man where
  "new_man = (case smd_man_init (\<lambda>_. 0) 2 of Inr s \<Rightarrow> s)"

definition eb_parms0 :: eb_parms where
  "eb_parms0 = \<lparr>ep_n_configs = 2, ep_timestamps = [], ep_filter = None, ep_destination = None, ep_batch_size = 3,
     ep_intg_stream_id = -1\<rparr>"

lemma new_man: "smd_man_init (\<lambda>_. 0) 2 = Inr new_man"
  by (simp add: new_man_def smd_man_init_def smd_reader_init_def)

lemma smd_dgram_run:
  assumes "t < 2 ^ 32" and "sv < 16"
  shows "dg_timestamp (smd_dgram t sv) = t" "dg_service (smd_dgram t sv) = sv" "length (smd_dgram t sv) = 24"
    "dg_size (smd_dgram t sv) = 24" "whole_dgram (smd_dgram t sv)"
proof -
  have v: "le_val (le_bytes 4 t) = t" "le_val (le_bytes 4 0) = 0" "le_val (le_bytes 4 (sv * 2 ^ 24)) = sv * 2 ^ 24"
    "le_val (le_bytes 4 12) = 12"
    using assms by (auto intro!: le_val_bytes)
  have "u32_at 0 (smd_dgram t sv) = t" "u32_at 4 (smd_dgram t sv) = 0" "u32_at 8 (smd_dgram t sv) = sv * 2 ^ 24"
    "u32_at 20 (smd_dgram t sv) = 12"
    using v by (simp_all add: u32_at_def slice_def smd_dgram_def)
  then show "dg_timestamp (smd_dgram t sv) = t" "dg_service (smd_dgram t sv) = sv" "length (smd_dgram t sv) = 24"
    "dg_size (smd_dgram t sv) = 24" "whole_dgram (smd_dgram t sv)"
    using assms(2)
    by (simp_all add: dg_timestamp_def dg_service_def dg_size_def whole_dgram_def sizeof_Dgram_def sizeof_Xtc_def smd_dgram_def)
qed

lemmas ids = TransitionId_BeginStep_def TransitionId_L1Accept_def TransitionId_EndRun_def

lemma all_less_two: "(\<forall>i<Suc (Suc 0). P i) \<longleftrightarrow> P 0 \<and> P (Suc 0)"
  by (auto simp: less_Suc_eq)

lemma two_streams: "streams_ok (sc_rd smd_conf) two_files" "plain_conf smd_conf" "end_together two_files" "positive two_files"
  "list_all ordered two_files" "dgrams_left two_files = 7" "length two_files = 2"
proof -
  show "streams_ok (sc_rd smd_conf) two_files"
    by (simp add: streams_ok_def stream_ok_def two_files_def smd_conf_def fits_chunk_def reads_file_def ordered_def
        smd_dgram_run ids all_less_two)
  show "end_together two_files" unfolding end_together_def
    by (rule exI [of _ 90]) (simp add: two_files_def smd_dgram_run ids)
qed (simp_all add: plain_conf_def smd_conf_def positive_def two_files_def smd_dgram_run ids ordered_def dgrams_left_def)

lemma two_files_merged:
  "merge_events two_files = map (\<lambda>t. map (dgram_with t) two_files) [10, 20, 30, 90]"
proof -
  have "all_times two_files = [10, 20, 30, 90]"
    by (simp add: all_times_def two_files_def smd_dgram_run ids insert_commute)
  then show ?thesis using merge_events_ordered [OF two_streams(5)] by simp
qed

lemma two_files_events: "map pe_timestamp (chunk_events eb_parms0 two_files) = [10, 20, 30, 90]"
  "chunk_good eb_parms0 2 two_files" "any_dest eb_parms0" "length (chunk_events eb_parms0 two_files) = 4"
  "map pe_pydgrams (chunk_events eb_parms0 two_files) = merge_events two_files"
  "\<forall>ev\<in>set (butlast (chunk_events eb_parms0 two_files)). pe_service ev \<noteq> TransitionId_EndRun"
proof -
  have sel: "map (filter (selected (ep_timestamps eb_parms0))) two_files = two_files"
    by (simp add: eb_parms0_def selected_def two_files_def)
  have rows: "merge_events two_files = [[Some (smd_dgram 10 TransitionId_BeginStep), Some (smd_dgram 10 TransitionId_BeginStep)],
      [Some (smd_dgram 20 TransitionId_L1Accept), None],
      [Some (smd_dgram 30 TransitionId_L1Accept), Some (smd_dgram 30 TransitionId_L1Accept)],
      [Some (smd_dgram 90 TransitionId_EndRun), Some (smd_dgram 90 TransitionId_EndRun)]]"
    unfolding two_files_merged by (simp add: two_files_def dgram_with_def smd_dgram_run ids)
  have acc: "ep_filter eb_parms0 = None" "ep_destination eb_parms0 = None" by (simp_all add: eb_parms0_def)
  let ?event = "\<lambda>row sv t. \<lparr>pe_pydgrams = row, pe_destination = 0, pe_service = sv, pe_timestamp = t\<rparr>"
  have evs: "chunk_events eb_parms0 two_files = map2 (\<lambda>row (sv, t). ?event row sv t) (merge_events two_files)
      [(TransitionId_BeginStep, 10), (TransitionId_L1Accept, 20), (TransitionId_L1Accept, 30), (TransitionId_EndRun, 90)]"
    unfolding chunk_events_def sel rows
    by (simp add: accepted_def judge_def row_main_def ask_user_def sbind_def smd_dgram_run ids acc)
  show "map pe_timestamp (chunk_events eb_parms0 two_files) = [10, 20, 30, 90]"
    "length (chunk_events eb_parms0 two_files) = 4"
    "map pe_pydgrams (chunk_events eb_parms0 two_files) = merge_events two_files"
    by (simp_all add: evs rows)
  show "\<forall>ev\<in>set (butlast (chunk_events eb_parms0 two_files)). pe_service ev \<noteq> TransitionId_EndRun"
    by (simp add: evs rows ids)
  show "any_dest eb_parms0" by (simp add: any_dest_def eb_parms0_def MAX_BATCH_SIZE_def)
  have "length (row_event row) = sum_list (map length row) + 4 * length row + 4" for row
    by (simp add: row_event_def length_footer_of n_bytes_def length_concat)
  then have "events_fit (chunk_events eb_parms0 two_files)"
    unfolding evs rows by (simp add: events_fit_def event_ok_def event_bytes_def event_row_def dg_bytes_def smd_dgram_run ids)
  moreover have "user_answers eb_parms0 (merge_events two_files)"
    by (simp add: user_answers_def rows judge_def row_main_def ask_user_def sbind_def smd_dgram_run ids acc)
  moreover have "chunk_fits 2 two_files"
    by (simp add: chunk_fits_def two_files_def sizes_ok_def smd_dgram_run ids)
  ultimately show "chunk_good eb_parms0 2 two_files" using two_streams(4) by (simp add: chunk_good_def sel)
qed

text \<open>The second file when it was read: its buffer and that of its transitions.\<close>

definition read_buf :: "bytes list \<Rightarrow> nat list \<Rightarrow> nat list \<Rightarrow> rbuf" where
  "read_buf B ts sv = \<lparr>rb_chunk = concat B, rb_got = length (concat B), rb_ready_offset = length (concat B), rb_n_ready = length B,
     rb_seen_offset = 0, rb_n_seen = 0, rb_timestamp = last ts, rb_ts = (!) ts, rb_sv = (!) sv, rb_st = (\<lambda>j. 24 * j),
     rb_en = (\<lambda>j. 24 * j + 24), rb_found_endrun = False, rb_endrun_ts = last ts\<rparr>"

definition file_read :: smd_file where
  "file_read = (smd_file_init (\<lambda>_. 0))\<lparr>
     sf_buf := read_buf (two_files ! 1) [10, 30, 90] [TransitionId_BeginStep, TransitionId_L1Accept, TransitionId_EndRun],
     sf_step := read_buf [smd_dgram 10 TransitionId_BeginStep, smd_dgram 90 TransitionId_EndRun] [10, 90]
       [TransitionId_BeginStep, TransitionId_EndRun],
     sf_pos := 72\<rparr>"

lemma read_buf_entered:
  assumes "\<forall>d\<in>set B. length d = 24" and "ts = map dg_timestamp B" and "sv = map dg_service B" and "B \<noteq> []"
  shows "entered B (read_buf B ts sv)"
proof -
  have "length (concat xs) = 24 * length xs" if "\<forall>d\<in>set xs. length d = 24" for xs :: "bytes list"
    using that by (induction xs) auto
  moreover have "\<forall>d\<in>set (take j B). length d = 24" for j using assms(1) by (auto dest: in_set_takeD)
  ultimately show ?thesis using assms by (auto simp: entered_def read_buf_def last_map)
qed

lemma file_read_left: "file_left (two_files ! 1) (two_files ! 1) file_read"
proof -
  let ?B = "two_files ! 1" and ?S = "[smd_dgram 10 TransitionId_BeginStep, smd_dgram 90 TransitionId_EndRun]"
  have b: "entered ?B (sf_buf file_read)" "entered ?S (sf_step file_read)"
    unfolding file_read_def by (simp_all, (rule read_buf_entered; simp add: two_files_def smd_dgram_run ids)+)
  have "filter is_tr ?B = ?S" by (simp add: two_files_def is_tr_def smd_dgram_run ids)
  then have "file_at [] ?B [] file_read"
    using b by (auto simp: file_at_def chunk_holds_def steps_hold_def cut_short_def file_read_def read_buf_def smd_file_init_def
        two_files_def smd_dgram_run ids)
  then show ?thesis
    unfolding file_left_def by (intro exI [of _ "[]"] exI [of _ ?B] exI [of _ "[]"]) (simp add: file_read_def read_buf_def)
qed

section \<open>From the files to the events\<close>

text \<open>
  C12. The small data of a run with one event builder node. The files are finished, in the order of
  time, and end together. The reader cuts them into windows and \<open>Smd0.start\<close> sends these as chunks;
  given the messages that its client receives, \<open>EventBuilderNode.start\<close> ends without error whichever
  bigdata nodes ask, and the batches it sends hold, one behind the other, the events of the merge of
  the whole files that the user accepts. Every bigdata node that asks in the last round has then the
  step events of all of them, and its messages are batches that hold, one behind the other, its own
  events and the steps of the others (\<open>node_view\<close>), and then an empty one each time it is told to end,
  which happens as often as there are nodes. So cutting into windows, chunks and batches loses,
  repeats and mixes up nothing. The dgrams
  are whole, their times positive, every transition that is seen is in all files, the user's callback
  answers, and sizes fit the footers (\<open>chunk_good\<close>).
\<close>

theorem small_data_reaches_batches:
  assumes "smd_man_init junk (Suc k) = Inr s" and "length Ds = Suc k" and "streams_ok (sc_rd C) Ds" and "plain_conf C"
    and "end_together Ds" and "dgrams_left Ds < n"
    and "any_dest p" and "chunk_good p (Suc k) Ds" and "length (chunk_events p Ds) + MAX_BATCH_SIZE < 2 ^ 32"
    and "length configs = Suc k"
  shows "\<exists>cks s1 s2 evss. smd0_chunks n C s = Some (cks, None, s1)
    \<and> smd0_start 2 1 cks (smd0_init 2 (Suc k) (replicate (length cks) 1 @ [1, 1])) = (Inr (), s2)
    \<and> concat evss = chunk_events p Ds
    \<and> (\<forall>rs1 rs2 rs3. set (rs1 @ rs2 @ rs3) \<subseteq> {1..m} \<and> length rs1 = length evss \<and> length rs2 = m \<and> length rs3 = m \<longrightarrow>
        (\<exists>rcv msgs ended. batches_sent p configs (Suc m) (rs1 @ rs2 @ rs3) (received_chunks 1 (s0_out s2))
            = Some (map (\<lambda>evs. batch_of (map event_bytes evs)) evss, rcv, msgs)
          \<and> (\<forall>c\<in>set rs2. \<forall>i\<le>k. rcv c i = column (map event_row (filter is_step (chunk_events p Ds))) i)
          \<and> length ended = m \<and> set ended \<subseteq> {1..m}
          \<and> (\<forall>c\<in>set rs2. \<exists>ess. msgs c = map batch_of ess @ replicate (count_list ended c) [] \<and> list_all good_batch ess
              \<and> concat ess = map event_bytes (node_view c rs1 evss))))"
  by (rule pipeline_run [OF assms])

theorem small_data_reaches_batches_witness:
  "\<exists>cks s1 s2 evss rcv msgs. smd0_chunks 8 smd_conf new_man = Some (cks, None, s1)
    \<and> smd0_start 2 1 cks (smd0_init 2 2 (replicate (length cks) 1 @ [1, 1])) = (Inr (), s2)
    \<and> map pe_timestamp (concat evss) = [10, 20, 30, 90]
    \<and> batches_sent eb_parms0 [(), ()] 2 (replicate (length evss) 1 @ [1] @ [1]) (received_chunks 1 (s0_out s2))
        = Some (map (\<lambda>evs. batch_of (map event_bytes evs)) evss, rcv, msgs)"
proof -
  have two: "Suc 1 = 2" by simp
  have big: "length (chunk_events eb_parms0 two_files) + MAX_BATCH_SIZE < 2 ^ 32" "dgrams_left two_files < 8"
    by (simp_all add: two_files_events(4) MAX_BATCH_SIZE_def two_streams(6))
  have "length [(), ()] = 2" by simp
  from small_data_reaches_batches [where k = 1 and m = 1, unfolded two, OF new_man two_streams(7) two_streams(1-3) big(2)
      two_files_events(3,2) big(1) this]
  obtain cks s1 s2 evss where r: "smd0_chunks 8 smd_conf new_man = Some (cks, None, s1)"
    "smd0_start 2 1 cks (smd0_init 2 2 (replicate (length cks) 1 @ [1, 1])) = (Inr (), s2)"
    "concat evss = chunk_events eb_parms0 two_files"
    "\<forall>rs1 rs2 rs3. set (rs1 @ rs2 @ rs3) \<subseteq> {1..1} \<and> length rs1 = length evss \<and> length rs2 = 1 \<and> length rs3 = 1 \<longrightarrow>
        (\<exists>rcv msgs ended. batches_sent eb_parms0 [(), ()] 2 (rs1 @ rs2 @ rs3) (received_chunks 1 (s0_out s2))
            = Some (map (\<lambda>evs. batch_of (map event_bytes evs)) evss, rcv, msgs)
          \<and> (\<forall>c\<in>set rs2. \<forall>i\<le>1. rcv c i = column (map event_row (filter is_step (chunk_events eb_parms0 two_files))) i)
          \<and> length ended = 1 \<and> set ended \<subseteq> {1..1}
          \<and> (\<forall>c\<in>set rs2. \<exists>ess. msgs c = map batch_of ess @ replicate (count_list ended c) [] \<and> list_all good_batch ess
              \<and> concat ess = map event_bytes (node_view c rs1 evss)))"
    by (elim exE conjE) (rule that)
  have "set (replicate (length evss) 1 @ [1] @ [1]) \<subseteq> {1..1 :: nat}" by auto
  then obtain rcv msgs where "batches_sent eb_parms0 [(), ()] 2 (replicate (length evss) 1 @ [1] @ [1]) (received_chunks 1 (s0_out s2))
      = Some (map (\<lambda>evs. batch_of (map event_bytes evs)) evss, rcv, msgs)"
    using r(4) [THEN spec, THEN spec, THEN spec, of "replicate (length evss) 1" "[1]" "[1]"] by auto
  moreover have "map pe_timestamp (concat evss) = [10, 20, 30, 90]" using r(3) two_files_events(1) by simp
  ultimately show ?thesis
    using r(1,2) by (intro exI [of _ cks] exI [of _ s1] exI [of _ s2] exI [of _ evss] exI [of _ rcv] exI [of _ msgs] conjI)
qed

text \<open>
  The windows of the reader: for finished files in the order of time that end together, the loop of
  \<open>Smd0.start\<close> over \<open>SmdReaderManager.chunks\<close> ends after at most as many chunks as there are dgrams.
  What the chunks show of each file is the file, from beginning to end, and no window cuts an event:
  the merge of the files by time is the merge of the windows, one after the other.
\<close>

theorem windows_cover_files:
  assumes "smd_man_init junk (length Ds) = Inr s" and "streams_ok (sc_rd C) Ds" and "plain_conf C" and "end_together Ds"
    and "dgrams_left Ds < n"
  shows "\<exists>cks Wss s'. smd0_chunks n C s = Some (cks, None, s') \<and> list_all2 chunk_shows Wss cks
    \<and> (\<forall>i<length Ds. concat (map (\<lambda>W. W ! i) Wss) = Ds ! i)
    \<and> concat (map merge_events Wss) = merge_events Ds"
proof -
  have all: "map (filter (\<lambda>_. True)) W = W" for W :: "bytes list list" by (simp add: map_idI)
  obtain cks Wss s' where "smd0_chunks n C s = Some (cks, None, s')" "list_all2 chunk_shows Wss cks"
    "\<forall>i<length Ds. concat (map (\<lambda>W. W ! i) Wss) = Ds ! i"
    "concat (map (\<lambda>W. merge_events (map (filter (\<lambda>_. True)) W)) Wss) = merge_events (map (filter (\<lambda>_. True)) Ds)"
    using smd0_chunks_all [OF assms] by blast
  then show ?thesis unfolding all by blast
qed

theorem windows_cover_files_witness:
  "\<exists>cks Wss s'. smd0_chunks 8 smd_conf new_man = Some (cks, None, s') \<and> list_all2 chunk_shows Wss cks
    \<and> (\<forall>i<length two_files. concat (map (\<lambda>W. W ! i) Wss) = two_files ! i)
    \<and> concat (map merge_events Wss) = merge_events two_files"
  using windows_cover_files [OF _ two_streams(1-3), of "\<lambda>_. 0" new_man 8] new_man
  by (simp add: two_streams(6,7))

text \<open>
  C13. The event builder: for streams in the order of time, the events of all its batches are, one for
  each timestamp that some stream has, in order, the dgrams with this timestamp (none for a stream
  that has no such dgram), as far as the user selects the dgrams and accepts the event. A batch has
  at most the batch size of events and is never empty. The dgrams
  are whole, their times positive, every transition that is seen is in all files, the user's callback
  answers, and sizes fit the footers (\<open>chunk_good\<close>).
\<close>

theorem event_builder_merges:
  assumes "chunk_good p (Suc k) dss" and "list_all ordered dss" and "ep_intg_stream_id p \<le> -1"
    and "0 < ep_batch_size p" and "ep_batch_size p \<le> MAX_BATCH_SIZE"
    and "sel = map (filter (selected (ep_timestamps p))) dss"
  shows "\<exists>evss. eb_manager p (map concat dss) = map (Inr \<circ> built_of) evss
    \<and> concat evss = accepted p (map (\<lambda>t. map (dgram_with t) sel) (all_times sel))
    \<and> (\<forall>evs\<in>set evss. evs \<noteq> [] \<and> length evs \<le> ep_batch_size p)"
proof -
  have "list_all ordered sel" using assms(2,6) ordered_filter by (auto simp: list_all_iff)
  then have "concat (chunk_batches p dss) = accepted p (map (\<lambda>t. map (dgram_with t) sel) (all_times sel))"
    using concat_pieces [OF assms(4)] by (simp add: chunk_batches_def chunk_events_def assms(6) merge_events_ordered)
  then show ?thesis
    using eb_manager_run [OF assms(1,3-5)] piece_length [of _ "ep_batch_size p"] by (auto simp: chunk_batches_def)
qed

theorem event_builder_merges_witness:
  "\<exists>evss. eb_manager eb_parms0 (map concat two_files) = map (Inr \<circ> built_of) evss
    \<and> map pe_timestamp (concat evss) = [10, 20, 30, 90] \<and> (\<forall>evs\<in>set evss. evs \<noteq> [] \<and> length evs \<le> 3)"
proof -
  let ?sel = "map (filter (selected (ep_timestamps eb_parms0))) two_files"
  have sel: "?sel = two_files" by (simp add: eb_parms0_def selected_def two_files_def)
  have "chunk_good eb_parms0 (Suc 1) two_files" using two_files_events(2) by (simp add: numeral_2_eq_2)
  moreover have "ep_intg_stream_id eb_parms0 \<le> -1" "0 < ep_batch_size eb_parms0" "ep_batch_size eb_parms0 \<le> MAX_BATCH_SIZE"
    using two_files_events(3) by (simp_all add: any_dest_def)
  ultimately obtain evss where e: "eb_manager eb_parms0 (map concat two_files) = map (Inr \<circ> built_of) evss"
    "concat evss = accepted eb_parms0 (map (\<lambda>t. map (dgram_with t) ?sel) (all_times ?sel))"
    "\<forall>evs\<in>set evss. evs \<noteq> [] \<and> length evs \<le> ep_batch_size eb_parms0"
    using event_builder_merges [OF _ two_streams(5) _ _ _ refl] by blast
  have "concat evss = chunk_events eb_parms0 two_files"
    using e(2) merge_events_ordered [OF two_streams(5)] by (simp add: sel chunk_events_def)
  then show ?thesis using e(1,3) two_files_events(1) by (auto simp: eb_parms0_def)
qed

text \<open>
  C14. A file whose next dgram is later than the limit of a window keeps the step data of the window
  before: \<open>view\<close> goes on to the next file before it resets them. After a window with dgrams, one
  without shows nothing of the file as its small data but its steps a second time. When \<open>Smd0\<close> serves
  the chunks of the two windows, the history of the file's steps is extended by these steps twice, and
  a client that asked for neither of the chunks has them waiting for it twice.
\<close>

theorem steps_shown_again:
  assumes "file_left D rem f" and "0 < unseen f" and "ordered D" and "limit1 \<le> buf_time f"
    and "\<forall>d\<in>set (butlast D). dg_service d \<noteq> TransitionId_EndRun" and "\<not> rb_found_endrun (sf_buf f)"
    and "window limit1 rem = W" and "W \<noteq> []" and "limit2 < rb_ts (sf_buf (view_file limit1 f)) (sf_i_start (view_file limit1 f))"
    and "smd0_ok k m s" and "s0_requests s = r1 # r2 # rs" and "r1 \<in> {1..m}" and "r2 \<in> {1..m}" and "i \<le> k"
    and "chunk_ok (Suc k) ck1" and "\<not> ck_terminate ck1" and "\<not> ck_endrun ck1" and "chunk_ok (Suc k) ck2"
    and "ck_steps ck1 ! i = step_window_bytes (view_file limit1 f)"
    and "ck_steps ck2 ! i = step_window_bytes (view_file limit2 (view_file limit1 f))"
  shows "window_bytes (view_file limit1 f) = concat W \<and> step_window_bytes (view_file limit1 f) = concat (filter is_tr W)
    \<and> window_bytes (view_file limit2 (view_file limit1 f)) = []
    \<and> step_window_bytes (view_file limit2 (view_file limit1 f)) = concat (filter is_tr W)
    \<and> (\<exists>s'. serve_chunks (Suc m) [ck1, ck2] s = (Inr (), s')
        \<and> sh_log (s0_hist s') i = sh_log (s0_hist s) i @ concat (filter is_tr W) @ concat (filter is_tr W)
        \<and> (\<forall>c\<in>{1..m} - {r1, r2}. missed s' c i = missed s c i @ concat (filter is_tr W) @ concat (filter is_tr W)))"
proof -
  note v = view_file_left [OF assms(1-6)]
  have run: "view_file limit2 (view_file limit1 f) = (view_file limit1 f)\<lparr>sf_i_st := 0, sf_block := 0\<rparr>"
    using assms(9) by (subst view_file_def) simp
  have "step_window_bytes (g\<lparr>sf_i_st := 0, sf_block := 0\<rparr>) = step_window_bytes g" for g
    by (simp add: step_window_bytes_def)
  then have w: "window_bytes (view_file limit1 f) = concat W" "step_window_bytes (view_file limit1 f) = concat (filter is_tr W)"
    "window_bytes (view_file limit2 (view_file limit1 f)) = []"
    "step_window_bytes (view_file limit2 (view_file limit1 f)) = concat (filter is_tr W)"
    unfolding run using v(2,3) assms(7,8) by (simp_all add: window_bytes_def)
  obtain s1 where s1: "serve_chunk (Suc m) ck1 s = (Inr (), s1)" "smd0_ok k m s1" "s0_requests s1 = r2 # rs"
    "\<forall>i\<le>k. sh_log (s0_hist s1) i = sh_log (s0_hist s) i @ ck_steps ck1 ! i"
    "\<forall>c\<in>{1..m}. \<forall>i\<le>k. missed s1 c i = (if c = r1 then [] else missed s c i @ ck_steps ck1 ! i)"
    using serve_chunk_run [OF assms(10-12,15)] by blast
  obtain s2 where s2: "serve_chunk (Suc m) ck2 s1 = (Inr (), s2)"
    "\<forall>i\<le>k. sh_log (s0_hist s2) i = sh_log (s0_hist s1) i @ ck_steps ck2 ! i"
    "\<forall>c\<in>{1..m}. \<forall>i\<le>k. missed s2 c i = (if c = r2 then [] else missed s1 c i @ ck_steps ck2 ! i)"
    using serve_chunk_run [OF s1(2,3) assms(13,18)] by blast
  have "serve_chunks (Suc m) [ck1, ck2] s = (Inr (), s2)" using s1(1) s2(1) assms(16,17) by (simp add: eff_simps)
  then show ?thesis using w s1(4,5) s2(2,3) assms(14,19,20) by (intro conjI exI [of _ s2]) simp_all
qed

text \<open>Two clients; the first asks for both chunks and the second misses the step twice.\<close>

definition shown0 :: "smd_file \<Rightarrow> chunk" where
  "shown0 f = \<lparr>ck_steps = [[], step_window_bytes f], ck_smds = [[], window_bytes f], ck_fake = [], ck_terminate = False, ck_endrun = False\<rparr>"

theorem steps_shown_again_witness:
  "\<exists>s'. serve_chunks 3 [shown0 (view_file 10 file_read), shown0 (view_file 20 (view_file 10 file_read))] (smd0_init (Suc 2) (Suc 1) [1, 1]) = (Inr (), s')
    \<and> missed s' 2 1 = smd_dgram 10 TransitionId_BeginStep @ smd_dgram 10 TransitionId_BeginStep"
proof -
  let ?D = "two_files ! 1"
  have "last_before (rb_ts (sf_buf file_read)) 10 3 0 = 0"
    by (subst last_before.simps) (simp add: file_read_def read_buf_def)
  then have "20 < rb_ts (sf_buf (view_file 10 file_read)) (sf_i_start (view_file 10 file_read))"
    by (simp add: view_file_def view_steps_def view_buf_def Let_def file_read_def read_buf_def smd_file_init_def two_files_def)
  moreover have "window 10 ?D = [smd_dgram 10 TransitionId_BeginStep]"
    by (simp add: window_def two_files_def smd_dgram_run ids)
  moreover have "0 < unseen file_read" "10 \<le> buf_time file_read" "\<not> rb_found_endrun (sf_buf file_read)" "ordered ?D"
      "\<forall>d\<in>set (butlast ?D). dg_service d \<noteq> TransitionId_EndRun"
    by (simp_all add: unseen_def buf_time_def file_read_def read_buf_def ordered_def two_files_def smd_dgram_run ids)
  moreover have "s0_requests (smd0_init (Suc 2) (Suc 1) [1, 1]) = 1 # 1 # []" by (simp add: smd0_init_def)
  moreover have "chunk_ok (Suc 1) (shown0 f)" "\<not> ck_terminate (shown0 f)" "\<not> ck_endrun (shown0 f)"
      "ck_steps (shown0 f) ! 1 = step_window_bytes f" for f
    by (simp_all add: chunk_ok_def shown0_def)
  moreover have "missed (smd0_init (Suc 2) (Suc 1) [1, 1]) 2 1 = []" by (rule smd0_init_missed) simp_all
  ultimately show ?thesis
    using steps_shown_again [OF file_read_left, of 10 "[smd_dgram 10 TransitionId_BeginStep]" 20 1 2 "smd0_init (Suc 2) (Suc 1) [1, 1]" 1 1 "[]" 1
        "shown0 (view_file 10 file_read)" "shown0 (view_file 20 (view_file 10 file_read))"]
      smd0_init_ok [of 1 2 "[1, 1]"]
    by (auto simp: is_tr_def smd_dgram_run ids)
qed

text \<open>
  C15. A bigdata node gives the user the events of its batches: for an event builder that answers with
  batches, of which each has events, and then with the empty message, the loop of \<open>BigDataNode.start\<close>
  takes what the event manager of each batch gives, batch after batch, every event once and in order,
  yields those at which the user has not asked to terminate, and then ends. The files that are open
  at the end of a batch are open for the next one.
\<close>

theorem bigdata_node_gives_events:
  assumes "batches_give C s batches evtss" and "ev_man s = None"
  shows "\<exists>t. bd_start (Suc (length (concat evtss))) terminated 0 C \<lparr>bd_events = s, bd_answers = batches @ [[]]\<rparr>
    = Some (yielded terminated 0 (concat evtss), StopIteration, t)"
  by (rule bd_start_run [OF assms])

theorem bigdata_node_gives_events_witness:
  "\<exists>t. bd_start 5 (\<lambda>i. i = 3) 0 emconf0 \<lparr>bd_events = \<lparr>ev_man = None, ev_fds = (\<lambda>_. ''xtc2''), ev_chunk_ids = (\<lambda>_. 0)\<rparr>,
      bd_answers = [batch_of (map row_event rows0), []]\<rparr>
    = Some ([[Some [3, 12, 9]], [Some [2, 12]], [Some [2, 10]]], StopIteration, t)"
proof -
  let ?s = "\<lparr>ev_man = None, ev_fds = (\<lambda>_. ''xtc2''), ev_chunk_ids = (\<lambda>_. 0)\<rparr>"
  let ?evts = "[[Some [3, 12, 9]], [Some [2, 12]], [Some [2, 10]], [Some [2, 12]]] :: bytes option list list"
  let ?view = "batch_of (map row_event rows0)"
  obtain m where m: "em_init emconf0 (\<lambda>_. ''xtc2'') (\<lambda>_. 0) ?view = Inr m" "length (em_rows m) = length rows0"
    "batch_ok emconf0 (\<lambda>_. bigfile0) (em_rows m) (em_services m) (em_chunkinfo m) (\<lambda>_. ''xtc2'')"
    "\<forall>e<length rows0. direct_event emconf0 (\<lambda>_. bigfile0) ?view (em_rows m) (em_services m) (em_chunkinfo m) (\<lambda>_. ''xtc2'') e = named0 e"
    using em_batch_named [OF batch0_good] by blast
  let ?ev = "direct_event emconf0 (\<lambda>_. bigfile0) ?view (em_rows m) (em_services m) (em_chunkinfo m) (\<lambda>_. ''xtc2'')"
  have serv: "\<forall>e<length (em_rows m). \<exists>v. first_service emconf0 0 (?ev e) = Inr v" using m(2,4) named0_services by simp
  note shape = em_init_shape [OF m(1)]
  obtain m' where "gives emconf0 m (map ?ev [0..<length (em_rows m)]) m'"
    using gives_direct [OF m(3) serv shape(1) shape(2)] by auto
  moreover have "map ?ev [0..<length (em_rows m)] = ?evts" using m(2,4) unfolding named0_run [symmetric] by simp
  ultimately have "gives emconf0 m ?evts m'" by simp
  moreover have "new_batch emconf0 ?view ?s = Inr (?s\<lparr>ev_man := Some m\<rparr>)"
    using m(1) by (simp add: new_batch_def sbind_def)
  moreover have "?view \<noteq> []" by (simp add: batch_of_def rows0_def row_event_def)
  ultimately have "batches_give emconf0 ?s [?view] [?evts]"
    by (intro batches_more [OF _ _ _ _ _ batches_none]) auto
  then have "\<exists>t. bd_start (Suc (length (concat [?evts]))) (\<lambda>i. i = 3) 0 emconf0 \<lparr>bd_events = ?s, bd_answers = [?view] @ [[]]\<rparr>
      = Some (yielded (\<lambda>i. i = 3) 0 (concat [?evts]), StopIteration, t)"
    by (rule bigdata_node_gives_events) simp
  moreover have "Suc (length (concat [?evts])) = 5"
    "yielded (\<lambda>i. i = 3) 0 (concat [?evts]) = [[Some [3, 12, 9]], [Some [2, 12]], [Some [2, 10]]]" by simp_all
  ultimately show ?thesis by (simp only: append_Cons append_Nil)
qed

section \<open>A serial run\<close>

definition parse_smd :: "unit \<Rightarrow> bytes \<Rightarrow> nat \<Rightarrow> pyexc + dginfo" where
  "parse_smd config v i = sbind (dgram_at v i)
     (\<lambda>d. Inr \<lparr>di_size = length d, di_service = dg_service d, di_smdinfo = None, di_chunkinfo = []\<rparr>)"

definition small_conf :: "unit serial_conf" where
  "small_conf = \<lparr>sn_em = \<lparr>ec_n_smd_files = 2, ec_configs = (\<lambda>_. ()), ec_parse = parse_smd, ec_use_smds = (\<lambda>_. False),
       ec_n_files = 0, ec_chunksize = 100, ec_max_retries = 0, ec_pread = (\<lambda>n f sz off. [])\<rparr>,
     sn_sm = smd_conf, sn_eb = eb_parms0, sn_callback = default_callback\<rparr>"

lemma parse_smd_header: "ec_parse C = parse_smd \<Longrightarrow> whole_dgram d \<Longrightarrow> reads_header C d"
proof -
  assume p: "ec_parse C = parse_smd" and w: "whole_dgram d"
  then have "dgram_at (pre @ d @ post) (length pre) = Inr d" for pre post
    by (simp add: dgram_at_def Let_def dg_append whole_dgram_def slice_middle)
  then show ?thesis using p by (simp add: reads_header_def parse_smd_def sbind_def)
qed

text \<open>
  C16. A serial run without bigdata files, from the small files to the user: files that are finished, in
  the order of time, and end together, read with the default callback. The loop over the events of the
  run gives, for every timestamp in order, the dgrams of all files with this timestamp (none for a file
  without), as far as the user selects them and accepts the event, and then \<open>StopIteration\<close>: however
  the reader cuts the files into windows and the event builder these into batches, no event is lost,
  repeated or moved. The fuel is one call more than there are events. The reader of dgrams (a C
  extension) must read size and service of the headers, and no service is 0, which \<open>Event.service\<close>
  asserts. The dgrams
  are whole, their times positive, every transition that is seen is in all files, the user's callback
  answers, and sizes fit the footers (\<open>chunk_good\<close>).
\<close>

theorem serial_run_gives_events:
  assumes "smd_man_init junk (Suc k) = Inr man" and "length Ds = Suc k" and "streams_ok (sc_rd (sn_sm C)) Ds" and "plain_conf (sn_sm C)"
    and "end_together Ds" and "serial_run k C" and "chunk_good (sn_eb C) (Suc k) Ds"
    and "sel = map (filter (selected (ep_timestamps (sn_eb C)))) Ds"
    and "evs = accepted (sn_eb C) (map (\<lambda>t. map (dgram_with t) sel) (all_times sel))"
    and "\<forall>ev\<in>set (butlast evs). pe_service ev \<noteq> TransitionId_EndRun"
    and "ev_man e = None" and "ec_n_files (sn_em C) = 0" and "ec_n_smd_files (sn_em C) = Suc k"
    and "\<forall>D\<in>set Ds. \<forall>d\<in>set D. reads_header (sn_em C) d \<and> dg_service d \<noteq> 0"
  shows "\<exists>t. serial_loop (Suc (length evs)) C \<lparr>se_events = e, se_batches = batch_iter_init [], se_man = man\<rparr>
    = Some (map pe_pydgrams evs, StopIteration, t)"
proof -
  have "list_all ordered sel" using streams_ordered [OF assms(3)] assms(8) ordered_filter by (auto simp: list_all_iff)
  then have evs: "evs = chunk_events (sn_eb C) Ds" by (simp add: assms(8,9) chunk_events_def merge_events_ordered)
  show ?thesis
    using assms(10) unfolding evs by (intro serial_events_run [OF assms(1-7)] assms(11-14))
qed

theorem serial_run_gives_events_witness:
  "\<exists>t. serial_loop 5 small_conf \<lparr>se_events = \<lparr>ev_man = None, ev_fds = (\<lambda>_. []), ev_chunk_ids = (\<lambda>_. 0)\<rparr>,
      se_batches = batch_iter_init [], se_man = new_man\<rparr>
    = Some ([[Some (smd_dgram 10 TransitionId_BeginStep), Some (smd_dgram 10 TransitionId_BeginStep)],
        [Some (smd_dgram 20 TransitionId_L1Accept), None],
        [Some (smd_dgram 30 TransitionId_L1Accept), Some (smd_dgram 30 TransitionId_L1Accept)],
        [Some (smd_dgram 90 TransitionId_EndRun), Some (smd_dgram 90 TransitionId_EndRun)]], StopIteration, t)"
proof -
  let ?sel = "map (filter (selected (ep_timestamps (sn_eb small_conf)))) two_files"
  let ?evs = "accepted (sn_eb small_conf) (map (\<lambda>t. map (dgram_with t) ?sel) (all_times ?sel))"
  let ?e = "\<lparr>ev_man = None, ev_fds = (\<lambda>_. []), ev_chunk_ids = (\<lambda>_. 0)\<rparr>"
  have c: "sn_eb small_conf = eb_parms0" "sn_sm small_conf = smd_conf" by (simp_all add: small_conf_def)
  have "?sel = two_files" by (simp add: c eb_parms0_def selected_def two_files_def)
  then have evs: "?evs = chunk_events eb_parms0 two_files"
    using merge_events_ordered [OF two_streams(5)] by (simp add: c chunk_events_def)
  have two: "(2::nat) = Suc 1" by simp
  have run: "serial_run 1 small_conf"
    using two_files_events(3) by (simp add: serial_run_def small_conf_def eb_parms0_def)
  have headers: "\<forall>D\<in>set two_files. \<forall>d\<in>set D. reads_header (sn_em small_conf) d \<and> dg_service d \<noteq> 0"
    by (simp add: two_files_def smd_dgram_run ids parse_smd_header small_conf_def)
  have "\<exists>t. serial_loop (Suc (length ?evs)) small_conf \<lparr>se_events = ?e, se_batches = batch_iter_init [], se_man = new_man\<rparr>
      = Some (map pe_pydgrams ?evs, StopIteration, t)"
  proof (rule serial_run_gives_events [OF new_man [unfolded two] two_streams(7) [unfolded two] _ _ two_streams(3) run _ refl refl _ _ _ _ headers])
    show "chunk_good (sn_eb small_conf) (Suc 1) two_files" using two_files_events(2) by (simp add: c numeral_2_eq_2)
    show "\<forall>ev\<in>set (butlast ?evs). pe_service ev \<noteq> TransitionId_EndRun" unfolding evs by (rule two_files_events(6))
  qed (simp_all add: two_streams(1,2) small_conf_def)
  moreover have "Suc (length ?evs) = 5" unfolding evs two_files_events(4) by simp
  moreover have "map pe_pydgrams ?evs = [[Some (smd_dgram 10 TransitionId_BeginStep), Some (smd_dgram 10 TransitionId_BeginStep)],
      [Some (smd_dgram 20 TransitionId_L1Accept), None],
      [Some (smd_dgram 30 TransitionId_L1Accept), Some (smd_dgram 30 TransitionId_L1Accept)],
      [Some (smd_dgram 90 TransitionId_EndRun), Some (smd_dgram 90 TransitionId_EndRun)]]"
    unfolding evs two_files_events(5) two_files_merged by (simp add: two_files_def dgram_with_def smd_dgram_run ids)
  ultimately show ?thesis by (simp only:)
qed

text \<open>
  C17. A parallel run without bigdata files and with one event builder node, from the small files to the
  users of all bigdata nodes. \<open>Smd0.start\<close> and \<open>EventBuilderNode.start\<close> end without error whichever
  nodes ask, and the end is told as often as there are nodes. The loop of a node that asks in the last
  round and is told the end gives, in order, the events of the batches it was sent and of all other
  batches the steps (transitions), each event with the dgrams of all files that have its timestamp, and
  then stops; events taken after the user asked to terminate are not given. As every batch is sent once,
  every event that is no step is seen by exactly one node, and every step by all. The dgrams
  are whole, their times positive, every transition that is seen is in all files, the user's callback
  answers, and sizes fit the footers (\<open>chunk_good\<close>).
\<close>

theorem parallel_run_gives_events:
  assumes "smd_man_init junk (Suc k) = Inr s" and "length Ds = Suc k" and "streams_ok (sc_rd C) Ds" and "plain_conf C"
    and "end_together Ds" and "dgrams_left Ds < n"
    and "any_dest p" and "chunk_good p (Suc k) Ds" and "length (chunk_events p Ds) + MAX_BATCH_SIZE < 2 ^ 32"
    and "length configs = Suc k"
    and "ec_n_files E = 0" and "ec_n_smd_files E = Suc k" and "ev_man e = None"
    and "\<forall>D\<in>set Ds. \<forall>d\<in>set D. reads_header E d \<and> dg_service d \<noteq> 0"
  shows "\<exists>cks s1 s2 evss. smd0_chunks n C s = Some (cks, None, s1)
    \<and> smd0_start 2 1 cks (smd0_init 2 (Suc k) (replicate (length cks) 1 @ [1, 1])) = (Inr (), s2)
    \<and> concat evss = chunk_events p Ds
    \<and> (\<forall>rs1 rs2 rs3. set (rs1 @ rs2 @ rs3) \<subseteq> {1..m} \<and> length rs1 = length evss \<and> length rs2 = m \<and> length rs3 = m \<longrightarrow>
        (\<exists>batches rcv msgs ended. batches_sent p configs (Suc m) (rs1 @ rs2 @ rs3) (received_chunks 1 (s0_out s2)) = Some (batches, rcv, msgs)
          \<and> length ended = m \<and> set ended \<subseteq> {1..m}
          \<and> (\<forall>c\<in>set rs2 \<inter> set ended.
              \<exists>t. bd_start (Suc (length (node_view c rs1 evss))) terminated 0 E \<lparr>bd_events = e, bd_answers = msgs c\<rparr>
                = Some (yielded terminated 0 (map pe_pydgrams (node_view c rs1 evss)), StopIteration, t))))"
  by (rule parallel_events_run [OF assms])

theorem parallel_run_gives_events_witness:
  "\<exists>cks s1 s2 n batches rcv msgs t. smd0_chunks 8 smd_conf new_man = Some (cks, None, s1)
    \<and> smd0_start 2 1 cks (smd0_init 2 2 (replicate (length cks) 1 @ [1, 1])) = (Inr (), s2)
    \<and> batches_sent eb_parms0 [(), ()] 2 (replicate n 1 @ [1] @ [1]) (received_chunks 1 (s0_out s2)) = Some (batches, rcv, msgs)
    \<and> bd_start 5 (\<lambda>i. i = 3) 0 (sn_em small_conf)
        \<lparr>bd_events = \<lparr>ev_man = None, ev_fds = (\<lambda>_. []), ev_chunk_ids = (\<lambda>_. 0)\<rparr>, bd_answers = msgs 1\<rparr>
      = Some ([[Some (smd_dgram 10 TransitionId_BeginStep), Some (smd_dgram 10 TransitionId_BeginStep)],
        [Some (smd_dgram 20 TransitionId_L1Accept), None],
        [Some (smd_dgram 30 TransitionId_L1Accept), Some (smd_dgram 30 TransitionId_L1Accept)]], StopIteration, t)"
proof -
  have two: "Suc 1 = 2" by simp
  have big: "length (chunk_events eb_parms0 two_files) + MAX_BATCH_SIZE < 2 ^ 32" "dgrams_left two_files < 8"
    by (simp_all add: two_files_events(4) MAX_BATCH_SIZE_def two_streams(6))
  have configs: "length [(), ()] = 2" by simp
  let ?E = "sn_em small_conf" and ?e = "\<lparr>ev_man = None, ev_fds = (\<lambda>_. []), ev_chunk_ids = (\<lambda>_. 0)\<rparr>"
  have E: "ec_n_files ?E = 0" "ec_n_smd_files ?E = 2" "ev_man ?e = None" by (simp_all add: small_conf_def)
  have headers: "\<forall>D\<in>set two_files. \<forall>d\<in>set D. reads_header ?E d \<and> dg_service d \<noteq> 0"
    by (simp add: two_files_def smd_dgram_run ids parse_smd_header small_conf_def)
  from parallel_run_gives_events [where k = 1 and m = 1 and terminated = "\<lambda>i. i = 3", unfolded two, OF new_man two_streams(7)
      two_streams(1-3) big(2) two_files_events(3,2) big(1) configs E headers]
  obtain cks s1 s2 evss where r: "smd0_chunks 8 smd_conf new_man = Some (cks, None, s1)"
    "smd0_start 2 1 cks (smd0_init 2 2 (replicate (length cks) 1 @ [1, 1])) = (Inr (), s2)"
    "concat evss = chunk_events eb_parms0 two_files"
    "\<forall>rs1 rs2 rs3. set (rs1 @ rs2 @ rs3) \<subseteq> {1..1} \<and> length rs1 = length evss \<and> length rs2 = 1 \<and> length rs3 = 1 \<longrightarrow>
        (\<exists>batches rcv msgs ended. batches_sent eb_parms0 [(), ()] 2 (rs1 @ rs2 @ rs3) (received_chunks 1 (s0_out s2)) = Some (batches, rcv, msgs)
          \<and> length ended = 1 \<and> set ended \<subseteq> {1..1}
          \<and> (\<forall>c\<in>set rs2 \<inter> set ended.
              \<exists>t. bd_start (Suc (length (node_view c rs1 evss))) (\<lambda>i. i = 3) 0 ?E \<lparr>bd_events = ?e, bd_answers = msgs c\<rparr>
                = Some (yielded (\<lambda>i. i = 3) 0 (map pe_pydgrams (node_view c rs1 evss)), StopIteration, t)))"
    by (elim exE conjE) (rule that)
  let ?rs = "replicate (length evss) (1::nat)"
  have "set (?rs @ [1] @ [1]) \<subseteq> {1..1}" by auto
  then obtain batches rcv msgs ended where b:
    "batches_sent eb_parms0 [(), ()] 2 (?rs @ [1] @ [1]) (received_chunks 1 (s0_out s2)) = Some (batches, rcv, msgs)"
    "length ended = 1" "set ended \<subseteq> {1..1}"
    "\<forall>c\<in>set [1] \<inter> set ended.
       \<exists>t. bd_start (Suc (length (node_view c ?rs evss))) (\<lambda>i. i = 3) 0 ?E \<lparr>bd_events = ?e, bd_answers = msgs c\<rparr>
         = Some (yielded (\<lambda>i. i = 3) 0 (map pe_pydgrams (node_view c ?rs evss)), StopIteration, t)"
    using r(4) [THEN spec, THEN spec, THEN spec, of ?rs "[1]" "[1]"] by auto
  have "1 \<in> set ended" using b(2,3) by (cases ended) auto
  then obtain t where t: "bd_start (Suc (length (node_view 1 ?rs evss))) (\<lambda>i. i = 3) 0 ?E \<lparr>bd_events = ?e, bd_answers = msgs 1\<rparr>
         = Some (yielded (\<lambda>i. i = 3) 0 (map pe_pydgrams (node_view 1 ?rs evss)), StopIteration, t)"
    using b(4) by auto
  have view: "node_view 1 ?rs evss = chunk_events eb_parms0 two_files" using node_view_only [OF refl, of 1 evss] r(3) by simp
  have "yielded (\<lambda>i. i = 3) 0 (merge_events two_files) = [[Some (smd_dgram 10 TransitionId_BeginStep), Some (smd_dgram 10 TransitionId_BeginStep)],
        [Some (smd_dgram 20 TransitionId_L1Accept), None],
        [Some (smd_dgram 30 TransitionId_L1Accept), Some (smd_dgram 30 TransitionId_L1Accept)]]"
    unfolding two_files_merged by (simp add: two_files_def dgram_with_def smd_dgram_run ids)
  moreover have "Suc (length (chunk_events eb_parms0 two_files)) = 5" unfolding two_files_events(4) by simp
  ultimately have "bd_start 5 (\<lambda>i. i = 3) 0 ?E \<lparr>bd_events = ?e, bd_answers = msgs 1\<rparr>
      = Some ([[Some (smd_dgram 10 TransitionId_BeginStep), Some (smd_dgram 10 TransitionId_BeginStep)],
        [Some (smd_dgram 20 TransitionId_L1Accept), None],
        [Some (smd_dgram 30 TransitionId_L1Accept), Some (smd_dgram 30 TransitionId_L1Accept)]], StopIteration, t)"
    using t unfolding view two_files_events(5) by (simp only:)
  with r(1,2) b(1) show ?thesis
    by (intro exI [of _ cks] exI [of _ s1] exI [of _ s2] exI [of _ "length evss"] exI [of _ batches] exI [of _ rcv] exI [of _ msgs]
        exI [of _ t] conjI)
qed

end
