(* ===== verification/SingleIter.thy ===== *)
theory SingleIter
  imports DgramManFacts EnvStore
begin

text \<open>
  The third branch of \<open>Events\<close> (\<^verbatim>\<open>psana/psana/psexp/events.py\<close>), for a run from a single file or a
  shared memory: the events come from the datagram manager, and every transition goes into the store
  of slow data. That the store and the datagram manager share the objects of the configs is left out.
  What a datagram carries is the tree of its attributes.
\<close>

section \<open>State\<close>

record 'v single =
  sg_dm :: "'v attrs dgram_manager"
  sg_esm :: "'v esm"

definition env_dgram :: "'v attrs dgr \<Rightarrow> 'v dgm" where
  "env_dgram d = \<lparr>dg_timestamp = unat (dr_timestamp d), dg_service = dr_service d, dg_attrs = dr_content d\<rparr>"

text \<open>\<open>Event.service\<close>; no datagram is missing in an event of the datagram manager.\<close>

definition event_service :: "'v attrs dgr list \<Rightarrow> pyexc + nat" where
  "event_service evt = (case evt of
     [] \<Rightarrow> Inl AssertionError
   | d # _ \<Rightarrow> if dr_service d = 0 then Inl AssertionError else Inr (dr_service d))"

text \<open>\<open>_setup_envstore\<close> of a run: a new store, with the BeginRun of the run.\<close>

definition setup_envstore :: "'v pyo list \<Rightarrow> 'v attrs dgr list \<Rightarrow> pyexc + 'v esm" where
  "setup_envstore configs evt = sbind (esm_init configs) (update_by_event (map (\<lambda>d. Some (env_dgram d)) evt))"

text \<open>
  One call; the datagram manager has gone on when the store refuses a transition, and the event is
  then lost. An event without datagrams fails in \<open>service\<close>, before \<open>any(evt._dgrams)\<close> is asked.
\<close>

definition single_next :: "bool \<Rightarrow> ('v single, 'v attrs dgr list) eff" where
  "single_next terminated s =
     (if terminated then (Inl StopIteration, s)
      else (case dm_next (sg_dm s) of
         (Inl e, m) \<Rightarrow> (Inl e, s\<lparr>sg_dm := m\<rparr>)
       | (Inr evt, m) \<Rightarrow>
           (let s1 = s\<lparr>sg_dm := m\<rparr> in
            case sbind (event_service evt) (\<lambda>service.
                   if service \<noteq> TransitionId_L1Accept
                   then update_by_event (map (\<lambda>d. Some (env_dgram d)) evt) (sg_esm s)
                   else Inr (sg_esm s)) of
              Inl e \<Rightarrow> (Inl e, s1)
            | Inr esm \<Rightarrow> (Inr evt, s1\<lparr>sg_esm := esm\<rparr>))))"

text \<open>The iterator run for at most so many events: what it gave, and how it ended, if it did.\<close>

fun single_events :: "nat \<Rightarrow> 'v single \<Rightarrow> 'v attrs dgr list list \<times> pyexc option \<times> 'v single" where
  "single_events 0 s = ([], None, s)"
| "single_events (Suc n) s = (case single_next False s of
     (Inl e, s1) \<Rightarrow> ([], Some e, s1)
   | (Inr evt, s1) \<Rightarrow> (case single_events n s1 of (evts, r, s2) \<Rightarrow> (evt # evts, r, s2)))"

section \<open>The events and the store\<close>

definition transitions_of :: "'v attrs dgr list list \<Rightarrow> 'v dgm option list list" where
  "transitions_of evts =
     map (map (\<lambda>d. Some (env_dgram d))) (filter (\<lambda>e. dr_service (hd e) \<noteq> TransitionId_L1Accept) evts)"

definition has_service :: "'v attrs dgr list \<Rightarrow> bool" where
  "has_service evt \<longleftrightarrow> evt \<noteq> [] \<and> dr_service (hd evt) \<noteq> 0"

lemma event_service_run: "has_service evt \<Longrightarrow> event_service evt = Inr (dr_service (hd evt))"
  by (cases evt) (auto simp: has_service_def event_service_def)

text \<open>The iterator gives what the datagram manager gives, and the store has its transitions, in order.\<close>

lemma single_events_run:
  assumes "dm_events n (sg_dm s) = (evts, r, m)" and "list_all has_service evts"
    and "sfold update_by_event (transitions_of evts) (sg_esm s) = Inr esm"
  shows "single_events n s = (evts, r, s\<lparr>sg_dm := m, sg_esm := esm\<rparr>)"
  using assms
proof (induction n arbitrary: s evts)
  case 0
  then show ?case by (simp add: transitions_of_def)
next
  case (Suc n)
  obtain r1 m1 where next_dm: "dm_next (sg_dm s) = (r1, m1)" by force
  show ?case
  proof (cases r1)
    case (Inl e)
    then show ?thesis using Suc.prems next_dm by (auto simp: single_next_def transitions_of_def)
  next
    case (Inr evt)
    obtain evts' where evts: "evts = evt # evts'" "dm_events n m1 = (evts', r, m)"
      using Suc.prems(1) next_dm Inr by (auto split: prod.splits)
    have serv: "event_service evt = Inr (dr_service (hd evt))" using Suc.prems(2) evts(1) by (simp add: event_service_run)
    obtain esm1 where esm1: "(if dr_service (hd evt) \<noteq> TransitionId_L1Accept
          then update_by_event (map (\<lambda>d. Some (env_dgram d)) evt) (sg_esm s) else Inr (sg_esm s)) = Inr esm1"
        "sfold update_by_event (transitions_of evts') esm1 = Inr esm"
      using Suc.prems(3) evts(1) by (auto simp: transitions_of_def split: if_splits sum.splits)
    let ?s = "s\<lparr>sg_dm := m1, sg_esm := esm1\<rparr>"
    have "single_next False s = (Inr evt, ?s)"
      using next_dm Inr serv esm1(1) by (simp add: single_next_def sbind_def)
    moreover have "single_events n ?s = (evts', r, ?s\<lparr>sg_dm := m, sg_esm := esm\<rparr>)"
      using Suc.prems(2) evts esm1(2) by (intro Suc.IH) simp_all
    ultimately show ?thesis using evts(1) by simp
  qed
qed

text \<open>A file from its beginning: its events in order, every run closed, and a store of all transitions.\<close>

lemma single_file_run:
  assumes "configs \<noteq> []" and "list_all (good_reading (length configs)) rs"
    and "evts = complete_runs False configs False t rs" and "list_all has_service evts"
    and "sfold update_by_event (transitions_of evts) esm0 = Inr esm"
  shows "\<exists>m. single_events (Suc (length evts)) \<lparr>sg_dm = dgram_manager_init False configs rs, sg_esm = esm0\<rparr>
    = (evts, Some StopIteration, \<lparr>sg_dm = m, sg_esm = esm\<rparr>)"
proof -
  have "dm_at (dgram_manager_init False configs rs) False configs False t rs" by (simp add: dm_at_def dgram_manager_init_def)
  from dm_events_complete [OF assms(2,1) this] obtain m where
    "dm_events (Suc (length evts)) (dgram_manager_init False configs rs) = (evts, Some StopIteration, m)"
    by (auto simp: gives_def assms(3) simp del: dm_events.simps)
  then show ?thesis
    using single_events_run [of "Suc (length evts)" "\<lparr>sg_dm = dgram_manager_init False configs rs, sg_esm = esm0\<rparr>"] assms(4,5)
    by (simp del: dm_events.simps single_events.simps)
qed

end
