(* ===== verification/Spec2Isabelle.thy ===== *)
theory Spec2Isabelle
  imports ControlProps PsanaProps BigdataProps SmallProps RunProps DgramProps SourceProps SeqProps TypedJsonProps BuildProps SingleIter
begin

text \<open>
  A verification library for the run control and the parallel event delivery of LCLS-II.

  \<^bold>\<open>The program.\<close> LCLS-II data acquisition (\<^verbatim>\<open>psdaq\<close>) takes data from the detectors of a
  beam line; analysis (\<^verbatim>\<open>psana\<close>) reads the files it writes. Four parts of the Python code are
  modelled, in the order of their theories.

  \<^item> \<^bold>\<open>Run control\<close> (\<^verbatim>\<open>psdaq/psdaq/control\<close>). One control process (\<open>CollectionManager\<close>)
    holds a table of clients, answers requests on two sockets, and moves itself and its clients
    through the states of a run: reset, unallocated, allocated, connected, configured, starting,
    paused, running. A transition asks the clients twice: over messages (phase 1) and over the
    timing system (phase 2, PVs).

    \<^verbatim>\<open>PyJson\<close> has the messages. \<^verbatim>\<open>ControlDef\<close> has the names of \<^verbatim>\<open>ControlDef.py\<close>;
    \<^verbatim>\<open>ControlState\<close> the attributes of the manager and its ways to talk (\<open>wait_for_answers\<close>,
    \<open>confirm_response\<close>, the PV puts); \<^verbatim>\<open>Logbook\<close>, \<^verbatim>\<open>RunParams\<close> and \<^verbatim>\<open>ActiveDet\<close> the
    electronic logbook and the two kinds of files; \<^verbatim>\<open>Conditions\<close> and \<^verbatim>\<open>Rollcall\<close> every
    method \<open>condition_*\<close>; \<^verbatim>\<open>Machine\<close> the transition table, triggers and \<open>handle_setstate\<close>;
    \<^verbatim>\<open>Requests\<close> the handlers of requests and the steps of the process: the main loop, the thread
    of the fast socket and the thread that reports steps run on one manager, each until an exception
    ends it alone; the closure of these steps are the reachable states. \<^verbatim>\<open>Frames\<close> holds four locales that say once what a method leaves alone;
    they are interpreted on eight preorders. \<^verbatim>\<open>MachineFacts\<close>, \<^verbatim>\<open>ConditionFacts\<close>,
    \<^verbatim>\<open>RollcallFacts\<close>, \<^verbatim>\<open>ParamFacts\<close> and \<^verbatim>\<open>RequestFacts\<close> hold the lemmas,
    \<^verbatim>\<open>Samples\<close> a small installation for the applications, \<^verbatim>\<open>ControlProps\<close> the properties:
    every request is answered, a target state is reached or an error reported, triggers follow the
    graph of states, what a successful transition asked of whom and in which order.

  \<^item> \<^bold>\<open>Event delivery\<close> (\<^verbatim>\<open>psana/psana/psexp\<close>, \<^verbatim>\<open>smalldata.py\<close>,
    \<^verbatim>\<open>dgrammanager.py\<close>, \<^verbatim>\<open>smdreader.pyx\<close>, \<^verbatim>\<open>eventbuilder.pyx\<close>). Rank 0 (\<open>Smd0\<close>) reads
    the small files in windows of time and sends them as chunks to the event builders, these build batches of events for the bigdata nodes, which read the big data and run the user's
    loop; servers of smalldata collect its results. Transitions between events must reach every
    node although a node sees only a part of the events, which is what \<open>StepHistory\<close> is for.

    \<^verbatim>\<open>SmdRead\<close> and \<^verbatim>\<open>SmdManager\<close> have the reader of the small files with its buffers and
    windows, its manager and the batches of a serial run; \<^verbatim>\<open>EventBuild\<close> the event builder over the
    bytes of its streams; \<^verbatim>\<open>EventIter\<close> the iterator over events behind every run and the loop of a
    bigdata node. \<^verbatim>\<open>EventBuildFacts\<close> shows that the event builder merges its streams by time
    (\<open>merge_events\<close> is the reference), \<^verbatim>\<open>EventNode\<close> runs the node with this event builder,
    \<^verbatim>\<open>SmdReadFacts\<close> and \<^verbatim>\<open>SmdWindows\<close> read buffers as lists of dgrams and show that windows are
    consecutive pieces of all files, \<^verbatim>\<open>SmdPipeline\<close> puts reader, \<open>Smd0\<close> and event builder node behind
    each other, \<^verbatim>\<open>EventIterFacts\<close> has the events of a bigdata node, \<^verbatim>\<open>SerialFacts\<close> the
    batches and the loop of a serial run, \<^verbatim>\<open>SerialEvents\<close> what the event manager finds in the
    batches of the event builder when there are no bigdata files, so that such a run gives the merged
    events of its files, \<^verbatim>\<open>ParallelRun\<close> what all bigdata nodes of a parallel run give, and \<^verbatim>\<open>BuildProps\<close> the properties. \<^verbatim>\<open>SingleIter\<close> has the iterator
    for a single file or a shared memory, with the store of slow data.

    \<^verbatim>\<open>PacketFooter\<close>, \<^verbatim>\<open>StepHistory\<close> and \<^verbatim>\<open>Repack\<close> have the bytes of batches, the history
    and the insertion of steps; \<^verbatim>\<open>Smd0Node\<close>, \<^verbatim>\<open>EbNode\<close> and \<^verbatim>\<open>EbDest\<close> the loops of the
    nodes as functions of the order in which the others ask, with \<^verbatim>\<open>Smd0Facts\<close> and
    \<^verbatim>\<open>EbFacts\<close>, which read what a client receives from the bytes of its messages;
    \<^verbatim>\<open>EventManager\<close> and \<^verbatim>\<open>EmRun\<close> the reading of big data in chunks, with
    \<^verbatim>\<open>EventManagerFacts\<close> and \<^verbatim>\<open>EmBatch\<close>, which has the bytes of a batch and the places in the
    big data that its smalldata name. \<^verbatim>\<open>StepIter\<close> has the loops of a user over events and steps,
    \<^verbatim>\<open>EnvStore\<close> and \<^verbatim>\<open>EnvFacts\<close> the store of slow data. \<^verbatim>\<open>SmallServer\<close>,
    \<^verbatim>\<open>SmallClient\<close> and \<^verbatim>\<open>SmallJoin\<close> model smalldata, \<^verbatim>\<open>SmallServerFacts\<close> and
    \<^verbatim>\<open>SmallTable\<close> read the server as a table of columns. \<^verbatim>\<open>PyObj\<close>, \<^verbatim>\<open>DetTable\<close> and
    \<^verbatim>\<open>DgramMan\<close> have the objects of the dgram reader, the tables of detectors and the iterator
    over a file, with \<^verbatim>\<open>DetFacts\<close> and \<^verbatim>\<open>DgramManFacts\<close>; \<^verbatim>\<open>DataSource\<close> and
    \<^verbatim>\<open>DataFacts\<close> the choice of files and the loop over runs. The properties are in
    \<^verbatim>\<open>PsanaProps\<close>, \<^verbatim>\<open>BigdataProps\<close>, \<^verbatim>\<open>SmallProps\<close>, \<^verbatim>\<open>RunProps\<close>,
    \<^verbatim>\<open>DgramProps\<close> and \<^verbatim>\<open>SourceProps\<close>: nothing is lost, doubled or reordered on the way,
    optimised reading equals direct reading, columns hold what the events gave.

  \<^item> \<^bold>\<open>Timing sequences\<close> (\<^verbatim>\<open>psdaq/psdaq/seq\<close>, \<^verbatim>\<open>pyxpm/pvseq.py\<close>). A script makes a list of
    instructions, a client puts it in PVs, the device encodes it into 32-bit words of the
    instruction memory of a sequence engine. \<^verbatim>\<open>SeqInstr\<close> has the instructions, their two
    encodings and their execution (by which sequences are plotted), \<^verbatim>\<open>SeqDevice\<close> the registers
    and PVs of the device and the client, \<^verbatim>\<open>SeqScripts\<close> the fixed rate scripts.
    \<^verbatim>\<open>SeqFacts\<close> says what of a program arrives in the memory,
    \<^verbatim>\<open>SeqPlay\<close> what a sequence plays, \<^verbatim>\<open>SeqProps\<close> has the properties.

  \<^item> \<^bold>\<open>Detector configuration\<close> (\<^verbatim>\<open>psdaq/psdaq/configdb/typed_json.py\<close>). JSON dictionaries
    with the type of each entry beside it. \<^verbatim>\<open>TypedJson\<close> has the values, names and
    \<open>cdict\<close>, \<^verbatim>\<open>TypedJsonConv\<close> the conversions, \<^verbatim>\<open>TypedJsonUpdate\<close> validation and update;
    \<^verbatim>\<open>TypedJsonFacts\<close> and \<^verbatim>\<open>TypedJsonBuild\<close> hold the lemmas and \<^verbatim>\<open>TypedJsonProps\<close>
    the properties: the round trip, which keeps all but the enumerations of arrays, and which values
    keep their types.

  \<^bold>\<open>How the model follows the code.\<close> A method that reads and writes its object, calls the outside
  world or raises is a function of type \<open>('s, 'a) eff\<close> of \<^verbatim>\<open>Prelude\<close>: from the state to an
  exception or a value, and the state after it. \<open>efor\<close> and \<open>efold\<close> are the loops over a list,
  \<open>etry\<close> the \<^verbatim>\<open>try\<close> statement. Exceptions are the datatype \<open>pyexc\<close>. Integers of Python are \<open>int\<close>
  (registers and bytes are words, and where the code masks, the mask is written). Objects are
  records with the attributes of the code, dictionaries are association lists where their order can
  be seen, and maps where it cannot. Definitions carry the names of the code; a method of a class is
  prefixed with a short form of the class.

  Code that is not in the repository is a parameter: the answers of clients, PVs and the web service
  are functions in the record \<open>conf\<close>, indexed by a counter of calls, so that every answer may differ
  from the one before; the \<^verbatim>\<open>transitions\<close> package is a function with the locale
  \<open>transitions_package\<close> for its documented behaviour, interpreted on \<open>std_trig\<close>; the reader of
  dgrams, MPI, numpy, h5py and the operating system's \<^verbatim>\<open>pread\<close> are arguments of the definitions
  that use them. MPI with \<open>ANY_SOURCE\<close> is a list of the ranks in the order they are served, and
  properties quantify over that list.

  \<^bold>\<open>Loops and bounds.\<close> Loops over data are structural recursion or \<open>function\<close> with a measure. Where
  the code may not return, it is \<open>partial_function (option)\<close> and not returning is \<open>None\<close>:
  \<open>setstate_loop\<close>, \<open>step_events\<close>, \<open>seq_clean\<close>, \<open>ac_wait\<close>, \<open>get_loop\<close>, \<open>next_chunk\<close>, \<open>collect_proxies\<close>,
  \<open>parallel_next\<close>, \<open>serial_next\<close>; the properties about them state that there is a result. The loops
  over chunks and over the events of a node (\<open>smd0_chunks\<close>, \<open>bd_start\<close>, \<open>serial_loop\<close>) take as fuel the number of
  rounds, and the properties give the number that is enough: the dgrams of the files, the events of
  the batches. A loop of the control process that polls
  until a deadline runs over the list of its rounds, each with the time since the loop began: the
  outside world decides how many rounds there are, and the properties hold for every list.
  The loop that plots a sequence takes fuel, the number of instructions to play (\<open>seq_plot\<close>). The
  rates of the scripts are stated with runs of the engine (\<open>plays\<close> of \<^verbatim>\<open>SeqPlay\<close>) for any number of
  periods and need none; the burst script is plotted with fuel 300, and that it is enough is part of
  the statement.

  \<^bold>\<open>Not modelled.\<close>
  \<^item> In the control process: the timer thread of slow updates beyond its switch, the interleaving of
    threads inside a handler, logging, and the fake PVs for strings and floats.
  \<^item> Command line tools and user interfaces, the configuration data base and the scripts that
    write detector registers: input and output with little logic of their own.
  \<^item> In psana: the data sources of MPI and shared memory beyond their loops, the sequential
    \<open>repack\<close> of the reader (nothing calls it), clocks and counters, detector interfaces and
    calibration (numerical code over numpy), graphics. The memory behind a view and the capacity of
    the reader's arrays are not modelled, reading outside a view is an error value; loops that run
    over the files in parallel run one file after the other, for they write to different files.
  \<^item> In the sequences: drawing, and the scripts for AC rates.
  \<^item> In typed JSON: the writing of text files and the access to numpy arrays beyond their shape and
    elements.
  \<^item> The C++ code (\<^verbatim>\<open>psdaq/drp\<close>, \<^verbatim>\<open>psdaq/eb\<close>, \<^verbatim>\<open>xtcdata\<close>).
\<close>

end
